(* ===== verification/Prelude.thy ===== *)
theory Prelude
  imports Main "HOL-Library.Word" "HOL-Library.Monad_Syntax"
begin

text \<open>
  Shared vocabulary of the development: machine integers and byte strings, the
  outcome of a Rust computation that may panic, the slice primitives of the
  Rust standard library, little-endian integer codecs, and the generic lemmas
  on lists and words that the component theories rest on.

  Conventions.  A Rust integer of \<open>w\<close> bits is a \<open>w word\<close>; \<open>usize\<close> values
  (lengths, offsets, counters bounded by buffer sizes) are \<open>nat\<close>.  A byte
  array or slice is a \<open>bytes\<close> list.  A computation that may panic has type
  \<open>'a rust\<close>, where \<open>None\<close> is the panic; a \<open>Result\<close> is a sum whose left side is
  the error.  A function that fills an output buffer takes the buffer's old
  contents and returns the new ones, so a too-short buffer shows up as a panic
  exactly where Rust's bounds check fires.
\<close>

unbundle bit_operations_syntax

section \<open>Types\<close>

type_synonym u8 = "8 word"
type_synonym u16 = "16 word"
type_synonym u32 = "32 word"
type_synonym u64 = "64 word"
type_synonym bytes = "u8 list"

text \<open>The outcome of a computation that may panic: \<open>None\<close> is the panic.\<close>

type_synonym 'a rust = "'a option"

abbreviation (input) panic :: "'a rust" where
  "panic \<equiv> None"

named_theorems rust_simps \<open>unfolding of the slice primitives\<close>
named_theorems wire_simps \<open>evaluation of frame and header accessors\<close>

section \<open>Slices and arrays\<close>

text \<open>\<open>xs[i]\<close>, \<open>&xs[a..b]\<close>, \<open>&xs[a..]\<close>, \<open>out[i] = v\<close> and
  \<open>out[off..off + src.len()].copy_from_slice(src)\<close>.\<close>

definition get_at :: "'a list \<Rightarrow> nat \<Rightarrow> 'a rust" where
  [rust_simps]: "get_at xs i = (if i < length xs then Some (xs ! i) else panic)"

definition slice :: "'a list \<Rightarrow> nat \<Rightarrow> nat \<Rightarrow> 'a list rust" where
  [rust_simps]: "slice xs a b = (if a \<le> b \<and> b \<le> length xs then Some (take (b - a) (drop a xs)) else panic)"

definition slice_from :: "'a list \<Rightarrow> nat \<Rightarrow> 'a list rust" where
  [rust_simps]: "slice_from xs a = (if a \<le> length xs then Some (drop a xs) else panic)"

definition set_at :: "'a list \<Rightarrow> nat \<Rightarrow> 'a \<Rightarrow> 'a list rust" where
  [rust_simps]: "set_at out i v = (if i < length out then Some (out[i := v]) else panic)"

definition copy_into :: "'a list \<Rightarrow> nat \<Rightarrow> 'a list \<Rightarrow> 'a list rust" where
  [rust_simps]: "copy_into out off src =
     (if off + length src \<le> length out
      then Some (take off out @ src @ drop (off + length src) out) else panic)"

text \<open>\<open>xs.get(i).copied()\<close>: the checked read, an \<open>Option\<close> and no panic.\<close>

definition get_opt :: "'a list \<Rightarrow> nat \<Rightarrow> 'a option" where
  [rust_simps]: "get_opt xs i = (if i < length xs then Some (xs ! i) else None)"

text \<open>The array literal \<open>[0u8; n]\<close>.\<close>

abbreviation zeros :: "nat \<Rightarrow> bytes" where
  "zeros n \<equiv> replicate n 0"

lemma length_copy_into: "copy_into out off src = Some out' \<Longrightarrow> length out' = length out"
  by (auto simp: copy_into_def split: if_splits)

lemma length_set_at: "set_at out i v = Some out' \<Longrightarrow> length out' = length out"
  by (auto simp: set_at_def split: if_splits)

lemma copy_into_prefix:
  assumes "copy_into out off src = Some out'"
  shows "take (off + length src) out' = take off out @ src"
  using assms by (auto simp: copy_into_def split: if_splits)

lemma copy_into_Some_iff: "(\<exists>out'. copy_into out off src = Some out') \<longleftrightarrow> off + length src \<le> length out"
  by (auto simp: copy_into_def)

section \<open>Little-endian integers\<close>

definition to_le16 :: "u16 \<Rightarrow> bytes" where
  "to_le16 w = [ucast w, ucast (drop_bit 8 w)]"

definition from_le16 :: "u8 \<Rightarrow> u8 \<Rightarrow> u16" where
  "from_le16 a b = ucast a OR push_bit 8 (ucast b)"

definition to_le32 :: "u32 \<Rightarrow> bytes" where
  "to_le32 w = [ucast w, ucast (drop_bit 8 w), ucast (drop_bit 16 w), ucast (drop_bit 24 w)]"

definition from_le32 :: "u8 \<Rightarrow> u8 \<Rightarrow> u8 \<Rightarrow> u8 \<Rightarrow> u32" where
  "from_le32 a b c d =
     ucast a OR push_bit 8 (ucast b) OR push_bit 16 (ucast c) OR push_bit 24 (ucast d)"

lemma length_to_le16 [simp]: "length (to_le16 w) = 2"
  by (simp add: to_le16_def)

lemma length_to_le32 [simp]: "length (to_le32 w) = 4"
  by (simp add: to_le32_def)

lemma bit_u8_high: "8 \<le> n \<Longrightarrow> \<not> bit (w :: u8) n"
  using bit_imp_le_length [of w n] by auto

lemma from_to_le16: "from_le16 (ucast w) (ucast (drop_bit 8 w)) = w"
  unfolding from_le16_def
  by (rule bit_word_eqI) (auto simp: bit_simps)

lemma from_to_le32:
  "from_le32 (ucast w) (ucast (drop_bit 8 w)) (ucast (drop_bit 16 w)) (ucast (drop_bit 24 w)) = w"
proof (rule bit_word_eqI)
  fix n :: nat
  assume "n < LENGTH(32)"
  then consider "n < 8" | "8 \<le> n" "n < 16" | "16 \<le> n" "n < 24" | "24 \<le> n" "n < 32"
    by fastforce
  then show "bit (from_le32 (ucast w) (ucast (drop_bit 8 w)) (ucast (drop_bit 16 w))
      (ucast (drop_bit 24 w))) n = bit w n"
    unfolding from_le32_def by cases (auto simp: bit_simps)
qed

lemma to_from_le32: "to_le32 (from_le32 a b c d) = [a, b, c, d]"
  unfolding to_le32_def from_le32_def
  by (auto intro!: bit_word_eqI simp: bit_simps bit_u8_high)

lemma to_from_le16: "to_le16 (from_le16 a b) = [a, b]"
  unfolding to_le16_def from_le16_def
  by (auto intro!: bit_word_eqI simp: bit_simps bit_u8_high)

section \<open>Words as naturals\<close>

lemma unat_drop_bit: "unat (drop_bit n w) = unat w div 2 ^ n" for w :: "'a::len word"
  by (simp add: unat_drop_bit_eq flip: drop_bit_eq_div)

lemma unat_and_mask: "unat (w AND mask n) = unat w mod 2 ^ n" for w :: "'a::len word"
  by (simp add: unsigned_take_bit_eq flip: take_bit_eq_mask take_bit_eq_mod)

lemma unat_and_3 [wire_simps]: "unat (w AND 3) = unat w mod 4" for w :: u8
  using unat_and_mask [of w 2] by (simp add: mask_eq_exp_minus_1)

lemma unat_and_15 [wire_simps]: "unat (w AND 15) = unat w mod 16" for w :: u8
  using unat_and_mask [of w 4] by (simp add: mask_eq_exp_minus_1)

lemma unat_and_63 [wire_simps]: "unat (w AND 63) = unat w mod 64" for w :: u8
  using unat_and_mask [of w 6] by (simp add: mask_eq_exp_minus_1)

lemma unat_u8_lt [simp]: "unat (w :: u8) < 256"
  using unsigned_less [of w] by simp

lemma u8_eq_iff: "a = b \<longleftrightarrow> unat a = unat b" for a b :: u8
  by (simp add: word_unat_eq_iff)

section \<open>Saturating arithmetic\<close>

text \<open>\<open>saturating_sub\<close> and \<open>saturating_mul\<close> of \<open>u64\<close>, \<open>saturating_add\<close> of \<open>u32\<close>.\<close>

definition saturating_sub :: "u64 \<Rightarrow> u64 \<Rightarrow> u64" where
  "saturating_sub a b = (if a \<le> b then 0 else a - b)"

definition saturating_mul :: "u64 \<Rightarrow> u64 \<Rightarrow> u64" where
  "saturating_mul a b = (if unat a * unat b < 2 ^ 64 then a * b else - 1)"

definition saturating_add32 :: "u32 \<Rightarrow> u32 \<Rightarrow> u32" where
  "saturating_add32 a b = (if unat a + unat b < 2 ^ 32 then a + b else - 1)"

lemma unat_saturating_sub: "unat (saturating_sub a b) = unat a - unat b"
  by (auto simp: saturating_sub_def word_le_nat_alt unat_sub)

lemma unat_u16_ucast: "unat (ucast (w :: u16) :: u64) = unat w"
  using unsigned_less [of w, where 'a = nat] by (simp add: unsigned_ucast_eq take_bit_nat_eq_self_iff)

lemma unat_u32_ucast: "unat (ucast (w :: u32) :: u64) = unat w"
  using unsigned_less [of w, where 'a = nat] by (simp add: unsigned_ucast_eq take_bit_nat_eq_self_iff)

lemma unat_u8_ucast: "unat (ucast (w :: u8) :: u64) = unat w"
proof -
  have "unat w < 2 ^ 64"
    by (rule less_trans [OF unat_u8_lt]) simp
  then show ?thesis
    by (simp add: unsigned_ucast_eq take_bit_nat_eq_self_iff)
qed

lemma unat_saturating_mul:
  "unat a * unat b < 2 ^ 64 \<Longrightarrow> unat (saturating_mul a b) = unat a * unat b"
  by (simp add: saturating_mul_def unat_word_ariths)

lemma unat_seconds_ms: "unat (saturating_mul (ucast (w :: u32)) 1000) = 1000 * unat w"
  using unsigned_less [of w, where 'a = nat] by (subst unat_saturating_mul) (simp_all add: unat_u32_ucast)

lemma unat_seconds_ms16: "unat (saturating_mul (ucast (w :: u16)) 1000) = 1000 * unat w"
  using unsigned_less [of w, where 'a = nat] by (subst unat_saturating_mul) (simp_all add: unat_u16_ucast)

lemma unat_saturating_add32: "unat (saturating_add32 a 1) = min (Suc (unat a)) (2 ^ 32 - 1)"
  using unsigned_less [of a, where 'a = nat] by (auto simp: saturating_add32_def unat_word_ariths unsigned_minus_1_eq_mask mask_eq_exp_minus_1 min_def)

section \<open>Lists\<close>

lemma take_take_append: "take c (take c ys @ zs) = take c (ys @ zs)"
  by (simp add: min_def)

lemma list_5_cases:
  assumes "5 \<le> length xs"
  obtains a b c d e ys where "xs = a # b # c # d # e # ys"
  using assms by (auto simp: Suc_le_length_iff eval_nat_numeral)

lemma take_drop_mid: "length xs = n \<Longrightarrow> take (length ys) (drop n (xs @ ys @ zs)) = ys"
  by simp

section \<open>Length-prefixed fields\<close>

text \<open>The idiom \<open>let mut f = [0u8; cap]; f[..n].copy_from_slice(&src[off..off + n])\<close> of the decoders.\<close>

definition read_field :: "nat \<Rightarrow> bytes \<Rightarrow> nat \<Rightarrow> nat \<Rightarrow> bytes rust" where
  "read_field cap src off n = do {
     b \<leftarrow> slice src off (off + n);
     copy_into (zeros cap) 0 b
   }"

definition pad :: "nat \<Rightarrow> bytes \<Rightarrow> bytes" where
  "pad cap b = b @ zeros (cap - length b)"

lemma length_pad [simp]: "length b \<le> cap \<Longrightarrow> length (pad cap b) = cap"
  by (simp add: pad_def)

lemma take_pad [simp]: "length b = n \<Longrightarrow> take n (pad cap b) = b"
  by (simp add: pad_def)

lemma read_field_Some:
  assumes "off + n \<le> length src" "n \<le> cap"
  shows "read_field cap src off n = Some (pad cap (take n (drop off src)))"
  using assms by (simp add: read_field_def slice_def copy_into_def pad_def)

section \<open>Emitting into a buffer\<close>

text \<open>\<open>put p out\<close> is the buffer \<open>out\<close> with its first bytes overwritten by \<open>p\<close>; an encoder that writes
  its fields one after the other extends \<open>p\<close> with each write.\<close>

definition put :: "'a list \<Rightarrow> 'a list \<Rightarrow> 'a list" where
  "put p out = p @ drop (length p) out"

named_theorems emit \<open>writes that extend the written prefix of a buffer\<close>

lemma emit_copy_first [emit]:
  "length src \<le> length out \<Longrightarrow> copy_into out 0 src = Some (put src out)"
  by (simp add: copy_into_def put_def)

lemma emit_set_first [emit]:
  "0 < length out \<Longrightarrow> set_at out 0 x = Some (put [x] out)"
  by (cases out) (simp_all add: set_at_def put_def)

lemma emit_copy [emit]:
  "length p = n \<Longrightarrow> n + length src \<le> length out \<Longrightarrow> copy_into (put p out) n src = Some (put (p @ src) out)"
  by (simp add: copy_into_def put_def add.commute)

lemma emit_set [emit]:
  assumes "length p = n" "n < length out"
  shows "set_at (put p out) n x = Some (put (p @ [x]) out)"
proof -
  have "drop n out = out ! n # drop (Suc n) out"
    using assms(2) by (simp add: Cons_nth_drop_Suc)
  then show ?thesis
    using assms by (simp add: set_at_def put_def list_update_append)
qed

lemma length_put [simp]: "length p \<le> length out \<Longrightarrow> length (put p out) = length out"
  by (simp add: put_def)

lemma take_put [simp]: "length p = n \<Longrightarrow> take n (put p out) = p"
  by (simp add: put_def)

lemma slice_put [emit]: "length p = n \<Longrightarrow> n \<le> length out \<Longrightarrow> slice (put p out) 0 n = Some p"
  by (simp add: slice_def)

lemma put_zeros: "length p \<le> n \<Longrightarrow> put p (zeros n) = pad n p"
  by (simp add: put_def pad_def)

section \<open>Filling a zeroed buffer from the front\<close>

text \<open>A buffer whose first \<open>n\<close> bytes are written and the rest still zero.\<close>

lemma fill_copy:
  "length p = n \<Longrightarrow> length src \<le> m \<Longrightarrow>
   copy_into (p @ zeros m) n src = Some ((p @ src) @ zeros (m - length src))"
  by (simp add: copy_into_def)

lemma fill_set:
  "length p = n \<Longrightarrow> 0 < m \<Longrightarrow> set_at (p @ zeros m) n x = Some ((p @ [x]) @ zeros (m - 1))"
  by (cases m) (simp_all add: set_at_def list_update_append)

lemma fill_slice:
  "length p \<le> n \<Longrightarrow> n \<le> length p + m \<Longrightarrow> slice (p @ zeros m) 0 n = Some (p @ zeros (n - length p))"
  by (auto simp: slice_def take_replicate min_def)

end
