(* ===== verification/Crypto.thy ===== *)
theory Crypto
  imports Prelude
begin

text \<open>
  \<open>protocol/src/crypto.rs\<close>: AES-128-ECB over caller-supplied buffers, the
  2-byte truncated HMAC, and the encrypt-then-MAC envelope.  The primitives of
  the \<open>aes\<close>, \<open>hmac\<close> and \<open>sha2\<close> crates are not part of the repository: they are
  the fields of a record every definition takes, and \<open>crypto_ok\<close> states what is
  documented of them (block length, decryption inverts encryption, digest
  lengths).  Streaming \<open>update\<close> calls hash the concatenation of their inputs.

  The loops are refined to the list-level \<open>ecb\<close> specification; from it follow
  the envelope's round trip and its exact rejection condition.
\<close>

section \<open>External primitives\<close>

record crypto_prims =
  aes_encrypt_block :: "bytes \<Rightarrow> bytes \<Rightarrow> bytes"
  aes_decrypt_block :: "bytes \<Rightarrow> bytes \<Rightarrow> bytes"
  hmac_sha256 :: "bytes \<Rightarrow> bytes \<Rightarrow> bytes"
  sha256_digest :: "bytes \<Rightarrow> bytes"

definition crypto_ok :: "crypto_prims \<Rightarrow> bool" where
  "crypto_ok C \<longleftrightarrow>
     (\<forall>k b. length k = 16 \<longrightarrow> length b = 16 \<longrightarrow>
        length (aes_encrypt_block C k b) = 16 \<and> length (aes_decrypt_block C k b) = 16 \<and>
        aes_decrypt_block C k (aes_encrypt_block C k b) = b) \<and>
     (\<forall>k d. length (hmac_sha256 C k d) = 32) \<and>
     (\<forall>d. length (sha256_digest C d) = 32)"

section \<open>AES-128-ECB\<close>

text \<open>Round up to the next multiple of 16: \<open>n.div_ceil(16) * 16\<close>.\<close>

definition div_ceil_16 :: "nat \<Rightarrow> nat" where
  "div_ceil_16 n = (n + 15) div 16"

definition ceil_16 :: "nat \<Rightarrow> nat" where
  "ceil_16 n = div_ceil_16 n * 16"

text \<open>One pass of the encryption loop per block; \<open>k\<close> counts the passes left, \<open>i\<close> is the index.\<close>

fun ecb_encrypt_loop :: "crypto_prims \<Rightarrow> bytes \<Rightarrow> bytes \<Rightarrow> nat \<Rightarrow> nat \<Rightarrow> bytes \<Rightarrow> bytes rust" where
  "ecb_encrypt_loop C key plaintext 0 i out = Some out"
| "ecb_encrypt_loop C key plaintext (Suc k) i out = do {
     let s = i * 16;
     let e = min (s + 16) (length plaintext);
     chunk \<leftarrow> slice plaintext s e;
     block \<leftarrow> copy_into (zeros 16) 0 chunk;
     out \<leftarrow> copy_into out s (aes_encrypt_block C key block);
     ecb_encrypt_loop C key plaintext k (Suc i) out
   }"

definition aes128_ecb_encrypt :: "crypto_prims \<Rightarrow> bytes \<Rightarrow> bytes \<Rightarrow> bytes \<Rightarrow> (bytes \<times> nat) rust" where
  "aes128_ecb_encrypt C key plaintext out = do {
     let nblocks = div_ceil_16 (length plaintext);
     let ct_len = nblocks * 16;
     out \<leftarrow> ecb_encrypt_loop C key plaintext nblocks 0 out;
     Some (out, ct_len)
   }"

fun ecb_decrypt_loop :: "crypto_prims \<Rightarrow> bytes \<Rightarrow> bytes \<Rightarrow> nat \<Rightarrow> nat \<Rightarrow> bytes \<Rightarrow> bytes rust" where
  "ecb_decrypt_loop C key ciphertext 0 i out = Some out"
| "ecb_decrypt_loop C key ciphertext (Suc k) i out = do {
     block \<leftarrow> slice ciphertext (i * 16) ((i + 1) * 16);
     out \<leftarrow> copy_into out (i * 16) (aes_decrypt_block C key block);
     ecb_decrypt_loop C key ciphertext k (Suc i) out
   }"

definition aes128_ecb_decrypt :: "crypto_prims \<Rightarrow> bytes \<Rightarrow> bytes \<Rightarrow> bytes \<Rightarrow> (bytes \<times> nat) rust" where
  "aes128_ecb_decrypt C key ciphertext out = do {
     let nblocks = length ciphertext div 16;
     out \<leftarrow> ecb_decrypt_loop C key ciphertext nblocks 0 out;
     Some (out, length ciphertext)
   }"

section \<open>HMAC and SHA-256\<close>

definition hmac_sha256_2 :: "crypto_prims \<Rightarrow> bytes \<Rightarrow> bytes \<Rightarrow> bytes" where
  "hmac_sha256_2 C key data = (let result = hmac_sha256 C key data in [result ! 0, result ! 1])"

definition hmac_sha256_2_parts :: "crypto_prims \<Rightarrow> bytes \<Rightarrow> bytes \<Rightarrow> bytes \<Rightarrow> bytes" where
  "hmac_sha256_2_parts C key part_a part_b =
     (let result = hmac_sha256 C key (part_a @ part_b) in [result ! 0, result ! 1])"

definition sha256 :: "crypto_prims \<Rightarrow> bytes \<Rightarrow> bytes" where
  "sha256 C data = sha256_digest C data"

definition sha256_2 :: "crypto_prims \<Rightarrow> bytes \<Rightarrow> bytes \<Rightarrow> bytes" where
  "sha256_2 C a b = sha256_digest C (a @ b)"

section \<open>Encrypt-then-MAC\<close>

datatype MacError = MacError

definition encrypt_then_mac_var ::
    "crypto_prims \<Rightarrow> bytes \<Rightarrow> bytes \<Rightarrow> bytes \<Rightarrow> bytes \<Rightarrow> (bytes \<times> nat) rust" where
  "encrypt_then_mac_var C aes_key hmac_key plaintext out = do {
     let ct_len = ceil_16 (length plaintext);
     body \<leftarrow> slice_from out 2;
     (body, _) \<leftarrow> aes128_ecb_encrypt C aes_key plaintext body;
     let out = take 2 out @ body;
     ct \<leftarrow> slice out 2 (2 + ct_len);
     let mac = hmac_sha256_2 C hmac_key ct;
     out \<leftarrow> set_at out 0 (mac ! 0);
     out \<leftarrow> set_at out 1 (mac ! 1);
     Some (out, 2 + ct_len)
   }"

definition encrypt_then_mac ::
    "crypto_prims \<Rightarrow> bytes \<Rightarrow> bytes \<Rightarrow> bytes \<Rightarrow> bytes \<Rightarrow> (bytes \<times> nat) rust" where
  "encrypt_then_mac C aes_key hmac_key plaintext out =
     encrypt_then_mac_var C aes_key hmac_key plaintext out"

text \<open>The output buffer is returned beside the \<open>Result\<close>: it is untouched on an error.\<close>

definition mac_then_decrypt_var ::
    "crypto_prims \<Rightarrow> bytes \<Rightarrow> bytes \<Rightarrow> bytes \<Rightarrow> bytes \<Rightarrow> (bytes \<times> (MacError + nat)) rust" where
  "mac_then_decrypt_var C aes_key hmac_key payload out =
     (if length payload < 2 then Some (out, Inl MacError)
      else
        let mac_slice = take 2 payload; ciphertext = drop 2 payload in
        if length ciphertext mod 16 \<noteq> 0 then Some (out, Inl MacError)
        else
          let expected_mac = hmac_sha256_2 C hmac_key ciphertext in
          if ((mac_slice ! 0 XOR expected_mac ! 0) OR (mac_slice ! 1 XOR expected_mac ! 1)) \<noteq> 0
          then Some (out, Inl MacError)
          else do {
            (out, n) \<leftarrow> aes128_ecb_decrypt C aes_key ciphertext out;
            Some (out, Inr n)
          })"

definition mac_then_decrypt ::
    "crypto_prims \<Rightarrow> bytes \<Rightarrow> bytes \<Rightarrow> bytes \<Rightarrow> bytes \<Rightarrow> (bytes \<times> (MacError + nat)) rust" where
  "mac_then_decrypt C aes_key hmac_key payload out =
     mac_then_decrypt_var C aes_key hmac_key payload out"

section \<open>Specification: ECB over lists of blocks\<close>

primrec ecb :: "(bytes \<Rightarrow> bytes) \<Rightarrow> nat \<Rightarrow> bytes \<Rightarrow> bytes" where
  "ecb f 0 xs = []"
| "ecb f (Suc n) xs = f (take 16 xs) @ ecb f n (drop 16 xs)"

text \<open>The zero-padded plaintext.\<close>

definition pad16 :: "bytes \<Rightarrow> bytes" where
  "pad16 xs = xs @ zeros (ceil_16 (length xs) - length xs)"

definition ecb_encrypt :: "crypto_prims \<Rightarrow> bytes \<Rightarrow> bytes \<Rightarrow> bytes" where
  "ecb_encrypt C key pt = ecb (aes_encrypt_block C key) (div_ceil_16 (length pt)) (pad16 pt)"

definition ecb_decrypt :: "crypto_prims \<Rightarrow> bytes \<Rightarrow> bytes \<Rightarrow> bytes" where
  "ecb_decrypt C key ct = ecb (aes_decrypt_block C key) (length ct div 16) ct"

text \<open>The envelope as a byte string: MAC, then ciphertext.\<close>

definition seal :: "crypto_prims \<Rightarrow> bytes \<Rightarrow> bytes \<Rightarrow> bytes \<Rightarrow> bytes" where
  "seal C aes_key hmac_key pt =
     (let ct = ecb_encrypt C aes_key pt in hmac_sha256_2 C hmac_key ct @ ct)"

section \<open>Lemmas\<close>

lemma ceil_16_ge: "n \<le> ceil_16 n"
  unfolding ceil_16_def div_ceil_16_def by linarith

lemma ceil_16_lt: "ceil_16 n < n + 16"
  unfolding ceil_16_def div_ceil_16_def by linarith

lemma ceil_16_mod [simp]: "ceil_16 n mod 16 = 0"
  by (simp add: ceil_16_def)

lemma ceil_16_div: "ceil_16 n div 16 = div_ceil_16 n"
  by (simp add: ceil_16_def)

lemma length_pad16 [simp]: "length (pad16 xs) = ceil_16 (length xs)"
  using ceil_16_ge [of "length xs"] by (simp add: pad16_def)

lemma take_pad16 [simp]: "take (length xs) (pad16 xs) = xs"
  by (simp add: pad16_def)

lemma crypto_okD:
  assumes "crypto_ok C" "length k = 16" "length b = 16"
  shows "length (aes_encrypt_block C k b) = 16" "length (aes_decrypt_block C k b) = 16"
    "aes_decrypt_block C k (aes_encrypt_block C k b) = b"
  using assms by (simp_all add: crypto_ok_def)

lemma crypto_ok_lengths [simp]:
  "crypto_ok C \<Longrightarrow> length (hmac_sha256 C k d) = 32" "crypto_ok C \<Longrightarrow> length (sha256_digest C d) = 32"
  by (simp_all add: crypto_ok_def)

lemma length_hmac_sha256_2 [simp]: "length (hmac_sha256_2 C k d) = 2"
  by (simp add: hmac_sha256_2_def Let_def)

lemma length_ecb:
  "(\<And>b. length b = 16 \<Longrightarrow> length (f b) = 16) \<Longrightarrow> length xs = 16 * n \<Longrightarrow> length (ecb f n xs) = 16 * n"
  by (induction n arbitrary: xs) simp_all

lemma ecb_inverse:
  assumes "\<And>b. length b = 16 \<Longrightarrow> length (f b) = 16 \<and> g (f b) = b"
  shows "length xs = 16 * n \<Longrightarrow> ecb g n (ecb f n xs) = xs"
  by (induction n arbitrary: xs) (simp_all add: assms)

lemma length_ecb_encrypt [simp]:
  "crypto_ok C \<Longrightarrow> length key = 16 \<Longrightarrow> length (ecb_encrypt C key pt) = ceil_16 (length pt)"
  unfolding ecb_encrypt_def
  by (subst length_ecb) (simp_all add: crypto_okD, simp_all add: ceil_16_def)

lemma ecb_decrypt_encrypt:
  assumes "crypto_ok C" "length key = 16"
  shows "ecb_decrypt C key (ecb_encrypt C key pt) = pad16 pt"
  using assms
  by (simp add: ecb_decrypt_def ceil_16_div)
     (simp add: ecb_encrypt_def, rule ecb_inverse, simp_all add: crypto_okD, simp add: ceil_16_def)

text \<open>The loops compute the specification from block \<open>i\<close> on.\<close>

lemma pad16_block:
  assumes "i * 16 < length pt"
  shows "take 16 (drop (i * 16) (pad16 pt)) =
    take 16 (drop (i * 16) pt) @ zeros (16 - length (take 16 (drop (i * 16) pt)))"
proof -
  obtain q where q: "ceil_16 (length pt) = q * 16"
    by (simp add: ceil_16_def)
  have le: "16 - (length pt - i * 16) \<le> ceil_16 (length pt) - length pt"
  proof (cases "length pt < i * 16 + 16")
    case True
    with assms ceil_16_ge [of "length pt"] ceil_16_lt [of "length pt"] q have "q = Suc i"
      by linarith
    with assms True q show ?thesis by simp
  qed simp
  have "take 16 (drop (i * 16) (pad16 pt)) = take 16 (drop (i * 16) pt)
      @ zeros (min (16 - (length pt - i * 16)) (ceil_16 (length pt) - length pt))"
    using assms by (simp add: pad16_def)
  also have "min (16 - (length pt - i * 16)) (ceil_16 (length pt) - length pt) =
      16 - length (take 16 (drop (i * 16) pt))"
    using le by (simp add: min_def)
  finally show ?thesis .
qed

lemma loop_step_lists:
  assumes "length b = 16" "(i + Suc k) * 16 \<le> length out"
  shows "take (16 + i * 16) (take (i * 16) out @ b @ drop (i * 16 + 16) out) = take (i * 16) out @ b"
    "drop ((Suc i + k) * 16) (take (i * 16) out @ b @ drop (i * 16 + 16) out) = drop ((i + Suc k) * 16) out"
  using assms by (simp_all add: ac_simps)

lemma ecb_encrypt_loop_spec:
  assumes "crypto_ok C" "length key = 16"
  shows "i + k = div_ceil_16 (length pt) \<Longrightarrow> (i + k) * 16 \<le> length out \<Longrightarrow>
    ecb_encrypt_loop C key pt k i out =
      Some (take (i * 16) out @ ecb (aes_encrypt_block C key) k (drop (i * 16) (pad16 pt))
        @ drop ((i + k) * 16) out)"
proof (induction k arbitrary: i out)
  case (Suc k)
  let ?b = "take 16 (drop (i * 16) (pad16 pt))"
  have i: "i * 16 < length pt"
    using ceil_16_lt [of "length pt"] unfolding ceil_16_def Suc.prems(1) [symmetric] by simp
  have b16: "length ?b = 16"
    by (subst pad16_block [OF i]) simp
  let ?out = "take (i * 16) out @ aes_encrypt_block C key ?b @ drop (i * 16 + 16) out"
  have chunk: "slice pt (i * 16) (min (i * 16 + 16) (length pt)) = Some (take 16 (drop (i * 16) pt))"
    using i by (auto simp: slice_def min_def)
  have block: "copy_into (zeros 16) 0 (take 16 (drop (i * 16) pt)) = Some ?b"
    by (simp add: copy_into_def pad16_block [OF i])
  have copy: "copy_into out (i * 16) (aes_encrypt_block C key ?b) = Some ?out"
    using Suc.prems b16 crypto_okD(1) [OF assms b16] by (simp add: copy_into_def)
  have "ecb_encrypt_loop C key pt k (Suc i) ?out =
      Some (take (Suc i * 16) ?out @ ecb (aes_encrypt_block C key) k (drop (Suc i * 16) (pad16 pt))
        @ drop ((Suc i + k) * 16) ?out)"
  proof (rule Suc.IH)
    show "Suc i + k = div_ceil_16 (length pt)"
      using Suc.prems(1) by simp
    have "i * 16 + 16 \<le> length out"
      using Suc.prems(2) by simp
    then have "length ?out = length out"
      using crypto_okD(1) [OF assms b16] by simp
    then show "(Suc i + k) * 16 \<le> length ?out"
      using Suc.prems(2) by simp
  qed
  moreover have "ecb_encrypt_loop C key pt (Suc k) i out = ecb_encrypt_loop C key pt k (Suc i) ?out"
    by (simp only: ecb_encrypt_loop.simps Let_def chunk block copy bind.bind_lunit)
  ultimately show ?case
    using loop_step_lists [OF crypto_okD(1) [OF assms b16], of i k out] Suc.prems(2)
    by (simp only: ecb.simps drop_drop append_assoc mult_Suc)
qed simp

lemma aes128_ecb_encrypt_spec:
  assumes "crypto_ok C" "length key = 16" "ceil_16 (length pt) \<le> length out"
  shows "aes128_ecb_encrypt C key pt out =
    Some (ecb_encrypt C key pt @ drop (ceil_16 (length pt)) out, ceil_16 (length pt))"
  using ecb_encrypt_loop_spec [OF assms(1,2), of 0 "div_ceil_16 (length pt)" pt out] assms(3)
  by (simp add: aes128_ecb_encrypt_def ecb_encrypt_def ceil_16_def Let_def)

lemma ecb_decrypt_loop_spec:
  assumes "crypto_ok C" "length key = 16"
  shows "(i + k) * 16 = length ct \<Longrightarrow> (i + k) * 16 \<le> length out \<Longrightarrow>
    ecb_decrypt_loop C key ct k i out =
      Some (take (i * 16) out @ ecb (aes_decrypt_block C key) k (drop (i * 16) ct)
        @ drop ((i + k) * 16) out)"
proof (induction k arbitrary: i out)
  case (Suc k)
  let ?b = "take 16 (drop (i * 16) ct)"
  have b16: "length ?b = 16"
    using Suc.prems(1) by simp
  let ?out = "take (i * 16) out @ aes_decrypt_block C key ?b @ drop (i * 16 + 16) out"
  have block: "slice ct (i * 16) ((i + 1) * 16) = Some ?b"
    using Suc.prems(1) by (simp add: slice_def)
  have copy: "copy_into out (i * 16) (aes_decrypt_block C key ?b) = Some ?out"
    using Suc.prems crypto_okD(2) [OF assms b16] by (simp add: copy_into_def)
  have "ecb_decrypt_loop C key ct k (Suc i) ?out =
      Some (take (Suc i * 16) ?out @ ecb (aes_decrypt_block C key) k (drop (Suc i * 16) ct)
        @ drop ((Suc i + k) * 16) ?out)"
    using Suc.prems crypto_okD(2) [OF assms b16] by (intro Suc.IH) simp_all
  moreover have "ecb_decrypt_loop C key ct (Suc k) i out = ecb_decrypt_loop C key ct k (Suc i) ?out"
    by (simp only: ecb_decrypt_loop.simps Let_def block copy bind.bind_lunit)
  ultimately show ?case
    using loop_step_lists [OF crypto_okD(2) [OF assms b16], of i k out] Suc.prems(2)
    by (simp only: ecb.simps drop_drop append_assoc mult_Suc)
qed simp

lemma aes128_ecb_decrypt_spec:
  assumes "crypto_ok C" "length key = 16" "length ct mod 16 = 0" "length ct \<le> length out"
  shows "aes128_ecb_decrypt C key ct out =
    Some (ecb_decrypt C key ct @ drop (length ct) out, length ct)"
proof -
  have "length ct div 16 * 16 = length ct"
    using assms(3) by presburger
  then show ?thesis
    using ecb_decrypt_loop_spec [OF assms(1,2), of 0 "length ct div 16" ct out] assms(4)
    by (simp add: aes128_ecb_decrypt_def ecb_decrypt_def)
qed

section \<open>Lemmas: the envelope\<close>

lemma length_seal [simp]:
  "crypto_ok C \<Longrightarrow> length k = 16 \<Longrightarrow> length (seal C k h pt) = 2 + ceil_16 (length pt)"
  by (simp add: seal_def Let_def)

lemma encrypt_then_mac_var_spec:
  assumes "crypto_ok C" "length k = 16" "2 + ceil_16 (length pt) \<le> length out"
  shows "encrypt_then_mac_var C k h pt out =
    Some (seal C k h pt @ drop (2 + ceil_16 (length pt)) out, 2 + ceil_16 (length pt))"
proof -
  let ?n = "ceil_16 (length pt)" and ?ct = "ecb_encrypt C k pt"
  obtain a b rest where out: "out = a # b # rest"
    using assms(3) by (cases out rule: list.exhaust; cases "tl out") auto
  have enc: "aes128_ecb_encrypt C k pt rest = Some (?ct @ drop ?n rest, ?n)"
    using assms by (intro aes128_ecb_encrypt_spec) (simp_all add: out)
  have ct: "length ?ct = ?n"
    using assms by simp
  show ?thesis
    unfolding encrypt_then_mac_var_def seal_def
    by (simp add: out rust_simps enc ct Let_def hmac_sha256_2_def)
qed

lemma length_ecb_encrypt_loop:
  "ecb_encrypt_loop C k pt n i out = Some out' \<Longrightarrow> length out' = length out"
proof (induction n arbitrary: i out)
  case (Suc n)
  then obtain block out1 where
    "copy_into out (i * 16) (aes_encrypt_block C k block) = Some out1"
    and "ecb_encrypt_loop C k pt n (Suc i) out1 = Some out'"
    by (auto simp: Let_def bind_eq_Some_conv)
  then show ?case
    using Suc.IH length_copy_into by metis
qed simp

lemma encrypt_then_mac_var_panics:
  assumes "length out < 2 + ceil_16 (length pt)"
  shows "encrypt_then_mac_var C k h pt out = panic"
proof (cases "aes128_ecb_encrypt C k pt (drop 2 out)")
  case None
  then show ?thesis
    by (simp add: encrypt_then_mac_var_def slice_from_def Let_def)
next
  case (Some r)
  obtain body n where r: "r = (body, n)"
    by (cases r)
  with Some have "length body = length out - 2"
    by (auto simp: aes128_ecb_encrypt_def Let_def bind_eq_Some_conv dest: length_ecb_encrypt_loop)
  with assms Some r show ?thesis
    by (auto simp: encrypt_then_mac_var_def slice_from_def slice_def Let_def)
qed

lemma xor_or_zero_iff: "((a XOR b) OR (c XOR d)) = 0 \<longleftrightarrow> a = b \<and> c = d" for a b c d :: u8
  by (metis or_eq_0_iff xor_self_eq bit.xor_cancel_right word_bw_assocs(3) xor.right_neutral)

lemma two_bytes: "length xs = 2 \<Longrightarrow> xs = [xs ! 0, xs ! 1]"
  by (cases xs; cases "tl xs") auto

text \<open>The comparison of the source is equality of the two MAC bytes.\<close>

definition envelope_ok :: "crypto_prims \<Rightarrow> bytes \<Rightarrow> bytes \<Rightarrow> bool" where
  "envelope_ok C hkey payload \<longleftrightarrow>
     2 \<le> length payload \<and> (length payload - 2) mod 16 = 0 \<and>
     take 2 payload = hmac_sha256_2 C hkey (drop 2 payload)"

lemma mac_check_iff:
  assumes "2 \<le> length payload"
  shows "((take 2 payload ! 0 XOR hmac_sha256_2 C h ct ! 0) OR
      (take 2 payload ! 1 XOR hmac_sha256_2 C h ct ! 1)) = 0
    \<longleftrightarrow> take 2 payload = hmac_sha256_2 C h ct"
proof -
  have "take 2 payload = [take 2 payload ! 0, take 2 payload ! 1]"
    using assms by (intro two_bytes) simp
  moreover have "hmac_sha256_2 C h ct = [hmac_sha256_2 C h ct ! 0, hmac_sha256_2 C h ct ! 1]"
    by (intro two_bytes) simp
  ultimately show ?thesis
    unfolding xor_or_zero_iff by (metis list.inject)
qed

lemma mac_then_decrypt_var_eq:
  "mac_then_decrypt_var C k h payload out =
     (if envelope_ok C h payload
      then map_option (\<lambda>(o', n). (o', Inr n)) (aes128_ecb_decrypt C k (drop 2 payload) out)
      else Some (out, Inl MacError))"
  using mac_check_iff [of payload C h "drop 2 payload"]
  by (auto simp: mac_then_decrypt_var_def envelope_ok_def Let_def bind_map_option not_le
      split: option.splits Option.bind_splits)

lemma envelope_ok_seal [simp]:
  "crypto_ok C \<Longrightarrow> length k = 16 \<Longrightarrow> envelope_ok C h (seal C k h pt)"
  by (simp add: envelope_ok_def) (simp add: seal_def Let_def)

lemma mac_then_decrypt_var_accept:
  assumes "crypto_ok C" "length k = 16" "envelope_ok C h payload" "length payload - 2 \<le> length out"
  shows "mac_then_decrypt_var C k h payload out =
    Some (ecb_decrypt C k (drop 2 payload) @ drop (length payload - 2) out, Inr (length payload - 2))"
  using assms aes128_ecb_decrypt_spec [of C k "drop 2 payload" out]
  by (simp add: mac_then_decrypt_var_eq envelope_ok_def)

lemma mac_then_decrypt_var_seal:
  assumes "crypto_ok C" "length k = 16" "ceil_16 (length pt) \<le> length out"
  shows "mac_then_decrypt_var C k h (seal C k h pt) out =
    Some (pad16 pt @ drop (ceil_16 (length pt)) out, Inr (ceil_16 (length pt)))"
proof -
  have "drop 2 (seal C k h pt) = ecb_encrypt C k pt"
    by (simp add: seal_def Let_def)
  then show ?thesis
    using assms mac_then_decrypt_var_accept [of C k h "seal C k h pt" out]
    by (simp add: ecb_decrypt_encrypt)
qed

text \<open>A concrete instance of the external primitives, to run the model on.\<close>

definition demo_prims :: crypto_prims where
  "demo_prims = \<lparr>aes_encrypt_block = (\<lambda>k b. rev b), aes_decrypt_block = (\<lambda>k b. rev b),
     hmac_sha256 = (\<lambda>k d. take 32 (d @ k @ zeros 32)), sha256_digest = (\<lambda>d. take 32 (d @ zeros 32))\<rparr>"

lemma demo_prims_ok: "crypto_ok demo_prims"
  by (auto simp: crypto_ok_def demo_prims_def min_def)

section \<open>Properties\<close>

text \<open>C8: encrypt-then-MAC into a buffer that is large enough never panics, writes the MAC and the
  ciphertext and nothing past them, and MAC-then-decrypt of exactly those bytes accepts and
  returns the plaintext zero-padded to whole blocks.\<close>

theorem envelope_roundtrip:
  assumes "crypto_ok C" "length aes_key = 16"
    and "2 + ceil_16 (length pt) \<le> length out" "ceil_16 (length pt) \<le> length buf"
  shows "\<exists>out'. encrypt_then_mac_var C aes_key hkey pt out = Some (out', 2 + ceil_16 (length pt))
    \<and> length out' = length out
    \<and> drop (2 + ceil_16 (length pt)) out' = drop (2 + ceil_16 (length pt)) out
    \<and> mac_then_decrypt_var C aes_key hkey (take (2 + ceil_16 (length pt)) out') buf =
        Some (pad16 pt @ drop (ceil_16 (length pt)) buf, Inr (ceil_16 (length pt)))"
proof -
  have len: "length (seal C aes_key hkey pt) = 2 + ceil_16 (length pt)"
    using assms by simp
  show ?thesis
    unfolding encrypt_then_mac_var_spec [OF assms(1-3)]
    using mac_then_decrypt_var_seal [OF assms(1,2,4)] assms(3) len by simp
qed

theorem envelope_roundtrip_witness:
  "\<exists>out'. encrypt_then_mac_var demo_prims (zeros 16) [7, 8, 9] [1, 2, 3] (zeros 20) = Some (out', 18)
    \<and> length out' = 20 \<and> drop 18 out' = [0, 0]
    \<and> mac_then_decrypt_var demo_prims (zeros 16) [7, 8, 9] (take 18 out') (zeros 17) =
        Some ([1, 2, 3] @ zeros 14, Inr 16)"
proof -
  have n: "ceil_16 (length [1, 2, 3 :: u8]) = 16"
    by (simp add: ceil_16_def div_ceil_16_def)
  have p: "pad16 [1, 2, 3] = [1, 2, 3] @ zeros 13"
    by (simp add: pad16_def ceil_16_def div_ceil_16_def)
  show ?thesis
    using envelope_roundtrip [OF demo_prims_ok, of "zeros 16" "[1, 2, 3]" "zeros 20" "zeros 17" "[7, 8, 9]"]
    unfolding n p by (simp add: eval_nat_numeral)
qed

text \<open>MAC-then-decrypt rejects, without touching the output buffer, exactly the payloads
  that are shorter than the MAC, not block-aligned, or whose two MAC bytes differ from the HMAC of
  the ciphertext: the branchless XOR/OR comparison is equality.\<close>

theorem mac_reject_iff:
  "mac_then_decrypt_var C aes_key hkey payload out = Some (out', Inl MacError) \<longleftrightarrow>
     out' = out \<and>
     \<not> (2 \<le> length payload \<and> (length payload - 2) mod 16 = 0
        \<and> take 2 payload = hmac_sha256_2 C hkey (drop 2 payload))"
  by (auto simp: mac_then_decrypt_var_eq envelope_ok_def not_le split: if_splits)

end
