(* ===== verification/Wire.thy ===== *)
theory Wire
  imports Prelude
begin

text \<open>
  The packet header, the \<open>path_len\<close> byte and the shared receive-side frame
  parser: \<open>protocol/src/lib.rs\<close> (wire constants and enums),
  \<open>protocol/src/header.rs\<close> and \<open>protocol/src/frame.rs\<close>.  The lemmas show that
  header and \<open>path_len\<close> packing round-trip, characterise the valid \<open>path_len\<close>
  bytes, and prove the parser correct and complete against the abstract frame
  layout \<open>header | codes? | path_len | path | payload\<close>.
\<close>

section \<open>Constants and enums\<close>

definition MAX_PATH_SIZE :: nat where
  "MAX_PATH_SIZE = 64"

definition PH_ROUTE_MASK :: u8 where
  "PH_ROUTE_MASK = 0x03"

definition PH_TYPE_SHIFT :: nat where
  "PH_TYPE_SHIFT = 2"

definition PH_VER_SHIFT :: nat where
  "PH_VER_SHIFT = 6"

datatype RouteType = RT_TransportFlood | RT_Flood | RT_Direct | RT_TransportDirect

datatype PayloadType =
    PT_Req | PT_Response | PT_TxtMsg | PT_Ack | PT_Advert | PT_GrpTxt | PT_GrpData
  | PT_AnonReq | PT_Path | PT_Trace | PT_Multipart | PT_Control | PT_RawCustom

text \<open>The discriminants, i.e. the Rust casts \<open>route as u8\<close> and \<open>payload_type as u8\<close>.\<close>

primrec route_u8 :: "RouteType \<Rightarrow> u8" where
  "route_u8 RT_TransportFlood = 0x00"
| "route_u8 RT_Flood = 0x01"
| "route_u8 RT_Direct = 0x02"
| "route_u8 RT_TransportDirect = 0x03"

primrec ptype_u8 :: "PayloadType \<Rightarrow> u8" where
  "ptype_u8 PT_Req = 0x00"
| "ptype_u8 PT_Response = 0x01"
| "ptype_u8 PT_TxtMsg = 0x02"
| "ptype_u8 PT_Ack = 0x03"
| "ptype_u8 PT_Advert = 0x04"
| "ptype_u8 PT_GrpTxt = 0x05"
| "ptype_u8 PT_GrpData = 0x06"
| "ptype_u8 PT_AnonReq = 0x07"
| "ptype_u8 PT_Path = 0x08"
| "ptype_u8 PT_Trace = 0x09"
| "ptype_u8 PT_Multipart = 0x0A"
| "ptype_u8 PT_Control = 0x0B"
| "ptype_u8 PT_RawCustom = 0x0F"

section \<open>Header byte\<close>

text \<open>\<open>Header\<close> is a newtype over the byte; it is modelled by the byte itself.\<close>

type_synonym Header = u8

definition Header_new :: "RouteType \<Rightarrow> PayloadType \<Rightarrow> Header" where
  "Header_new route payload_type = push_bit PH_TYPE_SHIFT (ptype_u8 payload_type) OR route_u8 route"

definition route_type :: "Header \<Rightarrow> RouteType option" where
  "route_type h = (let v = h AND PH_ROUTE_MASK in
     if v = 0x00 then Some RT_TransportFlood
     else if v = 0x01 then Some RT_Flood
     else if v = 0x02 then Some RT_Direct
     else if v = 0x03 then Some RT_TransportDirect
     else None)"

definition payload_type :: "Header \<Rightarrow> PayloadType option" where
  "payload_type h = (let v = drop_bit PH_TYPE_SHIFT h AND 0x0F in
     if v = 0x00 then Some PT_Req
     else if v = 0x01 then Some PT_Response
     else if v = 0x02 then Some PT_TxtMsg
     else if v = 0x03 then Some PT_Ack
     else if v = 0x04 then Some PT_Advert
     else if v = 0x05 then Some PT_GrpTxt
     else if v = 0x06 then Some PT_GrpData
     else if v = 0x07 then Some PT_AnonReq
     else if v = 0x08 then Some PT_Path
     else if v = 0x09 then Some PT_Trace
     else if v = 0x0A then Some PT_Multipart
     else if v = 0x0B then Some PT_Control
     else if v = 0x0F then Some PT_RawCustom
     else None)"

definition version :: "Header \<Rightarrow> u8" where
  "version h = drop_bit PH_VER_SHIFT h AND 0x03"

section \<open>The path_len byte\<close>

type_synonym PathLen = u8

definition PathLen_new :: "u8 \<Rightarrow> u8 \<Rightarrow> PathLen option" where
  "PathLen_new hash_size hop_count =
     (if \<not> (1 \<le> hash_size \<and> hash_size \<le> 4) \<or> hop_count > 63 then None
      else Some (push_bit 6 (hash_size - 1) OR hop_count))"

definition hash_size :: "PathLen \<Rightarrow> u8" where
  "hash_size p = drop_bit 6 p + 1"

definition hop_count :: "PathLen \<Rightarrow> u8" where
  "hop_count p = p AND 63"

definition path_byte_len :: "PathLen \<Rightarrow> u8" where
  "path_byte_len p = hop_count p * hash_size p"

definition is_valid :: "PathLen \<Rightarrow> bool" where
  "is_valid p = (if hash_size p = 4 then False
     else unat (hop_count p) * unat (hash_size p) \<le> MAX_PATH_SIZE)"

section \<open>Receive-side frame parser\<close>

datatype RxFrameError =
    RxEmpty
  | RxTooShortForPathLen nat nat    \<comment> \<open>\<open>frame_len\<close>, \<open>needed\<close>\<close>
  | RxInvalidPathLen u8             \<comment> \<open>\<open>path_len_byte\<close>\<close>
  | RxTooShortForPath nat nat       \<comment> \<open>\<open>frame_len\<close>, \<open>payload_off\<close>\<close>

record RxFrameHeader =
  rx_header_byte :: u8
  rx_route_type :: "RouteType option"
  rx_has_transport_codes :: bool
  rx_path_len_byte :: u8
  rx_hash_size :: u8
  rx_hop_count :: u8
  rx_payload_off :: nat

definition route_carries_transport_codes :: "u8 \<Rightarrow> bool" where
  "route_carries_transport_codes header_byte =
     (case route_type header_byte of
        Some RT_TransportFlood \<Rightarrow> True
      | Some RT_TransportDirect \<Rightarrow> True
      | _ \<Rightarrow> False)"

definition frame_path_len :: "bytes \<Rightarrow> PathLen option" where
  "frame_path_len frame = do {
     header_byte \<leftarrow> get_opt frame 0;
     let idx = 1 + (if route_carries_transport_codes header_byte then 4 else 0);
     get_opt frame idx
   }"

definition parse_rx_frame_header :: "bytes \<Rightarrow> RxFrameError + RxFrameHeader" where
  "parse_rx_frame_header frame =
     (case get_opt frame 0 of
        None \<Rightarrow> Inl RxEmpty
      | Some header_byte \<Rightarrow>
          let rt = route_type header_byte;
              has_codes = route_carries_transport_codes header_byte;
              path_len_idx = 1 + (if has_codes then 4 else 0)
          in (case frame_path_len frame of
                None \<Rightarrow> Inl (RxTooShortForPathLen (length frame) (path_len_idx + 1))
              | Some path_len \<Rightarrow>
                  if \<not> is_valid path_len then Inl (RxInvalidPathLen path_len)
                  else
                    let hs = hash_size path_len;
                        hc = hop_count path_len;
                        path_bytes = unat hc * unat hs;
                        payload_off = path_len_idx + 1 + path_bytes
                    in if length frame < payload_off
                       then Inl (RxTooShortForPath (length frame) payload_off)
                       else Inr \<lparr>rx_header_byte = header_byte, rx_route_type = rt,
                              rx_has_transport_codes = has_codes,
                              rx_path_len_byte = path_len, rx_hash_size = hs,
                              rx_hop_count = hc, rx_payload_off = payload_off\<rparr>))"

section \<open>Lemmas: header byte\<close>

lemmas header_consts = PH_ROUTE_MASK_def PH_TYPE_SHIFT_def PH_VER_SHIFT_def MAX_PATH_SIZE_def

lemma header_new_route [simp]: "route_type (Header_new r p) = Some r"
  by (cases r; cases p) (simp_all add: Header_new_def route_type_def header_consts)

lemma header_new_ptype [simp]: "payload_type (Header_new r p) = Some p"
  by (cases r; cases p) (simp_all add: Header_new_def payload_type_def header_consts)

lemma header_new_version [simp]: "version (Header_new r p) = 0"
  by (cases r; cases p) (simp_all add: Header_new_def version_def header_consts)

lemma ptype_u8_le: "unat (ptype_u8 p) \<le> 15"
  by (cases p) simp_all

lemma header_new_ptype_nibble [simp]: "drop_bit 2 (Header_new r p) AND 15 = ptype_u8 p"
  by (cases r; cases p) (simp_all add: Header_new_def header_consts)

text \<open>The route accessor never falls through to its \<open>None\<close> arm.\<close>

lemma route_type_total: "\<exists>r. route_type h = Some r"
proof -
  have "unat (h AND 3) < 4"
    by (simp add: unat_and_3)
  then have "h AND 3 = 0 \<or> h AND 3 = 1 \<or> h AND 3 = 2 \<or> h AND 3 = 3"
    by (auto simp: u8_eq_iff)
  then show ?thesis
    by (auto simp: route_type_def Let_def header_consts)
qed

section \<open>Lemmas: path_len byte\<close>

lemma unat_hash_size [wire_simps]: "unat (hash_size p) = unat p div 64 + 1"
proof -
  have "unat p div 64 < 4"
    using unat_u8_lt [of p] by linarith
  then show ?thesis
    by (simp add: hash_size_def unat_word_ariths unat_drop_bit)
qed

lemma unat_hop_count [wire_simps]: "unat (hop_count p) = unat p mod 64"
  by (simp add: hop_count_def unat_and_63)

lemma hash_size_bounds: "1 \<le> unat (hash_size p)" "unat (hash_size p) \<le> 4"
proof -
  have "unat p div 64 \<le> 3"
    using unat_u8_lt [of p] by linarith
  then show "1 \<le> unat (hash_size p)" and "unat (hash_size p) \<le> 4"
    by (simp_all add: unat_hash_size)
qed

text \<open>The \<open>u8\<close> product in \<open>path_byte_len\<close> never overflows.\<close>

lemma unat_path_byte_len: "unat (path_byte_len p) = unat (hop_count p) * unat (hash_size p)"
proof -
  have "unat (hop_count p) * unat (hash_size p) \<le> 63 * 4"
    using hash_size_bounds(2) [of p] by (intro mult_le_mono) (simp_all add: unat_hop_count)
  then show ?thesis
    by (simp add: path_byte_len_def unat_word_ariths)
qed

lemma is_valid_iff:
  "is_valid p \<longleftrightarrow> unat p div 64 \<noteq> 3 \<and> unat p mod 64 * (unat p div 64 + 1) \<le> 64"
  by (auto simp: is_valid_def u8_eq_iff wire_simps header_consts)

lemma drop_push_6: "unat x < 4 \<Longrightarrow> drop_bit 6 (push_bit 6 x) = x" for x :: u8
  by (simp add: u8_eq_iff unat_drop_bit push_bit_eq_mult unat_word_ariths)

lemma PathLen_new_fields:
  assumes "PathLen_new hs hc = Some p"
  shows "hash_size p = hs" and "hop_count p = hc"
proof -
  from assms have hs: "1 \<le> unat hs" "unat hs \<le> 4" and hc: "unat hc \<le> 63"
    and p: "p = push_bit 6 (hs - 1) OR hc"
    by (auto simp: PathLen_new_def word_le_nat_alt not_less split: if_splits)
  have d: "unat (hs - 1) = unat hs - 1"
    using hs by (simp add: unat_sub word_le_nat_alt)
  have hc6: "take_bit 6 hc = hc"
    using hc by (simp add: u8_eq_iff unsigned_take_bit_eq take_bit_nat_eq_self)
  have "drop_bit 6 p = hs - 1"
  proof -
    have "drop_bit 6 hc = 0"
      using hc by (simp add: u8_eq_iff unat_drop_bit)
    moreover have "drop_bit 6 (push_bit 6 (hs - 1)) = hs - 1"
      using hs d by (intro drop_push_6) simp
    ultimately show ?thesis
      by (simp add: p)
  qed
  then show "hash_size p = hs"
    by (simp add: hash_size_def)
  have "take_bit 6 (push_bit 6 (hs - 1)) = 0"
    by (simp add: take_bit_push_bit)
  then have "take_bit 6 p = hc"
    using hc6 by (simp add: p)
  moreover have "p AND 63 = take_bit 6 p"
    by (simp add: take_bit_eq_mask mask_eq_exp_minus_1)
  ultimately show "hop_count p = hc"
    by (simp add: hop_count_def)
qed

section \<open>Lemmas: frame layout\<close>

text \<open>
  The abstract layout of a frame: header, the four transport-code bytes when the
  route type carries them, \<open>path_len\<close>, the path, the payload.
\<close>

definition mk_frame :: "u8 \<Rightarrow> bytes \<Rightarrow> PathLen \<Rightarrow> bytes \<Rightarrow> bytes \<Rightarrow> bytes" where
  "mk_frame h codes pl path payload = h # codes @ pl # path @ payload"

definition wf_frame :: "u8 \<Rightarrow> bytes \<Rightarrow> PathLen \<Rightarrow> bytes \<Rightarrow> bool" where
  "wf_frame h codes pl path \<longleftrightarrow>
     length codes = (if route_carries_transport_codes h then 4 else 0) \<and>
     is_valid pl \<and> length path = unat (hop_count pl) * unat (hash_size pl)"

lemma carries_codes_iff:
  "route_carries_transport_codes h \<longleftrightarrow>
     route_type h = Some RT_TransportFlood \<or> route_type h = Some RT_TransportDirect"
  by (auto simp: route_carries_transport_codes_def split: option.splits RouteType.splits)

lemma header_new_carries [simp]:
  "route_carries_transport_codes (Header_new r p) \<longleftrightarrow>
     r = RT_TransportFlood \<or> r = RT_TransportDirect"
  by (simp add: carries_codes_iff)

lemma frame_path_len_mk_frame:
  assumes "wf_frame h codes pl path"
  shows "frame_path_len (mk_frame h codes pl path payload) = Some pl"
  using assms
  by (auto simp: frame_path_len_def mk_frame_def wf_frame_def get_opt_def nth_append
      split: if_splits)

lemma parse_mk_frame:
  assumes "wf_frame h codes pl path"
  shows "parse_rx_frame_header (mk_frame h codes pl path payload) =
    Inr \<lparr>rx_header_byte = h, rx_route_type = route_type h,
      rx_has_transport_codes = route_carries_transport_codes h,
      rx_path_len_byte = pl, rx_hash_size = hash_size pl, rx_hop_count = hop_count pl,
      rx_payload_off = 2 + length codes + length path\<rparr>"
proof -
  have 0: "get_opt (mk_frame h codes pl path payload) 0 = Some h"
    by (simp add: get_opt_def mk_frame_def)
  have len: "length (mk_frame h codes pl path payload) =
      2 + length codes + length path + length payload"
    by (simp add: mk_frame_def)
  from assms show ?thesis
    unfolding parse_rx_frame_header_def
    by (auto simp: 0 len frame_path_len_mk_frame [OF assms] Let_def wf_frame_def split: if_splits)
qed

lemma drop_mk_frame [simp]:
  "drop (2 + length codes + length path) (mk_frame h codes pl path payload) = payload"
  by (simp add: mk_frame_def)

text \<open>Conversely every accepted frame has that layout.\<close>

lemma parse_accepts_only_layout:
  assumes "parse_rx_frame_header f = Inr hdr"
  obtains codes path payload where
    "f = mk_frame (rx_header_byte hdr) codes (rx_path_len_byte hdr) path payload"
    "wf_frame (rx_header_byte hdr) codes (rx_path_len_byte hdr) path"
    "rx_payload_off hdr = 2 + length codes + length path"
proof -
  from assms obtain h rest where f: "f = h # rest"
    by (cases f) (simp_all add: parse_rx_frame_header_def get_opt_def)
  define k where "k = (if route_carries_transport_codes h then 4 else (0::nat))"
  from assms have "k < length rest"
    by (auto simp: f k_def parse_rx_frame_header_def frame_path_len_def get_opt_def Let_def
        split: option.splits if_splits)
  then have rest: "rest = take k rest @ rest ! k # drop (Suc k) rest"
    by (simp add: id_take_nth_drop)
  have pl: "frame_path_len f = Some (rest ! k)"
    using \<open>k < length rest\<close> by (auto simp: f k_def frame_path_len_def get_opt_def)
  define n where "n = unat (hop_count (rest ! k)) * unat (hash_size (rest ! k))"
  have valid: "is_valid (rest ! k)" and long: "2 + k + n \<le> length f"
    and hdr: "rx_header_byte hdr = h" "rx_path_len_byte hdr = rest ! k" "rx_payload_off hdr = 2 + k + n"
    using assms pl
    by (auto simp: f k_def n_def parse_rx_frame_header_def get_opt_def Let_def split: if_splits)
  have "f = mk_frame h (take k rest) (rest ! k) (take n (drop (Suc k) rest)) (drop n (drop (Suc k) rest))"
    using rest unfolding f mk_frame_def append_take_drop_id by simp
  moreover have "wf_frame h (take k rest) (rest ! k) (take n (drop (Suc k) rest))"
    using valid long \<open>k < length rest\<close> by (simp add: wf_frame_def f flip: n_def k_def)
  moreover have "rx_payload_off hdr = 2 + length (take k rest) + length (take n (drop (Suc k) rest))"
    using hdr(3) long \<open>k < length rest\<close> by (simp add: f)
  ultimately show thesis
    by (intro that) (simp_all only: hdr)
qed

section \<open>The documented layout\<close>

text \<open>The layout in plain numbers: the route type is the low two bits of the header byte, the transport codes are there
  for the routes 0 and 3, the path length byte holds the hash size less one in its high two bits and the hop count in
  the low six.\<close>

definition documented_frame :: "u8 \<Rightarrow> bytes \<Rightarrow> u8 \<Rightarrow> bytes \<Rightarrow> bool" where
  "documented_frame h codes pl path \<longleftrightarrow>
     (let size = unat pl div 64 + 1; hops = unat pl mod 64 in
      length codes = (if unat h mod 4 \<in> {0, 3} then 4 else 0)
      \<and> size \<le> 3 \<and> hops * size \<le> 64 \<and> length path = hops * size)"

definition documented_route :: "u8 \<Rightarrow> RouteType" where
  "documented_route h = [RT_TransportFlood, RT_Flood, RT_Direct, RT_TransportDirect] ! (unat h mod 4)"

lemma nat_and_low: "(n::nat) AND 3 = n mod 4" "n AND 63 = n mod 64"
  using take_bit_eq_mask [of 2 n] take_bit_eq_mask [of 6 n] by (simp_all add: take_bit_eq_mod mask_eq_exp_minus_1)

lemma unat_low: "unat (h AND 3 :: u8) = unat h mod 4" "unat (hop_count h) = unat h mod 64"
  by (simp_all add: hop_count_def unsigned_and_eq nat_and_low)

lemma size_bits: "unat (pl :: u8) div 64 < 4"
proof -
  have "unat pl < 256"
    using unsigned_less [of pl] by simp
  then show ?thesis
    by (simp add: div_less_iff_less_mult)
qed

lemma unat_size: "unat (hash_size pl) = unat pl div 64 + 1"
proof -
  have "unat (drop_bit 6 pl) = unat pl div 64"
    by (simp add: drop_bit_eq_div unat_div_distrib)
  then show ?thesis
    using size_bits [of pl]
    by (simp add: hash_size_def unat_word_ariths)
qed

lemma route_cases: "route_type h = Some (documented_route h)" "route_carries_transport_codes h \<longleftrightarrow> unat h mod 4 \<in> {0, 3}"
proof -
  have r: "h AND PH_ROUTE_MASK = k \<longleftrightarrow> unat h mod 4 = unat k" for k
    using unat_low(1) [of h] by (metis PH_ROUTE_MASK_def unsigned_word_eqI)
  have "unat h mod 4 < 4"
    by simp
  then consider "unat h mod 4 = 0" | "unat h mod 4 = 1" | "unat h mod 4 = 2" | "unat h mod 4 = 3"
    by linarith
  then show "route_type h = Some (documented_route h)" "route_carries_transport_codes h \<longleftrightarrow> unat h mod 4 \<in> {0, 3}"
    by (cases; simp add: route_type_def documented_route_def route_carries_transport_codes_def r Let_def)+
qed

lemma wf_frame_documented: "wf_frame h codes pl path \<longleftrightarrow> documented_frame h codes pl path"
proof -
  have four: "hash_size pl = 4 \<longleftrightarrow> unat pl div 64 + 1 = 4"
  proof -
    have "unat (4 :: u8) = 4"
      by simp
    then show ?thesis
      using unat_size [of pl] by (metis unsigned_word_eqI)
  qed
  have "unat pl div 64 + 1 \<le> 4"
    using size_bits [of pl] by linarith
  then have "is_valid pl \<longleftrightarrow> unat pl div 64 + 1 \<le> 3 \<and> unat pl mod 64 * (unat pl div 64 + 1) \<le> 64"
    unfolding is_valid_def four unat_low unat_size MAX_PATH_SIZE_def by auto
  then show ?thesis
    unfolding wf_frame_def documented_frame_def route_cases(2) unat_low unat_size Let_def by auto
qed

lemma of_nat_fields: "of_nat (unat pl div 64 + 1) = hash_size pl" "of_nat (unat pl mod 64) = hop_count pl"
  unfolding unat_size [symmetric] unat_low(2) [symmetric] by simp_all

lemma rx_parse_layout:
  "parse_rx_frame_header f = Inr hdr \<longleftrightarrow>
     (\<exists>h codes pl path payload. f = mk_frame h codes pl path payload \<and> wf_frame h codes pl path \<and>
        hdr = \<lparr>rx_header_byte = h, rx_route_type = route_type h,
          rx_has_transport_codes = route_carries_transport_codes h,
          rx_path_len_byte = pl, rx_hash_size = hash_size pl, rx_hop_count = hop_count pl,
          rx_payload_off = 2 + length codes + length path\<rparr> \<and>
        drop (rx_payload_off hdr) f = payload)" (is "?L \<longleftrightarrow> ?R")
proof
  assume L: ?L
  then obtain codes path payload where
    f: "f = mk_frame (rx_header_byte hdr) codes (rx_path_len_byte hdr) path payload"
    and wf: "wf_frame (rx_header_byte hdr) codes (rx_path_len_byte hdr) path"
    and off: "rx_payload_off hdr = 2 + length codes + length path"
    by (rule parse_accepts_only_layout)
  have "drop (rx_payload_off hdr) f = payload"
    unfolding off by (subst f) (rule drop_mk_frame)
  with L f wf parse_mk_frame [OF wf, of payload] show ?R
    by (metis sum.inject(2))
next
  assume ?R
  then show ?L
    by (elim exE conjE) (simp only: parse_mk_frame)
qed

section \<open>Properties\<close>

text \<open>C7: the receive parser accepts exactly the frames of the documented layout: a header byte, four transport-code
  bytes for the route bits 0 and 3 only, a path length byte with a hash size of at most 3 bytes and a path of at most
  64, the path it declares, the payload.  The header it returns gives the route, the sizes and where the payload starts.\<close>

theorem rx_parse_iff_layout:
  "parse_rx_frame_header f = Inr hdr \<longleftrightarrow>
     (\<exists>h codes pl path payload. f = mk_frame h codes pl path payload \<and> documented_frame h codes pl path \<and>
        hdr = \<lparr>rx_header_byte = h, rx_route_type = Some (documented_route h),
          rx_has_transport_codes = (unat h mod 4 \<in> {0, 3}),
          rx_path_len_byte = pl, rx_hash_size = of_nat (unat pl div 64 + 1), rx_hop_count = of_nat (unat pl mod 64),
          rx_payload_off = 2 + length codes + length path\<rparr> \<and>
        drop (rx_payload_off hdr) f = payload)"
  unfolding rx_parse_layout of_nat_fields route_cases wf_frame_documented ..

text \<open>the parser's error values say exactly what is wrong: an empty frame, a frame that stops
  before its \<open>path_len\<close> byte, a \<open>path_len\<close> byte with the reserved hash size or an oversize
  path, a frame shorter than the path it declares.\<close>

theorem rx_parse_error_iff:
  "parse_rx_frame_header f = Inl e \<longleftrightarrow>
     (let i = (if route_carries_transport_codes (f ! 0) then 5 else 1); pl = f ! i;
          off = i + 1 + unat (hop_count pl) * unat (hash_size pl) in
      f = [] \<and> e = RxEmpty
      \<or> f \<noteq> [] \<and> length f \<le> i \<and> e = RxTooShortForPathLen (length f) (i + 1)
      \<or> i < length f \<and> (unat (hash_size pl) = 4 \<or> unat (hop_count pl) * unat (hash_size pl) > 64)
          \<and> e = RxInvalidPathLen pl
      \<or> i < length f \<and> is_valid pl \<and> length f < off \<and> e = RxTooShortForPath (length f) off)"
proof (cases f)
  case Nil
  then show ?thesis
    by (auto simp: parse_rx_frame_header_def get_opt_def)
next
  case (Cons h rest)
  have "unat (hash_size pl) = 4 \<longleftrightarrow> hash_size pl = 4" for pl
    by (simp add: u8_eq_iff)
  then show ?thesis
    by (auto simp: Cons parse_rx_frame_header_def frame_path_len_def get_opt_def Let_def
        is_valid_def MAX_PATH_SIZE_def split: if_splits)
qed

text \<open>a header built by \<open>Header::new\<close> reads back its route type, its payload type and
  version 0.\<close>

theorem header_roundtrip:
  "route_type (Header_new r p) = Some r \<and> payload_type (Header_new r p) = Some p
     \<and> version (Header_new r p) = 0"
  by simp

text \<open>\<open>PathLen::new\<close> succeeds exactly on hash sizes 1 to 4 and hop counts up to 63, the byte
  reads both back, its \<open>u8\<close> product does not overflow, and the receive-side check \<open>is_valid\<close>
  is strictly stronger: it rejects the reserved hash size 4 and paths over 64 bytes.\<close>

theorem path_len_roundtrip:
  "(case PathLen_new hs hc of
      None \<Rightarrow> unat hs = 0 \<or> unat hs > 4 \<or> unat hc > 63
    | Some p \<Rightarrow> 1 \<le> unat hs \<and> unat hs \<le> 4 \<and> unat hc \<le> 63 \<and> hash_size p = hs \<and> hop_count p = hc
        \<and> unat (path_byte_len p) = unat hc * unat hs
        \<and> (is_valid p \<longleftrightarrow> unat hs \<noteq> 4 \<and> unat hc * unat hs \<le> 64))"
proof (cases "PathLen_new hs hc")
  case None
  then show ?thesis
    by (auto simp: PathLen_new_def word_le_nat_alt word_less_nat_alt split: if_splits)
next
  case (Some p)
  from Some have "1 \<le> unat hs \<and> unat hs \<le> 4 \<and> unat hc \<le> 63"
    by (auto simp: PathLen_new_def word_le_nat_alt not_less split: if_splits)
  moreover note PathLen_new_fields [OF Some]
  ultimately show ?thesis
    using Some by (auto simp: unat_path_byte_len is_valid_def MAX_PATH_SIZE_def u8_eq_iff)
qed

end
