(* ===== verification/Codec.thy ===== *)
theory Codec
  imports Crypto Wire
begin

text \<open>
  \<open>protocol/src/codec.rs\<close>: the DM envelope, the TXT_MSG plaintext, ACK hashes,
  group-channel (GRP_TXT) payloads, the channel sender-name prefix and the
  PATH-return decoder.  Decoders return the plaintext buffer beside their
  \<open>Result\<close>.  The lemmas give the round trips of each format through the
  envelope, and the safety of the PATH-return decoder on hostile input.
\<close>

section \<open>Errors\<close>

datatype CodecError = MacMismatch | TruncatedPayload | MisalignedCiphertext | InvalidPathLen

text \<open>\<open>impl From<MacError> for CodecError\<close>, applied by the \<open>?\<close> operator.\<close>

definition from_MacError :: "MacError \<Rightarrow> CodecError" where
  "from_MacError _ = MacMismatch"

section \<open>DM envelope\<close>

definition encode_dm_payload ::
    "crypto_prims \<Rightarrow> bytes \<Rightarrow> u8 \<Rightarrow> u8 \<Rightarrow> bytes \<Rightarrow> bytes \<Rightarrow> (bytes \<times> nat) rust" where
  "encode_dm_payload C shared_secret dest_hash src_hash plaintext out = do {
     aes_key \<leftarrow> slice shared_secret 0 16;
     out \<leftarrow> set_at out 0 dest_hash;
     out \<leftarrow> set_at out 1 src_hash;
     body \<leftarrow> slice_from out 2;
     (body, mac_ct_len) \<leftarrow> encrypt_then_mac_var C aes_key shared_secret plaintext body;
     Some (take 2 out @ body, 2 + mac_ct_len)
   }"

definition decode_dm_payload ::
    "crypto_prims \<Rightarrow> bytes \<Rightarrow> bytes \<Rightarrow> bytes \<Rightarrow> (bytes \<times> (CodecError + u8 \<times> u8 \<times> nat)) rust" where
  "decode_dm_payload C shared_secret payload plaintext_out =
     (if length payload < 4 then Some (plaintext_out, Inl TruncatedPayload)
      else
        let dest_hash = payload ! 0; src_hash = payload ! 1; mac_and_ct = drop 2 payload in
        if length mac_and_ct < 2 \<or> (length mac_and_ct - 2) mod 16 \<noteq> 0
        then Some (plaintext_out, Inl MisalignedCiphertext)
        else do {
          aes_key \<leftarrow> slice shared_secret 0 16;
          (buf, r) \<leftarrow> mac_then_decrypt_var C aes_key shared_secret mac_and_ct plaintext_out;
          (case r of
             Inl e \<Rightarrow> Some (buf, Inl (from_MacError e))
           | Inr pt_len \<Rightarrow> Some (buf, Inr (dest_hash, src_hash, pt_len)))
        })"

section \<open>TXT_MSG plaintext\<close>

datatype TxtType = TT_Plain | TT_CliData | TT_SignedPlain | TT_CliCommand | TT_Unknown u8

definition TxtType_from_byte :: "u8 \<Rightarrow> TxtType" where
  "TxtType_from_byte raw =
     (if raw = 0 then TT_Plain else if raw = 1 then TT_CliData
      else if raw = 2 then TT_SignedPlain else if raw = 3 then TT_CliCommand
      else TT_Unknown raw)"

primrec TxtType_as_byte :: "TxtType \<Rightarrow> u8" where
  "TxtType_as_byte TT_Plain = 0"
| "TxtType_as_byte TT_CliData = 1"
| "TxtType_as_byte TT_SignedPlain = 2"
| "TxtType_as_byte TT_CliCommand = 3"
| "TxtType_as_byte (TT_Unknown raw) = raw"

primrec TxtType_is_text :: "TxtType \<Rightarrow> bool" where
  "TxtType_is_text TT_Plain = True"
| "TxtType_is_text TT_CliData = False"
| "TxtType_is_text TT_SignedPlain = True"
| "TxtType_is_text TT_CliCommand = False"
| "TxtType_is_text (TT_Unknown raw) = False"

definition encode_txt_msg_plaintext :: "u32 \<Rightarrow> u8 \<Rightarrow> u8 \<Rightarrow> bytes \<Rightarrow> bytes \<Rightarrow> (bytes \<times> nat) rust" where
  "encode_txt_msg_plaintext timestamp txt_type attempt msg out = do {
     let ts_bytes = to_le32 timestamp;
     out \<leftarrow> set_at out 0 (ts_bytes ! 0);
     out \<leftarrow> set_at out 1 (ts_bytes ! 1);
     out \<leftarrow> set_at out 2 (ts_bytes ! 2);
     out \<leftarrow> set_at out 3 (ts_bytes ! 3);
     out \<leftarrow> set_at out 4 (push_bit 2 txt_type OR (attempt AND 0x03));
     out \<leftarrow> copy_into out 5 msg;
     Some (out, 5 + length msg)
   }"

definition decode_txt_msg_plaintext ::
    "bytes \<Rightarrow> nat \<Rightarrow> (CodecError + u32 \<times> TxtType \<times> u8 \<times> nat) rust" where
  "decode_txt_msg_plaintext plaintext plaintext_actual_len =
     (if plaintext_actual_len < 5 then Some (Inl TruncatedPayload)
      else do {
        b0 \<leftarrow> get_at plaintext 0;
        b1 \<leftarrow> get_at plaintext 1;
        b2 \<leftarrow> get_at plaintext 2;
        b3 \<leftarrow> get_at plaintext 3;
        let timestamp = from_le32 b0 b1 b2 b3;
        type_byte \<leftarrow> get_at plaintext 4;
        let txt_type = TxtType_from_byte (drop_bit 2 type_byte);
        let attempt = type_byte AND 0x03;
        Some (Inr (timestamp, txt_type, attempt, 5))
      })"

section \<open>ACK hash\<close>

definition compute_ack_hash :: "crypto_prims \<Rightarrow> u32 \<Rightarrow> u8 \<Rightarrow> bytes \<Rightarrow> bytes \<Rightarrow> bytes" where
  "compute_ack_hash C timestamp txt_type_attempt msg sender_pub_key =
     (let ts = to_le32 timestamp;
          result = sha256_digest C (ts @ [txt_type_attempt] @ msg @ sender_pub_key)
      in [result ! 0, result ! 1, result ! 2, result ! 3])"

section \<open>GRP_TXT\<close>

definition channel_hash_var :: "crypto_prims \<Rightarrow> bytes \<Rightarrow> u8" where
  "channel_hash_var C channel_secret = sha256 C channel_secret ! 0"

definition channel_hash :: "crypto_prims \<Rightarrow> bytes \<Rightarrow> u8" where
  "channel_hash C channel_secret = channel_hash_var C channel_secret"

definition encode_grp_txt_var ::
    "crypto_prims \<Rightarrow> bytes \<Rightarrow> u32 \<Rightarrow> u8 \<Rightarrow> u8 \<Rightarrow> bytes \<Rightarrow> bytes \<Rightarrow> (bytes \<times> nat) rust" where
  "encode_grp_txt_var C channel_secret timestamp txt_type attempt msg out = do {
     (pt_buf, pt_len) \<leftarrow> encode_txt_msg_plaintext timestamp txt_type attempt msg (zeros 256);
     aes_key \<leftarrow> slice channel_secret 0 16;
     out \<leftarrow> set_at out 0 (channel_hash_var C channel_secret);
     pt \<leftarrow> slice pt_buf 0 pt_len;
     body \<leftarrow> slice_from out 1;
     (body, mac_ct_len) \<leftarrow> encrypt_then_mac_var C aes_key channel_secret pt body;
     Some (take 1 out @ body, 1 + mac_ct_len)
   }"

definition encode_grp_txt ::
    "crypto_prims \<Rightarrow> bytes \<Rightarrow> u32 \<Rightarrow> u8 \<Rightarrow> u8 \<Rightarrow> bytes \<Rightarrow> bytes \<Rightarrow> (bytes \<times> nat) rust" where
  "encode_grp_txt C channel_secret timestamp txt_type attempt msg out =
     encode_grp_txt_var C channel_secret timestamp txt_type attempt msg out"

section \<open>Channel sender-name prefix\<close>

text \<open>The two bytes of \<open>": "\<close>.\<close>

definition CHANNEL_NAME_DELIM :: bytes where
  "CHANNEL_NAME_DELIM = [0x3A, 0x20]"

definition append_clamped :: "bytes \<Rightarrow> nat \<Rightarrow> bytes \<Rightarrow> (bytes \<times> nat) rust" where
  "append_clamped out w src = do {
     let n = min (length src) (length out - w);
     out \<leftarrow> copy_into out w (take n src);
     Some (out, w + n)
   }"

definition format_channel_text :: "bytes \<Rightarrow> bytes \<Rightarrow> bytes \<Rightarrow> (bytes \<times> nat) rust" where
  "format_channel_text sender_name body out = do {
     (out, w) \<leftarrow> append_clamped out 0 sender_name;
     (out, w) \<leftarrow> append_clamped out w CHANNEL_NAME_DELIM;
     append_clamped out w body
   }"

text \<open>The scan over the start index \<open>i\<close>; \<open>k\<close> counts the passes left.\<close>

fun delim_scan :: "bytes \<Rightarrow> nat \<Rightarrow> nat \<Rightarrow> bytes option \<times> bytes" where
  "delim_scan msg 0 i = (None, msg)"
| "delim_scan msg (Suc k) i =
     (if take (length CHANNEL_NAME_DELIM) (drop i msg) = CHANNEL_NAME_DELIM
      then (Some (take i msg), drop (i + length CHANNEL_NAME_DELIM) msg)
      else delim_scan msg k (Suc i))"

definition parse_channel_text :: "bytes \<Rightarrow> bytes option \<times> bytes" where
  "parse_channel_text msg =
     (if length msg \<ge> length CHANNEL_NAME_DELIM
      then let last = length msg - length CHANNEL_NAME_DELIM in delim_scan msg (Suc last) 0
      else (None, msg))"

section \<open>GRP_TXT decode\<close>

record GrpTxtFields =
  gt_timestamp :: u32
  gt_txt_type :: TxtType
  gt_attempt :: u8
  gt_text_offset :: nat
  gt_text_len :: nat

definition decode_grp_txt_var ::
    "crypto_prims \<Rightarrow> bytes \<Rightarrow> bytes \<Rightarrow> bytes \<Rightarrow> (bytes \<times> (CodecError + GrpTxtFields)) rust" where
  "decode_grp_txt_var C channel_secret payload plaintext_buf =
     (if length payload < 3 then Some (plaintext_buf, Inl TruncatedPayload)
      else
        let mac_and_ct = drop 1 payload in
        if length mac_and_ct < 2 \<or> (length mac_and_ct - 2) mod 16 \<noteq> 0
        then Some (plaintext_buf, Inl MisalignedCiphertext)
        else do {
          aes_key \<leftarrow> slice channel_secret 0 16;
          (buf, r) \<leftarrow> mac_then_decrypt_var C aes_key channel_secret mac_and_ct plaintext_buf;
          (case r of
             Inl e \<Rightarrow> Some (buf, Inl (from_MacError e))
           | Inr pt_len \<Rightarrow> do {
               d \<leftarrow> decode_txt_msg_plaintext buf pt_len;
               (case d of
                  Inl e \<Rightarrow> Some (buf, Inl e)
                | Inr (timestamp, txt_type, attempt, text_offset) \<Rightarrow>
                    Some (buf, Inr \<lparr>gt_timestamp = timestamp, gt_txt_type = txt_type,
                      gt_attempt = attempt, gt_text_offset = text_offset,
                      gt_text_len = pt_len - text_offset\<rparr>))
             })
        })"

definition decode_grp_txt ::
    "crypto_prims \<Rightarrow> bytes \<Rightarrow> bytes \<Rightarrow> bytes \<Rightarrow> (bytes \<times> (CodecError + GrpTxtFields)) rust" where
  "decode_grp_txt C channel_secret payload plaintext_buf =
     decode_grp_txt_var C channel_secret payload plaintext_buf"

section \<open>PATH return\<close>

datatype PathExtra = PE_Ack bytes | PE_Response bytes | PE_None

record ReturnPath =
  rp_path_len_byte :: u8
  rp_path :: bytes
  rp_path_byte_count :: nat
  rp_extra :: PathExtra

definition decode_path_return_plaintext :: "bytes \<Rightarrow> nat \<Rightarrow> (CodecError + ReturnPath) rust" where
  "decode_path_return_plaintext plaintext pt_len =
     (if pt_len < 2 then Some (Inl TruncatedPayload)
      else do {
        path_len_byte \<leftarrow> get_at plaintext 0;
        if \<not> is_valid path_len_byte then Some (Inl InvalidPathLen)
        else
          let hash_size = unat (drop_bit 6 path_len_byte + 1);
              hop_count = unat (path_len_byte AND 63);
              path_byte_count = hop_count * hash_size in
          if pt_len < 1 + path_byte_count + 1 then Some (Inl TruncatedPayload)
          else do {
            src \<leftarrow> slice plaintext 1 (1 + path_byte_count);
            path \<leftarrow> copy_into (zeros 64) 0 src;
            let extra_offset = 1 + path_byte_count;
            eb \<leftarrow> get_at plaintext extra_offset;
            let extra_type = eb AND 0x0F;
            let mk = (\<lambda>extra. \<lparr>rp_path_len_byte = path_len_byte, rp_path = path,
                        rp_path_byte_count = path_byte_count, rp_extra = extra\<rparr>);
            if extra_type = 0x03 then
              if pt_len < extra_offset + 1 + 4 then Some (Inl TruncatedPayload)
              else do {
                ack \<leftarrow> slice plaintext (extra_offset + 1) (extra_offset + 5);
                Some (Inr (mk (PE_Ack ack)))
              }
            else if extra_type = 0x01 then
              if pt_len < extra_offset + 1 + 13 then Some (Inl TruncatedPayload)
              else do {
                resp \<leftarrow> slice plaintext (extra_offset + 1) (extra_offset + 14);
                Some (Inr (mk (PE_Response resp)))
              }
            else Some (Inr (mk PE_None))
          }
      })"

definition decode_path_return ::
    "crypto_prims \<Rightarrow> bytes \<Rightarrow> bytes \<Rightarrow> bytes \<Rightarrow> (bytes \<times> (CodecError + u8 \<times> u8 \<times> ReturnPath)) rust" where
  "decode_path_return C shared_secret payload plaintext_buf = do {
     (buf, r) \<leftarrow> decode_dm_payload C shared_secret payload plaintext_buf;
     (case r of
        Inl e \<Rightarrow> Some (buf, Inl e)
      | Inr (dest_hash, src_hash, pt_len) \<Rightarrow> do {
          d \<leftarrow> decode_path_return_plaintext buf pt_len;
          (case d of
             Inl e \<Rightarrow> Some (buf, Inl e)
           | Inr rp \<Rightarrow> Some (buf, Inr (dest_hash, src_hash, rp)))
        })
   }"

section \<open>Lemmas: DM envelope\<close>

lemma encode_dm_payload_spec:
  assumes "crypto_ok C" "16 \<le> length secret" "4 + ceil_16 (length pt) \<le> length out"
  shows "encode_dm_payload C secret d s pt out =
    Some (d # s # seal C (take 16 secret) secret pt @ drop (4 + ceil_16 (length pt)) out,
      4 + ceil_16 (length pt))"
proof -
  obtain a b rest where out: "out = a # b # rest"
    using assms(3) by (cases out; cases "tl out") auto
  show ?thesis
    using assms encrypt_then_mac_var_spec [of C "take 16 secret" pt rest secret]
    by (simp add: encode_dm_payload_def out rust_simps eval_nat_numeral)
qed

lemma decode_dm_payload_spec:
  assumes "crypto_ok C" "16 \<le> length secret" "ceil_16 (length pt) \<le> length buf"
  shows "decode_dm_payload C secret (d # s # seal C (take 16 secret) secret pt) buf =
    Some (pad16 pt @ drop (ceil_16 (length pt)) buf, Inr (d, s, ceil_16 (length pt)))"
  using assms mac_then_decrypt_var_seal [of C "take 16 secret" pt buf secret]
  by (simp add: decode_dm_payload_def slice_def Let_def)

section \<open>Lemmas: TXT_MSG plaintext\<close>

lemma and_3_take_bit: "a AND 3 = take_bit 2 a" for a :: u8
  by (simp add: take_bit_eq_mask mask_eq_exp_minus_1)

lemma and_63_take_bit: "a AND 63 = take_bit 6 a" for a :: u8
  by (simp add: take_bit_eq_mask mask_eq_exp_minus_1)

lemma type_byte_txt_type: "drop_bit 2 (push_bit 2 t OR (a AND 3)) = t AND 63" for t a :: u8
  unfolding and_3_take_bit and_63_take_bit
  by (rule bit_word_eqI) (auto simp: bit_simps)

lemma type_byte_attempt: "(push_bit 2 t OR (a AND 3)) AND 3 = a AND 3" for t a :: u8
  unfolding and_3_take_bit
  by (rule bit_word_eqI) (auto simp: bit_simps)

lemma txt_type_6bit: "unat t < 64 \<Longrightarrow> t AND 63 = t" for t :: u8
  by (simp add: u8_eq_iff unat_and_63)

lemma attempt_2bit: "unat a < 4 \<Longrightarrow> a AND 3 = a" for a :: u8
  by (simp add: u8_eq_iff unat_and_3)

lemma TxtType_as_from [simp]: "TxtType_as_byte (TxtType_from_byte b) = b"
  by (simp add: TxtType_from_byte_def)

definition txt_msg_bytes :: "u32 \<Rightarrow> u8 \<Rightarrow> u8 \<Rightarrow> bytes \<Rightarrow> bytes" where
  "txt_msg_bytes ts tt att msg = to_le32 ts @ [push_bit 2 tt OR (att AND 3)] @ msg"

lemma length_txt_msg_bytes [simp]: "length (txt_msg_bytes ts tt att msg) = 5 + length msg"
  by (simp add: txt_msg_bytes_def)

lemma encode_txt_msg_plaintext_spec:
  assumes "5 + length msg \<le> length out"
  shows "encode_txt_msg_plaintext ts tt att msg out =
    Some (txt_msg_bytes ts tt att msg @ drop (5 + length msg) out, 5 + length msg)"
proof -
  from assms have "5 \<le> length out" by simp
  then obtain a b c d e rest where out: "out = a # b # c # d # e # rest"
    by (rule list_5_cases)
  show ?thesis
    using assms
    by (simp add: encode_txt_msg_plaintext_def out rust_simps txt_msg_bytes_def to_le32_def Let_def
        eval_nat_numeral)
qed

lemma encode_txt_msg_plaintext_panics:
  "length out < 5 + length msg \<Longrightarrow> encode_txt_msg_plaintext ts tt att msg out = panic"
  by (auto simp: encode_txt_msg_plaintext_def Let_def rust_simps)

lemma decode_txt_msg_plaintext_spec:
  assumes "5 \<le> n"
  shows "decode_txt_msg_plaintext (txt_msg_bytes ts tt att msg @ rest) n =
    Some (Inr (ts, TxtType_from_byte (tt AND 63), att AND 3, 5))"
proof -
  have "decode_txt_msg_plaintext (a # b # c # d # tb # ys) n =
      Some (Inr (from_le32 a b c d, TxtType_from_byte (drop_bit 2 tb), tb AND 3, 5))" for a b c d tb ys
    using assms by (simp add: decode_txt_msg_plaintext_def rust_simps Let_def)
  then show ?thesis
    unfolding txt_msg_bytes_def to_le32_def append.simps
    by (simp only: from_to_le32 type_byte_txt_type type_byte_attempt)
qed

lemma decode_txt_msg_no_panic:
  "n \<le> length buf \<Longrightarrow> decode_txt_msg_plaintext buf n \<noteq> panic"
  by (auto simp: decode_txt_msg_plaintext_def rust_simps Let_def)

section \<open>Lemmas: GRP_TXT\<close>

lemma encode_grp_txt_var_spec:
  assumes "crypto_ok C" "16 \<le> length secret" "length msg \<le> 251"
    and "3 + ceil_16 (5 + length msg) \<le> length out"
  shows "encode_grp_txt_var C secret ts tt att msg out =
    Some (channel_hash_var C secret # seal C (take 16 secret) secret (txt_msg_bytes ts tt att msg)
      @ drop (3 + ceil_16 (5 + length msg)) out, 3 + ceil_16 (5 + length msg))"
proof -
  obtain a rest where out: "out = a # rest"
    using assms(4) by (cases out) auto
  have "encode_txt_msg_plaintext ts tt att msg (zeros 256) =
      Some (txt_msg_bytes ts tt att msg @ zeros (251 - length msg), 5 + length msg)"
    using assms(3) by (subst encode_txt_msg_plaintext_spec) simp_all
  then show ?thesis
    using assms encrypt_then_mac_var_spec [of C "take 16 secret" "txt_msg_bytes ts tt att msg" rest secret]
    by (simp add: encode_grp_txt_var_def out rust_simps eval_nat_numeral)
qed

lemma decode_grp_txt_var_spec:
  assumes "crypto_ok C" "16 \<le> length secret" "ceil_16 (5 + length msg) \<le> length buf"
  shows "decode_grp_txt_var C secret
      (h # seal C (take 16 secret) secret (txt_msg_bytes ts tt att msg)) buf =
    Some (pad16 (txt_msg_bytes ts tt att msg) @ drop (ceil_16 (5 + length msg)) buf,
      Inr \<lparr>gt_timestamp = ts, gt_txt_type = TxtType_from_byte (tt AND 63), gt_attempt = att AND 3,
        gt_text_offset = 5, gt_text_len = ceil_16 (5 + length msg) - 5\<rparr>)"
proof -
  have ge: "5 \<le> ceil_16 (5 + length msg)"
    using ceil_16_ge [of "5 + length msg"] by simp
  show ?thesis
    using assms mac_then_decrypt_var_seal [of C "take 16 secret" "txt_msg_bytes ts tt att msg" buf secret]
      decode_txt_msg_plaintext_spec [OF ge]
    by (simp add: decode_grp_txt_var_def slice_def Let_def pad16_def)
qed

section \<open>Lemmas: channel text\<close>

lemma length_delim [simp]: "length CHANNEL_NAME_DELIM = 2"
  by (simp add: CHANNEL_NAME_DELIM_def)

lemma append_clamped_spec:
  "w \<le> length out \<Longrightarrow> append_clamped out w src =
     Some (take w out @ take (length out - w) src @ drop (w + min (length src) (length out - w)) out,
       w + min (length src) (length out - w))"
  by (auto simp: append_clamped_def copy_into_def Let_def min_def)

lemma format_channel_text_spec:
  assumes "length name + 2 + length body \<le> length out"
  shows "format_channel_text name body out =
    Some (name @ CHANNEL_NAME_DELIM @ body @ drop (length name + 2 + length body) out,
      length name + 2 + length body)"
proof -
  have "2 \<le> length out - length name" "length body \<le> length out - Suc (Suc (length name))"
    using assms by arith+
  then show ?thesis
    using assms
    by (simp add: format_channel_text_def append_clamped_spec min_def ac_simps)
qed

text \<open>The scan returns the first position at which the delimiter occurs.\<close>

definition delim_at :: "bytes \<Rightarrow> nat \<Rightarrow> bool" where
  "delim_at msg i \<longleftrightarrow> take 2 (drop i msg) = CHANNEL_NAME_DELIM"

lemma delim_scan_hit:
  "(\<forall>j. i \<le> j \<and> j < m \<longrightarrow> \<not> delim_at msg j) \<Longrightarrow> i \<le> m \<Longrightarrow> m < i + k \<Longrightarrow> delim_at msg m \<Longrightarrow>
   delim_scan msg k i = (Some (take m msg), drop (m + 2) msg)"
proof (induction msg k i rule: delim_scan.induct)
  case (2 msg k i)
  show ?case
  proof (cases "i = m")
    case True
    with "2.prems" show ?thesis
      by (simp add: delim_at_def)
  next
    case False
    then have "\<not> delim_at msg i"
      using "2.prems" by simp
    with "2.IH" "2.prems" False show ?thesis
      by (simp add: delim_at_def)
  qed
qed simp

lemma delim_scan_miss:
  "(\<forall>j. i \<le> j \<and> j < i + k \<longrightarrow> \<not> delim_at msg j) \<Longrightarrow> delim_scan msg k i = (None, msg)"
  by (induction msg k i rule: delim_scan.induct) (auto simp: delim_at_def)

lemma delim_at_length: "delim_at msg i \<Longrightarrow> i + 2 \<le> length msg"
  by (cases "drop i msg"; cases "tl (drop i msg)")
     (auto simp: delim_at_def CHANNEL_NAME_DELIM_def dest: arg_cong [where f = length])

lemma delim_at_prefix:
  assumes "j < length name" "\<not> delim_at name j"
  shows "\<not> delim_at (name @ CHANNEL_NAME_DELIM @ body) j"
proof (cases "j + 2 \<le> length name")
  case True
  then show ?thesis
    using assms by (simp add: delim_at_def)
next
  case False
  then have "j = length name - 1" and "name \<noteq> []"
    using assms(1) by auto
  then show ?thesis
    by (cases name rule: rev_cases) (simp_all add: delim_at_def CHANNEL_NAME_DELIM_def)
qed

lemma parse_channel_text_hit:
  assumes "delim_at msg m" "\<forall>j < m. \<not> delim_at msg j"
  shows "parse_channel_text msg = (Some (take m msg), drop (m + 2) msg)"
  using delim_at_length [OF assms(1)] assms
  by (simp add: parse_channel_text_def delim_scan_hit [where m = m] del: delim_scan.simps)

lemma parse_channel_text_miss:
  assumes "\<forall>j. \<not> delim_at msg j"
  shows "parse_channel_text msg = (None, msg)"
  using assms by (simp add: parse_channel_text_def delim_scan_miss del: delim_scan.simps)

lemma delim_at_decomp: "delim_at msg m \<Longrightarrow> msg = take m msg @ CHANNEL_NAME_DELIM @ drop (m + 2) msg"
  by (metis delim_at_def append_take_drop_id drop_drop add.commute)

section \<open>Lemmas: PATH return\<close>

lemma path_count_eq:
  "unat (p AND 63) * unat (drop_bit 6 p + 1) = unat (hop_count p) * unat (hash_size p)"
  by (simp add: hop_count_def hash_size_def)

lemma path_count_le: "is_valid p \<Longrightarrow> unat (hop_count p) * unat (hash_size p) \<le> 64"
  by (simp add: is_valid_def MAX_PATH_SIZE_def split: if_splits)

lemma decode_path_return_plaintext_total:
  assumes "n \<le> length pt"
  shows "\<exists>r. decode_path_return_plaintext pt n = Some r"
proof (cases "2 \<le> n \<and> is_valid (pt ! 0)
    \<and> 1 + unat (hop_count (pt ! 0)) * unat (hash_size (pt ! 0)) + 1 \<le> n")
  case False
  then show ?thesis
    using assms
    by (auto simp: decode_path_return_plaintext_def get_at_def path_count_eq Let_def)
next
  case True
  then show ?thesis
    using assms path_count_le [of "pt ! 0"]
    by (auto simp: decode_path_return_plaintext_def rust_simps path_count_eq Let_def)
qed

lemma decode_path_return_plaintext_OK:
  assumes "n \<le> length pt" "decode_path_return_plaintext pt n = Some (Inr rp)"
  shows "is_valid (rp_path_len_byte rp)" "rp_path_len_byte rp = pt ! 0"
    "rp_path_byte_count rp = unat (hop_count (pt ! 0)) * unat (hash_size (pt ! 0))"
    "rp_path rp = take (rp_path_byte_count rp) (drop 1 pt) @ zeros (64 - rp_path_byte_count rp)"
    "rp_path_byte_count rp + 2 \<le> n"
proof -
  define c where "c = unat (hop_count (pt ! 0)) * unat (hash_size (pt ! 0))"
  from assms have n: "2 \<le> n" and v: "is_valid (pt ! 0)" and len: "c + 2 \<le> n"
    by (auto simp: decode_path_return_plaintext_def get_at_def path_count_eq Let_def c_def
        split: if_splits)
  from v have "c \<le> 64"
    by (simp add: c_def path_count_le)
  then have "slice pt 1 (1 + c) = Some (take c (drop 1 pt))"
    "copy_into (zeros 64) 0 (take c (drop 1 pt)) = Some (take c (drop 1 pt) @ zeros (64 - c))"
    using assms(1) len by (auto simp: slice_def copy_into_def)
  with assms n v len show "is_valid (rp_path_len_byte rp)" "rp_path_len_byte rp = pt ! 0"
    "rp_path_byte_count rp = unat (hop_count (pt ! 0)) * unat (hash_size (pt ! 0))"
    "rp_path rp = take (rp_path_byte_count rp) (drop 1 pt) @ zeros (64 - rp_path_byte_count rp)"
    "rp_path_byte_count rp + 2 \<le> n"
    by (auto simp: decode_path_return_plaintext_def get_at_def path_count_eq Let_def
        bind_eq_Some_conv simp flip: c_def split: if_splits)
qed

lemma decode_dm_payload_total:
  assumes "crypto_ok C" "16 \<le> length secret" "length payload \<le> length buf + 4"
  shows "\<exists>buf' r. decode_dm_payload C secret payload buf = Some (buf', r) \<and> length buf' = length buf
    \<and> (\<forall>d s n. r = Inr (d, s, n) \<longrightarrow> n + 4 = length payload)"
proof (cases "4 \<le> length payload \<and> envelope_ok C secret (drop 2 payload)")
  case True
  have "length (ecb_decrypt C (take 16 secret) (drop 4 payload)) = length payload - 4"
    using True assms crypto_okD(2) [OF assms(1), of "take 16 secret"]
    unfolding ecb_decrypt_def
    by (subst length_ecb) (auto simp: envelope_ok_def)
  then show ?thesis
    using True assms mac_then_decrypt_var_accept [of C "take 16 secret" secret "drop 2 payload" buf]
    by (auto simp: decode_dm_payload_def slice_def Let_def envelope_ok_def)
next
  case False
  then show ?thesis
    using assms
    by (auto simp: decode_dm_payload_def slice_def Let_def mac_then_decrypt_var_eq)
qed

section \<open>Properties\<close>

text \<open>a direct message encoded into a buffer that is large enough decodes under the same
  shared secret to the same destination and source hashes and the zero-padded plaintext; no
  byte after the reported length is written.\<close>

theorem dm_roundtrip:
  assumes "crypto_ok C" "length secret = 32"
    and "4 + ceil_16 (length pt) \<le> length out" "ceil_16 (length pt) \<le> length buf"
  shows "\<exists>out'. encode_dm_payload C secret dest src pt out = Some (out', 4 + ceil_16 (length pt))
    \<and> drop (4 + ceil_16 (length pt)) out' = drop (4 + ceil_16 (length pt)) out
    \<and> decode_dm_payload C secret (take (4 + ceil_16 (length pt)) out') buf =
        Some (pad16 pt @ drop (ceil_16 (length pt)) buf, Inr (dest, src, ceil_16 (length pt)))"
proof -
  let ?p = "dest # src # seal C (take 16 secret) secret pt"
  have "length ?p = 4 + ceil_16 (length pt)"
    using assms by simp
  moreover have "encode_dm_payload C secret dest src pt out =
      Some (?p @ drop (4 + ceil_16 (length pt)) out, 4 + ceil_16 (length pt))"
    using assms by (subst encode_dm_payload_spec) simp_all
  moreover have "decode_dm_payload C secret ?p buf =
      Some (pad16 pt @ drop (ceil_16 (length pt)) buf, Inr (dest, src, ceil_16 (length pt)))"
    using assms by (intro decode_dm_payload_spec) simp_all
  ultimately show ?thesis
    using assms(3) by (intro exI conjI) (assumption, simp_all del: append_Cons)
qed

theorem dm_roundtrip_witness:
  "\<exists>out'. encode_dm_payload demo_prims (replicate 32 7) 0xAA 0xBB [1, 2, 3] (zeros 20) = Some (out', 20)
    \<and> drop 20 out' = []
    \<and> decode_dm_payload demo_prims (replicate 32 7) (take 20 out') (zeros 16) =
        Some ([1, 2, 3] @ zeros 13, Inr (0xAA, 0xBB, 16))"
proof -
  have n: "ceil_16 (length [1, 2, 3 :: u8]) = 16"
    by (simp add: ceil_16_def div_ceil_16_def)
  have p: "pad16 [1, 2, 3] = [1, 2, 3] @ zeros 13"
    by (simp add: pad16_def ceil_16_def div_ceil_16_def)
  show ?thesis
    using dm_roundtrip [OF demo_prims_ok, of "replicate 32 7" "[1, 2, 3]" "zeros 20" "zeros 16" "0xAA" "0xBB"]
    unfolding n p by simp
qed

text \<open>a group message with a 6-bit subtype, a 2-bit attempt and at most 251 text bytes
  round-trips through \<open>encode_grp_txt_var\<close>/\<open>decode_grp_txt_var\<close> for 16- and 32-byte channel
  secrets: every field is recovered, the text starts at offset 5, and the reported text length
  is the text followed by zero padding only.\<close>

theorem grp_txt_roundtrip:
  assumes "crypto_ok C" "length secret = 16 \<or> length secret = 32" "length msg \<le> 251"
    and "unat tt < 64" "unat att < 4"
    and "3 + ceil_16 (5 + length msg) \<le> length out" "ceil_16 (5 + length msg) \<le> length buf"
  shows "\<exists>out' n buf' f. encode_grp_txt_var C secret ts tt att msg out = Some (out', n)
    \<and> n = 3 + ceil_16 (5 + length msg)
    \<and> out' ! 0 = channel_hash_var C secret
    \<and> decode_grp_txt_var C secret (take n out') buf = Some (buf', Inr f)
    \<and> gt_timestamp f = ts \<and> TxtType_as_byte (gt_txt_type f) = tt \<and> gt_attempt f = att
    \<and> take (gt_text_len f) (drop (gt_text_offset f) buf') = msg @ zeros (gt_text_len f - length msg)"
proof -
  let ?n = "ceil_16 (5 + length msg)" and ?m = "txt_msg_bytes ts tt att msg"
  let ?p = "channel_hash_var C secret # seal C (take 16 secret) secret ?m"
  let ?f = "\<lparr>gt_timestamp = ts, gt_txt_type = TxtType_from_byte tt, gt_attempt = att,
        gt_text_offset = 5, gt_text_len = ?n - 5\<rparr>"
  have s16: "16 \<le> length secret"
    using assms(2) by auto
  have lp: "length ?p = 3 + ?n"
    using assms(1) s16 by simp
  have ge: "5 + length msg \<le> ?n"
    by (rule ceil_16_ge)
  have enc: "encode_grp_txt_var C secret ts tt att msg out = Some (?p @ drop (3 + ?n) out, 3 + ?n)"
    using encode_grp_txt_var_spec [OF assms(1) s16 assms(3,6)] by simp
  have dec: "decode_grp_txt_var C secret ?p buf = Some (pad16 ?m @ drop ?n buf, Inr ?f)"
    using decode_grp_txt_var_spec [OF assms(1) s16 assms(7)]
    by (simp add: txt_type_6bit attempt_2bit assms(4,5))
  have pad: "take (?n - 5) (drop 5 (pad16 ?m @ drop ?n buf)) = msg @ zeros (?n - 5 - length msg)"
    using ge by (simp add: pad16_def txt_msg_bytes_def)
  show ?thesis
    by (rule exI [of _ "?p @ drop (3 + ?n) out"], rule exI [of _ "3 + ?n"],
        rule exI [of _ "pad16 ?m @ drop ?n buf"], rule exI [of _ ?f])
       (use enc dec pad lp in \<open>simp del: append_Cons, simp\<close>)
qed

theorem grp_txt_roundtrip_witness:
  "\<exists>out' n buf' f. encode_grp_txt_var demo_prims (replicate 16 9) 1000 2 1 [104, 105] (zeros 19) = Some (out', n)
    \<and> n = 19 \<and> decode_grp_txt_var demo_prims (replicate 16 9) (take n out') (zeros 16) = Some (buf', Inr f)
    \<and> gt_timestamp f = 1000 \<and> TxtType_as_byte (gt_txt_type f) = 2 \<and> gt_attempt f = 1
    \<and> take (gt_text_len f) (drop (gt_text_offset f) buf') = [104, 105] @ zeros (gt_text_len f - 2)"
proof -
  have n: "ceil_16 (5 + length [104, 105 :: u8]) = 16"
    by (simp add: ceil_16_def div_ceil_16_def)
  show ?thesis
    using grp_txt_roundtrip [OF demo_prims_ok, of "replicate 16 9" "[104, 105]" 2 1 "zeros 19" "zeros 16" 1000]
    unfolding n by (auto 0 4)
qed

text \<open>a text longer than the 251 bytes left in the encoder's 256-byte stack buffer makes
  \<open>encode_grp_txt_var\<close> panic whatever the output buffer is, and so does an output buffer shorter
  than the sealed payload.\<close>

theorem grp_txt_encode_panics:
  assumes "251 < length msg \<or> length out < 3 + ceil_16 (5 + length msg)"
  shows "encode_grp_txt_var C secret ts tt att msg out = panic"
proof (cases "251 < length msg")
  case True
  then show ?thesis
    by (simp add: encode_grp_txt_var_def encode_txt_msg_plaintext_panics)
next
  case False
  with assms have "length out - 1 < 2 + ceil_16 (5 + length msg)"
    by auto
  then have "encrypt_then_mac_var C k h (txt_msg_bytes ts tt att msg) (drop 1 (out[0 := c])) = panic" for k h c
    by (intro encrypt_then_mac_var_panics) simp
  then show ?thesis
    using False
    by (auto simp: encode_grp_txt_var_def encode_txt_msg_plaintext_spec rust_simps Let_def)
qed

theorem grp_txt_encode_panics_witness:
  "encode_grp_txt_var demo_prims (replicate 32 9) 1000 0 0 (replicate 252 104) (zeros 300) = panic"
  by (rule grp_txt_encode_panics) simp

text \<open>splitting a channel text finds the first colon-space: the text is the name, the
  delimiter and the body, no earlier position holds the delimiter, and text without a
  delimiter is returned whole.\<close>

theorem parse_channel_text_first:
  "case parse_channel_text msg of
     (Some name, body) \<Rightarrow> msg = name @ CHANNEL_NAME_DELIM @ body
        \<and> (\<forall>j. j < length name \<longrightarrow> take 2 (drop j msg) \<noteq> CHANNEL_NAME_DELIM)
   | (None, body) \<Rightarrow> body = msg \<and> (\<forall>j. take 2 (drop j msg) \<noteq> CHANNEL_NAME_DELIM)"
proof (cases "\<exists>j. delim_at msg j")
  case True
  define m where "m = (LEAST j. delim_at msg j)"
  have m: "delim_at msg m" "\<forall>j < m. \<not> delim_at msg j"
    using True LeastI_ex not_less_Least unfolding m_def by metis+
  show ?thesis
    using delim_at_length [OF m(1)] delim_at_decomp [OF m(1)] m(2)
    by (simp add: parse_channel_text_hit [OF m] delim_at_def)
next
  case False
  then show ?thesis
    by (simp add: parse_channel_text_miss delim_at_def)
qed

theorem parse_channel_text_first_witness:
  "parse_channel_text [65, 0x3A, 0x20, 66, 0x3A, 0x20] = (Some [65], [66, 0x3A, 0x20])
   \<and> take 2 (drop 0 [65, 0x3A, 0x20, 66, 0x3A, 0x20]) \<noteq> CHANNEL_NAME_DELIM"
proof -
  have p: "parse_channel_text [65, 0x3A, 0x20, 66, 0x3A, 0x20] = (Some [65], [66, 0x3A, 0x20])"
    by (simp add: parse_channel_text_def CHANNEL_NAME_DELIM_def)
  then show ?thesis
    using parse_channel_text_first [of "[65, 0x3A, 0x20, 66, 0x3A, 0x20]"] by simp
qed

text \<open>a formatted channel text parses back to its sender name and body whenever the name
  itself holds no colon-space and the buffer holds the whole text, even if the body does.\<close>

theorem channel_text_roundtrip:
  assumes "\<forall>j. take 2 (drop j name) \<noteq> CHANNEL_NAME_DELIM"
    and "length name + 2 + length body \<le> length out"
  shows "\<exists>out' n. format_channel_text name body out = Some (out', n)
    \<and> parse_channel_text (take n out') = (Some name, body)"
proof -
  let ?t = "name @ CHANNEL_NAME_DELIM @ body"
  have "delim_at ?t (length name)"
    by (simp add: delim_at_def)
  moreover have "\<forall>j < length name. \<not> delim_at ?t j"
    using assms(1) delim_at_prefix [of _ name body] by (auto simp: delim_at_def)
  ultimately have "parse_channel_text ?t = (Some name, body)"
    using parse_channel_text_hit [of ?t "length name"] by simp
  then show ?thesis
    using format_channel_text_spec [OF assms(2)] by simp
qed

theorem channel_text_roundtrip_witness:
  "\<exists>out' n. format_channel_text [65, 66] [67, 0x3A, 0x20] (zeros 9) = Some (out', n)
    \<and> parse_channel_text (take n out') = (Some [65, 66], [67, 0x3A, 0x20])"
proof (rule channel_text_roundtrip)
  have "take 2 (drop j [65, 66 :: u8]) \<noteq> CHANNEL_NAME_DELIM" for j
    by (cases j rule: nat.exhaust; cases "j - 1") (auto simp: CHANNEL_NAME_DELIM_def)
  then show "\<forall>j. take 2 (drop j [65, 66]) \<noteq> CHANNEL_NAME_DELIM"
    by blast
qed simp

text \<open>the PATH-return decoder never panics, whatever the sender put in the plaintext: the
  declared path always fits the 64-byte array, and an accepted packet carries exactly the
  path bytes it declares, inside the plaintext.\<close>

theorem path_return_safe:
  assumes "pt_len \<le> length plaintext"
  shows "\<exists>r. decode_path_return_plaintext plaintext pt_len = Some r \<and>
    (\<forall>rp. r = Inr rp \<longrightarrow> rp_path_byte_count rp \<le> 64 \<and> rp_path_byte_count rp + 2 \<le> pt_len
       \<and> length (rp_path rp) = 64
       \<and> take (rp_path_byte_count rp) (rp_path rp) = take (rp_path_byte_count rp) (drop 1 plaintext)
       \<and> rp_path_byte_count rp = unat (path_byte_len (rp_path_len_byte rp)))"
proof -
  obtain r where r: "decode_path_return_plaintext plaintext pt_len = Some r"
    using decode_path_return_plaintext_total [OF assms] by blast
  have "rp_path_byte_count rp \<le> 64 \<and> rp_path_byte_count rp + 2 \<le> pt_len
       \<and> length (rp_path rp) = 64
       \<and> take (rp_path_byte_count rp) (rp_path rp) = take (rp_path_byte_count rp) (drop 1 plaintext)
       \<and> rp_path_byte_count rp = unat (path_byte_len (rp_path_len_byte rp))" if "r = Inr rp" for rp
    using decode_path_return_plaintext_OK [OF assms, of rp] r that assms
      path_count_le [of "rp_path_len_byte rp"]
    by (simp add: unat_path_byte_len)
  with r show ?thesis by blast
qed

theorem path_return_safe_witness:
  "\<exists>rp. decode_path_return_plaintext [0x41, 9, 8, 0xFF] 4 = Some (Inr rp)
    \<and> rp_path_byte_count rp \<le> 64 \<and> length (rp_path rp) = 64
    \<and> rp_path_byte_count rp = unat (path_byte_len (rp_path_len_byte rp))"
proof -
  have "is_valid 0x41"
    by (simp add: is_valid_iff)
  then obtain rp where "decode_path_return_plaintext [0x41, 9, 8, 0xFF] 4 = Some (Inr rp)"
    by (simp add: decode_path_return_plaintext_def rust_simps Let_def)
  then show ?thesis
    using path_return_safe [of 4 "[0x41, 9, 8, 0xFF]"] by auto
qed

text \<open>the full PATH-return decode with its 256-byte scratch buffer never panics on any
  payload that fits a 255-byte LoRa frame, whatever its contents.\<close>

theorem path_return_frame_safe:
  assumes "crypto_ok C" "length secret = 32" "length buf = 256" "length payload \<le> 255"
  shows "decode_path_return C secret payload buf \<noteq> panic"
proof -
  obtain buf' r where r: "decode_dm_payload C secret payload buf = Some (buf', r)"
    and l: "length buf' = 256" and n: "\<forall>d s n. r = Inr (d, s, n) \<longrightarrow> n + 4 = length payload"
    using decode_dm_payload_total [of C secret payload buf] assms by auto
  show ?thesis
  proof (cases r)
    case (Inr t)
    obtain d s m where t: "t = (d, s, m)" by (cases t)
    then have "m \<le> length buf'"
      using n Inr assms(4) l by auto
    then obtain q where "decode_path_return_plaintext buf' m = Some q"
      using decode_path_return_plaintext_total by blast
    then show ?thesis
      using r Inr t by (cases q) (simp_all add: decode_path_return_def)
  qed (use r in \<open>simp add: decode_path_return_def\<close>)
qed

theorem path_return_frame_safe_witness:
  "decode_path_return demo_prims (replicate 32 5) (replicate 20 0xFF) (zeros 256) \<noteq> panic"
  by (rule path_return_frame_safe [OF demo_prims_ok]) simp_all

end
