(* ===== verification/Bounded_Array.thy ===== *)
theory Bounded_Array
  imports Prelude
begin

text \<open>
  Fixed-capacity arrays with a live count, the container the allowlist filter,
  the provisioning buffers and the stores are built on.  The loops the source
  repeats (\<open>position\<close>, the shift-left that closes a gap) are modelled once, and
  the interface the containers share is the locale \<open>bounded_store\<close>: a live view,
  a capacity, and a push that appends or reports that the store is full.
\<close>

section \<open>Scans\<close>

text \<open>\<open>xs.iter().position(p)\<close>: the first index whose element satisfies \<open>p\<close>.\<close>

fun position :: "('a \<Rightarrow> bool) \<Rightarrow> 'a list \<Rightarrow> nat option" where
  "position p [] = None"
| "position p (x # xs) = (if p x then Some 0 else map_option Suc (position p xs))"

lemma position_None_iff: "position p xs = None \<longleftrightarrow> (\<forall>x \<in> set xs. \<not> p x)"
  by (induction xs) auto

lemma position_SomeD:
  "position p xs = Some i \<Longrightarrow> i < length xs \<and> p (xs ! i) \<and> (\<forall>j < i. \<not> p (xs ! j))"
  by (induction xs arbitrary: i) (auto simp: less_Suc_eq_0_disj nth_Cons split: if_splits nat.splits)

lemma position_Some_ex: "(\<exists>i. position p xs = Some i) \<longleftrightarrow> (\<exists>x \<in> set xs. p x)"
  using position_None_iff [of p xs] by auto

section \<open>Closing a gap\<close>

text \<open>\<open>for j in idx..count - 1 { arr[j] = arr[j + 1] }\<close>: \<open>k\<close> passes from index \<open>j\<close>.\<close>

fun shift_left :: "'a list \<Rightarrow> nat \<Rightarrow> nat \<Rightarrow> 'a list rust" where
  "shift_left arr j 0 = Some arr"
| "shift_left arr j (Suc k) = do {
     x \<leftarrow> get_at arr (j + 1);
     arr \<leftarrow> set_at arr j x;
     shift_left arr (Suc j) k
   }"

lemma shift_left_spec:
  "j + k < length arr \<Longrightarrow>
   shift_left arr j k = Some (take j arr @ take k (drop (Suc j) arr) @ drop (j + k) arr)"
proof (induction k arbitrary: arr j)
  case 0
  then show ?case by simp
next
  case (Suc k)
  let ?arr = "arr[j := arr ! Suc j]"
  have "shift_left ?arr (Suc j) k =
      Some (take (Suc j) ?arr @ take k (drop (Suc (Suc j)) ?arr) @ drop (Suc j + k) ?arr)"
    using Suc.prems by (intro Suc.IH) simp
  moreover have "take (Suc j) ?arr = take j arr @ [arr ! Suc j]"
    using Suc.prems by (simp add: take_Suc_conv_app_nth)
  moreover have "take (Suc k) (drop (Suc j) arr) = arr ! Suc j # take k (drop (Suc (Suc j)) arr)"
    using Suc.prems by (simp add: Cons_nth_drop_Suc [symmetric])
  ultimately show ?case
    using Suc.prems by (simp add: rust_simps)
qed

text \<open>Deleting entry \<open>idx\<close> of the \<open>n\<close> live ones: the live prefix afterwards.\<close>

lemma shift_left_live:
  assumes "idx < n" "n \<le> length arr"
  shows "\<exists>arr'. shift_left arr idx (n - 1 - idx) = Some arr' \<and> length arr' = length arr
    \<and> take (n - 1) arr' = take idx (take n arr) @ drop (Suc idx) (take n arr)"
proof -
  have "shift_left arr idx (n - 1 - idx) =
      Some (take idx arr @ take (n - 1 - idx) (drop (Suc idx) arr) @ drop (idx + (n - 1 - idx)) arr)"
    using assms by (intro shift_left_spec) simp
  moreover have "drop (Suc idx) (take n arr) = take (n - 1 - idx) (drop (Suc idx) arr)"
    by (simp add: drop_take)
  ultimately show ?thesis
    using assms by simp
qed

lemma take_list_update_snoc:
  "n < length arr \<Longrightarrow> take (Suc n) (arr[n := x]) = take n arr @ [x]"
  by (simp add: take_Suc_conv_app_nth)

section \<open>The interface\<close>

locale bounded_store =
  fixes cap :: nat
    and invar :: "'s \<Rightarrow> bool"
    and live :: "'s \<Rightarrow> 'e list"
    and fresh :: 's
    and push :: "'e \<Rightarrow> 's \<Rightarrow> 's option"
  assumes invar_fresh: "invar fresh"
    and live_fresh: "live fresh = []"
    and live_cap: "invar s \<Longrightarrow> length (live s) \<le> cap"
    and push_room: "invar s \<Longrightarrow> length (live s) < cap \<Longrightarrow>
      \<exists>s'. push e s = Some s' \<and> invar s' \<and> live s' = live s @ [e]"
    and push_full: "invar s \<Longrightarrow> length (live s) = cap \<Longrightarrow> push e s = None"
begin

text \<open>Pushing a batch in order and ignoring the entries that no longer fit.\<close>

fun push_all :: "'e list \<Rightarrow> 's \<Rightarrow> 's" where
  "push_all [] s = s"
| "push_all (e # es) s = push_all es (case push e s of None \<Rightarrow> s | Some s' \<Rightarrow> s')"

lemma push_Some_iff: "invar s \<Longrightarrow> (\<exists>s'. push e s = Some s') \<longleftrightarrow> length (live s) < cap"
  using push_room push_full live_cap by (metis le_neq_implies_less option.distinct(1))

lemma push_step:
  assumes "invar s"
  shows "invar (case push e s of None \<Rightarrow> s | Some s' \<Rightarrow> s')"
    and "live (case push e s of None \<Rightarrow> s | Some s' \<Rightarrow> s') = take cap (live s @ [e])"
proof -
  consider "length (live s) < cap" | "length (live s) = cap"
    using live_cap [OF assms] by linarith
  then show "invar (case push e s of None \<Rightarrow> s | Some s' \<Rightarrow> s')"
    and "live (case push e s of None \<Rightarrow> s | Some s' \<Rightarrow> s') = take cap (live s @ [e])"
    using assms push_room [of s e] push_full [of s e] by (cases; auto)+
qed

lemma push_all_live:
  "invar s \<Longrightarrow> invar (push_all es s) \<and> live (push_all es s) = take cap (live s @ es)"
proof (induction es arbitrary: s)
  case Nil
  then show ?case using live_cap by simp
next
  case (Cons e es)
  have "take cap (take cap (live s @ [e]) @ es) = take cap (live s @ e # es)"
    by (simp only: take_take_append append_assoc append.simps)
  with Cons push_step [OF Cons.prems, of e] show ?case
    by simp
qed

corollary push_all_fresh: "live (push_all es fresh) = take cap es"
  using push_all_live [OF invar_fresh] by (simp add: live_fresh)

end

end
