(* ===== verification/Staging.thy ===== *)
theory Staging
  imports Bounded_Array
begin

text \<open>
  \<open>protocol/src/staging.rs\<close>: the in-memory buffer of a provisioning session.  The
  contact and channel arrays are each a \<open>bounded_store\<close>; every operation is
  refined to an operation on the live lists, and the documented invariants
  (capacity, density, at most one primary channel) are shown to hold in every
  state a sequence of commands can reach.
\<close>

section \<open>Model\<close>

definition MAX_STAGING_CONTACTS :: nat where
  "MAX_STAGING_CONTACTS = 16"

definition MAX_STAGING_CHANNELS :: nat where
  "MAX_STAGING_CHANNELS = 8"

definition MAX_NAME_LEN :: nat where
  "MAX_NAME_LEN = 32"

record StagingContact =
  sc_pubkey :: bytes
  sc_telemetry_enable :: bool
  sc_display_name :: bytes
  sc_display_name_len :: u8

definition StagingContact_NULL :: StagingContact where
  "StagingContact_NULL = \<lparr>sc_pubkey = zeros 32, sc_telemetry_enable = False,
     sc_display_name = zeros MAX_NAME_LEN, sc_display_name_len = 0\<rparr>"

record StagingChannel =
  sh_secret :: bytes
  sh_primary :: bool
  sh_name :: bytes
  sh_name_len :: u8

definition StagingChannel_NULL :: StagingChannel where
  "StagingChannel_NULL = \<lparr>sh_secret = zeros 32, sh_primary = False,
     sh_name = zeros MAX_NAME_LEN, sh_name_len = 0\<rparr>"

datatype ChannelUpsert = Updated | Added

datatype StagingError = ContactListFull | ChannelListFull | ContactNotFound | ChannelNotFound

record ProvisioningStaging =
  ps_contacts :: "StagingContact list"
  ps_contact_count :: nat
  ps_channels :: "StagingChannel list"
  ps_channel_count :: nat

definition ProvisioningStaging_new :: ProvisioningStaging where
  "ProvisioningStaging_new =
     \<lparr>ps_contacts = replicate MAX_STAGING_CONTACTS StagingContact_NULL, ps_contact_count = 0,
      ps_channels = replicate MAX_STAGING_CHANNELS StagingChannel_NULL, ps_channel_count = 0\<rparr>"

definition staged_contacts :: "ProvisioningStaging \<Rightarrow> StagingContact list rust" where
  "staged_contacts s = slice (ps_contacts s) 0 (ps_contact_count s)"

definition staged_channels :: "ProvisioningStaging \<Rightarrow> StagingChannel list rust" where
  "staged_channels s = slice (ps_channels s) 0 (ps_channel_count s)"

text \<open>Every mutation returns the buffer beside its \<open>Result\<close>.\<close>

definition ps_add_contact ::
    "ProvisioningStaging \<Rightarrow> StagingContact \<Rightarrow> (ProvisioningStaging \<times> (StagingError + unit)) rust" where
  "ps_add_contact s contact =
     (if ps_contact_count s \<ge> MAX_STAGING_CONTACTS then Some (s, Inl ContactListFull)
      else do {
        cs \<leftarrow> set_at (ps_contacts s) (ps_contact_count s) contact;
        Some (s\<lparr>ps_contacts := cs, ps_contact_count := ps_contact_count s + 1\<rparr>, Inr ())
      })"

definition ps_del_contact ::
    "ProvisioningStaging \<Rightarrow> bytes \<Rightarrow> (ProvisioningStaging \<times> (StagingError + unit)) rust" where
  "ps_del_contact s pubkey = do {
     cs \<leftarrow> slice (ps_contacts s) 0 (ps_contact_count s);
     (case position (\<lambda>c. sc_pubkey c = pubkey) cs of
        None \<Rightarrow> Some (s, Inl ContactNotFound)
      | Some idx \<Rightarrow> do {
          arr \<leftarrow> shift_left (ps_contacts s) idx (ps_contact_count s - 1 - idx);
          Some (s\<lparr>ps_contacts := arr, ps_contact_count := ps_contact_count s - 1\<rparr>, Inr ())
        })
   }"

text \<open>The loop that clears \<open>primary\<close> on the live channels.\<close>

definition demote :: "StagingChannel list \<Rightarrow> nat \<Rightarrow> StagingChannel list rust" where
  "demote arr n = do {
     cs \<leftarrow> slice arr 0 n;
     Some (map (\<lambda>c. c\<lparr>sh_primary := False\<rparr>) cs @ drop n arr)
   }"

definition ps_add_channel ::
    "ProvisioningStaging \<Rightarrow> StagingChannel \<Rightarrow> (ProvisioningStaging \<times> (StagingError + unit)) rust" where
  "ps_add_channel s channel =
     (if ps_channel_count s \<ge> MAX_STAGING_CHANNELS then Some (s, Inl ChannelListFull)
      else do {
        arr \<leftarrow> (if sh_primary channel then demote (ps_channels s) (ps_channel_count s)
                else Some (ps_channels s));
        arr \<leftarrow> set_at arr (ps_channel_count s) channel;
        Some (s\<lparr>ps_channels := arr, ps_channel_count := ps_channel_count s + 1\<rparr>, Inr ())
      })"

definition ps_upsert_channel ::
    "ProvisioningStaging \<Rightarrow> StagingChannel \<Rightarrow> (ProvisioningStaging \<times> (StagingError + ChannelUpsert)) rust" where
  "ps_upsert_channel s channel = do {
     cs \<leftarrow> slice (ps_channels s) 0 (ps_channel_count s);
     let existing = position (\<lambda>c. sh_secret c = sh_secret channel) cs;
     if existing = None \<and> ps_channel_count s \<ge> MAX_STAGING_CHANNELS
     then Some (s, Inl ChannelListFull)
     else do {
       arr \<leftarrow> (if sh_primary channel then demote (ps_channels s) (ps_channel_count s)
               else Some (ps_channels s));
       (case existing of
          Some idx \<Rightarrow> do {
            arr \<leftarrow> set_at arr idx channel;
            Some (s\<lparr>ps_channels := arr\<rparr>, Inr Updated)
          }
        | None \<Rightarrow> do {
            arr \<leftarrow> set_at arr (ps_channel_count s) channel;
            Some (s\<lparr>ps_channels := arr, ps_channel_count := ps_channel_count s + 1\<rparr>, Inr Added)
          })
     }
   }"

definition ps_del_channel ::
    "ProvisioningStaging \<Rightarrow> bytes \<Rightarrow> (ProvisioningStaging \<times> (StagingError + unit)) rust" where
  "ps_del_channel s secret = do {
     cs \<leftarrow> slice (ps_channels s) 0 (ps_channel_count s);
     (case position (\<lambda>ch. sh_secret ch = secret) cs of
        None \<Rightarrow> Some (s, Inl ChannelNotFound)
      | Some idx \<Rightarrow> do {
          arr \<leftarrow> shift_left (ps_channels s) idx (ps_channel_count s - 1 - idx);
          Some (s\<lparr>ps_channels := arr, ps_channel_count := ps_channel_count s - 1\<rparr>, Inr ())
        })
   }"

section \<open>Live lists and the shape invariant\<close>

definition ps_shape :: "ProvisioningStaging \<Rightarrow> bool" where
  "ps_shape s \<longleftrightarrow> length (ps_contacts s) = 16 \<and> ps_contact_count s \<le> 16
     \<and> length (ps_channels s) = 8 \<and> ps_channel_count s \<le> 8"

definition contacts_of :: "ProvisioningStaging \<Rightarrow> StagingContact list" where
  "contacts_of s = take (ps_contact_count s) (ps_contacts s)"

definition channels_of :: "ProvisioningStaging \<Rightarrow> StagingChannel list" where
  "channels_of s = take (ps_channel_count s) (ps_channels s)"

lemmas staging_defs = ps_shape_def contacts_of_def channels_of_def

lemma shape_new [simp]: "ps_shape ProvisioningStaging_new" "contacts_of ProvisioningStaging_new = []"
  "channels_of ProvisioningStaging_new = []"
  by (simp_all add: staging_defs ProvisioningStaging_new_def MAX_STAGING_CONTACTS_def MAX_STAGING_CHANNELS_def)

lemma slice_contacts: "ps_shape s \<Longrightarrow> slice (ps_contacts s) 0 (ps_contact_count s) = Some (contacts_of s)"
  by (simp add: slice_def staging_defs)

lemma slice_channels: "ps_shape s \<Longrightarrow> slice (ps_channels s) 0 (ps_channel_count s) = Some (channels_of s)"
  by (simp add: slice_def staging_defs)

lemma length_live:
  "ps_shape s \<Longrightarrow> length (contacts_of s) = ps_contact_count s"
  "ps_shape s \<Longrightarrow> length (channels_of s) = ps_channel_count s"
  by (simp_all add: staging_defs)

lemma shape_counts: "ps_shape s \<Longrightarrow> ps_contact_count s \<le> 16" "ps_shape s \<Longrightarrow> ps_channel_count s \<le> 8"
  by (simp_all add: ps_shape_def)

text \<open>The contact array is a bounded store; pushing a channel also demotes, so it is refined below.\<close>

definition push_contact :: "StagingContact \<Rightarrow> ProvisioningStaging \<Rightarrow> ProvisioningStaging option" where
  "push_contact c s = (case ps_add_contact s c of Some (s', Inr _) \<Rightarrow> Some s' | _ \<Rightarrow> None)"

interpretation staged_contact: bounded_store 16 ps_shape contacts_of ProvisioningStaging_new push_contact
proof unfold_locales
  fix s e assume s: "ps_shape s" "length (contacts_of s) < 16"
  then show "\<exists>s'. push_contact e s = Some s' \<and> ps_shape s' \<and> contacts_of s' = contacts_of s @ [e]"
    by (simp add: push_contact_def ps_add_contact_def staging_defs rust_simps
        MAX_STAGING_CONTACTS_def take_list_update_snoc)
qed (auto simp: length_live push_contact_def ps_add_contact_def MAX_STAGING_CONTACTS_def shape_counts)

section \<open>Refinement to list operations\<close>

abbreviation unprimary :: "StagingChannel \<Rightarrow> StagingChannel" where
  "unprimary c \<equiv> c\<lparr>sh_primary := False\<rparr>"

definition demoted :: "StagingChannel \<Rightarrow> StagingChannel list \<Rightarrow> StagingChannel list" where
  "demoted ch cs = (if sh_primary ch then map unprimary cs else cs)"

lemma length_demoted [simp]: "length (demoted ch cs) = length cs"
  by (simp add: demoted_def)

lemma demote_live:
  assumes "ps_shape s"
  shows "(if sh_primary ch then demote (ps_channels s) (ps_channel_count s) else Some (ps_channels s)) =
    Some (demoted ch (channels_of s) @ drop (ps_channel_count s) (ps_channels s))"
  using slice_channels [OF assms] by (simp add: demote_def demoted_def channels_of_def)

definition delete_at :: "nat \<Rightarrow> 'a list \<Rightarrow> 'a list" where
  "delete_at i xs = take i xs @ drop (Suc i) xs"

lemma add_contact_refines:
  assumes "ps_shape s"
  shows "\<exists>s' r. ps_add_contact s c = Some (s', r) \<and> ps_shape s' \<and> channels_of s' = channels_of s \<and>
    (if length (contacts_of s) < 16 then r = Inr () \<and> contacts_of s' = contacts_of s @ [c]
     else r = Inl ContactListFull \<and> s' = s)"
  using assms
  by (auto simp: ps_add_contact_def staging_defs rust_simps MAX_STAGING_CONTACTS_def take_list_update_snoc)

lemma add_channel_refines:
  assumes "ps_shape s"
  shows "\<exists>s' r. ps_add_channel s ch = Some (s', r) \<and> ps_shape s' \<and> contacts_of s' = contacts_of s \<and>
    (if length (channels_of s) < 8 then r = Inr () \<and> channels_of s' = demoted ch (channels_of s) @ [ch]
     else r = Inl ChannelListFull \<and> s' = s)"
proof (cases "ps_channel_count s < 8")
  case True
  let ?arr = "demoted ch (channels_of s) @ drop (ps_channel_count s) (ps_channels s)"
  have "length (channels_of s) = ps_channel_count s" "length (ps_channels s) = 8"
    using assms by (simp_all add: length_live ps_shape_def)
  then show ?thesis
    using True assms demote_live [OF assms, of ch]
    by (simp add: ps_add_channel_def MAX_STAGING_CHANNELS_def set_at_def ps_shape_def contacts_of_def
        channels_of_def [of "s\<lparr>ps_channels := _, ps_channel_count := _\<rparr>"] take_list_update_snoc)
next
  case False
  then show ?thesis
    using assms by (simp add: ps_add_channel_def MAX_STAGING_CHANNELS_def length_live)
qed

lemma del_contact_refines:
  assumes "ps_shape s"
  shows "\<exists>s' r. ps_del_contact s k = Some (s', r) \<and> ps_shape s' \<and> channels_of s' = channels_of s \<and>
    (case position (\<lambda>c. sc_pubkey c = k) (contacts_of s) of
       None \<Rightarrow> r = Inl ContactNotFound \<and> s' = s
     | Some i \<Rightarrow> r = Inr () \<and> contacts_of s' = delete_at i (contacts_of s))"
proof (cases "position (\<lambda>c. sc_pubkey c = k) (contacts_of s)")
  case None
  then show ?thesis
    using assms by (simp add: ps_del_contact_def slice_contacts)
next
  case (Some i)
  have "i < ps_contact_count s" "ps_contact_count s \<le> length (ps_contacts s)"
    using position_SomeD [OF Some] assms by (simp_all add: length_live ps_shape_def)
  from shift_left_live [OF this] obtain arr where
    "shift_left (ps_contacts s) i (ps_contact_count s - 1 - i) = Some arr" "length arr = length (ps_contacts s)"
    "take (ps_contact_count s - 1) arr = delete_at i (contacts_of s)"
    by (auto simp: delete_at_def contacts_of_def)
  then show ?thesis
    using assms Some
    by (auto simp: ps_del_contact_def slice_contacts ps_shape_def channels_of_def
        contacts_of_def [of "s\<lparr>ps_contacts := _, ps_contact_count := _\<rparr>"])
qed

lemma del_channel_refines:
  assumes "ps_shape s"
  shows "\<exists>s' r. ps_del_channel s k = Some (s', r) \<and> ps_shape s' \<and> contacts_of s' = contacts_of s \<and>
    (case position (\<lambda>c. sh_secret c = k) (channels_of s) of
       None \<Rightarrow> r = Inl ChannelNotFound \<and> s' = s
     | Some i \<Rightarrow> r = Inr () \<and> channels_of s' = delete_at i (channels_of s))"
proof (cases "position (\<lambda>c. sh_secret c = k) (channels_of s)")
  case None
  then show ?thesis
    using assms by (simp add: ps_del_channel_def slice_channels)
next
  case (Some i)
  have "i < ps_channel_count s" "ps_channel_count s \<le> length (ps_channels s)"
    using position_SomeD [OF Some] assms by (simp_all add: length_live ps_shape_def)
  from shift_left_live [OF this] obtain arr where
    "shift_left (ps_channels s) i (ps_channel_count s - 1 - i) = Some arr" "length arr = length (ps_channels s)"
    "take (ps_channel_count s - 1) arr = delete_at i (channels_of s)"
    by (auto simp: delete_at_def channels_of_def)
  then show ?thesis
    using assms Some
    by (auto simp: ps_del_channel_def slice_channels ps_shape_def contacts_of_def
        channels_of_def [of "s\<lparr>ps_channels := _, ps_channel_count := _\<rparr>"])
qed

lemma upsert_channel_refines:
  assumes "ps_shape s"
  shows "\<exists>s' r. ps_upsert_channel s ch = Some (s', r) \<and> ps_shape s' \<and> contacts_of s' = contacts_of s \<and>
    (case position (\<lambda>c. sh_secret c = sh_secret ch) (channels_of s) of
       Some i \<Rightarrow> r = Inr Updated \<and> channels_of s' = (demoted ch (channels_of s))[i := ch]
     | None \<Rightarrow>
         if length (channels_of s) < 8
         then r = Inr Added \<and> channels_of s' = demoted ch (channels_of s) @ [ch]
         else r = Inl ChannelListFull \<and> s' = s)"
proof -
  have len: "length (channels_of s) = ps_channel_count s" "length (ps_channels s) = 8" "ps_channel_count s \<le> 8"
    using assms by (simp_all add: length_live ps_shape_def)
  note upd = channels_of_def [of "s\<lparr>ps_channels := _\<rparr>"]
    channels_of_def [of "s\<lparr>ps_channels := _, ps_channel_count := _\<rparr>"]
  show ?thesis
  proof (cases "position (\<lambda>c. sh_secret c = sh_secret ch) (channels_of s)")
    case (Some i)
    have "i < ps_channel_count s"
      using position_SomeD [OF Some] len by simp
    then show ?thesis
      using Some assms len demote_live [OF assms, of ch]
      by (simp add: ps_upsert_channel_def slice_channels set_at_def Let_def ps_shape_def contacts_of_def
          upd list_update_append)
  next
    case None
    then show ?thesis
      using assms len demote_live [OF assms, of ch]
      by (auto simp: ps_upsert_channel_def slice_channels set_at_def Let_def ps_shape_def contacts_of_def
          upd take_list_update_snoc MAX_STAGING_CHANNELS_def)
  qed
qed

section \<open>Sessions\<close>

text \<open>One step of a session is one accepted or rejected command.\<close>

inductive staging_step :: "ProvisioningStaging \<Rightarrow> ProvisioningStaging \<Rightarrow> bool" where
  add_contact: "ps_add_contact s c = Some (s', r) \<Longrightarrow> staging_step s s'"
| del_contact: "ps_del_contact s k = Some (s', r) \<Longrightarrow> staging_step s s'"
| add_channel: "ps_add_channel s ch = Some (s', r) \<Longrightarrow> staging_step s s'"
| upsert_channel: "ps_upsert_channel s ch = Some (s', u) \<Longrightarrow> staging_step s s'"
| del_channel: "ps_del_channel s k = Some (s', r) \<Longrightarrow> staging_step s s'"

inductive staging_reachable :: "ProvisioningStaging \<Rightarrow> bool" where
  start: "staging_reachable ProvisioningStaging_new"
| step: "staging_reachable s \<Longrightarrow> staging_step s s' \<Longrightarrow> staging_reachable s'"

definition primaries :: "StagingChannel list \<Rightarrow> nat" where
  "primaries cs = length (filter sh_primary cs)"

lemma primaries_simps [simp]:
  "primaries [] = 0" "primaries (c # cs) = (if sh_primary c then 1 else 0) + primaries cs"
  "primaries (xs @ ys) = primaries xs + primaries ys" "primaries (map unprimary cs) = 0"
  by (simp_all add: primaries_def)

lemma primaries_drop_le: "primaries (drop n cs) \<le> primaries cs"
proof -
  have "primaries cs = primaries (take n cs) + primaries (drop n cs)"
    by (metis append_take_drop_id primaries_simps(3))
  then show ?thesis by simp
qed

lemma primaries_delete_at: "primaries (delete_at i cs) \<le> primaries cs"
proof -
  have "primaries cs = primaries (take i cs) + primaries (drop i cs)"
    by (metis append_take_drop_id primaries_simps(3))
  moreover have "primaries (drop (Suc i) cs) \<le> primaries (drop i cs)"
    using primaries_drop_le [of 1 "drop i cs"] by simp
  ultimately show ?thesis
    by (simp add: delete_at_def)
qed

lemma primaries_demoted_snoc:
  "primaries cs \<le> 1 \<Longrightarrow> primaries (demoted ch cs @ [ch]) \<le> 1"
  by (simp add: demoted_def)

lemma primaries_demoted_update:
  assumes "primaries cs \<le> 1" "i < length cs"
  shows "primaries ((demoted ch cs)[i := ch]) \<le> 1"
proof -
  let ?d = "demoted ch cs"
  have "?d[i := ch] = take i ?d @ ch # drop (Suc i) ?d"
    using assms(2) by (simp add: upd_conv_take_nth_drop)
  moreover have "primaries (delete_at i ?d) \<le> (if sh_primary ch then 0 else 1)"
    using primaries_delete_at [of i ?d] assms(1) by (simp add: demoted_def split: if_splits)
  ultimately show ?thesis
    by (simp add: delete_at_def split: if_splits)
qed

definition staging_inv :: "ProvisioningStaging \<Rightarrow> bool" where
  "staging_inv s \<longleftrightarrow> ps_shape s \<and> primaries (channels_of s) \<le> 1"

lemma upsert_channel_inv:
  assumes "staging_inv s" "ps_upsert_channel s ch = Some (s', u)"
  shows "staging_inv s'"
proof -
  have sh: "ps_shape s" and one: "primaries (channels_of s) \<le> 1"
    using assms(1) by (simp_all add: staging_inv_def)
  note ref = upsert_channel_refines [OF sh, of ch]
  show ?thesis
  proof (cases "position (\<lambda>c. sh_secret c = sh_secret ch) (channels_of s)")
    case None
    with ref assms(2) one show ?thesis
      using primaries_demoted_snoc [OF one, of ch] by (auto simp: staging_inv_def split: if_splits)
  next
    case (Some i)
    then have "i < length (channels_of s)"
      using position_SomeD by blast
    with Some ref assms(2) show ?thesis
      using primaries_demoted_update [OF one, of i ch] by (auto simp: staging_inv_def)
  qed
qed

lemma del_channel_inv:
  assumes "staging_inv s" "ps_del_channel s k = Some (s', r)"
  shows "staging_inv s'"
proof -
  have sh: "ps_shape s" and one: "primaries (channels_of s) \<le> 1"
    using assms(1) by (simp_all add: staging_inv_def)
  have "primaries (delete_at i (channels_of s)) \<le> 1" for i
    using primaries_delete_at [of i "channels_of s"] one by linarith
  then show ?thesis
    using del_channel_refines [OF sh, of k] assms(2) one
    by (cases "position (\<lambda>c. sh_secret c = k) (channels_of s)") (auto simp: staging_inv_def)
qed

lemma staging_step_inv: "staging_step s s' \<Longrightarrow> staging_inv s \<Longrightarrow> staging_inv s'"
proof (induction rule: staging_step.induct)
  case (add_contact s c s' r)
  then show ?case
    using add_contact_refines [of s c] by (auto simp: staging_inv_def)
next
  case (del_contact s k s' r)
  then show ?case
    using del_contact_refines [of s k] by (auto simp: staging_inv_def)
next
  case (add_channel s ch s' r)
  then show ?case
    using add_channel_refines [of s ch] primaries_demoted_snoc [of "channels_of s" ch]
    by (auto simp: staging_inv_def split: if_splits)
qed (blast intro: upsert_channel_inv del_channel_inv)+

lemma reachable_inv: "staging_reachable s \<Longrightarrow> staging_inv s"
  by (induction rule: staging_reachable.induct)
     (auto simp: staging_inv_def [of ProvisioningStaging_new] intro: staging_step_inv)

lemma reachable_shape: "staging_reachable s \<Longrightarrow> ps_shape s"
  using reachable_inv by (auto simp: staging_inv_def)

section \<open>Properties\<close>

text \<open>C34: in every state a provisioning session can reach, the contact and channel lists are within
  their capacities, at most one channel is primary, and no command panics.\<close>

theorem staging_reachable_invariant:
  assumes "staging_reachable s"
  shows "(\<exists>cs chs. staged_contacts s = Some cs \<and> staged_channels s = Some chs
      \<and> length cs = ps_contact_count s \<and> length cs \<le> 16
      \<and> length chs = ps_channel_count s \<and> length chs \<le> 8 \<and> length (filter sh_primary chs) \<le> 1)
    \<and> ps_add_contact s c \<noteq> panic \<and> ps_del_contact s k \<noteq> panic \<and> ps_add_channel s ch \<noteq> panic
    \<and> ps_upsert_channel s ch \<noteq> panic \<and> ps_del_channel s k \<noteq> panic"
proof -
  from assms have inv: "ps_shape s" "primaries (channels_of s) \<le> 1"
    using reachable_inv by (auto simp: staging_inv_def)
  note refs = add_contact_refines [OF inv(1), of c] del_contact_refines [OF inv(1), of k]
    add_channel_refines [OF inv(1), of ch] upsert_channel_refines [OF inv(1), of ch]
    del_channel_refines [OF inv(1), of k]
  show ?thesis
    using inv length_live [OF inv(1)] shape_counts [OF inv(1)] refs
    by (auto simp: staged_contacts_def staged_channels_def slice_contacts slice_channels primaries_def)
qed

theorem staging_reachable_invariant_witness:
  "ps_del_contact ProvisioningStaging_new [1] \<noteq> panic"
  using staging_reachable_invariant [OF staging_reachable.start, of _ "[1]"] by blast

text \<open>deleting removes exactly the first entry with the given key and keeps the order and
  density of the rest, adding appends, and a full list or a missing key changes nothing and
  reports its error.\<close>

theorem staging_contacts_refine:
  assumes "staging_reachable s"
  shows "(\<exists>s' r. ps_add_contact s c = Some (s', r) \<and>
      (if length (contacts_of s) < 16 then r = Inr () \<and> contacts_of s' = contacts_of s @ [c]
       else r = Inl ContactListFull \<and> s' = s))
    \<and> (\<exists>s' r. ps_del_contact s k = Some (s', r) \<and>
      (case position (\<lambda>c. sc_pubkey c = k) (contacts_of s) of
         None \<Rightarrow> r = Inl ContactNotFound \<and> s' = s
       | Some i \<Rightarrow> r = Inr () \<and> contacts_of s' = take i (contacts_of s) @ drop (Suc i) (contacts_of s)))"
  using add_contact_refines [OF reachable_shape [OF assms], of c]
    del_contact_refines [OF reachable_shape [OF assms], of k]
  by (auto simp: delete_at_def split: option.splits if_splits)

theorem staging_contacts_refine_witness:
  "\<exists>s' r. ps_add_contact ProvisioningStaging_new StagingContact_NULL = Some (s', r)
     \<and> r = Inr () \<and> contacts_of s' = [StagingContact_NULL]"
  using staging_contacts_refine [OF staging_reachable.start, of StagingContact_NULL "[]"] by auto

lemma upsert_result:
  assumes "ps_shape s" "ps_upsert_channel s ch = Some (s', Inr u)"
  obtains i where "i < length (channels_of s')" "i \<le> length (channels_of s)" "ps_shape s'"
    "\<forall>j < i. sh_secret (channels_of s ! j) \<noteq> sh_secret ch"
    "channels_of s' = (demoted ch (channels_of s) @ (if u = Added then [ch] else []))[i := ch]"
    "u = Updated \<longleftrightarrow> (\<exists>c \<in> set (channels_of s). sh_secret c = sh_secret ch)"
    "i = length (channels_of s) \<or> u \<noteq> Added"
proof (cases "position (\<lambda>c. sh_secret c = sh_secret ch) (channels_of s)")
  case None
  then have no: "\<forall>c \<in> set (channels_of s). sh_secret c \<noteq> sh_secret ch"
    by (simp only: position_None_iff)
  have "u = Added \<and> ps_shape s' \<and> channels_of s' = demoted ch (channels_of s) @ [ch]"
    using upsert_channel_refines [OF assms(1), of ch] assms(2) None by (auto split: if_splits)
  with no show thesis
    by (intro that [of "length (channels_of s)"]) (auto simp: list_update_append)
next
  case (Some i)
  then have "u = Updated \<and> ps_shape s' \<and> channels_of s' = (demoted ch (channels_of s))[i := ch]"
    using upsert_channel_refines [OF assms(1), of ch] assms(2) by auto
  with position_SomeD [OF Some] show thesis
    by (intro that [of i]) auto
qed

lemma position_after_upsert:
  assumes "i < length cs'" "i \<le> length cs" "\<forall>j < i. sh_secret (cs ! j) \<noteq> sh_secret ch"
    and "cs' = (demoted ch cs @ ys)[i := ch]"
  shows "position (\<lambda>c. sh_secret c = sh_secret ch) cs' = Some i"
proof -
  have at_i: "cs' ! i = ch"
    using assms(1) by (simp add: assms(4))
  have "ch \<in> set cs'"
    using at_i nth_mem [OF assms(1)] by simp
  then obtain j where j: "position (\<lambda>c. sh_secret c = sh_secret ch) cs' = Some j"
    using position_Some_ex [of "\<lambda>c. sh_secret c = sh_secret ch" cs'] by auto
  have keep: "sh_secret (cs' ! l) \<noteq> sh_secret ch" if "l < i" for l
  proof -
    have "cs' ! l = demoted ch cs ! l"
      using that assms(2) by (simp add: assms(4) nth_append)
    moreover have "sh_secret (demoted ch cs ! l) = sh_secret (cs ! l)"
      using that assms(2) by (simp add: demoted_def)
    ultimately show ?thesis
      using assms(3) that by simp
  qed
  have "\<not> j < i"
    using position_SomeD [OF j] keep by blast
  moreover have "\<not> i < j"
    using position_SomeD [OF j] at_i by auto
  ultimately show ?thesis
    using j by simp
qed

lemma demoted_upsert_idem:
  assumes "i < length cs'" "cs' = (demoted ch cs @ (if b then [ch] else []))[i := ch]" "i = length cs \<or> \<not> b"
  shows "(demoted ch cs')[i := ch] = cs'"
proof (cases "sh_primary ch")
  case True
  then show ?thesis
    using assms by (auto simp: demoted_def map_update comp_def list_update_append split: if_splits)
next
  case False
  then show ?thesis
    using assms(1,2) by (simp add: demoted_def)
qed

text \<open>\<open>upsert_channel\<close> is an idempotent keyed upsert: a known secret is replaced in place, a new
  one appended, capacity only blocks a new one, a primary channel demotes every other, and
  repeating an accepted upsert reports \<open>Updated\<close> and leaves the live list as it is.\<close>

theorem staging_upsert_idempotent:
  assumes "staging_reachable s" "ps_upsert_channel s ch = Some (s', Inr u)"
  shows "(u = Updated \<longleftrightarrow> (\<exists>c \<in> set (channels_of s). sh_secret c = sh_secret ch))
    \<and> length (channels_of s') = length (channels_of s) + (if u = Added then 1 else 0)
    \<and> ch \<in> set (channels_of s')
    \<and> (\<exists>s''. ps_upsert_channel s' ch = Some (s'', Inr Updated) \<and> channels_of s'' = channels_of s')"
proof -
  have sh: "ps_shape s"
    using assms(1) by (rule reachable_shape)
  from upsert_result [OF sh assms(2)] obtain i where i: "i < length (channels_of s')"
    "i \<le> length (channels_of s)" "\<forall>j < i. sh_secret (channels_of s ! j) \<noteq> sh_secret ch"
    and sh': "ps_shape s'"
    and chs': "channels_of s' = (demoted ch (channels_of s) @ (if u = Added then [ch] else []))[i := ch]"
    and u: "u = Updated \<longleftrightarrow> (\<exists>c \<in> set (channels_of s). sh_secret c = sh_secret ch)"
    and last: "i = length (channels_of s) \<or> u \<noteq> Added"
    by metis
  have pos: "position (\<lambda>c. sh_secret c = sh_secret ch) (channels_of s') = Some i"
    using i chs' by (rule position_after_upsert)
  obtain s'' where s'': "ps_upsert_channel s' ch = Some (s'', Inr Updated)"
    "channels_of s'' = (demoted ch (channels_of s'))[i := ch]"
    using upsert_channel_refines [OF sh', of ch] pos by auto
  have "(demoted ch (channels_of s'))[i := ch] = channels_of s'"
    using i(1) chs' last by (rule demoted_upsert_idem)
  moreover have "ch \<in> set (channels_of s')"
    using i(1) by (subst chs') (auto simp: chs' intro: set_update_memI)
  ultimately show ?thesis
    using s'' u chs' by (auto split: if_splits)
qed

theorem staging_upsert_idempotent_witness:
  "\<exists>s'. ps_upsert_channel ProvisioningStaging_new StagingChannel_NULL = Some (s', Inr Added)
    \<and> (\<exists>s''. ps_upsert_channel s' StagingChannel_NULL = Some (s'', Inr Updated)
         \<and> channels_of s'' = channels_of s')"
proof -
  obtain s' where "ps_upsert_channel ProvisioningStaging_new StagingChannel_NULL = Some (s', Inr Added)"
    using upsert_channel_refines [OF shape_new(1), of StagingChannel_NULL] by auto
  then show ?thesis
    using staging_upsert_idempotent [OF staging_reachable.start] by blast
qed

end
