(* ===== verification/Policy.thy ===== *)
theory Policy
  imports Bounded_Array
begin

text \<open>
  \<open>protocol/src/policy.rs\<close>: the allowlist filter every inbound frame passes.  The
  filter is a 16-entry array with a live count; it provides the
  \<open>bounded_store\<close> interface, from which its exact admission set follows.
\<close>

section \<open>Model\<close>

definition MAX_POLICY_CONTACTS :: nat where
  "MAX_POLICY_CONTACTS = 16"

definition PAYLOAD_TYPE_ADVERT :: u8 where
  "PAYLOAD_TYPE_ADVERT = 0x04"

record PolicyContact =
  pc_pubkey :: bytes
  pc_telemetry :: bool

definition pub_hash :: "PolicyContact \<Rightarrow> u8" where
  "pub_hash c = pc_pubkey c ! 0"

record PolicyFilter =
  pf_contacts :: "PolicyContact list"
  pf_count :: nat

definition PolicyFilter_new :: PolicyFilter where
  "PolicyFilter_new =
     \<lparr>pf_contacts = replicate MAX_POLICY_CONTACTS \<lparr>pc_pubkey = zeros 32, pc_telemetry = False\<rparr>,
      pf_count = 0\<rparr>"

definition pf_add_contact :: "PolicyFilter \<Rightarrow> bytes \<Rightarrow> bool \<Rightarrow> PolicyFilter rust" where
  "pf_add_contact f pubkey telemetry =
     (if pf_count f < MAX_POLICY_CONTACTS then do {
        cs \<leftarrow> set_at (pf_contacts f) (pf_count f) \<lparr>pc_pubkey = pubkey, pc_telemetry = telemetry\<rparr>;
        Some (f\<lparr>pf_contacts := cs, pf_count := pf_count f + 1\<rparr>)
      } else Some f)"

definition allow_inbound_dm :: "PolicyFilter \<Rightarrow> u8 \<Rightarrow> bool rust" where
  "allow_inbound_dm f src_hash = do {
     cs \<leftarrow> slice (pf_contacts f) 0 (pf_count f);
     Some (list_ex (\<lambda>c. pub_hash c = src_hash) cs)
   }"

definition contact_pubkey :: "PolicyFilter \<Rightarrow> u8 \<Rightarrow> bytes option rust" where
  "contact_pubkey f src_hash = do {
     cs \<leftarrow> slice (pf_contacts f) 0 (pf_count f);
     Some (map_option pc_pubkey (find (\<lambda>c. pub_hash c = src_hash) cs))
   }"

definition telemetry_enabled :: "PolicyFilter \<Rightarrow> u8 \<Rightarrow> bool rust" where
  "telemetry_enabled f src_hash = do {
     cs \<leftarrow> slice (pf_contacts f) 0 (pf_count f);
     Some (case map_option pc_telemetry (find (\<lambda>c. pub_hash c = src_hash) cs) of
             Some t \<Rightarrow> t | None \<Rightarrow> False)
   }"

definition is_advert_type :: "u8 \<Rightarrow> bool" where
  "is_advert_type ptype \<longleftrightarrow> ptype = PAYLOAD_TYPE_ADVERT"

definition pf_contact_count :: "PolicyFilter \<Rightarrow> nat" where
  "pf_contact_count f = pf_count f"

section \<open>The filter as a bounded store\<close>

definition pf_invar :: "PolicyFilter \<Rightarrow> bool" where
  "pf_invar f \<longleftrightarrow> length (pf_contacts f) = 16 \<and> pf_count f \<le> 16"

definition pf_live :: "PolicyFilter \<Rightarrow> PolicyContact list" where
  "pf_live f = take (pf_count f) (pf_contacts f)"

text \<open>\<open>add_contact\<close> as a push: it leaves the filter alone when it is full.\<close>

definition pf_push :: "PolicyContact \<Rightarrow> PolicyFilter \<Rightarrow> PolicyFilter option" where
  "pf_push c f = (if pf_count f < MAX_POLICY_CONTACTS
     then pf_add_contact f (pc_pubkey c) (pc_telemetry c) else None)"

interpretation policy: bounded_store 16 pf_invar pf_live PolicyFilter_new pf_push
proof unfold_locales
  show "pf_invar PolicyFilter_new" "pf_live PolicyFilter_new = []"
    by (simp_all add: pf_invar_def pf_live_def PolicyFilter_new_def MAX_POLICY_CONTACTS_def)
next
  fix f e assume f: "pf_invar f" "length (pf_live f) < 16"
  then show "\<exists>f'. pf_push e f = Some f' \<and> pf_invar f' \<and> pf_live f' = pf_live f @ [e]"
    by (simp add: pf_push_def pf_add_contact_def pf_invar_def pf_live_def rust_simps
        MAX_POLICY_CONTACTS_def take_list_update_snoc)
qed (auto simp: pf_invar_def pf_live_def pf_push_def MAX_POLICY_CONTACTS_def)

lemma slice_live: "pf_invar f \<Longrightarrow> slice (pf_contacts f) 0 (pf_count f) = Some (pf_live f)"
  by (simp add: slice_def pf_invar_def pf_live_def)

text \<open>Registering contacts one after the other, as boot does.\<close>

primrec add_contacts :: "(bytes \<times> bool) list \<Rightarrow> PolicyFilter \<Rightarrow> PolicyFilter rust" where
  "add_contacts [] f = Some f"
| "add_contacts (c # cs) f = do {
     f \<leftarrow> pf_add_contact f (fst c) (snd c);
     add_contacts cs f
   }"

abbreviation mk_contact :: "bytes \<times> bool \<Rightarrow> PolicyContact" where
  "mk_contact c \<equiv> \<lparr>pc_pubkey = fst c, pc_telemetry = snd c\<rparr>"

lemma add_contact_push:
  assumes "pf_invar f"
  shows "pf_add_contact f k t =
    Some (case pf_push (mk_contact (k, t)) f of None \<Rightarrow> f | Some f' \<Rightarrow> f')"
  using assms by (simp add: pf_push_def pf_add_contact_def pf_invar_def rust_simps MAX_POLICY_CONTACTS_def)

lemma add_contacts_push_all:
  "pf_invar f \<Longrightarrow> add_contacts cs f = Some (policy.push_all (map mk_contact cs) f)"
  by (induction cs arbitrary: f) (simp_all add: add_contact_push policy.push_step)

lemma add_contacts_new:
  obtains f where "add_contacts cs PolicyFilter_new = Some f" "pf_invar f"
    "pf_live f = take 16 (map mk_contact cs)"
  using add_contacts_push_all [OF policy.invar_fresh] policy.push_all_live [OF policy.invar_fresh]
    policy.push_all_fresh by blast

lemma find_Some_list_ex: "(find p xs = None) = (\<not> list_ex p xs)"
  by (auto simp: find_None_iff list_ex_iff)

section \<open>Properties\<close>

text \<open>a filter built from any list of contacts never panics and admits exactly the routing
  hashes of the first sixteen: a hash is admitted if and only if a public key is found for it,
  that key is the first registered one with this hash, and telemetry is granted only through
  that same contact.\<close>

theorem policy_admits_first_16:
  "\<exists>f. add_contacts cs PolicyFilter_new = Some f \<and> pf_contact_count f = min 16 (length cs)
     \<and> allow_inbound_dm f h = Some (\<exists>c \<in> set (take 16 cs). fst c ! 0 = h)
     \<and> contact_pubkey f h = Some (map_option fst (find (\<lambda>c. fst c ! 0 = h) (take 16 cs)))
     \<and> telemetry_enabled f h =
         Some (case find (\<lambda>c. fst c ! 0 = h) (take 16 cs) of Some c \<Rightarrow> snd c | None \<Rightarrow> False)"
proof -
  obtain f where f: "add_contacts cs PolicyFilter_new = Some f" "pf_invar f"
    and live: "pf_live f = take 16 (map mk_contact cs)"
    by (rule add_contacts_new)
  have fnd: "find (\<lambda>c. pub_hash c = h) (map mk_contact xs) =
      map_option mk_contact (find (\<lambda>c. fst c ! 0 = h) xs)" for xs
    by (induction xs) (auto simp: pub_hash_def)
  have "length (pf_live f) = pf_count f"
    using f(2) by (simp add: pf_invar_def pf_live_def)
  then have "pf_count f = min 16 (length cs)"
    by (simp add: live)
  moreover have sl: "slice (pf_contacts f) 0 (pf_count f) = Some (map mk_contact (take 16 cs))"
    using slice_live [OF f(2)] live by (simp add: take_map)
  moreover have "allow_inbound_dm f h = Some (\<exists>c \<in> set (take 16 cs). fst c ! 0 = h)"
    by (simp add: allow_inbound_dm_def sl list_ex_iff pub_hash_def)
  moreover have "contact_pubkey f h = Some (map_option fst (find (\<lambda>c. fst c ! 0 = h) (take 16 cs)))"
    by (simp add: contact_pubkey_def sl fnd option.map_comp comp_def)
  moreover have "telemetry_enabled f h =
      Some (case find (\<lambda>c. fst c ! 0 = h) (take 16 cs) of Some c \<Rightarrow> snd c | None \<Rightarrow> False)"
    by (simp add: telemetry_enabled_def sl fnd split: option.splits)
  ultimately show ?thesis
    using f(1) by (auto simp: pf_contact_count_def)
qed

text \<open>the empty filter is silent: it admits no hash, finds no key and grants no telemetry.\<close>

theorem policy_empty_silent:
  "allow_inbound_dm PolicyFilter_new h = Some False
   \<and> contact_pubkey PolicyFilter_new h = Some None
   \<and> telemetry_enabled PolicyFilter_new h = Some False"
  by (simp add: allow_inbound_dm_def contact_pubkey_def telemetry_enabled_def slice_live
      policy.invar_fresh policy.live_fresh)

end
