(* ===== verification/Bounded_Log.thy ===== *)
theory Bounded_Log
  imports Prelude "HOL-Library.Multiset"
begin

text \<open>
  Bounded logs: containers that keep the newest \<open>cap\<close> entries.  The locale \<open>bounded_log\<close> is the
  contract of an append-only log with eviction; the message ring buffer, the flash
  region, the duplicate filter and the airtime budget implement it.  The array layout three of
  them share (a write index that wraps and a saturating count) is treated once, in \<open>ring_write\<close>.
\<close>

section \<open>The newest entries\<close>

definition newest :: "nat \<Rightarrow> 'a list \<Rightarrow> 'a list" where
  "newest n xs = drop (length xs - n) xs"

lemma length_newest [simp]: "length (newest n xs) = min n (length xs)"
  by (simp add: newest_def)

lemma newest_all: "length xs \<le> n \<Longrightarrow> newest n xs = xs"
  by (simp add: newest_def)

lemma newest_newest_snoc: "newest n (newest n xs @ [x]) = newest n (xs @ [x])"
proof (cases "n \<le> length xs")
  case True
  then show ?thesis
    by (cases n) (auto simp: newest_def Suc_diff_Suc)
next
  case False
  then show ?thesis by (simp add: newest_def)
qed

lemma set_newest_subset: "set (newest n xs) \<subseteq> set xs"
  by (simp add: newest_def set_drop_subset)

section \<open>Ring arrays\<close>

definition ring_ok :: "nat \<Rightarrow> nat \<Rightarrow> nat \<Rightarrow> 'a list \<Rightarrow> bool" where
  "ring_ok n head cnt slots \<longleftrightarrow>
     length slots = n \<and> cnt \<le> n \<and> head < n \<and> (cnt < n \<longrightarrow> head = cnt)"

definition ring_view :: "nat \<Rightarrow> nat \<Rightarrow> nat \<Rightarrow> 'a list \<Rightarrow> 'a list" where
  "ring_view n head cnt slots =
     (if cnt < n then take cnt slots else drop head slots @ take head slots)"

lemma ring_write:
  assumes "ring_ok n head cnt slots"
  shows "ring_ok n ((head + 1) mod n) (if cnt < n then cnt + 1 else cnt) (slots[head := e])"
    and "ring_view n ((head + 1) mod n) (if cnt < n then cnt + 1 else cnt) (slots[head := e]) =
      newest n (ring_view n head cnt slots @ [e])"
proof -
  have h: "head < n" "length slots = n" "cnt \<le> n" "cnt < n \<Longrightarrow> head = cnt"
    using assms by (auto simp: ring_ok_def)
  show "ring_ok n ((head + 1) mod n) (if cnt < n then cnt + 1 else cnt) (slots[head := e])"
    using h by (auto simp: ring_ok_def mod_Suc)
  show "ring_view n ((head + 1) mod n) (if cnt < n then cnt + 1 else cnt) (slots[head := e]) =
      newest n (ring_view n head cnt slots @ [e])"
  proof (cases "cnt < n")
    case True
    then show ?thesis
      using h by (auto simp: ring_view_def newest_def mod_Suc take_Suc_conv_app_nth upd_conv_take_nth_drop)
  next
    case False
    then have "ring_view n head cnt slots @ [e] = slots ! head # drop (Suc head) slots @ take head slots @ [e]"
      using h by (simp add: ring_view_def Cons_nth_drop_Suc)
    then show ?thesis
      using False h
      by (auto simp: ring_view_def newest_def mod_Suc take_Suc_conv_app_nth upd_conv_take_nth_drop)
  qed
qed

text \<open>The first \<open>cnt\<close> slots hold the same elements as the view, in another order.\<close>

lemma mset_ring_view:
  assumes "ring_ok n head cnt slots"
  shows "mset (ring_view n head cnt slots) = mset (take cnt slots)"
proof -
  have "mset (drop head slots @ take head slots) = mset slots"
    by (metis append_take_drop_id mset_append union_commute)
  then show ?thesis
    using assms by (auto simp: ring_ok_def ring_view_def)
qed

lemma set_ring_view: "ring_ok n head cnt slots \<Longrightarrow> set (ring_view n head cnt slots) = set (take cnt slots)"
  using mset_ring_view [of n head cnt slots] by (metis set_mset_mset)

section \<open>The contract\<close>

locale bounded_log =
  fixes cap :: nat
    and invar :: "'s \<Rightarrow> bool"
    and ok :: "'e \<Rightarrow> bool"
    and view :: "'s \<Rightarrow> 'e list"
    and fresh :: 's
    and append :: "'s \<Rightarrow> 'e \<Rightarrow> 's option"
  assumes invar_fresh: "invar fresh"
    and view_fresh: "view fresh = []"
    and append_view: "invar s \<Longrightarrow> ok e \<Longrightarrow>
      \<exists>s'. append s e = Some s' \<and> invar s' \<and> view s' = newest cap (view s @ [e])"
begin

primrec append_all :: "'s \<Rightarrow> 'e list \<Rightarrow> 's option" where
  "append_all s [] = Some s"
| "append_all s (e # es) = Option.bind (append s e) (\<lambda>s'. append_all s' es)"

lemma append_all_view:
  "invar s \<Longrightarrow> list_all ok es \<Longrightarrow> view s = newest cap pre \<Longrightarrow>
   \<exists>s'. append_all s es = Some s' \<and> invar s' \<and> view s' = newest cap (pre @ es)"
proof (induction es arbitrary: s pre)
  case (Cons e es)
  then obtain s1 where s1: "append s e = Some s1" "invar s1" "view s1 = newest cap (view s @ [e])"
    using append_view [of s e] by auto
  then have "view s1 = newest cap (pre @ [e])"
    using Cons.prems(3) by (simp add: newest_newest_snoc)
  then show ?case
    using Cons.IH [of s1 "pre @ [e]"] s1 Cons.prems by simp
qed simp

theorem append_all_fresh:
  assumes "list_all ok es"
  shows "\<exists>s'. append_all fresh es = Some s' \<and> invar s' \<and> view s' = newest cap es"
  using append_all_view [OF invar_fresh assms, of "[]"] by (simp add: view_fresh newest_def)

corollary view_length:
  assumes "list_all ok es" "append_all fresh es = Some s"
  shows "length (view s) = min cap (length es)"
  using append_all_fresh [OF assms(1)] assms(2) by auto

end

section \<open>Queues that evict\<close>

text \<open>
  A first-in first-out queue of capacity \<open>cap\<close> whose enqueue drops the oldest element when it is
  full and reports what it dropped.
\<close>

datatype 'x qop = Enq 'x | Deq

fun enqs :: "'x qop list \<Rightarrow> 'x list" where
  "enqs [] = []"
| "enqs (Enq x # ops) = x # enqs ops"
| "enqs (Deq # ops) = enqs ops"

locale evicting_queue =
  fixes cap :: nat
    and invar :: "'s \<Rightarrow> bool"
    and ok :: "'x \<Rightarrow> bool"
    and view :: "'s \<Rightarrow> 'x list"
    and report :: "'x \<Rightarrow> 'r"
    and fresh :: 's
    and enq :: "'s \<Rightarrow> 'x \<Rightarrow> ('s \<times> 'r option) option"
    and deq :: "'s \<Rightarrow> 's"
  assumes invar_fresh: "invar fresh"
    and view_fresh: "view fresh = []"
    and view_cap: "invar s \<Longrightarrow> length (view s) \<le> cap"
    and cap_pos: "0 < cap"
    and enq_room: "invar s \<Longrightarrow> ok x \<Longrightarrow> length (view s) < cap \<Longrightarrow>
      \<exists>s'. enq s x = Some (s', None) \<and> invar s' \<and> view s' = view s @ [x]"
    and enq_full: "invar s \<Longrightarrow> ok x \<Longrightarrow> length (view s) = cap \<Longrightarrow>
      \<exists>s'. enq s x = Some (s', Some (report (hd (view s)))) \<and> invar s' \<and> view s' = tl (view s) @ [x]"
    and deq_view: "invar s \<Longrightarrow> invar (deq s) \<and> view (deq s) = tl (view s)"
begin

text \<open>A run of the queue, with the reports of everything that left it, in order.\<close>

fun run :: "'s \<Rightarrow> 'x qop list \<Rightarrow> ('s \<times> 'r list) option" where
  "run s [] = Some (s, [])"
| "run s (Enq x # ops) = do {
     (s, ev) \<leftarrow> enq s x;
     (s', out) \<leftarrow> run s ops;
     Some (s', (case ev of None \<Rightarrow> [] | Some r \<Rightarrow> [r]) @ out)
   }"
| "run s (Deq # ops) = do {
     (s', out) \<leftarrow> run (deq s) ops;
     Some (s', map report (take 1 (view s)) @ out)
   }"

lemma enq_step:
  assumes "invar s" "ok x"
  obtains s' ev where "enq s x = Some (s', ev)" "invar s'"
    "map report (view s @ [x]) = (case ev of None \<Rightarrow> [] | Some r \<Rightarrow> [r]) @ map report (view s')"
proof (cases "length (view s) < cap")
  case True
  then show ?thesis
    using enq_room [OF assms True] that by fastforce
next
  case False
  then have full: "length (view s) = cap"
    using view_cap [OF assms(1)] by simp
  then have "view s = hd (view s) # tl (view s)"
    using cap_pos by (cases "view s") auto
  then show ?thesis
    using enq_full [OF assms full] that by (metis append_Cons list.map(2) map_append option.simps(5) append_Nil)
qed

theorem run_conserves:
  "invar s \<Longrightarrow> list_all ok (enqs ops) \<Longrightarrow>
   \<exists>s' out. run s ops = Some (s', out) \<and> invar s' \<and> map report (view s @ enqs ops) = out @ map report (view s')"
proof (induction s ops rule: run.induct)
  case (2 s x ops)
  have x: "ok x" "list_all ok (enqs ops)"
    using 2(3) by simp_all
  obtain s1 ev where s1: "enq s x = Some (s1, ev)" "invar s1"
    "map report (view s @ [x]) = (case ev of None \<Rightarrow> [] | Some r \<Rightarrow> [r]) @ map report (view s1)"
    using enq_step [OF 2(2) x(1)] .
  obtain s' out where "run s1 ops = Some (s', out)" "invar s'"
    "map report (view s1 @ enqs ops) = out @ map report (view s')"
    using 2(1) [OF s1(1) refl s1(2) x(2)] by blast
  moreover have "map report (view s @ enqs (Enq x # ops)) = map report (view s @ [x]) @ map report (enqs ops)"
    by simp
  ultimately show ?case
    unfolding s1(3) using s1(1,2) by simp
next
  case (3 s ops)
  then obtain s' out where "run (deq s) ops = Some (s', out)" "invar s'"
    "map report (view (deq s) @ enqs ops) = out @ map report (view s')"
    using deq_view by auto
  moreover have "map report (view s) = map report (take 1 (view s)) @ map report (view (deq s))"
    using deq_view [OF 3(2)] by (cases "view s") auto
  ultimately show ?case
    by simp
qed simp

end

end
