(* ===== verification/History.thy ===== *)
theory History
  imports Bounded_Log
begin

text \<open>
  \<open>protocol/src/history.rs\<close>: history entries, their 72-byte storage blob, the
  export payload, and the in-memory ring buffer.  The contract of a bounded
  history (keep the newest entries, oldest first) is the locale
  \<open>bounded_log\<close> of \<open>Bounded_Log\<close>; the ring buffer implements it here and the flash region in
  \<open>History_Region\<close>.  Fixed-size arrays are lists whose length is part of the
  well-formedness predicate.
\<close>

section \<open>Entries\<close>

definition MAX_HISTORY_TEXT_LEN :: nat where
  "MAX_HISTORY_TEXT_LEN = 64"

definition MAX_HISTORY_ENTRIES :: nat where
  "MAX_HISTORY_ENTRIES = 32"

definition TIMESTAMP_UNKNOWN :: u32 where
  "TIMESTAMP_UNKNOWN = 0"

definition HISTORY_ENTRY_BLOB_LEN :: nat where
  "HISTORY_ENTRY_BLOB_LEN = 72"

definition HISTORY_BLOB_LEN :: nat where
  "HISTORY_BLOB_LEN = MAX_HISTORY_ENTRIES * HISTORY_ENTRY_BLOB_LEN"

definition MAX_RSP_HISTORY_ENTRY_PAYLOAD :: nat where
  "MAX_RSP_HISTORY_ENTRY_PAYLOAD = 73"

lemmas history_consts = MAX_HISTORY_TEXT_LEN_def MAX_HISTORY_ENTRIES_def HISTORY_ENTRY_BLOB_LEN_def

datatype HistoryMsgType = HM_Dm | HM_GrpTxt

primrec msg_type_u8 :: "HistoryMsgType \<Rightarrow> u8" where
  "msg_type_u8 HM_Dm = 0"
| "msg_type_u8 HM_GrpTxt = 1"

definition HistoryMsgType_from_u8 :: "u8 \<Rightarrow> HistoryMsgType option" where
  "HistoryMsgType_from_u8 v = (if v = 0 then Some HM_Dm else if v = 1 then Some HM_GrpTxt else None)"

record HistoryEntry =
  he_sender_hash :: u8
  he_msg_type :: HistoryMsgType
  he_timestamp :: u32
  he_text :: bytes
  he_text_len :: u8

section \<open>Storage blob\<close>

definition encode_entry_blob :: "HistoryEntry \<Rightarrow> bytes \<Rightarrow> bytes rust" where
  "encode_entry_blob entry out = do {
     out \<leftarrow> set_at out 0 (he_sender_hash entry);
     out \<leftarrow> set_at out 1 (msg_type_u8 (he_msg_type entry));
     out \<leftarrow> set_at out 2 (ucast (he_timestamp entry AND 0xFF));
     out \<leftarrow> set_at out 3 (ucast (drop_bit 8 (he_timestamp entry) AND 0xFF));
     out \<leftarrow> set_at out 4 (ucast (drop_bit 16 (he_timestamp entry) AND 0xFF));
     out \<leftarrow> set_at out 5 (ucast (drop_bit 24 (he_timestamp entry) AND 0xFF));
     out \<leftarrow> set_at out 6 (he_text_len entry);
     out \<leftarrow> copy_into out 7 (he_text entry);
     set_at out 71 0x00
   }"

definition decode_entry_blob :: "bytes \<Rightarrow> HistoryEntry option rust" where
  "decode_entry_blob blob = do {
     sender_hash \<leftarrow> get_at blob 0;
     b1 \<leftarrow> get_at blob 1;
     (case HistoryMsgType_from_u8 b1 of
        None \<Rightarrow> Some None
      | Some msg_type \<Rightarrow> do {
          b2 \<leftarrow> get_at blob 2;
          b3 \<leftarrow> get_at blob 3;
          b4 \<leftarrow> get_at blob 4;
          b5 \<leftarrow> get_at blob 5;
          let timestamp = ucast b2 OR push_bit 8 (ucast b3) OR push_bit 16 (ucast b4)
                            OR push_bit 24 (ucast b5);
          text_len \<leftarrow> get_at blob 6;
          t \<leftarrow> slice blob 7 (7 + MAX_HISTORY_TEXT_LEN);
          Some (Some \<lparr>he_sender_hash = sender_hash, he_msg_type = msg_type,
                  he_timestamp = timestamp, he_text = t, he_text_len = text_len\<rparr>)
        })
   }"

section \<open>Export payload\<close>

definition encode_rsp_history_entry :: "u8 \<Rightarrow> HistoryEntry \<Rightarrow> bool \<Rightarrow> bytes \<Rightarrow> (bytes \<times> nat) rust" where
  "encode_rsp_history_entry index entry is_ours out =
     (let tlen = unat (he_text_len entry); total = 9 + tlen in
      if length out < total then Some (out, 0)
      else do {
        out \<leftarrow> set_at out 0 index;
        out \<leftarrow> set_at out 1 (he_sender_hash entry);
        out \<leftarrow> set_at out 2 (msg_type_u8 (he_msg_type entry));
        out \<leftarrow> set_at out 3 (ucast (he_timestamp entry AND 0xFF));
        out \<leftarrow> set_at out 4 (ucast (drop_bit 8 (he_timestamp entry) AND 0xFF));
        out \<leftarrow> set_at out 5 (ucast (drop_bit 16 (he_timestamp entry) AND 0xFF));
        out \<leftarrow> set_at out 6 (ucast (drop_bit 24 (he_timestamp entry) AND 0xFF));
        out \<leftarrow> set_at out 7 (he_text_len entry);
        out \<leftarrow> set_at out 8 (if is_ours then 1 else 0);
        t \<leftarrow> slice (he_text entry) 0 tlen;
        out \<leftarrow> copy_into out 9 t;
        Some (out, total)
      })"

definition decode_rsp_history_entry :: "bytes \<Rightarrow> (u8 \<times> HistoryEntry \<times> bool) option rust" where
  "decode_rsp_history_entry payload =
     (if length payload < 9 then Some None
      else
        let index = payload ! 0; sender_hash = payload ! 1 in
        (case HistoryMsgType_from_u8 (payload ! 2) of
           None \<Rightarrow> Some None
         | Some msg_type \<Rightarrow>
             let timestamp = ucast (payload ! 3) OR push_bit 8 (ucast (payload ! 4))
                   OR push_bit 16 (ucast (payload ! 5)) OR push_bit 24 (ucast (payload ! 6));
                 text_len = unat (payload ! 7);
                 is_ours = (payload ! 8 \<noteq> 0) in
             if length payload < 9 + text_len \<or> text_len > MAX_HISTORY_TEXT_LEN then Some None
             else do {
               src \<leftarrow> slice payload 9 (9 + text_len);
               t \<leftarrow> copy_into (zeros MAX_HISTORY_TEXT_LEN) 0 src;
               Some (Some (index, \<lparr>he_sender_hash = sender_hash, he_msg_type = msg_type,
                 he_timestamp = timestamp, he_text = t, he_text_len = of_nat text_len\<rparr>, is_ours))
             }))"

section \<open>Ring buffer\<close>

record RingBuffer =
  rb_slots :: "HistoryEntry list"
  rb_head :: nat
  rb_count :: nat

definition empty_entry :: HistoryEntry where
  "empty_entry = \<lparr>he_sender_hash = 0, he_msg_type = HM_Dm, he_timestamp = 0,
     he_text = zeros MAX_HISTORY_TEXT_LEN, he_text_len = 0\<rparr>"

definition RingBuffer_new :: RingBuffer where
  "RingBuffer_new = \<lparr>rb_slots = replicate MAX_HISTORY_ENTRIES empty_entry, rb_head = 0, rb_count = 0\<rparr>"

definition rb_append :: "RingBuffer \<Rightarrow> HistoryEntry \<Rightarrow> RingBuffer rust" where
  "rb_append b entry = do {
     slots \<leftarrow> set_at (rb_slots b) (rb_head b) entry;
     Some \<lparr>rb_slots = slots,
       rb_head = (rb_head b + 1) mod MAX_HISTORY_ENTRIES,
       rb_count = (if rb_count b < MAX_HISTORY_ENTRIES then rb_count b + 1 else rb_count b)\<rparr>
   }"

definition rb_len :: "RingBuffer \<Rightarrow> nat" where
  "rb_len b = rb_count b"

definition rb_is_empty :: "RingBuffer \<Rightarrow> bool" where
  "rb_is_empty b \<longleftrightarrow> rb_count b = 0"

definition rb_oldest_slot :: "RingBuffer \<Rightarrow> nat" where
  "rb_oldest_slot b = (if rb_count b < MAX_HISTORY_ENTRIES then 0 else rb_head b)"

text \<open>The calls \<open>f(i, entry)\<close> the iteration makes, in order.\<close>

fun rb_iter_loop :: "RingBuffer \<Rightarrow> nat \<Rightarrow> nat \<Rightarrow> nat \<Rightarrow> (u8 \<times> HistoryEntry) list rust" where
  "rb_iter_loop b oldest_slot 0 i = Some []"
| "rb_iter_loop b oldest_slot (Suc k) i = do {
     let slot = (oldest_slot + i) mod MAX_HISTORY_ENTRIES;
     e \<leftarrow> get_at (rb_slots b) slot;
     rest \<leftarrow> rb_iter_loop b oldest_slot k (Suc i);
     Some ((of_nat i, e) # rest)
   }"

definition rb_iter_oldest_first :: "RingBuffer \<Rightarrow> (u8 \<times> HistoryEntry) list rust" where
  "rb_iter_oldest_first b =
     (if rb_count b = 0 then Some []
      else rb_iter_loop b (rb_oldest_slot b) (rb_count b) 0)"

definition rb_get :: "RingBuffer \<Rightarrow> nat \<Rightarrow> HistoryEntry option rust" where
  "rb_get b index =
     (if index \<ge> rb_count b then Some None
      else do {
        let slot = (rb_oldest_slot b + index) mod MAX_HISTORY_ENTRIES;
        e \<leftarrow> get_at (rb_slots b) slot;
        Some (Some e)
      })"

section \<open>Lemmas: codecs\<close>

text \<open>Entries as the type \<open>HistoryEntry\<close> has them: the text array holds 64 bytes.\<close>

definition wf_entry :: "HistoryEntry \<Rightarrow> bool" where
  "wf_entry e \<longleftrightarrow> length (he_text e) = 64"

definition entry_bytes :: "HistoryEntry \<Rightarrow> u8 \<Rightarrow> bytes" where
  "entry_bytes e flags = he_sender_hash e # msg_type_u8 (he_msg_type e) # to_le32 (he_timestamp e)
     @ he_text_len e # he_text e @ [flags]"

lemma from_msg_type_u8 [simp]: "HistoryMsgType_from_u8 (msg_type_u8 k) = Some k"
  by (cases k) (simp_all add: HistoryMsgType_from_u8_def)

lemma msg_type_u8_le: "msg_type_u8 k \<noteq> 0xFF"
  by (cases k) simp_all

lemma ucast_and_FF: "(ucast (w AND 0xFF) :: u8) = ucast w" for w :: u32
proof -
  have "w AND 0xFF = take_bit 8 w"
    by (simp add: take_bit_eq_mask mask_eq_exp_minus_1)
  then show ?thesis
    by (auto intro!: bit_word_eqI simp: bit_simps)
qed

lemma length_entry_bytes [simp]: "wf_entry e \<Longrightarrow> length (entry_bytes e fl) = 72"
  by (simp add: entry_bytes_def wf_entry_def)

lemma list_72_cases:
  assumes "length xs = 72"
  obtains a b c d e f g mid z where "xs = a # b # c # d # e # f # g # mid @ [z]" "length mid = 64"
proof -
  from assms have "5 \<le> length xs" by simp
  then obtain a b c d e ys where xs: "xs = a # b # c # d # e # ys"
    by (rule list_5_cases)
  with assms have "2 \<le> length ys" by simp
  then obtain f g zs where ys: "ys = f # g # zs"
    by (auto simp: Suc_le_length_iff eval_nat_numeral)
  with xs assms have "length zs = 65" by simp
  then obtain mid z where "zs = mid @ [z]" "length mid = 64"
    by (cases zs rule: rev_cases) auto
  with xs ys show thesis
    by (intro that [of a b c d e f g mid z]) simp_all
qed

lemma encode_entry_blob_spec:
  assumes "wf_entry e" "length out = 72"
  shows "encode_entry_blob e out = Some (entry_bytes e 0)"
proof -
  obtain a b c d f g h mid z where "out = a # b # c # d # f # g # h # mid @ [z]" "length mid = 64"
    using assms(2) by (rule list_72_cases)
  then show ?thesis
    using assms(1)
    by (simp add: encode_entry_blob_def rust_simps wf_entry_def entry_bytes_def to_le32_def
        ucast_and_FF list_update_append nth_append eval_nat_numeral)
qed

lemma decode_entry_bytes:
  assumes "wf_entry e"
  shows "decode_entry_blob (entry_bytes e fl) = Some (Some e)"
proof -
  obtain k ms ts tx tl where e: "e = \<lparr>he_sender_hash = k, he_msg_type = ms, he_timestamp = ts,
      he_text = tx, he_text_len = tl\<rparr>"
    by (cases e)
  have "decode_entry_blob (k # msg_type_u8 ms # a # b # c # d # tl # tx @ [fl]) =
      Some (Some \<lparr>he_sender_hash = k, he_msg_type = ms, he_timestamp = from_le32 a b c d,
        he_text = tx, he_text_len = tl\<rparr>)" for a b c d
    using assms
    by (simp add: decode_entry_blob_def rust_simps e wf_entry_def MAX_HISTORY_TEXT_LEN_def
        from_le32_def Let_def)
  then show ?thesis
    by (simp add: e entry_bytes_def to_le32_def from_to_le32)
qed

lemma decode_entry_blob_total: "length blob = 72 \<Longrightarrow> decode_entry_blob blob \<noteq> panic"
  by (auto simp: decode_entry_blob_def rust_simps MAX_HISTORY_TEXT_LEN_def Let_def split: option.splits)

lemma decode_entry_blob_wf: "decode_entry_blob blob = Some (Some e) \<Longrightarrow> wf_entry e"
  by (auto simp: decode_entry_blob_def rust_simps MAX_HISTORY_TEXT_LEN_def Let_def wf_entry_def
      split: option.splits if_splits)

definition rsp_bytes :: "u8 \<Rightarrow> HistoryEntry \<Rightarrow> bool \<Rightarrow> bytes" where
  "rsp_bytes i e ours = i # he_sender_hash e # msg_type_u8 (he_msg_type e) # to_le32 (he_timestamp e)
     @ he_text_len e # (if ours then 1 else 0) # take (unat (he_text_len e)) (he_text e)"

lemma list_9_cases:
  assumes "9 \<le> length xs"
  obtains a b c d e f g h i ys where "xs = a # b # c # d # e # f # g # h # i # ys"
  using assms by (auto simp: Suc_le_length_iff eval_nat_numeral)

lemma encode_rsp_spec:
  assumes "wf_entry e" "unat (he_text_len e) \<le> 64" "9 + unat (he_text_len e) \<le> length out"
  shows "encode_rsp_history_entry i e ours out =
    Some (rsp_bytes i e ours @ drop (9 + unat (he_text_len e)) out, 9 + unat (he_text_len e))"
proof -
  have "9 \<le> length out" using assms(3) by simp
  then obtain a b c d f g h j k rest where "out = a # b # c # d # f # g # h # j # k # rest"
    by (rule list_9_cases)
  then show ?thesis
    using assms
    by (simp add: encode_rsp_history_entry_def rust_simps wf_entry_def rsp_bytes_def to_le32_def
        ucast_and_FF Let_def eval_nat_numeral)
qed

lemma decode_rsp_bytes:
  assumes "wf_entry e" "unat (he_text_len e) \<le> 64"
  shows "decode_rsp_history_entry (rsp_bytes i e ours) =
    Some (Some (i, e\<lparr>he_text := take (unat (he_text_len e)) (he_text e)
      @ zeros (64 - unat (he_text_len e))\<rparr>, ours))"
proof -
  obtain k ms ts tx tl where e: "e = \<lparr>he_sender_hash = k, he_msg_type = ms, he_timestamp = ts,
      he_text = tx, he_text_len = tl\<rparr>"
    by (cases e)
  have "decode_rsp_history_entry (i # k # msg_type_u8 ms # a # b # c # d # tl # (if ours then 1 else 0)
        # take (unat tl) tx) =
      Some (Some (i, \<lparr>he_sender_hash = k, he_msg_type = ms, he_timestamp = from_le32 a b c d,
        he_text = take (unat tl) tx @ zeros (64 - unat tl), he_text_len = tl\<rparr>, ours))" for a b c d
    using assms
    by (simp add: decode_rsp_history_entry_def rust_simps e wf_entry_def MAX_HISTORY_TEXT_LEN_def
        from_le32_def Let_def)
  then show ?thesis
    by (simp add: e rsp_bytes_def to_le32_def from_to_le32)
qed

section \<open>Lemmas: ring buffer\<close>

definition rb_invar :: "RingBuffer \<Rightarrow> bool" where
  "rb_invar b \<longleftrightarrow> ring_ok 32 (rb_head b) (rb_count b) (rb_slots b)"

definition rb_view :: "RingBuffer \<Rightarrow> HistoryEntry list" where
  "rb_view b = ring_view 32 (rb_head b) (rb_count b) (rb_slots b)"

lemma rb_append_view:
  assumes "rb_invar b"
  shows "\<exists>b'. rb_append b e = Some b' \<and> rb_invar b' \<and> rb_view b' = newest 32 (rb_view b @ [e])"
  using assms ring_write [of 32 "rb_head b" "rb_count b" "rb_slots b" e]
  by (simp add: rb_append_def rb_invar_def rb_view_def set_at_def ring_ok_def MAX_HISTORY_ENTRIES_def)

interpretation ring: bounded_log 32 rb_invar "\<lambda>_. True" rb_view RingBuffer_new rb_append
proof unfold_locales
  show "rb_invar RingBuffer_new" "rb_view RingBuffer_new = []"
    by (simp_all add: rb_invar_def ring_ok_def rb_view_def ring_view_def RingBuffer_new_def MAX_HISTORY_ENTRIES_def)
qed (rule rb_append_view)

lemma length_rb_view: "rb_invar b \<Longrightarrow> length (rb_view b) = rb_count b"
  by (auto simp: rb_invar_def ring_ok_def rb_view_def ring_view_def)

lemma rb_view_nth:
  assumes "rb_invar b" "i < rb_count b"
  shows "(rb_oldest_slot b + i) mod 32 < 32"
    and "rb_view b ! i = rb_slots b ! ((rb_oldest_slot b + i) mod 32)"
proof -
  show "rb_view b ! i = rb_slots b ! ((rb_oldest_slot b + i) mod 32)"
  proof (cases "rb_count b < 32")
    case True
    then show ?thesis
      using assms by (simp add: rb_view_def ring_view_def rb_oldest_slot_def MAX_HISTORY_ENTRIES_def)
  next
    case False
    then have "i < 32" "rb_head b < 32" "length (rb_slots b) = 32"
      using assms by (simp_all add: rb_invar_def ring_ok_def)
    moreover from this have "(rb_head b + i) mod 32 = (if rb_head b + i < 32 then rb_head b + i else rb_head b + i - 32)"
      by (simp add: mod_if)
    ultimately show ?thesis
      using False
      by (auto simp: rb_view_def ring_view_def rb_oldest_slot_def MAX_HISTORY_ENTRIES_def nth_append add.commute)
  qed
qed simp

lemma rb_iter_loop_spec:
  assumes "rb_invar b"
  shows "i + k \<le> rb_count b \<Longrightarrow>
    rb_iter_loop b (rb_oldest_slot b) k i = Some (map (\<lambda>j. (of_nat j, rb_view b ! j)) [i..<i + k])"
proof (induction k arbitrary: i)
  case (Suc k)
  have "i < rb_count b"
    using Suc.prems by simp
  moreover have "length (rb_slots b) = 32"
    using assms by (simp add: rb_invar_def ring_ok_def)
  moreover have "[i..<i + Suc k] = i # [Suc i..<Suc i + k]"
    by (simp add: upt_rec)
  ultimately show ?case
    using Suc rb_view_nth [OF assms, of i] by (simp add: get_at_def MAX_HISTORY_ENTRIES_def)
qed simp

lemma rb_iter_spec:
  assumes "rb_invar b"
  shows "rb_iter_oldest_first b = Some (map (\<lambda>j. (of_nat j, rb_view b ! j)) [0..<length (rb_view b)])"
  using rb_iter_loop_spec [OF assms, of 0 "rb_count b"] length_rb_view [OF assms]
  by (simp add: rb_iter_oldest_first_def)

lemma rb_get_spec:
  assumes "rb_invar b"
  shows "rb_get b i = Some (if i < length (rb_view b) then Some (rb_view b ! i) else None)"
  using assms rb_view_nth [OF assms, of i] length_rb_view [OF assms]
  by (auto simp: rb_get_def get_at_def MAX_HISTORY_ENTRIES_def rb_invar_def ring_ok_def)

section \<open>Properties\<close>

text \<open>appending any sequence of entries to an empty ring never panics, and afterwards iteration
  and indexed access present exactly the newest 32 of them, oldest first.\<close>

theorem ring_presents_newest:
  "\<exists>b. ring.append_all RingBuffer_new es = Some b \<and> rb_len b = min 32 (length es)
     \<and> rb_iter_oldest_first b =
         Some (map (\<lambda>j. (of_nat j, newest 32 es ! j)) [0..<min 32 (length es)])
     \<and> rb_get b i = Some (if i < min 32 (length es) then Some (newest 32 es ! i) else None)"
proof -
  obtain b where b: "ring.append_all RingBuffer_new es = Some b" "rb_invar b" "rb_view b = newest 32 es"
    using ring.append_all_fresh [of es] by (auto simp: list_all_iff)
  then show ?thesis
    using rb_iter_spec [OF b(2)] rb_get_spec [OF b(2), of i] length_rb_view [OF b(2)]
    by (auto simp: rb_len_def)
qed

text \<open>a history entry round-trips through its 72-byte storage blob, whatever the buffer held.\<close>

theorem history_blob_roundtrip:
  assumes "length (he_text e) = 64" "length out = 72"
  shows "\<exists>blob. encode_entry_blob e out = Some blob \<and> length blob = 72
    \<and> decode_entry_blob blob = Some (Some e)"
  using encode_entry_blob_spec [of e out] decode_entry_bytes [of e 0] length_entry_bytes [of e 0] assms
  by (simp add: wf_entry_def)

theorem history_blob_roundtrip_witness:
  "\<exists>blob. encode_entry_blob empty_entry (replicate 72 0xFF) = Some blob
    \<and> decode_entry_blob blob = Some (Some empty_entry)"
  using history_blob_roundtrip [of empty_entry "replicate 72 0xFF"]
  by (auto simp: empty_entry_def MAX_HISTORY_TEXT_LEN_def)

text \<open>the export payload round-trips the index, the direction and every field of an entry
  whose text length is within the array; bytes of the text array past the text length come
  back as zero.\<close>

theorem history_export_roundtrip:
  assumes "length (he_text e) = 64" "unat (he_text_len e) \<le> 64"
    and "9 + unat (he_text_len e) \<le> length out"
  shows "\<exists>out' n. encode_rsp_history_entry i e ours out = Some (out', n)
    \<and> n = 9 + unat (he_text_len e) \<and> n \<le> MAX_RSP_HISTORY_ENTRY_PAYLOAD
    \<and> decode_rsp_history_entry (take n out') =
        Some (Some (i, e\<lparr>he_text := take (unat (he_text_len e)) (he_text e)
          @ zeros (64 - unat (he_text_len e))\<rparr>, ours))"
proof -
  have wf: "wf_entry e"
    using assms(1) by (simp add: wf_entry_def)
  have "length (rsp_bytes i e ours) = 9 + unat (he_text_len e)"
    using assms by (simp add: rsp_bytes_def)
  then show ?thesis
    using encode_rsp_spec [OF wf assms(2,3), of i ours] decode_rsp_bytes [OF wf assms(2), of i ours] assms(2)
    by (simp add: MAX_RSP_HISTORY_ENTRY_PAYLOAD_def)
qed

theorem history_export_roundtrip_witness:
  "\<exists>out' n. encode_rsp_history_entry 3 empty_entry True (zeros 73) = Some (out', n)
    \<and> decode_rsp_history_entry (take n out') = Some (Some (3, empty_entry, True))"
proof -
  have "empty_entry\<lparr>he_text := take (unat (he_text_len empty_entry)) (he_text empty_entry)
      @ zeros (64 - unat (he_text_len empty_entry))\<rparr> = empty_entry"
    by (simp add: empty_entry_def MAX_HISTORY_TEXT_LEN_def)
  then show ?thesis
    using history_export_roundtrip [of empty_entry "zeros 73" 3 True]
    by (auto simp: empty_entry_def MAX_HISTORY_TEXT_LEN_def)
qed

text \<open>the storage blob does not validate the text length, so a stored entry may claim up to 255
  text bytes; exporting it into the documented 73-byte buffer still never panics, it reports
  zero bytes written instead, while any buffer long enough for the claimed length makes the
  encoder panic on the 64-byte text array.\<close>

theorem history_export_oversize:
  assumes "length (he_text e) = 64" "64 < unat (he_text_len e)"
  shows "(\<exists>blob. encode_entry_blob e (zeros 72) = Some blob \<and> decode_entry_blob blob = Some (Some e))
    \<and> (length out = MAX_RSP_HISTORY_ENTRY_PAYLOAD \<longrightarrow> encode_rsp_history_entry i e ours out = Some (out, 0))
    \<and> (9 + unat (he_text_len e) \<le> length out \<longrightarrow> encode_rsp_history_entry i e ours out = panic)"
proof (intro conjI impI)
  show "\<exists>blob. encode_entry_blob e (zeros 72) = Some blob \<and> decode_entry_blob blob = Some (Some e)"
    using encode_entry_blob_spec [of e "zeros 72"] decode_entry_bytes [of e 0] assms(1)
    by (simp add: wf_entry_def)
  show "encode_rsp_history_entry i e ours out = Some (out, 0)" if "length out = MAX_RSP_HISTORY_ENTRY_PAYLOAD"
    using that assms by (simp add: encode_rsp_history_entry_def MAX_RSP_HISTORY_ENTRY_PAYLOAD_def)
  show "encode_rsp_history_entry i e ours out = panic" if "9 + unat (he_text_len e) \<le> length out"
    using that assms by (simp add: encode_rsp_history_entry_def rust_simps Let_def)
qed

theorem history_export_oversize_witness:
  "encode_rsp_history_entry 0 (empty_entry\<lparr>he_text_len := 255\<rparr>) False (zeros 73) = Some (zeros 73, 0)
   \<and> encode_rsp_history_entry 0 (empty_entry\<lparr>he_text_len := 255\<rparr>) False (zeros 300) = panic"
  using history_export_oversize [of "empty_entry\<lparr>he_text_len := 255\<rparr>" "zeros 73" 0 False]
    history_export_oversize [of "empty_entry\<lparr>he_text_len := 255\<rparr>" "zeros 300" 0 False]
  by (simp add: empty_entry_def MAX_HISTORY_TEXT_LEN_def MAX_RSP_HISTORY_ENTRY_PAYLOAD_def)

end
