(* ===== verification/History_Region.thy ===== *)
theory History_Region
  imports History Bounded_Array
begin

text \<open>
  \<open>protocol/src/history_region.rs\<close>: a conversation's double-buffered flash region.
  The model keeps the two 4096-byte sectors as byte lists and runs the code's
  scans over them.  A sector is related to its header, its 56 slots and its pad
  by \<open>mk_sector\<close>; on top of it \<open>region_repr\<close> relates a region to the sequence of
  entries appended since its active sector was written.  The region implements
  the \<open>bounded_log\<close> contract, every state a compaction passes through presents
  the same live entries, and the directory gives each conversation one region.
\<close>

section \<open>Slots\<close>

type_synonym DecodedSlot = "HistoryEntry \<times> bool \<times> bool"

definition FLAG_IS_OURS :: u8 where
  "FLAG_IS_OURS = 0x01"

definition FLAG_ACKED :: u8 where
  "FLAG_ACKED = 0x02"

definition encode_slot :: "HistoryEntry \<Rightarrow> bool \<Rightarrow> bool \<Rightarrow> bytes rust" where
  "encode_slot entry is_ours acked = do {
     blob \<leftarrow> encode_entry_blob entry (zeros HISTORY_ENTRY_BLOB_LEN);
     let flags = (0 :: u8);
     let flags = (if is_ours then flags OR FLAG_IS_OURS else flags);
     let flags = (if acked then flags OR FLAG_ACKED else flags);
     set_at blob (HISTORY_ENTRY_BLOB_LEN - 1) flags
   }"

definition decode_slot :: "bytes \<Rightarrow> DecodedSlot option rust" where
  "decode_slot blob = do {
     r \<leftarrow> decode_entry_blob blob;
     (case r of
        None \<Rightarrow> Some None
      | Some entry \<Rightarrow> do {
          flags \<leftarrow> get_at blob (HISTORY_ENTRY_BLOB_LEN - 1);
          let is_ours = (flags AND FLAG_IS_OURS \<noteq> 0);
          let acked = (flags AND FLAG_ACKED \<noteq> 0);
          Some (Some (entry, is_ours, acked))
        })
   }"

text \<open>\<open>(0..live.len()).rev().find(..)\<close>.\<close>

fun rev_find :: "(nat \<Rightarrow> bool) \<Rightarrow> nat \<Rightarrow> nat option" where
  "rev_find p 0 = None"
| "rev_find p (Suc n) = (if p n then Some n else rev_find p n)"

definition find_newest_ours_unacked :: "DecodedSlot option list \<Rightarrow> nat option" where
  "find_newest_ours_unacked live =
     rev_find (\<lambda>i. case live ! i of Some (_, is_ours, acked) \<Rightarrow> is_ours \<and> \<not> acked | None \<Rightarrow> False)
       (length live)"

section \<open>Geometry and header\<close>

definition SECTOR_SIZE :: nat where
  "SECTOR_SIZE = 4096"

definition SECTORS_PER_REGION :: nat where
  "SECTORS_PER_REGION = 2"

definition REGION_HEADER_LEN :: nat where
  "REGION_HEADER_LEN = 8"

definition SLOTS_PER_SECTOR :: nat where
  "SLOTS_PER_SECTOR = (SECTOR_SIZE - REGION_HEADER_LEN) div HISTORY_ENTRY_BLOB_LEN"

text \<open>The bytes \<open>MH\<close>.\<close>

definition REGION_MAGIC :: bytes where
  "REGION_MAGIC = [0x4D, 0x48]"

definition REGION_VERSION :: u8 where
  "REGION_VERSION = 1"

definition slot_offset :: "nat \<Rightarrow> nat" where
  "slot_offset index = REGION_HEADER_LEN + index * HISTORY_ENTRY_BLOB_LEN"

record RegionHeader =
  rh_kind :: HistoryMsgType
  rh_conv_hash :: u8
  rh_generation :: u8

definition encode_region_header :: "RegionHeader \<Rightarrow> bytes" where
  "encode_region_header header =
     [REGION_MAGIC ! 0, REGION_MAGIC ! 1, REGION_VERSION, msg_type_u8 (rh_kind header),
      rh_conv_hash header, rh_generation header, 0, 0]"

definition decode_region_header :: "bytes \<Rightarrow> RegionHeader option" where
  "decode_region_header bs =
     (if length bs < REGION_HEADER_LEN then None
      else if bs ! 0 \<noteq> REGION_MAGIC ! 0 \<or> bs ! 1 \<noteq> REGION_MAGIC ! 1 then None
      else if bs ! 2 \<noteq> REGION_VERSION then None
      else (case HistoryMsgType_from_u8 (bs ! 3) of
              None \<Rightarrow> None
            | Some kind \<Rightarrow> Some \<lparr>rh_kind = kind, rh_conv_hash = bs ! 4, rh_generation = bs ! 5\<rparr>))"

text \<open>The cast to \<open>i8\<close> is \<open>sint\<close>.\<close>

definition generation_is_newer :: "u8 \<Rightarrow> u8 \<Rightarrow> bool" where
  "generation_is_newer candidate current \<longleftrightarrow> sint (candidate - current) > 0"

fun write_head_loop :: "bytes \<Rightarrow> nat \<Rightarrow> nat \<Rightarrow> nat rust" where
  "write_head_loop sector 0 i = Some SLOTS_PER_SECTOR"
| "write_head_loop sector (Suc k) i =
     (let off = slot_offset i; end = off + HISTORY_ENTRY_BLOB_LEN in
      if end > length sector then Some i
      else do {
        s \<leftarrow> slice sector off end;
        if list_all (\<lambda>b. b = 0xFF) s then Some i else write_head_loop sector k (Suc i)
      })"

definition find_write_head :: "bytes \<Rightarrow> nat rust" where
  "find_write_head sector = write_head_loop sector SLOTS_PER_SECTOR 0"

datatype RegionError = Unclaimed

section \<open>The region\<close>

record HistoryRegion =
  hr_sectors :: "bytes list"

definition erased :: bytes where
  "erased = replicate SECTOR_SIZE 0xFF"

definition new_erased :: HistoryRegion where
  "new_erased = \<lparr>hr_sectors = replicate SECTORS_PER_REGION erased\<rparr>"

definition header_of :: "HistoryRegion \<Rightarrow> nat \<Rightarrow> RegionHeader option rust" where
  "header_of r sector_idx = do {
     s \<leftarrow> get_at (hr_sectors r) sector_idx;
     h \<leftarrow> slice s 0 REGION_HEADER_LEN;
     Some (decode_region_header h)
   }"

definition write_header :: "HistoryRegion \<Rightarrow> nat \<Rightarrow> RegionHeader \<Rightarrow> HistoryRegion rust" where
  "write_header r sector_idx header = do {
     let bs = encode_region_header header;
     s \<leftarrow> get_at (hr_sectors r) sector_idx;
     s \<leftarrow> copy_into s 0 bs;
     ss \<leftarrow> set_at (hr_sectors r) sector_idx s;
     Some (r\<lparr>hr_sectors := ss\<rparr>)
   }"

definition write_head :: "HistoryRegion \<Rightarrow> nat \<Rightarrow> nat rust" where
  "write_head r sector_idx = do {
     s \<leftarrow> get_at (hr_sectors r) sector_idx;
     find_write_head s
   }"

definition decode_slot_at :: "HistoryRegion \<Rightarrow> nat \<Rightarrow> nat \<Rightarrow> DecodedSlot option rust" where
  "decode_slot_at r sector_idx slot = do {
     let off = slot_offset slot;
     s \<leftarrow> get_at (hr_sectors r) sector_idx;
     bs \<leftarrow> slice s off (off + HISTORY_ENTRY_BLOB_LEN);
     decode_slot bs
   }"

definition active_sector_index :: "HistoryRegion \<Rightarrow> nat option rust" where
  "active_sector_index r = do {
     h0 \<leftarrow> header_of r 0;
     h1 \<leftarrow> header_of r 1;
     Some (case (h0, h1) of
        (Some a, Some b) \<Rightarrow>
          if generation_is_newer (rh_generation b) (rh_generation a) then Some 1 else Some 0
      | (Some _, None) \<Rightarrow> Some 0
      | (None, Some _) \<Rightarrow> Some 1
      | (None, None) \<Rightarrow> None)
   }"

definition is_claimed :: "HistoryRegion \<Rightarrow> bool rust" where
  "is_claimed r = do {
     a \<leftarrow> active_sector_index r;
     Some (a \<noteq> None)
   }"

definition region_header :: "HistoryRegion \<Rightarrow> RegionHeader option rust" where
  "region_header r = do {
     a \<leftarrow> active_sector_index r;
     (case a of None \<Rightarrow> Some None | Some i \<Rightarrow> header_of r i)
   }"

definition claim :: "HistoryRegion \<Rightarrow> HistoryMsgType \<Rightarrow> u8 \<Rightarrow> HistoryRegion rust" where
  "claim r kind conv_hash = do {
     r \<leftarrow> write_header r 0 \<lparr>rh_kind = kind, rh_conv_hash = conv_hash, rh_generation = 0\<rparr>;
     ss \<leftarrow> set_at (hr_sectors r) 1 erased;
     Some (r\<lparr>hr_sectors := ss\<rparr>)
   }"

text \<open>The gathering loop: \<open>k\<close> slots left from \<open>slot\<close>, the buffer and the count so far.\<close>

fun gather_loop ::
    "HistoryRegion \<Rightarrow> nat \<Rightarrow> nat \<Rightarrow> nat \<Rightarrow> DecodedSlot option list \<Rightarrow> nat \<Rightarrow>
     (DecodedSlot option list \<times> nat) rust" where
  "gather_loop r sector_idx 0 slot buf n = Some (buf, n)"
| "gather_loop r sector_idx (Suc k) slot buf n = do {
     d \<leftarrow> decode_slot_at r sector_idx slot;
     (case d of
        Some triple \<Rightarrow> do {
          buf \<leftarrow> set_at buf n (Some triple);
          gather_loop r sector_idx k (Suc slot) buf (n + 1)
        }
      | None \<Rightarrow> gather_loop r sector_idx k (Suc slot) buf n)
   }"

definition gather_live :: "HistoryRegion \<Rightarrow> nat \<Rightarrow> (DecodedSlot option list \<times> nat) rust" where
  "gather_live r sector_idx = do {
     head \<leftarrow> write_head r sector_idx;
     let start = head - MAX_HISTORY_ENTRIES;
     gather_loop r sector_idx (head - start) start (replicate MAX_HISTORY_ENTRIES None) 0
   }"

text \<open>Writing one slot of a sector.\<close>

definition write_slot :: "HistoryRegion \<Rightarrow> nat \<Rightarrow> nat \<Rightarrow> bytes \<Rightarrow> HistoryRegion rust" where
  "write_slot r sector_idx i bs = do {
     s \<leftarrow> get_at (hr_sectors r) sector_idx;
     s \<leftarrow> copy_into s (slot_offset i) bs;
     ss \<leftarrow> set_at (hr_sectors r) sector_idx s;
     Some (r\<lparr>hr_sectors := ss\<rparr>)
   }"

text \<open>
  The assignments of a compaction, in the order the code makes them: a sector, an offset in it
  and the bytes stored there.  The header and the entries are read before the first of them.
\<close>

type_synonym store = "nat \<times> nat \<times> bytes"

definition store_bytes :: "HistoryRegion \<Rightarrow> store \<Rightarrow> HistoryRegion rust" where
  "store_bytes r w = (case w of (sector_idx, off, bs) \<Rightarrow> do {
     s \<leftarrow> get_at (hr_sectors r) sector_idx;
     s \<leftarrow> copy_into s off bs;
     ss \<leftarrow> set_at (hr_sectors r) sector_idx s;
     Some (r\<lparr>hr_sectors := ss\<rparr>)
   })"

fun run_stores :: "HistoryRegion \<Rightarrow> store list \<Rightarrow> HistoryRegion rust" where
  "run_stores r [] = Some r"
| "run_stores r (w # ws) = do {
     r \<leftarrow> store_bytes r w;
     run_stores r ws
   }"

text \<open>The copy loop over the gathered entries, from index \<open>i\<close>.\<close>

fun copy_stores :: "nat \<Rightarrow> nat \<Rightarrow> DecodedSlot option list \<Rightarrow> store list rust" where
  "copy_stores spare i [] = Some []"
| "copy_stores spare i (None # rest) = copy_stores spare (Suc i) rest"
| "copy_stores spare i (Some (entry, is_ours, acked) # rest) = do {
     bs \<leftarrow> encode_slot entry is_ours acked;
     ws \<leftarrow> copy_stores spare (Suc i) rest;
     Some ((spare, slot_offset i, bs) # ws)
   }"

definition compact_stores :: "HistoryRegion \<Rightarrow> nat \<Rightarrow> (RegionError + store list) rust" where
  "compact_stores r active = do {
     h \<leftarrow> header_of r active;
     (case h of
        None \<Rightarrow> Some (Inl Unclaimed)
      | Some header \<Rightarrow> do {
          let spare = 1 - active;
          (live, n) \<leftarrow> gather_live r active;
          hs \<leftarrow> header_of r spare;
          let erase_spare = (if hs \<noteq> None then [(spare, 0, erased)] else []);
          copies \<leftarrow> copy_stores spare 0 (take n live);
          let new_header = \<lparr>rh_kind = rh_kind header, rh_conv_hash = rh_conv_hash header,
                rh_generation = rh_generation header + 1\<rparr>;
          Some (Inr (erase_spare @ copies
            @ [(spare, 0, encode_region_header new_header),
               (active, 0, erased)]))
        })
   }"

definition compact :: "HistoryRegion \<Rightarrow> nat \<Rightarrow> (HistoryRegion \<times> (RegionError + unit)) rust" where
  "compact r active = do {
     ws \<leftarrow> compact_stores r active;
     (case ws of
        Inl e \<Rightarrow> Some (r, Inl e)
      | Inr ws \<Rightarrow> do {
          r \<leftarrow> run_stores r ws;
          Some (r, Inr ())
        })
   }"

definition region_append ::
    "HistoryRegion \<Rightarrow> HistoryEntry \<Rightarrow> bool \<Rightarrow> bool \<Rightarrow> (HistoryRegion \<times> (RegionError + unit)) rust" where
  "region_append r entry is_ours acked = do {
     a \<leftarrow> active_sector_index r;
     (case a of
        None \<Rightarrow> Some (r, Inl Unclaimed)
      | Some active \<Rightarrow> do {
          head \<leftarrow> write_head r active;
          st \<leftarrow> (if head \<ge> SLOTS_PER_SECTOR then do {
                  (r, res) \<leftarrow> compact r active;
                  (case res of
                     Inl e \<Rightarrow> Some (Inl (r, e))
                   | Inr _ \<Rightarrow> do {
                       a \<leftarrow> active_sector_index r;
                       active \<leftarrow> a;
                       head \<leftarrow> write_head r active;
                       Some (Inr (r, active, head))
                     })
                } else Some (Inr (r, active, head)));
          (case st of
             Inl (r, e) \<Rightarrow> Some (r, Inl e)
           | Inr (r, active, head) \<Rightarrow> do {
               bs \<leftarrow> encode_slot entry is_ours acked;
               r \<leftarrow> write_slot r active head bs;
               Some (r, Inr ())
             })
        })
   }"

definition live_count :: "HistoryRegion \<Rightarrow> nat rust" where
  "live_count r = do {
     a \<leftarrow> active_sector_index r;
     (case a of
        Some active \<Rightarrow> map_option snd (gather_live r active)
      | None \<Rightarrow> Some 0)
   }"

text \<open>The calls \<open>f(i, entry, is_ours, acked)\<close> of the iteration, in order.\<close>

fun region_iter_list :: "nat \<Rightarrow> DecodedSlot option list \<Rightarrow> (u8 \<times> DecodedSlot) list" where
  "region_iter_list i [] = []"
| "region_iter_list i (None # rest) = region_iter_list (Suc i) rest"
| "region_iter_list i (Some t # rest) = (of_nat i, t) # region_iter_list (Suc i) rest"

definition region_iter_oldest_first :: "HistoryRegion \<Rightarrow> (u8 \<times> DecodedSlot) list rust" where
  "region_iter_oldest_first r = do {
     a \<leftarrow> active_sector_index r;
     (case a of
        None \<Rightarrow> Some []
      | Some active \<Rightarrow> do {
          (live, n) \<leftarrow> gather_live r active;
          Some (region_iter_list 0 (take n live))
        })
   }"

section \<open>Directory\<close>

fun find_region :: "HistoryRegion list \<Rightarrow> HistoryMsgType \<Rightarrow> u8 \<Rightarrow> nat \<Rightarrow> nat option rust" where
  "find_region [] kind conv_hash i = Some None"
| "find_region (r # rs) kind conv_hash i = do {
     h \<leftarrow> region_header r;
     (case h of
        Some header \<Rightarrow>
          if rh_kind header = kind \<and> rh_conv_hash header = conv_hash then Some (Some i)
          else find_region rs kind conv_hash (Suc i)
      | None \<Rightarrow> find_region rs kind conv_hash (Suc i))
   }"

fun claim_first :: "HistoryRegion list \<Rightarrow> HistoryMsgType \<Rightarrow> u8 \<Rightarrow> nat \<Rightarrow> (HistoryRegion list \<times> nat option) rust" where
  "claim_first [] kind conv_hash i = Some ([], None)"
| "claim_first (r # rs) kind conv_hash i = do {
     c \<leftarrow> is_claimed r;
     if \<not> c then do {
       r' \<leftarrow> claim r kind conv_hash;
       Some (r' # rs, Some i)
     } else do {
       (rs', res) \<leftarrow> claim_first rs kind conv_hash (Suc i);
       Some (r # rs', res)
     }
   }"

definition find_or_claim_region ::
    "HistoryRegion list \<Rightarrow> HistoryMsgType \<Rightarrow> u8 \<Rightarrow> (HistoryRegion list \<times> nat option) rust" where
  "find_or_claim_region regions kind conv_hash = do {
     f \<leftarrow> find_region regions kind conv_hash 0;
     (case f of
        Some i \<Rightarrow> Some (regions, Some i)
      | None \<Rightarrow> claim_first regions kind conv_hash 0)
   }"

section \<open>Lemmas: slots\<close>

lemma slots_per_sector [simp]: "SLOTS_PER_SECTOR = 56"
  by (simp add: SLOTS_PER_SECTOR_def SECTOR_SIZE_def REGION_HEADER_LEN_def HISTORY_ENTRY_BLOB_LEN_def)

lemma slot_offset_eq: "slot_offset i = 8 + i * 72"
  by (simp add: slot_offset_def REGION_HEADER_LEN_def HISTORY_ENTRY_BLOB_LEN_def)

definition slot_flags :: "bool \<Rightarrow> bool \<Rightarrow> u8" where
  "slot_flags o' a = (if o' then 1 else 0) OR (if a then 2 else 0)"

definition slot_bytes :: "DecodedSlot \<Rightarrow> bytes" where
  "slot_bytes t = (case t of (e, o', a) \<Rightarrow> entry_bytes e (slot_flags o' a))"

definition wf_slot :: "DecodedSlot \<Rightarrow> bool" where
  "wf_slot t \<longleftrightarrow> wf_entry (fst t)"

lemma length_slot_bytes [simp]: "wf_slot t \<Longrightarrow> length (slot_bytes t) = 72"
  by (cases t) (simp add: slot_bytes_def wf_slot_def)

lemma encode_slot_spec:
  assumes "wf_slot (e, o', a)"
  shows "encode_slot e o' a = Some (slot_bytes (e, o', a))"
proof -
  have e: "encode_entry_blob e (zeros 72) = Some (entry_bytes e 0)"
    using assms by (intro encode_entry_blob_spec) (simp_all add: wf_slot_def)
  have "(entry_bytes e 0)[71 := fl] = entry_bytes e fl" for fl
    using assms
    by (simp add: entry_bytes_def wf_slot_def wf_entry_def to_le32_def list_update_append eval_nat_numeral)
  then show ?thesis
    using assms
    by (simp add: encode_slot_def HISTORY_ENTRY_BLOB_LEN_def e set_at_def wf_slot_def slot_bytes_def
        slot_flags_def FLAG_IS_OURS_def FLAG_ACKED_def Let_def)
qed

lemma decode_slot_bytes:
  assumes "wf_slot t"
  shows "decode_slot (slot_bytes t) = Some (Some t)"
proof -
  obtain e o' a where t: "t = (e, o', a)"
    by (cases t)
  have "entry_bytes e fl ! 71 = fl" for fl
    using assms by (simp add: t wf_slot_def entry_bytes_def wf_entry_def to_le32_def nth_append)
  then show ?thesis
    using assms
    by (auto simp: t decode_slot_def slot_bytes_def wf_slot_def decode_entry_bytes get_at_def
        HISTORY_ENTRY_BLOB_LEN_def slot_flags_def FLAG_IS_OURS_def FLAG_ACKED_def Let_def)
qed

lemma slot_bytes_not_erased: "wf_slot t \<Longrightarrow> \<not> list_all (\<lambda>b. b = 0xFF) (slot_bytes t)"
  by (cases t) (simp add: slot_bytes_def entry_bytes_def msg_type_u8_le)

section \<open>Lemmas: sectors\<close>

lemma length_concat_uniform: "\<forall>s \<in> set ss. length s = n \<Longrightarrow> length (concat ss) = length ss * n"
  by (induction ss) auto

lemma concat_slice:
  "\<forall>s \<in> set ss. length s = n \<Longrightarrow> i < length ss \<Longrightarrow> take n (drop (i * n) (concat ss)) = ss ! i"
proof (induction ss arbitrary: i)
  case (Cons s ss)
  then show ?case
    by (cases i) simp_all
qed simp

lemma concat_update:
  "\<forall>s \<in> set ss. length s = n \<Longrightarrow> i < length ss \<Longrightarrow> length b = n \<Longrightarrow>
   take (i * n) (concat ss) @ b @ drop (i * n + n) (concat ss) = concat (ss[i := b])"
proof (induction ss arbitrary: i)
  case (Cons s ss)
  then show ?case
    by (cases i) (simp_all add: add.assoc)
qed simp

definition mk_sector :: "bytes \<Rightarrow> bytes list \<Rightarrow> bytes \<Rightarrow> bytes" where
  "mk_sector h ss tail_pad = h @ concat ss @ tail_pad"

definition wf_sector :: "bytes \<Rightarrow> bytes list \<Rightarrow> bool" where
  "wf_sector h ss \<longleftrightarrow> length h = 8 \<and> length ss = 56 \<and> (\<forall>s \<in> set ss. length s = 72)"

lemma wf_sector_lengths: "wf_sector h ss \<Longrightarrow> length h = 8" "wf_sector h ss \<Longrightarrow> length (concat ss) = 4032"
  using length_concat_uniform [of ss 72] by (auto simp: wf_sector_def)

lemma length_mk_sector: "wf_sector h ss \<Longrightarrow> length (mk_sector h ss tail_pad) = 4040 + length tail_pad"
  by (simp add: mk_sector_def wf_sector_lengths)

lemma slot_slice:
  assumes "wf_sector h ss" "i < 56"
  shows "slice (mk_sector h ss tail_pad) (slot_offset i) (slot_offset i + 72) = Some (ss ! i)"
proof -
  have l: "length (concat ss) = 4032"
    using assms(1) by (rule wf_sector_lengths)
  have "i * 72 + 72 \<le> length (concat ss)"
    using assms(2) unfolding l by simp
  then have "take 72 (drop (8 + i * 72) (mk_sector h ss tail_pad)) = take 72 (drop (i * 72) (concat ss))"
    using assms(1) by (simp add: mk_sector_def wf_sector_def)
  also have "\<dots> = ss ! i"
    using assms by (intro concat_slice) (auto simp: wf_sector_def)
  finally show ?thesis
    using assms l by (simp add: slice_def slot_offset_eq mk_sector_def wf_sector_def)
qed

lemma slot_copy:
  assumes "wf_sector h ss" "i < 56" "length b = 72"
  shows "copy_into (mk_sector h ss tail_pad) (slot_offset i) b = Some (mk_sector h (ss[i := b]) tail_pad)"
proof -
  have l: "length (concat ss) = 4032" and h: "length h = 8"
    using wf_sector_lengths [OF assms(1)] by simp_all
  have i: "i * 72 + 72 \<le> length (concat ss)"
    using assms(2) unfolding l by simp
  have u: "take (i * 72) (concat ss) @ b @ drop (i * 72 + 72) (concat ss) = concat (ss[i := b])"
    using assms by (intro concat_update) (auto simp: wf_sector_def)
  have "take (8 + i * 72) (mk_sector h ss tail_pad) = h @ take (i * 72) (concat ss)"
    using i h by (simp add: mk_sector_def)
  moreover have "drop (8 + i * 72 + 72) (mk_sector h ss tail_pad) = drop (i * 72 + 72) (concat ss) @ tail_pad"
    using i h by (simp add: mk_sector_def add.commute)
  moreover have "8 + i * 72 + 72 \<le> length (mk_sector h ss tail_pad)"
    using i h by (simp add: mk_sector_def)
  ultimately show ?thesis
    unfolding copy_into_def slot_offset_eq assms(3) mk_sector_def [of h "ss[i := b]"] u [symmetric]
    by simp
qed

lemma write_head_loop_spec:
  assumes "wf_sector h ss"
  shows "i + k = 56 \<Longrightarrow> i \<le> m \<Longrightarrow> m \<le> 56 \<Longrightarrow>
    (\<And>j. i \<le> j \<Longrightarrow> j < m \<Longrightarrow> \<not> list_all (\<lambda>b. b = 0xFF) (ss ! j)) \<Longrightarrow>
    (m < 56 \<Longrightarrow> list_all (\<lambda>b. b = 0xFF) (ss ! m)) \<Longrightarrow>
    write_head_loop (mk_sector h ss tail_pad) k i = Some m"
proof (induction k arbitrary: i)
  case (Suc k)
  have i: "i < 56"
    using Suc.prems(1) by simp
  have sl: "slice (mk_sector h ss tail_pad) (slot_offset i) (slot_offset i + HISTORY_ENTRY_BLOB_LEN) = Some (ss ! i)"
    using slot_slice [OF assms i] by (simp add: HISTORY_ENTRY_BLOB_LEN_def)
  then have le: "\<not> slot_offset i + HISTORY_ENTRY_BLOB_LEN > length (mk_sector h ss tail_pad)"
    by (auto simp: slice_def split: if_splits)
  show ?case
  proof (cases "i = m")
    case True
    then show ?thesis
      using Suc.prems(5) i sl le by (simp add: Let_def)
  next
    case False
    have "write_head_loop (mk_sector h ss tail_pad) k (Suc i) = Some m"
      using Suc.prems False by (intro Suc.IH) simp_all
    moreover have "\<not> list_all (\<lambda>b. b = 0xFF) (ss ! i)"
      using Suc.prems False by simp
    ultimately show ?thesis
      using sl le by (simp add: Let_def)
  qed
qed simp

section \<open>Lemmas: written sectors\<close>

abbreviation blank_slot :: bytes where
  "blank_slot \<equiv> replicate 72 0xFF"

definition sector_slots :: "DecodedSlot list \<Rightarrow> bytes list" where
  "sector_slots es = map slot_bytes es @ replicate (56 - length es) blank_slot"

text \<open>A sector with header bytes \<open>h\<close> whose first slots hold \<open>es\<close> and whose rest is erased.\<close>

definition sector_of :: "bytes \<Rightarrow> DecodedSlot list \<Rightarrow> bytes" where
  "sector_of h es = mk_sector h (sector_slots es) (replicate 56 0xFF)"

definition log_ok :: "DecodedSlot list \<Rightarrow> bool" where
  "log_ok es \<longleftrightarrow> length es \<le> 56 \<and> list_all wf_slot es"

lemma wf_sector_of: "length h = 8 \<Longrightarrow> log_ok es \<Longrightarrow> wf_sector h (sector_slots es)"
  by (auto simp: wf_sector_def log_ok_def sector_slots_def list_all_iff)

lemma length_sector_of [simp]: "length h = 8 \<Longrightarrow> log_ok es \<Longrightarrow> length (sector_of h es) = 4096"
  by (simp add: sector_of_def length_mk_sector wf_sector_of)

lemma sector_of_erased: "sector_of (replicate 8 0xFF) [] = erased"
proof -
  have "concat (replicate n (replicate m x)) = replicate (n * m) x" for n m and x :: u8
    by (induction n) (simp_all add: replicate_add)
  then show ?thesis
    by (simp add: sector_of_def mk_sector_def sector_slots_def erased_def SECTOR_SIZE_def
        flip: replicate_add)
qed

lemma sector_slots_nth: "i < length es \<Longrightarrow> sector_slots es ! i = slot_bytes (es ! i)"
  by (simp add: sector_slots_def nth_append)

lemma find_write_head_sector_of:
  assumes "length h = 8" "log_ok es"
  shows "find_write_head (sector_of h es) = Some (length es)"
  unfolding find_write_head_def sector_of_def slots_per_sector
proof (rule write_head_loop_spec [OF wf_sector_of [OF assms]])
  fix j assume "j < length es"
  then show "\<not> list_all (\<lambda>b. b = 0xFF) (sector_slots es ! j)"
    using assms(2) slot_bytes_not_erased [of "es ! j"]
    by (simp add: sector_slots_nth log_ok_def list_all_iff)
next
  assume "length es < 56"
  then show "list_all (\<lambda>b. b = 0xFF) (sector_slots es ! length es)"
    by (simp add: sector_slots_def nth_append list_all_iff)
qed (use assms in \<open>simp_all add: log_ok_def\<close>)

lemma sector_slots_snoc:
  assumes "length es < 56"
  shows "(sector_slots es)[length es := slot_bytes t] = sector_slots (es @ [t])"
proof -
  obtain k where "56 - length es = Suc k"
    using assms by (cases "56 - length es") simp_all
  then show ?thesis
    using assms by (simp add: sector_slots_def list_update_append)
qed

lemma write_next_slot:
  assumes "length h = 8" "log_ok es" "length es < 56" "wf_slot t"
  shows "copy_into (sector_of h es) (slot_offset (length es)) (slot_bytes t) = Some (sector_of h (es @ [t]))"
  unfolding sector_of_def
  using slot_copy [OF wf_sector_of [OF assms(1,2)], of "length es" "slot_bytes t"] assms(3,4)
  by (simp add: sector_slots_snoc)

lemma log_ok_snoc: "log_ok es \<Longrightarrow> length es < 56 \<Longrightarrow> wf_slot t \<Longrightarrow> log_ok (es @ [t])"
  by (simp add: log_ok_def)

lemma take_sector_of: "length h = 8 \<Longrightarrow> take 8 (sector_of h es) = h"
  by (simp add: sector_of_def mk_sector_def)

lemma rewrite_header:
  "length h = 8 \<Longrightarrow> length h' = 8 \<Longrightarrow> copy_into (sector_of h es) 0 h' = Some (sector_of h' es)"
  by (simp add: copy_into_def sector_of_def mk_sector_def)

lemma length_header [simp]: "length (encode_region_header hdr) = 8"
  by (simp add: encode_region_header_def)

lemma decode_encode_header [simp]: "decode_region_header (encode_region_header hdr) = Some hdr"
  by (simp add: decode_region_header_def encode_region_header_def REGION_HEADER_LEN_def REGION_MAGIC_def)

lemma decode_blank_header [simp]: "decode_region_header (replicate 8 0xFF) = None"
  by (simp add: decode_region_header_def REGION_HEADER_LEN_def REGION_MAGIC_def)

section \<open>Lemmas: regions\<close>

text \<open>Sector \<open>a\<close> of \<open>r\<close> is \<open>s\<close>; regions have two sectors.\<close>

definition sector_is :: "HistoryRegion \<Rightarrow> nat \<Rightarrow> bytes \<Rightarrow> bool" where
  "sector_is r a s \<longleftrightarrow> length (hr_sectors r) = 2 \<and> a < 2 \<and> hr_sectors r ! a = s"

lemma sector_is_get: "sector_is r a s \<Longrightarrow> get_at (hr_sectors r) a = Some s"
  by (simp add: sector_is_def get_at_def)

lemma header_of_sector:
  assumes "sector_is r a s" "8 \<le> length s"
  shows "header_of r a = Some (decode_region_header (take 8 s))"
  using assms by (simp add: header_of_def sector_is_get slice_def REGION_HEADER_LEN_def)

lemma set_sector:
  assumes "sector_is r a s"
  shows "set_at (hr_sectors r) a s' = Some ((hr_sectors r)[a := s'])"
    "sector_is (r\<lparr>hr_sectors := (hr_sectors r)[a := s']\<rparr>) a s'"
    "b \<noteq> a \<Longrightarrow> sector_is r b s2 \<Longrightarrow> sector_is (r\<lparr>hr_sectors := (hr_sectors r)[a := s']\<rparr>) b s2"
  using assms by (auto simp: sector_is_def set_at_def)

lemma gather_loop_spec:
  "(\<And>j. j < k \<Longrightarrow> decode_slot_at r a (slot + j) = Some (Some (ts ! j))) \<Longrightarrow> length ts = k \<Longrightarrow>
   n + k \<le> length buf \<Longrightarrow>
   gather_loop r a k slot buf n = Some (take n buf @ map Some ts @ drop (n + k) buf, n + k)"
proof (induction k arbitrary: slot buf n ts)
  case (Suc k)
  obtain t ts' where ts: "ts = t # ts'"
    using Suc.prems(2) by (cases ts) auto
  let ?buf = "buf[n := Some t]"
  have "gather_loop r a k (Suc slot) ?buf (n + 1) =
      Some (take (n + 1) ?buf @ map Some ts' @ drop (n + 1 + k) ?buf, n + 1 + k)"
  proof (rule Suc.IH)
    show "decode_slot_at r a (Suc slot + j) = Some (Some (ts' ! j))" if "j < k" for j
      using Suc.prems(1) [of "Suc j"] that by (simp add: ts)
  qed (use Suc.prems ts in simp_all)
  moreover have "decode_slot_at r a slot = Some (Some t)"
    using Suc.prems(1) [of 0] by (simp add: ts)
  moreover have "take (Suc n) ?buf = take n buf @ [Some t]"
    using Suc.prems(3) by (simp add: take_Suc_conv_app_nth)
  ultimately show ?case
    using Suc.prems(3) by (simp add: ts set_at_def)
qed simp

lemma decode_slot_at_sector:
  assumes "sector_is r a (sector_of h es)" "length h = 8" "log_ok es" "i < length es"
  shows "decode_slot_at r a i = Some (Some (es ! i))"
proof -
  have "slice (sector_of h es) (slot_offset i) (slot_offset i + 72) = Some (slot_bytes (es ! i))"
    using slot_slice [OF wf_sector_of [OF assms(2,3)], of i] assms(3,4)
    by (simp add: sector_of_def sector_slots_nth log_ok_def)
  moreover have "wf_slot (es ! i)"
    using assms(3,4) by (simp add: log_ok_def list_all_length)
  ultimately show ?thesis
    using assms(1)
    by (simp add: decode_slot_at_def sector_is_get HISTORY_ENTRY_BLOB_LEN_def decode_slot_bytes)
qed

definition live_buf :: "DecodedSlot list \<Rightarrow> DecodedSlot option list" where
  "live_buf es = map Some (newest 32 es) @ replicate (32 - length (newest 32 es)) None"

lemma gather_live_sector:
  assumes "sector_is r a (sector_of h es)" "length h = 8" "log_ok es"
  shows "gather_live r a = Some (live_buf es, length (newest 32 es))"
proof -
  let ?st = "length es - 32"
  have "gather_loop r a (length es - ?st) ?st (replicate 32 None) 0 =
      Some (take 0 (replicate 32 None) @ map Some (newest 32 es)
        @ drop (0 + (length es - ?st)) (replicate 32 None), 0 + (length es - ?st))"
  proof (rule gather_loop_spec)
    fix j assume "j < length es - ?st"
    then show "decode_slot_at r a (?st + j) = Some (Some (newest 32 es ! j))"
      using decode_slot_at_sector [OF assms, of "?st + j"] by (simp add: newest_def)
  qed (auto simp: min_def)
  moreover have "length es - ?st = length (newest 32 es)"
    by (simp add: newest_def)
  ultimately show ?thesis
    using find_write_head_sector_of [OF assms(2,3)] assms(1)
    by (simp add: gather_live_def write_head_def sector_is_get MAX_HISTORY_ENTRIES_def live_buf_def Let_def)
qed

lemma region_iter_list_Some: "region_iter_list i (map Some ts) = zip (map of_nat [i..<i + length ts]) ts"
proof (induction ts arbitrary: i)
  case (Cons t ts)
  have "[i..<i + length (t # ts)] = i # [Suc i..<Suc i + length ts]"
    by (simp add: upt_rec)
  then show ?case
    using Cons by simp
qed simp

lemma take_live_buf [simp]: "take (min 32 (length es)) (live_buf es) = map Some (newest 32 es)"
  by (simp add: live_buf_def)

text \<open>
  The states a region goes through: \<open>a\<close> is the active sector, \<open>hdr\<close> its header, \<open>es\<close> what its
  slots hold, and the other sector is \<open>sp\<close>.
\<close>

definition region_repr :: "HistoryRegion \<Rightarrow> nat \<Rightarrow> RegionHeader \<Rightarrow> DecodedSlot list \<Rightarrow> bytes \<Rightarrow> bool" where
  "region_repr r a hdr es sp \<longleftrightarrow>
     sector_is r a (sector_of (encode_region_header hdr) es) \<and> sector_is r (1 - a) sp
     \<and> log_ok es \<and> length sp = 4096"

lemma other_sector: "sector_is r a s \<Longrightarrow> 1 - a \<noteq> a" "sector_is r a s \<Longrightarrow> 1 - (1 - a) = a"
  by (auto simp: sector_is_def less_2_cases_iff)

lemma active_when_spare_uncommitted:
  assumes "region_repr r a hdr es sp" "decode_region_header (take 8 sp) = None"
  shows "active_sector_index r = Some (Some a)"
proof -
  have a: "a = 0 \<or> a = 1"
    using assms by (auto simp: region_repr_def sector_is_def)
  have "header_of r a = Some (Some hdr)" "header_of r (1 - a) = Some None"
    using assms
    by (auto simp: region_repr_def header_of_sector [where s = sp] take_sector_of
        header_of_sector [where s = "sector_of (encode_region_header hdr) es"])
  with a show ?thesis
    by (auto simp: active_sector_index_def)
qed

lemma iter_of_active:
  assumes "active_sector_index r = Some (Some a)" "sector_is r a (sector_of h es)" "length h = 8" "log_ok es"
  shows "region_iter_oldest_first r =
    Some (zip (map of_nat [0..<length (newest 32 es)]) (newest 32 es))"
  using assms gather_live_sector [OF assms(2-4)]
  by (simp add: region_iter_oldest_first_def region_iter_list_Some)

lemma iter_repr:
  assumes "region_repr r a hdr es sp" "decode_region_header (take 8 sp) = None"
  shows "region_iter_oldest_first r =
    Some (zip (map of_nat [0..<length (newest 32 es)]) (newest 32 es))"
  using iter_of_active [OF active_when_spare_uncommitted [OF assms]] assms(1)
  by (auto simp: region_repr_def)

lemma generation_succ_newer: "generation_is_newer (g + 1) g" "\<not> generation_is_newer g (g + 1)"
  by (simp_all add: generation_is_newer_def)

text \<open>Both headers committed: the sector of the next generation is authoritative.\<close>

lemma active_when_both_committed:
  assumes "sector_is r a (sector_of (encode_region_header hdr) es)" "log_ok es"
    and "sector_is r (1 - a) (sector_of (encode_region_header hdr') es')" "log_ok es'"
    and "rh_generation hdr' = rh_generation hdr + 1"
  shows "active_sector_index r = Some (Some (1 - a))"
proof -
  have a: "a = 0 \<or> a = 1"
    using assms by (auto simp: sector_is_def)
  have "header_of r a = Some (Some hdr)" "header_of r (1 - a) = Some (Some hdr')"
    using assms(1-4) header_of_sector [OF assms(1)] header_of_sector [OF assms(3)]
    by (simp_all add: take_sector_of)
  with a show ?thesis
    by (auto simp: active_sector_index_def assms(5) generation_succ_newer)
qed

lemma run_stores_append:
  "run_stores r (ws @ vs) = Option.bind (run_stores r ws) (\<lambda>r'. run_stores r' vs)"
  by (induction ws arbitrary: r) (auto split: bind_splits)

text \<open>One store into a sector: the other one keeps its bytes.\<close>

lemma store_bytes_spec:
  assumes "sector_is r a s" "copy_into s off bs = Some s'"
  shows "\<exists>r'. store_bytes r (a, off, bs) = Some r' \<and> sector_is r' a s'
    \<and> (\<forall>b t. b \<noteq> a \<longrightarrow> sector_is r b t \<longrightarrow> sector_is r' b t)"
  using set_sector [OF assms(1), where s' = s'] assms(2) sector_is_get [OF assms(1)]
  by (auto simp: store_bytes_def)

text \<open>The copies a compaction makes of well-formed entries.\<close>

definition slot_stores :: "nat \<Rightarrow> nat \<Rightarrow> DecodedSlot list \<Rightarrow> store list" where
  "slot_stores sp i ts = map (\<lambda>(j, t). (sp, slot_offset j, slot_bytes t)) (zip [i..<i + length ts] ts)"

lemma slot_stores_simps [simp]:
  "slot_stores sp i [] = []"
  "slot_stores sp i (t # ts) = (sp, slot_offset i, slot_bytes t) # slot_stores sp (Suc i) ts"
  by (simp_all add: slot_stores_def upt_conv_Cons del: upt_Suc)

lemma copy_stores_spec:
  "list_all wf_slot ts \<Longrightarrow> copy_stores sp i (map Some ts) = Some (slot_stores sp i ts)"
proof (induction ts arbitrary: i)
  case (Cons t ts)
  obtain e o' a where "t = (e, o', a)"
    by (cases t)
  then show ?case
    using Cons by (simp add: encode_slot_spec)
qed simp

lemma run_slot_stores:
  "sector_is r sp (sector_of h pre) \<Longrightarrow> length h = 8 \<Longrightarrow> log_ok (pre @ ts) \<Longrightarrow>
   \<exists>r'. run_stores r (slot_stores sp (length pre) ts) = Some r'
     \<and> sector_is r' sp (sector_of h (pre @ ts))
     \<and> (\<forall>b s. b \<noteq> sp \<longrightarrow> sector_is r b s \<longrightarrow> sector_is r' b s)"
proof (induction ts arbitrary: r pre)
  case (Cons t ts)
  have ok: "log_ok pre" "length pre < 56" "wf_slot t"
    using Cons.prems(3) by (auto simp: log_ok_def)
  obtain r1 where r1: "store_bytes r (sp, slot_offset (length pre), slot_bytes t) = Some r1"
    "sector_is r1 sp (sector_of h (pre @ [t]))" "\<forall>b s. b \<noteq> sp \<longrightarrow> sector_is r b s \<longrightarrow> sector_is r1 b s"
    using store_bytes_spec [OF Cons.prems(1) write_next_slot [OF Cons.prems(2) ok]] by blast
  have "\<exists>r'. run_stores r1 (slot_stores sp (length (pre @ [t])) ts) = Some r'
     \<and> sector_is r' sp (sector_of h ((pre @ [t]) @ ts))
     \<and> (\<forall>b s. b \<noteq> sp \<longrightarrow> sector_is r1 b s \<longrightarrow> sector_is r' b s)"
    using Cons.prems r1(2) by (intro Cons.IH) simp_all
  then show ?case
    using r1(1,3) by auto
qed auto

lemma log_ok_newest: "log_ok es \<Longrightarrow> log_ok (newest 32 es)"
  by (auto simp: log_ok_def newest_def list_all_iff dest: in_set_dropD)

lemma log_ok_take: "log_ok es \<Longrightarrow> log_ok (take n es)"
  by (auto simp: log_ok_def list_all_iff dest: in_set_takeD)

lemma newest_idem [simp]: "newest n (newest n xs) = newest n xs"
  by (simp add: newest_def)

definition next_gen :: "RegionHeader \<Rightarrow> RegionHeader" where
  "next_gen hdr = hdr\<lparr>rh_generation := rh_generation hdr + 1\<rparr>"

lemma decode_erased_header: "decode_region_header (take 8 erased) = None"
  by (simp add: erased_def SECTOR_SIZE_def flip: decode_blank_header)

text \<open>What a compaction of a region with an erased spare stores, and the states it passes through.\<close>

lemma compact_stores_spec:
  assumes "region_repr r a hdr es erased"
  shows "compact_stores r a = Some (Inr (slot_stores (1 - a) 0 (newest 32 es)
    @ [(1 - a, 0, encode_region_header (next_gen hdr)), (a, 0, erased)]))"
proof -
  have sa: "sector_is r a (sector_of (encode_region_header hdr) es)"
    and ss: "sector_is r (1 - a) (sector_of (replicate 8 0xFF) [])" and ok: "log_ok es"
    using assms by (auto simp: region_repr_def sector_of_erased)
  have h: "header_of r a = Some (Some hdr)" "header_of r (1 - a) = Some None"
    using header_of_sector [OF sa] header_of_sector [OF ss] ok
    by (simp_all add: take_sector_of log_ok_def)
  have gen: "\<lparr>rh_kind = rh_kind hdr, rh_conv_hash = rh_conv_hash hdr,
      rh_generation = rh_generation hdr + 1\<rparr> = next_gen hdr"
    by (cases hdr) (simp add: next_gen_def)
  show ?thesis
    using gather_live_sector [OF sa _ ok] h copy_stores_spec [of "newest 32 es"] log_ok_newest [OF ok]
    by (simp add: compact_stores_def gen log_ok_def Let_def)
qed

lemma compact_phases:
  assumes "region_repr r a hdr es erased"
  obtains rn rh re where
    "run_stores r (slot_stores (1 - a) 0 (newest 32 es)) = Some rn"
    "region_repr rn a hdr es (sector_of (replicate 8 0xFF) (newest 32 es))"
    "store_bytes rn (1 - a, 0, encode_region_header (next_gen hdr)) = Some rh"
    "sector_is rh a (sector_of (encode_region_header hdr) es)"
    "sector_is rh (1 - a) (sector_of (encode_region_header (next_gen hdr)) (newest 32 es))"
    "store_bytes rh (a, 0, erased) = Some re"
    "region_repr re (1 - a) (next_gen hdr) (newest 32 es) erased"
    "compact r a = Some (re, Inr ())"
proof -
  have sa: "sector_is r a (sector_of (encode_region_header hdr) es)"
    and ss: "sector_is r (1 - a) (sector_of (replicate 8 0xFF) [])" and ok: "log_ok es"
    using assms by (auto simp: region_repr_def sector_of_erased)
  note ne = other_sector [OF sa]
  have okn: "log_ok ([] @ newest 32 es)"
    using log_ok_newest [OF ok] by simp
  obtain rn where rn: "run_stores r (slot_stores (1 - a) 0 (newest 32 es)) = Some rn"
    and rn_s: "sector_is rn (1 - a) (sector_of (replicate 8 0xFF) (newest 32 es))"
    and rn_a: "sector_is rn a (sector_of (encode_region_header hdr) es)"
    using run_slot_stores [OF ss _ okn] sa ne by auto
  obtain rh where rh: "store_bytes rn (1 - a, 0, encode_region_header (next_gen hdr)) = Some rh"
    and rh_s: "sector_is rh (1 - a) (sector_of (encode_region_header (next_gen hdr)) (newest 32 es))"
    and rh_a: "sector_is rh a (sector_of (encode_region_header hdr) es)"
    using store_bytes_spec [OF rn_s rewrite_header [OF length_replicate length_header], of "next_gen hdr"]
      rn_a ne(1) [symmetric] by blast
  have "copy_into (sector_of (encode_region_header hdr) es) 0 erased = Some erased"
    using ok by (simp add: copy_into_def erased_def SECTOR_SIZE_def)
  then obtain re where re: "store_bytes rh (a, 0, erased) = Some re" and re_a: "sector_is re a erased"
    and re_s: "sector_is re (1 - a) (sector_of (encode_region_header (next_gen hdr)) (newest 32 es))"
    using store_bytes_spec [OF rh_a, of 0 erased erased] rh_s ne by auto
  have "compact r a = Some (re, Inr ())"
    by (simp add: compact_def compact_stores_spec [OF assms] run_stores_append rn rh re del: One_nat_def)
  then show thesis
    using rn rn_s rn_a rh rh_a rh_s re re_a re_s ok okn ne
    by (intro that [of rn rh re]) (auto simp: region_repr_def erased_def SECTOR_SIZE_def)
qed

lemma region_append_repr:
  assumes "region_repr r a hdr es erased" "wf_slot (e, o', k)"
  shows "\<exists>r' a' hdr' es'. region_append r e o' k = Some (r', Inr ()) \<and> region_repr r' a' hdr' es' erased
    \<and> newest 32 es' = newest 32 (es @ [(e, o', k)])
    \<and> rh_kind hdr' = rh_kind hdr \<and> rh_conv_hash hdr' = rh_conv_hash hdr"
proof -
  let ?t = "(e, o', k)"
  have store: "\<exists>r'. write_slot r0 a0 (length es0) (slot_bytes ?t) = Some r'
      \<and> region_repr r' a0 hdr0 (es0 @ [?t]) erased"
    if "region_repr r0 a0 hdr0 es0 erased" "length es0 < 56" for r0 a0 hdr0 es0
  proof -
    let ?s = "sector_of (encode_region_header hdr0) (es0 @ [?t])"
    have s: "sector_is r0 a0 (sector_of (encode_region_header hdr0) es0)" "log_ok es0"
      "sector_is r0 (1 - a0) erased" "1 - a0 \<noteq> a0"
      using that(1) other_sector by (auto simp: region_repr_def)
    have "write_slot r0 a0 (length es0) (slot_bytes ?t) = Some (r0\<lparr>hr_sectors := (hr_sectors r0)[a0 := ?s]\<rparr>)"
      using s set_sector(1) [OF s(1)] write_next_slot [OF _ s(2) that(2) assms(2), of "encode_region_header hdr0"]
      by (simp add: write_slot_def sector_is_get)
    then show ?thesis
      using set_sector(2,3) [OF s(1)] s log_ok_snoc [OF s(2) that(2) assms(2)] that(1)
      by (auto simp: region_repr_def)
  qed
  have act: "active_sector_index r0 = Some (Some a0)" "write_head r0 a0 = Some (length es0)"
    if "region_repr r0 a0 hdr0 es0 erased" for r0 a0 hdr0 es0
    using that active_when_spare_uncommitted [OF that] find_write_head_sector_of [of "encode_region_header hdr0" es0]
    by (auto simp: region_repr_def write_head_def sector_is_get decode_erased_header)
  show ?thesis
  proof (cases "length es < 56")
    case True
    from store [OF assms(1) True] obtain r' where
      "write_slot r a (length es) (slot_bytes ?t) = Some r'" "region_repr r' a hdr (es @ [?t]) erased"
      by blast
    then show ?thesis
      using act [OF assms(1)] True encode_slot_spec [OF assms(2)]
      by (intro exI [of _ r'] exI [of _ a] exI [of _ hdr] exI [of _ "es @ [?t]"])
         (simp add: region_append_def)
  next
    case False
    then have len: "length es = 56"
      using assms(1) by (simp add: region_repr_def log_ok_def)
    obtain re where re: "compact r a = Some (re, Inr ())"
      and rep: "region_repr re (1 - a) (next_gen hdr) (newest 32 es) erased"
      using compact_phases [OF assms(1)] by metis
    have "length (newest 32 es) < 56"
      by simp
    from store [OF rep this] obtain r' where
      w: "write_slot re (1 - a) (length (newest 32 es)) (slot_bytes ?t) = Some r'"
        "region_repr r' (1 - a) (next_gen hdr) (newest 32 es @ [?t]) erased"
      by blast
    then have "region_append r e o' k = Some (r', Inr ())"
      using act [OF assms(1)] act [OF rep] re len encode_slot_spec [OF assms(2)]
      by (simp add: region_append_def)
    then show ?thesis
      using w(2)
      by (intro exI [of _ r'] exI [of _ "1 - a"] exI [of _ "next_gen hdr"] exI [of _ "newest 32 es @ [?t]"])
         (simp add: newest_newest_snoc next_gen_def)
  qed
qed

section \<open>The region implements the bounded history\<close>

definition region_view :: "HistoryRegion \<Rightarrow> DecodedSlot list" where
  "region_view r = (case region_iter_oldest_first r of Some xs \<Rightarrow> map snd xs | None \<Rightarrow> [])"

definition region_push :: "HistoryRegion \<Rightarrow> DecodedSlot \<Rightarrow> HistoryRegion option" where
  "region_push r t = (case t of (e, o', k) \<Rightarrow>
     (case region_append r e o' k of Some (r', Inr _) \<Rightarrow> Some r' | _ \<Rightarrow> None))"

text \<open>A region freshly claimed by a conversation.\<close>

definition claimed_region :: "HistoryMsgType \<Rightarrow> u8 \<Rightarrow> HistoryRegion" where
  "claimed_region kind conv = \<lparr>hr_sectors =
     [sector_of (encode_region_header \<lparr>rh_kind = kind, rh_conv_hash = conv, rh_generation = 0\<rparr>) [], erased]\<rparr>"

definition region_invar :: "HistoryMsgType \<Rightarrow> u8 \<Rightarrow> HistoryRegion \<Rightarrow> bool" where
  "region_invar kind conv r \<longleftrightarrow>
     (\<exists>a hdr es. region_repr r a hdr es erased \<and> rh_kind hdr = kind \<and> rh_conv_hash hdr = conv)"

lemma claim_new_erased: "claim new_erased kind conv = Some (claimed_region kind conv)"
proof -
  have "copy_into erased 0 (encode_region_header h) = Some (sector_of (encode_region_header h) [])" for h
    using rewrite_header [of "replicate 8 0xFF" "encode_region_header h" "[]"] by (simp add: sector_of_erased)
  then show ?thesis
    by (simp add: claim_def write_header_def new_erased_def claimed_region_def get_at_def set_at_def
        SECTORS_PER_REGION_def numeral_2_eq_2 Let_def)
qed

lemma region_view_repr: "region_repr r a hdr es erased \<Longrightarrow> region_view r = newest 32 es"
  using iter_repr [of r a hdr es erased] by (simp add: region_view_def decode_erased_header)

lemma claimed_region_repr:
  "region_repr (claimed_region k c) 0 \<lparr>rh_kind = k, rh_conv_hash = c, rh_generation = 0\<rparr> [] erased"
  by (simp add: region_repr_def claimed_region_def sector_is_def log_ok_def erased_def SECTOR_SIZE_def)

interpretation region: bounded_log 32 "region_invar k c" wf_slot region_view "claimed_region k c" region_push
  for k c
proof unfold_locales
  show "region_invar k c (claimed_region k c)"
    using claimed_region_repr by (fastforce simp: region_invar_def)
  show "region_view (claimed_region k c) = []"
    using region_view_repr [OF claimed_region_repr] by (simp add: newest_def)
  fix r t assume "region_invar k c r" "wf_slot t"
  then obtain a hdr es e o' q where r: "region_repr r a hdr es erased" "rh_kind hdr = k" "rh_conv_hash hdr = c"
    and t: "t = (e, o', q)" "wf_slot (e, o', q)"
    by (cases t) (auto simp: region_invar_def)
  from region_append_repr [OF r(1) t(2)] obtain r' a' hdr' es' where
    "region_append r e o' q = Some (r', Inr ())" "region_repr r' a' hdr' es' erased"
    "newest 32 es' = newest 32 (es @ [(e, o', q)])" "rh_kind hdr' = k" "rh_conv_hash hdr' = c"
    using r by auto
  then show "\<exists>r'. region_push r t = Some r' \<and> region_invar k c r' \<and> region_view r' = newest 32 (region_view r @ [t])"
    using region_view_repr [OF r(1)]
    by (auto simp: region_push_def t(1) region_invar_def region_view_repr newest_newest_snoc)
qed

section \<open>Lemmas: directory\<close>

definition conv_of :: "HistoryRegion \<Rightarrow> (HistoryMsgType \<times> u8) option" where
  "conv_of r = (case region_header r of Some (Some h) \<Rightarrow> Some (rh_kind h, rh_conv_hash h) | _ \<Rightarrow> None)"

text \<open>A directory entry: erased, or in use by the conversation its header names.\<close>

definition dir_ok :: "HistoryRegion \<Rightarrow> bool" where
  "dir_ok r \<longleftrightarrow> r = new_erased \<or> (\<exists>k c. region_invar k c r)"

lemma header_new_erased: "region_header new_erased = Some None" "is_claimed new_erased = Some False"
proof -
  have "header_of new_erased a = Some None" if "a < 2" for a
    using that decode_erased_header
    by (simp add: header_of_def new_erased_def get_at_def slice_def SECTORS_PER_REGION_def
        erased_def SECTOR_SIZE_def REGION_HEADER_LEN_def)
  then have "active_sector_index new_erased = Some None"
    by (simp add: active_sector_index_def)
  then show "region_header new_erased = Some None" "is_claimed new_erased = Some False"
    by (simp_all add: region_header_def is_claimed_def)
qed

lemma header_claimed:
  assumes "region_invar k c r"
  shows "\<exists>h. region_header r = Some (Some h) \<and> rh_kind h = k \<and> rh_conv_hash h = c"
    and "is_claimed r = Some True"
proof -
  obtain a hdr es where r: "region_repr r a hdr es erased" and h: "rh_kind hdr = k" "rh_conv_hash hdr = c"
    using assms by (auto simp: region_invar_def)
  have act: "active_sector_index r = Some (Some a)"
    using active_when_spare_uncommitted [OF r] by (simp add: decode_erased_header)
  have "header_of r a = Some (Some hdr)"
    using r header_of_sector [of r a] by (auto simp: region_repr_def take_sector_of)
  with act h show "\<exists>h. region_header r = Some (Some h) \<and> rh_kind h = k \<and> rh_conv_hash h = c"
    and "is_claimed r = Some True"
    by (simp_all add: region_header_def is_claimed_def)
qed

lemma conv_of_simps:
  "conv_of new_erased = None" "region_invar k c r \<Longrightarrow> conv_of r = Some (k, c)"
  using header_claimed(1) [of k c r] by (auto simp: conv_of_def header_new_erased)

lemma dir_ok_cases:
  assumes "dir_ok r"
  obtains (blank) "r = new_erased" "region_header r = Some None" "is_claimed r = Some False" "conv_of r = None"
  | (used) k c h where "region_invar k c r" "region_header r = Some (Some h)" "rh_kind h = k"
      "rh_conv_hash h = c" "is_claimed r = Some True" "conv_of r = Some (k, c)"
  using assms header_new_erased conv_of_simps header_claimed unfolding dir_ok_def by metis

lemma find_region_spec:
  "list_all dir_ok rs \<Longrightarrow>
   find_region rs k c i = Some (map_option (\<lambda>j. i + j) (position (\<lambda>r. conv_of r = Some (k, c)) rs))"
proof (induction rs arbitrary: i)
  case (Cons r rs)
  then have "dir_ok r" "list_all dir_ok rs"
    by simp_all
  then show ?case
    using Cons.IH [of "Suc i"]
    by (cases r rule: dir_ok_cases) (auto simp: option.map_comp comp_def)
qed simp

lemma claim_first_spec:
  "list_all dir_ok rs \<Longrightarrow>
   claim_first rs k c i = Some (case position (\<lambda>r. conv_of r = None) rs of
      None \<Rightarrow> (rs, None)
    | Some j \<Rightarrow> (rs[j := claimed_region k c], Some (i + j)))"
proof (induction rs arbitrary: i)
  case (Cons r rs)
  then have "dir_ok r" "list_all dir_ok rs"
    by simp_all
  then show ?case
    using Cons.IH [of "Suc i"]
    by (cases r rule: dir_ok_cases) (auto simp: claim_new_erased split: option.splits)
qed simp

text \<open>No two regions belong to the same conversation.\<close>

definition dir_invar :: "HistoryRegion list \<Rightarrow> bool" where
  "dir_invar rs \<longleftrightarrow> list_all dir_ok rs
     \<and> (\<forall>i < length rs. \<forall>j < length rs. conv_of (rs ! i) \<noteq> None \<longrightarrow> conv_of (rs ! i) = conv_of (rs ! j) \<longrightarrow> i = j)"

lemma claimed_region_dir: "dir_ok (claimed_region k c)" "conv_of (claimed_region k c) = Some (k, c)"
  using region.invar_fresh conv_of_simps(2) unfolding dir_ok_def by blast+

lemma dir_invar_claim:
  assumes "dir_invar rs" "position (\<lambda>r. conv_of r = Some (k, c)) rs = None" "j < length rs"
  shows "dir_invar (rs[j := claimed_region k c])"
proof -
  have "conv_of (rs ! i) \<noteq> Some (k, c)" if "i < length rs" for i
    using assms(2) that by (auto simp: position_None_iff)
  moreover have "list_all dir_ok (rs[j := claimed_region k c])"
    using assms(1) claimed_region_dir set_update_subset_insert [of rs j "claimed_region k c"]
    by (auto simp: dir_invar_def list_all_iff)
  moreover have "i1 = i2"
    if "i1 < length rs" "i2 < length rs" "conv_of (rs[j := claimed_region k c] ! i1) = Some x"
      "conv_of (rs[j := claimed_region k c] ! i2) = Some x" for i1 i2 x
    using assms(1,3) that calculation(1) [of i1] calculation(1) [of i2]
    by (auto simp: dir_invar_def nth_list_update claimed_region_dir split: if_splits)
  ultimately show ?thesis
    by (auto simp: dir_invar_def)
qed

lemma position_claimed:
  assumes "position (\<lambda>r. conv_of r = Some (k, c)) rs = None" "j < length rs"
  shows "position (\<lambda>r. conv_of r = Some (k, c)) (rs[j := claimed_region k c]) = Some j"
  using assms
proof (induction rs arbitrary: j)
  case (Cons r rs)
  then show ?case
    by (cases j) (auto simp: claimed_region_dir split: if_splits)
qed simp

section \<open>Lemmas: interrupted compactions\<close>

text \<open>
  The stores of a list up to an interruption: the first \<open>k\<close> completely, and of the next one its
  first \<open>m\<close> bytes.
\<close>

definition cut_short :: "nat \<Rightarrow> nat \<Rightarrow> store list \<Rightarrow> store list" where
  "cut_short k m ws = take k ws @
     (case drop k ws of [] \<Rightarrow> [] | (sector_idx, off, bs) # _ \<Rightarrow> [(sector_idx, off, take m bs)])"

lemma torn_header_sector:
  assumes "sector_is r b (sector_of h es)" "length h = 8"
  shows "\<exists>r' h'. store_bytes r (b, 0, take m (encode_region_header hdr)) = Some r' \<and> length h' = 8
    \<and> sector_is r' b (sector_of h' es) \<and> h' = take m (encode_region_header hdr) @ drop (min m 8) h
    \<and> (\<forall>c s. c \<noteq> b \<longrightarrow> sector_is r c s \<longrightarrow> sector_is r' c s)"
proof -
  have "copy_into (sector_of h es) 0 (take m (encode_region_header hdr)) =
      Some (sector_of (take m (encode_region_header hdr) @ drop (min m 8) h) es)"
    using assms(2) by (auto simp: copy_into_def sector_of_def mk_sector_def min_def)
  from store_bytes_spec [OF assms(1) this] show ?thesis
    using assms(2) by (auto simp: min_def)
qed

text \<open>Stores behind the header of one sector leave that header and the other sector alone.\<close>

definition payload_store :: "nat \<Rightarrow> store \<Rightarrow> bool" where
  "payload_store sp w = (case w of (s, off, bs) \<Rightarrow> s = sp \<and> 8 \<le> off \<and> off + length bs \<le> 4096)"

lemma run_payload_stores:
  "list_all (payload_store sp) ws \<Longrightarrow>
   sector_is r sp x \<Longrightarrow> length x = 4096 \<Longrightarrow>
   \<exists>r' x'. run_stores r ws = Some r' \<and> sector_is r' sp x' \<and> length x' = 4096 \<and> take 8 x' = take 8 x
     \<and> (\<forall>b s. b \<noteq> sp \<longrightarrow> sector_is r b s \<longrightarrow> sector_is r' b s)"
proof (induction ws arbitrary: r x)
  case (Cons w ws)
  obtain off bs where w: "w = (sp, off, bs)" "8 \<le> off" "off + length bs \<le> 4096"
    using Cons.prems(1) by (cases w) (auto simp: payload_store_def)
  let ?x = "take off x @ bs @ drop (off + length bs) x"
  have "copy_into x off bs = Some ?x"
    using w(3) Cons.prems(3) by (simp add: copy_into_def)
  from store_bytes_spec [OF Cons.prems(2) this] obtain r1 where
    r1: "store_bytes r w = Some r1" "sector_is r1 sp ?x"
      "\<forall>b s. b \<noteq> sp \<longrightarrow> sector_is r b s \<longrightarrow> sector_is r1 b s"
    by (auto simp: w)
  have l: "length ?x = 4096" "take 8 ?x = take 8 x"
    using w Cons.prems(3) by simp_all
  show ?case
    using Cons.IH [OF _ r1(2) l(1)] Cons.prems(1) r1(1,3) l(2) by fastforce
qed auto

lemma newest_32: "length (newest 32 es) \<le> 32"
  by simp

lemma slot_stores_bound:
  "log_ok ts \<Longrightarrow> length ts \<le> 32 \<Longrightarrow> list_all (payload_store sp) (slot_stores sp 0 ts)"
  by (auto simp: slot_stores_def slot_offset_eq log_ok_def list_all_iff payload_store_def set_zip)

lemma cut_short_bound:
  assumes "list_all (payload_store sp) ws"
  shows "list_all (payload_store sp) (cut_short k m ws)"
proof -
  have "list_all (payload_store sp) (take k ws)" "list_all (payload_store sp) (drop k ws)"
    using assms by (auto simp: list_all_iff dest: in_set_takeD in_set_dropD)
  then show ?thesis
    by (auto simp: cut_short_def payload_store_def split: list.splits)
qed

text \<open>Whatever the spare's header is, both sectors present the same live entries.\<close>

lemma iter_any_spare_header:
  assumes "sector_is r a (sector_of (encode_region_header hdr) es)" "log_ok es"
    and "sector_is r (1 - a) (sector_of h' (newest 32 es))" "length h' = 8"
  shows "region_iter_oldest_first r = Some (zip (map of_nat [0..<length (newest 32 es)]) (newest 32 es))"
proof -
  have a: "a = 0 \<or> a = 1"
    using assms(1) by (auto simp: sector_is_def)
  have "header_of r a = Some (Some hdr)" "header_of r (1 - a) = Some (decode_region_header h')"
    using assms header_of_sector [OF assms(1)] header_of_sector [OF assms(3)] log_ok_newest [OF assms(2)]
    by (simp_all add: take_sector_of)
  with a have "active_sector_index r = Some (Some a) \<or> active_sector_index r = Some (Some (1 - a))"
    by (auto simp: active_sector_index_def split: option.splits)
  then show ?thesis
    using iter_of_active [OF _ assms(1) _ assms(2)]
      iter_of_active [OF _ assms(3,4) log_ok_newest [OF assms(2)]] by auto
qed

lemma generation_255:
  assumes "128 \<le> g" "g < 255"
  shows "generation_is_newer 255 g" "\<not> generation_is_newer g 255"
  unfolding generation_is_newer_def
proof -
  have g: "128 \<le> uint g" "uint g < 255"
    using assms by (simp_all add: word_le_def word_less_def)
  have e: "g - 255 = g + 1"
    by simp
  have a: "uint (255 - g) = 255 - uint g"
    using g by (simp add: uint_word_ariths)
  have "sint (255 - g) = uint (255 - g)"
    using a g unfolding sint_uint by (intro signed_take_bit_int_eq_self) simp_all
  then show "sint (255 - g) > 0"
    using a g by simp
  have "uint (g + 1) = uint g + 1"
    using g by (simp add: uint_word_ariths)
  then have b: "uint (g - 255) = uint g + 1"
    by (simp only: e)
  have "uint (g - 255) = sint (g - 255) mod 256" 
    by (simp only: uint_sint take_bit_eq_mod) simp
  then show "\<not> sint (g - 255) > 0"
    using b g sint_less [of "g - 255"] by (auto simp del: diff_numeral_special)
qed

lemma decode_torn_header:
  "decode_region_header (take 4 (encode_region_header hdr) @ drop 4 (replicate 8 0xFF)) =
   Some \<lparr>rh_kind = rh_kind hdr, rh_conv_hash = 0xFF, rh_generation = 0xFF\<rparr>"
  by (simp add: decode_region_header_def encode_region_header_def REGION_HEADER_LEN_def REGION_MAGIC_def)

text \<open>An interruption among the copies, inside the header commit, and inside the final erase.\<close>

lemma cut_short_append:
  "k < length ws \<Longrightarrow> cut_short k m (ws @ vs) = cut_short k m ws"
  "length ws \<le> k \<Longrightarrow> cut_short k m (ws @ vs) = ws @ cut_short (k - length ws) m vs"
  by (auto simp: cut_short_def split: list.splits)

lemma interrupted_copy:
  assumes "region_repr r a hdr es erased"
  shows "\<exists>r'. run_stores r (cut_short k m (slot_stores (1 - a) 0 (newest 32 es))) = Some r'
    \<and> region_iter_oldest_first r' = region_iter_oldest_first r"
proof -
  have s: "sector_is r a (sector_of (encode_region_header hdr) es)" "sector_is r (1 - a) erased"
    "log_ok es" "length erased = 4096"
    using assms by (auto simp: region_repr_def)
  obtain r' x where r': "run_stores r (cut_short k m (slot_stores (1 - a) 0 (newest 32 es))) = Some r'"
    "sector_is r' (1 - a) x" "length x = 4096" "take 8 x = take 8 erased"
    "\<forall>b s. b \<noteq> 1 - a \<longrightarrow> sector_is r b s \<longrightarrow> sector_is r' b s"
    using run_payload_stores [OF cut_short_bound [OF slot_stores_bound [OF log_ok_newest [OF s(3)] newest_32]] s(2,4)]
    by blast
  have "region_repr r' a hdr es x"
    using r' s other_sector(1) [OF s(1)] by (auto simp: region_repr_def)
  then show ?thesis
    using r'(1) iter_repr [of r' a hdr es x] iter_repr [OF assms] r'(4) by (simp add: decode_erased_header)
qed

lemma interrupted_header:
  assumes "region_repr r a hdr es (sector_of (replicate 8 0xFF) (newest 32 es))"
  shows "\<exists>r'. store_bytes r (1 - a, 0, take m (encode_region_header (next_gen hdr))) = Some r'
    \<and> region_iter_oldest_first r' = Some (zip (map of_nat [0..<length (newest 32 es)]) (newest 32 es))"
proof -
  have s: "sector_is r (1 - a) (sector_of (replicate 8 0xFF) (newest 32 es))"
    "sector_is r a (sector_of (encode_region_header hdr) es)" "log_ok es"
    using assms by (auto simp: region_repr_def)
  obtain r' h' where r': "store_bytes r (1 - a, 0, take m (encode_region_header (next_gen hdr))) = Some r'"
    "length h' = 8" "sector_is r' (1 - a) (sector_of h' (newest 32 es))"
    "\<forall>c s. c \<noteq> 1 - a \<longrightarrow> sector_is r c s \<longrightarrow> sector_is r' c s"
    using torn_header_sector [OF s(1) length_replicate, of m "next_gen hdr"] by blast
  then have "sector_is r' a (sector_of (encode_region_header hdr) es)"
    using s(2) other_sector(1) [OF s(2)] by auto
  then show ?thesis
    using iter_any_spare_header [OF _ s(3) r'(3,2)] r'(1) by blast
qed

lemma interrupted_erase:
  assumes "sector_is r a (sector_of (encode_region_header hdr) es)" "log_ok es"
    and "sector_is r (1 - a) (sector_of (encode_region_header (next_gen hdr)) (newest 32 es))"
  shows "\<exists>r'. store_bytes r (a, 0, take m erased) = Some r'
    \<and> region_iter_oldest_first r' = Some (zip (map of_nat [0..<length (newest 32 es)]) (newest 32 es))"
proof -
  note ne = other_sector [OF assms(1)]
  let ?x = "take m erased @ drop (min m 4096) (sector_of (encode_region_header hdr) es)"
  have len: "length (sector_of (encode_region_header hdr) es) = 4096" "length erased = 4096"
    using assms(2) by (simp_all add: erased_def SECTOR_SIZE_def)
  have "copy_into (sector_of (encode_region_header hdr) es) 0 (take m erased) = Some ?x"
    using len by (simp add: copy_into_def min.commute)
  then obtain r' where r': "store_bytes r (a, 0, take m erased) = Some r'" "sector_is r' a ?x"
    "sector_is r' (1 - a) (sector_of (encode_region_header (next_gen hdr)) (newest 32 es))"
    using store_bytes_spec [OF assms(1), of 0 "take m erased" ?x] assms(3) ne by auto
  have "active_sector_index r' = Some (Some (1 - a))"
  proof (cases "m = 0")
    case True
    then show ?thesis
      using active_when_both_committed [OF _ assms(2) r'(3) log_ok_newest [OF assms(2)], of hdr] r'(2)
      by (simp add: next_gen_def)
  next
    case False
    then have "take 8 ?x ! 0 = 0xFF"
      using len by (simp add: nth_append erased_def)
    then have "decode_region_header (take 8 ?x) = None"
      unfolding decode_region_header_def REGION_MAGIC_def by simp
    moreover have "region_repr r' (1 - a) (next_gen hdr) (newest 32 es) ?x"
      using r' ne log_ok_newest [OF assms(2)] len by (simp add: region_repr_def)
    ultimately show ?thesis
      using active_when_spare_uncommitted by blast
  qed
  then show ?thesis
    using iter_of_active [OF _ r'(3) _ log_ok_newest [OF assms(2)]] r'(1) by simp
qed

section \<open>Properties\<close>

text \<open>C21: a conversation's region behaves as the log of its last 32 messages: after claiming an
  erased region and appending any sequence of entries (compacting whenever a sector fills up),
  no append fails or panics, and the iteration presents exactly the newest 32 entries, oldest
  first, with their direction and delivery flags.\<close>

theorem region_presents_newest:
  assumes "list_all wf_slot es"
  shows "\<exists>r0 r. claim new_erased k c = Some r0 \<and> region.append_all r0 es = Some r
    \<and> region_iter_oldest_first r =
        Some (zip (map of_nat [0..<min 32 (length es)]) (newest 32 es))
    \<and> live_count r = Some (min 32 (length es)) \<and> conv_of r = Some (k, c)"
proof -
  obtain r where r: "region.append_all (claimed_region k c) es = Some r" "region_invar k c r"
    "region_view r = newest 32 es"
    using region.append_all_fresh [OF assms, of k c] by blast
  then obtain a hdr es' where rep: "region_repr r a hdr es' erased"
    by (auto simp: region_invar_def)
  have v: "newest 32 es' = newest 32 es"
    using region_view_repr [OF rep] r(3) by simp
  then have l: "min 32 (length es') = min 32 (length es)"
    by (metis length_newest)
  have act: "active_sector_index r = Some (Some a)"
    using active_when_spare_uncommitted [OF rep] by (simp add: decode_erased_header)
  have "gather_live r a = Some (live_buf es', min 32 (length es'))"
    using gather_live_sector [of r a "encode_region_header hdr" es'] rep by (simp add: region_repr_def)
  then have "live_count r = Some (min 32 (length es))"
    using act l by (simp add: live_count_def)
  moreover have "region_iter_oldest_first r = Some (zip (map of_nat [0..<min 32 (length es)]) (newest 32 es))"
    using iter_repr [OF rep] v l by (simp add: decode_erased_header)
  ultimately show ?thesis
    using r conv_of_simps(2) [OF r(2)] by (simp add: claim_new_erased)
qed

theorem region_presents_newest_witness:
  "\<exists>r0 r. claim new_erased HM_Dm 7 = Some r0
    \<and> region.append_all r0 (replicate 100 (empty_entry, True, False)) = Some r
    \<and> live_count r = Some 32 \<and> conv_of r = Some (HM_Dm, 7)"
  using region_presents_newest [of "replicate 100 (empty_entry, True, False)" HM_Dm 7]
  by (fastforce simp: list_all_iff wf_slot_def wf_entry_def empty_entry_def MAX_HISTORY_TEXT_LEN_def)

text \<open>C22: compaction never loses or reorders a message, wherever its stores are interrupted.  For a
  region whose spare sector is erased, as claiming and every append leave it, take the stores the
  compaction makes, in the code's order and each from its lowest address: after any number \<open>k\<close> of
  them, and any number \<open>m\<close> of bytes of the next one, the region presents the same live entries as
  before, and making all of them is the compaction, which succeeds.  Only the entries are claimed:
  a header commit torn after four bytes can name another owner
  (\<open>torn_header_changes_owner\<close>).\<close>

theorem compaction_interrupted_safe:
  assumes "region_repr r a hdr es erased"
  shows "\<exists>ws. compact_stores r a = Some (Inr ws)
     \<and> (\<forall>k m. \<exists>r'. run_stores r (cut_short k m ws) = Some r'
          \<and> region_iter_oldest_first r' = region_iter_oldest_first r)
     \<and> (\<exists>re. compact r a = Some (re, Inr ()) \<and> run_stores r ws = Some re
          \<and> region_iter_oldest_first re = region_iter_oldest_first r)"
proof -
  let ?S = "slot_stores (1 - a) 0 (newest 32 es)"
  let ?T = "[(1 - a, 0, encode_region_header (next_gen hdr)), (a, 0, erased)]"
  obtain rn rh re where ph: "run_stores r ?S = Some rn"
    "region_repr rn a hdr es (sector_of (replicate 8 0xFF) (newest 32 es))"
    "store_bytes rn (1 - a, 0, encode_region_header (next_gen hdr)) = Some rh"
    "sector_is rh a (sector_of (encode_region_header hdr) es)"
    "sector_is rh (1 - a) (sector_of (encode_region_header (next_gen hdr)) (newest 32 es))"
    "store_bytes rh (a, 0, erased) = Some re"
    "region_repr re (1 - a) (next_gen hdr) (newest 32 es) erased"
    "compact r a = Some (re, Inr ())"
    using compact_phases [OF assms] by metis
  have it: "region_iter_oldest_first r = Some (zip (map of_nat [0..<length (newest 32 es)]) (newest 32 es))"
    using iter_repr [OF assms] by (simp add: decode_erased_header)
  have ree: "region_iter_oldest_first re = region_iter_oldest_first r"
    using iter_repr [OF ph(7)] it by (simp add: decode_erased_header)
  have run: "run_stores r (?S @ ?T) = Some re"
    by (simp add: run_stores_append ph del: One_nat_def)
  have "\<exists>r'. run_stores r (cut_short k m (?S @ ?T)) = Some r'
      \<and> region_iter_oldest_first r' = region_iter_oldest_first r" for k m
  proof (cases "k < length ?S")
    case True
    then show ?thesis
      using interrupted_copy [OF assms] by (simp add: cut_short_append)
  next
    case False
    then have cut: "cut_short k m (?S @ ?T) = ?S @ cut_short (k - length ?S) m ?T"
      by (simp add: cut_short_append)
    consider "k - length ?S = 0" | "k - length ?S = 1" | n where "k - length ?S = Suc (Suc n)"
      by (metis One_nat_def not0_implies_Suc)
    then show ?thesis
      using interrupted_header [OF ph(2), of m] interrupted_erase [OF ph(4) _ ph(5), of m] ph(2) it run ree
      unfolding cut
      by cases (auto simp: cut_short_def run_stores_append ph region_repr_def take_Cons' drop_Cons' simp del: One_nat_def)
  qed
  then show ?thesis
    using compact_stores_spec [OF assms] ph(8) run ree by auto
qed

theorem compaction_interrupted_safe_witness:
  "\<exists>ws. compact_stores (claimed_region HM_GrpTxt 9) 0 = Some (Inr ws)
     \<and> (\<forall>k m. \<exists>r'. run_stores (claimed_region HM_GrpTxt 9) (cut_short k m ws) = Some r'
          \<and> region_iter_oldest_first r' = region_iter_oldest_first (claimed_region HM_GrpTxt 9))"
  using compaction_interrupted_safe [OF claimed_region_repr [of HM_GrpTxt 9]] by blast

text \<open>the directory gives each conversation one region of its own.  With no conversation
  owning two regions, \<open>find_or_claim_region\<close> keeps it so and leaves every other region
  unchanged; the region it returns belongs to the conversation, and asking again returns the same
  one and claims nothing.  It fails only when every region belongs to another conversation.\<close>

theorem directory_one_region_each:
  assumes "dir_invar rs"
  shows "\<exists>rs' res. find_or_claim_region rs k c = Some (rs', res) \<and> dir_invar rs' \<and> length rs' = length rs
    \<and> (case res of
         Some i \<Rightarrow> i < length rs \<and> conv_of (rs' ! i) = Some (k, c)
           \<and> (\<forall>j < length rs. j \<noteq> i \<longrightarrow> rs' ! j = rs ! j)
           \<and> find_or_claim_region rs' k c = Some (rs', Some i)
       | None \<Rightarrow> rs' = rs \<and> (\<forall>r \<in> set rs. conv_of r \<noteq> None \<and> conv_of r \<noteq> Some (k, c)))"
proof -
  have dir: "list_all dir_ok xs" if "dir_invar xs" for xs
    using that by (simp add: dir_invar_def)
  show ?thesis
  proof (cases "position (\<lambda>r. conv_of r = Some (k, c)) rs")
    case (Some i)
    then have "find_or_claim_region rs k c = Some (rs, Some i)"
      by (simp add: find_or_claim_region_def find_region_spec [OF dir [OF assms]])
    then show ?thesis
      using assms position_SomeD [OF Some] by auto
  next
    case None
    note claim = find_or_claim_region_def find_region_spec [OF dir [OF assms]]
      claim_first_spec [OF dir [OF assms]]
    show ?thesis
    proof (cases "position (\<lambda>r. conv_of r = None) rs")
      case n: None
      then have "find_or_claim_region rs k c = Some (rs, None)"
        by (simp add: claim None)
      then show ?thesis
        using assms None n by (auto simp: position_None_iff)
    next
      case (Some j)
      let ?rs = "rs[j := claimed_region k c]"
      have j: "j < length rs"
        using position_SomeD [OF Some] by auto
      note inv = dir_invar_claim [OF assms None j]
      have "find_or_claim_region ?rs k c = Some (?rs, Some j)"
        by (simp add: find_or_claim_region_def find_region_spec [OF dir [OF inv]] position_claimed [OF None j])
      moreover have "find_or_claim_region rs k c = Some (?rs, Some j)"
        by (simp add: claim None Some)
      ultimately show ?thesis
        using inv j by (simp add: claimed_region_dir)
    qed
  qed
qed

theorem directory_one_region_each_witness:
  "\<exists>rs' res. find_or_claim_region [new_erased, new_erased] HM_Dm 5 = Some (rs', res) \<and> dir_invar rs'"
proof -
  have "dir_invar [new_erased, new_erased]"
    by (simp add: dir_invar_def dir_ok_def conv_of_simps less_Suc_eq)
  then show ?thesis
    using directory_one_region_each [of "[new_erased, new_erased]" HM_Dm 5] by blast
qed

text \<open>a header commit torn after its first four bytes (magic, version and kind stored, the rest
  still erased) decodes, with conversation hash and generation \<open>0xFF\<close>.  When the old sector's
  generation is between 128 and 254 the torn sector wins, and the region no longer belongs to
  its conversation.\<close>

theorem torn_header_changes_owner:
  assumes "region_repr r a hdr es erased" "128 \<le> rh_generation hdr" "rh_generation hdr < 255"
  shows "\<exists>ws r'. compact_stores r a = Some (Inr ws) \<and> conv_of r = Some (rh_kind hdr, rh_conv_hash hdr)
    \<and> run_stores r (cut_short (length ws - 2) 4 ws) = Some r' \<and> conv_of r' = Some (rh_kind hdr, 0xFF)"
proof -
  let ?S = "slot_stores (1 - a) 0 (newest 32 es)"
  let ?W = "?S @ [(1 - a, 0, encode_region_header (next_gen hdr)), (a, 0, erased)]"
  obtain rn where rn: "run_stores r ?S = Some rn"
    and rep: "region_repr rn a hdr es (sector_of (replicate 8 0xFF) (newest 32 es))"
    using compact_phases [OF assms(1)] by metis
  have s: "sector_is rn (1 - a) (sector_of (replicate 8 0xFF) (newest 32 es))"
    "sector_is rn a (sector_of (encode_region_header hdr) es)" "log_ok es"
    using rep by (auto simp: region_repr_def)
  have ne: "a \<noteq> 1 - a"
    using other_sector(1) [OF s(2)] by auto
  let ?h = "take 4 (encode_region_header (next_gen hdr)) @ drop 4 (replicate 8 0xFF)"
  let ?t = "\<lparr>rh_kind = rh_kind hdr, rh_conv_hash = 0xFF, rh_generation = 0xFF\<rparr>"
  obtain r' where r': "store_bytes rn (1 - a, 0, take 4 (encode_region_header (next_gen hdr))) = Some r'"
    "sector_is r' (1 - a) (sector_of ?h (newest 32 es))" "sector_is r' a (sector_of (encode_region_header hdr) es)"
    using torn_header_sector [OF s(1), of 4 "next_gen hdr"] s(2) ne by auto
  have h: "header_of r' (1 - a) = Some (Some ?t)" "header_of r' a = Some (Some hdr)"
    using s(3) log_ok_newest [OF s(3)] r'(2,3)
    by (simp_all add: header_of_sector take_sector_of decode_torn_header next_gen_def del: drop_replicate)
  have "generation_is_newer 255 (rh_generation hdr)" "\<not> generation_is_newer (rh_generation hdr) 255"
    using generation_255 [OF assms(2,3)] by simp_all
  moreover have "a = 0 \<or> a = 1"
    using s(2) by (auto simp: sector_is_def)
  ultimately have "active_sector_index r' = Some (Some (1 - a))"
    using h by (auto simp: active_sector_index_def)
  then have "conv_of r' = Some (rh_kind hdr, 0xFF)"
    using h by (simp add: conv_of_def region_header_def)
  moreover have "run_stores r (cut_short (length ?W - 2) 4 ?W) = Some r'"
    by (simp add: cut_short_def run_stores_append rn r' del: One_nat_def)
  moreover have "conv_of r = Some (rh_kind hdr, rh_conv_hash hdr)"
    using conv_of_simps(2) assms(1) unfolding region_invar_def by blast
  ultimately show ?thesis
    using compact_stores_spec [OF assms(1)] by blast
qed

theorem torn_header_changes_owner_witness:
  "\<exists>r ws r'. compact_stores r 0 = Some (Inr ws) \<and> conv_of r = Some (HM_Dm, 7)
    \<and> run_stores r (cut_short (length ws - 2) 4 ws) = Some r' \<and> conv_of r' = Some (HM_Dm, 0xFF)"
proof -
  let ?hdr = "\<lparr>rh_kind = HM_Dm, rh_conv_hash = 7, rh_generation = 200\<rparr>"
  let ?r = "\<lparr>hr_sectors = [sector_of (encode_region_header ?hdr) [], erased]\<rparr>"
  have "region_repr ?r 0 ?hdr [] erased"
    by (simp add: region_repr_def sector_is_def log_ok_def erased_def SECTOR_SIZE_def)
  from torn_header_changes_owner [OF this] show ?thesis
    by auto
qed

end
