(* ===== verification/Region.thy ===== *)
theory Region
  imports Crypto Wire
begin

text \<open>
  \<open>protocol/src/region.rs\<close> (region names, transport codes, the scoped and unscoped
  flood-frame writers) and \<open>protocol/src/dedup.rs\<close> (the duplicate-detection key).
  The writers are proved inverse to the receive parser, the transport code is
  shown never to take a reserved value, and the duplicate key is shown to
  depend on nothing a relay may change.
\<close>

section \<open>Region names\<close>

definition REGION_NAME_MAX :: nat where
  "REGION_NAME_MAX = 31"

datatype RegionNameError =
    RN_Empty
  | RN_TooLong nat
  | RN_PrivateUnsupported
  | RN_InvalidByte nat u8

text \<open>The accepted bytes: \<open>-\<close>, \<open>$\<close>, \<open>#\<close>, an ASCII digit, or at least \<open>A\<close>.\<close>

definition is_region_name_byte :: "u8 \<Rightarrow> bool" where
  "is_region_name_byte byte \<longleftrightarrow>
     byte = 0x2D \<or> byte = 0x24 \<or> byte = 0x23 \<or> (0x30 \<le> byte \<and> byte \<le> 0x39) \<or> byte \<ge> 0x41"

fun name_scan :: "nat \<Rightarrow> bytes \<Rightarrow> RegionNameError + unit" where
  "name_scan index [] = Inr ()"
| "name_scan index (byte # rest) =
     (if \<not> is_region_name_byte byte then Inl (RN_InvalidByte index byte)
      else name_scan (Suc index) rest)"

definition validate_region_name :: "bytes \<Rightarrow> RegionNameError + unit" where
  "validate_region_name name =
     (if name = [] then Inl RN_Empty
      else if length name > REGION_NAME_MAX then Inl (RN_TooLong (length name))
      else if name ! 0 = 0x24 then Inl RN_PrivateUnsupported
      else name_scan 0 name)"

definition canonical_region_name :: "bytes \<Rightarrow> bytes \<Rightarrow> (bytes \<times> (RegionNameError + nat)) rust" where
  "canonical_region_name name out =
     (case validate_region_name name of
        Inl e \<Rightarrow> Some (out, Inl e)
      | Inr _ \<Rightarrow>
          if name ! 0 = 0x23 then do {
            out \<leftarrow> copy_into out 0 name;
            Some (out, Inr (length name))
          } else do {
            out \<leftarrow> set_at out 0 0x23;
            out \<leftarrow> copy_into out 1 name;
            Some (out, Inr (1 + length name))
          })"

definition region_key :: "crypto_prims \<Rightarrow> bytes \<Rightarrow> (RegionNameError + bytes) rust" where
  "region_key C name = do {
     (canonical, r) \<leftarrow> canonical_region_name name (zeros (REGION_NAME_MAX + 1));
     (case r of
        Inl e \<Rightarrow> Some (Inl e)
      | Inr len \<Rightarrow> do {
          c \<leftarrow> slice canonical 0 len;
          key \<leftarrow> slice (sha256 C c) 0 16;
          Some (Inr key)
        })
   }"

section \<open>Transport codes\<close>

definition remap_transport_code :: "u16 \<Rightarrow> u16" where
  "remap_transport_code raw =
     (if raw = 0x0000 then 0x0001 else if raw = 0xFFFF then 0xFFFE else raw)"

definition transport_code :: "crypto_prims \<Rightarrow> bytes \<Rightarrow> u8 \<Rightarrow> bytes \<Rightarrow> u16" where
  "transport_code C key payload_type_byte payload =
     (let mac = hmac_sha256_2_parts C key [payload_type_byte] payload
      in remap_transport_code (from_le16 (mac ! 0) (mac ! 1)))"

definition scoped_transport_codes :: "crypto_prims \<Rightarrow> bytes \<Rightarrow> u8 \<Rightarrow> bytes \<Rightarrow> bytes" where
  "scoped_transport_codes C key payload_type_byte payload =
     (let code0 = transport_code C key payload_type_byte payload; code1 = (0 :: u16)
      in to_le16 code0 @ to_le16 code1)"

section \<open>Frame writers\<close>

definition write_scoped_flood_frame ::
    "crypto_prims \<Rightarrow> bytes \<Rightarrow> PayloadType \<Rightarrow> bytes \<Rightarrow> PathLen \<Rightarrow> bytes \<Rightarrow> bytes \<Rightarrow> (bytes \<times> nat) rust" where
  "write_scoped_flood_frame C out ptype key path_len path payload = do {
     let path_bytes = unat (hop_count path_len) * unat (hash_size path_len);
     let header = Header_new RT_TransportFlood ptype;
     let codes = scoped_transport_codes C key (ptype_u8 ptype) payload;
     let at = 0;
     out \<leftarrow> set_at out at header;
     let at = at + 1;
     out \<leftarrow> copy_into out at codes;
     let at = at + 4;
     out \<leftarrow> set_at out at path_len;
     let at = at + 1;
     p \<leftarrow> slice path 0 path_bytes;
     out \<leftarrow> copy_into out at p;
     let at = at + path_bytes;
     out \<leftarrow> copy_into out at payload;
     Some (out, at + length payload)
   }"

definition write_unscoped_flood_frame ::
    "bytes \<Rightarrow> PayloadType \<Rightarrow> PathLen \<Rightarrow> bytes \<Rightarrow> bytes \<Rightarrow> (bytes \<times> nat) rust" where
  "write_unscoped_flood_frame out ptype path_len path payload = do {
     let path_bytes = unat (hop_count path_len) * unat (hash_size path_len);
     let header = Header_new RT_Flood ptype;
     out \<leftarrow> set_at out 0 header;
     out \<leftarrow> set_at out 1 path_len;
     p \<leftarrow> slice path 0 path_bytes;
     out \<leftarrow> copy_into out 2 p;
     let payload_off = 2 + path_bytes;
     out \<leftarrow> copy_into out payload_off payload;
     Some (out, 2 + path_bytes + length payload)
   }"

section \<open>Duplicate-detection key\<close>

definition packet_payload_view :: "bytes \<Rightarrow> (u8 \<times> bytes) option rust" where
  "packet_payload_view frame =
     (case parse_rx_frame_header frame of
        Inl _ \<Rightarrow> Some None
      | Inr header \<Rightarrow> do {
          payload \<leftarrow> slice_from frame (rx_payload_off header);
          Some (Some (drop_bit 2 (rx_header_byte header) AND 0x0F, payload))
        })"

definition packet_dedup_key :: "crypto_prims \<Rightarrow> bytes \<Rightarrow> bytes rust" where
  "packet_dedup_key C frame = do {
     view \<leftarrow> packet_payload_view frame;
     let h = (case view of
                Some (ptype, payload) \<Rightarrow> sha256_2 C [ptype] payload
              | None \<Rightarrow> sha256_2 C frame []);
     Some [h ! 0, h ! 1, h ! 2, h ! 3]
   }"

section \<open>Lemmas: names and codes\<close>

lemma name_scan_OK_iff: "name_scan i xs = Inr u \<longleftrightarrow> list_all is_region_name_byte xs"
  by (induction i xs rule: name_scan.induct) auto

lemma name_scan_err_iff:
  "name_scan i xs = Inl e \<longleftrightarrow>
     (\<exists>k < length xs. e = RN_InvalidByte (i + k) (xs ! k) \<and> \<not> is_region_name_byte (xs ! k)
        \<and> list_all is_region_name_byte (take k xs))"
proof (induction i xs rule: name_scan.induct)
  case (2 i b rest)
  show ?case
    using 2 by (cases "is_region_name_byte b") (auto simp: less_Suc_eq_0_disj ex_simps)
qed simp

definition valid_region_name :: "bytes \<Rightarrow> bool" where
  "valid_region_name name \<longleftrightarrow> name \<noteq> [] \<and> length name \<le> 31 \<and> hd name \<noteq> 0x24
     \<and> list_all is_region_name_byte name"

lemma validate_region_name_OK_iff: "validate_region_name name = Inr u \<longleftrightarrow> valid_region_name name"
  by (auto simp: validate_region_name_def valid_region_name_def REGION_NAME_MAX_def name_scan_OK_iff
      hd_conv_nth)

definition canonical_name :: "bytes \<Rightarrow> bytes" where
  "canonical_name name = (if hd name = 0x23 then name else 0x23 # name)"

lemma canonical_region_name_spec:
  assumes "valid_region_name name" "length out = 32"
  shows "canonical_region_name name out =
    Some (canonical_name name @ drop (length (canonical_name name)) out, Inr (length (canonical_name name)))"
proof -
  have v: "validate_region_name name = Inr ()"
    using assms(1) by (simp add: validate_region_name_OK_iff)
  have n: "name ! 0 = hd name" "length name \<le> 31"
    using assms(1) by (simp_all add: valid_region_name_def hd_conv_nth)
  obtain a rest where "out = a # rest"
    using assms(2) by (cases out) auto
  then show ?thesis
    using v n assms(2)
    by (auto simp: canonical_region_name_def canonical_name_def rust_simps)
qed

lemma region_key_spec:
  assumes "crypto_ok C" "valid_region_name name"
  shows "region_key C name = Some (Inr (take 16 (sha256 C (canonical_name name))))"
  using assms
  by (simp add: region_key_def canonical_region_name_spec REGION_NAME_MAX_def slice_def sha256_def
      del: replicate.simps)

lemma region_key_invalid:
  assumes "validate_region_name name = Inl e"
  shows "region_key C name = Some (Inl e)"
  using assms by (simp add: region_key_def canonical_region_name_def)

lemma remap_not_reserved: "remap_transport_code r \<noteq> 0" "remap_transport_code r \<noteq> 0xFFFF"
  by (simp_all add: remap_transport_code_def)

lemma length_scoped_codes [simp]: "length (scoped_transport_codes C k t p) = 4"
  by (simp add: scoped_transport_codes_def Let_def)

section \<open>Lemmas: writers\<close>

lemma write_scoped_spec:
  assumes "length path = unat (hop_count pl) * unat (hash_size pl)"
    and "6 + length path + length payload \<le> length out"
  shows "write_scoped_flood_frame C out pt key pl path payload =
    Some (mk_frame (Header_new RT_TransportFlood pt) (scoped_transport_codes C key (ptype_u8 pt) payload)
        pl path payload @ drop (6 + length path + length payload) out,
      6 + length path + length payload)"
proof -
  obtain a rest where out: "out = a # rest"
    using assms(2) by (cases out) auto
  have "5 \<le> length rest"
    using assms(2) by (simp add: out)
  then obtain b c d e f rest' where rest: "rest = b # c # d # e # f # rest'"
    by (rule list_5_cases)
  obtain w x y z where codes: "scoped_transport_codes C key (ptype_u8 pt) payload = [w, x, y, z]"
    by (simp add: scoped_transport_codes_def Let_def to_le16_def)
  show ?thesis
    using assms
    by (simp add: write_scoped_flood_frame_def Let_def out rest codes rust_simps mk_frame_def
        eval_nat_numeral add.commute [of "length payload" "length path"] flip: assms(1))
qed

lemma write_unscoped_spec:
  assumes "length path = unat (hop_count pl) * unat (hash_size pl)"
    and "2 + length path + length payload \<le> length out"
  shows "write_unscoped_flood_frame out pt pl path payload =
    Some (mk_frame (Header_new RT_Flood pt) [] pl path payload @ drop (2 + length path + length payload) out,
      2 + length path + length payload)"
proof -
  obtain a b rest where out: "out = a # b # rest"
    using assms(2) by (cases out; cases "tl out") auto
  show ?thesis
    using assms(2)
    by (simp add: write_unscoped_flood_frame_def Let_def out rust_simps mk_frame_def
        eval_nat_numeral add.commute [of "length payload" "length path"] flip: assms(1))
qed

section \<open>Lemmas: duplicate key\<close>

lemma payload_view_mk_frame:
  assumes "wf_frame h codes pl path"
  shows "packet_payload_view (mk_frame h codes pl path payload) =
    Some (Some (drop_bit 2 h AND 15, payload))"
proof -
  let ?f = "mk_frame h codes pl path payload"
  have "slice_from ?f (2 + length codes + length path) = Some payload"
    by (simp add: slice_from_def mk_frame_def)
  then show ?thesis
    unfolding packet_payload_view_def parse_mk_frame [OF assms] by simp
qed

lemma payload_view_total: "\<exists>v. packet_payload_view f = Some v"
proof (cases "parse_rx_frame_header f")
  case (Inr hdr)
  then obtain codes path payload where
    f: "f = mk_frame (rx_header_byte hdr) codes (rx_path_len_byte hdr) path payload"
    and wf: "wf_frame (rx_header_byte hdr) codes (rx_path_len_byte hdr) path"
    by (rule parse_accepts_only_layout)
  show ?thesis
    by (subst f) (simp add: payload_view_mk_frame [OF wf])
qed (simp add: packet_payload_view_def)

lemma dedup_key_mk_frame:
  assumes "wf_frame h codes pl path"
  shows "packet_dedup_key C (mk_frame h codes pl path payload) =
    Some (map ((!) (sha256_2 C [drop_bit 2 h AND 15] payload)) [0, 1, 2, 3])"
  by (simp add: packet_dedup_key_def payload_view_mk_frame [OF assms] Let_def)

section \<open>Properties\<close>

text \<open>a scoped and an unscoped flood frame written for the same payload parse back, each with
  its own route type (transport codes present for the scoped one only), to the same payload type and
  payload, and share one duplicate key; nothing is written past the reported length.\<close>

theorem flood_writers_parse:
  assumes "is_valid pl" "length path = unat (hop_count pl) * unat (hash_size pl)"
    and "6 + length path + length payload \<le> length out"
  shows "\<exists>f1 n1 f2 n2. write_scoped_flood_frame C out pt key pl path payload = Some (f1, n1)
    \<and> write_unscoped_flood_frame out pt pl path payload = Some (f2, n2)
    \<and> n1 = n2 + 4 \<and> drop n1 f1 = drop n1 out \<and> drop n2 f2 = drop n2 out
    \<and> map_sum id rx_route_type (parse_rx_frame_header (take n1 f1)) = Inr (Some RT_TransportFlood)
    \<and> map_sum id rx_route_type (parse_rx_frame_header (take n2 f2)) = Inr (Some RT_Flood)
    \<and> packet_payload_view (take n1 f1) = Some (Some (ptype_u8 pt, payload))
    \<and> packet_payload_view (take n2 f2) = Some (Some (ptype_u8 pt, payload))
    \<and> packet_dedup_key C (take n1 f1) = packet_dedup_key C (take n2 f2)"
proof -
  let ?codes = "scoped_transport_codes C key (ptype_u8 pt) payload"
  let ?f1 = "mk_frame (Header_new RT_TransportFlood pt) ?codes pl path payload"
  let ?f2 = "mk_frame (Header_new RT_Flood pt) [] pl path payload"
  have wf: "wf_frame (Header_new RT_TransportFlood pt) ?codes pl path"
    "wf_frame (Header_new RT_Flood pt) [] pl path"
    using assms by (simp_all add: wf_frame_def)
  have len: "length ?f1 = 6 + length path + length payload" "length ?f2 = 2 + length path + length payload"
    by (simp_all add: mk_frame_def)
  have w1: "write_scoped_flood_frame C out pt key pl path payload =
      Some (?f1 @ drop (6 + length path + length payload) out, 6 + length path + length payload)"
    by (rule write_scoped_spec [OF assms(2,3)])
  have w2: "write_unscoped_flood_frame out pt pl path payload =
      Some (?f2 @ drop (2 + length path + length payload) out, 2 + length path + length payload)"
    using assms(3) by (intro write_unscoped_spec [OF assms(2)]) simp
  show ?thesis
    unfolding w1 w2
    by (intro exI conjI, rule refl, rule refl)
       (simp_all add: len parse_mk_frame [OF wf(1)] parse_mk_frame [OF wf(2)]
         payload_view_mk_frame [OF wf(1)] payload_view_mk_frame [OF wf(2)]
         dedup_key_mk_frame [OF wf(1)] dedup_key_mk_frame [OF wf(2)])
qed

theorem flood_writers_parse_witness:
  "\<exists>f1 n1 f2 n2. write_scoped_flood_frame demo_prims (zeros 20) PT_TxtMsg (zeros 16) 0x41 [1, 2] [7, 8, 9] = Some (f1, n1)
    \<and> write_unscoped_flood_frame (zeros 20) PT_TxtMsg 0x41 [1, 2] [7, 8, 9] = Some (f2, n2)
    \<and> packet_dedup_key demo_prims (take n1 f1) = packet_dedup_key demo_prims (take n2 f2)"
proof -
  have "is_valid 0x41" "unat (hop_count 0x41) * unat (hash_size 0x41) = 2"
    by (simp_all add: is_valid_iff wire_simps)
  then show ?thesis
    using flood_writers_parse [of "0x41" "[1, 2]" "[7, 8, 9]" "zeros 20" demo_prims PT_TxtMsg "zeros 16"]
    by auto
qed

text \<open>the duplicate key of a frame depends only on its payload type and payload: relays that
  change the route type, the transport codes, the hop count or the path keep it.\<close>

theorem dedup_relay_invariant:
  assumes "wf_frame h codes pl path" "wf_frame h' codes' pl' path'"
    and "drop_bit 2 h AND 0x0F = drop_bit 2 h' AND 0x0F"
  shows "packet_dedup_key C (mk_frame h codes pl path payload) =
    packet_dedup_key C (mk_frame h' codes' pl' path' payload)"
  using assms by (simp add: dedup_key_mk_frame)

theorem dedup_relay_invariant_witness:
  "packet_dedup_key demo_prims (mk_frame 0x09 [] 0x00 [] [5, 6]) =
   packet_dedup_key demo_prims (mk_frame 0x08 [1, 2, 3, 4] 0x42 [9, 9, 8, 8] [5, 6])"
proof (rule dedup_relay_invariant)
  show "wf_frame 0x09 [] 0x00 []"
    by (simp add: wf_frame_def route_carries_transport_codes_def route_type_def header_consts
        is_valid_iff wire_simps)
  show "wf_frame 0x08 [1, 2, 3, 4] 0x42 [9, 9, 8, 8]"
    by (simp add: wf_frame_def route_carries_transport_codes_def route_type_def header_consts
        is_valid_iff wire_simps)
qed simp

text \<open>the duplicate key is computed for every byte string without a panic, and for a frame
  the parser rejects it is the digest of the whole frame.\<close>

theorem dedup_key_total:
  "\<exists>k. packet_dedup_key C f = Some k \<and> length k = 4 \<and>
     (\<forall>e. parse_rx_frame_header f = Inl e \<longrightarrow> k = map ((!) (sha256_2 C f [])) [0, 1, 2, 3])"
proof -
  obtain v where v: "packet_payload_view f = Some v"
    using payload_view_total by blast
  then have "\<forall>e. parse_rx_frame_header f = Inl e \<longrightarrow> v = None"
    by (auto simp: packet_payload_view_def)
  then show ?thesis
    by (auto simp: packet_dedup_key_def v Let_def)
qed

theorem dedup_key_total_witness:
  "\<exists>k. packet_dedup_key demo_prims [0x09, 0x7F, 1] = Some k \<and> k = [0x09, 0x7F, 1, 0]"
proof -
  have "parse_rx_frame_header [0x09, 0x7F, 1] = Inl (RxInvalidPathLen 0x7F)"
    by (simp add: parse_rx_frame_header_def frame_path_len_def get_opt_def
        route_carries_transport_codes_def route_type_def header_consts is_valid_iff)
  then show ?thesis
    using dedup_key_total [of demo_prims "[0x09, 0x7F, 1]"]
    by (auto simp: sha256_2_def demo_prims_def numeral_eq_Suc)
qed

text \<open>a scoped frame's four transport-code bytes are a first code that is never one of the
  reserved values 0x0000 and 0xFFFF, followed by a zero second code.\<close>

theorem scoped_codes_not_reserved:
  "\<exists>lo hi. scoped_transport_codes C key t payload = [lo, hi, 0, 0]
     \<and> from_le16 lo hi \<noteq> 0x0000 \<and> from_le16 lo hi \<noteq> 0xFFFF
     \<and> (let raw = hmac_sha256_2_parts C key [t] payload; r = from_le16 (raw ! 0) (raw ! 1) in
          from_le16 lo hi = r \<or> r = 0 \<or> r = 0xFFFF)"
  by (simp add: scoped_transport_codes_def Let_def to_le16_def from_to_le16 transport_code_def
      remap_not_reserved) (auto simp: remap_transport_code_def)

text \<open>region-name validation accepts exactly the non-empty names of at most 31 bytes that do
  not start with the private marker and hold accepted bytes only, and an invalid byte is reported
  at its first position.\<close>

theorem validate_region_name_iff:
  "(validate_region_name name = Inr () \<longleftrightarrow>
      name \<noteq> [] \<and> length name \<le> 31 \<and> hd name \<noteq> 0x24 \<and> list_all is_region_name_byte name)
   \<and> (validate_region_name name = Inl (RN_InvalidByte i b) \<longleftrightarrow>
      length name \<le> 31 \<and> i < length name \<and> name ! 0 \<noteq> 0x24 \<and> b = name ! i
      \<and> \<not> is_region_name_byte b \<and> list_all is_region_name_byte (take i name))"
proof
  show "validate_region_name name = Inr () \<longleftrightarrow>
      name \<noteq> [] \<and> length name \<le> 31 \<and> hd name \<noteq> 0x24 \<and> list_all is_region_name_byte name"
    by (simp add: validate_region_name_OK_iff valid_region_name_def)
  show "validate_region_name name = Inl (RN_InvalidByte i b) \<longleftrightarrow>
      length name \<le> 31 \<and> i < length name \<and> name ! 0 \<noteq> 0x24 \<and> b = name ! i
      \<and> \<not> is_region_name_byte b \<and> list_all is_region_name_byte (take i name)"
    by (auto simp: validate_region_name_def name_scan_err_iff REGION_NAME_MAX_def)
qed

text \<open>a region's key does not depend on whether its name was given with or without the leading
  hash sign, and an invalid name never yields a key.\<close>

theorem region_key_canonical:
  assumes "crypto_ok C" "valid_region_name name" "hd name \<noteq> 0x23" "length name < 31"
  shows "region_key C name = region_key C (0x23 # name)
    \<and> region_key C name = Some (Inr (take 16 (sha256 C (0x23 # name))))
    \<and> (\<forall>bad e. validate_region_name bad = Inl e \<longrightarrow> region_key C bad = Some (Inl e))"
proof -
  have "is_region_name_byte 0x23"
    by (simp add: is_region_name_byte_def)
  then have "valid_region_name (0x23 # name)"
    using assms(2,4) by (simp add: valid_region_name_def)
  then show ?thesis
    using assms by (simp add: region_key_spec region_key_invalid canonical_name_def)
qed

theorem region_key_canonical_witness:
  "region_key demo_prims [0x55, 0x4B] = region_key demo_prims [0x23, 0x55, 0x4B]"
proof -
  have "valid_region_name [0x55, 0x4B]"
    by (simp add: valid_region_name_def is_region_name_byte_def)
  then show ?thesis
    using region_key_canonical [OF demo_prims_ok, of "[0x55, 0x4B]"] by simp
qed

end
