(* ===== verification/Dispatcher.thy ===== *)
theory Dispatcher
  imports Complex_Main Region Policy Bounded_Log
begin

text \<open>
  \<open>firmware-core/src/dispatcher.rs\<close>: the duplicate filter, the sliding-window airtime budget,
  the transmit queue, the table of sends awaiting an acknowledgement, the transmit guard and the
  airtime estimate.  The filter and the budget are bounded logs over ring arrays; the transmit
  queue implements the contract \<open>evicting_queue\<close>, from which it follows that no frame leaves it
  unnoticed.  The callbacks of \<open>sweep_expired\<close> are state transformers on the caller's state, the
  order of their calls being the order of the slots.
\<close>

section \<open>Duplicate filter\<close>

definition DEDUP_SLOTS :: nat where
  "DEDUP_SLOTS = 128"

record DuplicateFilter =
  df_slots :: "bytes list"
  df_head :: nat
  df_count :: nat

definition DuplicateFilter_new :: DuplicateFilter where
  "DuplicateFilter_new = \<lparr>df_slots = replicate DEDUP_SLOTS (zeros 4), df_head = 0, df_count = 0\<rparr>"

text \<open>The scan of \<open>is_duplicate\<close>: \<open>k\<close> slots left from index \<open>i\<close>.\<close>

fun dup_scan :: "bytes list \<Rightarrow> bytes \<Rightarrow> nat \<Rightarrow> nat \<Rightarrow> bool rust" where
  "dup_scan slots h 0 i = Some False"
| "dup_scan slots h (Suc k) i = do {
     s \<leftarrow> get_at slots i;
     if s = h then Some True else dup_scan slots h k (Suc i)
   }"

definition is_duplicate :: "crypto_prims \<Rightarrow> DuplicateFilter \<Rightarrow> bytes \<Rightarrow> bool rust" where
  "is_duplicate C d frame = do {
     h \<leftarrow> packet_dedup_key C frame;
     let n = min (df_count d) DEDUP_SLOTS;
     dup_scan (df_slots d) h n 0
   }"

definition df_insert :: "crypto_prims \<Rightarrow> DuplicateFilter \<Rightarrow> bytes \<Rightarrow> DuplicateFilter rust" where
  "df_insert C d frame = do {
     h \<leftarrow> packet_dedup_key C frame;
     slots \<leftarrow> set_at (df_slots d) (df_head d) h;
     Some \<lparr>df_slots = slots,
       df_head = (df_head d + 1) mod DEDUP_SLOTS,
       df_count = (if df_count d < DEDUP_SLOTS then df_count d + 1 else df_count d)\<rparr>
   }"

section \<open>Airtime budget\<close>

definition BUDGET_WINDOW_MS :: u64 where
  "BUDGET_WINDOW_MS = 60000"

definition BUDGET_MAX_MS :: u64 where
  "BUDGET_MAX_MS = 6000"

definition BUDGET_SLOTS :: nat where
  "BUDGET_SLOTS = 32"

record TxRecord =
  tx_start_ms :: u64
  tx_duration_ms :: u32

record AirtimeBudget =
  ab_records :: "TxRecord list"
  ab_head :: nat
  ab_count :: nat

definition AirtimeBudget_new :: AirtimeBudget where
  "AirtimeBudget_new = \<lparr>ab_records = replicate BUDGET_SLOTS \<lparr>tx_start_ms = 0, tx_duration_ms = 0\<rparr>,
     ab_head = 0, ab_count = 0\<rparr>"

fun window_sum :: "TxRecord list \<Rightarrow> u64 \<Rightarrow> nat \<Rightarrow> nat \<Rightarrow> u64 \<Rightarrow> u64 rust" where
  "window_sum records cutoff 0 i acc = Some acc"
| "window_sum records cutoff (Suc k) i acc = do {
     r \<leftarrow> get_at records i;
     window_sum records cutoff k (Suc i)
       (if tx_start_ms r \<ge> cutoff then acc + ucast (tx_duration_ms r) else acc)
   }"

definition used_in_window :: "AirtimeBudget \<Rightarrow> u64 \<Rightarrow> u64 rust" where
  "used_in_window b now_ms =
     (let cutoff = saturating_sub now_ms BUDGET_WINDOW_MS; n = min (ab_count b) BUDGET_SLOTS in
      window_sum (ab_records b) cutoff n 0 0)"

definition can_transmit :: "AirtimeBudget \<Rightarrow> u64 \<Rightarrow> u32 \<Rightarrow> bool rust" where
  "can_transmit b now_ms required_ms = do {
     used \<leftarrow> used_in_window b now_ms;
     Some (used + ucast required_ms \<le> BUDGET_MAX_MS)
   }"

definition record_tx :: "AirtimeBudget \<Rightarrow> u64 \<Rightarrow> u32 \<Rightarrow> AirtimeBudget rust" where
  "record_tx b now_ms duration_ms = do {
     records \<leftarrow> set_at (ab_records b) (ab_head b) \<lparr>tx_start_ms = now_ms, tx_duration_ms = duration_ms\<rparr>;
     Some \<lparr>ab_records = records,
       ab_head = (ab_head b + 1) mod BUDGET_SLOTS,
       ab_count = (if ab_count b < BUDGET_SLOTS then ab_count b + 1 else ab_count b)\<rparr>
   }"

section \<open>Transmit queue\<close>

definition FRAME_BUF :: nat where
  "FRAME_BUF = 255"

definition TX_QUEUE_SLOTS :: nat where
  "TX_QUEUE_SLOTS = 4"

record TxQueue =
  tq_bufs :: "bytes list"
  tq_lens :: "nat list"
  tq_tags :: "bytes option list"
  tq_head :: nat
  tq_count :: nat

definition TxQueue_new :: TxQueue where
  "TxQueue_new = \<lparr>tq_bufs = replicate TX_QUEUE_SLOTS (zeros FRAME_BUF),
     tq_lens = replicate TX_QUEUE_SLOTS 0, tq_tags = replicate TX_QUEUE_SLOTS None,
     tq_head = 0, tq_count = 0\<rparr>"

definition enqueue ::
    "TxQueue \<Rightarrow> bytes \<Rightarrow> bytes option \<Rightarrow> (TxQueue \<times> (nat \<times> bytes option) option) rust" where
  "enqueue q frame tag = do {
     let n = min (length frame) FRAME_BUF;
     (q, idx, dropped) \<leftarrow>
       (if tq_count q = TX_QUEUE_SLOTS then do {
          let idx = tq_head q;
          dropped_len \<leftarrow> get_at (tq_lens q) idx;
          dropped_tag \<leftarrow> get_at (tq_tags q) idx;
          Some (q\<lparr>tq_head := (tq_head q + 1) mod TX_QUEUE_SLOTS\<rparr>, idx, Some (dropped_len, dropped_tag))
        } else do {
          let idx = (tq_head q + tq_count q) mod TX_QUEUE_SLOTS;
          Some (q\<lparr>tq_count := tq_count q + 1\<rparr>, idx, None)
        });
     buf \<leftarrow> get_at (tq_bufs q) idx;
     src \<leftarrow> slice frame 0 n;
     buf \<leftarrow> copy_into buf 0 src;
     bufs \<leftarrow> set_at (tq_bufs q) idx buf;
     lens \<leftarrow> set_at (tq_lens q) idx n;
     tags \<leftarrow> set_at (tq_tags q) idx tag;
     Some (q\<lparr>tq_bufs := bufs, tq_lens := lens, tq_tags := tags\<rparr>, dropped)
   }"

definition peek :: "TxQueue \<Rightarrow> bytes \<Rightarrow> (bytes \<times> nat) rust" where
  "peek q out =
     (if tq_count q = 0 then Some (out, 0)
      else do {
        let idx = tq_head q;
        len \<leftarrow> get_at (tq_lens q) idx;
        let n = min len (length out);
        buf \<leftarrow> get_at (tq_bufs q) idx;
        src \<leftarrow> slice buf 0 n;
        out \<leftarrow> copy_into out 0 src;
        Some (out, n)
      })"

definition pop_front :: "TxQueue \<Rightarrow> TxQueue" where
  "pop_front q =
     (if tq_count q = 0 then q
      else q\<lparr>tq_head := (tq_head q + 1) mod TX_QUEUE_SLOTS, tq_count := tq_count q - 1\<rparr>)"

definition has_pending :: "TxQueue \<Rightarrow> bool" where
  "has_pending q \<longleftrightarrow> tq_count q > 0"

section \<open>Sends awaiting an acknowledgement\<close>

definition MAX_OUTSTANDING_SENDS :: nat where
  "MAX_OUTSTANDING_SENDS = 2 * TX_QUEUE_SLOTS"

definition DELIVERY_ACK_DEADLINE_MS :: u64 where
  "DELIVERY_ACK_DEADLINE_MS = 30000"

definition MAX_SEND_RETRIES :: u8 where
  "MAX_SEND_RETRIES = 2"

definition RETRY_BACKOFF_STEP_MS :: u64 where
  "RETRY_BACKOFF_STEP_MS = 20000"

definition RETRY_JITTER_MAX_MS :: u64 where
  "RETRY_JITTER_MAX_MS = 5000"

text \<open>The ACK hash is an array of four bytes.\<close>

definition retry_backoff_ms :: "u8 \<Rightarrow> bytes \<Rightarrow> u64" where
  "retry_backoff_ms attempt ack_hash =
     (let jitter = (ucast (ack_hash ! 0) * 1103 + ucast (ack_hash ! 1) * 71 + ucast (ack_hash ! 2))
                     mod RETRY_JITTER_MAX_MS in
      DELIVERY_ACK_DEADLINE_MS + RETRY_BACKOFF_STEP_MS * ucast attempt + jitter)"

datatype OutstandingKind = OkDm (to_hash: u8) | OkRoomPost (room_hash: u8)

record OutstandingSend =
  os_ack_hash :: bytes
  os_kind :: OutstandingKind
  os_sent_at_ms :: u64
  os_deadline_ms :: u64
  os_attempts :: u8
  os_frame :: bytes
  os_frame_len :: nat

definition OutstandingSend_new :: "bytes \<Rightarrow> OutstandingKind \<Rightarrow> u64 \<Rightarrow> bytes \<Rightarrow> OutstandingSend rust" where
  "OutstandingSend_new ack_hash kind sent_at_ms frame = do {
     let n = min (length frame) FRAME_BUF;
     src \<leftarrow> slice frame 0 n;
     buf \<leftarrow> copy_into (zeros FRAME_BUF) 0 src;
     Some \<lparr>os_ack_hash = ack_hash, os_kind = kind, os_sent_at_ms = sent_at_ms,
       os_deadline_ms = sent_at_ms + DELIVERY_ACK_DEADLINE_MS, os_attempts = 0,
       os_frame = buf, os_frame_len = n\<rparr>
   }"

type_synonym OutstandingSends = "OutstandingSend option list"

definition OutstandingSends_new :: OutstandingSends where
  "OutstandingSends_new = replicate MAX_OUTSTANDING_SENDS None"

text \<open>The first loop of \<open>insert\<close>: fill the first empty slot.\<close>

fun fill_free :: "OutstandingSends \<Rightarrow> OutstandingSend \<Rightarrow> OutstandingSends option" where
  "fill_free [] send = None"
| "fill_free (None # slots) send = Some (Some send # slots)"
| "fill_free (Some s # slots) send = map_option (\<lambda>ss. Some s # ss) (fill_free slots send)"

text \<open>The second loop: the index of the entry sent first, from index \<open>i\<close>.\<close>

fun oldest_scan :: "OutstandingSends \<Rightarrow> nat \<Rightarrow> nat \<Rightarrow> u64 \<Rightarrow> nat" where
  "oldest_scan [] i oldest_idx oldest_sent_at = oldest_idx"
| "oldest_scan (None # slots) i oldest_idx oldest_sent_at = oldest_scan slots (Suc i) oldest_idx oldest_sent_at"
| "oldest_scan (Some s # slots) i oldest_idx oldest_sent_at =
     (if os_sent_at_ms s < oldest_sent_at
      then oldest_scan slots (Suc i) i (os_sent_at_ms s)
      else oldest_scan slots (Suc i) oldest_idx oldest_sent_at)"

definition sends_insert ::
    "OutstandingSends \<Rightarrow> OutstandingSend \<Rightarrow> (OutstandingSends \<times> OutstandingSend option) rust" where
  "sends_insert slots send =
     (case fill_free slots send of
        Some slots' \<Rightarrow> Some (slots', None)
      | None \<Rightarrow> do {
          let oldest_idx = oldest_scan slots 0 0 (- 1);
          evicted \<leftarrow> get_at slots oldest_idx;
          slots' \<leftarrow> set_at slots oldest_idx (Some send);
          Some (slots', evicted)
        })"

fun sends_resolve :: "OutstandingSends \<Rightarrow> bytes \<Rightarrow> OutstandingSends \<times> OutstandingSend option" where
  "sends_resolve [] ack_hash = ([], None)"
| "sends_resolve (slot # slots) ack_hash =
     (if map_option os_ack_hash slot = Some ack_hash then (None # slots, slot)
      else (case sends_resolve slots ack_hash of (slots', r) \<Rightarrow> (slot # slots', r)))"

definition resolve_evicted :: "OutstandingSends \<Rightarrow> bytes option \<Rightarrow> OutstandingSends \<times> OutstandingSend option" where
  "resolve_evicted slots tag =
     (case tag of None \<Rightarrow> (slots, None) | Some hash \<Rightarrow> sends_resolve slots hash)"

text \<open>One pass of the sweep over one slot; \<open>st\<close> is the state the two closures work on.\<close>

definition sweep_slot ::
    "u64 \<Rightarrow> (OutstandingSend \<Rightarrow> 's \<Rightarrow> bool \<times> 's) \<Rightarrow> (OutstandingSend \<Rightarrow> 's \<Rightarrow> 's) \<Rightarrow>
     OutstandingSend option \<Rightarrow> 's \<Rightarrow> OutstandingSend option \<times> 's" where
  "sweep_slot now_ms retry_if on_undelivered slot st =
     (case slot of
        None \<Rightarrow> (None, st)
      | Some s \<Rightarrow>
          if \<not> now_ms \<ge> os_deadline_ms s then (Some s, st)
          else (let has_attempts_left = os_attempts s < MAX_SEND_RETRIES;
                    (retried, st) = (if has_attempts_left then retry_if s st else (False, st)) in
                if retried
                then (let attempts = os_attempts s + 1 in
                      (Some (s\<lparr>os_attempts := attempts,
                         os_deadline_ms := now_ms + retry_backoff_ms attempts (os_ack_hash s)\<rparr>), st))
                else (None, on_undelivered s st)))"

fun sweep_expired ::
    "OutstandingSends \<Rightarrow> u64 \<Rightarrow> (OutstandingSend \<Rightarrow> 's \<Rightarrow> bool \<times> 's) \<Rightarrow> (OutstandingSend \<Rightarrow> 's \<Rightarrow> 's) \<Rightarrow>
     's \<Rightarrow> OutstandingSends \<times> 's" where
  "sweep_expired [] now_ms retry_if on_undelivered st = ([], st)"
| "sweep_expired (slot # slots) now_ms retry_if on_undelivered st =
     (let (slot', st) = sweep_slot now_ms retry_if on_undelivered slot st;
          (slots', st) = sweep_expired slots now_ms retry_if on_undelivered st in
      (slot' # slots', st))"

section \<open>Transmit guard and airtime estimate\<close>

definition tx_guard_allows :: "u8 \<Rightarrow> bool" where
  "tx_guard_allows ptype \<longleftrightarrow> \<not> is_advert_type ptype"

text \<open>
  The floating-point computation, on rationals.  The exact value is \<open>41.472 + 10.24 k\<close> for an
  integer \<open>k\<close>, never closer than \<open>0.008\<close> to an integer, so for frame lengths rounding in \<open>f64\<close>
  does not change the final ceiling.  The cast to \<open>u32\<close> saturates.
\<close>

definition lora_airtime_ms :: "nat \<Rightarrow> u32" where
  "lora_airtime_ms payload_bytes =
     (let SF = 7; BW_HZ = (62500 :: rat); CR = 1; N_PRE = 8; CRC = 1; IH = 0;
          t_sym_ms = (2 ^ 7 / BW_HZ) * 1000;
          pl = (of_nat payload_bytes :: rat);
          num = max (8 * pl - 4 * SF + 28 + 16 * CRC - 20 * IH) 0;
          denom = 4 * SF;
          payload_syms = 8 + of_int \<lceil>num / denom\<rceil> * (CR + 4);
          t_pre_ms = (N_PRE + 17 / 4) * t_sym_ms;
          t_pay_ms = payload_syms * t_sym_ms in
      of_int (min \<lceil>t_pre_ms + t_pay_ms\<rceil> (2 ^ 32 - 1)))"

section \<open>Lemmas: duplicate filter\<close>

text \<open>The key of a frame, which is always computed.\<close>

definition key_of :: "crypto_prims \<Rightarrow> bytes \<Rightarrow> bytes" where
  "key_of C f = the (packet_dedup_key C f)"

lemma packet_dedup_key_key_of: "packet_dedup_key C f = Some (key_of C f)"
proof -
  obtain v where "packet_payload_view f = Some v"
    using payload_view_total by blast
  then show ?thesis
    by (simp add: key_of_def packet_dedup_key_def Let_def)
qed

definition df_invar :: "DuplicateFilter \<Rightarrow> bool" where
  "df_invar d \<longleftrightarrow> ring_ok 128 (df_head d) (df_count d) (df_slots d)"

definition df_view :: "DuplicateFilter \<Rightarrow> bytes list" where
  "df_view d = ring_view 128 (df_head d) (df_count d) (df_slots d)"

text \<open>The filter as a log of keys.\<close>

definition df_put :: "DuplicateFilter \<Rightarrow> bytes \<Rightarrow> DuplicateFilter rust" where
  "df_put d h = do {
     slots \<leftarrow> set_at (df_slots d) (df_head d) h;
     Some \<lparr>df_slots = slots,
       df_head = (df_head d + 1) mod 128,
       df_count = (if df_count d < 128 then df_count d + 1 else df_count d)\<rparr>
   }"

lemma df_insert_put: "df_insert C d frame = df_put d (key_of C frame)"
  by (simp add: df_insert_def df_put_def packet_dedup_key_key_of DEDUP_SLOTS_def)

interpretation dedup: bounded_log 128 df_invar "\<lambda>_. True" df_view DuplicateFilter_new df_put
proof unfold_locales
  show "df_invar DuplicateFilter_new" "df_view DuplicateFilter_new = []"
    by (simp_all add: df_invar_def df_view_def DuplicateFilter_new_def DEDUP_SLOTS_def ring_ok_def ring_view_def)
  show "\<exists>s'. df_put s e = Some s' \<and> df_invar s' \<and> df_view s' = newest 128 (df_view s @ [e])"
    if "df_invar s" for s e
    using that ring_write [of 128 "df_head s" "df_count s" "df_slots s" e]
    by (simp add: df_put_def df_invar_def df_view_def set_at_def ring_ok_def)
qed

lemma dup_scan_spec:
  "i + k \<le> length slots \<Longrightarrow> dup_scan slots h k i = Some (h \<in> set (take k (drop i slots)))"
proof (induction k arbitrary: i)
  case (Suc k)
  then have "drop i slots = slots ! i # drop (Suc i) slots"
    by (simp add: Cons_nth_drop_Suc)
  then show ?case
    using Suc by (auto simp: get_at_def)
qed simp

lemma is_duplicate_spec:
  assumes "df_invar d"
  shows "is_duplicate C d frame = Some (key_of C frame \<in> set (df_view d))"
proof -
  have "set (df_view d) = set (take (df_count d) (df_slots d))"
    using assms set_ring_view by (fastforce simp: df_invar_def df_view_def)
  moreover have "df_count d \<le> 128" "length (df_slots d) = 128"
    using assms by (simp_all add: df_invar_def ring_ok_def)
  ultimately show ?thesis
    using dup_scan_spec [of 0 "df_count d" "df_slots d"]
    by (simp add: is_duplicate_def packet_dedup_key_key_of DEDUP_SLOTS_def min_def)
qed

text \<open>Recording a sequence of frames.\<close>

primrec df_insert_all :: "crypto_prims \<Rightarrow> DuplicateFilter \<Rightarrow> bytes list \<Rightarrow> DuplicateFilter rust" where
  "df_insert_all C d [] = Some d"
| "df_insert_all C d (f # fs) = do { d \<leftarrow> df_insert C d f; df_insert_all C d fs }"

lemma df_insert_all_keys: "df_insert_all C d fs = dedup.append_all d (map (key_of C) fs)"
  by (induction fs arbitrary: d) (simp_all add: df_insert_put)

section \<open>Lemmas: airtime budget\<close>

definition ab_invar :: "AirtimeBudget \<Rightarrow> bool" where
  "ab_invar b \<longleftrightarrow> ring_ok 32 (ab_head b) (ab_count b) (ab_records b)"

definition ab_view :: "AirtimeBudget \<Rightarrow> (u64 \<times> u32) list" where
  "ab_view b = map (\<lambda>r. (tx_start_ms r, tx_duration_ms r)) (ring_view 32 (ab_head b) (ab_count b) (ab_records b))"

definition ab_put :: "AirtimeBudget \<Rightarrow> u64 \<times> u32 \<Rightarrow> AirtimeBudget rust" where
  "ab_put b tx = record_tx b (fst tx) (snd tx)"

lemma newest_map: "newest n (map f xs) = map f (newest n xs)"
  by (simp add: newest_def drop_map)

interpretation budget: bounded_log 32 ab_invar "\<lambda>_. True" ab_view AirtimeBudget_new ab_put
proof unfold_locales
  show "ab_invar AirtimeBudget_new" "ab_view AirtimeBudget_new = []"
    by (simp_all add: ab_invar_def ab_view_def AirtimeBudget_new_def BUDGET_SLOTS_def ring_ok_def ring_view_def)
  show "\<exists>s'. ab_put s e = Some s' \<and> ab_invar s' \<and> ab_view s' = newest 32 (ab_view s @ [e])"
    if "ab_invar s" for s e
    using that ring_write [of 32 "ab_head s" "ab_count s" "ab_records s" "\<lparr>tx_start_ms = fst e, tx_duration_ms = snd e\<rparr>"]
    by (simp add: ab_put_def record_tx_def ab_invar_def ab_view_def set_at_def ring_ok_def BUDGET_SLOTS_def
        newest_map [symmetric])
qed

text \<open>Airtime of the transmissions that started at \<open>cutoff\<close> or later, as a natural number.\<close>

definition airtime_since :: "u64 \<Rightarrow> (u64 \<times> u32) list \<Rightarrow> nat" where
  "airtime_since cutoff txs = sum_list (map (\<lambda>(t, d). if t \<ge> cutoff then unat d else 0) txs)"

lemma airtime_since_le:
  "(\<And>tx. tx \<in> set txs \<Longrightarrow> unat (snd tx) \<le> m) \<Longrightarrow> airtime_since cutoff txs \<le> length txs * m"
proof (induction txs)
  case (Cons tx txs)
  have "(case tx of (t, d) \<Rightarrow> if t \<ge> cutoff then unat d else 0) \<le> m"
    using Cons.prems [of tx] by (auto split: prod.splits)
  moreover have "airtime_since cutoff txs \<le> length txs * m"
    using Cons by simp
  ultimately show ?case
    by (simp add: airtime_since_def)
qed (simp add: airtime_since_def)

lemma airtime_since_bound: "airtime_since cutoff txs \<le> length txs * (2 ^ 32 - 1)"
proof (rule airtime_since_le)
  fix tx :: "u64 \<times> u32"
  have "unat (snd tx) < 2 ^ 32"
    using unsigned_less [of "snd tx"] by simp
  then show "unat (snd tx) \<le> 2 ^ 32 - 1"
    by simp
qed

lemma airtime_since_append:
  "airtime_since c (xs @ ys) = airtime_since c xs + airtime_since c ys"
  by (simp add: airtime_since_def)

lemma airtime_since_mset: "mset xs = mset ys \<Longrightarrow> airtime_since c xs = airtime_since c ys"
  by (simp add: airtime_since_def flip: sum_mset_sum_list)

lemma window_sum_spec:
  "i + k \<le> length records \<Longrightarrow> window_sum records cutoff k i acc =
     Some (acc + of_nat (airtime_since cutoff
       (map (\<lambda>r. (tx_start_ms r, tx_duration_ms r)) (take k (drop i records)))))"
proof (induction k arbitrary: i acc)
  case (Suc k)
  then have "drop i records = records ! i # drop (Suc i) records"
    by (simp add: Cons_nth_drop_Suc)
  then show ?case
    using Suc by (simp add: get_at_def airtime_since_def)
qed (simp add: airtime_since_def)

lemma used_in_window_spec:
  assumes "ab_invar b"
  shows "used_in_window b now_ms =
    Some (of_nat (airtime_since (saturating_sub now_ms BUDGET_WINDOW_MS) (ab_view b)))"
proof -
  have "ab_count b \<le> 32" "length (ab_records b) = 32"
    using assms by (simp_all add: ab_invar_def ring_ok_def)
  moreover have "airtime_since c (ab_view b) = airtime_since c
      (map (\<lambda>r. (tx_start_ms r, tx_duration_ms r)) (take (ab_count b) (ab_records b)))" for c
    using mset_ring_view [of 32 "ab_head b" "ab_count b" "ab_records b"] assms
    by (intro airtime_since_mset) (simp add: ab_view_def ab_invar_def)
  ultimately show ?thesis
    using window_sum_spec [of 0 "ab_count b" "ab_records b"]
    by (simp add: used_in_window_def BUDGET_SLOTS_def min_def)
qed

lemma can_transmit_spec:
  assumes "ab_invar b" "length (ab_view b) \<le> 32"
  shows "can_transmit b now_ms required_ms =
    Some (airtime_since (saturating_sub now_ms BUDGET_WINDOW_MS) (ab_view b) + unat required_ms \<le> 6000)"
proof -
  let ?u = "airtime_since (saturating_sub now_ms BUDGET_WINDOW_MS) (ab_view b)"
  have "length (ab_view b) * (2 ^ 32 - 1) \<le> 32 * (2 ^ 32 - 1)"
    using assms(2) by (rule mult_le_mono1)
  then have u: "?u \<le> 32 * (2 ^ 32 - 1)"
    using airtime_since_bound [of _ "ab_view b"] le_trans by blast
  have r: "unat required_ms < 2 ^ 32"
    using unsigned_less [of required_ms] by simp
  have "(of_nat ?u + ucast required_ms :: u64) = of_nat (?u + unat required_ms)"
    by simp
  then have "unat (of_nat ?u + ucast required_ms :: u64) = ?u + unat required_ms"
    using u r by (simp only: unat_of_nat) simp
  then show ?thesis
    using used_in_window_spec [OF assms(1)] by (simp add: can_transmit_def word_le_nat_alt BUDGET_MAX_MS_def)
qed

lemma record_all:
  "\<exists>b. budget.append_all AirtimeBudget_new txs = Some b \<and> ab_invar b \<and> ab_view b = newest 32 txs"
  using budget.append_all_fresh [of txs] by (simp add: list_all_iff)

section \<open>Lemmas: transmit queue\<close>

definition tq_invar :: "TxQueue \<Rightarrow> bool" where
  "tq_invar q \<longleftrightarrow> length (tq_bufs q) = 4 \<and> length (tq_lens q) = 4 \<and> length (tq_tags q) = 4
     \<and> list_all (\<lambda>b. length b = 255) (tq_bufs q) \<and> list_all (\<lambda>n. n \<le> 255) (tq_lens q)
     \<and> tq_head q < 4 \<and> tq_count q \<le> 4"

definition tq_slot :: "TxQueue \<Rightarrow> nat \<Rightarrow> bytes \<times> bytes option" where
  "tq_slot q j = (take (tq_lens q ! j) (tq_bufs q ! j), tq_tags q ! j)"

text \<open>The pending frames with their tags, oldest first.\<close>

definition tq_view :: "TxQueue \<Rightarrow> (bytes \<times> bytes option) list" where
  "tq_view q = map (\<lambda>i. tq_slot q ((tq_head q + i) mod 4)) [0..<tq_count q]"

text \<open>Writing slot \<open>j\<close>.\<close>

definition tq_write :: "TxQueue \<Rightarrow> nat \<Rightarrow> bytes \<Rightarrow> bytes option \<Rightarrow> TxQueue" where
  "tq_write q j frame tag = q\<lparr>
     tq_bufs := (tq_bufs q)[j := take 255 frame @ drop (min (length frame) 255) (tq_bufs q ! j)],
     tq_lens := (tq_lens q)[j := min (length frame) 255], tq_tags := (tq_tags q)[j := tag]\<rparr>"

lemma tq_write_simps [simp]:
  "tq_head (tq_write q j f t) = tq_head q" "tq_count (tq_write q j f t) = tq_count q"
  by (simp_all add: tq_write_def)

lemma tq_buf_len: "tq_invar q \<Longrightarrow> j < 4 \<Longrightarrow> length (tq_bufs q ! j) = 255"
  by (simp add: tq_invar_def list_all_length)

lemma tq_write_invar:
  assumes "tq_invar q" "j < 4"
  shows "tq_invar (tq_write q j f t)"
    and "tq_slot (tq_write q j f t) i = (if i = j then (take 255 f, t) else tq_slot q i)"
proof -
  have "length (take 255 f @ drop (min (length f) 255) (tq_bufs q ! j)) = 255"
    using tq_buf_len [OF assms] by simp
  then show "tq_invar (tq_write q j f t)"
    using assms unfolding tq_invar_def tq_write_def
    by (auto simp: list_all_length nth_list_update)
  show "tq_slot (tq_write q j f t) i = (if i = j then (take 255 f, t) else tq_slot q i)"
    using assms by (auto simp: tq_slot_def tq_write_def tq_invar_def min_def)
qed

lemma enqueue_write:
  assumes "tq_invar q"
  shows "enqueue q frame tag =
    (if tq_count q = 4
     then Some (tq_write (q\<lparr>tq_head := (tq_head q + 1) mod 4\<rparr>) (tq_head q) frame tag,
            Some (length (fst (tq_slot q (tq_head q))), snd (tq_slot q (tq_head q))))
     else Some (tq_write (q\<lparr>tq_count := tq_count q + 1\<rparr>) ((tq_head q + tq_count q) mod 4) frame tag, None))"
proof -
  have "length (tq_bufs q ! j) = 255" if "j < 4" for j
    using tq_buf_len [OF assms that] .
  moreover have "tq_lens q ! tq_head q \<le> 255"
    using assms by (simp add: tq_invar_def list_all_length)
  moreover have "tq_head q < 4" "(tq_head q + tq_count q) mod 4 < 4" "length (tq_bufs q) = 4"
    "length (tq_lens q) = 4" "length (tq_tags q) = 4"
    using assms by (simp_all add: tq_invar_def)
  ultimately show ?thesis
    by (simp add: enqueue_def TX_QUEUE_SLOTS_def FRAME_BUF_def get_at_def set_at_def slice_def copy_into_def
        tq_write_def tq_slot_def Let_def) (simp add: min_def)
qed

lemma mod4_neq:
  assumes "i < 4" "j < 4" "i \<noteq> j"
  shows "(h + i) mod 4 \<noteq> (h + j) mod (4 :: nat)"
proof
  assume eq: "(h + i) mod 4 = (h + j) mod 4"
  then consider q where "h + i = h + j + 4 * q" | q where "h + j = h + i + 4 * q"
    using mod_eq_nat1E [OF eq] mod_eq_nat2E [OF eq] by (metis nat_le_linear)
  then show False
    using assms by cases auto
qed

lemma tq_view_full:
  assumes "tq_invar q" "tq_count q = 4"
  shows "tq_view (tq_write (q\<lparr>tq_head := (tq_head q + 1) mod 4\<rparr>) (tq_head q) f t) = tl (tq_view q) @ [(take 255 f, t)]"
    (is "tq_view ?q = _")
proof -
  let ?h = "tq_head q"
  have h: "?h < 4"
    using assms by (simp add: tq_invar_def)
  have inv: "tq_invar (q\<lparr>tq_head := (?h + 1) mod 4\<rparr>)"
    using assms by (simp add: tq_invar_def)
  have sl: "tq_slot ?q i = (if i = ?h then (take 255 f, t) else tq_slot q i)" for i
    using tq_write_invar(2) [OF inv h] by (simp add: tq_slot_def)
  have idx: "((?h + 1) mod 4 + i) mod 4 = (?h + (i + 1)) mod 4" for i
    by (simp add: mod_add_left_eq)
  have "(?h + 4) mod 4 = ?h"
    using h by simp
  moreover have "(?h + 1) mod 4 \<noteq> ?h" "(?h + 2) mod 4 \<noteq> ?h" "(?h + 3) mod 4 \<noteq> ?h"
    using mod4_neq [of 1 0 ?h] mod4_neq [of 2 0 ?h] mod4_neq [of 3 0 ?h] h by simp_all
  ultimately have "tq_view ?q =
      [tq_slot q ((?h + 1) mod 4), tq_slot q ((?h + 2) mod 4), tq_slot q ((?h + 3) mod 4), (take 255 f, t)]"
    using assms(2) by (simp add: tq_view_def idx sl upt_rec del: One_nat_def)
  moreover have "tq_view q =
      [tq_slot q (?h mod 4), tq_slot q ((?h + 1) mod 4), tq_slot q ((?h + 2) mod 4), tq_slot q ((?h + 3) mod 4)]"
    using assms(2) by (simp add: tq_view_def upt_rec add.commute)
  ultimately show ?thesis
    by simp
qed

lemma tq_view_room:
  assumes "tq_invar q" "tq_count q < 4"
  shows "tq_view (tq_write (q\<lparr>tq_count := tq_count q + 1\<rparr>) ((tq_head q + tq_count q) mod 4) f t) =
    tq_view q @ [(take 255 f, t)]"
    (is "tq_view ?q = _")
proof -
  let ?j = "(tq_head q + tq_count q) mod 4"
  have inv: "tq_invar (q\<lparr>tq_count := tq_count q + 1\<rparr>)"
    using assms by (simp add: tq_invar_def)
  have sl: "tq_slot ?q i = (if i = ?j then (take 255 f, t) else tq_slot q i)" for i
    using tq_write_invar(2) [OF inv, of ?j] by (simp add: tq_slot_def)
  have ne: "(tq_head q + i) mod 4 \<noteq> ?j" if "i < tq_count q" for i
    using mod4_neq [of i "tq_count q"] that assms(2) by simp
  have "tq_count ?q = Suc (tq_count q)" "tq_head ?q = tq_head q"
    by simp_all
  then show ?thesis
    using ne by (simp only: tq_view_def sl) simp
qed

lemma hd_tq_view: "tq_invar q \<Longrightarrow> tq_count q \<noteq> 0 \<Longrightarrow> hd (tq_view q) = tq_slot q (tq_head q)"
  by (simp add: tq_view_def hd_map tq_invar_def)

lemma pop_front_view: "tq_invar q \<Longrightarrow> tq_invar (pop_front q) \<and> tq_view (pop_front q) = tl (tq_view q)"
proof (cases "tq_count q")
  case (Suc n)
  assume inv: "tq_invar q"
  have "((tq_head q + 1) mod 4 + i) mod 4 = (tq_head q + Suc i) mod 4" for i
    by (simp add: mod_add_left_eq)
  moreover have "[0..<Suc n] = 0 # map Suc [0..<n]"
    by (simp add: upt_conv_Cons map_Suc_upt del: upt_Suc)
  ultimately show ?thesis
    using inv Suc
    by (auto simp: pop_front_def tq_view_def tq_invar_def TX_QUEUE_SLOTS_def tq_slot_def comp_def
        simp del: upt_Suc)
qed (simp add: pop_front_def tq_view_def)

definition tq_enq :: "TxQueue \<Rightarrow> bytes \<times> bytes option \<Rightarrow> (TxQueue \<times> (nat \<times> bytes option) option) rust" where
  "tq_enq q x = enqueue q (fst x) (snd x)"

definition tq_report :: "bytes \<times> bytes option \<Rightarrow> nat \<times> bytes option" where
  "tq_report x = (length (fst x), snd x)"

interpretation txq: evicting_queue 4 tq_invar "\<lambda>x. length (fst x) \<le> 255" tq_view tq_report TxQueue_new tq_enq pop_front
proof unfold_locales
  show "tq_invar TxQueue_new" "tq_view TxQueue_new = []"
    by (simp_all add: tq_invar_def tq_view_def TxQueue_new_def TX_QUEUE_SLOTS_def FRAME_BUF_def list_all_length)
  fix q and x :: "bytes \<times> bytes option"
  assume inv: "tq_invar q"
  then have len: "length (tq_view q) = tq_count q" "tq_head q < 4"
    by (simp_all add: tq_view_def tq_invar_def)
  show "length (tq_view q) \<le> 4"
    using inv len by (simp add: tq_invar_def)
  show "tq_invar (pop_front q) \<and> tq_view (pop_front q) = tl (tq_view q)"
    by (rule pop_front_view [OF inv])
  assume x: "length (fst x) \<le> 255"
  have inv': "tq_invar (q\<lparr>tq_head := (tq_head q + 1) mod 4\<rparr>)"
    "tq_count q < 4 \<Longrightarrow> tq_invar (q\<lparr>tq_count := tq_count q + 1\<rparr>)"
    using inv by (simp_all add: tq_invar_def)
  show "\<exists>s'. tq_enq q x = Some (s', None) \<and> tq_invar s' \<and> tq_view s' = tq_view q @ [x]"
    if "length (tq_view q) < 4"
    using that x enqueue_write [OF inv] tq_view_room [OF inv] tq_write_invar(1) [OF inv'(2)]
    by (simp add: tq_enq_def len)
  show "\<exists>s'. tq_enq q x = Some (s', Some (tq_report (hd (tq_view q)))) \<and> tq_invar s' \<and> tq_view s' = tl (tq_view q) @ [x]"
    if "length (tq_view q) = 4"
    using that x enqueue_write [OF inv] tq_view_full [OF inv] tq_write_invar(1) [OF inv'(1)] hd_tq_view [OF inv]
    by (simp add: tq_enq_def len tq_report_def)
qed simp

lemma peek_view:
  assumes "tq_invar q"
  shows "peek q out =
    (case tq_view q of
       [] \<Rightarrow> Some (out, 0)
     | x # xs \<Rightarrow> let n = min (length (fst x)) (length out) in Some (take n (fst x) @ drop n out, n))"
proof (cases "tq_count q")
  case 0
  then show ?thesis
    by (simp add: peek_def tq_view_def)
next
  case (Suc n)
  then obtain x xs where v: "tq_view q = x # xs"
    by (cases "tq_view q") (auto simp: tq_view_def)
  have x: "x = tq_slot q (tq_head q)"
    using hd_tq_view [OF assms] Suc v by simp
  have "tq_head q < 4" "length (tq_bufs q) = 4" "length (tq_lens q) = 4" "tq_lens q ! tq_head q \<le> 255"
    "length (tq_bufs q ! tq_head q) = 255"
    using assms tq_buf_len [OF assms] by (simp_all add: tq_invar_def list_all_length)
  then show ?thesis
    using Suc by (simp add: v x peek_def tq_slot_def get_at_def slice_def copy_into_def Let_def)
qed

section \<open>Properties: duplicate filter and airtime budget\<close>

text \<open>the duplicate filter remembers exactly the last 128 packets: after recording any sequence
  of frames, a frame is reported as a duplicate when its key is among the keys of the
  128 most recent ones, and neither operation ever panics.\<close>

theorem dedup_filter_exact:
  "\<exists>d. df_insert_all C DuplicateFilter_new fs = Some d
     \<and> is_duplicate C d f = Some (packet_dedup_key C f \<in> set (map (packet_dedup_key C) (newest 128 fs)))"
proof -
  obtain d where "df_insert_all C DuplicateFilter_new fs = Some d" "df_invar d"
    "df_view d = newest 128 (map (key_of C) fs)"
    using dedup.append_all_fresh [of "map (key_of C) fs"] by (auto simp: df_insert_all_keys list_all_iff)
  then show ?thesis
    using is_duplicate_spec [of d C f] by (auto simp: packet_dedup_key_key_of newest_map)
qed

text \<open>as long as no more than 32 transmissions started in the last 60 seconds, the budget
  enforces the duty cycle: a transmission is allowed exactly when the airtime of all transmissions
  of the window and its own add up to at most 6000 ms.\<close>

theorem airtime_budget_exact:
  assumes "airtime_since (saturating_sub now_ms BUDGET_WINDOW_MS) (take (length txs - 32) txs) = 0"
  shows "\<exists>b. budget.append_all AirtimeBudget_new txs = Some b
    \<and> can_transmit b now_ms required_ms =
        Some (airtime_since (saturating_sub now_ms BUDGET_WINDOW_MS) txs + unat required_ms \<le> 6000)"
proof -
  obtain b where b: "budget.append_all AirtimeBudget_new txs = Some b" "ab_invar b" "ab_view b = newest 32 txs"
    using record_all by blast
  have "txs = take (length txs - 32) txs @ newest 32 txs"
    by (simp add: newest_def)
  then have "airtime_since (saturating_sub now_ms BUDGET_WINDOW_MS) txs =
      airtime_since (saturating_sub now_ms BUDGET_WINDOW_MS) (newest 32 txs)"
    using assms airtime_since_append by (metis add_0)
  then show ?thesis
    using b can_transmit_spec [OF b(2), of now_ms required_ms] by (simp add: b(3))
qed

theorem airtime_budget_exact_witness:
  "\<exists>b. budget.append_all AirtimeBudget_new [(70000, 4000), (100000, 3000)] = Some b
    \<and> can_transmit b 140000 3000 = Some True \<and> can_transmit b 125000 1 = Some False"
  using airtime_budget_exact [of 140000 "[(70000, 4000), (100000, 3000)]" 3000]
    airtime_budget_exact [of 125000 "[(70000, 4000), (100000, 3000)]" 1]
  by (auto simp: airtime_since_def saturating_sub_def BUDGET_WINDOW_MS_def)

text \<open>beyond 32 transmissions the budget forgets: when no recorded transmission and no new one is
  longer than 181 ms, transmitting is always allowed, however many transmissions the window
  already holds.\<close>

theorem airtime_budget_forgets:
  assumes "\<And>t d. (t, d) \<in> set txs \<Longrightarrow> d \<le> 181" "required_ms \<le> 181"
  shows "\<exists>b. budget.append_all AirtimeBudget_new txs = Some b \<and> can_transmit b now_ms required_ms = Some True"
proof -
  obtain b where b: "budget.append_all AirtimeBudget_new txs = Some b" "ab_invar b" "ab_view b = newest 32 txs"
    using record_all by blast
  have "unat (snd tx) \<le> 181" if "tx \<in> set (newest 32 txs)" for tx
    using assms(1) [of "fst tx" "snd tx"] that set_newest_subset [of 32 txs] by (auto simp: word_le_nat_alt)
  then have "airtime_since c (newest 32 txs) \<le> length (newest 32 txs) * 181" for c
    by (rule airtime_since_le)
  moreover have "length (newest 32 txs) * 181 \<le> 32 * 181"
    by (rule mult_le_mono1) simp
  ultimately have "airtime_since c (newest 32 txs) \<le> 32 * 181" for c
    by (rule le_trans)
  moreover have "unat required_ms \<le> 181"
    using assms(2) by (simp add: word_le_nat_alt)
  ultimately have "airtime_since c (newest 32 txs) + unat required_ms \<le> 6000" for c
    using add_le_mono [of "airtime_since c (newest 32 txs)" "32 * 181" "unat required_ms" 181] by simp
  then show ?thesis
    using b can_transmit_spec [OF b(2)] by (simp add: b(3))
qed

theorem airtime_budget_forgets_witness:
  "\<exists>b. budget.append_all AirtimeBudget_new (replicate 1000 (50000, 60)) = Some b
    \<and> can_transmit b 50000 60 = Some True"
  using airtime_budget_forgets [of "replicate 1000 (50000, 60)" 60 50000] by simp

section \<open>Properties: transmit queue\<close>

text \<open>C33: the transmit queue implements a first-in first-out queue of four frames, none of its
  operations panicking: an enqueue appends the frame (its first 255 bytes) and, when four frames
  are pending, drops the oldest and reports its length and tag; \<open>peek\<close> copies the oldest frame
  and leaves the queue alone; \<open>pop_front\<close> removes it.\<close>

theorem tx_queue_refines_fifo:
  assumes "tq_invar q"
  shows "(\<exists>q' ev. enqueue q f t = Some (q', ev) \<and> tq_invar q'
      \<and> tq_view q' = newest 4 (tq_view q @ [(take 255 f, t)])
      \<and> ev = (if length (tq_view q) = 4 then Some (tq_report (hd (tq_view q))) else None))
    \<and> peek q out =
        (case tq_view q of
           [] \<Rightarrow> Some (out, 0)
         | x # xs \<Rightarrow> let n = min (length (fst x)) (length out) in Some (take n (fst x) @ drop n out, n))
    \<and> tq_invar (pop_front q) \<and> tq_view (pop_front q) = tl (tq_view q)
    \<and> has_pending q = (tq_view q \<noteq> [])"
proof (intro conjI)
  have len: "length (tq_view q) = tq_count q"
    by (simp add: tq_view_def)
  have inv: "tq_invar (q\<lparr>tq_head := (tq_head q + 1) mod 4\<rparr>)" "tq_head q < 4"
    using assms by (simp_all add: tq_invar_def)
  show "\<exists>q' ev. enqueue q f t = Some (q', ev) \<and> tq_invar q'
      \<and> tq_view q' = newest 4 (tq_view q @ [(take 255 f, t)])
      \<and> ev = (if length (tq_view q) = 4 then Some (tq_report (hd (tq_view q))) else None)"
  proof (cases "tq_count q = 4")
    case True
    moreover have "tl (tq_view q) @ [x] = newest 4 (tq_view q @ [x])" for x
      using True len by (cases "tq_view q") (simp_all add: newest_def)
    ultimately show ?thesis
      using enqueue_write [OF assms] tq_view_full [OF assms] tq_write_invar(1) [OF inv] hd_tq_view [OF assms] len
      by (simp add: tq_report_def)
  next
    case False
    then have c: "tq_count q < 4"
      using assms by (simp add: tq_invar_def)
    then have "tq_invar (q\<lparr>tq_count := tq_count q + 1\<rparr>)"
      using assms by (simp add: tq_invar_def)
    then show ?thesis
      using enqueue_write [OF assms] tq_view_room [OF assms c] tq_write_invar(1) c len
      by (simp add: newest_all)
  qed
  show "has_pending q = (tq_view q \<noteq> [])"
    using len by (cases "tq_view q") (auto simp: has_pending_def)
qed (use assms peek_view pop_front_view in blast)+

theorem tx_queue_refines_fifo_witness:
  "\<exists>q' ev. enqueue TxQueue_new [1, 2, 3] (Some [9, 9, 9, 9]) = Some (q', ev)
    \<and> tq_view q' = [([1, 2, 3], Some [9, 9, 9, 9])] \<and> ev = None"
  using tx_queue_refines_fifo [OF txq.invar_fresh, of "[1, 2, 3]" "Some [9, 9, 9, 9]" "[]"] txq.view_fresh
  by (auto simp: newest_def)

text \<open>no frame vanishes from the transmit queue unnoticed: in any run of enqueues and pops, the
  frames that left it (popped, or evicted and reported with length and tag) followed by
  the frames still pending are all the frames ever enqueued, each once and in order.\<close>

theorem tx_queue_conserves_frames:
  assumes "list_all (\<lambda>x. length (fst x) \<le> 255) (enqs ops)"
  shows "\<exists>q out. txq.run TxQueue_new ops = Some (q, out) \<and> length (tq_view q) \<le> 4
    \<and> map tq_report (enqs ops) = out @ map tq_report (tq_view q)"
  using txq.run_conserves [OF txq.invar_fresh assms] txq.view_cap by (fastforce simp: txq.view_fresh)

theorem tx_queue_conserves_frames_witness:
  "\<exists>q out. txq.run TxQueue_new [Enq ([1], None), Enq ([2, 2], Some [1, 2, 3, 4]), Deq, Enq ([3], None)] = Some (q, out)
    \<and> out @ map tq_report (tq_view q) = [(1, None), (2, Some [1, 2, 3, 4]), (1, None)]"
  using tx_queue_conserves_frames [of "[Enq ([1], None), Enq ([2, 2], Some [1, 2, 3, 4]), Deq, Enq ([3], None)]"]
  by (auto simp: tq_report_def numeral_2_eq_2 simp del: txq.run.simps)

section \<open>Lemmas: outstanding sends\<close>

definition live_sends :: "OutstandingSends \<Rightarrow> OutstandingSend list" where
  "live_sends slots = List.map_filter id slots"

lemma live_sends_simps [simp]:
  "live_sends [] = []" "live_sends (None # slots) = live_sends slots"
  "live_sends (Some s # slots) = s # live_sends slots"
  by (simp_all add: live_sends_def map_filter_simps)

lemma live_sends_append [simp]: "live_sends (xs @ ys) = live_sends xs @ live_sends ys"
  by (simp add: live_sends_def map_filter_def)

lemma in_live_sends: "s \<in> set (live_sends slots) \<longleftrightarrow> Some s \<in> set slots"
  by (induction slots) (auto simp: live_sends_def map_filter_simps split: option.splits)

lemma fill_free_spec:
  "fill_free slots send = None \<longleftrightarrow> None \<notin> set slots"
  "fill_free slots send = Some slots' \<Longrightarrow>
     length slots' = length slots \<and> mset (live_sends slots') = mset (live_sends slots) + {#send#}"
  by (induction slots send arbitrary: slots' rule: fill_free.induct) auto

text \<open>The scan either keeps its current candidate or returns a strictly older entry.\<close>

lemma oldest_scan_spec:
  "None \<notin> set slots \<Longrightarrow>
   (oldest_scan slots i idx old = idx \<and> (\<forall>s \<in> set (live_sends slots). old \<le> os_sent_at_ms s))
   \<or> (\<exists>j m. oldest_scan slots i idx old = i + j \<and> j < length slots \<and> slots ! j = Some m
        \<and> os_sent_at_ms m < old \<and> (\<forall>s \<in> set (live_sends slots). os_sent_at_ms m \<le> os_sent_at_ms s))"
  (is "_ \<Longrightarrow> ?P slots i idx old")
proof (induction slots arbitrary: i idx old)
  case (Cons slot slots)
  then obtain s where slot: "slot = Some s" and no: "None \<notin> set slots"
    by (cases slot) auto
  let ?idx = "if os_sent_at_ms s < old then i else idx"
  let ?old = "if os_sent_at_ms s < old then os_sent_at_ms s else old"
  have eq: "oldest_scan (slot # slots) i idx old = oldest_scan slots (Suc i) ?idx ?old"
    by (simp add: slot)
  from Cons.IH [OF no, of "Suc i" ?idx ?old] show ?case
  proof
    assume *: "oldest_scan slots (Suc i) ?idx ?old = ?idx
      \<and> (\<forall>s \<in> set (live_sends slots). ?old \<le> os_sent_at_ms s)"
    then show ?thesis
    proof (cases "os_sent_at_ms s < old")
      case True
      with * show ?thesis
        by (intro disjI2 exI [of _ 0] exI [of _ s]) (simp add: slot)
    next
      case False
      with * show ?thesis
        by (intro disjI1) (auto simp: slot)
    qed
  next
    assume "\<exists>j m. oldest_scan slots (Suc i) ?idx ?old = Suc i + j \<and> j < length slots \<and> slots ! j = Some m
        \<and> os_sent_at_ms m < ?old \<and> (\<forall>s \<in> set (live_sends slots). os_sent_at_ms m \<le> os_sent_at_ms s)"
    then obtain j m where "oldest_scan slots (Suc i) ?idx ?old = Suc i + j" "j < length slots" "slots ! j = Some m"
      "os_sent_at_ms m < ?old" "\<forall>s \<in> set (live_sends slots). os_sent_at_ms m \<le> os_sent_at_ms s"
      by blast
    then show ?thesis
      unfolding eq
      by (intro disjI2 exI [of _ "Suc j"] exI [of _ m]) (auto simp: slot split: if_splits)
  qed
qed simp

lemma mset_live_update:
  assumes "j < length slots"
  shows "mset (live_sends (slots[j := Some send])) + mset (case slots ! j of None \<Rightarrow> [] | Some s \<Rightarrow> [s]) =
    mset (live_sends slots) + {#send#}"
proof -
  have "slots = take j slots @ slots ! j # drop (Suc j) slots"
    using assms by (simp add: id_take_nth_drop)
  then have "live_sends slots =
      live_sends (take j slots) @ (case slots ! j of None \<Rightarrow> [] | Some s \<Rightarrow> [s]) @ live_sends (drop (Suc j) slots)"
    by (cases "slots ! j") (metis live_sends_append live_sends_simps append_Cons append_Nil option.simps(4,5))+
  then show ?thesis
    using assms by (simp add: upd_conv_take_nth_drop)
qed

lemma resolve_split:
  "sends_resolve slots h = (slots', r) \<Longrightarrow>
   (case r of
      None \<Rightarrow> slots' = slots \<and> (\<forall>s \<in> set (live_sends slots). os_ack_hash s \<noteq> h)
    | Some s \<Rightarrow> os_ack_hash s = h \<and> length slots' = length slots
        \<and> mset (live_sends slots) = mset (live_sends slots') + {#s#})"
proof (induction slots arbitrary: slots' r)
  case (Cons slot slots)
  obtain ss rr where rec: "sends_resolve slots h = (ss, rr)"
    by (cases "sends_resolve slots h")
  show ?case
    using Cons.prems Cons.IH [OF rec]
    by (cases slot; cases r) (auto simp: rec split: if_splits)
qed simp

text \<open>The retry keeps the send and its cached frame; only the attempt count and the deadline move.\<close>

definition same_send :: "OutstandingSend \<Rightarrow> OutstandingSend \<Rightarrow> bool" where
  "same_send s s' \<longleftrightarrow> s' = s\<lparr>os_attempts := os_attempts s', os_deadline_ms := os_deadline_ms s'\<rparr>"

definition retried_send :: "u64 \<Rightarrow> OutstandingSend \<Rightarrow> OutstandingSend" where
  "retried_send now s = s\<lparr>os_attempts := os_attempts s + 1,
     os_deadline_ms := now + retry_backoff_ms (os_attempts s + 1) (os_ack_hash s)\<rparr>"

text \<open>Closures that decide on a state of their own and log what was given up.\<close>

definition ask :: "(OutstandingSend \<Rightarrow> 's \<Rightarrow> bool \<times> 's) \<Rightarrow> OutstandingSend \<Rightarrow> 's \<times> OutstandingSend list \<Rightarrow>
    bool \<times> 's \<times> OutstandingSend list" where
  "ask f s st = (case f s (fst st) of (b, st') \<Rightarrow> (b, st', snd st))"

definition give_up :: "OutstandingSend \<Rightarrow> 's \<times> OutstandingSend list \<Rightarrow> 's \<times> OutstandingSend list" where
  "give_up s st = (fst st, snd st @ [s])"

fun slot_outcome :: "u64 \<Rightarrow> OutstandingSend option \<Rightarrow> OutstandingSend option \<Rightarrow> OutstandingSend list \<Rightarrow> bool" where
  "slot_outcome now None slot' lg \<longleftrightarrow> slot' = None"
| "slot_outcome now (Some s) slot' lg \<longleftrightarrow>
     (now < os_deadline_ms s \<and> slot' = Some s)
     \<or> (os_deadline_ms s \<le> now \<and> os_attempts s < 2 \<and> slot' = Some (retried_send now s))
     \<or> (os_deadline_ms s \<le> now \<and> slot' = None \<and> s \<in> set lg)"

lemma slot_outcome_mono: "slot_outcome now a b lg \<Longrightarrow> set lg \<subseteq> set lg' \<Longrightarrow> slot_outcome now a b lg'"
  by (cases a) auto

lemma sweep_slot_outcome:
  assumes "sweep_slot now (ask f) give_up slot (st, lg) = (slot', st', lg')"
  shows "set lg \<subseteq> set lg' \<and> slot_outcome now slot slot' lg'"
proof (cases slot)
  case (Some s)
  then show ?thesis
    using assms
    by (auto simp: sweep_slot_def ask_def give_up_def retried_send_def MAX_SEND_RETRIES_def Let_def
        linorder_not_le split: if_splits prod.splits)
qed (use assms in \<open>simp add: sweep_slot_def\<close>)

lemma sweep_outcome:
  "sweep_expired slots now (ask f) give_up (st, lg) = (slots', st', lg') \<Longrightarrow>
   length slots' = length slots \<and> set lg \<subseteq> set lg'
   \<and> (\<forall>i < length slots. slot_outcome now (slots ! i) (slots' ! i) lg')"
proof (induction slots arbitrary: st lg slots' st' lg')
  case (Cons slot slots)
  obtain slot1 st1 log1 where one: "sweep_slot now (ask f) give_up slot (st, lg) = (slot1, st1, log1)"
    by (metis prod_cases3)
  obtain slots2 st2 log2 where rest: "sweep_expired slots now (ask f) give_up (st1, log1) = (slots2, st2, log2)"
    by (metis prod_cases3)
  have "slots' = slot1 # slots2" "lg' = log2"
    using Cons.prems by (simp_all add: one rest)
  moreover have "slot_outcome now slot slot1 log2"
    using sweep_slot_outcome [OF one] Cons.IH [OF rest] slot_outcome_mono by blast
  ultimately show ?case
    using Cons.IH [OF rest] sweep_slot_outcome [OF one] by (auto simp: nth_Cons split: nat.splits)
qed simp

lemma retry_backoff_bounds:
  assumes "a \<le> 2"
  shows "30000 + 20000 * unat a \<le> unat (retry_backoff_ms a h)"
    and "unat (retry_backoff_ms a h) < 35000 + 20000 * unat a"
proof -
  let ?x = "ucast (h ! 0) * 1103 + ucast (h ! 1) * 71 + ucast (h ! 2) :: u64"
  have a: "unat a \<le> 2"
    using assms by (simp add: word_le_nat_alt)
  have j: "unat (?x mod 5000) < 5000"
    by (simp add: unat_mod)
  have "retry_backoff_ms a h = of_nat (30000 + 20000 * unat a + unat (?x mod 5000))"
    by (simp add: retry_backoff_ms_def DELIVERY_ACK_DEADLINE_MS_def RETRY_BACKOFF_STEP_MS_def
        RETRY_JITTER_MAX_MS_def)
  then have "unat (retry_backoff_ms a h) = 30000 + 20000 * unat a + unat (?x mod 5000)"
    using a j by (simp only: unat_of_nat) simp
  then show "30000 + 20000 * unat a \<le> unat (retry_backoff_ms a h)"
    and "unat (retry_backoff_ms a h) < 35000 + 20000 * unat a"
    using j by simp_all
qed

lemma same_send_trans [trans]: "same_send a b \<Longrightarrow> same_send b c \<Longrightarrow> same_send a c"
  unfolding same_send_def by (cases a; cases b; cases c) simp

lemma same_send_refl [simp]: "same_send s s"
  by (simp add: same_send_def)

text \<open>One sweep of a matured send, when the next sweep comes at least 75 s later.\<close>

lemma matured_outcome:
  assumes "slot_outcome t (Some s) slot' lg" "os_deadline_ms s \<le> t" "unat t + 75000 \<le> unat t'"
  shows "(slot' = None \<and> s \<in> set lg)
    \<or> (\<exists>s'. slot' = Some s' \<and> same_send s s' \<and> unat (os_attempts s') = unat (os_attempts s) + 1
         \<and> unat (os_attempts s) < 2 \<and> os_deadline_ms s' \<le> t')"
proof (cases "slot' = None")
  case False
  then have a: "os_attempts s < 2" and s': "slot' = Some (retried_send t s)"
    using assms(1,2) by auto
  have u: "unat (os_attempts s) < 2"
    using a by (simp add: word_less_nat_alt)
  then have u1: "unat (os_attempts s + 1) = unat (os_attempts s) + 1"
    by (simp add: unat_word_ariths)
  then have le: "os_attempts s + 1 \<le> 2"
    using u by (simp add: word_le_nat_alt)
  let ?b = "retry_backoff_ms (os_attempts s + 1) (os_ack_hash s)"
  have "unat ?b < 75000"
    using retry_backoff_bounds(2) [OF le, of "os_ack_hash s"] u u1 by simp
  moreover have "unat (t + ?b) \<le> unat t + unat ?b"
    by (simp add: unat_word_ariths)
  ultimately have "t + ?b \<le> t'"
    using assms(3) by (simp add: word_le_nat_alt)
  then show ?thesis
    using s' u u1 by (auto simp: retried_send_def same_send_def)
qed (use assms in auto)

definition demo_send :: OutstandingSend where
  "demo_send = \<lparr>os_ack_hash = [1, 2, 3, 4], os_kind = OkDm 7, os_sent_at_ms = 1000, os_deadline_ms = 31000,
     os_attempts = 0, os_frame = zeros 255, os_frame_len = 20\<rparr>"

section \<open>Properties: outstanding sends\<close>

text \<open>the table of outstanding sends loses no send silently: an insert never panics, keeps the
  table's size, and afterwards the tracked sends together with the evicted one are exactly the
  previous ones and the new one; it evicts only when all eight slots are in use, and then an entry
  that was sent first.\<close>

theorem outstanding_insert_conserves:
  assumes "length slots = MAX_OUTSTANDING_SENDS"
  shows "\<exists>slots' ev. sends_insert slots send = Some (slots', ev) \<and> length slots' = length slots
    \<and> mset (live_sends slots') + mset (case ev of None \<Rightarrow> [] | Some o' \<Rightarrow> [o']) = mset (live_sends slots) + {#send#}
    \<and> (ev = None) = (None \<in> set slots)
    \<and> (\<forall>o'. ev = Some o' \<longrightarrow> (\<forall>s \<in> set (live_sends slots). os_sent_at_ms o' \<le> os_sent_at_ms s))"
proof (cases "fill_free slots send")
  case (Some slots')
  then show ?thesis
    using fill_free_spec [of slots send] by (auto simp: sends_insert_def)
next
  case None
  then have no: "None \<notin> set slots"
    by (simp add: fill_free_spec)
  have len: "0 < length slots"
    using assms by (simp add: MAX_OUTSTANDING_SENDS_def TX_QUEUE_SLOTS_def)
  let ?j = "oldest_scan slots 0 0 (- 1)"
  have j: "?j < length slots"
    using oldest_scan_spec [OF no, of 0 0 "- 1"] len by auto
  moreover have "slots ! ?j \<noteq> None"
    using j no nth_mem [of ?j slots] by metis
  ultimately obtain m where m: "slots ! ?j = Some m"
    by auto
  have "\<forall>s \<in> set (live_sends slots). os_sent_at_ms m \<le> os_sent_at_ms s"
    using oldest_scan_spec [OF no, of 0 0 "- 1"] m by (auto intro: order_trans [OF word_order.extremum])
  then show ?thesis
    using j m None no mset_live_update [OF j, of send]
    by (simp add: sends_insert_def get_at_def set_at_def)
qed

theorem outstanding_insert_conserves_witness:
  "\<exists>slots' ev. sends_insert OutstandingSends_new demo_send = Some (slots', ev) \<and> ev = None"
  using outstanding_insert_conserves [of OutstandingSends_new demo_send]
  by (auto simp: OutstandingSends_new_def MAX_OUTSTANDING_SENDS_def TX_QUEUE_SLOTS_def)

text \<open>an inbound acknowledgement settles at most one send: it removes exactly one entry
  waiting for that hash, and when no entry waits for it the table is unchanged.\<close>

theorem outstanding_resolve_exact:
  assumes "sends_resolve slots h = (slots', r)"
  shows "case r of
      None \<Rightarrow> slots' = slots \<and> (\<forall>s \<in> set (live_sends slots). os_ack_hash s \<noteq> h)
    | Some s \<Rightarrow> os_ack_hash s = h \<and> length slots' = length slots
        \<and> mset (live_sends slots) = mset (live_sends slots') + {#s#}"
  using resolve_split [OF assms] .

theorem outstanding_resolve_exact_witness:
  "sends_resolve [None, Some demo_send] [1, 2, 3, 4] = ([None, None], Some demo_send)
   \<and> mset (live_sends [None, Some demo_send]) = mset (live_sends [None, None]) + {#demo_send#}"
proof -
  have r: "sends_resolve [None, Some demo_send] [1, 2, 3, 4] = ([None, None], Some demo_send)"
    by (simp add: demo_send_def)
  show ?thesis
    using outstanding_resolve_exact [OF r] r by simp
qed

text \<open>an unacknowledged send is never retried forever: whatever the retry callback answers, three
  sweeps that each come after the send's deadline (75 s apart is enough) leave its slot empty,
  and the send, with the frame cached when it was created, has been reported undelivered.\<close>

theorem unacked_send_reported:
  assumes "i < length slots" "slots ! i = Some s" "os_attempts s \<le> 2" "os_deadline_ms s \<le> t1"
    and "unat t1 + 75000 \<le> unat t2" "unat t2 + 75000 \<le> unat t3"
    and "sweep_expired slots t1 (ask f) give_up (st, []) = (slots1, st1, lg1)"
    and "sweep_expired slots1 t2 (ask f) give_up (st1, lg1) = (slots2, st2, lg2)"
    and "sweep_expired slots2 t3 (ask f) give_up (st2, lg2) = (slots3, st3, lg3)"
  shows "slots3 ! i = None \<and> (\<exists>s' \<in> set lg3. same_send s s')"
proof -
  note o1 = sweep_outcome [OF assms(7)] and o2 = sweep_outcome [OF assms(8)] and o3 = sweep_outcome [OF assms(9)]
  have i: "i < length slots1" "i < length slots2"
    using o1 o2 assms(1) by simp_all
  have sub: "set lg1 \<subseteq> set lg3" "set lg2 \<subseteq> set lg3"
    using o2 o3 by auto
  have out: "slot_outcome t1 (Some s) (slots1 ! i) lg1" "slot_outcome t2 (slots1 ! i) (slots2 ! i) lg2"
    "slot_outcome t3 (slots2 ! i) (slots3 ! i) lg3"
    using o1 o2 o3 i assms(1,2) by (metis, metis, metis)
  from matured_outcome [OF out(1) assms(4,5)] show ?thesis
  proof
    assume "slots1 ! i = None \<and> s \<in> set lg1"
    then show ?thesis
      using out(2,3) sub(1) by (auto intro: bexI [of _ s])
  next
    assume "\<exists>s'. slots1 ! i = Some s' \<and> same_send s s' \<and> unat (os_attempts s') = unat (os_attempts s) + 1
      \<and> unat (os_attempts s) < 2 \<and> os_deadline_ms s' \<le> t2"
    then obtain s1 where s1: "slots1 ! i = Some s1" "same_send s s1"
      "unat (os_attempts s1) = unat (os_attempts s) + 1" "os_deadline_ms s1 \<le> t2"
      by blast
    from matured_outcome [OF out(2) [unfolded s1(1)] s1(4) assms(6)] show ?thesis
    proof
      assume "slots2 ! i = None \<and> s1 \<in> set lg2"
      then show ?thesis
        using out(3) sub s1(2) by auto
    next
      assume "\<exists>s'. slots2 ! i = Some s' \<and> same_send s1 s' \<and> unat (os_attempts s') = unat (os_attempts s1) + 1
        \<and> unat (os_attempts s1) < 2 \<and> os_deadline_ms s' \<le> t3"
      then obtain s2 where s2: "slots2 ! i = Some s2" "same_send s1 s2"
        "unat (os_attempts s2) = unat (os_attempts s1) + 1" "os_deadline_ms s2 \<le> t3"
        by blast
      have "\<not> os_attempts s2 < 2"
        using s1(3) s2(3) by (simp add: word_less_nat_alt)
      then show ?thesis
        using out(3) s2(1,4) same_send_trans [OF s1(2) s2(2)] by auto
    qed
  qed
qed

theorem unacked_send_reported_witness:
  "\<exists>slots3 st3 lg3.
     sweep_expired [Some (retried_send 106000 (retried_send 31000 demo_send))] 181000
       (ask (\<lambda>s st. (True, st))) give_up ((), []) = (slots3, st3, lg3)
     \<and> slots3 ! 0 = None \<and> (\<exists>s' \<in> set lg3. same_send demo_send s')"
proof -
  let ?f = "\<lambda>s (st :: unit). (True, st)"
  let ?s1 = "retried_send 31000 demo_send"
  let ?s2 = "retried_send 106000 ?s1"
  have 1: "sweep_expired [Some demo_send] 31000 (ask ?f) give_up ((), []) = ([Some ?s1], (), [])"
    by (simp add: demo_send_def sweep_slot_def ask_def retried_send_def MAX_SEND_RETRIES_def)
  have 2: "sweep_expired [Some ?s1] 106000 (ask ?f) give_up ((), []) = ([Some ?s2], (), [])"
    by (simp add: demo_send_def sweep_slot_def ask_def retried_send_def MAX_SEND_RETRIES_def
        retry_backoff_ms_def DELIVERY_ACK_DEADLINE_MS_def RETRY_BACKOFF_STEP_MS_def RETRY_JITTER_MAX_MS_def)
  obtain slots3 st3 lg3 where
    3: "sweep_expired [Some ?s2] 181000 (ask ?f) give_up ((), []) = (slots3, st3, lg3)"
    by (metis prod_cases3)
  have "slots3 ! 0 = None \<and> (\<exists>s' \<in> set lg3. same_send demo_send s')"
    by (rule unacked_send_reported [OF _ _ _ _ _ _ 1 2 3]) (simp_all add: demo_send_def)
  then show ?thesis
    using 3 by blast
qed

section \<open>Lemmas: airtime estimate\<close>

lemma ceiling_nat_div:
  assumes "0 < b"
  shows "\<lceil>(of_nat a :: rat) / of_nat b\<rceil> = int ((a + (b - 1)) div b)"
proof (rule ceiling_unique)
  let ?q = "(a + (b - 1)) div b"
  have "b * ?q \<le> a + (b - 1)" "a + (b - 1) < b * ?q + b"
    using assms by (simp, metis add.commute mult.commute dividend_less_div_times)
  then have q: "b * ?q < a + b" "a \<le> b * ?q"
    using assms by linarith+
  have "(of_nat (b * ?q) :: rat) < of_nat (a + b)" "(of_nat a :: rat) \<le> of_nat (b * ?q)"
    using q by (simp_all only: of_nat_less_iff of_nat_le_iff)
  then show "of_int (int ?q) - 1 < (of_nat a :: rat) / of_nat b" "(of_nat a :: rat) / of_nat b \<le> of_int (int ?q)"
    using assms by (simp_all add: field_simps)
qed

lemma lora_airtime_nat:
  "lora_airtime_ms n =
     of_int (min (int ((41472 + 10240 * ((8 * n + 43) div 28) + 999) div 1000)) (2 ^ 32 - 1))"
proof -
  let ?k = "(8 * n + 43) div 28"
  have "max (8 * of_nat n - 4 * 7 + 28 + 16 * 1 - 20 * 0) 0 = (of_nat (8 * n + 16) :: rat)"
    by simp
  moreover have "\<lceil>(of_nat (8 * n + 16) :: rat) / (4 * 7)\<rceil> = int ?k"
    using ceiling_nat_div [of 28 "8 * n + 16"] by (simp add: add.assoc)
  moreover have "(8 + 17 / 4) * (2 ^ 7 / 62500 * 1000) + (8 + of_int (int ?k) * (1 + 4)) * (2 ^ 7 / 62500 * 1000) =
      (of_nat (41472 + 10240 * ?k) / of_nat 1000 :: rat)"
    by (simp add: field_simps)
  moreover have "\<lceil>(of_nat (41472 + 10240 * ?k) :: rat) / of_nat 1000\<rceil> = int ((41472 + 10240 * ?k + 999) div 1000)"
    using ceiling_nat_div [of 1000 "41472 + 10240 * ?k"] by simp
  ultimately show ?thesis
    unfolding lora_airtime_ms_def Let_def by (simp only:)
qed

section \<open>Properties: airtime estimate\<close>

text \<open>the airtime estimate of a frame of at most 255 bytes, in integer arithmetic: 5 symbols per
  started group of 28 bits above the fixed 20.25, at 2.048 ms each, rounded up; it is between
  52 and 800 ms.\<close>

theorem lora_airtime_closed_form:
  assumes "n \<le> 255"
  shows "unat (lora_airtime_ms n) = (41472 + 10240 * ((8 * n + 43) div 28) + 999) div 1000
    \<and> 52 \<le> unat (lora_airtime_ms n) \<and> unat (lora_airtime_ms n) \<le> 800"
proof -
  let ?k = "(8 * n + 43) div 28" and ?t = "\<lambda>k :: nat. (41472 + 10240 * k + 999) div 1000"
  have "(8 * 0 + 43) div 28 \<le> ?k" "?k \<le> (8 * 255 + 43) div 28"
    using assms by (intro div_le_mono; simp)+
  then have k: "1 \<le> ?k" "?k \<le> 74"
    by simp_all
  then have "?t 1 \<le> ?t ?k" "?t ?k \<le> ?t 74"
    by (intro div_le_mono; simp)+
  then have t: "52 \<le> ?t ?k" "?t ?k \<le> 800"
    by simp_all
  then have "lora_airtime_ms n = of_nat (?t ?k)"
    by (simp add: lora_airtime_nat min_def)
  then have "unat (lora_airtime_ms n) = ?t ?k"
    using t by (simp only: unat_of_nat) simp
  with t show ?thesis
    by simp
qed

theorem lora_airtime_closed_form_witness:
  "unat (lora_airtime_ms 255) = 800 \<and> unat (lora_airtime_ms 0) = 52"
  using lora_airtime_closed_form [of 255] lora_airtime_closed_form [of 0] by simp

end
