(* ===== verification/Room_Codec.thy ===== *)
theory Room_Codec
  imports Codec Bounded_Array
begin

text \<open>
  \<open>protocol/src/room.rs\<close>, client side: login request and response, room posts, pushed posts,
  keep-alives, and the acknowledgement hashes that pair them up.
\<close>

section \<open>Constants, errors, permissions\<close>

datatype RoomCodecError = RC_Codec CodecError | RC_TruncatedPayload | RC_NotSignedPlain | RC_LoginRejected u8

definition PERM_ACL_ROLE_MASK :: u8 where
  "PERM_ACL_ROLE_MASK = 0x03"

datatype RoomPermission = RP_Guest | RP_ReadOnly | RP_ReadWrite | RP_Admin

primrec perm_u8 :: "RoomPermission \<Rightarrow> u8" where
  "perm_u8 RP_Guest = 0"
| "perm_u8 RP_ReadOnly = 1"
| "perm_u8 RP_ReadWrite = 2"
| "perm_u8 RP_Admin = 3"

definition RoomPermission_from_u8 :: "u8 \<Rightarrow> RoomPermission" where
  "RoomPermission_from_u8 raw =
     (let r = raw AND PERM_ACL_ROLE_MASK in
      if r = 0 then RP_Guest else if r = 1 then RP_ReadOnly else if r = 2 then RP_ReadWrite else RP_Admin)"

primrec can_post :: "RoomPermission \<Rightarrow> bool" where
  "can_post RP_Guest = False"
| "can_post RP_ReadOnly = False"
| "can_post RP_ReadWrite = True"
| "can_post RP_Admin = True"

definition TXT_TYPE_PLAIN :: u8 where
  "TXT_TYPE_PLAIN = 0"

definition TXT_TYPE_SIGNED_PLAIN :: u8 where
  "TXT_TYPE_SIGNED_PLAIN = 2"

definition REQ_TYPE_KEEP_ALIVE :: u8 where
  "REQ_TYPE_KEEP_ALIVE = 0x02"

definition RESP_SERVER_LOGIN_OK :: u8 where
  "RESP_SERVER_LOGIN_OK = 0"

definition ANON_REQ_HEADER_LEN :: nat where
  "ANON_REQ_HEADER_LEN = 1 + 32"

definition MAX_LOGIN_PASSWORD_LEN :: nat where
  "MAX_LOGIN_PASSWORD_LEN = 16"

definition MAX_POST_TEXT_LEN :: nat where
  "MAX_POST_TEXT_LEN = 150"

definition KEEP_ALIVE_PLAINTEXT_LEN :: nat where
  "KEEP_ALIVE_PLAINTEXT_LEN = 9"

section \<open>Login\<close>

definition encode_anon_req_login ::
    "crypto_prims \<Rightarrow> bytes \<Rightarrow> u8 \<Rightarrow> bytes \<Rightarrow> u32 \<Rightarrow> u32 \<Rightarrow> bytes \<Rightarrow> bytes \<Rightarrow> (bytes \<times> nat) rust" where
  "encode_anon_req_login C shared_secret dest_hash sender_pubkey timestamp sync_since password out = do {
     let pt = zeros (8 + MAX_LOGIN_PASSWORD_LEN);
     pt \<leftarrow> copy_into pt 0 (to_le32 timestamp);
     pt \<leftarrow> copy_into pt 4 (to_le32 sync_since);
     let pw_len = min (length password) (MAX_LOGIN_PASSWORD_LEN - 1);
     pw \<leftarrow> slice password 0 pw_len;
     pt \<leftarrow> copy_into pt 8 pw;
     let pt_len = 8 + pw_len + 1;
     out \<leftarrow> set_at out 0 dest_hash;
     out \<leftarrow> copy_into out 1 sender_pubkey;
     aes_key \<leftarrow> slice shared_secret 0 16;
     body \<leftarrow> slice_from out ANON_REQ_HEADER_LEN;
     ptn \<leftarrow> slice pt 0 pt_len;
     (body, mac_ct_len) \<leftarrow> encrypt_then_mac_var C aes_key shared_secret ptn body;
     Some (take ANON_REQ_HEADER_LEN out @ body, ANON_REQ_HEADER_LEN + mac_ct_len)
   }"

record LoginResponse =
  lr_server_ts :: u32
  lr_code :: u8
  lr_role_code :: u8
  lr_permissions :: RoomPermission
  lr_firmware_ver_level :: u8

definition decode_login_response :: "bytes \<Rightarrow> RoomCodecError + LoginResponse" where
  "decode_login_response plaintext =
     (if length plaintext < 13 then Inl RC_TruncatedPayload
      else
        let server_ts = from_le32 (plaintext ! 0) (plaintext ! 1) (plaintext ! 2) (plaintext ! 3);
            code = plaintext ! 4;
            role_code = plaintext ! 6;
            permissions = RoomPermission_from_u8 (plaintext ! 7);
            firmware_ver_level = plaintext ! 12 in
        if code \<noteq> RESP_SERVER_LOGIN_OK then Inl (RC_LoginRejected code)
        else Inr \<lparr>lr_server_ts = server_ts, lr_code = code, lr_role_code = role_code,
               lr_permissions = permissions, lr_firmware_ver_level = firmware_ver_level\<rparr>)"

section \<open>Pushed posts\<close>

record RoomPush =
  rp_post_ts :: u32
  rp_attempt :: u8
  rp_author_pubkey_prefix :: bytes
  rp_text_offset :: nat
  rp_text_len :: nat

definition push_body :: "RoomPush \<Rightarrow> bytes \<Rightarrow> bytes rust" where
  "push_body p plaintext_buf = slice plaintext_buf (rp_text_offset p - 4) (rp_text_offset p + rp_text_len p)"

text \<open>\<open>s.iter().position(|&b| b == 0).unwrap_or(s.len())\<close>.\<close>

definition nul_len :: "bytes \<Rightarrow> nat" where
  "nul_len s = (case position (\<lambda>b. b = 0) s of Some i \<Rightarrow> i | None \<Rightarrow> length s)"

definition decode_room_push ::
    "crypto_prims \<Rightarrow> bytes \<Rightarrow> bytes \<Rightarrow> bytes \<Rightarrow> (bytes \<times> (RoomCodecError + u8 \<times> u8 \<times> RoomPush)) rust" where
  "decode_room_push C shared_secret payload plaintext_buf = do {
     (buf, r) \<leftarrow> decode_dm_payload C shared_secret payload plaintext_buf;
     (case r of
        Inl e \<Rightarrow> Some (buf, Inl (RC_Codec e))
      | Inr (dest_hash, src_hash, pt_len) \<Rightarrow> do {
          t \<leftarrow> decode_txt_msg_plaintext buf pt_len;
          (case t of
             Inl e \<Rightarrow> Some (buf, Inl (RC_Codec e))
           | Inr (post_ts, txt_type, attempt, off) \<Rightarrow>
               if txt_type \<noteq> TT_SignedPlain then Some (buf, Inl RC_NotSignedPlain)
               else if pt_len < off + 4 then Some (buf, Inl RC_TruncatedPayload)
               else do {
                 prefix \<leftarrow> slice buf off (off + 4);
                 author_pubkey_prefix \<leftarrow> copy_into (zeros 4) 0 prefix;
                 let text_offset = off + 4;
                 let raw_text_len = pt_len - text_offset;
                 s \<leftarrow> slice buf text_offset (text_offset + raw_text_len);
                 Some (buf, Inr (dest_hash, src_hash,
                   \<lparr>rp_post_ts = post_ts, rp_attempt = attempt,
                    rp_author_pubkey_prefix = author_pubkey_prefix,
                    rp_text_offset = text_offset, rp_text_len = nul_len s\<rparr>))
               })
        })
   }"

definition room_push_ack_hash :: "crypto_prims \<Rightarrow> u32 \<Rightarrow> u8 \<Rightarrow> bytes \<Rightarrow> bytes \<Rightarrow> bytes" where
  "room_push_ack_hash C post_ts attempt body client_pubkey =
     (let type_byte = push_bit 2 TXT_TYPE_SIGNED_PLAIN OR (attempt AND 0x03) in
      compute_ack_hash C post_ts type_byte body client_pubkey)"

section \<open>Posts and keep-alives\<close>

definition encode_room_post ::
    "crypto_prims \<Rightarrow> bytes \<Rightarrow> u8 \<Rightarrow> u8 \<Rightarrow> u32 \<Rightarrow> u8 \<Rightarrow> bytes \<Rightarrow> bytes \<Rightarrow> (bytes \<times> nat) rust" where
  "encode_room_post C shared_secret dest_hash src_hash timestamp attempt msg out = do {
     let pt = zeros (6 + MAX_POST_TEXT_LEN);
     pt \<leftarrow> copy_into pt 0 (to_le32 timestamp);
     pt \<leftarrow> set_at pt 4 (push_bit 2 TXT_TYPE_PLAIN OR (attempt AND 0x03));
     let text_len = min (length msg) MAX_POST_TEXT_LEN;
     s \<leftarrow> slice msg 0 text_len;
     pt \<leftarrow> copy_into pt 5 s;
     let pt_len = 5 + text_len + 1;
     ptn \<leftarrow> slice pt 0 pt_len;
     encode_dm_payload C shared_secret dest_hash src_hash ptn out
   }"

definition room_post_ack_hash :: "crypto_prims \<Rightarrow> u32 \<Rightarrow> u8 \<Rightarrow> bytes \<Rightarrow> bytes \<Rightarrow> bytes" where
  "room_post_ack_hash C timestamp attempt msg client_pubkey =
     (let type_byte = push_bit 2 TXT_TYPE_PLAIN OR (attempt AND 0x03) in
      compute_ack_hash C timestamp type_byte msg client_pubkey)"

definition encode_keep_alive ::
    "crypto_prims \<Rightarrow> bytes \<Rightarrow> u8 \<Rightarrow> u8 \<Rightarrow> u32 \<Rightarrow> u32 \<Rightarrow> bytes \<Rightarrow> (bytes \<times> nat) rust" where
  "encode_keep_alive C shared_secret dest_hash src_hash timestamp force_since out = do {
     let pt = zeros KEEP_ALIVE_PLAINTEXT_LEN;
     pt \<leftarrow> copy_into pt 0 (to_le32 timestamp);
     pt \<leftarrow> set_at pt 4 REQ_TYPE_KEEP_ALIVE;
     pt \<leftarrow> copy_into pt 5 (to_le32 force_since);
     encode_dm_payload C shared_secret dest_hash src_hash pt out
   }"

definition keep_alive_ack_hash :: "crypto_prims \<Rightarrow> u32 \<Rightarrow> u32 \<Rightarrow> bytes \<Rightarrow> bytes" where
  "keep_alive_ack_hash C timestamp force_since client_pubkey =
     compute_ack_hash C timestamp REQ_TYPE_KEEP_ALIVE (to_le32 force_since) client_pubkey"

record KeepAliveAck =
  ka_ack_hash :: bytes
  ka_unsynced_count :: u8

definition decode_keep_alive_ack :: "bytes \<Rightarrow> RoomCodecError + KeepAliveAck" where
  "decode_keep_alive_ack payload =
     (if length payload < 5 then Inl RC_TruncatedPayload
      else Inr \<lparr>ka_ack_hash = take 4 payload, ka_unsynced_count = payload ! 4\<rparr>)"

section \<open>Lemmas\<close>

lemma nul_len_pad:
  assumes "0 \<notin> set msg"
  shows "nul_len (msg @ zeros n) = length msg"
proof -
  have "position (\<lambda>b. b = 0) (msg @ zeros n) = (if n = 0 then None else Some (length msg))"
    using assms by (induction msg) (auto simp: gr0_conv_Suc position_None_iff)
  then show ?thesis
    by (simp add: nul_len_def)
qed

lemma nul_len_spec: "nul_len s \<le> length s \<and> 0 \<notin> set (take (nul_len s) s)"
proof (cases "position (\<lambda>b. b = 0) s")
  case (Some i)
  then show ?thesis
    using position_SomeD [OF Some] by (auto simp: nul_len_def in_set_conv_nth)
next
  case None
  then show ?thesis
    using position_None_iff [of "\<lambda>b. b = 0" s] by (auto simp: nul_len_def)
qed

text \<open>The plaintexts of the protocol as byte strings.\<close>

definition login_bytes :: "u32 \<Rightarrow> u32 \<Rightarrow> bytes \<Rightarrow> bytes" where
  "login_bytes timestamp sync_since password = to_le32 timestamp @ to_le32 sync_since @ password @ [0]"

lemma length_login_bytes [simp]: "length (login_bytes ts ss pw) = 9 + length pw"
  by (simp add: login_bytes_def)

lemma encode_anon_req_login_spec:
  assumes "crypto_ok C" "length secret = 32" "length sender = 32"
    and "w = take 15 pw" "35 + ceil_16 (9 + length w) \<le> length out"
  shows "encode_anon_req_login C secret dest sender ts ss pw out =
    Some (dest # sender @ seal C (take 16 secret) secret (login_bytes ts ss w)
        @ drop (35 + ceil_16 (9 + length w)) out,
      35 + ceil_16 (9 + length w))"
proof -
  let ?n = "ceil_16 (9 + length w)" and ?p = "login_bytes ts ss w"
  have w: "length w \<le> 15" "min (length pw) 15 = length w" "slice pw 0 (length w) = Some w"
    using assms(4) by (simp_all add: slice_def min_def)
  obtain a rest where out: "out = a # rest"
    using assms(5) by (cases out) auto
  have enc: "encrypt_then_mac_var C (take 16 secret) secret ?p (drop 32 rest) =
      Some (seal C (take 16 secret) secret ?p @ drop (2 + ?n) (drop 32 rest), 2 + ?n)"
    using assms(1,2,5) by (subst encrypt_then_mac_var_spec) (simp_all add: out)
  have hdr: "set_at out 0 dest = Some (dest # rest)"
    "copy_into (dest # rest) 1 sender = Some (dest # sender @ drop 32 rest)"
    "slice_from (dest # sender @ drop 32 rest) 33 = Some (drop 32 rest)"
    "slice secret 0 16 = Some (take 16 secret)"
    using assms(2,3,5) by (simp_all add: out rust_simps)
  have steps: "copy_into (zeros 24) 0 (to_le32 ts) = Some (to_le32 ts @ zeros 20)"
    "copy_into (to_le32 ts @ zeros 20) 4 (to_le32 ss) = Some ((to_le32 ts @ to_le32 ss) @ zeros 16)"
    "copy_into ((to_le32 ts @ to_le32 ss) @ zeros 16) 8 w = Some ((to_le32 ts @ to_le32 ss @ w) @ zeros (16 - length w))"
    "slice ((to_le32 ts @ to_le32 ss @ w) @ zeros (16 - length w)) 0 (8 + length w + 1) = Some ?p"
    using w(1) fill_copy [of "[]" 0 "to_le32 ts" 24] fill_copy [of "to_le32 ts" 4 "to_le32 ss" 20]
      fill_copy [of "to_le32 ts @ to_le32 ss" 8 w 16]
      fill_slice [of "to_le32 ts @ to_le32 ss @ w" "8 + length w + 1" "16 - length w"]
    by (simp_all add: login_bytes_def)
  have "8 + 16 = (24 :: nat)" "1 + 32 = (33 :: nat)" "16 - 1 = (15 :: nat)"
    by simp_all
  then show ?thesis
    unfolding encode_anon_req_login_def MAX_LOGIN_PASSWORD_LEN_def ANON_REQ_HEADER_LEN_def Let_def
    by (simp only: w(2,3) steps hdr enc bind.bind_lunit prod.case)
       (simp add: assms(3) out drop_Cons')
qed

lemma encode_room_post_spec:
  assumes "crypto_ok C" "length secret = 32" "m = take 150 msg" "4 + ceil_16 (6 + length m) \<le> length out"
  shows "encode_room_post C secret dest src ts att msg out =
    Some (dest # src # seal C (take 16 secret) secret (txt_msg_bytes ts TXT_TYPE_PLAIN att m @ [0])
        @ drop (4 + ceil_16 (6 + length m)) out, 4 + ceil_16 (6 + length m))"
proof -
  let ?t = "push_bit 2 TXT_TYPE_PLAIN OR (att AND 3)"
  have m: "length m \<le> 150" "min (length msg) 150 = length m" "slice msg 0 (length m) = Some m"
    using assms(3) by (simp_all add: slice_def min_def)
  have steps: "copy_into (zeros 156) 0 (to_le32 ts) = Some (to_le32 ts @ zeros 152)"
    "set_at (to_le32 ts @ zeros 152) 4 ?t = Some ((to_le32 ts @ [?t]) @ zeros 151)"
    "copy_into ((to_le32 ts @ [?t]) @ zeros 151) 5 m = Some ((to_le32 ts @ [?t] @ m) @ zeros (151 - length m))"
    "slice ((to_le32 ts @ [?t] @ m) @ zeros (151 - length m)) 0 (5 + length m + 1) =
       Some (txt_msg_bytes ts TXT_TYPE_PLAIN att m @ [0])"
    using m(1) fill_copy [of "[]" 0 "to_le32 ts" 156] fill_set [of "to_le32 ts" 4 152 ?t]
      fill_copy [of "to_le32 ts @ [?t]" 5 m 151]
      fill_slice [of "to_le32 ts @ [?t] @ m" "5 + length m + 1" "151 - length m"]
    by (simp_all add: txt_msg_bytes_def del: append_Cons)
  have "6 + 150 = (156 :: nat)"
    by simp
  then show ?thesis
    unfolding encode_room_post_def MAX_POST_TEXT_LEN_def Let_def
    using assms(1,2,4)
    by (simp only: m(2,3) steps bind.bind_lunit)
       (subst encode_dm_payload_spec, simp_all)
qed

definition keep_alive_bytes :: "u32 \<Rightarrow> u32 \<Rightarrow> bytes" where
  "keep_alive_bytes timestamp force_since = to_le32 timestamp @ [REQ_TYPE_KEEP_ALIVE] @ to_le32 force_since"

lemma encode_keep_alive_spec:
  assumes "crypto_ok C" "length secret = 32" "20 \<le> length out"
  shows "encode_keep_alive C secret dest src ts fs out =
    Some (dest # src # seal C (take 16 secret) secret (keep_alive_bytes ts fs) @ drop 20 out, 20)"
proof -
  have steps: "copy_into (zeros 9) 0 (to_le32 ts) = Some (to_le32 ts @ zeros 5)"
    "set_at (to_le32 ts @ zeros 5) 4 REQ_TYPE_KEEP_ALIVE = Some ((to_le32 ts @ [REQ_TYPE_KEEP_ALIVE]) @ zeros 4)"
    "copy_into ((to_le32 ts @ [REQ_TYPE_KEEP_ALIVE]) @ zeros 4) 5 (to_le32 fs) = Some (keep_alive_bytes ts fs)"
    using fill_copy [of "[]" 0 "to_le32 ts" 9] fill_set [of "to_le32 ts" 4 5 REQ_TYPE_KEEP_ALIVE]
      fill_copy [of "to_le32 ts @ [REQ_TYPE_KEEP_ALIVE]" 5 "to_le32 fs" 4]
    by (simp_all add: keep_alive_bytes_def)
  have "ceil_16 (length (keep_alive_bytes ts fs)) = 16"
    by (simp add: keep_alive_bytes_def ceil_16_def div_ceil_16_def)
  then show ?thesis
    unfolding encode_keep_alive_def KEEP_ALIVE_PLAINTEXT_LEN_def Let_def
    using assms
    by (simp only: steps bind.bind_lunit) (subst encode_dm_payload_spec, simp_all)
qed

section \<open>Lemmas: pushed posts\<close>

lemma and_bytes [simp]: "TXT_TYPE_SIGNED_PLAIN AND 63 = 2" "TXT_TYPE_PLAIN AND 63 = 0"
  by (simp_all add: TXT_TYPE_SIGNED_PLAIN_def TXT_TYPE_PLAIN_def)

text \<open>What a push decodes to.\<close>

definition pushed :: "u32 \<Rightarrow> u8 \<Rightarrow> bytes \<Rightarrow> bytes \<Rightarrow> RoomPush" where
  "pushed ts att author msg = \<lparr>rp_post_ts = ts, rp_attempt = att AND 3, rp_author_pubkey_prefix = author,
     rp_text_offset = 9, rp_text_len = length msg\<rparr>"

lemma pushed_sel [simp]:
  "rp_post_ts (pushed ts att author msg) = ts" "rp_attempt (pushed ts att author msg) = att AND 3"
  "rp_author_pubkey_prefix (pushed ts att author msg) = author"
  "rp_text_offset (pushed ts att author msg) = 9" "rp_text_len (pushed ts att author msg) = length msg"
  by (simp_all add: pushed_def)

lemma decode_room_push_spec:
  assumes "crypto_ok C" "length secret = 32" "length author = 4" "0 \<notin> set msg"
    and "ceil_16 (9 + length msg) \<le> length buf"
  shows "decode_room_push C secret
      (d # s # seal C (take 16 secret) secret (txt_msg_bytes ts TXT_TYPE_SIGNED_PLAIN att (author @ msg))) buf =
    Some (pad16 (txt_msg_bytes ts TXT_TYPE_SIGNED_PLAIN att (author @ msg)) @ drop (ceil_16 (9 + length msg)) buf,
      Inr (d, s, pushed ts att author msg))"
proof -
  let ?m = "txt_msg_bytes ts TXT_TYPE_SIGNED_PLAIN att (author @ msg)" and ?n = "ceil_16 (9 + length msg)"
  let ?buf = "pad16 ?m @ drop ?n buf"
  have len: "length ?m = 9 + length msg"
    using assms(3) by simp
  have n: "9 + length msg \<le> ?n"
    by (rule ceil_16_ge)
  have dec: "decode_dm_payload C secret (d # s # seal C (take 16 secret) secret ?m) buf = Some (?buf, Inr (d, s, ?n))"
    using assms len by (subst decode_dm_payload_spec) simp_all
  have buf: "?buf = ?m @ zeros (?n - (9 + length msg)) @ drop ?n buf"
    using len by (simp add: pad16_def)
  have tdec: "decode_txt_msg_plaintext ?buf ?n = Some (Inr (ts, TT_SignedPlain, att AND 3, 5))"
    unfolding buf using n decode_txt_msg_plaintext_spec [of ?n] by (simp add: TxtType_from_byte_def)
  have pre: "slice ?buf 5 9 = Some author"
    unfolding buf using assms(3) by (simp add: slice_def txt_msg_bytes_def)
  have body: "slice ?buf 9 ?n = Some (msg @ zeros (?n - (9 + length msg)))"
    unfolding buf using assms(3) n by (simp add: slice_def txt_msg_bytes_def)
  have "9 + (?n - 9) = ?n" "\<not> ?n < 9" "\<not> ?n < 5 + 4"
    using n by simp_all
  then show ?thesis
    unfolding decode_room_push_def dec bind.bind_lunit prod.case sum.case tdec Let_def
    using pre body assms(3)
    by (simp add: copy_into_def nul_len_pad [OF assms(4)] pushed_def)
qed

lemma push_body_spec:
  assumes "length author = 4"
  shows "push_body (pushed ts att author msg) (pad16 (txt_msg_bytes t2 tt att2 (author @ msg)) @ rest) =
    Some (author @ msg)"
proof -
  have "pad16 (txt_msg_bytes t2 tt att2 (author @ msg)) =
      txt_msg_bytes t2 tt att2 (author @ msg) @ zeros (ceil_16 (9 + length msg) - (9 + length msg))"
    using assms by (simp add: pad16_def)
  then show ?thesis
    using assms by (simp add: push_body_def pushed_def slice_def txt_msg_bytes_def)
qed

lemma room_push_decoded:
  assumes "crypto_ok C" "length secret = 32" "length author = 4" "0 \<notin> set msg"
    and "ceil_16 (9 + length msg) \<le> length buf" "4 + ceil_16 (9 + length msg) \<le> length out"
    and "m = txt_msg_bytes ts TXT_TYPE_SIGNED_PLAIN att (author @ msg)"
  shows "\<exists>out' n buf' p. encode_dm_payload C secret d s m out = Some (out', n)
    \<and> decode_room_push C secret (take n out') buf = Some (buf', Inr (d, s, p))
    \<and> rp_post_ts p = ts \<and> rp_attempt p = att AND 3 \<and> rp_author_pubkey_prefix p = author
    \<and> take (rp_text_len p) (drop (rp_text_offset p) buf') = msg
    \<and> map_option (\<lambda>b. room_push_ack_hash C (rp_post_ts p) (rp_attempt p) b client) (push_body p buf') =
        Some (compute_ack_hash C ts (m ! 4) (drop 5 m) client)"
proof -
  let ?n = "ceil_16 (9 + length msg)"
  let ?p = "d # s # seal C (take 16 secret) secret m"
  have len: "length m = 9 + length msg"
    using assms(3,7) by simp
  have enc: "encode_dm_payload C secret d s m out = Some (?p @ drop (4 + ?n) out, 4 + ?n)"
    using assms(1,2,6) len by (subst encode_dm_payload_spec) simp_all
  have "length ?p = 4 + ?n"
    using assms(1,2) len by simp
  moreover have "take (length q) (q @ r) = q" for q r :: bytes
    by simp
  ultimately have tk: "take (4 + ?n) (?p @ drop (4 + ?n) out) = ?p"
    by metis
  have dec: "decode_room_push C secret ?p buf = Some (pad16 m @ drop ?n buf, Inr (d, s, pushed ts att author msg))"
    unfolding assms(7) by (rule decode_room_push_spec [OF assms(1-5)])
  have "pad16 m = txt_msg_bytes ts TXT_TYPE_SIGNED_PLAIN att (author @ msg) @ zeros (?n - (9 + length msg))"
    using assms(3,7) by (simp add: pad16_def)
  then have mtxt: "take (length msg) (drop 9 (pad16 m @ drop ?n buf)) = msg"
    using assms(3) by (simp add: txt_msg_bytes_def)
  have "push_body (pushed ts att author msg) (pad16 m @ drop ?n buf) = Some (author @ msg)"
    unfolding assms(7) by (rule push_body_spec [OF assms(3)])
  moreover have "m ! 4 = push_bit 2 TXT_TYPE_SIGNED_PLAIN OR (att AND 3)" "drop 5 m = author @ msg"
    by (simp_all add: assms(7) txt_msg_bytes_def nth_append)
  moreover have "(att AND 3) AND 3 = att AND 3"
    by (simp add: and.assoc)
  ultimately show ?thesis
    using enc dec tk mtxt unfolding room_push_ack_hash_def Let_def
    by (metis (no_types, lifting) option.simps(9) pushed_sel)
qed

section \<open>Properties\<close>

text \<open>a push sealed by the room server decodes to its timestamp, attempt, author prefix and exact
  text (the AES zero padding is cut off), and the acknowledgement hash the client computes from the
  decoded push is the hash the server waits for.\<close>

theorem room_push_roundtrip:
  assumes "crypto_ok C" "length secret = 32" "length author = 4" "0 \<notin> set msg"
    and "ceil_16 (9 + length msg) \<le> length buf" "4 + ceil_16 (9 + length msg) \<le> length out"
    and "m = txt_msg_bytes ts TXT_TYPE_SIGNED_PLAIN att (author @ msg)"
  shows "\<exists>out' n buf' p. encode_dm_payload C secret d s m out = Some (out', n)
    \<and> decode_room_push C secret (take n out') buf = Some (buf', Inr (d, s, p))
    \<and> rp_post_ts p = ts \<and> rp_attempt p = att AND 3 \<and> rp_author_pubkey_prefix p = author
    \<and> take (rp_text_len p) (drop (rp_text_offset p) buf') = msg
    \<and> map_option (\<lambda>b. room_push_ack_hash C (rp_post_ts p) (rp_attempt p) b client) (push_body p buf') =
        Some (compute_ack_hash C ts (m ! 4) (drop 5 m) client)"
  by (rule room_push_decoded [OF assms])

theorem room_push_roundtrip_witness:
  "\<exists>out' n buf' p. encode_dm_payload demo_prims (replicate 32 7) 1 2
        (txt_msg_bytes 5 TXT_TYPE_SIGNED_PLAIN 0 ([9, 8, 7, 6] @ [104, 105])) (zeros 20) = Some (out', n)
    \<and> decode_room_push demo_prims (replicate 32 7) (take n out') (zeros 16) = Some (buf', Inr (1, 2, p))
    \<and> rp_post_ts p = 5 \<and> take (rp_text_len p) (drop (rp_text_offset p) buf') = [104, 105]"
proof -
  have "ceil_16 (9 + length [104, 105 :: u8]) = 16"
    by (simp add: ceil_16_def div_ceil_16_def)
  then show ?thesis
    using room_push_roundtrip [OF demo_prims_ok, of "replicate 32 7" "[9, 8, 7, 6]" "[104, 105]" "zeros 16"
        "zeros 20" "txt_msg_bytes 5 TXT_TYPE_SIGNED_PLAIN 0 ([9, 8, 7, 6] @ [104, 105])" 5 0 1 2 "[]"]
    by simp blast
qed

text \<open>decoding a push never panics when the buffer can hold the payload, and an accepted push
  has its text inside the decrypted plaintext and free of NUL bytes, so the body the
  acknowledgement covers is always there.\<close>

theorem room_push_safe:
  assumes "crypto_ok C" "length secret = 32" "length payload \<le> length buf + 4"
  shows "\<exists>buf' r. decode_room_push C secret payload buf = Some (buf', r) \<and> length buf' = length buf
    \<and> (\<forall>d s p. r = Inr (d, s, p) \<longrightarrow> rp_text_offset p = 9 \<and> length (rp_author_pubkey_prefix p) = 4
        \<and> 9 + rp_text_len p + 4 \<le> length payload
        \<and> 0 \<notin> set (take (rp_text_len p) (drop 9 buf'))
        \<and> push_body p buf' = Some (rp_author_pubkey_prefix p @ take (rp_text_len p) (drop 9 buf')))"
proof -
  obtain buf' r where dec: "decode_dm_payload C secret payload buf = Some (buf', r)" "length buf' = length buf"
    and n: "\<And>d s n. r = Inr (d, s, n) \<Longrightarrow> n + 4 = length payload"
    using decode_dm_payload_total [of C secret payload buf] assms by auto
  show ?thesis
  proof (cases r)
    case (Inl e)
    then show ?thesis
      using dec by (simp add: decode_room_push_def)
  next
    case (Inr x)
    obtain d s m where r: "r = Inr (d, s, m)"
      using Inr by (cases x) auto
    have m: "m + 4 = length payload" "m \<le> length buf'"
      using n [OF r] assms(3) dec(2) by simp_all
    obtain t where t: "decode_txt_msg_plaintext buf' m = Some t"
      using decode_txt_msg_no_panic [OF m(2)] by auto
    show ?thesis
    proof (cases "\<exists>ts att. t = Inr (ts, TT_SignedPlain, att, 5) \<and> 9 \<le> m")
      case False
      then show ?thesis
        using dec r t
        by (auto simp: decode_room_push_def decode_txt_msg_plaintext_def get_at_def Let_def split: if_splits sum.splits)
    next
      case True
      then obtain ts att where tt: "t = Inr (ts, TT_SignedPlain, att, 5)" and m9: "9 \<le> m"
        by blast
      define k where "k = nul_len (take (m - 9) (drop 9 buf'))"
      have "k \<le> m - 9"
        using nul_len_spec [of "take (m - 9) (drop 9 buf')"] m(2) by (simp add: k_def)
      then have k: "k \<le> m - 9" "0 \<notin> set (take k (drop 9 buf'))"
        using nul_len_spec [of "take (m - 9) (drop 9 buf')"] by (simp_all add: min_def flip: k_def)
      have "9 + k \<le> length buf" "13 + k \<le> length payload"
        using k(1) m m9 dec(2) by linarith+
      moreover have "take (4 + k) (drop 5 buf') = take 4 (drop 5 buf') @ take k (drop 9 buf')"
        by (simp add: take_add)
      ultimately show ?thesis
        using dec r t tt m m9 k
        by (simp add: decode_room_push_def slice_def copy_into_def Let_def push_body_def flip: k_def)
    qed
  qed
qed

theorem room_push_safe_witness:
  "\<exists>buf' r. decode_room_push demo_prims (replicate 32 7) (zeros 20) (zeros 16) = Some (buf', r) \<and> length buf' = 16"
  using room_push_safe [OF demo_prims_ok, of "replicate 32 7" "zeros 20" "zeros 16"] by auto

end
