(* ===== verification/Identity.thy ===== *)
theory Identity
  imports Prelude
begin

text \<open>
  \<open>protocol/src/identity.rs\<close>: the node identity and the shared-secret derivation.  SHA-512, the
  Ed25519 key derivation and signature, point decompression and the X25519 function are
  third-party primitives, gathered in \<open>curve_prims\<close>; what the code does with their bytes (the
  truncation and clamping of the scalar, the panic on an undecodable key, the key split) is
  modelled.  \<open>curve_ok\<close> states the documented behaviour that makes Diffie-Hellman agree.
\<close>

record curve_prims =
  sha512_digest :: "bytes \<Rightarrow> bytes"
  ed25519_public :: "bytes \<Rightarrow> bytes"
  ed25519_sign :: "bytes \<Rightarrow> bytes \<Rightarrow> bytes"
  edwards_to_montgomery :: "bytes \<Rightarrow> bytes option"
  x25519 :: "bytes \<Rightarrow> bytes \<Rightarrow> bytes"

section \<open>Identities\<close>

record Identity =
  id_seed :: bytes
  id_pubkey :: bytes

definition from_seed :: "curve_prims \<Rightarrow> bytes \<Rightarrow> Identity" where
  "from_seed K seed = \<lparr>id_seed = seed, id_pubkey = ed25519_public K seed\<rparr>"

definition id_pub_hash :: "Identity \<Rightarrow> u8" where
  "id_pub_hash i = id_pubkey i ! 0"

definition sign :: "curve_prims \<Rightarrow> Identity \<Rightarrow> bytes \<Rightarrow> bytes" where
  "sign K i msg = ed25519_sign K (id_seed i) msg"

definition ecdh_shared_secret :: "curve_prims \<Rightarrow> Identity \<Rightarrow> bytes \<Rightarrow> bytes rust" where
  "ecdh_shared_secret K i remote_ed25519_pub = do {
     let hash = sha512_digest K (id_seed i);
     h \<leftarrow> slice hash 0 32;
     scalar_bytes \<leftarrow> copy_into (zeros 32) 0 h;
     b0 \<leftarrow> get_at scalar_bytes 0;
     scalar_bytes \<leftarrow> set_at scalar_bytes 0 (b0 AND 248);
     b31 \<leftarrow> get_at scalar_bytes 31;
     scalar_bytes \<leftarrow> set_at scalar_bytes 31 (b31 AND 127);
     b31 \<leftarrow> get_at scalar_bytes 31;
     scalar_bytes \<leftarrow> set_at scalar_bytes 31 (b31 OR 64);
     montgomery \<leftarrow> edwards_to_montgomery K remote_ed25519_pub;
     Some (x25519 K scalar_bytes montgomery)
   }"

definition split_secret :: "bytes \<Rightarrow> (bytes \<times> bytes) rust" where
  "split_secret shared_secret = do {
     k \<leftarrow> slice shared_secret 0 16;
     aes_key \<leftarrow> copy_into (zeros 16) 0 k;
     Some (aes_key, shared_secret)
   }"

section \<open>Lemmas\<close>

text \<open>The X25519 scalar of a seed.\<close>

definition scalar_of :: "curve_prims \<Rightarrow> bytes \<Rightarrow> bytes" where
  "scalar_of K seed =
     (let h = take 32 (sha512_digest K seed) in
      h[0 := h ! 0 AND 248, 31 := (h ! 31 AND 127) OR 64])"

text \<open>
  Digests have 64 bytes and public keys 32; every derived public key decompresses, to the point \<open>base s\<close> of its
  seed's scalar \<open>s\<close>; multiplying that point by another scalar commutes; a shared secret has 32
  bytes.
\<close>

definition curve_ok :: "curve_prims \<Rightarrow> bool" where
  "curve_ok K \<longleftrightarrow>
     (\<forall>d. length (sha512_digest K d) = 64) \<and> (\<forall>s p. length (x25519 K s p) = 32) \<and>
     (\<forall>s. length (ed25519_public K s) = 32) \<and>
     (\<exists>base. (\<forall>seed. edwards_to_montgomery K (ed25519_public K seed) = Some (base (scalar_of K seed)))
        \<and> (\<forall>s t. x25519 K s (base t) = x25519 K t (base s)))"

lemma ecdh_spec:
  assumes "length (sha512_digest K (id_seed i)) = 64"
  shows "ecdh_shared_secret K i p = map_option (x25519 K (scalar_of K (id_seed i))) (edwards_to_montgomery K p)"
proof -
  have "sha512_digest K (id_seed i) \<noteq> []"
    using assms by auto
  with assms show ?thesis
    by (cases "edwards_to_montgomery K p")
       (simp_all add: ecdh_shared_secret_def scalar_of_def rust_simps Let_def)
qed

definition demo_curve :: curve_prims where
  "demo_curve = \<lparr>sha512_digest = (\<lambda>d. take 64 (d @ zeros 64)),
     ed25519_public = (\<lambda>d. let h = take 32 (d @ zeros 64) in h[0 := h ! 0 AND 248, 31 := (h ! 31 AND 127) OR 64]),
     ed25519_sign = (\<lambda>d m. zeros 64), edwards_to_montgomery = Some,
     x25519 = (\<lambda>s p. take 32 (map2 (XOR) s p @ zeros 32))\<rparr>"

lemma demo_curve_ok: "curve_ok demo_curve"
proof -
  have "map2 (XOR) s t = map2 (XOR) t s" for s t :: bytes
    by (simp add: list_eq_iff_nth_eq xor.commute)
  moreover have "min 32 (length seed) = 32 \<or> 32 - length seed > 0" for seed :: bytes
    by linarith
  ultimately show ?thesis
    unfolding curve_ok_def
    by (auto simp: demo_curve_def scalar_of_def Let_def min_def intro!: exI [of _ id])
qed

lemma ecdh_agree:
  assumes "curve_ok K"
  shows "\<exists>s. ecdh_shared_secret K (from_seed K a) (id_pubkey (from_seed K b)) = Some s
    \<and> ecdh_shared_secret K (from_seed K b) (id_pubkey (from_seed K a)) = Some s \<and> length s = 32"
proof -
  obtain base where "\<And>seed. edwards_to_montgomery K (ed25519_public K seed) = Some (base (scalar_of K seed))"
    "\<And>s t. x25519 K s (base t) = x25519 K t (base s)"
    using assms by (auto simp: curve_ok_def)
  moreover have "length (sha512_digest K d) = 64" "length (x25519 K s p) = 32" for d s p
    using assms by (simp_all add: curve_ok_def)
  ultimately show ?thesis
    by (simp add: ecdh_spec from_seed_def)
qed

section \<open>Properties\<close>

text \<open>two nodes derive the same 32-byte shared secret, each from its own seed and the other's
  public key, without a panic.\<close>

theorem ecdh_agreement:
  assumes "curve_ok K"
  shows "\<exists>s. ecdh_shared_secret K (from_seed K a) (id_pubkey (from_seed K b)) = Some s
    \<and> ecdh_shared_secret K (from_seed K b) (id_pubkey (from_seed K a)) = Some s \<and> length s = 32"
  by (rule ecdh_agree [OF assms])

theorem ecdh_agreement_witness:
  "\<exists>s. ecdh_shared_secret demo_curve (from_seed demo_curve (replicate 32 5)) (id_pubkey (from_seed demo_curve (replicate 32 9))) = Some s
    \<and> length s = 32"
  using ecdh_agreement [OF demo_curve_ok, of "replicate 32 5" "replicate 32 9"] by blast

text \<open>the shared-secret derivation panics exactly on public keys that do not decompress.\<close>

theorem ecdh_panics_iff:
  assumes "curve_ok K"
  shows "ecdh_shared_secret K i p = panic \<longleftrightarrow> edwards_to_montgomery K p = None"
  using assms by (simp add: ecdh_spec curve_ok_def)

theorem ecdh_panics_iff_witness:
  "ecdh_shared_secret demo_curve (from_seed demo_curve []) [1] \<noteq> panic"
  using ecdh_panics_iff [OF demo_curve_ok] by (simp add: demo_curve_def)

end
