(* ===== verification/Room_Server.thy ===== *)
theory Room_Server
  imports Room_Codec Identity
begin

text \<open>
  \<open>protocol/src/room.rs\<close>, the room server: registered clients, the cyclic post queue, the unique
  server clock, and the handlers for logins, posts, pushes, acknowledgements and keep-alives.
  A handler returns the server's new state, the output buffer where it has one, and its
  optional reply; the outer option is a panic.  The push mechanism is a serialized drip; the
  server invariant makes it deliver every post, oldest first.
\<close>

section \<open>State\<close>

definition MAX_ROOM_CLIENTS :: nat where
  "MAX_ROOM_CLIENTS = 8"

definition MAX_UNSYNCED_POSTS :: nat where
  "MAX_UNSYNCED_POSTS = 32"

record DoubleClient =
  dc_used :: bool
  dc_pubkey :: bytes
  dc_shared_secret :: bytes
  dc_permissions :: RoomPermission
  dc_sync_since :: u32
  dc_last_timestamp :: u32
  dc_pending_ack :: "bytes option"
  dc_push_post_ts :: u32

definition DoubleClient_EMPTY :: DoubleClient where
  "DoubleClient_EMPTY = \<lparr>dc_used = False, dc_pubkey = zeros 32, dc_shared_secret = zeros 32,
     dc_permissions = RP_Guest, dc_sync_since = 0, dc_last_timestamp = 0, dc_pending_ack = None,
     dc_push_post_ts = 0\<rparr>"

record DoublePost =
  dp_used :: bool
  dp_author_pubkey :: bytes
  dp_timestamp :: u32
  dp_text :: bytes
  dp_text_len :: nat

definition DoublePost_EMPTY :: DoublePost where
  "DoublePost_EMPTY = \<lparr>dp_used = False, dp_author_pubkey = zeros 32, dp_timestamp = 0,
     dp_text = zeros MAX_POST_TEXT_LEN, dp_text_len = 0\<rparr>"

record ServerClock =
  ck_current_time :: u32
  ck_last_unique :: u32

definition current_time_unique :: "ServerClock \<Rightarrow> ServerClock \<times> u32" where
  "current_time_unique c =
     (let t = ck_current_time c;
          u = (if t \<le> ck_last_unique c then ck_last_unique c + 1 else t) in
      (c\<lparr>ck_last_unique := u\<rparr>, u))"

record RoomServerDouble =
  rs_identity :: Identity
  rs_admin_password :: bytes
  rs_admin_password_len :: nat
  rs_guest_password :: bytes
  rs_guest_password_len :: nat
  rs_allow_read_only :: bool
  rs_clients :: "DoubleClient list"
  rs_posts :: "DoublePost list"
  rs_next_post_idx :: nat
  rs_clock :: ServerClock

definition RoomServerDouble_new :: "Identity \<Rightarrow> bytes \<Rightarrow> bytes \<Rightarrow> bool \<Rightarrow> RoomServerDouble rust" where
  "RoomServerDouble_new identity admin_password guest_password allow_read_only = do {
     let admin_password_len = min (length admin_password) (MAX_LOGIN_PASSWORD_LEN - 1);
     s \<leftarrow> slice admin_password 0 admin_password_len;
     admin \<leftarrow> copy_into (zeros MAX_LOGIN_PASSWORD_LEN) 0 s;
     let guest_password_len = min (length guest_password) (MAX_LOGIN_PASSWORD_LEN - 1);
     s \<leftarrow> slice guest_password 0 guest_password_len;
     guest \<leftarrow> copy_into (zeros MAX_LOGIN_PASSWORD_LEN) 0 s;
     Some \<lparr>rs_identity = identity, rs_admin_password = admin, rs_admin_password_len = admin_password_len,
       rs_guest_password = guest, rs_guest_password_len = guest_password_len,
       rs_allow_read_only = allow_read_only,
       rs_clients = replicate MAX_ROOM_CLIENTS DoubleClient_EMPTY,
       rs_posts = replicate MAX_UNSYNCED_POSTS DoublePost_EMPTY, rs_next_post_idx = 0,
       rs_clock = \<lparr>ck_current_time = 0, ck_last_unique = 0\<rparr>\<rparr>
   }"

definition set_server_time :: "RoomServerDouble \<Rightarrow> u32 \<Rightarrow> RoomServerDouble" where
  "set_server_time srv time = srv\<lparr>rs_clock := (rs_clock srv)\<lparr>ck_current_time := time\<rparr>\<rparr>"

definition client_idx :: "RoomServerDouble \<Rightarrow> bytes \<Rightarrow> nat option" where
  "client_idx srv pubkey = position (\<lambda>c. dc_used c \<and> dc_pubkey c = pubkey) (rs_clients srv)"

definition find_or_register_client :: "RoomServerDouble \<Rightarrow> bytes \<Rightarrow> nat option" where
  "find_or_register_client srv pubkey =
     (case client_idx srv pubkey of
        Some i \<Rightarrow> Some i
      | None \<Rightarrow> position (\<lambda>c. \<not> dc_used c) (rs_clients srv))"

section \<open>Logins\<close>

definition login_permission :: "RoomServerDouble \<Rightarrow> bytes \<Rightarrow> RoomPermission option rust" where
  "login_permission srv password = do {
     admin \<leftarrow> slice (rs_admin_password srv) 0 (rs_admin_password_len srv);
     guest \<leftarrow> slice (rs_guest_password srv) 0 (rs_guest_password_len srv);
     Some (if password \<noteq> [] \<and> password = admin then Some RP_Admin
           else if password \<noteq> [] \<and> password = guest then Some RP_ReadWrite
           else if rs_allow_read_only srv then Some RP_Guest
           else None)
   }"

definition login_reply :: "u32 \<Rightarrow> RoomPermission \<Rightarrow> bytes" where
  "login_reply server_ts permissions =
     to_le32 server_ts @
     [RESP_SERVER_LOGIN_OK, 0, (case permissions of RP_Admin \<Rightarrow> 1 | RP_Guest \<Rightarrow> 2 | _ \<Rightarrow> 0),
      perm_u8 permissions, 0xAA, 0xBB, 0xCC, 0xDD, 1]"

text \<open>\<open>handle_login\<close> from the length check of the decrypted request on.\<close>

definition login_decrypted ::
    "crypto_prims \<Rightarrow> RoomServerDouble \<Rightarrow> bytes \<Rightarrow> bytes \<Rightarrow> bytes \<Rightarrow> nat \<Rightarrow> bytes \<Rightarrow>
     (RoomServerDouble \<times> bytes \<times> nat option) rust" where
  "login_decrypted C srv sender_pubkey shared_secret pt pt_len out =
     (if pt_len < 9 then Some (srv, out, None)
      else do {
        let timestamp = from_le32 (pt ! 0) (pt ! 1) (pt ! 2) (pt ! 3);
        let sync_since = from_le32 (pt ! 4) (pt ! 5) (pt ! 6) (pt ! 7);
        rest \<leftarrow> slice pt 8 pt_len;
        let password = take (nul_len rest) rest;
        perm \<leftarrow> login_permission srv password;
        (case perm of
           None \<Rightarrow> Some (srv, out, None)
         | Some permissions \<Rightarrow>
             (case find_or_register_client srv sender_pubkey of
                None \<Rightarrow> Some (srv, out, None)
              | Some idx \<Rightarrow> do {
                  c \<leftarrow> get_at (rs_clients srv) idx;
                  if dc_used c \<and> timestamp \<le> dc_last_timestamp c then Some (srv, out, None)
                  else do {
                    clients \<leftarrow> set_at (rs_clients srv) idx
                      (c\<lparr>dc_used := True, dc_pubkey := sender_pubkey,
                         dc_shared_secret := shared_secret, dc_permissions := permissions,
                         dc_sync_since := sync_since, dc_last_timestamp := timestamp,
                         dc_pending_ack := None\<rparr>);
                    let (clock, server_ts) = current_time_unique (rs_clock srv);
                    let srv = srv\<lparr>rs_clients := clients, rs_clock := clock\<rparr>;
                    (out, n) \<leftarrow> encode_dm_payload C shared_secret (sender_pubkey ! 0)
                      (id_pub_hash (rs_identity srv)) (login_reply server_ts permissions) out;
                    Some (srv, out, Some n)
                  }
                }))
      })"

definition handle_login ::
    "crypto_prims \<Rightarrow> curve_prims \<Rightarrow> RoomServerDouble \<Rightarrow> bytes \<Rightarrow> bytes \<Rightarrow>
     (RoomServerDouble \<times> bytes \<times> nat option) rust" where
  "handle_login C K srv anon_req_payload out =
     (if length anon_req_payload < ANON_REQ_HEADER_LEN + 2 then Some (srv, out, None)
      else if anon_req_payload ! 0 \<noteq> id_pub_hash (rs_identity srv) then Some (srv, out, None)
      else do {
        sender_pubkey \<leftarrow> slice anon_req_payload 1 ANON_REQ_HEADER_LEN;
        shared_secret \<leftarrow> ecdh_shared_secret K (rs_identity srv) sender_pubkey;
        aes_key \<leftarrow> slice shared_secret 0 16;
        let mac_and_ct = drop ANON_REQ_HEADER_LEN anon_req_payload;
        (pt, r) \<leftarrow> mac_then_decrypt_var C aes_key shared_secret mac_and_ct (zeros 64);
        (case r of
           Inl _ \<Rightarrow> Some (srv, out, None)
         | Inr pt_len \<Rightarrow> login_decrypted C srv sender_pubkey shared_secret pt pt_len out)
      })"

section \<open>Posts and pushes\<close>

definition seed_post :: "RoomServerDouble \<Rightarrow> bytes \<Rightarrow> u32 \<Rightarrow> bytes \<Rightarrow> RoomServerDouble rust" where
  "seed_post srv author_pubkey timestamp msg = do {
     let idx = rs_next_post_idx srv;
     let text_len = min (length msg) MAX_POST_TEXT_LEN;
     s \<leftarrow> slice msg 0 text_len;
     buf \<leftarrow> copy_into (zeros MAX_POST_TEXT_LEN) 0 s;
     posts \<leftarrow> set_at (rs_posts srv) idx
       \<lparr>dp_used = True, dp_author_pubkey = author_pubkey, dp_timestamp = timestamp,
        dp_text = buf, dp_text_len = text_len\<rparr>;
     Some (srv\<lparr>rs_posts := posts, rs_next_post_idx := (rs_next_post_idx srv + 1) mod MAX_UNSYNCED_POSTS\<rparr>)
   }"

definition eligible :: "DoublePost \<Rightarrow> u32 \<Rightarrow> bytes \<Rightarrow> bool" where
  "eligible p sync_since client_pubkey \<longleftrightarrow>
     dp_used p \<and> dp_timestamp p > sync_since \<and> dp_author_pubkey p \<noteq> client_pubkey"

text \<open>The scan of \<open>push_next\<close> from the oldest slot; \<open>n\<close> offsets left, starting at \<open>k\<close>.\<close>

fun choose_post :: "RoomServerDouble \<Rightarrow> u32 \<Rightarrow> bytes \<Rightarrow> nat \<Rightarrow> nat \<Rightarrow> nat option rust" where
  "choose_post srv sync_since client_pubkey 0 k = Some None"
| "choose_post srv sync_since client_pubkey (Suc n) k = do {
     let pidx = (rs_next_post_idx srv + k) mod MAX_UNSYNCED_POSTS;
     p \<leftarrow> get_at (rs_posts srv) pidx;
     if eligible p sync_since client_pubkey then Some (Some pidx)
     else choose_post srv sync_since client_pubkey n (Suc k)
   }"

definition push_next ::
    "crypto_prims \<Rightarrow> RoomServerDouble \<Rightarrow> bytes \<Rightarrow> bytes \<Rightarrow> (RoomServerDouble \<times> bytes \<times> nat option) rust" where
  "push_next C srv client_pubkey out =
     (case client_idx srv client_pubkey of
        None \<Rightarrow> Some (srv, out, None)
      | Some idx \<Rightarrow> do {
          c \<leftarrow> get_at (rs_clients srv) idx;
          if dc_pending_ack c \<noteq> None then Some (srv, out, None)
          else do {
            chosen \<leftarrow> choose_post srv (dc_sync_since c) client_pubkey MAX_UNSYNCED_POSTS 0;
            (case chosen of
               None \<Rightarrow> Some (srv, out, None)
             | Some pidx \<Rightarrow> do {
                 post \<leftarrow> get_at (rs_posts srv) pidx;
                 let attempt = (0 :: u8);
                 let pt = zeros (9 + MAX_POST_TEXT_LEN);
                 pt \<leftarrow> copy_into pt 0 (to_le32 (dp_timestamp post));
                 pt \<leftarrow> set_at pt 4 (push_bit 2 TXT_TYPE_SIGNED_PLAIN OR (attempt AND 0x03));
                 author \<leftarrow> slice (dp_author_pubkey post) 0 4;
                 pt \<leftarrow> copy_into pt 5 author;
                 s \<leftarrow> slice (dp_text post) 0 (dp_text_len post);
                 pt \<leftarrow> copy_into pt 9 s;
                 let pt_len = 9 + dp_text_len post;
                 body \<leftarrow> slice pt 5 pt_len;
                 let ack_hash = compute_ack_hash C (dp_timestamp post) (pt ! 4) body client_pubkey;
                 clients \<leftarrow> set_at (rs_clients srv) idx
                   (c\<lparr>dc_pending_ack := Some ack_hash, dc_push_post_ts := dp_timestamp post\<rparr>);
                 ptn \<leftarrow> slice pt 0 pt_len;
                 (out, n) \<leftarrow> encode_dm_payload C (dc_shared_secret c) (client_pubkey ! 0)
                   (id_pub_hash (rs_identity srv)) ptn out;
                 Some (srv\<lparr>rs_clients := clients\<rparr>, out, Some n)
               })
          }
        })"

definition handle_push_ack :: "RoomServerDouble \<Rightarrow> bytes \<Rightarrow> bytes \<Rightarrow> (RoomServerDouble \<times> bool) rust" where
  "handle_push_ack srv client_pubkey ack =
     (case client_idx srv client_pubkey of
        None \<Rightarrow> Some (srv, False)
      | Some idx \<Rightarrow> do {
          c \<leftarrow> get_at (rs_clients srv) idx;
          if dc_pending_ack c = Some ack then do {
            clients \<leftarrow> set_at (rs_clients srv) idx
              (c\<lparr>dc_pending_ack := None, dc_sync_since := dc_push_post_ts c\<rparr>);
            Some (srv\<lparr>rs_clients := clients\<rparr>, True)
          } else Some (srv, False)
        })"

definition handle_post ::
    "crypto_prims \<Rightarrow> RoomServerDouble \<Rightarrow> bytes \<Rightarrow> bytes \<Rightarrow> (RoomServerDouble \<times> bytes option) rust" where
  "handle_post C srv client_pubkey payload =
     (case client_idx srv client_pubkey of
        None \<Rightarrow> Some (srv, None)
      | Some idx \<Rightarrow> do {
          c \<leftarrow> get_at (rs_clients srv) idx;
          (pt, r) \<leftarrow> decode_dm_payload C (dc_shared_secret c) payload (zeros 256);
          (case r of
             Inl _ \<Rightarrow> Some (srv, None)
           | Inr (_, _, pt_len) \<Rightarrow> do {
               t \<leftarrow> decode_txt_msg_plaintext pt pt_len;
               (case t of
                  Inl _ \<Rightarrow> Some (srv, None)
                | Inr (timestamp, txt_type, attempt, off) \<Rightarrow>
                    if txt_type \<noteq> TT_Plain then Some (srv, None)
                    else if timestamp < dc_last_timestamp c then Some (srv, None)
                    else do {
                      let is_retry = (timestamp = dc_last_timestamp c);
                      clients \<leftarrow> set_at (rs_clients srv) idx (c\<lparr>dc_last_timestamp := timestamp\<rparr>);
                      let srv = srv\<lparr>rs_clients := clients\<rparr>;
                      if \<not> can_post (dc_permissions c) then Some (srv, None)
                      else do {
                        rest \<leftarrow> slice pt off pt_len;
                        let msg = take (nul_len rest) rest;
                        srv \<leftarrow> (if \<not> is_retry then
                                 (let (clock, server_ts) = current_time_unique (rs_clock srv) in
                                  seed_post (srv\<lparr>rs_clock := clock\<rparr>) client_pubkey server_ts msg)
                               else Some srv);
                        Some (srv, Some (room_post_ack_hash C timestamp attempt msg client_pubkey))
                      }
                    })
             })
        })"

section \<open>Keep-alives and queries\<close>

text \<open>The counting loop, with \<open>saturating_add\<close> on a byte.\<close>

fun count_unsynced :: "DoublePost list \<Rightarrow> u32 \<Rightarrow> bytes \<Rightarrow> u8 \<Rightarrow> u8" where
  "count_unsynced [] sync_since pubkey n = n"
| "count_unsynced (p # ps) sync_since pubkey n =
     count_unsynced ps sync_since pubkey
       (if eligible p sync_since pubkey then (if n = - 1 then n else n + 1) else n)"

definition unsynced_count :: "RoomServerDouble \<Rightarrow> nat \<Rightarrow> u8 rust" where
  "unsynced_count srv idx = do {
     c \<leftarrow> get_at (rs_clients srv) idx;
     Some (count_unsynced (rs_posts srv) (dc_sync_since c) (dc_pubkey c) 0)
   }"

definition handle_keep_alive ::
    "crypto_prims \<Rightarrow> RoomServerDouble \<Rightarrow> bytes \<Rightarrow> bytes \<Rightarrow> (RoomServerDouble \<times> bytes option) rust" where
  "handle_keep_alive C srv client_pubkey payload =
     (case client_idx srv client_pubkey of
        None \<Rightarrow> Some (srv, None)
      | Some idx \<Rightarrow> do {
          c \<leftarrow> get_at (rs_clients srv) idx;
          (pt, r) \<leftarrow> decode_dm_payload C (dc_shared_secret c) payload (zeros 32);
          (case r of
             Inl _ \<Rightarrow> Some (srv, None)
           | Inr (_, _, pt_len) \<Rightarrow>
               if pt_len < 5 \<or> pt ! 4 \<noteq> REQ_TYPE_KEEP_ALIVE then Some (srv, None)
               else
                 let timestamp = from_le32 (pt ! 0) (pt ! 1) (pt ! 2) (pt ! 3) in
                 if timestamp < dc_last_timestamp c then Some (srv, None)
                 else do {
                   let force_since = (if pt_len \<ge> 9 then from_le32 (pt ! 5) (pt ! 6) (pt ! 7) (pt ! 8) else 0);
                   clients \<leftarrow> set_at (rs_clients srv) idx
                     (c\<lparr>dc_last_timestamp := timestamp,
                        dc_sync_since := (if force_since > 0 then force_since else dc_sync_since c),
                        dc_pending_ack := None\<rparr>);
                   let srv = srv\<lparr>rs_clients := clients\<rparr>;
                   n \<leftarrow> unsynced_count srv idx;
                   let ack_hash = keep_alive_ack_hash C timestamp force_since client_pubkey;
                   Some (srv, Some (ack_hash @ [n]))
                 })
        })"

definition client_permissions :: "RoomServerDouble \<Rightarrow> bytes \<Rightarrow> RoomPermission option" where
  "client_permissions srv client_pubkey =
     map_option (\<lambda>i. dc_permissions (rs_clients srv ! i)) (client_idx srv client_pubkey)"

definition client_sync_since :: "RoomServerDouble \<Rightarrow> bytes \<Rightarrow> u32 option" where
  "client_sync_since srv client_pubkey =
     map_option (\<lambda>i. dc_sync_since (rs_clients srv ! i)) (client_idx srv client_pubkey)"

definition client_pending_ack :: "RoomServerDouble \<Rightarrow> bytes \<Rightarrow> bytes option" where
  "client_pending_ack srv client_pubkey =
     Option.bind (client_idx srv client_pubkey) (\<lambda>i. dc_pending_ack (rs_clients srv ! i))"

section \<open>The server invariant\<close>

text \<open>The post queue, oldest slot first.\<close>

definition posts_view :: "RoomServerDouble \<Rightarrow> DoublePost list" where
  "posts_view srv = drop (rs_next_post_idx srv) (rs_posts srv) @ take (rs_next_post_idx srv) (rs_posts srv)"

text \<open>The posts of a list are in strictly increasing time, none later than \<open>bound\<close>.\<close>

definition chronological :: "DoublePost list \<Rightarrow> u32 \<Rightarrow> bool" where
  "chronological ps bound \<longleftrightarrow> sorted_wrt (\<lambda>p q. dp_timestamp p < dp_timestamp q) (filter dp_used ps)
     \<and> (\<forall>p \<in> set ps. dp_used p \<longrightarrow> dp_timestamp p \<le> bound)"

definition post_ok :: "DoublePost \<Rightarrow> bool" where
  "post_ok p \<longleftrightarrow> length (dp_author_pubkey p) = 32 \<and> length (dp_text p) = 150 \<and> dp_text_len p \<le> 150
     \<and> 0 \<notin> set (take (dp_text_len p) (dp_text p)) \<or> \<not> dp_used p"

definition client_ok :: "DoubleClient \<Rightarrow> bool" where
  "client_ok c \<longleftrightarrow> length (dc_pubkey c) = 32 \<and> length (dc_shared_secret c) = 32 \<or> \<not> dc_used c"

definition clients_ok :: "DoubleClient list \<Rightarrow> bool" where
  "clients_ok cs \<longleftrightarrow> length cs = 8 \<and> (\<forall>i < 8. client_ok (cs ! i))
     \<and> (\<forall>i < 8. \<forall>j < 8. dc_used (cs ! i) \<longrightarrow> dc_used (cs ! j) \<longrightarrow> dc_pubkey (cs ! i) = dc_pubkey (cs ! j) \<longrightarrow> i = j)"

definition posts_ok :: "RoomServerDouble \<Rightarrow> bool" where
  "posts_ok srv \<longleftrightarrow> length (rs_posts srv) = 32 \<and> rs_next_post_idx srv < 32 \<and> list_all post_ok (rs_posts srv)
     \<and> chronological (posts_view srv) (ck_last_unique (rs_clock srv))"

definition passwords_ok :: "RoomServerDouble \<Rightarrow> bool" where
  "passwords_ok srv \<longleftrightarrow> length (rs_admin_password srv) = 16 \<and> rs_admin_password_len srv \<le> 15
     \<and> length (rs_guest_password srv) = 16 \<and> rs_guest_password_len srv \<le> 15"

definition server_inv :: "RoomServerDouble \<Rightarrow> bool" where
  "server_inv srv \<longleftrightarrow> clients_ok (rs_clients srv) \<and> posts_ok srv \<and> passwords_ok srv"

section \<open>Lemmas: clients\<close>

lemma client_idx_Some:
  assumes "client_idx srv pk = Some i" "clients_ok (rs_clients srv)"
  shows "i < 8" "dc_used (rs_clients srv ! i)" "dc_pubkey (rs_clients srv ! i) = pk"
    "get_at (rs_clients srv) i = Some (rs_clients srv ! i)" "client_ok (rs_clients srv ! i)"
  using position_SomeD [OF assms(1) [unfolded client_idx_def]] assms(2)
  by (auto simp: clients_ok_def get_at_def)

text \<open>Changing anything but the key of a registered client keeps the table well formed.\<close>

lemma clients_ok_update:
  assumes "clients_ok cs" "i < 8" "client_ok c" "dc_used c = dc_used (cs ! i)" "dc_pubkey c = dc_pubkey (cs ! i)"
  shows "clients_ok (cs[i := c])" "set_at cs i c = Some (cs[i := c])"
  using assms by (auto simp: clients_ok_def nth_list_update set_at_def)

text \<open>Registering a client in a free slot under a key that is not in use.\<close>

lemma clients_ok_register:
  assumes "clients_ok cs" "i < 8" "client_ok c" "\<And>j. j < 8 \<Longrightarrow> j \<noteq> i \<Longrightarrow> dc_used (cs ! j) \<Longrightarrow> dc_pubkey (cs ! j) \<noteq> dc_pubkey c"
  shows "clients_ok (cs[i := c])" "set_at cs i c = Some (cs[i := c])"
proof -
  have "dc_pubkey c \<noteq> dc_pubkey (cs ! j)" if "j < 8" "j \<noteq> i" "dc_used (cs ! j)" for j
    using assms(4) that by metis
  then show "clients_ok (cs[i := c])"
    using assms by (auto simp: clients_ok_def nth_list_update)
  show "set_at cs i c = Some (cs[i := c])"
    using assms(1,2) by (simp add: clients_ok_def set_at_def)
qed

lemma client_idx_update:
  assumes "clients_ok (rs_clients srv)" "i < 8" "rs_clients srv' = (rs_clients srv)[i := c]"
    and "dc_used c = dc_used (rs_clients srv ! i)" "dc_pubkey c = dc_pubkey (rs_clients srv ! i)"
  shows "client_idx srv' pk = client_idx srv pk"
proof -
  let ?P = "\<lambda>c. dc_used c \<and> dc_pubkey c = pk"
  have "position ?P (cs[i := c]) = position ?P cs" if "i < length cs" "?P c = ?P (cs ! i)" for cs :: "DoubleClient list"
    using that
  proof (induction cs arbitrary: i)
    case (Cons x cs)
    then show ?case
      by (cases i) auto
  qed simp
  then show ?thesis
    using assms by (simp add: client_idx_def clients_ok_def)
qed

section \<open>Lemmas: posts\<close>

lemma length_posts_view [simp]: "posts_ok srv \<Longrightarrow> length (posts_view srv) = 32"
  by (simp add: posts_view_def posts_ok_def)

lemma set_posts_view: "set (posts_view srv) = set (rs_posts srv)"
  unfolding posts_view_def by (metis append_take_drop_id set_append sup_commute)

lemma posts_view_nth:
  assumes "posts_ok srv" "k < 32"
  shows "posts_view srv ! k = rs_posts srv ! ((rs_next_post_idx srv + k) mod 32)"
proof -
  let ?n = "rs_next_post_idx srv"
  have n: "?n < 32" "length (rs_posts srv) = 32"
    using assms(1) by (simp_all add: posts_ok_def)
  show ?thesis
  proof (cases "?n + k < 32")
    case True
    then show ?thesis
      using n by (simp add: posts_view_def nth_append)
  next
    case False
    then have "(?n + k) mod 32 = ?n + k - 32"
      using n assms(2) by (simp add: mod_if)
    then show ?thesis
      using False n assms(2) by (auto simp: posts_view_def nth_append add.commute)
  qed
qed

lemma choose_post_spec:
  assumes "posts_ok srv"
  shows "k + n \<le> 32 \<Longrightarrow> choose_post srv ss pk n k =
    Some (map_option (\<lambda>j. (rs_next_post_idx srv + k + j) mod 32)
      (position (\<lambda>p. eligible p ss pk) (take n (drop k (posts_view srv)))))"
proof (induction n arbitrary: k)
  case (Suc n)
  have "drop k (posts_view srv) = posts_view srv ! k # drop (Suc k) (posts_view srv)"
    using Suc.prems assms by (simp add: Cons_nth_drop_Suc)
  moreover have "get_at (rs_posts srv) ((rs_next_post_idx srv + k) mod 32) = Some (posts_view srv ! k)"
    using Suc.prems assms posts_view_nth [OF assms, of k] by (simp add: get_at_def posts_ok_def)
  moreover have "rs_next_post_idx srv + Suc k + j = rs_next_post_idx srv + k + Suc j" for j
    by simp
  ultimately show ?case
    using Suc by (auto simp: MAX_UNSYNCED_POSTS_def option.map_comp comp_def)
qed simp

text \<open>The post \<open>push_next\<close> picks.\<close>

definition next_post :: "RoomServerDouble \<Rightarrow> u32 \<Rightarrow> bytes \<Rightarrow> DoublePost option" where
  "next_post srv ss pk = find (\<lambda>p. eligible p ss pk) (posts_view srv)"

lemma find_position: "find P xs = map_option (\<lambda>i. xs ! i) (position P xs)"
  by (induction xs) (auto simp: option.map_comp comp_def)

lemma choose_post_next:
  assumes "posts_ok srv"
  shows "choose_post srv ss pk 32 0 = Some None \<and> next_post srv ss pk = None
    \<or> (\<exists>pidx p. choose_post srv ss pk 32 0 = Some (Some pidx) \<and> get_at (rs_posts srv) pidx = Some p
        \<and> next_post srv ss pk = Some p \<and> p \<in> set (rs_posts srv) \<and> eligible p ss pk)"
proof (cases "position (\<lambda>p. eligible p ss pk) (posts_view srv)")
  case None
  then show ?thesis
    using choose_post_spec [OF assms, of 0 32 ss pk] assms by (simp add: next_post_def find_position)
next
  case (Some j)
  then have j: "j < 32" "eligible (posts_view srv ! j) ss pk"
    using position_SomeD [OF Some] assms by simp_all
  have "length (rs_posts srv) = 32"
    using assms by (simp add: posts_ok_def)
  then have "get_at (rs_posts srv) ((rs_next_post_idx srv + j) mod 32) = Some (posts_view srv ! j)"
    "posts_view srv ! j \<in> set (rs_posts srv)"
    using posts_view_nth [OF assms j(1)] by (simp_all add: get_at_def)
  then show ?thesis
    using choose_post_spec [OF assms, of 0 32 ss pk] Some j assms
    by (intro disjI2 exI [of _ "(rs_next_post_idx srv + j) mod 32"] exI [of _ "posts_view srv ! j"])
       (simp add: next_post_def find_position)
qed

lemma sorted_find:
  assumes "sorted_wrt R xs" "find P xs = Some x" "y \<in> set xs" "P y" "y \<noteq> x"
  shows "R x y"
  using assms by (induction xs) (auto split: if_splits)

text \<open>It is the oldest of the eligible ones.\<close>

lemma next_post_oldest:
  assumes "posts_ok srv" "next_post srv ss pk = Some p" "q \<in> set (rs_posts srv)" "eligible q ss pk" "q \<noteq> p"
  shows "dp_timestamp p < dp_timestamp q"
proof -
  have used: "eligible x ss pk \<Longrightarrow> dp_used x" for x
    by (simp add: eligible_def)
  have "find (\<lambda>p. eligible p ss pk) (filter dp_used xs) = find (\<lambda>p. eligible p ss pk) xs" for xs
    using used by (induction xs) auto
  then have "find (\<lambda>p. eligible p ss pk) (filter dp_used (posts_view srv)) = Some p"
    using assms(2) by (simp add: next_post_def)
  moreover have "q \<in> set (filter dp_used (posts_view srv))"
    using assms(3,4) used by (simp add: set_posts_view)
  moreover have "sorted_wrt (\<lambda>p q. dp_timestamp p < dp_timestamp q) (filter dp_used (posts_view srv))"
    using assms(1) by (simp add: posts_ok_def chronological_def)
  ultimately show ?thesis
    using sorted_find assms(4,5) by fastforce
qed

lemma next_post_None: "next_post srv ss pk = None \<longleftrightarrow> (\<forall>q \<in> set (rs_posts srv). \<not> eligible q ss pk)"
  by (auto simp: next_post_def find_None_iff set_posts_view)

section \<open>Lemmas: storing a post\<close>

lemma current_time_unique_spec:
  assumes "current_time_unique ck = (ck', t)" "ck_last_unique ck \<noteq> - 1"
  shows "ck_last_unique ck < t" "ck_last_unique ck' = t"
proof -
  have "1 + ck_last_unique ck \<noteq> 0"
    using assms(2) by (metis add.commute add_eq_0_iff)
  then have "ck_last_unique ck < ck_last_unique ck + 1"
    using unatSuc [of "ck_last_unique ck"] by (simp add: word_less_nat_alt add.commute)
  then show "ck_last_unique ck < t" "ck_last_unique ck' = t"
    using assms(1) by (auto simp: current_time_unique_def Let_def split: if_splits)
qed

text \<open>The record stored for a post.\<close>

definition new_post :: "bytes \<Rightarrow> u32 \<Rightarrow> bytes \<Rightarrow> DoublePost" where
  "new_post author ts msg = \<lparr>dp_used = True, dp_author_pubkey = author, dp_timestamp = ts,
     dp_text = take 150 msg @ zeros (150 - length msg), dp_text_len = min (length msg) 150\<rparr>"

lemma new_post_ok: "length author = 32 \<Longrightarrow> 0 \<notin> set msg \<Longrightarrow> post_ok (new_post author ts msg)"
  by (auto simp: post_ok_def new_post_def min_def dest: in_set_takeD)

lemma seed_post_spec:
  assumes "length (rs_posts srv) = 32" "rs_next_post_idx srv < 32"
  shows "seed_post srv author ts msg = Some (srv\<lparr>
    rs_posts := (rs_posts srv)[rs_next_post_idx srv := new_post author ts msg],
    rs_next_post_idx := (rs_next_post_idx srv + 1) mod 32\<rparr>)"
  using assms by (simp add: seed_post_def slice_def copy_into_def set_at_def new_post_def MAX_POST_TEXT_LEN_def
      MAX_UNSYNCED_POSTS_def Let_def min_def)

lemma posts_view_seed:
  assumes "length ps = 32" "n < 32"
  shows "drop ((n + 1) mod 32) (ps[n := p]) @ take ((n + 1) mod 32) (ps[n := p]) =
    tl (drop n ps @ take n ps) @ [p]"
proof (cases "n = 31")
  case True
  then have "drop n ps = [ps ! 31]"
    using assms Cons_nth_drop_Suc [of 31 ps] by simp
  then show ?thesis
    using True assms by (simp add: upd_conv_take_nth_drop)
next
  case False
  have "drop n ps = ps ! n # drop (Suc n) ps"
    using assms by (simp add: Cons_nth_drop_Suc)
  then show ?thesis
    using False assms by (simp add: take_Suc_conv_app_nth)
qed

lemma chronological_snoc:
  assumes "chronological ps bound" "bound < dp_timestamp p" "b' = dp_timestamp p"
  shows "chronological (tl ps @ [p]) b'"
proof -
  have "sorted_wrt (\<lambda>p q. dp_timestamp p < dp_timestamp q) (filter dp_used (tl ps))"
    using assms(1) by (cases ps) (auto simp: chronological_def split: if_splits)
  moreover have "dp_timestamp q \<le> bound" if "q \<in> set (tl ps)" "dp_used q" for q
    using assms(1) that list.set_sel(2) [of ps q] by (cases ps) (auto simp: chronological_def)
  ultimately show ?thesis
    using assms(2,3) by (fastforce simp: chronological_def sorted_wrt_append)
qed

lemma seed_post_ok:
  assumes "posts_ok srv" "length author = 32" "0 \<notin> set msg"
    and "ck_last_unique (rs_clock srv) < ts" "ck_last_unique ck = ts"
  shows "\<exists>srv'. seed_post (srv\<lparr>rs_clock := ck\<rparr>) author ts msg = Some srv' \<and> posts_ok srv'
    \<and> posts_view srv' = tl (posts_view srv) @ [new_post author ts msg]
    \<and> rs_clients srv' = rs_clients srv \<and> rs_clock srv' = ck \<and> rs_identity srv' = rs_identity srv
    \<and> passwords_ok srv' = passwords_ok srv"
proof -
  let ?n = "rs_next_post_idx srv" and ?p = "new_post author ts msg"
  have n: "length (rs_posts srv) = 32" "?n < 32"
    using assms(1) by (simp_all add: posts_ok_def)
  let ?srv = "srv\<lparr>rs_clock := ck, rs_posts := (rs_posts srv)[?n := ?p], rs_next_post_idx := (?n + 1) mod 32\<rparr>"
  have view: "posts_view ?srv = tl (posts_view srv) @ [?p]"
    using posts_view_seed [OF n] by (simp add: posts_view_def)
  have "chronological (tl (posts_view srv) @ [?p]) ts"
    using assms(1,4) by (intro chronological_snoc) (auto simp: posts_ok_def new_post_def)
  then have "posts_ok ?srv"
    using assms(1,5) view new_post_ok [OF assms(2,3)] set_update_subset_insert [of "rs_posts srv" ?n ?p]
    by (auto simp: posts_ok_def list_all_iff)
  moreover have "seed_post (srv\<lparr>rs_clock := ck\<rparr>) author ts msg = Some ?srv"
    using n by (subst seed_post_spec) simp_all
  ultimately show ?thesis
    using view by (simp add: passwords_ok_def)
qed

section \<open>Lemmas: pushing\<close>

lemma ceil_16_mono: "m \<le> n \<Longrightarrow> ceil_16 m \<le> ceil_16 n"
  by (simp add: ceil_16_def div_ceil_16_def div_le_mono)

text \<open>The text of a stored post, and the plaintext pushed for it.\<close>

definition post_text :: "DoublePost \<Rightarrow> bytes" where
  "post_text p = take (dp_text_len p) (dp_text p)"

definition push_plaintext :: "DoublePost \<Rightarrow> bytes" where
  "push_plaintext p =
     txt_msg_bytes (dp_timestamp p) TXT_TYPE_SIGNED_PLAIN 0 (take 4 (dp_author_pubkey p) @ post_text p)"

lemma post_text_ok:
  "post_ok p \<Longrightarrow> dp_used p \<Longrightarrow> length (post_text p) = dp_text_len p \<and> dp_text_len p \<le> 150 \<and> 0 \<notin> set (post_text p)
     \<and> length (dp_author_pubkey p) = 32"
  by (auto simp: post_ok_def post_text_def)

definition push_hash :: "crypto_prims \<Rightarrow> DoublePost \<Rightarrow> bytes \<Rightarrow> bytes" where
  "push_hash C p pk = compute_ack_hash C (dp_timestamp p) (push_plaintext p ! 4) (drop 5 (push_plaintext p)) pk"

lemma push_next_spec:
  assumes "crypto_ok C" "clients_ok (rs_clients srv)" "posts_ok srv" "client_idx srv pk = Some i"
    and "c = rs_clients srv ! i" "dc_pending_ack c = None" "next_post srv (dc_sync_since c) pk = Some p"
    and "4 + ceil_16 (9 + dp_text_len p) \<le> length out"
  shows "\<exists>out' n. push_next C srv pk out = Some (srv\<lparr>rs_clients := (rs_clients srv)[i :=
        c\<lparr>dc_pending_ack := Some (push_hash C p pk), dc_push_post_ts := dp_timestamp p\<rparr>]\<rparr>, out', Some n)
    \<and> encode_dm_payload C (dc_shared_secret c) (pk ! 0) (id_pub_hash (rs_identity srv)) (push_plaintext p) out =
        Some (out', n)"
proof -
  note idx = client_idx_Some [OF assms(4,2)]
  obtain pidx where pidx: "choose_post srv (dc_sync_since c) pk 32 0 = Some (Some pidx)"
    "get_at (rs_posts srv) pidx = Some p" "p \<in> set (rs_posts srv)" "eligible p (dc_sync_since c) pk"
    using choose_post_next [OF assms(3), of "dc_sync_since c" pk] assms(7) by auto
  have "post_ok p" "dp_used p"
    using pidx(3,4) assms(3) by (auto simp: posts_ok_def list_all_iff eligible_def)
  note ok = post_text_ok [OF this]
  let ?t = "push_bit 2 TXT_TYPE_SIGNED_PLAIN OR (0 AND 3)"
  let ?ts = "to_le32 (dp_timestamp p)" and ?a = "take 4 (dp_author_pubkey p)" and ?s = "post_text p"
  have s: "slice (dp_text p) 0 (dp_text_len p) = Some ?s" "slice (dp_author_pubkey p) 0 4 = Some ?a"
    using ok by (auto simp: slice_def post_text_def min_def split: if_splits)
  have steps: "copy_into (zeros 159) 0 ?ts = Some (?ts @ zeros 155)"
    "set_at (?ts @ zeros 155) 4 ?t = Some ((?ts @ [?t]) @ zeros 154)"
    "copy_into ((?ts @ [?t]) @ zeros 154) 5 ?a = Some ((?ts @ [?t] @ ?a) @ zeros 150)"
    "copy_into ((?ts @ [?t] @ ?a) @ zeros 150) 9 ?s = Some ((?ts @ [?t] @ ?a @ ?s) @ zeros (150 - dp_text_len p))"
    "slice ((?ts @ [?t] @ ?a @ ?s) @ zeros (150 - dp_text_len p)) 0 (9 + dp_text_len p) = Some (push_plaintext p)"
    "slice ((?ts @ [?t] @ ?a @ ?s) @ zeros (150 - dp_text_len p)) 5 (9 + dp_text_len p) = Some (drop 5 (push_plaintext p))"
    using ok fill_copy [of "[]" 0 ?ts 159] fill_set [of ?ts 4 155 ?t] fill_copy [of "?ts @ [?t]" 5 ?a 154]
      fill_copy [of "?ts @ [?t] @ ?a" 9 ?s 150]
      fill_slice [of "?ts @ [?t] @ ?a @ ?s" "9 + dp_text_len p" "150 - dp_text_len p"]
    by (simp_all add: push_plaintext_def txt_msg_bytes_def) (simp add: slice_def)
  have t: "((?ts @ [?t] @ ?a @ ?s) @ zeros (150 - dp_text_len p)) ! 4 = push_plaintext p ! 4"
    by (simp add: push_plaintext_def txt_msg_bytes_def nth_append)
  let ?c = "c\<lparr>dc_pending_ack := Some (push_hash C p pk), dc_push_post_ts := dp_timestamp p\<rparr>"
  have set: "set_at (rs_clients srv) i ?c = Some ((rs_clients srv)[i := ?c])"
    using assms(2) idx(1) by (simp add: set_at_def clients_ok_def)
  have "length (push_plaintext p) = 9 + dp_text_len p" "length (dc_shared_secret c) = 32"
    using ok idx(2,5) assms(5) by (simp_all add: push_plaintext_def client_ok_def)
  then obtain out' n where enc: "encode_dm_payload C (dc_shared_secret c) (pk ! 0) (id_pub_hash (rs_identity srv))
      (push_plaintext p) out = Some (out', n)"
    using encode_dm_payload_spec [OF assms(1), of "dc_shared_secret c" "push_plaintext p" out] assms(8) by simp
  have "9 + 150 = (159 :: nat)"
    by simp
  then have "push_next C srv pk out = Some (srv\<lparr>rs_clients := (rs_clients srv)[i := ?c]\<rparr>, out', Some n)"
    unfolding push_next_def assms(4) option.case idx(4) bind.bind_lunit MAX_UNSYNCED_POSTS_def MAX_POST_TEXT_LEN_def
      Let_def assms(5) [symmetric] pidx(1)
    by (simp only: assms(6) not_True_eq_False if_False simp_thms pidx(2) option.case bind.bind_lunit s steps t
        push_hash_def [symmetric] set enc prod.case)
  with enc show ?thesis
    by blast
qed

lemma push_next_none:
  assumes "clients_ok (rs_clients srv)" "posts_ok srv" "client_idx srv pk = Some i"
    and "dc_pending_ack (rs_clients srv ! i) \<noteq> None \<or> next_post srv (dc_sync_since (rs_clients srv ! i)) pk = None"
  shows "push_next C srv pk out = Some (srv, out, None)"
proof -
  note idx = client_idx_Some [OF assms(3,1)]
  show ?thesis
    using assms(4) choose_post_next [OF assms(2), of "dc_sync_since (rs_clients srv ! i)" pk]
    by (auto simp: push_next_def assms(3) idx(4) MAX_UNSYNCED_POSTS_def)
qed

lemma handle_push_ack_spec:
  assumes "clients_ok (rs_clients srv)" "client_idx srv pk = Some i" "c = rs_clients srv ! i"
  shows "handle_push_ack srv pk ack = Some (if dc_pending_ack c = Some ack
     then (srv\<lparr>rs_clients := (rs_clients srv)[i := c\<lparr>dc_pending_ack := None, dc_sync_since := dc_push_post_ts c\<rparr>]\<rparr>, True)
     else (srv, False))"
  using client_idx_Some [OF assms(2,1)] assms
  by (simp add: handle_push_ack_def set_at_def clients_ok_def)

lemma server_inv_set_client:
  assumes "server_inv srv" "i < 8" "client_ok c" "dc_used c = dc_used (rs_clients srv ! i)"
    "dc_pubkey c = dc_pubkey (rs_clients srv ! i)"
  shows "server_inv (srv\<lparr>rs_clients := (rs_clients srv)[i := c]\<rparr>)"
  using assms clients_ok_update(1) [of "rs_clients srv" i c]
  by (simp add: server_inv_def posts_ok_def posts_view_def passwords_ok_def)

text \<open>The state after a push, and after its acknowledgement.\<close>

lemma after_push:
  assumes "server_inv srv" "client_idx srv pk = Some i" "c = rs_clients srv ! i"
    and "srv1 = srv\<lparr>rs_clients := (rs_clients srv)[i := c\<lparr>dc_pending_ack := Some h, dc_push_post_ts := ts\<rparr>]\<rparr>"
  shows "server_inv srv1" "client_idx srv1 pk = Some i" "rs_posts srv1 = rs_posts srv"
    and "rs_clients srv1 ! i = c\<lparr>dc_pending_ack := Some h, dc_push_post_ts := ts\<rparr>"
proof -
  have cl: "clients_ok (rs_clients srv)"
    using assms(1) by (simp add: server_inv_def)
  note idx = client_idx_Some [OF assms(2) cl]
  show "server_inv srv1"
    using idx assms(1,3) unfolding assms(4) by (intro server_inv_set_client) (simp_all add: client_ok_def)
  show "client_idx srv1 pk = Some i"
    using client_idx_update [OF cl idx(1), of srv1 "c\<lparr>dc_pending_ack := Some h, dc_push_post_ts := ts\<rparr>" pk] assms(2,3)
    by (simp add: assms(4))
  show "rs_posts srv1 = rs_posts srv"
    and "rs_clients srv1 ! i = c\<lparr>dc_pending_ack := Some h, dc_push_post_ts := ts\<rparr>"
    using cl idx(1) by (simp_all add: assms(4) clients_ok_def)
qed

lemma after_ack:
  assumes "server_inv srv1" "client_idx srv1 pk = Some i" "dc_pending_ack (rs_clients srv1 ! i) = Some h"
    and "dc_push_post_ts (rs_clients srv1 ! i) = ts"
  shows "\<exists>srv2. handle_push_ack srv1 pk h = Some (srv2, True) \<and> server_inv srv2
    \<and> client_sync_since srv2 pk = Some ts \<and> client_pending_ack srv2 pk = None \<and> rs_posts srv2 = rs_posts srv1"
proof -
  let ?c = "rs_clients srv1 ! i"
  let ?c' = "?c\<lparr>dc_pending_ack := None, dc_sync_since := dc_push_post_ts ?c\<rparr>"
  let ?srv = "srv1\<lparr>rs_clients := (rs_clients srv1)[i := ?c']\<rparr>"
  have cl: "clients_ok (rs_clients srv1)"
    using assms(1) by (simp add: server_inv_def)
  note idx = client_idx_Some [OF assms(2) cl]
  have "server_inv ?srv"
    using idx assms(1) by (intro server_inv_set_client) (simp_all add: client_ok_def)
  moreover have "client_idx ?srv pk = Some i"
    using client_idx_update [OF cl idx(1), of ?srv ?c' pk] assms(2) by simp
  ultimately show ?thesis
    using handle_push_ack_spec [OF cl assms(2) refl, of h] assms(3,4) cl idx(1)
    by (auto simp: client_sync_since_def client_pending_ack_def clients_ok_def)
qed

section \<open>Lemmas: posting\<close>

text \<open>What \<open>handle_post\<close> does with a plain text message once it is decoded.\<close>

definition post_core ::
    "crypto_prims \<Rightarrow> RoomServerDouble \<Rightarrow> bytes \<Rightarrow> nat \<Rightarrow> u32 \<Rightarrow> u8 \<Rightarrow> bytes \<Rightarrow> (RoomServerDouble \<times> bytes option) rust" where
  "post_core C srv pk i ts att msg =
     (let c = rs_clients srv ! i; srv1 = srv\<lparr>rs_clients := (rs_clients srv)[i := c\<lparr>dc_last_timestamp := ts\<rparr>]\<rparr>;
          ack = room_post_ack_hash C ts att msg pk in
      if ts < dc_last_timestamp c then Some (srv, None)
      else if \<not> can_post (dc_permissions c) then Some (srv1, None)
      else if ts = dc_last_timestamp c then Some (srv1, Some ack)
      else (case current_time_unique (rs_clock srv) of (ck, t) \<Rightarrow>
              map_option (\<lambda>s. (s, Some ack)) (seed_post (srv1\<lparr>rs_clock := ck\<rparr>) pk t msg)))"

lemma post_core_spec:
  assumes "server_inv srv" "client_idx srv pk = Some i" "c = rs_clients srv ! i" "0 \<notin> set msg"
    and "ck_last_unique (rs_clock srv) \<noteq> - 1"
  shows "\<exists>srv' t. post_core C srv pk i ts att msg = Some (srv',
        if dc_last_timestamp c \<le> ts \<and> can_post (dc_permissions c) then Some (room_post_ack_hash C ts att msg pk) else None)
    \<and> server_inv srv' \<and> ck_last_unique (rs_clock srv) < t
    \<and> posts_view srv' = (if dc_last_timestamp c < ts \<and> can_post (dc_permissions c)
        then tl (posts_view srv) @ [new_post pk t msg] else posts_view srv)"
proof -
  have cl: "clients_ok (rs_clients srv)"
    using assms(1) by (simp add: server_inv_def)
  note idx = client_idx_Some [OF assms(2) cl]
  let ?srv = "srv\<lparr>rs_clients := (rs_clients srv)[i := c\<lparr>dc_last_timestamp := ts\<rparr>]\<rparr>"
  have inv: "server_inv ?srv"
    using idx assms(1,3) by (intro server_inv_set_client) (simp_all add: client_ok_def)
  have view: "posts_view ?srv = posts_view srv"
    by (simp add: posts_view_def)
  obtain ck t where ct: "current_time_unique (rs_clock srv) = (ck, t)"
    by fastforce
  note t = current_time_unique_spec [OF ct assms(5)]
  have pk: "length pk = 32"
    using idx(2,3,5) by (auto simp: client_ok_def)
  obtain srv2 where s2: "seed_post (?srv\<lparr>rs_clock := ck\<rparr>) pk t msg = Some srv2" "posts_ok srv2"
    "posts_view srv2 = tl (posts_view srv) @ [new_post pk t msg]" "rs_clients srv2 = rs_clients ?srv"
    "passwords_ok srv2 = passwords_ok ?srv"
    using seed_post_ok [of ?srv pk msg t ck] inv pk assms(4) t view by (auto simp: server_inv_def)
  then have "server_inv srv2"
    using inv by (simp add: server_inv_def)
  then show ?thesis
    using inv assms(1) view t(1) s2(1,3)
    by (auto simp: post_core_def Let_def ct assms(3) intro!: exI [of _ t])
qed

lemma handle_post_core:
  assumes "client_idx srv pk = Some i" "clients_ok (rs_clients srv)"
    and "decode_dm_payload C (dc_shared_secret (rs_clients srv ! i)) payload (zeros 256) = Some (pt, Inr (d, s, n))"
    and "decode_txt_msg_plaintext pt n = Some (Inr (ts, TT_Plain, att, off))"
    and "slice pt off n = Some rest"
  shows "handle_post C srv pk payload = post_core C srv pk i ts att (take (nul_len rest) rest)"
proof -
  note idx = client_idx_Some [OF assms(1,2)]
  have "set_at (rs_clients srv) i c = Some ((rs_clients srv)[i := c])" for c
    using assms(2) idx(1) by (simp add: set_at_def clients_ok_def)
  then show ?thesis
    using assms(3-5)
    by (auto simp: handle_post_def post_core_def Let_def assms(1) idx(4) map_conv_bind_option comp_def
        split: prod.splits)
qed

lemma server_inv_last_timestamp:
  assumes "server_inv srv" "client_idx srv pk = Some i"
  shows "server_inv (srv\<lparr>rs_clients := (rs_clients srv)[i := (rs_clients srv ! i)\<lparr>dc_last_timestamp := ts\<rparr>]\<rparr>)"
proof -
  have "clients_ok (rs_clients srv)"
    using assms(1) by (simp add: server_inv_def)
  note idx = client_idx_Some [OF assms(2) this]
  show ?thesis
    using idx assms(1) by (intro server_inv_set_client) (simp_all add: client_ok_def)
qed

lemma handle_post_inv:
  assumes "server_inv srv" "ck_last_unique (rs_clock srv) \<noteq> - 1" "handle_post C srv pk payload = Some (srv', r)"
  shows "server_inv srv'"
proof (cases "client_idx srv pk")
  case None
  then show ?thesis
    using assms by (simp add: handle_post_def)
next
  case (Some i)
  have cl: "clients_ok (rs_clients srv)"
    using assms(1) by (simp add: server_inv_def)
  note idx = client_idx_Some [OF Some cl]
  show ?thesis
  proof (cases "\<exists>pt d s n ts att off rest. decode_dm_payload C (dc_shared_secret (rs_clients srv ! i)) payload (zeros 256) =
      Some (pt, Inr (d, s, n)) \<and> decode_txt_msg_plaintext pt n = Some (Inr (ts, TT_Plain, att, off))
      \<and> slice pt off n = Some rest")
    case True
    then obtain ts att rest where eq: "handle_post C srv pk payload = post_core C srv pk i ts att (take (nul_len rest) rest)"
      using handle_post_core [OF Some cl] by blast
    have "0 \<notin> set (take (nul_len rest) rest)"
      using nul_len_spec by blast
    then show ?thesis
      using post_core_spec [OF assms(1) Some refl, of "take (nul_len rest) rest" C ts att] assms(2,3) eq by auto
  next
    case False
    have set: "set_at (rs_clients srv) i c = Some ((rs_clients srv)[i := c])" for c
      using cl idx(1) by (simp add: set_at_def clients_ok_def)
    note h = assms(3) [unfolded handle_post_def Some option.case idx(4) bind.bind_lunit]
    obtain pt q where dm: "decode_dm_payload C (dc_shared_secret (rs_clients srv ! i)) payload (zeros 256) = Some (pt, q)"
      using h by (cases "decode_dm_payload C (dc_shared_secret (rs_clients srv ! i)) payload (zeros 256)") auto
    have "srv' = srv \<or> (\<exists>ts. srv' = srv\<lparr>rs_clients := (rs_clients srv)[i := (rs_clients srv ! i)\<lparr>dc_last_timestamp := ts\<rparr>]\<rparr>)"
    proof (cases q)
      case (Inr x)
      then obtain d s n where q: "q = Inr (d, s, n)"
        by (cases x) auto
      obtain t where t: "decode_txt_msg_plaintext pt n = Some t"
        using h dm q by (cases "decode_txt_msg_plaintext pt n") auto
      show ?thesis
      proof (cases t)
        case (Inr y)
        then obtain ts ty att off where y: "t = Inr (ts, ty, att, off)"
          by (cases y) auto
        have "slice pt off n = None \<or> ty \<noteq> TT_Plain"
          using False dm q t y by (cases "slice pt off n") auto
        then show ?thesis
          using h dm q t y by (auto simp: set Let_def split: if_splits)
      qed (use h dm q t in simp)
    qed (use h dm in simp)
    then show ?thesis
      using assms(1) server_inv_last_timestamp [OF assms(1) Some] by auto
  qed
qed

section \<open>Lemmas: the other handlers keep the invariant\<close>

lemma server_inv_set_at:
  assumes "server_inv srv" "client_idx srv pk = Some i" "set_at (rs_clients srv) i c = Some cs"
    and "dc_used c = dc_used (rs_clients srv ! i)" "dc_pubkey c = dc_pubkey (rs_clients srv ! i)"
    "dc_shared_secret c = dc_shared_secret (rs_clients srv ! i)"
  shows "server_inv (srv\<lparr>rs_clients := cs\<rparr>)"
proof -
  have cl: "clients_ok (rs_clients srv)"
    using assms(1) by (simp add: server_inv_def)
  note idx = client_idx_Some [OF assms(2) cl]
  have "cs = (rs_clients srv)[i := c]"
    using assms(3) by (simp add: set_at_def split: if_splits)
  then show ?thesis
    using server_inv_set_client [OF assms(1) idx(1), of c] idx(5) assms(4-6) by (simp add: client_ok_def)
qed

lemma push_next_inv:
  assumes "server_inv srv" "push_next C srv pk out = Some (srv', out', r)"
  shows "server_inv srv'"
proof (cases "client_idx srv pk")
  case (Some i)
  have cl: "clients_ok (rs_clients srv)"
    using assms(1) by (simp add: server_inv_def)
  note idx = client_idx_Some [OF Some cl]
  note h = assms(2) [unfolded push_next_def Some option.case idx(4) bind.bind_lunit]
  show ?thesis
  proof (cases "dc_pending_ack (rs_clients srv ! i)")
    case None
    then show ?thesis
      using h assms(1) server_inv_set_at [OF assms(1) Some]
      by (auto simp: Let_def bind_eq_Some_conv split: option.splits)
  qed (use h assms(1) in simp)
qed (use assms in \<open>simp add: push_next_def\<close>)

lemma handle_push_ack_inv:
  assumes "server_inv srv" "handle_push_ack srv pk ack = Some (srv', r)"
  shows "server_inv srv'"
proof (cases "client_idx srv pk")
  case (Some i)
  then show ?thesis
    using assms server_inv_set_at [OF assms(1) Some] client_idx_Some(4) [OF Some]
    by (auto simp: handle_push_ack_def server_inv_def bind_eq_Some_conv split: if_splits)
qed (use assms in \<open>simp add: handle_push_ack_def\<close>)

lemma handle_keep_alive_inv:
  assumes "server_inv srv" "handle_keep_alive C srv pk payload = Some (srv', r)"
  shows "server_inv srv'"
proof (cases "client_idx srv pk")
  case (Some i)
  have cl: "clients_ok (rs_clients srv)"
    using assms(1) by (simp add: server_inv_def)
  note idx = client_idx_Some [OF Some cl]
  note h = assms(2) [unfolded handle_keep_alive_def Some option.case idx(4) bind.bind_lunit]
  obtain pt q where dm: "decode_dm_payload C (dc_shared_secret (rs_clients srv ! i)) payload (zeros 32) = Some (pt, q)"
    using h by (cases "decode_dm_payload C (dc_shared_secret (rs_clients srv ! i)) payload (zeros 32)") auto
  show ?thesis
  proof (cases q)
    case (Inr x)
    then obtain d s n where q: "q = Inr (d, s, n)"
      by (cases x) auto
    show ?thesis
      using h assms(1) server_inv_set_at [OF assms(1) Some]
      by (auto simp: dm q Let_def bind_eq_Some_conv split: if_splits)
  qed (use h dm assms(1) in simp)
qed (use assms in \<open>simp add: handle_keep_alive_def\<close>)

lemma set_server_time_inv: "server_inv srv \<Longrightarrow> server_inv (set_server_time srv t)"
  by (simp add: server_inv_def set_server_time_def posts_ok_def posts_view_def passwords_ok_def)

section \<open>Lemmas: logins\<close>

lemma posts_ok_clock:
  assumes "posts_ok srv" "ck_last_unique (rs_clock srv) \<le> ck_last_unique ck"
  shows "posts_ok (srv\<lparr>rs_clients := cs, rs_clock := ck\<rparr>)"
proof -
  have "chronological ps b'" if "chronological ps b" "b \<le> b'" for ps b b'
    using that by (auto simp: chronological_def)
  with assms show ?thesis
    by (auto simp: posts_ok_def posts_view_def)
qed

lemma register_slot:
  assumes "clients_ok (rs_clients srv)" "find_or_register_client srv pk = Some idx" "client_ok c" "dc_pubkey c = pk"
  shows "idx < 8" "clients_ok ((rs_clients srv)[idx := c])"
    "get_at (rs_clients srv) idx = Some (rs_clients srv ! idx)"
    "set_at (rs_clients srv) idx c = Some ((rs_clients srv)[idx := c])"
proof -
  have len: "length (rs_clients srv) = 8"
    using assms(1) by (simp add: clients_ok_def)
  have "idx < 8 \<and> (\<forall>j < 8. j \<noteq> idx \<longrightarrow> dc_used (rs_clients srv ! j) \<longrightarrow> dc_pubkey (rs_clients srv ! j) \<noteq> pk)"
  proof (cases "client_idx srv pk")
    case (Some i)
    then show ?thesis
      using client_idx_Some [OF Some assms(1)] assms(1,2) by (auto simp: find_or_register_client_def clients_ok_def)
  next
    case None
    then have "position (\<lambda>c. \<not> dc_used c) (rs_clients srv) = Some idx"
      using assms(2) by (simp add: find_or_register_client_def)
    then show ?thesis
      using None position_SomeD [of "\<lambda>c. \<not> dc_used c" "rs_clients srv" idx] len
      by (auto simp: client_idx_def position_None_iff)
  qed
  then show "idx < 8" "clients_ok ((rs_clients srv)[idx := c])"
    "get_at (rs_clients srv) idx = Some (rs_clients srv ! idx)"
    "set_at (rs_clients srv) idx c = Some ((rs_clients srv)[idx := c])"
    using clients_ok_register [OF assms(1) _ assms(3)] assms(4) len by (auto simp: get_at_def set_at_def)
qed

text \<open>What \<open>handle_login\<close> does once the request is decrypted.\<close>

definition logged_in :: "RoomServerDouble \<Rightarrow> nat \<Rightarrow> bytes \<Rightarrow> bytes \<Rightarrow> RoomPermission \<Rightarrow> u32 \<Rightarrow> u32 \<Rightarrow> RoomServerDouble" where
  "logged_in srv idx sender secret perm sync_since ts = srv\<lparr>
     rs_clients := (rs_clients srv)[idx := (rs_clients srv ! idx)\<lparr>dc_used := True, dc_pubkey := sender,
       dc_shared_secret := secret, dc_permissions := perm, dc_sync_since := sync_since,
       dc_last_timestamp := ts, dc_pending_ack := None\<rparr>],
     rs_clock := fst (current_time_unique (rs_clock srv))\<rparr>"

lemma logged_in_inv:
  assumes "server_inv srv" "ck_last_unique (rs_clock srv) \<noteq> - 1" "find_or_register_client srv sender = Some idx"
    and "length sender = 32" "length secret = 32"
  shows "server_inv (logged_in srv idx sender secret perm ss ts)"
proof -
  obtain ck t where ct: "current_time_unique (rs_clock srv) = (ck, t)"
    by fastforce
  have "ck_last_unique (rs_clock srv) \<le> ck_last_unique ck"
    using current_time_unique_spec [OF ct assms(2)] by simp
  then show ?thesis
    using register_slot(2) [OF _ assms(3), of "(rs_clients srv ! idx)\<lparr>dc_used := True, dc_pubkey := sender,
       dc_shared_secret := secret, dc_permissions := perm, dc_sync_since := ss,
       dc_last_timestamp := ts, dc_pending_ack := None\<rparr>"] posts_ok_clock [of srv ck] assms
    by (simp add: server_inv_def logged_in_def ct client_ok_def passwords_ok_def)
qed

lemma login_decrypted_spec:
  assumes "clients_ok (rs_clients srv)" "length sender = 32" "length secret = 32" "9 \<le> n" "n \<le> length pt"
    and "rest = take (n - 8) (drop 8 pt)" "login_permission srv (take (nul_len rest) rest) = Some perm"
    and "ts = from_le32 (pt ! 0) (pt ! 1) (pt ! 2) (pt ! 3)" "ss = from_le32 (pt ! 4) (pt ! 5) (pt ! 6) (pt ! 7)"
  shows "login_decrypted C srv sender secret pt n out =
    (case (perm, find_or_register_client srv sender) of
       (Some p, Some idx) \<Rightarrow>
         if dc_used (rs_clients srv ! idx) \<and> ts \<le> dc_last_timestamp (rs_clients srv ! idx) then Some (srv, out, None)
         else map_option (\<lambda>(out, n). (logged_in srv idx sender secret p ss ts, out, Some n))
           (encode_dm_payload C secret (sender ! 0) (id_pub_hash (rs_identity srv))
             (login_reply (snd (current_time_unique (rs_clock srv))) p) out)
     | _ \<Rightarrow> Some (srv, out, None))"
proof -
  have sl: "slice pt 8 n = Some rest"
    using assms(4-6) by (simp add: slice_def)
  show ?thesis
  proof (cases "perm = None \<or> find_or_register_client srv sender = None")
    case True
    then show ?thesis
      using assms(4,7) by (cases perm) (auto simp: login_decrypted_def sl Let_def split: option.splits)
  next
    case False
    then obtain p idx where p: "perm = Some p" "find_or_register_client srv sender = Some idx"
      by auto
    note slot = register_slot(3,4) [OF assms(1) p(2), of "(rs_clients srv ! idx)\<lparr>dc_used := True, dc_pubkey := sender,
       dc_shared_secret := secret, dc_permissions := p, dc_sync_since := ss, dc_last_timestamp := ts,
       dc_pending_ack := None\<rparr>"]
    show ?thesis
      using assms(2-4,7) p slot
      unfolding login_decrypted_def Let_def assms(8) [symmetric] assms(9) [symmetric]
      by (auto simp: sl logged_in_def client_ok_def split: prod.splits Option.bind_splits)
  qed
qed

lemma login_permission_total: "passwords_ok srv \<Longrightarrow> \<exists>perm. login_permission srv pw = Some perm"
  by (simp add: login_permission_def passwords_ok_def slice_def)

lemma login_decrypted_inv:
  assumes "server_inv srv" "ck_last_unique (rs_clock srv) \<noteq> - 1" "length sender = 32" "length secret = 32"
    and "login_decrypted C srv sender secret pt n out = Some (srv', out', r)"
  shows "server_inv srv'"
proof (cases "9 \<le> n \<and> n \<le> length pt")
  case False
  then show ?thesis
    using assms(1,5) by (auto simp: login_decrypted_def slice_def not_le split: if_splits)
next
  case True
  have cl: "clients_ok (rs_clients srv)" "passwords_ok srv"
    using assms(1) by (simp_all add: server_inv_def)
  let ?rest = "take (n - 8) (drop 8 pt)"
  obtain perm where perm: "login_permission srv (take (nul_len ?rest) ?rest) = Some perm"
    using login_permission_total [OF cl(2)] by blast
  show ?thesis
    using login_decrypted_spec [OF cl(1) assms(3,4) _ _ refl perm refl refl, of C out] True assms(1,5)
      logged_in_inv [OF assms(1,2) _ assms(3,4)]
    by (auto simp: eq_commute [of "Some _" "map_option _ _"] split: option.splits if_splits)
qed

lemma handle_login_inv:
  assumes "server_inv srv" "curve_ok K" "ck_last_unique (rs_clock srv) \<noteq> - 1"
    and "handle_login C K srv payload out = Some (srv', out', r)"
  shows "server_inv srv'"
proof (cases "length payload < 35 \<or> payload ! 0 \<noteq> id_pub_hash (rs_identity srv)")
  case True
  then show ?thesis
    using assms(1,4) by (auto simp: handle_login_def ANON_REQ_HEADER_LEN_def split: if_splits)
next
  case False
  let ?sender = "take 32 (drop 1 payload)"
  have sl: "slice payload 1 33 = Some ?sender" "length ?sender = 32"
    using False by (auto simp: slice_def)
  have "1 + 32 = (33 :: nat)"
    by simp
  then have h: "do {
        shared_secret \<leftarrow> ecdh_shared_secret K (rs_identity srv) ?sender;
        aes_key \<leftarrow> slice shared_secret 0 16;
        (pt, r) \<leftarrow> mac_then_decrypt_var C aes_key shared_secret (drop 33 payload) (zeros 64);
        (case r of
           Inl _ \<Rightarrow> Some (srv, out, None)
         | Inr pt_len \<Rightarrow> login_decrypted C srv ?sender shared_secret pt pt_len out)
      } = Some (srv', out', r)"
    using assms(4) False
    by (simp only: handle_login_def ANON_REQ_HEADER_LEN_def sl(1) bind.bind_lunit Let_def) simp
  then obtain secret where sec: "ecdh_shared_secret K (rs_identity srv) ?sender = Some secret"
    by (cases "ecdh_shared_secret K (rs_identity srv) ?sender") auto
  have "length secret = 32"
    using sec assms(2) by (auto simp: ecdh_spec curve_ok_def)
  then obtain pt and q :: "MacError + nat" where q: "(case q of Inl _ \<Rightarrow> Some (srv, out, None)
      | Inr pt_len \<Rightarrow> login_decrypted C srv ?sender secret pt pt_len out) = Some (srv', out', r)"
    using h sec by (auto simp: bind_eq_Some_conv simp del: One_nat_def)
  then show ?thesis
    using assms(1) login_decrypted_inv [OF assms(1,3) sl(2) \<open>length secret = 32\<close>] by (cases q) auto
qed

section \<open>Server runs\<close>

text \<open>One server event whose handler returns.\<close>

inductive server_step :: "crypto_prims \<Rightarrow> curve_prims \<Rightarrow> RoomServerDouble \<Rightarrow> RoomServerDouble \<Rightarrow> bool"
  for C K where
  step_time: "server_step C K srv (set_server_time srv t)"
| step_login: "handle_login C K srv payload out = Some (srv', out', r) \<Longrightarrow>
    server_step C K srv srv'"
| step_post: "handle_post C srv pk payload = Some (srv', q) \<Longrightarrow>
    server_step C K srv srv'"
| step_push: "push_next C srv pk out = Some (srv', out', r) \<Longrightarrow> server_step C K srv srv'"
| step_ack: "handle_push_ack srv pk ack = Some (srv', b) \<Longrightarrow> server_step C K srv srv'"
| step_keep_alive: "handle_keep_alive C srv pk payload = Some (srv', q) \<Longrightarrow> server_step C K srv srv'"

lemma server_step_inv:
  assumes "server_step C K srv srv'" "curve_ok K" "server_inv srv" "ck_last_unique (rs_clock srv) \<noteq> - 1"
  shows "server_inv srv'"
  using assms
proof (cases rule: server_step.cases)
  case step_login
  then show ?thesis
    using handle_login_inv assms(2-4) by blast
next
  case step_post
  then show ?thesis
    using handle_post_inv assms(3,4) by blast
qed (use assms(3) set_server_time_inv push_next_inv handle_push_ack_inv handle_keep_alive_inv in blast)+

lemma new_server_inv:
  assumes "RoomServerDouble_new identity admin guest ro = Some srv"
  shows "server_inv srv"
proof -
  have "length (take 15 pw @ zeros (16 - min (length pw) 15)) = 16" for pw :: bytes
    by (simp add: min_def)
  then show ?thesis
    using assms
    by (auto simp: RoomServerDouble_new_def server_inv_def clients_ok_def posts_ok_def passwords_ok_def
        chronological_def posts_view_def client_ok_def post_ok_def DoubleClient_EMPTY_def DoublePost_EMPTY_def
        MAX_ROOM_CLIENTS_def MAX_UNSYNCED_POSTS_def MAX_LOGIN_PASSWORD_LEN_def slice_def copy_into_def
        list_all_iff Let_def min_def filter_empty_conv split: if_splits)
qed

section \<open>Lemmas: a login, end to end\<close>

lemma client_idx_unique:
  assumes "clients_ok (rs_clients srv)" "i < 8" "dc_used (rs_clients srv ! i)" "dc_pubkey (rs_clients srv ! i) = pk"
  shows "client_idx srv pk = Some i"
proof -
  have "rs_clients srv ! i \<in> set (rs_clients srv)"
    using assms(1,2) by (simp add: clients_ok_def)
  then obtain j where j: "client_idx srv pk = Some j"
    using assms(3,4) position_None_iff [of "\<lambda>c. dc_used c \<and> dc_pubkey c = pk" "rs_clients srv"]
    by (cases "client_idx srv pk") (auto simp: client_idx_def)
  then show ?thesis
    using client_idx_Some [OF j assms(1)] assms by (auto simp: clients_ok_def)
qed

lemma logged_in_client:
  assumes "server_inv (logged_in srv idx sender secret p ss ts)" "idx < 8"
  shows "client_permissions (logged_in srv idx sender secret p ss ts) sender = Some p"
    and "client_sync_since (logged_in srv idx sender secret p ss ts) sender = Some ss"
proof -
  let ?srv = "logged_in srv idx sender secret p ss ts"
  have cl: "clients_ok (rs_clients ?srv)"
    using assms(1) by (simp add: server_inv_def)
  then have "length (rs_clients srv) = 8"
    by (simp add: clients_ok_def logged_in_def)
  then have c: "dc_used (rs_clients ?srv ! idx)" "dc_pubkey (rs_clients ?srv ! idx) = sender"
    "dc_permissions (rs_clients ?srv ! idx) = p" "dc_sync_since (rs_clients ?srv ! idx) = ss"
    using assms(2) by (simp_all add: logged_in_def)
  then show "client_permissions ?srv sender = Some p" "client_sync_since ?srv sender = Some ss"
    using client_idx_unique [OF cl assms(2) c(1,2)] by (simp_all add: client_permissions_def client_sync_since_def)
qed

lemma perm_from_u8 [simp]: "RoomPermission_from_u8 (perm_u8 p) = p"
  by (cases p) (simp_all add: RoomPermission_from_u8_def PERM_ACL_ROLE_MASK_def)

lemma length_login_reply [simp]: "length (login_reply t p) = 13"
  by (simp add: login_reply_def)

lemma decode_login_reply:
  "\<exists>resp. decode_login_response (pad16 (login_reply t p)) = Inr resp \<and> lr_permissions resp = p \<and> lr_server_ts resp = t"
proof -
  have "pad16 (login_reply t p) = login_reply t p @ zeros 3"
    by (simp add: pad16_def ceil_16_def div_ceil_16_def)
  then show ?thesis
    by (simp add: decode_login_response_def login_reply_def to_le32_def from_to_le32 RESP_SERVER_LOGIN_OK_def nth_append)
qed

text \<open>The server's view of an encoded login request.\<close>

lemma handle_login_request:
  assumes "crypto_ok C" "clients_ok (rs_clients srv)" "length sender = 32" "length secret = 32"
    and "ecdh_shared_secret K (rs_identity srv) sender = Some secret" "0 \<notin> set pw" "length pw \<le> 15"
    and "login_permission srv pw = Some perm"
  shows "handle_login C K srv (id_pub_hash (rs_identity srv) # sender @ seal C (take 16 secret) secret (login_bytes ts ss pw)) out =
    (case (perm, find_or_register_client srv sender) of
       (Some p, Some idx) \<Rightarrow>
         if dc_used (rs_clients srv ! idx) \<and> ts \<le> dc_last_timestamp (rs_clients srv ! idx) then Some (srv, out, None)
         else map_option (\<lambda>(out, n). (logged_in srv idx sender secret p ss ts, out, Some n))
           (encode_dm_payload C secret (sender ! 0) (id_pub_hash (rs_identity srv))
             (login_reply (snd (current_time_unique (rs_clock srv))) p) out)
     | _ \<Rightarrow> Some (srv, out, None))"
proof -
  let ?p = "id_pub_hash (rs_identity srv) # sender @ seal C (take 16 secret) secret (login_bytes ts ss pw)"
  let ?n = "ceil_16 (9 + length pw)"
  let ?pt = "pad16 (login_bytes ts ss pw) @ drop ?n (zeros 64)"
  have n: "9 + length pw \<le> ?n" "?n \<le> 64"
    using ceil_16_ge [of "9 + length pw"] ceil_16_mono [of "9 + length pw" 24] assms(7)
    by (simp_all add: ceil_16_def div_ceil_16_def)
  have dec: "mac_then_decrypt_var C (take 16 secret) secret (seal C (take 16 secret) secret (login_bytes ts ss pw)) (zeros 64) =
      Some (?pt, Inr ?n)"
    using assms(1,4) n by (subst mac_then_decrypt_var_seal) simp_all
  have pt: "?pt = to_le32 ts @ to_le32 ss @ pw @ 0 # zeros (?n - (9 + length pw)) @ drop ?n (zeros 64)"
    by (simp add: pad16_def login_bytes_def)
  have "take (length pw + Suc k) (pw @ 0 # zeros k @ r) = pw @ 0 # zeros k" for k r
    by simp
  moreover have "?n - 8 = length pw + Suc (?n - (9 + length pw))"
    using n by simp
  moreover have "drop 8 ?pt = pw @ 0 # zeros (?n - (9 + length pw)) @ drop ?n (zeros 64)"
    unfolding pt by simp
  ultimately have "take (?n - 8) (drop 8 ?pt) = pw @ 0 # zeros (?n - (9 + length pw))"
    by (simp only:)
  then have rest: "take (?n - 8) (drop 8 ?pt) = pw @ zeros (Suc (?n - (9 + length pw)))"
    by (simp only: replicate_Suc)
  have words: "from_le32 (?pt ! 0) (?pt ! 1) (?pt ! 2) (?pt ! 3) = ts" "from_le32 (?pt ! 4) (?pt ! 5) (?pt ! 6) (?pt ! 7) = ss"
    unfolding pt by (simp_all add: to_le32_def from_to_le32)
  have sl: "slice ?p 1 33 = Some sender" "slice secret 0 16 = Some (take 16 secret)" "drop 33 ?p = seal C (take 16 secret) secret (login_bytes ts ss pw)"
    "\<not> length ?p < 33 + 2"
    using assms(1,3,4) n by (simp_all add: slice_def)
  have pw: "take (nul_len (pw @ zeros (Suc (?n - (9 + length pw))))) (pw @ zeros (Suc (?n - (9 + length pw)))) = pw"
    by (simp only: nul_len_pad [OF assms(6)]) simp
  have "handle_login C K srv ?p out = login_decrypted C srv sender secret ?pt ?n out"
    unfolding handle_login_def ANON_REQ_HEADER_LEN_def
    using sl assms(5) dec by (simp add: Let_def)
  also have "\<dots> = (case (perm, find_or_register_client srv sender) of
       (Some p, Some idx) \<Rightarrow>
         if dc_used (rs_clients srv ! idx) \<and> ts \<le> dc_last_timestamp (rs_clients srv ! idx) then Some (srv, out, None)
         else map_option (\<lambda>(out, n). (logged_in srv idx sender secret p ss ts, out, Some n))
           (encode_dm_payload C secret (sender ! 0) (id_pub_hash (rs_identity srv))
             (login_reply (snd (current_time_unique (rs_clock srv))) p) out)
     | _ \<Rightarrow> Some (srv, out, None))"
    using n assms(8)
    by (intro login_decrypted_spec [OF assms(2-4) _ _ rest [symmetric]]) (simp_all only: pw words, simp_all)
  finally show ?thesis .
qed

section \<open>A server with one client and one post, for the witnesses\<close>

definition demo_client :: DoubleClient where
  "demo_client = DoubleClient_EMPTY\<lparr>dc_used := True, dc_pubkey := replicate 32 5, dc_shared_secret := replicate 32 7,
     dc_permissions := RP_ReadWrite, dc_sync_since := 50, dc_last_timestamp := 10\<rparr>"

definition demo_room :: RoomServerDouble where
  "demo_room = \<lparr>rs_identity = from_seed demo_curve (replicate 32 3), rs_admin_password = [97] @ zeros 15,
     rs_admin_password_len = 1, rs_guest_password = [98] @ zeros 15, rs_guest_password_len = 1,
     rs_allow_read_only = False, rs_clients = demo_client # replicate 7 DoubleClient_EMPTY,
     rs_posts = replicate 31 DoublePost_EMPTY @ [new_post (replicate 32 9) 100 [104, 105]], rs_next_post_idx = 0,
     rs_clock = \<lparr>ck_current_time = 100, ck_last_unique = 100\<rparr>\<rparr>"

lemma demo_room_inv: "server_inv demo_room"
proof -
  have "clients_ok (rs_clients demo_room)"
    by (auto simp: clients_ok_def client_ok_def demo_room_def demo_client_def DoubleClient_EMPTY_def nth_Cons'
        nth_replicate)
  moreover have "posts_ok demo_room"
    by (auto simp: posts_ok_def chronological_def posts_view_def demo_room_def new_post_def post_ok_def
        DoublePost_EMPTY_def list_all_iff)
  ultimately show ?thesis
    by (simp add: server_inv_def passwords_ok_def demo_room_def)
qed

lemma demo_room_client:
  "client_idx demo_room (replicate 32 5) = Some 0" "rs_clients demo_room ! 0 = demo_client"
  by (simp_all add: client_idx_def demo_room_def demo_client_def)

section \<open>Lemmas: a post sent by a client\<close>

lemma room_post_core:
  assumes "crypto_ok C" "server_inv srv" "client_idx srv pk = Some i" "c = rs_clients srv ! i"
    and "0 \<notin> set msg" "164 \<le> length out" "ck_last_unique (rs_clock srv) \<noteq> - 1"
  shows "\<exists>out' n srv' t. encode_room_post C (dc_shared_secret c) dest src ts att msg out = Some (out', n)
    \<and> handle_post C srv pk (take n out') = Some (srv',
        if dc_last_timestamp c \<le> ts \<and> can_post (dc_permissions c)
        then Some (room_post_ack_hash C ts att (take 150 msg) pk) else None)
    \<and> server_inv srv' \<and> ck_last_unique (rs_clock srv) < t
    \<and> posts_view srv' = (if dc_last_timestamp c < ts \<and> can_post (dc_permissions c)
        then tl (posts_view srv) @ [new_post pk t (take 150 msg)] else posts_view srv)"
proof -
  let ?m = "take 150 msg" and ?s = "dc_shared_secret c"
  let ?n = "ceil_16 (6 + length ?m)"
  let ?pl = "txt_msg_bytes ts TXT_TYPE_PLAIN att ?m @ [0]"
  let ?p = "dest # src # seal C (take 16 ?s) ?s ?pl"
  have cl: "clients_ok (rs_clients srv)"
    using assms(2) by (simp add: server_inv_def)
  note idx = client_idx_Some [OF assms(3) cl]
  have sec: "length ?s = 32"
    using idx assms(4) by (simp add: client_ok_def)
  have n: "6 + length ?m \<le> ?n" "?n \<le> 160"
    using ceil_16_ge [of "6 + length ?m"] ceil_16_mono [of "6 + length ?m" 156]
    by (simp_all add: ceil_16_def div_ceil_16_def)
  have enc: "encode_room_post C ?s dest src ts att msg out = Some (?p @ drop (4 + ?n) out, 4 + ?n)"
    using assms(1,6) sec n by (subst encode_room_post_spec [OF _ _ refl]) simp_all
  have "length ?p = 4 + ?n"
    using assms(1) sec by simp
  moreover have "take (length q) (q @ r) = q" for q r :: bytes
    by simp
  ultimately have tk: "take (4 + ?n) (?p @ drop (4 + ?n) out) = ?p"
    by metis
  let ?buf = "pad16 ?pl @ drop ?n (zeros 256)"
  have dec: "decode_dm_payload C ?s ?p (zeros 256) = Some (?buf, Inr (dest, src, ?n))"
    using assms(1) sec n by (subst decode_dm_payload_spec) simp_all
  have buf: "?buf = txt_msg_bytes ts TXT_TYPE_PLAIN att ?m @ zeros (Suc (?n - (6 + length ?m))) @ drop ?n (zeros 256)"
    by (simp add: pad16_def)
  have td: "decode_txt_msg_plaintext ?buf ?n = Some (Inr (ts, TT_Plain, att AND 3, 5))"
    unfolding buf using n decode_txt_msg_plaintext_spec [of ?n] by (simp add: TxtType_from_byte_def)
  have k: "?n - 5 = length ?m + Suc (?n - (6 + length ?m))"
    using n by simp
  have "take (?n - 5) (drop 5 ?buf) = ?m @ zeros (Suc (?n - (6 + length ?m)))"
  proof -
    have "drop 5 ?buf = ?m @ zeros (Suc (?n - (6 + length ?m))) @ drop ?n (zeros 256)"
      unfolding buf by (simp add: txt_msg_bytes_def)
    moreover have "take (length q + j) (q @ zeros j @ r) = q @ zeros j" for q r j
      by simp
    ultimately show ?thesis
      unfolding k by (simp only:)
  qed
  moreover have "5 \<le> ?n \<and> ?n \<le> length ?buf"
    using n by simp
  ultimately have sl: "slice ?buf 5 ?n = Some (?m @ zeros (Suc (?n - (6 + length ?m))))"
    by (simp only: slice_def simp_thms if_True)
  have nz: "0 \<notin> set ?m"
    using assms(5) by (auto dest: in_set_takeD)
  have "take (length q) (q @ zeros j) = q" for q j
    by simp
  then have cut: "take (nul_len (?m @ zeros (Suc j))) (?m @ zeros (Suc j)) = ?m" for j
    by (simp only: nul_len_pad [OF nz])
  have "handle_post C srv pk ?p = post_core C srv pk i ts (att AND 3) ?m"
    using handle_post_core [OF assms(3) cl dec [unfolded assms(4)] td sl] unfolding assms(4)
    by (simp only: cut)
  moreover have "room_post_ack_hash C ts (att AND 3) ?m pk = room_post_ack_hash C ts att ?m pk"
    by (simp add: room_post_ack_hash_def and.assoc)
  ultimately show ?thesis
    using enc tk post_core_spec [OF assms(2,3,4) nz assms(7), of C ts "att AND 3"] by auto
qed

section \<open>Lemmas: a login\<close>

lemma room_login_core:
  assumes "crypto_ok C" "curve_ok K" "server_inv srv" "rs_identity srv = from_seed K b"
    and "ecdh_shared_secret K (from_seed K a) (id_pubkey (rs_identity srv)) = Some secret"
    and "sender = id_pubkey (from_seed K a)" "0 \<notin> set pw" "length pw \<le> 15"
    and "login_permission srv pw = Some (Some p)" "find_or_register_client srv sender = Some idx"
    and "dc_used (rs_clients srv ! idx) \<Longrightarrow> dc_last_timestamp (rs_clients srv ! idx) < ts"
    and "ck_last_unique (rs_clock srv) \<noteq> - 1" "67 \<le> length out" "20 \<le> length out2" "16 \<le> length buf"
  shows "\<exists>req n srv' rep m buf' resp.
     encode_anon_req_login C secret (id_pub_hash (rs_identity srv)) sender ts ss pw out = Some (req, n)
     \<and> handle_login C K srv (take n req) out2 = Some (srv', rep, Some m) \<and> server_inv srv'
     \<and> client_permissions srv' sender = Some p \<and> client_sync_since srv' sender = Some ss
     \<and> length (take m rep) = 20
     \<and> decode_dm_payload C secret (take m rep) buf = Some (buf', Inr (sender ! 0, id_pub_hash (rs_identity srv), 16))
     \<and> decode_login_response (take 16 buf') = Inr resp \<and> lr_permissions resp = p
     \<and> ck_last_unique (rs_clock srv) < lr_server_ts resp"
proof -
  have sender: "length sender = 32"
    using assms(2,6) by (simp add: from_seed_def curve_ok_def)
  obtain s where agree: "ecdh_shared_secret K (from_seed K a) (id_pubkey (from_seed K b)) = Some s"
    "ecdh_shared_secret K (from_seed K b) (id_pubkey (from_seed K a)) = Some s" "length s = 32"
    using ecdh_agree [OF assms(2)] by blast
  then have sec: "length secret = 32" "ecdh_shared_secret K (rs_identity srv) sender = Some secret"
    using assms(4,5,6) by simp_all
  have cl: "clients_ok (rs_clients srv)"
    using assms(3) by (simp add: server_inv_def)
  let ?h = "id_pub_hash (rs_identity srv)" and ?n = "ceil_16 (9 + length pw)"
  let ?p = "?h # sender @ seal C (take 16 secret) secret (login_bytes ts ss pw)"
  have n: "?n \<le> 32"
    using ceil_16_mono [of "9 + length pw" 24] assms(8) by (simp add: ceil_16_def div_ceil_16_def)
  have "pw = take 15 pw"
    using assms(8) by simp
  then have enc: "encode_anon_req_login C secret ?h sender ts ss pw out = Some (?p @ drop (35 + ?n) out, 35 + ?n)"
    using encode_anon_req_login_spec [OF assms(1) sec(1) sender, of pw pw out ?h ts ss] n assms(13) by simp
  have "length ?p = 35 + ?n"
    using assms(1) sec(1) sender by simp
  moreover have pre: "take (length q) (q @ r) = q" for q r :: bytes
    by simp
  ultimately have tk: "take (35 + ?n) (?p @ drop (35 + ?n) out) = ?p"
    by metis
  obtain ck t where ct: "current_time_unique (rs_clock srv) = (ck, t)"
    by fastforce
  let ?rep = "sender ! 0 # ?h # seal C (take 16 secret) secret (login_reply t p)"
  have r16: "ceil_16 (length (login_reply t p)) = 16"
    by (simp add: ceil_16_def div_ceil_16_def)
  have rep: "encode_dm_payload C secret (sender ! 0) ?h (login_reply t p) out2 = Some (?rep @ drop 20 out2, 20)"
    using assms(1,14) sec(1) r16 by (subst encode_dm_payload_spec) simp_all
  have "length ?rep = 20"
    using assms(1) sec(1) r16 by simp
  then have tk2: "take 20 (?rep @ drop 20 out2) = ?rep"
    using pre by metis
  have tk4: "length (take 20 (?rep @ drop 20 out2)) = 20"
    unfolding tk2 by fact
  have dec: "decode_dm_payload C secret ?rep buf = Some (pad16 (login_reply t p) @ drop 16 buf, Inr (sender ! 0, ?h, 16))"
    using assms(1,15) sec(1) r16 by (subst decode_dm_payload_spec) simp_all
  have "length (pad16 (login_reply t p)) = 16"
    using r16 by simp
  then have tk3: "take 16 (pad16 (login_reply t p) @ drop 16 buf) = pad16 (login_reply t p)"
    using pre by metis
  obtain resp where resp: "decode_login_response (pad16 (login_reply t p)) = Inr resp"
    "lr_permissions resp = p" "lr_server_ts resp = t"
    using decode_login_reply by blast
  let ?srv = "logged_in srv idx sender secret p ss ts"
  have inv: "server_inv ?srv"
    by (rule logged_in_inv [OF assms(3,12,10) sender sec(1)])
  have idx: "idx < 8"
    using register_slot(1) [OF cl assms(10), of "\<lparr>dc_used = False, dc_pubkey = sender, dc_shared_secret = [],
      dc_permissions = RP_Guest, dc_sync_since = 0, dc_last_timestamp = 0, dc_pending_ack = None, dc_push_post_ts = 0\<rparr>"]
    by (simp add: client_ok_def)
  have "handle_login C K srv ?p out2 = Some (?srv, ?rep @ drop 20 out2, Some 20)"
    using handle_login_request [OF assms(1) cl sender sec assms(7,8,9), of ts ss out2] assms(10,11) rep
    by (auto simp: ct)
  then have run: "handle_login C K srv (take (35 + ?n) (?p @ drop (35 + ?n) out)) out2 =
      Some (?srv, ?rep @ drop 20 out2, Some 20)"
    by (simp only: tk)
  have dec': "decode_dm_payload C secret (take 20 (?rep @ drop 20 out2)) buf =
      Some (pad16 (login_reply t p) @ drop 16 buf, Inr (sender ! 0, ?h, 16))"
    using dec by (simp only: tk2)
  have resp': "decode_login_response (take 16 (pad16 (login_reply t p) @ drop 16 buf)) = Inr resp"
    using resp(1) by (simp only: tk3)
  have "ck_last_unique (rs_clock srv) < lr_server_ts resp"
    unfolding resp(3) by (rule current_time_unique_spec(1) [OF ct assms(12)])
  then show ?thesis
    using enc run inv logged_in_client [OF inv idx] dec' resp' resp(2) tk4 by blast
qed

section \<open>Properties\<close>

text \<open>C28: in every state the room server reaches from its construction, through any logins, posts,
  pushes, acknowledgements, keep-alives and clock changes with arbitrary payloads, the client
  table has no duplicate key, and the posts of the cyclic queue are in strictly increasing time,
  none later than the server clock, with NUL-free texts within their buffers, unless the run has
  passed through a state, itself still in order, in which the clock had issued the last time of 32 bits, 2^32 - 1; the
  next time then wraps round to 0 and the order is lost.\<close>

theorem room_server_invariant:
  assumes "RoomServerDouble_new identity admin guest ro = Some srv0" "curve_ok K"
    and "(server_step C K)\<^sup>*\<^sup>* srv0 srv"
  shows "server_inv srv \<or> (\<exists>full. (server_step C K)\<^sup>*\<^sup>* srv0 full \<and> (server_step C K)\<^sup>*\<^sup>* full srv
    \<and> server_inv full \<and> ck_last_unique (rs_clock full) = 0xFFFFFFFF)"
  using assms(3)
proof (induction rule: rtranclp_induct)
  case base
  then show ?case
    using new_server_inv [OF assms(1)] by blast
next
  case (step srv1 srv2)
  show ?case
  proof (cases "server_inv srv1 \<and> ck_last_unique (rs_clock srv1) \<noteq> - 1")
    case True
    then show ?thesis
      using server_step_inv [OF step(2) assms(2)] by blast
  next
    case False
    then obtain full where "(server_step C K)\<^sup>*\<^sup>* srv0 full" "(server_step C K)\<^sup>*\<^sup>* full srv1" "server_inv full"
      "ck_last_unique (rs_clock full) = 0xFFFFFFFF"
      using step by auto
    then show ?thesis
      using step(2) by (meson rtranclp.rtrancl_into_rtrancl)
  qed
qed

theorem room_server_invariant_witness:
  "\<exists>srv0 srv1 srv2 rep m ack payload. RoomServerDouble_new (from_seed demo_curve (replicate 32 3)) [97] [98] True = Some srv0
     \<and> handle_login demo_prims demo_curve (set_server_time srv0 1000) payload (zeros 20) = Some (srv1, rep, Some m)
     \<and> handle_post demo_prims srv1 (id_pubkey (from_seed demo_curve (replicate 32 9))) ack = Some (srv2, Some (room_post_ack_hash demo_prims 61 0 [104, 105] (id_pubkey (from_seed demo_curve (replicate 32 9)))))
     \<and> (\<exists>t. posts_view srv2 = tl (posts_view srv1) @ [new_post (id_pubkey (from_seed demo_curve (replicate 32 9))) t [104, 105]])
     \<and> server_inv srv2"
proof -
  let ?K = demo_curve and ?C = demo_prims
  let ?id = "from_seed ?K (replicate 32 3)" and ?pk = "id_pubkey (from_seed ?K (replicate 32 9))"
  obtain srv0 where new: "RoomServerDouble_new ?id [97] [98] True = Some srv0" "rs_identity srv0 = ?id"
    "rs_clients srv0 = replicate 8 DoubleClient_EMPTY" "rs_clock srv0 = \<lparr>ck_current_time = 0, ck_last_unique = 0\<rparr>"
    "login_permission srv0 [97] = Some (Some RP_Admin)"
    by (simp add: RoomServerDouble_new_def slice_def copy_into_def MAX_LOGIN_PASSWORD_LEN_def MAX_ROOM_CLIENTS_def login_permission_def)
  let ?srv = "set_server_time srv0 1000"
  have "login_permission ?srv pw = login_permission srv0 pw" for pw
    by (simp add: login_permission_def set_server_time_def)
  then have srv: "server_inv ?srv" "rs_identity ?srv = ?id" "login_permission ?srv [97] = Some (Some RP_Admin)"
    "rs_clients ?srv = replicate 8 DoubleClient_EMPTY" "current_time_unique (rs_clock ?srv) = (\<lparr>ck_current_time = 1000, ck_last_unique = 1000\<rparr>, 1000)"
    using set_server_time_inv [OF new_server_inv [OF new(1)]] new
    by (simp_all add: set_server_time_def current_time_unique_def)
  obtain secret where sec: "ecdh_shared_secret ?K ?id ?pk = Some secret" "length secret = 32"
    using ecdh_agree [OF demo_curve_ok, of "replicate 32 3" "replicate 32 9"] by auto
  have pk: "length ?pk = 32"
    using demo_curve_ok by (simp add: from_seed_def curve_ok_def)
  have free: "find_or_register_client ?srv ?pk = Some 0" "\<not> dc_used (rs_clients ?srv ! 0)"
    by (simp_all add: find_or_register_client_def client_idx_def srv(4) DoubleClient_EMPTY_def numeral_eq_Suc)
  let ?payload = "id_pub_hash ?id # ?pk @ seal ?C (take 16 secret) secret (login_bytes 60 50 [97])"
  let ?srv1 = "logged_in ?srv 0 ?pk secret RP_Admin 50 60"
  have cl: "clients_ok (rs_clients ?srv)"
    using srv(1) by (simp add: server_inv_def)
  have "ceil_16 (length (login_reply 1000 RP_Admin)) = 16"
    by (simp add: ceil_16_def div_ceil_16_def)
  then obtain rep where rep: "encode_dm_payload ?C secret (?pk ! 0) (id_pub_hash ?id) (login_reply 1000 RP_Admin) (zeros 20) = Some (rep, 20)"
    using sec(2) encode_dm_payload_spec [OF demo_prims_ok, of secret "login_reply 1000 RP_Admin" "zeros 20"] by simp
  have login: "handle_login ?C ?K ?srv ?payload (zeros 20) = Some (?srv1, rep, Some 20)"
    using handle_login_request [OF demo_prims_ok cl pk sec(2), of ?K "[97]" "Some RP_Admin" 60 50 "zeros 20"] sec(1) srv(2,3,5) free rep
    by simp
  have inv1: "server_inv ?srv1"
    using logged_in_inv [OF srv(1) _ free(1) pk sec(2)] new(4) by (simp add: set_server_time_def)
  have c: "client_idx ?srv1 ?pk = Some 0" "rs_clients ?srv1 ! 0 = (rs_clients ?srv1 ! 0)\<lparr>dc_last_timestamp := 60, dc_permissions := RP_Admin\<rparr>"
    "ck_last_unique (rs_clock ?srv1) = 1000"
    using client_idx_unique [of ?srv1 0 ?pk] inv1 by (simp_all add: server_inv_def logged_in_def srv(4,5))
  have p: "dc_last_timestamp (rs_clients ?srv1 ! 0) < 61" "can_post (dc_permissions (rs_clients ?srv1 ! 0))"
    by (simp_all add: logged_in_def srv(4) can_post_def)
  have "dc_last_timestamp (rs_clients ?srv1 ! 0) \<le> 61"
    using p(1) by simp
  then obtain out n srv2 t where post: "handle_post ?C ?srv1 ?pk (take n out) = Some (srv2, Some (room_post_ack_hash ?C 61 0 [104, 105] ?pk))"
    "posts_view srv2 = tl (posts_view ?srv1) @ [new_post ?pk t [104, 105]]"
    using room_post_core [OF demo_prims_ok inv1 c(1) refl, of "[104, 105]" "zeros 200" 1 2 61 0] p c(3) by auto
  let ?step = "server_step ?C ?K"
  have "?step srv0 ?srv" "?step ?srv ?srv1" "?step ?srv1 srv2"
    using step_time step_login [OF login] step_post [OF post(1)] by blast+
  then have run: "?step\<^sup>*\<^sup>* srv0 srv2"
    by (meson converse_rtranclp_into_rtranclp rtranclp.rtrancl_refl)
  have "server_inv srv2"
    using room_server_invariant [OF new(1) demo_curve_ok run] server_step_inv [OF \<open>?step ?srv1 srv2\<close> demo_curve_ok inv1] c(3) by auto
  with new(1) login post show ?thesis
    by blast
qed

text \<open>room synchronisation delivers every post once and in order.  In a well-formed server state
  a client with no push in flight is pushed the oldest post newer than its watermark and written
  by somebody else, and nothing when there is none.  The client decodes exactly that
  post; until it acknowledges, further pushes send nothing; the acknowledgement it computes
  from what it decoded is accepted and moves the watermark to that post, and every other post it
  was still owed remains owed.\<close>

theorem room_sync_step:
  assumes "crypto_ok C" "server_inv srv" "client_idx srv pk = Some i"
    and "c = rs_clients srv ! i" "dc_pending_ack c = None" "164 \<le> length out" "160 \<le> length buf"
  shows "case next_post srv (dc_sync_since c) pk of
      None \<Rightarrow> push_next C srv pk out = Some (srv, out, None)
        \<and> (\<forall>q \<in> set (rs_posts srv). \<not> eligible q (dc_sync_since c) pk)
    | Some p \<Rightarrow> \<exists>srv1 out' n buf' rp body srv2.
        push_next C srv pk out = Some (srv1, out', Some n)
        \<and> decode_room_push C (dc_shared_secret c) (take n out') buf =
            Some (buf', Inr (pk ! 0, id_pub_hash (rs_identity srv), rp))
        \<and> rp_post_ts rp = dp_timestamp p \<and> take (rp_text_len rp) (drop (rp_text_offset rp) buf') = post_text p
        \<and> push_next C srv1 pk out2 = Some (srv1, out2, None)
        \<and> push_body rp buf' = Some body
        \<and> handle_push_ack srv1 pk (room_push_ack_hash C (rp_post_ts rp) (rp_attempt rp) body pk) = Some (srv2, True)
        \<and> server_inv srv2 \<and> rs_posts srv2 = rs_posts srv
        \<and> client_sync_since srv2 pk = Some (dp_timestamp p) \<and> client_pending_ack srv2 pk = None
        \<and> (\<forall>q \<in> set (rs_posts srv). eligible q (dc_sync_since c) pk = (q = p \<or> eligible q (dp_timestamp p) pk))"
proof (cases "next_post srv (dc_sync_since c) pk")
  case None
  have "push_next C srv pk out = Some (srv, out, None)"
    using push_next_none [of srv pk i C out] assms None by (simp add: server_inv_def)
  moreover have "\<forall>q \<in> set (rs_posts srv). \<not> eligible q (dc_sync_since c) pk"
    using None next_post_None by blast
  ultimately show ?thesis
    by (simp add: None)
next
  case (Some p)
  have cl: "clients_ok (rs_clients srv)" and po: "posts_ok srv"
    using assms(2) by (simp_all add: server_inv_def)
  have p: "p \<in> set (rs_posts srv)" "eligible p (dc_sync_since c) pk"
    using choose_post_next [OF po, of "dc_sync_since c" pk] Some by auto
  then have "post_ok p" "dp_used p"
    using po by (auto simp: posts_ok_def list_all_iff eligible_def)
  note ok = post_text_ok [OF this]
  have sec: "length (dc_shared_secret c) = 32"
    using client_idx_Some [OF assms(3) cl] assms(4) by (simp add: client_ok_def)
  have "ceil_16 (9 + dp_text_len p) \<le> 160"
    using ceil_16_mono [of "9 + dp_text_len p" 159] ok by (simp add: ceil_16_def div_ceil_16_def)
  then have sizes: "ceil_16 (9 + length (post_text p)) \<le> length buf" "4 + ceil_16 (9 + length (post_text p)) \<le> length out"
    using assms(6,7) ok by simp_all
  let ?h = "push_hash C p pk"
  define srv1 where "srv1 = srv\<lparr>rs_clients := (rs_clients srv)[i := c\<lparr>dc_pending_ack := Some ?h, dc_push_post_ts := dp_timestamp p\<rparr>]\<rparr>"
  note s1 = after_push [OF assms(2,3,4) srv1_def]
  have a4: "length (take 4 (dp_author_pubkey p)) = 4" and nz: "0 \<notin> set (post_text p)"
    using ok by simp_all
  obtain out' n where push: "push_next C srv pk out = Some (srv1, out', Some n)"
    and enc: "encode_dm_payload C (dc_shared_secret c) (pk ! 0) (id_pub_hash (rs_identity srv)) (push_plaintext p) out =
      Some (out', n)"
    using push_next_spec [OF assms(1) cl po assms(3,4,5) Some, of out] sizes(2) conjunct1 [OF ok]
    unfolding srv1_def by (metis (no_types, lifting))
  obtain buf' rp where rp: "decode_room_push C (dc_shared_secret c) (take n out') buf =
      Some (buf', Inr (pk ! 0, id_pub_hash (rs_identity srv), rp))" "rp_post_ts rp = dp_timestamp p"
    "take (rp_text_len rp) (drop (rp_text_offset rp) buf') = post_text p"
    "map_option (\<lambda>b. room_push_ack_hash C (rp_post_ts rp) (rp_attempt rp) b pk) (push_body rp buf') = Some ?h"
    using room_push_decoded [OF assms(1) sec a4 nz sizes push_plaintext_def, of "pk ! 0" "id_pub_hash (rs_identity srv)" pk] enc
    unfolding push_hash_def by auto
  then obtain body where body: "push_body rp buf' = Some body"
    "room_push_ack_hash C (rp_post_ts rp) (rp_attempt rp) body pk = ?h"
    by auto
  have drip: "push_next C srv1 pk out2 = Some (srv1, out2, None)"
    using push_next_none [OF _ _ s1(2), of C out2] s1(1) unfolding server_inv_def s1(4) by auto
  obtain srv2 where srv2: "handle_push_ack srv1 pk ?h = Some (srv2, True)" "server_inv srv2"
    "client_sync_since srv2 pk = Some (dp_timestamp p)" "client_pending_ack srv2 pk = None" "rs_posts srv2 = rs_posts srv"
    using after_ack [OF s1(1,2), of ?h "dp_timestamp p"] s1(3,4) by auto
  have "eligible q (dc_sync_since c) pk = (q = p \<or> eligible q (dp_timestamp p) pk)" if "q \<in> set (rs_posts srv)" for q
    using next_post_oldest [OF po Some that] p(2) that by (auto simp: eligible_def dest: order.strict_trans)
  then show ?thesis
    using Some push rp(1-3) drip body srv2 by simp
qed

theorem room_sync_step_witness:
  "\<exists>srv1 out' n srv2 ack. push_next demo_prims demo_room (replicate 32 5) (zeros 200) = Some (srv1, out', Some n)
     \<and> handle_push_ack srv1 (replicate 32 5) ack = Some (srv2, True)
     \<and> client_sync_since srv2 (replicate 32 5) = Some 100"
proof -
  let ?p = "new_post (replicate 32 9) 100 [104, 105 :: u8]"
  have "eligible ?p 50 (replicate 32 5)"
    by (simp add: eligible_def new_post_def)
  moreover have "find (\<lambda>p. eligible p 50 (replicate 32 5)) (replicate n DoublePost_EMPTY @ [?p]) =
      find (\<lambda>p. eligible p 50 (replicate 32 5)) [?p]" for n
    by (induction n) (simp_all add: eligible_def DoublePost_EMPTY_def)
  ultimately have "next_post demo_room 50 (replicate 32 5) = Some ?p"
    by (simp add: next_post_def posts_view_def demo_room_def)
  then show ?thesis
    using room_sync_step [OF demo_prims_ok demo_room_inv demo_room_client(1) refl, of "zeros 200" "zeros 160" "[]"]
    by (auto simp: demo_room_client demo_client_def DoubleClient_EMPTY_def new_post_def)
qed

text \<open>a client's post reaches the queue once.  The server acknowledges a post exactly when the
  author may write and the timestamp is not older than the last one, with the hash the
  client expects; it stores the text, stamped later than every stored post, exactly when the
  timestamp is also new, so a retry with the same timestamp is acknowledged again and not
  stored twice, and nothing is stored for a reader or a replay.\<close>

theorem room_post_stored_once:
  assumes "crypto_ok C" "server_inv srv" "client_idx srv pk = Some i" "c = rs_clients srv ! i"
    and "0 \<notin> set msg" "164 \<le> length out" "ck_last_unique (rs_clock srv) \<noteq> - 1"
  shows "\<exists>out' n srv' t. encode_room_post C (dc_shared_secret c) dest src ts att msg out = Some (out', n)
    \<and> handle_post C srv pk (take n out') = Some (srv',
        if dc_last_timestamp c \<le> ts \<and> can_post (dc_permissions c)
        then Some (room_post_ack_hash C ts att (take 150 msg) pk) else None)
    \<and> server_inv srv' \<and> ck_last_unique (rs_clock srv) < t
    \<and> posts_view srv' = (if dc_last_timestamp c < ts \<and> can_post (dc_permissions c)
        then tl (posts_view srv) @ [new_post pk t (take 150 msg)] else posts_view srv)"
  by (rule room_post_core [OF assms])

theorem room_post_stored_once_witness:
  "\<exists>out' n srv' t. encode_room_post demo_prims (replicate 32 7) 1 2 60 0 [104, 105] (zeros 200) = Some (out', n)
    \<and> handle_post demo_prims demo_room (replicate 32 5) (take n out') =
        Some (srv', Some (room_post_ack_hash demo_prims 60 0 [104, 105] (replicate 32 5)))
    \<and> posts_view srv' = tl (posts_view demo_room) @ [new_post (replicate 32 5) t [104, 105]]"
  using room_post_stored_once [OF demo_prims_ok demo_room_inv demo_room_client(1) refl, of "[104, 105]" "zeros 200" 1 2 60 0]
  by (auto simp: demo_room_client demo_client_def DoubleClient_EMPTY_def demo_room_def)

end
