(* ===== verification/Inbound.thy ===== *)
theory Inbound
  imports Codec Bounded_Log
begin

text \<open>
  \<open>firmware-core/src/inbound_dm.rs\<close> (which text subtypes of a direct message are chat) and
  \<open>firmware-core/src/inbound_replay.rs\<close> (the persisted per-contact replay guard).  The guard's
  decision is stated over the sequence of frames it accepted: the newest sixteen fingerprints
  and the highest timestamp.
\<close>

section \<open>Text subtypes\<close>

datatype DmDisposition = Accept | IgnoreCli TxtType | IgnoreUnknown TxtType

primrec is_accept :: "DmDisposition \<Rightarrow> bool" where
  "is_accept Accept = True"
| "is_accept (IgnoreCli _) = False"
| "is_accept (IgnoreUnknown _) = False"

text \<open>The literal that the log line prints is kept as a value, since the caller branches on it.\<close>

primrec ignore_reason :: "DmDisposition \<Rightarrow> string option" where
  "ignore_reason Accept = None"
| "ignore_reason (IgnoreCli _) = Some ''CLI traffic not supported, ignored''"
| "ignore_reason (IgnoreUnknown _) = Some ''unrecognized text subtype (forward-compatible), ignored''"

primrec classify_inbound_dm :: "TxtType \<Rightarrow> DmDisposition" where
  "classify_inbound_dm TT_Plain = Accept"
| "classify_inbound_dm TT_SignedPlain = Accept"
| "classify_inbound_dm TT_CliData = IgnoreCli TT_CliData"
| "classify_inbound_dm TT_CliCommand = IgnoreCli TT_CliCommand"
| "classify_inbound_dm (TT_Unknown b) = IgnoreUnknown (TT_Unknown b)"

lemma classify_reason_None: "ignore_reason (classify_inbound_dm t) = None \<longleftrightarrow> t = TT_Plain \<or> t = TT_SignedPlain"
  by (cases t) simp_all

section \<open>Replay state\<close>

definition REPLAY_RING_LEN :: nat where
  "REPLAY_RING_LEN = 16"

definition INBOUND_REPLAY_STATE_LEN :: nat where
  "INBOUND_REPLAY_STATE_LEN = 4 + REPLAY_RING_LEN * 4 + 1 + 1"

record InboundReplayState =
  irs_last_ts :: u32
  irs_ring :: "bytes list"
  irs_head :: u8
  irs_count :: u8

definition InboundReplayState_EMPTY :: InboundReplayState where
  "InboundReplayState_EMPTY =
     \<lparr>irs_last_ts = 0, irs_ring = replicate REPLAY_RING_LEN (zeros 4), irs_head = 0, irs_count = 0\<rparr>"

definition ring_contains :: "InboundReplayState \<Rightarrow> bytes \<Rightarrow> bool rust" where
  "ring_contains s fingerprint = do {
     valid \<leftarrow> slice (irs_ring s) 0 (min (unat (irs_count s)) REPLAY_RING_LEN);
     Some (list_ex (\<lambda>h. h = fingerprint) valid)
   }"

definition ring_insert :: "InboundReplayState \<Rightarrow> bytes \<Rightarrow> InboundReplayState rust" where
  "ring_insert s fingerprint = do {
     ring \<leftarrow> set_at (irs_ring s) (unat (irs_head s)) fingerprint;
     Some (s\<lparr>irs_ring := ring,
             irs_head := (irs_head s + 1) mod of_nat REPLAY_RING_LEN,
             irs_count := if unat (irs_count s) < REPLAY_RING_LEN then irs_count s + 1 else irs_count s\<rparr>)
   }"

definition check_and_record_inbound ::
    "InboundReplayState \<Rightarrow> u32 \<Rightarrow> bytes \<Rightarrow> (InboundReplayState \<times> bool) rust" where
  "check_and_record_inbound s ts fingerprint =
     (if ts > irs_last_ts s then do {
        s \<leftarrow> ring_insert (s\<lparr>irs_last_ts := ts\<rparr>) fingerprint;
        Some (s, True)
      } else do {
        known \<leftarrow> ring_contains s fingerprint;
        if known then Some (s, False)
        else do {
          s \<leftarrow> ring_insert s fingerprint;
          Some (s, True)
        }
      })"

section \<open>The stored blob\<close>

fun encode_ring :: "bytes list \<Rightarrow> bytes \<Rightarrow> nat \<Rightarrow> (bytes \<times> nat) rust" where
  "encode_ring [] out off = Some (out, off)"
| "encode_ring (slot # slots) out off = do {
     out \<leftarrow> copy_into out off slot;
     encode_ring slots out (off + 4)
   }"

definition encode_inbound_replay_state :: "InboundReplayState \<Rightarrow> bytes \<Rightarrow> (bytes \<times> nat) rust" where
  "encode_inbound_replay_state s out = do {
     out \<leftarrow> copy_into out 0 (to_le32 (irs_last_ts s));
     (out, off) \<leftarrow> encode_ring (irs_ring s) out 4;
     out \<leftarrow> set_at out off (irs_head s);
     out \<leftarrow> set_at out (off + 1) (irs_count s);
     Some (out, off + 2)
   }"

fun decode_ring :: "nat \<Rightarrow> bytes \<Rightarrow> nat \<Rightarrow> (bytes list \<times> nat) rust" where
  "decode_ring 0 blob off = Some ([], off)"
| "decode_ring (Suc n) blob off = do {
     slot \<leftarrow> slice blob off (off + 4);
     (ring, off) \<leftarrow> decode_ring n blob (off + 4);
     Some (slot # ring, off)
   }"

definition decode_inbound_replay_state :: "bytes \<Rightarrow> InboundReplayState option rust" where
  "decode_inbound_replay_state blob =
     (if length blob < INBOUND_REPLAY_STATE_LEN then Some None
      else do {
        t \<leftarrow> slice blob 0 4;
        let last_ts = from_le32 (t ! 0) (t ! 1) (t ! 2) (t ! 3);
        (ring, off) \<leftarrow> decode_ring REPLAY_RING_LEN blob 4;
        head \<leftarrow> get_at blob off;
        cnt \<leftarrow> get_at blob (off + 1);
        Some (if unat head \<ge> REPLAY_RING_LEN \<or> unat cnt > REPLAY_RING_LEN then None
              else Some \<lparr>irs_last_ts = last_ts, irs_ring = ring, irs_head = head, irs_count = cnt\<rparr>)
      })"

section \<open>The guard as a bounded log\<close>

definition replay_ok :: "InboundReplayState \<Rightarrow> bool" where
  "replay_ok s \<longleftrightarrow> ring_ok 16 (unat (irs_head s)) (unat (irs_count s)) (irs_ring s)
     \<and> (\<forall>f \<in> set (irs_ring s). length f = 4)"

definition replay_view :: "InboundReplayState \<Rightarrow> bytes list" where
  "replay_view s = ring_view 16 (unat (irs_head s)) (unat (irs_count s)) (irs_ring s)"

lemma unat_mod_16: "unat ((w + 1) mod 16 :: u8) = (unat w + 1) mod 16"
proof -
  have "unat (w + 1) mod 16 = (unat w + 1) mod 16"
    by (simp add: unat_word_ariths mod_mod_cancel)
  then show ?thesis
    by (simp add: unat_mod)
qed

lemma ring_insert_spec:
  assumes "replay_ok s" "length f = 4"
  shows "\<exists>s'. ring_insert s f = Some s' \<and> replay_ok s' \<and> irs_last_ts s' = irs_last_ts s
    \<and> replay_view s' = newest 16 (replay_view s @ [f])"
proof -
  have r: "ring_ok 16 (unat (irs_head s)) (unat (irs_count s)) (irs_ring s)"
    using assms(1) by (simp add: replay_ok_def)
  have c: "unat (irs_count s + 1) = unat (irs_count s) + 1" if "unat (irs_count s) < 16"
    using that by (simp add: unat_word_ariths)
  have "\<forall>g \<in> set ((irs_ring s)[unat (irs_head s) := f]). length g = 4"
    using assms by (auto simp: replay_ok_def dest!: set_update_subset_insert [THEN subsetD])
  then show ?thesis
    using r ring_write [OF r, of f] c
    by (auto simp: ring_insert_def REPLAY_RING_LEN_def set_at_def ring_ok_def replay_ok_def replay_view_def
        unat_mod_16)
qed

interpretation replay: bounded_log 16 replay_ok "\<lambda>f. length f = 4" replay_view InboundReplayState_EMPTY ring_insert
proof unfold_locales
  show "replay_ok InboundReplayState_EMPTY" "replay_view InboundReplayState_EMPTY = []"
    by (simp_all add: replay_ok_def replay_view_def InboundReplayState_EMPTY_def REPLAY_RING_LEN_def ring_ok_def
        ring_view_def)
  show "\<exists>s'. ring_insert s f = Some s' \<and> replay_ok s' \<and> replay_view s' = newest 16 (replay_view s @ [f])"
    if "replay_ok s" "length f = 4" for s f
    using ring_insert_spec [OF that] by blast
qed

lemma ring_contains_spec:
  assumes "replay_ok s"
  shows "ring_contains s f = Some (f \<in> set (replay_view s))"
proof -
  have r: "ring_ok 16 (unat (irs_head s)) (unat (irs_count s)) (irs_ring s)"
    using assms by (simp add: replay_ok_def)
  then show ?thesis
    using set_ring_view [OF r]
    by (auto simp: ring_contains_def REPLAY_RING_LEN_def slice_def ring_ok_def replay_view_def list_ex_iff min_def)
qed

lemma check_spec:
  assumes "replay_ok s" "length f = 4"
  shows "\<exists>s'. check_and_record_inbound s ts f = Some (s', \<not> (ts \<le> irs_last_ts s \<and> f \<in> set (replay_view s)))
    \<and> replay_ok s'
    \<and> (if ts \<le> irs_last_ts s \<and> f \<in> set (replay_view s) then s' = s
       else irs_last_ts s' = max (irs_last_ts s) ts \<and> replay_view s' = newest 16 (replay_view s @ [f]))"
proof (cases "ts > irs_last_ts s")
  case True
  have "replay_ok (s\<lparr>irs_last_ts := ts\<rparr>)" "replay_view (s\<lparr>irs_last_ts := ts\<rparr>) = replay_view s"
    using assms(1) by (simp_all add: replay_ok_def replay_view_def)
  then show ?thesis
    using True ring_insert_spec [of "s\<lparr>irs_last_ts := ts\<rparr>" f] assms(2)
    by (auto simp: check_and_record_inbound_def max_def)
next
  case False
  then show ?thesis
    using ring_insert_spec [OF assms] assms(1) ring_contains_spec [OF assms(1), of f]
    by (auto simp: check_and_record_inbound_def max_def not_less)
qed

text \<open>A run of the guard over a sequence of decrypted frames, with the frames it accepted.\<close>

fun run_guard :: "InboundReplayState \<Rightarrow> (u32 \<times> bytes) list \<Rightarrow> (InboundReplayState \<times> (u32 \<times> bytes) list) rust" where
  "run_guard s [] = Some (s, [])"
| "run_guard s ((ts, f) # frames) = do {
     (s, ok) \<leftarrow> check_and_record_inbound s ts f;
     (s, accepted) \<leftarrow> run_guard s frames;
     Some (s, if ok then (ts, f) # accepted else accepted)
   }"

text \<open>The reference rule, over the chronological list of everything accepted so far.\<close>

definition high_water :: "(u32 \<times> bytes) list \<Rightarrow> u32" where
  "high_water log = foldl max 0 (map fst log)"

definition rejects :: "(u32 \<times> bytes) list \<Rightarrow> u32 \<Rightarrow> bytes \<Rightarrow> bool" where
  "rejects log ts f \<longleftrightarrow> ts \<le> high_water log \<and> f \<in> set (newest 16 (map snd log))"

fun reference_guard :: "(u32 \<times> bytes) list \<Rightarrow> (u32 \<times> bytes) list \<Rightarrow> (u32 \<times> bytes) list" where
  "reference_guard log [] = log"
| "reference_guard log ((ts, f) # frames) =
     reference_guard (if rejects log ts f then log else log @ [(ts, f)]) frames"

definition guard_rel :: "(u32 \<times> bytes) list \<Rightarrow> InboundReplayState \<Rightarrow> bool" where
  "guard_rel log s \<longleftrightarrow> replay_ok s \<and> irs_last_ts s = high_water log \<and> replay_view s = newest 16 (map snd log)"

lemma guard_rel_empty: "guard_rel [] InboundReplayState_EMPTY"
  using replay.invar_fresh replay.view_fresh
  by (simp add: guard_rel_def high_water_def InboundReplayState_EMPTY_def newest_def)

lemma guard_rel_step:
  assumes "guard_rel log s" "length f = 4"
  shows "\<exists>s'. check_and_record_inbound s ts f = Some (s', \<not> rejects log ts f)
    \<and> (rejects log ts f \<longrightarrow> s' = s) \<and> guard_rel (if rejects log ts f then log else log @ [(ts, f)]) s'"
proof -
  have "replay_ok s" "irs_last_ts s = high_water log" "replay_view s = newest 16 (map snd log)"
    using assms(1) by (simp_all add: guard_rel_def)
  then show ?thesis
    using check_spec [of s f ts] assms(2)
    by (auto simp: guard_rel_def rejects_def newest_newest_snoc high_water_def split: if_splits)
qed

lemma run_guard_refines:
  assumes "guard_rel log s" "\<forall>x \<in> set frames. length (snd x) = 4"
  shows "\<exists>s' accepted. run_guard s frames = Some (s', accepted)
    \<and> reference_guard log frames = log @ accepted \<and> guard_rel (log @ accepted) s'"
  using assms
proof (induction s frames arbitrary: log rule: run_guard.induct)
  case (2 s ts f frames)
  then obtain s1 where s1: "check_and_record_inbound s ts f = Some (s1, \<not> rejects log ts f)"
    "guard_rel (if rejects log ts f then log else log @ [(ts, f)]) s1"
    using guard_rel_step [of log s f ts] by auto
  then obtain s' accepted where "run_guard s1 frames = Some (s', accepted)"
    "reference_guard (if rejects log ts f then log else log @ [(ts, f)]) frames =
       (if rejects log ts f then log else log @ [(ts, f)]) @ accepted"
    "guard_rel ((if rejects log ts f then log else log @ [(ts, f)]) @ accepted) s'"
    using 2(1) [OF s1(1) refl s1(2)] 2(3) by auto
  then show ?case
    using s1(1) by (auto split: if_splits)
qed simp

lemma high_water_ge: "ts \<in> fst ` set log \<Longrightarrow> ts \<le> high_water log"
  unfolding high_water_def
  by (induction log rule: rev_induct) (auto simp: le_max_iff_disj)

lemma rejects_recent:
  assumes "length post < 16"
  shows "rejects (pre @ (ts, f) # post) ts f"
proof -
  have "f \<in> set (newest 16 (map snd pre @ f # map snd post))"
    using assms by (cases "16 \<le> Suc (length pre + length post)")
      (auto simp: newest_def drop_append Suc_diff_le in_set_conv_nth nth_append intro!: exI [of _ "length pre - (length pre + Suc (length post) - 16)"])
  then show ?thesis
    unfolding rejects_def by (auto intro: high_water_ge)
qed

section \<open>Storing and loading\<close>

definition replay_bytes :: "InboundReplayState \<Rightarrow> bytes" where
  "replay_bytes s = to_le32 (irs_last_ts s) @ concat (irs_ring s) @ [irs_head s, irs_count s]"

lemma length_concat_4: "\<forall>f \<in> set ring. length f = 4 \<Longrightarrow> length (concat ring) = 4 * length ring"
  by (induction ring) auto

lemma encode_ring_spec:
  "\<forall>f \<in> set ring. length f = 4 \<Longrightarrow> length p = off \<Longrightarrow> 4 * length ring \<le> length q \<Longrightarrow>
   encode_ring ring (p @ q) off = Some (p @ concat ring @ drop (4 * length ring) q, off + 4 * length ring)"
proof (induction ring arbitrary: p q off)
  case (Cons slot ring)
  have "copy_into (p @ q) off slot = Some ((p @ slot) @ drop 4 q)"
    using Cons.prems by (auto simp: copy_into_def)
  then show ?case
    using Cons.IH [of "p @ slot" "off + 4" "drop 4 q"] Cons.prems by (simp add: add.commute)
qed simp

lemma decode_ring_spec:
  "\<forall>f \<in> set ring. length f = 4 \<Longrightarrow> length p = off \<Longrightarrow>
   decode_ring (length ring) (p @ concat ring @ q) off = Some (ring, off + 4 * length ring)"
proof (induction ring arbitrary: p off)
  case (Cons slot ring)
  have "slice (p @ concat (slot # ring) @ q) off (off + 4) = Some slot"
    using Cons.prems by (auto simp: slice_def)
  then show ?case
    using Cons.IH [of "p @ slot" "off + 4"] Cons.prems by (simp add: add.commute)
qed simp

lemma encode_replay_bytes:
  assumes ring: "\<forall>f \<in> set (irs_ring s). length f = 4" "length (irs_ring s) = 16" and "70 \<le> length out"
  shows "encode_inbound_replay_state s out = Some (replay_bytes s @ drop 70 out, 70)"
proof -
  have "copy_into out 0 (to_le32 (irs_last_ts s)) = Some (to_le32 (irs_last_ts s) @ drop 4 out)"
    using assms(3) by (simp add: copy_into_def)
  moreover have "encode_ring (irs_ring s) (to_le32 (irs_last_ts s) @ drop 4 out) 4 =
      Some (to_le32 (irs_last_ts s) @ concat (irs_ring s) @ drop 68 out, 68)"
    using encode_ring_spec [OF ring(1), of "to_le32 (irs_last_ts s)" 4 "drop 4 out"] ring(2) assms(3) by simp
  moreover have "drop 68 out = out ! 68 # out ! 69 # drop 70 out"
    using assms(3) Cons_nth_drop_Suc [of 68 out] Cons_nth_drop_Suc [of 69 out] by simp
  ultimately show ?thesis
    using length_concat_4 [OF ring(1)] ring(2)
    by (simp add: encode_inbound_replay_state_def replay_bytes_def set_at_def list_update_append)
qed

lemma encode_replay_spec:
  "replay_ok s \<Longrightarrow> 70 \<le> length out \<Longrightarrow> encode_inbound_replay_state s out = Some (replay_bytes s @ drop 70 out, 70)"
  by (rule encode_replay_bytes) (simp_all add: replay_ok_def ring_ok_def)

lemma decode_replay_spec:
  assumes "replay_ok s"
  shows "decode_inbound_replay_state (replay_bytes s @ rest) = Some (Some s)"
proof -
  have ring: "\<forall>f \<in> set (irs_ring s). length f = 4" "length (irs_ring s) = 16" "unat (irs_head s) < 16"
    "unat (irs_count s) \<le> 16"
    using assms by (simp_all add: replay_ok_def ring_ok_def)
  obtain t0 t1 t2 t3 where t: "to_le32 (irs_last_ts s) = [t0, t1, t2, t3]" "from_le32 t0 t1 t2 t3 = irs_last_ts s"
    using from_to_le32 [of "irs_last_ts s"] by (simp add: to_le32_def)
  have "decode_ring 16 (replay_bytes s @ rest) 4 = Some (irs_ring s, 68)"
    using decode_ring_spec [OF ring(1), of "[t0, t1, t2, t3]" 4 "[irs_head s, irs_count s] @ rest"] ring(2)
    by (simp add: replay_bytes_def t)
  moreover have "get_at (replay_bytes s @ rest) 68 = Some (irs_head s)" "get_at (replay_bytes s @ rest) 69 = Some (irs_count s)"
    "length (replay_bytes s) = 70" "slice (replay_bytes s @ rest) 0 4 = Some [t0, t1, t2, t3]"
    using length_concat_4 [OF ring(1)] ring(2) t
    by (simp_all add: replay_bytes_def get_at_def nth_append slice_def)
  ultimately show ?thesis
    using ring t(2) by (simp add: decode_inbound_replay_state_def INBOUND_REPLAY_STATE_LEN_def REPLAY_RING_LEN_def)
qed

section \<open>Properties\<close>

text \<open>C9: the replay guard refines the reference rule: whatever the sequence of frames of a contact, it accepts
  exactly the frames the rule over the full history of accepted frames accepts (a timestamp above every accepted
  one, or a fingerprint that is not among the sixteen newest accepted), and never panics.\<close>

theorem replay_guard_refines_reference:
  assumes "\<forall>x \<in> set frames. length (snd x) = 4"
  shows "\<exists>s accepted. run_guard InboundReplayState_EMPTY frames = Some (s, accepted)
    \<and> reference_guard [] frames = accepted"
  using run_guard_refines [OF guard_rel_empty assms] by auto

theorem replay_guard_refines_reference_witness:
  "\<exists>s accepted. run_guard InboundReplayState_EMPTY [(7, [1, 2, 3, 4]), (7, [1, 2, 3, 4]), (3, [9, 9, 9, 9])] = Some (s, accepted)
    \<and> accepted = [(7, [1, 2, 3, 4]), (3, [9, 9, 9, 9])]"
  using replay_guard_refines_reference [of "[(7, [1, 2, 3, 4]), (7, [1, 2, 3, 4]), (3, [9, 9, 9, 9])]"]
  by (simp add: rejects_def high_water_def newest_def)

text \<open>C10: a captured frame is never accepted again while fewer than sixteen frames of the same contact were
  accepted after it, also across a reboot: the state that the guard reaches survives being written to the store and
  read back, and the guard then refuses the frame and leaves the state alone.\<close>

theorem replayed_frame_rejected:
  assumes "\<forall>x \<in> set frames. length (snd x) = 4"
    and "run_guard InboundReplayState_EMPTY frames = Some (s, pre @ (ts, f) # post)" "length post < 16"
    and "70 \<le> length buf"
  shows "\<exists>buf' s'. encode_inbound_replay_state s buf = Some (buf', 70)
    \<and> decode_inbound_replay_state (take 70 buf') = Some (Some s') \<and> s' = s
    \<and> check_and_record_inbound s' ts f = Some (s', False)"
proof -
  have rel: "guard_rel (pre @ (ts, f) # post) s"
    using run_guard_refines [OF guard_rel_empty assms(1)] assms(2) by auto
  then have ok: "replay_ok s"
    by (simp add: guard_rel_def)
  have "f \<in> set (replay_view s)"
    using rel rejects_recent [OF assms(3), of pre ts f] by (simp add: guard_rel_def rejects_def)
  then have len: "length f = 4"
    using ok mset_ring_view [of 16 "unat (irs_head s)" "unat (irs_count s)" "irs_ring s"]
      set_ring_view [of 16 "unat (irs_head s)" "unat (irs_count s)" "irs_ring s"]
    by (auto simp: replay_ok_def replay_view_def dest: in_set_takeD)
  have "length (replay_bytes s) = 70"
    using ok length_concat_4 [of "irs_ring s"] by (simp add: replay_bytes_def replay_ok_def ring_ok_def)
  moreover obtain s' where "check_and_record_inbound s ts f = Some (s', False)" "s' = s"
    using guard_rel_step [OF rel len, of ts] rejects_recent [OF assms(3), of pre ts f] by auto
  ultimately show ?thesis
    using encode_replay_spec [OF ok assms(4)] decode_replay_spec [OF ok, of "[]"] by simp
qed

theorem replayed_frame_rejected_witness:
  "\<exists>s. run_guard InboundReplayState_EMPTY [(7, [1, 2, 3, 4]), (9, [5, 5, 5, 5])] = Some (s, [(7, [1, 2, 3, 4]), (9, [5, 5, 5, 5])])
    \<and> check_and_record_inbound s 7 [1, 2, 3, 4] = Some (s, False)"
proof -
  let ?frames = "[(7, [1, 2, 3, 4]), (9, [5, 5, 5, 5])] :: (u32 \<times> bytes) list"
  have ok: "\<forall>x \<in> set ?frames. length (snd x) = 4"
    by simp
  obtain s where s: "run_guard InboundReplayState_EMPTY ?frames = Some (s, ?frames)"
    using run_guard_refines [OF guard_rel_empty ok] by (auto simp: rejects_def high_water_def)
  then have "run_guard InboundReplayState_EMPTY ?frames = Some (s, [] @ (7, [1, 2, 3, 4]) # [(9, [5, 5, 5, 5])])"
    by simp
  from replayed_frame_rejected [OF ok this, of "zeros 70"] s show ?thesis
    by auto
qed

end
