(* ===== verification/Prov_Frame.thy ===== *)
theory Prov_Frame
  imports Prelude
begin

text \<open>
  The frame layer of \<open>protocol/src/provisioning.rs\<close>: magic, type, length, payload, CRC-16/ARC.
  The checksum's step is a bijection of the state, so a change of one byte is never lost.
\<close>

section \<open>Frames\<close>

definition PROV_MAGIC :: bytes where
  "PROV_MAGIC = [0x4D, 0x43]"

definition FRAME_OVERHEAD :: nat where
  "FRAME_OVERHEAD = 7"

datatype ProvError =
    PE_TruncatedFrame
  | PE_BadMagic
  | PE_CrcMismatch
  | PE_TruncatedPayload
  | PE_NameTooLong
  | PE_PinTooLong
  | PE_PasswordTooLong
  | PE_PathTooLong
  | PE_LockPinInvalid
  | PE_RegionNameInvalid
  | PE_KeyLenInvalid

text \<open>The inner loop of the checksum, \<open>n\<close> rounds of it.\<close>

fun crc_rounds :: "nat \<Rightarrow> u16 \<Rightarrow> u16" where
  "crc_rounds 0 crc = crc"
| "crc_rounds (Suc n) crc =
     crc_rounds n (if crc AND 0x0001 \<noteq> 0 then (drop_bit 1 crc) XOR 0xA001 else drop_bit 1 crc)"

fun crc_bytes :: "u16 \<Rightarrow> bytes \<Rightarrow> u16" where
  "crc_bytes crc [] = crc"
| "crc_bytes crc (byte # bs) = crc_bytes (crc_rounds 8 (crc XOR ucast byte)) bs"

definition crc16 :: "bytes \<Rightarrow> u16" where
  "crc16 bs = crc_bytes 0x0000 bs"

definition encode_frame :: "u8 \<Rightarrow> bytes \<Rightarrow> bytes \<Rightarrow> (bytes \<times> nat) rust" where
  "encode_frame frame_type payload out = do {
     let plen = length payload;
     out \<leftarrow> set_at out 0 (PROV_MAGIC ! 0);
     out \<leftarrow> set_at out 1 (PROV_MAGIC ! 1);
     out \<leftarrow> set_at out 2 frame_type;
     out \<leftarrow> set_at out 3 (of_nat (plen mod 256));
     out \<leftarrow> set_at out 4 (of_nat (plen div 256 mod 256));
     out \<leftarrow> (if plen > 0 then copy_into out 5 payload else Some out);
     covered \<leftarrow> slice out 0 (5 + plen);
     let crc = crc16 covered;
     out \<leftarrow> set_at out (5 + plen) (ucast (crc AND 0xFF));
     out \<leftarrow> set_at out (5 + plen + 1) (ucast (drop_bit 8 crc AND 0xFF));
     Some (out, FRAME_OVERHEAD + plen)
   }"

definition frame_needs_usb_packet_split :: "nat \<Rightarrow> bool" where
  "frame_needs_usb_packet_split total_len \<longleftrightarrow> total_len > 0 \<and> total_len mod 64 = 0"

definition decode_frame :: "bytes \<Rightarrow> (ProvError + u8 \<times> bytes) rust" where
  "decode_frame buf =
     (if length buf < FRAME_OVERHEAD then Some (Inl PE_TruncatedFrame)
      else if buf ! 0 \<noteq> PROV_MAGIC ! 0 \<or> buf ! 1 \<noteq> PROV_MAGIC ! 1 then Some (Inl PE_BadMagic)
      else do {
        let frame_type = buf ! 2;
        let plen = unat (buf ! 3) + 256 * unat (buf ! 4);
        let total_len = FRAME_OVERHEAD + plen;
        if length buf < total_len then Some (Inl PE_TruncatedFrame)
        else do {
          lo \<leftarrow> get_at buf (5 + plen);
          hi \<leftarrow> get_at buf (5 + plen + 1);
          let crc_expected = (ucast lo :: u16) OR push_bit 8 (ucast hi);
          covered \<leftarrow> slice buf 0 (5 + plen);
          let crc_actual = crc16 covered;
          if crc_actual \<noteq> crc_expected then Some (Inl PE_CrcMismatch)
          else do {
            payload \<leftarrow> slice buf 5 (5 + plen);
            Some (Inr (frame_type, payload))
          }
        }
      })"

section \<open>The checksum step is injective\<close>

definition crc_round :: "u16 \<Rightarrow> u16" where
  "crc_round crc = (if bit crc 0 then (drop_bit 1 crc) XOR 0xA001 else drop_bit 1 crc)"

lemma crc_rounds_Suc: "crc_rounds (Suc n) crc = crc_rounds n (crc_round crc)"
  by (simp add: crc_round_def and_one_eq odd_iff_mod_2_eq_one bit_0 flip: even_iff_mod_2_eq_zero)

lemma xor_left_inj: "(c :: u16) XOR a = c XOR b \<Longrightarrow> a = b"
proof -
  assume "c XOR a = c XOR b"
  then have "c XOR (c XOR a) = c XOR (c XOR b)"
    by simp
  then show "a = b"
    by (simp flip: xor.assoc)
qed

lemma ucast_u16_inj: "(ucast (x :: u8) :: u16) = ucast y \<Longrightarrow> x = y"
proof (rule bit_word_eqI)
  fix n :: nat
  assume "(ucast x :: u16) = ucast y" and n: "n < LENGTH(8)"
  then have "bit (ucast x :: u16) n = bit (ucast y :: u16) n"
    by simp
  then show "bit x n = bit y n"
    using n by (simp add: bit_simps)
qed

text \<open>The constant's top bit records which branch a round took, so a round can be undone.\<close>

lemma crc_round_top: "bit (crc_round crc) 15 = bit crc 0"
  using bit_imp_le_length [of crc 16] by (auto simp: crc_round_def bit_simps)

lemma crc_round_inj: "crc_round a = crc_round b \<Longrightarrow> a = b"
proof (rule bit_word_eqI)
  fix n :: nat
  assume eq: "crc_round a = crc_round b" and n: "n < LENGTH(16)"
  have low: "bit a 0 = bit b 0"
    using eq crc_round_top by metis
  then have "drop_bit 1 a = drop_bit 1 b"
    using eq xor_left_inj [of "0xA001"] by (auto simp: crc_round_def xor.commute split: if_splits)
  then have "bit (drop_bit 1 a) (n - 1) = bit (drop_bit 1 b) (n - 1)"
    by simp
  then show "bit a n = bit b n"
    using low by (cases n) (simp_all add: bit_simps)
qed

lemma crc_rounds_inj: "crc_rounds n a = crc_rounds n b \<Longrightarrow> a = b"
proof (induction n arbitrary: a b)
  case (Suc n)
  then show ?case
    unfolding crc_rounds_Suc using crc_round_inj by blast
qed simp

lemma crc_bytes_inj: "crc_bytes a bs = crc_bytes b bs \<Longrightarrow> a = b"
proof (induction bs arbitrary: a b)
  case (Cons x bs)
  then have "crc_rounds 8 (a XOR ucast x) = crc_rounds 8 (b XOR ucast x)"
    by simp
  then show ?case
    using crc_rounds_inj xor_left_inj xor.commute by metis
qed simp

lemma crc_bytes_append: "crc_bytes crc (xs @ ys) = crc_bytes (crc_bytes crc xs) ys"
  by (induction crc xs rule: crc_bytes.induct) simp_all

lemma crc16_change:
  assumes "x \<noteq> y"
  shows "crc16 (pre @ x # post) \<noteq> crc16 (pre @ y # post)"
proof
  assume "crc16 (pre @ x # post) = crc16 (pre @ y # post)"
  then have "crc_rounds 8 (crc_bytes 0 pre XOR ucast x) = crc_rounds 8 (crc_bytes 0 pre XOR ucast y)"
    by (auto simp: crc16_def crc_bytes_append dest: crc_bytes_inj)
  then have "(ucast x :: u16) = ucast y"
    using crc_rounds_inj xor_left_inj by blast
  then show False
    using assms ucast_u16_inj by blast
qed

section \<open>The wire form of a frame\<close>

definition frame_head :: "u8 \<Rightarrow> bytes \<Rightarrow> bytes" where
  "frame_head frame_type payload =
     [0x4D, 0x43, frame_type, of_nat (length payload mod 256), of_nat (length payload div 256 mod 256)] @ payload"

definition prov_frame :: "u8 \<Rightarrow> bytes \<Rightarrow> bytes" where
  "prov_frame frame_type payload =
     frame_head frame_type payload @ to_le16 (crc16 (frame_head frame_type payload))"

lemma length_frame_head [simp]: "length (frame_head t p) = 5 + length p"
  by (simp add: frame_head_def)

lemma length_prov_frame [simp]: "length (prov_frame t p) = 7 + length p"
  by (simp add: prov_frame_def)

lemma mask_byte: "(0xFF :: u16) = mask 8"
  by (simp add: mask_eq_exp_minus_1)

lemma low_byte: "(ucast (w AND 0xFF) :: u8) = ucast (w :: u16)"
  unfolding mask_byte by (rule bit_word_eqI) (auto simp: bit_simps)

lemma encode_frame_spec:
  assumes "7 + length payload \<le> length out"
  shows "encode_frame frame_type payload out = Some (put (prov_frame frame_type payload) out, 7 + length payload)"
proof -
  let ?h = "frame_head frame_type payload" and ?n = "length payload"
  let ?five = "[0x4D, 0x43, frame_type, of_nat (?n mod 256), of_nat (?n div 256 mod 256)] :: bytes"
  have head: "?five @ payload = ?h"
    by (simp add: frame_head_def)
  have body: "(if ?n > 0 then copy_into (put ?five out) 5 payload else Some (put ?five out)) = Some (put ?h out)"
    using assms emit_copy [of ?five 5 payload out] head by (cases payload) simp_all
  have rest: "slice (put ?h out) 0 (5 + ?n) = Some ?h"
    "set_at (put ?h out) (5 + ?n) x = Some (put (?h @ [x]) out)"
    "set_at (put (?h @ [x]) out) (5 + ?n + 1) y = Some (put (?h @ [x, y]) out)" for x y
    using assms by (simp_all add: emit)
  have five: "set_at out 0 0x4D = Some (put [0x4D] out)" "set_at (put [0x4D] out) 1 0x43 = Some (put [0x4D, 0x43] out)"
    "set_at (put [0x4D, 0x43] out) 2 frame_type = Some (put [0x4D, 0x43, frame_type] out)"
    "set_at (put [0x4D, 0x43, frame_type] out) 3 x = Some (put [0x4D, 0x43, frame_type, x] out)"
    "set_at (put [0x4D, 0x43, frame_type, x] out) 4 y = Some (put [0x4D, 0x43, frame_type, x, y] out)" for x y
    using assms by (cases "out = []"; simp add: emit)+
  have magic: "PROV_MAGIC ! 0 = 0x4D" "PROV_MAGIC ! 1 = 0x43"
    by (simp_all add: PROV_MAGIC_def)
  show ?thesis
    by (simp only: encode_frame_def Let_def FRAME_OVERHEAD_def magic five body rest bind.bind_lunit low_byte
        prov_frame_def to_le16_def)
qed

lemma frame_lengths: "n < 65536 \<Longrightarrow>
   unat (of_nat (n mod 256) :: u8) + 256 * unat (of_nat (n div 256 mod 256) :: u8) = n"
  by (simp add: unat_of_nat)

lemma take_prov_frame: "take (5 + length p) (prov_frame t p @ rest) = frame_head t p"
  by (simp add: prov_frame_def)

lemma prov_frame_nth:
  "prov_frame t p ! 0 = 0x4D" "prov_frame t p ! 1 = 0x43" "prov_frame t p ! 2 = t"
  "prov_frame t p ! 3 = of_nat (length p mod 256)" "prov_frame t p ! 4 = of_nat (length p div 256 mod 256)"
  by (simp_all add: prov_frame_def frame_head_def)

text \<open>Decoding, once the two length bytes agree with the frame: the outcome is the checksum's.\<close>

lemma decode_frame_body:
  assumes "length h = 5 + n" "h ! 0 = 0x4D" "h ! 1 = 0x43" "unat (h ! 3) + 256 * unat (h ! 4) = n"
  shows "decode_frame (h @ [lo, hi] @ rest) =
    Some (if crc16 h = from_le16 lo hi then Inr (h ! 2, drop 5 h) else Inl PE_CrcMismatch)"
proof -
  have nth: "(h @ [lo, hi] @ rest) ! i = h ! i" if "i < 5" for i
    using that assms(1) by (simp add: nth_append)
  have "get_at (h @ [lo, hi] @ rest) (5 + n) = Some lo" "get_at (h @ [lo, hi] @ rest) (5 + n + 1) = Some hi"
    "slice (h @ [lo, hi] @ rest) 0 (5 + n) = Some h" "slice (h @ [lo, hi] @ rest) 5 (5 + n) = Some (drop 5 h)"
    using assms(1) by (simp_all add: get_at_def nth_append slice_def)
  moreover have "length (h @ [lo, hi] @ rest) = 7 + n + length rest"
    using assms(1) by simp
  ultimately show ?thesis
    using assms(2-4) nth [of 0] nth [of 1] nth [of 2] nth [of 3] nth [of 4]
    by (simp only: decode_frame_def PROV_MAGIC_def FRAME_OVERHEAD_def Let_def bind.bind_lunit from_le16_def [symmetric])
      simp
qed

lemma decode_prov_frame:
  assumes "length p < 65536"
  shows "decode_frame (prov_frame t p @ rest) = Some (Inr (t, p))"
proof -
  obtain lo hi where crc: "to_le16 (crc16 (frame_head t p)) = [lo, hi]" "from_le16 lo hi = crc16 (frame_head t p)"
    by (simp add: to_le16_def from_to_le16)
  have "unat (frame_head t p ! 3) + 256 * unat (frame_head t p ! 4) = length p"
    using frame_lengths [OF assms] by (simp add: frame_head_def)
  from decode_frame_body [of "frame_head t p" "length p" lo hi rest, OF _ _ _ this] crc
  show ?thesis
    by (simp add: prov_frame_def) (simp add: frame_head_def)
qed

lemma crc16_update:
  assumes "i < length h" "b \<noteq> h ! i"
  shows "crc16 (h[i := b]) \<noteq> crc16 h"
  using crc16_change [OF assms(2), of "take i h" "drop (Suc i) h"] assms(1)
  by (simp add: upd_conv_take_nth_drop flip: id_take_nth_drop)

lemma from_le16_inj: "from_le16 a b = from_le16 c d \<longleftrightarrow> a = c \<and> b = d"
  using to_from_le16 by (metis list.inject)

lemma decode_bad_magic:
  assumes "7 \<le> length buf" "buf ! 0 \<noteq> 0x4D \<or> buf ! 1 \<noteq> 0x43"
  shows "decode_frame buf = Some (Inl PE_BadMagic)"
  using assms by (simp add: decode_frame_def FRAME_OVERHEAD_def PROV_MAGIC_def)

text \<open>Decoding is total, and what it accepts is a frame in its wire form.\<close>

lemma frame_head_split:
  assumes "length h = 5 + n" "h ! 0 = 0x4D" "h ! 1 = 0x43" "unat (h ! 3) + 256 * unat (h ! 4) = n"
  shows "h = frame_head (h ! 2) (drop 5 h)"
proof -
  have "5 \<le> length h"
    using assms(1) by simp
  then obtain a b c d e ys where h: "h = a # b # c # d # e # ys"
    by (rule list_5_cases)
  have "n mod 256 = unat d" "n div 256 mod 256 = unat e"
    using assms(4) unat_u8_lt [of d] unat_u8_lt [of e] by (auto simp: h simp del: unat_u8_lt)
  then show ?thesis
    using assms(1-3) by (simp add: h frame_head_def)
qed

lemma decode_frame_sound:
  "\<exists>r. decode_frame buf = Some r
     \<and> (\<forall>t p. r = Inr (t, p) \<longrightarrow> length p < 65536 \<and> (\<exists>rest. buf = prov_frame t p @ rest))"
proof (cases "length buf < 7 \<or> buf ! 0 \<noteq> 0x4D \<or> buf ! 1 \<noteq> 0x43
    \<or> length buf < 7 + (unat (buf ! 3) + 256 * unat (buf ! 4))")
  case True
  then show ?thesis
    by (auto simp: decode_frame_def FRAME_OVERHEAD_def PROV_MAGIC_def)
next
  case False
  let ?n = "unat (buf ! 3) + 256 * unat (buf ! 4)"
  let ?h = "take (5 + ?n) buf"
  have "drop (5 + ?n) buf = [buf ! (5 + ?n), buf ! (6 + ?n)] @ drop (7 + ?n) buf"
    using False Cons_nth_drop_Suc [of "5 + ?n" buf] Cons_nth_drop_Suc [of "6 + ?n" buf] by simp
  then obtain lo hi rest where buf: "buf = ?h @ [lo, hi] @ rest"
    by (metis append_take_drop_id)
  have h: "length ?h = 5 + ?n" "?h ! 0 = 0x4D" "?h ! 1 = 0x43" "unat (?h ! 3) + 256 * unat (?h ! 4) = ?n"
    using False by simp_all
  have dec: "decode_frame buf = Some (if crc16 ?h = from_le16 lo hi then Inr (?h ! 2, drop 5 ?h) else Inl PE_CrcMismatch)"
    using decode_frame_body [OF h, of lo hi rest] buf by simp
  have "?n < 65536"
    using unat_u8_lt [of "buf ! 3"] unat_u8_lt [of "buf ! 4"] by linarith
  then have "length (drop 5 ?h) < 65536"
    using h(1) by simp
  moreover have "buf = prov_frame (?h ! 2) (drop 5 ?h) @ rest" if "crc16 ?h = from_le16 lo hi"
    using that buf frame_head_split [OF h] to_from_le16 [of lo hi] by (simp add: prov_frame_def)
  ultimately show ?thesis
    using dec by (auto split: if_splits)
qed

section \<open>Properties\<close>

text \<open>a provisioning frame survives the wire: encoding a payload of at most 65535 bytes fits exactly seven bytes
  around it, and decoding the result, with any bytes behind it, returns the type and the payload.\<close>

theorem prov_frame_roundtrip:
  assumes "length payload < 65536" "7 + length payload \<le> length out"
  shows "\<exists>out'. encode_frame frame_type payload out = Some (out', 7 + length payload)
    \<and> decode_frame (take (7 + length payload) out' @ rest) = Some (Inr (frame_type, payload))"
  using encode_frame_spec [OF assms(2)] decode_prov_frame [OF assms(1)] by simp

theorem prov_frame_roundtrip_witness:
  "\<exists>out'. encode_frame 0x50 [2, 49, 50] (zeros 16) = Some (out', 10)
    \<and> decode_frame (take 10 out' @ [0x4D]) = Some (Inr (0x50, [2, 49, 50]))"
  using prov_frame_roundtrip [of "[2, 49, 50]" "zeros 16" "0x50" "[0x4D]"] by simp

text \<open>C31: no single corrupted byte outside the length field gets a frame accepted: a changed magic byte is reported as
  a bad magic, a change of the type, the payload or the checksum as a checksum mismatch, whatever follows the
  frame in the buffer.\<close>

theorem prov_frame_byte_error_rejected:
  assumes "length payload < 65536" "i < 7 + length payload" "i \<noteq> 3" "i \<noteq> 4"
    and "b \<noteq> prov_frame frame_type payload ! i"
  shows "decode_frame ((prov_frame frame_type payload)[i := b] @ rest) =
    Some (Inl (if i < 2 then PE_BadMagic else PE_CrcMismatch))"
proof -
  let ?h = "frame_head frame_type payload" and ?n = "length payload"
  let ?f = "prov_frame frame_type payload"
  obtain lo hi where crc: "to_le16 (crc16 ?h) = [lo, hi]" "from_le16 lo hi = crc16 ?h"
    by (simp add: to_le16_def from_to_le16)
  have f: "?f = ?h @ [lo, hi]"
    by (simp add: prov_frame_def crc(1))
  have head: "?h ! 0 = 0x4D" "?h ! 1 = 0x43" "unat (?h ! 3) + 256 * unat (?h ! 4) = ?n"
    using frame_lengths [OF assms(1)] by (simp_all add: frame_head_def)
  consider "i < 2" | "2 \<le> i" "i < 5 + ?n" | "i = 5 + ?n" | "i = 6 + ?n"
    using assms(2) by linarith
  then show ?thesis
  proof cases
    case 1
    have "?f[i := b] ! i = b" "i = 0 \<or> i = 1"
      using 1 by auto
    then show ?thesis
      using 1 assms(5) prov_frame_nth(1,2) [of frame_type payload]
      by (intro trans [OF decode_bad_magic]) (auto simp: nth_append)
  next
    case 2
    have "decode_frame (?h[i := b] @ [lo, hi] @ rest) =
        Some (if crc16 (?h[i := b]) = from_le16 lo hi then Inr (?h[i := b] ! 2, drop 5 (?h[i := b])) else Inl PE_CrcMismatch)"
      using 2 head assms(3,4) by (intro decode_frame_body [of _ ?n]) simp_all
    moreover have "b \<noteq> ?h ! i"
      using 2 assms(5) by (simp add: f nth_append)
    then have "crc16 (?h[i := b]) \<noteq> crc16 ?h"
      using 2 by (intro crc16_update) simp_all
    ultimately show ?thesis
      using 2 crc(2) by (simp add: f list_update_append)
  next
    case 3
    then have "decode_frame (?f[i := b] @ rest) = decode_frame (?h @ [b, hi] @ rest)" "b \<noteq> lo"
      using assms(5) by (simp_all add: f list_update_append nth_append)
    then show ?thesis
      using 3 decode_frame_body [of ?h ?n b hi rest] head crc(2) from_le16_inj [of lo hi b hi] by auto
  next
    case 4
    then have "decode_frame (?f[i := b] @ rest) = decode_frame (?h @ [lo, b] @ rest)" "b \<noteq> hi"
      using assms(5) by (simp_all add: f list_update_append nth_append)
    then show ?thesis
      using 4 decode_frame_body [of ?h ?n lo b rest] head crc(2) from_le16_inj [of lo hi lo b] by auto
  qed
qed

theorem prov_frame_byte_error_rejected_witness:
  "decode_frame ((prov_frame 0x50 [1, 49])[6 := 50] @ []) = Some (Inl PE_CrcMismatch)"
  using prov_frame_byte_error_rejected [of "[1, 49]" 6 50 "0x50" "[]"]
  by (simp add: prov_frame_def frame_head_def)

end
