(* ===== verification/Prov_Payload.thy ===== *)
theory Prov_Payload
  imports Prov_Frame Room_Codec Region
begin

text \<open>
  The payload codecs of \<open>protocol/src/provisioning.rs\<close>: one record per payload structure, one encoder and one decoder
  per frame type, each with its length checks in the code's order.  The decoders are proved total (no payload
  makes one panic), their results well formed, and the encoders' outputs decode to what was encoded.
\<close>

section \<open>Constants\<close>

definition MAX_NAME_LEN :: nat where
  "MAX_NAME_LEN = 32"

definition MAX_PIN_LEN :: nat where
  "MAX_PIN_LEN = 16"

definition MAX_ERR_MSG_LEN :: nat where
  "MAX_ERR_MSG_LEN = 64"

definition MAX_ROOM_PASSWORD_LEN :: nat where
  "MAX_ROOM_PASSWORD_LEN = MAX_LOGIN_PASSWORD_LEN"

definition MAX_ROOM_PATH_LEN :: nat where
  "MAX_ROOM_PATH_LEN = MAX_PATH_SIZE"

definition MAX_REGION_NAME_LEN :: nat where
  "MAX_REGION_NAME_LEN = REGION_NAME_MAX"

definition LOCK_PIN_LEN :: nat where
  "LOCK_PIN_LEN = 4"

lemmas prov_consts = MAX_NAME_LEN_def MAX_PIN_LEN_def MAX_ERR_MSG_LEN_def MAX_ROOM_PASSWORD_LEN_def
  MAX_LOGIN_PASSWORD_LEN_def MAX_ROOM_PATH_LEN_def MAX_PATH_SIZE_def MAX_REGION_NAME_LEN_def REGION_NAME_MAX_def
  LOCK_PIN_LEN_def

section \<open>Payload structures\<close>

record AddContactPayload =
  ac_pubkey :: bytes
  ac_telemetry_enable :: bool
  ac_display_name :: bytes
  ac_display_name_len :: u8

record AddChannelPayload =
  ach_secret :: bytes
  ach_key_len :: u8
  ach_primary :: bool
  ach_name :: bytes
  ach_name_len :: u8

record AddRoomPayload =
  ar_pubkey :: bytes
  ar_guest_password :: bytes
  ar_guest_password_len :: u8
  ar_name :: bytes
  ar_name_len :: u8

record NotifDefaultsPayload =
  nd_visual :: bool
  nd_audible :: bool

text \<open>\<open>SetPinPayload\<close>, \<open>SetDeviceNamePayload\<close>, \<open>SetRegionPayload\<close> and \<open>RspRegionPayload\<close> are a padded text
  and its length; \<open>DelContactPayload\<close>, \<open>DelChannelPayload\<close>, \<open>DelRoomPayload\<close> and \<open>SetLockPinPayload\<close> have
  one field, which stands for them.\<close>

record PaddedText =
  pt_text :: bytes
  pt_len :: u8

record SetLockConfigPayload =
  slc_lock_flags :: u8
  slc_lock_timeout_s :: u16

record RspLockPayload =
  rl_lock_flags :: u8
  rl_lock_timeout_s :: u16
  rl_pin_set :: bool

record RspStatusPayload =
  st_provisioned :: bool
  st_pubkey :: bytes
  st_contact_count :: u8
  st_channel_count :: u8
  st_gps_has_fix :: bool
  st_gps_lat_e7 :: u32
  st_gps_lon_e7 :: u32
  st_gps_fix_age_secs :: u32
  st_gps_clock_synced :: bool
  st_gps_clock_sync_age_secs :: u32
  st_battery_percent :: u8
  st_battery_charging :: bool
  st_battery_raw_mv :: u16
  st_battery_held_raw_mv :: u16
  st_battery_level :: u8
  st_battery_confirmed :: bool

record RspIdentityPayload =
  ri_pubkey :: bytes
  ri_pub_hash :: u8
  ri_device_name :: bytes
  ri_device_name_len :: u8

record RspContactPayload =
  rc_index :: u8
  rc_pubkey :: bytes
  rc_telemetry_enable :: bool
  rc_display_name :: bytes
  rc_display_name_len :: u8

record RspChannelPayload =
  rch_index :: u8
  rch_channel_hash :: u8
  rch_key_len :: u8
  rch_primary :: bool
  rch_name :: bytes
  rch_name_len :: u8

record RspRoomPayload =
  rr_index :: u8
  rr_pubkey :: bytes
  rr_sync_since :: u32
  rr_permissions :: u8
  rr_out_path :: bytes
  rr_out_path_len :: u8
  rr_name :: bytes
  rr_name_len :: u8

record RspErrorPayload =
  re_error_code :: u8
  re_msg :: bytes
  re_msg_len :: u8

section \<open>Encoders\<close>

definition encode_add_contact :: "bytes \<Rightarrow> bool \<Rightarrow> bytes \<Rightarrow> bytes \<Rightarrow> (bytes \<times> nat) rust" where
  "encode_add_contact pubkey telemetry_enable display_name out = do {
     let name_len = min (length display_name) MAX_NAME_LEN;
     out \<leftarrow> copy_into out 0 pubkey;
     out \<leftarrow> set_at out 32 (of_bool telemetry_enable);
     out \<leftarrow> set_at out 33 (of_nat name_len);
     name \<leftarrow> slice display_name 0 name_len;
     out \<leftarrow> copy_into out 34 name;
     Some (out, 34 + name_len)
   }"

definition encode_query_advert :: "u32 \<Rightarrow> bytes \<Rightarrow> (bytes \<times> nat) rust" where
  "encode_query_advert host_unix_time out = do {
     out \<leftarrow> copy_into out 0 (to_le32 host_unix_time);
     Some (out, 4)
   }"

definition encode_del_contact :: "bytes \<Rightarrow> bytes \<Rightarrow> (bytes \<times> nat) rust" where
  "encode_del_contact pubkey out = do {
     out \<leftarrow> copy_into out 0 pubkey;
     Some (out, 32)
   }"

definition encode_add_channel :: "bytes \<Rightarrow> u8 \<Rightarrow> bool \<Rightarrow> bytes \<Rightarrow> bytes \<Rightarrow> (bytes \<times> nat) rust" where
  "encode_add_channel secret key_len primary name out = do {
     let name_len = min (length name) MAX_NAME_LEN;
     out \<leftarrow> copy_into out 0 secret;
     out \<leftarrow> set_at out 32 key_len;
     out \<leftarrow> set_at out 33 (of_bool primary);
     out \<leftarrow> set_at out 34 (of_nat name_len);
     n \<leftarrow> slice name 0 name_len;
     out \<leftarrow> copy_into out 35 n;
     Some (out, 35 + name_len)
   }"

definition encode_del_channel :: "bytes \<Rightarrow> bytes \<Rightarrow> (bytes \<times> nat) rust" where
  "encode_del_channel secret out = do {
     out \<leftarrow> copy_into out 0 secret;
     Some (out, 32)
   }"

definition encode_add_room :: "bytes \<Rightarrow> bytes \<Rightarrow> bytes \<Rightarrow> bytes \<Rightarrow> (bytes \<times> nat) rust" where
  "encode_add_room pubkey guest_password name out = do {
     let pw_len = min (length guest_password) MAX_ROOM_PASSWORD_LEN;
     let name_len = min (length name) MAX_NAME_LEN;
     out \<leftarrow> copy_into out 0 pubkey;
     out \<leftarrow> set_at out 32 (of_nat pw_len);
     pw \<leftarrow> slice guest_password 0 pw_len;
     out \<leftarrow> copy_into out 33 pw;
     let name_off = 33 + pw_len;
     out \<leftarrow> set_at out name_off (of_nat name_len);
     n \<leftarrow> slice name 0 name_len;
     out \<leftarrow> copy_into out (name_off + 1) n;
     Some (out, name_off + 1 + name_len)
   }"

definition encode_del_room :: "bytes \<Rightarrow> bytes \<Rightarrow> (bytes \<times> nat) rust" where
  "encode_del_room pubkey out = encode_del_contact pubkey out"

definition encode_set_notif_defaults :: "bool \<Rightarrow> bool \<Rightarrow> bytes \<Rightarrow> (bytes \<times> nat) rust" where
  "encode_set_notif_defaults visual audible out = do {
     out \<leftarrow> set_at out 0 (of_bool visual);
     out \<leftarrow> set_at out 1 (of_bool audible);
     Some (out, 2)
   }"

definition encode_set_pin :: "bytes \<Rightarrow> bytes \<Rightarrow> (bytes \<times> nat) rust" where
  "encode_set_pin pin out = do {
     let pin_len = min (length pin) MAX_PIN_LEN;
     out \<leftarrow> set_at out 0 (of_nat pin_len);
     p \<leftarrow> slice pin 0 pin_len;
     out \<leftarrow> copy_into out 1 p;
     Some (out, 1 + pin_len)
   }"

definition encode_set_device_name :: "bytes \<Rightarrow> bytes \<Rightarrow> (bytes \<times> nat) rust" where
  "encode_set_device_name name out = do {
     let name_len = min (length name) MAX_NAME_LEN;
     out \<leftarrow> set_at out 0 (of_nat name_len);
     n \<leftarrow> slice name 0 name_len;
     out \<leftarrow> copy_into out 1 n;
     Some (out, 1 + name_len)
   }"

definition encode_set_lock_pin :: "bytes \<Rightarrow> bytes \<Rightarrow> (bytes \<times> nat) rust" where
  "encode_set_lock_pin pin out = do {
     out \<leftarrow> copy_into out 0 pin;
     Some (out, LOCK_PIN_LEN)
   }"

definition encode_set_lock_config :: "u8 \<Rightarrow> u16 \<Rightarrow> bytes \<Rightarrow> (bytes \<times> nat) rust" where
  "encode_set_lock_config lock_flags lock_timeout_s out = do {
     out \<leftarrow> set_at out 0 lock_flags;
     out \<leftarrow> copy_into out 1 (to_le16 lock_timeout_s);
     Some (out, 3)
   }"

definition encode_rsp_lock :: "RspLockPayload \<Rightarrow> bytes \<Rightarrow> (bytes \<times> nat) rust" where
  "encode_rsp_lock payload out = do {
     out \<leftarrow> set_at out 0 (rl_lock_flags payload);
     out \<leftarrow> copy_into out 1 (to_le16 (rl_lock_timeout_s payload));
     out \<leftarrow> set_at out 3 (of_bool (rl_pin_set payload));
     Some (out, 4)
   }"

text \<open>A refused name leaves the buffer alone.\<close>

definition encode_set_region :: "bytes \<Rightarrow> bytes \<Rightarrow> (bytes \<times> (ProvError + nat)) rust" where
  "encode_set_region name out =
     (if name \<noteq> [] \<and> isl (validate_region_name name) then Some (out, Inl PE_RegionNameInvalid)
      else do {
        out \<leftarrow> set_at out 0 (of_nat (length name));
        out \<leftarrow> copy_into out 1 name;
        Some (out, Inr (1 + length name))
      })"

definition encode_rsp_region :: "bytes \<Rightarrow> bytes \<Rightarrow> (bytes \<times> (ProvError + nat)) rust" where
  "encode_rsp_region name out =
     (if name \<noteq> [] \<and> isl (validate_region_name name) then Some (out, Inl PE_RegionNameInvalid)
      else do {
        out \<leftarrow> set_at out 0 (of_nat (length name));
        out \<leftarrow> copy_into out 1 name;
        Some (out, Inr (1 + length name))
      })"

definition encode_rsp_status :: "RspStatusPayload \<Rightarrow> bytes \<Rightarrow> (bytes \<times> nat) rust" where
  "encode_rsp_status payload out = do {
     out \<leftarrow> set_at out 0 (of_bool (st_provisioned payload));
     out \<leftarrow> copy_into out 1 (st_pubkey payload);
     out \<leftarrow> set_at out 33 (st_contact_count payload);
     out \<leftarrow> set_at out 34 (st_channel_count payload);
     out \<leftarrow> set_at out 35 (of_bool (st_gps_has_fix payload));
     out \<leftarrow> copy_into out 36 (to_le32 (st_gps_lat_e7 payload));
     out \<leftarrow> copy_into out 40 (to_le32 (st_gps_lon_e7 payload));
     out \<leftarrow> copy_into out 44 (to_le32 (st_gps_fix_age_secs payload));
     out \<leftarrow> set_at out 48 (of_bool (st_gps_clock_synced payload));
     out \<leftarrow> copy_into out 49 (to_le32 (st_gps_clock_sync_age_secs payload));
     out \<leftarrow> set_at out 53 (st_battery_percent payload);
     out \<leftarrow> set_at out 54 (of_bool (st_battery_charging payload));
     out \<leftarrow> copy_into out 55 (to_le16 (st_battery_raw_mv payload));
     out \<leftarrow> copy_into out 57 (to_le16 (st_battery_held_raw_mv payload));
     out \<leftarrow> set_at out 59 (st_battery_level payload);
     out \<leftarrow> set_at out 60 (of_bool (st_battery_confirmed payload));
     Some (out, 61)
   }"

definition encode_rsp_identity :: "bytes \<Rightarrow> bytes \<Rightarrow> bytes \<Rightarrow> (bytes \<times> nat) rust" where
  "encode_rsp_identity pubkey device_name out = do {
     let name_len = min (length device_name) MAX_NAME_LEN;
     out \<leftarrow> copy_into out 0 pubkey;
     h \<leftarrow> get_at pubkey 0;
     out \<leftarrow> set_at out 32 h;
     out \<leftarrow> set_at out 33 (of_nat name_len);
     n \<leftarrow> slice device_name 0 name_len;
     out \<leftarrow> copy_into out 34 n;
     Some (out, 34 + name_len)
   }"

definition encode_rsp_contact :: "u8 \<Rightarrow> bytes \<Rightarrow> bool \<Rightarrow> bytes \<Rightarrow> bytes \<Rightarrow> (bytes \<times> nat) rust" where
  "encode_rsp_contact index pubkey telemetry_enable name out = do {
     let name_len = min (length name) MAX_NAME_LEN;
     out \<leftarrow> set_at out 0 index;
     out \<leftarrow> copy_into out 1 pubkey;
     out \<leftarrow> set_at out 33 (of_bool telemetry_enable);
     out \<leftarrow> set_at out 34 (of_nat name_len);
     n \<leftarrow> slice name 0 name_len;
     out \<leftarrow> copy_into out 35 n;
     Some (out, 35 + name_len)
   }"

definition encode_rsp_channel :: "u8 \<Rightarrow> u8 \<Rightarrow> u8 \<Rightarrow> bool \<Rightarrow> bytes \<Rightarrow> bytes \<Rightarrow> (bytes \<times> nat) rust" where
  "encode_rsp_channel index chash key_len primary name out = do {
     let name_len = min (length name) MAX_NAME_LEN;
     out \<leftarrow> set_at out 0 index;
     out \<leftarrow> set_at out 1 chash;
     out \<leftarrow> set_at out 2 key_len;
     out \<leftarrow> set_at out 3 (of_bool primary);
     out \<leftarrow> set_at out 4 (of_nat name_len);
     n \<leftarrow> slice name 0 name_len;
     out \<leftarrow> copy_into out 5 n;
     Some (out, 5 + name_len)
   }"

definition encode_rsp_room ::
    "u8 \<Rightarrow> bytes \<Rightarrow> u32 \<Rightarrow> u8 \<Rightarrow> bytes \<Rightarrow> bytes \<Rightarrow> bytes \<Rightarrow> (bytes \<times> nat) rust" where
  "encode_rsp_room index pubkey sync_since permissions out_path name out = do {
     let out_path_len = min (length out_path) MAX_ROOM_PATH_LEN;
     let name_len = min (length name) MAX_NAME_LEN;
     out \<leftarrow> set_at out 0 index;
     out \<leftarrow> copy_into out 1 pubkey;
     out \<leftarrow> copy_into out 33 (to_le32 sync_since);
     out \<leftarrow> set_at out 37 permissions;
     out \<leftarrow> set_at out 38 (of_nat out_path_len);
     p \<leftarrow> slice out_path 0 out_path_len;
     out \<leftarrow> copy_into out 39 p;
     let name_off = 39 + out_path_len;
     out \<leftarrow> set_at out name_off (of_nat name_len);
     n \<leftarrow> slice name 0 name_len;
     out \<leftarrow> copy_into out (name_off + 1) n;
     Some (out, name_off + 1 + name_len)
   }"

definition encode_rsp_error :: "u8 \<Rightarrow> bytes \<Rightarrow> bytes \<Rightarrow> (bytes \<times> nat) rust" where
  "encode_rsp_error error_code msg out = do {
     let msg_len = min (length msg) MAX_ERR_MSG_LEN;
     out \<leftarrow> set_at out 0 error_code;
     out \<leftarrow> set_at out 1 (of_nat msg_len);
     m \<leftarrow> slice msg 0 msg_len;
     out \<leftarrow> copy_into out 2 m;
     Some (out, 2 + msg_len)
   }"

section \<open>Decoders\<close>

definition decode_add_contact :: "bytes \<Rightarrow> (ProvError + AddContactPayload) rust" where
  "decode_add_contact payload =
     (if length payload < 34 then Some (Inl PE_TruncatedPayload)
      else do {
        pubkey \<leftarrow> slice payload 0 32;
        let telemetry_enable = payload ! 32 \<noteq> 0;
        let name_len = unat (payload ! 33);
        if name_len > MAX_NAME_LEN then Some (Inl PE_NameTooLong)
        else if length payload < 34 + name_len then Some (Inl PE_TruncatedPayload)
        else do {
          display_name \<leftarrow> read_field MAX_NAME_LEN payload 34 name_len;
          Some (Inr \<lparr>ac_pubkey = pubkey, ac_telemetry_enable = telemetry_enable,
            ac_display_name = display_name, ac_display_name_len = of_nat name_len\<rparr>)
        }
      })"

definition decode_query_advert :: "bytes \<Rightarrow> (ProvError + u32) rust" where
  "decode_query_advert payload =
     (if length payload < 4 then Some (Inl PE_TruncatedPayload)
      else Some (Inr (from_le32 (payload ! 0) (payload ! 1) (payload ! 2) (payload ! 3))))"

definition decode_del_contact :: "bytes \<Rightarrow> (ProvError + bytes) rust" where
  "decode_del_contact payload =
     (if length payload < 32 then Some (Inl PE_TruncatedPayload)
      else do {
        pubkey \<leftarrow> slice payload 0 32;
        Some (Inr pubkey)
      })"

definition decode_add_channel :: "bytes \<Rightarrow> (ProvError + AddChannelPayload) rust" where
  "decode_add_channel payload =
     (if length payload < 35 then Some (Inl PE_TruncatedPayload)
      else do {
        secret \<leftarrow> slice payload 0 32;
        let key_len = payload ! 32;
        if key_len \<noteq> 16 \<and> key_len \<noteq> 32 then Some (Inl PE_KeyLenInvalid)
        else do {
          let primary = payload ! 33 \<noteq> 0;
          let name_len = unat (payload ! 34);
          if name_len > MAX_NAME_LEN then Some (Inl PE_NameTooLong)
          else if length payload < 35 + name_len then Some (Inl PE_TruncatedPayload)
          else do {
            name \<leftarrow> read_field MAX_NAME_LEN payload 35 name_len;
            Some (Inr \<lparr>ach_secret = secret, ach_key_len = key_len, ach_primary = primary,
              ach_name = name, ach_name_len = of_nat name_len\<rparr>)
          }
        }
      })"

definition decode_del_channel :: "bytes \<Rightarrow> (ProvError + bytes) rust" where
  "decode_del_channel payload =
     (if length payload < 32 then Some (Inl PE_TruncatedPayload)
      else do {
        secret \<leftarrow> slice payload 0 32;
        Some (Inr secret)
      })"

definition decode_add_room :: "bytes \<Rightarrow> (ProvError + AddRoomPayload) rust" where
  "decode_add_room payload =
     (if length payload < 34 then Some (Inl PE_TruncatedPayload)
      else do {
        pubkey \<leftarrow> slice payload 0 32;
        let pw_len = unat (payload ! 32);
        if pw_len > MAX_ROOM_PASSWORD_LEN then Some (Inl PE_PasswordTooLong)
        else if length payload < 33 + pw_len + 1 then Some (Inl PE_TruncatedPayload)
        else do {
          guest_password \<leftarrow> read_field MAX_ROOM_PASSWORD_LEN payload 33 pw_len;
          let name_off = 33 + pw_len;
          nl \<leftarrow> get_at payload name_off;
          let name_len = unat nl;
          if name_len > MAX_NAME_LEN then Some (Inl PE_NameTooLong)
          else if length payload < name_off + 1 + name_len then Some (Inl PE_TruncatedPayload)
          else do {
            name \<leftarrow> read_field MAX_NAME_LEN payload (name_off + 1) name_len;
            Some (Inr \<lparr>ar_pubkey = pubkey, ar_guest_password = guest_password,
              ar_guest_password_len = of_nat pw_len, ar_name = name, ar_name_len = of_nat name_len\<rparr>)
          }
        }
      })"

definition decode_del_room :: "bytes \<Rightarrow> (ProvError + bytes) rust" where
  "decode_del_room payload = decode_del_contact payload"

definition decode_set_notif_defaults :: "bytes \<Rightarrow> (ProvError + NotifDefaultsPayload) rust" where
  "decode_set_notif_defaults payload =
     (if length payload < 2 then Some (Inl PE_TruncatedPayload)
      else Some (Inr \<lparr>nd_visual = (payload ! 0 \<noteq> 0), nd_audible = (payload ! 1 \<noteq> 0)\<rparr>))"

definition decode_set_pin :: "bytes \<Rightarrow> (ProvError + PaddedText) rust" where
  "decode_set_pin payload =
     (if payload = [] then Some (Inl PE_TruncatedPayload)
      else do {
        let pin_len = unat (payload ! 0);
        if pin_len > MAX_PIN_LEN then Some (Inl PE_PinTooLong)
        else if length payload < 1 + pin_len then Some (Inl PE_TruncatedPayload)
        else do {
          pin \<leftarrow> read_field MAX_PIN_LEN payload 1 pin_len;
          Some (Inr \<lparr>pt_text = pin, pt_len = of_nat pin_len\<rparr>)
        }
      })"

definition decode_set_device_name :: "bytes \<Rightarrow> (ProvError + PaddedText) rust" where
  "decode_set_device_name payload =
     (if payload = [] then Some (Inl PE_TruncatedPayload)
      else do {
        let name_len = unat (payload ! 0);
        if name_len > MAX_NAME_LEN then Some (Inl PE_NameTooLong)
        else if length payload < 1 + name_len then Some (Inl PE_TruncatedPayload)
        else do {
          name \<leftarrow> read_field MAX_NAME_LEN payload 1 name_len;
          Some (Inr \<lparr>pt_text = name, pt_len = of_nat name_len\<rparr>)
        }
      })"

definition is_ascii_digit :: "u8 \<Rightarrow> bool" where
  "is_ascii_digit b \<longleftrightarrow> 0x30 \<le> b \<and> b \<le> 0x39"

definition decode_set_lock_pin :: "bytes \<Rightarrow> (ProvError + bytes) rust" where
  "decode_set_lock_pin payload =
     (if length payload \<noteq> LOCK_PIN_LEN then Some (Inl PE_LockPinInvalid)
      else if \<not> list_all is_ascii_digit payload then Some (Inl PE_LockPinInvalid)
      else do {
        pin \<leftarrow> copy_into (zeros LOCK_PIN_LEN) 0 payload;
        Some (Inr pin)
      })"

definition decode_set_lock_config :: "bytes \<Rightarrow> (ProvError + SetLockConfigPayload) rust" where
  "decode_set_lock_config payload =
     (if length payload < 3 then Some (Inl PE_TruncatedPayload)
      else Some (Inr \<lparr>slc_lock_flags = payload ! 0, slc_lock_timeout_s = from_le16 (payload ! 1) (payload ! 2)\<rparr>))"

definition decode_rsp_lock :: "bytes \<Rightarrow> (ProvError + RspLockPayload) rust" where
  "decode_rsp_lock payload =
     (if length payload < 4 then Some (Inl PE_TruncatedPayload)
      else Some (Inr \<lparr>rl_lock_flags = payload ! 0, rl_lock_timeout_s = from_le16 (payload ! 1) (payload ! 2),
        rl_pin_set = (payload ! 3 \<noteq> 0)\<rparr>))"

definition decode_set_region :: "bytes \<Rightarrow> (ProvError + PaddedText) rust" where
  "decode_set_region payload =
     (if payload = [] then Some (Inl PE_TruncatedPayload)
      else do {
        let name_len = unat (payload ! 0);
        if name_len > MAX_REGION_NAME_LEN then Some (Inl PE_RegionNameInvalid)
        else if length payload < 1 + name_len then Some (Inl PE_TruncatedPayload)
        else do {
          name_bytes \<leftarrow> slice payload 1 (1 + name_len);
          if name_bytes \<noteq> [] \<and> isl (validate_region_name name_bytes) then Some (Inl PE_RegionNameInvalid)
          else do {
            name \<leftarrow> copy_into (zeros MAX_REGION_NAME_LEN) 0 name_bytes;
            Some (Inr \<lparr>pt_text = name, pt_len = of_nat name_len\<rparr>)
          }
        }
      })"

definition decode_rsp_region :: "bytes \<Rightarrow> (ProvError + PaddedText) rust" where
  "decode_rsp_region payload =
     (if payload = [] then Some (Inl PE_TruncatedPayload)
      else do {
        let name_len = unat (payload ! 0);
        if name_len > MAX_REGION_NAME_LEN then Some (Inl PE_RegionNameInvalid)
        else if length payload < 1 + name_len then Some (Inl PE_TruncatedPayload)
        else do {
          name_bytes \<leftarrow> slice payload 1 (1 + name_len);
          if name_bytes \<noteq> [] \<and> isl (validate_region_name name_bytes) then Some (Inl PE_RegionNameInvalid)
          else do {
            name \<leftarrow> copy_into (zeros MAX_REGION_NAME_LEN) 0 name_bytes;
            Some (Inr \<lparr>pt_text = name, pt_len = of_nat name_len\<rparr>)
          }
        }
      })"

definition legacy_percent_to_battery_level :: "u8 \<Rightarrow> bool \<Rightarrow> u8" where
  "legacy_percent_to_battery_level battery_percent battery_charging =
     (if battery_charging then 1
      else if battery_percent < 20 then 2
      else if battery_percent < 85 then 3
      else 4)"

definition decode_rsp_status :: "bytes \<Rightarrow> (ProvError + RspStatusPayload) rust" where
  "decode_rsp_status payload =
     (if length payload < 55 then Some (Inl PE_TruncatedPayload)
      else do {
        let le32_at = (\<lambda>i. from_le32 (payload ! i) (payload ! (i + 1)) (payload ! (i + 2)) (payload ! (i + 3)));
        let provisioned = payload ! 0 \<noteq> 0;
        pubkey \<leftarrow> slice payload 1 33;
        let battery_percent = payload ! 53;
        let battery_charging = payload ! 54 \<noteq> 0;
        let battery_raw_mv = (if length payload \<ge> 57 then from_le16 (payload ! 55) (payload ! 56) else 0);
        let battery_held_raw_mv = (if length payload \<ge> 59 then from_le16 (payload ! 57) (payload ! 58) else 0);
        let (battery_level, battery_confirmed) =
          (if length payload \<ge> 61 then (payload ! 59, payload ! 60 \<noteq> 0)
           else (legacy_percent_to_battery_level battery_percent battery_charging, True));
        Some (Inr \<lparr>st_provisioned = provisioned, st_pubkey = pubkey,
          st_contact_count = payload ! 33, st_channel_count = payload ! 34,
          st_gps_has_fix = (payload ! 35 \<noteq> 0), st_gps_lat_e7 = le32_at 36, st_gps_lon_e7 = le32_at 40,
          st_gps_fix_age_secs = le32_at 44, st_gps_clock_synced = (payload ! 48 \<noteq> 0),
          st_gps_clock_sync_age_secs = le32_at 49, st_battery_percent = battery_percent,
          st_battery_charging = battery_charging, st_battery_raw_mv = battery_raw_mv,
          st_battery_held_raw_mv = battery_held_raw_mv, st_battery_level = battery_level,
          st_battery_confirmed = battery_confirmed\<rparr>)
      })"

definition decode_rsp_identity :: "bytes \<Rightarrow> (ProvError + RspIdentityPayload) rust" where
  "decode_rsp_identity payload =
     (if length payload < 34 then Some (Inl PE_TruncatedPayload)
      else do {
        pubkey \<leftarrow> slice payload 0 32;
        let pub_hash = payload ! 32;
        let name_len = unat (payload ! 33);
        if name_len > MAX_NAME_LEN then Some (Inl PE_NameTooLong)
        else if length payload < 34 + name_len then Some (Inl PE_TruncatedPayload)
        else do {
          device_name \<leftarrow> read_field MAX_NAME_LEN payload 34 name_len;
          Some (Inr \<lparr>ri_pubkey = pubkey, ri_pub_hash = pub_hash, ri_device_name = device_name,
            ri_device_name_len = of_nat name_len\<rparr>)
        }
      })"

definition decode_rsp_contact :: "bytes \<Rightarrow> (ProvError + RspContactPayload) rust" where
  "decode_rsp_contact payload =
     (if length payload < 35 then Some (Inl PE_TruncatedPayload)
      else do {
        let index = payload ! 0;
        pubkey \<leftarrow> slice payload 1 33;
        let telemetry_enable = payload ! 33 \<noteq> 0;
        let name_len = unat (payload ! 34);
        if name_len > MAX_NAME_LEN then Some (Inl PE_NameTooLong)
        else if length payload < 35 + name_len then Some (Inl PE_TruncatedPayload)
        else do {
          display_name \<leftarrow> read_field MAX_NAME_LEN payload 35 name_len;
          Some (Inr \<lparr>rc_index = index, rc_pubkey = pubkey, rc_telemetry_enable = telemetry_enable,
            rc_display_name = display_name, rc_display_name_len = of_nat name_len\<rparr>)
        }
      })"

definition decode_rsp_channel :: "bytes \<Rightarrow> (ProvError + RspChannelPayload) rust" where
  "decode_rsp_channel payload =
     (if length payload < 5 then Some (Inl PE_TruncatedPayload)
      else do {
        let index = payload ! 0;
        let chash = payload ! 1;
        let key_len = payload ! 2;
        let primary = payload ! 3 \<noteq> 0;
        let name_len = unat (payload ! 4);
        if name_len > MAX_NAME_LEN then Some (Inl PE_NameTooLong)
        else if length payload < 5 + name_len then Some (Inl PE_TruncatedPayload)
        else do {
          name \<leftarrow> read_field MAX_NAME_LEN payload 5 name_len;
          Some (Inr \<lparr>rch_index = index, rch_channel_hash = chash, rch_key_len = key_len, rch_primary = primary,
            rch_name = name, rch_name_len = of_nat name_len\<rparr>)
        }
      })"

definition decode_rsp_room :: "bytes \<Rightarrow> (ProvError + RspRoomPayload) rust" where
  "decode_rsp_room payload =
     (if length payload < 39 then Some (Inl PE_TruncatedPayload)
      else do {
        let index = payload ! 0;
        pubkey \<leftarrow> slice payload 1 33;
        let sync_since = from_le32 (payload ! 33) (payload ! 34) (payload ! 35) (payload ! 36);
        let permissions = payload ! 37;
        let out_path_len = unat (payload ! 38);
        if out_path_len > MAX_ROOM_PATH_LEN then Some (Inl PE_PathTooLong)
        else if length payload < 39 + out_path_len then Some (Inl PE_TruncatedPayload)
        else do {
          out_path \<leftarrow> read_field MAX_ROOM_PATH_LEN payload 39 out_path_len;
          let name_off = 39 + out_path_len;
          if length payload < name_off + 1 then Some (Inl PE_TruncatedPayload)
          else do {
            nl \<leftarrow> get_at payload name_off;
            let name_len = unat nl;
            if name_len > MAX_NAME_LEN then Some (Inl PE_NameTooLong)
            else if length payload < name_off + 1 + name_len then Some (Inl PE_TruncatedPayload)
            else do {
              name \<leftarrow> read_field MAX_NAME_LEN payload (name_off + 1) name_len;
              Some (Inr \<lparr>rr_index = index, rr_pubkey = pubkey, rr_sync_since = sync_since,
                rr_permissions = permissions, rr_out_path = out_path, rr_out_path_len = of_nat out_path_len,
                rr_name = name, rr_name_len = of_nat name_len\<rparr>)
            }
          }
        }
      })"

definition decode_rsp_error :: "bytes \<Rightarrow> (ProvError + RspErrorPayload) rust" where
  "decode_rsp_error payload =
     (if length payload < 2 then Some (Inl PE_TruncatedPayload)
      else do {
        let error_code = payload ! 0;
        let msg_len = unat (payload ! 1);
        if msg_len > MAX_ERR_MSG_LEN \<or> length payload < 2 + msg_len then Some (Inl PE_TruncatedPayload)
        else do {
          msg \<leftarrow> read_field MAX_ERR_MSG_LEN payload 2 msg_len;
          Some (Inr \<lparr>re_error_code = error_code, re_msg = msg, re_msg_len = of_nat msg_len\<rparr>)
        }
      })"

section \<open>Wire forms\<close>

text \<open>What each encoder writes, over fields that are already clamped to their limits.\<close>

definition add_contact_wire :: "bytes \<Rightarrow> bool \<Rightarrow> bytes \<Rightarrow> bytes" where
  "add_contact_wire pubkey telemetry name = pubkey @ [of_bool telemetry, of_nat (length name)] @ name"

definition add_channel_wire :: "bytes \<Rightarrow> u8 \<Rightarrow> bool \<Rightarrow> bytes \<Rightarrow> bytes" where
  "add_channel_wire secret key_len primary name = secret @ [key_len, of_bool primary, of_nat (length name)] @ name"

definition add_room_wire :: "bytes \<Rightarrow> bytes \<Rightarrow> bytes \<Rightarrow> bytes" where
  "add_room_wire pubkey pw name = pubkey @ [of_nat (length pw)] @ pw @ [of_nat (length name)] @ name"

definition text_wire :: "bytes \<Rightarrow> bytes" where
  "text_wire name = of_nat (length name) # name"

definition rsp_identity_wire :: "bytes \<Rightarrow> bytes \<Rightarrow> bytes" where
  "rsp_identity_wire pubkey name = pubkey @ [pubkey ! 0, of_nat (length name)] @ name"

definition rsp_contact_wire :: "u8 \<Rightarrow> bytes \<Rightarrow> bool \<Rightarrow> bytes \<Rightarrow> bytes" where
  "rsp_contact_wire index pubkey telemetry name = index # pubkey @ [of_bool telemetry, of_nat (length name)] @ name"

definition rsp_channel_wire :: "u8 \<Rightarrow> u8 \<Rightarrow> u8 \<Rightarrow> bool \<Rightarrow> bytes \<Rightarrow> bytes" where
  "rsp_channel_wire index chash key_len primary name = [index, chash, key_len, of_bool primary, of_nat (length name)] @ name"

definition rsp_room_wire :: "u8 \<Rightarrow> bytes \<Rightarrow> u32 \<Rightarrow> u8 \<Rightarrow> bytes \<Rightarrow> bytes \<Rightarrow> bytes" where
  "rsp_room_wire index pubkey since perms path name = index # pubkey @ to_le32 since @ [perms, of_nat (length path)] @ path @ [of_nat (length name)] @ name"

definition rsp_error_wire :: "u8 \<Rightarrow> bytes \<Rightarrow> bytes" where
  "rsp_error_wire code msg = [code, of_nat (length msg)] @ msg"

definition rsp_status_wire :: "RspStatusPayload \<Rightarrow> bytes" where
  "rsp_status_wire p = [of_bool (st_provisioned p)] @ st_pubkey p @ [st_contact_count p, st_channel_count p, of_bool (st_gps_has_fix p)]
     @ to_le32 (st_gps_lat_e7 p) @ to_le32 (st_gps_lon_e7 p) @ to_le32 (st_gps_fix_age_secs p)
     @ [of_bool (st_gps_clock_synced p)] @ to_le32 (st_gps_clock_sync_age_secs p)
     @ [st_battery_percent p, of_bool (st_battery_charging p)]
     @ to_le16 (st_battery_raw_mv p) @ to_le16 (st_battery_held_raw_mv p)
     @ [st_battery_level p, of_bool (st_battery_confirmed p)]"

lemmas wire_defs = add_contact_wire_def
  add_channel_wire_def
  add_room_wire_def
  text_wire_def
  rsp_identity_wire_def
  rsp_contact_wire_def
  rsp_channel_wire_def
  rsp_room_wire_def
  rsp_error_wire_def
  rsp_status_wire_def

lemma slice_clamp: "slice xs 0 (min (length xs) n) = Some (take n xs)"
  by (auto simp: slice_def min_def)

lemma unat_of_nat_u8: "n < 256 \<Longrightarrow> unat (of_nat n :: u8) = n"
  by (simp add: unat_of_nat)

lemma of_bool_nonzero: "(of_bool b :: u8) \<noteq> 0 \<longleftrightarrow> b"
  by (cases b) simp_all

section \<open>What the encoders write\<close>

lemma encode_add_contact_spec:
  assumes "length pubkey = 32" and "34 + length (take 32 name) \<le> length out"
  shows "encode_add_contact pubkey t name out = Some (put (add_contact_wire pubkey t (take 32 name)) out, 34 + length (take 32 name))"
  using assms by (cases "out = []") (auto simp: encode_add_contact_def emit slice_clamp prov_consts wire_defs Let_def)

lemma encode_query_advert_spec:
  assumes "4 \<le> length out"
  shows "encode_query_advert time out = Some (put (to_le32 time) out, 4)"
  using assms by (cases "out = []") (auto simp: encode_query_advert_def emit slice_clamp prov_consts wire_defs Let_def)

lemma encode_del_contact_spec:
  assumes "length pubkey = 32" and "32 \<le> length out"
  shows "encode_del_contact pubkey out = Some (put (pubkey) out, 32)"
  using assms by (cases "out = []") (auto simp: encode_del_contact_def emit slice_clamp prov_consts wire_defs Let_def)

lemma encode_add_channel_spec:
  assumes "length secret = 32" and "35 + length (take 32 name) \<le> length out"
  shows "encode_add_channel secret k p name out = Some (put (add_channel_wire secret k p (take 32 name)) out, 35 + length (take 32 name))"
  using assms by (cases "out = []") (auto simp: encode_add_channel_def emit slice_clamp prov_consts wire_defs Let_def)

lemma encode_del_channel_spec:
  assumes "length secret = 32" and "32 \<le> length out"
  shows "encode_del_channel secret out = Some (put (secret) out, 32)"
  using assms by (cases "out = []") (auto simp: encode_del_channel_def emit slice_clamp prov_consts wire_defs Let_def)

lemma encode_add_room_spec:
  assumes "length pubkey = 32" and "34 + length (take 16 pw) + length (take 32 name) \<le> length out"
  shows "encode_add_room pubkey pw name out = Some (put (add_room_wire pubkey (take 16 pw) (take 32 name)) out, 34 + length (take 16 pw) + length (take 32 name))"
  using assms by (cases "out = []") (auto simp: encode_add_room_def emit slice_clamp prov_consts wire_defs Let_def)

lemma encode_set_notif_defaults_spec:
  assumes "2 \<le> length out"
  shows "encode_set_notif_defaults v a out = Some (put ([of_bool v, of_bool a]) out, 2)"
  using assms by (cases "out = []") (auto simp: encode_set_notif_defaults_def emit slice_clamp prov_consts wire_defs Let_def)

lemma encode_set_pin_spec:
  assumes "1 + length (take 16 pin) \<le> length out"
  shows "encode_set_pin pin out = Some (put (text_wire (take 16 pin)) out, 1 + length (take 16 pin))"
  using assms by (cases "out = []") (auto simp: encode_set_pin_def emit slice_clamp prov_consts wire_defs Let_def)

lemma encode_set_device_name_spec:
  assumes "1 + length (take 32 name) \<le> length out"
  shows "encode_set_device_name name out = Some (put (text_wire (take 32 name)) out, 1 + length (take 32 name))"
  using assms by (cases "out = []") (auto simp: encode_set_device_name_def emit slice_clamp prov_consts wire_defs Let_def)

lemma encode_set_lock_pin_spec:
  assumes "length pin = 4" and "4 \<le> length out"
  shows "encode_set_lock_pin pin out = Some (put (pin) out, 4)"
  using assms by (cases "out = []") (auto simp: encode_set_lock_pin_def emit slice_clamp prov_consts wire_defs Let_def)

lemma encode_set_lock_config_spec:
  assumes "3 \<le> length out"
  shows "encode_set_lock_config flags t out = Some (put (flags # to_le16 t) out, 3)"
  using assms by (cases "out = []") (auto simp: encode_set_lock_config_def emit slice_clamp prov_consts wire_defs Let_def)

lemma encode_rsp_lock_spec:
  assumes "4 \<le> length out"
  shows "encode_rsp_lock p out = Some (put (rl_lock_flags p # to_le16 (rl_lock_timeout_s p) @ [of_bool (rl_pin_set p)]) out, 4)"
  using assms by (cases "out = []") (auto simp: encode_rsp_lock_def emit slice_clamp prov_consts wire_defs Let_def)

lemma encode_rsp_status_spec:
  assumes "length (st_pubkey p) = 32" and "61 \<le> length out"
  shows "encode_rsp_status p out = Some (put (rsp_status_wire p) out, 61)"
  using assms by (cases "out = []") (auto simp: encode_rsp_status_def emit slice_clamp prov_consts wire_defs Let_def to_le32_def to_le16_def)

lemma encode_rsp_identity_spec:
  assumes "length pubkey = 32" and "34 + length (take 32 name) \<le> length out"
  shows "encode_rsp_identity pubkey name out = Some (put (rsp_identity_wire pubkey (take 32 name)) out, 34 + length (take 32 name))"
  using assms by (cases "out = []") (auto simp: encode_rsp_identity_def emit slice_clamp prov_consts wire_defs Let_def get_at_def)

lemma encode_rsp_contact_spec:
  assumes "length pubkey = 32" and "35 + length (take 32 name) \<le> length out"
  shows "encode_rsp_contact i pubkey t name out = Some (put (rsp_contact_wire i pubkey t (take 32 name)) out, 35 + length (take 32 name))"
  using assms by (cases "out = []") (auto simp: encode_rsp_contact_def emit slice_clamp prov_consts wire_defs Let_def)

lemma encode_rsp_channel_spec:
  assumes "5 + length (take 32 name) \<le> length out"
  shows "encode_rsp_channel i h k p name out = Some (put (rsp_channel_wire i h k p (take 32 name)) out, 5 + length (take 32 name))"
  using assms by (cases "out = []") (auto simp: encode_rsp_channel_def emit slice_clamp prov_consts wire_defs Let_def)

lemma encode_rsp_room_spec:
  assumes "length pubkey = 32" and "40 + length (take 64 path) + length (take 32 name) \<le> length out"
  shows "encode_rsp_room i pubkey since perms path name out = Some (put (rsp_room_wire i pubkey since perms (take 64 path) (take 32 name)) out, 40 + length (take 64 path) + length (take 32 name))"
  using assms by (cases "out = []") (auto simp: encode_rsp_room_def emit slice_clamp prov_consts wire_defs Let_def)

lemma encode_rsp_error_spec:
  assumes "2 + length (take 64 msg) \<le> length out"
  shows "encode_rsp_error code msg out = Some (put (rsp_error_wire code (take 64 msg)) out, 2 + length (take 64 msg))"
  using assms by (cases "out = []") (auto simp: encode_rsp_error_def emit slice_clamp prov_consts wire_defs Let_def)

lemma encode_region_spec:
  assumes "name = [] \<or> valid_region_name name" "1 + length name \<le> length out"
  shows "encode_set_region name out = Some (put (text_wire name) out, Inr (1 + length name))"
    and "encode_rsp_region name out = Some (put (text_wire name) out, Inr (1 + length name))"
proof -
  have "name = [] \<or> \<not> isl (validate_region_name name)"
    using assms(1) validate_region_name_OK_iff [of name "()"] by auto
  then show "encode_set_region name out = Some (put (text_wire name) out, Inr (1 + length name))"
    "encode_rsp_region name out = Some (put (text_wire name) out, Inr (1 + length name))"
    using assms(2)
    by (cases "out = []"; auto simp: encode_set_region_def encode_rsp_region_def emit text_wire_def)+
qed

lemma encode_region_refused:
  assumes "name \<noteq> []" "\<not> valid_region_name name"
  shows "encode_set_region name out = Some (out, Inl PE_RegionNameInvalid)"
    and "encode_rsp_region name out = Some (out, Inl PE_RegionNameInvalid)"
proof -
  have "isl (validate_region_name name)"
    using assms(2) validate_region_name_OK_iff [of name] by (cases "validate_region_name name") auto
  then show "encode_set_region name out = Some (out, Inl PE_RegionNameInvalid)"
    "encode_rsp_region name out = Some (out, Inl PE_RegionNameInvalid)"
    using assms(1) by (simp_all add: encode_set_region_def encode_rsp_region_def)
qed

section \<open>What the decoders read back\<close>

lemmas decode_simps = read_field_Some slice_def get_at_def nth_append unat_of_nat_u8 of_bool_nonzero prov_consts
  wire_defs Let_def

lemma le32_nths: "from_le32 (to_le32 w ! 0) (to_le32 w ! Suc 0) (to_le32 w ! 2) (to_le32 w ! 3) = w"
  by (simp add: to_le32_def from_to_le32 numeral_2_eq_2 numeral_3_eq_3)

lemma le16_nths: "from_le16 (to_le16 w ! 0) (to_le16 w ! Suc 0) = w"
  by (simp add: to_le16_def from_to_le16)

lemma decode_add_contact_wire:
  assumes "length pubkey = 32" and "length name \<le> 32"
  shows "decode_add_contact (add_contact_wire pubkey t name @ rest) = Some (Inr (\<lparr>ac_pubkey = pubkey, ac_telemetry_enable = t, ac_display_name = pad 32 name, ac_display_name_len = of_nat (length name)\<rparr>))"
  using assms by (simp add: decode_add_contact_def decode_simps)

lemma decode_query_advert_wire:
  shows "decode_query_advert (to_le32 time @ rest) = Some (Inr (time))"
  by (simp add: decode_query_advert_def decode_simps le32_nths)

lemma decode_del_contact_wire:
  assumes "length pubkey = 32"
  shows "decode_del_contact (pubkey @ rest) = Some (Inr (pubkey))"
  using assms by (simp add: decode_del_contact_def decode_simps)

lemma decode_add_channel_wire:
  assumes "length secret = 32" and "k = 16 \<or> k = 32" and "length name \<le> 32"
  shows "decode_add_channel (add_channel_wire secret k p name @ rest) = Some (Inr (\<lparr>ach_secret = secret, ach_key_len = k, ach_primary = p, ach_name = pad 32 name, ach_name_len = of_nat (length name)\<rparr>))"
  using assms by (simp add: decode_add_channel_def decode_simps)

lemma decode_del_channel_wire:
  assumes "length secret = 32"
  shows "decode_del_channel (secret @ rest) = Some (Inr (secret))"
  using assms by (simp add: decode_del_channel_def decode_simps)

lemma decode_add_room_wire:
  assumes "length pubkey = 32" and "length pw \<le> 16" and "length name \<le> 32"
  shows "decode_add_room (add_room_wire pubkey pw name @ rest) = Some (Inr (\<lparr>ar_pubkey = pubkey, ar_guest_password = pad 16 pw, ar_guest_password_len = of_nat (length pw), ar_name = pad 32 name, ar_name_len = of_nat (length name)\<rparr>))"
  using assms by (simp add: decode_add_room_def decode_simps)

lemma decode_set_notif_defaults_wire:
  shows "decode_set_notif_defaults ([of_bool v, of_bool a] @ rest) = Some (Inr (\<lparr>nd_visual = v, nd_audible = a\<rparr>))"
  by (simp add: decode_set_notif_defaults_def decode_simps)

lemma decode_set_pin_wire:
  assumes "length pin \<le> 16"
  shows "decode_set_pin (text_wire pin @ rest) = Some (Inr (\<lparr>pt_text = pad 16 pin, pt_len = of_nat (length pin)\<rparr>))"
  using assms by (simp add: decode_set_pin_def decode_simps)

lemma decode_set_device_name_wire:
  assumes "length name \<le> 32"
  shows "decode_set_device_name (text_wire name @ rest) = Some (Inr (\<lparr>pt_text = pad 32 name, pt_len = of_nat (length name)\<rparr>))"
  using assms by (simp add: decode_set_device_name_def decode_simps)

lemma decode_set_lock_config_wire:
  shows "decode_set_lock_config ((flags # to_le16 t) @ rest) = Some (Inr (\<lparr>slc_lock_flags = flags, slc_lock_timeout_s = t\<rparr>))"
  by (simp add: decode_set_lock_config_def decode_simps le16_nths)

lemma decode_rsp_lock_wire:
  shows "decode_rsp_lock ((rl_lock_flags p # to_le16 (rl_lock_timeout_s p) @ [of_bool (rl_pin_set p)]) @ rest) = Some (Inr (p))"
  by (simp add: decode_rsp_lock_def decode_simps le16_nths)

lemma decode_rsp_identity_wire:
  assumes "length pubkey = 32" and "length name \<le> 32"
  shows "decode_rsp_identity (rsp_identity_wire pubkey name @ rest) = Some (Inr (\<lparr>ri_pubkey = pubkey, ri_pub_hash = pubkey ! 0, ri_device_name = pad 32 name, ri_device_name_len = of_nat (length name)\<rparr>))"
  using assms by (simp add: decode_rsp_identity_def decode_simps)

lemma decode_rsp_contact_wire:
  assumes "length pubkey = 32" and "length name \<le> 32"
  shows "decode_rsp_contact (rsp_contact_wire i pubkey t name @ rest) = Some (Inr (\<lparr>rc_index = i, rc_pubkey = pubkey, rc_telemetry_enable = t, rc_display_name = pad 32 name, rc_display_name_len = of_nat (length name)\<rparr>))"
  using assms by (simp add: decode_rsp_contact_def decode_simps)

lemma decode_rsp_channel_wire:
  assumes "length name \<le> 32"
  shows "decode_rsp_channel (rsp_channel_wire i h k p name @ rest) = Some (Inr (\<lparr>rch_index = i, rch_channel_hash = h, rch_key_len = k, rch_primary = p, rch_name = pad 32 name, rch_name_len = of_nat (length name)\<rparr>))"
  using assms by (simp add: decode_rsp_channel_def decode_simps)

lemma decode_rsp_room_wire:
  assumes "length pubkey = 32" and "length path \<le> 64" and "length name \<le> 32"
  shows "decode_rsp_room (rsp_room_wire i pubkey since perms path name @ rest) = Some (Inr (\<lparr>rr_index = i, rr_pubkey = pubkey, rr_sync_since = since, rr_permissions = perms, rr_out_path = pad 64 path, rr_out_path_len = of_nat (length path), rr_name = pad 32 name, rr_name_len = of_nat (length name)\<rparr>))"
  using assms by (simp add: decode_rsp_room_def decode_simps le32_nths drop_Cons')

lemma decode_rsp_error_wire:
  assumes "length msg \<le> 64"
  shows "decode_rsp_error (rsp_error_wire code msg @ rest) = Some (Inr (\<lparr>re_error_code = code, re_msg = pad 64 msg, re_msg_len = of_nat (length msg)\<rparr>))"
  using assms by (simp add: decode_rsp_error_def decode_simps)

lemma decode_rsp_status_wire:
  assumes "length (st_pubkey p) = 32"
  shows "decode_rsp_status (rsp_status_wire p @ rest) = Some (Inr (p))"
  using assms by (simp add: decode_rsp_status_def decode_simps to_le32_def to_le16_def from_to_le32 from_to_le16)

lemma decode_set_lock_pin_iff:
  "decode_set_lock_pin payload =
    Some (if length payload = 4 \<and> list_all is_ascii_digit payload then Inr payload else Inl PE_LockPinInvalid)"
  by (auto simp: decode_set_lock_pin_def LOCK_PIN_LEN_def copy_into_def)

lemma decode_region_wire:
  assumes "name = [] \<or> valid_region_name name"
  shows "decode_set_region (text_wire name @ rest) = Some (Inr \<lparr>pt_text = pad 31 name, pt_len = of_nat (length name)\<rparr>)"
    and "decode_rsp_region (text_wire name @ rest) = Some (Inr \<lparr>pt_text = pad 31 name, pt_len = of_nat (length name)\<rparr>)"
proof -
  have "length name \<le> 31" "name = [] \<or> \<not> isl (validate_region_name name)"
    using assms validate_region_name_OK_iff [of name "()"] by (auto simp: valid_region_name_def)
  then show "decode_set_region (text_wire name @ rest) = Some (Inr \<lparr>pt_text = pad 31 name, pt_len = of_nat (length name)\<rparr>)"
    "decode_rsp_region (text_wire name @ rest) = Some (Inr \<lparr>pt_text = pad 31 name, pt_len = of_nat (length name)\<rparr>)"
    by (auto simp: decode_set_region_def decode_rsp_region_def decode_simps copy_into_def pad_def)
qed

section \<open>Totality and well-formed results\<close>

text \<open>A text field of capacity \<open>cap\<close>: zero-padded to the capacity, with its length recorded.\<close>

definition text_ok :: "nat \<Rightarrow> bytes \<Rightarrow> u8 \<Rightarrow> bool" where
  "text_ok cap txt len \<longleftrightarrow> length txt = cap \<and> unat len \<le> cap \<and> drop (unat len) txt = zeros (cap - unat len)"

lemma text_ok_pad: "length b \<le> cap \<Longrightarrow> cap < 256 \<Longrightarrow> text_ok cap (pad cap b) (of_nat (length b))"
  by (simp add: text_ok_def unat_of_nat_u8 pad_def)

lemma text_ok_field:
  "unat w \<le> cap \<Longrightarrow> off + unat w \<le> length p \<Longrightarrow> text_ok cap (pad cap (take (unat w) (drop off p))) w"
  by (simp add: text_ok_def pad_def)

lemma decode_add_contact_total:
  "\<exists>r. decode_add_contact p = Some r \<and> (\<forall>x. r = Inr x \<longrightarrow> length (ac_pubkey x) = 32 \<and> text_ok 32 (ac_display_name x) (ac_display_name_len x))"
  by (auto simp: decode_add_contact_def read_field_Some slice_def get_at_def prov_consts Let_def text_ok_field)

lemma decode_add_channel_total:
  "\<exists>r. decode_add_channel p = Some r \<and> (\<forall>x. r = Inr x \<longrightarrow> length (ach_secret x) = 32 \<and> (ach_key_len x = 16 \<or> ach_key_len x = 32) \<and> text_ok 32 (ach_name x) (ach_name_len x))"
  by (auto simp: decode_add_channel_def read_field_Some slice_def get_at_def prov_consts Let_def text_ok_field)

lemma decode_add_room_total:
  "\<exists>r. decode_add_room p = Some r \<and> (\<forall>x. r = Inr x \<longrightarrow> length (ar_pubkey x) = 32 \<and> text_ok 16 (ar_guest_password x) (ar_guest_password_len x)
      \<and> text_ok 32 (ar_name x) (ar_name_len x))"
  by (auto simp: decode_add_room_def read_field_Some slice_def get_at_def prov_consts Let_def text_ok_field)

lemma decode_del_contact_total:
  "\<exists>r. decode_del_contact p = Some r \<and> (\<forall>x. r = Inr x \<longrightarrow> length x = 32)"
  by (auto simp: decode_del_contact_def read_field_Some slice_def get_at_def prov_consts Let_def text_ok_field)

lemma decode_del_channel_total:
  "\<exists>r. decode_del_channel p = Some r \<and> (\<forall>x. r = Inr x \<longrightarrow> length x = 32)"
  by (auto simp: decode_del_channel_def read_field_Some slice_def get_at_def prov_consts Let_def text_ok_field)

lemma decode_set_pin_total:
  "\<exists>r. decode_set_pin p = Some r \<and> (\<forall>x. r = Inr x \<longrightarrow> text_ok 16 (pt_text x) (pt_len x))"
  by (auto simp: decode_set_pin_def read_field_Some slice_def get_at_def prov_consts Let_def text_ok_field)

lemma decode_set_device_name_total:
  "\<exists>r. decode_set_device_name p = Some r \<and> (\<forall>x. r = Inr x \<longrightarrow> text_ok 32 (pt_text x) (pt_len x))"
  by (auto simp: decode_set_device_name_def read_field_Some slice_def get_at_def prov_consts Let_def text_ok_field)

lemma decode_rsp_identity_total:
  "\<exists>r. decode_rsp_identity p = Some r \<and> (\<forall>x. r = Inr x \<longrightarrow> length (ri_pubkey x) = 32 \<and> text_ok 32 (ri_device_name x) (ri_device_name_len x))"
  by (auto simp: decode_rsp_identity_def read_field_Some slice_def get_at_def prov_consts Let_def text_ok_field)

lemma decode_rsp_contact_total:
  "\<exists>r. decode_rsp_contact p = Some r \<and> (\<forall>x. r = Inr x \<longrightarrow> length (rc_pubkey x) = 32 \<and> text_ok 32 (rc_display_name x) (rc_display_name_len x))"
  by (auto simp: decode_rsp_contact_def read_field_Some slice_def get_at_def prov_consts Let_def text_ok_field)

lemma decode_rsp_channel_total:
  "\<exists>r. decode_rsp_channel p = Some r \<and> (\<forall>x. r = Inr x \<longrightarrow> text_ok 32 (rch_name x) (rch_name_len x))"
  by (auto simp: decode_rsp_channel_def read_field_Some slice_def get_at_def prov_consts Let_def text_ok_field)

lemma decode_rsp_room_total:
  "\<exists>r. decode_rsp_room p = Some r \<and> (\<forall>x. r = Inr x \<longrightarrow> length (rr_pubkey x) = 32 \<and> text_ok 64 (rr_out_path x) (rr_out_path_len x)
      \<and> text_ok 32 (rr_name x) (rr_name_len x))"
  by (auto simp: decode_rsp_room_def read_field_Some slice_def get_at_def prov_consts Let_def text_ok_field)

lemma decode_rsp_error_total:
  "\<exists>r. decode_rsp_error p = Some r \<and> (\<forall>x. r = Inr x \<longrightarrow> text_ok 64 (re_msg x) (re_msg_len x))"
  by (auto simp: decode_rsp_error_def read_field_Some slice_def get_at_def prov_consts Let_def text_ok_field)

lemma decode_rsp_status_total:
  "\<exists>r. decode_rsp_status p = Some r \<and> (\<forall>x. r = Inr x \<longrightarrow> length (st_pubkey x) = 32)"
  by (auto simp: decode_rsp_status_def read_field_Some slice_def get_at_def prov_consts Let_def text_ok_field)

lemma decode_set_region_total:
  "\<exists>r. decode_set_region p = Some r \<and> (\<forall>x. r = Inr x \<longrightarrow> text_ok 31 (pt_text x) (pt_len x)
     \<and> (pt_len x = 0 \<or> valid_region_name (take (unat (pt_len x)) (pt_text x))))"
proof (cases "p = [] \<or> unat (p ! 0) > 31 \<or> length p < 1 + unat (p ! 0)")
  case True
  then show ?thesis
    by (auto simp: decode_set_region_def prov_consts Let_def)
next
  case False
  let ?n = "take (unat (p ! 0)) (drop 1 p)"
  have len: "length ?n = unat (p ! 0)"
    using False by (simp add: min_def) linarith
  have "slice p 1 (1 + unat (p ! 0)) = Some ?n"
    using False by (simp add: slice_def)
  moreover have "copy_into (zeros 31) 0 ?n = Some (pad 31 ?n)"
    using False len by (simp add: copy_into_def pad_def)
  moreover have "text_ok 31 (pad 31 ?n) (p ! 0)"
    using False by (intro text_ok_field) auto
  moreover have "take (unat (p ! 0)) (pad 31 ?n) = ?n"
    using len by simp
  moreover have "valid_region_name ?n" if "\<not> isl (validate_region_name ?n)"
    using that validate_region_name_OK_iff [of ?n] by (cases "validate_region_name ?n") auto
  moreover have "?n = [] \<longleftrightarrow> p ! 0 = 0"
    using len by (metis length_0_conv unat_eq_0)
  ultimately show ?thesis
    using False
    by (auto simp: decode_set_region_def prov_consts Let_def simp del: take_eq_Nil take_eq_Nil2)
qed

section \<open>Properties\<close>

text \<open>no payload makes a request decoder panic, and what one accepts is well formed: 32-byte keys, a key length of
  16 or 32, a lock PIN of exactly four digits, every text zero-padded with a recorded length within its limit, and
  a region name that is empty or passes the name rules.\<close>

theorem prov_requests_well_formed:
  "(\<exists>r. decode_add_contact p = Some r \<and> (\<forall>x. r = Inr x \<longrightarrow>
      length (ac_pubkey x) = 32 \<and> text_ok 32 (ac_display_name x) (ac_display_name_len x)))
   \<and> (\<exists>r. decode_add_channel p = Some r \<and> (\<forall>x. r = Inr x \<longrightarrow>
      length (ach_secret x) = 32 \<and> (ach_key_len x = 16 \<or> ach_key_len x = 32) \<and> text_ok 32 (ach_name x) (ach_name_len x)))
   \<and> (\<exists>r. decode_add_room p = Some r \<and> (\<forall>x. r = Inr x \<longrightarrow>
      length (ar_pubkey x) = 32 \<and> text_ok 16 (ar_guest_password x) (ar_guest_password_len x)
      \<and> text_ok 32 (ar_name x) (ar_name_len x)))
   \<and> (\<exists>r. decode_set_pin p = Some r \<and> (\<forall>x. r = Inr x \<longrightarrow> text_ok 16 (pt_text x) (pt_len x)))
   \<and> (\<exists>r. decode_set_device_name p = Some r \<and> (\<forall>x. r = Inr x \<longrightarrow> text_ok 32 (pt_text x) (pt_len x)))
   \<and> (\<exists>r. decode_set_lock_pin p = Some r \<and> (\<forall>x. r = Inr x \<longrightarrow> length x = 4 \<and> list_all is_ascii_digit x))
   \<and> (\<exists>r. decode_set_region p = Some r \<and> (\<forall>x. r = Inr x \<longrightarrow> text_ok 31 (pt_text x) (pt_len x)
      \<and> (pt_len x = 0 \<or> valid_region_name (take (unat (pt_len x)) (pt_text x)))))"
  by (intro conjI decode_add_contact_total decode_add_channel_total decode_add_room_total decode_set_pin_total
      decode_set_device_name_total decode_set_region_total) (auto simp: decode_set_lock_pin_iff)

theorem prov_requests_well_formed_witness:
  "\<exists>x. decode_set_lock_pin [48, 49, 50, 51] = Some (Inr x) \<and> length x = 4"
  using prov_requests_well_formed [of "[48, 49, 50, 51]"]
  by (auto simp: decode_set_lock_pin_def LOCK_PIN_LEN_def is_ascii_digit_def copy_into_def)

text \<open>A request as the host sends it and the device receives it.\<close>

definition sent :: "u8 \<Rightarrow> (bytes \<times> nat) rust \<Rightarrow> bytes \<Rightarrow> (ProvError + u8 \<times> bytes) rust" where
  "sent frame_type encoded rest = do {
     (pbuf, plen) \<leftarrow> encoded;
     payload \<leftarrow> slice pbuf 0 plen;
     (buf, n) \<leftarrow> encode_frame frame_type payload (zeros 256);
     decode_frame (take n buf @ rest)
   }"

lemma sent_spec:
  assumes "encoded = Some (put w out, n)" "length w = n" "n \<le> length out" "n \<le> 249"
  shows "sent t encoded rest = Some (Inr (t, w))"
proof -
  have "encode_frame t w (zeros 256) = Some (put (prov_frame t w) (zeros 256), 7 + length w)"
    using assms by (intro encode_frame_spec) simp
  then show ?thesis
    using assms decode_prov_frame [of w t rest] by (simp add: sent_def emit)
qed

text \<open>The same request as the device reads it: the type of the received frame and its decoded payload.\<close>

definition received_as :: "u8 \<Rightarrow> (bytes \<times> nat) rust \<Rightarrow> (bytes \<Rightarrow> (ProvError + 'a) rust) \<Rightarrow> bytes \<Rightarrow> (ProvError + u8 \<times> 'a) rust" where
  "received_as frame_type encoded dec rest = do {
     r \<leftarrow> sent frame_type encoded rest;
     case r of Inl err \<Rightarrow> Some (Inl err)
     | Inr (t, payload) \<Rightarrow> do {
         v \<leftarrow> dec payload;
         Some (case v of Inl err \<Rightarrow> Inl err | Inr x \<Rightarrow> Inr (t, x))
       }
   }"

text \<open>What a host sends after an encoder that can refuse: nothing when it refuses.\<close>

definition unless_refused :: "(bytes \<times> (ProvError + nat)) rust \<Rightarrow> (bytes \<times> nat) rust" where
  "unless_refused encoded = do { (out, r) \<leftarrow> encoded; case r of Inl _ \<Rightarrow> None | Inr n \<Rightarrow> Some (out, n) }"

lemma received_as_spec:
  assumes "encoded = Some (put w out, n)" "length w = n" "n \<le> length out" "n \<le> 249" "dec w = Some (Inr v)"
  shows "received_as t encoded dec rest = Some (Inr (t, v))"
  using sent_spec [OF assms(1-4)] assms(5) by (simp add: received_as_def)

lemma request_received_as:
  assumes "length pubkey = 32" "82 \<le> length out"
  shows "received_as 0x04 (encode_query_advert time out) decode_query_advert rest = Some (Inr (0x04, time))"
    and "received_as 0x10 (encode_add_contact pubkey t name out) decode_add_contact rest =
      Some (Inr (0x10, \<lparr>ac_pubkey = pubkey, ac_telemetry_enable = t, ac_display_name = pad 32 (take 32 name),
        ac_display_name_len = of_nat (length (take 32 name))\<rparr>))"
    and "received_as 0x11 (encode_del_contact pubkey out) decode_del_contact rest = Some (Inr (0x11, pubkey))"
    and "k = 16 \<or> k = 32 \<Longrightarrow> received_as 0x20 (encode_add_channel pubkey k t name out) decode_add_channel rest =
      Some (Inr (0x20, \<lparr>ach_secret = pubkey, ach_key_len = k, ach_primary = t, ach_name = pad 32 (take 32 name),
        ach_name_len = of_nat (length (take 32 name))\<rparr>))"
    and "received_as 0x21 (encode_del_channel pubkey out) decode_del_channel rest = Some (Inr (0x21, pubkey))"
    and "received_as 0x22 (encode_add_room pubkey pw name out) decode_add_room rest =
      Some (Inr (0x22, \<lparr>ar_pubkey = pubkey, ar_guest_password = pad 16 (take 16 pw),
        ar_guest_password_len = of_nat (length (take 16 pw)), ar_name = pad 32 (take 32 name),
        ar_name_len = of_nat (length (take 32 name))\<rparr>))"
    and "received_as 0x23 (encode_del_room pubkey out) decode_del_room rest = Some (Inr (0x23, pubkey))"
    and "received_as 0x40 (encode_set_notif_defaults t u out) decode_set_notif_defaults rest =
      Some (Inr (0x40, \<lparr>nd_visual = t, nd_audible = u\<rparr>))"
    and "received_as 0x50 (encode_set_pin pw out) decode_set_pin rest =
      Some (Inr (0x50, \<lparr>pt_text = pad 16 (take 16 pw), pt_len = of_nat (length (take 16 pw))\<rparr>))"
    and "received_as 0x51 (encode_set_device_name name out) decode_set_device_name rest =
      Some (Inr (0x51, \<lparr>pt_text = pad 32 (take 32 name), pt_len = of_nat (length (take 32 name))\<rparr>))"
    and "length pin = 4 \<Longrightarrow> list_all is_ascii_digit pin \<Longrightarrow>
      received_as 0x52 (encode_set_lock_pin pin out) decode_set_lock_pin rest = Some (Inr (0x52, pin))"
    and "received_as 0x53 (encode_set_lock_config flags secs out) decode_set_lock_config rest =
      Some (Inr (0x53, \<lparr>slc_lock_flags = flags, slc_lock_timeout_s = secs\<rparr>))"
    and "region = [] \<or> valid_region_name region \<Longrightarrow> received_as 0x54 (unless_refused (encode_set_region region out)) decode_set_region rest =
      Some (Inr (0x54, \<lparr>pt_text = pad 31 region, pt_len = of_nat (length region)\<rparr>))"
proof -
  note lengths = add_contact_wire_def add_channel_wire_def add_room_wire_def text_wire_def
  show "received_as 0x04 (encode_query_advert time out) decode_query_advert rest = Some (Inr (0x04, time))"
    using assms decode_query_advert_wire [of time "[]"]
    by (intro received_as_spec [OF encode_query_advert_spec]) simp_all
  show "received_as 0x10 (encode_add_contact pubkey t name out) decode_add_contact rest =
      Some (Inr (0x10, \<lparr>ac_pubkey = pubkey, ac_telemetry_enable = t, ac_display_name = pad 32 (take 32 name),
        ac_display_name_len = of_nat (length (take 32 name))\<rparr>))"
    using assms decode_add_contact_wire [of pubkey "take 32 name" t "[]"]
    by (intro received_as_spec [OF encode_add_contact_spec]) (simp_all add: lengths)
  show "received_as 0x11 (encode_del_contact pubkey out) decode_del_contact rest = Some (Inr (0x11, pubkey))"
    using assms decode_del_contact_wire [of pubkey "[]"]
    by (intro received_as_spec [OF encode_del_contact_spec]) simp_all
  show "received_as 0x20 (encode_add_channel pubkey k t name out) decode_add_channel rest =
      Some (Inr (0x20, \<lparr>ach_secret = pubkey, ach_key_len = k, ach_primary = t, ach_name = pad 32 (take 32 name),
        ach_name_len = of_nat (length (take 32 name))\<rparr>))" if "k = 16 \<or> k = 32"
    using assms that decode_add_channel_wire [of pubkey k "take 32 name" t "[]"]
    by (intro received_as_spec [OF encode_add_channel_spec]) (simp_all add: lengths)
  show "received_as 0x21 (encode_del_channel pubkey out) decode_del_channel rest = Some (Inr (0x21, pubkey))"
    using assms decode_del_channel_wire [of pubkey "[]"]
    by (intro received_as_spec [OF encode_del_channel_spec]) simp_all
  show "received_as 0x22 (encode_add_room pubkey pw name out) decode_add_room rest =
      Some (Inr (0x22, \<lparr>ar_pubkey = pubkey, ar_guest_password = pad 16 (take 16 pw),
        ar_guest_password_len = of_nat (length (take 16 pw)), ar_name = pad 32 (take 32 name),
        ar_name_len = of_nat (length (take 32 name))\<rparr>))"
    using assms decode_add_room_wire [of pubkey "take 16 pw" "take 32 name" "[]"]
    by (intro received_as_spec [OF encode_add_room_spec]) (simp_all add: lengths)
  show "received_as 0x23 (encode_del_room pubkey out) decode_del_room rest = Some (Inr (0x23, pubkey))"
    using assms decode_del_contact_wire [of pubkey "[]"] unfolding encode_del_room_def decode_del_room_def
    by (intro received_as_spec [OF encode_del_contact_spec]) simp_all
  show "received_as 0x40 (encode_set_notif_defaults t u out) decode_set_notif_defaults rest =
      Some (Inr (0x40, \<lparr>nd_visual = t, nd_audible = u\<rparr>))"
    using assms decode_set_notif_defaults_wire [of t u "[]"]
    by (intro received_as_spec [OF encode_set_notif_defaults_spec]) simp_all
  show "received_as 0x50 (encode_set_pin pw out) decode_set_pin rest =
      Some (Inr (0x50, \<lparr>pt_text = pad 16 (take 16 pw), pt_len = of_nat (length (take 16 pw))\<rparr>))"
    using assms decode_set_pin_wire [of "take 16 pw" "[]"]
    by (intro received_as_spec [OF encode_set_pin_spec]) (simp_all add: lengths)
  show "received_as 0x51 (encode_set_device_name name out) decode_set_device_name rest =
      Some (Inr (0x51, \<lparr>pt_text = pad 32 (take 32 name), pt_len = of_nat (length (take 32 name))\<rparr>))"
    using assms decode_set_device_name_wire [of "take 32 name" "[]"]
    by (intro received_as_spec [OF encode_set_device_name_spec]) (simp_all add: lengths)
  show "received_as 0x52 (encode_set_lock_pin pin out) decode_set_lock_pin rest = Some (Inr (0x52, pin))"
    if "length pin = 4" "list_all is_ascii_digit pin"
    using assms that by (intro received_as_spec [OF encode_set_lock_pin_spec]) (simp_all add: decode_set_lock_pin_iff)
  show "received_as 0x53 (encode_set_lock_config flags secs out) decode_set_lock_config rest =
      Some (Inr (0x53, \<lparr>slc_lock_flags = flags, slc_lock_timeout_s = secs\<rparr>))"
    using assms decode_set_lock_config_wire [of flags secs "[]"]
    by (intro received_as_spec [OF encode_set_lock_config_spec]) simp_all
  show "received_as 0x54 (unless_refused (encode_set_region region out)) decode_set_region rest =
      Some (Inr (0x54, \<lparr>pt_text = pad 31 region, pt_len = of_nat (length region)\<rparr>))"
    if ok: "region = [] \<or> valid_region_name region"
  proof -
    have len: "length region \<le> 31"
      using ok by (auto simp: valid_region_name_def)
    then have enc: "unless_refused (encode_set_region region out) = Some (put (text_wire region) out, 1 + length region)"
      using encode_region_spec(1) [OF ok, of out] assms(2) by (simp add: unless_refused_def)
    then show ?thesis
      using len assms(2) decode_region_wire(1) [OF ok, of "[]"] by (intro received_as_spec [OF enc]) (simp_all add: lengths)
  qed
qed

text \<open>C32: a host request survives the cable: for each of the thirteen commands with a payload, encoding it, framing
  it, receiving the frame with any bytes behind it and decoding the payload gives back the command's type and exactly
  the values the host supplied, with texts cut to their limits and zero-padded. The host's arguments are what its
  types and checks allow: a key of 32 bytes, a lock PIN of four digits, a channel key of 16 or 32 bytes, an empty or
  valid region name (any other is refused before anything is written), and an output buffer that holds the longest
  request (82 bytes).\<close>

theorem prov_requests_roundtrip:
  assumes "length pubkey = 32" "length pin = 4" "list_all is_ascii_digit pin" "k = 16 \<or> k = 32"
    and "82 \<le> length out" "region = [] \<or> valid_region_name region"
  shows "received_as 0x04 (encode_query_advert time out) decode_query_advert rest = Some (Inr (0x04, time))
    \<and> received_as 0x10 (encode_add_contact pubkey t name out) decode_add_contact rest =
      Some (Inr (0x10, \<lparr>ac_pubkey = pubkey, ac_telemetry_enable = t, ac_display_name = pad 32 (take 32 name),
        ac_display_name_len = of_nat (length (take 32 name))\<rparr>))
    \<and> received_as 0x11 (encode_del_contact pubkey out) decode_del_contact rest = Some (Inr (0x11, pubkey))
    \<and> received_as 0x20 (encode_add_channel pubkey k t name out) decode_add_channel rest =
      Some (Inr (0x20, \<lparr>ach_secret = pubkey, ach_key_len = k, ach_primary = t, ach_name = pad 32 (take 32 name),
        ach_name_len = of_nat (length (take 32 name))\<rparr>))
    \<and> received_as 0x21 (encode_del_channel pubkey out) decode_del_channel rest = Some (Inr (0x21, pubkey))
    \<and> received_as 0x22 (encode_add_room pubkey pw name out) decode_add_room rest =
      Some (Inr (0x22, \<lparr>ar_pubkey = pubkey, ar_guest_password = pad 16 (take 16 pw),
        ar_guest_password_len = of_nat (length (take 16 pw)), ar_name = pad 32 (take 32 name),
        ar_name_len = of_nat (length (take 32 name))\<rparr>))
    \<and> received_as 0x23 (encode_del_room pubkey out) decode_del_room rest = Some (Inr (0x23, pubkey))
    \<and> received_as 0x40 (encode_set_notif_defaults t u out) decode_set_notif_defaults rest =
      Some (Inr (0x40, \<lparr>nd_visual = t, nd_audible = u\<rparr>))
    \<and> received_as 0x50 (encode_set_pin pw out) decode_set_pin rest =
      Some (Inr (0x50, \<lparr>pt_text = pad 16 (take 16 pw), pt_len = of_nat (length (take 16 pw))\<rparr>))
    \<and> received_as 0x51 (encode_set_device_name name out) decode_set_device_name rest =
      Some (Inr (0x51, \<lparr>pt_text = pad 32 (take 32 name), pt_len = of_nat (length (take 32 name))\<rparr>))
    \<and> received_as 0x52 (encode_set_lock_pin pin out) decode_set_lock_pin rest = Some (Inr (0x52, pin))
    \<and> received_as 0x53 (encode_set_lock_config flags secs out) decode_set_lock_config rest =
      Some (Inr (0x53, \<lparr>slc_lock_flags = flags, slc_lock_timeout_s = secs\<rparr>))
    \<and> received_as 0x54 (unless_refused (encode_set_region region out)) decode_set_region rest =
      Some (Inr (0x54, \<lparr>pt_text = pad 31 region, pt_len = of_nat (length region)\<rparr>))"
  using assms by (intro conjI request_received_as)

theorem prov_requests_roundtrip_witness:
  "received_as 0x04 (encode_query_advert 1700000000 (zeros 82)) decode_query_advert [0x4D] = Some (Inr (0x04, 1700000000))
   \<and> received_as 0x10 (encode_add_contact (zeros 32) True [65] (zeros 82)) decode_add_contact [0x4D] =
     Some (Inr (0x10, \<lparr>ac_pubkey = zeros 32, ac_telemetry_enable = True, ac_display_name = pad 32 [65], ac_display_name_len = 1\<rparr>))
   \<and> received_as 0x22 (encode_add_room (zeros 32) [66, 67] [65] (zeros 82)) decode_add_room [0x4D] =
     Some (Inr (0x22, \<lparr>ar_pubkey = zeros 32, ar_guest_password = pad 16 [66, 67], ar_guest_password_len = 2,
       ar_name = pad 32 [65], ar_name_len = 1\<rparr>))
   \<and> received_as 0x52 (encode_set_lock_pin [48, 49, 50, 51] (zeros 82)) decode_set_lock_pin [0x4D] = Some (Inr (0x52, [48, 49, 50, 51]))
   \<and> received_as 0x54 (unless_refused (encode_set_region [0x55, 0x4B] (zeros 82))) decode_set_region [0x4D] =
     Some (Inr (0x54, \<lparr>pt_text = pad 31 [0x55, 0x4B], pt_len = 2\<rparr>))"
proof -
  have "valid_region_name [0x55, 0x4B]"
    by (simp add: valid_region_name_def is_region_name_byte_def)
  then show ?thesis
    using prov_requests_roundtrip [of "zeros 32" "[48, 49, 50, 51]" 16 "zeros 82" "[0x55, 0x4B]" 1700000000 "[0x4D]" True "[65]" "[66, 67]" True 1 60]
    by (simp add: is_ascii_digit_def)
qed

text \<open>the status report survives the cable in full, and a report cut to the three older lengths still decodes: the
  missing millivolt readings are zero, the missing bucket is derived from the percentage and counts as confirmed.\<close>

theorem rsp_status_compatible:
  assumes "length (st_pubkey s) = 32" "61 \<le> length out"
  shows "\<exists>out'. encode_rsp_status s out = Some (out', 61)
    \<and> decode_rsp_status (take 61 out') = Some (Inr s)
    \<and> decode_rsp_status (take 59 out') = Some (Inr (s\<lparr>
        st_battery_level := legacy_percent_to_battery_level (st_battery_percent s) (st_battery_charging s),
        st_battery_confirmed := True\<rparr>))
    \<and> decode_rsp_status (take 57 out') = Some (Inr (s\<lparr>st_battery_held_raw_mv := 0,
        st_battery_level := legacy_percent_to_battery_level (st_battery_percent s) (st_battery_charging s),
        st_battery_confirmed := True\<rparr>))
    \<and> decode_rsp_status (take 55 out') = Some (Inr (s\<lparr>st_battery_raw_mv := 0, st_battery_held_raw_mv := 0,
        st_battery_level := legacy_percent_to_battery_level (st_battery_percent s) (st_battery_charging s),
        st_battery_confirmed := True\<rparr>))"
proof -
  let ?w = "rsp_status_wire s"
  have len: "length ?w = 61"
    using assms(1) by (simp add: rsp_status_wire_def)
  have cut: "take n (put ?w out) = take n ?w" if "n \<le> 61" for n
    using that len by (simp add: put_def)
  have "decode_rsp_status (take 61 ?w) = Some (Inr s)"
    using decode_rsp_status_wire [OF assms(1), of "[]"] len by simp
  moreover have "decode_rsp_status (take 59 ?w) = Some (Inr (s\<lparr>
        st_battery_level := legacy_percent_to_battery_level (st_battery_percent s) (st_battery_charging s),
        st_battery_confirmed := True\<rparr>))"
    "decode_rsp_status (take 57 ?w) = Some (Inr (s\<lparr>st_battery_held_raw_mv := 0,
        st_battery_level := legacy_percent_to_battery_level (st_battery_percent s) (st_battery_charging s),
        st_battery_confirmed := True\<rparr>))"
    "decode_rsp_status (take 55 ?w) = Some (Inr (s\<lparr>st_battery_raw_mv := 0, st_battery_held_raw_mv := 0,
        st_battery_level := legacy_percent_to_battery_level (st_battery_percent s) (st_battery_charging s),
        st_battery_confirmed := True\<rparr>))"
    using assms(1)
    by (simp_all add: decode_rsp_status_def rsp_status_wire_def slice_def nth_append of_bool_nonzero Let_def
        to_le32_def to_le16_def from_to_le32 from_to_le16 take_Cons')
  ultimately show ?thesis
    using encode_rsp_status_spec [OF assms] by (simp add: cut)
qed

theorem rsp_status_compatible_witness:
  "\<exists>s. st_battery_percent s = 90 \<and> (\<exists>out'. encode_rsp_status s (zeros 64) = Some (out', 61)
     \<and> decode_rsp_status (take 61 out') = Some (Inr s))"
proof -
  let ?s = "\<lparr>st_provisioned = True, st_pubkey = zeros 32, st_contact_count = 1, st_channel_count = 2, st_gps_has_fix = False,
    st_gps_lat_e7 = 0, st_gps_lon_e7 = 0, st_gps_fix_age_secs = 0, st_gps_clock_synced = False,
    st_gps_clock_sync_age_secs = 0, st_battery_percent = 90, st_battery_charging = False, st_battery_raw_mv = 4000,
    st_battery_held_raw_mv = 3990, st_battery_level = 4, st_battery_confirmed = True\<rparr>"
  from rsp_status_compatible [of ?s "zeros 64"]
  obtain out' where "encode_rsp_status ?s (zeros 64) = Some (out', 61)" "decode_rsp_status (take 61 out') = Some (Inr ?s)"
    by auto
  then show ?thesis
    by (intro exI [of _ ?s]) auto
qed

end
