(* ===== verification/Rx_Loop.thy ===== *)
theory Rx_Loop
  imports Prov_Payload
begin

text \<open>
  The frame-receive loops of the two USB servers, \<open>firmware/src/admin_server.rs\<close> and
  \<open>firmware/src/provisioning_server.rs\<close>, with the guards of \<open>firmware-core/src/rx_loop_guard.rs\<close>.  The
  state is the valid part of the receive buffer and the bytes waiting in the driver's ring; an iteration is
  the body of the loop, whose read delivers as many of the waiting bytes as the driver likes.  The two loops
  differ in how they look for the magic bytes; the locale \<open>magic_scanner\<close> is what they rely on.
\<close>

section \<open>Guards\<close>

definition RX_BUF_LEN :: nat where
  "RX_BUF_LEN = 512"

text \<open>The new \<open>rx_len\<close> and whether the buffer was flushed.\<close>

definition flush_if_rx_buffer_full :: "nat \<Rightarrow> nat \<Rightarrow> nat \<times> bool" where
  "flush_if_rx_buffer_full rx_len rx_buf_len = (if rx_len \<ge> rx_buf_len then (0, True) else (rx_len, False))"

definition MAX_VALID_REQUEST_PAYLOAD_LEN :: nat where
  "MAX_VALID_REQUEST_PAYLOAD_LEN = 32 + 1 + MAX_ROOM_PASSWORD_LEN + 1 + MAX_NAME_LEN"

definition oversized_plen :: "bytes \<Rightarrow> nat \<Rightarrow> bool" where
  "oversized_plen rx_buf max_valid_payload_len =
     (if length rx_buf < 5 then False
      else unat (rx_buf ! 3) + 256 * unat (rx_buf ! 4) > max_valid_payload_len)"

section \<open>Looking for the magic bytes\<close>

text \<open>The scan both servers run from index \<open>i\<close> on: the first possible start of the magic, or the length.\<close>

fun magic_scan :: "nat \<Rightarrow> bytes \<Rightarrow> nat" where
  "magic_scan i [] = i"
| "magic_scan i [b] = (if b = PROV_MAGIC ! 0 then i else Suc i)"
| "magic_scan i (b # c # rest) =
     (if b = PROV_MAGIC ! 0 \<and> c = PROV_MAGIC ! 1 then i else magic_scan (Suc i) (c # rest))"

definition prov_find_magic_start :: "bytes \<Rightarrow> nat" where
  "prov_find_magic_start buf = magic_scan 0 buf"

definition admin_find_magic_start :: "bytes \<Rightarrow> nat" where
  "admin_find_magic_start buf =
     (if length buf < 2 then 0
      else if buf ! 0 = PROV_MAGIC ! 0 \<and> buf ! 1 = PROV_MAGIC ! 1 then 0
      else magic_scan 1 (drop 1 buf))"

section \<open>One iteration\<close>

record rx_state =
  rx_buf :: bytes
  rx_ring :: bytes

text \<open>The loop body after the read: the bytes that stay in the buffer and the frame handed to the handler.\<close>

definition rx_process :: "(bytes \<Rightarrow> nat) \<Rightarrow> bytes \<Rightarrow> (bytes \<times> (u8 \<times> bytes) option) rust" where
  "rx_process find_magic_start buf = do {
     let sync = find_magic_start buf;
     if sync > 0 then do {
       buf \<leftarrow> slice_from buf sync;
       Some (buf, None)
     } else if oversized_plen buf MAX_VALID_REQUEST_PAYLOAD_LEN then Some (drop 1 buf, None)
     else do {
       r \<leftarrow> decode_frame buf;
       (case r of
          Inr (frame_type, payload) \<Rightarrow> do {
            buf \<leftarrow> slice_from buf (FRAME_OVERHEAD + length payload);
            Some (buf, Some (frame_type, take 256 payload))
          }
        | Inl PE_TruncatedFrame \<Rightarrow> Some (take (fst (flush_if_rx_buffer_full (length buf) RX_BUF_LEN)) buf, None)
        | Inl _ \<Rightarrow> Some (drop 1 buf, None))
     }
   }"

text \<open>The read hands over at most \<open>k\<close> of the waiting bytes and at most what fits; with no bytes read the
  iteration ends there.  A full buffer is not read into.\<close>

definition rx_iteration :: "(bytes \<Rightarrow> nat) \<Rightarrow> rx_state \<Rightarrow> nat \<Rightarrow> (rx_state \<times> (u8 \<times> bytes) option) rust" where
  "rx_iteration find_magic_start s k =
     (if length (rx_buf s) < RX_BUF_LEN then do {
        let n = min k (min (RX_BUF_LEN - length (rx_buf s)) (length (rx_ring s)));
        if n = 0 then Some (s, None)
        else do {
          (buf, out) \<leftarrow> rx_process find_magic_start (rx_buf s @ take n (rx_ring s));
          Some (\<lparr>rx_buf = buf, rx_ring = drop n (rx_ring s)\<rparr>, out)
        }
      } else do {
        (buf, out) \<leftarrow> rx_process find_magic_start (rx_buf s);
        Some (s\<lparr>rx_buf := buf\<rparr>, out)
      })"

definition admin_rx_iteration :: "rx_state \<Rightarrow> nat \<Rightarrow> (rx_state \<times> (u8 \<times> bytes) option) rust" where
  "admin_rx_iteration = rx_iteration admin_find_magic_start"

definition prov_rx_iteration :: "rx_state \<Rightarrow> nat \<Rightarrow> (rx_state \<times> (u8 \<times> bytes) option) rust" where
  "prov_rx_iteration = rx_iteration prov_find_magic_start"

text \<open>What happens to a server: bytes arrive from the host, or the loop runs once.\<close>

datatype rx_event = Arrive bytes | Poll nat

fun rx_run :: "(bytes \<Rightarrow> nat) \<Rightarrow> rx_state \<Rightarrow> rx_event list \<Rightarrow> (rx_state \<times> (u8 \<times> bytes) list) rust" where
  "rx_run scan s [] = Some (s, [])"
| "rx_run scan s (Arrive bs # evs) = rx_run scan (s\<lparr>rx_ring := rx_ring s @ bs\<rparr>) evs"
| "rx_run scan s (Poll k # evs) = do {
     (s, out) \<leftarrow> rx_iteration scan s k;
     (s, outs) \<leftarrow> rx_run scan s evs;
     Some (s, (case out of None \<Rightarrow> outs | Some f \<Rightarrow> f # outs))
   }"

definition rx_start :: rx_state where
  "rx_start = \<lparr>rx_buf = [], rx_ring = []\<rparr>"

definition arrivals :: "rx_event list \<Rightarrow> bytes" where
  "arrivals evs = concat (map (\<lambda>e. case e of Arrive bs \<Rightarrow> bs | Poll _ \<Rightarrow> []) evs)"

lemma arrivals_simps [simp]:
  "arrivals [] = []" "arrivals (Arrive bs # evs) = bs @ arrivals evs" "arrivals (Poll k # evs) = arrivals evs"
  by (simp_all add: arrivals_def)

section \<open>Streams of frames\<close>

definition frames :: "(u8 \<times> bytes) list \<Rightarrow> bytes" where
  "frames fs = concat (map (\<lambda>(t, p). prov_frame t p) fs)"

lemma frames_simps [simp]: "frames [] = []" "frames ((t, p) # fs) = prov_frame t p @ frames fs"
  by (simp_all add: frames_def)

definition requests_ok :: "(u8 \<times> bytes) list \<Rightarrow> bool" where
  "requests_ok fs \<longleftrightarrow> (\<forall>f \<in> set fs. length (snd f) \<le> 82)"

lemma decode_short: "length buf < 7 \<Longrightarrow> decode_frame buf = Some (Inl PE_TruncatedFrame)"
  by (simp add: decode_frame_def FRAME_OVERHEAD_def)

lemma prefix_nth: "length buf \<le> length f \<Longrightarrow> buf @ w = f @ rest \<Longrightarrow> i < length buf \<Longrightarrow> buf ! i = f ! i"
  by (metis nth_append order_less_le_trans)

lemma decode_partial:
  assumes "buf @ w = prov_frame t p @ rest" "length buf < 7 + length p" "length p < 65536"
  shows "decode_frame buf = Some (Inl PE_TruncatedFrame)"
proof (cases "length buf < 7")
  case False
  then have "buf ! i = prov_frame t p ! i" if "i < 5" for i
    using that assms(1,2) by (intro prefix_nth) simp_all
  then have "buf ! 0 = 0x4D" "buf ! 1 = 0x43" "unat (buf ! 3) + 256 * unat (buf ! 4) = length p"
    using prov_frame_nth [of t p] frame_lengths [OF assms(3)] by simp_all
  then show ?thesis
    using assms(2) by (simp add: decode_frame_def FRAME_OVERHEAD_def PROV_MAGIC_def)
qed (simp add: decode_short)

lemma not_oversized:
  assumes "buf @ w = prov_frame t p @ rest" "length p \<le> 82"
  shows "\<not> oversized_plen buf 82"
proof (cases "length buf < 5")
  case False
  then have "buf ! i = (buf @ w) ! i" if "i < 5" for i
    using that by (simp add: nth_append)
  then have "buf ! i = prov_frame t p ! i" if "i < 5" for i
    using that assms(1) by (simp add: nth_append)
  then have "unat (buf ! 3) + 256 * unat (buf ! 4) = length p"
    using prov_frame_nth [of t p] frame_lengths [of "length p"] assms(2) by simp
  then show ?thesis
    using assms(2) by (simp add: oversized_plen_def)
qed (simp add: oversized_plen_def)

lemma MAX_VALID: "MAX_VALID_REQUEST_PAYLOAD_LEN = 82"
  by (simp add: MAX_VALID_REQUEST_PAYLOAD_LEN_def prov_consts)

text \<open>The frames occur in the stream in this order and do not overlap.\<close>

inductive occur_in :: "(u8 \<times> bytes) list \<Rightarrow> bytes \<Rightarrow> bool" where
  occur_Nil: "occur_in [] stream"
| occur_Cons: "occur_in fs stream \<Longrightarrow> occur_in ((t, p) # fs) (skipped @ prov_frame t p @ stream)"

lemma occur_in_skip: "occur_in fs stream \<Longrightarrow> occur_in fs (skipped @ stream)"
proof (induction fs stream arbitrary: skipped rule: occur_in.induct)
  case (occur_Cons fs stream t p skipped')
  then show ?case
    using occur_in.occur_Cons [of fs stream t p "skipped @ skipped'"] by simp
qed (simp add: occur_Nil)

definition out_bytes :: "(u8 \<times> bytes) option \<Rightarrow> bytes" where
  "out_bytes out = (case out of None \<Rightarrow> [] | Some (t, p) \<Rightarrow> prov_frame t p)"

lemma occur_in_out:
  "occur_in fs stream \<Longrightarrow> occur_in (case out of None \<Rightarrow> fs | Some f \<Rightarrow> f # fs) (skipped @ out_bytes out @ stream)"
  by (cases out) (auto simp: out_bytes_def intro: occur_in_skip occur_in.occur_Cons)

section \<open>What the loops need of the scan\<close>

locale magic_scanner =
  fixes scan :: "bytes \<Rightarrow> nat"
  assumes find_le: "scan buf \<le> length buf"
    and find_synced: "scan [] = 0" "scan [0x4D] = 0" "scan (0x4D # 0x43 # buf) = 0"
    and find_skips: "0x4D \<notin> set g \<Longrightarrow> 2 \<le> length (g @ buf) \<Longrightarrow> buf = [] \<or> buf = [0x4D] \<or> take 2 buf = [0x4D, 0x43] \<Longrightarrow>
      scan (g @ buf) = length g"
    and find_short: "scan [b] = 0 \<or> (b \<noteq> 0x4D \<and> scan [b] = 1)"
begin

lemma process_waiting:
  assumes "scan buf = 0" "\<not> oversized_plen buf 82" "decode_frame buf = Some (Inl PE_TruncatedFrame)" "length buf < 512"
  shows "rx_process scan buf = Some (buf, None)"
  using assms by (simp add: rx_process_def MAX_VALID flush_if_rx_buffer_full_def RX_BUF_LEN_def)

lemma process_sync:
  assumes "0 < scan buf"
  shows "rx_process scan buf = Some (drop (scan buf) buf, None)"
  using assms find_le [of buf] by (simp add: rx_process_def slice_from_def Let_def)

lemma scan_frame_start:
  assumes "buf @ w = prov_frame t p @ rest"
  shows "scan buf = 0"
proof (cases buf)
  case (Cons b buf')
  then have "b = 0x4D"
    using assms by (simp add: prov_frame_def frame_head_def)
  then show ?thesis
    using assms Cons find_synced by (cases buf') (simp_all add: prov_frame_def frame_head_def)
qed (simp add: find_synced)

text \<open>At a frame boundary, the loop waits for the rest of a frame or hands the frame over.\<close>

lemma process_frame_part:
  assumes "buf @ w = prov_frame t p @ rest" "length buf < 7 + length p" "length p \<le> 82"
  shows "rx_process scan buf = Some (buf, None)"
  using assms not_oversized [OF assms(1,3)] scan_frame_start [OF assms(1)] decode_partial [OF assms(1,2)]
  by (intro process_waiting) simp_all

lemma process_frame_whole:
  assumes "length p \<le> 82"
  shows "rx_process scan (prov_frame t p @ buf) = Some (buf, Some (t, p))"
  using assms not_oversized [of "prov_frame t p @ buf" "[]"] scan_frame_start [of "prov_frame t p @ buf" "[]"]
    decode_prov_frame [of p t buf]
  by (simp add: rx_process_def MAX_VALID slice_from_def FRAME_OVERHEAD_def)

lemma process_frames:
  assumes "buf @ rest = frames fs" "requests_ok fs"
  shows "(rx_process scan buf = Some (buf, None)
      \<and> (\<forall>t p fs'. fs = (t, p) # fs' \<longrightarrow> length buf < length (prov_frame t p)))
    \<or> (\<exists>t p fs' buf'. fs = (t, p) # fs' \<and> rx_process scan buf = Some (buf', Some (t, p)) \<and> buf' @ rest = frames fs')"
proof (cases fs)
  case Nil
  then have "buf = []"
    using assms(1) by simp
  then show ?thesis
    using Nil process_waiting [of "[]"] by (simp add: find_synced oversized_plen_def decode_short)
next
  case (Cons f fs')
  obtain t p where f: "f = (t, p)"
    by fastforce
  have p: "length p \<le> 82" and eq: "buf @ rest = prov_frame t p @ frames fs'"
    using assms Cons f by (simp_all add: requests_ok_def)
  show ?thesis
  proof (cases "length buf < 7 + length p")
    case True
    then show ?thesis
      using process_frame_part [OF eq _ p] Cons f by simp
  next
    case False
    then obtain buf' where "buf = prov_frame t p @ buf'"
      using eq by (metis append_eq_append_conv_if length_prov_frame not_less append_take_drop_id)
    then show ?thesis
      using process_frame_whole [OF p] eq Cons f by simp
  qed
qed

lemma process_stream:
  assumes "buf @ rest = g @ frames fs" "0x4D \<notin> set g" "requests_ok fs"
  shows "\<exists>g' fs' buf' out. rx_process scan buf = Some (buf', out) \<and> buf' @ rest = g' @ frames fs'
    \<and> 0x4D \<notin> set g' \<and> fs = (case out of None \<Rightarrow> fs' | Some f \<Rightarrow> f # fs')"
proof (cases "g = []")
  case True
  then show ?thesis
    using process_frames [of buf rest fs] assms by (fastforce intro: exI [of _ "[]"])
next
  case False
  show ?thesis
  proof (cases "length buf \<le> length g")
    case True
    then have "buf = take (length buf) g" and rest: "rest = drop (length buf) g @ frames fs"
      using assms(1) by (simp_all add: append_eq_append_conv_if)
    then have buf: "g = buf @ drop (length buf) g" "rest = drop (length buf) g @ frames fs"
      by (metis append_take_drop_id)+
    have no: "0x4D \<notin> set buf" "0x4D \<notin> set (drop (length buf) g)"
      using assms(2) buf(1) by (metis Un_iff set_append)+
    consider "buf = []" | b where "buf = [b]" | "2 \<le> length buf"
      by (cases buf; cases "tl buf") auto
    then have "rx_process scan buf = Some (buf, None) \<or> rx_process scan buf = Some ([], None)"
    proof cases
      case 1
      then show ?thesis
        using process_waiting [of "[]"] by (simp add: find_synced oversized_plen_def decode_short)
    next
      case 2
      then show ?thesis
        using find_short [of b] process_waiting [of "[b]"] process_sync [of "[b]"]
        by (auto simp: oversized_plen_def decode_short)
    next
      case 3
      then have "scan buf = length buf"
        using find_skips [of buf "[]"] no(1) by simp
      moreover from this have "0 < scan buf"
        using 3 by (cases buf) auto
      ultimately show ?thesis
        using process_sync [of buf] by simp
    qed
    then show ?thesis
      using assms no(2) buf by (auto intro!: exI [of _ fs])
  next
    case longer: False
    then obtain b' where b': "buf = g @ b'" "b' \<noteq> []" "b' @ rest = frames fs"
      using assms(1) by (metis append_Nil2 append_eq_append_conv_if le_refl not_less order_less_imp_le append_take_drop_id
          append.assoc same_append_eq)
    then obtain t p fs' where "fs = (t, p) # fs'"
      by (cases fs) auto
    then have "b' = [0x4D] \<or> take 2 b' = [0x4D, 0x43]"
      using b'(2,3) by (cases b'; cases "tl b'") (auto simp: prov_frame_def frame_head_def)
    moreover have "2 \<le> length (g @ b')"
      using False b'(2) by (cases g; cases b') auto
    ultimately have "scan buf = length g"
      using find_skips [of g b'] assms(2) b'(1) by auto
    then have "rx_process scan buf = Some (b', None)"
      using False b'(1) process_sync [of buf] by simp
    then show ?thesis
      using b'(3) by (auto intro!: exI [of _ "[]"] exI [of _ fs])
  qed
qed


lemma iteration_stream:
  assumes "rx_buf s @ rx_ring s @ fut = g @ frames fs" "0x4D \<notin> set g" "requests_ok fs"
  shows "\<exists>g' fs' s' out. rx_iteration scan s k = Some (s', out)
    \<and> rx_buf s' @ rx_ring s' @ fut = g' @ frames fs' \<and> 0x4D \<notin> set g'
    \<and> fs = (case out of None \<Rightarrow> fs' | Some f \<Rightarrow> f # fs')"
proof (cases "length (rx_buf s) < RX_BUF_LEN")
  case True
  obtain n where n: "n = min k (min (RX_BUF_LEN - length (rx_buf s)) (length (rx_ring s)))"
    by simp
  have eq: "(rx_buf s @ take n (rx_ring s)) @ drop n (rx_ring s) @ fut = g @ frames fs"
    using assms(1) by (metis append.assoc append_take_drop_id)
  show ?thesis
  proof (cases "n = 0")
    case True
    then show ?thesis
      using assms \<open>length (rx_buf s) < RX_BUF_LEN\<close> unfolding rx_iteration_def Let_def n [symmetric] by auto
  next
    case False
    obtain g' fs' buf' out where "rx_process scan (rx_buf s @ take n (rx_ring s)) = Some (buf', out)"
      "buf' @ drop n (rx_ring s) @ fut = g' @ frames fs'" "0x4D \<notin> set g'"
      "fs = (case out of None \<Rightarrow> fs' | Some f \<Rightarrow> f # fs')"
      using process_stream [OF eq assms(2,3)] by blast
    then show ?thesis
      using False \<open>length (rx_buf s) < RX_BUF_LEN\<close> unfolding rx_iteration_def Let_def n [symmetric]
      by (intro exI [of _ g'] exI [of _ fs'] exI [of _ "\<lparr>rx_buf = buf', rx_ring = drop n (rx_ring s)\<rparr>"] exI [of _ out])
        simp
  qed
next
  case False
  obtain g' fs' buf' out where "rx_process scan (rx_buf s) = Some (buf', out)"
    "buf' @ rx_ring s @ fut = g' @ frames fs'" "0x4D \<notin> set g'" "fs = (case out of None \<Rightarrow> fs' | Some f \<Rightarrow> f # fs')"
    using process_stream [OF assms] by blast
  then show ?thesis
    using False unfolding rx_iteration_def
    by (intro exI [of _ g'] exI [of _ fs'] exI [of _ "s\<lparr>rx_buf := buf'\<rparr>"] exI [of _ out]) simp
qed

lemma requests_ok_tail: "requests_ok fs \<Longrightarrow> fs = (case out of None \<Rightarrow> fs' | Some f \<Rightarrow> f # fs') \<Longrightarrow> requests_ok fs'"
  by (auto simp: requests_ok_def split: option.splits)

lemma run_stream:
  assumes "rx_buf s @ rx_ring s @ arrivals evs = g @ frames fs" "0x4D \<notin> set g" "requests_ok fs"
  shows "\<exists>g' fs' s' outs. rx_run scan s evs = Some (s', outs) \<and> rx_buf s' @ rx_ring s' = g' @ frames fs'
    \<and> 0x4D \<notin> set g' \<and> fs = outs @ fs'"
  using assms
proof (induction evs arbitrary: s g fs)
  case (Cons e evs)
  show ?case
  proof (cases e)
    case (Arrive bs)
    then show ?thesis
      using Cons.IH [of "s\<lparr>rx_ring := rx_ring s @ bs\<rparr>" g fs] Cons.prems by simp
  next
    case (Poll k)
    obtain g1 fs1 s1 out where s1: "rx_iteration scan s k = Some (s1, out)"
      "rx_buf s1 @ rx_ring s1 @ arrivals evs = g1 @ frames fs1" "0x4D \<notin> set g1"
      "fs = (case out of None \<Rightarrow> fs1 | Some f \<Rightarrow> f # fs1)"
      using iteration_stream [of s "arrivals evs" g fs k] Cons.prems Poll by auto
    obtain g' fs' s' outs where "rx_run scan s1 evs = Some (s', outs)" "rx_buf s' @ rx_ring s' = g' @ frames fs'"
      "0x4D \<notin> set g'" "fs1 = outs @ fs'"
      using Cons.IH [OF s1(2,3) requests_ok_tail [OF Cons.prems(3) s1(4)]] by blast
    then show ?thesis
      using s1(1,4) Poll by (auto split: option.splits)
  qed
qed auto

text \<open>Whatever the buffer holds, an iteration drops bytes from its front and hands over at most one frame of it.\<close>

lemma process_sound:
  "\<exists>buf' out skipped. rx_process scan buf = Some (buf', out) \<and> buf = skipped @ out_bytes out @ buf'
    \<and> (\<forall>t p. out = Some (t, p) \<longrightarrow> length p \<le> 82)"
proof (cases "0 < scan buf \<or> oversized_plen buf 82")
  case True
  then have "\<exists>n. rx_process scan buf = Some (drop n buf, None)"
    using process_sync [of buf] by (cases "0 < scan buf") (auto simp: rx_process_def MAX_VALID)
  then obtain n where "rx_process scan buf = Some (drop n buf, None)"
    by blast
  then show ?thesis
    by (intro exI [of _ "drop n buf"] exI [of _ None] exI [of _ "take n buf"]) (simp add: out_bytes_def)
next
  case False
  obtain r where r: "decode_frame buf = Some r"
    "\<And>t p. r = Inr (t, p) \<Longrightarrow> length p < 65536 \<and> (\<exists>rest. buf = prov_frame t p @ rest)"
    using decode_frame_sound [of buf] by blast
  show ?thesis
  proof (cases r)
    case (Inl e)
    then have "rx_process scan buf = Some (drop (if e \<noteq> PE_TruncatedFrame then 1
        else if RX_BUF_LEN \<le> length buf then length buf else 0) buf, None)"
      using False r(1) by (cases e) (simp_all add: rx_process_def MAX_VALID flush_if_rx_buffer_full_def)
    then obtain n where "rx_process scan buf = Some (drop n buf, None)"
      by blast
    then show ?thesis
      by (intro exI [of _ "drop n buf"] exI [of _ None] exI [of _ "take n buf"]) (simp add: out_bytes_def)
  next
    case (Inr f)
    obtain t p where f: "f = (t, p)"
      by fastforce
    obtain rest where rest: "buf = prov_frame t p @ rest" "length p < 65536"
      using r(2) Inr f by blast
    have "length p \<le> 82"
      using False rest(1) prov_frame_nth [of t p] frame_lengths [OF rest(2)]
      by (simp add: oversized_plen_def nth_append split: if_splits)
    then have "rx_process scan buf = Some (rest, Some (t, p))"
      using process_frame_whole rest(1) by simp
    then show ?thesis
      using rest(1) \<open>length p \<le> 82\<close> by (auto simp: out_bytes_def)
  qed
qed

lemma iteration_sound:
  assumes "length (rx_buf s) \<le> RX_BUF_LEN"
  shows "\<exists>s' out skipped. rx_iteration scan s k = Some (s', out) \<and> length (rx_buf s') \<le> RX_BUF_LEN
    \<and> rx_buf s @ rx_ring s = skipped @ out_bytes out @ rx_buf s' @ rx_ring s'
    \<and> (\<forall>t p. out = Some (t, p) \<longrightarrow> length p \<le> 82)"
proof (cases "length (rx_buf s) < RX_BUF_LEN")
  case True
  obtain n where n: "n = min k (min (RX_BUF_LEN - length (rx_buf s)) (length (rx_ring s)))"
    by simp
  let ?b = "rx_buf s @ take n (rx_ring s)"
  obtain buf' out skipped where p: "rx_process scan ?b = Some (buf', out)" "?b = skipped @ out_bytes out @ buf'"
    "\<forall>t p. out = Some (t, p) \<longrightarrow> length p \<le> 82"
    using process_sound [of ?b] by blast
  have "length ?b \<le> RX_BUF_LEN"
    using True n by simp
  then have "length buf' \<le> RX_BUF_LEN"
    unfolding p(2) by simp
  moreover have "rx_buf s @ rx_ring s = ?b @ drop n (rx_ring s)"
    by simp
  ultimately show ?thesis
    using True p assms unfolding rx_iteration_def Let_def n [symmetric]
    by (cases "n = 0") (auto simp: out_bytes_def intro!: exI [of _ skipped])
next
  case False
  obtain buf' out skipped where p: "rx_process scan (rx_buf s) = Some (buf', out)"
    "rx_buf s = skipped @ out_bytes out @ buf'" "\<forall>t p. out = Some (t, p) \<longrightarrow> length p \<le> 82"
    using process_sound [of "rx_buf s"] by blast
  have "length buf' \<le> length (rx_buf s)"
    unfolding p(2) by simp
  then show ?thesis
    using False p assms by (auto simp: rx_iteration_def intro!: exI [of _ skipped])
qed

lemma run_sound:
  assumes "length (rx_buf s) \<le> RX_BUF_LEN"
  shows "\<exists>s' outs. rx_run scan s evs = Some (s', outs) \<and> length (rx_buf s') \<le> RX_BUF_LEN
    \<and> occur_in outs (rx_buf s @ rx_ring s @ arrivals evs) \<and> requests_ok outs"
  using assms
proof (induction evs arbitrary: s)
  case (Cons e evs)
  show ?case
  proof (cases e)
    case (Arrive bs)
    then show ?thesis
      using Cons.IH [of "s\<lparr>rx_ring := rx_ring s @ bs\<rparr>"] Cons.prems by simp
  next
    case (Poll k)
    obtain s1 out skipped where s1: "rx_iteration scan s k = Some (s1, out)" "length (rx_buf s1) \<le> RX_BUF_LEN"
      "rx_buf s @ rx_ring s = skipped @ out_bytes out @ rx_buf s1 @ rx_ring s1"
      "\<forall>t p. out = Some (t, p) \<longrightarrow> length p \<le> 82"
      using iteration_sound [OF Cons.prems] by blast
    obtain s' outs where r: "rx_run scan s1 evs = Some (s', outs)" "length (rx_buf s') \<le> RX_BUF_LEN"
      "occur_in outs (rx_buf s1 @ rx_ring s1 @ arrivals evs)" "requests_ok outs"
      using Cons.IH [OF s1(2)] by blast
    have "rx_buf s @ rx_ring s @ arrivals evs = skipped @ out_bytes out @ rx_buf s1 @ rx_ring s1 @ arrivals evs"
      using s1(3) by (metis append.assoc)
    then have "occur_in (case out of None \<Rightarrow> outs | Some f \<Rightarrow> f # outs) (rx_buf s @ rx_ring s @ arrivals evs)"
      using occur_in_out [OF r(3), of out skipped] by (simp only:)
    then show ?thesis
      using r(1,2,4) s1(1,4) Poll by (auto simp: requests_ok_def split: option.splits)
  qed
qed (auto simp: occur_Nil requests_ok_def)

lemma polls_idle:
  assumes "rx_ring s = []" "length (rx_buf s) < RX_BUF_LEN"
  shows "rx_run scan s (map Poll ks) = Some (s, [])"
  using assms by (induction ks) (simp_all add: rx_iteration_def)

lemma read_all:
  assumes "rx_buf s = []" "0 < length (rx_ring s)" "length (rx_ring s) \<le> RX_BUF_LEN" "length (rx_ring s) \<le> k"
  shows "rx_iteration scan s k =
    map_option (\<lambda>(buf, out). (\<lparr>rx_buf = buf, rx_ring = []\<rparr>, out)) (rx_process scan (rx_ring s))"
proof -
  have n: "min k (min (RX_BUF_LEN - length (rx_buf s)) (length (rx_ring s))) = length (rx_ring s)"
    using assms by simp
  have "0 < RX_BUF_LEN"
    by (simp add: RX_BUF_LEN_def)
  then show ?thesis
    using assms(1,2) unfolding rx_iteration_def Let_def n
    by (cases "rx_process scan (rx_ring s)") auto
qed

text \<open>One request in flight: it is handed over by the iteration that reads its last byte.\<close>

lemma run_single:
  assumes "length p \<le> 82" "rx_buf s @ rx_ring s @ arrivals evs = prov_frame t p"
    and "length (rx_buf s) < length (prov_frame t p)"
  shows "\<exists>s' outs. rx_run scan s evs = Some (s', outs)
    \<and> (rx_ring s' = [] \<longrightarrow> outs = [(t, p)] \<and> rx_buf s' = [])"
  using assms(2,3)
proof (induction evs arbitrary: s)
  case Nil
  then show ?case
    by (intro exI [of _ s] exI [of _ "[]"]) auto
next
  case (Cons e evs)
  show ?case
  proof (cases e)
    case (Arrive bs)
    then show ?thesis
      using Cons.IH [of "s\<lparr>rx_ring := rx_ring s @ bs\<rparr>"] Cons.prems by simp
  next
    case (Poll k)
    obtain n where n: "n = min k (min (RX_BUF_LEN - length (rx_buf s)) (length (rx_ring s)))"
      by simp
    let ?b = "rx_buf s @ take n (rx_ring s)"
    have buf: "length (rx_buf s) < RX_BUF_LEN"
      using Cons.prems(2) assms(1) by (simp add: RX_BUF_LEN_def)
    have eq: "?b @ drop n (rx_ring s) @ arrivals evs = prov_frame t p @ []"
      using Cons.prems(1) Poll by (metis append.assoc append_Nil2 append_take_drop_id arrivals_simps(3))
    show ?thesis
    proof (cases "n = 0")
      case True
      then have "rx_iteration scan s k = Some (s, None)"
        using buf unfolding rx_iteration_def Let_def n [symmetric] by simp
      then show ?thesis
        using Cons.IH [of s] Cons.prems Poll by auto
    next
      case False
      have it: "rx_iteration scan s k =
          map_option (\<lambda>(buf, out). (\<lparr>rx_buf = buf, rx_ring = drop n (rx_ring s)\<rparr>, out)) (rx_process scan ?b)"
        using buf False unfolding rx_iteration_def Let_def n [symmetric] by (cases "rx_process scan ?b") auto
      show ?thesis
      proof (cases "length ?b < 7 + length p")
        case True
        then show ?thesis
          using it process_frame_part [OF eq True assms(1)] Poll eq
            Cons.IH [of "\<lparr>rx_buf = ?b, rx_ring = drop n (rx_ring s)\<rparr>"] by auto
      next
        case False
        have "length ?b + length (drop n (rx_ring s) @ arrivals evs) = 7 + length p"
          using arg_cong [OF eq, of length] by (simp only: length_append length_prov_frame list.size add_0_right)
        then have "length (drop n (rx_ring s) @ arrivals evs) = 0"
          using False by linarith
        then have rest: "drop n (rx_ring s) = []" "arrivals evs = []"
          by simp_all
        then have "?b = prov_frame t p"
          using eq by simp
        then have "rx_iteration scan s k = Some (\<lparr>rx_buf = [], rx_ring = []\<rparr>, Some (t, p))"
          using it rest(1) process_frame_whole [OF assms(1), of t "[]"] by simp
        moreover have "rx_run scan \<lparr>rx_buf = [], rx_ring = []\<rparr> evs = Some (\<lparr>rx_buf = [], rx_ring = []\<rparr>, [])"
          using rest(2)
        proof (induction evs)
          case (Cons e evs)
          then show ?case
            by (cases e) (simp_all add: rx_iteration_def RX_BUF_LEN_def)
        qed simp
        ultimately show ?thesis
          using Poll by simp
      qed
    qed
  qed
qed

lemma burst_stalls:
  assumes "length p1 \<le> 82" "length p2 \<le> 82" "0x4D \<notin> set noise" "noise \<noteq> []" "length noise \<le> 300" "512 \<le> k"
  shows "rx_run scan rx_start (Arrive (prov_frame t1 p1 @ prov_frame t2 p2) # Poll k # map Poll ks) =
      Some (\<lparr>rx_buf = prov_frame t2 p2, rx_ring = []\<rparr>, [(t1, p1)])"
    and "rx_run scan rx_start (Arrive (noise @ prov_frame t2 p2) # Poll k # map Poll ks) =
      Some (\<lparr>rx_buf = prov_frame t2 p2, rx_ring = []\<rparr>, [])"
proof -
  let ?fin = "\<lparr>rx_buf = prov_frame t2 p2, rx_ring = []\<rparr>"
  have idle: "rx_run scan ?fin (map Poll ks) = Some (?fin, [])"
    using assms(2) by (intro polls_idle) (simp_all add: RX_BUF_LEN_def)
  have "rx_iteration scan \<lparr>rx_buf = [], rx_ring = prov_frame t1 p1 @ prov_frame t2 p2\<rparr> k = Some (?fin, Some (t1, p1))"
    using assms(1,2,6) process_frame_whole [OF assms(1), of t1 "prov_frame t2 p2"]
    by (subst read_all) (simp_all add: RX_BUF_LEN_def)
  then show "rx_run scan rx_start (Arrive (prov_frame t1 p1 @ prov_frame t2 p2) # Poll k # map Poll ks) = Some (?fin, [(t1, p1)])"
    using idle by (simp add: rx_start_def)
  have "take 2 (prov_frame t2 p2) = [0x4D, 0x43]"
    by (simp add: prov_frame_def frame_head_def)
  then have "scan (noise @ prov_frame t2 p2) = length noise"
    using assms(3) by (intro find_skips) simp_all
  then have "rx_process scan (noise @ prov_frame t2 p2) = Some (prov_frame t2 p2, None)"
    using assms(4) process_sync [of "noise @ prov_frame t2 p2"] by simp
  then have "rx_iteration scan \<lparr>rx_buf = [], rx_ring = noise @ prov_frame t2 p2\<rparr> k = Some (?fin, None)"
    using assms(2,4-6) by (subst read_all) (simp_all add: RX_BUF_LEN_def)
  then show "rx_run scan rx_start (Arrive (noise @ prov_frame t2 p2) # Poll k # map Poll ks) = Some (?fin, [])"
    using idle by (simp add: rx_start_def)
qed

text \<open>A full buffer never stays full: the iteration discards or consumes something.\<close>

lemma full_progress:
  assumes "length (rx_buf s) = RX_BUF_LEN"
  shows "\<exists>s' out. rx_iteration scan s k = Some (s', out) \<and> length (rx_buf s') < length (rx_buf s) \<and> rx_ring s' = rx_ring s"
proof -
  let ?b = "rx_buf s"
  have len: "length ?b = 512"
    using assms by (simp add: RX_BUF_LEN_def)
  have "\<exists>b' out. rx_process scan ?b = Some (b', out) \<and> length b' < length ?b"
  proof (cases "0 < scan ?b \<or> oversized_plen ?b 82")
    case True
    then show ?thesis
      using len process_sync [of ?b] by (cases "0 < scan ?b") (auto simp: rx_process_def MAX_VALID)
  next
    case False
    obtain r where r: "decode_frame ?b = Some r" "\<And>t p. r = Inr (t, p) \<Longrightarrow> \<exists>rest. ?b = prov_frame t p @ rest"
      using decode_frame_sound by blast
    then have "\<And>t p. r = Inr (t, p) \<Longrightarrow> 7 + length p \<le> 512"
      using len by (metis length_append length_prov_frame le_add1)
    show ?thesis
    proof (cases r)
      case (Inl e)
      then show ?thesis
        using False r(1) len
        by (cases e) (simp_all add: rx_process_def MAX_VALID flush_if_rx_buffer_full_def RX_BUF_LEN_def)
    next
      case (Inr f)
      then show ?thesis
        using False r(1) len \<open>\<And>t p. r = Inr (t, p) \<Longrightarrow> 7 + length p \<le> 512\<close> by (cases f) (simp add: rx_process_def MAX_VALID FRAME_OVERHEAD_def slice_from_def)
    qed
  qed
  then show ?thesis
    using assms by (auto simp: rx_iteration_def)
qed

end

lemma magic_scan_le: "magic_scan i buf \<le> i + length buf"
  by (induction i buf rule: magic_scan.induct) auto

lemma magic_scan_synced: "magic_scan i (0x4D # 0x43 # buf) = i" "magic_scan i [0x4D] = i"
  by (simp_all add: PROV_MAGIC_def)

lemma magic_scan_skips:
  "0x4D \<notin> set g \<Longrightarrow> buf = [] \<or> buf = [0x4D] \<or> take 2 buf = [0x4D, 0x43] \<Longrightarrow> magic_scan i (g @ buf) = i + length g"
proof (induction g arbitrary: i)
  case Nil
  then show ?case
    by (cases buf; cases "tl buf") (auto simp: PROV_MAGIC_def)
next
  case (Cons b g)
  then show ?case
    by (cases "g @ buf") (auto simp: PROV_MAGIC_def)
qed

interpretation prov_scan: magic_scanner prov_find_magic_start
proof unfold_locales
  show "prov_find_magic_start buf \<le> length buf" for buf
    using magic_scan_le [of 0 buf] by (simp add: prov_find_magic_start_def)
  show "prov_find_magic_start (g @ buf) = length g"
    if "0x4D \<notin> set g" "buf = [] \<or> buf = [0x4D] \<or> take 2 buf = [0x4D, 0x43]" for g buf
    using magic_scan_skips [OF that, of 0] by (simp add: prov_find_magic_start_def)
qed (simp_all add: prov_find_magic_start_def magic_scan_synced PROV_MAGIC_def)

interpretation admin_scan: magic_scanner admin_find_magic_start
proof unfold_locales
  show "admin_find_magic_start buf \<le> length buf" for buf
    using magic_scan_le [of 1 "drop 1 buf"] by (auto simp: admin_find_magic_start_def)
  show "admin_find_magic_start (g @ buf) = length g"
    if "0x4D \<notin> set g" "2 \<le> length (g @ buf)" "buf = [] \<or> buf = [0x4D] \<or> take 2 buf = [0x4D, 0x43]" for g buf
  proof (cases g)
    case Nil
    then show ?thesis
      using that(2,3) by (cases buf; cases "tl buf") (auto simp: admin_find_magic_start_def PROV_MAGIC_def)
  next
    case (Cons b g')
    then show ?thesis
      using that magic_scan_skips [of g' buf 1] by (auto simp: admin_find_magic_start_def PROV_MAGIC_def)
  qed
qed (simp_all add: admin_find_magic_start_def PROV_MAGIC_def)

lemma both_scanners:
  "scan = admin_find_magic_start \<or> scan = prov_find_magic_start \<Longrightarrow> magic_scanner scan"
  using admin_scan.magic_scanner_axioms prov_scan.magic_scanner_axioms by auto

section \<open>Properties\<close>

text \<open>C20: the receive loop of either server never panics, never holds more than its buffer and invents nothing: whatever
  the host sends and however the reads cut it, the frames handed to the handler are well-formed frames of the byte
  stream, in order and without overlap, each with a payload of at most 82 bytes.\<close>

theorem rx_loop_sound:
  assumes "scan = admin_find_magic_start \<or> scan = prov_find_magic_start"
  shows "\<exists>s outs. rx_run scan rx_start evs = Some (s, outs) \<and> length (rx_buf s) \<le> 512
    \<and> occur_in outs (arrivals evs) \<and> (\<forall>f \<in> set outs. length (snd f) \<le> 82)"
  using magic_scanner.run_sound [OF both_scanners [OF assms], of rx_start evs]
  by (auto simp: rx_start_def RX_BUF_LEN_def requests_ok_def)

theorem rx_loop_sound_witness:
  "\<exists>s outs. rx_run admin_find_magic_start rx_start [Arrive [0x4D, 0x43, 1], Poll 3] = Some (s, outs) \<and> length (rx_buf s) \<le> 512"
  using rx_loop_sound [of admin_find_magic_start "[Arrive [0x4D, 0x43, 1], Poll 3]"] by auto

text \<open>C19: nothing is lost or reordered: when the host sends noise without the first magic byte followed by requests of
  at most 82 payload bytes, then after any run of the loop the requests handed over and the requests still in the
  buffers are exactly the requests sent, in order, whatever the reads were.\<close>

theorem rx_loop_delivers_in_order:
  assumes "scan = admin_find_magic_start \<or> scan = prov_find_magic_start"
    and "arrivals evs = noise @ frames requests" "0x4D \<notin> set noise" "\<forall>f \<in> set requests. length (snd f) \<le> 82"
  shows "\<exists>s outs noise' waiting. rx_run scan rx_start evs = Some (s, outs) \<and> requests = outs @ waiting
    \<and> rx_buf s @ rx_ring s = noise' @ frames waiting \<and> 0x4D \<notin> set noise'"
  using magic_scanner.run_stream [OF both_scanners [OF assms(1)], of rx_start evs noise requests] assms(2-4)
  by (auto simp: rx_start_def requests_ok_def)

theorem rx_loop_delivers_in_order_witness:
  "\<exists>s outs noise' waiting. rx_run prov_find_magic_start rx_start [Arrive ([1] @ frames [(1, []), (3, [])]), Poll 3, Poll 9] = Some (s, outs)
     \<and> [(1, []), (3, [])] = outs @ waiting"
  using rx_loop_delivers_in_order [of prov_find_magic_start "[Arrive ([1] @ frames [(1, []), (3, [])]), Poll 3, Poll 9]"
      "[1]" "[(1, []), (3, [])]"] by auto

text \<open>a host that keeps one request in flight is served: once all its bytes are read, in whatever pieces, the
  request has been handed over and the buffer is empty again.\<close>

theorem rx_single_request_delivered:
  assumes "scan = admin_find_magic_start \<or> scan = prov_find_magic_start"
    and "arrivals evs = prov_frame t p" "length p \<le> 82"
  shows "\<exists>s outs. rx_run scan rx_start evs = Some (s, outs)
    \<and> (rx_ring s = [] \<longrightarrow> outs = [(t, p)] \<and> rx_buf s = [])"
  using magic_scanner.run_single [OF both_scanners [OF assms(1)] assms(3), of rx_start evs t] assms(2)
  by (simp add: rx_start_def)

theorem rx_single_request_delivered_witness:
  "\<exists>s outs. rx_run admin_find_magic_start rx_start [Arrive (prov_frame 1 []), Poll 4, Poll 4] = Some (s, outs)
     \<and> (rx_ring s = [] \<longrightarrow> outs = [(1, [])])"
  using rx_single_request_delivered [of admin_find_magic_start "[Arrive (prov_frame 1 []), Poll 4, Poll 4]" 1 "[]"]
  by auto

text \<open>the loop cannot latch on a full buffer: an iteration that starts with all 512 bytes in use ends with fewer,
  so reading resumes.\<close>

theorem rx_full_buffer_progress:
  assumes "scan = admin_find_magic_start \<or> scan = prov_find_magic_start" "length (rx_buf s) = 512"
  shows "\<exists>s' out. rx_iteration scan s k = Some (s', out) \<and> length (rx_buf s') < 512 \<and> rx_ring s' = rx_ring s"
  using magic_scanner.full_progress [OF both_scanners [OF assms(1)], of s k] assms(2)
  by (simp add: RX_BUF_LEN_def)

theorem rx_full_buffer_progress_witness:
  "\<exists>s' out. rx_iteration prov_find_magic_start \<lparr>rx_buf = zeros 512, rx_ring = [1]\<rparr> 0 = Some (s', out)
     \<and> length (rx_buf s') < 512"
  using rx_full_buffer_progress [of prov_find_magic_start "\<lparr>rx_buf = zeros 512, rx_ring = [1]\<rparr>" 0] by auto

text \<open>a burst stalls the loop.  When two requests, or noise and a request, are read together, the loop handles the
  first part and then waits for new bytes before it looks at what it already holds: however often it polls, the
  complete request in its buffer is not handed over until the host sends more.\<close>

theorem rx_burst_stalls:
  assumes "scan = admin_find_magic_start \<or> scan = prov_find_magic_start"
    and "length p1 \<le> 82" "length p2 \<le> 82" "0x4D \<notin> set noise" "noise \<noteq> []" "length noise \<le> 300" "512 \<le> k"
  shows "rx_run scan rx_start (Arrive (prov_frame t1 p1 @ prov_frame t2 p2) # Poll k # map Poll ks) =
      Some (\<lparr>rx_buf = prov_frame t2 p2, rx_ring = []\<rparr>, [(t1, p1)])
    \<and> rx_run scan rx_start (Arrive (noise @ prov_frame t2 p2) # Poll k # map Poll ks) =
      Some (\<lparr>rx_buf = prov_frame t2 p2, rx_ring = []\<rparr>, [])"
  using magic_scanner.burst_stalls [OF both_scanners [OF assms(1)] assms(2-7)] by simp

theorem rx_burst_stalls_witness:
  "rx_run admin_find_magic_start rx_start (Arrive (prov_frame 1 [] @ prov_frame 3 []) # Poll 512 # map Poll [9, 9]) =
     Some (\<lparr>rx_buf = prov_frame 3 [], rx_ring = []\<rparr>, [(1, [])])"
  using rx_burst_stalls [of admin_find_magic_start "[]" "[]" "[0]" 512 1 3 "[9, 9]"] by simp

end
