(* ===== verification/Region_Scope.thy ===== *)
theory Region_Scope
  imports Prov_Payload
begin

text \<open>
  \<open>firmware-core/src/region_scope.rs\<close> (the boot-time region scope, the fail-closed emission gate, the flood
  frame assembler) and \<open>firmware-core/src/region_admin.rs\<close> (the decisions of the SET_REGION and
  QUERY_REGION frames), with the gate and the ACK frame of \<open>firmware/src/main.rs\<close> that go through them.
  From a region name typed at the host to the transport codes on the air: the theorems at the end.
\<close>

section \<open>Scope\<close>

definition TRANSPORT_CODE_BYTES :: nat where
  "TRANSPORT_CODE_BYTES = 4"

datatype RegionScopeError = RSE_Name RegionNameError | RSE_StoreUnavailable

datatype RegionScope = Unscoped | Scoped bytes | Unusable RegionScopeError

definition RegionScope_from_name :: "crypto_prims \<Rightarrow> bytes \<Rightarrow> (RegionNameError + RegionScope) rust" where
  "RegionScope_from_name C name =
     (if name = [] then Some (Inr Unscoped)
      else do {
        r \<leftarrow> region_key C name;
        (case r of Inl e \<Rightarrow> Some (Inl e) | Inr key \<Rightarrow> Some (Inr (Scoped key)))
      })"

definition RegionScope_from_stored_name :: "crypto_prims \<Rightarrow> bytes \<Rightarrow> RegionScope rust" where
  "RegionScope_from_stored_name C name = do {
     r \<leftarrow> RegionScope_from_name C name;
     Some (case r of Inr scope \<Rightarrow> scope | Inl e \<Rightarrow> Unusable (RSE_Name e))
   }"

primrec is_unscoped :: "RegionScope \<Rightarrow> bool" where
  "is_unscoped Unscoped = True"
| "is_unscoped (Scoped _) = False"
| "is_unscoped (Unusable _) = False"

primrec unusable_reason :: "RegionScope \<Rightarrow> RegionScopeError option" where
  "unusable_reason Unscoped = None"
| "unusable_reason (Scoped _) = None"
| "unusable_reason (Unusable e) = Some e"

primrec emission :: "RegionScope \<Rightarrow> RegionScopeError + bytes option" where
  "emission Unscoped = Inr None"
| "emission (Scoped key) = Inr (Some key)"
| "emission (Unusable e) = Inl e"

definition boot_scope :: "crypto_prims \<Rightarrow> bytes option \<Rightarrow> RegionScope rust" where
  "boot_scope C stored_name =
     (case stored_name of
        Some name \<Rightarrow> RegionScope_from_stored_name C name
      | None \<Rightarrow> Some (Unusable RSE_StoreUnavailable))"

text \<open>The gate every flood send goes through: \<open>None\<close> is \<open>do not emit\<close>.\<close>

definition region_emission :: "RegionScope \<Rightarrow> bytes option option" where
  "region_emission scope = (case emission scope of Inr e \<Rightarrow> Some e | Inl _ \<Rightarrow> None)"

section \<open>Frame assembly\<close>

text \<open>\<open>out.copy_within(a..b, dst)\<close>, with its bounds checks.\<close>

definition copy_within :: "'a list \<Rightarrow> nat \<Rightarrow> nat \<Rightarrow> nat \<Rightarrow> 'a list rust" where
  "copy_within out a b dst = do {
     src \<leftarrow> slice out a b;
     copy_into out dst src
   }"

text \<open>\<open>bytes option\<close> is the scope argument; the caller has put the payload at offset 2.\<close>

definition assemble_flood_frame ::
    "crypto_prims \<Rightarrow> bytes option \<Rightarrow> bytes \<Rightarrow> PayloadType \<Rightarrow> PathLen \<Rightarrow> nat \<Rightarrow> (bytes \<times> nat) rust" where
  "assemble_flood_frame C scope out ptype path_len payload_len =
     (case scope of
        None \<Rightarrow> do {
          out \<leftarrow> set_at out 0 (Header_new RT_Flood ptype);
          out \<leftarrow> set_at out 1 path_len;
          Some (out, 2 + payload_len)
        }
      | Some key \<Rightarrow> do {
          let payload_end = 2 + payload_len;
          if length out < payload_end + TRANSPORT_CODE_BYTES then panic
          else do {
            payload \<leftarrow> slice out 2 payload_end;
            let codes = scoped_transport_codes C key (ptype_u8 ptype) payload;
            out \<leftarrow> copy_within out 2 payload_end (2 + TRANSPORT_CODE_BYTES);
            out \<leftarrow> set_at out 0 (Header_new RT_TransportFlood ptype);
            out \<leftarrow> copy_into out 1 codes;
            out \<leftarrow> set_at out (1 + TRANSPORT_CODE_BYTES) path_len;
            Some (out, payload_end + TRANSPORT_CODE_BYTES)
          }
        })"

definition build_ack_frame :: "crypto_prims \<Rightarrow> bytes \<Rightarrow> bytes option \<Rightarrow> bytes \<Rightarrow> (bytes \<times> nat) rust" where
  "build_ack_frame C ack_hash scope out = do {
     path_len \<leftarrow> PathLen_new 2 0;
     out \<leftarrow> copy_into out 2 ack_hash;
     assemble_flood_frame C scope out PT_Ack path_len 4
   }"

section \<open>Region commands\<close>

record ValidatedRegionName =
  vr_name :: bytes
  vr_name_len :: u8

definition vr_as_bytes :: "ValidatedRegionName \<Rightarrow> bytes rust" where
  "vr_as_bytes v = slice (vr_name v) 0 (unat (vr_name_len v))"

datatype SetRegionOutcome =
    SR_Apply ValidatedRegionName
  | SR_PrivateUnsupported
  | SR_InvalidName RegionNameError
  | SR_DecodeError

definition classify_region :: "bytes \<Rightarrow> SetRegionOutcome rust" where
  "classify_region name =
     (case validate_region_name name of
        Inr _ \<Rightarrow> do {
          padded \<leftarrow> copy_into (zeros REGION_NAME_MAX) 0 name;
          Some (SR_Apply \<lparr>vr_name = padded, vr_name_len = of_nat (length name)\<rparr>)
        }
      | Inl RN_PrivateUnsupported \<Rightarrow> Some SR_PrivateUnsupported
      | Inl e \<Rightarrow> Some (SR_InvalidName e))"

definition handle_set_region :: "bytes \<Rightarrow> SetRegionOutcome rust" where
  "handle_set_region payload =
     (case payload of
        [] \<Rightarrow> Some SR_DecodeError
      | len_byte # rest \<Rightarrow> do {
          let name_len = unat len_byte;
          if name_len > REGION_NAME_MAX then Some (SR_InvalidName (RN_TooLong name_len))
          else if length rest < name_len then Some SR_DecodeError
          else do {
            d \<leftarrow> decode_set_region payload;
            if (case d of Inr _ \<Rightarrow> False | Inl e \<Rightarrow> e \<noteq> PE_RegionNameInvalid) then Some SR_DecodeError
            else do {
              name \<leftarrow> slice rest 0 name_len;
              if name = [] then Some (SR_Apply \<lparr>vr_name = zeros REGION_NAME_MAX, vr_name_len = 0\<rparr>)
              else classify_region name
            }
          }
        })"

datatype QueryRegionOutcome = QR_Encoded nat | QR_StoredNameUnusable RegionNameError

definition handle_query_region :: "bytes \<Rightarrow> bytes \<Rightarrow> (bytes \<times> QueryRegionOutcome) rust" where
  "handle_query_region name out =
     (if name = [] then do {
        (out', r) \<leftarrow> encode_rsp_region [] out;
        Some (out', (case r of Inr len \<Rightarrow> QR_Encoded len | Inl _ \<Rightarrow> QR_StoredNameUnusable (RN_TooLong (length out))))
      } else
        (case validate_region_name name of
           Inl e \<Rightarrow> Some (out, QR_StoredNameUnusable e)
         | Inr _ \<Rightarrow> do {
             (out', r) \<leftarrow> encode_rsp_region name out;
             Some (out', (case r of Inr len \<Rightarrow> QR_Encoded len | Inl _ \<Rightarrow> QR_StoredNameUnusable (RN_TooLong (length name))))
           }))"

section \<open>Lemmas\<close>

lemma from_stored_name_spec:
  assumes "crypto_ok C"
  shows "RegionScope_from_stored_name C name =
    Some (if name = [] then Unscoped
      else case validate_region_name name of Inl e \<Rightarrow> Unusable (RSE_Name e)
        | Inr _ \<Rightarrow> Scoped (take 16 (sha256 C (canonical_name name))))"
proof (cases "validate_region_name name")
  case (Inl e)
  then show ?thesis
    using region_key_invalid [OF Inl, of C]
    by (auto simp: RegionScope_from_stored_name_def RegionScope_from_name_def validate_region_name_def split: if_splits)
next
  case (Inr u)
  then have "valid_region_name name"
    using validate_region_name_OK_iff by blast
  then show ?thesis
    using Inr region_key_spec [OF assms] by (simp add: RegionScope_from_stored_name_def RegionScope_from_name_def)
qed

text \<open>The assembler produces the frame the region writers define, with the payload moved past the codes.\<close>

lemma assemble_unscoped:
  assumes "2 + length payload \<le> length out" "take (length payload) (drop 2 out) = payload"
  shows "\<exists>out'. assemble_flood_frame C None out pt pl (length payload) = Some (out', 2 + length payload)
    \<and> take (2 + length payload) out' = mk_frame (Header_new RT_Flood pt) [] pl [] payload"
proof -
  obtain a b rest where out: "out = a # b # rest"
    using assms(1) by (cases out; cases "tl out") auto
  then show ?thesis
    using assms by (simp add: assemble_flood_frame_def set_at_def mk_frame_def)
qed

lemma assemble_scoped:
  assumes "6 + length payload \<le> length out" "take (length payload) (drop 2 out) = payload"
  shows "\<exists>out'. assemble_flood_frame C (Some key) out pt pl (length payload) = Some (out', 6 + length payload)
    \<and> take (6 + length payload) out' =
      mk_frame (Header_new RT_TransportFlood pt) (scoped_transport_codes C key (ptype_u8 pt) payload) pl [] payload"
proof -
  obtain a b c d e f rest where out: "out = a # b # c # d # e # f # rest"
    using assms(1) by (auto simp: Suc_le_length_iff eval_nat_numeral)
  obtain w x y z where codes: "scoped_transport_codes C key (ptype_u8 pt) payload = [w, x, y, z]"
    by (simp add: scoped_transport_codes_def Let_def to_le16_def)
  have "slice out 2 (2 + length payload) = Some payload"
    using assms by (simp add: slice_def)
  then show ?thesis
    using assms(1) codes out
    by (simp add: assemble_flood_frame_def TRANSPORT_CODE_BYTES_def copy_within_def rust_simps mk_frame_def
        eval_nat_numeral)
qed

text \<open>A receiver parses the frame back to the payload type and the payload.\<close>

lemma assemble_parses:
  assumes "6 + length payload \<le> length out" "take (length payload) (drop 2 out) = payload" "PathLen_new 2 0 = Some pl"
  shows "\<exists>out' n h. assemble_flood_frame C scope out pt pl (length payload) = Some (out', n)
    \<and> parse_rx_frame_header (take n out') = Inr h \<and> payload_type (rx_header_byte h) = Some pt
    \<and> drop (rx_payload_off h) (take n out') = payload"
proof -
  have "pl = 0x40"
    using assms(3) by (simp add: PathLen_new_def)
  then have pl: "is_valid pl" "hop_count pl = 0"
    by (simp_all add: is_valid_iff wire_simps hop_count_def)
  define r codes where "r = (if scope = None then RT_Flood else RT_TransportFlood)"
    and "codes = (case scope of None \<Rightarrow> [] | Some key \<Rightarrow> scoped_transport_codes C key (ptype_u8 pt) payload)"
  have wf: "wf_frame (Header_new r pt) codes pl []"
    using pl by (cases scope) (simp_all add: wf_frame_def r_def codes_def)
  have "\<exists>out' n. assemble_flood_frame C scope out pt pl (length payload) = Some (out', n)
      \<and> take n out' = mk_frame (Header_new r pt) codes pl [] payload"
  proof (cases scope)
    case None
    have "2 + length payload \<le> length out"
      using assms(1) by simp
    then show ?thesis
      using None assemble_unscoped [OF _ assms(2), of C pt pl] by (auto simp: r_def codes_def)
  next
    case (Some key)
    then show ?thesis
      using assemble_scoped [OF assms(1,2), of C key pt pl] by (simp add: r_def codes_def) blast
  qed
  then obtain out' n where "assemble_flood_frame C scope out pt pl (length payload) = Some (out', n)"
    "take n out' = mk_frame (Header_new r pt) codes pl [] payload"
    by blast
  then show ?thesis
    using parse_mk_frame [OF wf, of payload] drop_mk_frame [of codes "[]" "Header_new r pt" pl payload]
    by (intro exI [of _ out'] exI [of _ n]) simp
qed

lemma set_region_applies:
  assumes "name = [] \<or> valid_region_name name"
  shows "handle_set_region (text_wire name) = Some (SR_Apply \<lparr>vr_name = pad 31 name, vr_name_len = of_nat (length name)\<rparr>)"
proof -
  have len: "length name \<le> 31"
    using assms by (auto simp: valid_region_name_def)
  have n: "unat (of_nat (length name) :: u8) = length name"
    using len by (simp add: unat_of_nat_u8)
  have "decode_set_region (text_wire name) = Some (Inr \<lparr>pt_text = pad 31 name, pt_len = of_nat (length name)\<rparr>)"
    using decode_region_wire(1) [OF assms, of "[]"] by simp
  moreover have "classify_region name = Some (SR_Apply \<lparr>vr_name = pad 31 name, vr_name_len = of_nat (length name)\<rparr>)"
    if "valid_region_name name"
    using that len validate_region_name_OK_iff [of name "()"]
    by (simp add: classify_region_def REGION_NAME_MAX_def copy_into_def pad_def)
  ultimately show ?thesis
    using assms len n
    by (cases "name = []") (simp_all add: handle_set_region_def text_wire_def slice_def REGION_NAME_MAX_def pad_def valid_region_name_def
        Let_def)
qed

text \<open>Whatever the payload, an accepted command carries an empty name or a valid one.\<close>

lemma classify_region_spec:
  assumes "name \<noteq> []" "length name \<le> 31"
  shows "\<exists>r. classify_region name = Some r \<and> (\<forall>v. r = SR_Apply v \<longrightarrow> vr_as_bytes v = Some name \<and> valid_region_name name)"
proof (cases "validate_region_name name")
  case (Inl e)
  then show ?thesis
    by (cases e) (simp_all add: classify_region_def)
next
  case (Inr u)
  then have "valid_region_name name"
    using validate_region_name_OK_iff by blast
  then show ?thesis
    using Inr assms by (simp add: classify_region_def REGION_NAME_MAX_def copy_into_def vr_as_bytes_def slice_def unat_of_nat_u8)
qed

lemma handle_set_region_total:
  "\<exists>r. handle_set_region p = Some r
    \<and> (\<forall>v. r = SR_Apply v \<longrightarrow> (\<exists>name. vr_as_bytes v = Some name \<and> (name = [] \<or> valid_region_name name)))"
proof (cases p)
  case (Cons b rest)
  obtain d where d: "decode_set_region p = Some d"
    using decode_set_region_total [of p] by blast
  show ?thesis
  proof (cases "unat b \<le> 31 \<and> unat b \<le> length rest")
    case True
    let ?name = "take (unat b) rest"
    have "slice rest 0 (unat b) = Some ?name"
      using True by (simp add: slice_def)
    moreover obtain r where "?name \<noteq> [] \<Longrightarrow> classify_region ?name = Some r"
      "\<And>v. r = SR_Apply v \<Longrightarrow> vr_as_bytes v = Some ?name \<and> valid_region_name ?name"
      using True classify_region_spec [of ?name] by (cases "?name = []") auto
    moreover have "vr_as_bytes \<lparr>vr_name = zeros 31, vr_name_len = 0\<rparr> = Some []"
      by (simp add: vr_as_bytes_def slice_def)
    ultimately show ?thesis
      using True Cons d
      by (auto simp: handle_set_region_def Let_def REGION_NAME_MAX_def simp del: take_eq_Nil take_eq_Nil2)
  qed (auto simp: handle_set_region_def Let_def REGION_NAME_MAX_def Cons)
qed (simp add: handle_set_region_def)

section \<open>Properties\<close>

text \<open>C35: emission fails closed.  The gate lets an unscoped flood frame out exactly when the store was read and holds
  no region; a stored name that passes the rules scopes every frame with its key; an unreadable store or a stored
  name that cannot be keyed lets nothing out.\<close>

theorem region_emission_fails_closed:
  assumes "crypto_ok C"
  shows "\<exists>scope. boot_scope C stored = Some scope
    \<and> (region_emission scope = Some None \<longleftrightarrow> stored = Some [])
    \<and> (region_emission scope = None \<longleftrightarrow> stored = None \<or> (\<exists>name. stored = Some name \<and> name \<noteq> [] \<and> \<not> valid_region_name name))
    \<and> (\<forall>name. stored = Some name \<and> valid_region_name name \<longrightarrow>
        region_emission scope = Some (Some (take 16 (sha256 C (canonical_name name)))))"
proof (cases stored)
  case (Some name)
  have "valid_region_name name \<longleftrightarrow> (\<exists>u. validate_region_name name = Inr u)"
    using validate_region_name_OK_iff by blast
  moreover have "\<not> valid_region_name []"
    by (simp add: valid_region_name_def)
  ultimately show ?thesis
    using Some from_stored_name_spec [OF assms, of name]
    by (cases "validate_region_name name") (auto simp: boot_scope_def region_emission_def)
qed (simp add: boot_scope_def region_emission_def)

theorem region_emission_fails_closed_witness:
  "\<exists>scope. boot_scope demo_prims (Some [0x24, 0x41]) = Some scope \<and> region_emission scope = None"
  using region_emission_fails_closed [OF demo_prims_ok, of "Some [0x24, 0x41]"]
  by (auto simp: valid_region_name_def)

text \<open>a region command configures what the host asked for: for a valid name, what the host encodes is applied by the
  device, stored as the same bytes, gives at the next boot the scope with the key of the canonical name, and is reported
  back to the host unchanged; the empty name clears the region.\<close>

theorem region_set_query_roundtrip:
  assumes "crypto_ok C" "name = [] \<or> valid_region_name name" "32 \<le> length out" "32 \<le> length out2"
  shows "\<exists>wire v wire2. encode_set_region name out = Some (wire, Inr (1 + length name))
    \<and> handle_set_region (take (1 + length name) wire) = Some (SR_Apply v) \<and> vr_as_bytes v = Some name
    \<and> boot_scope C (Some name) =
        Some (if name = [] then Unscoped else Scoped (take 16 (sha256 C (canonical_name name))))
    \<and> handle_query_region name out2 = Some (wire2, QR_Encoded (1 + length name))
    \<and> decode_rsp_region (take (1 + length name) wire2) =
        Some (Inr \<lparr>pt_text = pad 31 name, pt_len = of_nat (length name)\<rparr>)"
proof -
  have len: "length name \<le> 31"
    using assms(2) by (auto simp: valid_region_name_def)
  have v: "name = [] \<or> validate_region_name name = Inr ()"
    using assms(2) validate_region_name_OK_iff by blast
  have enc: "encode_set_region name out = Some (put (text_wire name) out, Inr (1 + length name))"
    "encode_rsp_region name out2 = Some (put (text_wire name) out2, Inr (1 + length name))"
    using assms len by (intro encode_region_spec; simp)+
  have "length (text_wire name) = 1 + length name"
    by (simp add: text_wire_def)
  moreover have "handle_query_region name out2 = Some (put (text_wire name) out2, QR_Encoded (1 + length name))"
    using v enc(2) by (auto simp: handle_query_region_def)
  moreover have "vr_as_bytes \<lparr>vr_name = pad 31 name, vr_name_len = of_nat (length name)\<rparr> = Some name"
    using len by (simp add: vr_as_bytes_def slice_def unat_of_nat_u8)
  ultimately show ?thesis
    using enc(1) set_region_applies [OF assms(2)] from_stored_name_spec [OF assms(1), of name] v
      decode_region_wire(2) [OF assms(2), of "[]"]
    by (auto simp: boot_scope_def)
qed

theorem region_set_query_roundtrip_witness:
  "\<exists>wire v. encode_set_region [0x41] (zeros 40) = Some (wire, Inr 2)
    \<and> handle_set_region (take 2 wire) = Some (SR_Apply v) \<and> vr_as_bytes v = Some [0x41]"
proof -
  have "[0x41 :: u8] = [] \<or> valid_region_name [0x41]" "1 + length [0x41 :: u8] = 2"
    by (simp_all add: valid_region_name_def is_region_name_byte_def)
  from region_set_query_roundtrip [OF demo_prims_ok this(1), of "zeros 40" "zeros 40", unfolded this(2)]
  show ?thesis
    by auto
qed

text \<open>the device never accepts a region it could not use: no payload makes the command handler panic, and whenever
  it applies a name, that name gives a usable scope at boot.\<close>

theorem region_applied_is_usable:
  assumes "crypto_ok C"
  shows "\<exists>r. handle_set_region payload = Some r
    \<and> (\<forall>v. r = SR_Apply v \<longrightarrow> (\<exists>name scope. vr_as_bytes v = Some name \<and> boot_scope C (Some name) = Some scope
        \<and> region_emission scope \<noteq> None))"
proof -
  have "\<exists>scope. boot_scope C (Some name) = Some scope \<and> region_emission scope \<noteq> None"
    if "name = [] \<or> valid_region_name name" for name
  proof -
    have "name = [] \<or> validate_region_name name = Inr ()"
      using that validate_region_name_OK_iff by blast
    then show ?thesis
      using from_stored_name_spec [OF assms, of name] by (auto simp: boot_scope_def region_emission_def)
  qed
  note usable = this
  obtain r where r: "handle_set_region payload = Some r"
    "\<And>v. r = SR_Apply v \<Longrightarrow> \<exists>name. vr_as_bytes v = Some name \<and> (name = [] \<or> valid_region_name name)"
    using handle_set_region_total [of payload] by auto
  have "\<exists>name scope. vr_as_bytes v = Some name \<and> boot_scope C (Some name) = Some scope \<and> region_emission scope \<noteq> None"
    if applied: "r = SR_Apply v" for v
  proof -
    obtain name where name: "vr_as_bytes v = Some name" "name = [] \<or> valid_region_name name"
      using r(2) [OF applied] by auto
    then show ?thesis
      using usable [OF name(2)] by auto
  qed
  then show ?thesis
    using r(1) by auto
qed

theorem region_applied_is_usable_witness:
  "\<exists>r. handle_set_region [1, 0x41] = Some r"
  using region_applied_is_usable [OF demo_prims_ok, of "[1, 0x41]"] by blast

text \<open>the in-place assembler agrees with the region codec's frame writers: from a buffer with the payload at
  offset 2 it produces, scoped and unscoped, byte for byte the frame \<open>write_scoped_flood_frame\<close> and
  \<open>write_unscoped_flood_frame\<close> write for the same payload and an empty path.\<close>

theorem assemble_agrees_with_writers:
  assumes "6 + length payload \<le> length out" "take (length payload) (drop 2 out) = payload"
    and "hop_count pl = 0" "6 + length payload \<le> length buf"
  shows "\<exists>out1 out2 f1 f2. assemble_flood_frame C (Some key) out pt pl (length payload) = Some (out1, 6 + length payload)
    \<and> write_scoped_flood_frame C buf pt key pl [] payload = Some (f1, 6 + length payload)
    \<and> take (6 + length payload) out1 = take (6 + length payload) f1
    \<and> assemble_flood_frame C None out pt pl (length payload) = Some (out2, 2 + length payload)
    \<and> write_unscoped_flood_frame buf pt pl [] payload = Some (f2, 2 + length payload)
    \<and> take (2 + length payload) out2 = take (2 + length payload) f2"
proof -
  have "length [] = unat (hop_count pl) * unat (hash_size pl)"
    using assms(3) by simp
  note w = write_scoped_spec [OF this, of payload buf C pt key] write_unscoped_spec [OF this, of payload buf pt]
  have cut: "take (length f) (f @ r) = f" for f r :: bytes
    by simp
  have "length (mk_frame h codes pl [] payload) = 2 + length codes + length payload" for h codes
    by (simp add: mk_frame_def)
  note cuts = cut [of "mk_frame (Header_new RT_TransportFlood pt) (scoped_transport_codes C key (ptype_u8 pt) payload) pl [] payload"]
    cut [of "mk_frame (Header_new RT_Flood pt) [] pl [] payload"]
  have "take (6 + length payload) (fst (the (write_scoped_flood_frame C buf pt key pl [] payload))) =
      mk_frame (Header_new RT_TransportFlood pt) (scoped_transport_codes C key (ptype_u8 pt) payload) pl [] payload"
    "take (2 + length payload) (fst (the (write_unscoped_flood_frame buf pt pl [] payload))) =
      mk_frame (Header_new RT_Flood pt) [] pl [] payload"
    using w assms(4) cuts \<open>\<And>codes h. length (mk_frame h codes pl [] payload) = 2 + length codes + length payload\<close>
    by simp_all
  moreover obtain out1 out2 where "assemble_flood_frame C (Some key) out pt pl (length payload) = Some (out1, 6 + length payload)"
    "take (6 + length payload) out1 =
      mk_frame (Header_new RT_TransportFlood pt) (scoped_transport_codes C key (ptype_u8 pt) payload) pl [] payload"
    "assemble_flood_frame C None out pt pl (length payload) = Some (out2, 2 + length payload)"
    "take (2 + length payload) out2 = mk_frame (Header_new RT_Flood pt) [] pl [] payload"
    using assemble_scoped [OF assms(1,2), of C key pt pl] assemble_unscoped [of payload out C pt pl] assms(1,2) by auto
  ultimately show ?thesis
    using w assms(4) by simp
qed

theorem assemble_agrees_with_writers_witness:
  "\<exists>out1 f1. assemble_flood_frame demo_prims (Some (zeros 16)) ([0, 0, 7, 8] @ zeros 10) PT_TxtMsg 0x40 2 = Some (out1, 8)
    \<and> write_scoped_flood_frame demo_prims (zeros 20) PT_TxtMsg (zeros 16) 0x40 [] [7, 8] = Some (f1, 8)
    \<and> take 8 out1 = take 8 f1"
proof -
  have n: "length [7, 8 :: u8] = 2" "6 + (2 :: nat) = 8"
    by simp_all
  from assemble_agrees_with_writers [of "[7, 8]" "[0, 0, 7, 8] @ zeros 10" "0x40" "zeros 20" demo_prims "zeros 16" PT_TxtMsg,
      unfolded n]
  show ?thesis
    by (auto simp: hop_count_def)
qed

end
