(* ===== verification/Screen_Lock.thy ===== *)
theory Screen_Lock
  imports Prov_Payload
begin

text \<open>
  The screen lock and the settings it lives in: \<open>firmware-core/src/pin_menu.rs\<close> (settings and menu
  actions, the admin PIN), \<open>firmware-core/src/runtime_settings_store.rs\<close> and
  \<open>firmware-core/src/lock_store.rs\<close> (their stored forms, the lock PIN), \<open>firmware-core/src/ui/lock.rs\<close>
  (idle lock, backoff), and the lock handling of the UI thread, \<open>firmware/src/ui/mod.rs\<close>: the state the
  lock keeps there and the parts of a tick and of the event handler that touch it.  Drawing and sounds are
  left out.
\<close>

section \<open>Settings\<close>

definition LOCK_SCREEN_ENABLE :: u8 where
  "LOCK_SCREEN_ENABLE = 0x01"

definition LOCK_NO_DEVICE_DISABLE :: u8 where
  "LOCK_NO_DEVICE_DISABLE = 0x02"

definition LOCK_FLAGS_DEFINED_MASK :: u8 where
  "LOCK_FLAGS_DEFINED_MASK = LOCK_SCREEN_ENABLE OR LOCK_NO_DEVICE_DISABLE"

definition LOCK_TIMEOUT_MIN_S :: u16 where
  "LOCK_TIMEOUT_MIN_S = 15"

definition LOCK_TIMEOUT_MAX_S :: u16 where
  "LOCK_TIMEOUT_MAX_S = 3600"

definition LOCK_TIMEOUT_DEFAULT_S :: u16 where
  "LOCK_TIMEOUT_DEFAULT_S = 300"

definition MAX_CONTACTS :: nat where
  "MAX_CONTACTS = 16"

definition SCREEN_SLEEP_DEFAULT_S :: u8 where
  "SCREEN_SLEEP_DEFAULT_S = 30"

definition SCREEN_SLEEP_MAX_S :: u8 where
  "SCREEN_SLEEP_MAX_S = 120"

definition BACKLIGHT_BRIGHTNESS_DEFAULT_PCT :: u8 where
  "BACKLIGHT_BRIGHTNESS_DEFAULT_PCT = 100"

definition BACKLIGHT_BRIGHTNESS_MAX_PCT :: u8 where
  "BACKLIGHT_BRIGHTNESS_MAX_PCT = 100"

definition BACKLIGHT_BRIGHTNESS_MIN_PCT :: u8 where
  "BACKLIGHT_BRIGHTNESS_MIN_PCT = 10"

record RuntimeSettings =
  rs_notif_visual :: bool
  rs_notif_audible :: bool
  rs_contact_telemetry :: "bool list"
  rs_contact_count :: u8
  rs_lock_flags :: u8
  rs_screen_sleep_timeout_s :: u8
  rs_lock_timeout_s :: u16
  rs_backlight_brightness :: u8

definition default_enabled :: RuntimeSettings where
  "default_enabled =
     \<lparr>rs_notif_visual = True,
      rs_notif_audible = True,
      rs_contact_telemetry = replicate MAX_CONTACTS False,
      rs_contact_count = 0,
      rs_lock_flags = 0,
      rs_screen_sleep_timeout_s = SCREEN_SLEEP_DEFAULT_S,
      rs_lock_timeout_s = LOCK_TIMEOUT_DEFAULT_S,
      rs_backlight_brightness = BACKLIGHT_BRIGHTNESS_DEFAULT_PCT\<rparr>"

datatype MenuAction =
    SetNotifVisual bool
  | SetNotifAudible bool
  | SetContactTelemetry nat bool
  | SetLockFlags u8
  | SetScreenSleepTimeout u8
  | SetLockEnabled bool
  | SetLockTimeout u16
  | SetBacklightBrightness u8

text \<open>\<open>v.clamp(lo, hi)\<close> of an unsigned integer.\<close>

definition clamp :: "'a::linorder \<Rightarrow> 'a \<Rightarrow> 'a \<Rightarrow> 'a" where
  "clamp v lo hi = (if v < lo then lo else if v > hi then hi else v)"

primrec apply_menu_action :: "MenuAction \<Rightarrow> RuntimeSettings \<Rightarrow> RuntimeSettings rust" where
  "apply_menu_action (SetNotifVisual v) s = Some (s\<lparr>rs_notif_visual := v\<rparr>)"
| "apply_menu_action (SetNotifAudible v) s = Some (s\<lparr>rs_notif_audible := v\<rparr>)"
| "apply_menu_action (SetContactTelemetry contact_index enabled) s =
     (if contact_index < MAX_CONTACTS then do {
        t \<leftarrow> set_at (rs_contact_telemetry s) contact_index enabled;
        Some (s\<lparr>rs_contact_telemetry := t\<rparr>)
      } else Some s)"
| "apply_menu_action (SetLockFlags flags) s = Some (s\<lparr>rs_lock_flags := flags AND LOCK_FLAGS_DEFINED_MASK\<rparr>)"
| "apply_menu_action (SetScreenSleepTimeout secs) s =
     Some (s\<lparr>rs_screen_sleep_timeout_s := min secs SCREEN_SLEEP_MAX_S\<rparr>)"
| "apply_menu_action (SetLockEnabled enabled) s =
     (if enabled then Some (s\<lparr>rs_lock_flags := rs_lock_flags s OR LOCK_SCREEN_ENABLE\<rparr>)
      else Some (s\<lparr>rs_lock_flags := rs_lock_flags s AND NOT LOCK_SCREEN_ENABLE\<rparr>))"
| "apply_menu_action (SetLockTimeout secs) s =
     Some (s\<lparr>rs_lock_timeout_s := clamp secs LOCK_TIMEOUT_MIN_S LOCK_TIMEOUT_MAX_S\<rparr>)"
| "apply_menu_action (SetBacklightBrightness pct) s =
     Some (s\<lparr>rs_backlight_brightness := clamp pct BACKLIGHT_BRIGHTNESS_MIN_PCT BACKLIGHT_BRIGHTNESS_MAX_PCT\<rparr>)"

section \<open>The stored settings\<close>

definition RTS_VERSION :: u8 where
  "RTS_VERSION = 0x02"

definition VERSION_V1 :: u8 where
  "VERSION_V1 = 0x01"

definition V1_LEGACY_BLOB_LEN :: nat where
  "V1_LEGACY_BLOB_LEN = 5 + MAX_CONTACTS"

definition V1_BLOB_LEN :: nat where
  "V1_BLOB_LEN = V1_LEGACY_BLOB_LEN + 1"

definition V2_LEGACY_BLOB_LEN :: nat where
  "V2_LEGACY_BLOB_LEN = V1_BLOB_LEN + 2"

definition RTS_BLOB_LEN :: nat where
  "RTS_BLOB_LEN = V2_LEGACY_BLOB_LEN + 1"

definition fallback_settings :: "bool \<times> bool \<Rightarrow> RuntimeSettings" where
  "fallback_settings notif_defaults =
     default_enabled\<lparr>rs_notif_visual := fst notif_defaults, rs_notif_audible := snd notif_defaults\<rparr>"

text \<open>\<open>for i in 0..MAX_CONTACTS { out[5 + i] = s.contact_telemetry[i] as u8; }\<close>, and its inverse.\<close>

fun write_telemetry :: "bool list \<Rightarrow> nat \<Rightarrow> nat \<Rightarrow> bytes \<Rightarrow> bytes rust" where
  "write_telemetry ts i 0 out = Some out"
| "write_telemetry ts i (Suc k) out = do {
     t \<leftarrow> get_at ts i;
     out \<leftarrow> set_at out (5 + i) (of_bool t);
     write_telemetry ts (Suc i) k out
   }"

fun read_telemetry :: "bytes \<Rightarrow> nat \<Rightarrow> nat \<Rightarrow> bool list \<Rightarrow> bool list rust" where
  "read_telemetry blob i 0 ts = Some ts"
| "read_telemetry blob i (Suc k) ts = do {
     b \<leftarrow> get_at blob (5 + i);
     ts \<leftarrow> set_at ts i (b \<noteq> 0);
     read_telemetry blob (Suc i) k ts
   }"

definition rts_serialize :: "RuntimeSettings \<Rightarrow> bytes \<Rightarrow> (bytes \<times> nat) rust" where
  "rts_serialize s out = do {
     out \<leftarrow> set_at out 0 RTS_VERSION;
     out \<leftarrow> set_at out 1 (of_bool (rs_notif_visual s));
     out \<leftarrow> set_at out 2 (of_bool (rs_notif_audible s));
     out \<leftarrow> set_at out 3 (rs_contact_count s);
     out \<leftarrow> set_at out 4 (rs_lock_flags s);
     out \<leftarrow> write_telemetry (rs_contact_telemetry s) 0 MAX_CONTACTS out;
     out \<leftarrow> set_at out V1_LEGACY_BLOB_LEN (min (rs_screen_sleep_timeout_s s) SCREEN_SLEEP_MAX_S);
     let lock_timeout_s = clamp (rs_lock_timeout_s s) LOCK_TIMEOUT_MIN_S LOCK_TIMEOUT_MAX_S;
     out \<leftarrow> set_at out V1_BLOB_LEN (to_le16 lock_timeout_s ! 0);
     out \<leftarrow> set_at out (V1_BLOB_LEN + 1) (to_le16 lock_timeout_s ! 1);
     out \<leftarrow> set_at out V2_LEGACY_BLOB_LEN
       (clamp (rs_backlight_brightness s) BACKLIGHT_BRIGHTNESS_MIN_PCT BACKLIGHT_BRIGHTNESS_MAX_PCT);
     Some (out, RTS_BLOB_LEN)
   }"

definition parse_common_fields :: "bytes \<Rightarrow> RuntimeSettings rust" where
  "parse_common_fields blob = do {
     let s = default_enabled;
     v \<leftarrow> get_at blob 1;
     a \<leftarrow> get_at blob 2;
     c \<leftarrow> get_at blob 3;
     f \<leftarrow> get_at blob 4;
     ts \<leftarrow> read_telemetry blob 0 MAX_CONTACTS (rs_contact_telemetry s);
     Some (s\<lparr>rs_notif_visual := v \<noteq> 0, rs_notif_audible := a \<noteq> 0, rs_contact_count := c,
       rs_lock_flags := f, rs_contact_telemetry := ts\<rparr>)
   }"

definition rts_deserialize :: "bytes \<Rightarrow> RuntimeSettings option rust" where
  "rts_deserialize blob =
     (if blob = [] then Some None
      else if blob ! 0 = RTS_VERSION then
        if length blob < V2_LEGACY_BLOB_LEN then Some None
        else do {
          s \<leftarrow> parse_common_fields blob;
          sleep \<leftarrow> get_at blob V1_LEGACY_BLOB_LEN;
          lo \<leftarrow> get_at blob V1_BLOB_LEN;
          hi \<leftarrow> get_at blob (V1_BLOB_LEN + 1);
          brightness \<leftarrow> (if length blob \<ge> RTS_BLOB_LEN then do {
              b \<leftarrow> get_at blob V2_LEGACY_BLOB_LEN;
              Some (clamp b BACKLIGHT_BRIGHTNESS_MIN_PCT BACKLIGHT_BRIGHTNESS_MAX_PCT)
            } else Some BACKLIGHT_BRIGHTNESS_DEFAULT_PCT);
          Some (Some (s\<lparr>rs_screen_sleep_timeout_s := min sleep SCREEN_SLEEP_MAX_S,
            rs_lock_timeout_s := clamp (from_le16 lo hi) LOCK_TIMEOUT_MIN_S LOCK_TIMEOUT_MAX_S,
            rs_backlight_brightness := brightness\<rparr>))
        }
      else if blob ! 0 = VERSION_V1 then
        if length blob < V1_LEGACY_BLOB_LEN then Some None
        else do {
          s \<leftarrow> parse_common_fields blob;
          sleep \<leftarrow> (if length blob \<ge> V1_BLOB_LEN then do {
              b \<leftarrow> get_at blob V1_LEGACY_BLOB_LEN;
              Some (min b SCREEN_SLEEP_MAX_S)
            } else Some SCREEN_SLEEP_DEFAULT_S);
          Some (Some (s\<lparr>rs_screen_sleep_timeout_s := sleep,
            rs_lock_timeout_s := LOCK_TIMEOUT_DEFAULT_S,
            rs_backlight_brightness := BACKLIGHT_BRIGHTNESS_DEFAULT_PCT\<rparr>))
        }
      else Some None)"

section \<open>PINs\<close>

text \<open>The comparison loop of the two PIN checks: \<open>k\<close> positions from \<open>i\<close> on.\<close>

fun pin_diff :: "bytes \<Rightarrow> bytes \<Rightarrow> nat \<Rightarrow> nat \<Rightarrow> u8 \<Rightarrow> u8 rust" where
  "pin_diff entered stored i 0 mismatch = Some mismatch"
| "pin_diff entered stored i (Suc k) mismatch = do {
     let a = (if i < length entered then entered ! i else 0x00);
     b \<leftarrow> get_at stored i;
     pin_diff entered stored (Suc i) k (mismatch OR (a XOR b))
   }"

definition verify_pin :: "bytes \<Rightarrow> bytes \<Rightarrow> u8 \<Rightarrow> bool rust" where
  "verify_pin entered stored_pin stored_pin_len =
     (let slen = unat stored_pin_len in
      if slen = 0 then Some False
      else do {
        let mismatch = (if length entered \<noteq> slen then 1 else 0);
        mismatch \<leftarrow> pin_diff entered stored_pin 0 MAX_PIN_LEN mismatch;
        let mismatch = foldl (OR) mismatch (drop slen entered);
        Some (mismatch = 0)
      })"

definition LOCK_STORE_VERSION :: u8 where
  "LOCK_STORE_VERSION = 0x01"

definition LOCK_BLOB_LEN :: nat where
  "LOCK_BLOB_LEN = 2 + LOCK_PIN_LEN"

definition lock_serialize :: "bytes \<Rightarrow> u8 \<Rightarrow> bytes \<Rightarrow> (bytes \<times> nat) rust" where
  "lock_serialize pin pin_len out = do {
     out \<leftarrow> set_at out 0 LOCK_STORE_VERSION;
     out \<leftarrow> set_at out 1 pin_len;
     out \<leftarrow> copy_into out 2 pin;
     Some (out, LOCK_BLOB_LEN)
   }"

definition lock_verify :: "bytes \<Rightarrow> bytes \<Rightarrow> u8 \<Rightarrow> bool rust" where
  "lock_verify entered stored_pin stored_pin_len =
     (let slen = unat stored_pin_len in
      if slen = 0 then Some False
      else do {
        let mismatch = (if length entered \<noteq> slen then 1 else 0);
        mismatch \<leftarrow> pin_diff entered stored_pin 0 LOCK_PIN_LEN mismatch;
        let mismatch = foldl (OR) mismatch (drop slen entered);
        Some (mismatch = 0)
      })"

definition lock_deserialize :: "bytes \<Rightarrow> (bytes \<times> u8) option rust" where
  "lock_deserialize blob =
     (if length blob < LOCK_BLOB_LEN then Some None
      else if blob ! 0 \<noteq> LOCK_STORE_VERSION then Some None
      else do {
        pin \<leftarrow> slice blob 2 (2 + LOCK_PIN_LEN);
        let raw_len = blob ! 1;
        let pin_len = (if unat raw_len \<le> LOCK_PIN_LEN then raw_len else 0);
        Some (Some (pin, pin_len))
      })"

section \<open>Idle lock and backoff\<close>

definition idle_lock_due :: "bool \<Rightarrow> bool \<Rightarrow> u64 \<Rightarrow> u64 \<Rightarrow> u16 \<Rightarrow> bool" where
  "idle_lock_due lock_enabled already_locked now_ms last_activity_ms lock_timeout_s =
     (if \<not> lock_enabled \<or> already_locked then False
      else (let timeout_ms = saturating_mul (ucast lock_timeout_s) 1000 in
            saturating_sub now_ms last_activity_ms \<ge> timeout_ms))"

definition boots_locked :: "bool \<Rightarrow> bool" where
  "boots_locked lock_enabled = lock_enabled"

definition FREE_ATTEMPTS :: u32 where
  "FREE_ATTEMPTS = 4"

definition BACKOFF_STEPS_S :: "u32 list" where
  "BACKOFF_STEPS_S = [30, 60, 120, 300]"

record LockAttemptState =
  consecutive_failures :: u32

definition lockout_seconds_after_failure :: "u32 \<Rightarrow> u32 rust" where
  "lockout_seconds_after_failure failures =
     (if failures \<le> FREE_ATTEMPTS then Some 0
      else (let step = unat (failures - FREE_ATTEMPTS - 1) in
            get_at BACKOFF_STEPS_S (min step (length BACKOFF_STEPS_S - 1))))"

definition unlock_attempt_allowed :: "u64 \<Rightarrow> u64 \<Rightarrow> u32 \<Rightarrow> bool" where
  "unlock_attempt_allowed now_ms lockout_started_ms lockout_s =
     (if lockout_s = 0 then True
      else saturating_sub now_ms lockout_started_ms \<ge> saturating_mul (ucast lockout_s) 1000)"

record UnlockOutcome =
  uo_unlocked :: bool
  uo_lockout_s :: u32

definition attempt_unlock :: "bool \<Rightarrow> LockAttemptState \<Rightarrow> (LockAttemptState \<times> UnlockOutcome) rust" where
  "attempt_unlock pin_correct state =
     (if pin_correct then
        Some (state\<lparr>consecutive_failures := 0\<rparr>, \<lparr>uo_unlocked = True, uo_lockout_s = 0\<rparr>)
      else do {
        let state = state\<lparr>consecutive_failures := saturating_add32 (consecutive_failures state) 1\<rparr>;
        l \<leftarrow> lockout_seconds_after_failure (consecutive_failures state);
        Some (state, \<lparr>uo_unlocked = False, uo_lockout_s = l\<rparr>)
      })"

section \<open>The lock in the UI thread\<close>

record LockUi =
  lu_locked :: bool
  lu_attempts :: LockAttemptState
  lu_lockout_started_ms :: u64
  lu_lockout_s :: u32
  lu_pin :: bytes
  lu_pin_len :: u8
  lu_settings :: RuntimeSettings
  lu_last_activity_ms :: u64

definition trip_lock :: "LockUi \<Rightarrow> LockUi" where
  "trip_lock s = (if lu_locked s then s else s\<lparr>lu_locked := True\<rparr>)"

definition unlock :: "LockUi \<Rightarrow> u64 \<Rightarrow> LockUi" where
  "unlock s now_ms =
     (if \<not> lu_locked s then s
      else s\<lparr>lu_locked := False, lu_lockout_s := 0, lu_last_activity_ms := now_ms\<rparr>)"

text \<open>A confirmed entry of the lock overlay; the result is the outcome when the entry was scored.\<close>

definition process_confirm :: "LockUi \<Rightarrow> u64 \<Rightarrow> bytes \<Rightarrow> (LockUi \<times> UnlockOutcome option) rust" where
  "process_confirm s now_ms digits =
     (if unlock_attempt_allowed now_ms (lu_lockout_started_ms s) (lu_lockout_s s) then do {
        correct \<leftarrow> lock_verify digits (lu_pin s) (lu_pin_len s);
        (attempts, outcome) \<leftarrow> attempt_unlock correct (lu_attempts s);
        let s = s\<lparr>lu_attempts := attempts\<rparr>;
        if uo_unlocked outcome then Some (unlock s now_ms, Some outcome)
        else Some (s\<lparr>lu_lockout_s := uo_lockout_s outcome, lu_lockout_started_ms := now_ms\<rparr>, Some outcome)
      } else Some (s, None))"

definition lockout_countdown :: "LockUi \<Rightarrow> u64 \<Rightarrow> LockUi" where
  "lockout_countdown s now_ms =
     (if lu_locked s \<and> lu_lockout_s s > 0 then
        (let elapsed_ms = saturating_sub now_ms (lu_lockout_started_ms s);
             total_ms = saturating_mul (ucast (lu_lockout_s s)) 1000 in
         if elapsed_ms \<ge> total_ms then s\<lparr>lu_lockout_s := 0\<rparr> else s)
      else s)"

definition check_idle_lock :: "LockUi \<Rightarrow> u64 \<Rightarrow> LockUi" where
  "check_idle_lock s now_ms =
     (let lock_enabled = (rs_lock_flags (lu_settings s) AND LOCK_SCREEN_ENABLE \<noteq> 0);
          lock_timeout_s = rs_lock_timeout_s (lu_settings s) in
      if idle_lock_due lock_enabled (lu_locked s) now_ms (lu_last_activity_ms s) lock_timeout_s
      then trip_lock s else s)"

text \<open>The lock's part of a tick: a pending confirmation, the countdown, the idle check.\<close>

definition lock_tick :: "LockUi \<Rightarrow> u64 \<Rightarrow> bytes option \<Rightarrow> (LockUi \<times> UnlockOutcome option) rust" where
  "lock_tick s now_ms pending_lock_confirm = do {
     (s, outcome) \<leftarrow> (case pending_lock_confirm of
         None \<Rightarrow> Some (s, None)
       | Some digits \<Rightarrow> process_confirm s now_ms digits);
     let s = lockout_countdown s now_ms;
     Some (check_idle_lock s now_ms, outcome)
   }"

text \<open>The lock's part of the events from the other threads; \<open>Activity\<close> is a touch or a key and \<open>Menu\<close>
  a row of the on-device admin menu.\<close>

datatype lock_event =
    Tick u64 "bytes option"
  | Activity u64
  | BootSeed bytes u8 RuntimeSettings
  | Menu MenuAction
  | LockConfigChanged u8 u16
  | LockPinChanged bytes u8

fun handle_lock_event :: "LockUi \<Rightarrow> lock_event \<Rightarrow> (LockUi \<times> UnlockOutcome option) rust" where
  "handle_lock_event s (Tick now_ms pending) = lock_tick s now_ms pending"
| "handle_lock_event s (Activity now_ms) = Some (s\<lparr>lu_last_activity_ms := now_ms\<rparr>, None)"
| "handle_lock_event s (BootSeed lock_pin lock_pin_len settings) =
     (let s = s\<lparr>lu_pin := lock_pin, lu_pin_len := lock_pin_len, lu_settings := settings\<rparr> in
      if boots_locked (rs_lock_flags settings AND LOCK_SCREEN_ENABLE \<noteq> 0) then Some (trip_lock s, None)
      else Some (s, None))"
| "handle_lock_event s (Menu action) = do {
     r \<leftarrow> apply_menu_action action (lu_settings s);
     Some (s\<lparr>lu_settings := r\<rparr>, None)
   }"
| "handle_lock_event s (LockConfigChanged lock_flags lock_timeout_s) = do {
     r \<leftarrow> apply_menu_action (SetLockFlags lock_flags) (lu_settings s);
     r \<leftarrow> apply_menu_action (SetLockTimeout lock_timeout_s) r;
     Some (s\<lparr>lu_settings := r\<rparr>, None)
   }"
| "handle_lock_event s (LockPinChanged lock_pin lock_pin_len) =
     Some (s\<lparr>lu_pin := lock_pin, lu_pin_len := lock_pin_len\<rparr>, None)"

fun lock_run :: "LockUi \<Rightarrow> lock_event list \<Rightarrow> (LockUi \<times> UnlockOutcome list) rust" where
  "lock_run s [] = Some (s, [])"
| "lock_run s (e # evs) = do {
     (s, outcome) \<leftarrow> handle_lock_event s e;
     (s, outcomes) \<leftarrow> lock_run s evs;
     Some (s, (case outcome of None \<Rightarrow> outcomes | Some r \<Rightarrow> r # outcomes))
   }"

section \<open>Settings stay within their ranges\<close>

definition settings_ok :: "RuntimeSettings \<Rightarrow> bool" where
  "settings_ok s \<longleftrightarrow>
     length (rs_contact_telemetry s) = 16 \<and>
     rs_screen_sleep_timeout_s s \<le> 120 \<and>
     15 \<le> rs_lock_timeout_s s \<and> rs_lock_timeout_s s \<le> 3600 \<and>
     10 \<le> rs_backlight_brightness s \<and> rs_backlight_brightness s \<le> 100"

lemmas lock_consts = LOCK_SCREEN_ENABLE_def LOCK_NO_DEVICE_DISABLE_def LOCK_FLAGS_DEFINED_MASK_def
  LOCK_TIMEOUT_MIN_S_def LOCK_TIMEOUT_MAX_S_def LOCK_TIMEOUT_DEFAULT_S_def MAX_CONTACTS_def
  SCREEN_SLEEP_DEFAULT_S_def SCREEN_SLEEP_MAX_S_def BACKLIGHT_BRIGHTNESS_DEFAULT_PCT_def
  BACKLIGHT_BRIGHTNESS_MAX_PCT_def BACKLIGHT_BRIGHTNESS_MIN_PCT_def

lemmas rts_consts = RTS_VERSION_def VERSION_V1_def V1_LEGACY_BLOB_LEN_def V1_BLOB_LEN_def V2_LEGACY_BLOB_LEN_def
  RTS_BLOB_LEN_def

lemma clamp_bounds: "lo \<le> hi \<Longrightarrow> lo \<le> clamp v lo hi \<and> clamp v lo hi \<le> hi" for v :: "'a::linorder"
  by (auto simp: clamp_def)

lemma clamp_id: "lo \<le> v \<Longrightarrow> v \<le> hi \<Longrightarrow> clamp v lo hi = v" for v :: "'a::linorder"
  by (auto simp: clamp_def)

lemma settings_ok_default: "settings_ok default_enabled"
  by (simp add: settings_ok_def default_enabled_def lock_consts)

lemma apply_menu_action_ok:
  assumes "settings_ok s"
  shows "\<exists>s'. apply_menu_action a s = Some s' \<and> settings_ok s'"
  using assms clamp_bounds [of "15 :: u16" 3600] clamp_bounds [of "10 :: u8" 100]
  by (cases a) (auto simp: settings_ok_def lock_consts set_at_def min_def)

section \<open>The stored settings\<close>

definition telemetry_bytes :: "bool list \<Rightarrow> bytes" where
  "telemetry_bytes ts = map of_bool ts"

lemma write_telemetry_spec:
  "i + k = length ts \<Longrightarrow> length p = 5 + i \<Longrightarrow> 5 + length ts \<le> length out \<Longrightarrow>
   write_telemetry ts i k (put p out) = Some (put (p @ telemetry_bytes (drop i ts)) out)"
proof (induction k arbitrary: i p)
  case (Suc k)
  have "drop i ts = ts ! i # drop (Suc i) ts"
    using Suc.prems by (simp add: Cons_nth_drop_Suc)
  then show ?case
    using Suc.prems Suc.IH [of "Suc i" "p @ [of_bool (ts ! i)]"]
    by (simp add: get_at_def emit telemetry_bytes_def)
qed (simp add: telemetry_bytes_def)

lemma read_telemetry_spec:
  "length pre = i \<Longrightarrow> length ts = k \<Longrightarrow> 5 + i + k \<le> length blob \<Longrightarrow>
   read_telemetry blob i k (pre @ ts) = Some (pre @ map (\<lambda>b. b \<noteq> 0) (take k (drop (5 + i) blob)))"
proof (induction k arbitrary: i pre ts)
  case (Suc k)
  obtain t ts' where ts: "ts = t # ts'"
    using Suc.prems by (cases ts) auto
  have d: "drop (5 + i) blob = blob ! (5 + i) # drop (6 + i) blob"
    using Suc.prems by (subst Cons_nth_drop_Suc [symmetric]) auto
  then show ?case
    using Suc.prems Suc.IH [of "pre @ [blob ! (5 + i) \<noteq> 0]" "Suc i" ts'] ts
    by (simp add: get_at_def set_at_def list_update_append)
qed simp

definition rts_blob :: "RuntimeSettings \<Rightarrow> bytes" where
  "rts_blob s = [2, of_bool (rs_notif_visual s), of_bool (rs_notif_audible s), rs_contact_count s, rs_lock_flags s]
     @ telemetry_bytes (rs_contact_telemetry s) @ [rs_screen_sleep_timeout_s s]
     @ to_le16 (rs_lock_timeout_s s) @ [rs_backlight_brightness s]"

lemma rts_serialize_spec:
  assumes "settings_ok s" and "25 \<le> length out"
  shows "rts_serialize s out = Some (put (rts_blob s) out, 25)"
proof -
  have ranges: "length (rs_contact_telemetry s) = 16" "min (rs_screen_sleep_timeout_s s) 120 = rs_screen_sleep_timeout_s s"
    "clamp (rs_lock_timeout_s s) 15 3600 = rs_lock_timeout_s s"
    "clamp (rs_backlight_brightness s) 10 100 = rs_backlight_brightness s"
    using assms(1) by (simp_all add: settings_ok_def clamp_id min_def)
  show ?thesis
    using assms(2) ranges write_telemetry_spec [of 0 16 "rs_contact_telemetry s"]
    by (cases "out = []") (simp_all add: rts_serialize_def rts_blob_def rts_consts lock_consts emit to_le16_def
      telemetry_bytes_def Let_def)
qed

definition common_of :: "bytes \<Rightarrow> RuntimeSettings" where
  "common_of blob = default_enabled\<lparr>rs_notif_visual := blob ! 1 \<noteq> 0, rs_notif_audible := blob ! 2 \<noteq> 0,
     rs_contact_count := blob ! 3, rs_lock_flags := blob ! 4,
     rs_contact_telemetry := map (\<lambda>b. b \<noteq> 0) (take 16 (drop 5 blob))\<rparr>"

lemma parse_common_fields_spec:
  "21 \<le> length blob \<Longrightarrow> parse_common_fields blob = Some (common_of blob)"
  using read_telemetry_spec [of "[]" 0 "replicate 16 False" 16 blob]
  by (simp add: parse_common_fields_def common_of_def get_at_def default_enabled_def MAX_CONTACTS_def)

text \<open>What a stored blob gives back, by version and length.\<close>

lemma rts_deserialize_spec:
  "rts_deserialize blob = Some (
     if blob = [] then None
     else if blob ! 0 = 2 \<and> 24 \<le> length blob then
       Some ((common_of blob)\<lparr>rs_screen_sleep_timeout_s := min (blob ! 21) 120,
         rs_lock_timeout_s := clamp (from_le16 (blob ! 22) (blob ! 23)) 15 3600,
         rs_backlight_brightness := (if 25 \<le> length blob then clamp (blob ! 24) 10 100 else 100)\<rparr>)
     else if blob ! 0 = 1 \<and> 21 \<le> length blob then
       Some ((common_of blob)\<lparr>rs_screen_sleep_timeout_s := (if 22 \<le> length blob then min (blob ! 21) 120 else 30),
         rs_lock_timeout_s := 300, rs_backlight_brightness := 100\<rparr>)
     else None)"
  by (auto simp: rts_deserialize_def rts_consts lock_consts parse_common_fields_spec get_at_def)

lemma rts_deserialize_ok:
  assumes "rts_deserialize blob = Some (Some s)"
  shows "settings_ok s"
  using assms clamp_bounds [of "15 :: u16" 3600] clamp_bounds [of "10 :: u8" 100]
  by (auto simp: rts_deserialize_spec settings_ok_def common_of_def default_enabled_def split: if_splits)

lemma rts_blob_fields:
  assumes "length (rs_contact_telemetry s) = 16"
  shows "length (rts_blob s) = 25" "rts_blob s ! 0 = 2" "rts_blob s ! 1 = of_bool (rs_notif_visual s)"
    "rts_blob s ! 2 = of_bool (rs_notif_audible s)" "rts_blob s ! 3 = rs_contact_count s"
    "rts_blob s ! 4 = rs_lock_flags s" "take 16 (drop 5 (rts_blob s)) = telemetry_bytes (rs_contact_telemetry s)"
    "rts_blob s ! 21 = rs_screen_sleep_timeout_s s" "rts_blob s ! 22 = ucast (rs_lock_timeout_s s)"
    "rts_blob s ! 23 = ucast (drop_bit 8 (rs_lock_timeout_s s))" "rts_blob s ! 24 = rs_backlight_brightness s"
  using assms by (simp_all add: rts_blob_def telemetry_bytes_def to_le16_def nth_append)

lemma settings_eq_blob:
  assumes "length (rs_contact_telemetry s) = 16" and "length blob \<ge> 21"
    and "\<And>i. 1 \<le> i \<Longrightarrow> i < 21 \<Longrightarrow> blob ! i = rts_blob s ! i"
  shows "common_of blob = s\<lparr>rs_screen_sleep_timeout_s := 30, rs_lock_timeout_s := 300, rs_backlight_brightness := 100\<rparr>"
proof -
  have "take 16 (drop 5 blob) = take 16 (drop 5 (rts_blob s))"
    using assms rts_blob_fields(1) [of s] by (intro nth_equalityI) (auto simp: add.commute)
  then have "map (\<lambda>b. b \<noteq> 0) (take 16 (drop 5 blob)) = rs_contact_telemetry s"
    using rts_blob_fields(7) [OF assms(1)] by (simp add: telemetry_bytes_def comp_def)
  then show ?thesis
    using assms(3) [of 1] assms(3) [of 2] assms(3) [of 3] assms(3) [of 4] rts_blob_fields [OF assms(1)]
    by (simp add: common_of_def default_enabled_def lock_consts)
qed

text \<open>the settings survive the store: what is written is read back unchanged, and a blob of any of the three
  older layouts (the current version without the brightness byte, the first version with and without the
  sleep byte) gives back every field it holds and the default of the others.\<close>

theorem settings_survive_store:
  assumes "settings_ok s" and "25 \<le> length out"
  shows "\<exists>out'. rts_serialize s out = Some (out', 25) \<and>
    rts_deserialize (take 25 out') = Some (Some s) \<and>
    rts_deserialize (take 24 out') = Some (Some (s\<lparr>rs_backlight_brightness := 100\<rparr>)) \<and>
    rts_deserialize (VERSION_V1 # take 21 (drop 1 out')) =
      Some (Some (s\<lparr>rs_lock_timeout_s := 300, rs_backlight_brightness := 100\<rparr>)) \<and>
    rts_deserialize (VERSION_V1 # take 20 (drop 1 out')) =
      Some (Some (s\<lparr>rs_screen_sleep_timeout_s := 30, rs_lock_timeout_s := 300, rs_backlight_brightness := 100\<rparr>))"
proof -
  let ?b = "rts_blob s"
  have tel: "length (rs_contact_telemetry s) = 16"
    using assms(1) by (simp add: settings_ok_def)
  note f = rts_blob_fields [OF tel]
  have ranges: "min (rs_screen_sleep_timeout_s s) 120 = rs_screen_sleep_timeout_s s"
    "clamp (rs_lock_timeout_s s) 15 3600 = rs_lock_timeout_s s"
    "clamp (rs_backlight_brightness s) 10 100 = rs_backlight_brightness s"
    using assms(1) by (simp_all add: settings_ok_def clamp_id min_def)
  have b25: "take 25 (put ?b out) = ?b" and b24: "take 24 (put ?b out) = take 24 ?b"
    and b21: "take 21 (drop 1 (put ?b out)) = take 21 (drop 1 ?b)"
    and b20: "take 20 (drop 1 (put ?b out)) = take 20 (drop 1 ?b)"
    using f(1) assms(2) by (simp_all add: put_def)
  have "rts_deserialize ?b = Some (Some s)"
    using settings_eq_blob [OF tel, of ?b] ranges f
    by (auto simp: rts_deserialize_spec from_to_le16)
  moreover have "rts_deserialize (take 24 ?b) = Some (Some (s\<lparr>rs_backlight_brightness := 100\<rparr>))"
    using settings_eq_blob [OF tel, of "take 24 ?b"] ranges f
    by (auto simp: rts_deserialize_spec from_to_le16)
  moreover have "rts_deserialize (VERSION_V1 # take 21 (drop 1 ?b)) =
      Some (Some (s\<lparr>rs_lock_timeout_s := 300, rs_backlight_brightness := 100\<rparr>))"
    using settings_eq_blob [OF tel, of "1 # take 21 (drop 1 ?b)"] ranges f
    by (auto simp: rts_deserialize_spec VERSION_V1_def nth_Cons')
  moreover have "rts_deserialize (VERSION_V1 # take 20 (drop 1 ?b)) =
      Some (Some (s\<lparr>rs_screen_sleep_timeout_s := 30, rs_lock_timeout_s := 300, rs_backlight_brightness := 100\<rparr>))"
    using settings_eq_blob [OF tel, of "1 # take 20 (drop 1 ?b)"] f
    by (auto simp: rts_deserialize_spec VERSION_V1_def nth_Cons')
  ultimately show ?thesis
    using rts_serialize_spec [OF assms] b25 b24 b21 b20 by auto
qed

theorem settings_survive_store_witness:
  "\<exists>out'. rts_serialize default_enabled (zeros 25) = Some (out', 25) \<and>
    rts_deserialize (take 25 out') = Some (Some default_enabled)"
  using settings_survive_store [OF settings_ok_default, of "zeros 25"] by auto

section \<open>The PIN check\<close>

lemma or_u8_zero_iff: "a OR b = 0 \<longleftrightarrow> a = 0 \<and> b = 0" for a b :: u8
  by (metis or_eq_0_iff)

lemma foldl_or_zero: "foldl (OR) m xs = 0 \<longleftrightarrow> m = 0 \<and> (\<forall>x \<in> set xs. x = 0)" for m :: u8
  by (induction xs arbitrary: m) (auto simp: or_u8_zero_iff)

definition typed_at :: "bytes \<Rightarrow> nat \<Rightarrow> u8" where
  "typed_at entered j = (if j < length entered then entered ! j else 0)"

lemma xor_u8_zero_iff: "a XOR b = 0 \<longleftrightarrow> a = b" for a b :: u8
  using xor_or_zero_iff [of a b 0 0] by simp

lemma pin_diff_spec:
  "i + k \<le> length stored \<Longrightarrow> \<exists>r. pin_diff entered stored i k m = Some r \<and>
     (r = 0 \<longleftrightarrow> m = 0 \<and> (\<forall>j. i \<le> j \<and> j < i + k \<longrightarrow> typed_at entered j = stored ! j))"
proof (induction k arbitrary: i m)
  case (Suc k)
  have split: "(\<forall>j. i \<le> j \<and> j < i + Suc k \<longrightarrow> P j) \<longleftrightarrow> P i \<and> (\<forall>j. Suc i \<le> j \<and> j < Suc i + k \<longrightarrow> P j)" for P
    by (metis Suc_le_eq add_Suc add_Suc_right le_eq_less_or_eq less_add_Suc1)
  obtain r where "pin_diff entered stored (Suc i) k (m OR (typed_at entered i XOR stored ! i)) = Some r"
    "r = 0 \<longleftrightarrow> (m OR (typed_at entered i XOR stored ! i)) = 0 \<and>
      (\<forall>j. Suc i \<le> j \<and> j < Suc i + k \<longrightarrow> typed_at entered j = stored ! j)"
    using Suc.IH [of "Suc i"] Suc.prems by (metis add_Suc add_Suc_right)
  moreover have "pin_diff entered stored i (Suc k) m =
      pin_diff entered stored (Suc i) k (m OR (typed_at entered i XOR stored ! i))"
    using Suc.prems by (simp add: get_at_def typed_at_def)
  ultimately show ?case
    unfolding split by (auto simp: or_u8_zero_iff xor_u8_zero_iff)
qed auto

text \<open>The check accepts exactly the stored PIN, when the unused tail of the stored array is zero.\<close>

lemma padded_equal_iff:
  assumes "length pin \<le> cap"
  shows "(\<forall>j < cap. typed_at entered j = pad cap pin ! j) \<and> length entered = length pin \<longleftrightarrow> entered = pin"
  using assms by (auto simp: pad_def typed_at_def nth_append list_eq_iff_nth_eq)

lemma pin_check:
  assumes "length pin = unat len" "length pin \<le> cap"
  shows "\<exists>m. pin_diff entered (pad cap pin) 0 cap (if length entered \<noteq> unat len then 1 else 0) = Some m \<and>
    (foldl (OR) m (drop (unat len) entered) = 0 \<longleftrightarrow> entered = pin)"
proof -
  let ?m0 = "if length entered \<noteq> unat len then 1 else 0 :: u8"
  have "0 + cap \<le> length (pad cap pin)"
    using assms(2) by simp
  from pin_diff_spec [OF this, of entered ?m0]
  obtain m where m: "pin_diff entered (pad cap pin) 0 cap ?m0 = Some m"
    and "m = 0 \<longleftrightarrow> ?m0 = 0 \<and> (\<forall>j. 0 \<le> j \<and> j < 0 + cap \<longrightarrow> typed_at entered j = pad cap pin ! j)"
    by (elim exE conjE)
  then have "m = 0 \<longleftrightarrow> entered = pin"
    using padded_equal_iff [OF assms(2), of entered] assms(1) by (auto split: if_splits)
  then show ?thesis
    using m assms(1) by (auto simp: foldl_or_zero)
qed

lemma lock_verify_spec:
  assumes "length pin = unat len" "length pin \<le> 4"
  shows "lock_verify entered (pad 4 pin) len = Some (entered = pin \<and> pin \<noteq> [])"
  using pin_check [OF assms, of entered] assms(1) by (auto simp: lock_verify_def LOCK_PIN_LEN_def Let_def)

lemma verify_pin_spec:
  assumes "length pin = unat len" "length pin \<le> 16"
  shows "verify_pin entered (pad 16 pin) len = Some (entered = pin \<and> pin \<noteq> [])"
  using pin_check [OF assms, of entered] assms(1) by (auto simp: verify_pin_def MAX_PIN_LEN_def Let_def)

section \<open>Opening the lock\<close>

text \<open>The state of the lock is well formed when its PIN is stored zero-padded and the settings are in range.\<close>

definition pin_ok :: "bytes \<Rightarrow> u8 \<Rightarrow> bool" where
  "pin_ok pin len \<longleftrightarrow> (\<exists>p. length p = unat len \<and> length p \<le> 4 \<and> pin = pad 4 p)"

definition lock_ok :: "LockUi \<Rightarrow> bool" where
  "lock_ok s \<longleftrightarrow> pin_ok (lu_pin s) (lu_pin_len s) \<and> settings_ok (lu_settings s)"

definition event_ok :: "lock_event \<Rightarrow> bool" where
  "event_ok e = (case e of
     BootSeed pin len settings \<Rightarrow> pin_ok pin len \<and> settings_ok settings
   | LockPinChanged pin len \<Rightarrow> pin_ok pin len
   | _ \<Rightarrow> True)"

definition lock_pin :: "LockUi \<Rightarrow> bytes" where
  "lock_pin s = take (unat (lu_pin_len s)) (lu_pin s)"

lemma lock_verify_ok:
  assumes "lock_ok s"
  shows "lock_verify digits (lu_pin s) (lu_pin_len s) = Some (digits = lock_pin s \<and> digits \<noteq> [])"
  using assms lock_verify_spec [of _ "lu_pin_len s" digits]
  by (auto simp: lock_ok_def pin_ok_def lock_pin_def)

lemma unlock_attempt_allowed_iff:
  "unlock_attempt_allowed now started l \<longleftrightarrow> l = 0 \<or> 1000 * unat l \<le> unat now - unat started"
  by (auto simp: unlock_attempt_allowed_def word_le_nat_alt unat_saturating_sub unat_seconds_ms)

lemma idle_lock_due_iff:
  "idle_lock_due enabled locked now active t \<longleftrightarrow> enabled \<and> \<not> locked \<and> 1000 * unat t \<le> unat now - unat active"
  by (auto simp: idle_lock_due_def word_le_nat_alt unat_saturating_sub unat_seconds_ms16)

lemma lockout_seconds_total: "\<exists>l. lockout_seconds_after_failure n = Some l"
  by (auto simp: lockout_seconds_after_failure_def get_at_def BACKOFF_STEPS_S_def Let_def min_def)

lemma process_confirm_spec:
  assumes "lock_ok s"
  shows "process_confirm s now digits =
    (if unlock_attempt_allowed now (lu_lockout_started_ms s) (lu_lockout_s s) then
       if digits = lock_pin s \<and> digits \<noteq> [] then
         Some (unlock (s\<lparr>lu_attempts := \<lparr>consecutive_failures = 0\<rparr>\<rparr>) now, Some \<lparr>uo_unlocked = True, uo_lockout_s = 0\<rparr>)
       else
         (let n = saturating_add32 (consecutive_failures (lu_attempts s)) 1; l = the (lockout_seconds_after_failure n) in
          Some (s\<lparr>lu_attempts := \<lparr>consecutive_failures = n\<rparr>, lu_lockout_s := l, lu_lockout_started_ms := now\<rparr>,
            Some \<lparr>uo_unlocked = False, uo_lockout_s = l\<rparr>))
     else Some (s, None))"
proof -
  obtain l where "lockout_seconds_after_failure (saturating_add32 (consecutive_failures (lu_attempts s)) 1) = Some l"
    using lockout_seconds_total by blast
  then show ?thesis
    using lock_verify_ok [OF assms, of digits]
    by (cases "lu_attempts s") (auto simp: process_confirm_def attempt_unlock_def Let_def)
qed

lemma check_idle_lock_keeps:
  "lu_locked s \<Longrightarrow> lu_locked (check_idle_lock s now)"
  "lock_ok (check_idle_lock s now) = lock_ok s"
  "lu_attempts (check_idle_lock s now) = lu_attempts s"
  "lu_lockout_s (check_idle_lock s now) = lu_lockout_s s"
  "lu_lockout_started_ms (check_idle_lock s now) = lu_lockout_started_ms s"
  by (auto simp: check_idle_lock_def trip_lock_def lock_ok_def Let_def)

lemma lockout_countdown_keeps:
  "lu_locked (lockout_countdown s now) = lu_locked s"
  "lock_ok (lockout_countdown s now) = lock_ok s"
  "lu_attempts (lockout_countdown s now) = lu_attempts s"
  "lu_settings (lockout_countdown s now) = lu_settings s"
  "lu_last_activity_ms (lockout_countdown s now) = lu_last_activity_ms s"
  "lu_lockout_started_ms (lockout_countdown s now) = lu_lockout_started_ms s"
  by (auto simp: lockout_countdown_def lock_ok_def Let_def)

lemma handle_lock_event_ok:
  assumes "lock_ok s" and "event_ok e"
  shows "\<exists>s' out. handle_lock_event s e = Some (s', out) \<and> lock_ok s'"
proof (cases e)
  case (Tick now pending)
  have "\<exists>s1 out. (case pending of None \<Rightarrow> Some (s, None) | Some digits \<Rightarrow> process_confirm s now digits) = Some (s1, out)
      \<and> lock_ok s1"
    using assms(1) by (cases pending) (auto simp: process_confirm_spec Let_def unlock_def lock_ok_def)
  then show ?thesis
    using Tick by (auto simp: lock_tick_def check_idle_lock_keeps lockout_countdown_keeps)
next
  case (Menu a)
  then show ?thesis
    using assms apply_menu_action_ok [of "lu_settings s" a] by (auto simp: lock_ok_def)
next
  case (LockConfigChanged f t)
  then show ?thesis
    using assms apply_menu_action_ok [of "lu_settings s" "SetLockFlags f"]
      apply_menu_action_ok [of "(lu_settings s)\<lparr>rs_lock_flags := f AND LOCK_FLAGS_DEFINED_MASK\<rparr>" "SetLockTimeout t"]
    by (auto simp: lock_ok_def)
qed (use assms in \<open>auto simp: event_ok_def lock_ok_def trip_lock_def Let_def\<close>)

text \<open>C29: the lock opens for the PIN and nothing else: whatever event a locked device handles, it never panics,
  and it is unlocked afterwards exactly when the event is a confirmed entry of the stored, non-empty PIN and
  no lockout is running.  An empty stored PIN opens for nothing.\<close>

theorem lock_opens_only_for_pin:
  assumes "lock_ok s" and "event_ok e" and "lu_locked s"
  shows "\<exists>s' out. handle_lock_event s e = Some (s', out) \<and>
    (\<not> lu_locked s' \<longleftrightarrow> (\<exists>now. e = Tick now (Some (lock_pin s)) \<and> lock_pin s \<noteq> [] \<and>
       (lu_lockout_s s = 0 \<or> 1000 * unat (lu_lockout_s s) \<le> unat now - unat (lu_lockout_started_ms s))))"
proof (cases e)
  case (Tick now pending)
  define s1 where "s1 = (case pending of None \<Rightarrow> s | Some digits \<Rightarrow> fst (the (process_confirm s now digits)))"
  have locked: "lu_locked s1 \<longleftrightarrow> \<not> (pending = Some (lock_pin s) \<and> lock_pin s \<noteq> [] \<and>
      unlock_attempt_allowed now (lu_lockout_started_ms s) (lu_lockout_s s))"
    and fresh: "\<not> lu_locked s1 \<Longrightarrow> lu_last_activity_ms s1 = now" and sets: "lu_settings s1 = lu_settings s"
    using assms(3) unfolding s1_def
    by (auto simp: process_confirm_spec [OF assms(1)] Let_def unlock_def split: option.splits if_splits)
  have step: "\<exists>out. (case pending of None \<Rightarrow> Some (s, None) | Some digits \<Rightarrow> process_confirm s now digits) = Some (s1, out)"
    unfolding s1_def by (cases pending) (auto simp: process_confirm_spec [OF assms(1)] Let_def)
  have "15 \<le> unat (rs_lock_timeout_s (lu_settings s))"
    using assms(1) by (simp add: lock_ok_def settings_ok_def word_le_nat_alt)
  then have "lu_locked (check_idle_lock (lockout_countdown s1 now) now) = lu_locked s1"
    using fresh sets by (auto simp: check_idle_lock_def lockout_countdown_keeps idle_lock_due_iff trip_lock_def Let_def)
  then show ?thesis
    using step locked Tick by (auto simp: lock_tick_def unlock_attempt_allowed_iff)
next
  case (Menu a)
  then show ?thesis
    using assms apply_menu_action_ok [of "lu_settings s" a] by (auto simp: lock_ok_def)
next
  case (LockConfigChanged f t)
  then show ?thesis
    using handle_lock_event_ok [OF assms(1,2)] assms(3) by auto
qed (use assms in \<open>auto simp: trip_lock_def Let_def\<close>)

definition demo_lock :: LockUi where
  "demo_lock = \<lparr>lu_locked = True, lu_attempts = \<lparr>consecutive_failures = 0\<rparr>, lu_lockout_started_ms = 0,
     lu_lockout_s = 0, lu_pin = [0x31, 0x32, 0x33, 0x34], lu_pin_len = 4, lu_settings = default_enabled,
     lu_last_activity_ms = 0\<rparr>"

lemma demo_lock_ok: "lock_ok demo_lock"
  unfolding lock_ok_def pin_ok_def demo_lock_def
  by (auto simp: settings_ok_default pad_def intro: exI [of _ "[0x31, 0x32, 0x33, 0x34]"])

theorem lock_opens_only_for_pin_witness:
  "\<exists>s' out. handle_lock_event demo_lock (Tick 5 (Some [0x31, 0x32, 0x33, 0x34])) = Some (s', out) \<and> \<not> lu_locked s'"
  using lock_opens_only_for_pin [OF demo_lock_ok, of "Tick 5 (Some [0x31, 0x32, 0x33, 0x34])"]
  by (auto simp: event_ok_def demo_lock_def lock_pin_def)

section \<open>Guessing the PIN takes time\<close>

definition backoff_s :: "nat \<Rightarrow> nat" where
  "backoff_s n = (if n \<le> 4 then 0 else [30, 60, 120, 300] ! min (n - 5) 3)"

definition backoff_total :: "nat \<Rightarrow> nat" where
  "backoff_total n = (\<Sum>i = 1..n. backoff_s i)"

lemma backoff_total_simps [simp]: "backoff_total 0 = 0" "backoff_total (Suc n) = backoff_total n + backoff_s (Suc n)"
  by (simp_all add: backoff_total_def)

lemma backoff_total_closed: "backoff_total (n + 7) = 210 + 300 * n"
  by (induction n) (simp_all add: backoff_s_def eval_nat_numeral)

lemma lockout_seconds_spec:
  "lockout_seconds_after_failure f = Some (of_nat (backoff_s (unat f)))"
proof (cases "f \<le> FREE_ATTEMPTS")
  case False
  then have "unat (f - FREE_ATTEMPTS - 1) = unat f - 5"
    by (simp add: FREE_ATTEMPTS_def word_le_nat_alt unat_sub_if' diff_diff_eq unat_word_ariths)
  moreover have "k < 4 \<Longrightarrow> BACKOFF_STEPS_S ! k = of_nat ([30, 60, 120, 300] ! k)" for k :: nat
    by (auto simp: BACKOFF_STEPS_S_def eval_nat_numeral less_Suc_eq)
  ultimately show ?thesis
    using False by (auto simp: lockout_seconds_after_failure_def backoff_s_def get_at_def FREE_ATTEMPTS_def
      word_le_nat_alt BACKOFF_STEPS_S_def Let_def numeral_3_eq_3)
qed (simp add: lockout_seconds_after_failure_def backoff_s_def FREE_ATTEMPTS_def word_le_nat_alt)

lemma backoff_s_le: "backoff_s n \<le> 300"
  by (auto simp: backoff_s_def min_def eval_nat_numeral nth_Cons split: nat.splits)

lemma backoff_s_cap: "backoff_s (min n (2 ^ 32 - 1)) = backoff_s n"
  by (auto simp: backoff_s_def min_def)

definition event_times :: "lock_event list \<Rightarrow> nat list" where
  "event_times evs = concat (map (\<lambda>e. case e of Tick now _ \<Rightarrow> [unat now] | _ \<Rightarrow> []) evs)"

text \<open>What holds after \<open>n\<close> wrong entries in a row, the first at \<open>t0\<close> or later, at time \<open>t\<close>.\<close>

definition guess_inv :: "nat \<Rightarrow> nat \<Rightarrow> nat \<Rightarrow> LockUi \<Rightarrow> bool" where
  "guess_inv t0 t n s \<longleftrightarrow> unat (consecutive_failures (lu_attempts s)) = min n (2 ^ 32 - 1) \<and>
     (n > 0 \<longrightarrow> unat (lu_lockout_started_ms s) \<le> t \<and> t0 \<le> unat (lu_lockout_started_ms s) \<and>
        1000 * backoff_total (n - 1) \<le> unat (lu_lockout_started_ms s) - t0 \<and>
        (unat (lu_lockout_s s) = backoff_s n \<or>
         lu_lockout_s s = 0 \<and> 1000 * backoff_s n \<le> t - unat (lu_lockout_started_ms s)))"

lemma guess_inv_later: "guess_inv t0 t n s \<Longrightarrow> t \<le> t' \<Longrightarrow> guess_inv t0 t' n s"
  by (auto simp: guess_inv_def)

lemma guess_inv_countdown:
  assumes "guess_inv t0 (unat now) n s"
  shows "guess_inv t0 (unat now) n (lockout_countdown s now)"
  using assms
  by (auto simp: guess_inv_def lockout_countdown_def Let_def word_le_nat_alt unat_saturating_sub unat_seconds_ms)

lemma guess_inv_idle: "guess_inv t0 t n (check_idle_lock s now) = guess_inv t0 t n s"
  by (simp add: guess_inv_def check_idle_lock_keeps)

text \<open>A scored wrong entry: the waiting time of the previous ones has passed.\<close>

lemma guess_inv_confirm:
  assumes "lock_ok s" "guess_inv t0 (unat now) n s" "t0 \<le> unat now"
    and "process_confirm s now digits = Some (s', out)" "\<And>r. out = Some r \<Longrightarrow> \<not> uo_unlocked r"
  shows "guess_inv t0 (unat now) (if out = None then n else Suc n) s'"
proof (cases "unlock_attempt_allowed now (lu_lockout_started_ms s) (lu_lockout_s s)")
  case True
  have waited: "1000 * backoff_total n \<le> unat now - t0"
  proof (cases n)
    case (Suc m)
    then have "1000 * backoff_s n \<le> unat now - unat (lu_lockout_started_ms s)"
      using assms(2) True by (auto simp: guess_inv_def unlock_attempt_allowed_iff)
    then show ?thesis
      using assms(2) Suc by (auto simp: guess_inv_def)
  qed simp
  let ?f = "saturating_add32 (consecutive_failures (lu_attempts s)) 1"
  have f: "unat ?f = min (Suc n) (2 ^ 32 - 1)"
    using assms(2) by (auto simp: unat_saturating_add32 guess_inv_def min_def)
  have "unat (of_nat (backoff_s (unat ?f)) :: u32) = backoff_s (Suc n)"
    using backoff_s_le [of "Suc n"] unfolding f backoff_s_cap by (simp add: unat_of_nat)
  then show ?thesis
    using True waited f assms(3-5)
    by (auto simp: process_confirm_spec [OF assms(1)] lockout_seconds_spec Let_def guess_inv_def split: if_splits)
next
  case False
  then show ?thesis
    using assms(2,4) by (simp add: process_confirm_spec [OF assms(1)])
qed

lemma guess_inv_tick:
  assumes "lock_ok s" "guess_inv t0 t n s" "t0 \<le> t" "t \<le> unat now"
    and tick: "lock_tick s now pending = Some (s', out)" and "\<And>r. out = Some r \<Longrightarrow> \<not> uo_unlocked r"
  shows "guess_inv t0 (unat now) (if out = None then n else Suc n) s'"
proof -
  obtain s1 where s1: "(case pending of None \<Rightarrow> Some (s, None) | Some digits \<Rightarrow> process_confirm s now digits) = Some (s1, out)"
    and s': "s' = check_idle_lock (lockout_countdown s1 now) now"
    using tick by (auto simp: lock_tick_def split: bind_splits)
  have "guess_inv t0 (unat now) (if out = None then n else Suc n) s1"
    using s1 guess_inv_later [OF assms(2,4)] guess_inv_confirm [OF assms(1), of t0 now n _ s1 out] assms(3,4,6)
    by (auto split: option.splits)
  then show ?thesis
    unfolding s' guess_inv_idle by (rule guess_inv_countdown)
qed

lemma guess_inv_other:
  assumes "handle_lock_event s e = Some (s', out)" "\<And>now pending. e \<noteq> Tick now pending"
  shows "out = None \<and> guess_inv t0 t n s' = guess_inv t0 t n s"
  using assms by (cases e) (auto simp: guess_inv_def trip_lock_def Let_def split: bind_splits if_splits)

lemma event_times_Cons:
  "event_times (e # evs) = (case e of Tick now _ \<Rightarrow> unat now # event_times evs | _ \<Rightarrow> event_times evs)"
  by (cases e) (simp_all add: event_times_def)

lemma guess_inv_run:
  assumes "lock_ok s" "\<forall>e \<in> set evs. event_ok e" "sorted (t # event_times evs)" "t0 \<le> t" "guess_inv t0 t n s"
    and "lock_run s evs = Some (s', outs)" "\<forall>r \<in> set outs. \<not> uo_unlocked r"
  shows "guess_inv t0 (last (t # event_times evs)) (n + length outs) s'"
  using assms
proof (induction evs arbitrary: s t n outs)
  case (Cons e evs)
  obtain s1 out outs1 where e: "handle_lock_event s e = Some (s1, out)" and r: "lock_run s1 evs = Some (s', outs1)"
    and outs: "outs = (case out of None \<Rightarrow> outs1 | Some r \<Rightarrow> r # outs1)"
    using Cons.prems(6) by (auto split: bind_splits)
  have ok: "lock_ok s1"
    using handle_lock_event_ok [OF Cons.prems(1), of e] Cons.prems(2) e by simp
  show ?case
  proof (cases "\<exists>now pending. e = Tick now pending")
    case True
    then obtain now pending where t: "e = Tick now pending"
      by blast
    have "guess_inv t0 (unat now) (if out = None then n else Suc n) s1"
      using guess_inv_tick [OF Cons.prems(1,5,4), of now pending s1 out] Cons.prems(3,7) e outs t
      by (auto simp: event_times_Cons)
    then show ?thesis
      using Cons.IH [OF ok _ _ _ _ r, of "unat now" "if out = None then n else Suc n"] Cons.prems t outs
      by (auto simp: event_times_Cons split: option.splits)
  next
    case False
    then have "event_times (e # evs) = event_times evs"
      by (cases e) (simp_all add: event_times_Cons)
    then show ?thesis
      using guess_inv_other [OF e] False Cons.IH [OF ok _ _ _ _ r, of t n] Cons.prems outs by simp
  qed
qed (simp add: event_times_def)

lemma lock_run_total:
  "lock_ok s \<Longrightarrow> \<forall>e \<in> set evs. event_ok e \<Longrightarrow> \<exists>s' outs. lock_run s evs = Some (s', outs) \<and> lock_ok s'"
proof (induction evs arbitrary: s)
  case (Cons e evs)
  obtain s1 out where "handle_lock_event s e = Some (s1, out)" "lock_ok s1"
    using handle_lock_event_ok [OF Cons.prems(1), of e] Cons.prems(2) by auto
  moreover obtain s' outs where "lock_run s1 evs = Some (s', outs)" "lock_ok s'"
    using Cons.IH [OF \<open>lock_ok s1\<close>] Cons.prems(2) by auto
  ultimately show ?case
    by simp
qed simp

text \<open>C30: guessing is slow: in any run of the lock with a clock that does not go back, starting with no recorded
  failure, eight or more scored entries none of which opened the lock take at least 210 seconds and another
  300 seconds for each one beyond the eighth, whatever was tapped, changed in the menu or sent by the host
  meanwhile.  The run never panics and leaves the settings in range.\<close>

theorem lock_guessing_bounded:
  assumes "lock_ok s" and "\<forall>e \<in> set evs. event_ok e" and "sorted (event_times evs)"
    and "consecutive_failures (lu_attempts s) = 0"
  shows "\<exists>s' outs. lock_run s evs = Some (s', outs) \<and> settings_ok (lu_settings s') \<and>
    (8 \<le> length outs \<and> (\<forall>r \<in> set outs. \<not> uo_unlocked r) \<longrightarrow>
       1000 * (210 + 300 * (length outs - 8)) \<le> last (event_times evs) - hd (event_times evs))"
proof -
  let ?t0 = "hd (event_times evs)"
  obtain s' outs where run: "lock_run s evs = Some (s', outs)" and ok: "lock_ok s'"
    using lock_run_total [OF assms(1,2)] by blast
  have "1000 * (210 + 300 * (length outs - 8)) \<le> last (event_times evs) - ?t0"
    if n: "8 \<le> length outs" and closed: "\<forall>r \<in> set outs. \<not> uo_unlocked r"
  proof -
    have "sorted (?t0 # event_times evs)" and "guess_inv ?t0 ?t0 0 s"
      using assms(3,4) by (cases "event_times evs"; simp add: guess_inv_def)+
    then have inv: "guess_inv ?t0 (last (?t0 # event_times evs)) (length outs) s'"
      using guess_inv_run [OF assms(1,2) _ order_refl _ run closed, of ?t0 0] by simp
    have "backoff_total (length outs - 1) = 210 + 300 * (length outs - 8)"
      using backoff_total_closed [of "length outs - 8"] n by (simp add: add.commute)
    then have "1000 * (210 + 300 * (length outs - 8)) \<le> last (?t0 # event_times evs) - ?t0"
      using inv n by (auto simp: guess_inv_def)
    then show ?thesis
      by (cases "event_times evs") auto
  qed
  then show ?thesis
    using run ok by (auto simp: lock_ok_def)
qed

definition demo_guesses :: "lock_event list" where
  "demo_guesses = map (\<lambda>now. Tick now (Some [0x39, 0x39, 0x39, 0x39])) [0, 1, 2, 3, 4, 30004, 90004, 210004]"

lemma demo_guesses_scored:
  "map_option (\<lambda>(_, outs). (length outs, list_ex uo_unlocked outs)) (lock_run demo_lock demo_guesses) = Some (8, False)"
proof -
  have "lock_verify [0x39, 0x39, 0x39, 0x39] [0x31, 0x32, 0x33, 0x34] 4 = Some False"
    using lock_verify_spec [of "[0x31, 0x32, 0x33, 0x34]" 4] by (simp add: pad_def)
  then show ?thesis
    by (simp add: demo_guesses_def demo_lock_def lock_tick_def process_confirm_def unlock_attempt_allowed_def
      saturating_sub_def saturating_mul_def saturating_add32_def attempt_unlock_def
      lockout_seconds_after_failure_def FREE_ATTEMPTS_def BACKOFF_STEPS_S_def get_at_def
      lockout_countdown_def check_idle_lock_def idle_lock_due_def default_enabled_def)
qed

lemma demo_guesses_ok:
  "(\<forall>e \<in> set demo_guesses. event_ok e) \<and> sorted (event_times demo_guesses) \<and>
   last (event_times demo_guesses) - hd (event_times demo_guesses) = 210004"
  by (simp add: demo_guesses_def event_ok_def event_times_def)

theorem lock_guessing_bounded_witness:
  "\<exists>s' outs. lock_run demo_lock demo_guesses = Some (s', outs) \<and> length outs = 8 \<and> (210000 :: nat) \<le> 210004"
proof -
  obtain s' outs where r: "lock_run demo_lock demo_guesses = Some (s', outs)"
    and b: "8 \<le> length outs \<and> (\<forall>r \<in> set outs. \<not> uo_unlocked r) \<longrightarrow>
      1000 * (210 + 300 * (length outs - 8)) \<le> last (event_times demo_guesses) - hd (event_times demo_guesses)"
    using lock_guessing_bounded [OF demo_lock_ok, of demo_guesses] demo_guesses_ok by (auto simp: demo_lock_def)
  have "length outs = 8" "\<forall>r \<in> set outs. \<not> uo_unlocked r"
    using demo_guesses_scored r by (auto simp: list_ex_iff)
  then show ?thesis
    using b r demo_guesses_ok by simp
qed

end
