(* ===== verification/Room_Session.thy ===== *)
theory Room_Session
  imports Room_Server Region_Scope History
begin

text \<open>
  \<open>firmware-core/src/room_session.rs\<close> without its drain window (that is \<open>Room_Sync_Phase\<close>): the client's
  side of a room session.  Login frames and replies, the learned state and its stored form, transmit
  timestamps, the clock adopted from room servers, pushed posts with their duplicate check, checked
  posts, keep-alive frames and the detector of dead routes.
\<close>

section \<open>Errors and constants\<close>

datatype RoomSessionError = RS_Codec CodecError | RS_Room RoomCodecError | RS_NotLoginReply

definition MAX_PATH :: nat where
  "MAX_PATH = 64"

definition PRE_SYNC_GUARD_LEN :: nat where
  "PRE_SYNC_GUARD_LEN = 1 + 4 + 1 + MAX_PATH + 4"

definition PERSISTED_ROOM_SESSION_LEN :: nat where
  "PERSISTED_ROOM_SESSION_LEN = PRE_SYNC_GUARD_LEN + 1"

definition ROOM_CLOCK_PLAUSIBILITY_CEILING_SECS :: u32 where
  "ROOM_CLOCK_PLAUSIBILITY_CEILING_SECS = 4102444800"

definition SYNC_SINCE_SERVER_CLOCK_SLACK_SECS :: u32 where
  "SYNC_SINCE_SERVER_CLOCK_SLACK_SECS = 86400"

definition SYNC_SINCE_REWIND_FLOOR :: u32 where
  "SYNC_SINCE_REWIND_FLOOR = 1"

definition MAX_LOGIN_FRAME_LEN :: nat where
  "MAX_LOGIN_FRAME_LEN = 2 + TRANSPORT_CODE_BYTES + 1 + 32 + 2 + 32"

definition MAX_POST_FRAME_LEN :: nat where
  "MAX_POST_FRAME_LEN = 2 + TRANSPORT_CODE_BYTES + 2 + (((6 + MAX_POST_TEXT_LEN + 1) div 16) + 1) * 16"

definition MAX_KEEP_ALIVE_FRAME_LEN :: nat where
  "MAX_KEEP_ALIVE_FRAME_LEN = 2 + MAX_PATH + 20"

definition KEEP_ALIVE_STALL_THRESHOLD :: u8 where
  "KEEP_ALIVE_STALL_THRESHOLD = 2"

section \<open>Login\<close>

text \<open>\<open>f(&mut out[2..])\<close>: the callee writes the tail, the first two bytes stay.\<close>

definition encode_room_login_frame ::
    "crypto_prims \<Rightarrow> bytes \<Rightarrow> u8 \<Rightarrow> bytes \<Rightarrow> u32 \<Rightarrow> u32 \<Rightarrow> bytes \<Rightarrow> bytes option \<Rightarrow> bytes \<Rightarrow> (bytes \<times> nat) rust" where
  "encode_room_login_frame C shared_secret dest_hash sender_pubkey timestamp sync_since password scope out = do {
     path_len \<leftarrow> PathLen_new 2 0;
     body \<leftarrow> slice_from out 2;
     (body, payload_len) \<leftarrow> encode_anon_req_login C shared_secret dest_hash sender_pubkey timestamp sync_since password body;
     assemble_flood_frame C scope (take 2 out @ body) PT_AnonReq path_len payload_len
   }"

record RoomLoginOutcome =
  lo_permissions :: RoomPermission
  lo_out_path :: "(bytes \<times> nat) option"
  lo_server_ts :: u32

definition decode_login_response_datagram ::
    "crypto_prims \<Rightarrow> bytes \<Rightarrow> bytes \<Rightarrow> (RoomSessionError + RoomLoginOutcome) rust" where
  "decode_login_response_datagram C shared_secret payload = do {
     (pt, r) \<leftarrow> decode_dm_payload C shared_secret payload (zeros 32);
     (case r of
        Inl e \<Rightarrow> Some (Inl (RS_Codec e))
      | Inr (_, _, n) \<Rightarrow> do {
          p \<leftarrow> slice pt 0 n;
          (case decode_login_response p of
             Inl e \<Rightarrow> Some (Inl (RS_Room e))
           | Inr resp \<Rightarrow> Some (Inr \<lparr>lo_permissions = lr_permissions resp, lo_out_path = None,
               lo_server_ts = lr_server_ts resp\<rparr>))
        })
   }"

definition decode_login_path_return ::
    "crypto_prims \<Rightarrow> bytes \<Rightarrow> bytes \<Rightarrow> (RoomSessionError + RoomLoginOutcome) rust" where
  "decode_login_path_return C shared_secret payload = do {
     (_, r) \<leftarrow> decode_path_return C shared_secret payload (zeros 256);
     (case r of
        Inl e \<Rightarrow> Some (Inl (RS_Codec e))
      | Inr (_, _, rp) \<Rightarrow>
          (case rp_extra rp of
             PE_Response bundled \<Rightarrow>
               (case decode_login_response bundled of
                  Inl e \<Rightarrow> Some (Inl (RS_Room e))
                | Inr resp \<Rightarrow> Some (Inr \<lparr>lo_permissions = lr_permissions resp,
                    lo_out_path = Some (rp_path rp, rp_path_byte_count rp), lo_server_ts = lr_server_ts resp\<rparr>))
           | _ \<Rightarrow> Some (Inl RS_NotLoginReply)))
   }"

text \<open>The provisioned seed of a room, \<open>firmware-core/src/config_store.rs\<close>.\<close>

record RoomExtra =
  re_pubkey :: bytes
  re_guest_password :: bytes
  re_guest_password_len :: u8
  re_sync_since :: u32
  re_permissions :: u8
  re_out_path :: bytes
  re_out_path_len :: u8

definition apply_login_outcome :: "RoomExtra \<Rightarrow> RoomLoginOutcome \<Rightarrow> RoomExtra" where
  "apply_login_outcome extra outcome =
     (let extra = extra\<lparr>re_permissions := perm_u8 (lo_permissions outcome)\<rparr> in
      case lo_out_path outcome of
        None \<Rightarrow> extra
      | Some (path, path_byte_count) \<Rightarrow>
          extra\<lparr>re_out_path := path, re_out_path_len := of_nat (min path_byte_count 255)\<rparr>)"

section \<open>The learned state of a session\<close>

record PersistedRoomSession =
  pr_permissions :: u8
  pr_sync_since :: u32
  pr_out_path :: bytes
  pr_out_path_len :: u8
  pr_last_room_ts :: u32
  pr_route_known :: bool

definition PersistedRoomSession_EMPTY :: PersistedRoomSession where
  "PersistedRoomSession_EMPTY = \<lparr>pr_permissions = 0, pr_sync_since = 0, pr_out_path = zeros MAX_PATH,
     pr_out_path_len = 0, pr_last_room_ts = 0, pr_route_known = False\<rparr>"

definition from_room_extra :: "RoomExtra \<Rightarrow> PersistedRoomSession" where
  "from_room_extra extra = \<lparr>pr_permissions = re_permissions extra, pr_sync_since = re_sync_since extra,
     pr_out_path = re_out_path extra, pr_out_path_len = re_out_path_len extra, pr_last_room_ts = 0,
     pr_route_known = (re_out_path_len extra > 0)\<rparr>"

definition session_permission :: "PersistedRoomSession \<Rightarrow> RoomPermission" where
  "session_permission s = RoomPermission_from_u8 (pr_permissions s)"

definition has_route :: "PersistedRoomSession \<Rightarrow> bool" where
  "has_route s = pr_route_known s"

definition invalidate_route :: "PersistedRoomSession \<Rightarrow> PersistedRoomSession" where
  "invalidate_route s = s\<lparr>pr_route_known := False, pr_out_path_len := 0\<rparr>"

definition session_apply_login :: "PersistedRoomSession \<Rightarrow> RoomLoginOutcome \<Rightarrow> PersistedRoomSession" where
  "session_apply_login s outcome =
     (let s = s\<lparr>pr_permissions := perm_u8 (lo_permissions outcome)\<rparr> in
      case lo_out_path outcome of
        None \<Rightarrow> s
      | Some (path, path_byte_count) \<Rightarrow>
          s\<lparr>pr_out_path := path, pr_out_path_len := of_nat (min path_byte_count 255), pr_route_known := True\<rparr>)"

definition record_sent_timestamp :: "PersistedRoomSession \<Rightarrow> u32 \<Rightarrow> PersistedRoomSession" where
  "record_sent_timestamp s ts = (if ts > pr_last_room_ts s then s\<lparr>pr_last_room_ts := ts\<rparr> else s)"

definition record_synced_post_ts :: "PersistedRoomSession \<Rightarrow> u32 \<Rightarrow> PersistedRoomSession" where
  "record_synced_post_ts s post_ts = (if post_ts > pr_sync_since s then s\<lparr>pr_sync_since := post_ts\<rparr> else s)"

definition encode_persisted_room_session :: "PersistedRoomSession \<Rightarrow> bytes \<Rightarrow> (bytes \<times> nat) rust" where
  "encode_persisted_room_session state out = do {
     out \<leftarrow> set_at out 0 (pr_permissions state);
     out \<leftarrow> copy_into out 1 (to_le32 (pr_sync_since state));
     out \<leftarrow> set_at out 5 (pr_out_path_len state);
     out \<leftarrow> copy_into out 6 (pr_out_path state);
     let ts_off = 6 + MAX_PATH;
     out \<leftarrow> copy_into out ts_off (to_le32 (pr_last_room_ts state));
     Some (out, PRE_SYNC_GUARD_LEN)
   }"

definition decode_persisted_room_session :: "bytes \<Rightarrow> PersistedRoomSession option rust" where
  "decode_persisted_room_session blob =
     (if length blob < PRE_SYNC_GUARD_LEN then Some None
      else do {
        let permissions = blob ! 0;
        let sync_since = from_le32 (blob ! 1) (blob ! 2) (blob ! 3) (blob ! 4);
        let out_path_len = blob ! 5;
        if unat out_path_len > MAX_PATH then Some None
        else do {
          out_path \<leftarrow> slice blob 6 (6 + MAX_PATH);
          let ts_off = 6 + MAX_PATH;
          let last_room_ts = from_le32 (blob ! ts_off) (blob ! (ts_off + 1)) (blob ! (ts_off + 2)) (blob ! (ts_off + 3));
          Some (Some \<lparr>pr_permissions = permissions, pr_sync_since = sync_since, pr_out_path = out_path,
            pr_out_path_len = out_path_len, pr_last_room_ts = last_room_ts, pr_route_known = (out_path_len > 0)\<rparr>)
        }
      })"

section \<open>Clocks and timestamps\<close>

definition room_tx_timestamp :: "u32 option \<Rightarrow> u32 \<Rightarrow> u32" where
  "room_tx_timestamp trusted_wall_clock_secs last_room_ts =
     (let lowest = saturating_add32 last_room_ts 1 in
      case trusted_wall_clock_secs of Some wall \<Rightarrow> max wall lowest | None \<Rightarrow> lowest)"

datatype ClockSource = CS_None | CS_Gps | CS_GpsUnverified | CS_RoomServer

record AdoptedServerClock =
  ac_anchor_uptime_ms :: u64
  ac_anchor_unix_secs :: u32

definition now_secs :: "AdoptedServerClock \<Rightarrow> u64 \<Rightarrow> u32" where
  "now_secs c now_ms =
     (let elapsed_secs = saturating_sub now_ms (ac_anchor_uptime_ms c) div 1000 in
      saturating_add32 (ac_anchor_unix_secs c) (ucast elapsed_secs))"

definition age_secs :: "AdoptedServerClock \<Rightarrow> u64 \<Rightarrow> u32" where
  "age_secs c now_ms = ucast (saturating_sub now_ms (ac_anchor_uptime_ms c) div 1000)"

definition adopt_server_clock :: "AdoptedServerClock option \<Rightarrow> bool \<Rightarrow> u64 \<Rightarrow> u32 \<Rightarrow> AdoptedServerClock option" where
  "adopt_server_clock current gps_verified now_ms server_ts =
     (if gps_verified then current
      else if server_ts \<ge> ROOM_CLOCK_PLAUSIBILITY_CEILING_SECS then current
      else
        let fresh = Some \<lparr>ac_anchor_uptime_ms = now_ms, ac_anchor_unix_secs = server_ts\<rparr> in
        case current of
          Some existing \<Rightarrow> if server_ts < now_secs existing now_ms then Some existing else fresh
        | None \<Rightarrow> fresh)"

definition reconcile_sync_since :: "u32 \<Rightarrow> u32 \<Rightarrow> u32 option" where
  "reconcile_sync_since sync_since server_ts =
     (if server_ts = 0 \<or> server_ts \<ge> ROOM_CLOCK_PLAUSIBILITY_CEILING_SECS then None
      else if sync_since \<le> saturating_add32 server_ts SYNC_SINCE_SERVER_CLOCK_SLACK_SECS then None
      else if sync_since = SYNC_SINCE_REWIND_FLOOR then None
      else Some SYNC_SINCE_REWIND_FLOOR)"

definition trusted_wall_clock_secs ::
    "u32 option \<Rightarrow> bool \<Rightarrow> AdoptedServerClock option \<Rightarrow> u64 \<Rightarrow> u32 option \<times> ClockSource" where
  "trusted_wall_clock_secs gps_secs gps_verified server_clock now_ms =
     (case (gps_secs, gps_verified) of
        (Some secs, True) \<Rightarrow> (Some secs, CS_Gps)
      | _ \<Rightarrow> (case server_clock of
            Some clock \<Rightarrow> (Some (now_secs clock now_ms), CS_RoomServer)
          | None \<Rightarrow> (case gps_secs of
                Some secs \<Rightarrow> (Some secs, CS_GpsUnverified)
              | None \<Rightarrow> (None, CS_None))))"

definition room_post_history_timestamp :: "u32 option \<Rightarrow> u32" where
  "room_post_history_timestamp wall = (case wall of Some t \<Rightarrow> t | None \<Rightarrow> TIMESTAMP_UNKNOWN)"

definition room_session_persist_is_current :: "u8 \<Rightarrow> u8 \<Rightarrow> bool" where
  "room_session_persist_is_current remembered_epoch current_epoch = (remembered_epoch = current_epoch)"

definition next_room_session_epoch :: "u8 \<Rightarrow> u8" where
  "next_room_session_epoch current = current + 1"

section \<open>Pushed posts\<close>

record RoomPushOutcome =
  po_ack_hash :: bytes
  po_post_ts :: u32
  po_entry :: "HistoryEntry option"
  po_author_pubkey_prefix :: bytes

definition is_duplicate_post :: "HistoryEntry list \<Rightarrow> u32 \<Rightarrow> bytes \<Rightarrow> bool" where
  "is_duplicate_post recent post_ts msg =
     list_ex (\<lambda>e. if he_timestamp e \<noteq> post_ts then False
       else (let stored = take (min (unat (he_text_len e)) (length (he_text e))) (he_text e);
                 (_, stored_body) = parse_channel_text stored in
             stored_body = msg)) recent"

definition build_history_entry :: "u8 \<Rightarrow> u32 \<Rightarrow> bytes \<Rightarrow> HistoryEntry rust" where
  "build_history_entry conv_hash post_ts msg = do {
     let text_len = min (length msg) MAX_HISTORY_TEXT_LEN;
     buf \<leftarrow> read_field MAX_HISTORY_TEXT_LEN msg 0 text_len;
     Some \<lparr>he_sender_hash = conv_hash, he_msg_type = HM_Dm, he_timestamp = post_ts, he_text = buf,
       he_text_len = of_nat text_len\<rparr>
   }"

definition handle_room_push ::
    "crypto_prims \<Rightarrow> bytes \<Rightarrow> bytes \<Rightarrow> bytes \<Rightarrow> u8 \<Rightarrow> HistoryEntry list \<Rightarrow> (RoomSessionError + RoomPushOutcome) rust" where
  "handle_room_push C shared_secret payload client_pubkey conv_hash recent_history = do {
     (pt, r) \<leftarrow> decode_room_push C shared_secret payload (zeros 256);
     (case r of
        Inl e \<Rightarrow> Some (Inl (RS_Room e))
      | Inr (_, _, push) \<Rightarrow> do {
          body \<leftarrow> push_body push pt;
          let ack_hash = room_push_ack_hash C (rp_post_ts push) (rp_attempt push) body client_pubkey;
          msg \<leftarrow> slice pt (rp_text_offset push) (rp_text_offset push + rp_text_len push);
          entry \<leftarrow> (if is_duplicate_post recent_history (rp_post_ts push) msg then Some None
                    else do { e \<leftarrow> build_history_entry conv_hash (rp_post_ts push) msg; Some (Some e) });
          Some (Inr \<lparr>po_ack_hash = ack_hash, po_post_ts = rp_post_ts push, po_entry = entry,
            po_author_pubkey_prefix = rp_author_pubkey_prefix push\<rparr>)
        })
   }"

definition is_room_push_misroute :: "RoomSessionError \<Rightarrow> bool" where
  "is_room_push_misroute e = (case e of RS_Room RC_NotSignedPlain \<Rightarrow> True | _ \<Rightarrow> False)"

definition is_room_frame_for_us :: "bytes \<Rightarrow> u8 \<Rightarrow> bool" where
  "is_room_frame_for_us payload our_pub_hash =
     ((case get_opt payload 0 of Some b \<Rightarrow> b | None \<Rightarrow> 0) = our_pub_hash)"

text \<open>\<open>format!("{:02x}")\<close> of a byte, as ASCII.\<close>

definition hex_digit :: "nat \<Rightarrow> u8" where
  "hex_digit n = (if n < 10 then of_nat (48 + n) else of_nat (87 + n))"

definition hex02 :: "u8 \<Rightarrow> bytes" where
  "hex02 b = [hex_digit (unat b div 16), hex_digit (unat b mod 16)]"

definition room_post_sender_label :: "bytes option \<Rightarrow> bytes \<Rightarrow> bytes" where
  "room_post_sender_label contact_name author_pubkey_prefix =
     (case contact_name of
        Some name \<Rightarrow> if name \<noteq> [] then name else concat (map hex02 author_pubkey_prefix)
      | None \<Rightarrow> concat (map hex02 author_pubkey_prefix))"

section \<open>Posts and keep-alives\<close>

datatype RoomPostError = NonMonotonicTimestamp

definition encode_room_post_checked ::
    "crypto_prims \<Rightarrow> bytes \<Rightarrow> u8 \<Rightarrow> u8 \<Rightarrow> u32 \<Rightarrow> u32 \<Rightarrow> bytes \<Rightarrow> bytes \<Rightarrow> bytes option \<Rightarrow> bytes \<Rightarrow>
     (bytes \<times> (RoomPostError + nat \<times> bytes)) rust" where
  "encode_room_post_checked C shared_secret dest_hash src_hash candidate_ts last_room_ts msg client_pubkey scope out =
     (if candidate_ts \<le> last_room_ts then Some (out, Inl NonMonotonicTimestamp)
      else do {
        body \<leftarrow> slice_from out 2;
        (body, payload_len) \<leftarrow> encode_room_post C shared_secret dest_hash src_hash candidate_ts 0 msg body;
        let text_len = min (length msg) MAX_POST_TEXT_LEN;
        s \<leftarrow> slice msg 0 text_len;
        let ack = room_post_ack_hash C candidate_ts 0 s client_pubkey;
        path_len \<leftarrow> PathLen_new 2 0;
        (out, n) \<leftarrow> assemble_flood_frame C scope (take 2 out @ body) PT_TxtMsg path_len payload_len;
        Some (out, Inr (n, ack))
      })"

text \<open>The outer option is the panic, the inner one the refusal of a path longer than 63 hops.\<close>

definition encode_room_direct_prefix :: "PayloadType \<Rightarrow> bytes \<Rightarrow> bytes \<Rightarrow> (bytes \<times> nat option) rust" where
  "encode_room_direct_prefix ptype out_path out =
     (if length out_path > 255 then Some (out, None)
      else case PathLen_new 1 (of_nat (length out_path)) of
        None \<Rightarrow> Some (out, None)
      | Some path_len \<Rightarrow> do {
          out \<leftarrow> set_at out 0 (Header_new RT_Direct ptype);
          out \<leftarrow> set_at out 1 path_len;
          let n = unat (hop_count path_len);
          p \<leftarrow> slice out_path 0 n;
          out \<leftarrow> copy_into out 2 p;
          Some (out, Some (2 + n))
        })"

definition encode_room_keep_alive_frame ::
    "crypto_prims \<Rightarrow> bytes \<Rightarrow> u8 \<Rightarrow> u8 \<Rightarrow> bytes \<Rightarrow> u32 \<Rightarrow> u32 \<Rightarrow> bytes \<Rightarrow> (bytes \<times> nat option) rust" where
  "encode_room_keep_alive_frame C shared_secret dest_hash src_hash out_path timestamp force_since out = do {
     (out, p) \<leftarrow> encode_room_direct_prefix PT_Req out_path out;
     (case p of
        None \<Rightarrow> Some (out, None)
      | Some prefix_len \<Rightarrow> do {
          body \<leftarrow> slice_from out prefix_len;
          (body, n) \<leftarrow> encode_keep_alive C shared_secret dest_hash src_hash timestamp force_since body;
          Some (take prefix_len out @ body, Some (prefix_len + n))
        })
   }"

section \<open>Dead routes\<close>

record RoomKeepAliveStall =
  ks_missed :: u8

definition stall_new :: RoomKeepAliveStall where
  "stall_new = \<lparr>ks_missed = 0\<rparr>"

definition stall_reset :: "RoomKeepAliveStall \<Rightarrow> RoomKeepAliveStall" where
  "stall_reset s = s\<lparr>ks_missed := 0\<rparr>"

definition stall_on_tick ::
    "RoomKeepAliveStall \<Rightarrow> bool \<Rightarrow> PersistedRoomSession \<Rightarrow> RoomKeepAliveStall \<times> PersistedRoomSession \<times> bool" where
  "stall_on_tick s ack_outstanding session =
     (if \<not> ack_outstanding then (s, session, False)
      else
        let missed = (if ks_missed s = 255 then 255 else ks_missed s + 1) in
        if missed \<ge> KEEP_ALIVE_STALL_THRESHOLD then (\<lparr>ks_missed = 0\<rparr>, invalidate_route session, True)
        else (\<lparr>ks_missed = missed\<rparr>, session, False))"

definition keep_alive_tick_should_send :: "bool \<Rightarrow> bool" where
  "keep_alive_tick_should_send ack_outstanding = (\<not> ack_outstanding)"

definition room_keep_alive_interval_ms :: "u64 \<Rightarrow> bool \<Rightarrow> u64 \<Rightarrow> u64 \<Rightarrow> u64 \<Rightarrow> u64" where
  "room_keep_alive_interval_ms last_keep_alive_ms is_draining first_delay_ms draining_interval_ms routine_interval_ms =
     (if last_keep_alive_ms = 0 then first_delay_ms
      else if is_draining then draining_interval_ms
      else routine_interval_ms)"

definition room_reflood_interval_ms :: "u32 \<Rightarrow> u64 \<Rightarrow> u64 \<Rightarrow> u64" where
  "room_reflood_interval_ms attempts initial_ms ceiling_ms =
     min (saturating_mul initial_ms (push_bit (unat (min attempts 32)) 1)) ceiling_ms"

section \<open>Lemmas: pushed posts\<close>

definition history_entry :: "u8 \<Rightarrow> u32 \<Rightarrow> bytes \<Rightarrow> HistoryEntry" where
  "history_entry conv_hash post_ts msg = \<lparr>he_sender_hash = conv_hash, he_msg_type = HM_Dm, he_timestamp = post_ts,
     he_text = pad 64 (take 64 msg), he_text_len = of_nat (min (length msg) 64)\<rparr>"

lemma build_history_entry_spec: "build_history_entry conv_hash post_ts msg = Some (history_entry conv_hash post_ts msg)"
  using read_field_Some [of 0 "min (length msg) 64" msg 64]
  by (cases "length msg \<le> 64") (simp_all add: build_history_entry_def MAX_HISTORY_TEXT_LEN_def history_entry_def Let_def)

text \<open>The text a stored entry is compared by.\<close>

lemma stored_text:
  "take (min (unat (he_text_len (history_entry c ts msg))) (length (he_text (history_entry c ts msg))))
     (he_text (history_entry c ts msg)) = take 64 msg"
proof -
  have "unat (of_nat (min (length msg) 64) :: u8) = length (take 64 msg)"
    by (simp add: unat_of_nat min_def)
  moreover have "take (length (take 64 msg)) (pad 64 (take 64 msg)) = take 64 msg"
    by (rule take_pad) simp
  ultimately show ?thesis
    by (simp add: history_entry_def)
qed

lemma is_duplicate_post_snoc:
  "is_duplicate_post (recent @ [history_entry c ts msg]) ts msg \<longleftrightarrow>
     is_duplicate_post recent ts msg \<or> snd (parse_channel_text (take 64 msg)) = msg"
  using stored_text [of c ts msg] by (simp add: is_duplicate_post_def history_entry_def split: prod.splits)

lemma snd_parse_length: "length (snd (parse_channel_text msg)) \<le> length msg"
proof (cases "\<exists>m. delim_at msg m")
  case True
  then obtain m where "delim_at msg m" "\<forall>j < m. \<not> delim_at msg j"
    using exists_least_iff [of "delim_at msg"] by blast
  then show ?thesis
    by (simp add: parse_channel_text_hit)
qed (simp add: parse_channel_text_miss)

lemma handle_room_push_spec:
  assumes "crypto_ok C" "length secret = 32" "length author = 4" "0 \<notin> set msg" "length msg \<le> 150"
    and "m = txt_msg_bytes ts TXT_TYPE_SIGNED_PLAIN att (author @ msg)"
  shows "handle_room_push C secret (d # s # seal C (take 16 secret) secret m) pk conv recent =
    Some (Inr \<lparr>po_ack_hash = compute_ack_hash C ts (m ! 4) (drop 5 m) pk, po_post_ts = ts,
      po_entry = (if is_duplicate_post recent ts msg then None else Some (history_entry conv ts msg)),
      po_author_pubkey_prefix = author\<rparr>)"
proof -
  let ?buf = "pad16 m @ drop (ceil_16 (9 + length msg)) (zeros 256)"
  have len: "length m = 9 + length msg"
    using assms(3,6) by simp
  have "ceil_16 (9 + length msg) \<le> 160"
    using ceil_16_mono [of "9 + length msg" 159] assms(5) by (simp add: ceil_16_def div_ceil_16_def)
  then have dec: "decode_room_push C secret (d # s # seal C (take 16 secret) secret m) (zeros 256) =
      Some (?buf, Inr (d, s, pushed ts att author msg))"
    unfolding assms(6) by (intro decode_room_push_spec [OF assms(1-4)]) simp
  have body: "push_body (pushed ts att author msg) ?buf = Some (author @ msg)"
    unfolding assms(6) by (rule push_body_spec [OF assms(3)])
  have "9 + length msg \<le> ceil_16 (9 + length msg)"
    by (rule ceil_16_ge)
  then have "?buf = m @ zeros (ceil_16 (9 + length msg) - (9 + length msg)) @ drop (ceil_16 (9 + length msg)) (zeros 256)"
    using len by (simp add: pad16_def)
  then have sl: "slice ?buf 9 (9 + length msg) = Some msg"
    using assms(3) by (simp add: assms(6) slice_def txt_msg_bytes_def)
  have "room_push_ack_hash C ts (att AND 3) (author @ msg) pk = compute_ack_hash C ts (m ! 4) (drop 5 m) pk"
    by (simp add: room_push_ack_hash_def assms(6) txt_msg_bytes_def nth_append and.assoc)
  then show ?thesis
    unfolding handle_room_push_def dec
    using body sl by (simp add: build_history_entry_spec)
qed

section \<open>Lemmas: one round of synchronisation\<close>

text \<open>The server after a client acknowledged the push of a post at \<open>ts\<close>.\<close>

definition synced :: "RoomServerDouble \<Rightarrow> nat \<Rightarrow> u32 \<Rightarrow> RoomServerDouble" where
  "synced srv i ts = srv\<lparr>rs_clients := (rs_clients srv)[i := (rs_clients srv ! i)\<lparr>dc_push_post_ts := ts,
     dc_pending_ack := None, dc_sync_since := ts\<rparr>]\<rparr>"

lemma synced_inv:
  assumes "server_inv srv" "client_idx srv pk = Some i"
  shows "server_inv (synced srv i ts)" "client_idx (synced srv i ts) pk = Some i"
    "rs_clients (synced srv i ts) ! i = (rs_clients srv ! i)\<lparr>dc_push_post_ts := ts, dc_pending_ack := None, dc_sync_since := ts\<rparr>"
    "posts_view (synced srv i ts) = posts_view srv" "rs_posts (synced srv i ts) = rs_posts srv"
    "rs_identity (synced srv i ts) = rs_identity srv"
proof -
  have cl: "clients_ok (rs_clients srv)"
    using assms(1) by (simp add: server_inv_def)
  note idx = client_idx_Some [OF assms(2) cl]
  show "server_inv (synced srv i ts)"
    unfolding synced_def using idx assms(1) by (intro server_inv_set_client) (simp_all add: client_ok_def)
  show "client_idx (synced srv i ts) pk = Some i"
    using client_idx_update [OF cl idx(1), of "synced srv i ts"] assms(2) by (simp add: synced_def)
  show "rs_clients (synced srv i ts) ! i =
      (rs_clients srv ! i)\<lparr>dc_push_post_ts := ts, dc_pending_ack := None, dc_sync_since := ts\<rparr>"
    using cl idx(1) by (simp add: synced_def clients_ok_def)
qed (simp_all add: synced_def posts_view_def)

lemma sync_round:
  assumes "crypto_ok C" "server_inv srv" "client_idx srv pk = Some i" "c = rs_clients srv ! i"
    and "dc_pending_ack c = None" "next_post srv (dc_sync_since c) pk = Some p" "164 \<le> length out"
  shows "\<exists>srv1 out' n oc. push_next C srv pk out = Some (srv1, out', Some n)
    \<and> handle_room_push C (dc_shared_secret c) (take n out') pk conv recent = Some (Inr oc)
    \<and> po_post_ts oc = dp_timestamp p \<and> po_author_pubkey_prefix oc = take 4 (dp_author_pubkey p)
    \<and> po_entry oc = (if is_duplicate_post recent (dp_timestamp p) (post_text p) then None
         else Some (history_entry conv (dp_timestamp p) (post_text p)))
    \<and> handle_push_ack srv1 pk (po_ack_hash oc) = Some (synced srv i (dp_timestamp p), True)"
proof -
  have cl: "clients_ok (rs_clients srv)" and po: "posts_ok srv"
    using assms(2) by (simp_all add: server_inv_def)
  have "p \<in> set (rs_posts srv)" "eligible p (dc_sync_since c) pk"
    using choose_post_next [OF po, of "dc_sync_since c" pk] assms(6) by auto
  then have "post_ok p" "dp_used p"
    using po by (auto simp: posts_ok_def list_all_iff eligible_def)
  note ok = post_text_ok [OF this]
  have sec: "length (dc_shared_secret c) = 32"
    using client_idx_Some [OF assms(3) cl] assms(4) by (simp add: client_ok_def)
  have n: "ceil_16 (9 + dp_text_len p) \<le> 160"
    using ceil_16_mono [of "9 + dp_text_len p" 159] ok by (simp add: ceil_16_def div_ceil_16_def)
  let ?s = "dc_shared_secret c" and ?h = "push_hash C p pk" and ?ts = "dp_timestamp p"
  define srv1 where "srv1 = srv\<lparr>rs_clients := (rs_clients srv)[i := c\<lparr>dc_pending_ack := Some ?h, dc_push_post_ts := ?ts\<rparr>]\<rparr>"
  let ?f = "(pk ! 0) # id_pub_hash (rs_identity srv) # seal C (take 16 ?s) ?s (push_plaintext p)"
  note s1 = after_push [OF assms(2,3,4) srv1_def]
  have cl1: "clients_ok (rs_clients srv1)"
    using s1(1) by (simp add: server_inv_def)
  obtain out' k where push: "push_next C srv pk out = Some (srv1, out', Some k)"
    and enc: "encode_dm_payload C ?s (pk ! 0) (id_pub_hash (rs_identity srv)) (push_plaintext p) out = Some (out', k)"
    using push_next_spec [OF assms(1) cl po assms(3,4,5,6), of out] n assms(7) unfolding srv1_def by auto
  have pl: "length (push_plaintext p) = 9 + dp_text_len p"
    using ok by (simp add: push_plaintext_def)
  have "encode_dm_payload C ?s (pk ! 0) (id_pub_hash (rs_identity srv)) (push_plaintext p) out =
      Some (?f @ drop (4 + ceil_16 (9 + dp_text_len p)) out, 4 + ceil_16 (9 + dp_text_len p))"
    using encode_dm_payload_spec [OF assms(1), of ?s "push_plaintext p" out] sec pl n assms(7) by simp
  moreover have "length ?f = 4 + ceil_16 (9 + dp_text_len p)"
    using assms(1) sec pl by simp
  moreover have "take (length q) (q @ r) = q" for q r :: bytes
    by simp
  ultimately have tk: "take k out' = ?f"
    using enc by (metis option.sel prod.inject)
  have push_m: "handle_room_push C ?s ?f pk conv recent = Some (Inr \<lparr>po_ack_hash = ?h, po_post_ts = ?ts,
      po_entry = (if is_duplicate_post recent ?ts (post_text p) then None else Some (history_entry conv ?ts (post_text p))),
      po_author_pubkey_prefix = take 4 (dp_author_pubkey p)\<rparr>)"
    using handle_room_push_spec [OF assms(1) sec _ _ _ push_plaintext_def] ok unfolding push_hash_def by simp
  have "handle_push_ack srv1 pk ?h = Some (synced srv i ?ts, True)"
    using handle_push_ack_spec [OF cl1 s1(2) refl, of ?h] s1(4) assms(4)
    by (simp add: srv1_def synced_def)
  then show ?thesis
    using push tk push_m by auto
qed

text \<open>The posts a client is owed, oldest first.\<close>

definition owed :: "RoomServerDouble \<Rightarrow> u32 \<Rightarrow> bytes \<Rightarrow> DoublePost list" where
  "owed srv ss pk = filter (\<lambda>p. eligible p ss pk) (posts_view srv)"

lemma owed_next:
  assumes "posts_ok srv" "owed srv ss pk = p # ps"
  shows "next_post srv ss pk = Some p" "owed srv (dp_timestamp p) pk = ps"
proof -
  have "filter P xs = p # ps \<Longrightarrow> find P xs = Some p" for P and xs :: "DoublePost list"
    by (induction xs) (auto split: if_splits)
  then show "next_post srv ss pk = Some p"
    using assms(2) by (simp add: owed_def next_post_def)
  have srt: "sorted_wrt (\<lambda>p q. dp_timestamp p < dp_timestamp q) (p # ps)"
  proof -
    have "owed srv ss pk = filter (\<lambda>p. eligible p ss pk) (filter dp_used (posts_view srv))"
      unfolding owed_def by (auto simp: eligible_def intro: filter_cong)
    then show ?thesis
      using assms by (metis chronological_def posts_ok_def sorted_wrt_filter)
  qed
  have p: "eligible p ss pk"
    using assms(2) by (metis filter_eq_Cons_iff owed_def)
  have "owed srv (dp_timestamp p) pk = filter (\<lambda>q. eligible q (dp_timestamp p) pk) (owed srv ss pk)"
    using p by (auto simp: owed_def eligible_def intro!: filter_cong dest: order.strict_trans)
  also have "\<dots> = filter (\<lambda>q. eligible q (dp_timestamp p) pk) ps"
    using assms(2) by (simp add: eligible_def)
  also have "\<dots> = ps"
  proof (rule filter_True, rule ballI)
    fix q
    assume q: "q \<in> set ps"
    then have "q \<in> set (owed srv ss pk)"
      using assms(2) by simp
    then have "eligible q ss pk"
      by (simp add: owed_def)
    then show "eligible q (dp_timestamp p) pk"
      using srt q by (simp add: eligible_def)
  qed
  finally show "owed srv (dp_timestamp p) pk = ps" .
qed

lemma owed_Nil: "owed srv ss pk = [] \<longleftrightarrow> next_post srv ss pk = None"
  by (auto simp: owed_def next_post_def find_None_iff filter_empty_conv)

text \<open>The client and the server until the server has nothing to push, at most \<open>n\<close> rounds: each push is
  handled against the entries known so far, and its acknowledgement goes back to the server.\<close>

fun sync_rounds ::
    "crypto_prims \<Rightarrow> bytes \<Rightarrow> bytes \<Rightarrow> u8 \<Rightarrow> bytes \<Rightarrow> nat \<Rightarrow> RoomServerDouble \<Rightarrow> HistoryEntry list \<Rightarrow>
     (RoomServerDouble \<times> RoomPushOutcome list) rust" where
  "sync_rounds C secret pk conv out 0 srv recent = Some (srv, [])"
| "sync_rounds C secret pk conv out (Suc n) srv recent = do {
     (srv, frame, m) \<leftarrow> push_next C srv pk out;
     (case m of
        None \<Rightarrow> Some (srv, [])
      | Some m \<Rightarrow> do {
          r \<leftarrow> handle_room_push C secret (take m frame) pk conv recent;
          (case r of
             Inl _ \<Rightarrow> Some (srv, [])
           | Inr outcome \<Rightarrow> do {
               (srv, _) \<leftarrow> handle_push_ack srv pk (po_ack_hash outcome);
               let recent = (case po_entry outcome of None \<Rightarrow> recent | Some e \<Rightarrow> recent @ [e]);
               (srv, outcomes) \<leftarrow> sync_rounds C secret pk conv out n srv recent;
               Some (srv, outcome # outcomes)
             })
        })
   }"

text \<open>A post the client has: an entry with its time and, after the author label, its text.\<close>

definition known_post :: "HistoryEntry list \<Rightarrow> DoublePost \<Rightarrow> bool" where
  "known_post recent p \<longleftrightarrow> (\<exists>e \<in> set recent. he_timestamp e = dp_timestamp p
     \<and> snd (parse_channel_text (take (min (unat (he_text_len e)) (length (he_text e))) (he_text e))) = post_text p)"

lemma known_post_iff: "is_duplicate_post recent (dp_timestamp p) (post_text p) \<longleftrightarrow> known_post recent p"
  by (auto simp: is_duplicate_post_def known_post_def list_ex_iff split_beta Let_def cong: conj_cong)

lemma known_post_later: "he_timestamp e < dp_timestamp p \<Longrightarrow> known_post (recent @ [e]) p = known_post recent p"
  by (auto simp: known_post_def)

definition made_entry :: "u8 \<Rightarrow> HistoryEntry list \<Rightarrow> DoublePost \<Rightarrow> HistoryEntry option" where
  "made_entry conv recent p = (if known_post recent p then None else Some (history_entry conv (dp_timestamp p) (post_text p)))"

lemma sync_rounds_owed:
  assumes "crypto_ok C" "164 \<le> length out"
  shows "server_inv srv \<Longrightarrow> client_idx srv pk = Some i \<Longrightarrow> dc_pending_ack (rs_clients srv ! i) = None \<Longrightarrow>
    secret = dc_shared_secret (rs_clients srv ! i) \<Longrightarrow> owed srv (dc_sync_since (rs_clients srv ! i)) pk = ps \<Longrightarrow>
    length ps < n \<Longrightarrow>
    \<exists>srv' outcomes. sync_rounds C secret pk conv out n srv recent = Some (srv', outcomes) \<and> server_inv srv'
      \<and> map po_post_ts outcomes = map dp_timestamp ps
      \<and> map po_author_pubkey_prefix outcomes = map (\<lambda>p. take 4 (dp_author_pubkey p)) ps
      \<and> map po_entry outcomes = map (made_entry conv recent) ps
      \<and> push_next C srv' pk out = Some (srv', out, None) \<and> rs_posts srv' = rs_posts srv"
proof (induction n arbitrary: srv ps recent)
  case (Suc n)
  let ?c = "rs_clients srv ! i"
  have cl: "clients_ok (rs_clients srv)" and po: "posts_ok srv"
    using Suc.prems(1) by (simp_all add: server_inv_def)
  show ?case
  proof (cases ps)
    case Nil
    then have "push_next C srv pk out = Some (srv, out, None)"
      using push_next_none [OF cl po Suc.prems(2), of C out] Suc.prems(5) owed_Nil by metis
    then show ?thesis
      using Nil Suc.prems(1) by simp
  next
    case (Cons p qs)
    note nx = owed_next [OF po Suc.prems(5) [unfolded Cons]]
    obtain srv1 out' k oc where r: "push_next C srv pk out = Some (srv1, out', Some k)"
      "handle_room_push C secret (take k out') pk conv recent = Some (Inr oc)"
      "po_post_ts oc = dp_timestamp p" "po_author_pubkey_prefix oc = take 4 (dp_author_pubkey p)"
      "po_entry oc = (if is_duplicate_post recent (dp_timestamp p) (post_text p) then None
         else Some (history_entry conv (dp_timestamp p) (post_text p)))"
      "handle_push_ack srv1 pk (po_ack_hash oc) = Some (synced srv i (dp_timestamp p), True)"
      using sync_round [OF assms(1) Suc.prems(1,2) refl Suc.prems(3) nx(1) assms(2)] Suc.prems(4) by metis
    let ?srv = "synced srv i (dp_timestamp p)" and ?recent = "case po_entry oc of None \<Rightarrow> recent | Some e \<Rightarrow> recent @ [e]"
    note inv = synced_inv [OF Suc.prems(1,2), of "dp_timestamp p"]
    have "owed ?srv (dc_sync_since (rs_clients ?srv ! i)) pk = qs"
      using nx(2) inv(3,4) by (simp add: owed_def)
    then obtain srv' ocs where "sync_rounds C secret pk conv out n ?srv ?recent = Some (srv', ocs)" "server_inv srv'"
      "map po_post_ts ocs = map dp_timestamp qs" "map po_author_pubkey_prefix ocs = map (\<lambda>p. take 4 (dp_author_pubkey p)) qs"
      "map po_entry ocs = map (made_entry conv ?recent) qs"
      "push_next C srv' pk out = Some (srv', out, None)" "rs_posts srv' = rs_posts ?srv"
      using Suc.IH [OF inv(1,2), of qs ?recent] inv(3) Suc.prems(4,6) Cons by auto
    moreover have entry: "po_entry oc = made_entry conv recent p"
      by (simp add: r(5) made_entry_def known_post_iff)
    moreover have "made_entry conv ?recent q = made_entry conv recent q" if "q \<in> set qs" for q
    proof -
      have "q \<in> set (owed srv (dp_timestamp p) pk)"
        using that by (simp add: nx(2))
      then have "dp_timestamp p < dp_timestamp q"
        by (simp add: owed_def eligible_def)
      then show ?thesis
        unfolding entry by (auto simp: made_entry_def known_post_later history_entry_def)
    qed
    then have "map (made_entry conv ?recent) qs = map (made_entry conv recent) qs"
      by simp
    ultimately show ?thesis
      using r(1-4,6) Cons inv(5) by simp
  qed
qed simp

section \<open>Lemmas: sending a post\<close>

lemma room_tx_timestamp_gt: "prev \<noteq> - 1 \<Longrightarrow> prev < room_tx_timestamp wall prev" for prev :: u32
proof -
  assume "prev \<noteq> - 1"
  then have "unat prev < 2 ^ 32 - 1"
    using unsigned_less [of prev, where 'a = nat] word_unat_eq_iff [of prev "- 1"]
    by (auto simp: unsigned_minus_1_eq_mask mask_eq_exp_minus_1)
  then have "prev < saturating_add32 prev 1"
    by (simp add: word_less_nat_alt unat_saturating_add32)
  then show ?thesis
    by (auto simp: room_tx_timestamp_def Let_def less_max_iff_disj split: option.splits)
qed

text \<open>A payload written behind two free bytes and framed arrives.\<close>

lemma flood_framed:
  assumes "body' = p @ drop (length p) (drop 2 out)" "6 + length p \<le> length out" "PathLen_new 2 0 = Some pl"
  shows "\<exists>out' k h. assemble_flood_frame C scope (take 2 out @ body') pt pl (length p) = Some (out', k)
    \<and> parse_rx_frame_header (take k out') = Inr h \<and> payload_type (rx_header_byte h) = Some pt
    \<and> drop (rx_payload_off h) (take k out') = p"
  using assms(1,2) by (intro assemble_parses [OF _ _ assms(3)]) simp_all

lemma PathLen_2_0: "\<exists>pl. PathLen_new 2 0 = Some pl"
  by (simp add: PathLen_new_def)

lemma encode_room_post_checked_spec:
  assumes "crypto_ok C" "length secret = 32" "prev < ts" "170 \<le> length out" "body = drop 2 out"
    and "encode_room_post C secret dest src ts 0 msg body = Some (body', n)"
  shows "\<exists>out' k h. encode_room_post_checked C secret dest src ts prev msg pk scope out =
      Some (out', Inr (k, room_post_ack_hash C ts 0 (take 150 msg) pk))
    \<and> parse_rx_frame_header (take k out') = Inr h \<and> payload_type (rx_header_byte h) = Some PT_TxtMsg
    \<and> drop (rx_payload_off h) (take k out') = take n body'"
proof -
  let ?m = "take 150 msg"
  let ?n = "4 + ceil_16 (6 + length ?m)"
  have bound: "?n \<le> 164"
    using ceil_16_mono [of "6 + length ?m" 156] by (simp add: ceil_16_def div_ceil_16_def)
  let ?p = "dest # src # seal C (take 16 secret) secret (txt_msg_bytes ts TXT_TYPE_PLAIN 0 ?m @ [0])"
  have len: "length ?p = ?n"
    using assms(1,2) by simp
  have "encode_room_post C secret dest src ts 0 msg body = Some (?p @ drop ?n body, ?n)"
    using assms(1,2,4,5) bound by (subst encode_room_post_spec [OF _ _ refl]) simp_all
  then have b: "body' = ?p @ drop (length ?p) (drop 2 out)" "n = length ?p"
    using assms(6) unfolding assms(5) len by (metis option.inject prod.inject)+
  have p: "take n body' = ?p"
    unfolding b by simp
  obtain pl where pl: "PathLen_new 2 0 = Some pl"
    using PathLen_2_0 by blast
  have "6 + length ?p \<le> length out"
    using bound assms(4) unfolding len by simp
  from flood_framed [OF b(1) this pl, of C scope PT_TxtMsg]
  obtain out' k h where a: "assemble_flood_frame C scope (take 2 out @ body') PT_TxtMsg pl n = Some (out', k)"
    "parse_rx_frame_header (take k out') = Inr h" "payload_type (rx_header_byte h) = Some PT_TxtMsg"
    "drop (rx_payload_off h) (take k out') = ?p"
    unfolding b(2) by blast
  have "slice msg 0 (min (length msg) 150) = Some ?m"
    by (simp add: slice_def min_def)
  moreover have "slice_from out 2 = Some body"
    using assms(4,5) by (simp add: slice_from_def)
  ultimately show ?thesis
    using assms(3,6) a p pl by (auto simp: encode_room_post_checked_def MAX_POST_TEXT_LEN_def)
qed

text \<open>A login request of the client, framed.\<close>

lemma encode_room_login_frame_spec:
  assumes "length out = 73" "encode_anon_req_login C secret dest sender ts ss pw (drop 2 out) = Some (body', n)"
    and "body' = p @ drop (length p) (drop 2 out)" "n = length p" "length p \<le> 67"
  shows "\<exists>out' k h. encode_room_login_frame C secret dest sender ts ss pw scope out = Some (out', k)
    \<and> parse_rx_frame_header (take k out') = Inr h \<and> payload_type (rx_header_byte h) = Some PT_AnonReq
    \<and> drop (rx_payload_off h) (take k out') = p"
proof -
  obtain pl where pl: "PathLen_new 2 0 = Some pl"
    using PathLen_2_0 by blast
  have "6 + length p \<le> length out"
    using assms(1,5) by simp
  from flood_framed [OF assms(3) this pl, of C scope PT_AnonReq]
  show ?thesis
    using assms(1,2,4) pl by (auto simp: encode_room_login_frame_def slice_from_def)
qed

section \<open>Properties\<close>







section \<open>Retries, restarts and the adopted clock\<close>

lemma delim_at_take: "delim_at (take n msg) j \<Longrightarrow> delim_at msg j"
  using delim_at_length [of "take n msg" j] by (auto simp: delim_at_def drop_take min_def split: if_splits)

lemma parse_channel_text_fixed: "snd (parse_channel_text msg) = msg \<longleftrightarrow> (\<forall>j. \<not> delim_at msg j)"
proof (cases "\<exists>m. delim_at msg m")
  case True
  then obtain m where m: "delim_at msg m" "\<forall>j < m. \<not> delim_at msg j"
    using exists_least_iff [of "delim_at msg"] by blast
  then have "length (snd (parse_channel_text msg)) < length msg"
    using delim_at_length [OF m(1)] by (simp add: parse_channel_text_hit)
  then show ?thesis
    using True by auto
qed (simp add: parse_channel_text_miss)

lemma retry_text: "snd (parse_channel_text (take 64 msg)) = msg \<longleftrightarrow> length msg \<le> 64 \<and> (\<forall>j. \<not> delim_at msg j)"
proof (cases "length msg \<le> 64")
  case False
  then have "length (snd (parse_channel_text (take 64 msg))) < length msg"
    using snd_parse_length [of "take 64 msg"] by simp
  then show ?thesis
    using False by auto
qed (simp add: parse_channel_text_fixed)

text \<open>what the duplicate check of pushed posts recognises.  When a push was accepted as new and its entry kept
  among the recent ones, a retry of the same post, whatever its attempt number, is acknowledged again with
  the same post time; it is recognised as known exactly when its text has at most 64 bytes and holds no
  ": ".  Any other post is handed out as new once more at every retry.\<close>

theorem room_push_retry_recognised:
  assumes "crypto_ok C" "length secret = 32" "length author = 4" "0 \<notin> set msg" "length msg \<le> 150"
    and "frame = (\<lambda>att. d # s # seal C (take 16 secret) secret (txt_msg_bytes ts TXT_TYPE_SIGNED_PLAIN att (author @ msg)))"
    and "\<not> is_duplicate_post recent ts msg"
  shows "\<exists>oc e oc'. handle_room_push C secret (frame att) pk conv recent = Some (Inr oc) \<and> po_entry oc = Some e
    \<and> handle_room_push C secret (frame att') pk conv (recent @ [e]) = Some (Inr oc')
    \<and> po_post_ts oc' = ts
    \<and> (po_entry oc' = None \<longleftrightarrow> length msg \<le> 64 \<and> (\<forall>j. \<not> delim_at msg j))
    \<and> (po_entry oc' \<noteq> None \<longrightarrow> po_entry oc' = Some e)"
  using handle_room_push_spec [OF assms(1-5) refl, of d s ts att pk conv recent]
    handle_room_push_spec [OF assms(1-5) refl, of d s ts att' pk conv "recent @ [history_entry conv ts msg]"]
    assms(6,7) by (simp add: is_duplicate_post_snoc retry_text)

theorem room_push_retry_recognised_witness:
  "\<exists>oc e oc'. handle_room_push demo_prims (replicate 32 7) (1 # 2 # seal demo_prims (take 16 (replicate 32 7)) (replicate 32 7)
        (txt_msg_bytes 9 TXT_TYPE_SIGNED_PLAIN 0 (replicate 4 6 @ [114, 101, 0x3A, 0x20, 120]))) (replicate 32 5) 2 [] = Some (Inr oc)
    \<and> po_entry oc = Some e
    \<and> handle_room_push demo_prims (replicate 32 7) (1 # 2 # seal demo_prims (take 16 (replicate 32 7)) (replicate 32 7)
        (txt_msg_bytes 9 TXT_TYPE_SIGNED_PLAIN 1 (replicate 4 6 @ [114, 101, 0x3A, 0x20, 120]))) (replicate 32 5) 2 [e] = Some (Inr oc')
    \<and> po_entry oc' = Some e"
proof -
  let ?msg = "[114, 101, 0x3A, 0x20, 120] :: bytes"
  have "delim_at ?msg 2"
    by (simp add: delim_at_def CHANNEL_NAME_DELIM_def)
  then have "\<not> (\<forall>j. \<not> delim_at ?msg j)"
    by blast
  moreover have "\<not> is_duplicate_post [] 9 ?msg"
    by (simp add: is_duplicate_post_def)
  ultimately show ?thesis
    using room_push_retry_recognised [OF demo_prims_ok, of "replicate 32 7" "replicate 4 6" ?msg _ 1 2 9 "[]" 0 "replicate 32 5" 2 1]
    by auto
qed

text \<open>a session survives a restart.  A session whose path fits its buffer is written and read back unchanged,
  a route being known again exactly when the stored path is not empty, and the byte a former layout kept
  after it is ignored.\<close>

theorem session_persist_roundtrip:
  assumes "length (pr_out_path s) = MAX_PATH" "unat (pr_out_path_len s) \<le> MAX_PATH" "PERSISTED_ROOM_SESSION_LEN \<le> length out"
  shows "\<exists>out'. encode_persisted_room_session s out = Some (out', PRE_SYNC_GUARD_LEN)
    \<and> decode_persisted_room_session (take PRE_SYNC_GUARD_LEN out') = Some (Some (s\<lparr>pr_route_known := (pr_out_path_len s > 0)\<rparr>))
    \<and> decode_persisted_room_session (take PERSISTED_ROOM_SESSION_LEN out') = Some (Some (s\<lparr>pr_route_known := (pr_out_path_len s > 0)\<rparr>))"
proof -
  let ?b = "pr_permissions s # to_le32 (pr_sync_since s) @ [pr_out_path_len s] @ pr_out_path s @ to_le32 (pr_last_room_ts s)"
  have len: "length (pr_out_path s) = 64" "75 \<le> length out" "unat (pr_out_path_len s) \<le> 64"
    using assms by (simp_all add: MAX_PATH_def PERSISTED_ROOM_SESSION_LEN_def PRE_SYNC_GUARD_LEN_def)
  have "encode_persisted_room_session s out = Some (?b @ drop 74 out, 74)"
    using len by (simp add: encode_persisted_room_session_def set_at_def copy_into_def MAX_PATH_def PRE_SYNC_GUARD_LEN_def
        to_le32_def list_update_append take_Cons' drop_Cons' upd_conv_take_nth_drop) (cases out; auto)
  moreover have "decode_persisted_room_session (?b @ r) = Some (Some (s\<lparr>pr_route_known := (pr_out_path_len s > 0)\<rparr>))" for r
    using len by (simp add: decode_persisted_room_session_def PRE_SYNC_GUARD_LEN_def MAX_PATH_def slice_def
        to_le32_def nth_append nth_Cons' from_to_le32 Let_def)
  moreover from this [of "[]"] have "decode_persisted_room_session ?b = Some (Some (s\<lparr>pr_route_known := (pr_out_path_len s > 0)\<rparr>))"
    by simp
  ultimately show ?thesis
    using len by (simp add: PRE_SYNC_GUARD_LEN_def PERSISTED_ROOM_SESSION_LEN_def MAX_PATH_def)
qed

theorem session_persist_roundtrip_witness:
  "\<exists>out'. encode_persisted_room_session (PersistedRoomSession_EMPTY\<lparr>pr_last_room_ts := 10\<rparr>) (zeros 75) = Some (out', PRE_SYNC_GUARD_LEN)
    \<and> decode_persisted_room_session (take PRE_SYNC_GUARD_LEN out') = Some (Some (PersistedRoomSession_EMPTY\<lparr>pr_last_room_ts := 10\<rparr>))"
proof -
  have "length (pr_out_path (PersistedRoomSession_EMPTY\<lparr>pr_last_room_ts := 10\<rparr>)) = MAX_PATH"
    "unat (pr_out_path_len (PersistedRoomSession_EMPTY\<lparr>pr_last_room_ts := 10\<rparr>)) \<le> MAX_PATH"
    "PERSISTED_ROOM_SESSION_LEN \<le> length (zeros 75)"
    by (simp_all add: PersistedRoomSession_EMPTY_def PERSISTED_ROOM_SESSION_LEN_def PRE_SYNC_GUARD_LEN_def MAX_PATH_def)
  from session_persist_roundtrip [OF this] show ?thesis
    by (auto simp: PersistedRoomSession_EMPTY_def)
qed

lemma now_secs_value:
  assumes "unat t < 2 ^ 32 * 1000"
  shows "unat (now_secs c t) = min (unat (ac_anchor_unix_secs c) + (unat t - unat (ac_anchor_uptime_ms c)) div 1000) (2 ^ 32 - 1)"
proof -
  let ?e = "saturating_sub t (ac_anchor_uptime_ms c) div 1000"
  have e: "unat ?e = (unat t - unat (ac_anchor_uptime_ms c)) div 1000"
    by (simp add: unat_div unat_saturating_sub)
  then have "unat ?e < 2 ^ 32"
    using assms by (simp add: less_mult_imp_div_less)
  then have "unat (ucast ?e :: u32) = unat ?e"
    by (simp add: unsigned_ucast_eq take_bit_nat_eq_self_iff)
  then show ?thesis
    using e unsigned_less [of "ac_anchor_unix_secs c", where 'a = nat]
    by (auto simp: now_secs_def saturating_add32_def unat_word_ariths unsigned_minus_1_eq_mask mask_eq_exp_minus_1 min_def)
qed

lemma now_secs_mono:
  assumes "t \<le> t'" "unat t' < 2 ^ 32 * 1000"
  shows "now_secs c t \<le> now_secs c t'"
proof -
  have "unat t \<le> unat t'"
    using assms(1) by (simp add: word_le_nat_alt)
  then have "(unat t - unat (ac_anchor_uptime_ms c)) div 1000 \<le> (unat t' - unat (ac_anchor_uptime_ms c)) div 1000"
    by (intro div_le_mono diff_le_mono)
  then show ?thesis
    using assms(2) \<open>unat t \<le> unat t'\<close> now_secs_value [of t c] now_secs_value [of t' c]
    by (simp add: word_le_nat_alt min_le_iff_disj)
qed

lemma now_secs_fresh: "now_secs \<lparr>ac_anchor_uptime_ms = t, ac_anchor_unix_secs = ts\<rparr> t = ts"
  using unsigned_less [of ts, where 'a = nat] by (simp add: now_secs_def saturating_sub_def saturating_add32_def)

lemma adopt_server_clock_Some:
  "\<exists>c'. adopt_server_clock (Some c) verified t ts = Some c' \<and> now_secs c t \<le> now_secs c' t"
  by (auto simp: adopt_server_clock_def Let_def now_secs_fresh not_less)

text \<open>The clock after a run of server timestamps, each with the moment it arrived and whether GPS was verified then.\<close>

fun adopt_run :: "AdoptedServerClock option \<Rightarrow> (bool \<times> u64 \<times> u32) list \<Rightarrow> AdoptedServerClock option" where
  "adopt_run c [] = c"
| "adopt_run c ((verified, t, ts) # es) = adopt_run (adopt_server_clock c verified t ts) es"

lemma adopt_run_Some:
  assumes "unat t1 < 2 ^ 32 * 1000"
  shows "t0 \<le> t1 \<Longrightarrow> sorted (t0 # map (\<lambda>(_, t, _). t) es) \<Longrightarrow> \<forall>(_, t, _) \<in> set es. t \<le> t1 \<Longrightarrow>
    \<exists>c'. adopt_run (Some c) es = Some c' \<and> now_secs c t0 \<le> now_secs c' t1"
proof (induction es arbitrary: c t0)
  case Nil
  then show ?case
    using now_secs_mono [OF _ assms] by simp
next
  case (Cons e es)
  obtain v t ts where e: "e = (v, t, ts)"
    by (cases e)
  then have t: "t0 \<le> t" "t \<le> t1" "sorted (t # map (\<lambda>(_, t, _). t) es)" "\<forall>(_, t, _) \<in> set es. t \<le> t1"
    using Cons.prems by auto
  then have "unat t < 2 ^ 32 * 1000"
    using assms by (simp add: word_le_nat_alt)
  then have "now_secs c t0 \<le> now_secs c t"
    using t(1) by (intro now_secs_mono)
  moreover obtain c1 where "adopt_server_clock (Some c) v t ts = Some c1" "now_secs c t \<le> now_secs c1 t"
    using adopt_server_clock_Some by blast
  moreover obtain c' where "adopt_run (Some c1) es = Some c'" "now_secs c1 t \<le> now_secs c' t1"
    using Cons.IH [OF t(2-4)] by blast
  ultimately show ?case
    using e by (auto intro: order.trans)
qed

text \<open>the clock taken from a room server never runs backwards.  Within the first 2^32 seconds of uptime, once a
  clock is adopted it stays adopted through any run of login replies and pushes, whatever timestamps they
  carry and however the GPS state changes, and a reading taken after them is never earlier than one taken
  before.\<close>

theorem adopted_clock_never_back:
  assumes "unat t1 < 2 ^ 32 * 1000" "t0 \<le> t1" "sorted (t0 # map (\<lambda>(_, t, _). t) es)" "\<forall>(_, t, _) \<in> set es. t \<le> t1"
  shows "\<exists>c'. adopt_run (Some c) es = Some c' \<and> now_secs c t0 \<le> now_secs c' t1"
  using adopt_run_Some [OF assms] .

theorem adopted_clock_never_back_witness:
  "\<exists>c'. adopt_run (Some \<lparr>ac_anchor_uptime_ms = 1000, ac_anchor_unix_secs = 1700000000\<rparr>)
      [(False, 5000, 1600000000), (True, 6000, 1900000000), (False, 7000, 1800000000)] = Some c'
    \<and> now_secs \<lparr>ac_anchor_uptime_ms = 1000, ac_anchor_unix_secs = 1700000000\<rparr> 4000 \<le> now_secs c' 9000"
  by (rule adopted_clock_never_back) simp_all

end
