(* ===== verification/Room_Sync_Phase.thy ===== *)
theory Room_Sync_Phase
  imports Room_Session
begin

text \<open>
  The drain window of a room session, \<open>RoomSyncPhase\<close> of \<open>firmware-core/src/room_session.rs\<close>: which
  pushed posts are announced at once, which are held back and announced together, and the three ways the
  window closes.
\<close>

section \<open>The window\<close>

datatype RoomNotification = RN_None | RN_Aggregate u32 | RN_Live

record RoomSyncPhase =
  sp_draining :: bool
  sp_drained_count :: u32
  sp_last_progress_ms :: u64
  sp_closer_failed :: bool
  sp_first_suppressed_ms :: "u64 option"

definition DRAIN_WINDOW_STALL_TIMEOUT_MS :: u64 where
  "DRAIN_WINDOW_STALL_TIMEOUT_MS = 300000"

definition DRAIN_SUPPRESSION_CEILING_MS :: u64 where
  "DRAIN_SUPPRESSION_CEILING_MS = 60000"

definition new_after_login :: "u64 \<Rightarrow> RoomSyncPhase" where
  "new_after_login now_ms = \<lparr>sp_draining = True, sp_drained_count = 0, sp_last_progress_ms = now_ms,
     sp_closer_failed = False, sp_first_suppressed_ms = None\<rparr>"

definition note_relogin :: "RoomSyncPhase \<Rightarrow> u64 \<Rightarrow> RoomSyncPhase" where
  "note_relogin s now_ms = new_after_login now_ms"

definition is_draining :: "RoomSyncPhase \<Rightarrow> bool" where
  "is_draining s = sp_draining s"

definition is_stalled :: "RoomSyncPhase \<Rightarrow> u64 \<Rightarrow> bool" where
  "is_stalled s now_ms \<longleftrightarrow> sp_closer_failed s
     \<or> saturating_sub now_ms (sp_last_progress_ms s) \<ge> DRAIN_WINDOW_STALL_TIMEOUT_MS"

definition suppressed_too_long :: "RoomSyncPhase \<Rightarrow> u64 \<Rightarrow> bool" where
  "suppressed_too_long s now_ms =
     (case sp_first_suppressed_ms s of
        Some earliest \<Rightarrow> saturating_sub now_ms earliest \<ge> DRAIN_SUPPRESSION_CEILING_MS
      | None \<Rightarrow> False)"

definition must_close :: "RoomSyncPhase \<Rightarrow> u64 \<Rightarrow> bool" where
  "must_close s now_ms \<longleftrightarrow> is_stalled s now_ms \<or> suppressed_too_long s now_ms"

definition take_aggregate :: "RoomSyncPhase \<Rightarrow> u32 \<Rightarrow> RoomSyncPhase \<times> u32" where
  "take_aggregate s extra =
     (s\<lparr>sp_draining := False, sp_closer_failed := False, sp_first_suppressed_ms := None, sp_drained_count := 0\<rparr>,
      saturating_add32 (sp_drained_count s) extra)"

definition force_close :: "RoomSyncPhase \<Rightarrow> u32 \<Rightarrow> RoomSyncPhase \<times> RoomNotification" where
  "force_close s extra = (let (s, count) = take_aggregate s extra in (s, RN_Aggregate count))"

definition on_post_received :: "RoomSyncPhase \<Rightarrow> u64 \<Rightarrow> RoomSyncPhase \<times> RoomNotification" where
  "on_post_received s now_ms =
     (if \<not> sp_draining s then (s, RN_Live)
      else if must_close s now_ms then force_close s 1
      else
        let s = (if sp_first_suppressed_ms s = None then s\<lparr>sp_first_suppressed_ms := Some now_ms\<rparr> else s) in
        (s\<lparr>sp_drained_count := sp_drained_count s + 1\<rparr>, RN_None))"

definition on_scheduler_tick :: "RoomSyncPhase \<Rightarrow> u64 \<Rightarrow> RoomSyncPhase \<times> RoomNotification option" where
  "on_scheduler_tick s now_ms =
     (if \<not> sp_draining s \<or> \<not> must_close s now_ms then (s, None)
      else
        let (s, notification) = force_close s 0 in
        (s, if notification = RN_Aggregate 0 then None else Some notification))"

definition on_push_outcome :: "RoomSyncPhase \<Rightarrow> RoomPushOutcome \<Rightarrow> u64 \<Rightarrow> RoomSyncPhase \<times> RoomNotification" where
  "on_push_outcome s outcome now_ms =
     (if po_entry outcome = None then (s, RN_None) else on_post_received s now_ms)"

definition on_keep_alive_ack :: "RoomSyncPhase \<Rightarrow> u8 \<Rightarrow> u64 \<Rightarrow> RoomSyncPhase \<times> RoomNotification option" where
  "on_keep_alive_ack s unsynced now_ms =
     (if \<not> sp_draining s then (s, None)
      else
        let s = s\<lparr>sp_last_progress_ms := now_ms, sp_closer_failed := False\<rparr> in
        if unsynced \<noteq> 0 then (s, None)
        else
          let (s, count) = take_aggregate s 0 in
          (s, if count = 0 then None else Some (RN_Aggregate count)))"

definition note_closer_failed :: "RoomSyncPhase \<Rightarrow> RoomSyncPhase \<times> RoomNotification option" where
  "note_closer_failed s =
     (if \<not> sp_draining s then (s, None)
      else
        let s = s\<lparr>sp_closer_failed := True\<rparr> in
        if sp_drained_count s = 0 then (s, None)
        else let (s, count) = take_aggregate s 0 in (s, Some (RN_Aggregate count)))"

section \<open>Runs\<close>

text \<open>What happens to a session: a push is decoded, a keep-alive is acknowledged, the scheduler passes, the
  route is found dead, a login completes.\<close>

datatype phase_event =
    Pushed RoomPushOutcome u64
  | KeepAliveAcked u8 u64
  | SchedulerPass u64
  | RouteDead
  | LoginDone u64

fun phase_step :: "RoomSyncPhase \<Rightarrow> phase_event \<Rightarrow> RoomSyncPhase \<times> RoomNotification option" where
  "phase_step s (Pushed outcome now_ms) = (let (s, n) = on_push_outcome s outcome now_ms in (s, Some n))"
| "phase_step s (KeepAliveAcked unsynced now_ms) = on_keep_alive_ack s unsynced now_ms"
| "phase_step s (SchedulerPass now_ms) = on_scheduler_tick s now_ms"
| "phase_step s RouteDead = note_closer_failed s"
| "phase_step s (LoginDone now_ms) = (note_relogin s now_ms, None)"

text \<open>How many posts a notification announces.\<close>

fun announces :: "RoomNotification option \<Rightarrow> nat" where
  "announces (Some RN_Live) = 1"
| "announces (Some (RN_Aggregate n)) = unat n"
| "announces _ = 0"

fun phase_run :: "RoomSyncPhase \<Rightarrow> phase_event list \<Rightarrow> RoomSyncPhase \<times> nat" where
  "phase_run s [] = (s, 0)"
| "phase_run s (e # evs) =
     (let (s, n) = phase_step s e; (s, k) = phase_run s evs in (s, announces n + k))"

text \<open>The times of the new posts of a run, and of all its events.\<close>

fun post_time :: "phase_event \<Rightarrow> nat list" where
  "post_time (Pushed outcome now_ms) = (if po_entry outcome = None then [] else [unat now_ms])"
| "post_time _ = []"

definition post_times :: "phase_event list \<Rightarrow> nat list" where
  "post_times evs = concat (map post_time evs)"

fun event_time :: "phase_event \<Rightarrow> nat list" where
  "event_time (Pushed _ now_ms) = [unat now_ms]"
| "event_time (KeepAliveAcked _ now_ms) = [unat now_ms]"
| "event_time (SchedulerPass now_ms) = [unat now_ms]"
| "event_time RouteDead = []"
| "event_time (LoginDone now_ms) = [unat now_ms]"

definition login_free :: "phase_event list \<Rightarrow> bool" where
  "login_free evs = list_all (\<lambda>e. \<forall>t. e \<noteq> LoginDone t) evs"

text \<open>The state after posts at \<open>ts\<close> of which the first \<open>ann\<close> are announced.\<close>

definition phase_inv :: "RoomSyncPhase \<Rightarrow> nat list \<Rightarrow> nat \<Rightarrow> bool" where
  "phase_inv s ts ann \<longleftrightarrow> ann \<le> length ts \<and> unat (sp_drained_count s) = length ts - ann
     \<and> (\<not> sp_draining s \<longrightarrow> sp_drained_count s = 0)
     \<and> (sp_first_suppressed_ms s = None \<longleftrightarrow> sp_drained_count s = 0)
     \<and> (\<forall>f. sp_first_suppressed_ms s = Some f \<longrightarrow> (\<forall>t \<in> set (drop ann ts). unat f \<le> t))"

lemma phase_inv_new: "phase_inv (new_after_login t) [] 0"
  by (simp add: phase_inv_def new_after_login_def)

lemma take_aggregate_inv:
  assumes "phase_inv s ts ann" "take_aggregate s extra = (s', n)" "unat (sp_drained_count s) + unat extra < 2 ^ 32"
  shows "unat n = length ts - ann + unat extra" "sp_drained_count s' = 0" "sp_first_suppressed_ms s' = None"
    "\<not> sp_draining s'"
  using assms by (auto simp: take_aggregate_def phase_inv_def saturating_add32_def unat_word_ariths)

lemma post_received_inv:
  assumes "phase_inv s ts ann" "length ts < 2 ^ 32 - 1" "\<forall>t \<in> set ts. t \<le> unat now"
    and "on_post_received s now = (s', n)"
  shows "phase_inv s' (ts @ [unat now]) (ann + announces (Some n))"
proof -
  have small: "unat (sp_drained_count s) + 1 < 2 ^ 32"
    using assms(1,2) by (simp add: phase_inv_def)
  consider (live) "\<not> sp_draining s" | (close) "sp_draining s" "must_close s now" | (hold) "sp_draining s" "\<not> must_close s now"
    by blast
  then show ?thesis
  proof cases
    case close
    obtain s1 k where t: "take_aggregate s 1 = (s1, k)"
      by fastforce
    then have "s' = s1" "n = RN_Aggregate k"
      using assms(4) close by (simp_all add: on_post_received_def force_close_def)
    then show ?thesis
      using take_aggregate_inv [OF assms(1) t] small assms(1) by (simp add: phase_inv_def)
  next
    case hold
    have "unat (sp_drained_count s + 1) = Suc (unat (sp_drained_count s))"
      using small by (simp add: unat_word_ariths)
    moreover from this have "sp_drained_count s + 1 \<noteq> 0"
      by (metis Zero_not_Suc unsigned_0)
    moreover have "unat f \<le> unat now" if "sp_first_suppressed_ms s = Some f" for f
    proof -
      have "drop ann ts \<noteq> []" "\<forall>t \<in> set (drop ann ts). unat f \<le> t"
        using assms(1) that by (auto simp: phase_inv_def unsigned_eq_0_iff)
      then show ?thesis
        using assms(3) by (metis in_set_dropD list.set_sel(1) order_trans)
    qed
    ultimately show ?thesis
      using assms(1,3,4) hold
      by (auto simp: on_post_received_def phase_inv_def Let_def dest: in_set_dropD)
  qed (use assms in \<open>auto simp: on_post_received_def phase_inv_def\<close>)
qed

lemma phase_step_inv:
  assumes "phase_inv s ts ann" "length ts < 2 ^ 32 - 1" "\<forall>t \<in> set ts. \<forall>t' \<in> set (event_time e). t \<le> t'"
    and "phase_step s e = (s', n)" "\<forall>t. e \<noteq> LoginDone t"
  shows "phase_inv s' (ts @ post_time e) (ann + announces n)"
proof -
  have small: "unat (sp_drained_count s) + unat (0 :: u32) < 2 ^ 32"
    using assms(1,2) by (simp add: phase_inv_def)
  obtain s1 k where t: "take_aggregate s 0 = (s1, k)"
    by fastforce
  have upd: "take_aggregate (s\<lparr>sp_last_progress_ms := p, sp_closer_failed := c\<rparr>) 0 = (s1\<lparr>sp_last_progress_ms := p\<rparr>, k)"
    "take_aggregate (s\<lparr>sp_closer_failed := c\<rparr>) 0 = (s1, k)" for p c
    using t by (auto simp: take_aggregate_def)
  note agg = take_aggregate_inv [OF assms(1) t small]
  show ?thesis
  proof (cases e)
    case (Pushed outcome now)
    then show ?thesis
      using assms post_received_inv [OF assms(1,2), of now]
      by (cases "po_entry outcome") (auto simp: on_push_outcome_def split: prod.splits)
  next
    case (KeepAliveAcked unsynced now)
    have "phase_inv (s\<lparr>sp_last_progress_ms := now, sp_closer_failed := False\<rparr>) ts ann"
      using assms(1) by (simp add: phase_inv_def)
    then show ?thesis
      using assms(1,4) KeepAliveAcked agg upd(1) [where p = now and c = False]
      by (auto simp: on_keep_alive_ack_def phase_inv_def Let_def unsigned_eq_0_iff split: if_splits)
  next
    case (SchedulerPass now)
    then show ?thesis
      using assms(1,4) agg t
      by (auto simp: on_scheduler_tick_def force_close_def phase_inv_def split: if_splits)
  next
    case RouteDead
    have "phase_inv (s\<lparr>sp_closer_failed := True\<rparr>) ts ann"
      using assms(1) by (simp add: phase_inv_def)
    then show ?thesis
      using assms(1,4) RouteDead agg upd(2) [where c = True]
      by (auto simp: note_closer_failed_def phase_inv_def Let_def split: if_splits)
  qed (use assms in auto)
qed

section \<open>Bounded suppression\<close>

lemma post_times_simps [simp]:
  "post_times [] = []" "post_times (e # evs) = post_time e @ post_times evs"
  "post_times (xs @ ys) = post_times xs @ post_times ys"
  by (simp_all add: post_times_def)

lemma post_times_event: "set (post_time e) \<subseteq> set (event_time e)" "length (post_time e) \<le> 1"
  by (cases e; simp)+

lemma phase_run_append:
  "phase_run s (xs @ ys) = (let (s1, m) = phase_run s xs; (s2, k) = phase_run s1 ys in (s2, m + k))"
  by (induction xs arbitrary: s) (auto simp: Let_def split: prod.splits)

lemma phase_run_inv:
  assumes "phase_inv s ts ann" "login_free evs" "sorted (ts @ concat (map event_time evs))"
    and "length ts + length evs < 2 ^ 32" "phase_run s evs = (s', k)"
  shows "phase_inv s' (ts @ post_times evs) (ann + k)"
  using assms
proof (induction evs arbitrary: s ts ann k)
  case (Cons e evs)
  obtain s1 n where e: "phase_step s e = (s1, n)"
    by fastforce
  obtain k1 where r: "phase_run s1 evs = (s', k1)" and k: "k = announces n + k1"
    using Cons.prems(5) e by (auto split: prod.splits)
  have "phase_inv s1 (ts @ post_time e) (ann + announces n)"
    using phase_step_inv [OF Cons.prems(1) _ _ e] Cons.prems(2-4) by (auto simp: sorted_append login_free_def)
  moreover have "sorted ((ts @ post_time e) @ concat (map event_time evs))"
    using Cons.prems(3) post_times_event(1) [of e] post_times_event(2) [of e]
    by (cases "post_time e") (auto simp: sorted_append)
  ultimately have "phase_inv s' ((ts @ post_time e) @ post_times evs) (ann + announces n + k1)"
    using Cons.prems(2,4) post_times_event(2) [of e]
    by (intro Cons.IH [OF _ _ _ _ r]) (simp_all add: login_free_def)
  then show ?case
    using k by (simp add: add.assoc)
qed simp

text \<open>After a scheduler pass nothing is held back for a minute or more.\<close>

lemma scheduler_pass_flushes:
  assumes "on_scheduler_tick s now = (s', n)" "phase_inv s' ts ann" "t \<in> set (drop ann ts)"
  shows "unat now < t + 60000"
proof -
  have "sp_first_suppressed_ms s' \<noteq> None"
    using assms(2,3) by (auto simp: phase_inv_def)
  then obtain f where f: "sp_first_suppressed_ms s' = Some f" "unat f \<le> t"
    using assms(2,3) by (auto simp: phase_inv_def)
  have "s' = s" "\<not> must_close s now \<or> \<not> sp_draining s"
    using assms(1) f by (auto simp: on_scheduler_tick_def force_close_def take_aggregate_def split: if_splits)
  moreover have "sp_draining s'"
    using assms(2) f by (auto simp: phase_inv_def)
  ultimately have "\<not> suppressed_too_long s now"
    by (simp add: must_close_def)
  then show ?thesis
    using f \<open>s' = s\<close> by (auto simp: suppressed_too_long_def word_le_nat_alt unat_saturating_sub DRAIN_SUPPRESSION_CEILING_MS_def)
qed

text \<open>C14: no post stays silent for long: between two logins, whatever pushes, acknowledgements and dead routes
  a session sees under a clock that does not go back, every new post is announced at most once, at the next
  scheduler pass all those received at least a minute earlier have been announced, and the ones that are not
  yet announced are exactly the pending count.  Repeated pushes of a known post are not counted.\<close>

theorem drain_window_bounded:
  assumes "login_free evs" "sorted (concat (map event_time (evs @ [SchedulerPass now])))" "length evs + 1 < 2 ^ 32"
    and "phase_run (new_after_login t0) (evs @ [SchedulerPass now]) = (s, k)"
  shows "k + unat (sp_drained_count s) = length (post_times evs)
    \<and> length (filter (\<lambda>t. t + 60000 \<le> unat now) (post_times evs)) \<le> k"
proof -
  obtain s1 k1 where r: "phase_run (new_after_login t0) evs = (s1, k1)"
    by fastforce
  obtain n where tick: "on_scheduler_tick s1 now = (s, n)" "k = k1 + announces n"
    using assms(4) r by (auto simp: phase_run_append split: prod.splits)
  have "login_free (evs @ [SchedulerPass now])"
    using assms(1) by (simp add: login_free_def)
  then have inv: "phase_inv s (post_times evs) k"
    using phase_run_inv [OF phase_inv_new _ _ _ assms(4)] assms(2,3)
    by simp
  have "filter (\<lambda>t. t + 60000 \<le> unat now) (drop k (post_times evs)) = []"
    using scheduler_pass_flushes [OF tick(1) inv] by (auto simp: filter_empty_conv not_le)
  then have "filter (\<lambda>t. t + 60000 \<le> unat now) (post_times evs) =
      filter (\<lambda>t. t + 60000 \<le> unat now) (take k (post_times evs))"
    by (metis append_Nil2 append_take_drop_id filter_append)
  moreover have "length (filter P (take k xs)) \<le> k" for P and xs :: "nat list"
    by (metis length_filter_le length_take min.bounded_iff)
  ultimately show ?thesis
    using inv by (auto simp: phase_inv_def)
qed

definition demo_outcome :: RoomPushOutcome where
  "demo_outcome = \<lparr>po_ack_hash = [1, 2, 3, 4], po_post_ts = 5,
     po_entry = Some \<lparr>he_sender_hash = 7, he_msg_type = HM_Dm, he_timestamp = 5, he_text = zeros 64, he_text_len = 2\<rparr>,
     po_author_pubkey_prefix = [9, 9, 9, 9]\<rparr>"

theorem drain_window_bounded_witness:
  "\<exists>s k. phase_run (new_after_login 0)
      [Pushed demo_outcome 1000, KeepAliveAcked 3 50000, Pushed demo_outcome 60500, SchedulerPass 61000] = (s, k) \<and> k \<ge> 1"
proof -
  let ?evs = "[Pushed demo_outcome 1000, KeepAliveAcked 3 50000, Pushed demo_outcome 60500]"
  obtain s k where r: "phase_run (new_after_login 0) (?evs @ [SchedulerPass 61000]) = (s, k)"
    by fastforce
  have "length (filter (\<lambda>t. t + 60000 \<le> unat (61000 :: u64)) (post_times ?evs)) \<le> k"
    using drain_window_bounded [OF _ _ _ r] by (simp add: login_free_def)
  then show ?thesis
    using r by (simp add: demo_outcome_def)
qed

text \<open>a login forgets the posts that are held back: the window it opens starts with nothing pending, so
  as long as no further post arrives, no acknowledgement, dead route or scheduler pass, however late,
  announces a post that was pending when the login completed.\<close>

theorem relogin_forgets_posts:
  assumes "\<forall>e \<in> set evs. \<forall>outcome t. e \<noteq> Pushed outcome t"
  shows "snd (phase_run s (LoginDone now # evs)) = 0"
proof -
  have idle: "sp_drained_count s' = 0 \<Longrightarrow> sp_drained_count (fst (phase_step s' e)) = 0 \<and> announces (snd (phase_step s' e)) = 0"
    if "\<forall>outcome t. e \<noteq> Pushed outcome t" for s' e
    using that
    by (cases e) (auto simp: on_keep_alive_ack_def on_scheduler_tick_def force_close_def take_aggregate_def
      note_closer_failed_def note_relogin_def new_after_login_def saturating_add32_def Let_def)
  have "sp_drained_count s' = 0 \<Longrightarrow> \<forall>e \<in> set evs. \<forall>outcome t. e \<noteq> Pushed outcome t \<Longrightarrow> snd (phase_run s' evs) = 0" for s' evs
  proof (induction evs arbitrary: s')
    case (Cons e evs)
    obtain s1 n where st: "phase_step s' e = (s1, n)"
      by fastforce
    then have "sp_drained_count s1 = 0" "announces n = 0"
      using idle [of e s'] Cons.prems by auto
    then show ?case
      using Cons.IH [of s1] Cons.prems st by (auto split: prod.splits)
  qed simp
  then show ?thesis
    using assms by (auto simp: note_relogin_def new_after_login_def split: prod.splits)
qed

theorem relogin_forgets_posts_witness:
  "on_push_outcome (new_after_login 0) demo_outcome 1000 =
     (\<lparr>sp_draining = True, sp_drained_count = 1, sp_last_progress_ms = 0, sp_closer_failed = False,
       sp_first_suppressed_ms = Some 1000\<rparr>, RN_None)
   \<and> snd (phase_run (fst (on_push_outcome (new_after_login 0) demo_outcome 1000))
       [LoginDone 31000, KeepAliveAcked 0 46000, SchedulerPass 400000]) = 0"
  using relogin_forgets_posts [of "[KeepAliveAcked 0 46000, SchedulerPass 400000]"]
  by (auto simp: on_push_outcome_def demo_outcome_def on_post_received_def new_after_login_def must_close_def is_stalled_def
    suppressed_too_long_def saturating_sub_def DRAIN_WINDOW_STALL_TIMEOUT_MS_def)

end
