(* ===== verification/Telemetry.thy ===== *)
theory Telemetry
  imports Prelude "HOL-Library.Signed_Division"
begin

text \<open>
  \<open>protocol/src/telemetry.rs\<close>: the location request and its text answers, and the native request and
  answer with its Cayenne LPP entries.

  An \<open>i32\<close> is its bit pattern, read by \<open>sint\<close>; \<open>i64\<close> values stay far inside their range here and are
  integers.  The writer is the buffer and the position, and it drops what does not fit, as the code does.
\<close>

section \<open>Requests\<close>

type_synonym i32 = "32 word"

definition TELEMETRY_REQUEST_MAGIC :: bytes where
  "TELEMETRY_REQUEST_MAGIC = [0x3F, 0x6C, 0x6F, 0x63]"

definition MAX_RESPONSE_LEN :: nat where
  "MAX_RESPONSE_LEN = 64"

definition RESP_NO_FIX :: bytes where
  "RESP_NO_FIX = [0x6C, 0x6F, 0x63, 0x3A, 0x6E, 0x6F, 0x66, 0x69, 0x78]"

text \<open>\<open>is_ascii_whitespace\<close>, \<open>to_ascii_lowercase\<close>, \<open>eq_ignore_ascii_case\<close> and \<open>is_ascii_digit\<close> of the
  standard library.\<close>

definition is_ascii_whitespace :: "u8 \<Rightarrow> bool" where
  "is_ascii_whitespace b \<longleftrightarrow> b \<in> {0x20, 0x09, 0x0A, 0x0C, 0x0D}"

definition to_ascii_lowercase :: "u8 \<Rightarrow> u8" where
  "to_ascii_lowercase b = (if 0x41 \<le> b \<and> b \<le> 0x5A then b + 0x20 else b)"

definition eq_ignore_ascii_case :: "bytes \<Rightarrow> bytes \<Rightarrow> bool" where
  "eq_ignore_ascii_case a b \<longleftrightarrow> map to_ascii_lowercase a = map to_ascii_lowercase b"

definition is_digit_byte :: "u8 \<Rightarrow> bool" where
  "is_digit_byte b \<longleftrightarrow> 0x30 \<le> b \<and> b \<le> 0x39"

fun trim_ascii_start :: "bytes \<Rightarrow> bytes" where
  "trim_ascii_start [] = []"
| "trim_ascii_start (b # bs) = (if is_ascii_whitespace b then trim_ascii_start bs else b # bs)"

definition is_telemetry_request :: "bytes \<Rightarrow> bool" where
  "is_telemetry_request msg =
     (let trimmed = trim_ascii_start msg in
      length trimmed \<ge> length TELEMETRY_REQUEST_MAGIC
      \<and> eq_ignore_ascii_case (take (length TELEMETRY_REQUEST_MAGIC) trimmed) TELEMETRY_REQUEST_MAGIC)"

section \<open>The writer\<close>

record Writer =
  w_buf :: bytes
  w_pos :: nat

definition push_byte :: "Writer \<Rightarrow> u8 \<Rightarrow> Writer" where
  "push_byte w b =
     (if w_pos w < length (w_buf w) then \<lparr>w_buf = (w_buf w)[w_pos w := b], w_pos = w_pos w + 1\<rparr> else w)"

fun push_bytes :: "Writer \<Rightarrow> bytes \<Rightarrow> Writer" where
  "push_bytes w [] = w"
| "push_bytes w (b # bs) = push_bytes (push_byte w b) bs"

text \<open>The digits of \<open>push_u64\<close>, least significant first.\<close>

function u64_digits :: "u64 \<Rightarrow> bytes" where
  "u64_digits v = (if v > 0 then (ucast (v mod 10) + 0x30) # u64_digits (v div 10) else [])"
  by auto
termination
  by (relation "measure unat") (auto simp: unat_div word_less_nat_alt)

declare u64_digits.simps [simp del]

definition push_u64 :: "Writer \<Rightarrow> u64 \<Rightarrow> Writer" where
  "push_u64 w val =
     (if val = 0 then push_byte w 0x30
      else push_bytes w (rev (u64_digits val)))"

definition push_u32 :: "Writer \<Rightarrow> u32 \<Rightarrow> Writer" where
  "push_u32 w val = push_u64 w (ucast val)"

definition frac_digits :: "int \<Rightarrow> bytes" where
  "frac_digits frac_part =
     map (\<lambda>d. word_of_int ((frac_part div d) mod 10) + 0x30) [1000000, 100000, 10000, 1000, 100, 10, 1]"

definition push_coord :: "Writer \<Rightarrow> i32 \<Rightarrow> Writer" where
  "push_coord w val_e7 =
     (let neg = sint val_e7 < 0;
          abs = (if neg then - sint val_e7 else sint val_e7);
          w = (if neg then push_byte w 0x2D else w);
          int_part = abs div 10000000;
          frac_part = abs mod 10000000;
          w = push_u64 w (word_of_int int_part);
          w = push_byte w 0x2E
      in push_bytes w (frac_digits frac_part))"

definition push_i24_be :: "Writer \<Rightarrow> i32 \<Rightarrow> Writer" where
  "push_i24_be w u =
     push_byte (push_byte (push_byte w (ucast (drop_bit 16 u))) (ucast (drop_bit 8 u))) (ucast u)"

definition push_u32_be :: "Writer \<Rightarrow> u32 \<Rightarrow> Writer" where
  "push_u32_be w val =
     push_byte (push_byte (push_byte (push_byte w (ucast (drop_bit 24 val))) (ucast (drop_bit 16 val)))
       (ucast (drop_bit 8 val))) (ucast val)"

definition push_u16_be :: "Writer \<Rightarrow> u16 \<Rightarrow> Writer" where
  "push_u16_be w val = push_byte (push_byte w (ucast (drop_bit 8 val))) (ucast val)"

section \<open>Text answers\<close>

definition encode_telemetry_response :: "i32 \<Rightarrow> i32 \<Rightarrow> u32 \<Rightarrow> bytes \<Rightarrow> bytes \<times> nat" where
  "encode_telemetry_response lat_e7 lon_e7 age_secs out =
     (let w = \<lparr>w_buf = out, w_pos = 0\<rparr>;
          w = push_bytes w [0x6C, 0x6F, 0x63, 0x3A, 0x6C, 0x61, 0x74, 0x3D];
          w = push_coord w lat_e7;
          w = push_bytes w [0x2C, 0x6C, 0x6F, 0x6E, 0x3D];
          w = push_coord w lon_e7;
          w = push_bytes w [0x2C, 0x61, 0x67, 0x65, 0x3D];
          w = push_u32 w age_secs;
          w = push_byte w 0x73
      in (w_buf w, w_pos w))"

definition encode_no_fix_response :: "bytes \<Rightarrow> (bytes \<times> nat) rust" where
  "encode_no_fix_response out = do {
     let n = min (length RESP_NO_FIX) (length out);
     src \<leftarrow> slice RESP_NO_FIX 0 n;
     out \<leftarrow> copy_into out 0 src;
     Some (out, n)
   }"

record TelemetryResponse =
  tr_lat_e7 :: i32
  tr_lon_e7 :: i32
  tr_age_secs :: u32

text \<open>\<open>strip_prefix\<close> and \<open>strip_suffix\<close> of slices.\<close>

definition strip_prefix :: "bytes \<Rightarrow> bytes \<Rightarrow> bytes option" where
  "strip_prefix p s = (if take (length p) s = p then Some (drop (length p) s) else None)"

definition strip_suffix :: "bytes \<Rightarrow> bytes \<Rightarrow> bytes option" where
  "strip_suffix p s =
     (if length p \<le> length s \<and> drop (length s - length p) s = p then Some (take (length s - length p) s) else None)"

fun split_once :: "bytes \<Rightarrow> u8 \<Rightarrow> (bytes \<times> bytes) option" where
  "split_once [] sep = None"
| "split_once (b # bs) sep =
     (if b = sep then Some ([], bs)
      else case split_once bs sep of None \<Rightarrow> None | Some (before, after) \<Rightarrow> Some (b # before, after))"

fun parse_u32_loop :: "u32 \<Rightarrow> bytes \<Rightarrow> u32 option" where
  "parse_u32_loop acc [] = Some acc"
| "parse_u32_loop acc (b # bs) =
     (if \<not> is_digit_byte b then None
      else if unat acc * 10 \<ge> 2 ^ 32 then None
      else if unat (acc * 10) + unat (b - 0x30) \<ge> 2 ^ 32 then None
      else parse_u32_loop (acc * 10 + ucast (b - 0x30)) bs)"

definition parse_u32 :: "bytes \<Rightarrow> u32 option" where
  "parse_u32 s = (if s = [] then None else parse_u32_loop 0 s)"

definition parse_coord_e7 :: "bytes \<Rightarrow> i32 option" where
  "parse_coord_e7 s =
     (let (neg, s) = (if s \<noteq> [] \<and> s ! 0 = 0x2D then (True, drop 1 s) else (False, s)) in
      do {
        (int_str, frac_str) \<leftarrow> split_once s 0x2E;
        int_part \<leftarrow> parse_u32 int_str;
        if length frac_str \<noteq> 7 then None
        else do {
          frac_part \<leftarrow> parse_u32 frac_str;
          let val_i64 = uint int_part * 10000000 + uint frac_part;
          if val_i64 > 2 ^ 31 - 1 then None
          else Some (if neg then - word_of_int val_i64 else word_of_int val_i64)
        }
      })"

definition decode_telemetry_response :: "bytes \<Rightarrow> TelemetryResponse option" where
  "decode_telemetry_response msg = do {
     rest \<leftarrow> strip_prefix [0x6C, 0x6F, 0x63, 0x3A, 0x6C, 0x61, 0x74, 0x3D] msg;
     (lat_str, rest) \<leftarrow> split_once rest 0x2C;
     lat_e7 \<leftarrow> parse_coord_e7 lat_str;
     rest \<leftarrow> strip_prefix [0x6C, 0x6F, 0x6E, 0x3D] rest;
     (lon_str, rest) \<leftarrow> split_once rest 0x2C;
     lon_e7 \<leftarrow> parse_coord_e7 lon_str;
     rest \<leftarrow> strip_prefix [0x61, 0x67, 0x65, 0x3D] rest;
     age_str \<leftarrow> strip_suffix [0x73] rest;
     age_secs \<leftarrow> parse_u32 age_str;
     Some \<lparr>tr_lat_e7 = lat_e7, tr_lon_e7 = lon_e7, tr_age_secs = age_secs\<rparr>
   }"

definition is_no_fix_response :: "bytes \<Rightarrow> bool" where
  "is_no_fix_response msg \<longleftrightarrow> msg = RESP_NO_FIX"

named_theorems lpp \<open>constants of the LPP entries\<close>

section \<open>Native requests and answers\<close>

definition REQ_TYPE_GET_TELEMETRY_DATA :: u8 where
  [lpp]: "REQ_TYPE_GET_TELEMETRY_DATA = 0x03"

definition TELEM_CHANNEL_SELF :: u8 where
  [lpp]: "TELEM_CHANNEL_SELF = 1"

definition LPP_GPS :: u8 where
  [lpp]: "LPP_GPS = 136"

definition LPP_PRESENCE :: u8 where
  [lpp]: "LPP_PRESENCE = 102"

definition LPP_PERCENTAGE :: u8 where
  [lpp]: "LPP_PERCENTAGE = 120"

definition LPP_TEMPERATURE :: u8 where
  [lpp]: "LPP_TEMPERATURE = 103"

definition LPP_VOLTAGE :: u8 where
  [lpp]: "LPP_VOLTAGE = 116"

definition LPP_DIGITAL_INPUT :: u8 where
  [lpp]: "LPP_DIGITAL_INPUT = 0"

definition LPP_GENERIC_SENSOR :: u8 where
  [lpp]: "LPP_GENERIC_SENSOR = 100"

definition LPP_LUMINOSITY :: u8 where
  [lpp]: "LPP_LUMINOSITY = 101"

definition LPP_DIGITAL_OUTPUT :: u8 where
  [lpp]: "LPP_DIGITAL_OUTPUT = 1"

definition LPP_GPS_ENTRY_LEN :: nat where
  [lpp]: "LPP_GPS_ENTRY_LEN = 11"

definition LPP_BYTE_ENTRY_LEN :: nat where
  [lpp]: "LPP_BYTE_ENTRY_LEN = 3"

definition LPP_U16_ENTRY_LEN :: nat where
  [lpp]: "LPP_U16_ENTRY_LEN = 4"

definition LPP_U32_ENTRY_LEN :: nat where
  [lpp]: "LPP_U32_ENTRY_LEN = 6"

definition lpp_entry_len :: "u8 \<Rightarrow> nat" where
  "lpp_entry_len entry_type =
     (if entry_type \<in> {0, 1, 102, 104, 120, 142} then LPP_BYTE_ENTRY_LEN
      else if entry_type \<in> {2, 3, 101, 103, 115, 116, 117, 121, 125, 128, 132} then LPP_U16_ENTRY_LEN
      else if entry_type = 135 then 5
      else if entry_type \<in> {100, 118, 130, 131, 133} then LPP_U32_ENTRY_LEN
      else if entry_type \<in> {113, 134} then 8
      else if entry_type = 136 then LPP_GPS_ENTRY_LEN
      else if entry_type = 240 then 10
      else LPP_BYTE_ENTRY_LEN)"

definition MAX_TELEMETRY_RESPONSE_LEN :: nat where
  "MAX_TELEMETRY_RESPONSE_LEN = 40"

record TelemetryReq =
  tq_tag :: u32
  tq_req_type :: u8

definition parse_telemetry_req :: "bytes \<Rightarrow> TelemetryReq option" where
  "parse_telemetry_req plaintext =
     (if length plaintext < 5 then None
      else Some \<lparr>tq_tag = from_le32 (plaintext ! 0) (plaintext ! 1) (plaintext ! 2) (plaintext ! 3),
        tq_req_type = plaintext ! 4\<rparr>)"

definition is_telemetry_req :: "TelemetryReq \<Rightarrow> bool" where
  "is_telemetry_req req \<longleftrightarrow> tq_req_type req = REQ_TYPE_GET_TELEMETRY_DATA"

text \<open>Rust's \<open>/\<close> on \<open>i32\<close> truncates towards zero: \<open>sdiv\<close>.\<close>

definition encode_telemetry_response_lpp ::
    "u32 \<Rightarrow> (i32 \<times> i32) option \<Rightarrow> (u8 \<times> bool) option \<Rightarrow> u32 option \<Rightarrow> u32 option \<Rightarrow> u8 option \<Rightarrow> bytes \<Rightarrow> bytes \<times> nat" where
  "encode_telemetry_response_lpp tag gps battery raw_mv held_raw_mv level out =
     (let w = \<lparr>w_buf = out, w_pos = 0\<rparr>;
          w = push_bytes w (to_le32 tag);
          w = (case gps of
                 Some (lat_e7, lon_e7) \<Rightarrow>
                   let lat_e4 = word_of_int (sint lat_e7 sdiv 1000);
                       lon_e4 = word_of_int (sint lon_e7 sdiv 1000);
                       w = push_byte w TELEM_CHANNEL_SELF;
                       w = push_byte w LPP_GPS;
                       w = push_i24_be w lat_e4;
                       w = push_i24_be w lon_e4
                   in push_i24_be w 0
               | None \<Rightarrow>
                   push_byte (push_byte (push_byte w TELEM_CHANNEL_SELF) LPP_PRESENCE) 0);
          w = (case battery of
                 Some (percent, charging) \<Rightarrow>
                   let w = push_byte (push_byte (push_byte w TELEM_CHANNEL_SELF) LPP_PERCENTAGE) (min percent 100)
                   in push_byte (push_byte (push_byte w TELEM_CHANNEL_SELF) LPP_DIGITAL_INPUT) (if charging then 1 else 0)
               | None \<Rightarrow> w);
          w = (case raw_mv of
                 Some mv \<Rightarrow> push_u32_be (push_byte (push_byte w TELEM_CHANNEL_SELF) LPP_GENERIC_SENSOR) mv
               | None \<Rightarrow> w);
          w = (case held_raw_mv of
                 Some mv \<Rightarrow> push_u16_be (push_byte (push_byte w TELEM_CHANNEL_SELF) LPP_LUMINOSITY) (ucast (min mv 65535))
               | None \<Rightarrow> w);
          w = (case level of
                 Some ordinal \<Rightarrow> push_byte (push_byte (push_byte w TELEM_CHANNEL_SELF) LPP_DIGITAL_OUTPUT) ordinal
               | None \<Rightarrow> w)
      in (w_buf w, w_pos w))"

record TelemetryResponseLpp =
  tl_tag :: u32
  tl_gps_e4 :: "(i32 \<times> i32) option"
  tl_battery :: "(u8 \<times> bool) option"
  tl_battery_raw_mv :: "u32 option"
  tl_battery_held_raw_mv :: "u32 option"
  tl_battery_level :: "u8 option"
  tl_battery_voltage_mv :: "u32 option"
  tl_temperature_c_x10 :: "u16 option"

definition read_i24_be :: "bytes \<Rightarrow> i32 rust" where
  "read_i24_be b = do {
     x \<leftarrow> get_at b 0;
     y \<leftarrow> get_at b 1;
     z \<leftarrow> get_at b 2;
     let raw = push_bit 16 (ucast x) OR push_bit 8 (ucast y) OR ucast z;
     Some (if raw AND 0x00800000 \<noteq> 0 then raw OR 0xFF000000 else raw)
   }"

definition read_u32_be :: "bytes \<Rightarrow> u32 rust" where
  "read_u32_be b = do {
     x \<leftarrow> get_at b 0;
     y \<leftarrow> get_at b 1;
     z \<leftarrow> get_at b 2;
     v \<leftarrow> get_at b 3;
     Some (push_bit 24 (ucast x) OR push_bit 16 (ucast y) OR push_bit 8 (ucast z) OR ucast v)
   }"

definition read_u16_be :: "bytes \<Rightarrow> u16 rust" where
  "read_u16_be b = do {
     x \<leftarrow> get_at b 0;
     y \<leftarrow> get_at b 1;
     Some (push_bit 8 (ucast x) OR ucast y)
   }"

text \<open>The local variables of the scan.\<close>

record LppScan =
  ls_gps_e4 :: "(i32 \<times> i32) option"
  ls_percent :: "u8 option"
  ls_charging :: "bool option"
  ls_raw_mv :: "u32 option"
  ls_held_raw_mv :: "u32 option"
  ls_level :: "u8 option"
  ls_voltage_mv :: "u32 option"
  ls_temperature_c_x10 :: "u16 option"

text \<open>The \<open>match\<close> on the type of one entry.\<close>

definition lpp_entry :: "LppScan \<Rightarrow> u8 \<Rightarrow> u8 \<Rightarrow> bytes \<Rightarrow> LppScan rust" where
  "lpp_entry s channel entry_type body =
     (if entry_type = LPP_GPS then do {
        b \<leftarrow> slice body 2 5;
        lat_e4 \<leftarrow> read_i24_be b;
        b \<leftarrow> slice body 5 8;
        lon_e4 \<leftarrow> read_i24_be b;
        Some (s\<lparr>ls_gps_e4 := Some (lat_e4, lon_e4)\<rparr>)
      } else if entry_type = LPP_VOLTAGE \<and> channel = TELEM_CHANNEL_SELF then do {
        b \<leftarrow> slice body 2 4;
        v \<leftarrow> read_u16_be b;
        Some (s\<lparr>ls_voltage_mv := Some (ucast v * 10)\<rparr>)
      } else if entry_type = LPP_TEMPERATURE \<and> channel = TELEM_CHANNEL_SELF then do {
        b \<leftarrow> slice body 2 4;
        v \<leftarrow> read_u16_be b;
        Some (s\<lparr>ls_temperature_c_x10 := Some v\<rparr>)
      } else if entry_type = LPP_PERCENTAGE then do {
        b \<leftarrow> get_at body 2;
        Some (s\<lparr>ls_percent := Some b\<rparr>)
      } else if entry_type = LPP_DIGITAL_INPUT then do {
        b \<leftarrow> get_at body 2;
        Some (s\<lparr>ls_charging := Some (b \<noteq> 0)\<rparr>)
      } else if entry_type = LPP_PRESENCE then Some s
      else if entry_type = LPP_GENERIC_SENSOR then do {
        b \<leftarrow> slice body 2 6;
        v \<leftarrow> read_u32_be b;
        Some (s\<lparr>ls_raw_mv := Some v\<rparr>)
      } else if entry_type = LPP_LUMINOSITY then do {
        b \<leftarrow> slice body 2 4;
        v \<leftarrow> read_u16_be b;
        Some (s\<lparr>ls_held_raw_mv := Some (ucast v)\<rparr>)
      } else if entry_type = LPP_DIGITAL_OUTPUT then do {
        b \<leftarrow> get_at body 2;
        Some (s\<lparr>ls_level := Some b\<rparr>)
      } else Some s)"

lemma lpp_entry_len_ge: "3 \<le> lpp_entry_len t"
  by (simp add: lpp_entry_len_def lpp)

lemma lpp_rest_shorter: "2 \<le> length body \<Longrightarrow> length (drop (lpp_entry_len t) body) < length body"
  using lpp_entry_len_ge [of t] by simp

function lpp_scan :: "LppScan \<Rightarrow> bytes \<Rightarrow> LppScan rust" where
  "lpp_scan s body =
     (if length body \<ge> 2 then
        let channel = body ! 0; entry_type = body ! 1; entry_len = lpp_entry_len entry_type in
        if length body < entry_len then Some s
        else (case lpp_entry s channel entry_type body of
                None \<Rightarrow> panic
              | Some s \<Rightarrow> lpp_scan s (drop entry_len body))
      else Some s)"
  by auto
termination
  by (relation "measure (length \<circ> snd)") (simp_all only: wf_measure in_measure comp_apply snd_conv lpp_rest_shorter)

declare lpp_scan.simps [simp del]

definition decode_telemetry_response_lpp :: "bytes \<Rightarrow> TelemetryResponseLpp option rust" where
  "decode_telemetry_response_lpp plaintext =
     (if length plaintext < 4 then Some None
      else do {
        let tag = from_le32 (plaintext ! 0) (plaintext ! 1) (plaintext ! 2) (plaintext ! 3);
        body \<leftarrow> slice_from plaintext 4;
        s \<leftarrow> lpp_scan \<lparr>ls_gps_e4 = None, ls_percent = None, ls_charging = None, ls_raw_mv = None, ls_held_raw_mv = None,
               ls_level = None, ls_voltage_mv = None, ls_temperature_c_x10 = None\<rparr> body;
        let battery = (case (ls_percent s, ls_charging s) of (Some p, Some c) \<Rightarrow> Some (p, c) | _ \<Rightarrow> None);
        Some (Some \<lparr>tl_tag = tag, tl_gps_e4 = ls_gps_e4 s, tl_battery = battery, tl_battery_raw_mv = ls_raw_mv s,
          tl_battery_held_raw_mv = ls_held_raw_mv s, tl_battery_level = ls_level s,
          tl_battery_voltage_mv = ls_voltage_mv s, tl_temperature_c_x10 = ls_temperature_c_x10 s\<rparr>)
      })"

section \<open>Lemmas: decimal numbers\<close>

text \<open>The writer after it wrote \<open>p\<close>.\<close>

definition wr :: "bytes \<Rightarrow> bytes \<Rightarrow> Writer" where
  "wr p out = \<lparr>w_buf = put p out, w_pos = length p\<rparr>"

lemma wr_Nil: "\<lparr>w_buf = out, w_pos = 0\<rparr> = wr [] out"
  by (simp add: wr_def put_def)

lemma push_byte_wr [simp]: "length p < length out \<Longrightarrow> push_byte (wr p out) b = wr (p @ [b]) out"
  using emit_set [of p "length p" out b] by (simp add: push_byte_def wr_def set_at_def)

lemma push_bytes_wr [simp]: "length p + length bs \<le> length out \<Longrightarrow> push_bytes (wr p out) bs = wr (p @ bs) out"
  by (induction bs arbitrary: p) simp_all

lemma wr_sel [simp]: "w_buf (wr p out) = put p out" "w_pos (wr p out) = length p"
  by (simp_all add: wr_def)

abbreviation digit :: "nat \<Rightarrow> u8" where
  "digit d \<equiv> of_nat d + 0x30"

fun dec_digits :: "nat \<Rightarrow> bytes" where
  "dec_digits n = (if n > 0 then digit (n mod 10) # dec_digits (n div 10) else [])"

declare dec_digits.simps [simp del]

definition dec :: "nat \<Rightarrow> bytes" where
  "dec n = (if n = 0 then [0x30] else rev (dec_digits n))"

lemma u64_digits_dec: "u64_digits v = dec_digits (unat v)"
proof (induction v rule: u64_digits.induct)
  case (1 v)
  have "ucast (v mod 10) = (of_nat (unat v mod 10) :: u8)"
    by (simp add: word_unat_eq_iff unsigned_ucast_eq unat_mod unat_of_nat take_bit_eq_mod)
  then show ?case
    using 1 u64_digits.simps [of v] dec_digits.simps [of "unat v"] by (simp add: word_less_nat_alt unat_div)
qed

lemma digit_bytes: "d < 10 \<Longrightarrow> is_digit_byte (digit d) \<and> digit d - 0x30 = of_nat d"
  by (auto simp: is_digit_byte_def word_le_nat_alt unat_word_ariths unat_of_nat)

lemma dec_is_digit: "b \<in> set (dec n) \<Longrightarrow> is_digit_byte b"
proof -
  have "\<forall>b \<in> set (dec_digits n). is_digit_byte b"
  proof (induction n rule: dec_digits.induct)
    case (1 n)
    then show ?case
      using digit_bytes [of "n mod 10"] by (subst dec_digits.simps) auto
  qed
  then show "b \<in> set (dec n) \<Longrightarrow> is_digit_byte b"
    by (auto simp: dec_def is_digit_byte_def split: if_splits)
qed

lemma dec_digits_length: "n < 10 ^ k \<Longrightarrow> length (dec_digits n) \<le> k"
proof (induction k arbitrary: n)
  case (Suc k)
  then have "n div 10 < 10 ^ k"
    by (simp add: less_mult_imp_div_less mult.commute)
  then show ?case
    using Suc.IH [of "n div 10"] by (subst dec_digits.simps) simp
qed (simp add: dec_digits.simps)

lemma dec_length: "n < 10 ^ k \<Longrightarrow> 0 < k \<Longrightarrow> length (dec n) \<le> k"
  using dec_digits_length [of n k] by (simp add: dec_def)

lemma dec_not_Nil: "dec n \<noteq> []"
  by (simp add: dec_def dec_digits.simps [of n])

lemma push_u64_wr:
  "length p + length (dec (unat v)) \<le> length out \<Longrightarrow> push_u64 (wr p out) v = wr (p @ dec (unat v)) out"
  by (auto simp: push_u64_def dec_def u64_digits_dec unat_eq_zero)

lemma parse_digit:
  assumes "d < 10" "10 * n + d < 2 ^ 32"
  shows "parse_u32_loop (of_nat n) (digit d # bs) = parse_u32_loop (of_nat (10 * n + d)) bs"
proof -
  have "unat (of_nat n :: u32) = n" "unat (of_nat n * 10 :: u32) = 10 * n" "unat (of_nat d :: u8) = d"
    using assms by (simp_all add: unat_of_nat unat_word_ariths)
  moreover have "ucast (of_nat d :: u8) = (of_nat d :: u32)"
    using assms(1) by (intro word_unat_eq_iff [THEN iffD2]) (simp add: unsigned_ucast_eq unat_of_nat take_bit_eq_mod)
  ultimately show ?thesis
    using assms digit_bytes [OF assms(1)] by (simp add: algebra_simps)
qed

lemma parse_u32_loop_append:
  "parse_u32_loop acc (xs @ ys) = (case parse_u32_loop acc xs of None \<Rightarrow> None | Some a \<Rightarrow> parse_u32_loop a ys)"
  by (induction acc xs rule: parse_u32_loop.induct) simp_all

lemma parse_dec_digits: "n < 2 ^ 32 \<Longrightarrow> parse_u32_loop 0 (rev (dec_digits n)) = Some (of_nat n)"
proof (induction n rule: dec_digits.induct)
  case (1 n)
  show ?case
  proof (cases "n > 0")
    case True
    then have "parse_u32_loop 0 (rev (dec_digits (n div 10))) = Some (of_nat (n div 10))"
      using 1 by simp
    then show ?thesis
      using True 1(2) parse_digit [of "n mod 10" "n div 10" "[]"]
      by (subst dec_digits.simps) (simp add: parse_u32_loop_append)
  qed (simp add: dec_digits.simps)
qed

lemma parse_u32_dec: "n < 2 ^ 32 \<Longrightarrow> parse_u32 (dec n) = Some (of_nat n)"
  using parse_dec_digits [of n] parse_digit [of 0 0 "[]"] dec_not_Nil [of n] by (auto simp: parse_u32_def dec_def)

lemma parse_next_digit:
  "k div d < 2 ^ 32 \<Longrightarrow> parse_u32_loop (of_nat (k div (10 * d))) (digit (k div d mod 10) # bs) = parse_u32_loop (of_nat (k div d)) bs"
  using parse_digit [of "k div d mod 10" "k div (10 * d)" bs] by (simp add: div_mult2_eq mult.commute [of 10 d])

lemma frac_digits_nat:
  "frac_digits (int k) = map (\<lambda>d. digit (k div d mod 10)) [1000000, 100000, 10000, 1000, 100, 10, 1]"
proof -
  have "word_of_int (int k div int d mod 10) = (of_nat (k div d mod 10) :: u8)" for d
    by (metis of_int_of_nat_eq of_nat_numeral zdiv_int zmod_int)
  from this [of 1000000] this [of 100000] this [of 10000] this [of 1000] this [of 100] this [of 10] this [of 1]
  show ?thesis
    by (simp only: frac_digits_def list.map of_nat_numeral of_nat_1)
qed

lemma frac_digits_ok:
  assumes "k < 10000000"
  shows "parse_u32 (frac_digits (int k)) = Some (of_nat k)" "length (frac_digits (int k)) = 7"
    "\<forall>b \<in> set (frac_digits (int k)). is_digit_byte b"
proof -
  have lt: "k div d < 2 ^ 32" for d
    by (rule le_less_trans [OF div_le_dividend]) (use assms in simp)
  have "parse_u32_loop (of_nat (k div 10000000)) (frac_digits (int k)) = Some (of_nat (k div 1))"
    unfolding frac_digits_nat list.map
    using parse_next_digit [OF lt, of 1000000] parse_next_digit [OF lt, of 100000] parse_next_digit [OF lt, of 10000]
      parse_next_digit [OF lt, of 1000] parse_next_digit [OF lt, of 100] parse_next_digit [OF lt, of 10]
      parse_next_digit [OF lt, of 1]
    by (simp del: parse_u32_loop.simps(2))
  then show "parse_u32 (frac_digits (int k)) = Some (of_nat k)"
    using assms by (simp add: parse_u32_def frac_digits_nat)
  show "length (frac_digits (int k)) = 7" "\<forall>b \<in> set (frac_digits (int k)). is_digit_byte b"
    using digit_bytes by (auto simp: frac_digits_nat)
qed

section \<open>Lemmas: coordinates\<close>

definition coord_bytes :: "bool \<Rightarrow> nat \<Rightarrow> bytes" where
  "coord_bytes neg a =
     (if neg then [0x2D] else []) @ dec (a div 10000000) @ [0x2E] @ frac_digits (int (a mod 10000000))"

definition coord_text :: "i32 \<Rightarrow> bytes" where
  "coord_text v = coord_bytes (sint v < 0) (nat \<bar>sint v\<bar>)"

lemma sint_bounds: "nat \<bar>sint v\<bar> \<le> 2147483648" for v :: i32
  using sint_greater_eq [of v] sint_less [of v] by simp

lemma coord_bytes_length: "a \<le> 2147483648 \<Longrightarrow> length (coord_bytes neg a) \<le> 12"
proof -
  assume "a \<le> 2147483648"
  then have "a div 10000000 < 10 ^ 3"
    by simp
  from dec_length [OF this] show ?thesis
    by (cases neg) (simp_all add: coord_bytes_def frac_digits_ok(2))
qed

lemma coord_text_length: "length (coord_text v) \<le> 12"
  unfolding coord_text_def by (rule coord_bytes_length [OF sint_bounds])

lemma push_coord_wr:
  assumes "length p + length (coord_text v) \<le> length out"
  shows "push_coord (wr p out) v = wr (p @ coord_text v) out"
proof -
  define a where "a = nat \<bar>sint v\<bar>"
  have abs: "(if sint v < 0 then - sint v else sint v) = int a"
    by (simp add: a_def)
  have "a div 10000000 < 2 ^ 64"
    using sint_bounds [of v] by (simp add: a_def)
  moreover have "word_of_int (int a div 10000000) = (of_nat (a div 10000000) :: u64)"
    by (metis of_int_of_nat_eq of_nat_numeral zdiv_int)
  ultimately have u: "unat (word_of_int (int a div 10000000) :: u64) = a div 10000000"
    by (simp add: unat_of_nat)
  have m: "int a mod 10000000 = int (a mod 10000000)"
    by (simp add: zmod_int)
  have c: "coord_text v = coord_bytes (sint v < 0) a"
    by (simp add: coord_text_def a_def)
  show ?thesis
  proof (cases "sint v < 0")
    case True
    then show ?thesis
      using assms abs unfolding push_coord_def Let_def c coord_bytes_def by (simp add: u m push_u64_wr)
  next
    case False
    then show ?thesis
      using assms abs unfolding push_coord_def Let_def c coord_bytes_def by (simp add: u m push_u64_wr)
  qed
qed

lemma split_once_append: "sep \<notin> set a \<Longrightarrow> split_once (a @ sep # b) sep = Some (a, b)"
  by (induction a) auto

lemma digits_no_sep: "\<forall>b \<in> set xs. is_digit_byte b \<Longrightarrow> \<not> is_digit_byte sep \<Longrightarrow> sep \<notin> set xs"
  by auto

lemma separators: "\<not> is_digit_byte 0x2E" "\<not> is_digit_byte 0x2C" "\<not> is_digit_byte 0x2D" "\<not> is_digit_byte 0x73"
  by (simp_all add: is_digit_byte_def word_le_nat_alt)

lemma first_not_minus: "\<forall>b \<in> set xs. is_digit_byte b \<Longrightarrow> xs \<noteq> [] \<Longrightarrow> (xs @ ys) ! 0 \<noteq> 0x2D"
  using separators(3) by (cases xs) auto

lemma uint_of_nat32: "n < 2 ^ 32 \<Longrightarrow> uint (of_nat n :: u32) = int n"
  by (simp add: uint_nat unat_of_nat)

lemma parse_coord_bytes:
  assumes "a \<le> 2147483648"
  shows "parse_coord_e7 (coord_bytes neg a) =
    (if a = 2147483648 then None else Some (if neg then - of_nat a else of_nat a))"
proof -
  let ?i = "a div 10000000" and ?f = "a mod 10000000"
  have i: "?i < 2 ^ 32" and f: "?f < 10000000"
    using assms by simp_all
  note frac = frac_digits_ok [OF f]
  have nodot: "0x2E \<notin> set (dec ?i)"
    using dec_is_digit separators(1) by (metis)
  have sum: "uint (of_nat ?i :: u32) * 10000000 + uint (of_nat ?f :: u32) = int a"
  proof -
    have "uint (of_nat ?i :: u32) = int ?i" "uint (of_nat ?f :: u32) = int ?f"
      using i f by (intro uint_of_nat32; simp)+
    moreover have "int ?i * 10000000 + int ?f = int a"
      by (metis div_mult_mod_eq of_nat_add of_nat_mult of_nat_numeral)
    ultimately show ?thesis
      by simp
  qed
  have rest: "do {
        (int_str, frac_str) \<leftarrow> split_once (dec ?i @ 0x2E # frac_digits (int ?f)) 0x2E;
        int_part \<leftarrow> parse_u32 int_str;
        if length frac_str \<noteq> 7 then None
        else do {
          frac_part \<leftarrow> parse_u32 frac_str;
          let val_i64 = uint int_part * 10000000 + uint frac_part;
          if val_i64 > 2 ^ 31 - 1 then None
          else Some (if neg then - word_of_int val_i64 else word_of_int val_i64 :: i32)
        }
      } = (if a = 2147483648 then None else Some (if neg then - of_nat a else of_nat a))" for neg
    using assms frac by (simp add: split_once_append [OF nodot] parse_u32_dec [OF i] sum)
  show ?thesis
  proof (cases neg)
    case True
    then show ?thesis
      using rest [of True] unfolding parse_coord_e7_def coord_bytes_def by (simp only: Let_def) simp
  next
    case False
    have "(dec ?i @ 0x2E # frac_digits (int ?f)) ! 0 \<noteq> 0x2D"
      using dec_is_digit dec_not_Nil by (intro first_not_minus) auto
    then show ?thesis
      using False rest [of False] unfolding parse_coord_e7_def coord_bytes_def by (simp only: Let_def) simp
  qed
qed

lemma parse_coord_text: "parse_coord_e7 (coord_text v) = (if v = 0x80000000 then None else Some v)"
proof -
  have "nat \<bar>sint v\<bar> = 2147483648 \<longleftrightarrow> v = 0x80000000"
  proof
    assume "nat \<bar>sint v\<bar> = 2147483648"
    then have "sint v = - 2147483648"
      using sint_less [of v] by (auto split: if_splits simp: abs_if)
    then have "sint v = sint (0x80000000 :: i32)"
      by simp
    then show "v = 0x80000000"
      by (rule signed_word_eqI)
  qed simp
  moreover have "(if sint v < 0 then - of_nat (nat \<bar>sint v\<bar>) else of_nat (nat \<bar>sint v\<bar>)) = v"
    by (simp add: abs_if)
  ultimately show ?thesis
    unfolding coord_text_def by (simp only: parse_coord_bytes [OF sint_bounds])
qed

section \<open>Lemmas: the text answer\<close>

lemma strip_prefix_append [simp]: "strip_prefix p (p @ s) = Some s"
  by (simp add: strip_prefix_def)

lemma strip_suffix_append [simp]: "strip_suffix q (s @ q) = Some s"
  by (simp add: strip_suffix_def)

lemma coord_text_no_comma: "0x2C \<notin> set (coord_text v)"
proof -
  have "0x2C \<notin> set (dec n)" "0x2C \<notin> set (frac_digits (int (m mod 10000000)))" for n m
    using dec_is_digit frac_digits_ok(3) [of "m mod 10000000"] separators(2) by auto
  then show ?thesis
    by (simp add: coord_text_def coord_bytes_def)
qed

definition response_text :: "i32 \<Rightarrow> i32 \<Rightarrow> u32 \<Rightarrow> bytes" where
  "response_text lat lon age =
     [0x6C, 0x6F, 0x63, 0x3A, 0x6C, 0x61, 0x74, 0x3D] @ coord_text lat @ 0x2C # [0x6C, 0x6F, 0x6E, 0x3D] @
     coord_text lon @ 0x2C # [0x61, 0x67, 0x65, 0x3D] @ dec (unat age) @ [0x73]"

lemma age_length: "length (dec (unat age)) \<le> 10" for age :: u32
  using dec_length [of "unat age" 10] unsigned_less [of age, where 'a = nat] by simp

lemma response_text_length: "length (response_text lat lon age) \<le> 53"
  using coord_text_length [of lat] coord_text_length [of lon] age_length [of age] by (simp add: response_text_def)

lemma encode_response_spec:
  assumes "MAX_RESPONSE_LEN \<le> length out"
  shows "encode_telemetry_response lat lon age out =
    (put (response_text lat lon age) out, length (response_text lat lon age))"
proof -
  have out: "64 \<le> length out"
    using assms by (simp add: MAX_RESPONSE_LEN_def)
  have "unat (ucast age :: u64) = unat age"
    by (rule unat_u32_ucast)
  then show ?thesis
    using out coord_text_length [of lat] coord_text_length [of lon] age_length [of age]
    unfolding encode_telemetry_response_def wr_Nil Let_def push_u32_def
    by (simp add: push_coord_wr push_u64_wr response_text_def del: push_bytes.simps)
qed

lemma decode_response_spec:
  "decode_telemetry_response (response_text lat lon age) =
    (if lat = 0x80000000 \<or> lon = 0x80000000 then None
     else Some \<lparr>tr_lat_e7 = lat, tr_lon_e7 = lon, tr_age_secs = age\<rparr>)"
proof -
  have "parse_u32 (dec (unat age)) = Some age"
    using parse_u32_dec [of "unat age"] unsigned_less [of age, where 'a = nat] by simp
  then show ?thesis
    unfolding decode_telemetry_response_def response_text_def
    by (simp add: split_once_append [OF coord_text_no_comma] parse_coord_text del: append_Cons split: if_splits)
qed

text \<open>a location answer read back.  With a buffer of the documented size, the text answer fits, and decoding
  exactly the bytes written gives back latitude, longitude and age, for every 32-bit coordinate but the
  least one, which the parser refuses.\<close>

theorem telemetry_text_roundtrip:
  assumes "MAX_RESPONSE_LEN \<le> length out"
  shows "\<exists>out' n. encode_telemetry_response lat lon age out = (out', n) \<and> n \<le> MAX_RESPONSE_LEN \<and> length out' = length out
    \<and> decode_telemetry_response (take n out') =
        (if lat = 0x80000000 \<or> lon = 0x80000000 then None
         else Some \<lparr>tr_lat_e7 = lat, tr_lon_e7 = lon, tr_age_secs = age\<rparr>)"
proof -
  have "length (response_text lat lon age) \<le> length out"
    using response_text_length [of lat lon age] assms by (simp add: MAX_RESPONSE_LEN_def)
  then show ?thesis
    using encode_response_spec [OF assms, of lat lon age] response_text_length [of lat lon age]
    by (simp add: decode_response_spec MAX_RESPONSE_LEN_def)
qed

theorem telemetry_text_roundtrip_witness:
  "\<exists>out' n. encode_telemetry_response 481173000 (- 1512093000) 42 (zeros 64) = (out', n)
    \<and> decode_telemetry_response (take n out') = Some \<lparr>tr_lat_e7 = 481173000, tr_lon_e7 = - 1512093000, tr_age_secs = 42\<rparr>"
  using telemetry_text_roundtrip [of "zeros 64" 481173000 "- 1512093000" 42] by (auto simp: MAX_RESPONSE_LEN_def)

section \<open>Lemmas: big-endian values\<close>

lemma read_u16_be_pushed: "read_u16_be [ucast (drop_bit 8 w), ucast w] = Some w"
  by (simp add: read_u16_be_def get_at_def) (auto intro!: bit_word_eqI simp: bit_simps)

lemma read_u32_be_pushed:
  "read_u32_be [ucast (drop_bit 24 w), ucast (drop_bit 16 w), ucast (drop_bit 8 w), ucast w] = Some w"
  using from_to_le32 [of w] by (simp add: read_u32_be_def get_at_def from_le32_def ac_simps)

lemma i24_sign_bits:
  fixes x :: i32
  assumes "- 8388608 \<le> sint x" "sint x < 8388608" "23 \<le> n" "n < 32"
  shows "bit x n \<longleftrightarrow> bit x 23"
proof -
  have "signed_take_bit 23 (sint x) = sint x"
    using assms by (simp add: signed_take_bit_int_eq_self)
  then have "bit (sint x) n \<longleftrightarrow> bit (sint x) 23"
    using assms(3) by (metis bit_signed_take_bit_iff min.absorb1 possible_bit_int)
  then show ?thesis
    using assms(3,4) by (simp add: bit_sint_iff min_def)
qed

definition low24 :: "i32 \<Rightarrow> u32" where
  "low24 x = push_bit 16 (ucast (ucast (drop_bit 16 x) :: u8)) OR push_bit 8 (ucast (ucast (drop_bit 8 x) :: u8))
     OR ucast (ucast x :: u8)"

lemma bit_low24: "bit (low24 x) n \<longleftrightarrow> n < 24 \<and> bit x n"
proof -
  consider "n < 8" | "8 \<le> n" "n < 16" | "16 \<le> n" "n < 24" | "24 \<le> n"
    by linarith
  then show ?thesis
    unfolding low24_def by cases (auto simp: bit_simps)
qed

lemma low24_sign: "low24 x AND 0x00800000 \<noteq> 0 \<longleftrightarrow> bit x 23"
proof -
  have "low24 x AND 2 ^ 23 = 0 \<longleftrightarrow> \<not> bit (low24 x) 23"
    by (rule and_exp_eq_0_iff_not_bit)
  then show ?thesis
    by (simp add: bit_low24)
qed

lemma low24_extend: "bit (low24 x OR 0xFF000000) n \<longleftrightarrow> (n < 24 \<and> bit x n) \<or> (24 \<le> n \<and> n < 32)"
proof -
  have m: "(0xFF000000 :: u32) = push_bit 24 (mask 8)"
    by (simp add: mask_eq_exp_minus_1)
  show ?thesis
    unfolding m by (auto simp: bit_simps bit_low24)
qed

lemma read_i24_be_pushed:
  assumes "- 8388608 \<le> sint x" "sint x < 8388608"
  shows "read_i24_be [ucast (drop_bit 16 x), ucast (drop_bit 8 x), ucast x] = Some x"
proof -
  have "(if low24 x AND 0x00800000 \<noteq> 0 then low24 x OR 0xFF000000 else low24 x) = x"
  proof (rule bit_word_eqI)
    fix n :: nat
    assume "n < LENGTH(32)"
    then show "bit (if low24 x AND 0x00800000 \<noteq> 0 then low24 x OR 0xFF000000 else low24 x) n = bit x n"
      using i24_sign_bits [OF assms, of n] by (simp add: low24_sign bit_low24 low24_extend) linarith
  qed
  moreover have "read_i24_be [ucast (drop_bit 16 x), ucast (drop_bit 8 x), ucast x] =
      Some (if low24 x AND 0x00800000 \<noteq> 0 then low24 x OR 0xFF000000 else low24 x)"
    unfolding read_i24_be_def low24_def Let_def by (simp add: get_at_def split del: if_split)
  ultimately show ?thesis
    by simp
qed

lemma read_i24_be_total: "length b = 3 \<Longrightarrow> \<exists>v. read_i24_be b = Some v"
  by (cases b) (auto simp: read_i24_be_def get_at_def Let_def)

lemma read_u16_be_total: "length b = 2 \<Longrightarrow> \<exists>v. read_u16_be b = Some v"
  by (simp add: read_u16_be_def get_at_def)

lemma read_u32_be_total: "length b = 4 \<Longrightarrow> \<exists>v. read_u32_be b = Some v"
  by (simp add: read_u32_be_def get_at_def)

section \<open>Lemmas: scanning entries\<close>

text \<open>An entry is its channel, its type and its data; it is whole when the data has the length its type implies.\<close>

type_synonym lpp = "u8 \<times> u8 \<times> bytes"

definition entry_bytes :: "lpp \<Rightarrow> bytes" where
  "entry_bytes = (\<lambda>(channel, entry_type, data). channel # entry_type # data)"

definition whole :: "lpp \<Rightarrow> bool" where
  "whole = (\<lambda>(channel, entry_type, data). 2 + length data = lpp_entry_len entry_type)"

text \<open>An entry whose value the decoder keeps.\<close>

definition kept :: "lpp \<Rightarrow> bool" where
  "kept = (\<lambda>(channel, entry_type, data).
     entry_type \<in> {LPP_GPS, LPP_PERCENTAGE, LPP_DIGITAL_INPUT, LPP_GENERIC_SENSOR, LPP_LUMINOSITY, LPP_DIGITAL_OUTPUT}
     \<or> (entry_type \<in> {LPP_VOLTAGE, LPP_TEMPERATURE} \<and> channel = TELEM_CHANNEL_SELF))"

text \<open>What is left when the scan ends: less than two bytes, or less than the entry that starts there.\<close>

definition cut_off :: "bytes \<Rightarrow> bool" where
  "cut_off rest \<longleftrightarrow> length rest < 2 \<or> length rest < lpp_entry_len (rest ! 1)"

lemmas lpp_tables = lpp_entry_len_def lpp

lemma lpp_entry_local:
  assumes "2 + length data = lpp_entry_len entry_type"
  shows "\<exists>s'. lpp_entry s channel entry_type (channel # entry_type # data @ rest) = Some s'
    \<and> (\<forall>rest'. lpp_entry s channel entry_type (channel # entry_type # data @ rest') = Some s')
    \<and> (\<not> kept (channel, entry_type, data) \<longrightarrow> s' = s)"
proof -
  consider "entry_type = LPP_GPS" | "entry_type = LPP_GENERIC_SENSOR"
    | "entry_type = LPP_VOLTAGE \<or> entry_type = LPP_TEMPERATURE \<or> entry_type = LPP_LUMINOSITY"
    | "entry_type = LPP_PERCENTAGE \<or> entry_type = LPP_DIGITAL_INPUT \<or> entry_type = LPP_DIGITAL_OUTPUT"
    | "\<not> kept (channel, entry_type, data)" "entry_type \<noteq> LPP_VOLTAGE" "entry_type \<noteq> LPP_TEMPERATURE"
    by (auto simp: kept_def)
  then show ?thesis
  proof cases
    case 1
    then have "length data = 9"
      using assms by (simp add: lpp_tables)
    then obtain lat lon where "read_i24_be (take 3 data) = Some lat" "read_i24_be (take 3 (drop 3 data)) = Some lon"
      using read_i24_be_total [of "take 3 data"] read_i24_be_total [of "take 3 (drop 3 data)"] by auto
    then show ?thesis
      using 1 \<open>length data = 9\<close> by (simp add: lpp_entry_def lpp kept_def slice_def)
  next
    case 2
    then have "length data = 4"
      using assms by (simp add: lpp_tables)
    then obtain v where "read_u32_be data = Some v"
      using read_u32_be_total by blast
    then show ?thesis
      using 2 \<open>length data = 4\<close> by (simp add: lpp_entry_def lpp kept_def slice_def)
  next
    case 3
    then have len: "length data = 2"
      using assms by (elim disjE) (simp_all add: lpp_tables)
    then obtain v where "read_u16_be data = Some v"
      using read_u16_be_total by blast
    then show ?thesis
      using 3 len by (elim disjE) (simp_all add: lpp_entry_def lpp kept_def slice_def)
  next
    case 4
    then have len: "length data = 1"
      using assms by (elim disjE) (simp_all add: lpp_tables)
    then show ?thesis
      using 4 by (elim disjE) (simp_all add: lpp_entry_def lpp kept_def get_at_def nth_append)
  next
    case 5
    then show ?thesis
      by (simp add: lpp_entry_def lpp kept_def)
  qed
qed

lemma lpp_scan_entry:
  assumes "2 + length data = lpp_entry_len entry_type"
    and "lpp_entry s channel entry_type (channel # entry_type # data) = Some s'"
  shows "lpp_scan s (channel # entry_type # data @ rest) = lpp_scan s' rest"
proof -
  have "lpp_entry s channel entry_type (channel # entry_type # data @ rest) = Some s'"
    using lpp_entry_local [OF assms(1), of s channel rest] assms(2) by (metis append_Nil2 option.sel)
  moreover have "drop (lpp_entry_len entry_type) (channel # entry_type # data @ rest) = rest"
    using assms(1) [symmetric] by simp
  ultimately show ?thesis
    using assms(1) by (subst lpp_scan.simps) simp
qed

lemma lpp_scan_cut_off: "cut_off rest \<Longrightarrow> lpp_scan s rest = Some s"
  by (subst lpp_scan.simps) (auto simp: cut_off_def)

lemma lpp_scan_skips:
  "list_all whole es \<Longrightarrow> cut_off rest \<Longrightarrow> \<exists>s'. lpp_scan s (concat (map entry_bytes es) @ rest) = Some s'
    \<and> lpp_scan s (concat (map entry_bytes (filter kept es))) = Some s'"
proof (induction es arbitrary: s)
  case Nil
  then show ?case
    using lpp_scan_cut_off lpp_scan_cut_off [of "[]"] by (simp add: cut_off_def)
next
  case (Cons e es)
  obtain ch ty dat where e: "e = (ch, ty, dat)"
    by (cases e)
  have w: "2 + length dat = lpp_entry_len ty"
    using Cons.prems(1) e by (simp add: whole_def)
  obtain s1 where s1: "lpp_entry s ch ty (ch # ty # dat) = Some s1" "\<not> kept e \<longrightarrow> s1 = s"
    using lpp_entry_local [OF w, of s ch "[]"] e by auto
  then show ?case
    using Cons.IH [of s1] Cons.prems lpp_scan_entry [OF w s1(1)] e by (auto simp: entry_bytes_def)
qed

section \<open>Lemmas: the native answer\<close>

lemma scan_byte:
  "ty = LPP_PERCENTAGE \<or> ty = LPP_DIGITAL_INPUT \<or> ty = LPP_DIGITAL_OUTPUT \<or> ty = LPP_PRESENCE \<Longrightarrow>
   lpp_scan s (ch # ty # b # rest) = lpp_scan
     (if ty = LPP_PERCENTAGE then s\<lparr>ls_percent := Some b\<rparr>
      else if ty = LPP_DIGITAL_INPUT then s\<lparr>ls_charging := Some (b \<noteq> 0)\<rparr>
      else if ty = LPP_DIGITAL_OUTPUT then s\<lparr>ls_level := Some b\<rparr> else s) rest"
  using lpp_scan_entry [of "[b]" ty s ch _ rest] by (elim disjE) (simp_all add: lpp_tables lpp_entry_def get_at_def)

lemma scan_u32:
  "lpp_scan s (ch # LPP_GENERIC_SENSOR # ucast (drop_bit 24 v) # ucast (drop_bit 16 v) # ucast (drop_bit 8 v) # ucast v # rest) =
   lpp_scan (s\<lparr>ls_raw_mv := Some v\<rparr>) rest"
  using lpp_scan_entry [of "[ucast (drop_bit 24 v), ucast (drop_bit 16 v), ucast (drop_bit 8 v), ucast v]" LPP_GENERIC_SENSOR s ch _ rest]
    read_u32_be_pushed [of v] by (simp add: lpp_tables lpp_entry_def slice_def)

lemma scan_u16:
  "lpp_scan s (ch # LPP_LUMINOSITY # ucast (drop_bit 8 v) # ucast v # rest) = lpp_scan (s\<lparr>ls_held_raw_mv := Some (ucast (v :: u16))\<rparr>) rest"
  using lpp_scan_entry [of "[ucast (drop_bit 8 v), ucast v]" LPP_LUMINOSITY s ch _ rest]
    read_u16_be_pushed [of v] by (simp add: lpp_tables lpp_entry_def slice_def)

definition i24_bytes :: "i32 \<Rightarrow> bytes" where
  "i24_bytes v = [ucast (drop_bit 16 v), ucast (drop_bit 8 v), ucast v]"

lemma scan_gps:
  assumes "- 8388608 \<le> sint lat" "sint lat < 8388608" "- 8388608 \<le> sint lon" "sint lon < 8388608"
    and "length alt = 3"
  shows "lpp_scan s (ch # LPP_GPS # i24_bytes lat @ i24_bytes lon @ alt @ rest) = lpp_scan (s\<lparr>ls_gps_e4 := Some (lat, lon)\<rparr>) rest"
  using lpp_scan_entry [of "i24_bytes lat @ i24_bytes lon @ alt" LPP_GPS s ch _ rest] assms(5)
    read_i24_be_pushed [OF assms(1,2)] read_i24_be_pushed [OF assms(3,4)]
  by (simp add: lpp_tables lpp_entry_def slice_def i24_bytes_def)

definition e4 :: "i32 \<Rightarrow> i32" where
  "e4 v = word_of_int (sint v sdiv 1000)"

lemma e4_range: "- 8388608 \<le> sint (e4 v)" "sint (e4 v) < 8388608"
proof -
  have b: "- 2147483648 \<le> sint v" "sint v \<le> 2147483647"
    using sint_greater_eq [of v] sint_less [of v] by simp_all
  have "sint v sdiv 1000 = (if sint v < 0 then - (- sint v div 1000) else sint v div 1000)"
    by (simp add: signed_divide_int_def sgn_if)
  then have d: "- 2147484 \<le> sint v sdiv 1000" "sint v sdiv 1000 \<le> 2147484"
    using b by (auto split: if_splits)
  then have "sint (e4 v) = sint v sdiv 1000"
    unfolding e4_def by (simp add: signed_of_int signed_take_bit_int_eq_self)
  then show "- 8388608 \<le> sint (e4 v)" "sint (e4 v) < 8388608"
    using d by simp_all
qed

definition gps_part :: "(i32 \<times> i32) option \<Rightarrow> bytes" where
  "gps_part gps = (case gps of
     Some (lat, lon) \<Rightarrow> TELEM_CHANNEL_SELF # LPP_GPS # i24_bytes (e4 lat) @ i24_bytes (e4 lon) @ [0, 0, 0]
   | None \<Rightarrow> [TELEM_CHANNEL_SELF, LPP_PRESENCE, 0])"

definition battery_part :: "(u8 \<times> bool) option \<Rightarrow> bytes" where
  "battery_part battery = (case battery of
     Some (percent, charging) \<Rightarrow> [TELEM_CHANNEL_SELF, LPP_PERCENTAGE, min percent 100,
       TELEM_CHANNEL_SELF, LPP_DIGITAL_INPUT, if charging then 1 else 0]
   | None \<Rightarrow> [])"

definition raw_part :: "u32 option \<Rightarrow> bytes" where
  "raw_part raw = (case raw of
     Some v \<Rightarrow> [TELEM_CHANNEL_SELF, LPP_GENERIC_SENSOR, ucast (drop_bit 24 v), ucast (drop_bit 16 v), ucast (drop_bit 8 v), ucast v]
   | None \<Rightarrow> [])"

definition held_part :: "u32 option \<Rightarrow> bytes" where
  "held_part held = (case held of
     Some v \<Rightarrow> let h = ucast (min v 65535) :: u16 in [TELEM_CHANNEL_SELF, LPP_LUMINOSITY, ucast (drop_bit 8 h), ucast h]
   | None \<Rightarrow> [])"

definition level_part :: "u8 option \<Rightarrow> bytes" where
  "level_part level = (case level of Some l \<Rightarrow> [TELEM_CHANNEL_SELF, LPP_DIGITAL_OUTPUT, l] | None \<Rightarrow> [])"

lemma part_lengths:
  "length (gps_part gps) \<le> 11" "length (battery_part battery) \<le> 6" "length (raw_part raw) \<le> 6"
  "length (held_part held) \<le> 4" "length (level_part level) \<le> 3"
  by (auto simp: gps_part_def battery_part_def raw_part_def held_part_def level_part_def i24_bytes_def Let_def split: option.splits)

definition lpp_plain ::
    "u32 \<Rightarrow> (i32 \<times> i32) option \<Rightarrow> (u8 \<times> bool) option \<Rightarrow> u32 option \<Rightarrow> u32 option \<Rightarrow> u8 option \<Rightarrow> bytes" where
  "lpp_plain tag gps battery raw held level =
     to_le32 tag @ gps_part gps @ battery_part battery @ raw_part raw @ held_part held @ level_part level"

lemma lpp_plain_length: "length (lpp_plain tag gps battery raw held level) \<le> 34"
  using part_lengths(1) [of gps] part_lengths(2) [of battery] part_lengths(3) [of raw] part_lengths(4) [of held]
    part_lengths(5) [of level] by (simp add: lpp_plain_def)

lemma encode_lpp_spec:
  assumes "MAX_TELEMETRY_RESPONSE_LEN \<le> length out"
  shows "encode_telemetry_response_lpp tag gps battery raw held level out =
    (put (lpp_plain tag gps battery raw held level) out, length (lpp_plain tag gps battery raw held level))"
proof -
  have "40 \<le> length out"
    using assms by (simp add: MAX_TELEMETRY_RESPONSE_LEN_def)
  moreover from this have "out \<noteq> []"
    by auto
  ultimately show ?thesis
    unfolding encode_telemetry_response_lpp_def wr_Nil Let_def
    by (cases gps; cases battery; cases raw; cases held; cases level)
      (simp_all add: lpp_plain_def gps_part_def battery_part_def raw_part_def held_part_def level_part_def i24_bytes_def e4_def
        push_i24_be_def push_u32_be_def push_u16_be_def to_le32_def Let_def split: prod.splits del: One_nat_def)
qed

lemma scan_gps_part:
  "lpp_scan s (gps_part gps @ rest) =
   lpp_scan (case gps of Some (lat, lon) \<Rightarrow> s\<lparr>ls_gps_e4 := Some (e4 lat, e4 lon)\<rparr> | None \<Rightarrow> s) rest"
  using scan_gps [OF e4_range e4_range, of "[0, 0, 0]"] scan_byte [of LPP_PRESENCE]
  by (cases gps) (auto simp: gps_part_def lpp split: prod.splits)

lemma scan_battery_part:
  "lpp_scan s (battery_part battery @ rest) =
   lpp_scan (case battery of Some (p, c) \<Rightarrow> s\<lparr>ls_percent := Some (min p 100), ls_charging := Some c\<rparr> | None \<Rightarrow> s) rest"
  using scan_byte [of LPP_PERCENTAGE] scan_byte [of LPP_DIGITAL_INPUT]
  by (cases battery) (auto simp: battery_part_def lpp split: prod.splits)

lemma scan_raw_part:
  "lpp_scan s (raw_part raw @ rest) = lpp_scan (case raw of Some v \<Rightarrow> s\<lparr>ls_raw_mv := Some v\<rparr> | None \<Rightarrow> s) rest"
  by (cases raw) (simp_all add: raw_part_def scan_u32)

lemma ucast_min_65535: "ucast (ucast (min v 65535) :: u16) = min v 65535" for v :: u32
proof -
  have "unat (min v 65535) < 2 ^ 16"
    by (simp add: min_def word_le_nat_alt)
  then show ?thesis
    by (simp add: word_unat_eq_iff unsigned_ucast_eq unsigned_take_bit_eq take_bit_nat_eq_self_iff)
qed

lemma scan_held_part:
  "lpp_scan s (held_part held @ rest) =
   lpp_scan (case held of Some v \<Rightarrow> s\<lparr>ls_held_raw_mv := Some (min v 65535)\<rparr> | None \<Rightarrow> s) rest"
  by (cases held) (simp_all add: held_part_def Let_def scan_u16 ucast_min_65535)

lemma scan_level_part:
  "lpp_scan s (level_part level @ rest) = lpp_scan (case level of Some l \<Rightarrow> s\<lparr>ls_level := Some l\<rparr> | None \<Rightarrow> s) rest"
  using scan_byte [of LPP_DIGITAL_OUTPUT] by (cases level) (auto simp: level_part_def lpp)

lemma scan_zeros:
  "lpp_scan s (zeros k) = Some (if 3 \<le> k then s\<lparr>ls_charging := Some False\<rparr> else s)"
proof (induction k arbitrary: s rule: less_induct)
  case (less k)
  show ?case
  proof (cases "3 \<le> k")
    case True
    define j where "j = k - 3"
    have j: "k = Suc (Suc (Suc j))" "j < k"
      using True by (simp_all add: j_def)
    have z: "zeros k = 0 # 0 # 0 # zeros j"
      by (simp add: j(1))
    have "lpp_scan s (0 # 0 # 0 # zeros j) = lpp_scan (s\<lparr>ls_charging := Some False\<rparr>) (zeros j)"
      by (subst scan_byte) (simp_all add: lpp)
    also have "\<dots> = Some (s\<lparr>ls_charging := Some False\<rparr>)"
      by (simp add: less [OF j(2)])
    finally show ?thesis
      using True by (simp add: z)
  next
    case False
    then have "cut_off (zeros k)"
      using lpp_entry_len_ge [of "zeros k ! 1"] by (auto simp: cut_off_def)
    then show ?thesis
      using False by (simp add: lpp_scan_cut_off)
  qed
qed

definition lpp_start :: LppScan where
  "lpp_start = \<lparr>ls_gps_e4 = None, ls_percent = None, ls_charging = None, ls_raw_mv = None, ls_held_raw_mv = None,
     ls_level = None, ls_voltage_mv = None, ls_temperature_c_x10 = None\<rparr>"

definition response_of :: "u32 \<Rightarrow> LppScan \<Rightarrow> TelemetryResponseLpp" where
  "response_of tag s = \<lparr>tl_tag = tag, tl_gps_e4 = ls_gps_e4 s,
     tl_battery = (case (ls_percent s, ls_charging s) of (Some p, Some c) \<Rightarrow> Some (p, c) | _ \<Rightarrow> None),
     tl_battery_raw_mv = ls_raw_mv s, tl_battery_held_raw_mv = ls_held_raw_mv s, tl_battery_level = ls_level s,
     tl_battery_voltage_mv = ls_voltage_mv s, tl_temperature_c_x10 = ls_temperature_c_x10 s\<rparr>"

lemma decode_of_scan:
  assumes "lpp_scan lpp_start b = Some s"
  shows "decode_telemetry_response_lpp (to_le32 tag @ b) = Some (Some (response_of tag s))"
proof -
  have "slice_from (to_le32 tag @ b) 4 = Some b"
    by (simp add: slice_from_def)
  moreover have "from_le32 ((to_le32 tag @ b) ! 0) ((to_le32 tag @ b) ! 1) ((to_le32 tag @ b) ! 2) ((to_le32 tag @ b) ! 3) = tag"
    by (simp add: to_le32_def from_to_le32)
  ultimately show ?thesis
    using assms unfolding decode_telemetry_response_lpp_def response_of_def lpp_start_def Let_def by simp
qed

text \<open>C40: a native telemetry answer read back.  With a buffer of the documented size the answer fits and is never
  only the tag; decoding the bytes written gives the tag, the coordinates cut to four decimals, the
  percentage capped at 100, the raw and held millivolts (the latter capped at 65535) and the level, each
  exactly when it was given.  When three or more zero bytes follow, as the 16-byte cipher blocks append,
  the decoder takes them for an entry, and a charging battery reads back as not charging.\<close>

theorem lpp_response_roundtrip:
  assumes "MAX_TELEMETRY_RESPONSE_LEN \<le> length out"
  shows "\<exists>out' n. encode_telemetry_response_lpp tag gps battery raw held level out = (out', n)
    \<and> 4 < n \<and> n \<le> MAX_TELEMETRY_RESPONSE_LEN
    \<and> decode_telemetry_response_lpp (take n out' @ zeros k) = Some (Some
        \<lparr>tl_tag = tag, tl_gps_e4 = map_option (\<lambda>(lat, lon). (e4 lat, e4 lon)) gps,
         tl_battery = map_option (\<lambda>(p, c). (min p 100, c \<and> k < 3)) battery,
         tl_battery_raw_mv = raw, tl_battery_held_raw_mv = map_option (\<lambda>v. min v 65535) held, tl_battery_level = level,
         tl_battery_voltage_mv = None, tl_temperature_c_x10 = None\<rparr>)"
proof -
  let ?p = "lpp_plain tag gps battery raw held level"
  have "length ?p \<le> length out" "length ?p \<le> 40"
    using assms lpp_plain_length [of tag gps battery raw held level] by (simp_all add: MAX_TELEMETRY_RESPONSE_LEN_def)
  moreover have "4 < length ?p"
    by (auto simp: lpp_plain_def gps_part_def split: option.splits)
  moreover have "decode_telemetry_response_lpp (?p @ zeros k) = Some (Some
        \<lparr>tl_tag = tag, tl_gps_e4 = map_option (\<lambda>(lat, lon). (e4 lat, e4 lon)) gps,
         tl_battery = map_option (\<lambda>(p, c). (min p 100, c \<and> k < 3)) battery,
         tl_battery_raw_mv = raw, tl_battery_held_raw_mv = map_option (\<lambda>v. min v 65535) held, tl_battery_level = level,
         tl_battery_voltage_mv = None, tl_temperature_c_x10 = None\<rparr>)"
    unfolding lpp_plain_def append.assoc
    by (subst decode_of_scan, simp only: scan_gps_part scan_battery_part scan_raw_part scan_held_part scan_level_part scan_zeros,
        auto simp: response_of_def lpp_start_def split: option.splits)
  ultimately show ?thesis
    using encode_lpp_spec [OF assms] by (simp add: MAX_TELEMETRY_RESPONSE_LEN_def)
qed

text \<open>foreign entries do not disturb an answer.  Whatever whole entries a body has, and whatever is cut off at
  its end, decoding never fails and gives exactly what the entries the decoder knows give on their own:
  entries of other types, and voltages or temperatures of other channels, leave no trace.\<close>

theorem lpp_foreign_entries_skipped:
  assumes "list_all whole es" "cut_off rest"
  shows "\<exists>r. decode_telemetry_response_lpp (to_le32 tag @ concat (map entry_bytes es) @ rest) = Some (Some r)
    \<and> decode_telemetry_response_lpp (to_le32 tag @ concat (map entry_bytes (filter kept es))) = Some (Some r)
    \<and> tl_tag r = tag"
proof -
  obtain s where "lpp_scan lpp_start (concat (map entry_bytes es) @ rest) = Some s"
    "lpp_scan lpp_start (concat (map entry_bytes (filter kept es))) = Some s"
    using lpp_scan_skips [OF assms] by blast
  then show ?thesis
    by (simp add: decode_of_scan response_of_def)
qed

theorem lpp_foreign_entries_skipped_witness:
  "\<exists>r. decode_telemetry_response_lpp (to_le32 7 @ concat (map entry_bytes
      [(1, 116, [1, 154]), (2, 103, [0, 200]), (1, 142, [1]), (1, 120, [55])]) @ [1, 136, 0]) = Some (Some r) \<and> tl_tag r = 7"
proof -
  have "list_all whole [(1, 116, [1, 154]), (2, 103, [0, 200]), (1, 142, [1]), (1, 120, [55])]" "cut_off [1, 136, 0]"
    by (simp_all add: whole_def cut_off_def lpp_tables)
  from lpp_foreign_entries_skipped [OF this, of 7] show ?thesis
    by blast
qed

theorem lpp_response_roundtrip_witness:
  "\<exists>out' n r. encode_telemetry_response_lpp 7 (Some (481173000, - 1512093000)) (Some (80, True)) (Some 4038) None (Some 3) (zeros 40)
      = (out', n) \<and> decode_telemetry_response_lpp (take n out' @ zeros 4) = Some (Some r) \<and> tl_battery r = Some (80, False)"
  using lpp_response_roundtrip [of "zeros 40" 7 "Some (481173000, - 1512093000)" "Some (80, True)" "Some 4038" None "Some 3" 4]
  by (auto simp: MAX_TELEMETRY_RESPONSE_LEN_def min_def word_le_nat_alt)

end
