(* ===== verification/Battery.thy ===== *)
theory Battery
  imports Prelude
begin

text \<open>
  \<open>firmware-core/src/battery.rs\<close> and \<open>firmware-core/src/ui/battery_indicator.rs\<close>: the charge percentage of
  a resting voltage, the three level buckets with their hysteresis, the external-power step, the window
  that keeps the peak of the samples, and the rules for persisting the settled voltage.  Reading the
  converter and the store is left out.
\<close>

section \<open>Thresholds\<close>

named_theorems battery_mv \<open>the voltage thresholds\<close>

definition BATTERY_EMPTY_MV :: u32 where
  [battery_mv]: "BATTERY_EMPTY_MV = 3300"

definition RESTING_FULL_MV :: u32 where
  [battery_mv]: "RESTING_FULL_MV = 4150"

definition RESTING_SOC_CURVE :: "(u32 \<times> u8) list" where
  "RESTING_SOC_CURVE = [(BATTERY_EMPTY_MV, 0), (3500, 5), (3600, 10), (3700, 20), (3750, 30), (3800, 42), (3850, 55),
     (3900, 67), (3950, 77), (4000, 85), (4050, 91), (4100, 96), (RESTING_FULL_MV, 100)]"

definition EXTERNAL_POWER_MV_THRESHOLD :: u32 where
  [battery_mv]: "EXTERNAL_POWER_MV_THRESHOLD = 4300"

definition PEAK_WINDOW_MS :: u64 where
  "PEAK_WINDOW_MS = 30000"

definition LEVEL_LOW_PARTIAL_MV :: u32 where
  [battery_mv]: "LEVEL_LOW_PARTIAL_MV = 3700"

definition LEVEL_PARTIAL_FULL_MV :: u32 where
  [battery_mv]: "LEVEL_PARTIAL_FULL_MV = 4000"

definition LEVEL_HYSTERESIS_MV :: u32 where
  [battery_mv]: "LEVEL_HYSTERESIS_MV = 30"

definition PERSIST_MIN_DELTA_MV :: u32 where
  "PERSIST_MIN_DELTA_MV = 50"

definition PERSIST_MIN_INTERVAL_MS :: u64 where
  "PERSIST_MIN_INTERVAL_MS = 5 * 60000"

section \<open>Levels\<close>

datatype BatteryLevel = BL_Unknown | BL_Charging | BL_Low | BL_Partial | BL_Full

record BatteryStatus =
  bs_percent :: u8
  bs_charging :: bool
  bs_raw_mv :: u32
  bs_held_raw_mv :: u32
  bs_boot_mv :: u32
  bs_confirmed :: bool
  bs_level :: BatteryLevel

definition BatteryStatus_unknown :: BatteryStatus where
  "BatteryStatus_unknown = \<lparr>bs_percent = 0, bs_charging = False, bs_raw_mv = 0, bs_held_raw_mv = 0, bs_boot_mv = 0,
     bs_confirmed = False, bs_level = BL_Unknown\<rparr>"

primrec level_to_indicator_level :: "BatteryLevel \<Rightarrow> nat" where
  "level_to_indicator_level BL_Unknown = 0"
| "level_to_indicator_level BL_Charging = 1"
| "level_to_indicator_level BL_Low = 2"
| "level_to_indicator_level BL_Partial = 3"
| "level_to_indicator_level BL_Full = 4"

definition LEVEL_BOUNDARIES_MV :: "u32 list" where
  "LEVEL_BOUNDARIES_MV = [LEVEL_LOW_PARTIAL_MV, LEVEL_PARTIAL_FULL_MV]"

definition plain_bucket_index_mv :: "u32 \<Rightarrow> u8" where
  "plain_bucket_index_mv settled_mv = of_nat (length (filter (\<lambda>b. settled_mv \<ge> b) LEVEL_BOUNDARIES_MV))"

text \<open>\<open>saturating_sub\<close> of \<open>u32\<close>.\<close>

definition saturating_sub32 :: "u32 \<Rightarrow> u32 \<Rightarrow> u32" where
  "saturating_sub32 a b = (if a \<le> b then 0 else a - b)"

text \<open>The two \<open>while\<close> loops, the first upwards with what is left of the boundaries, the second downwards.\<close>

function climb :: "nat \<Rightarrow> u32 \<Rightarrow> nat" where
  "climb idx settled_mv =
     (if idx < length LEVEL_BOUNDARIES_MV
        \<and> settled_mv \<ge> saturating_add32 (LEVEL_BOUNDARIES_MV ! idx) LEVEL_HYSTERESIS_MV
      then climb (idx + 1) settled_mv else idx)"
  by auto
termination
  by (relation "measure (\<lambda>(idx, _). length LEVEL_BOUNDARIES_MV - idx)") auto

declare climb.simps [simp del]

function descend :: "nat \<Rightarrow> u32 \<Rightarrow> nat" where
  "descend idx settled_mv =
     (if idx > 0 \<and> settled_mv < saturating_sub32 (LEVEL_BOUNDARIES_MV ! (idx - 1)) LEVEL_HYSTERESIS_MV
      then descend (idx - 1) settled_mv else idx)"
  by auto
termination
  by (relation "measure fst") auto

declare descend.simps [simp del]

definition hysteresis_bucket_index_mv :: "u8 \<Rightarrow> u32 \<Rightarrow> u8" where
  "hysteresis_bucket_index_mv prev_idx settled_mv = of_nat (descend (climb (unat prev_idx) settled_mv) settled_mv)"

definition battery_level_bucket :: "BatteryLevel \<Rightarrow> u32 \<Rightarrow> bool \<Rightarrow> BatteryLevel" where
  "battery_level_bucket prev settled_mv charging =
     (if charging then BL_Charging
      else
        let prev_bucket_index = (case prev of BL_Low \<Rightarrow> Some 0 | BL_Partial \<Rightarrow> Some 1 | BL_Full \<Rightarrow> Some 2
              | BL_Unknown \<Rightarrow> None | BL_Charging \<Rightarrow> None);
            index = (case prev_bucket_index of
                None \<Rightarrow> plain_bucket_index_mv settled_mv
              | Some prev_idx \<Rightarrow> hysteresis_bucket_index_mv prev_idx settled_mv)
        in if index = 0 then BL_Low else if index = 1 then BL_Partial else BL_Full)"

definition displayed_battery_level :: "BatteryLevel \<Rightarrow> bool \<Rightarrow> BatteryLevel" where
  "displayed_battery_level level window_settled = (if window_settled then level else BL_Unknown)"

definition battery_level_to_wire :: "BatteryLevel \<Rightarrow> u8 \<times> bool" where
  "battery_level_to_wire level = (of_nat (level_to_indicator_level level), level \<noteq> BL_Unknown)"

definition clamp_raw_mv_for_wire :: "u32 \<Rightarrow> u16" where
  "clamp_raw_mv_for_wire raw_mv = ucast (min raw_mv 65535)"

section \<open>The percentage\<close>

text \<open>The loop over \<open>windows(2)\<close> of the curve, in \<open>u64\<close>.\<close>

fun curve_scan :: "(u32 \<times> u8) list \<Rightarrow> u32 \<Rightarrow> u8" where
  "curve_scan ((lo_mv, lo_pct) # (hi_mv, hi_pct) # rest) mv =
     (if mv \<le> hi_mv then
        let span_mv = ucast (hi_mv - lo_mv) :: u64;
            span_pct = ucast (hi_pct - lo_pct) :: u64;
            offset = ucast (mv - lo_mv) :: u64
        in ucast (ucast lo_pct + (offset * span_pct) div span_mv)
      else curve_scan ((hi_mv, hi_pct) # rest) mv)"
| "curve_scan _ mv = 100"

definition percent_from_millivolts :: "u32 \<Rightarrow> u8" where
  "percent_from_millivolts mv =
     (if mv \<le> BATTERY_EMPTY_MV then 0
      else if mv \<ge> RESTING_FULL_MV then 100
      else curve_scan RESTING_SOC_CURVE mv)"

section \<open>Polling\<close>

definition battery_poll_step :: "u32 \<Rightarrow> u32 \<Rightarrow> u32 \<times> bool" where
  "battery_poll_step settled_mv live_mv =
     (if live_mv > EXTERNAL_POWER_MV_THRESHOLD then (settled_mv, True) else (live_mv, False))"

record PeakWindowSampler =
  pk_window_start_ms :: u64
  pk_peak_mv :: u32

definition PeakWindowSampler_new :: "u64 \<Rightarrow> u32 \<Rightarrow> PeakWindowSampler" where
  "PeakWindowSampler_new now_ms first_sample_mv = \<lparr>pk_window_start_ms = now_ms, pk_peak_mv = first_sample_mv\<rparr>"

definition pk_sample :: "PeakWindowSampler \<Rightarrow> u64 \<Rightarrow> u32 \<Rightarrow> PeakWindowSampler \<times> u32 option" where
  "pk_sample s now_ms mv =
     (let s = s\<lparr>pk_peak_mv := max (pk_peak_mv s) mv\<rparr> in
      if saturating_sub now_ms (pk_window_start_ms s) \<ge> PEAK_WINDOW_MS
      then (\<lparr>pk_window_start_ms = now_ms, pk_peak_mv = mv\<rparr>, Some (pk_peak_mv s))
      else (s, None))"

definition advance_settled_confirmed :: "bool \<Rightarrow> bool \<Rightarrow> bool" where
  "advance_settled_confirmed confirmed charging \<longleftrightarrow> confirmed \<or> \<not> charging"

definition seed_boot_state :: "u32 option \<Rightarrow> u32 \<Rightarrow> u32 \<times> bool \<times> bool" where
  "seed_boot_state persisted initial_mv =
     (let prior = (case persisted of None \<Rightarrow> initial_mv | Some p \<Rightarrow> p);
          (settled_mv, charging) = battery_poll_step prior initial_mv;
          confirmed = (persisted \<noteq> None \<or> \<not> charging)
      in (settled_mv, charging, confirmed))"

definition abs_diff :: "u32 \<Rightarrow> u32 \<Rightarrow> u32" where
  "abs_diff a b = (if a < b then b - a else a - b)"

definition should_persist_settled_mv :: "u32 option \<Rightarrow> u32 \<Rightarrow> u64 \<Rightarrow> bool \<Rightarrow> bool" where
  "should_persist_settled_mv last_persisted_mv settled_mv ms_since_last_persist confirmed =
     (if \<not> confirmed then False
      else case last_persisted_mv of
        None \<Rightarrow> True
      | Some persisted \<Rightarrow>
          abs_diff settled_mv persisted \<ge> PERSIST_MIN_DELTA_MV \<and> ms_since_last_persist \<ge> PERSIST_MIN_INTERVAL_MS)"

definition battery_window_close_step ::
    "u32 \<Rightarrow> BatteryLevel \<Rightarrow> bool \<Rightarrow> u32 \<Rightarrow> u32 \<times> bool \<times> bool \<times> BatteryLevel" where
  "battery_window_close_step settled_mv level confirmed window_peak_mv =
     (let (new_settled_mv, charging) = battery_poll_step settled_mv window_peak_mv;
          new_confirmed = advance_settled_confirmed confirmed charging;
          new_level = battery_level_bucket level new_settled_mv charging
      in (new_settled_mv, charging, new_confirmed, new_level))"

section \<open>Lemmas: the curve\<close>

text \<open>Linear interpolation on naturals.\<close>

definition interp :: "nat \<Rightarrow> nat \<Rightarrow> nat \<Rightarrow> nat \<Rightarrow> nat \<Rightarrow> nat" where
  "interp lo_mv lo_pct hi_mv hi_pct mv = lo_pct + (mv - lo_mv) * (hi_pct - lo_pct) div (hi_mv - lo_mv)"

lemma interp_bounds:
  assumes "lo_mv < hi_mv" "lo_pct \<le> hi_pct" "lo_mv \<le> mv" "mv \<le> hi_mv"
  shows "lo_pct \<le> interp lo_mv lo_pct hi_mv hi_pct mv" "interp lo_mv lo_pct hi_mv hi_pct mv \<le> hi_pct"
proof -
  have "(mv - lo_mv) * (hi_pct - lo_pct) \<le> (hi_mv - lo_mv) * (hi_pct - lo_pct)"
    using assms by (intro mult_right_mono diff_le_mono) simp_all
  then have "(mv - lo_mv) * (hi_pct - lo_pct) div (hi_mv - lo_mv) \<le> hi_pct - lo_pct"
    using assms(1) by (metis div_le_mono nonzero_mult_div_cancel_left not_gr_zero zero_less_diff)
  then show "interp lo_mv lo_pct hi_mv hi_pct mv \<le> hi_pct" "lo_pct \<le> interp lo_mv lo_pct hi_mv hi_pct mv"
    using assms(2) by (simp_all add: interp_def)
qed

lemma interp_mono: "mv \<le> mv' \<Longrightarrow> interp lo_mv lo_pct hi_mv hi_pct mv \<le> interp lo_mv lo_pct hi_mv hi_pct mv'"
  by (simp add: interp_def div_le_mono mult_le_mono1 diff_le_mono)

text \<open>The curve on naturals.\<close>

fun curve :: "(nat \<times> nat) list \<Rightarrow> nat \<Rightarrow> nat" where
  "curve ((lo_mv, lo_pct) # (hi_mv, hi_pct) # rest) mv =
     (if mv \<le> hi_mv then interp lo_mv lo_pct hi_mv hi_pct mv else curve ((hi_mv, hi_pct) # rest) mv)"
| "curve _ mv = 100"

definition rising :: "(nat \<times> nat) list \<Rightarrow> bool" where
  "rising ps \<longleftrightarrow> sorted_wrt (\<lambda>(m, p) (m', p'). m < m' \<and> p \<le> p' \<and> p' \<le> 100) ps"

lemma curve_ge: "rising ((m, p) # ps) \<Longrightarrow> p \<le> 100 \<Longrightarrow> m \<le> mv \<Longrightarrow> p \<le> curve ((m, p) # ps) mv"
proof (induction ps arbitrary: m p)
  case (Cons q ps)
  obtain m' p' where q: "q = (m', p')"
    by (cases q)
  have "rising ((m', p') # ps)" "m < m'" "p \<le> p'" "p' \<le> 100"
    using Cons.prems(1) q by (auto simp: rising_def)
  then show ?case
    using Cons.IH [of m' p'] Cons.prems q interp_bounds(1) [of m m' p p' mv] by fastforce
qed simp

lemma curve_le: "rising ((m, p) # ps) \<Longrightarrow> m \<le> mv \<Longrightarrow> curve ((m, p) # ps) mv \<le> 100"
proof (induction ps arbitrary: m p)
  case (Cons q ps)
  obtain m' p' where q: "q = (m', p')"
    by (cases q)
  have "rising ((m', p') # ps)" "m < m'" "p \<le> p'" "p' \<le> 100"
    using Cons.prems(1) q by (auto simp: rising_def)
  then show ?case
    using Cons.IH [of m' p'] Cons.prems q interp_bounds(2) [of m m' p p' mv] by fastforce
qed simp

lemma curve_mono:
  "rising ((m, p) # ps) \<Longrightarrow> p \<le> 100 \<Longrightarrow> m \<le> mv \<Longrightarrow> mv \<le> mv' \<Longrightarrow> curve ((m, p) # ps) mv \<le> curve ((m, p) # ps) mv'"
proof (induction ps arbitrary: m p)
  case (Cons q ps)
  obtain m' p' where q: "q = (m', p')"
    by (cases q)
  have q': "rising ((m', p') # ps)" "m < m'" "p \<le> p'" "p' \<le> 100"
    using Cons.prems(1) q by (auto simp: rising_def)
  show ?case
  proof (cases "mv' \<le> m'")
    case True
    then show ?thesis
      using Cons.prems q interp_mono [of mv mv'] by simp
  next
    case False
    then have "p' \<le> curve ((m', p') # ps) mv'"
      using curve_ge [OF q'(1,4), of mv'] by simp
    then show ?thesis
      using False Cons.prems Cons.IH [OF q'(1,4)] q' q interp_bounds(2) [of m m' p p' mv] by fastforce
  qed
qed simp

definition rising_points :: "(u32 \<times> u8) list \<Rightarrow> bool" where
  "rising_points ps \<longleftrightarrow> rising (map (\<lambda>(m, p). (unat m, unat p)) ps)"

lemma curve_scan_nat:
  "rising_points ((m, p) # ps) \<Longrightarrow> p \<le> 100 \<Longrightarrow> m \<le> mv \<Longrightarrow>
   unat (curve_scan ((m, p) # ps) mv) = curve (map (\<lambda>(m, p). (unat m, unat p)) ((m, p) # ps)) (unat mv)"
proof (induction ps arbitrary: m p)
  case (Cons q ps)
  obtain m' p' where q: "q = (m', p')"
    by (cases q)
  have q': "rising_points ((m', p') # ps)" "unat m < unat m'" "unat p \<le> unat p'" "unat p' \<le> 100"
    using Cons.prems(1) q by (auto simp: rising_points_def rising_def)
  show ?case
  proof (cases "mv \<le> m'")
    case True
    let ?s = "ucast (m' - m) :: u64" and ?t = "ucast (p' - p) :: u64" and ?o = "ucast (mv - m) :: u64"
    have nats: "unat ?s = unat m' - unat m" "unat ?t = unat p' - unat p" "unat ?o = unat mv - unat m"
      using q' Cons.prems(3) by (simp_all add: unat_u32_ucast unat_u8_ucast unat_sub word_le_nat_alt)
    have lt: "unat mv - unat m < 2 ^ 32" "unat p' - unat p \<le> 100"
      using unsigned_less [of mv, where 'a = nat] q' by auto
    have "(unat mv - unat m) * (unat p' - unat p) \<le> (unat mv - unat m) * 100"
      by (rule mult_le_mono2 [OF lt(2)])
    moreover have "(unat mv - unat m) * 100 < 2 ^ 64"
      using lt(1) by simp
    ultimately have "(unat mv - unat m) * (unat p' - unat p) < 2 ^ 64"
      by (rule le_less_trans)
    then have "unat (?o * ?t) = (unat mv - unat m) * (unat p' - unat p)"
      by (simp add: unat_word_ariths nats)
    moreover have i: "interp (unat m) (unat p) (unat m') (unat p') (unat mv) \<le> 100"
      using interp_bounds(2) [OF q'(2,3), of "unat mv"] True Cons.prems(3) q'(4) by (simp add: word_le_nat_alt)
    ultimately have "unat (ucast p + ?o * ?t div ?s :: u64) = interp (unat m) (unat p) (unat m') (unat p') (unat mv)"
      by (simp add: unat_word_ariths unat_div nats interp_def unat_u8_ucast)
    then have "unat (ucast (ucast p + ?o * ?t div ?s :: u64) :: u8) = interp (unat m) (unat p) (unat m') (unat p') (unat mv)"
      using i by (simp add: unsigned_ucast_eq unsigned_take_bit_eq take_bit_nat_eq_self_iff)
    then show ?thesis
      using True q by (simp add: word_le_nat_alt Let_def)
  next
    case False
    then show ?thesis
      using Cons.IH [OF q'(1)] q' q by (simp add: word_le_nat_alt)
  qed
qed simp

lemma soc_curve: "RESTING_SOC_CURVE = (3300, 0) # tl RESTING_SOC_CURVE" "rising_points RESTING_SOC_CURVE"
  by (simp_all add: RESTING_SOC_CURVE_def battery_mv rising_points_def rising_def)

text \<open>The percentage as a function of the millivolts, on naturals.\<close>

definition percent_nat :: "nat \<Rightarrow> nat" where
  "percent_nat mv = (if mv \<le> 3300 then 0 else if mv \<ge> 4150 then 100
     else curve (map (\<lambda>(m, p). (unat m, unat p)) RESTING_SOC_CURVE) mv)"

lemma percent_nat: "unat (percent_from_millivolts mv) = percent_nat (unat mv)"
  using curve_scan_nat [of 3300 0 "tl RESTING_SOC_CURVE" mv] soc_curve
  by (auto simp: percent_from_millivolts_def percent_nat_def battery_mv word_le_nat_alt)

lemma percent_nat_mono: "mv \<le> mv' \<Longrightarrow> percent_nat mv \<le> percent_nat mv'"
proof -
  obtain ps where c: "map (\<lambda>(m, p). (unat m, unat p)) RESTING_SOC_CURVE = (3300, 0) # ps" "rising ((3300, 0) # ps)"
  proof
    show "map (\<lambda>(m, p). (unat m, unat p)) RESTING_SOC_CURVE =
        (3300, 0) # map (\<lambda>(m, p). (unat m, unat p)) (tl RESTING_SOC_CURVE)"
      by (subst soc_curve(1)) simp
    then show "rising ((3300, 0) # map (\<lambda>(m, p). (unat m, unat p)) (tl RESTING_SOC_CURVE))"
      using soc_curve(2) by (simp only: rising_points_def)
  qed
  show "mv \<le> mv' \<Longrightarrow> percent_nat mv \<le> percent_nat mv'"
    using curve_mono [OF c(2), of mv mv'] curve_le [OF c(2), of mv] by (auto simp: percent_nat_def c(1))
qed

text \<open>the percentage of a resting voltage.  It never falls when the voltage rises, never exceeds 100, is 0 up to
  3300 mV and 100 from 4150 mV on, and is exactly the tabulated value at every point of the curve.\<close>

theorem battery_percent_curve:
  "(\<forall>a b. a \<le> b \<longrightarrow> percent_from_millivolts a \<le> percent_from_millivolts b)
   \<and> percent_from_millivolts mv \<le> 100
   \<and> (mv \<le> 3300 \<longrightarrow> percent_from_millivolts mv = 0) \<and> (4150 \<le> mv \<longrightarrow> percent_from_millivolts mv = 100)
   \<and> list_all (\<lambda>(m, p). percent_from_millivolts m = p) RESTING_SOC_CURVE"
proof (intro conjI)
  show "\<forall>a b. a \<le> b \<longrightarrow> percent_from_millivolts a \<le> percent_from_millivolts b"
    using percent_nat_mono by (auto simp: word_le_nat_alt percent_nat)
  have "percent_nat (unat mv) \<le> percent_nat (max (unat mv) 4150)"
    by (rule percent_nat_mono) simp
  also have "\<dots> = 100"
    by (simp add: percent_nat_def)
  finally show "percent_from_millivolts mv \<le> 100"
    by (simp add: word_le_nat_alt percent_nat)
  show "mv \<le> 3300 \<longrightarrow> percent_from_millivolts mv = 0" "4150 \<le> mv \<longrightarrow> percent_from_millivolts mv = 100"
    by (auto simp: percent_from_millivolts_def battery_mv word_le_nat_alt)
  show "list_all (\<lambda>(m, p). percent_from_millivolts m = p) RESTING_SOC_CURVE"
    by (simp add: RESTING_SOC_CURVE_def battery_mv percent_from_millivolts_def word_le_nat_alt Let_def)
qed

theorem battery_percent_curve_witness:
  "percent_from_millivolts 3800 \<le> percent_from_millivolts 3825 \<and> percent_from_millivolts 3200 = 0 \<and> percent_from_millivolts 4200 = 100"
  using battery_percent_curve [of 3200] battery_percent_curve [of 4200] by simp

section \<open>Lemmas: levels\<close>

lemma climb_steps:
  "climb 0 mv = (if unat mv < 3730 then 0 else climb 1 mv)" "climb 1 mv = (if unat mv < 4030 then 1 else 2)" "climb 2 mv = 2"
proof -
  show two: "climb 2 mv = 2"
    by (subst climb.simps) (simp add: LEVEL_BOUNDARIES_MV_def)
  show "climb 1 mv = (if unat mv < 4030 then 1 else 2)"
    by (subst climb.simps)
      (simp add: LEVEL_BOUNDARIES_MV_def battery_mv saturating_add32_def word_le_nat_alt two two [unfolded numeral_2_eq_2])
  show "climb 0 mv = (if unat mv < 3730 then 0 else climb 1 mv)"
    by (subst climb.simps) (simp add: LEVEL_BOUNDARIES_MV_def battery_mv saturating_add32_def word_le_nat_alt)
qed

lemma descend_steps:
  "descend 0 mv = 0" "descend 1 mv = (if unat mv < 3670 then 0 else 1)" "descend 2 mv = (if unat mv < 3970 then descend 1 mv else 2)"
proof -
  show zero: "descend 0 mv = 0"
    by (subst descend.simps) simp
  then show "descend 1 mv = (if unat mv < 3670 then 0 else 1)"
    by (subst descend.simps) (simp add: LEVEL_BOUNDARIES_MV_def battery_mv saturating_sub32_def word_less_nat_alt)
  show "descend 2 mv = (if unat mv < 3970 then descend 1 mv else 2)"
    by (subst descend.simps) (simp add: LEVEL_BOUNDARIES_MV_def battery_mv saturating_sub32_def word_less_nat_alt)
qed

lemmas index_steps = climb_steps descend_steps climb_steps [unfolded One_nat_def] descend_steps [unfolded One_nat_def]

lemma bucket_Low: "battery_level_bucket BL_Low mv False =
    (if unat mv < 3730 then BL_Low else if unat mv < 4030 then BL_Partial else BL_Full)"
  by (simp add: battery_level_bucket_def hysteresis_bucket_index_mv_def index_steps)

lemma bucket_Partial: "battery_level_bucket BL_Partial mv False =
    (if unat mv < 3670 then BL_Low else if unat mv < 4030 then BL_Partial else BL_Full)"
  by (simp add: battery_level_bucket_def hysteresis_bucket_index_mv_def index_steps)

lemma bucket_Full: "battery_level_bucket BL_Full mv False =
    (if unat mv < 3670 then BL_Low else if unat mv < 3970 then BL_Partial else BL_Full)"
  by (simp add: battery_level_bucket_def hysteresis_bucket_index_mv_def index_steps)

lemma bucket_plain:
  "l = BL_Unknown \<or> l = BL_Charging \<Longrightarrow> battery_level_bucket l mv False =
    (if unat mv < 3700 then BL_Low else if unat mv < 4000 then BL_Partial else BL_Full)"
  by (auto simp: battery_level_bucket_def plain_bucket_index_mv_def LEVEL_BOUNDARIES_MV_def battery_mv word_le_nat_alt)

text \<open>the level does not flicker.  Repeating a reading never changes the level it led to, and when the level
  leaves a bucket and comes back to it, without charging in between, the two readings are more than 59 mV
  apart: noise inside the hysteresis band never toggles the indicator.\<close>

theorem battery_level_no_flapping:
  assumes "l = BL_Low \<or> l = BL_Partial \<or> l = BL_Full"
    and "l' = battery_level_bucket l a False" "l' \<noteq> l" "battery_level_bucket l' b False = l"
  shows "battery_level_bucket l' a False = l' \<and> (unat a + 60 \<le> unat b \<or> unat b + 60 \<le> unat a)"
  using assms by (elim disjE) (auto simp: bucket_Low bucket_Partial bucket_Full split: if_splits)

theorem battery_level_no_flapping_witness:
  "battery_level_bucket BL_Partial 4030 False = BL_Full \<and> unat (3969 :: u32) + 60 \<le> unat (4030 :: u32)"
  using battery_level_no_flapping [of BL_Partial BL_Full 4030 3969] by (simp add: bucket_Partial bucket_Full)

section \<open>Lemmas: window closes\<close>

text \<open>The state after a run of closed windows, each with its peak.\<close>

definition close_windows :: "u32 \<times> bool \<times> bool \<times> BatteryLevel \<Rightarrow> u32 list \<Rightarrow> u32 \<times> bool \<times> bool \<times> BatteryLevel" where
  "close_windows = foldl (\<lambda>(settled_mv, _, confirmed, level) peak. battery_window_close_step settled_mv level confirmed peak)"

definition resting :: "u32 list \<Rightarrow> u32 list" where
  "resting peaks = filter (\<lambda>p. p \<le> 4300) peaks"

text \<open>the settled voltage is never taken from a powered pack.  After any run of closed windows it is the peak
  of the last window that was not above 4300 mV, or still the voltage from before; the device counts as
  charging exactly when the last window was above; it counts as confirmed once any window was not above;
  and the level is \<open>Charging\<close> exactly while charging.\<close>

theorem battery_settled_is_last_resting:
  assumes "peaks \<noteq> []"
  shows "\<exists>level. close_windows (settled, charging, confirmed, level0) peaks =
      (last (settled # resting peaks), 4300 < last peaks, confirmed \<or> resting peaks \<noteq> [], level)
    \<and> (level = BL_Charging \<longleftrightarrow> 4300 < last peaks)"
  using assms
proof (induction peaks rule: rev_induct)
  case (snoc p ps)
  have "\<exists>c level. close_windows (settled, charging, confirmed, level0) ps =
      (last (settled # resting ps), c, confirmed \<or> resting ps \<noteq> [], level)"
    using snoc.IH by (cases "ps = []") (auto simp: close_windows_def resting_def)
  then obtain c level where "close_windows (settled, charging, confirmed, level0) ps =
      (last (settled # resting ps), c, confirmed \<or> resting ps \<noteq> [], level)"
    by blast
  then have step: "close_windows (settled, charging, confirmed, level0) (ps @ [p]) =
      battery_window_close_step (last (settled # resting ps)) level (confirmed \<or> resting ps \<noteq> []) p"
    by (simp add: close_windows_def)
  have "battery_level_bucket level mv False \<noteq> BL_Charging" for mv
    by (simp add: battery_level_bucket_def Let_def)
  then show ?case
    unfolding step by (auto simp: battery_window_close_step_def battery_poll_step_def battery_mv advance_settled_confirmed_def
        resting_def battery_level_bucket_def not_less)
qed simp

theorem battery_settled_is_last_resting_witness:
  "\<exists>level. close_windows (3900, False, False, BL_Unknown) [3950, 4400, 4500] = (3950, True, True, level)"
  using battery_settled_is_last_resting [of "[3950, 4400, 4500]" 3900 False False BL_Unknown]
  by (auto simp: resting_def word_le_nat_alt word_less_nat_alt)

end
