(* ===== verification/Effects.thy ===== *)
theory Effects
  imports Prelude
begin

text \<open>
  Operations that change a device state and may fail or panic, and the two devices behind them.

  An operation returns the outcome beside the state it leaves: the left side of the outcome is the error, the
  state is kept in both cases, \<open>None\<close> is the panic.  \<open>and_then\<close> is the \<open>?\<close> operator.

  The NVS of ESP-IDF and a raw flash partition are parameters: the records hold the operations the firmware
  calls, and beside them the contents that \<open>nvs_ok\<close> and \<open>part_ok\<close> relate the operations to.
\<close>

section \<open>The \<open>?\<close> operator\<close>

type_synonym ('e, 'a, 's) outcome = "(('e + 'a) \<times> 's) rust"

definition and_then :: "('e, 'a, 's) outcome \<Rightarrow> ('a \<Rightarrow> 's \<Rightarrow> ('e, 'b, 's) outcome) \<Rightarrow> ('e, 'b, 's) outcome" where
  "and_then m f = (case m of
     None \<Rightarrow> None
   | Some (Inl e, s) \<Rightarrow> Some (Inl e, s)
   | Some (Inr x, s) \<Rightarrow> f x s)"

lemma and_then_simps [simp]: "and_then None f = None" "and_then (Some (Inl e, s)) f = Some (Inl e, s)"
  "and_then (Some (Inr x, s)) f = f x s"
  by (simp_all add: and_then_def)

lemma and_then_SomeE:
  assumes "and_then m f = Some (r, s)"
  obtains (err) e where "m = Some (Inl e, s)" "r = Inl e" | (ok) x s' where "m = Some (Inr x, s')" "f x s' = Some (r, s)"
  using assms by (auto simp: and_then_def split: option.splits sum.splits)

text \<open>The total specification of an operation: it does not panic, \<open>Q\<close> holds of its result and state, \<open>E\<close> of its
  error and state.\<close>

definition owp :: "('e, 'a, 's) outcome \<Rightarrow> ('a \<Rightarrow> 's \<Rightarrow> bool) \<Rightarrow> ('e \<Rightarrow> 's \<Rightarrow> bool) \<Rightarrow> bool" where
  "owp m Q E = (case m of None \<Rightarrow> False | Some (Inr x, s) \<Rightarrow> Q x s | Some (Inl e, s) \<Rightarrow> E e s)"

named_theorems owp_simps \<open>specifications of the outcome operations\<close>

lemma owp_and_then [owp_simps]: "owp (and_then m f) Q E = owp m (\<lambda>x s. owp (f x s) Q E) E"
  by (auto simp: owp_def and_then_def split: option.splits sum.splits)

lemma owp_value [owp_simps]: "owp (Some (Inr x, s)) Q E = Q x s" "owp (Some (Inl e, s)) Q E = E e s"
    "\<not> owp None Q E"
  by (simp_all add: owp_def)

lemma owp_mono:
  assumes "owp m Q E" "\<And>x s. Q x s \<Longrightarrow> Q' x s" "\<And>e s. E e s \<Longrightarrow> E' e s"
  shows "owp m Q' E'"
  using assms by (auto simp: owp_def split: option.splits sum.splits)

lemma owpE:
  assumes "owp m Q E"
  obtains (ok) x s where "m = Some (Inr x, s)" "Q x s" | (err) e s where "m = Some (Inl e, s)" "E e s"
proof -
  obtain r s where m: "m = Some (r, s)"
    using assms by (cases m) (auto simp: owp_def)
  then show thesis
    using assms that by (cases r) (auto simp: owp_def)
qed

text \<open>\<open>map_err\<close>: the error changed, the state kept.\<close>

definition map_err :: "('e \<Rightarrow> 'f) \<Rightarrow> ('e, 'a, 's) outcome \<Rightarrow> ('f, 'a, 's) outcome" where
  "map_err f m = map_option (map_prod (map_sum f id) id) m"

lemma owp_map_err [owp_simps]: "owp (map_err f m) Q E = owp m Q (\<lambda>e. E (f e))"
  by (auto simp: owp_def map_err_def split: option.split sum.split)

section \<open>NVS\<close>

datatype NvsVal = NvU8 u8 | NvU32 u32 | NvBlob bytes

type_synonym nvs_key = "string \<times> bytes"

definition ascii :: "string \<Rightarrow> bytes" where
  "ascii s = map (\<lambda>c. of_nat (of_char c)) s"

text \<open>\<open>EspNvs::new\<close> (its success), the typed reads before their type is looked at, the writes and \<open>remove\<close>;
  \<open>nvs_at\<close> is what the store holds.\<close>

record 's nvs_prims =
  nvs_open :: "'s \<Rightarrow> string \<Rightarrow> bool"
  nvs_read :: "'s \<Rightarrow> nvs_key \<Rightarrow> unit + NvsVal option"
  nvs_write :: "'s \<Rightarrow> nvs_key \<Rightarrow> NvsVal \<Rightarrow> bool \<times> 's"
  nvs_remove :: "'s \<Rightarrow> nvs_key \<Rightarrow> (unit + bool) \<times> 's"
  nvs_at :: "'s \<Rightarrow> nvs_key \<Rightarrow> NvsVal option"

text \<open>A read fails or gives what is stored.  A write or removal that succeeds takes effect on its key alone; one that
  fails leaves its key with the old contents or with the new, as the documentation of the NVS says of a write
  interrupted by a loss of power or a failing flash (\<open>ESP_ERR_NVS_REMOVE_FAILED\<close>), and no other key is touched.\<close>

definition nvs_ok :: "'s nvs_prims \<Rightarrow> bool" where
  "nvs_ok N \<longleftrightarrow>
     (\<forall>s k. nvs_read N s k = Inl () \<or> nvs_read N s k = Inr (nvs_at N s k))
     \<and> (\<forall>s k v s'. nvs_write N s k v = (True, s') \<longrightarrow> nvs_at N s' = (nvs_at N s)(k \<mapsto> v))
     \<and> (\<forall>s k v s'. nvs_write N s k v = (False, s') \<longrightarrow> nvs_at N s' \<in> {nvs_at N s, (nvs_at N s)(k \<mapsto> v)})
     \<and> (\<forall>s k b s'. nvs_remove N s k = (Inr b, s') \<longrightarrow> nvs_at N s' = (nvs_at N s)(k := None))
     \<and> (\<forall>s k e s'. nvs_remove N s k = (Inl e, s') \<longrightarrow> nvs_at N s' \<in> {nvs_at N s, (nvs_at N s)(k := None)})"

text \<open>\<open>get_u8\<close>, \<open>get_u32\<close>, \<open>get_blob\<close> with the length of the caller's buffer, and the setters.\<close>

definition get_u8 :: "'s nvs_prims \<Rightarrow> 's \<Rightarrow> string \<Rightarrow> bytes \<Rightarrow> unit + u8 option" where
  "get_u8 N s ns key = (case nvs_read N s (ns, key) of
     Inl e \<Rightarrow> Inl e | Inr None \<Rightarrow> Inr None | Inr (Some (NvU8 v)) \<Rightarrow> Inr (Some v) | Inr (Some _) \<Rightarrow> Inl ())"

definition get_u32 :: "'s nvs_prims \<Rightarrow> 's \<Rightarrow> string \<Rightarrow> bytes \<Rightarrow> unit + u32 option" where
  "get_u32 N s ns key = (case nvs_read N s (ns, key) of
     Inl e \<Rightarrow> Inl e | Inr None \<Rightarrow> Inr None | Inr (Some (NvU32 v)) \<Rightarrow> Inr (Some v) | Inr (Some _) \<Rightarrow> Inl ())"

definition get_blob :: "'s nvs_prims \<Rightarrow> 's \<Rightarrow> string \<Rightarrow> bytes \<Rightarrow> nat \<Rightarrow> unit + bytes option" where
  "get_blob N s ns key buf_len = (case nvs_read N s (ns, key) of
     Inl e \<Rightarrow> Inl e | Inr None \<Rightarrow> Inr None
   | Inr (Some (NvBlob b)) \<Rightarrow> if length b \<le> buf_len then Inr (Some b) else Inl ()
   | Inr (Some _) \<Rightarrow> Inl ())"

definition nvs_set :: "'s nvs_prims \<Rightarrow> string \<Rightarrow> bytes \<Rightarrow> NvsVal \<Rightarrow> 's \<Rightarrow> (unit, unit, 's) outcome" where
  "nvs_set N ns key v s = (case nvs_write N s (ns, key) v of (True, s') \<Rightarrow> Some (Inr (), s') | (False, s') \<Rightarrow> Some (Inl (), s'))"

definition nvs_erase :: "'s nvs_prims \<Rightarrow> string \<Rightarrow> bytes \<Rightarrow> 's \<Rightarrow> (unit, bool, 's) outcome" where
  "nvs_erase N ns key s = (case nvs_remove N s (ns, key) of (r, s') \<Rightarrow> Some (r, s'))"

definition nvs_open_ns :: "'s nvs_prims \<Rightarrow> string \<Rightarrow> 's \<Rightarrow> (unit, unit, 's) outcome" where
  "nvs_open_ns N ns s = Some (if nvs_open N s ns then Inr () else Inl (), s)"

lemmas nvs_ops = get_u8_def get_u32_def get_blob_def nvs_set_def nvs_erase_def nvs_open_ns_def

lemma nvs_set_cases:
  assumes "nvs_ok N"
  obtains (ok) s' where "nvs_set N ns key v s = Some (Inr (), s')" "nvs_at N s' = (nvs_at N s)((ns, key) \<mapsto> v)"
    | (err) s' where "nvs_set N ns key v s = Some (Inl (), s')" "nvs_at N s' = nvs_at N s"
    | (torn) s' where "nvs_set N ns key v s = Some (Inl (), s')" "nvs_at N s' = (nvs_at N s)((ns, key) \<mapsto> v)"
proof -
  obtain b s' where w: "nvs_write N s (ns, key) v = (b, s')"
    by (cases "nvs_write N s (ns, key) v")
  show thesis
  proof (cases b)
    case True
    then show thesis
      using w assms by (intro ok [of s']) (simp_all add: nvs_ok_def nvs_set_def)
  next
    case False
    then have "nvs_at N s' = nvs_at N s \<or> nvs_at N s' = (nvs_at N s)((ns, key) \<mapsto> v)"
      using w assms by (simp add: nvs_ok_def)
    then show thesis
      using err [of s'] torn [of s'] w False by (auto simp: nvs_set_def)
  qed
qed

lemma nvs_erase_cases:
  assumes "nvs_ok N"
  obtains (ok) b s' where "nvs_erase N ns key s = Some (Inr b, s')" "nvs_at N s' = (nvs_at N s)((ns, key) := None)"
    | (err) s' where "nvs_erase N ns key s = Some (Inl (), s')" "nvs_at N s' = nvs_at N s"
    | (torn) s' where "nvs_erase N ns key s = Some (Inl (), s')" "nvs_at N s' = (nvs_at N s)((ns, key) := None)"
proof -
  obtain r s' where w: "nvs_remove N s (ns, key) = (r, s')"
    by (cases "nvs_remove N s (ns, key)")
  show thesis
  proof (cases r)
    case (Inr b)
    then show thesis
      using w assms by (intro ok [of b s']) (auto simp: nvs_ok_def nvs_erase_def)
  next
    case (Inl e)
    then have "nvs_at N s' = nvs_at N s \<or> nvs_at N s' = (nvs_at N s)((ns, key) := None)"
      using w assms by (simp add: nvs_ok_def)
    then show thesis
      using err [of s'] torn [of s'] w Inl by (auto simp: nvs_erase_def)
  qed
qed

text \<open>A store in memory with the outcomes of its next writes: \<open>None\<close> succeeds, \<open>Some torn\<close> fails and leaves the new
  contents if \<open>torn\<close>.\<close>

type_synonym demo_store = "(nvs_key \<Rightarrow> NvsVal option) \<times> bool option list"

definition demo_put :: "nvs_key \<Rightarrow> NvsVal option \<Rightarrow> demo_store \<Rightarrow> bool \<times> demo_store" where
  "demo_put k v s = (case s of
     (m, Some torn # fs) \<Rightarrow> (False, if torn then m(k := v) else m, fs)
   | (m, fs) \<Rightarrow> (True, m(k := v), tl fs))"

definition demo_nvs :: "demo_store nvs_prims" where
  "demo_nvs = \<lparr>nvs_open = (\<lambda>_ _. True), nvs_read = (\<lambda>s k. Inr (fst s k)),
     nvs_write = (\<lambda>s k v. demo_put k (Some v) s),
     nvs_remove = (\<lambda>s k. case demo_put k None s of (True, s') \<Rightarrow> (Inr (fst s k \<noteq> None), s') | (False, s') \<Rightarrow> (Inl (), s')),
     nvs_at = fst\<rparr>"

lemma demo_nvs_ok: "nvs_ok demo_nvs"
  by (auto simp: nvs_ok_def demo_nvs_def demo_put_def split: list.splits option.splits bool.splits prod.splits if_splits)

section \<open>Flash partitions\<close>

text \<open>\<open>EspPartition::read(offset, buf)\<close>, \<open>write\<close>, \<open>erase\<close>; \<open>part_bytes\<close> is what the flash holds.\<close>

record 'p part_prims =
  part_read :: "'p \<Rightarrow> nat \<Rightarrow> nat \<Rightarrow> unit + bytes"
  part_write :: "'p \<Rightarrow> nat \<Rightarrow> bytes \<Rightarrow> bool \<times> 'p"
  part_erase :: "'p \<Rightarrow> nat \<Rightarrow> nat \<Rightarrow> bool \<times> 'p"
  part_bytes :: "'p \<Rightarrow> bytes"

text \<open>A read in range fails or gives the bytes there; programming a range clears bits of it; erasing a range
  sets every bit of it; a failed operation can leave anything in its range and nothing outside it.\<close>

definition same_outside :: "nat \<Rightarrow> nat \<Rightarrow> bytes \<Rightarrow> bytes \<Rightarrow> bool" where
  "same_outside off n a b \<longleftrightarrow> length b = length a \<and> take off b = take off a \<and> drop (off + n) b = drop (off + n) a"

definition part_ok :: "'p part_prims \<Rightarrow> bool" where
  "part_ok P \<longleftrightarrow>
     (\<forall>p off n. off + n \<le> length (part_bytes P p) \<longrightarrow>
        part_read P p off n = Inl () \<or> part_read P p off n = Inr (take n (drop off (part_bytes P p))))
     \<and> (\<forall>p off b ok p'. off + length b \<le> length (part_bytes P p) \<longrightarrow> part_write P p off b = (ok, p') \<longrightarrow>
        same_outside off (length b) (part_bytes P p) (part_bytes P p')
        \<and> (ok \<longrightarrow> take (length b) (drop off (part_bytes P p')) = map2 (AND) (take (length b) (drop off (part_bytes P p))) b))
     \<and> (\<forall>p off n ok p'. off + n \<le> length (part_bytes P p) \<longrightarrow> part_erase P p off n = (ok, p') \<longrightarrow>
        same_outside off n (part_bytes P p) (part_bytes P p')
        \<and> (ok \<longrightarrow> take n (drop off (part_bytes P p')) = replicate n 0xFF))"

text \<open>No access within the partition fails.\<close>

definition part_works :: "'p part_prims \<Rightarrow> bool" where
  "part_works P \<longleftrightarrow>
     (\<forall>p off n. off + n \<le> length (part_bytes P p) \<longrightarrow> part_read P p off n \<noteq> Inl ())
     \<and> (\<forall>p off b. off + length b \<le> length (part_bytes P p) \<longrightarrow> fst (part_write P p off b))
     \<and> (\<forall>p off n. off + n \<le> length (part_bytes P p) \<longrightarrow> fst (part_erase P p off n))"

definition flash_read :: "'p part_prims \<Rightarrow> nat \<Rightarrow> nat \<Rightarrow> 'p \<Rightarrow> (unit, bytes, 'p) outcome" where
  "flash_read P off n p = Some (part_read P p off n, p)"

definition flash_write :: "'p part_prims \<Rightarrow> nat \<Rightarrow> bytes \<Rightarrow> 'p \<Rightarrow> (unit, unit, 'p) outcome" where
  "flash_write P off b p = (case part_write P p off b of (ok, p') \<Rightarrow> Some (if ok then Inr () else Inl (), p'))"

definition flash_erase :: "'p part_prims \<Rightarrow> nat \<Rightarrow> nat \<Rightarrow> 'p \<Rightarrow> (unit, unit, 'p) outcome" where
  "flash_erase P off n p = (case part_erase P p off n of (ok, p') \<Rightarrow> Some (if ok then Inr () else Inl (), p'))"

text \<open>A partition in memory that never fails.\<close>

definition demo_part :: "bytes part_prims" where
  "demo_part = \<lparr>part_read = (\<lambda>p off n. Inr (take n (drop off p))),
     part_write = (\<lambda>p off b. (True, take off p @ map2 (AND) (take (length b) (drop off p)) b @ drop (off + length b) p)),
     part_erase = (\<lambda>p off n. (True, take off p @ replicate n 0xFF @ drop (off + n) p)),
     part_bytes = (\<lambda>p. p)\<rparr>"

lemma demo_part_ok: "part_ok demo_part" "part_works demo_part"
  by (auto simp: part_ok_def part_works_def demo_part_def same_outside_def)

end
