(* ===== verification/Config_Store.thy ===== *)
theory Config_Store
  imports Bounded_Array Screen_Lock Prov_Payload Room_Session
begin

text \<open>
  \<open>firmware-core/src/config_store.rs\<close> and \<open>room_admin.rs\<close>: the provisioned configuration, its edits, the
  blob it is stored as, and the room requests.

  An array of the configuration is a list of its fixed length with a live count of eight bits beside it.
  The loops over a live prefix count down the entries that remain.
\<close>

section \<open>Data\<close>

definition MAX_CHANNELS :: nat where
  "MAX_CHANNELS = 8"

definition ROLE_CHAT :: u8 where
  "ROLE_CHAT = 0"

definition ROLE_ROOM :: u8 where
  "ROLE_ROOM = 3"

definition DEFAULT_FREQ_HZ :: u32 where
  "DEFAULT_FREQ_HZ = 910525000"

definition DEFAULT_BW_CODE :: u8 where
  "DEFAULT_BW_CODE = 0"

definition DEFAULT_SF :: u8 where
  "DEFAULT_SF = 7"

definition DEFAULT_CR :: u8 where
  "DEFAULT_CR = 1"

definition DEFAULT_TX_POWER_DBM :: u8 where
  "DEFAULT_TX_POWER_DBM = 22"

definition CFG_VERSION :: u8 where
  "CFG_VERSION = 0x03"

definition CFG_VERSION_V2 :: u8 where
  "CFG_VERSION_V2 = 0x02"

definition CFG_HEADER_LEN :: nat where
  "CFG_HEADER_LEN = 32"

definition CFG_HEADER_LEN_V2 :: nat where
  "CFG_HEADER_LEN_V2 = 31"

definition CONTACT_ENTRY_LEN :: nat where
  "CONTACT_ENTRY_LEN = 67"

definition CONTACT_ENTRY_LEN_V2 :: nat where
  "CONTACT_ENTRY_LEN_V2 = 66"

definition CHANNEL_ENTRY_LEN :: nat where
  "CHANNEL_ENTRY_LEN = 67"

definition ROOM_EXTRA_ENTRY_LEN :: nat where
  "ROOM_EXTRA_ENTRY_LEN = 32 + 1 + MAX_LOGIN_PASSWORD_LEN + 4 + 1 + 1 + MAX_PATH_SIZE"

definition MAX_BLOB_LEN :: nat where
  "MAX_BLOB_LEN = CFG_HEADER_LEN + MAX_CONTACTS * CONTACT_ENTRY_LEN + MAX_CHANNELS * CHANNEL_ENTRY_LEN
     + MAX_CONTACTS * ROOM_EXTRA_ENTRY_LEN"

record Contact =
  ct_pubkey :: bytes
  ct_telemetry_enable :: bool
  ct_role :: u8
  ct_display_name :: bytes
  ct_display_name_len :: u8

definition is_room :: "Contact \<Rightarrow> bool" where
  "is_room c \<longleftrightarrow> ct_role c = ROLE_ROOM"

record Channel =
  ch_secret :: bytes
  ch_key_len :: u8
  ch_primary :: bool
  ch_name :: bytes
  ch_name_len :: u8

definition key_len_resolved :: "Channel \<Rightarrow> nat" where
  "key_len_resolved c = (if ch_key_len c = 16 then 16 else 32)"

definition RoomExtra_EMPTY :: RoomExtra where
  "RoomExtra_EMPTY = \<lparr>re_pubkey = zeros 32, re_guest_password = zeros MAX_LOGIN_PASSWORD_LEN,
     re_guest_password_len = 0, re_sync_since = 0, re_permissions = 0, re_out_path = zeros MAX_PATH_SIZE,
     re_out_path_len = 0\<rparr>"

definition extra_permission :: "RoomExtra \<Rightarrow> RoomPermission" where
  "extra_permission r = RoomPermission_from_u8 (re_permissions r)"

text \<open>\<open>ChannelUpsert\<close>, \<open>ContactUpsert\<close> and the two list-full errors.\<close>

datatype Upsert = UpUpdated | UpAdded

datatype ListFull = ListFull

record RadioPreset =
  rp_freq_hz :: u32
  rp_bw_code :: u8
  rp_sf :: u8
  rp_cr :: u8
  rp_tx_power_dbm :: u8

definition RadioPreset_default :: RadioPreset where
  "RadioPreset_default = \<lparr>rp_freq_hz = DEFAULT_FREQ_HZ, rp_bw_code = DEFAULT_BW_CODE, rp_sf = DEFAULT_SF,
     rp_cr = DEFAULT_CR, rp_tx_power_dbm = DEFAULT_TX_POWER_DBM\<rparr>"

record NotifDefaults =
  nf_visual :: bool
  nf_audible :: bool

definition NotifDefaults_default :: NotifDefaults where
  "NotifDefaults_default = \<lparr>nf_visual = True, nf_audible = True\<rparr>"

record ProvisionedConfig =
  pc_contacts :: "Contact list"
  pc_contact_count :: u8
  pc_channels :: "Channel list"
  pc_channel_count :: u8
  pc_room_extras :: "RoomExtra list"
  pc_room_count :: u8
  pc_radio_preset :: RadioPreset
  pc_notif_defaults :: NotifDefaults
  pc_pin :: bytes
  pc_pin_len :: u8
  pc_lock_flags :: u8

definition null_contact :: Contact where
  "null_contact = \<lparr>ct_pubkey = zeros 32, ct_telemetry_enable = False, ct_role = ROLE_CHAT,
     ct_display_name = zeros MAX_NAME_LEN, ct_display_name_len = 0\<rparr>"

definition null_channel :: Channel where
  "null_channel = \<lparr>ch_secret = zeros 32, ch_key_len = 32, ch_primary = False,
     ch_name = zeros MAX_NAME_LEN, ch_name_len = 0\<rparr>"

definition ProvisionedConfig_empty :: ProvisionedConfig where
  "ProvisionedConfig_empty =
     \<lparr>pc_contacts = replicate MAX_CONTACTS null_contact, pc_contact_count = 0,
      pc_channels = replicate MAX_CHANNELS null_channel, pc_channel_count = 0,
      pc_room_extras = replicate MAX_CONTACTS RoomExtra_EMPTY, pc_room_count = 0,
      pc_radio_preset = RadioPreset_default, pc_notif_defaults = NotifDefaults_default,
      pc_pin = zeros MAX_PIN_LEN, pc_pin_len = 0, pc_lock_flags = 0\<rparr>"

section \<open>Lookups and edits\<close>

definition primary_channel :: "ProvisionedConfig \<Rightarrow> Channel option rust" where
  "primary_channel cfg = do {
     chs \<leftarrow> slice (pc_channels cfg) 0 (unat (pc_channel_count cfg));
     Some (List.find ch_primary chs)
   }"

definition resolve_channel_secret :: "ProvisionedConfig \<Rightarrow> (bytes \<times> nat) option rust" where
  "resolve_channel_secret cfg = do {
     chs \<leftarrow> slice (pc_channels cfg) 0 (unat (pc_channel_count cfg));
     p \<leftarrow> primary_channel cfg;
     let c = (case p of Some c \<Rightarrow> Some c | None \<Rightarrow> (case chs of [] \<Rightarrow> None | c # _ \<Rightarrow> Some c));
     Some (map_option (\<lambda>c. (ch_secret c, key_len_resolved c)) c)
   }"

definition upsert_channel ::
    "ProvisionedConfig \<Rightarrow> Channel \<Rightarrow> (ProvisionedConfig \<times> (ListFull + Upsert)) rust" where
  "upsert_channel cfg ch = do {
     let cnt = unat (pc_channel_count cfg);
     chs \<leftarrow> slice (pc_channels cfg) 0 cnt;
     let existing = position (\<lambda>c. ch_secret c = ch_secret ch) chs;
     if existing = None \<and> cnt \<ge> MAX_CHANNELS then Some (cfg, Inl ListFull)
     else do {
       let arr = (if ch_primary ch
                  then map (\<lambda>c. c\<lparr>ch_primary := False\<rparr>) chs @ drop cnt (pc_channels cfg)
                  else pc_channels cfg);
       (case existing of
          Some idx \<Rightarrow> do {
            arr \<leftarrow> set_at arr idx ch;
            Some (cfg\<lparr>pc_channels := arr\<rparr>, Inr UpUpdated)
          }
        | None \<Rightarrow> do {
            arr \<leftarrow> set_at arr cnt ch;
            Some (cfg\<lparr>pc_channels := arr, pc_channel_count := pc_channel_count cfg + 1\<rparr>, Inr UpAdded)
          })
     }
   }"

definition upsert_contact ::
    "ProvisionedConfig \<Rightarrow> Contact \<Rightarrow> (ProvisionedConfig \<times> (ListFull + Upsert)) rust" where
  "upsert_contact cfg c = do {
     let cnt = unat (pc_contact_count cfg);
     cts \<leftarrow> slice (pc_contacts cfg) 0 cnt;
     let existing = position (\<lambda>x. ct_pubkey x = ct_pubkey c) cts;
     if existing = None \<and> cnt \<ge> MAX_CONTACTS then Some (cfg, Inl ListFull)
     else
       (case existing of
          Some idx \<Rightarrow> do {
            arr \<leftarrow> set_at (pc_contacts cfg) idx c;
            Some (cfg\<lparr>pc_contacts := arr\<rparr>, Inr UpUpdated)
          }
        | None \<Rightarrow> do {
            arr \<leftarrow> set_at (pc_contacts cfg) cnt c;
            Some (cfg\<lparr>pc_contacts := arr, pc_contact_count := pc_contact_count cfg + 1\<rparr>, Inr UpAdded)
          })
   }"

definition upsert_room ::
    "ProvisionedConfig \<Rightarrow> Contact \<Rightarrow> RoomExtra \<Rightarrow> (ProvisionedConfig \<times> (ListFull + Upsert)) rust" where
  "upsert_room cfg contact extra = do {
     let contact = contact\<lparr>ct_role := ROLE_ROOM\<rparr>;
     let extra = extra\<lparr>re_pubkey := ct_pubkey contact\<rparr>;
     (cfg, r) \<leftarrow> upsert_contact cfg contact;
     (case r of
        Inl e \<Rightarrow> Some (cfg, Inl e)
      | Inr outcome \<Rightarrow> do {
          let cnt = unat (pc_room_count cfg);
          rs \<leftarrow> slice (pc_room_extras cfg) 0 cnt;
          (case position (\<lambda>r. re_pubkey r = re_pubkey extra) rs of
             Some idx \<Rightarrow> do {
               arr \<leftarrow> set_at (pc_room_extras cfg) idx extra;
               Some (cfg\<lparr>pc_room_extras := arr\<rparr>, Inr outcome)
             }
           | None \<Rightarrow> do {
               arr \<leftarrow> set_at (pc_room_extras cfg) cnt extra;
               Some (cfg\<lparr>pc_room_extras := arr, pc_room_count := pc_room_count cfg + 1\<rparr>, Inr outcome)
             })
        })
   }"

definition remove_room :: "ProvisionedConfig \<Rightarrow> bytes \<Rightarrow> (ProvisionedConfig \<times> bool) rust" where
  "remove_room cfg pubkey = do {
     let rcnt = unat (pc_room_count cfg);
     rs \<leftarrow> slice (pc_room_extras cfg) 0 rcnt;
     cfg \<leftarrow> (case position (\<lambda>r. re_pubkey r = pubkey) rs of
        Some idx \<Rightarrow> do {
          arr \<leftarrow> shift_left (pc_room_extras cfg) idx (rcnt - 1 - idx);
          Some (cfg\<lparr>pc_room_extras := arr, pc_room_count := pc_room_count cfg - 1\<rparr>)
        }
      | None \<Rightarrow> Some cfg);
     let ccnt = unat (pc_contact_count cfg);
     cts \<leftarrow> slice (pc_contacts cfg) 0 ccnt;
     (case position (\<lambda>c. ct_pubkey c = pubkey) cts of
        Some idx \<Rightarrow> do {
          arr \<leftarrow> shift_left (pc_contacts cfg) idx (ccnt - 1 - idx);
          Some (cfg\<lparr>pc_contacts := arr, pc_contact_count := pc_contact_count cfg - 1\<rparr>, True)
        }
      | None \<Rightarrow> Some (cfg, False))
   }"

definition room_extra :: "ProvisionedConfig \<Rightarrow> bytes \<Rightarrow> RoomExtra option rust" where
  "room_extra cfg pubkey = do {
     rs \<leftarrow> slice (pc_room_extras cfg) 0 (unat (pc_room_count cfg));
     Some (List.find (\<lambda>r. re_pubkey r = pubkey) rs)
   }"

section \<open>The stored blob\<close>

definition write_contact :: "Contact \<Rightarrow> nat \<Rightarrow> bytes \<Rightarrow> bytes rust" where
  "write_contact c off out = do {
     out \<leftarrow> copy_into out off (ct_pubkey c);
     out \<leftarrow> set_at out (off + 32) (of_bool (ct_telemetry_enable c));
     out \<leftarrow> set_at out (off + 33) (ct_role c);
     out \<leftarrow> set_at out (off + 34) (ct_display_name_len c);
     copy_into out (off + 35) (ct_display_name c)
   }"

definition write_channel :: "Channel \<Rightarrow> nat \<Rightarrow> bytes \<Rightarrow> bytes rust" where
  "write_channel c off out = do {
     out \<leftarrow> copy_into out off (ch_secret c);
     out \<leftarrow> set_at out (off + 32) (ch_key_len c);
     out \<leftarrow> set_at out (off + 33) (of_bool (ch_primary c));
     out \<leftarrow> set_at out (off + 34) (ch_name_len c);
     copy_into out (off + 35) (ch_name c)
   }"

definition write_room :: "RoomExtra \<Rightarrow> nat \<Rightarrow> bytes \<Rightarrow> bytes rust" where
  "write_room r off out = do {
     out \<leftarrow> copy_into out off (re_pubkey r);
     out \<leftarrow> set_at out (off + 32) (re_guest_password_len r);
     out \<leftarrow> copy_into out (off + 33) (re_guest_password r);
     let p = off + 33 + MAX_LOGIN_PASSWORD_LEN;
     out \<leftarrow> copy_into out p (to_le32 (re_sync_since r));
     out \<leftarrow> set_at out (p + 4) (re_permissions r);
     out \<leftarrow> set_at out (p + 5) (re_out_path_len r);
     copy_into out (p + 6) (re_out_path r)
   }"

text \<open>\<open>for i in 0..count\<close> over an array, entry \<open>i\<close> written at \<open>off\<close> and \<open>off += entry_len\<close>.\<close>

fun write_entries ::
    "('a \<Rightarrow> nat \<Rightarrow> bytes \<Rightarrow> bytes rust) \<Rightarrow> nat \<Rightarrow> 'a list \<Rightarrow> nat \<Rightarrow> nat \<Rightarrow> nat \<Rightarrow> bytes \<Rightarrow> (bytes \<times> nat) rust" where
  "write_entries w len arr i 0 off out = Some (out, off)"
| "write_entries w len arr i (Suc n) off out = do {
     x \<leftarrow> get_at arr i;
     out \<leftarrow> w x off out;
     write_entries w len arr (i + 1) n (off + len) out
   }"

definition serialize_config :: "ProvisionedConfig \<Rightarrow> bytes \<Rightarrow> (bytes \<times> nat) rust" where
  "serialize_config cfg out = do {
     out \<leftarrow> set_at out 0 CFG_VERSION;
     out \<leftarrow> set_at out 1 (pc_contact_count cfg);
     out \<leftarrow> set_at out 2 (pc_channel_count cfg);
     out \<leftarrow> set_at out 3 (pc_lock_flags cfg);
     out \<leftarrow> set_at out 4 (pc_pin_len cfg);
     out \<leftarrow> copy_into out 5 (pc_pin cfg);
     out \<leftarrow> set_at out (5 + MAX_PIN_LEN) (of_bool (nf_visual (pc_notif_defaults cfg)));
     out \<leftarrow> set_at out (5 + MAX_PIN_LEN + 1) (of_bool (nf_audible (pc_notif_defaults cfg)));
     out \<leftarrow> copy_into out 23 (to_le32 (rp_freq_hz (pc_radio_preset cfg)));
     out \<leftarrow> set_at out 27 (rp_bw_code (pc_radio_preset cfg));
     out \<leftarrow> set_at out 28 (rp_sf (pc_radio_preset cfg));
     out \<leftarrow> set_at out 29 (rp_cr (pc_radio_preset cfg));
     out \<leftarrow> set_at out 30 (rp_tx_power_dbm (pc_radio_preset cfg));
     out \<leftarrow> set_at out 31 (pc_room_count cfg);
     (out, off) \<leftarrow> write_entries write_contact CONTACT_ENTRY_LEN (pc_contacts cfg) 0
                     (unat (pc_contact_count cfg)) CFG_HEADER_LEN out;
     (out, off) \<leftarrow> write_entries write_channel CHANNEL_ENTRY_LEN (pc_channels cfg) 0
                     (unat (pc_channel_count cfg)) off out;
     write_entries write_room ROOM_EXTRA_ENTRY_LEN (pc_room_extras cfg) 0
                     (unat (pc_room_count cfg)) off out
   }"

record CfgHeader =
  hd_lock_flags :: u8
  hd_pin_len :: u8
  hd_pin :: bytes
  hd_notif_visual :: bool
  hd_notif_audible :: bool
  hd_radio_preset :: RadioPreset

definition parse_header :: "bytes \<Rightarrow> CfgHeader rust" where
  "parse_header blob = do {
     lock_flags \<leftarrow> get_at blob 3;
     pin_len \<leftarrow> get_at blob 4;
     pin \<leftarrow> slice blob 5 (5 + MAX_PIN_LEN);
     visual \<leftarrow> get_at blob (5 + MAX_PIN_LEN);
     audible \<leftarrow> get_at blob (5 + MAX_PIN_LEN + 1);
     b23 \<leftarrow> get_at blob 23;
     b24 \<leftarrow> get_at blob 24;
     b25 \<leftarrow> get_at blob 25;
     b26 \<leftarrow> get_at blob 26;
     bw \<leftarrow> get_at blob 27;
     sf \<leftarrow> get_at blob 28;
     cr \<leftarrow> get_at blob 29;
     tx \<leftarrow> get_at blob 30;
     Some \<lparr>hd_lock_flags = lock_flags, hd_pin_len = pin_len, hd_pin = pin, hd_notif_visual = (visual \<noteq> 0),
       hd_notif_audible = (audible \<noteq> 0),
       hd_radio_preset = \<lparr>rp_freq_hz = from_le32 b23 b24 b25 b26, rp_bw_code = bw, rp_sf = sf, rp_cr = cr,
         rp_tx_power_dbm = tx\<rparr>\<rparr>
   }"

definition read_contact :: "bytes \<Rightarrow> nat \<Rightarrow> Contact option rust" where
  "read_contact blob off = do {
     pubkey \<leftarrow> slice blob off (off + 32);
     telemetry \<leftarrow> get_at blob (off + 32);
     role \<leftarrow> get_at blob (off + 33);
     name_len \<leftarrow> get_at blob (off + 34);
     name \<leftarrow> slice blob (off + 35) (off + CONTACT_ENTRY_LEN);
     Some (Some \<lparr>ct_pubkey = pubkey, ct_telemetry_enable = (telemetry \<noteq> 0), ct_role = role,
       ct_display_name = name, ct_display_name_len = name_len\<rparr>)
   }"

definition read_contact_v2 :: "bytes \<Rightarrow> nat \<Rightarrow> Contact option rust" where
  "read_contact_v2 blob off = do {
     pubkey \<leftarrow> slice blob off (off + 32);
     telemetry \<leftarrow> get_at blob (off + 32);
     name_len \<leftarrow> get_at blob (off + 33);
     name \<leftarrow> slice blob (off + 34) (off + CONTACT_ENTRY_LEN_V2);
     Some (Some \<lparr>ct_pubkey = pubkey, ct_telemetry_enable = (telemetry \<noteq> 0), ct_role = ROLE_CHAT,
       ct_display_name = name, ct_display_name_len = name_len\<rparr>)
   }"

definition read_channel :: "bytes \<Rightarrow> nat \<Rightarrow> Channel option rust" where
  "read_channel blob off = do {
     secret \<leftarrow> slice blob off (off + 32);
     key_len \<leftarrow> get_at blob (off + 32);
     primary \<leftarrow> get_at blob (off + 33);
     name_len \<leftarrow> get_at blob (off + 34);
     name \<leftarrow> slice blob (off + 35) (off + CHANNEL_ENTRY_LEN);
     Some (Some \<lparr>ch_secret = secret, ch_key_len = key_len, ch_primary = (primary \<noteq> 0), ch_name = name,
       ch_name_len = name_len\<rparr>)
   }"

text \<open>A room entry refuses a length byte over its capacity; that refusal is the inner \<open>None\<close>.\<close>

definition read_room :: "bytes \<Rightarrow> nat \<Rightarrow> RoomExtra option rust" where
  "read_room blob off = do {
     pubkey \<leftarrow> slice blob off (off + 32);
     pw_len \<leftarrow> get_at blob (off + 32);
     if unat pw_len > MAX_LOGIN_PASSWORD_LEN then Some None
     else do {
       pw \<leftarrow> slice blob (off + 33) (off + 33 + MAX_LOGIN_PASSWORD_LEN);
       let p = off + 33 + MAX_LOGIN_PASSWORD_LEN;
       b0 \<leftarrow> get_at blob p;
       b1 \<leftarrow> get_at blob (p + 1);
       b2 \<leftarrow> get_at blob (p + 2);
       b3 \<leftarrow> get_at blob (p + 3);
       perms \<leftarrow> get_at blob (p + 4);
       path_len \<leftarrow> get_at blob (p + 5);
       if unat path_len > MAX_PATH_SIZE then Some None
       else do {
         path \<leftarrow> slice blob (p + 6) (p + 6 + MAX_PATH_SIZE);
         Some (Some \<lparr>re_pubkey = pubkey, re_guest_password = pw, re_guest_password_len = pw_len,
           re_sync_since = from_le32 b0 b1 b2 b3, re_permissions = perms, re_out_path = path,
           re_out_path_len = path_len\<rparr>)
       }
     }
   }"

text \<open>\<open>for x in arr.iter_mut().take(n)\<close>, each slot overwritten with the entry read at \<open>off\<close>.\<close>

fun read_entries ::
    "(bytes \<Rightarrow> nat \<Rightarrow> 'a option rust) \<Rightarrow> nat \<Rightarrow> bytes \<Rightarrow> nat \<Rightarrow> nat \<Rightarrow> 'a list \<Rightarrow> ('a list \<times> nat) option rust" where
  "read_entries r len blob off 0 arr = Some (Some (arr, off))"
| "read_entries r len blob off (Suc n) [] = Some (Some ([], off))"
| "read_entries r len blob off (Suc n) (_ # arr) = do {
     x \<leftarrow> r blob off;
     (case x of
        None \<Rightarrow> Some None
      | Some x \<Rightarrow> do {
          rest \<leftarrow> read_entries r len blob (off + len) n arr;
          Some (map_option (\<lambda>(xs, off). (x # xs, off)) rest)
        })
   }"

definition config_of :: "CfgHeader \<Rightarrow> Contact list \<Rightarrow> nat \<Rightarrow> Channel list \<Rightarrow> nat \<Rightarrow> RoomExtra list \<Rightarrow> nat \<Rightarrow> ProvisionedConfig" where
  "config_of header contacts contact_count channels channel_count room_extras room_count =
     \<lparr>pc_contacts = contacts, pc_contact_count = of_nat contact_count,
      pc_channels = channels, pc_channel_count = of_nat channel_count,
      pc_room_extras = room_extras, pc_room_count = of_nat room_count,
      pc_radio_preset = hd_radio_preset header,
      pc_notif_defaults = \<lparr>nf_visual = hd_notif_visual header, nf_audible = hd_notif_audible header\<rparr>,
      pc_pin = hd_pin header, pc_pin_len = hd_pin_len header, pc_lock_flags = hd_lock_flags header\<rparr>"

definition deserialize_v3 :: "bytes \<Rightarrow> ProvisionedConfig option rust" where
  "deserialize_v3 blob =
     (if length blob < CFG_HEADER_LEN then Some None
      else do {
        b1 \<leftarrow> get_at blob 1;
        b2 \<leftarrow> get_at blob 2;
        b31 \<leftarrow> get_at blob 31;
        let contact_count = unat b1;
        let channel_count = unat b2;
        let room_count = unat b31;
        if contact_count > MAX_CONTACTS \<or> channel_count > MAX_CHANNELS \<or> room_count > MAX_CONTACTS then Some None
        else if room_count > contact_count then Some None
        else if length blob < CFG_HEADER_LEN + contact_count * CONTACT_ENTRY_LEN
                  + channel_count * CHANNEL_ENTRY_LEN + room_count * ROOM_EXTRA_ENTRY_LEN then Some None
        else do {
          header \<leftarrow> parse_header blob;
          cs \<leftarrow> read_entries read_contact CONTACT_ENTRY_LEN blob CFG_HEADER_LEN contact_count
                  (replicate MAX_CONTACTS null_contact);
          (case cs of None \<Rightarrow> Some None | Some (contacts, off) \<Rightarrow> do {
             chs \<leftarrow> read_entries read_channel CHANNEL_ENTRY_LEN blob off channel_count
                      (replicate MAX_CHANNELS null_channel);
             (case chs of None \<Rightarrow> Some None | Some (channels, off) \<Rightarrow> do {
                rs \<leftarrow> read_entries read_room ROOM_EXTRA_ENTRY_LEN blob off room_count
                        (replicate MAX_CONTACTS RoomExtra_EMPTY);
                Some (map_option (\<lambda>(room_extras, off).
                  config_of header contacts contact_count channels channel_count room_extras room_count) rs)
              })
           })
        }
      })"

definition deserialize_v2_migrate :: "bytes \<Rightarrow> ProvisionedConfig option rust" where
  "deserialize_v2_migrate blob =
     (if length blob < CFG_HEADER_LEN_V2 then Some None
      else do {
        b1 \<leftarrow> get_at blob 1;
        b2 \<leftarrow> get_at blob 2;
        let contact_count = unat b1;
        let channel_count = unat b2;
        if contact_count > MAX_CONTACTS \<or> channel_count > MAX_CHANNELS then Some None
        else if length blob < CFG_HEADER_LEN_V2 + contact_count * CONTACT_ENTRY_LEN_V2
                  + channel_count * CHANNEL_ENTRY_LEN then Some None
        else do {
          header \<leftarrow> parse_header blob;
          cs \<leftarrow> read_entries read_contact_v2 CONTACT_ENTRY_LEN_V2 blob CFG_HEADER_LEN_V2 contact_count
                  (replicate MAX_CONTACTS null_contact);
          (case cs of None \<Rightarrow> Some None | Some (contacts, off) \<Rightarrow> do {
             chs \<leftarrow> read_entries read_channel CHANNEL_ENTRY_LEN blob off channel_count
                      (replicate MAX_CHANNELS null_channel);
             Some (map_option (\<lambda>(channels, off).
               config_of header contacts contact_count channels channel_count
                 (replicate MAX_CONTACTS RoomExtra_EMPTY) 0) chs)
           })
        }
      })"

definition deserialize_config :: "bytes \<Rightarrow> ProvisionedConfig option rust" where
  "deserialize_config blob =
     (case get_opt blob 0 of
        None \<Rightarrow> Some None
      | Some v \<Rightarrow>
          if v = CFG_VERSION then deserialize_v3 blob
          else if v = CFG_VERSION_V2 then deserialize_v2_migrate blob
          else Some None)"

section \<open>Room requests\<close>

datatype AddRoomOutcome = ArAdded | ArUpdated | ArListFull | ArDecodeError

definition handle_add_room :: "ProvisionedConfig \<Rightarrow> bytes \<Rightarrow> (ProvisionedConfig \<times> AddRoomOutcome) rust" where
  "handle_add_room config payload = do {
     d \<leftarrow> decode_add_room payload;
     (case d of
        Inl _ \<Rightarrow> Some (config, ArDecodeError)
      | Inr add \<Rightarrow> do {
          let contact = \<lparr>ct_pubkey = ar_pubkey add, ct_telemetry_enable = False, ct_role = ROLE_CHAT,
                ct_display_name = ar_name add, ct_display_name_len = ar_name_len add\<rparr>;
          let extra = \<lparr>re_pubkey = ar_pubkey add, re_guest_password = ar_guest_password add,
                re_guest_password_len = ar_guest_password_len add, re_sync_since = 0, re_permissions = 0,
                re_out_path = zeros MAX_PATH_SIZE, re_out_path_len = 0\<rparr>;
          (config, r) \<leftarrow> upsert_room config contact extra;
          Some (config, case r of Inr UpAdded \<Rightarrow> ArAdded | Inr UpUpdated \<Rightarrow> ArUpdated | Inl _ \<Rightarrow> ArListFull)
        })
   }"

datatype DelRoomOutcome = DrRemoved | DrNotFound | DrDecodeError

definition handle_del_room :: "ProvisionedConfig \<Rightarrow> bytes \<Rightarrow> (ProvisionedConfig \<times> DelRoomOutcome) rust" where
  "handle_del_room config payload = do {
     d \<leftarrow> decode_del_room payload;
     (case d of
        Inl _ \<Rightarrow> Some (config, DrDecodeError)
      | Inr pubkey \<Rightarrow> do {
          (config, removed) \<leftarrow> remove_room config pubkey;
          Some (config, if removed then DrRemoved else DrNotFound)
        })
   }"

definition FRAME_RSP_ROOM :: u8 where
  "FRAME_RSP_ROOM = 0x8B"

definition FRAME_RSP_ROOMS_DONE :: u8 where
  "FRAME_RSP_ROOMS_DONE = 0x8C"

fun query_rooms_loop ::
    "Contact list \<Rightarrow> nat \<Rightarrow> RoomExtra list \<Rightarrow> (u8 \<times> bytes) list rust" where
  "query_rooms_loop cts i [] = Some [(FRAME_RSP_ROOMS_DONE, [])]"
| "query_rooms_loop cts i (r # rs) = do {
     name \<leftarrow> (case List.find (\<lambda>c. ct_pubkey c = re_pubkey r) cts of
        Some c \<Rightarrow> slice (ct_display_name c) 0 (min (unat (ct_display_name_len c)) (length (ct_display_name c)))
      | None \<Rightarrow> Some []);
     let out_path_len = min (min (unat (re_out_path_len r)) (length (re_out_path r))) MAX_ROOM_PATH_LEN;
     out_path \<leftarrow> slice (re_out_path r) 0 out_path_len;
     (pbuf, plen) \<leftarrow> encode_rsp_room (of_nat i) (re_pubkey r) (re_sync_since r) (re_permissions r) out_path name
                      (zeros (40 + MAX_ROOM_PATH_LEN + 32));
     payload \<leftarrow> slice pbuf 0 plen;
     rest \<leftarrow> query_rooms_loop cts (i + 1) rs;
     Some ((FRAME_RSP_ROOM, payload) # rest)
   }"

definition handle_query_rooms :: "ProvisionedConfig \<Rightarrow> (u8 \<times> bytes) list rust" where
  "handle_query_rooms config = do {
     rs \<leftarrow> slice (pc_room_extras config) 0 (unat (pc_room_count config));
     cts \<leftarrow> slice (pc_contacts config) 0 (unat (pc_contact_count config));
     query_rooms_loop cts 0 rs
   }"

end
