(* ===== verification/Hoare.thy ===== *)
theory Hoare
  imports Prelude
begin

text \<open>
  Weakest preconditions for computations that may panic: \<open>wlp\<close> is the partial one (whatever it
  returns satisfies the postcondition), \<open>wp\<close> the total one (it returns, and so does the result).  The
  collection \<open>wp_simps\<close> pushes both through the monad; an opaque call is closed by the specification of
  the callee with \<open>wlpD\<close> and \<open>wlpI\<close>, or with \<open>wpD\<close>.
\<close>

named_theorems wp_simps \<open>weakest preconditions of the monad operations\<close>

definition wlp :: "'a rust \<Rightarrow> ('a \<Rightarrow> bool) \<Rightarrow> bool" where
  "wlp m P \<longleftrightarrow> (\<forall>x. m = Some x \<longrightarrow> P x)"

definition wp :: "'a rust \<Rightarrow> ('a \<Rightarrow> bool) \<Rightarrow> bool" where
  "wp m P \<longleftrightarrow> (\<exists>x. m = Some x \<and> P x)"

lemma wlpI: "(\<And>x. m = Some x \<Longrightarrow> P x) \<Longrightarrow> wlp m P"
  by (simp add: wlp_def)

lemma wlpD: "wlp m P \<Longrightarrow> m = Some x \<Longrightarrow> P x"
  by (simp add: wlp_def)

lemma wlp_weaken: "wlp m P \<Longrightarrow> (\<And>x. P x \<Longrightarrow> Q x) \<Longrightarrow> wlp m Q"
  by (simp add: wlp_def)

lemma wpD: "wp m P \<Longrightarrow> (\<And>x. P x \<Longrightarrow> Q x) \<Longrightarrow> wp m Q"
  by (auto simp: wp_def)

lemma wpE: "wp m P \<Longrightarrow> (\<And>x. m = Some x \<Longrightarrow> P x \<Longrightarrow> R) \<Longrightarrow> R"
  by (auto simp: wp_def)

lemma wp_wlp: "wp m P \<Longrightarrow> wlp m P"
  by (auto simp: wp_def wlp_def)

lemma wlp_bind [wp_simps]: "wlp (m \<bind> f) P \<longleftrightarrow> (\<forall>x. m = Some x \<longrightarrow> wlp (f x) P)"
  by (auto simp: wlp_def bind_eq_Some_conv)

lemma wp_bind [wp_simps]: "wp (m \<bind> f) P = wp m (\<lambda>x. wp (f x) P)"
  by (auto simp: wp_def bind_eq_Some_conv)

lemma wlp_value [wp_simps]: "wlp (Some x) P = P x" "wlp None P"
  by (simp_all add: wlp_def)

lemma wp_value [wp_simps]: "wp (Some x) P = P x" "\<not> wp None P"
  by (simp_all add: wp_def)

lemma wp_slice [wp_simps]: "wp (slice xs a b) P \<longleftrightarrow> a \<le> b \<and> b \<le> length xs \<and> P (take (b - a) (drop a xs))"
  by (auto simp: wp_def slice_def)

lemma wp_slice_from [wp_simps]: "wp (slice_from xs a) P \<longleftrightarrow> a \<le> length xs \<and> P (drop a xs)"
  by (simp add: wp_def slice_from_def)

lemma wp_get_at [wp_simps]: "wp (get_at xs i) P \<longleftrightarrow> i < length xs \<and> P (xs ! i)"
  by (simp add: wp_def get_at_def)

lemma wp_set_at [wp_simps]: "wp (set_at xs i v) P \<longleftrightarrow> i < length xs \<and> P (xs[i := v])"
  by (simp add: wp_def set_at_def)

end
