(* ===== verification/Config_Blob.thy ===== *)
theory Config_Blob
  imports Config_Store Hoare
begin

text \<open>
  The stored form of the configuration: what \<open>serialize_config\<close> writes, that \<open>deserialize_config\<close> reads it
  back, that no blob makes it panic, and that a blob of the older version is migrated without loss.
\<close>

section \<open>Well-formed configurations\<close>

definition contact_ok :: "Contact \<Rightarrow> bool" where
  "contact_ok c \<longleftrightarrow> length (ct_pubkey c) = 32 \<and> length (ct_display_name c) = 32"

definition channel_ok :: "Channel \<Rightarrow> bool" where
  "channel_ok c \<longleftrightarrow> length (ch_secret c) = 32 \<and> length (ch_name c) = 32"

definition extra_ok :: "RoomExtra \<Rightarrow> bool" where
  "extra_ok r \<longleftrightarrow> length (re_pubkey r) = 32 \<and> length (re_guest_password r) = 16
     \<and> unat (re_guest_password_len r) \<le> 16 \<and> length (re_out_path r) = 64 \<and> unat (re_out_path_len r) \<le> 64"

abbreviation n_contacts :: "ProvisionedConfig \<Rightarrow> nat" where
  "n_contacts cfg \<equiv> unat (pc_contact_count cfg)"

abbreviation n_channels :: "ProvisionedConfig \<Rightarrow> nat" where
  "n_channels cfg \<equiv> unat (pc_channel_count cfg)"

abbreviation n_rooms :: "ProvisionedConfig \<Rightarrow> nat" where
  "n_rooms cfg \<equiv> unat (pc_room_count cfg)"

text \<open>The arrays have their lengths and the counts their bounds; the blob can hold such a configuration.\<close>

definition config_shape :: "ProvisionedConfig \<Rightarrow> bool" where
  "config_shape cfg \<longleftrightarrow>
     length (pc_contacts cfg) = 16 \<and> n_contacts cfg \<le> 16 \<and> (\<forall>c \<in> set (pc_contacts cfg). contact_ok c)
     \<and> length (pc_channels cfg) = 8 \<and> n_channels cfg \<le> 8 \<and> (\<forall>c \<in> set (pc_channels cfg). channel_ok c)
     \<and> length (pc_room_extras cfg) = 16 \<and> n_rooms cfg \<le> 16 \<and> (\<forall>r \<in> set (pc_room_extras cfg). extra_ok r)
     \<and> length (pc_pin cfg) = 16"

definition live_contacts :: "ProvisionedConfig \<Rightarrow> Contact list" where
  "live_contacts cfg = take (n_contacts cfg) (pc_contacts cfg)"

definition live_channels :: "ProvisionedConfig \<Rightarrow> Channel list" where
  "live_channels cfg = take (n_channels cfg) (pc_channels cfg)"

definition live_rooms :: "ProvisionedConfig \<Rightarrow> RoomExtra list" where
  "live_rooms cfg = take (n_rooms cfg) (pc_room_extras cfg)"

lemmas live_defs = live_contacts_def live_channels_def live_rooms_def

lemma length_live_entries:
  assumes "config_shape cfg"
  shows "length (live_contacts cfg) = n_contacts cfg" "length (live_channels cfg) = n_channels cfg"
    "length (live_rooms cfg) = n_rooms cfg"
  using assms by (simp_all add: live_defs config_shape_def)

lemma live_ok:
  assumes "config_shape cfg"
  shows "\<forall>c \<in> set (live_contacts cfg). contact_ok c" "\<forall>c \<in> set (live_channels cfg). channel_ok c"
    "\<forall>r \<in> set (live_rooms cfg). extra_ok r"
  using assms by (auto simp: live_defs config_shape_def dest: in_set_takeD)

lemmas config_consts = MAX_CONTACTS_def MAX_CHANNELS_def MAX_NAME_LEN_def MAX_PIN_LEN_def
  MAX_LOGIN_PASSWORD_LEN_def MAX_PATH_SIZE_def CFG_HEADER_LEN_def CFG_HEADER_LEN_V2_def CONTACT_ENTRY_LEN_def
  CONTACT_ENTRY_LEN_V2_def CHANNEL_ENTRY_LEN_def ROOM_EXTRA_ENTRY_LEN_def MAX_BLOB_LEN_def

section \<open>The layout\<close>

definition contact_bytes :: "Contact \<Rightarrow> bytes" where
  "contact_bytes c = ct_pubkey c @ [of_bool (ct_telemetry_enable c), ct_role c, ct_display_name_len c] @ ct_display_name c"

definition contact_bytes_v2 :: "Contact \<Rightarrow> bytes" where
  "contact_bytes_v2 c = ct_pubkey c @ [of_bool (ct_telemetry_enable c), ct_display_name_len c] @ ct_display_name c"

definition channel_bytes :: "Channel \<Rightarrow> bytes" where
  "channel_bytes c = ch_secret c @ [ch_key_len c, of_bool (ch_primary c), ch_name_len c] @ ch_name c"

definition extra_bytes :: "RoomExtra \<Rightarrow> bytes" where
  "extra_bytes r = re_pubkey r @ [re_guest_password_len r] @ re_guest_password r @ to_le32 (re_sync_since r)
     @ [re_permissions r, re_out_path_len r] @ re_out_path r"

definition config_head :: "u8 \<Rightarrow> ProvisionedConfig \<Rightarrow> bytes" where
  "config_head ver cfg =
     [ver, pc_contact_count cfg, pc_channel_count cfg, pc_lock_flags cfg, pc_pin_len cfg] @ pc_pin cfg
     @ [of_bool (nf_visual (pc_notif_defaults cfg)), of_bool (nf_audible (pc_notif_defaults cfg))]
     @ to_le32 (rp_freq_hz (pc_radio_preset cfg))
     @ [rp_bw_code (pc_radio_preset cfg), rp_sf (pc_radio_preset cfg), rp_cr (pc_radio_preset cfg),
        rp_tx_power_dbm (pc_radio_preset cfg)]"

definition config_bytes :: "ProvisionedConfig \<Rightarrow> bytes" where
  "config_bytes cfg = config_head CFG_VERSION cfg @ [pc_room_count cfg]
     @ concat (map contact_bytes (live_contacts cfg)) @ concat (map channel_bytes (live_channels cfg))
     @ concat (map extra_bytes (live_rooms cfg))"

definition config_bytes_v2 :: "ProvisionedConfig \<Rightarrow> bytes" where
  "config_bytes_v2 cfg = config_head CFG_VERSION_V2 cfg
     @ concat (map contact_bytes_v2 (live_contacts cfg)) @ concat (map channel_bytes (live_channels cfg))"

lemma length_blob_entry_bytes:
  "contact_ok c \<Longrightarrow> length (contact_bytes c) = 67" "contact_ok c \<Longrightarrow> length (contact_bytes_v2 c) = 66"
  "channel_ok d \<Longrightarrow> length (channel_bytes d) = 67" "extra_ok r \<Longrightarrow> length (extra_bytes r) = 119"
  by (simp_all add: contact_bytes_def contact_bytes_v2_def channel_bytes_def extra_bytes_def
      contact_ok_def channel_ok_def extra_ok_def)

lemma length_concat_fixed: "\<forall>x \<in> set xs. length (f x) = k \<Longrightarrow> length (concat (map f xs)) = length xs * k"
  by (induction xs) auto

lemma length_entries:
  assumes "config_shape cfg"
  shows "length (concat (map contact_bytes (live_contacts cfg))) = n_contacts cfg * 67"
    "length (concat (map contact_bytes_v2 (live_contacts cfg))) = n_contacts cfg * 66"
    "length (concat (map channel_bytes (live_channels cfg))) = n_channels cfg * 67"
    "length (concat (map extra_bytes (live_rooms cfg))) = n_rooms cfg * 119"
  using live_ok [OF assms] length_concat_fixed [of "live_contacts cfg" contact_bytes 67]
    length_concat_fixed [of "live_contacts cfg" contact_bytes_v2 66]
    length_concat_fixed [of "live_channels cfg" channel_bytes 67]
    length_concat_fixed [of "live_rooms cfg" extra_bytes 119]
  unfolding length_live_entries [OF assms] by (simp_all add: length_blob_entry_bytes del: length_concat)

lemma length_config_head: "length (pc_pin cfg) = 16 \<Longrightarrow> length (config_head v cfg) = 31"
  by (simp add: config_head_def)

section \<open>Writing\<close>

lemma write_contact_put:
  assumes "contact_ok c" "length p + 67 \<le> length out"
  shows "write_contact c (length p) (put p out) = Some (put (p @ contact_bytes c) out)"
  using assms by (simp add: write_contact_def contact_ok_def contact_bytes_def emit)

lemma write_channel_put:
  assumes "channel_ok c" "length p + 67 \<le> length out"
  shows "write_channel c (length p) (put p out) = Some (put (p @ channel_bytes c) out)"
  using assms by (simp add: write_channel_def channel_ok_def channel_bytes_def emit)

lemma write_room_put:
  assumes "extra_ok r" "length p + 119 \<le> length out"
  shows "write_room r (length p) (put p out) = Some (put (p @ extra_bytes r) out)"
  using assms by (simp add: write_room_def extra_ok_def extra_bytes_def MAX_LOGIN_PASSWORD_LEN_def Let_def emit)

lemma write_entries_put:
  assumes w: "\<And>x p. x \<in> set arr \<Longrightarrow> length p + len \<le> length out
      \<Longrightarrow> w x (length p) (put p out) = Some (put (p @ enc x) out) \<and> length (enc x) = len"
  shows "i + n \<le> length arr \<Longrightarrow> length p + n * len \<le> length out \<Longrightarrow>
    write_entries w len arr i n (length p) (put p out) =
      Some (put (p @ concat (map enc (take n (drop i arr)))) out, length p + n * len)"
proof (induction n arbitrary: i p)
  case 0
  then show ?case by simp
next
  case (Suc n)
  have x: "arr ! i \<in> set arr" and split: "drop i arr = arr ! i # drop (Suc i) arr"
    using Suc.prems by (simp_all add: Cons_nth_drop_Suc)
  have step: "w (arr ! i) (length p) (put p out) = Some (put (p @ enc (arr ! i)) out)"
    and len: "length (enc (arr ! i)) = len"
    using w [OF x, of p] Suc.prems by simp_all
  have "write_entries w len arr (Suc i) n (length (p @ enc (arr ! i))) (put (p @ enc (arr ! i)) out) =
      Some (put ((p @ enc (arr ! i)) @ concat (map enc (take n (drop (Suc i) arr)))) out,
        length (p @ enc (arr ! i)) + n * len)"
    using Suc.prems by (intro Suc.IH) (simp_all add: len)
  then show ?case
    using Suc.prems by (simp add: get_at_def step len split algebra_simps)
qed

lemma serialize_config_bytes:
  assumes cfg: "config_shape cfg" and room: "length (config_bytes cfg) \<le> length out"
  shows "serialize_config cfg out = Some (put (config_bytes cfg) out, length (config_bytes cfg))"
proof -
  define h where "h = config_head CFG_VERSION cfg @ [pc_room_count cfg]"
  have pin: "length (pc_pin cfg) = 16"
    using cfg by (simp add: config_shape_def)
  have h: "length h = 32"
    by (simp add: h_def length_config_head pin)
  let ?c = "concat (map contact_bytes (live_contacts cfg))"
  let ?d = "concat (map channel_bytes (live_channels cfg))"
  let ?r = "concat (map extra_bytes (live_rooms cfg))"
  have lens: "length ?c = n_contacts cfg * 67" "length ?d = n_channels cfg * 67" "length ?r = n_rooms cfg * 119"
    by (rule length_entries [OF cfg])+
  have bytes: "config_bytes cfg = h @ ?c @ ?d @ ?r"
    by (simp add: config_bytes_def h_def)
  have out: "32 + n_contacts cfg * 67 + n_channels cfg * 67 + n_rooms cfg * 119 \<le> length out"
    using room by (simp add: bytes lens h)
  have w: "write_entries write_contact 67 (pc_contacts cfg) 0 (n_contacts cfg) (length h) (put h out) =
      Some (put (h @ ?c) out, length h + n_contacts cfg * 67)"
    using cfg out h
    by (subst write_entries_put [where enc = contact_bytes])
      (auto simp: config_shape_def live_contacts_def write_contact_put length_blob_entry_bytes)
  have w2: "write_entries write_channel 67 (pc_channels cfg) 0 (n_channels cfg) (length (h @ ?c)) (put (h @ ?c) out) =
      Some (put ((h @ ?c) @ ?d) out, length (h @ ?c) + n_channels cfg * 67)"
    using cfg out h lens
    by (subst write_entries_put [where enc = channel_bytes])
      (auto simp: config_shape_def live_channels_def write_channel_put length_blob_entry_bytes)
  have w3: "write_entries write_room 119 (pc_room_extras cfg) 0 (n_rooms cfg) (length (h @ ?c @ ?d)) (put (h @ ?c @ ?d) out) =
      Some (put ((h @ ?c @ ?d) @ ?r) out, length (h @ ?c @ ?d) + n_rooms cfg * 119)"
    using cfg out h lens
    by (subst write_entries_put [where enc = extra_bytes])
      (auto simp: config_shape_def live_rooms_def write_room_put length_blob_entry_bytes)
  have "out \<noteq> []"
    using out by auto
  then have "serialize_config cfg out = do {
      (out, off) \<leftarrow> write_entries write_contact 67 (pc_contacts cfg) 0 (n_contacts cfg) (length h) (put h out);
      (out, off) \<leftarrow> write_entries write_channel 67 (pc_channels cfg) 0 (n_channels cfg) off out;
      write_entries write_room 119 (pc_room_extras cfg) 0 (n_rooms cfg) off out
    }"
    using out pin unfolding h
    by (simp add: serialize_config_def config_consts emit h_def config_head_def)
  also have "\<dots> = Some (put (h @ ?c @ ?d @ ?r) out, length (h @ ?c @ ?d @ ?r))"
    using w w2 w3 h lens by (simp add: add.assoc del: length_concat)
  finally show ?thesis
    by (simp only: bytes)
qed

section \<open>Reading back\<close>

lemma slice_at:
  assumes "drop off blob = xs @ post" "off \<le> length blob" "a \<le> b" "b \<le> length xs"
  shows "slice blob (off + a) (off + b) = Some (take (b - a) (drop a xs))"
proof -
  have "length blob = off + length xs + length post"
    using assms(1,2) by (metis add.assoc length_append length_drop le_add_diff_inverse)
  moreover have "drop (off + a) blob = drop a (xs @ post)"
    using assms(1) by (metis add.commute drop_drop)
  ultimately show ?thesis
    using assms(3,4) by (simp add: slice_def)
qed

lemma slice_at_start:
  assumes "drop off blob = xs @ post" "off \<le> length blob" "b \<le> length xs"
  shows "slice blob off (off + b) = Some (take b xs)"
  using slice_at [OF assms(1,2) le0 assms(3)] by simp

lemma get_at_at:
  assumes "drop off blob = xs @ post" "i < length xs"
  shows "get_at blob (off + i) = Some (xs ! i)"
proof -
  have "off + i < length blob"
    using assms by (metis add.commute length_append length_drop less_diff_conv trans_less_add1)
  then show ?thesis
    using assms by (simp add: get_at_def nth_append flip: nth_drop)
qed

lemma read_contact_at:
  assumes d: "drop off blob = contact_bytes c @ post" and off: "off \<le> length blob" and c: "contact_ok c"
  shows "read_contact blob off = Some (Some c)"
proof -
  have len: "length (contact_bytes c) = 67"
    by (rule length_blob_entry_bytes) (rule c)
  show ?thesis
    using c slice_at_start [OF d off, of 32] get_at_at [OF d, of 32] get_at_at [OF d, of 33]
      get_at_at [OF d, of 34] slice_at [OF d off, of 35 67] len
    by (simp add: read_contact_def CONTACT_ENTRY_LEN_def) (simp add: contact_bytes_def contact_ok_def nth_append)
qed

lemma read_contact_v2_at:
  assumes d: "drop off blob = contact_bytes_v2 c @ post" and off: "off \<le> length blob" and c: "contact_ok c"
  shows "read_contact_v2 blob off = Some (Some (c\<lparr>ct_role := ROLE_CHAT\<rparr>))"
proof -
  have len: "length (contact_bytes_v2 c) = 66"
    by (rule length_blob_entry_bytes) (rule c)
  show ?thesis
    using c slice_at_start [OF d off, of 32] get_at_at [OF d, of 32] get_at_at [OF d, of 33]
      slice_at [OF d off, of 34 66] len
    by (simp add: read_contact_v2_def CONTACT_ENTRY_LEN_V2_def)
      (simp add: contact_bytes_v2_def contact_ok_def nth_append)
qed

lemma read_channel_at:
  assumes d: "drop off blob = channel_bytes c @ post" and off: "off \<le> length blob" and c: "channel_ok c"
  shows "read_channel blob off = Some (Some c)"
proof -
  have len: "length (channel_bytes c) = 67"
    by (rule length_blob_entry_bytes) (rule c)
  show ?thesis
    using c slice_at_start [OF d off, of 32] get_at_at [OF d, of 32] get_at_at [OF d, of 33]
      get_at_at [OF d, of 34] slice_at [OF d off, of 35 67] len
    by (simp add: read_channel_def CHANNEL_ENTRY_LEN_def) (simp add: channel_bytes_def channel_ok_def nth_append)
qed

lemma read_room_at:
  assumes d: "drop off blob = extra_bytes r @ post" and off: "off \<le> length blob" and r: "extra_ok r"
  shows "read_room blob off = Some (Some r)"
proof -
  have len: "length (extra_bytes r) = 119"
    by (rule length_blob_entry_bytes) (rule r)
  have nf: "off + 33 + MAX_LOGIN_PASSWORD_LEN = off + 49" "off + 49 + 1 = off + 50" "off + 49 + 2 = off + 51"
    "off + 49 + 3 = off + 52" "off + 49 + 4 = off + 53" "off + 49 + 5 = off + 54" "off + 49 + 6 = off + 55"
    "off + 55 + MAX_PATH_SIZE = off + 119"
    by (simp_all add: MAX_LOGIN_PASSWORD_LEN_def MAX_PATH_SIZE_def)
  show ?thesis
    using r slice_at_start [OF d off, of 32] get_at_at [OF d, of 32] slice_at [OF d off, of 33 49]
      get_at_at [OF d, of 49] get_at_at [OF d, of 50] get_at_at [OF d, of 51] get_at_at [OF d, of 52]
      get_at_at [OF d, of 53] get_at_at [OF d, of 54] slice_at [OF d off, of 55 119] len
    unfolding read_room_def Let_def nf
    by (simp add: MAX_LOGIN_PASSWORD_LEN_def MAX_PATH_SIZE_def)
      (simp add: extra_bytes_def extra_ok_def nth_append to_le32_def from_to_le32 nth_Cons')
qed

text \<open>Reading a run of encoded entries into the front of an array.\<close>

lemma read_entries_run:
  assumes r: "\<And>x off post. x \<in> set xs \<Longrightarrow> drop off blob = enc x @ post \<Longrightarrow> off \<le> length blob
      \<Longrightarrow> r blob off = Some (Some (f x)) \<and> length (enc x) = len"
  shows "drop off blob = concat (map enc xs) @ post \<Longrightarrow> off \<le> length blob \<Longrightarrow> length xs \<le> length arr \<Longrightarrow>
    read_entries r len blob off (length xs) arr =
      Some (Some (map f xs @ drop (length xs) arr, off + length xs * len))"
  using r
proof (induction xs arbitrary: off arr)
  case Nil
  then show ?case by simp
next
  case (Cons x xs)
  obtain a arr' where arr: "arr = a # arr'"
    using Cons.prems(3) by (cases arr) auto
  have x: "r blob off = Some (Some (f x))" and len: "length (enc x) = len"
    using Cons.prems(4) [of x off "concat (map enc xs) @ post"] Cons.prems(1,2) by simp_all
  have "drop (off + len) blob = concat (map enc xs) @ post"
    using Cons.prems(1) len by (simp add: drop_drop [symmetric] add.commute)
  moreover have "off + len \<le> length blob"
    using Cons.prems(1,2) len by (metis (no_types, lifting) add_le_imp_le_diff le_add_diff_inverse
        le_add1 length_append length_drop list.simps(9) concat.simps(2) append_assoc nat_add_left_cancel_le)
  ultimately have "read_entries r len blob (off + len) (length xs) arr' =
      Some (Some (map f xs @ drop (length xs) arr', off + len + length xs * len))"
    using Cons.prems(3,4) arr by (intro Cons.IH) auto
  then show ?case
    by (simp add: arr x)
qed

text \<open>The configuration a reload yields: the same live entries, the slots behind them blank.\<close>

definition reloaded :: "ProvisionedConfig \<Rightarrow> ProvisionedConfig" where
  "reloaded cfg = cfg\<lparr>pc_contacts := live_contacts cfg @ replicate (16 - n_contacts cfg) null_contact,
     pc_channels := live_channels cfg @ replicate (8 - n_channels cfg) null_channel,
     pc_room_extras := live_rooms cfg @ replicate (16 - n_rooms cfg) RoomExtra_EMPTY\<rparr>"

definition migrated :: "ProvisionedConfig \<Rightarrow> ProvisionedConfig" where
  "migrated cfg = cfg\<lparr>
     pc_contacts := map (\<lambda>c. c\<lparr>ct_role := ROLE_CHAT\<rparr>) (live_contacts cfg) @ replicate (16 - n_contacts cfg) null_contact,
     pc_channels := live_channels cfg @ replicate (8 - n_channels cfg) null_channel,
     pc_room_extras := replicate 16 RoomExtra_EMPTY, pc_room_count := 0\<rparr>"

definition header_of_config :: "ProvisionedConfig \<Rightarrow> CfgHeader" where
  "header_of_config cfg = \<lparr>hd_lock_flags = pc_lock_flags cfg, hd_pin_len = pc_pin_len cfg, hd_pin = pc_pin cfg,
     hd_notif_visual = nf_visual (pc_notif_defaults cfg), hd_notif_audible = nf_audible (pc_notif_defaults cfg),
     hd_radio_preset = pc_radio_preset cfg\<rparr>"

lemma parse_header_at:
  assumes "length (pc_pin cfg) = 16"
  shows "parse_header (config_head v cfg @ rest) = Some (header_of_config cfg)"
  using assms by (simp add: parse_header_def header_of_config_def MAX_PIN_LEN_def config_head_def get_at_def slice_def
      nth_append nth_Cons' to_le32_def from_to_le32)

lemma config_of_header:
  "unat (pc_contact_count cfg) = nc \<Longrightarrow> unat (pc_channel_count cfg) = nd \<Longrightarrow>
   config_of (header_of_config cfg) cs nc chs nd rs nr =
     cfg\<lparr>pc_contacts := cs, pc_channels := chs, pc_room_extras := rs, pc_room_count := of_nat nr\<rparr>"
  by (cases cfg) (auto simp: config_of_def header_of_config_def)

text \<open>The three runs of a blob.\<close>

lemma read_live_contacts:
  assumes "config_shape cfg" "drop off blob = concat (map contact_bytes (live_contacts cfg)) @ post" "off \<le> length blob"
  shows "read_entries read_contact 67 blob off (n_contacts cfg) (replicate 16 null_contact) =
    Some (Some (live_contacts cfg @ replicate (16 - n_contacts cfg) null_contact, off + n_contacts cfg * 67))"
  using read_entries_run [of "live_contacts cfg" blob contact_bytes read_contact "\<lambda>c. c" 67 off post
      "replicate 16 null_contact"] assms live_ok(1) [OF assms(1)]
  by (auto simp: length_live_entries [OF assms(1)] read_contact_at length_blob_entry_bytes config_shape_def drop_replicate)

lemma read_live_contacts_v2:
  assumes "config_shape cfg" "drop off blob = concat (map contact_bytes_v2 (live_contacts cfg)) @ post"
    "off \<le> length blob"
  shows "read_entries read_contact_v2 66 blob off (n_contacts cfg) (replicate 16 null_contact) =
    Some (Some (map (\<lambda>c. c\<lparr>ct_role := ROLE_CHAT\<rparr>) (live_contacts cfg) @ replicate (16 - n_contacts cfg) null_contact,
      off + n_contacts cfg * 66))"
  using read_entries_run [of "live_contacts cfg" blob contact_bytes_v2 read_contact_v2 "\<lambda>c. c\<lparr>ct_role := ROLE_CHAT\<rparr>"
      66 off post "replicate 16 null_contact"] assms live_ok(1) [OF assms(1)]
  by (auto simp: length_live_entries [OF assms(1)] read_contact_v2_at length_blob_entry_bytes config_shape_def drop_replicate)

lemma read_live_channels:
  assumes "config_shape cfg" "drop off blob = concat (map channel_bytes (live_channels cfg)) @ post" "off \<le> length blob"
  shows "read_entries read_channel 67 blob off (n_channels cfg) (replicate 8 null_channel) =
    Some (Some (live_channels cfg @ replicate (8 - n_channels cfg) null_channel, off + n_channels cfg * 67))"
  using read_entries_run [of "live_channels cfg" blob channel_bytes read_channel "\<lambda>c. c" 67 off post
      "replicate 8 null_channel"] assms live_ok(2) [OF assms(1)]
  by (auto simp: length_live_entries [OF assms(1)] read_channel_at length_blob_entry_bytes config_shape_def drop_replicate)

lemma read_live_rooms:
  assumes "config_shape cfg" "drop off blob = concat (map extra_bytes (live_rooms cfg)) @ post" "off \<le> length blob"
  shows "read_entries read_room 119 blob off (n_rooms cfg) (replicate 16 RoomExtra_EMPTY) =
    Some (Some (live_rooms cfg @ replicate (16 - n_rooms cfg) RoomExtra_EMPTY, off + n_rooms cfg * 119))"
  using read_entries_run [of "live_rooms cfg" blob extra_bytes read_room "\<lambda>c. c" 119 off post
      "replicate 16 RoomExtra_EMPTY"] assms live_ok(3) [OF assms(1)]
  by (auto simp: length_live_entries [OF assms(1)] read_room_at length_blob_entry_bytes config_shape_def drop_replicate)

lemma deserialize_bytes:
  assumes cfg: "config_shape cfg" and rooms: "n_rooms cfg \<le> n_contacts cfg"
  shows "deserialize_config (config_bytes cfg) = Some (Some (reloaded cfg))"
proof -
  define head where "head = config_head CFG_VERSION cfg"
  define cb where "cb = concat (map contact_bytes (live_contacts cfg))"
  define db where "db = concat (map channel_bytes (live_channels cfg))"
  define rb where "rb = concat (map extra_bytes (live_rooms cfg))"
  define blob where "blob = head @ [pc_room_count cfg] @ cb @ db @ rb"
  have blob_eq: "config_bytes cfg = blob"
    by (simp add: config_bytes_def blob_def head_def cb_def db_def rb_def)
  have pin: "length (pc_pin cfg) = 16" and bounds: "n_contacts cfg \<le> 16" "n_channels cfg \<le> 8" "n_rooms cfg \<le> 16"
    using cfg by (simp_all add: config_shape_def)
  have head: "length head = 31"
    by (simp add: head_def length_config_head pin)
  have lens: "length cb = n_contacts cfg * 67" "length db = n_channels cfg * 67" "length rb = n_rooms cfg * 119"
    unfolding cb_def db_def rb_def by (rule length_entries [OF cfg])+
  have bytes: "get_at blob 1 = Some (pc_contact_count cfg)" "get_at blob 2 = Some (pc_channel_count cfg)"
    "get_opt blob 0 = Some CFG_VERSION" "get_at blob 31 = Some (pc_room_count cfg)"
    using head by (simp_all add: blob_def get_at_def get_opt_def nth_append) (simp_all add: head_def config_head_def)
  have "parse_header blob = Some (header_of_config cfg)"
    unfolding blob_def head_def by (rule parse_header_at) (rule pin)
  moreover have "length blob = 32 + n_contacts cfg * 67 + n_channels cfg * 67 + n_rooms cfg * 119"
    by (simp add: blob_def head lens)
  ultimately have "deserialize_v3 blob = Some (Some (config_of (header_of_config cfg)
      (live_contacts cfg @ replicate (16 - n_contacts cfg) null_contact) (n_contacts cfg)
      (live_channels cfg @ replicate (8 - n_channels cfg) null_channel) (n_channels cfg)
      (live_rooms cfg @ replicate (16 - n_rooms cfg) RoomExtra_EMPTY) (n_rooms cfg)))"
    using bytes rooms bounds read_live_contacts [OF cfg, of 32 blob "db @ rb"]
      read_live_channels [OF cfg, of "32 + n_contacts cfg * 67" blob rb]
      read_live_rooms [OF cfg, of "32 + n_contacts cfg * 67 + n_channels cfg * 67" blob "[]"]
    by (simp add: deserialize_v3_def config_consts Let_def head lens cb_def [symmetric] db_def [symmetric]
        rb_def [symmetric] blob_def)
  then show ?thesis
    using bytes(3) by (simp add: blob_eq deserialize_config_def config_of_header reloaded_def)
qed

lemma deserialize_bytes_v2:
  assumes cfg: "config_shape cfg"
  shows "deserialize_config (config_bytes_v2 cfg) = Some (Some (migrated cfg))"
proof -
  define head where "head = config_head CFG_VERSION_V2 cfg"
  define cb where "cb = concat (map contact_bytes_v2 (live_contacts cfg))"
  define db where "db = concat (map channel_bytes (live_channels cfg))"
  define blob where "blob = head @ cb @ db"
  have blob_eq: "config_bytes_v2 cfg = blob"
    by (simp add: config_bytes_v2_def blob_def head_def cb_def db_def)
  have pin: "length (pc_pin cfg) = 16" and bounds: "n_contacts cfg \<le> 16" "n_channels cfg \<le> 8"
    using cfg by (simp_all add: config_shape_def)
  have head: "length head = 31"
    by (simp add: head_def length_config_head pin)
  have lens: "length cb = n_contacts cfg * 66" "length db = n_channels cfg * 67"
    unfolding cb_def db_def by (rule length_entries [OF cfg])+
  have bytes: "get_at blob 1 = Some (pc_contact_count cfg)" "get_at blob 2 = Some (pc_channel_count cfg)"
    "get_opt blob 0 = Some CFG_VERSION_V2"
    using head by (simp_all add: blob_def get_at_def get_opt_def nth_append) (simp_all add: head_def config_head_def)
  have "parse_header blob = Some (header_of_config cfg)"
    unfolding blob_def head_def by (rule parse_header_at) (rule pin)
  moreover have "length blob = 31 + n_contacts cfg * 66 + n_channels cfg * 67"
    by (simp add: blob_def head lens)
  ultimately have "deserialize_v2_migrate blob = Some (Some (config_of (header_of_config cfg)
      (map (\<lambda>c. c\<lparr>ct_role := ROLE_CHAT\<rparr>) (live_contacts cfg) @ replicate (16 - n_contacts cfg) null_contact)
      (n_contacts cfg) (live_channels cfg @ replicate (8 - n_channels cfg) null_channel) (n_channels cfg)
      (replicate 16 RoomExtra_EMPTY) 0))"
    using bytes bounds read_live_contacts_v2 [OF cfg, of 31 blob db]
      read_live_channels [OF cfg, of "31 + n_contacts cfg * 66" blob "[]"]
    by (simp add: deserialize_v2_migrate_def config_consts Let_def head lens cb_def [symmetric] db_def [symmetric]
        blob_def)
  then show ?thesis
    using bytes(3) by (simp add: blob_eq deserialize_config_def config_of_header migrated_def
        CFG_VERSION_def CFG_VERSION_V2_def)
qed

section \<open>Any blob\<close>

lemma read_entries_total:
  assumes r: "\<And>off. off + len \<le> length blob \<Longrightarrow> wp (r blob off) (\<lambda>x. \<forall>y. x = Some y \<longrightarrow> P y)"
  shows "off + n * len \<le> length blob \<Longrightarrow> n \<le> length arr \<Longrightarrow> \<forall>x \<in> set arr. P x \<Longrightarrow>
    wp (read_entries r len blob off n arr)
      (\<lambda>x. \<forall>ys off'. x = Some (ys, off') \<longrightarrow> length ys = length arr \<and> (\<forall>y \<in> set ys. P y) \<and> off' = off + n * len)"
proof (induction n arbitrary: off arr)
  case 0
  then show ?case by (simp add: wp_simps)
next
  case (Suc n)
  obtain a arr' where arr: "arr = a # arr'"
    using Suc.prems(2) by (cases arr) auto
  have "wp (read_entries r len blob (off + len) n arr')
      (\<lambda>x. \<forall>ys off'. x = Some (ys, off') \<longrightarrow> length ys = length arr' \<and> (\<forall>y \<in> set ys. P y) \<and> off' = off + len + n * len)"
    using Suc.prems arr by (intro Suc.IH) auto
  then show ?case
    using r [of off] Suc.prems(1) unfolding arr wp_def
    by (auto split: option.splits)
qed

lemma wp_read_contact: "off + 67 \<le> length blob \<Longrightarrow> wp (read_contact blob off) (\<lambda>x. \<forall>y. x = Some y \<longrightarrow> contact_ok y)"
  by (simp add: read_contact_def CONTACT_ENTRY_LEN_def wp_simps contact_ok_def)

lemma wp_read_contact_v2:
  "off + 66 \<le> length blob \<Longrightarrow> wp (read_contact_v2 blob off) (\<lambda>x. \<forall>y. x = Some y \<longrightarrow> contact_ok y)"
  by (simp add: read_contact_v2_def CONTACT_ENTRY_LEN_V2_def wp_simps contact_ok_def)

lemma wp_read_channel: "off + 67 \<le> length blob \<Longrightarrow> wp (read_channel blob off) (\<lambda>x. \<forall>y. x = Some y \<longrightarrow> channel_ok y)"
  by (simp add: read_channel_def CHANNEL_ENTRY_LEN_def wp_simps channel_ok_def)

lemma wp_read_room: "off + 119 \<le> length blob \<Longrightarrow> wp (read_room blob off) (\<lambda>x. \<forall>y. x = Some y \<longrightarrow> extra_ok y)"
  by (simp add: read_room_def MAX_LOGIN_PASSWORD_LEN_def MAX_PATH_SIZE_def Let_def wp_simps extra_ok_def)

lemma wp_parse_header: "31 \<le> length blob \<Longrightarrow> wp (parse_header blob) (\<lambda>h. length (hd_pin h) = 16)"
  by (simp add: parse_header_def MAX_PIN_LEN_def wp_simps)

lemma null_ok: "contact_ok null_contact" "channel_ok null_channel" "extra_ok RoomExtra_EMPTY"
  by (simp_all add: null_contact_def null_channel_def RoomExtra_EMPTY_def contact_ok_def channel_ok_def
      extra_ok_def MAX_NAME_LEN_def MAX_LOGIN_PASSWORD_LEN_def MAX_PATH_SIZE_def)

lemma config_of_shape:
  assumes "length cs = 16" "\<forall>c \<in> set cs. contact_ok c" "nc \<le> 16" "length chs = 8" "\<forall>c \<in> set chs. channel_ok c"
    "nd \<le> 8" "length rs = 16" "\<forall>r \<in> set rs. extra_ok r" "nr \<le> nc" "length (hd_pin h) = 16"
  shows "config_shape (config_of h cs nc chs nd rs nr)
    \<and> n_rooms (config_of h cs nc chs nd rs nr) \<le> n_contacts (config_of h cs nc chs nd rs nr)"
  using assms by (simp add: config_shape_def config_of_def unat_of_nat take_bit_nat_eq_self)

definition section_read :: "('a list \<times> nat) option rust \<Rightarrow> nat \<Rightarrow> nat \<Rightarrow> ('a \<Rightarrow> bool) \<Rightarrow> bool" where
  "section_read m k off' P \<longleftrightarrow>
     m = Some None \<or> (\<exists>ys. m = Some (Some (ys, off')) \<and> length ys = k \<and> (\<forall>y \<in> set ys. P y))"

lemma section_readI:
  assumes "wp m (\<lambda>x. \<forall>ys off. x = Some (ys, off) \<longrightarrow> length ys = k \<and> (\<forall>y \<in> set ys. P y) \<and> off = off')"
  shows "section_read m k off' P"
proof -
  obtain x where m: "m = Some x"
    and x: "\<And>ys off. x = Some (ys, off) \<Longrightarrow> length ys = k \<and> (\<forall>y \<in> set ys. P y) \<and> off = off'"
    using assms by (auto simp: wp_def)
  show ?thesis
  proof (cases x)
    case (Some p)
    then show ?thesis
      using x [of "fst p" "snd p"] by (cases p) (simp add: m section_read_def)
  qed (simp add: m section_read_def)
qed

lemma section_total:
  assumes "\<And>off. off + len \<le> length blob \<Longrightarrow> wp (r blob off) (\<lambda>x. \<forall>y. x = Some y \<longrightarrow> P y)"
    and "off + n * len \<le> length blob" "n \<le> k" "P x"
  shows "section_read (read_entries r len blob off n (replicate k x)) k (off + n * len) P"
proof (rule section_readI, rule wpD)
  show "wp (read_entries r len blob off n (replicate k x)) (\<lambda>x'. \<forall>ys off'. x' = Some (ys, off') \<longrightarrow>
      length ys = length (replicate k x) \<and> (\<forall>y \<in> set ys. P y) \<and> off' = off + n * len)"
    by (rule read_entries_total) (use assms in simp_all)
qed simp

lemmas section_contacts = section_total [where r = read_contact and len = 67, OF wp_read_contact _ _ null_ok(1)]
lemmas section_contacts_v2 = section_total [where r = read_contact_v2 and len = 66, OF wp_read_contact_v2 _ _ null_ok(1)]
lemmas section_channels = section_total [where r = read_channel and len = 67, OF wp_read_channel _ _ null_ok(2)]
lemmas section_rooms = section_total [where r = read_room and len = 119, OF wp_read_room _ _ null_ok(3)]

definition config_result :: "ProvisionedConfig option rust \<Rightarrow> bool" where
  "config_result m \<longleftrightarrow> (\<exists>r. m = Some r \<and> (\<forall>cfg. r = Some cfg \<longrightarrow> config_shape cfg \<and> n_rooms cfg \<le> n_contacts cfg))"

lemma config_result_simps [simp]: "config_result (Some None)"
  "config_result (Some (Some cfg)) \<longleftrightarrow> config_shape cfg \<and> n_rooms cfg \<le> n_contacts cfg"
  by (simp_all add: config_result_def)

lemma deserialize_v3_result: "config_result (deserialize_v3 blob)"
proof (cases "32 \<le> length blob \<and> unat (blob ! 1) \<le> 16 \<and> unat (blob ! 2) \<le> 8 \<and> unat (blob ! 31) \<le> unat (blob ! 1)
    \<and> 32 + unat (blob ! 1) * 67 + unat (blob ! 2) * 67 + unat (blob ! 31) * 119 \<le> length blob")
  case False
  then show ?thesis
    by (auto simp: deserialize_v3_def config_consts Let_def get_at_def)
next
  case True
  define nc where "nc = unat (blob ! Suc 0)"
  define nd where "nd = unat (blob ! 2)"
  define nr where "nr = unat (blob ! 31)"
  have b: "nc \<le> 16" "nd \<le> 8" "nr \<le> nc" "32 + nc * 67 + nd * 67 + nr * 119 \<le> length blob"
    using True by (simp_all add: nc_def nd_def nr_def)
  obtain h where h: "parse_header blob = Some h" "length (hd_pin h) = 16"
    using wp_parse_header [of blob] True by (auto elim!: wpE)
  show ?thesis
    using True h section_contacts [of blob 32 nc 16] section_channels [of blob "32 + nc * 67" nd 8]
      section_rooms [of blob "32 + nc * 67 + nd * 67" nr 16] b
    unfolding section_read_def
    by (auto simp: deserialize_v3_def config_consts Let_def get_at_def config_of_shape nc_def [symmetric] nd_def [symmetric] nr_def [symmetric])
qed

lemma deserialize_v2_result: "config_result (deserialize_v2_migrate blob)"
proof (cases "31 \<le> length blob \<and> unat (blob ! 1) \<le> 16 \<and> unat (blob ! 2) \<le> 8
    \<and> 31 + unat (blob ! 1) * 66 + unat (blob ! 2) * 67 \<le> length blob")
  case False
  then show ?thesis
    by (auto simp: deserialize_v2_migrate_def config_consts Let_def get_at_def)
next
  case True
  define nc where "nc = unat (blob ! Suc 0)"
  define nd where "nd = unat (blob ! 2)"
  have b: "nc \<le> 16" "nd \<le> 8" "31 + nc * 66 + nd * 67 \<le> length blob"
    using True by (simp_all add: nc_def nd_def)
  obtain h where h: "parse_header blob = Some h" "length (hd_pin h) = 16"
    using wp_parse_header [of blob] True by (auto elim!: wpE)
  show ?thesis
    using True h section_contacts_v2 [of blob 31 nc 16] section_channels [of blob "31 + nc * 66" nd 8] b
    unfolding section_read_def
    by (auto simp: deserialize_v2_migrate_def config_consts Let_def get_at_def config_of_shape null_ok
        nc_def [symmetric] nd_def [symmetric])
qed

lemma deserialize_result: "config_result (deserialize_config blob)"
  using deserialize_v3_result [of blob] deserialize_v2_result [of blob]
  by (auto simp: deserialize_config_def split: option.split)

lemma blob_fits:
  assumes "config_shape cfg"
  shows "length (config_bytes cfg) \<le> MAX_BLOB_LEN"
  using assms length_entries [OF assms] length_config_head [of cfg CFG_VERSION]
  by (simp add: config_bytes_def config_shape_def config_consts del: length_concat)

lemma reloaded_live:
  assumes "config_shape cfg"
  shows "live_contacts (reloaded cfg) = live_contacts cfg" "live_channels (reloaded cfg) = live_channels cfg"
    "live_rooms (reloaded cfg) = live_rooms cfg"
    "reloaded cfg = cfg\<lparr>pc_contacts := pc_contacts (reloaded cfg), pc_channels := pc_channels (reloaded cfg),
       pc_room_extras := pc_room_extras (reloaded cfg)\<rparr>"
  using length_live_entries [OF assms] by (simp_all add: reloaded_def live_defs)

lemma save_then_load:
  assumes "config_shape cfg" "n_rooms cfg \<le> n_contacts cfg"
  shows "\<exists>out. serialize_config cfg (zeros MAX_BLOB_LEN) = Some (out, length (config_bytes cfg))
    \<and> deserialize_config (take (length (config_bytes cfg)) out) = Some (Some (reloaded cfg))"
  using assms blob_fits [OF assms(1)]
  by (simp add: serialize_config_bytes deserialize_bytes)

text \<open>What the next boot makes of a stored configuration: one with more rooms than contacts is refused.\<close>

definition next_boot :: "ProvisionedConfig \<Rightarrow> ProvisionedConfig option" where
  "next_boot c = (if n_rooms c \<le> n_contacts c then Some (reloaded c) else None)"

lemma config_bytes_next_boot:
  assumes "config_shape c"
  shows "deserialize_config (config_bytes c) = Some (next_boot c)"
proof (cases "n_rooms c \<le> n_contacts c")
  case False
  have head: "length (config_head CFG_VERSION c) = 31"
    using assms by (simp add: length_config_head config_shape_def)
  obtain rest where blob: "config_bytes c = config_head CFG_VERSION c @ [pc_room_count c] @ rest"
    by (simp add: config_bytes_def)
  have "get_at (config_bytes c) 1 = Some (pc_contact_count c)" "get_at (config_bytes c) 2 = Some (pc_channel_count c)"
    "get_opt (config_bytes c) 0 = Some CFG_VERSION" "get_at (config_bytes c) 31 = Some (pc_room_count c)"
    using head by (simp_all add: blob get_at_def get_opt_def nth_append) (simp_all add: config_head_def)
  then show ?thesis
    using False head by (simp add: deserialize_config_def deserialize_v3_def next_boot_def blob config_consts Let_def)
qed (simp add: next_boot_def deserialize_bytes assms)

section \<open>Properties\<close>

text \<open>C36: Saving a configuration whose arrays have their full lengths and whose counts are within them never panics
  and fits the reserved buffer; what is loaded back has the same settings, contacts, channels and rooms in the same
  order, unless there are more rooms than contacts: then, and only then, the loader refuses what was saved.\<close>

theorem config_blob_roundtrip:
  assumes "config_shape cfg"
  shows "\<exists>out n r. serialize_config cfg (zeros MAX_BLOB_LEN) = Some (out, n) \<and> n \<le> MAX_BLOB_LEN
    \<and> deserialize_config (take n out) = Some r
    \<and> (case r of
         None \<Rightarrow> n_contacts cfg < n_rooms cfg
       | Some cfg' \<Rightarrow> n_rooms cfg \<le> n_contacts cfg
           \<and> live_contacts cfg' = live_contacts cfg \<and> live_channels cfg' = live_channels cfg
           \<and> live_rooms cfg' = live_rooms cfg
           \<and> cfg' = cfg\<lparr>pc_contacts := pc_contacts cfg', pc_channels := pc_channels cfg', pc_room_extras := pc_room_extras cfg'\<rparr>)"
proof -
  have "take (length (config_bytes cfg)) (put (config_bytes cfg) (zeros MAX_BLOB_LEN)) = config_bytes cfg"
    by (simp add: put_def)
  then show ?thesis
    using serialize_config_bytes [OF assms, of "zeros MAX_BLOB_LEN"] blob_fits [OF assms] reloaded_live [OF assms]
      config_bytes_next_boot [OF assms]
    by (auto simp: next_boot_def)
qed

text \<open>A room server with its contact and one channel.\<close>

definition demo_room_contact :: Contact where
  "demo_room_contact = \<lparr>ct_pubkey = replicate 32 0x41, ct_telemetry_enable = True, ct_role = ROLE_ROOM,
     ct_display_name = replicate 32 0x42, ct_display_name_len = 3\<rparr>"

definition demo_channel :: Channel where
  "demo_channel = \<lparr>ch_secret = replicate 32 7, ch_key_len = 16, ch_primary = True, ch_name = replicate 32 0x43, ch_name_len = 2\<rparr>"

definition demo_extra :: RoomExtra where
  "demo_extra = RoomExtra_EMPTY\<lparr>re_pubkey := replicate 32 0x41, re_sync_since := 0x01020304\<rparr>"

definition demo_config :: ProvisionedConfig where
  "demo_config = ProvisionedConfig_empty\<lparr>pc_contacts := demo_room_contact # replicate 15 null_contact, pc_contact_count := 1,
     pc_channels := demo_channel # replicate 7 null_channel, pc_channel_count := 1,
     pc_room_extras := demo_extra # replicate 15 RoomExtra_EMPTY, pc_room_count := 1\<rparr>"

lemma demo_config_ok: "config_shape demo_config" "n_rooms demo_config \<le> n_contacts demo_config"
  by (simp_all add: config_shape_def demo_config_def ProvisionedConfig_empty_def null_ok MAX_PIN_LEN_def
      demo_room_contact_def demo_channel_def demo_extra_def contact_ok_def channel_ok_def extra_ok_def
      RoomExtra_EMPTY_def null_contact_def null_channel_def config_consts)

lemma config_blob_roundtrip_witness:
  "\<exists>out n cfg'. serialize_config demo_config (zeros MAX_BLOB_LEN) = Some (out, n)
    \<and> deserialize_config (take n out) = Some (Some cfg') \<and> live_rooms cfg' = [demo_extra]"
proof -
  have "live_rooms demo_config = [demo_extra]"
    by (simp add: live_defs demo_config_def)
  then show ?thesis
    using config_blob_roundtrip [OF demo_config_ok(1)] demo_config_ok(2) by (auto split: option.splits)
qed

text \<open>The length bytes of the names, which the boot slices the 32-byte names with.\<close>

definition names_ok :: "ProvisionedConfig \<Rightarrow> bool" where
  "names_ok cfg \<longleftrightarrow> (\<forall>c \<in> set (live_contacts cfg). unat (ct_display_name_len c) \<le> 32)
     \<and> (\<forall>c \<in> set (live_channels cfg). unat (ch_name_len c) \<le> 32)"

text \<open>A save and a load keep them, but the loader does not check them.\<close>

lemma reloaded_names: "config_shape cfg \<Longrightarrow> names_ok (reloaded cfg) = names_ok cfg"
  by (simp add: names_ok_def reloaded_live(1,2))

lemma long_names_load: "\<exists>blob cfg. deserialize_config blob = Some (Some cfg) \<and> \<not> names_ok cfg"
proof -
  define cfg where "cfg = demo_config\<lparr>pc_contacts := demo_room_contact\<lparr>ct_display_name_len := 200\<rparr> # replicate 15 null_contact\<rparr>"
  have shape: "config_shape cfg" "n_rooms cfg \<le> n_contacts cfg"
    using demo_config_ok by (simp_all add: config_shape_def cfg_def demo_config_def contact_ok_def)
  have "\<not> names_ok cfg"
    by (simp add: names_ok_def live_defs cfg_def demo_config_def)
  then show ?thesis
    using deserialize_bytes [OF shape] reloaded_names [OF shape(1)] by blast
qed

text \<open>C37: No stored blob makes the loader panic, whatever its length and content.  A configuration it accepts has
  its arrays in their full lengths with keys and fields of their sizes, counts within the arrays and no more rooms than
  contacts, and it can be saved and loaded again.  (The length bytes of the names are taken as stored.)\<close>

theorem config_blob_any:
  "\<exists>r. deserialize_config blob = Some r \<and>
     (case r of
        None \<Rightarrow> True
      | Some cfg \<Rightarrow> config_shape cfg \<and> n_rooms cfg \<le> n_contacts cfg
          \<and> (\<exists>out n. serialize_config cfg (zeros MAX_BLOB_LEN) = Some (out, n)
                \<and> deserialize_config (take n out) = Some (Some (reloaded cfg))))"
proof -
  obtain r where r: "deserialize_config blob = Some r"
    and ok: "\<And>cfg. r = Some cfg \<Longrightarrow> config_shape cfg \<and> n_rooms cfg \<le> n_contacts cfg"
    using deserialize_result [of blob] by (auto simp: config_result_def)
  show ?thesis
  proof (cases r)
    case (Some cfg)
    then show ?thesis
      using r ok [of cfg] save_then_load [of cfg] by auto
  qed (use r in simp)
qed

text \<open>A blob of the format before room servers loads with every contact and channel it holds, the
  contacts as chat contacts and no rooms, and the next save writes it in the current format.\<close>

theorem config_v2_migrates:
  assumes "config_shape cfg"
  shows "\<exists>cfg' out n. deserialize_config (config_bytes_v2 cfg) = Some (Some cfg')
    \<and> live_contacts cfg' = map (\<lambda>c. c\<lparr>ct_role := ROLE_CHAT\<rparr>) (live_contacts cfg)
    \<and> live_channels cfg' = live_channels cfg \<and> live_rooms cfg' = []
    \<and> serialize_config cfg' (zeros MAX_BLOB_LEN) = Some (out, n) \<and> take 1 out = [CFG_VERSION]
    \<and> deserialize_config (take n out) = Some (Some (reloaded cfg'))"
proof -
  have cfg': "deserialize_config (config_bytes_v2 cfg) = Some (Some (migrated cfg))"
    by (rule deserialize_bytes_v2 [OF assms])
  then have ok: "config_shape (migrated cfg)" "n_rooms (migrated cfg) \<le> n_contacts (migrated cfg)"
    using deserialize_result [of "config_bytes_v2 cfg"] by (simp_all add: config_result_def)
  obtain out where out: "serialize_config (migrated cfg) (zeros MAX_BLOB_LEN) = Some (out, length (config_bytes (migrated cfg)))"
    "deserialize_config (take (length (config_bytes (migrated cfg))) out) = Some (Some (reloaded (migrated cfg)))"
    using save_then_load [OF ok] by blast
  have "take 1 out = [CFG_VERSION]"
    using out(1) serialize_config_bytes [OF ok(1), of "zeros MAX_BLOB_LEN"] blob_fits [OF ok(1)]
    by (simp add: put_def config_bytes_def config_head_def)
  moreover have "live_contacts (migrated cfg) = map (\<lambda>c. c\<lparr>ct_role := ROLE_CHAT\<rparr>) (live_contacts cfg)"
    "live_channels (migrated cfg) = live_channels cfg" "live_rooms (migrated cfg) = []"
    using length_live_entries [OF assms] by (simp_all add: migrated_def live_defs)
  ultimately show ?thesis
    using cfg' out by blast
qed

lemma config_v2_migrates_witness:
  "\<exists>cfg'. deserialize_config (config_bytes_v2 demo_config) = Some (Some cfg')
    \<and> live_contacts cfg' = [demo_room_contact\<lparr>ct_role := ROLE_CHAT\<rparr>]"
proof -
  have "live_contacts demo_config = [demo_room_contact]"
    by (simp add: live_defs demo_config_def)
  then show ?thesis
    using config_v2_migrates [OF demo_config_ok(1)] by auto
qed

end
