(* ===== verification/Stores.thy ===== *)
theory Stores
  imports Effects Config_Blob Region_Scope Inbound Identity
begin

text \<open>
  The stores of the firmware on NVS: \<open>firmware/src/config_store.rs\<close>, \<open>advert_ts_store.rs\<close>, \<open>region_store.rs\<close>,
  \<open>identity_store.rs\<close>, \<open>lock_store.rs\<close>, \<open>runtime_settings_store.rs\<close>, \<open>room_session.rs\<close>,
  \<open>inbound_replay_store.rs\<close> and \<open>gps_baud_store.rs\<close>.

  A store is the pair of a namespace and its keys.  A read takes the NVS state, a write returns it; an operation
  that only logs its failure returns the state alone.
\<close>

section \<open>The provisioned configuration\<close>

definition NS_CFG :: string where
  "NS_CFG = ''mc_cfg''"

definition NVS_KEY_PROV_FLAG :: bytes where
  "NVS_KEY_PROV_FLAG = ascii ''prov''"

definition NVS_KEY_CFG_BLOB :: bytes where
  "NVS_KEY_CFG_BLOB = ascii ''cfg_blob''"

definition is_provisioned :: "'s nvs_prims \<Rightarrow> 's \<Rightarrow> unit + bool" where
  "is_provisioned N s =
     (if \<not> nvs_open N s NS_CFG then Inl ()
      else case get_u8 N s NS_CFG NVS_KEY_PROV_FLAG of
        Inl e \<Rightarrow> Inl e
      | Inr v \<Rightarrow> Inr (case v of None \<Rightarrow> False | Some v \<Rightarrow> v = 1))"

definition load_provisioned_config :: "'s nvs_prims \<Rightarrow> 's \<Rightarrow> (unit + ProvisionedConfig option) rust" where
  "load_provisioned_config N s =
     (if \<not> nvs_open N s NS_CFG then Some (Inl ())
      else case get_u8 N s NS_CFG NVS_KEY_PROV_FLAG of
        Inl e \<Rightarrow> Some (Inl e)
      | Inr v \<Rightarrow>
          if (case v of None \<Rightarrow> True | Some v \<Rightarrow> v \<noteq> 1) then Some (Inr None)
          else (case get_blob N s NS_CFG NVS_KEY_CFG_BLOB MAX_BLOB_LEN of
            Inl e \<Rightarrow> Some (Inl e)
          | Inr None \<Rightarrow> Some (Inr None)
          | Inr (Some blob) \<Rightarrow>
              if blob \<noteq> [] \<and> (blob ! 0 = CFG_VERSION \<or> blob ! 0 = CFG_VERSION_V2) then do {
                cfg \<leftarrow> deserialize_config blob;
                Some (Inr cfg)
              } else Some (Inr None)))"

definition save_provisioned_config :: "'s nvs_prims \<Rightarrow> ProvisionedConfig \<Rightarrow> 's \<Rightarrow> (unit, unit, 's) outcome" where
  "save_provisioned_config N config s =
     and_then (nvs_open_ns N NS_CFG s) (\<lambda>_ s. do {
       (blob, blob_len) \<leftarrow> serialize_config config (zeros MAX_BLOB_LEN);
       b \<leftarrow> slice blob 0 blob_len;
       and_then (nvs_set N NS_CFG NVS_KEY_CFG_BLOB (NvBlob b) s) (\<lambda>_ s.
         nvs_set N NS_CFG NVS_KEY_PROV_FLAG (NvU8 1) s)
     })"

definition clear_provisioned_flag :: "'s nvs_prims \<Rightarrow> 's \<Rightarrow> (unit, unit, 's) outcome" where
  "clear_provisioned_flag N s =
     and_then (nvs_open_ns N NS_CFG s) (\<lambda>_ s. nvs_set N NS_CFG NVS_KEY_PROV_FLAG (NvU8 0) s)"

section \<open>The timestamp of the last self-advert\<close>

definition NS_ADV :: string where
  "NS_ADV = ''mc_adv''"

definition NVS_KEY_TS :: bytes where
  "NVS_KEY_TS = ascii ''ts''"

definition load_last_advert_ts :: "'s nvs_prims \<Rightarrow> 's \<Rightarrow> u32" where
  "load_last_advert_ts N s =
     (if \<not> nvs_open N s NS_ADV then 0
      else case get_u32 N s NS_ADV NVS_KEY_TS of Inr (Some v) \<Rightarrow> v | _ \<Rightarrow> 0)"

text \<open>A write whose failure is only logged.\<close>

definition ignored :: "(unit, 'a, 's) outcome \<Rightarrow> 's rust" where
  "ignored m = map_option snd m"

definition save_last_advert_ts :: "'s nvs_prims \<Rightarrow> u32 \<Rightarrow> 's \<Rightarrow> 's rust" where
  "save_last_advert_ts N ts s =
     ignored (and_then (nvs_open_ns N NS_ADV s) (\<lambda>_. nvs_set N NS_ADV NVS_KEY_TS (NvU32 ts)))"

section \<open>The region\<close>

definition NS_REGION :: string where
  "NS_REGION = ''mc_region''"

definition NVS_KEY_REGION_NAME :: bytes where
  "NVS_KEY_REGION_NAME = ascii ''name''"

text \<open>The caller's zeroed buffer after \<open>get_blob\<close>, and the length read.\<close>

definition filled :: "nat \<Rightarrow> bytes option \<Rightarrow> bytes \<times> u8" where
  "filled n b = (case b of None \<Rightarrow> (zeros n, 0) | Some bs \<Rightarrow> (bs @ zeros (n - length bs), of_nat (length bs)))"

definition region_load_name :: "'s nvs_prims \<Rightarrow> 's \<Rightarrow> unit + bytes \<times> u8" where
  "region_load_name N s =
     (if \<not> nvs_open N s NS_REGION then Inl ()
      else map_sum id (filled REGION_NAME_MAX) (get_blob N s NS_REGION NVS_KEY_REGION_NAME REGION_NAME_MAX))"

definition region_save :: "'s nvs_prims \<Rightarrow> bytes \<Rightarrow> u8 \<Rightarrow> 's \<Rightarrow> (unit, unit, 's) outcome" where
  "region_save N name name_len s =
     and_then (nvs_open_ns N NS_REGION s) (\<lambda>_ s.
       let n = min (unat name_len) REGION_NAME_MAX in
       if n = 0 then and_then (nvs_erase N NS_REGION NVS_KEY_REGION_NAME s) (\<lambda>_ s. Some (Inr (), s))
       else do {
         b \<leftarrow> slice name 0 n;
         nvs_set N NS_REGION NVS_KEY_REGION_NAME (NvBlob b) s
       })"

definition region_load_scope :: "crypto_prims \<Rightarrow> 's nvs_prims \<Rightarrow> 's \<Rightarrow> RegionScope rust" where
  "region_load_scope C N s =
     (case region_load_name N s of
        Inr (name, name_len) \<Rightarrow> do {
          b \<leftarrow> slice name 0 (min (unat name_len) REGION_NAME_MAX);
          boot_scope C (Some b)
        }
      | Inl _ \<Rightarrow> boot_scope C None)"

section \<open>The identity and the device name\<close>

definition NS_ID :: string where
  "NS_ID = ''mc_id''"

definition NVS_KEY_SEED :: bytes where
  "NVS_KEY_SEED = ascii ''seed''"

definition NVS_KEY_NAME :: bytes where
  "NVS_KEY_NAME = ascii ''name''"

text \<open>\<open>rng_seed\<close> is what \<open>Identity::generate\<close> draws.\<close>

definition generate_and_persist :: "curve_prims \<Rightarrow> 's nvs_prims \<Rightarrow> bytes \<Rightarrow> 's \<Rightarrow> (unit, Identity, 's) outcome" where
  "generate_and_persist K N rng_seed s =
     (let i = from_seed K rng_seed in
      and_then (nvs_set N NS_ID NVS_KEY_SEED (NvBlob (id_seed i)) s) (\<lambda>_ s. Some (Inr i, s)))"

definition load_or_generate :: "curve_prims \<Rightarrow> 's nvs_prims \<Rightarrow> bytes \<Rightarrow> 's \<Rightarrow> (unit, Identity, 's) outcome" where
  "load_or_generate K N rng_seed s =
     and_then (nvs_open_ns N NS_ID s) (\<lambda>_ s.
       case get_blob N s NS_ID NVS_KEY_SEED 32 of
         Inl e \<Rightarrow> Some (Inl e, s)
       | Inr (Some b) \<Rightarrow> if length b = 32 then Some (Inr (from_seed K b), s) else generate_and_persist K N rng_seed s
       | Inr None \<Rightarrow> generate_and_persist K N rng_seed s)"

definition identity_load_name :: "'s nvs_prims \<Rightarrow> 's \<Rightarrow> unit + bytes \<times> u8" where
  "identity_load_name N s =
     (if \<not> nvs_open N s NS_ID then Inl ()
      else map_sum id (filled MAX_NAME_LEN) (get_blob N s NS_ID NVS_KEY_NAME MAX_NAME_LEN))"

definition identity_set_name :: "'s nvs_prims \<Rightarrow> bytes \<Rightarrow> 's \<Rightarrow> (unit, unit, 's) outcome" where
  "identity_set_name N name s =
     and_then (nvs_open_ns N NS_ID s) (\<lambda>_ s. do {
       b \<leftarrow> slice name 0 (min (length name) MAX_NAME_LEN);
       nvs_set N NS_ID NVS_KEY_NAME (NvBlob b) s
     })"

section \<open>The lock PIN and the runtime settings\<close>

definition NS_LOCK :: string where
  "NS_LOCK = ''mc_lock''"

definition NVS_KEY_LOCK_BLOB :: bytes where
  "NVS_KEY_LOCK_BLOB = ascii ''lock_blob''"

definition lock_load :: "'s nvs_prims \<Rightarrow> 's \<Rightarrow> (bytes \<times> u8) rust" where
  "lock_load N s =
     (let unset = (zeros LOCK_PIN_LEN, 0) in
      if \<not> nvs_open N s NS_LOCK then Some unset
      else case get_blob N s NS_LOCK NVS_KEY_LOCK_BLOB LOCK_BLOB_LEN of
        Inr (Some b) \<Rightarrow> do {
          r \<leftarrow> lock_deserialize b;
          Some (case r of Some p \<Rightarrow> p | None \<Rightarrow> unset)
        }
      | _ \<Rightarrow> Some unset)"

definition lock_save :: "'s nvs_prims \<Rightarrow> bytes \<Rightarrow> u8 \<Rightarrow> 's \<Rightarrow> (unit, unit, 's) outcome" where
  "lock_save N pin pin_len s =
     and_then (nvs_open_ns N NS_LOCK s) (\<lambda>_ s. do {
       (blob, n) \<leftarrow> lock_serialize pin pin_len (zeros LOCK_BLOB_LEN);
       b \<leftarrow> slice blob 0 n;
       nvs_set N NS_LOCK NVS_KEY_LOCK_BLOB (NvBlob b) s
     })"

definition NS_RTS :: string where
  "NS_RTS = ''mc_rts''"

definition NVS_KEY_RTS_BLOB :: bytes where
  "NVS_KEY_RTS_BLOB = ascii ''rts_blob''"

definition rts_load :: "'s nvs_prims \<Rightarrow> 's \<Rightarrow> bool \<times> bool \<Rightarrow> (unit + RuntimeSettings) rust" where
  "rts_load N s notif_defaults =
     (if \<not> nvs_open N s NS_RTS then Some (Inl ())
      else case get_blob N s NS_RTS NVS_KEY_RTS_BLOB RTS_BLOB_LEN of
        Inl e \<Rightarrow> Some (Inl e)
      | Inr (Some b) \<Rightarrow> do {
          r \<leftarrow> rts_deserialize b;
          Some (Inr (case r of Some x \<Rightarrow> x | None \<Rightarrow> fallback_settings notif_defaults))
        }
      | Inr None \<Rightarrow> Some (Inr (fallback_settings notif_defaults)))"

definition rts_save :: "'s nvs_prims \<Rightarrow> RuntimeSettings \<Rightarrow> 's \<Rightarrow> (unit, unit, 's) outcome" where
  "rts_save N settings s =
     and_then (nvs_open_ns N NS_RTS s) (\<lambda>_ s. do {
       (blob, n) \<leftarrow> rts_serialize settings (zeros RTS_BLOB_LEN);
       b \<leftarrow> slice blob 0 n;
       nvs_set N NS_RTS NVS_KEY_RTS_BLOB (NvBlob b) s
     })"

section \<open>Room sessions and replay states, one key for each hash byte\<close>

definition HEX :: bytes where
  "HEX = ascii ''0123456789abcdef''"

definition hash_key :: "char \<Rightarrow> u8 \<Rightarrow> bytes" where
  "hash_key c h = [of_nat (of_char c), HEX ! unat (drop_bit 4 h), HEX ! unat (h AND 0x0F)]"

definition NS_ROOM :: string where
  "NS_ROOM = ''mc_room''"

definition room_key :: "u8 \<Rightarrow> bytes" where
  "room_key h = hash_key CHR ''r'' h"

definition room_epoch_key :: "u8 \<Rightarrow> bytes" where
  "room_epoch_key h = hash_key CHR ''x'' h"

definition load_room_epoch :: "'s nvs_prims \<Rightarrow> 's \<Rightarrow> u8 \<Rightarrow> u8" where
  "load_room_epoch N s h =
     (if \<not> nvs_open N s NS_ROOM then 0
      else case get_u8 N s NS_ROOM (room_epoch_key h) of Inr (Some v) \<Rightarrow> v | _ \<Rightarrow> 0)"

definition nvs_load_room_session :: "'s nvs_prims \<Rightarrow> 's \<Rightarrow> u8 \<Rightarrow> PersistedRoomSession option rust" where
  "nvs_load_room_session N s h =
     (if \<not> nvs_open N s NS_ROOM then Some None
      else case get_blob N s NS_ROOM (room_key h) PERSISTED_ROOM_SESSION_LEN of
        Inr (Some b) \<Rightarrow> decode_persisted_room_session b
      | _ \<Rightarrow> Some None)"

definition nvs_save_room_session ::
    "'s nvs_prims \<Rightarrow> u8 \<Rightarrow> u8 \<Rightarrow> PersistedRoomSession \<Rightarrow> 's \<Rightarrow> 's rust" where
  "nvs_save_room_session N h remembered_epoch state s =
     (if \<not> nvs_open N s NS_ROOM then Some s
      else case get_u8 N s NS_ROOM (room_epoch_key h) of
        Inl _ \<Rightarrow> Some s
      | Inr v \<Rightarrow>
          if \<not> room_session_persist_is_current remembered_epoch (case v of None \<Rightarrow> 0 | Some e \<Rightarrow> e) then Some s
          else do {
            (blob, n) \<leftarrow> encode_persisted_room_session state (zeros PERSISTED_ROOM_SESSION_LEN);
            b \<leftarrow> slice blob 0 n;
            ignored (nvs_set N NS_ROOM (room_key h) (NvBlob b) s)
          })"

definition delete_room_session :: "'s nvs_prims \<Rightarrow> u8 \<Rightarrow> 's \<Rightarrow> 's rust" where
  "delete_room_session N h s =
     (if \<not> nvs_open N s NS_ROOM then Some s
      else do {
        s \<leftarrow> ignored (nvs_erase N NS_ROOM (room_key h) s);
        let current_epoch = (case get_u8 N s NS_ROOM (room_epoch_key h) of Inr (Some v) \<Rightarrow> v | _ \<Rightarrow> 0);
        ignored (nvs_set N NS_ROOM (room_epoch_key h) (NvU8 (next_room_session_epoch current_epoch)) s)
      })"

definition NS_RPL :: string where
  "NS_RPL = ''mc_rpl''"

definition replay_key :: "u8 \<Rightarrow> bytes" where
  "replay_key h = hash_key CHR ''p'' h"

definition nvs_load_inbound_replay_state :: "'s nvs_prims \<Rightarrow> 's \<Rightarrow> u8 \<Rightarrow> InboundReplayState rust" where
  "nvs_load_inbound_replay_state N s h =
     (if \<not> nvs_open N s NS_RPL then Some InboundReplayState_EMPTY
      else case get_blob N s NS_RPL (replay_key h) INBOUND_REPLAY_STATE_LEN of
        Inr (Some b) \<Rightarrow> do {
          r \<leftarrow> decode_inbound_replay_state b;
          Some (case r of Some st \<Rightarrow> st | None \<Rightarrow> InboundReplayState_EMPTY)
        }
      | _ \<Rightarrow> Some InboundReplayState_EMPTY)"

definition nvs_save_inbound_replay_state :: "'s nvs_prims \<Rightarrow> u8 \<Rightarrow> InboundReplayState \<Rightarrow> 's \<Rightarrow> 's rust" where
  "nvs_save_inbound_replay_state N h state s =
     (if \<not> nvs_open N s NS_RPL then Some s
      else do {
        (blob, n) \<leftarrow> encode_inbound_replay_state state (zeros INBOUND_REPLAY_STATE_LEN);
        b \<leftarrow> slice blob 0 n;
        ignored (nvs_set N NS_RPL (replay_key h) (NvBlob b) s)
      })"

definition delete_inbound_replay_state :: "'s nvs_prims \<Rightarrow> u8 \<Rightarrow> 's \<Rightarrow> 's rust" where
  "delete_inbound_replay_state N h s =
     (if \<not> nvs_open N s NS_RPL then Some s else ignored (nvs_erase N NS_RPL (replay_key h) s))"

section \<open>The baud rate of the GPS\<close>

definition NS_GPS :: string where
  "NS_GPS = ''mc_gps''"

definition NVS_KEY_BAUD :: bytes where
  "NVS_KEY_BAUD = ascii ''baud''"

definition load_cached_baud :: "'s nvs_prims \<Rightarrow> 's \<Rightarrow> u32 option" where
  "load_cached_baud N s =
     (if \<not> nvs_open N s NS_GPS then None
      else case get_u32 N s NS_GPS NVS_KEY_BAUD of Inr v \<Rightarrow> v | Inl _ \<Rightarrow> None)"

definition save_cached_baud :: "'s nvs_prims \<Rightarrow> u32 \<Rightarrow> 's \<Rightarrow> 's rust" where
  "save_cached_baud N baud s =
     ignored (and_then (nvs_open_ns N NS_GPS s) (\<lambda>_. nvs_set N NS_GPS NVS_KEY_BAUD (NvU32 baud)))"

section \<open>What a load yields\<close>

lemma room_keys_distinct [simp]: "room_key h \<noteq> room_epoch_key h'" "room_epoch_key h \<noteq> room_key h'"
  by (simp_all add: room_key_def room_epoch_key_def hash_key_def)

text \<open>The configuration NVS holds: the flag set and a blob of a known version that decodes.\<close>

definition stored_config :: "'s nvs_prims \<Rightarrow> 's \<Rightarrow> ProvisionedConfig option rust" where
  "stored_config N s =
     (case nvs_at N s (NS_CFG, NVS_KEY_PROV_FLAG) of
        Some (NvU8 v) \<Rightarrow>
          (case nvs_at N s (NS_CFG, NVS_KEY_CFG_BLOB) of
             Some (NvBlob b) \<Rightarrow>
               if v = 1 \<and> length b \<le> MAX_BLOB_LEN then deserialize_config b else Some None
           | _ \<Rightarrow> Some None)
      | _ \<Rightarrow> Some None)"

lemma deserialize_other_version:
  "\<not> (b \<noteq> [] \<and> (b ! 0 = CFG_VERSION \<or> b ! 0 = CFG_VERSION_V2)) \<Longrightarrow> deserialize_config b = Some None"
  by (auto simp: deserialize_config_def get_opt_def)

lemma nvs_read_cases:
  assumes "nvs_ok N"
  obtains "nvs_read N s k = Inl ()" | "nvs_read N s k = Inr (nvs_at N s k)"
  using assms by (metis nvs_ok_def)

lemma load_is_stored:
  assumes "nvs_ok N"
  shows "load_provisioned_config N s = Some (Inl ()) \<or> load_provisioned_config N s = map_option Inr (stored_config N s)"
proof (cases "nvs_open N s NS_CFG")
  case True
  show ?thesis
    by (rule nvs_read_cases [OF assms, of s "(NS_CFG, NVS_KEY_PROV_FLAG)"];
        rule nvs_read_cases [OF assms, of s "(NS_CFG, NVS_KEY_CFG_BLOB)"])
      (auto simp: load_provisioned_config_def True get_u8_def get_blob_def stored_config_def deserialize_other_version
        bind_eq_Some_conv map_option_case split: option.splits NvsVal.splits sum.splits bind_splits)
qed (simp add: load_provisioned_config_def)

lemma stored_config_cong:
  assumes "nvs_at N s' (NS_CFG, NVS_KEY_PROV_FLAG) = nvs_at N s (NS_CFG, NVS_KEY_PROV_FLAG)"
    "nvs_at N s' (NS_CFG, NVS_KEY_CFG_BLOB) = nvs_at N s (NS_CFG, NVS_KEY_CFG_BLOB)"
  shows "stored_config N s' = stored_config N s"
  by (simp only: stored_config_def assms)

lemma stored_config_total: "\<exists>r. stored_config N s = Some r"
  using deserialize_result by (auto simp: stored_config_def config_result_def split: option.split NvsVal.split)

section \<open>Commit\<close>

lemma cfg_keys_distinct [simp]: "NVS_KEY_PROV_FLAG \<noteq> NVS_KEY_CFG_BLOB" "NVS_KEY_CFG_BLOB \<noteq> NVS_KEY_PROV_FLAG"
  by (simp_all add: NVS_KEY_PROV_FLAG_def NVS_KEY_CFG_BLOB_def ascii_def)

lemma stored_after_writes:
  assumes "config_shape cfg" "nvs_at N s (NS_CFG, NVS_KEY_CFG_BLOB) = Some (NvBlob (config_bytes cfg))"
  shows "stored_config N s = Some (if nvs_at N s (NS_CFG, NVS_KEY_PROV_FLAG) = Some (NvU8 1) then next_boot cfg else None)"
  using assms(2) blob_fits [OF assms(1)] config_bytes_next_boot [OF assms(1)]
  by (auto simp: stored_config_def split: option.split NvsVal.split)

text \<open>The state after each write of a commit, in order: what a power cut or a failure can leave.\<close>

lemma save_provisioned_config_cases:
  assumes N: "nvs_ok N" and cfg: "config_shape cfg"
  obtains (no_blob) s' where "save_provisioned_config N cfg s = Some (Inl (), s')" "nvs_at N s' = nvs_at N s"
    | (no_flag) s' where "save_provisioned_config N cfg s = Some (Inl (), s')"
        "nvs_at N s' = (nvs_at N s)((NS_CFG, NVS_KEY_CFG_BLOB) \<mapsto> NvBlob (config_bytes cfg))"
    | (torn_flag) s' where "save_provisioned_config N cfg s = Some (Inl (), s')"
        "nvs_at N s' = (nvs_at N s)((NS_CFG, NVS_KEY_CFG_BLOB) \<mapsto> NvBlob (config_bytes cfg), (NS_CFG, NVS_KEY_PROV_FLAG) \<mapsto> NvU8 1)"
    | (both) s' where "save_provisioned_config N cfg s = Some (Inr (), s')"
        "nvs_at N s' = (nvs_at N s)((NS_CFG, NVS_KEY_CFG_BLOB) \<mapsto> NvBlob (config_bytes cfg), (NS_CFG, NVS_KEY_PROV_FLAG) \<mapsto> NvU8 1)"
proof (cases "nvs_open N s NS_CFG")
  case True
  have ser: "save_provisioned_config N cfg s = and_then (nvs_set N NS_CFG NVS_KEY_CFG_BLOB (NvBlob (config_bytes cfg)) s)
      (\<lambda>_ s. nvs_set N NS_CFG NVS_KEY_PROV_FLAG (NvU8 1) s)"
    using serialize_config_bytes [OF cfg, of "zeros MAX_BLOB_LEN"] blob_fits [OF cfg] True
    by (simp add: save_provisioned_config_def nvs_open_ns_def slice_def put_def)
  show thesis
  proof (rule nvs_set_cases [OF N, of NS_CFG NVS_KEY_CFG_BLOB "NvBlob (config_bytes cfg)" s])
    fix s1
    assume s1: "nvs_set N NS_CFG NVS_KEY_CFG_BLOB (NvBlob (config_bytes cfg)) s = Some (Inr (), s1)"
      "nvs_at N s1 = (nvs_at N s)((NS_CFG, NVS_KEY_CFG_BLOB) \<mapsto> NvBlob (config_bytes cfg))"
    show thesis
      by (rule nvs_set_cases [OF N, of NS_CFG NVS_KEY_PROV_FLAG "NvU8 1" s1])
        (use s1 in \<open>auto simp: ser intro: both no_flag torn_flag\<close>)
  qed (auto simp: ser intro: no_blob no_flag)
next
  case False
  then show thesis
    by (intro no_blob [of s]) (simp_all add: save_provisioned_config_def nvs_open_ns_def)
qed

lemma save_then_boot:
  assumes N: "nvs_ok N" and cfg: "config_shape cfg"
  shows "\<exists>r s'. save_provisioned_config N cfg s = Some (r, s')
    \<and> (r = Inr () \<and> stored_config N s' = Some (next_boot cfg)
       \<or> r = Inl () \<and> stored_config N s' \<in> {stored_config N s, Some (next_boot cfg)})"
proof (rule save_provisioned_config_cases [OF N cfg, of s])
  fix s'
  assume s': "save_provisioned_config N cfg s = Some (Inl (), s')"
    "nvs_at N s' = (nvs_at N s)((NS_CFG, NVS_KEY_CFG_BLOB) \<mapsto> NvBlob (config_bytes cfg))"
  have "stored_config N s = Some None" if "nvs_at N s (NS_CFG, NVS_KEY_PROV_FLAG) \<noteq> Some (NvU8 1)"
    using that by (auto simp: stored_config_def split: option.split NvsVal.split)
  then show ?thesis
    using s' stored_after_writes [OF cfg, of N s'] by auto
next
  fix s'
  assume s': "save_provisioned_config N cfg s = Some (Inl (), s')" "nvs_at N s' = nvs_at N s"
  then show ?thesis
    using stored_config_cong [of N s' s] by auto
qed (use stored_after_writes [OF cfg, of N] in auto)

text \<open>C25: A commit of the configuration is all or nothing whatever fails: it never panics; a commit that reports
  success has stored the new configuration, one that reports a failure leaves the former configuration or the
  new one, also when the failing write itself has left its key with the new contents; a boot then loads exactly what
  is stored, or reports that the flash cannot be read.  The configuration is any whose arrays have their lengths and
  whose counts are within them; one with more rooms than contacts is one the next boot refuses.\<close>

theorem config_commit_atomic:
  assumes "nvs_ok N" "config_shape cfg"
  shows "\<exists>r s'. save_provisioned_config N cfg s = Some (r, s')
    \<and> stored_config N s' \<in> (case r of Inr _ \<Rightarrow> {Some (next_boot cfg)}
                               | Inl _ \<Rightarrow> {stored_config N s, Some (next_boot cfg)})
    \<and> load_provisioned_config N s' \<in> {Some (Inl ()), map_option Inr (stored_config N s')}"
proof -
  obtain r s' where *: "save_provisioned_config N cfg s = Some (r, s')"
    "r = Inr () \<and> stored_config N s' = Some (next_boot cfg)
     \<or> r = Inl () \<and> stored_config N s' \<in> {stored_config N s, Some (next_boot cfg)}"
    using save_then_boot [OF assms] by blast
  then show ?thesis
    using load_is_stored [OF assms(1), of s'] by (intro exI [of _ r] exI [of _ s']) auto
qed

text \<open>A first commit whose second write fails leaves the device unprovisioned.\<close>

lemma config_commit_atomic_witness:
  "\<exists>s'. save_provisioned_config demo_nvs demo_config (\<lambda>_. None, [None, Some False]) = Some (Inl (), s')
    \<and> load_provisioned_config demo_nvs s' \<in> {Some (Inl ()), Some (Inr None), Some (Inr (Some (reloaded demo_config)))}"
proof -
  have old: "stored_config demo_nvs (\<lambda>_. None, [None, Some False]) = Some None"
    by (simp add: stored_config_def demo_nvs_def)
  obtain r s' where *: "save_provisioned_config demo_nvs demo_config (\<lambda>_. None, [None, Some False]) = Some (r, s')"
    "stored_config demo_nvs s' \<in> (case r of Inr _ \<Rightarrow> {Some (next_boot demo_config)}
       | Inl _ \<Rightarrow> {stored_config demo_nvs (\<lambda>_. None, [None, Some False]), Some (next_boot demo_config)})"
    "load_provisioned_config demo_nvs s' \<in> {Some (Inl ()), map_option Inr (stored_config demo_nvs s')}"
    using config_commit_atomic [OF demo_nvs_ok demo_config_ok(1)] by blast
  have "save_provisioned_config demo_nvs demo_config (\<lambda>_. None, [None, Some False]) = Some (Inr (), s'') \<Longrightarrow> False" for s''
    using serialize_config_bytes [OF demo_config_ok(1), of "zeros MAX_BLOB_LEN"] blob_fits [OF demo_config_ok(1)]
    by (simp add: save_provisioned_config_def nvs_open_ns_def demo_nvs_def demo_put_def nvs_set_def slice_def put_def)
  then have "r = Inl ()"
    using * by (cases r) auto
  then show ?thesis
    using * old demo_config_ok(2) by (auto simp: next_boot_def)
qed

section \<open>Erased sessions\<close>

lemma delete_room_session_epoch:
  assumes N: "nvs_ok N" and del: "delete_room_session N h s = Some s1"
  shows "nvs_at N s1 (NS_ROOM, room_key h) \<in> {None, nvs_at N s (NS_ROOM, room_key h)}
    \<and> (nvs_at N s1 (NS_ROOM, room_epoch_key h) = nvs_at N s (NS_ROOM, room_epoch_key h)
       \<or> nvs_at N s1 (NS_ROOM, room_epoch_key h) = Some (NvU8 1)
       \<or> (\<exists>e. nvs_at N s (NS_ROOM, room_epoch_key h) = Some (NvU8 e)
            \<and> nvs_at N s1 (NS_ROOM, room_epoch_key h) = Some (NvU8 (e + 1))))"
proof (cases "nvs_open N s NS_ROOM")
  case True
  obtain s0 where s0: "ignored (nvs_erase N NS_ROOM (room_key h) s) = Some s0"
    "nvs_at N s0 = (nvs_at N s)((NS_ROOM, room_key h) := None) \<or> nvs_at N s0 = nvs_at N s"
    by (rule nvs_erase_cases [OF N, of NS_ROOM "room_key h" s]) (auto simp: ignored_def)
  define e where "e = (case get_u8 N s0 NS_ROOM (room_epoch_key h) of Inr (Some v) \<Rightarrow> v | _ \<Rightarrow> 0)"
  have e: "e = 0 \<or> nvs_at N s (NS_ROOM, room_epoch_key h) = Some (NvU8 e)"
    using s0(2) by (rule_tac nvs_read_cases [OF N, of s0 "(NS_ROOM, room_epoch_key h)"])
      (auto simp: e_def get_u8_def split: option.split NvsVal.split)
  have s1: "ignored (nvs_set N NS_ROOM (room_epoch_key h) (NvU8 (e + 1)) s0) = Some s1"
    using del True by (simp add: delete_room_session_def s0(1) e_def Let_def next_room_session_epoch_def)
  show ?thesis
    by (rule nvs_set_cases [OF N, of NS_ROOM "room_epoch_key h" "NvU8 (e + 1)" s0])
      (use s0(2) s1 e in \<open>auto simp: ignored_def\<close>)
qed (use del in \<open>simp add: delete_room_session_def\<close>)

text \<open>Deleting the session of a room sticks although the receive path keeps running with the deleted room
  until the next boot: once the erase epoch has moved on, a save by that runtime changes nothing, so a
  room added later does not resume the erased session.\<close>

theorem erased_room_not_resurrected:
  assumes "nvs_ok N" "delete_room_session N h s = Some s1"
    and "nvs_at N s1 (NS_ROOM, room_epoch_key h) \<noteq> nvs_at N s (NS_ROOM, room_epoch_key h)"
    and "nvs_at N s (NS_ROOM, room_epoch_key h) = Some (NvU8 boot_epoch)
      \<or> (nvs_at N s (NS_ROOM, room_epoch_key h) = None \<and> boot_epoch = 0)"
  shows "nvs_save_room_session N h boot_epoch state s1 = Some s1
    \<and> nvs_at N s1 (NS_ROOM, room_key h) \<in> {None, nvs_at N s (NS_ROOM, room_key h)}"
proof
  have "get_u8 N s1 NS_ROOM (room_epoch_key h) = Inl ()
      \<or> (\<exists>e. get_u8 N s1 NS_ROOM (room_epoch_key h) = Inr (Some e) \<and> e \<noteq> boot_epoch)"
    using delete_room_session_epoch [OF assms(1,2)] assms(3,4)
    by (rule_tac nvs_read_cases [OF assms(1), of s1 "(NS_ROOM, room_epoch_key h)"]) (auto simp: get_u8_def)
  then show "nvs_save_room_session N h boot_epoch state s1 = Some s1"
    by (auto simp: nvs_save_room_session_def room_session_persist_is_current_def)
qed (use delete_room_session_epoch [OF assms(1,2)] in blast)

lemma erased_room_not_resurrected_witness:
  "\<exists>s1. delete_room_session demo_nvs 5 ([(NS_ROOM, room_key 5) \<mapsto> NvBlob [1]], []) = Some s1
    \<and> nvs_save_room_session demo_nvs 5 0 PersistedRoomSession_EMPTY s1 = Some s1"
proof -
  define s :: demo_store where "s = ([(NS_ROOM, room_key 5) \<mapsto> NvBlob [1]], [])"
  obtain s1 where s1: "delete_room_session demo_nvs 5 s = Some s1"
    "nvs_at demo_nvs s1 (NS_ROOM, room_epoch_key 5) \<noteq> nvs_at demo_nvs s (NS_ROOM, room_epoch_key 5)"
    by (simp add: delete_room_session_def s_def demo_nvs_def demo_put_def nvs_erase_def nvs_set_def ignored_def)
  have "nvs_at demo_nvs s (NS_ROOM, room_epoch_key 5) = None \<and> (0 :: u8) = 0"
    by (simp add: s_def demo_nvs_def)
  then show ?thesis
    using erased_room_not_resurrected [OF demo_nvs_ok s1, of 0] s1(1) by (auto simp: s_def)
qed

end
