(* ===== verification/Rx_Path.thy ===== *)
theory Rx_Path
  imports Policy Dispatcher Room_Sync_Phase Telemetry Battery Stores
begin

text \<open>
  The receive path of the firmware, \<open>on_receive\<close> of \<open>firmware/src/main.rs\<close> and every handler it calls, in
  the production build: direct messages, requests, acknowledgements, login replies, path returns, room
  pushes and channel messages; and the frame builders the replies use.

  The mutable parameters of the handlers are the fields of one state.  The replay guards and the room sessions
  are kept in the NVS of \<open>Effects\<close>, whose operations may fail, through the stores of \<open>Stores\<close>; the history
  store is the list of the appends it was asked for.  Log lines are left out.  Strings are their bytes.
\<close>

section \<open>Text\<close>

text \<open>\<open>core::str::from_utf8\<close>: the sequences of RFC 3629.\<close>

definition utf8_cont :: "u8 \<Rightarrow> bool" where
  "utf8_cont b \<longleftrightarrow> 0x80 \<le> b \<and> b \<le> 0xBF"

fun utf8_valid :: "bytes \<Rightarrow> bool" where
  "utf8_valid [] = True"
| "utf8_valid (b # bs) =
     (if b < 0x80 then utf8_valid bs
      else if 0xC2 \<le> b \<and> b \<le> 0xDF then (case bs of c # r \<Rightarrow> utf8_cont c \<and> utf8_valid r | _ \<Rightarrow> False)
      else if 0xE0 \<le> b \<and> b \<le> 0xEF then (case bs of c # d # r \<Rightarrow>
        (if b = 0xE0 then 0xA0 \<le> c \<and> c \<le> 0xBF else if b = 0xED then 0x80 \<le> c \<and> c \<le> 0x9F else utf8_cont c)
        \<and> utf8_cont d \<and> utf8_valid r | _ \<Rightarrow> False)
      else if 0xF0 \<le> b \<and> b \<le> 0xF4 then (case bs of c # d # e # r \<Rightarrow>
        (if b = 0xF0 then 0x90 \<le> c \<and> c \<le> 0xBF else if b = 0xF4 then 0x80 \<le> c \<and> c \<le> 0x8F else utf8_cont c)
        \<and> utf8_cont d \<and> utf8_cont e \<and> utf8_valid r | _ \<Rightarrow> False)
      else False)"

definition INVALID_UTF8 :: bytes where
  "INVALID_UTF8 = [0x3C, 0x69, 0x6E, 0x76, 0x61, 0x6C, 0x69, 0x64, 0x20, 0x75, 0x74, 0x66, 0x38, 0x3E]"

definition text_str :: "bytes \<Rightarrow> bytes" where
  "text_str b = (if utf8_valid b then b else INVALID_UTF8)"

definition c_str :: "bytes \<Rightarrow> bytes" where
  "c_str buf = take (case position (\<lambda>b. b = 0) buf of Some i \<Rightarrow> i | None \<Rightarrow> length buf) buf"

section \<open>State\<close>

text \<open>\<open>UiEvent\<close>, without the boot seed and the diagnostics counter, which carry nothing of this path.\<close>

datatype UiEvent =
    UI_IncomingDm u8 bytes bytes
  | UI_IncomingGroupMsg u8 bytes
  | UI_DmAcked u8 bool bytes
  | UI_DmUndelivered u8 bool bytes
  | UI_DmQueued u8 bytes
  | UI_ChannelAcked u8
  | UI_TelemetryResponse u8 i32 i32 u32
  | UI_RoomPostDrained u8 bytes
  | UI_RoomPostLive u8 bytes
  | UI_RoomDrainComplete u8 u32
  | UI_RoomPermissionUpdated u8 bool
  | UI_RoomPostSent u8 bytes bytes
  | UI_RoomPostRefused u8 bytes
  | UI_AppReady

record PendingChannelAck =
  pca_hash :: bytes
  pca_channel_hash :: u8

record RoomRuntime =
  rr_pubkey :: bytes
  rr_hash :: u8
  rr_guest_password :: bytes
  rr_guest_password_len :: u8
  rr_session :: PersistedRoomSession
  rr_session_epoch :: u8
  rr_login_sent :: bool
  rr_last_keep_alive_ms :: u64
  rr_last_reflood_ms :: u64
  rr_reflood_attempts :: u32
  rr_sync_phase :: RoomSyncPhase
  rr_pending_keep_alive_ack :: "bytes option"
  rr_keep_alive_stall :: RoomKeepAliveStall
  rr_resync_pending :: bool
  rr_recent :: "HistoryEntry list"

definition ROOM_RECENT_CAP :: nat where
  "ROOM_RECENT_CAP = 8"

text \<open>One call of \<open>HistoryStore::append_conversation\<close>.\<close>

record HistoryAppend =
  ha_msg_type :: HistoryMsgType
  ha_conv_hash :: u8
  ha_entry :: HistoryEntry
  ha_is_ours :: bool
  ha_acked :: bool

record 's RxState =
  st_txq :: TxQueue
  st_outstanding :: OutstandingSends
  st_events :: "UiEvent list"
  st_rooms :: "RoomRuntime list"
  st_clock :: "AdoptedServerClock option"
  st_history :: "HistoryAppend list"
  st_nvs :: 's

text \<open>The parameters the path only reads.\<close>

record 's RxEnv =
  env_id :: Identity
  env_policy :: PolicyFilter
  env_channel_secret :: "bytes option"
  env_gps :: "(i32 \<times> i32 \<times> u32) option"
  env_battery :: BatteryStatus
  env_now_ms :: u64
  env_tx_epoch_base :: u32
  env_display_names :: "u8 \<Rightarrow> bytes option"
  env_gps_verified :: bool
  env_region :: RegionScope
  env_nvs :: "'s nvs_prims"

section \<open>Queues and history\<close>

definition delivery_event :: "OutstandingSend \<Rightarrow> bool \<Rightarrow> UiEvent" where
  "delivery_event send delivered =
     (let (to_hash, is_channel) = (case os_kind send of OkDm h \<Rightarrow> (h, False) | OkRoomPost h \<Rightarrow> (h, True)) in
      if delivered then UI_DmAcked to_hash is_channel (os_ack_hash send)
      else UI_DmUndelivered to_hash is_channel (os_ack_hash send))"

definition emit_event :: "UiEvent \<Rightarrow> 's RxState \<Rightarrow> 's RxState" where
  "emit_event e s = s\<lparr>st_events := st_events s @ [e]\<rparr>"

definition log_tx_queue_eviction :: "(nat \<times> bytes option) option \<Rightarrow> 's RxState \<Rightarrow> 's RxState" where
  "log_tx_queue_eviction dropped s =
     (case dropped of
        None \<Rightarrow> s
      | Some (dropped_len, tag) \<Rightarrow>
          (case resolve_evicted (st_outstanding s) tag of
             (outstanding, None) \<Rightarrow> s\<lparr>st_outstanding := outstanding\<rparr>
           | (outstanding, Some send) \<Rightarrow> emit_event (delivery_event send False) (s\<lparr>st_outstanding := outstanding\<rparr>)))"

text \<open>\<open>log_tx_queue_eviction(txq.enqueue(frame, tag), ...)\<close>.\<close>

definition queue_frame :: "bytes \<Rightarrow> bytes option \<Rightarrow> 's RxState \<Rightarrow> 's RxState rust" where
  "queue_frame frame tag s = do {
     (txq, dropped) \<leftarrow> enqueue (st_txq s) frame tag;
     Some (log_tx_queue_eviction dropped (s\<lparr>st_txq := txq\<rparr>))
   }"

definition insert_outstanding :: "OutstandingSend \<Rightarrow> 's RxState \<Rightarrow> 's RxState rust" where
  "insert_outstanding send s = do {
     (outstanding, evicted) \<leftarrow> sends_insert (st_outstanding s) send;
     let s = s\<lparr>st_outstanding := outstanding\<rparr>;
     Some (case evicted of None \<Rightarrow> s | Some e \<Rightarrow> emit_event (delivery_event e False) s)
   }"

definition append_history :: "u8 \<Rightarrow> HistoryMsgType \<Rightarrow> u32 \<Rightarrow> bytes \<Rightarrow> bool \<Rightarrow> bool \<Rightarrow> 's RxState \<Rightarrow> 's RxState rust" where
  "append_history sender_hash msg_type timestamp msg is_ours acked s = do {
     let text_len = min (length msg) MAX_HISTORY_TEXT_LEN;
     text_buf \<leftarrow> read_field MAX_HISTORY_TEXT_LEN msg 0 text_len;
     let entry = \<lparr>he_sender_hash = sender_hash, he_msg_type = msg_type, he_timestamp = timestamp, he_text = text_buf,
           he_text_len = of_nat text_len\<rparr>;
     Some (s\<lparr>st_history := st_history s @
       [\<lparr>ha_msg_type = msg_type, ha_conv_hash = sender_hash, ha_entry = entry, ha_is_ours = is_ours, ha_acked = acked\<rparr>]\<rparr>)
   }"

text \<open>The stores of \<open>inbound_replay_store.rs\<close> and \<open>room_session.rs\<close>, on the NVS of the state.\<close>

definition save_replay :: "'s RxEnv \<Rightarrow> u8 \<Rightarrow> InboundReplayState \<Rightarrow> 's RxState \<Rightarrow> 's RxState rust" where
  "save_replay env hash state s = do {
     n \<leftarrow> nvs_save_inbound_replay_state (env_nvs env) hash state (st_nvs s);
     Some (s\<lparr>st_nvs := n\<rparr>)
   }"

definition save_room_session ::
    "'s RxEnv \<Rightarrow> u8 \<Rightarrow> u8 \<Rightarrow> PersistedRoomSession \<Rightarrow> 's RxState \<Rightarrow> 's RxState rust" where
  "save_room_session env hash remembered_epoch state s = do {
     n \<leftarrow> nvs_save_room_session (env_nvs env) hash remembered_epoch state (st_nvs s);
     Some (s\<lparr>st_nvs := n\<rparr>)
   }"

section \<open>Replies\<close>

definition MAX_UI_MSG_BYTES :: nat where
  "MAX_UI_MSG_BYTES = 120"

definition reply_timestamp :: "u32 \<Rightarrow> u64 \<Rightarrow> u32" where
  "reply_timestamp tx_epoch_base now_ms = tx_epoch_base + ucast (now_ms div 1000)"

definition build_ui_dm ::
    "crypto_prims \<Rightarrow> curve_prims \<Rightarrow> u64 \<Rightarrow> u32 \<Rightarrow> Identity \<Rightarrow> bytes \<Rightarrow> u8 \<Rightarrow> bytes \<Rightarrow> bytes option \<Rightarrow> bytes \<Rightarrow>
     (bytes \<times> (nat \<times> bytes) option) rust" where
  "build_ui_dm C K now_ms tx_epoch_base sender dest_pubkey dest_hash msg scope out = do {
     let timestamp = reply_timestamp tx_epoch_base now_ms;
     let type_byte = 0;
     msg \<leftarrow> slice msg 0 (min (length msg) MAX_UI_MSG_BYTES);
     shared \<leftarrow> ecdh_shared_secret K sender dest_pubkey;
     (pt_buf, pt_len) \<leftarrow> encode_txt_msg_plaintext timestamp 0 0 msg (zeros 128);
     (case PathLen_new 2 0 of
        None \<Rightarrow> Some (out, None)
      | Some path_len \<Rightarrow> do {
          pt \<leftarrow> slice pt_buf 0 pt_len;
          body \<leftarrow> slice_from out 2;
          (body, dm_len) \<leftarrow> encode_dm_payload C shared dest_hash (id_pub_hash sender) pt body;
          let expected_ack = compute_ack_hash C timestamp type_byte msg (id_pubkey sender);
          (out, n) \<leftarrow> assemble_flood_frame C scope (take 2 out @ body) PT_TxtMsg path_len dm_len;
          Some (out, Some (n, expected_ack))
        })
   }"

definition build_ui_grp_txt ::
    "crypto_prims \<Rightarrow> u64 \<Rightarrow> u32 \<Rightarrow> bytes \<Rightarrow> bytes \<Rightarrow> bytes \<Rightarrow> bytes option \<Rightarrow> bytes \<Rightarrow> (bytes \<times> nat) rust" where
  "build_ui_grp_txt C now_ms tx_epoch_base channel_secret sender_name msg scope out = do {
     let timestamp = reply_timestamp tx_epoch_base now_ms;
     (text_buf, composed) \<leftarrow> format_channel_text sender_name msg (zeros 160);
     let composed = min composed MAX_UI_MSG_BYTES;
     txt \<leftarrow> slice text_buf 0 composed;
     body \<leftarrow> slice_from out 2;
     (body, payload_len) \<leftarrow> encode_grp_txt_var C channel_secret timestamp 0 0 txt body;
     path_len \<leftarrow> PathLen_new 2 0;
     assemble_flood_frame C scope (take 2 out @ body) PT_GrpTxt path_len payload_len
   }"

definition build_telemetry_reply ::
    "crypto_prims \<Rightarrow> curve_prims \<Rightarrow> u64 \<Rightarrow> u32 \<Rightarrow> Identity \<Rightarrow> bytes \<Rightarrow> (i32 \<times> i32 \<times> u32) option \<Rightarrow> bytes option \<Rightarrow>
     (bytes \<times> nat) option rust" where
  "build_telemetry_reply C K now_ms tx_epoch_base our_id contact_key gps_snapshot scope = do {
     shared \<leftarrow> ecdh_shared_secret K our_id contact_key;
     let reply_ts = reply_timestamp tx_epoch_base now_ms;
     (text_buf, text_len) \<leftarrow> (case gps_snapshot of
         Some (lat_e7, lon_e7, fix_age) \<Rightarrow> Some (encode_telemetry_response lat_e7 lon_e7 fix_age (zeros MAX_RESPONSE_LEN))
       | None \<Rightarrow> encode_no_fix_response (zeros MAX_RESPONSE_LEN));
     txt \<leftarrow> slice text_buf 0 text_len;
     (pt_buf, pt_len) \<leftarrow> encode_txt_msg_plaintext reply_ts 0 0 txt (zeros 128);
     dest_hash \<leftarrow> get_at contact_key 0;
     pt \<leftarrow> slice pt_buf 0 pt_len;
     body \<leftarrow> slice_from (zeros 255) 2;
     (body, dm_len) \<leftarrow> encode_dm_payload C shared dest_hash (id_pub_hash our_id) pt body;
     (case PathLen_new 2 0 of
        None \<Rightarrow> Some None
      | Some path_len \<Rightarrow> do {
          (frame, n) \<leftarrow> assemble_flood_frame C scope (take 2 (zeros 255) @ body) PT_TxtMsg path_len dm_len;
          Some (Some (frame, n))
        })
   }"

definition build_telemetry_response ::
    "crypto_prims \<Rightarrow> curve_prims \<Rightarrow> Identity \<Rightarrow> bytes \<Rightarrow> u32 \<Rightarrow> (i32 \<times> i32) option \<Rightarrow> BatteryStatus \<Rightarrow> bytes option \<Rightarrow>
     (bytes \<times> nat) option rust" where
  "build_telemetry_response C K our_id contact_key tag gps battery scope = do {
     shared \<leftarrow> ecdh_shared_secret K our_id contact_key;
     let (pt_buf, pt_len) = encode_telemetry_response_lpp tag gps (Some (bs_percent battery, bs_charging battery))
           (Some (bs_raw_mv battery)) (Some (bs_held_raw_mv battery))
           (Some (of_nat (level_to_indicator_level (bs_level battery)))) (zeros MAX_TELEMETRY_RESPONSE_LEN);
     dest_hash \<leftarrow> get_at contact_key 0;
     pt \<leftarrow> slice pt_buf 0 pt_len;
     body \<leftarrow> slice_from (zeros 255) 2;
     (body, dm_len) \<leftarrow> encode_dm_payload C shared dest_hash (id_pub_hash our_id) pt body;
     (case PathLen_new 2 0 of
        None \<Rightarrow> Some None
      | Some path_len \<Rightarrow> do {
          (frame, n) \<leftarrow> assemble_flood_frame C scope (take 2 (zeros 255) @ body) PT_Response path_len dm_len;
          Some (Some (frame, n))
        })
   }"

text \<open>A reply that is only built and queued when the region can be keyed.\<close>

definition queue_ack :: "crypto_prims \<Rightarrow> 's RxEnv \<Rightarrow> bytes \<Rightarrow> 's RxState \<Rightarrow> 's RxState rust" where
  "queue_ack C env ack s =
     (case region_emission (env_region env) of
        None \<Rightarrow> Some s
      | Some scope \<Rightarrow> do {
          (ack_frame, n) \<leftarrow> build_ack_frame C ack scope (zeros 12);
          f \<leftarrow> slice ack_frame 0 n;
          queue_frame f None s
        })"


section \<open>Acknowledgements\<close>

definition match_outstanding_ack :: "bytes \<Rightarrow> 's RxState \<Rightarrow> 's RxState \<times> bool" where
  "match_outstanding_ack got s =
     (case sends_resolve (st_outstanding s) got of
        (outstanding, Some send) \<Rightarrow> (emit_event (delivery_event send True) (s\<lparr>st_outstanding := outstanding\<rparr>), True)
      | (outstanding, None) \<Rightarrow> (s\<lparr>st_outstanding := outstanding\<rparr>, False))"

text \<open>The loop over the rooms; \<open>None\<close> when no room waits for this acknowledgement.\<close>

fun keep_alive_scan :: "bytes \<Rightarrow> bytes \<Rightarrow> u64 \<Rightarrow> RoomRuntime list \<Rightarrow> (RoomRuntime list \<times> UiEvent list) option" where
  "keep_alive_scan got payload now_ms [] = None"
| "keep_alive_scan got payload now_ms (room # rooms) =
     (if rr_pending_keep_alive_ack room = Some got then
        let room = room\<lparr>rr_pending_keep_alive_ack := None, rr_keep_alive_stall := stall_reset (rr_keep_alive_stall room)\<rparr> in
        (case decode_keep_alive_ack payload of
           Inl e \<Rightarrow> Some (room # rooms, [])
         | Inr ack \<Rightarrow>
             let (phase, notification) = on_keep_alive_ack (rr_sync_phase room) (ka_unsynced_count ack) now_ms;
                 room = room\<lparr>rr_sync_phase := phase\<rparr> in
             Some (room # rooms, (case notification of
                 Some (RN_Aggregate n) \<Rightarrow> [UI_RoomDrainComplete (rr_hash room) n] | _ \<Rightarrow> [])))
      else map_option (\<lambda>(rooms, evs). (room # rooms, evs)) (keep_alive_scan got payload now_ms rooms))"

definition handle_ack :: "'s RxEnv \<Rightarrow> bytes \<Rightarrow> 's RxState \<Rightarrow> 's RxState" where
  "handle_ack env payload s =
     (if length payload < 4 then s
      else
        let got = take 4 payload;
            (s, matched) = match_outstanding_ack got s in
        if matched then s
        else (case keep_alive_scan got payload (env_now_ms env) (st_rooms s) of
                None \<Rightarrow> s
              | Some (rooms, evs) \<Rightarrow> s\<lparr>st_rooms := rooms, st_events := st_events s @ evs\<rparr>))"

definition match_pending_channel_ack ::
    "bytes \<Rightarrow> PendingChannelAck option \<Rightarrow> UiEvent list \<Rightarrow> PendingChannelAck option \<times> UiEvent list \<times> u8 option" where
  "match_pending_channel_ack got pending evs =
     (case pending of
        Some expected \<Rightarrow>
          if pca_hash expected = got then (None, evs @ [UI_ChannelAcked (pca_channel_hash expected)], Some (pca_channel_hash expected))
          else (pending, evs, None)
      | None \<Rightarrow> (pending, evs, None))"

section \<open>Rooms\<close>

text \<open>A room is passed by mutable reference: it is an argument and a result beside the state.\<close>

definition apply_room_login_outcome ::
    "'s RxEnv \<Rightarrow> RoomLoginOutcome \<Rightarrow> RoomRuntime \<Rightarrow> 's RxState \<Rightarrow> (RoomRuntime \<times> 's RxState) rust" where
  "apply_room_login_outcome env outcome room s = do {
     let room = room\<lparr>rr_session := session_apply_login (rr_session room) outcome\<rparr>;
     let s = s\<lparr>st_clock := adopt_server_clock (st_clock s) (env_gps_verified env) (env_now_ms env) (lo_server_ts outcome)\<rparr>;
     let room = room\<lparr>rr_keep_alive_stall := stall_reset (rr_keep_alive_stall room)\<rparr>;
     let room = room\<lparr>rr_sync_phase := note_relogin (rr_sync_phase room) (env_now_ms env)\<rparr>;
     let room = (case reconcile_sync_since (pr_sync_since (rr_session room)) (lo_server_ts outcome) of
         Some rewound \<Rightarrow> room\<lparr>rr_session := (rr_session room)\<lparr>pr_sync_since := rewound\<rparr>\<rparr>
       | None \<Rightarrow> room);
     let room = (if has_route (rr_session room) then room\<lparr>rr_reflood_attempts := 0\<rparr> else room);
     let room = room\<lparr>rr_resync_pending := True\<rparr>;
     s \<leftarrow> save_room_session env (rr_hash room) (rr_session_epoch room) (rr_session room) s;
     Some (room, emit_event (UI_RoomPermissionUpdated (rr_hash room) (can_post (session_permission (rr_session room)))) s)
   }"

definition raw_hash :: "bytes \<Rightarrow> nat \<Rightarrow> u8" where
  "raw_hash payload i = (case get_opt payload i of Some b \<Rightarrow> b | None \<Rightarrow> 0)"

definition room_index :: "'s RxState \<Rightarrow> u8 \<Rightarrow> nat option" where
  "room_index s raw_src = position (\<lambda>r. rr_hash r = raw_src) (st_rooms s)"

definition put_room :: "nat \<Rightarrow> RoomRuntime \<Rightarrow> 's RxState \<Rightarrow> 's RxState" where
  "put_room i room s = s\<lparr>st_rooms := (st_rooms s)[i := room]\<rparr>"

definition handle_room_login_response ::
    "crypto_prims \<Rightarrow> curve_prims \<Rightarrow> 's RxEnv \<Rightarrow> bytes \<Rightarrow> 's RxState \<Rightarrow> 's RxState rust" where
  "handle_room_login_response C K env payload s =
     (case room_index s (raw_hash payload 1) of
        None \<Rightarrow> Some s
      | Some i \<Rightarrow>
          let room = st_rooms s ! i in
          if \<not> is_room_frame_for_us payload (id_pub_hash (env_id env)) then Some s
          else do {
            shared \<leftarrow> ecdh_shared_secret K (env_id env) (rr_pubkey room);
            r \<leftarrow> decode_login_response_datagram C shared payload;
            (case r of
               Inl e \<Rightarrow> Some s
             | Inr outcome \<Rightarrow> do {
                 (room, s) \<leftarrow> apply_room_login_outcome env outcome room s;
                 Some (put_room i room s)
               })
          })"

text \<open>The body of the \<open>if let Some(entry)\<close> of \<open>handle_room_push_frame\<close>: the post is stored and announced.\<close>

definition deliver_room_post ::
    "'s RxEnv \<Rightarrow> RoomPushOutcome \<Rightarrow> RoomNotification \<Rightarrow> HistoryEntry \<Rightarrow> RoomRuntime \<Rightarrow> 's RxState \<Rightarrow> (RoomRuntime \<times> 's RxState) rust" where
  "deliver_room_post env outcome notification entry room s = do {
     let text_len = min (unat (he_text_len entry)) (length (he_text entry));
     msg \<leftarrow> slice (he_text entry) 0 text_len;
     let body_str = text_str msg;
     author \<leftarrow> get_at (po_author_pubkey_prefix outcome) 0;
     let sender_label = room_post_sender_label (env_display_names env author) (po_author_pubkey_prefix outcome);
     let display_text = sender_label @ CHANNEL_NAME_DELIM @ body_str;
     s \<leftarrow> append_history (rr_hash room) HM_Dm (he_timestamp entry) display_text False True s;
     let recent = (if length (rr_recent room) \<ge> ROOM_RECENT_CAP then drop 1 (rr_recent room) else rr_recent room);
     let room = room\<lparr>rr_recent := recent @ [entry]\<rparr>;
     let s = (case notification of
         RN_None \<Rightarrow> emit_event (UI_RoomPostDrained (rr_hash room) display_text) s
       | RN_Live \<Rightarrow> emit_event (UI_RoomPostLive (rr_hash room) display_text) s
       | RN_Aggregate n \<Rightarrow> emit_event (UI_RoomDrainComplete (rr_hash room) n)
           (emit_event (UI_RoomPostDrained (rr_hash room) display_text) s));
     Some (room, s)
   }"

definition handle_room_push_frame ::
    "crypto_prims \<Rightarrow> curve_prims \<Rightarrow> 's RxEnv \<Rightarrow> bytes \<Rightarrow> RoomRuntime \<Rightarrow> 's RxState \<Rightarrow> (RoomRuntime \<times> 's RxState \<times> bool) rust" where
  "handle_room_push_frame C K env payload room s =
     (if \<not> is_room_frame_for_us payload (id_pub_hash (env_id env)) then Some (room, s, True)
      else do {
        shared \<leftarrow> ecdh_shared_secret K (env_id env) (rr_pubkey room);
        r \<leftarrow> handle_room_push C shared payload (id_pubkey (env_id env)) (rr_hash room) (rr_recent room);
        (case r of
           Inl e \<Rightarrow> Some (room, s, \<not> is_room_push_misroute e)
         | Inr outcome \<Rightarrow> do {
             let room = room\<lparr>rr_keep_alive_stall := stall_reset (rr_keep_alive_stall room), rr_reflood_attempts := 0\<rparr>;
             s \<leftarrow> queue_ack C env (po_ack_hash outcome) s;
             let (phase, notification) = on_push_outcome (rr_sync_phase room) outcome (env_now_ms env);
             let room = room\<lparr>rr_sync_phase := phase\<rparr>;
             (room, s) \<leftarrow> (case po_entry outcome of
                 Some entry \<Rightarrow> deliver_room_post env outcome notification entry room s
               | None \<Rightarrow> Some (room, s));
             let room = room\<lparr>rr_session := record_synced_post_ts (rr_session room) (po_post_ts outcome)\<rparr>;
             let s = s\<lparr>st_clock := adopt_server_clock (st_clock s) (env_gps_verified env) (env_now_ms env) (po_post_ts outcome)\<rparr>;
             s \<leftarrow> save_room_session env (rr_hash room) (rr_session_epoch room) (rr_session room) s;
             Some (room, s, True)
           })
      })"

definition handle_path_return :: "crypto_prims \<Rightarrow> curve_prims \<Rightarrow> 's RxEnv \<Rightarrow> bytes \<Rightarrow> 's RxState \<Rightarrow> 's RxState rust" where
  "handle_path_return C K env payload s = do {
     let raw_src = raw_hash payload 1;
     allowed \<leftarrow> allow_inbound_dm (env_policy env) raw_src;
     if \<not> allowed then Some s
     else do {
       key \<leftarrow> contact_pubkey (env_policy env) raw_src;
       contact_key \<leftarrow> key;
       shared \<leftarrow> ecdh_shared_secret K (env_id env) contact_key;
       (_, r) \<leftarrow> decode_path_return C shared payload (zeros 256);
       (case r of
          Inl e \<Rightarrow> Some s
        | Inr (dest_hash, _, rp) \<Rightarrow>
            if dest_hash \<noteq> id_pub_hash (env_id env) then Some s
            else (case rp_extra rp of
                PE_Ack got \<Rightarrow> Some (fst (match_outstanding_ack got s))
              | PE_None \<Rightarrow> Some s
              | PE_Response bundled \<Rightarrow>
                  (case room_index s raw_src of
                     None \<Rightarrow> Some s
                   | Some i \<Rightarrow>
                       (case decode_login_response bundled of
                          Inl e \<Rightarrow> Some s
                        | Inr resp \<Rightarrow> do {
                            let outcome = \<lparr>lo_permissions = lr_permissions resp,
                              lo_out_path = Some (rp_path rp, rp_path_byte_count rp), lo_server_ts = lr_server_ts resp\<rparr>;
                            (room, s) \<leftarrow> apply_room_login_outcome env outcome (st_rooms s ! i) s;
                            Some (put_room i room s)
                          }))))
     }
   }"


section \<open>Messages and requests\<close>

definition handle_grp_txt :: "crypto_prims \<Rightarrow> 's RxEnv \<Rightarrow> bytes \<Rightarrow> 's RxState \<Rightarrow> 's RxState rust" where
  "handle_grp_txt C env payload s =
     (case env_channel_secret env of
        None \<Rightarrow> Some s
      | Some channel_secret \<Rightarrow>
          if payload = [] then Some s
          else
            let ch = payload ! 0 in
            if ch \<noteq> channel_hash_var C channel_secret then Some s
            else do {
              (pt_buf, r) \<leftarrow> decode_grp_txt_var C channel_secret payload (zeros 256);
              (case r of
                 Inl e \<Rightarrow> Some s
               | Inr grp \<Rightarrow> do {
                   let text_end = min (gt_text_offset grp + gt_text_len grp) (length pt_buf);
                   region \<leftarrow> slice pt_buf (gt_text_offset grp) text_end;
                   let msg = c_str region;
                   append_history ch HM_GrpTxt (gt_timestamp grp) msg False True
                     (emit_event (UI_IncomingGroupMsg ch (text_str msg)) s)
                 })
            })"

text \<open>The telemetry pull inside \<open>handle_dm\<close>.\<close>

definition answer_location_pull ::
    "crypto_prims \<Rightarrow> curve_prims \<Rightarrow> 's RxEnv \<Rightarrow> u8 \<Rightarrow> bytes \<Rightarrow> bytes \<Rightarrow> 's RxState \<Rightarrow> 's RxState rust" where
  "answer_location_pull C K env raw_src contact_key msg s =
     (if is_telemetry_request msg then do {
        gate_ok \<leftarrow> telemetry_enabled (env_policy env) raw_src;
        if \<not> gate_ok then Some s
        else (case region_emission (env_region env) of
            None \<Rightarrow> Some s
          | Some scope \<Rightarrow> do {
              reply \<leftarrow> build_telemetry_reply C K (env_now_ms env) (env_tx_epoch_base env) (env_id env) contact_key (env_gps env) scope;
              (case reply of
                 None \<Rightarrow> Some s
               | Some (reply_frame, reply_len) \<Rightarrow> do {
                   f \<leftarrow> slice reply_frame 0 reply_len;
                   queue_frame f None s
                 })
            })
      } else Some s)"

text \<open>What \<open>handle_dm\<close> does with a decrypted message of an accepted subtype.\<close>

definition accept_dm ::
    "crypto_prims \<Rightarrow> curve_prims \<Rightarrow> 's RxEnv \<Rightarrow> u8 \<Rightarrow> bytes \<Rightarrow> u32 \<Rightarrow> u8 \<Rightarrow> bytes \<Rightarrow> 's RxState \<Rightarrow> 's RxState rust" where
  "accept_dm C K env raw_src contact_key ts type_byte msg s = do {
     let ack = compute_ack_hash C ts type_byte msg contact_key;
     replay_state \<leftarrow> nvs_load_inbound_replay_state (env_nvs env) (st_nvs s) raw_src;
     (replay_state, accepted) \<leftarrow> check_and_record_inbound replay_state ts ack;
     if \<not> accepted then Some s
     else do {
       s \<leftarrow> save_replay env raw_src replay_state s;
       s \<leftarrow> append_history raw_src HM_Dm ts msg False True s;
       let s = emit_event (UI_IncomingDm raw_src ([0x30, 0x78] @ hex02 raw_src) (text_str msg)) s;
       s \<leftarrow> answer_location_pull C K env raw_src contact_key msg s;
       queue_ack C env ack s
     }
   }"

text \<open>The gates \<open>handle_dm\<close> and \<open>handle_req\<close> share: the allowlist, the pairwise key, the envelope, the address.
  \<open>None\<close> inside is a dropped frame.\<close>

definition open_from_contact ::
    "crypto_prims \<Rightarrow> curve_prims \<Rightarrow> 's RxEnv \<Rightarrow> bytes \<Rightarrow> (bytes \<times> bytes \<times> nat) option rust" where
  "open_from_contact C K env payload = do {
     let raw_src = raw_hash payload 1;
     allowed \<leftarrow> allow_inbound_dm (env_policy env) raw_src;
     if \<not> allowed then Some None
     else do {
       key \<leftarrow> contact_pubkey (env_policy env) raw_src;
       contact_key \<leftarrow> key;
       shared \<leftarrow> ecdh_shared_secret K (env_id env) contact_key;
       (dec_buf, r) \<leftarrow> decode_dm_payload C shared payload (zeros 256);
       (case r of
          Inl e \<Rightarrow> Some None
        | Inr (dest_hash, _, n) \<Rightarrow>
            if dest_hash \<noteq> id_pub_hash (env_id env) then Some None else Some (Some (contact_key, dec_buf, n)))
     }
   }"

definition handle_dm :: "crypto_prims \<Rightarrow> curve_prims \<Rightarrow> 's RxEnv \<Rightarrow> bytes \<Rightarrow> 's RxState \<Rightarrow> 's RxState rust" where
  "handle_dm C K env payload s = do {
     let raw_src = raw_hash payload 1;
     opened \<leftarrow> open_from_contact C K env payload;
     (case opened of
        None \<Rightarrow> Some s
      | Some (contact_key, dec_buf, n) \<Rightarrow>
          if n < 5 then Some s
          else do {
            let ts = from_le32 (dec_buf ! 0) (dec_buf ! 1) (dec_buf ! 2) (dec_buf ! 3);
            let type_byte = dec_buf ! 4;
            let txt_type = TxtType_from_byte (drop_bit 2 type_byte);
            text_region \<leftarrow> slice dec_buf 5 (min n (length dec_buf));
            let msg = c_str text_region;
            if ignore_reason (classify_inbound_dm txt_type) \<noteq> None then Some s
            else accept_dm C K env raw_src contact_key ts type_byte msg s
          })
   }"

definition handle_req :: "crypto_prims \<Rightarrow> curve_prims \<Rightarrow> 's RxEnv \<Rightarrow> bytes \<Rightarrow> 's RxState \<Rightarrow> 's RxState rust" where
  "handle_req C K env payload s = do {
     let raw_src = raw_hash payload 1;
     opened \<leftarrow> open_from_contact C K env payload;
     (case opened of
        None \<Rightarrow> Some s
      | Some (contact_key, dec_buf, n) \<Rightarrow> do {
          plaintext \<leftarrow> slice dec_buf 0 (min n (length dec_buf));
          (case parse_telemetry_req plaintext of
             None \<Rightarrow> Some s
           | Some req \<Rightarrow>
               if \<not> is_telemetry_req req then Some s
               else do {
                 gate_ok \<leftarrow> telemetry_enabled (env_policy env) raw_src;
                 if \<not> gate_ok then Some s
                 else do {
                   let gps = map_option (\<lambda>(lat_e7, lon_e7, _). (lat_e7, lon_e7)) (env_gps env);
                   (case region_emission (env_region env) of
                      None \<Rightarrow> Some s
                    | Some scope \<Rightarrow> do {
                        resp \<leftarrow> build_telemetry_response C K (env_id env) contact_key (tq_tag req) gps (env_battery env) scope;
                        (case resp of
                           None \<Rightarrow> Some s
                         | Some (resp_frame, resp_len) \<Rightarrow> do {
                             f \<leftarrow> slice resp_frame 0 resp_len;
                             queue_frame f None s
                           })
                      })
                 }
               })
        })
   }"

section \<open>Dispatch\<close>

definition handle_txt_msg :: "crypto_prims \<Rightarrow> curve_prims \<Rightarrow> 's RxEnv \<Rightarrow> bytes \<Rightarrow> 's RxState \<Rightarrow> 's RxState rust" where
  "handle_txt_msg C K env payload s =
     (case room_index s (raw_hash payload 1) of
        None \<Rightarrow> handle_dm C K env payload s
      | Some i \<Rightarrow> do {
          (room, s, handled) \<leftarrow> handle_room_push_frame C K env payload (st_rooms s ! i) s;
          let s = put_room i room s;
          if handled then Some s else handle_dm C K env payload s
        })"

definition on_receive :: "crypto_prims \<Rightarrow> curve_prims \<Rightarrow> 's RxEnv \<Rightarrow> bytes \<Rightarrow> 's RxState \<Rightarrow> 's RxState rust" where
  "on_receive C K env frame s =
     (case parse_rx_frame_header frame of
        Inl e \<Rightarrow> Some s
      | Inr rx_header \<Rightarrow> do {
          payload \<leftarrow> slice_from frame (rx_payload_off rx_header);
          let ptype = drop_bit 2 (rx_header_byte rx_header) AND 0x0F;
          if ptype = ptype_u8 PT_TxtMsg then handle_txt_msg C K env payload s
          else if ptype = ptype_u8 PT_Req then handle_req C K env payload s
          else if ptype = ptype_u8 PT_Ack then Some (handle_ack env payload s)
          else if ptype = ptype_u8 PT_Response then handle_room_login_response C K env payload s
          else if ptype = ptype_u8 PT_Path then handle_path_return C K env payload s
          else if ptype = ptype_u8 PT_GrpTxt then handle_grp_txt C env payload s
          else Some s
        })"

end
