(* ===== verification/Rx_Safety.thy ===== *)
theory Rx_Safety
  imports Rx_Path Hoare
begin

text \<open>
  What a received frame cannot do: emit anything when the region cannot be keyed, change anything when
  its sender is unknown, or, in a well-formed configuration, panic; and the two ways it still can.
\<close>

section \<open>The transmit queue\<close>

lemma emit_event_sel [simp]:
  "st_txq (emit_event e s) = st_txq s" "st_outstanding (emit_event e s) = st_outstanding s"
  "st_rooms (emit_event e s) = st_rooms s" "st_clock (emit_event e s) = st_clock s"
  "st_history (emit_event e s) = st_history s" "st_nvs (emit_event e s) = st_nvs s"
  "st_events (emit_event e s) = st_events s @ [e]"
  by (simp_all add: emit_event_def)

abbreviation keeps_txq :: "'s RxState \<Rightarrow> 's RxState \<Rightarrow> bool" where
  "keeps_txq s s' \<equiv> st_txq s' = st_txq s"

lemma put_room_txq [simp]: "st_txq (put_room i room s) = st_txq s"
  by (simp add: put_room_def)

lemma append_history_txq: "wlp (append_history h ty ts msg o' a s) (keeps_txq s)"
  by (auto simp: append_history_def Let_def wp_simps; auto intro!: wlpI)

lemma save_room_session_txq: "wlp (save_room_session env h e st s) (keeps_txq s)"
  by (auto simp: save_room_session_def wp_simps; auto intro!: wlpI)

lemma save_replay_txq: "wlp (save_replay env h st s) (keeps_txq s)"
  by (auto simp: save_replay_def wp_simps; auto intro!: wlpI)

lemma login_outcome_txq: "wlp (apply_room_login_outcome env oc room s) (\<lambda>(_, s'). keeps_txq s s')"
  by (auto simp: apply_room_login_outcome_def Let_def wp_simps;
    auto intro!: wlpI dest!: save_room_session_txq [THEN wlpD])

lemma match_ack_txq: "keeps_txq s (fst (match_outstanding_ack got s))"
  by (simp add: match_outstanding_ack_def split: prod.split option.split)

lemma handle_ack_txq: "keeps_txq s (handle_ack env payload s)"
  using match_ack_txq [of "take 4 payload" s]
  by (auto simp: handle_ack_def Let_def split: prod.split option.split)

lemma deliver_room_post_txq: "wlp (deliver_room_post env oc nt e room s) (\<lambda>(_, s'). keeps_txq s s')"
  by (auto simp: deliver_room_post_def Let_def wp_simps split: RoomNotification.split;
    auto intro!: wlpI dest!: append_history_txq [THEN wlpD])

lemma login_response_txq: "wlp (handle_room_login_response C K env payload s) (keeps_txq s)"
  by (auto simp: handle_room_login_response_def Let_def wp_simps split: option.split sum.split;
    auto intro!: wlpI dest!: login_outcome_txq [THEN wlpD])

lemma path_return_txq: "wlp (handle_path_return C K env payload s) (keeps_txq s)"
  by (auto simp: handle_path_return_def Let_def wp_simps match_ack_txq split: option.split sum.split PathExtra.split;
    auto intro!: wlpI dest!: login_outcome_txq [THEN wlpD])

lemma grp_txt_txq: "wlp (handle_grp_txt C env payload s) (keeps_txq s)"
  by (auto simp: handle_grp_txt_def Let_def wp_simps split: option.split sum.split;
    auto intro!: wlpI dest!: append_history_txq [THEN wlpD])

text \<open>With a region that cannot be keyed.\<close>

lemma queue_ack_txq: "region_emission (env_region env) = None \<Longrightarrow> queue_ack C env ack s = Some s"
  by (simp add: queue_ack_def)

lemma room_push_txq:
  assumes "region_emission (env_region env) = None"
  shows "wlp (handle_room_push_frame C K env payload room s) (\<lambda>(_, s', _). keeps_txq s s')"
  by (auto simp: handle_room_push_frame_def Let_def wp_simps queue_ack_txq [OF assms] split: sum.split option.split prod.split;
    auto intro!: wlpI dest!: deliver_room_post_txq [THEN wlpD] save_room_session_txq [THEN wlpD])

lemma location_pull_txq:
  assumes "region_emission (env_region env) = None"
  shows "wlp (answer_location_pull C K env h key msg s) (keeps_txq s)"
  by (auto simp: answer_location_pull_def assms wp_simps; auto intro!: wlpI)

lemma accept_dm_txq:
  assumes "region_emission (env_region env) = None"
  shows "wlp (accept_dm C K env h key ts tb msg s) (keeps_txq s)"
  by (auto simp: accept_dm_def Let_def wp_simps queue_ack_txq [OF assms];
    auto intro!: wlpI dest!: append_history_txq [THEN wlpD] save_replay_txq [THEN wlpD] location_pull_txq [OF assms, THEN wlpD])

lemma handle_dm_txq:
  assumes "region_emission (env_region env) = None"
  shows "wlp (handle_dm C K env payload s) (keeps_txq s)"
  by (auto simp: handle_dm_def Let_def wp_simps split: option.split;
    auto intro!: wlpI dest!: accept_dm_txq [OF assms, THEN wlpD])

lemma handle_req_txq:
  assumes "region_emission (env_region env) = None"
  shows "wlp (handle_req C K env payload s) (keeps_txq s)"
  by (auto simp: handle_req_def Let_def assms wp_simps split: option.split; auto intro!: wlpI)

lemma handle_txt_msg_txq:
  assumes "region_emission (env_region env) = None"
  shows "wlp (handle_txt_msg C K env payload s) (keeps_txq s)"
  by (auto simp: handle_txt_msg_def Let_def wp_simps split: option.split;
    auto intro!: wlpI dest!: handle_dm_txq [OF assms, THEN wlpD] room_push_txq [OF assms, THEN wlpD])

lemma on_receive_txq:
  assumes "region_emission (env_region env) = None"
  shows "wlp (on_receive C K env frame s) (keeps_txq s)"
  by (auto simp: on_receive_def Let_def wp_simps handle_ack_txq split: sum.split;
    auto intro!: wlpI dest!: handle_txt_msg_txq [OF assms, THEN wlpD] handle_req_txq [OF assms, THEN wlpD] login_response_txq [THEN wlpD] path_return_txq [THEN wlpD] grp_txt_txq [THEN wlpD])


section \<open>Well-formed configurations\<close>

definition key_ok :: "curve_prims \<Rightarrow> bytes \<Rightarrow> bool" where
  "key_ok K p \<longleftrightarrow> edwards_to_montgomery K p \<noteq> None \<and> length p = 32"

definition env_ok :: "curve_prims \<Rightarrow> 's RxEnv \<Rightarrow> bool" where
  "env_ok K env \<longleftrightarrow> pf_invar (env_policy env) \<and> (\<forall>c \<in> set (pf_live (env_policy env)). key_ok K (pc_pubkey c))
     \<and> (case env_channel_secret env of None \<Rightarrow> True | Some secret \<Rightarrow> 16 \<le> length secret)"

definition room_ok :: "curve_prims \<Rightarrow> RoomRuntime \<Rightarrow> bool" where
  "room_ok K room \<longleftrightarrow> key_ok K (rr_pubkey room) \<and> length (pr_out_path (rr_session room)) = MAX_PATH"

definition state_ok :: "curve_prims \<Rightarrow> 's RxState \<Rightarrow> bool" where
  "state_ok K s \<longleftrightarrow> tq_invar (st_txq s) \<and> (\<forall>room \<in> set (st_rooms s). room_ok K room)"

lemma state_ok_emit [simp]: "state_ok K (emit_event e s) = state_ok K s"
  by (simp add: state_ok_def)

lemma state_ok_updates [simp]:
  "state_ok K (s\<lparr>st_clock := c\<rparr>) = state_ok K s" "state_ok K (s\<lparr>st_outstanding := outst\<rparr>) = state_ok K s"
  "state_ok K (s\<lparr>st_history := hs\<rparr>) = state_ok K s" "state_ok K (s\<lparr>st_nvs := f\<rparr>) = state_ok K s"
  "state_ok K (s\<lparr>st_events := evs\<rparr>) = state_ok K s"
  by (simp_all add: state_ok_def)

lemma wp_ecdh: "curve_ok K \<Longrightarrow> key_ok K p \<Longrightarrow> wp (ecdh_shared_secret K i p) (\<lambda>sec. length sec = 32)"
  by (auto simp: wp_def key_ok_def ecdh_spec curve_ok_def)

section \<open>Building blocks never panic\<close>

lemma wp_enqueue: "tq_invar q \<Longrightarrow> wp (enqueue q frame tag) (\<lambda>(q', _). tq_invar q')"
  unfolding wp_def enqueue_write
  by (auto intro!: tq_write_invar(1)) (auto simp: tq_invar_def)

lemma wp_queue_frame: "state_ok K s \<Longrightarrow> wp (queue_frame frame tag s) (state_ok K)"
  unfolding queue_frame_def wp_bind
  by (rule wpD [OF wp_enqueue])
    (auto simp: state_ok_def wp_simps log_tx_queue_eviction_def split: option.split prod.split)

lemma wp_assemble:
  assumes "6 + n \<le> length out"
  shows "wp (assemble_flood_frame C scope out pt pl n) (\<lambda>(out', k). k \<le> length out' \<and> length out' = length out)"
  using assms
  by (cases scope) (auto simp: assemble_flood_frame_def wp_simps TRANSPORT_CODE_BYTES_def copy_within_def copy_into_def Let_def)

lemma length_ack [simp]: "length (compute_ack_hash C ts tb msg pk) = 4"
  by (simp add: compute_ack_hash_def Let_def)

lemma wp_ack_frame: "length ack = 4 \<Longrightarrow> wp (build_ack_frame C ack scope (zeros 12)) (\<lambda>(f, n). n \<le> length f)"
  using PathLen_2_0
  by (auto simp: build_ack_frame_def wp_simps copy_into_def intro!: wpD [OF wp_assemble])

lemma wp_queue_ack: "state_ok K s \<Longrightarrow> length ack = 4 \<Longrightarrow> wp (queue_ack C env ack s) (state_ok K)"
  unfolding queue_ack_def
  by (cases "region_emission (env_region env)")
    (auto simp: wp_simps intro!: wpD [OF wp_ack_frame] wp_queue_frame)


lemma wp_append_history: "wp (append_history h ty ts msg o' a s) (\<lambda>s'. \<exists>hs. s' = s\<lparr>st_history := hs\<rparr>)"
  using read_field_Some [of 0 "min (length msg) 64" msg 64]
  by (auto simp: append_history_def wp_def MAX_HISTORY_TEXT_LEN_def Let_def)

lemma wp_nvs_set [wp_simps]: "wp (ignored (nvs_set N ns key v n)) Q = Q (snd (nvs_write N n (ns, key) v))"
  by (auto simp: ignored_def nvs_set_def wp_def split: prod.split bool.split)

lemma wp_save_session:
  assumes "length (pr_out_path st) = MAX_PATH"
  shows "wp (save_room_session env h e st s) (\<lambda>s'. \<exists>g. s' = s\<lparr>st_nvs := g\<rparr>)"
proof -
  have "wp (encode_persisted_room_session st (zeros PERSISTED_ROOM_SESSION_LEN)) (\<lambda>(b, n). n \<le> length b)"
    using assms by (simp add: encode_persisted_room_session_def wp_simps copy_into_def PERSISTED_ROOM_SESSION_LEN_def
        PRE_SYNC_GUARD_LEN_def MAX_PATH_def)
  moreover have "\<exists>g. s = s\<lparr>st_nvs := g\<rparr>"
    by (rule exI [of _ "st_nvs s"]) simp
  ultimately show ?thesis
    by (auto simp: save_room_session_def nvs_save_room_session_def Let_def wp_simps split: sum.split elim!: wpD)
qed

lemma decode_ring_any:
  "off + 4 * n \<le> length blob \<Longrightarrow>
   wp (decode_ring n blob off) (\<lambda>(ring, off'). off' = off + 4 * n \<and> length ring = n \<and> (\<forall>f \<in> set ring. length f = 4))"
proof (induction n arbitrary: off)
  case (Suc n)
  then have "wp (decode_ring n blob (off + 4)) (\<lambda>(ring, off'). off' = off + 4 + 4 * n \<and> length ring = n \<and> (\<forall>f \<in> set ring. length f = 4))"
    by simp
  then obtain ring where "decode_ring n blob (off + 4) = Some (ring, off + 4 + 4 * n)" "length ring = n"
    "\<forall>f \<in> set ring. length f = 4"
    by (auto simp: wp_def)
  then show ?case
    using Suc.prems by (simp add: wp_simps slice_def)
qed (simp add: wp_simps)

text \<open>Whatever bytes the flash holds, the guard loaded from it can be used.\<close>

definition replay_safe :: "InboundReplayState \<Rightarrow> bool" where
  "replay_safe r \<longleftrightarrow> length (irs_ring r) = 16 \<and> (\<forall>f \<in> set (irs_ring r). length f = 4) \<and> unat (irs_head r) < 16"

lemma replay_safe_EMPTY: "replay_safe InboundReplayState_EMPTY"
  by (simp add: replay_safe_def InboundReplayState_EMPTY_def REPLAY_RING_LEN_def)

lemma wp_decode_replay: "wp (decode_inbound_replay_state b) (\<lambda>d. \<forall>st. d = Some st \<longrightarrow> replay_safe st)"
proof (cases "length b < 70")
  case True
  then show ?thesis
    by (simp add: decode_inbound_replay_state_def INBOUND_REPLAY_STATE_LEN_def REPLAY_RING_LEN_def wp_simps)
next
  case False
  then obtain ring where "decode_ring 16 b 4 = Some (ring, 68)" "length ring = 16" "\<forall>f \<in> set ring. length f = 4"
    using decode_ring_any [of 4 16 b] by (auto simp: wp_def)
  then show ?thesis
    using False
    by (simp add: decode_inbound_replay_state_def INBOUND_REPLAY_STATE_LEN_def REPLAY_RING_LEN_def wp_simps Let_def)
      (simp add: wp_def replay_safe_def)
qed

lemma wp_load_replay: "wp (nvs_load_inbound_replay_state N n h) replay_safe"
  using replay_safe_EMPTY
  by (auto simp: nvs_load_inbound_replay_state_def wp_simps intro!: wpD [OF wp_decode_replay] split: option.split sum.split)

lemma wp_ring_insert: "replay_safe r \<Longrightarrow> length f = 4 \<Longrightarrow> wp (ring_insert r f) replay_safe"
  by (auto simp: ring_insert_def wp_simps replay_safe_def REPLAY_RING_LEN_def unat_mod_16
      dest!: set_update_subset_insert [THEN subsetD])

lemma wp_check:
  assumes "replay_safe r" "length f = 4"
  shows "wp (check_and_record_inbound r ts f) (\<lambda>(r', ok). replay_safe r')"
proof -
  have "replay_safe (r\<lparr>irs_last_ts := ts\<rparr>)" "wp (ring_contains r f) (\<lambda>b. True)"
    using assms(1) by (simp_all add: replay_safe_def ring_contains_def wp_simps REPLAY_RING_LEN_def)
  then show ?thesis
    using assms
    by (auto simp: check_and_record_inbound_def wp_simps intro!: wpD [OF wp_ring_insert] elim!: wpD)
qed

lemma wp_save_replay:
  assumes "replay_safe r"
  shows "wp (save_replay env h r s) (\<lambda>s'. \<exists>f. s' = s\<lparr>st_nvs := f\<rparr>)"
proof -
  have ring: "\<forall>f \<in> set (irs_ring r). length f = 4" "length (irs_ring r) = 16"
    using assms by (simp_all add: replay_safe_def)
  then have "length (replay_bytes r) = 70"
    by (simp add: replay_bytes_def length_concat_4)
  moreover have "\<exists>f. s = s\<lparr>st_nvs := f\<rparr>"
    by (rule exI [of _ "st_nvs s"]) simp
  ultimately show ?thesis
    by (auto simp: save_replay_def nvs_save_inbound_replay_state_def wp_simps encode_replay_bytes [OF ring] INBOUND_REPLAY_STATE_LEN_def
        REPLAY_RING_LEN_def)
qed

lemma wp_encode_dm:
  assumes "crypto_ok C" "length sec = 32" "length pt \<le> 128" "length out = 253"
  shows "wp (encode_dm_payload C sec d s pt out) (\<lambda>(b, n). n \<le> 148 \<and> length b = 253)"
proof -
  have "ceil_16 (length pt) \<le> 144"
    using assms(3) by (simp add: ceil_16_def div_ceil_16_def)
  then show ?thesis
    using assms encode_dm_payload_spec [of C sec pt out d s] by (simp add: wp_def)
qed

text \<open>A reply built in a 255-byte frame.\<close>

lemma wp_reply_frame:
  assumes "crypto_ok C" "length sec = 32" "length pt \<le> 128"
  shows "wp (do {
       body \<leftarrow> slice_from (zeros 255) 2;
       (body, dm_len) \<leftarrow> encode_dm_payload C sec d s pt body;
       case PathLen_new 2 0 of
          None \<Rightarrow> Some None
        | Some path_len \<Rightarrow> do {
            (frame, n) \<leftarrow> assemble_flood_frame C scope (take 2 (zeros 255) @ body) ty path_len dm_len;
            Some (Some (frame, n))
          }
     }) (\<lambda>r. case r of None \<Rightarrow> True | Some (f, n) \<Rightarrow> n \<le> length f)"
  using assms PathLen_2_0
  by (auto simp: wp_simps intro!: wpD [OF wp_encode_dm] wpD [OF wp_assemble])

lemma wp_telemetry_reply:
  assumes "crypto_ok C" "curve_ok K" "key_ok K key"
  shows "wp (build_telemetry_reply C K now base i key gps scope) (\<lambda>r. case r of None \<Rightarrow> True | Some (f, n) \<Rightarrow> n \<le> length f)"
proof -
  obtain sec where sec: "ecdh_shared_secret K i key = Some sec" "length sec = 32"
    using wp_ecdh [OF assms(2,3)] by (auto simp: wp_def)
  obtain b n where ans: "(case gps of
      Some (lat_e7, lon_e7, fix_age) \<Rightarrow> Some (encode_telemetry_response lat_e7 lon_e7 fix_age (zeros MAX_RESPONSE_LEN))
    | None \<Rightarrow> encode_no_fix_response (zeros MAX_RESPONSE_LEN)) = Some (b, n)" "n \<le> 53" "n \<le> length b"
  proof (cases gps)
    case None
    then show thesis
      using that by (auto simp: encode_no_fix_response_def put_def MAX_RESPONSE_LEN_def RESP_NO_FIX_def copy_into_def slice_def)
  next
    case (Some g)
    then show thesis
      using that response_text_length
      by (cases g) (auto simp: encode_response_spec put_def MAX_RESPONSE_LEN_def)
  qed
  have "encode_txt_msg_plaintext ts 0 0 (take n b) (zeros 128) =
      Some (txt_msg_bytes ts 0 0 (take n b) @ drop (5 + n) (zeros 128), 5 + n)" for ts
    using ans by (simp add: encode_txt_msg_plaintext_spec)
  moreover have "0 < length key"
    using assms(3) by (auto simp: key_ok_def)
  ultimately show ?thesis
    unfolding build_telemetry_reply_def Let_def sec ans
    using sec(2) ans(2,3) assms(1) wp_reply_frame [of C sec "txt_msg_bytes (reply_timestamp base now) 0 0 (take n b)"]
    by (simp add: slice_def get_at_def)
qed

lemma wp_telemetry_response:
  assumes "crypto_ok C" "curve_ok K" "key_ok K key"
  shows "wp (build_telemetry_response C K i key tag gps battery scope)
    (\<lambda>r. case r of None \<Rightarrow> True | Some (f, n) \<Rightarrow> n \<le> length f)"
proof -
  obtain sec where sec: "ecdh_shared_secret K i key = Some sec" "length sec = 32"
    using wp_ecdh [OF assms(2,3)] by (auto simp: wp_def)
  define p where "p = lpp_plain tag gps (Some (bs_percent battery, bs_charging battery)) (Some (bs_raw_mv battery))
    (Some (bs_held_raw_mv battery)) (Some (of_nat (level_to_indicator_level (bs_level battery))))"
  have "length p \<le> 34"
    by (simp add: p_def lpp_plain_length)
  moreover have "key \<noteq> []"
    using assms(3) by (auto simp: key_ok_def)
  ultimately show ?thesis
    unfolding build_telemetry_response_def sec
    using sec(2) assms(1) wp_reply_frame [of C sec p]
    by (simp add: slice_def get_at_def encode_lpp_spec MAX_TELEMETRY_RESPONSE_LEN_def put_def flip: p_def)
qed


section \<open>Handlers never panic\<close>

lemma session_apply_path:
  assumes "length (pr_out_path st) = MAX_PATH" "\<forall>p n. lo_out_path oc = Some (p, n) \<longrightarrow> length p = MAX_PATH"
  shows "length (pr_out_path (session_apply_login st oc)) = MAX_PATH"
  using assms by (auto simp: session_apply_login_def Let_def split: option.split)

lemma wp_login_outcome:
  assumes "room_ok K room" "state_ok K s" "\<forall>p n. lo_out_path oc = Some (p, n) \<longrightarrow> length p = MAX_PATH"
  shows "wp (apply_room_login_outcome env oc room s) (\<lambda>(room', s'). room_ok K room' \<and> st_rooms s' = st_rooms s \<and> state_ok K s')"
  using assms session_apply_path [of "rr_session room" oc]
  by (auto simp: apply_room_login_outcome_def Let_def wp_simps room_ok_def split: option.split intro!: wpD [OF wp_save_session])

lemma put_room_ok: "state_ok K s \<Longrightarrow> room_ok K room \<Longrightarrow> state_ok K (put_room i room s)"
  by (auto simp: state_ok_def put_room_def dest!: set_update_subset_insert [THEN subsetD])

lemma room_index_ok: "state_ok K s \<Longrightarrow> room_index s h = Some i \<Longrightarrow> room_ok K (st_rooms s ! i)"
  by (auto simp: state_ok_def room_index_def dest!: position_SomeD)

lemma match_ack_ok: "state_ok K s \<Longrightarrow> state_ok K (fst (match_outstanding_ack got s))"
  by (simp add: match_outstanding_ack_def split: prod.split option.split)

lemma keep_alive_scan_ok:
  "keep_alive_scan got payload now rooms = Some (rooms', evs) \<Longrightarrow> \<forall>r \<in> set rooms. room_ok K r \<Longrightarrow> \<forall>r \<in> set rooms'. room_ok K r"
  by (induction rooms arbitrary: rooms' evs)
    (auto simp: room_ok_def Let_def split: if_splits sum.splits prod.splits)

lemma handle_ack_ok: "state_ok K s \<Longrightarrow> state_ok K (handle_ack env payload s)"
  using match_ack_ok [of K s "take 4 payload"]
  by (auto simp: handle_ack_def Let_def state_ok_def split: prod.split option.split dest!: keep_alive_scan_ok)

lemma wp_decode_dm:
  assumes "crypto_ok C" "length sec = 32" "length payload \<le> length buf + 4"
  shows "wp (decode_dm_payload C sec payload buf) (\<lambda>(b, r). length b = length buf \<and> (\<forall>d s n. r = Inr (d, s, n) \<longrightarrow> n + 4 = length payload))"
  using decode_dm_payload_total [of C sec payload buf] assms by (auto simp: wp_def)

text \<open>A direct login reply of at most 36 bytes.\<close>

lemma wp_login_response:
  assumes "crypto_ok C" "curve_ok K" "state_ok K s" "length payload \<le> 36"
  shows "wp (handle_room_login_response C K env payload s) (state_ok K)"
proof (cases "room_index s (raw_hash payload 1)")
  case (Some i)
  let ?room = "st_rooms s ! i"
  have room: "room_ok K ?room" "key_ok K (rr_pubkey ?room)"
    using room_index_ok [OF assms(3) Some] by (simp_all add: room_ok_def)
  have dg: "wp (decode_login_response_datagram C sec payload) (\<lambda>r. \<forall>oc. r = Inr oc \<longrightarrow> lo_out_path oc = None)"
    if "length sec = 32" for sec
  proof -
    have "length payload \<le> length (zeros 32) + 4"
      using assms(4) by simp
    then show ?thesis
      unfolding decode_login_response_datagram_def wp_bind
      by (rule wpD [OF wp_decode_dm [OF assms(1) that]]) (use assms(4) in \<open>auto simp: wp_simps split: sum.split\<close>)
  qed
  have ap: "wp (apply_room_login_outcome env oc ?room s) (\<lambda>(room', s'). room_ok K room' \<and> state_ok K s')"
    if "lo_out_path oc = None" for oc
    using that by (auto intro: wpD [OF wp_login_outcome [OF room(1) assms(3)]])
  show ?thesis
    using assms(3) unfolding handle_room_login_response_def Some
    by (auto simp: Let_def wp_simps split: sum.split intro!: put_room_ok wpD [OF wp_ecdh [OF assms(2) room(2)]] wpD [OF dg] wpD [OF ap])
qed (simp add: handle_room_login_response_def wp_simps assms(3))

text \<open>The shared gates.\<close>

lemma find_Some_in: "find p xs = Some x \<Longrightarrow> x \<in> set xs"
  by (induction xs) (auto split: if_splits)

lemma wp_policy:
  assumes "env_ok K env"
  shows "wp (allow_inbound_dm (env_policy env) h) (\<lambda>b. b \<longrightarrow> wp (contact_pubkey (env_policy env) h) (\<lambda>k. \<exists>key. k = Some key \<and> key_ok K key))"
    "wp (telemetry_enabled (env_policy env) h) (\<lambda>_. True)"
proof -
  have sl: "slice (pf_contacts (env_policy env)) 0 (pf_count (env_policy env)) = Some (pf_live (env_policy env))"
    and ok: "\<And>c. c \<in> set (pf_live (env_policy env)) \<Longrightarrow> key_ok K (pc_pubkey c)"
    using assms by (simp_all add: env_ok_def slice_live)
  show "wp (allow_inbound_dm (env_policy env) h) (\<lambda>b. b \<longrightarrow> wp (contact_pubkey (env_policy env) h) (\<lambda>k. \<exists>key. k = Some key \<and> key_ok K key))"
    using find_Some_list_ex [of "\<lambda>c. pub_hash c = h" "pf_live (env_policy env)"]
    by (cases "find (\<lambda>c. pub_hash c = h) (pf_live (env_policy env))")
      (auto simp: allow_inbound_dm_def contact_pubkey_def sl wp_simps intro: ok dest: find_Some_in)
  show "wp (telemetry_enabled (env_policy env) h) (\<lambda>_. True)"
    by (simp add: telemetry_enabled_def sl wp_simps)
qed

lemma wp_open:
  assumes "crypto_ok C" "curve_ok K" "env_ok K env" "length payload \<le> 260"
  shows "wp (open_from_contact C K env payload) (\<lambda>r. \<forall>key b n. r = Some (key, b, n) \<longrightarrow> key_ok K key \<and> length b = 256 \<and> n \<le> 256)"
proof -
  obtain b where b: "allow_inbound_dm (env_policy env) (raw_hash payload 1) = Some b"
    "b \<longrightarrow> wp (contact_pubkey (env_policy env) (raw_hash payload 1)) (\<lambda>k. \<exists>key. k = Some key \<and> key_ok K key)"
    using wp_policy(1) [OF assms(3), of "raw_hash payload 1"] unfolding wp_def by blast
  show ?thesis
  proof (cases b)
    case True
    then obtain key where key: "contact_pubkey (env_policy env) (raw_hash payload 1) = Some (Some key)" "key_ok K key"
      using b(2) by (auto simp: wp_def)
    obtain sec where sec: "ecdh_shared_secret K (env_id env) key = Some sec" "length sec = 32"
      using wp_ecdh [OF assms(2) key(2)] by (auto simp: wp_def)
    have "wp (decode_dm_payload C sec payload (zeros 256)) (\<lambda>(b, r). length b = 256 \<and> (\<forall>d s n. r = Inr (d, s, n) \<longrightarrow> n \<le> 256))"
      using assms(4) by (auto intro!: wpD [OF wp_decode_dm [OF assms(1) sec(2)]])
    then show ?thesis
      unfolding open_from_contact_def Let_def
      using b key True sec by (auto simp: wp_simps elim!: wpD split: sum.split prod.split)
  qed (use b in \<open>simp add: open_from_contact_def wp_simps Let_def\<close>)
qed


lemma wp_path_decode:
  assumes "crypto_ok C" "length sec = 32" "length payload \<le> 260"
  shows "wp (decode_path_return C sec payload (zeros 256)) (\<lambda>(_, r). \<forall>d sr rp. r = Inr (d, sr, rp) \<longrightarrow> length (rp_path rp) = MAX_PATH)"
proof -
  have "wp (decode_path_return_plaintext b n) (\<lambda>r. \<forall>rp. r = Inr rp \<longrightarrow> length (rp_path rp) = MAX_PATH)"
    if len: "n \<le> length b" for b n
  proof -
    obtain r where r: "decode_path_return_plaintext b n = Some r"
      using decode_path_return_plaintext_total [OF len] by blast
    have "length (rp_path rp) = MAX_PATH" if rp: "r = Inr rp" for rp
    proof -
      note ok = decode_path_return_plaintext_OK [OF len r [unfolded rp]]
      have "rp_path_byte_count rp \<le> 64" "rp_path_byte_count rp \<le> length (drop 1 b)"
        using ok(1-3,5) path_count_le [of "b ! 0"] len by simp_all
      then show ?thesis
        by (subst ok(4)) (simp add: MAX_PATH_def)
    qed
    then show ?thesis
      using r by (simp add: wp_def)
  qed
  then show ?thesis
    unfolding decode_path_return_def
    using assms(3) by (auto simp: wp_simps split: sum.split intro!: wpD [OF wp_decode_dm [OF assms(1,2)]] elim!: wpD)
qed

lemma wp_path_return:
  assumes "crypto_ok C" "curve_ok K" "env_ok K env" "state_ok K s" "length payload \<le> 260"
  shows "wp (handle_path_return C K env payload s) (state_ok K)"
proof -
  obtain b where b: "allow_inbound_dm (env_policy env) (raw_hash payload 1) = Some b"
    "b \<longrightarrow> wp (contact_pubkey (env_policy env) (raw_hash payload 1)) (\<lambda>k. \<exists>key. k = Some key \<and> key_ok K key)"
    using wp_policy(1) [OF assms(3), of "raw_hash payload 1"] unfolding wp_def by blast
  show ?thesis
  proof (cases b)
    case True
    then obtain key where key: "contact_pubkey (env_policy env) (raw_hash payload 1) = Some (Some key)" "key_ok K key"
      using b(2) by (auto simp: wp_def)
    obtain sec where sec: "ecdh_shared_secret K (env_id env) key = Some sec" "length sec = 32"
      using wp_ecdh [OF assms(2) key(2)] by (auto simp: wp_def)
    obtain bf r where r: "decode_path_return C sec payload (zeros 256) = Some (bf, r)"
      "\<And>d sr rp. r = Inr (d, sr, rp) \<Longrightarrow> length (rp_path rp) = MAX_PATH"
      using wp_path_decode [OF assms(1) sec(2) assms(5)] by (auto simp: wp_def)
    have login: "wp (apply_room_login_outcome env \<lparr>lo_permissions = p, lo_out_path = Some (rp_path rp, n), lo_server_ts = t\<rparr> (st_rooms s ! i) s)
        (\<lambda>(room', s'). room_ok K room' \<and> state_ok K s')"
      if "room_index s h = Some i" "length (rp_path rp) = MAX_PATH" for h i rp p n t
      using that by (auto intro!: wpD [OF wp_login_outcome] room_index_ok assms(4))
    show ?thesis
    proof (cases r)
      case (Inr x)
      then obtain d sr rp where x: "r = Inr (d, sr, rp)"
        by (cases x) auto
      show ?thesis
        unfolding handle_path_return_def Let_def
        using b key True sec r x assms(4) match_ack_ok [OF assms(4)]
        by (auto simp: wp_simps split: PathExtra.split option.split sum.split intro!: wpD [OF login] put_room_ok)
    next
      case (Inl e)
      then show ?thesis
        unfolding handle_path_return_def Let_def
        using b key True sec r assms(4) by (simp add: wp_simps)
    qed
  qed (use b assms(4) in \<open>simp add: handle_path_return_def wp_simps Let_def\<close>)
qed

lemma envelope_decrypted:
  assumes "crypto_ok C" "16 \<le> length sec" "envelope_ok C sec p"
  shows "length (ecb_decrypt C (take 16 sec) (drop 2 p)) = length p - 2"
  using assms crypto_okD(2) [OF assms(1), of "take 16 sec"]
  unfolding ecb_decrypt_def by (subst length_ecb) (auto simp: envelope_ok_def)

lemma wp_decode_grp:
  assumes "crypto_ok C" "16 \<le> length sec" "length payload \<le> 255"
  shows "wp (decode_grp_txt_var C sec payload (zeros 256))
    (\<lambda>(b, r). length b = 256 \<and> (\<forall>g. r = Inr g \<longrightarrow> gt_text_offset g = 5))"
proof -
  define p where "p = drop 1 payload"
  have dec: "wp (decode_txt_msg_plaintext b n) (\<lambda>r. \<forall>ts tt att off. r = Inr (ts, tt, att, off) \<longrightarrow> off = 5)"
    if "n \<le> length b" for b n
    using decode_txt_msg_no_panic [OF that]
    by (auto simp: wp_def decode_txt_msg_plaintext_def Let_def get_at_def split: if_splits)
  show ?thesis
  proof (cases "3 \<le> length payload \<and> envelope_ok C sec p")
    case True
    then have "mac_then_decrypt_var C (take 16 sec) sec p (zeros 256) =
        Some (ecb_decrypt C (take 16 sec) (drop 2 p) @ drop (length p - 2) (zeros 256), Inr (length p - 2))"
      using assms by (intro mac_then_decrypt_var_accept) (simp_all add: p_def)
    moreover have "length (ecb_decrypt C (take 16 sec) (drop 2 p)) = length p - 2"
      using envelope_decrypted [OF assms(1,2)] True by blast
    moreover have "length p \<le> 254"
      using assms(3) by (simp add: p_def)
    ultimately show ?thesis
      using assms(2) True
      unfolding decode_grp_txt_var_def Let_def p_def [symmetric]
      by (auto simp: wp_simps split: sum.split intro!: wpD [OF dec])
  next
    case False
    then show ?thesis
      using assms unfolding decode_grp_txt_var_def Let_def p_def [symmetric]
      by (auto simp: wp_simps mac_then_decrypt_var_eq)
  qed
qed

lemma wp_grp_txt:
  assumes "crypto_ok C" "env_ok K env" "state_ok K s" "length payload \<le> 255"
  shows "wp (handle_grp_txt C env payload s) (state_ok K)"
proof (cases "env_channel_secret env")
  case (Some sec)
  then have "16 \<le> length sec"
    using assms(2) by (simp add: env_ok_def)
  note dec = wp_decode_grp [OF assms(1) this assms(4)]
  have len5: "5 \<le> n" if "decode_txt_msg_plaintext b n = Some (Inr r)" for b n r
    using that by (auto simp: decode_txt_msg_plaintext_def split: if_splits)
  have "wp (decode_grp_txt_var C sec payload (zeros 256)) (\<lambda>(b, r). length b = 256 \<and> (\<forall>g. r = Inr g \<longrightarrow> gt_text_offset g = 5))"
    by (rule dec)
  then show ?thesis
    unfolding handle_grp_txt_def Some Let_def
    using assms(3)
    by (auto simp: wp_simps split: sum.split intro!: wpD [OF wp_append_history] elim!: wpD)
qed (simp add: handle_grp_txt_def wp_simps assms(3))

text \<open>Room pushes.\<close>

lemma wp_room_push_decode:
  assumes "crypto_ok C" "length sec = 32" "length payload \<le> 260"
  shows "wp (handle_room_push C sec payload pk h recent) (\<lambda>r. \<forall>oc. r = Inr oc \<longrightarrow> length (po_ack_hash oc) = 4
    \<and> length (po_author_pubkey_prefix oc) = 4)"
proof -
  have "length payload \<le> length (zeros 256) + 4"
    using assms(3) by simp
  from room_push_safe [OF assms(1,2) this]
  obtain b r where r: "decode_room_push C sec payload (zeros 256) = Some (b, r)" "length b = 256"
    "\<And>d s p. r = Inr (d, s, p) \<Longrightarrow> rp_text_offset p = 9 \<and> length (rp_author_pubkey_prefix p) = 4
        \<and> 9 + rp_text_len p + 4 \<le> length payload
        \<and> push_body p b = Some (rp_author_pubkey_prefix p @ take (rp_text_len p) (drop 9 b))"
    by fastforce
  show ?thesis
  proof (cases r)
    case (Inr x)
    then obtain d sr p where x: "r = Inr (d, sr, p)"
      by (cases x) auto
    from r(3) [OF this] show ?thesis
      using r(1,2) x assms(3)
      by (auto simp: handle_room_push_def wp_simps room_push_ack_hash_def build_history_entry_spec Let_def)
  qed (simp add: handle_room_push_def r wp_simps)
qed

lemma wp_deliver:
  assumes "length (po_author_pubkey_prefix oc) = 4" "room_ok K room" "state_ok K s"
  shows "wp (deliver_room_post env oc nt e room s) (\<lambda>(room', s'). room_ok K room' \<and> state_ok K s')"
  using assms
  by (auto simp: deliver_room_post_def Let_def wp_simps room_ok_def intro!: wpD [OF wp_append_history] split: RoomNotification.split)

lemma wp_room_push:
  assumes "crypto_ok C" "curve_ok K" "room_ok K room" "state_ok K s" "length payload \<le> 260"
  shows "wp (handle_room_push_frame C K env payload room s) (\<lambda>(room', s', _). room_ok K room' \<and> state_ok K s')"
proof -
  have "key_ok K (rr_pubkey room)"
    using assms(3) by (simp add: room_ok_def)
  then obtain sec where sec: "ecdh_shared_secret K (env_id env) (rr_pubkey room) = Some sec" "length sec = 32"
    using wp_ecdh [OF assms(2)] by (auto simp: wp_def)
  obtain r where r: "handle_room_push C sec payload (id_pubkey (env_id env)) (rr_hash room) (rr_recent room) = Some r"
    "\<And>oc. r = Inr oc \<Longrightarrow> length (po_ack_hash oc) = 4 \<and> length (po_author_pubkey_prefix oc) = 4"
    using wp_room_push_decode [OF assms(1) sec(2) assms(5)] unfolding wp_def by blast
  show ?thesis
  proof (cases r)
    case (Inl e)
    then show ?thesis
      using sec r assms(3,4) by (simp add: handle_room_push_frame_def wp_simps)
  next
    case (Inr oc)
    obtain phase nt where ph: "on_push_outcome (rr_sync_phase room) oc (env_now_ms env) = (phase, nt)"
      by (cases "on_push_outcome (rr_sync_phase room) oc (env_now_ms env)")
    have upd: "length (pr_out_path (record_synced_post_ts st ts)) = length (pr_out_path st)" for st ts
      by (simp add: record_synced_post_ts_def)
    obtain s1 where s1: "queue_ack C env (po_ack_hash oc) s = Some s1" "state_ok K s1"
      using wp_queue_ack [OF assms(4), of "po_ack_hash oc" C env] r(2) [OF Inr] by (auto simp: wp_def)
    let ?room = "room\<lparr>rr_keep_alive_stall := stall_reset (rr_keep_alive_stall room), rr_reflood_attempts := 0, rr_sync_phase := phase\<rparr>"
    have ok: "room_ok K ?room"
      using assms(3) by (simp add: room_ok_def)
    obtain room2 s2 where d: "(case po_entry oc of Some entry \<Rightarrow> deliver_room_post env oc nt entry ?room s1 | None \<Rightarrow> Some (?room, s1))
        = Some (room2, s2)" "room_ok K room2" "state_ok K s2"
    proof (cases "po_entry oc")
      case (Some e)
      then show thesis
        using wp_deliver [of oc K ?room s1 env nt e] r(2) [OF Inr] ok s1(2) that by (auto simp: wp_def)
    qed (use ok s1(2) that in auto)
    have "length (pr_out_path (record_synced_post_ts (rr_session room2) ts)) = MAX_PATH" for ts
      using d(2) by (simp add: room_ok_def upd)
    then show ?thesis
      unfolding handle_room_push_frame_def sec Option.bind.bind_lunit r(1) Inr
      using assms(3,4) s1 ph d
      by (simp add: wp_simps Let_def) (auto simp: room_ok_def upd intro!: wpD [OF wp_save_session])
  qed
qed

text \<open>Messages and requests.\<close>

lemma wp_location_pull:
  assumes "crypto_ok C" "curve_ok K" "env_ok K env" "key_ok K key" "state_ok K s"
  shows "wp (answer_location_pull C K env h key msg s) (state_ok K)"
  using assms(5) wp_policy(2) [OF assms(3)]
  by (auto simp: answer_location_pull_def wp_simps split: option.split
      intro!: wpD [OF wp_policy(2) [OF assms(3)]] wpD [OF wp_telemetry_reply [OF assms(1,2,4)]] wp_queue_frame)

lemma wp_accept_dm:
  assumes "crypto_ok C" "curve_ok K" "env_ok K env" "key_ok K key" "state_ok K s"
  shows "wp (accept_dm C K env h key ts tb msg s) (state_ok K)"
proof -
  have pull: "wp (answer_location_pull C K env h key msg t) (\<lambda>t. wp (queue_ack C env (compute_ack_hash C ts tb msg key) t) (state_ok K))"
    if "state_ok K t" for t
    using wp_location_pull [OF assms(1-4) that] by (rule wpD) (auto intro: wp_queue_ack)
  show ?thesis
    using assms(5)
    by (auto simp: accept_dm_def Let_def wp_simps intro!: wpD [OF wp_load_replay] wpD [OF wp_check] wpD [OF wp_save_replay]
        wpD [OF wp_append_history] pull)
qed

lemma wp_handle_dm:
  assumes "crypto_ok C" "curve_ok K" "env_ok K env" "state_ok K s" "length payload \<le> 260"
  shows "wp (handle_dm C K env payload s) (state_ok K)"
  using assms(4)
  by (auto simp: handle_dm_def Let_def wp_simps split: option.split intro!: wpD [OF wp_open [OF assms(1-3,5)]]
      wp_accept_dm [OF assms(1-3)])

lemma wp_handle_req:
  assumes "crypto_ok C" "curve_ok K" "env_ok K env" "state_ok K s" "length payload \<le> 260"
  shows "wp (handle_req C K env payload s) (state_ok K)"
  using assms(4)
  by (auto simp: handle_req_def Let_def wp_simps split: option.split intro!: wpD [OF wp_open [OF assms(1-3,5)]]
      wpD [OF wp_policy(2) [OF assms(3)]] wpD [OF wp_telemetry_response [OF assms(1,2)]] wp_queue_frame)

lemma wp_txt_msg:
  assumes "crypto_ok C" "curve_ok K" "env_ok K env" "state_ok K s" "length payload \<le> 260"
  shows "wp (handle_txt_msg C K env payload s) (state_ok K)"
proof (cases "room_index s (raw_hash payload 1)")
  case None
  then show ?thesis
    using wp_handle_dm [OF assms] by (simp add: handle_txt_msg_def)
next
  case (Some i)
  have room: "room_ok K (st_rooms s ! i)"
    using room_index_ok [OF assms(4) Some] .
  show ?thesis
    unfolding handle_txt_msg_def Some
    by (auto simp: wp_simps Let_def intro!: wpD [OF wp_room_push [OF assms(1,2) room assms(4,5)]] put_room_ok
        wp_handle_dm [OF assms(1-3) _ assms(5)])
qed

text \<open>The whole path; a direct login reply is the only frame whose length matters.\<close>

definition long_login_reply :: "bytes \<Rightarrow> bool" where
  "long_login_reply frame \<longleftrightarrow> (case parse_rx_frame_header frame of Inl _ \<Rightarrow> False
     | Inr h \<Rightarrow> drop_bit 2 (rx_header_byte h) AND 0x0F = ptype_u8 PT_Response \<and> rx_payload_off h + 36 < length frame)"

lemma wp_on_receive:
  assumes "crypto_ok C" "curve_ok K" "env_ok K env" "state_ok K s" "length frame \<le> 255" "\<not> long_login_reply frame"
  shows "wp (on_receive C K env frame s) (state_ok K)"
proof (cases "parse_rx_frame_header frame")
  case (Inr h)
  have off: "rx_payload_off h \<le> length frame"
    using Inr by (auto simp: parse_rx_frame_header_def Let_def split: option.splits if_splits)
  let ?p = "drop (rx_payload_off h) frame"
  have p: "length ?p \<le> 255" "length ?p \<le> 260"
    using assms(5) by simp_all
  have "length ?p \<le> 36" if "drop_bit 2 (rx_header_byte h) AND 0x0F = ptype_u8 PT_Response"
    using assms(6) that Inr by (simp add: long_login_reply_def)
  then show ?thesis
    using off assms(4) handle_ack_ok [OF assms(4)] wp_txt_msg [OF assms(1-4) p(2)] wp_handle_req [OF assms(1-4) p(2)]
      wp_login_response [OF assms(1,2,4)] wp_path_return [OF assms(1-4) p(2)] wp_grp_txt [OF assms(1,3,4) p(1)]
    by (simp add: on_receive_def Inr wp_simps Let_def)
qed (simp add: on_receive_def wp_simps assms(4))

section \<open>Effects are authenticated\<close>

abbreviation sealed :: "crypto_prims \<Rightarrow> bytes \<Rightarrow> bytes \<Rightarrow> 'e + 'a \<Rightarrow> bool" where
  "sealed C sec p r \<equiv> (\<forall>x. r = Inr x \<longrightarrow> envelope_ok C sec p)"

lemma mac_sealed: "wlp (mac_then_decrypt_var C k sec p buf) (\<lambda>(_, r). sealed C sec p r)"
  by (auto simp: mac_then_decrypt_var_eq wlp_def)

lemma dm_sealed: "wlp (decode_dm_payload C sec p buf) (\<lambda>(_, r). sealed C sec (drop 2 p) r)"
  by (auto simp: decode_dm_payload_def Let_def wp_simps dest!: mac_sealed [THEN wlpD] split: sum.split)

lemma push_sealed: "wlp (handle_room_push C sec p pk h recent) (sealed C sec (drop 2 p))"
proof -
  have "wlp (decode_room_push C sec p (zeros 256)) (\<lambda>(_, r). sealed C sec (drop 2 p) r)"
    by (auto simp: decode_room_push_def Let_def wp_simps dest!: dm_sealed [THEN wlpD] split: sum.split)
  from wlpD [OF this] show ?thesis
    by (auto simp: handle_room_push_def Let_def wp_simps split: sum.split)
qed

lemma login_sealed: "wlp (decode_login_response_datagram C sec p) (sealed C sec (drop 2 p))"
  by (auto simp: decode_login_response_datagram_def wp_simps dest!: dm_sealed [THEN wlpD] split: sum.split)

lemma path_sealed: "wlp (decode_path_return C sec p buf) (\<lambda>(_, r). sealed C sec (drop 2 p) r)"
  by (auto simp: decode_path_return_def wp_simps dest!: dm_sealed [THEN wlpD] split: sum.split)

lemma grp_sealed: "wlp (decode_grp_txt_var C sec p buf) (\<lambda>(_, r). sealed C sec (drop 1 p) r)"
  unfolding decode_grp_txt_var_def Let_def
  by (auto simp: wp_simps simp del: drop_Suc dest!: mac_sealed [THEN wlpD] split: sum.split)

definition authentic :: "crypto_prims \<Rightarrow> curve_prims \<Rightarrow> 's RxEnv \<Rightarrow> bytes \<Rightarrow> bytes \<Rightarrow> bool" where
  "authentic C K env key payload \<longleftrightarrow>
     (\<exists>sec. ecdh_shared_secret K (env_id env) key = Some sec \<and> envelope_ok C sec (drop 2 payload))"

text \<open>The keys of the peers a source hash can stand for: the contact the allowlist finds and the room.\<close>

definition peer_key :: "'s RxEnv \<Rightarrow> 's RxState \<Rightarrow> u8 \<Rightarrow> bytes \<Rightarrow> bool" where
  "peer_key env s h key \<longleftrightarrow> (allow_inbound_dm (env_policy env) h = Some True \<and> contact_pubkey (env_policy env) h = Some (Some key))
     \<or> (\<exists>i. room_index s h = Some i \<and> key = rr_pubkey (st_rooms s ! i))"

lemma open_authentic:
  "wlp (open_from_contact C K env payload)
    (\<lambda>r. \<forall>key b n. r = Some (key, b, n) \<longrightarrow> peer_key env s (raw_hash payload 1) key \<and> authentic C K env key payload)"
  unfolding open_from_contact_def Let_def
  by (auto simp: wp_simps peer_key_def authentic_def dest!: dm_sealed [THEN wlpD] split: sum.split)

lemma put_same_room: "room_index s h = Some i \<Longrightarrow> put_room i (st_rooms s ! i) s = s"
  by (simp add: put_room_def)

lemma push_authentic:
  assumes "\<not> authentic C K env (rr_pubkey room) payload"
  shows "wlp (handle_room_push_frame C K env payload room s) (\<lambda>(room', s', _). room' = room \<and> s' = s)"
  using assms unfolding authentic_def
  by (auto simp: handle_room_push_frame_def wp_simps dest!: push_sealed [THEN wlpD] split: sum.split)

definition unauthentic :: "crypto_prims \<Rightarrow> curve_prims \<Rightarrow> 's RxEnv \<Rightarrow> 's RxState \<Rightarrow> bytes \<Rightarrow> bool" where
  "unauthentic C K env s payload \<longleftrightarrow> (\<forall>key. peer_key env s (raw_hash payload 1) key \<longrightarrow> \<not> authentic C K env key payload)"

lemma open_unauthentic: "unauthentic C K env s payload \<Longrightarrow> open_from_contact C K env payload \<noteq> Some (Some x)"
  using open_authentic [of C K env payload s] by (cases x) (auto simp: unauthentic_def wlp_def)

lemma dm_unauthentic: "unauthentic C K env s payload \<Longrightarrow> wlp (handle_dm C K env payload s) (\<lambda>s'. s' = s)"
  by (auto simp: handle_dm_def wp_simps open_unauthentic split: option.split)

lemma req_unauthentic: "unauthentic C K env s payload \<Longrightarrow> wlp (handle_req C K env payload s) (\<lambda>s'. s' = s)"
  by (auto simp: handle_req_def wp_simps open_unauthentic split: option.split)

lemma txt_unauthentic:
  assumes "unauthentic C K env s payload"
  shows "wlp (handle_txt_msg C K env payload s) (\<lambda>s'. s' = s)"
proof (cases "room_index s (raw_hash payload 1)")
  case None
  then show ?thesis
    using dm_unauthentic [OF assms] by (simp add: handle_txt_msg_def)
next
  case (Some i)
  then have "\<not> authentic C K env (rr_pubkey (st_rooms s ! i)) payload"
    using assms by (auto simp: unauthentic_def peer_key_def)
  from push_authentic [OF this, of s] show ?thesis
    using dm_unauthentic [OF assms] put_same_room [OF Some]
    unfolding handle_txt_msg_def Some by (auto simp: wp_simps Let_def dest: wlpD)
qed

lemma login_unauthentic:
  assumes "unauthentic C K env s payload"
  shows "wlp (handle_room_login_response C K env payload s) (\<lambda>s'. s' = s)"
proof (cases "room_index s (raw_hash payload 1)")
  case (Some i)
  then show ?thesis
    using assms unfolding handle_room_login_response_def Some authentic_def unauthentic_def peer_key_def
    by (auto simp: wp_simps Let_def dest!: login_sealed [THEN wlpD] split: sum.split)
qed (simp add: handle_room_login_response_def wp_simps)

lemma path_unauthentic:
  assumes "unauthentic C K env s payload"
  shows "wlp (handle_path_return C K env payload s) (\<lambda>s'. s' = s)"
  using assms unfolding handle_path_return_def Let_def authentic_def unauthentic_def peer_key_def
  by (auto simp: wp_simps dest!: path_sealed [THEN wlpD] split: sum.split)

lemma grp_unauthentic:
  assumes "\<And>sec. env_channel_secret env = Some sec \<Longrightarrow> \<not> (raw_hash payload 0 = channel_hash_var C sec \<and> envelope_ok C sec (drop 1 payload))"
  shows "wlp (handle_grp_txt C env payload s) (\<lambda>s'. s' = s)"
proof (cases "env_channel_secret env")
  case (Some sec)
  show ?thesis
    using assms [OF Some] unfolding handle_grp_txt_def Some Let_def
    by (auto simp: wp_simps raw_hash_def get_opt_def dest!: grp_sealed [THEN wlpD] split: sum.split)
qed (simp add: handle_grp_txt_def wp_simps)

lemma scan_unmatched: "\<forall>r \<in> set rooms. rr_pending_keep_alive_ack r \<noteq> Some got \<Longrightarrow> keep_alive_scan got payload now rooms = None"
  by (induction rooms) auto

lemma ack_unmatched:
  assumes "\<forall>s \<in> set (live_sends (st_outstanding st)). os_ack_hash s \<noteq> take 4 payload"
    and "\<forall>r \<in> set (st_rooms st). rr_pending_keep_alive_ack r \<noteq> Some (take 4 payload)"
  shows "handle_ack env payload st = st"
proof -
  obtain o' r where r: "sends_resolve (st_outstanding st) (take 4 payload) = (o', r)"
    by (cases "sends_resolve (st_outstanding st) (take 4 payload)")
  have "r = None"
  proof (cases r)
    case (Some x)
    then have hash: "os_ack_hash x = take 4 payload" and "x \<in># mset (live_sends (st_outstanding st))"
      using resolve_split [OF r] by simp_all
    then have "x \<in> set (live_sends (st_outstanding st))"
      by simp
    then show ?thesis
      using assms(1) hash by blast
  qed
  then have "r = None" "o' = st_outstanding st"
    using resolve_split [OF r] by simp_all
  then show ?thesis
    using r scan_unmatched [OF assms(2)] by (simp add: handle_ack_def match_outstanding_ack_def Let_def)
qed

section \<open>Runs\<close>

lemma parse_header_byte: "parse_rx_frame_header frame = Inr h \<Longrightarrow> rx_header_byte h = frame ! 0"
  by (auto simp: parse_rx_frame_header_def Let_def get_opt_def split: option.splits if_splits)

text \<open>A boot's worth of received frames, each with what the loop passes beside it.\<close>

fun receive_all :: "crypto_prims \<Rightarrow> curve_prims \<Rightarrow> ('s RxEnv \<times> bytes) list \<Rightarrow> 's RxState \<Rightarrow> 's RxState rust" where
  "receive_all C K [] s = Some s"
| "receive_all C K ((env, frame) # rest) s = do {
     s \<leftarrow> on_receive C K env frame s;
     receive_all C K rest s
   }"

lemma wp_receive_all:
  assumes "crypto_ok C" "curve_ok K" "state_ok K s"
    and "\<forall>(env, frame) \<in> set run. env_ok K env \<and> length frame \<le> 255 \<and> \<not> long_login_reply frame"
  shows "wp (receive_all C K run s) (state_ok K)"
  using assms(3,4)
proof (induction run arbitrary: s)
  case (Cons x run)
  then show ?case
    by (cases x) (auto simp: wp_simps intro!: wpD [OF wp_on_receive [OF assms(1,2)]])
qed (simp add: wp_simps)

lemma receive_all_txq:
  assumes "\<forall>(env, frame) \<in> set run. region_emission (env_region env) = None"
  shows "wlp (receive_all C K run s) (keeps_txq s)"
  using assms
proof (induction run arbitrary: s)
  case (Cons x run)
  obtain env frame where x: "x = (env, frame)"
    by (cases x)
  then have "region_emission (env_region env) = None"
    using Cons.prems by auto
  note one = on_receive_txq [OF this, THEN wlpD]
  have rest: "wlp (receive_all C K run t) (keeps_txq t)" for t
    using Cons by auto
  then show ?case
    by (auto simp: x wp_simps intro!: wlpI dest!: one rest [THEN wlpD])
qed (simp add: wp_simps)

text \<open>A configuration of two nodes to evaluate on.\<close>

definition demo_state :: "demo_store RxState" where
  "demo_state = \<lparr>st_txq = TxQueue_new, st_outstanding = OutstandingSends_new, st_events = [], st_rooms = [], st_clock = None,
     st_history = [], st_nvs = (\<lambda>_. None, [])\<rparr>"

definition demo_env :: "RegionScope \<Rightarrow> PolicyFilter \<Rightarrow> demo_store RxEnv" where
  "demo_env region policy = \<lparr>env_id = from_seed demo_curve (replicate 32 5), env_policy = policy, env_channel_secret = None,
     env_gps = None, env_battery = BatteryStatus_unknown, env_now_ms = 1000, env_tx_epoch_base = 0,
     env_display_names = (\<lambda>_. None), env_gps_verified = False, env_region = region,
     env_nvs = demo_nvs\<rparr>"

lemma demo_state_ok: "state_ok K demo_state"
  by (simp add: state_ok_def demo_state_def TxQueue_new_def tq_invar_def TX_QUEUE_SLOTS_def FRAME_BUF_def list_all_iff)

lemma demo_env_ok: "env_ok demo_curve (demo_env region PolicyFilter_new)"
  by (simp add: env_ok_def demo_env_def policy.invar_fresh policy.live_fresh)

section \<open>The two panics\<close>

text \<open>Decrypting into a buffer shorter than the ciphertext.\<close>

lemma ecb_loop_fits:
  assumes "\<And>b. length b = 16 \<Longrightarrow> length (aes_decrypt_block C key b) = 16"
  shows "ecb_decrypt_loop C key ct n i out = Some out' \<Longrightarrow> 0 < n \<Longrightarrow> (i + n) * 16 \<le> length out"
proof (induction n arbitrary: i out)
  case (Suc n)
  obtain blk out1 where b: "slice ct (i * 16) ((i + 1) * 16) = Some blk"
    "copy_into out (i * 16) (aes_decrypt_block C key blk) = Some out1" "ecb_decrypt_loop C key ct n (Suc i) out1 = Some out'"
    using Suc.prems(1) by (auto simp: bind_eq_Some_conv)
  have "length blk = 16"
    using b(1) by (auto simp: slice_def split: if_splits)
  then have "i * 16 + 16 \<le> length out" "length out1 = length out"
    using b(2) assms by (auto simp: copy_into_def split: if_splits)
  then show ?case
    using Suc.IH [OF b(3)] by (cases "n = 0") simp_all
qed simp

lemma decrypt_overflow:
  assumes "crypto_ok C" "length sec = 32" "length buf < ceil_16 (length pt)"
  shows "decode_dm_payload C sec (d # r # seal C (take 16 sec) sec pt) buf = panic"
proof -
  have key: "length (take 16 sec) = 16"
    using assms(2) by simp
  have len: "length (drop 2 (seal C (take 16 sec) sec pt)) = ceil_16 (length pt)"
    using assms(1) key by simp
  have c: "ceil_16 (length pt) div 16 * 16 = ceil_16 (length pt)"
    using ceil_16_mod [of "length pt"] div_mult_mod_eq [of "ceil_16 (length pt)" 16] by simp
  then have pos: "0 < ceil_16 (length pt) div 16"
    using assms(3) by (cases "ceil_16 (length pt) div 16") simp_all
  define ct where "ct = drop 2 (seal C (take 16 sec) sec pt)"
  have "aes128_ecb_decrypt C (take 16 sec) ct buf = None"
  proof (rule ccontr)
    assume "aes128_ecb_decrypt C (take 16 sec) ct buf \<noteq> None"
    then obtain o' where "ecb_decrypt_loop C (take 16 sec) ct (ceil_16 (length pt) div 16) 0 buf = Some o'"
      using len unfolding ct_def [symmetric] by (auto simp: aes128_ecb_decrypt_def bind_eq_Some_conv)
    from ecb_loop_fits [OF _ this pos] have "ceil_16 (length pt) \<le> length buf"
      using c crypto_okD(2) [OF assms(1) key] by simp
    then show False
      using assms(3) by simp
  qed
  then show ?thesis
    using assms(1,2) by (simp add: decode_dm_payload_def slice_def Let_def mac_then_decrypt_var_eq ct_def)
qed

lemma login_overflow:
  assumes "crypto_ok C" "length sec = 32" "32 < length pt"
  shows "decode_login_response_datagram C sec (d # r # seal C (take 16 sec) sec pt) = panic"
proof -
  have "length (zeros 32) < ceil_16 (length pt)"
    using assms(3) ceil_16_ge [of "length pt"] by simp
  from decrypt_overflow [OF assms(1,2) this] show ?thesis
    by (simp add: decode_login_response_datagram_def)
qed

lemma rx_dispatch:
  assumes "parse_rx_frame_header frame = Inr h"
  shows "rx_payload_off h \<le> length frame"
  using assms by (auto simp: parse_rx_frame_header_def Let_def split: option.splits if_splits)

lemma ptype_nibble:
  assumes "payload_type (rx_header_byte h) = Some t"
  shows "drop_bit 2 (rx_header_byte h) AND 0x0F = ptype_u8 t"
proof -
  define v where "v = drop_bit 2 (rx_header_byte h) AND (0x0F :: u8)"
  show ?thesis
    using assms unfolding payload_type_def PH_TYPE_SHIFT_def Let_def v_def [symmetric]
    by (cases t) (auto split: if_splits)
qed

text \<open>An unscoped frame around a payload.\<close>

definition flood_frame :: "PayloadType \<Rightarrow> bytes \<Rightarrow> bytes" where
  "flood_frame pt payload = mk_frame (Header_new RT_Flood pt) [] 0x40 [] payload"

lemma flood_frame_parses:
  obtains h where "parse_rx_frame_header (flood_frame pt p) = Inr h" "payload_type (rx_header_byte h) = Some pt"
    "drop (rx_payload_off h) (flood_frame pt p) = p" "drop_bit 2 (rx_header_byte h) AND 0x0F = ptype_u8 pt"
    "slice_from (flood_frame pt p) (rx_payload_off h) = Some p"
proof -
  have "wf_frame (Header_new RT_Flood pt) [] 0x40 []"
    by (simp add: wf_frame_def is_valid_iff wire_simps hop_count_def)
  note parse = parse_mk_frame [OF this, of p]
  show thesis
    by (rule that [OF parse [folded flood_frame_def]]) (simp_all add: flood_frame_def mk_frame_def slice_from_def)
qed

section \<open>Properties\<close>

text \<open>C2: receiving never panics and keeps the state well formed: in a configuration whose contact and room keys
  are points of the curve and whose channel secret has at least sixteen bytes, any sequence of radio
  frames of at most 255 bytes, hostile or not, is processed to the end, except direct login replies longer
  than 36 bytes; in the result the transmit queue and every room session are again well formed.\<close>

theorem rx_never_panics:
  assumes "crypto_ok C" "curve_ok K" "state_ok K s"
    and "\<forall>(env, frame) \<in> set run. env_ok K env \<and> length frame \<le> 255 \<and> \<not> long_login_reply frame"
  shows "\<exists>s'. receive_all C K run s = Some s' \<and> state_ok K s'"
  using wp_receive_all [OF assms] by (simp add: wp_def)

theorem rx_never_panics_witness:
  "\<exists>s'. receive_all demo_prims demo_curve [(demo_env Unscoped PolicyFilter_new, 9 # replicate 199 8)] demo_state = Some s'"
proof -
  have "\<not> long_login_reply (9 # replicate 199 8)"
    using parse_header_byte [of "9 # replicate 199 8"] by (auto simp: long_login_reply_def split: sum.split)
  then show ?thesis
    using rx_never_panics [OF demo_prims_ok demo_curve_ok demo_state_ok, of "[(demo_env Unscoped PolicyFilter_new, 9 # replicate 199 8)]"]
      demo_env_ok by auto
qed

text \<open>C5: a device that cannot key its region answers nothing: whatever frames it receives, no acknowledgement, no
  location answer and no telemetry response enters the transmit queue.\<close>

theorem rx_fails_closed:
  assumes "\<forall>(env, frame) \<in> set run. \<exists>e. env_region env = Unusable e" "receive_all C K run s = Some s'"
  shows "st_txq s' = st_txq s"
proof -
  have "\<forall>(env, frame) \<in> set run. region_emission (env_region env) = None"
    using assms(1) by (auto simp: region_emission_def emission_def)
  then show ?thesis
    using wlpD [OF receive_all_txq assms(2)] by blast
qed

theorem rx_fails_closed_witness:
  "\<exists>s'. receive_all demo_prims demo_curve [(demo_env (Unusable RSE_StoreUnavailable) PolicyFilter_new, 9 # replicate 199 8)] demo_state = Some s'
     \<and> st_txq s' = TxQueue_new"
proof -
  let ?run = "[(demo_env (Unusable RSE_StoreUnavailable) PolicyFilter_new, 9 # replicate 199 (8 :: u8))]"
  have "\<not> long_login_reply (9 # replicate 199 8)"
    using parse_header_byte [of "9 # replicate 199 8"] by (auto simp: long_login_reply_def split: sum.split)
  then obtain s' where s': "receive_all demo_prims demo_curve ?run demo_state = Some s'"
    using wp_receive_all [OF demo_prims_ok demo_curve_ok demo_state_ok, of ?run] demo_env_ok by (auto simp: wp_def)
  have "\<forall>(env, frame) \<in> set ?run. \<exists>e. env_region env = Unusable e"
    by (simp add: demo_env_def)
  from rx_fails_closed [OF this s'] s' show ?thesis
    by (simp add: demo_state_def)
qed

text \<open>C1: every effect of a received frame is authenticated.  If processing a frame changes anything at all (the
  queue, the pending sends, the rooms, the clock, the history, the stores or the screen), then it is an
  acknowledgement of a pending send or of a room's pending keep-alive, or its MAC is right under the
  pairwise key with the allowlisted contact or provisioned room of its source hash, or it is a group
  message whose MAC is right under the provisioned channel secret.\<close>

theorem rx_effects_authenticated:
  assumes "on_receive C K env frame s = Some s'" "s' \<noteq> s"
  shows "\<exists>h p t. parse_rx_frame_header frame = Inr h \<and> p = drop (rx_payload_off h) frame
    \<and> t = drop_bit 2 (rx_header_byte h) AND 0x0F
    \<and> (t = ptype_u8 PT_Ack \<and> ((\<exists>send \<in> set (live_sends (st_outstanding s)). os_ack_hash send = take 4 p)
          \<or> (\<exists>room \<in> set (st_rooms s). rr_pending_keep_alive_ack room = Some (take 4 p)))
      \<or> t \<in> ptype_u8 ` {PT_TxtMsg, PT_Req, PT_Response, PT_Path}
          \<and> (\<exists>key. peer_key env s (raw_hash p 1) key \<and> authentic C K env key p)
      \<or> t = ptype_u8 PT_GrpTxt \<and> (\<exists>sec. env_channel_secret env = Some sec \<and> raw_hash p 0 = channel_hash_var C sec
          \<and> envelope_ok C sec (drop 1 p)))"
proof (cases "parse_rx_frame_header frame")
  case (Inr h)
  let ?p = "drop (rx_payload_off h) frame" and ?t = "drop_bit 2 (rx_header_byte h) AND 0x0F"
  have p: "slice_from frame (rx_payload_off h) = Some ?p"
    using rx_dispatch [OF Inr] by (simp add: slice_from_def)
  have run: "(if ?t = ptype_u8 PT_TxtMsg then handle_txt_msg C K env ?p s
        else if ?t = ptype_u8 PT_Req then handle_req C K env ?p s
        else if ?t = ptype_u8 PT_Ack then Some (handle_ack env ?p s)
        else if ?t = ptype_u8 PT_Response then handle_room_login_response C K env ?p s
        else if ?t = ptype_u8 PT_Path then handle_path_return C K env ?p s
        else if ?t = ptype_u8 PT_GrpTxt then handle_grp_txt C env ?p s else Some s) = Some s'"
    using assms(1) p by (simp only: on_receive_def Inr sum.case Option.bind.bind_lunit Let_def)
  have peer: "\<exists>key. peer_key env s (raw_hash ?p 1) key \<and> authentic C K env key ?p"
    if "wlp (f s) (\<lambda>s'. s' = s) \<or> \<not> unauthentic C K env s ?p" "f s = Some s'" for f
    using that assms(2) by (auto simp: unauthentic_def wlp_def)
  consider (txt_msg) "?t = ptype_u8 PT_TxtMsg" "handle_txt_msg C K env ?p s = Some s'"
    | (req) "?t = ptype_u8 PT_Req" "handle_req C K env ?p s = Some s'"
    | (ack) "?t = ptype_u8 PT_Ack" "handle_ack env ?p s = s'"
    | (response) "?t = ptype_u8 PT_Response" "handle_room_login_response C K env ?p s = Some s'"
    | (path) "?t = ptype_u8 PT_Path" "handle_path_return C K env ?p s = Some s'"
    | (grp) "?t = ptype_u8 PT_GrpTxt" "handle_grp_txt C env ?p s = Some s'"
    using run assms(2) by (simp only: option.inject simp_thms split: if_splits)
  then have "?t = ptype_u8 PT_Ack \<and> ((\<exists>send \<in> set (live_sends (st_outstanding s)). os_ack_hash send = take 4 ?p)
          \<or> (\<exists>room \<in> set (st_rooms s). rr_pending_keep_alive_ack room = Some (take 4 ?p)))
      \<or> ?t \<in> ptype_u8 ` {PT_TxtMsg, PT_Req, PT_Response, PT_Path}
          \<and> (\<exists>key. peer_key env s (raw_hash ?p 1) key \<and> authentic C K env key ?p)
      \<or> ?t = ptype_u8 PT_GrpTxt \<and> (\<exists>sec. env_channel_secret env = Some sec \<and> raw_hash ?p 0 = channel_hash_var C sec
          \<and> envelope_ok C sec (drop 1 ?p))"
  proof cases
    case txt_msg
    then have "\<exists>key. peer_key env s (raw_hash ?p 1) key \<and> authentic C K env key ?p"
      using peer [of "handle_txt_msg C K env ?p"] txt_unauthentic by blast
    then show ?thesis
      using txt_msg(1) by simp
  next
    case req
    then have "\<exists>key. peer_key env s (raw_hash ?p 1) key \<and> authentic C K env key ?p"
      using peer [of "handle_req C K env ?p"] req_unauthentic by blast
    then show ?thesis
      using req(1) by simp
  next
    case response
    then have "\<exists>key. peer_key env s (raw_hash ?p 1) key \<and> authentic C K env key ?p"
      using peer [of "handle_room_login_response C K env ?p"] login_unauthentic by blast
    then show ?thesis
      using response(1) by simp
  next
    case path
    then have "\<exists>key. peer_key env s (raw_hash ?p 1) key \<and> authentic C K env key ?p"
      using peer [of "handle_path_return C K env ?p"] path_unauthentic by blast
    then show ?thesis
      using path(1) by simp
  next
    case ack
    then have "handle_ack env ?p s \<noteq> s"
      using assms(2) by simp
    then show ?thesis
      using ack_unmatched [of s ?p env] ack(1) by blast
  next
    case grp
    then have "\<exists>sec. env_channel_secret env = Some sec \<and> raw_hash ?p 0 = channel_hash_var C sec \<and> envelope_ok C sec (drop 1 ?p)"
      using grp_unauthentic [of env ?p C s, THEN wlpD] assms(2) by blast
    then show ?thesis
      using grp(1) by blast
  qed
  then show ?thesis
    by (intro exI conjI) (rule Inr refl | assumption)+
qed (use assms in \<open>simp add: on_receive_def\<close>)

theorem rx_effects_authenticated_witness:
  "\<exists>s'. on_receive demo_prims demo_curve (demo_env Unscoped PolicyFilter_new) (flood_frame PT_Ack [1, 2, 3, 4])
      (demo_state\<lparr>st_outstanding := [Some demo_send]\<rparr>) = Some s' \<and> s' \<noteq> demo_state\<lparr>st_outstanding := [Some demo_send]\<rparr>
    \<and> (\<exists>h. parse_rx_frame_header (flood_frame PT_Ack [1, 2, 3, 4]) = Inr h)"
proof -
  let ?s = "demo_state\<lparr>st_outstanding := [Some demo_send]\<rparr>" and ?env = "demo_env Unscoped PolicyFilter_new"
  let ?s' = "handle_ack ?env [1, 2, 3, 4] ?s"
  obtain h where h: "parse_rx_frame_header (flood_frame PT_Ack [1, 2, 3, 4]) = Inr h"
    "drop_bit 2 (rx_header_byte h) AND 0x0F = ptype_u8 PT_Ack" "slice_from (flood_frame PT_Ack [1, 2, 3, 4]) (rx_payload_off h) = Some [1, 2, 3, 4]"
    by (rule flood_frame_parses)
  then have run: "on_receive demo_prims demo_curve ?env (flood_frame PT_Ack [1, 2, 3, 4]) ?s = Some ?s'"
    by (simp add: on_receive_def Let_def)
  have "st_events ?s' \<noteq> st_events ?s"
    by (simp add: handle_ack_def match_outstanding_ack_def demo_send_def emit_event_def Let_def)
  then have neq: "?s' \<noteq> ?s"
    by metis
  from rx_effects_authenticated [OF run neq] show ?thesis
    using run neq by blast
qed

text \<open>C6: a contact key that is not a point of the curve is fatal.  Once the allowlist holds such a key for a hash byte, any
  request or path return that names this hash as its source panics the device, whatever the rest of the frame
  holds, and so does any text message when no configured room has the hash (a text message from the hash of a room is
  first looked at as a push of the room).\<close>

theorem bad_contact_key_panics:
  assumes "curve_ok K" "parse_rx_frame_header frame = Inr h" "p = drop (rx_payload_off h) frame"
    and "payload_type (rx_header_byte h) = Some t"
    and "t = PT_TxtMsg \<and> room_index s (raw_hash p 1) = None \<or> t = PT_Req \<or> t = PT_Path"
    and "allow_inbound_dm (env_policy env) (raw_hash p 1) = Some True" "contact_pubkey (env_policy env) (raw_hash p 1) = Some (Some key)"
    and "edwards_to_montgomery K key = None"
  shows "on_receive C K env frame s = panic"
proof -
  have sl: "slice_from frame (rx_payload_off h) = Some p"
    using rx_dispatch [OF assms(2)] assms(3) by (simp add: slice_from_def)
  have sec: "ecdh_shared_secret K (env_id env) key = None"
    using assms(1,8) by (simp add: ecdh_spec curve_ok_def)
  have "open_from_contact C K env p = None"
    unfolding open_from_contact_def Let_def using assms(6,7) sec by simp
  then have "handle_dm C K env p s = None" "handle_req C K env p s = None"
    unfolding handle_dm_def handle_req_def Let_def by simp_all
  moreover have "handle_path_return C K env p s = None"
    unfolding handle_path_return_def Let_def using assms(6,7) sec by simp
  ultimately show ?thesis
    using sl assms(5) ptype_nibble [OF assms(4)]
    by (elim disjE conjE) (simp_all add: on_receive_def handle_txt_msg_def assms(2) Let_def)
qed

theorem bad_contact_key_panics_witness:
  "\<exists>policy. pf_add_contact PolicyFilter_new (7 # zeros 31) False = Some policy
    \<and> on_receive demo_prims (demo_curve\<lparr>edwards_to_montgomery := (\<lambda>p. if p = 7 # zeros 31 then None else Some p)\<rparr>)
        (demo_env Unscoped policy) (flood_frame PT_TxtMsg [5, 7]) demo_state = panic"
proof -
  let ?K = "demo_curve\<lparr>edwards_to_montgomery := (\<lambda>p. if p = 7 # zeros 31 then None else Some p)\<rparr>"
  have "ed25519_public demo_curve seed \<noteq> 7 # zeros 31" for seed
  proof
    assume "ed25519_public demo_curve seed = 7 # zeros 31"
    then have "ed25519_public demo_curve seed ! 31 = 0"
      by simp
    moreover have "ed25519_public demo_curve seed ! 31 = (take 32 (seed @ zeros 64) ! 31 AND 127) OR 64"
      by (simp add: demo_curve_def Let_def)
    moreover have "bit ((b AND 127) OR (64 :: u8)) 6" for b
      by (simp add: bit_simps)
    ultimately show False
      by (metis bit_0_eq bot_apply bot_bool_def)
  qed
  moreover have "scalar_of ?K seed = scalar_of demo_curve seed" for seed
    by (simp add: scalar_of_def)
  moreover have "edwards_to_montgomery demo_curve p = Some p" for p
    by (simp add: demo_curve_def)
  ultimately have curve: "curve_ok ?K"
    using demo_curve_ok by (simp add: curve_ok_def)
  obtain policy where add: "pf_add_contact PolicyFilter_new (7 # zeros 31) False = Some policy"
    and look: "allow_inbound_dm policy 7 = Some True" "contact_pubkey policy 7 = Some (Some (7 # zeros 31))"
    using policy_admits_first_16 [of "[(7 # zeros 31, False)]" 7] by (auto simp: bind_eq_Some_conv)
  obtain h where h: "parse_rx_frame_header (flood_frame PT_TxtMsg [5, 7]) = Inr h" "payload_type (rx_header_byte h) = Some PT_TxtMsg"
    "drop (rx_payload_off h) (flood_frame PT_TxtMsg [5, 7]) = [5, 7]"
    by (rule flood_frame_parses)
  have "raw_hash [5, 7] 1 = 7"
    by (simp add: raw_hash_def get_opt_def)
  then have "on_receive demo_prims ?K (demo_env Unscoped policy) (flood_frame PT_TxtMsg [5, 7]) demo_state = panic"
    using look by (intro bad_contact_key_panics [OF curve h(1) h(3) [symmetric] h(2)])
      (simp_all add: demo_env_def room_index_def demo_state_def)
  with add show ?thesis
    by blast
qed

text \<open>an over-long login reply is fatal: a direct response of a provisioned room whose plaintext has more than 32
  bytes passes the MAC and then overruns the 32-byte buffer it is decrypted into.\<close>

theorem long_login_reply_panics:
  assumes "crypto_ok C" "parse_rx_frame_header frame = Inr h" "payload_type (rx_header_byte h) = Some PT_Response"
    and "drop (rx_payload_off h) frame = id_pub_hash (env_id env) # r # seal C (take 16 sec) sec pt" "room_index s r = Some i"
    and "ecdh_shared_secret K (env_id env) (rr_pubkey (st_rooms s ! i)) = Some sec" "length sec = 32" "32 < length pt"
  shows "on_receive C K env frame s = panic"
proof -
  let ?p = "id_pub_hash (env_id env) # r # seal C (take 16 sec) sec pt"
  have sl: "slice_from frame (rx_payload_off h) = Some ?p"
    using rx_dispatch [OF assms(2)] assms(4) by (simp add: slice_from_def)
  have "handle_room_login_response C K env ?p s = None"
    using assms(5,6) login_overflow [OF assms(1,7,8)]
    by (simp add: handle_room_login_response_def raw_hash_def get_opt_def is_room_frame_for_us_def Let_def)
  then show ?thesis
    using sl ptype_nibble [OF assms(3)] by (simp add: on_receive_def assms(2) Let_def)
qed

definition demo_room_runtime :: RoomRuntime where
  "demo_room_runtime = \<lparr>rr_pubkey = id_pubkey (from_seed demo_curve (replicate 32 9)), rr_hash = 9, rr_guest_password = zeros 16,
     rr_guest_password_len = 0, rr_session = PersistedRoomSession_EMPTY, rr_session_epoch = 0, rr_login_sent = True,
     rr_last_keep_alive_ms = 0, rr_last_reflood_ms = 0, rr_reflood_attempts = 0, rr_sync_phase = new_after_login 0,
     rr_pending_keep_alive_ack = None, rr_keep_alive_stall = stall_new, rr_resync_pending = False, rr_recent = []\<rparr>"

theorem long_login_reply_panics_witness:
  "\<exists>payload. length payload = 52 \<and> on_receive demo_prims demo_curve (demo_env Unscoped PolicyFilter_new)
     (flood_frame PT_Response payload) (demo_state\<lparr>st_rooms := [demo_room_runtime]\<rparr>) = panic"
proof -
  let ?env = "demo_env Unscoped PolicyFilter_new" and ?s = "demo_state\<lparr>st_rooms := [demo_room_runtime]\<rparr>"
  obtain sec where sec: "ecdh_shared_secret demo_curve (env_id ?env) (rr_pubkey (st_rooms ?s ! 0)) = Some sec" "length sec = 32"
    using ecdh_agree [OF demo_curve_ok, of "replicate 32 5" "replicate 32 9"] by (auto simp: demo_env_def demo_room_runtime_def)
  let ?p = "id_pub_hash (env_id ?env) # 9 # seal demo_prims (take 16 sec) sec (zeros 33)"
  obtain h where h: "parse_rx_frame_header (flood_frame PT_Response ?p) = Inr h" "payload_type (rx_header_byte h) = Some PT_Response"
    "drop (rx_payload_off h) (flood_frame PT_Response ?p) = ?p"
    by (rule flood_frame_parses)
  have "room_index ?s 9 = Some 0"
    by (simp add: room_index_def demo_room_runtime_def)
  from long_login_reply_panics [OF demo_prims_ok h this sec]
  have "on_receive demo_prims demo_curve ?env (flood_frame PT_Response ?p) ?s = panic"
    by simp
  moreover have "length ?p = 52"
    using sec(2) length_seal [OF demo_prims_ok, of "take 16 sec"] by (simp add: ceil_16_def div_ceil_16_def)
  ultimately show ?thesis
    by blast
qed

end
