(* ===== verification/Rx_Delivery.thy ===== *)
theory Rx_Delivery
  imports Rx_Safety
begin

text \<open>
  A direct message from one device to another: what the sender builds, what the receiver does with it,
  how its acknowledgement settles the send, and what a second copy of the frame does.
\<close>

section \<open>Queueing\<close>

lemma enqueue_snoc:
  assumes "tq_invar q"
  shows "wp (enqueue q frame tag) (\<lambda>(q', dropped). tq_invar q' \<and> (\<exists>before. tq_view q' = before @ [(take 255 frame, tag)])
    \<and> tq_count q' \<le> Suc (tq_count q) \<and> (tq_count q < 4 \<longrightarrow> dropped = None))"
proof (cases "tq_count q = 4")
  case True
  then show ?thesis
    using assms wp_enqueue [OF assms, of frame tag] tq_view_full [OF assms True, of frame tag]
    by (auto simp: wp_def enqueue_write)
next
  case False
  then show ?thesis
    using assms wp_enqueue [OF assms, of frame tag] tq_view_room [of q frame tag]
    by (auto simp: wp_def enqueue_write tq_invar_def [of q])
qed

text \<open>What queueing at most \<open>k\<close> frames leaves alone: nothing but the queue changes, except that a send whose frame is
  evicted is reported undelivered; without eviction there is no such report.\<close>

definition undelivered :: "UiEvent \<Rightarrow> bool" where
  "undelivered e \<longleftrightarrow> (case e of UI_DmUndelivered _ _ _ \<Rightarrow> True | _ \<Rightarrow> False)"

definition queued :: "nat \<Rightarrow> 's RxState \<Rightarrow> 's RxState \<Rightarrow> bool" where
  "queued k s s' \<longleftrightarrow> st_history s' = st_history s \<and> st_nvs s' = st_nvs s \<and> st_rooms s' = st_rooms s
     \<and> st_clock s' = st_clock s \<and> tq_invar (st_txq s') \<and> tq_count (st_txq s') \<le> tq_count (st_txq s) + k
     \<and> (\<exists>evs. st_events s' = st_events s @ evs \<and> list_all undelivered evs
          \<and> (tq_count (st_txq s) + k \<le> 4 \<longrightarrow> evs = []))"

lemma queued_refl: "tq_invar (st_txq s) \<Longrightarrow> queued k s s"
  by (simp add: queued_def)

lemma queued_trans: "queued j a b \<Longrightarrow> queued k b c \<Longrightarrow> queued (j + k) a c"
  by (auto simp: queued_def)

lemma eviction_records:
  fixes s :: "'s RxState" and dropped :: "(nat \<times> bytes option) option"
  shows "\<exists>evs. st_events (log_tx_queue_eviction dropped s) = st_events s @ evs \<and> list_all undelivered evs \<and> (dropped = None \<longrightarrow> evs = [])"
  "st_history (log_tx_queue_eviction dropped s) = st_history s" "st_nvs (log_tx_queue_eviction dropped s) = st_nvs s"
  "st_rooms (log_tx_queue_eviction dropped s) = st_rooms s" "st_clock (log_tx_queue_eviction dropped s) = st_clock s"
  "st_txq (log_tx_queue_eviction dropped s) = st_txq s"
  by (auto simp: log_tx_queue_eviction_def undelivered_def delivery_event_def split: option.split prod.split)

lemma queue_frame_snoc:
  assumes "tq_invar (st_txq s)"
  shows "wp (queue_frame frame tag s) (\<lambda>s'. queued 1 s s'
    \<and> (\<exists>before. tq_view (st_txq s') = before @ [(take 255 frame, tag)]))"
  unfolding queue_frame_def wp_bind
proof (rule wpD [OF enqueue_snoc [OF assms]], clarify)
  fix q' before and dropped :: "(nat \<times> bytes option) option"
  assume q: "tq_invar q'" "tq_view q' = before @ [(take 255 frame, tag)]" "tq_count q' \<le> Suc (tq_count (st_txq s))"
    "tq_count (st_txq s) < 4 \<longrightarrow> dropped = None"
  show "wp (Some (log_tx_queue_eviction dropped (s\<lparr>st_txq := q'\<rparr>))) (\<lambda>s'. queued 1 s s'
    \<and> (\<exists>before. tq_view (st_txq s') = before @ [(take 255 frame, tag)]))"
    using q eviction_records(1) [of dropped "s\<lparr>st_txq := q'\<rparr>"]
    by (auto simp: wp_simps queued_def eviction_records(2-6))
qed

lemma pull_queued:
  assumes "crypto_ok C" "curve_ok K" "env_ok K env" "key_ok K key" "tq_invar (st_txq s)"
  shows "wp (answer_location_pull C K env h key msg s) (queued 1 s)"
  using assms(5) queued_refl [OF assms(5)]
  by (auto simp: answer_location_pull_def wp_simps split: option.split
      intro!: wpD [OF wp_policy(2) [OF assms(3)]] wpD [OF wp_telemetry_reply [OF assms(1,2,4)]]
        wpD [OF queue_frame_snoc])

text \<open>The acknowledgement frame, as its receiver parses it.\<close>

definition is_ack_frame :: "bytes \<Rightarrow> bytes \<Rightarrow> bool" where
  "is_ack_frame f ack \<longleftrightarrow> (\<exists>h. parse_rx_frame_header f = Inr h \<and> payload_type (rx_header_byte h) = Some PT_Ack
     \<and> drop (rx_payload_off h) f = ack)"

lemma ack_frame_built:
  assumes "length ack = 4"
  shows "\<exists>f n. build_ack_frame C ack scope (zeros 12) = Some (f, n) \<and> n \<le> length f \<and> length f = 12 \<and> is_ack_frame (take n f) ack"
proof -
  obtain pl where pl: "PathLen_new 2 0 = Some pl"
    using PathLen_2_0 by blast
  have c: "copy_into (zeros 12) 2 ack = Some (zeros 2 @ ack @ zeros 6)"
    using assms by (simp add: copy_into_def)
  have "6 + length ack \<le> length (zeros 2 @ ack @ zeros 6)" "take (length ack) (drop 2 (zeros 2 @ ack @ zeros 6)) = ack"
    using assms by simp_all
  from assemble_parses [OF this pl, of C scope PT_Ack]
  obtain f n h where f: "assemble_flood_frame C scope (zeros 2 @ ack @ zeros 6) PT_Ack pl 4 = Some (f, n)"
    "parse_rx_frame_header (take n f) = Inr h" "payload_type (rx_header_byte h) = Some PT_Ack" "drop (rx_payload_off h) (take n f) = ack"
    using assms by auto
  have "wp (assemble_flood_frame C scope (zeros 2 @ ack @ zeros 6) PT_Ack pl 4) (\<lambda>(out', k). k \<le> length out' \<and> length out' = length (zeros 2 @ ack @ zeros 6))"
    by (rule wp_assemble) (simp add: assms)
  with f show ?thesis
    using assms by (auto simp: build_ack_frame_def pl c is_ack_frame_def wp_def)
qed

lemma queue_ack_queued:
  assumes "tq_invar (st_txq s)" "length ack = 4"
  shows "wp (queue_ack C env ack s) (\<lambda>s'. queued 1 s s' \<and> (region_emission (env_region env) \<noteq> None \<longrightarrow>
    (\<exists>before f. tq_view (st_txq s') = before @ [(f, None)] \<and> is_ack_frame f ack)))"
proof (cases "region_emission (env_region env)")
  case None
  then show ?thesis
    using queued_refl [OF assms(1)] by (simp add: queue_ack_def wp_simps)
next
  case (Some scope)
  obtain f n where f: "build_ack_frame C ack scope (zeros 12) = Some (f, n)" "n \<le> length f" "length f = 12" "is_ack_frame (take n f) ack"
    using ack_frame_built [OF assms(2)] by blast
  then have "take 255 (take n f) = take n f"
    by simp
  then show ?thesis
    using f assms(1) Some by (auto simp: queue_ack_def wp_simps intro!: wpD [OF queue_frame_snoc])
qed

section \<open>Accepting a message\<close>

definition dm_append :: "u8 \<Rightarrow> u32 \<Rightarrow> bytes \<Rightarrow> HistoryAppend" where
  "dm_append h ts msg = \<lparr>ha_msg_type = HM_Dm, ha_conv_hash = h, ha_entry = history_entry h ts msg, ha_is_ours = False, ha_acked = True\<rparr>"

lemma append_dm: "append_history h HM_Dm ts msg False True s = Some (s\<lparr>st_history := st_history s @ [dm_append h ts msg]\<rparr>)"
  using read_field_Some [of 0 "min (length msg) 64" msg 64]
  by (cases "length msg \<le> 64")
    (simp_all add: append_history_def MAX_HISTORY_TEXT_LEN_def history_entry_def dm_append_def Let_def)

text \<open>The guard of a contact in NVS.  A save never panics; when the namespace opens, the write succeeds, and the next
  read works, it is what the next load gives.\<close>

abbreviation guard_of :: "'s RxEnv \<Rightarrow> 's RxState \<Rightarrow> u8 \<Rightarrow> InboundReplayState rust" where
  "guard_of env s h \<equiv> nvs_load_inbound_replay_state (env_nvs env) (st_nvs s) h"

definition guard_saves :: "'s nvs_prims \<Rightarrow> 's \<Rightarrow> u8 \<Rightarrow> bool" where
  "guard_saves N n h \<longleftrightarrow> nvs_open N n NS_RPL \<and> (\<forall>v. fst (nvs_write N n (NS_RPL, replay_key h) v))"

definition guard_reads :: "'s nvs_prims \<Rightarrow> 's \<Rightarrow> u8 \<Rightarrow> bool" where
  "guard_reads N n h \<longleftrightarrow> nvs_open N n NS_RPL \<and> nvs_read N n (NS_RPL, replay_key h) = Inr (nvs_at N n (NS_RPL, replay_key h))"

lemma save_replay_spec:
  assumes "replay_ok r"
  shows "\<exists>n. save_replay env h r s = Some (s\<lparr>st_nvs := n\<rparr>)
    \<and> (nvs_ok (env_nvs env) \<longrightarrow> guard_saves (env_nvs env) (st_nvs s) h \<longrightarrow> guard_reads (env_nvs env) n h \<longrightarrow>
         nvs_load_inbound_replay_state (env_nvs env) n h = Some r)
    \<and> (\<not> nvs_open (env_nvs env) (st_nvs s) NS_RPL \<longrightarrow> n = st_nvs s)"
proof -
  let ?N = "env_nvs env" and ?k = "(NS_RPL, replay_key h)"
  have len: "length (replay_bytes r) = 70"
    using assms by (simp add: replay_bytes_def length_concat_4 replay_ok_def ring_ok_def)
  obtain ok n where w: "nvs_write ?N (st_nvs s) ?k (NvBlob (replay_bytes r)) = (ok, n)"
    by (cases "nvs_write ?N (st_nvs s) ?k (NvBlob (replay_bytes r))")
  have load: "nvs_load_inbound_replay_state ?N n h = Some r"
    if "nvs_ok ?N" ok "guard_reads ?N n h"
  proof -
    have "nvs_at ?N n ?k = Some (NvBlob (replay_bytes r))"
      using that(1,2) w by (simp add: nvs_ok_def)
    then show ?thesis
      using that(3) len decode_replay_spec [OF assms, of "[]"]
      by (simp add: nvs_load_inbound_replay_state_def guard_reads_def get_blob_def INBOUND_REPLAY_STATE_LEN_def REPLAY_RING_LEN_def)
  qed
  have ok: "guard_saves ?N (st_nvs s) h \<Longrightarrow> ok"
    using w by (auto simp: guard_saves_def dest: spec [of _ "NvBlob (replay_bytes r)"])
  show ?thesis
  proof (cases "nvs_open ?N (st_nvs s) NS_RPL")
    case True
    then have "save_replay env h r s = Some (s\<lparr>st_nvs := n\<rparr>)"
      using encode_replay_spec [OF assms, of "zeros 70"] len w
      by (simp add: save_replay_def nvs_save_inbound_replay_state_def INBOUND_REPLAY_STATE_LEN_def REPLAY_RING_LEN_def
          slice_def ignored_def nvs_set_def split: bool.split)
    then show ?thesis
      using load ok True by blast
  next
    case False
    then show ?thesis
      by (intro exI [of _ "st_nvs s"]) (simp add: save_replay_def nvs_save_inbound_replay_state_def guard_saves_def)
  qed
qed

text \<open>The first copy of a message: stored, shown, recorded in the replay guard, acknowledged last.\<close>

lemma accept_dm_first:
  assumes "crypto_ok C" "curve_ok K" "env_ok K env" "key_ok K key" "tq_invar (st_txq s)"
    and "ack = compute_ack_hash C ts tb msg key"
    and "guard_of env s h = Some r" "replay_ok r" "\<not> (ts \<le> irs_last_ts r \<and> ack \<in> set (replay_view r))"
  shows "\<exists>s' evs. accept_dm C K env h key ts tb msg s = Some s' \<and> st_history s' = st_history s @ [dm_append h ts msg]
    \<and> st_events s' = st_events s @ UI_IncomingDm h ([0x30, 0x78] @ hex02 h) (text_str msg) # evs
    \<and> list_all undelivered evs \<and> (tq_count (st_txq s) \<le> 2 \<longrightarrow> evs = [])
    \<and> st_rooms s' = st_rooms s \<and> st_clock s' = st_clock s \<and> tq_invar (st_txq s')
    \<and> (region_emission (env_region env) \<noteq> None \<longrightarrow>
         (\<exists>before f. tq_view (st_txq s') = before @ [(f, None)] \<and> is_ack_frame f ack))
    \<and> (nvs_ok (env_nvs env) \<longrightarrow> guard_saves (env_nvs env) (st_nvs s) h \<longrightarrow> guard_reads (env_nvs env) (st_nvs s') h \<longrightarrow>
         (\<exists>r'. guard_of env s' h = Some r' \<and> replay_ok r' \<and> ts \<le> irs_last_ts r' \<and> ack \<in> set (replay_view r')))
    \<and> (\<not> nvs_open (env_nvs env) (st_nvs s) NS_RPL \<longrightarrow> st_nvs s' = st_nvs s)"
proof -
  have "length ack = 4"
    by (simp add: assms(6))
  then obtain r' where r': "check_and_record_inbound r ts ack = Some (r', True)" "replay_ok r'"
    "irs_last_ts r' = max (irs_last_ts r) ts" "replay_view r' = newest 16 (replay_view r @ [ack])"
    using check_spec [OF assms(8), of ack ts] assms(9) by auto
  have in_view: "ack \<in> set (replay_view r')" "ts \<le> irs_last_ts r'"
    unfolding r'(3,4) by (simp_all add: newest_def)
  obtain n where n: "save_replay env h r' s = Some (s\<lparr>st_nvs := n\<rparr>)"
    "nvs_ok (env_nvs env) \<longrightarrow> guard_saves (env_nvs env) (st_nvs s) h \<longrightarrow> guard_reads (env_nvs env) n h \<longrightarrow>
       nvs_load_inbound_replay_state (env_nvs env) n h = Some r'"
    "\<not> nvs_open (env_nvs env) (st_nvs s) NS_RPL \<longrightarrow> n = st_nvs s"
    using save_replay_spec [OF r'(2), of env h s] by blast
  let ?s1 = "s\<lparr>st_nvs := n, st_history := st_history s @ [dm_append h ts msg]\<rparr>"
  let ?s2 = "emit_event (UI_IncomingDm h ([0x30, 0x78] @ hex02 h) (text_str msg)) ?s1"
  have "tq_invar (st_txq ?s2)"
    using assms(5) by simp
  from pull_queued [OF assms(1-4) this] obtain s3 where s3: "answer_location_pull C K env h key msg ?s2 = Some s3"
    "queued 1 ?s2 s3"
    by (auto simp: wp_def)
  have "tq_invar (st_txq s3)"
    using s3(2) by (simp add: queued_def)
  from queue_ack_queued [OF this \<open>length ack = 4\<close>, of C env] obtain s4 where s4: "queue_ack C env ack s3 = Some s4"
    "queued 1 s3 s4" "region_emission (env_region env) \<noteq> None \<longrightarrow> (\<exists>before f. tq_view (st_txq s4) = before @ [(f, None)] \<and> is_ack_frame f ack)"
    by (auto simp: wp_def)
  have acc: "accept_dm C K env h key ts tb msg s = Some s4"
    using s3(1) s4(1)
    by (simp add: accept_dm_def Let_def assms(7) r'(1) n(1) append_dm flip: assms(6))
  have q: "queued 2 ?s2 s4"
    using queued_trans [OF s3(2) s4(2)] by (simp add: numeral_2_eq_2)
  then obtain evs where evs: "st_events s4 = st_events ?s2 @ evs" "list_all undelivered evs" "tq_count (st_txq s) \<le> 2 \<longrightarrow> evs = []"
    by (auto simp: queued_def)
  have rec: "st_history s4 = st_history ?s2" "st_nvs s4 = n" "st_rooms s4 = st_rooms s" "st_clock s4 = st_clock s"
    "tq_invar (st_txq s4)"
    using q by (auto simp: queued_def)
  show ?thesis
    using acc rec evs s4(3) n(2,3) r'(2) in_view by (intro exI [of _ s4] exI [of _ evs]) simp
qed

text \<open>A second copy.\<close>

lemma accept_dm_again:
  assumes "guard_of env s h = Some r" "replay_ok r" "ts \<le> irs_last_ts r" "ack \<in> set (replay_view r)"
    and "ack = compute_ack_hash C ts tb msg key"
  shows "accept_dm C K env h key ts tb msg s = Some s"
proof -
  have "length ack = 4"
    by (simp add: assms(5))
  then have "check_and_record_inbound r ts ack = Some (r, False)"
    using check_spec [OF assms(2), of ack ts] assms(3,4) by auto
  then show ?thesis
    using assms(1) by (simp add: accept_dm_def Let_def flip: assms(5))
qed


section \<open>The frame of a message\<close>

lemma encode_dm_prefix:
  assumes "crypto_ok C" "length sec = 32" "length pt \<le> 125" "length out = 255"
  shows "encode_dm_payload C sec d sr pt (drop 2 out) =
    Some ((d # sr # seal C (take 16 sec) sec pt) @ drop (4 + ceil_16 (length pt)) (drop 2 out), 4 + ceil_16 (length pt))"
proof -
  have "ceil_16 (length pt) \<le> 128"
    using assms(3) by (simp add: ceil_16_def div_ceil_16_def)
  then show ?thesis
    using encode_dm_payload_spec [of C sec pt "drop 2 out" d sr] assms by simp
qed

lemma build_ui_dm_frame:
  assumes "crypto_ok C" "ecdh_shared_secret K sender dest = Some sec" "length sec = 32" "length out = 255"
    and "m = take MAX_UI_MSG_BYTES msg" "ts = reply_timestamp base now"
  shows "\<exists>out' n h. build_ui_dm C K now base sender dest d msg scope out =
      Some (out', Some (n, compute_ack_hash C ts 0 m (id_pubkey sender)))
    \<and> parse_rx_frame_header (take n out') = Inr h \<and> payload_type (rx_header_byte h) = Some PT_TxtMsg
    \<and> drop (rx_payload_off h) (take n out') = d # id_pub_hash sender # seal C (take 16 sec) sec (txt_msg_bytes ts 0 0 m)"
proof -
  let ?pt = "txt_msg_bytes ts 0 0 m"
  let ?p = "d # id_pub_hash sender # seal C (take 16 sec) sec ?pt"
  let ?body = "?p @ drop (4 + ceil_16 (length ?pt)) (drop 2 out)"
  have m: "length m \<le> 120" "slice msg 0 (min (length msg) MAX_UI_MSG_BYTES) = Some m"
    by (simp_all add: assms(5) MAX_UI_MSG_BYTES_def slice_def min_def)
  have pt: "encode_txt_msg_plaintext ts 0 0 m (zeros 128) = Some (?pt @ drop (5 + length m) (zeros 128), 5 + length m)"
    using m(1) by (intro encode_txt_msg_plaintext_spec) simp
  have len: "length ?p = 4 + ceil_16 (length ?pt)"
    using assms(1,3) by simp
  have c: "ceil_16 (length ?pt) \<le> 128"
    using m(1) by (simp add: ceil_16_def div_ceil_16_def)
  have enc: "encode_dm_payload C sec d (id_pub_hash sender) ?pt (drop 2 out) = Some (?body, length ?p)"
    unfolding len using m(1) by (intro encode_dm_prefix [OF assms(1,3) _ assms(4)]) simp
  obtain pl where pl: "PathLen_new 2 0 = Some pl"
    using PathLen_2_0 by blast
  have body: "?body = ?p @ drop (length ?p) (drop 2 out)"
    by (simp only: len)
  have "6 + length ?p \<le> length out"
    using c unfolding len assms(4) by simp
  from flood_framed [OF body this pl, of C scope PT_TxtMsg]
  obtain out' n h where f: "assemble_flood_frame C scope (take 2 out @ ?body) PT_TxtMsg pl (length ?p) = Some (out', n)"
    "parse_rx_frame_header (take n out') = Inr h" "payload_type (rx_header_byte h) = Some PT_TxtMsg"
    "drop (rx_payload_off h) (take n out') = ?p"
    by blast
  have "build_ui_dm C K now base sender dest d msg scope out = Some (out', Some (n, compute_ack_hash C ts 0 m (id_pubkey sender)))"
    using assms(2,4) m pt enc pl f(1) c
    by (simp add: build_ui_dm_def Let_def slice_from_def slice_def flip: assms(6) del: append_Cons)
  with f show ?thesis
    by blast
qed

section \<open>Opening it\<close>

lemma c_str_zeros: "0 \<notin> set m \<Longrightarrow> c_str (m @ zeros k) = m"
  using nul_len_pad [of m k] by (simp add: c_str_def nul_len_def)

lemma opened_dm:
  assumes "crypto_ok C" "ecdh_shared_secret K (env_id env) key = Some sec" "length sec = 32"
    and "allow_inbound_dm (env_policy env) sr = Some True" "contact_pubkey (env_policy env) sr = Some (Some key)"
    and "length pt \<le> 125" "p = id_pub_hash (env_id env) # sr # seal C (take 16 sec) sec pt"
  shows "open_from_contact C K env p =
    Some (Some (key, pad16 pt @ drop (ceil_16 (length pt)) (zeros 256), ceil_16 (length pt)))"
proof -
  have "ceil_16 (length pt) \<le> length (zeros 256)"
    using assms(6) by (simp add: ceil_16_def div_ceil_16_def)
  then have "decode_dm_payload C sec p (zeros 256) =
      Some (pad16 pt @ drop (ceil_16 (length pt)) (zeros 256), Inr (id_pub_hash (env_id env), sr, ceil_16 (length pt)))"
    unfolding assms(7) using assms(1,3) by (intro decode_dm_payload_spec) simp_all
  moreover have "raw_hash p 1 = sr"
    by (simp add: assms(7) raw_hash_def get_opt_def)
  ultimately show ?thesis
    unfolding open_from_contact_def Let_def using assms(2,4,5) by simp
qed

lemma dm_accepted:
  assumes "crypto_ok C" "ecdh_shared_secret K (env_id env) key = Some sec" "length sec = 32"
    and "allow_inbound_dm (env_policy env) sr = Some True" "contact_pubkey (env_policy env) sr = Some (Some key)"
    and "length m \<le> 120" "0 \<notin> set m"
    and "p = id_pub_hash (env_id env) # sr # seal C (take 16 sec) sec (txt_msg_bytes ts 0 0 m)"
  shows "handle_dm C K env p s = accept_dm C K env sr key ts 0 m s"
proof -
  let ?pt = "txt_msg_bytes ts 0 0 m"
  let ?n = "ceil_16 (length ?pt)" and ?buf = "pad16 ?pt @ drop (ceil_16 (length ?pt)) (zeros 256)"
  have "length ?pt \<le> 125"
    using assms(6) by simp
  from opened_dm [OF assms(1-5) this assms(8)]
  have op: "open_from_contact C K env p = Some (Some (key, ?buf, ?n))" .
  have n: "5 + length m \<le> ?n" "?n \<le> 128"
    using ceil_16_ge [of "5 + length m"] assms(6) by (simp_all add: ceil_16_def div_ceil_16_def)
  obtain t0 t1 t2 t3 where t: "to_le32 ts = [t0, t1, t2, t3]" "from_le32 t0 t1 t2 t3 = ts"
    using from_to_le32 [of ts] by (simp add: to_le32_def)
  have buf: "?buf = t0 # t1 # t2 # t3 # 0 # m @ zeros (251 - length m)"
    using n assms(6) by (simp add: pad16_def txt_msg_bytes_def t replicate_add [symmetric])
  have "slice ?buf 5 (min ?n (length ?buf)) = Some (m @ zeros (?n - 5 - length m))"
    unfolding buf using n by (simp add: slice_def min_def)
  moreover have "raw_hash p 1 = sr"
    by (simp add: assms(8) raw_hash_def get_opt_def)
  moreover have "from_le32 (?buf ! 0) (?buf ! 1) (?buf ! 2) (?buf ! 3) = ts" "?buf ! 4 = 0"
    unfolding buf using t(2) by simp_all
  ultimately show ?thesis
    using op n(1) c_str_zeros [OF assms(7)]
    by (simp add: handle_dm_def Let_def TxtType_from_byte_def)
qed


lemma identity_key_ok: "curve_ok K \<Longrightarrow> key_ok K (id_pubkey (from_seed K a))"
  by (auto simp: curve_ok_def key_ok_def from_seed_def)

text \<open>A text message arriving where no room has the sender's hash.\<close>

lemma on_receive_dm:
  assumes "crypto_ok C" "ecdh_shared_secret K (env_id env) key = Some sec" "length sec = 32"
    and "allow_inbound_dm (env_policy env) sr = Some True" "contact_pubkey (env_policy env) sr = Some (Some key)"
    and "length m \<le> 120" "0 \<notin> set m" "room_index s sr = None"
    and "parse_rx_frame_header f = Inr h" "payload_type (rx_header_byte h) = Some PT_TxtMsg"
    and "drop (rx_payload_off h) f = id_pub_hash (env_id env) # sr # seal C (take 16 sec) sec (txt_msg_bytes ts 0 0 m)"
  shows "on_receive C K env f s = accept_dm C K env sr key ts 0 m s"
proof -
  let ?p = "id_pub_hash (env_id env) # sr # seal C (take 16 sec) sec (txt_msg_bytes ts 0 0 m)"
  have "slice_from f (rx_payload_off h) = Some ?p"
    using rx_dispatch [OF assms(9)] assms(11) by (simp add: slice_from_def)
  moreover have "raw_hash ?p 1 = sr"
    by (simp add: raw_hash_def get_opt_def)
  ultimately show ?thesis
    using ptype_nibble [OF assms(10)] dm_accepted [OF assms(1-7) refl, of ts s] assms(8)
    by (simp add: on_receive_def assms(9) handle_txt_msg_def Let_def)
qed

lemma resolve_unique:
  assumes "\<forall>x. Some x \<in> set (pre @ post) \<longrightarrow> os_ack_hash x \<noteq> os_ack_hash send"
  shows "sends_resolve (pre @ Some send # post) (os_ack_hash send) = (pre @ None # post, Some send)"
  using assms
proof (induction pre)
  case (Cons slot pre)
  then have "map_option os_ack_hash slot \<noteq> Some (os_ack_hash send)"
    by (cases slot) auto
  then show ?case
    using Cons by simp
qed simp

lemma ack_settles:
  assumes "is_ack_frame f (os_ack_hash send)" "length (os_ack_hash send) = 4" "st_outstanding s = pre @ Some send # post"
    and "\<forall>x. Some x \<in> set (pre @ post) \<longrightarrow> os_ack_hash x \<noteq> os_ack_hash send"
  shows "on_receive C K env f s = Some (emit_event (delivery_event send True) (s\<lparr>st_outstanding := pre @ None # post\<rparr>))"
proof -
  obtain h where h: "parse_rx_frame_header f = Inr h" "payload_type (rx_header_byte h) = Some PT_Ack"
    "drop (rx_payload_off h) f = os_ack_hash send"
    using assms(1) by (auto simp: is_ack_frame_def)
  then have "slice_from f (rx_payload_off h) = Some (os_ack_hash send)"
    using rx_dispatch [OF h(1)] by (simp add: slice_from_def)
  then show ?thesis
    using ptype_nibble [OF h(2)] assms(2,3) resolve_unique [OF assms(4)]
    by (simp add: on_receive_def h(1) handle_ack_def match_outstanding_ack_def Let_def)
qed

text \<open>The frame the sender builds is handled as the message it carries, at any device that is its addressee.\<close>

lemma dm_frame_handled:
  assumes "crypto_ok C" "curve_ok K" "env_id env = from_seed K b" "alice = from_seed K a"
    and "allow_inbound_dm (env_policy env) (id_pub_hash alice) = Some True"
    and "contact_pubkey (env_policy env) (id_pub_hash alice) = Some (Some (id_pubkey alice))"
    and "m = take MAX_UI_MSG_BYTES msg" "0 \<notin> set m" "ts = reply_timestamp base now" "length out = 255"
  shows "\<exists>out' n. build_ui_dm C K now base alice (id_pubkey (env_id env)) (id_pub_hash (env_id env)) msg scope out =
      Some (out', Some (n, compute_ack_hash C ts 0 m (id_pubkey alice)))
    \<and> (\<forall>env' s. env_id env' = env_id env \<longrightarrow> env_policy env' = env_policy env \<longrightarrow> room_index s (id_pub_hash alice) = None \<longrightarrow>
         on_receive C K env' (take n out') s = accept_dm C K env' (id_pub_hash alice) (id_pubkey alice) ts 0 m s)"
proof -
  obtain sec where sec: "ecdh_shared_secret K alice (id_pubkey (env_id env)) = Some sec"
    "ecdh_shared_secret K (env_id env) (id_pubkey alice) = Some sec" "length sec = 32"
    using ecdh_agree [OF assms(2), of a b] assms(3,4) by auto
  have m: "length m \<le> 120"
    by (simp add: assms(7) MAX_UI_MSG_BYTES_def)
  obtain out' n h where b: "build_ui_dm C K now base alice (id_pubkey (env_id env)) (id_pub_hash (env_id env)) msg scope out =
      Some (out', Some (n, compute_ack_hash C ts 0 m (id_pubkey alice)))"
    "parse_rx_frame_header (take n out') = Inr h" "payload_type (rx_header_byte h) = Some PT_TxtMsg"
    "drop (rx_payload_off h) (take n out') = id_pub_hash (env_id env) # id_pub_hash alice # seal C (take 16 sec) sec (txt_msg_bytes ts 0 0 m)"
    using build_ui_dm_frame [OF assms(1) sec(1,3) assms(10,7,9)] by blast
  have "on_receive C K env' (take n out') s = accept_dm C K env' (id_pub_hash alice) (id_pubkey alice) ts 0 m s"
    if e: "env_id env' = env_id env" "env_policy env' = env_policy env" and r: "room_index s (id_pub_hash alice) = None" for env' s
    by (rule on_receive_dm [OF assms(1) _ sec(3) _ _ m assms(8) r b(2,3)]) (simp_all add: e sec assms(5,6) b(4))
  with b(1) show ?thesis
    by blast
qed

text \<open>The first copy of a message, from the sender's text to the receiver's state.\<close>

lemma dm_delivered:
  assumes "crypto_ok C" "curve_ok K" "env_id env = from_seed K b" "alice = from_seed K a" "env_ok K env"
    and "allow_inbound_dm (env_policy env) (id_pub_hash alice) = Some True"
    and "contact_pubkey (env_policy env) (id_pub_hash alice) = Some (Some (id_pubkey alice))"
    and "room_index s (id_pub_hash alice) = None" "tq_invar (st_txq s)" "guard_of env s (id_pub_hash alice) = Some r" "replay_ok r"
    and "m = take MAX_UI_MSG_BYTES msg" "0 \<notin> set m" "ts = reply_timestamp base now" "ack = compute_ack_hash C ts 0 m (id_pubkey alice)"
    and "\<not> (ts \<le> irs_last_ts r \<and> ack \<in> set (replay_view r))" "length out = 255"
  shows "\<exists>out' n s' evs. build_ui_dm C K now base alice (id_pubkey (env_id env)) (id_pub_hash (env_id env)) msg scope out =
      Some (out', Some (n, ack))
    \<and> on_receive C K env (take n out') s = Some s'
    \<and> st_history s' = st_history s @ [dm_append (id_pub_hash alice) ts m]
    \<and> st_events s' = st_events s @ UI_IncomingDm (id_pub_hash alice) ([0x30, 0x78] @ hex02 (id_pub_hash alice)) (text_str m) # evs
    \<and> list_all undelivered evs \<and> (tq_count (st_txq s) \<le> 2 \<longrightarrow> evs = [])
    \<and> st_rooms s' = st_rooms s \<and> st_clock s' = st_clock s \<and> tq_invar (st_txq s')
    \<and> (region_emission (env_region env) \<noteq> None \<longrightarrow>
         (\<exists>before f. tq_view (st_txq s') = before @ [(f, None)] \<and> is_ack_frame f ack))
    \<and> (\<not> nvs_open (env_nvs env) (st_nvs s) NS_RPL \<longrightarrow> st_nvs s' = st_nvs s)"
proof -
  obtain out' n where b: "build_ui_dm C K now base alice (id_pubkey (env_id env)) (id_pub_hash (env_id env)) msg scope out = Some (out', Some (n, ack))"
    and rx: "on_receive C K env (take n out') s = accept_dm C K env (id_pub_hash alice) (id_pubkey alice) ts 0 m s"
    using dm_frame_handled [OF assms(1-4,6,7,12,13,14,17), of scope] assms(8,15) by auto
  have key: "key_ok K (id_pubkey alice)"
    using identity_key_ok [OF assms(2)] assms(4) by simp
  from accept_dm_first [OF assms(1,2,5) key assms(9,15,10,11,16)] obtain s' evs where
    "accept_dm C K env (id_pub_hash alice) (id_pubkey alice) ts 0 m s = Some s'"
    "st_history s' = st_history s @ [dm_append (id_pub_hash alice) ts m]"
    "st_events s' = st_events s @ UI_IncomingDm (id_pub_hash alice) ([0x30, 0x78] @ hex02 (id_pub_hash alice)) (text_str m) # evs"
    "list_all undelivered evs" "tq_count (st_txq s) \<le> 2 \<longrightarrow> evs = []"
    "st_rooms s' = st_rooms s" "st_clock s' = st_clock s" "tq_invar (st_txq s')"
    "region_emission (env_region env) \<noteq> None \<longrightarrow> (\<exists>before f. tq_view (st_txq s') = before @ [(f, None)] \<and> is_ack_frame f ack)"
    "\<not> nvs_open (env_nvs env) (st_nvs s) NS_RPL \<longrightarrow> st_nvs s' = st_nvs s"
    by blast
  with b rx show ?thesis
    by (intro exI [of _ out'] exI [of _ n] exI [of _ s'] exI [of _ evs]) simp
qed

text \<open>When the guard cannot be stored, a second copy is accepted again.\<close>

lemma dm_accepted_again_without_guard:
  assumes "crypto_ok C" "curve_ok K" "env_id env = from_seed K b" "alice = from_seed K a" "env_ok K env"
    and "allow_inbound_dm (env_policy env) (id_pub_hash alice) = Some True"
    and "contact_pubkey (env_policy env) (id_pub_hash alice) = Some (Some (id_pubkey alice))"
    and "room_index s (id_pub_hash alice) = None" "tq_invar (st_txq s)" "\<not> nvs_open (env_nvs env) (st_nvs s) NS_RPL"
    and "m = take MAX_UI_MSG_BYTES msg" "0 \<notin> set m" "ts = reply_timestamp base now" "length out = 255"
  shows "\<exists>out' n ack s' s''. build_ui_dm C K now base alice (id_pubkey (env_id env)) (id_pub_hash (env_id env)) msg scope out =
      Some (out', Some (n, ack))
    \<and> on_receive C K env (take n out') s = Some s' \<and> on_receive C K env (take n out') s' = Some s''
    \<and> st_history s'' = st_history s @ replicate 2 (dm_append (id_pub_hash alice) ts m)"
proof -
  let ?r = "InboundReplayState_EMPTY"
  have r: "guard_of env t h = Some ?r" if "st_nvs t = st_nvs s" for t h
    using assms(10) that by (simp add: nvs_load_inbound_replay_state_def)
  have ok: "replay_ok ?r" "\<not> (ts \<le> irs_last_ts ?r \<and> ack \<in> set (replay_view ?r))" for ack
    using replay.invar_fresh replay.view_fresh by (simp_all add: InboundReplayState_EMPTY_def)
  note one = dm_delivered [OF assms(1-7) _ _ _ ok(1) assms(11,12,13) refl ok(2) assms(14)]
  obtain out' n s' where a: "build_ui_dm C K now base alice (id_pubkey (env_id env)) (id_pub_hash (env_id env)) msg scope out =
      Some (out', Some (n, compute_ack_hash C ts 0 m (id_pubkey alice)))"
    "on_receive C K env (take n out') s = Some s'" "st_history s' = st_history s @ [dm_append (id_pub_hash alice) ts m]"
    "st_rooms s' = st_rooms s" "tq_invar (st_txq s')" "st_nvs s' = st_nvs s"
    using one [OF assms(8,9) r [OF refl], of scope] assms(10) by blast
  have "room_index s' (id_pub_hash alice) = None"
    using assms(8) a(4) by (simp add: room_index_def)
  from one [OF this a(5) r [OF a(6)], of scope] a(1) obtain s'' where
    "on_receive C K env (take n out') s' = Some s''" "st_history s'' = st_history s' @ [dm_append (id_pub_hash alice) ts m]"
    by auto
  with a(1-3) show ?thesis
    by (intro exI [of _ out'] exI [of _ n] exI exI [of _ s'] exI [of _ s'']) (auto simp: numeral_2_eq_2)
qed

text \<open>Two devices that know each other.\<close>

definition demo_alice :: Identity where
  "demo_alice = from_seed demo_curve (replicate 32 9)"

lemma demo_pair:
  obtains policy where "env_ok demo_curve (demo_env Unscoped policy)" "allow_inbound_dm policy (id_pub_hash demo_alice) = Some True"
    "contact_pubkey policy (id_pub_hash demo_alice) = Some (Some (id_pubkey demo_alice))"
proof -
  let ?k = "id_pubkey demo_alice"
  obtain f where f: "add_contacts [(?k, False)] PolicyFilter_new = Some f" "pf_invar f" "pf_live f = take 16 (map mk_contact [(?k, False)])"
    by (rule add_contacts_new)
  have "key_ok demo_curve ?k"
    using identity_key_ok [OF demo_curve_ok] by (simp add: demo_alice_def)
  then have "env_ok demo_curve (demo_env Unscoped f)"
    using f by (simp add: env_ok_def demo_env_def)
  moreover have "allow_inbound_dm f (id_pub_hash demo_alice) = Some True"
    "contact_pubkey f (id_pub_hash demo_alice) = Some (Some ?k)"
    using f(3) by (simp_all add: allow_inbound_dm_def contact_pubkey_def slice_live [OF f(2)] pub_hash_def id_pub_hash_def)
  ultimately show thesis
    by (rule that)
qed

lemma demo_pair_facts:
  obtains env where "env_id env = from_seed demo_curve (replicate 32 5)" "env_ok demo_curve env" "region_emission (env_region env) = Some None"
    "allow_inbound_dm (env_policy env) (id_pub_hash demo_alice) = Some True"
    "contact_pubkey (env_policy env) (id_pub_hash demo_alice) = Some (Some (id_pubkey demo_alice))" "env_nvs env = demo_nvs"
proof -
  obtain policy where "env_ok demo_curve (demo_env Unscoped policy)" "allow_inbound_dm policy (id_pub_hash demo_alice) = Some True"
    "contact_pubkey policy (id_pub_hash demo_alice) = Some (Some (id_pubkey demo_alice))"
    by (rule demo_pair)
  then show thesis
    by (intro that [of "demo_env Unscoped policy"]) (simp_all add: demo_env_def region_emission_def emission_def)
qed

lemma demo_receiver:
  "room_index demo_state (id_pub_hash demo_alice) = None" "tq_invar (st_txq demo_state)"
  "nvs_load_inbound_replay_state demo_nvs (st_nvs demo_state) h = Some InboundReplayState_EMPTY" "replay_ok InboundReplayState_EMPTY"
  "[104, 105] = take MAX_UI_MSG_BYTES [104, 105 :: u8]" "0 \<notin> set [104, 105 :: u8]" "12 = reply_timestamp 7 5000"
  "\<not> (12 \<le> irs_last_ts InboundReplayState_EMPTY \<and> ack \<in> set (replay_view InboundReplayState_EMPTY))"
  "guard_saves demo_nvs (st_nvs demo_state) h" "guard_reads demo_nvs n h" "tq_count (st_txq demo_state) = 0"
  using demo_state_ok [of demo_curve] replay.invar_fresh
  by (simp_all add: room_index_def demo_state_def state_ok_def MAX_UI_MSG_BYTES_def nvs_load_inbound_replay_state_def
      reply_timestamp_def InboundReplayState_EMPTY_def demo_nvs_def get_blob_def guard_saves_def guard_reads_def demo_put_def
      TxQueue_new_def)

section \<open>Properties\<close>



text \<open>C4: a second copy of a delivered message changes nothing at a receiver which has no room under the sender's hash byte, as
  long as its replay guard is stored: when the guard's write on the first copy succeeds and the guard can be read when the
  second copy arrives, the whole state stays as it is, so neither history, screen, queue nor stores change, and no second acknowledgement
  is queued.  Between the copies the clocks, the GPS, the battery and the region may change, whether or not
  the region can be keyed; identity, allowlist and NVS are the same.  (With a guard that cannot be stored the second copy is
  accepted again: \<open>dm_accepted_again_without_guard\<close>.)\<close>

theorem dm_second_copy_inert:
  assumes "crypto_ok C" "curve_ok K" "env_id env = from_seed K b" "alice = from_seed K a" "env_ok K env"
    and "allow_inbound_dm (env_policy env) (id_pub_hash alice) = Some True"
    and "contact_pubkey (env_policy env) (id_pub_hash alice) = Some (Some (id_pubkey alice))"
    and "room_index s (id_pub_hash alice) = None" "tq_invar (st_txq s)"
    and "nvs_load_inbound_replay_state (env_nvs env) (st_nvs s) (id_pub_hash alice) = Some r" "replay_ok r"
    and "m = take MAX_UI_MSG_BYTES msg" "0 \<notin> set m" "length out = 255"
    and "build_ui_dm C K now base alice (id_pubkey (env_id env)) (id_pub_hash (env_id env)) msg scope out = Some (out', Some (n, ack))"
    and "on_receive C K env (take n out') s = Some s'"
    and "nvs_ok (env_nvs env)" "guard_saves (env_nvs env) (st_nvs s) (id_pub_hash alice)" "guard_reads (env_nvs env) (st_nvs s') (id_pub_hash alice)"
    and "env_id env' = env_id env" "env_policy env' = env_policy env" "env_nvs env' = env_nvs env"
  shows "on_receive C K env' (take n out') s' = Some s'"
proof -
  let ?ts = "reply_timestamp base now"
  have b: "ack = compute_ack_hash C ?ts 0 m (id_pubkey alice)"
    and rx: "\<And>e t. env_id e = env_id env \<Longrightarrow> env_policy e = env_policy env \<Longrightarrow> room_index t (id_pub_hash alice) = None \<Longrightarrow>
         on_receive C K e (take n out') t = accept_dm C K e (id_pub_hash alice) (id_pubkey alice) ?ts 0 m t"
    using dm_frame_handled [OF assms(1-4,6,7,12,13) refl assms(14), of now base scope] assms(15) by auto
  have acc: "accept_dm C K env (id_pub_hash alice) (id_pubkey alice) ?ts 0 m s = Some s'"
    using rx [OF refl refl assms(8)] assms(16) by simp
  have key: "key_ok K (id_pubkey alice)"
    using identity_key_ok [OF assms(2)] assms(4) by simp
  have "st_rooms s' = st_rooms s \<and> (\<exists>r'. guard_of env s' (id_pub_hash alice) = Some r' \<and> replay_ok r'
      \<and> ?ts \<le> irs_last_ts r' \<and> ack \<in> set (replay_view r'))"
  proof (cases "?ts \<le> irs_last_ts r \<and> ack \<in> set (replay_view r)")
    case True
    then have "s' = s"
      using accept_dm_again [OF assms(10,11) _ _ b] acc by simp
    then show ?thesis
      using True assms(10,11) by blast
  next
    case False
    from accept_dm_first [OF assms(1,2,5) key assms(9) b assms(10,11) False] show ?thesis
      using acc assms(17-19) by auto
  qed
  then show ?thesis
    using rx [OF assms(20,21), of s'] accept_dm_again [of env' s' _ _ ?ts, OF _ _ _ _ b] assms(8,22)
    by (auto simp: room_index_def)
qed

theorem dm_second_copy_inert_witness:
  "\<exists>env out' n ack s'. build_ui_dm demo_prims demo_curve 5000 7 demo_alice (id_pubkey (env_id env)) (id_pub_hash (env_id env))
      [104, 105] None (zeros 255) = Some (out', Some (n, ack))
    \<and> on_receive demo_prims demo_curve env (take n out') demo_state = Some s' \<and> length (st_history s') = 1
    \<and> on_receive demo_prims demo_curve (env\<lparr>env_now_ms := 9000, env_region := Unusable RSE_StoreUnavailable\<rparr>) (take n out') s' = Some s'"
proof -
  obtain env where env: "env_id env = from_seed demo_curve (replicate 32 5)" "env_ok demo_curve env" "region_emission (env_region env) = Some None"
    "allow_inbound_dm (env_policy env) (id_pub_hash demo_alice) = Some True"
    "contact_pubkey (env_policy env) (id_pub_hash demo_alice) = Some (Some (id_pubkey demo_alice))" "env_nvs env = demo_nvs"
    by (rule demo_pair_facts)
  define msg where "msg = [104, 105 :: u8]"
  note rcv = demo_receiver [folded msg_def]
  have out: "length (zeros 255) = 255" and hist: "st_history demo_state = []"
    by (simp_all add: demo_state_def)
  obtain out' n ack s' where b: "build_ui_dm demo_prims demo_curve 5000 7 demo_alice (id_pubkey (env_id env)) (id_pub_hash (env_id env)) msg None (zeros 255)
      = Some (out', Some (n, ack))"
    "on_receive demo_prims demo_curve env (take n out') demo_state = Some s'"
    "st_history s' = st_history demo_state @ [dm_append (id_pub_hash demo_alice) 12 msg]"
    using dm_delivered [OF demo_prims_ok demo_curve_ok env(1) demo_alice_def env(2,4,5) rcv(1,2) rcv(3) [folded env(6)] rcv(4,5,6,7) refl rcv(8) out, of None]
    by blast
  have nvs: "nvs_ok (env_nvs env)" "guard_saves (env_nvs env) (st_nvs demo_state) (id_pub_hash demo_alice)"
    "guard_reads (env_nvs env) (st_nvs s') (id_pub_hash demo_alice)"
    using demo_nvs_ok rcv(9,10) by (simp_all add: env(6))
  let ?env' = "env\<lparr>env_now_ms := 9000, env_region := Unusable RSE_StoreUnavailable\<rparr>"
  have "on_receive demo_prims demo_curve ?env' (take n out') s' = Some s'"
    by (rule dm_second_copy_inert [OF demo_prims_ok demo_curve_ok env(1) demo_alice_def env(2,4,5) rcv(1,2) rcv(3) [folded env(6)] rcv(4,5,6) out b(1,2) nvs])
      simp_all
  moreover have "length (st_history s') = 1"
    by (simp add: b(3) hist)
  ultimately show ?thesis
    using b(1,2) unfolding msg_def by blast
qed

end
