(* ===== verification/Advert.thy ===== *)
theory Advert
  imports Identity Wire Prov_Payload Rx_Path
begin

text \<open>
  \<open>protocol/src/advert.rs\<close> and \<open>firmware-core/src/advert.rs\<close>: the signed self-advert card, its URI, and the
  timestamp and name policy of the card request.  A string is its UTF-8 bytes.
\<close>

section \<open>The card\<close>

definition PUB_KEY_SIZE :: nat where
  "PUB_KEY_SIZE = 32"

definition SIGNATURE_SIZE :: nat where
  "SIGNATURE_SIZE = 64"

definition MAX_ADVERT_DATA_SIZE :: nat where
  "MAX_ADVERT_DATA_SIZE = 32"

definition OFFSET_PUBKEY :: nat where
  "OFFSET_PUBKEY = 2"

definition OFFSET_TIMESTAMP :: nat where
  "OFFSET_TIMESTAMP = OFFSET_PUBKEY + PUB_KEY_SIZE"

definition OFFSET_SIGNATURE :: nat where
  "OFFSET_SIGNATURE = OFFSET_TIMESTAMP + 4"

definition OFFSET_APPDATA :: nat where
  "OFFSET_APPDATA = OFFSET_SIGNATURE + SIGNATURE_SIZE"

definition MAX_ADVERT_CARD_LEN :: nat where
  "MAX_ADVERT_CARD_LEN = OFFSET_APPDATA + MAX_ADVERT_DATA_SIZE"

definition MAX_ADVERT_NAME_LEN :: nat where
  "MAX_ADVERT_NAME_LEN = MAX_ADVERT_DATA_SIZE - 1"

definition ADVERT_APPDATA_FLAGS :: u8 where
  "ADVERT_APPDATA_FLAGS = 0x81"

lemmas card_consts = PUB_KEY_SIZE_def SIGNATURE_SIZE_def MAX_ADVERT_DATA_SIZE_def OFFSET_PUBKEY_def
  OFFSET_TIMESTAMP_def OFFSET_SIGNATURE_def OFFSET_APPDATA_def MAX_ADVERT_CARD_LEN_def MAX_ADVERT_NAME_LEN_def

text \<open>\<open>str::is_char_boundary\<close>: an end of the string, or a byte that does not continue a sequence.\<close>

definition is_char_boundary :: "bytes \<Rightarrow> nat \<Rightarrow> bool" where
  "is_char_boundary s i \<longleftrightarrow> i = 0 \<or> i = length s \<or> i < length s \<and> \<not> utf8_cont (s ! i)"

text \<open>\<open>while end > 0 && !s.is_char_boundary(end) { end -= 1 }\<close>.\<close>

fun boundary_loop :: "bytes \<Rightarrow> nat \<Rightarrow> nat" where
  "boundary_loop s 0 = 0"
| "boundary_loop s (Suc e) = (if is_char_boundary s (Suc e) then Suc e else boundary_loop s e)"

definition floor_char_boundary :: "bytes \<Rightarrow> nat \<Rightarrow> nat" where
  "floor_char_boundary s max_bytes = (if max_bytes \<ge> length s then length s else boundary_loop s max_bytes)"

definition build_self_advert_card :: "curve_prims \<Rightarrow> Identity \<Rightarrow> u32 \<Rightarrow> bytes \<Rightarrow> bytes \<Rightarrow> (bytes \<times> nat) rust" where
  "build_self_advert_card K identity timestamp name out =
     (if name = [] then panic
      else do {
        let name_len = floor_char_boundary name MAX_ADVERT_NAME_LEN;
        name_bytes \<leftarrow> slice name 0 name_len;
        let appdata_len = 1 + length name_bytes;
        msg \<leftarrow> copy_into (zeros (PUB_KEY_SIZE + 4 + MAX_ADVERT_DATA_SIZE)) 0 (id_pubkey identity);
        msg \<leftarrow> copy_into msg PUB_KEY_SIZE (to_le32 timestamp);
        msg \<leftarrow> set_at msg (PUB_KEY_SIZE + 4) ADVERT_APPDATA_FLAGS;
        msg \<leftarrow> copy_into msg (PUB_KEY_SIZE + 4 + 1) name_bytes;
        signed \<leftarrow> slice msg 0 (PUB_KEY_SIZE + 4 + appdata_len);
        let signature = sign K identity signed;
        out \<leftarrow> set_at out 0 (Header_new RT_Flood PT_Advert);
        out \<leftarrow> set_at out 1 0x00;
        out \<leftarrow> copy_into out OFFSET_PUBKEY (id_pubkey identity);
        out \<leftarrow> copy_into out OFFSET_TIMESTAMP (to_le32 timestamp);
        out \<leftarrow> copy_into out OFFSET_SIGNATURE signature;
        out \<leftarrow> set_at out OFFSET_APPDATA ADVERT_APPDATA_FLAGS;
        out \<leftarrow> copy_into out (OFFSET_APPDATA + 1) name_bytes;
        Some (out, OFFSET_APPDATA + appdata_len)
      })"

section \<open>The URI\<close>

definition CARD_URI_SCHEME :: bytes where
  "CARD_URI_SCHEME = [0x6D, 0x65, 0x73, 0x68, 0x63, 0x6F, 0x72, 0x65, 0x3A, 0x2F, 0x2F]"

definition HEX_DIGITS :: bytes where
  "HEX_DIGITS = [0x30, 0x31, 0x32, 0x33, 0x34, 0x35, 0x36, 0x37, 0x38, 0x39, 0x61, 0x62, 0x63, 0x64, 0x65, 0x66]"

fun uri_loop :: "bytes \<Rightarrow> nat \<Rightarrow> bytes \<Rightarrow> bytes rust" where
  "uri_loop [] off out = Some out"
| "uri_loop (b # bs) off out = do {
     hi \<leftarrow> get_at HEX_DIGITS (unat (drop_bit 4 b));
     out \<leftarrow> set_at out off hi;
     lo \<leftarrow> get_at HEX_DIGITS (unat (b AND 0x0F));
     out \<leftarrow> set_at out (off + 1) lo;
     uri_loop bs (off + 2) out
   }"

definition card_to_uri :: "bytes \<Rightarrow> bytes \<Rightarrow> (bytes \<times> nat) rust" where
  "card_to_uri crd out = do {
     let scheme_len = length CARD_URI_SCHEME;
     out \<leftarrow> copy_into out 0 CARD_URI_SCHEME;
     out \<leftarrow> uri_loop crd scheme_len out;
     Some (out, scheme_len + 2 * length crd)
   }"

section \<open>The card request\<close>

definition next_advert_timestamp :: "u32 \<Rightarrow> u32 \<Rightarrow> u32" where
  "next_advert_timestamp host_ts nvs_last = max host_ts (saturating_add32 nvs_last 1)"

text \<open>\<open>format!("MeshCadet-{:02X}")\<close>.\<close>

definition hex_digit_upper :: "nat \<Rightarrow> u8" where
  "hex_digit_upper n = (if n < 10 then of_nat (48 + n) else of_nat (55 + n))"

definition UNNAMED_PREFIX :: bytes where
  "UNNAMED_PREFIX = [0x4D, 0x65, 0x73, 0x68, 0x43, 0x61, 0x64, 0x65, 0x74, 0x2D]"

definition resolve_advert_name :: "bytes \<Rightarrow> u8 \<Rightarrow> bytes" where
  "resolve_advert_name configured_name h =
     (if configured_name = []
      then UNNAMED_PREFIX @ [hex_digit_upper (unat h div 16), hex_digit_upper (unat h mod 16)]
      else configured_name)"

definition handle_query_advert ::
    "curve_prims \<Rightarrow> Identity \<Rightarrow> bytes \<Rightarrow> u32 \<Rightarrow> bytes \<Rightarrow> bytes \<Rightarrow> (bytes \<times> (ProvError + nat \<times> u32)) rust" where
  "handle_query_advert K identity query_payload nvs_last_advert_ts configured_name out = do {
     d \<leftarrow> decode_query_advert query_payload;
     (case d of
        Inl e \<Rightarrow> Some (out, Inl e)
      | Inr host_ts \<Rightarrow> do {
          let ts = next_advert_timestamp host_ts nvs_last_advert_ts;
          let name = resolve_advert_name configured_name (id_pub_hash identity);
          (out, n) \<leftarrow> build_self_advert_card K identity ts name out;
          Some (out, Inr (n, ts))
        })
   }"

section \<open>Truncating a name\<close>

lemma boundary_loop_le: "boundary_loop s m \<le> m"
  by (induction m) auto

lemma boundary_loop_boundary: "is_char_boundary s (boundary_loop s m)"
  by (induction m) (auto simp: is_char_boundary_def)

lemma floor_le: "floor_char_boundary s m \<le> length s" "floor_char_boundary s m \<le> max m (length s)"
  "length s > m \<Longrightarrow> floor_char_boundary s m \<le> m"
  using boundary_loop_le [of s m] by (auto simp: floor_char_boundary_def)

text \<open>The first character of a string, at most four bytes: one that starts a sequence and its continuations.\<close>

definition utf8_char :: "bytes \<Rightarrow> bool" where
  "utf8_char c \<longleftrightarrow> c \<noteq> [] \<and> length c \<le> 4 \<and> \<not> utf8_cont (hd c) \<and> (\<forall>b \<in> set (tl c). utf8_cont b)
     \<and> (\<forall>r. utf8_valid (c @ r) = utf8_valid r)"

lemma utf8_head:
  assumes "utf8_valid s" "s \<noteq> []"
  obtains c r where "s = c @ r" "utf8_char c" "utf8_valid r"
proof -
  obtain b bs where s: "s = b # bs"
    using assms(2) by (cases s) auto
  consider (one) "b < 0x80" | (two) "0xC2 \<le> b" "b \<le> 0xDF" | (three) "0xE0 \<le> b" "b \<le> 0xEF" | (four) "0xF0 \<le> b" "b \<le> 0xF4"
    using assms(1) by (auto simp: s split: if_splits)
  then show thesis
  proof cases
    case one
    then show ?thesis
      using that [of "[b]" bs] assms(1)
      by (simp add: s utf8_char_def utf8_cont_def) (auto simp: word_le_nat_alt word_less_nat_alt)
  next
    case two
    then obtain c r where bs: "bs = c # r" "utf8_cont c" "utf8_valid r"
      using assms(1) by (auto simp: s word_le_nat_alt word_less_nat_alt split: if_splits list.splits)
    with two show ?thesis
      using that [of "[b, c]" r]
      by (simp add: s utf8_char_def) (auto simp: utf8_cont_def word_le_nat_alt word_less_nat_alt)
  next
    case three
    then obtain c d r where bs: "bs = c # d # r" "utf8_cont d" "utf8_valid r"
      and c: "if b = 0xE0 then 0xA0 \<le> c \<and> c \<le> 0xBF else if b = 0xED then 0x80 \<le> c \<and> c \<le> 0x9F else utf8_cont c"
      using assms(1) by (auto simp: s word_le_nat_alt word_less_nat_alt split: if_splits list.splits)
    have "utf8_cont c"
      using c by (auto simp: utf8_cont_def word_le_nat_alt split: if_splits)
    moreover have "\<not> utf8_cont b" "\<not> b < 0x80" "\<not> b \<le> 0xDF"
      using three by (auto simp: utf8_cont_def word_le_nat_alt word_less_nat_alt)
    ultimately show ?thesis
      using that [of "[b, c, d]" r] bs c three by (simp add: s utf8_char_def)
  next
    case four
    then obtain c d e r where bs: "bs = c # d # e # r" "utf8_cont d" "utf8_cont e" "utf8_valid r"
      and c: "if b = 0xF0 then 0x90 \<le> c \<and> c \<le> 0xBF else if b = 0xF4 then 0x80 \<le> c \<and> c \<le> 0x8F else utf8_cont c"
      using assms(1) by (auto simp: s word_le_nat_alt word_less_nat_alt split: if_splits list.splits)
    have "utf8_cont c"
      using c by (auto simp: utf8_cont_def word_le_nat_alt split: if_splits)
    moreover have "\<not> utf8_cont b" "\<not> b < 0x80" "\<not> b \<le> 0xDF" "\<not> b \<le> 0xEF"
      using four by (auto simp: utf8_cont_def word_le_nat_alt word_less_nat_alt)
    ultimately show ?thesis
      using that [of "[b, c, d, e]" r] bs c four by (simp add: s utf8_char_def)
  qed
qed

lemma cont_not_boundary:
  assumes "utf8_char c" "0 < i" "i < length c"
  shows "\<not> is_char_boundary (c @ r) i"
proof -
  have "c ! i = tl c ! (i - 1)" "i - 1 < length (tl c)"
    using assms by (simp_all add: nth_tl)
  then have "utf8_cont (c ! i)"
    using assms(1) by (metis nth_mem utf8_char_def)
  then show ?thesis
    using assms(2,3) by (simp add: is_char_boundary_def nth_append)
qed

lemma boundary_loop_in_char: "utf8_char c \<Longrightarrow> m < length c \<Longrightarrow> boundary_loop (c @ r) m = 0"
  by (induction m) (auto simp: cont_not_boundary)

lemma boundary_after_char:
  assumes "utf8_char c" "utf8_valid r"
  shows "is_char_boundary (c @ r) (length c)"
proof (cases r)
  case (Cons b bs)
  then obtain c' r' where "r = c' @ r'" "utf8_char c'"
    using utf8_head [OF assms(2)] by blast
  then show ?thesis
    by (cases c') (simp_all add: is_char_boundary_def utf8_char_def nth_append)
qed (simp add: is_char_boundary_def)

lemma boundary_shift:
  assumes "utf8_char c" "utf8_valid r"
  shows "is_char_boundary (c @ r) (length c + i) \<longleftrightarrow> is_char_boundary r i"
  using boundary_after_char [OF assms] by (cases i) (auto simp: is_char_boundary_def nth_append)

lemma boundary_loop_shift:
  assumes "utf8_char c" "utf8_valid r"
  shows "boundary_loop (c @ r) (length c + m) = length c + boundary_loop r m"
proof (induction m)
  case 0
  have "is_char_boundary (c @ r) (length c)"
    by (rule boundary_after_char [OF assms])
  moreover obtain k where "length c = Suc k"
    using assms(1) by (cases c) (auto simp: utf8_char_def)
  ultimately show ?case
    by simp
next
  case (Suc m)
  then show ?case
    using boundary_shift [OF assms, of "Suc m"] by simp
qed

text \<open>Cutting at a character boundary keeps the text valid and loses at most three bytes of the budget.\<close>

lemma floor_valid:
  "utf8_valid s \<Longrightarrow> utf8_valid (take (floor_char_boundary s m) s)
    \<and> (m < length s \<longrightarrow> floor_char_boundary s m \<le> m \<and> m < floor_char_boundary s m + 4)"
proof (induction s arbitrary: m rule: length_induct)
  case (1 s)
  show ?case
  proof (cases "m < length s")
    case True
    then have "s \<noteq> []"
      by auto
    then obtain c r where s: "s = c @ r" "utf8_char c" "utf8_valid r"
      using utf8_head [OF 1(2)] by blast
    then have c: "0 < length c" "length c \<le> 4"
      by (auto simp: utf8_char_def)
    show ?thesis
    proof (cases "m < length c")
      case True
      then show ?thesis
        using \<open>m < length s\<close> s c boundary_loop_in_char [of c m r] by (simp add: floor_char_boundary_def)
    next
      case False
      define k where "k = m - length c"
      have m: "m = length c + k" "k < length r"
        using False True by (simp_all add: k_def s)
      have "floor_char_boundary s m = length c + floor_char_boundary r k"
        using m s boundary_loop_shift [of c r k] by (simp add: floor_char_boundary_def)
      moreover have "utf8_valid (take (floor_char_boundary r k) r)
          \<and> floor_char_boundary r k \<le> k \<and> k < floor_char_boundary r k + 4"
        using 1(1) s m c by auto
      ultimately show ?thesis
        using s m by (simp add: utf8_char_def)
    qed
  qed (use 1(2) in \<open>simp add: floor_char_boundary_def\<close>)
qed

section \<open>The layout of a card\<close>

definition card_bytes :: "curve_prims \<Rightarrow> Identity \<Rightarrow> u32 \<Rightarrow> bytes \<Rightarrow> bytes" where
  "card_bytes K identity ts nm =
     [Header_new RT_Flood PT_Advert, 0] @ id_pubkey identity @ to_le32 ts
     @ sign K identity (id_pubkey identity @ to_le32 ts @ [ADVERT_APPDATA_FLAGS] @ nm)
     @ [ADVERT_APPDATA_FLAGS] @ nm"

definition card_name :: "bytes \<Rightarrow> bytes" where
  "card_name nm = take (floor_char_boundary nm MAX_ADVERT_NAME_LEN) nm"

lemma card_name_le: "length (card_name nm) \<le> 31"
  using floor_le(3) [of 31 nm] by (cases "31 < length nm") (simp_all add: card_name_def card_consts)

lemma build_card:
  assumes "length (id_pubkey i) = 32" "\<And>m. length (sign K i m) = 64" "nm \<noteq> []" "134 \<le> length out"
  shows "build_self_advert_card K i ts nm out =
    Some (put (card_bytes K i ts (card_name nm)) out, length (card_bytes K i ts (card_name nm)))"
proof -
  define nb where "nb = card_name nm"
  have nb: "slice nm 0 (floor_char_boundary nm MAX_ADVERT_NAME_LEN) = Some nb" "length nb \<le> 31"
    using floor_le(1) [of nm] card_name_le [of nm] by (simp_all add: nb_def card_name_def slice_def)
  have "out \<noteq> []"
    using assms(4) by auto
  with nb assms show ?thesis
    by (simp add: build_self_advert_card_def card_consts Let_def emit card_bytes_def fill_copy fill_set fill_slice
        slice_put flip: nb_def)
qed

lemma card_name_valid:
  assumes "utf8_valid nm" "nm \<noteq> []"
  shows "utf8_valid (card_name nm)" "card_name nm \<noteq> []" "28 \<le> length (card_name nm) \<or> card_name nm = nm"
proof -
  have "utf8_valid (card_name nm)" and l: "31 < length nm \<longrightarrow> 31 < floor_char_boundary nm 31 + 4"
    using floor_valid [OF assms(1), of 31] by (simp_all add: card_name_def card_consts)
  then show "utf8_valid (card_name nm)"
    by simp
  show "28 \<le> length (card_name nm) \<or> card_name nm = nm"
    using l floor_le(1) [of nm 31] by (cases "31 < length nm") (auto simp: card_name_def card_consts floor_char_boundary_def)
  then show "card_name nm \<noteq> []"
    using assms(2) by auto
qed

lemma card_frame:
  assumes "length (id_pubkey i) = 32"
  shows "parse_rx_frame_header (card_bytes K i ts nm) = Inr \<lparr>rx_header_byte = Header_new RT_Flood PT_Advert,
    rx_route_type = Some RT_Flood, rx_has_transport_codes = False, rx_path_len_byte = 0,
    rx_hash_size = hash_size 0, rx_hop_count = 0, rx_payload_off = 2\<rparr>"
proof -
  have "\<not> route_carries_transport_codes (Header_new RT_Flood PT_Advert)"
    by (simp add: route_carries_transport_codes_def)
  then show ?thesis
    by (simp add: parse_rx_frame_header_def card_bytes_def get_opt_def frame_path_len_def Let_def
        is_valid_def hash_size_def hop_count_def path_byte_len_def)
qed

section \<open>Properties\<close>

text \<open>C38: The card of a node with a name is a well-formed flood frame of type ADVERT with an empty path; its
  payload is the public key, the timestamp, a signature over exactly key, timestamp and application data,
  and application data that hold a non-empty valid UTF-8 prefix of the name, cut by at most three bytes
  more than the 31 that fit.\<close>

theorem advert_card_shareable:
  assumes "length (id_pubkey i) = 32" "\<And>m. length (sign K i m) = 64" "utf8_valid nm" "nm \<noteq> []"
    "MAX_ADVERT_CARD_LEN \<le> length out"
  shows "\<exists>out' n hdr nm' appdata.
    build_self_advert_card K i ts nm out = Some (out', n) \<and> n \<le> MAX_ADVERT_CARD_LEN
    \<and> parse_rx_frame_header (take n out') = Inr hdr \<and> rx_route_type hdr = Some RT_Flood
    \<and> payload_type (rx_header_byte hdr) = Some PT_Advert \<and> rx_hop_count hdr = 0
    \<and> appdata = [ADVERT_APPDATA_FLAGS] @ nm'
    \<and> drop (rx_payload_off hdr) (take n out') =
        id_pubkey i @ to_le32 ts @ sign K i (id_pubkey i @ to_le32 ts @ appdata) @ appdata
    \<and> nm' = take (length nm') nm \<and> nm' \<noteq> [] \<and> utf8_valid nm' \<and> length nm' \<le> 31
    \<and> (nm' = nm \<or> 28 \<le> length nm')"
proof -
  let ?c = "card_bytes K i ts (card_name nm)"
  have b: "build_self_advert_card K i ts nm out = Some (put ?c out, length ?c)"
    using assms(5) by (intro build_card assms(1,2,4)) (simp add: card_consts)
  have len: "length ?c \<le> MAX_ADVERT_CARD_LEN"
    using assms(1,2) card_name_le [of nm] by (simp add: card_bytes_def card_consts)
  have "take (length ?c) (put ?c out) = ?c"
    by simp
  moreover have "drop 2 ?c = id_pubkey i @ to_le32 ts
      @ sign K i (id_pubkey i @ to_le32 ts @ [ADVERT_APPDATA_FLAGS] @ card_name nm)
      @ [ADVERT_APPDATA_FLAGS] @ card_name nm"
    by (simp add: card_bytes_def)
  moreover have "card_name nm = take (length (card_name nm)) nm"
    by (simp add: card_name_def min_def)
  ultimately show ?thesis
    using b len card_frame [OF assms(1), of K ts "card_name nm"] card_name_valid [OF assms(3,4)] card_name_le [of nm]
    by (intro exI [of _ "put ?c out"] exI [of _ "length ?c"] exI [of _ "card_name nm"]
        exI [of _ "[ADVERT_APPDATA_FLAGS] @ card_name nm"]
        exI [of _ "\<lparr>rx_header_byte = Header_new RT_Flood PT_Advert,
          rx_route_type = Some RT_Flood, rx_has_transport_codes = False, rx_path_len_byte = 0,
          rx_hash_size = hash_size 0, rx_hop_count = 0, rx_payload_off = 2\<rparr>"]) auto
qed

lemma advert_card_shareable_witness:
  "\<exists>out' n. build_self_advert_card demo_curve (from_seed demo_curve (zeros 32)) 7 [0x41, 0xC3, 0xA9] (zeros 134) = Some (out', n)"
proof -
  define i where "i = from_seed demo_curve (zeros 32)"
  have "length (id_pubkey i) = 32" "\<And>m. length (sign demo_curve i m) = 64"
    by (simp_all add: i_def from_seed_def demo_curve_def sign_def Let_def)
  moreover have "utf8_valid [0x41, 0xC3, 0xA9]"
    by (simp add: utf8_cont_def)
  ultimately show ?thesis
    using advert_card_shareable [of i demo_curve "[0x41, 0xC3, 0xA9]" "zeros 134" 7]
    by (auto simp: card_consts i_def)
qed

text \<open>The timestamps of the cards issued one after the other, the last one kept each time.\<close>

fun issued :: "curve_prims \<Rightarrow> Identity \<Rightarrow> bytes \<Rightarrow> u32 \<Rightarrow> bytes list \<Rightarrow> u32 list rust" where
  "issued K i nm last_ts [] = Some []"
| "issued K i nm last_ts (q # qs) = do {
     (_, r) \<leftarrow> handle_query_advert K i q last_ts nm (zeros MAX_ADVERT_CARD_LEN);
     (case r of
        Inl _ \<Rightarrow> issued K i nm last_ts qs
      | Inr (_, ts) \<Rightarrow> do { rest \<leftarrow> issued K i nm ts qs; Some (ts # rest) })
   }"

lemma next_timestamp_cases: "nvs < next_advert_timestamp h nvs \<or> nvs = - 1 \<and> next_advert_timestamp h nvs = - 1"
proof (cases "nvs = - 1")
  case True
  have "h \<le> - 1" for h :: u32
    by simp
  then show ?thesis
    using True by (simp add: next_advert_timestamp_def saturating_add32_def max_def unsigned_minus_1_eq_mask
        mask_eq_exp_minus_1)
next
  case False
  then have "unat nvs \<noteq> unat (- 1 :: u32)"
    by (simp only: word_unat_eq_iff not_False_eq_True)
  then have "unat nvs < 2 ^ 32 - 1"
    using unsigned_less [of nvs, where 'a = nat]
    by (simp add: unsigned_minus_1_eq_mask mask_eq_exp_minus_1)
  then have "nvs < saturating_add32 nvs 1"
    by (simp add: word_less_nat_alt unat_saturating_add32)
  then show ?thesis
    by (simp add: next_advert_timestamp_def less_max_iff_disj)
qed

lemma handle_query_advert_cases:
  assumes "length (id_pubkey i) = 32" "\<And>m. length (sign K i m) = 64"
  obtains (bad) e where "handle_query_advert K i q last_ts nm (zeros MAX_ADVERT_CARD_LEN) = Some (zeros MAX_ADVERT_CARD_LEN, Inl e)"
    | (issue) out n h where "handle_query_advert K i q last_ts nm (zeros MAX_ADVERT_CARD_LEN) =
        Some (out, Inr (n, next_advert_timestamp h last_ts))"
proof (cases "length q < 4")
  case True
  then show thesis
    using bad by (simp add: handle_query_advert_def decode_query_advert_def)
next
  case False
  have "resolve_advert_name nm (id_pub_hash i) \<noteq> []"
    by (simp add: resolve_advert_name_def)
  then show thesis
    using issue False build_card [OF assms, of "resolve_advert_name nm (id_pub_hash i)" "zeros MAX_ADVERT_CARD_LEN"]
    by (simp add: handle_query_advert_def decode_query_advert_def Let_def card_consts)
qed

lemma issued_above:
  assumes i: "length (id_pubkey i) = 32" "\<And>m. length (sign K i m) = 64"
  shows "\<exists>ts. issued K i nm last_ts qs = Some ts \<and> sorted_wrt (\<lambda>a b. a < b \<or> b = - 1) (last_ts # ts)"
proof (induction qs arbitrary: last_ts)
  case Nil
  then show ?case by simp
next
  case (Cons q qs)
  show ?case
  proof (cases rule: handle_query_advert_cases [OF i, where q = q and last_ts = last_ts and nm = nm, case_names bad issue])
    case (bad e)
    then show ?thesis
      using Cons.IH [of last_ts] by simp
  next
    case (issue out n h)
    let ?t = "next_advert_timestamp h last_ts"
    obtain ts where ts: "issued K i nm ?t qs = Some ts" "sorted_wrt (\<lambda>a b. a < b \<or> b = - 1) (?t # ts)"
      using Cons.IH by blast
    have "last_ts < b \<or> b = - 1" if "?t < b \<or> b = - 1" for b
      using next_timestamp_cases [of last_ts h] that by auto
    then have "sorted_wrt (\<lambda>a b. a < b \<or> b = - 1) (last_ts # ?t # ts)"
      using ts(2) next_timestamp_cases [of last_ts h] by auto
    then show ?thesis
      using issue ts(1) by auto
  qed
qed

text \<open>C39: Whatever times the host sends, malformed requests among them, every request is answered or refused
  without a panic and each card carries a later timestamp than every card before it, up to the largest
  timestamp, which is repeated from then on.\<close>

theorem advert_timestamps_increase:
  assumes "length (id_pubkey i) = 32" "\<And>m. length (sign K i m) = 64"
  shows "\<exists>ts. issued K i nm last_ts qs = Some ts \<and>
    (\<forall>k < length ts. last_ts < ts ! k \<or> ts ! k = - 1) \<and>
    (\<forall>k < length ts. \<forall>j < k. ts ! j < ts ! k \<or> ts ! k = - 1)"
proof -
  obtain ts where ts: "issued K i nm last_ts qs = Some ts" "sorted_wrt (\<lambda>a b. a < b \<or> b = - 1) (last_ts # ts)"
    using issued_above [OF assms] by blast
  then have "\<forall>b \<in> set ts. last_ts < b \<or> b = - 1" and s: "sorted_wrt (\<lambda>a b. a < b \<or> b = - 1) ts"
    by simp_all
  then have "\<forall>k < length ts. last_ts < ts ! k \<or> ts ! k = - 1"
    using nth_mem by blast
  moreover have "\<forall>k < length ts. \<forall>j < k. ts ! j < ts ! k \<or> ts ! k = - 1"
    using sorted_wrt_nth_less [OF s] by blast
  ultimately show ?thesis
    using ts(1) by blast
qed

lemma advert_timestamps_increase_witness:
  "\<exists>ts. issued demo_curve (from_seed demo_curve (zeros 32)) [] 5 [to_le32 3, [1], to_le32 900] = Some ts"
proof -
  define i where "i = from_seed demo_curve (zeros 32)"
  have "length (id_pubkey i) = 32" "\<And>m. length (sign demo_curve i m) = 64"
    by (simp_all add: i_def from_seed_def demo_curve_def sign_def Let_def)
  then show ?thesis
    using advert_timestamps_increase [of i demo_curve "[]" 5 "[to_le32 3, [1], to_le32 900]"] by (auto simp: i_def)
qed

text \<open>One request with the largest timestamp fixes every later card at that timestamp, so a peer that keeps
  the last timestamp ignores all of them.\<close>

theorem advert_counter_poisoned:
  "next_advert_timestamp (- 1) nvs_last = - 1 \<and> next_advert_timestamp h (- 1) = - 1"
proof
  show "next_advert_timestamp (- 1) nvs_last = - 1"
    unfolding next_advert_timestamp_def by (rule max_absorb1) (rule word_n1_ge)
  show "next_advert_timestamp h (- 1) = - 1"
    using next_timestamp_cases [of "- 1" h] leD [OF word_n1_ge [of "next_advert_timestamp h (- 1)"]] by blast
qed

end
