(* ===== verification/Serial.thy ===== *)
theory Serial
  imports Effects Prov_Frame Prov_Payload
begin

text \<open>
  The USB serial output of the two servers: \<open>send_frame\<close>, \<open>send_ok\<close> and \<open>send_error\<close> of
  \<open>firmware/src/admin_server.rs\<close> and \<open>provisioning_server.rs\<close>, and the codes of their errors.

  The output is the list of chunks that were written and flushed.  The writer is a parameter: \<open>tx\<close> tells
  whether the write and the flush of a chunk behind the chunks so far succeed.
\<close>

section \<open>An operation on a part of the state\<close>

definition on_part :: "('a \<Rightarrow> 'b) \<Rightarrow> ('b \<Rightarrow> 'a \<Rightarrow> 'a) \<Rightarrow> ('b \<Rightarrow> ('e, 'r, 'b) outcome) \<Rightarrow> 'a \<Rightarrow> ('e, 'r, 'a) outcome" where
  "on_part get upd f a = map_option (\<lambda>(r, b). (r, upd b a)) (f (get a))"

lemma owp_on_part [owp_simps]:
  "owp (on_part get upd f a) Q E = owp (f (get a)) (\<lambda>x b. Q x (upd b a)) (\<lambda>e b. E e (upd b a))"
  by (auto simp: owp_def on_part_def split: option.split sum.split)

section \<open>Frame types\<close>

definition FRAME_QUERY_STATUS :: u8 where
  "FRAME_QUERY_STATUS = 0x01"

definition FRAME_QUERY_CONTACTS :: u8 where
  "FRAME_QUERY_CONTACTS = 0x02"

definition FRAME_QUERY_CHANNELS :: u8 where
  "FRAME_QUERY_CHANNELS = 0x03"

definition FRAME_QUERY_ADVERT :: u8 where
  "FRAME_QUERY_ADVERT = 0x04"

definition FRAME_QUERY_ROOMS :: u8 where
  "FRAME_QUERY_ROOMS = 0x05"

definition FRAME_QUERY_LOCK :: u8 where
  "FRAME_QUERY_LOCK = 0x06"

definition FRAME_QUERY_REGION :: u8 where
  "FRAME_QUERY_REGION = 0x07"

definition FRAME_ADD_CONTACT :: u8 where
  "FRAME_ADD_CONTACT = 0x10"

definition FRAME_DEL_CONTACT :: u8 where
  "FRAME_DEL_CONTACT = 0x11"

definition FRAME_ADD_CHANNEL :: u8 where
  "FRAME_ADD_CHANNEL = 0x20"

definition FRAME_DEL_CHANNEL :: u8 where
  "FRAME_DEL_CHANNEL = 0x21"

definition FRAME_ADD_ROOM :: u8 where
  "FRAME_ADD_ROOM = 0x22"

definition FRAME_DEL_ROOM :: u8 where
  "FRAME_DEL_ROOM = 0x23"

definition FRAME_SET_NOTIF_DEFAULTS :: u8 where
  "FRAME_SET_NOTIF_DEFAULTS = 0x40"

definition FRAME_SET_PIN :: u8 where
  "FRAME_SET_PIN = 0x50"

definition FRAME_SET_DEVICE_NAME :: u8 where
  "FRAME_SET_DEVICE_NAME = 0x51"

definition FRAME_SET_LOCK_PIN :: u8 where
  "FRAME_SET_LOCK_PIN = 0x52"

definition FRAME_SET_LOCK_CONFIG :: u8 where
  "FRAME_SET_LOCK_CONFIG = 0x53"

definition FRAME_SET_REGION :: u8 where
  "FRAME_SET_REGION = 0x54"

definition FRAME_COMMIT_PROVISIONING :: u8 where
  "FRAME_COMMIT_PROVISIONING = 0x70"

definition FRAME_RSP_OK :: u8 where
  "FRAME_RSP_OK = 0x80"

definition FRAME_RSP_ERROR :: u8 where
  "FRAME_RSP_ERROR = 0x81"

definition FRAME_RSP_STATUS :: u8 where
  "FRAME_RSP_STATUS = 0x82"

definition FRAME_RSP_IDENTITY :: u8 where
  "FRAME_RSP_IDENTITY = 0x83"

definition FRAME_EXPORT_HISTORY :: u8 where
  "FRAME_EXPORT_HISTORY = 0x71"

definition FRAME_CLEAR_HISTORY :: u8 where
  "FRAME_CLEAR_HISTORY = 0x72"

definition FRAME_RSP_HISTORY_ENTRY :: u8 where
  "FRAME_RSP_HISTORY_ENTRY = 0x84"

definition FRAME_RSP_HISTORY_DONE :: u8 where
  "FRAME_RSP_HISTORY_DONE = 0x85"

definition FRAME_RSP_CONTACT :: u8 where
  "FRAME_RSP_CONTACT = 0x86"

definition FRAME_RSP_CONTACTS_DONE :: u8 where
  "FRAME_RSP_CONTACTS_DONE = 0x87"

definition FRAME_RSP_CHANNEL :: u8 where
  "FRAME_RSP_CHANNEL = 0x88"

definition FRAME_RSP_CHANNELS_DONE :: u8 where
  "FRAME_RSP_CHANNELS_DONE = 0x89"

definition FRAME_RSP_ADVERT :: u8 where
  "FRAME_RSP_ADVERT = 0x8A"

definition FRAME_RSP_LOCK :: u8 where
  "FRAME_RSP_LOCK = 0x8D"

definition FRAME_RSP_REGION :: u8 where
  "FRAME_RSP_REGION = 0x8E"

lemmas frame_types = FRAME_QUERY_STATUS_def FRAME_QUERY_CONTACTS_def FRAME_QUERY_CHANNELS_def
  FRAME_QUERY_ADVERT_def FRAME_QUERY_ROOMS_def FRAME_QUERY_LOCK_def FRAME_QUERY_REGION_def
  FRAME_ADD_CONTACT_def FRAME_DEL_CONTACT_def FRAME_ADD_CHANNEL_def FRAME_DEL_CHANNEL_def FRAME_ADD_ROOM_def
  FRAME_DEL_ROOM_def FRAME_SET_NOTIF_DEFAULTS_def FRAME_SET_PIN_def FRAME_SET_DEVICE_NAME_def
  FRAME_SET_LOCK_PIN_def FRAME_SET_LOCK_CONFIG_def FRAME_SET_REGION_def FRAME_COMMIT_PROVISIONING_def
  FRAME_RSP_OK_def FRAME_RSP_ERROR_def FRAME_RSP_STATUS_def FRAME_RSP_IDENTITY_def FRAME_EXPORT_HISTORY_def
  FRAME_CLEAR_HISTORY_def FRAME_RSP_HISTORY_ENTRY_def FRAME_RSP_HISTORY_DONE_def FRAME_RSP_CONTACT_def
  FRAME_RSP_CONTACTS_DONE_def FRAME_RSP_CHANNEL_def FRAME_RSP_CHANNELS_DONE_def FRAME_RSP_ADVERT_def
  FRAME_RSP_LOCK_def FRAME_RSP_REGION_def

section \<open>Frames\<close>

definition serial_write :: "(bytes list \<Rightarrow> bytes \<Rightarrow> bool) \<Rightarrow> bytes \<Rightarrow> bytes list \<Rightarrow> (unit, unit, bytes list) outcome" where
  "serial_write tx chunk out = Some (if tx out chunk then (Inr (), out @ [chunk]) else (Inl (), out))"

definition send_frame ::
    "(bytes list \<Rightarrow> bytes \<Rightarrow> bool) \<Rightarrow> u8 \<Rightarrow> bytes \<Rightarrow> bytes list \<Rightarrow> (unit, unit, bytes list) outcome" where
  "send_frame tx frame_type payload out = do {
     (frame_buf, n) \<leftarrow> encode_frame frame_type payload (zeros 512);
     if frame_needs_usb_packet_split n then do {
       c1 \<leftarrow> slice frame_buf 0 (n - 1);
       c2 \<leftarrow> slice frame_buf (n - 1) n;
       and_then (serial_write tx c1 out) (\<lambda>_. serial_write tx c2)
     } else do {
       c \<leftarrow> slice frame_buf 0 n;
       serial_write tx c out
     }
   }"

definition send_ok :: "(bytes list \<Rightarrow> bytes \<Rightarrow> bool) \<Rightarrow> bytes list \<Rightarrow> (unit, unit, bytes list) outcome" where
  "send_ok tx = send_frame tx FRAME_RSP_OK []"

definition send_error :: "(bytes list \<Rightarrow> bytes \<Rightarrow> bool) \<Rightarrow> u8 \<Rightarrow> bytes \<Rightarrow> bytes list \<Rightarrow> (unit, unit, bytes list) outcome" where
  "send_error tx code msg out = do {
     (payload_buf, plen) \<leftarrow> encode_rsp_error code msg (zeros 128);
     payload \<leftarrow> slice payload_buf 0 plen;
     send_frame tx FRAME_RSP_ERROR payload out
   }"

section \<open>The codes of the errors\<close>

definition CONTACT_LIST_FULL :: u8 where
  "CONTACT_LIST_FULL = 0x01"

definition CHANNEL_LIST_FULL :: u8 where
  "CHANNEL_LIST_FULL = 0x02"

definition CONTACT_NOT_FOUND :: u8 where
  "CONTACT_NOT_FOUND = 0x03"

definition CHANNEL_NOT_FOUND :: u8 where
  "CHANNEL_NOT_FOUND = 0x04"

definition DECODE_ERROR :: u8 where
  "DECODE_ERROR = 0x05"

definition STORAGE_ERROR :: u8 where
  "STORAGE_ERROR = 0x06"

definition FORWARD_ERROR :: u8 where
  "FORWARD_ERROR = 0x07"

definition REGION_INVALID :: u8 where
  "REGION_INVALID = 0x08"

section \<open>What reaches the host\<close>

text \<open>The replies \<open>rs\<close> were written behind what was there, in whole frames.\<close>

definition replied :: "bytes list \<Rightarrow> (u8 \<times> bytes) list \<Rightarrow> bytes list \<Rightarrow> bool" where
  "replied out rs out' \<longleftrightarrow> concat out' = concat out @ concat (map (\<lambda>(t, p). prov_frame t p) rs)"

lemma replied_Nil [simp]: "replied out [] out"
  by (simp add: replied_def)

lemma replied_trans: "replied out rs out' \<Longrightarrow> replied out' rs' out'' \<Longrightarrow> replied out (rs @ rs') out''"
  by (simp add: replied_def)

text \<open>The writer refused a chunk.\<close>

definition tx_failed :: "(bytes list \<Rightarrow> bytes \<Rightarrow> bool) \<Rightarrow> bool" where
  "tx_failed tx \<longleftrightarrow> (\<exists>out chunk. \<not> tx out chunk)"

lemma owp_serial_write [owp_simps]:
  "owp (serial_write tx c out) Q E = (if tx out c then Q () (out @ [c]) else E () out)"
  by (simp add: serial_write_def owp_simps)

lemma send_frame_chunks:
  assumes "length p \<le> 505"
  shows "send_frame tx t p out =
     (if (7 + length p) mod 64 = 0
      then and_then (serial_write tx (butlast (prov_frame t p)) out) (\<lambda>_. serial_write tx [last (prov_frame t p)])
      else serial_write tx (prov_frame t p) out)"
proof -
  let ?f = "prov_frame t p" and ?b = "put (prov_frame t p) (zeros 512)"
  have enc: "encode_frame t p (zeros 512) = Some (?b, 7 + length p)"
    using assms by (intro encode_frame_spec) simp
  have split: "frame_needs_usb_packet_split (7 + length p) \<longleftrightarrow> (7 + length p) mod 64 = 0"
    by (simp add: frame_needs_usb_packet_split_def)
  have l: "length ?b = 512" "length ?f = 7 + length p" "?f \<noteq> []"
    using assms by (simp, simp, metis length_prov_frame list.size(3) add_is_0 zero_neq_numeral)
  have "slice ?b 0 (7 + length p) = Some ?f"
    using l(1) assms by (simp add: slice_def put_def)
  moreover have "slice ?b 0 (7 + length p - 1) = Some (butlast ?f)"
    using l assms by (simp add: slice_def put_def butlast_conv_take)
  moreover have "slice ?b (7 + length p - 1) (7 + length p) = Some [last ?f]"
  proof -
    have "drop (6 + length p) ?f = [last ?f]"
      using l(2,3) append_butlast_last_id [of ?f] by (metis add.commute append_eq_conv_conj diff_Suc_1 length_butlast numeral_eq_Suc pred_numeral_simps(3) plus_nat.simps(2))
    then show ?thesis
      using l(1,2) assms by (simp add: slice_def put_def)
  qed
  ultimately show ?thesis
    by (simp add: send_frame_def enc split)
qed

lemma owp_send_frame:
  assumes "length p \<le> 505"
  shows "owp (send_frame tx t p out) (\<lambda>_. replied out [(t, p)]) (\<lambda>_ _. tx_failed tx)"
proof -
  have "prov_frame t p \<noteq> []"
    by (metis length_prov_frame list.size(3) add_is_0 zero_neq_numeral)
  then show ?thesis
    by (auto simp: send_frame_chunks [OF assms] owp_simps replied_def tx_failed_def)
qed

lemma owp_send_ok: "owp (send_ok tx out) (\<lambda>_. replied out [(FRAME_RSP_OK, [])]) (\<lambda>_ _. tx_failed tx)"
  unfolding send_ok_def by (rule owp_send_frame) simp

lemma owp_send_error:
  "owp (send_error tx code msg out) (\<lambda>_. replied out [(FRAME_RSP_ERROR, rsp_error_wire code (take 64 msg))]) (\<lambda>_ _. tx_failed tx)"
proof -
  have enc: "encode_rsp_error code msg (zeros 128) =
      Some (put (rsp_error_wire code (take 64 msg)) (zeros 128), 2 + length (take 64 msg))"
    by (rule encode_rsp_error_spec) simp
  have "slice (put (rsp_error_wire code (take 64 msg)) (zeros 128)) 0 (2 + length (take 64 msg)) =
      Some (rsp_error_wire code (take 64 msg))"
    by (auto simp add: slice_def put_def rsp_error_wire_def min_def)
  then show ?thesis
    using owp_send_frame [of "rsp_error_wire code (take 64 msg)" tx FRAME_RSP_ERROR out]
    by (simp add: send_error_def enc rsp_error_wire_def)
qed

text \<open>A frame never ends in a full packet of the bus: no chunk is a multiple of 64 bytes long.\<close>

lemma no_full_packet:
  assumes "length p \<le> 505" "send_frame tx t p out = Some (r, out')"
  shows "\<exists>cs. out' = out @ cs \<and> (\<forall>c \<in> set cs. length c mod 64 \<noteq> 0)"
proof (cases "(7 + length p) mod 64 = 0")
  case True
  then have "(6 + length p) mod 64 \<noteq> 0"
    by presburger
  then show ?thesis
    using assms(2) True by (auto simp: send_frame_chunks [OF assms(1)] serial_write_def split: if_splits)
qed (use assms(2) in \<open>auto simp: send_frame_chunks [OF assms(1)] serial_write_def split: if_splits\<close>)

end
