(* ===== verification/Config_Edit.thy ===== *)
theory Config_Edit
  imports Config_Blob
begin

text \<open>
  What the edits of the configuration (\<open>firmware-core/src/config_store.rs\<close>, \<open>room_admin.rs\<close>) do to the live
  lists: an upsert replaces the entry with the key of the new one or appends it, a deletion removes the first
  entry with the key; every edit keeps the arrays and counts in shape and leaves the rest alone.  The delete
  loops that the two USB servers write out are here too.
\<close>

section \<open>Lists with a key\<close>

definition put_by :: "('a \<Rightarrow> 'k) \<Rightarrow> 'a \<Rightarrow> 'a list \<Rightarrow> 'a list" where
  "put_by key x xs = (case position (\<lambda>y. key y = key x) xs of Some i \<Rightarrow> xs[i := x] | None \<Rightarrow> xs @ [x])"

definition drop_by :: "('a \<Rightarrow> 'k) \<Rightarrow> 'k \<Rightarrow> 'a list \<Rightarrow> 'a list" where
  "drop_by key k xs = (case position (\<lambda>y. key y = k) xs of Some i \<Rightarrow> take i xs @ drop (Suc i) xs | None \<Rightarrow> xs)"

lemma put_by_keys: "map key (put_by key x xs) = (if key x \<in> key ` set xs then map key xs else map key xs @ [key x])"
proof (cases "position (\<lambda>y. key y = key x) xs")
  case None
  then have "key x \<notin> key ` set xs"
    by (auto simp: position_None_iff)
  then show ?thesis
    by (simp add: put_by_def None)
next
  case (Some i)
  then have i: "i < length xs" "key (xs ! i) = key x"
    by (auto dest: position_SomeD)
  have "key x \<in> key ` set xs"
    using i nth_mem [OF i(1)] by (intro image_eqI [of _ _ "xs ! i"]) simp_all
  moreover have "(map key xs)[i := key x] = map key xs"
    using i by (simp add: list_update_same_conv)
  ultimately show ?thesis
    by (simp add: put_by_def Some map_update)
qed

lemma put_by_last [simp]: "x \<in> set (put_by key x xs)"
  by (auto simp: put_by_def set_update_memI dest: position_SomeD split: option.split)

section \<open>The delete loop\<close>

text \<open>\<open>for j in idx..cnt - 1 { arr[j] = arr[j + 1] } count -= 1\<close> on the contacts and on the channels.\<close>

definition remove_contact_at :: "nat \<Rightarrow> ProvisionedConfig \<Rightarrow> ProvisionedConfig rust" where
  "remove_contact_at idx cfg = do {
     arr \<leftarrow> shift_left (pc_contacts cfg) idx (n_contacts cfg - 1 - idx);
     Some (cfg\<lparr>pc_contacts := arr, pc_contact_count := pc_contact_count cfg - 1\<rparr>)
   }"

definition remove_channel_at :: "nat \<Rightarrow> ProvisionedConfig \<Rightarrow> ProvisionedConfig rust" where
  "remove_channel_at idx cfg = do {
     arr \<leftarrow> shift_left (pc_channels cfg) idx (n_channels cfg - 1 - idx);
     Some (cfg\<lparr>pc_channels := arr, pc_channel_count := pc_channel_count cfg - 1\<rparr>)
   }"

section \<open>Arrays with a count\<close>

lemma slice_prefix: "n \<le> length arr \<Longrightarrow> slice arr 0 n = Some (take n arr)"
  by (simp add: slice_def)

lemma count_up: "unat (c :: u8) < 255 \<Longrightarrow> unat (c + 1) = unat c + 1"
  by (simp add: unat_word_ariths)

lemma count_down: "0 < unat (c :: u8) \<Longrightarrow> unat (c - 1) = unat c - 1"
  by (metis One_nat_def Suc_leI unat_1 unat_sub word_le_nat_alt)

lemma put_found:
  assumes "position p (take n arr) = Some i" "n \<le> length arr"
  shows "set_at arr i x = Some (arr[i := x])" "take n (arr[i := x]) = (take n arr)[i := x]"
  using position_SomeD [OF assms(1)] assms(2) by (simp_all add: set_at_def take_update_swap)

lemma put_new:
  assumes "n < length arr"
  shows "set_at arr n x = Some (arr[n := x])" "take (n + 1) (arr[n := x]) = take n arr @ [x]"
  using assms by (simp_all add: set_at_def take_list_update_snoc)

lemma set_update: "y \<in> set (arr[i := x]) \<Longrightarrow> y = x \<or> y \<in> set arr"
  using set_update_subset_insert [of arr i x] by auto

lemma shift_found:
  assumes "position (\<lambda>y. key y = k) (take n arr) = Some i" "n \<le> length arr"
  obtains arr' where "shift_left arr i (n - 1 - i) = Some arr'" "length arr' = length arr" "0 < n"
    "take (n - 1) arr' = drop_by key k (take n arr)" "set arr' \<subseteq> set arr"
proof -
  have i: "i < n"
    using position_SomeD [OF assms(1)] assms(2) by simp
  then have "shift_left arr i (n - 1 - i) =
      Some (take i arr @ take (n - 1 - i) (drop (Suc i) arr) @ drop (i + (n - 1 - i)) arr)"
    using assms(2) by (intro shift_left_spec) simp
  moreover obtain arr' where "shift_left arr i (n - 1 - i) = Some arr'" "length arr' = length arr"
      "take (n - 1) arr' = take i (take n arr) @ drop (Suc i) (take n arr)"
    using shift_left_live [OF i assms(2)] by blast
  ultimately have arr': "shift_left arr i (n - 1 - i) = Some arr'" "length arr' = length arr"
      "take (n - 1) arr' = take i (take n arr) @ drop (Suc i) (take n arr)"
      "arr' = take i arr @ take (n - 1 - i) (drop (Suc i) arr) @ drop (i + (n - 1 - i)) arr"
    by simp_all
  have "set arr' \<subseteq> set arr"
    unfolding arr'(4) set_append by (intro Un_least order_trans [OF set_take_subset set_drop_subset] set_take_subset set_drop_subset)
  then show thesis
    using i arr'(1-3) assms(1) by (intro that) (simp_all add: drop_by_def)
qed

section \<open>Contacts\<close>

lemma upsert_contact_spec:
  assumes cfg: "config_shape cfg" and c: "contact_ok c"
  obtains (full) "upsert_contact cfg c = Some (cfg, Inl ListFull)" "n_contacts cfg = 16"
      "ct_pubkey c \<notin> ct_pubkey ` set (live_contacts cfg)"
    | (put) cfg' u where "upsert_contact cfg c = Some (cfg', Inr u)" "config_shape cfg'"
      "live_contacts cfg' = put_by ct_pubkey c (live_contacts cfg)" "n_contacts cfg \<le> n_contacts cfg'"
      "cfg' = cfg\<lparr>pc_contacts := pc_contacts cfg', pc_contact_count := pc_contact_count cfg'\<rparr>"
proof -
  let ?n = "n_contacts cfg" and ?arr = "pc_contacts cfg"
  have n: "?n \<le> length ?arr" "length ?arr = 16"
    using cfg by (simp_all add: config_shape_def)
  have live: "live_contacts cfg = take ?n ?arr"
    by (simp add: live_defs)
  show thesis
  proof (cases "position (\<lambda>x. ct_pubkey x = ct_pubkey c) (take ?n ?arr)")
    case None
    show thesis
    proof (cases "?n = 16")
      case True
      then show thesis
        using None n by (intro full) (auto simp: upsert_contact_def slice_prefix Let_def MAX_CONTACTS_def live position_None_iff)
    next
      case False
      then have lt: "?n < length ?arr"
        using n by simp
      have up: "unat (pc_contact_count cfg + 1) = ?n + 1"
        using lt n by (intro count_up) simp
      show thesis
      proof (rule put)
        show "upsert_contact cfg c = Some (cfg\<lparr>pc_contacts := ?arr[?n := c], pc_contact_count := pc_contact_count cfg + 1\<rparr>, Inr UpAdded)"
          using None lt n by (simp add: upsert_contact_def slice_prefix Let_def MAX_CONTACTS_def put_new)
        show "config_shape (cfg\<lparr>pc_contacts := ?arr[?n := c], pc_contact_count := pc_contact_count cfg + 1\<rparr>)"
          using cfg c lt up by (auto simp: config_shape_def dest: set_update)
        show "live_contacts (cfg\<lparr>pc_contacts := ?arr[?n := c], pc_contact_count := pc_contact_count cfg + 1\<rparr>)
            = put_by ct_pubkey c (live_contacts cfg)"
          using None put_new(2) [OF lt] by (simp add: live_defs up put_by_def)
      qed (simp_all add: up)
    qed
  next
    case (Some i)
    show thesis
    proof (rule put)
      show "upsert_contact cfg c = Some (cfg\<lparr>pc_contacts := ?arr[i := c]\<rparr>, Inr UpUpdated)"
        using Some n by (simp add: upsert_contact_def slice_prefix Let_def put_found)
      show "config_shape (cfg\<lparr>pc_contacts := ?arr[i := c]\<rparr>)"
        using cfg c by (auto simp: config_shape_def dest: set_update)
      show "live_contacts (cfg\<lparr>pc_contacts := ?arr[i := c]\<rparr>) = put_by ct_pubkey c (live_contacts cfg)"
        using Some put_found(2) [OF Some n(1)] by (simp add: live_defs put_by_def)
    qed simp_all
  qed
qed

lemma remove_contact_spec:
  assumes cfg: "config_shape cfg" and i: "position (\<lambda>x. ct_pubkey x = k) (live_contacts cfg) = Some i"
  obtains cfg' where "remove_contact_at i cfg = Some cfg'" "config_shape cfg'"
    "live_contacts cfg' = drop_by ct_pubkey k (live_contacts cfg)" "n_contacts cfg' = n_contacts cfg - 1" "0 < n_contacts cfg"
    "cfg' = cfg\<lparr>pc_contacts := pc_contacts cfg', pc_contact_count := pc_contact_count cfg'\<rparr>"
proof -
  have i': "position (\<lambda>x. ct_pubkey x = k) (take (n_contacts cfg) (pc_contacts cfg)) = Some i"
    and n: "n_contacts cfg \<le> length (pc_contacts cfg)"
    using i cfg by (simp_all add: live_defs config_shape_def)
  show thesis
  proof (rule shift_found [OF i' n])
    fix arr
    assume arr: "shift_left (pc_contacts cfg) i (n_contacts cfg - 1 - i) = Some arr" "length arr = length (pc_contacts cfg)"
      "0 < n_contacts cfg" "take (n_contacts cfg - 1) arr = drop_by ct_pubkey k (take (n_contacts cfg) (pc_contacts cfg))"
      "set arr \<subseteq> set (pc_contacts cfg)"
    show thesis
      by (rule that [of "cfg\<lparr>pc_contacts := arr, pc_contact_count := pc_contact_count cfg - 1\<rparr>"])
        (use arr cfg in \<open>auto simp: remove_contact_at_def live_defs count_down config_shape_def\<close>)
  qed
qed

section \<open>Channels\<close>

definition unprimary :: "Channel \<Rightarrow> Channel list \<Rightarrow> Channel list" where
  "unprimary c chs = (if ch_primary c then map (\<lambda>x. x\<lparr>ch_primary := False\<rparr>) chs else chs)"

lemma position_unprimary:
  "position (\<lambda>x. ch_secret x = k) (unprimary c chs) = position (\<lambda>x. ch_secret x = k) chs"
  unfolding unprimary_def by (induction chs) auto

lemma upsert_channel_spec:
  assumes cfg: "config_shape cfg" and c: "channel_ok c"
  obtains (full) "upsert_channel cfg c = Some (cfg, Inl ListFull)" "n_channels cfg = 8"
      "ch_secret c \<notin> ch_secret ` set (live_channels cfg)"
    | (put) cfg' u where "upsert_channel cfg c = Some (cfg', Inr u)" "config_shape cfg'"
      "live_channels cfg' = put_by ch_secret c (unprimary c (live_channels cfg))"
      "cfg' = cfg\<lparr>pc_channels := pc_channels cfg', pc_channel_count := pc_channel_count cfg'\<rparr>"
proof -
  let ?n = "n_channels cfg"
  define arr where "arr = unprimary c (take ?n (pc_channels cfg)) @ drop ?n (pc_channels cfg)"
  have n: "?n \<le> length (pc_channels cfg)" "length (pc_channels cfg) = 8"
    using cfg by (simp_all add: config_shape_def)
  have len: "length (unprimary c xs) = length xs" for xs
    by (simp add: unprimary_def)
  have arr: "length arr = 8" "take ?n arr = unprimary c (live_channels cfg)"
    using n by (simp_all add: arr_def len live_defs)
  have ok: "\<forall>x \<in> set arr. channel_ok x"
    using cfg by (auto simp: arr_def unprimary_def config_shape_def channel_ok_def dest: in_set_takeD in_set_dropD)
  have code: "(if ch_primary c then map (\<lambda>c. c\<lparr>ch_primary := False\<rparr>) (take ?n (pc_channels cfg)) @ drop ?n (pc_channels cfg)
      else pc_channels cfg) = arr"
    by (simp add: arr_def unprimary_def)
  have pos: "position (\<lambda>x. ch_secret x = ch_secret c) (take ?n arr) = position (\<lambda>x. ch_secret x = ch_secret c) (take ?n (pc_channels cfg))"
    unfolding arr(2) position_unprimary by (simp add: live_defs)
  note un = upsert_channel_def slice_prefix Let_def MAX_CHANNELS_def code
  show thesis
  proof (cases "position (\<lambda>x. ch_secret x = ch_secret c) (take ?n (pc_channels cfg))")
    case None
    show thesis
    proof (cases "?n = 8")
      case True
      have "upsert_channel cfg c = Some (cfg, Inl ListFull)"
        using None n True by (simp add: un)
      moreover have "ch_secret c \<notin> ch_secret ` set (live_channels cfg)"
        using None by (auto simp: live_defs position_None_iff)
      ultimately show thesis
        using True by (intro full)
    next
      case False
      then have lt: "?n < length arr"
        using n arr by simp
      have up: "unat (pc_channel_count cfg + 1) = ?n + 1"
        using lt arr by (intro count_up) simp
      show thesis
      proof (rule put)
        show "upsert_channel cfg c = Some (cfg\<lparr>pc_channels := arr[?n := c], pc_channel_count := pc_channel_count cfg + 1\<rparr>, Inr UpAdded)"
            using None lt arr n by (simp add: un put_new)
        show "config_shape (cfg\<lparr>pc_channels := arr[?n := c], pc_channel_count := pc_channel_count cfg + 1\<rparr>)"
          using cfg c lt up arr ok by (auto simp: config_shape_def dest: set_update)
        show "live_channels (cfg\<lparr>pc_channels := arr[?n := c], pc_channel_count := pc_channel_count cfg + 1\<rparr>)
            = put_by ch_secret c (unprimary c (live_channels cfg))"
          using None put_new(2) [OF lt] pos by (simp add: live_channels_def [of "cfg\<lparr>pc_channels := _, pc_channel_count := _\<rparr>"] up put_by_def arr)
      qed simp
    qed
  next
    case (Some i)
    have n': "?n \<le> length arr"
      using n arr by simp
    have at: "position (\<lambda>x. ch_secret x = ch_secret c) (take ?n arr) = Some i"
      using Some pos by simp
    show thesis
    proof (rule put)
      show "upsert_channel cfg c = Some (cfg\<lparr>pc_channels := arr[i := c]\<rparr>, Inr UpUpdated)"
        using Some put_found(1) [OF at n'] n by (simp add: un)
      show "config_shape (cfg\<lparr>pc_channels := arr[i := c]\<rparr>)"
        using cfg c arr ok by (auto simp: config_shape_def dest: set_update)
      show "live_channels (cfg\<lparr>pc_channels := arr[i := c]\<rparr>) = put_by ch_secret c (unprimary c (live_channels cfg))"
        using at put_found(2) [OF at n'] by (simp add: live_channels_def [of "cfg\<lparr>pc_channels := _\<rparr>"] put_by_def arr)
    qed simp
  qed
qed

lemma remove_channel_spec:
  assumes cfg: "config_shape cfg" and i: "position (\<lambda>x. ch_secret x = k) (live_channels cfg) = Some i"
  obtains cfg' where "remove_channel_at i cfg = Some cfg'" "config_shape cfg'"
    "live_channels cfg' = drop_by ch_secret k (live_channels cfg)"
    "cfg' = cfg\<lparr>pc_channels := pc_channels cfg', pc_channel_count := pc_channel_count cfg'\<rparr>"
proof -
  have i': "position (\<lambda>x. ch_secret x = k) (take (n_channels cfg) (pc_channels cfg)) = Some i"
    and n: "n_channels cfg \<le> length (pc_channels cfg)"
    using i cfg by (simp_all add: live_defs config_shape_def)
  show thesis
  proof (rule shift_found [OF i' n])
    fix arr
    assume arr: "shift_left (pc_channels cfg) i (n_channels cfg - 1 - i) = Some arr" "length arr = length (pc_channels cfg)"
      "0 < n_channels cfg" "take (n_channels cfg - 1) arr = drop_by ch_secret k (take (n_channels cfg) (pc_channels cfg))"
      "set arr \<subseteq> set (pc_channels cfg)"
    show thesis
      by (rule that [of "cfg\<lparr>pc_channels := arr, pc_channel_count := pc_channel_count cfg - 1\<rparr>"])
        (use arr cfg in \<open>auto simp: remove_channel_at_def live_defs count_down config_shape_def\<close>)
  qed
qed

section \<open>Rooms\<close>

definition put_extra :: "RoomExtra \<Rightarrow> ProvisionedConfig \<Rightarrow> ProvisionedConfig rust" where
  "put_extra e cfg = do {
     rs \<leftarrow> slice (pc_room_extras cfg) 0 (n_rooms cfg);
     (case position (\<lambda>r. re_pubkey r = re_pubkey e) rs of
        Some idx \<Rightarrow> do { arr \<leftarrow> set_at (pc_room_extras cfg) idx e; Some (cfg\<lparr>pc_room_extras := arr\<rparr>) }
      | None \<Rightarrow> do {
          arr \<leftarrow> set_at (pc_room_extras cfg) (n_rooms cfg) e;
          Some (cfg\<lparr>pc_room_extras := arr, pc_room_count := pc_room_count cfg + 1\<rparr>)
        })
   }"

lemma upsert_room_put_extra:
  "upsert_room cfg c e = do {
     (cfg, r) \<leftarrow> upsert_contact cfg (c\<lparr>ct_role := ROLE_ROOM\<rparr>);
     (case r of
        Inl x \<Rightarrow> Some (cfg, Inl x)
      | Inr u \<Rightarrow> do { cfg \<leftarrow> put_extra (e\<lparr>re_pubkey := ct_pubkey c\<rparr>) cfg; Some (cfg, Inr u) })
   }"
  by (auto simp: upsert_room_def put_extra_def Let_def split: sum.split option.split intro!: Option.bind_cong)

lemma put_extra_spec:
  assumes cfg: "config_shape cfg" and e: "extra_ok e"
    and room: "n_rooms cfg < 16 \<or> re_pubkey e \<in> re_pubkey ` set (live_rooms cfg)"
  obtains cfg' where "put_extra e cfg = Some cfg'" "config_shape cfg'" "live_rooms cfg' = put_by re_pubkey e (live_rooms cfg)"
    "cfg' = cfg\<lparr>pc_room_extras := pc_room_extras cfg', pc_room_count := pc_room_count cfg'\<rparr>"
proof -
  let ?n = "n_rooms cfg" and ?arr = "pc_room_extras cfg"
  have n: "?n \<le> length ?arr" "length ?arr = 16"
    using cfg by (simp_all add: config_shape_def)
  show thesis
  proof (cases "position (\<lambda>x. re_pubkey x = re_pubkey e) (take ?n ?arr)")
    case None
    then have "re_pubkey e \<notin> re_pubkey ` set (live_rooms cfg)"
      by (auto simp: live_defs position_None_iff)
    then have lt: "?n < length ?arr"
      using room n by simp
    have up: "unat (pc_room_count cfg + 1) = ?n + 1"
      using lt n by (intro count_up) simp
    show thesis
    proof (rule that)
      show "put_extra e cfg = Some (cfg\<lparr>pc_room_extras := ?arr[?n := e], pc_room_count := pc_room_count cfg + 1\<rparr>)"
        using None lt n by (simp add: put_extra_def slice_prefix put_new)
      show "config_shape (cfg\<lparr>pc_room_extras := ?arr[?n := e], pc_room_count := pc_room_count cfg + 1\<rparr>)"
        using cfg e lt up by (auto simp: config_shape_def dest: set_update)
      show "live_rooms (cfg\<lparr>pc_room_extras := ?arr[?n := e], pc_room_count := pc_room_count cfg + 1\<rparr>)
          = put_by re_pubkey e (live_rooms cfg)"
        using None put_new(2) [OF lt] by (simp add: live_defs up put_by_def)
    qed simp
  next
    case (Some i)
    show thesis
    proof (rule that)
      show "put_extra e cfg = Some (cfg\<lparr>pc_room_extras := ?arr[i := e]\<rparr>)"
        using Some n by (simp add: put_extra_def slice_prefix put_found)
      show "config_shape (cfg\<lparr>pc_room_extras := ?arr[i := e]\<rparr>)"
        using cfg e by (auto simp: config_shape_def dest: set_update)
      show "live_rooms (cfg\<lparr>pc_room_extras := ?arr[i := e]\<rparr>) = put_by re_pubkey e (live_rooms cfg)"
        using Some put_found(2) [OF Some n(1)] by (simp add: live_defs put_by_def)
    qed simp
  qed
qed

lemma upsert_room_spec:
  assumes cfg: "config_shape cfg" and c: "contact_ok c" and e: "extra_ok e"
    and room: "n_rooms cfg < 16 \<or> ct_pubkey c \<in> re_pubkey ` set (live_rooms cfg)
      \<or> n_contacts cfg = 16 \<and> ct_pubkey c \<notin> ct_pubkey ` set (live_contacts cfg)"
  obtains (full) "upsert_room cfg c e = Some (cfg, Inl ListFull)" "n_contacts cfg = 16"
      "ct_pubkey c \<notin> ct_pubkey ` set (live_contacts cfg)"
    | (put) cfg' u where "upsert_room cfg c e = Some (cfg', Inr u)" "config_shape cfg'"
      "live_contacts cfg' = put_by ct_pubkey (c\<lparr>ct_role := ROLE_ROOM\<rparr>) (live_contacts cfg)"
      "live_rooms cfg' = put_by re_pubkey (e\<lparr>re_pubkey := ct_pubkey c\<rparr>) (live_rooms cfg)"
      "live_channels cfg' = live_channels cfg"
      "pc_notif_defaults cfg' = pc_notif_defaults cfg" "pc_pin cfg' = pc_pin cfg" "pc_pin_len cfg' = pc_pin_len cfg"
proof -
  have c': "contact_ok (c\<lparr>ct_role := ROLE_ROOM\<rparr>)" and e': "extra_ok (e\<lparr>re_pubkey := ct_pubkey c\<rparr>)"
    using c e by (simp_all add: contact_ok_def extra_ok_def)
  show thesis
  proof (rule upsert_contact_spec [OF cfg c'])
    assume "upsert_contact cfg (c\<lparr>ct_role := ROLE_ROOM\<rparr>) = Some (cfg, Inl ListFull)" "n_contacts cfg = 16"
      "ct_pubkey (c\<lparr>ct_role := ROLE_ROOM\<rparr>) \<notin> ct_pubkey ` set (live_contacts cfg)"
    then show thesis
      by (intro full) (simp_all add: upsert_room_put_extra)
  next
    fix cfg1 u
    assume 1: "upsert_contact cfg (c\<lparr>ct_role := ROLE_ROOM\<rparr>) = Some (cfg1, Inr u)" "config_shape cfg1"
      "live_contacts cfg1 = put_by ct_pubkey (c\<lparr>ct_role := ROLE_ROOM\<rparr>) (live_contacts cfg)"
      "cfg1 = cfg\<lparr>pc_contacts := pc_contacts cfg1, pc_contact_count := pc_contact_count cfg1\<rparr>"
    have same: "live_rooms cfg1 = live_rooms cfg" "n_rooms cfg1 = n_rooms cfg" "live_channels cfg1 = live_channels cfg"
      "pc_notif_defaults cfg1 = pc_notif_defaults cfg" "pc_pin cfg1 = pc_pin cfg" "pc_pin_len cfg1 = pc_pin_len cfg"
      by (subst 1(4), simp add: live_defs)+
    have "\<not> (n_contacts cfg = 16 \<and> ct_pubkey c \<notin> ct_pubkey ` set (live_contacts cfg))"
    proof
      assume full: "n_contacts cfg = 16 \<and> ct_pubkey c \<notin> ct_pubkey ` set (live_contacts cfg)"
      then have "length (map ct_pubkey (live_contacts cfg1)) = 17"
        using length_live_entries(1) [OF cfg] unfolding 1(3) put_by_keys by simp
      then show False
        using length_live_entries(1) [OF 1(2)] 1(2) by (simp add: config_shape_def)
    qed
    then have room1: "n_rooms cfg1 < 16 \<or> re_pubkey (e\<lparr>re_pubkey := ct_pubkey c\<rparr>) \<in> re_pubkey ` set (live_rooms cfg1)"
      using room by (auto simp: same)
    show thesis
    proof (rule put_extra_spec [OF 1(2) e' room1])
      fix cfg2
      assume 2: "put_extra (e\<lparr>re_pubkey := ct_pubkey c\<rparr>) cfg1 = Some cfg2" "config_shape cfg2"
        "live_rooms cfg2 = put_by re_pubkey (e\<lparr>re_pubkey := ct_pubkey c\<rparr>) (live_rooms cfg1)"
        "cfg2 = cfg1\<lparr>pc_room_extras := pc_room_extras cfg2, pc_room_count := pc_room_count cfg2\<rparr>"
      have "live_contacts cfg2 = live_contacts cfg1" "live_channels cfg2 = live_channels cfg1"
        "pc_notif_defaults cfg2 = pc_notif_defaults cfg1" "pc_pin cfg2 = pc_pin cfg1" "pc_pin_len cfg2 = pc_pin_len cfg1"
        by (subst 2(4), simp add: live_defs)+
      then show thesis
        using 1 2 same by (intro put [of cfg2 u]) (simp_all add: upsert_room_put_extra)
    qed
  qed
qed

lemma remove_room_spec:
  assumes cfg: "config_shape cfg"
  obtains cfg' b where "remove_room cfg k = Some (cfg', b)" "config_shape cfg'"
    "live_contacts cfg' = drop_by ct_pubkey k (live_contacts cfg)" "live_rooms cfg' = drop_by re_pubkey k (live_rooms cfg)"
    "live_channels cfg' = live_channels cfg" "b \<longleftrightarrow> k \<in> ct_pubkey ` set (live_contacts cfg)"
    "pc_notif_defaults cfg' = pc_notif_defaults cfg" "pc_pin cfg' = pc_pin cfg" "pc_pin_len cfg' = pc_pin_len cfg"
    "k \<notin> re_pubkey ` set (live_rooms cfg) \<Longrightarrow> \<not> b \<Longrightarrow> cfg' = cfg"
proof -
  have n: "n_rooms cfg \<le> length (pc_room_extras cfg)" "length (pc_room_extras cfg) = 16"
    "n_contacts cfg \<le> length (pc_contacts cfg)" "length (pc_contacts cfg) = 16"
    using cfg by (simp_all add: config_shape_def)
  define step where "step = (case position (\<lambda>r. re_pubkey r = k) (live_rooms cfg) of
      Some idx \<Rightarrow> do {
        arr \<leftarrow> shift_left (pc_room_extras cfg) idx (n_rooms cfg - 1 - idx);
        Some (cfg\<lparr>pc_room_extras := arr, pc_room_count := pc_room_count cfg - 1\<rparr>)
      }
    | None \<Rightarrow> Some cfg)"
  have "\<exists>cfg1. step = Some cfg1 \<and> config_shape cfg1 \<and> live_rooms cfg1 = drop_by re_pubkey k (live_rooms cfg)
      \<and> live_contacts cfg1 = live_contacts cfg \<and> live_channels cfg1 = live_channels cfg
      \<and> pc_notif_defaults cfg1 = pc_notif_defaults cfg \<and> pc_pin cfg1 = pc_pin cfg \<and> pc_pin_len cfg1 = pc_pin_len cfg
      \<and> (k \<notin> re_pubkey ` set (live_rooms cfg) \<longrightarrow> cfg1 = cfg)"
  proof (cases "position (\<lambda>r. re_pubkey r = k) (live_rooms cfg)")
    case None
    then show ?thesis
      using cfg by (simp add: step_def drop_by_def)
  next
    case (Some i)
    then have i: "position (\<lambda>r. re_pubkey r = k) (take (n_rooms cfg) (pc_room_extras cfg)) = Some i"
      by (simp add: live_defs)
    have known: "k \<in> re_pubkey ` set (live_rooms cfg)"
      using Some position_Some_ex [of "\<lambda>r. re_pubkey r = k" "live_rooms cfg"] by auto
    show ?thesis
    proof (rule shift_found [OF i n(1)])
      fix arr
      assume arr: "shift_left (pc_room_extras cfg) i (n_rooms cfg - 1 - i) = Some arr" "length arr = length (pc_room_extras cfg)"
        "0 < n_rooms cfg" "take (n_rooms cfg - 1) arr = drop_by re_pubkey k (take (n_rooms cfg) (pc_room_extras cfg))"
        "set arr \<subseteq> set (pc_room_extras cfg)"
      show ?thesis
        by (rule exI [of _ "cfg\<lparr>pc_room_extras := arr, pc_room_count := pc_room_count cfg - 1\<rparr>"])
          (use arr cfg Some known in \<open>auto simp: step_def live_defs count_down config_shape_def\<close>)
    qed
  qed
  then obtain cfg1 where 1: "step = Some cfg1" "config_shape cfg1" "live_rooms cfg1 = drop_by re_pubkey k (live_rooms cfg)"
      "live_contacts cfg1 = live_contacts cfg" "live_channels cfg1 = live_channels cfg"
      "pc_notif_defaults cfg1 = pc_notif_defaults cfg" "pc_pin cfg1 = pc_pin cfg" "pc_pin_len cfg1 = pc_pin_len cfg"
      "k \<notin> re_pubkey ` set (live_rooms cfg) \<Longrightarrow> cfg1 = cfg"
    by blast
  have n1: "n_contacts cfg1 \<le> length (pc_contacts cfg1)"
    using 1(2) by (simp add: config_shape_def)
  have "remove_room cfg k = do {
      cfg \<leftarrow> step;
      cts \<leftarrow> slice (pc_contacts cfg) 0 (n_contacts cfg);
      (case position (\<lambda>c. ct_pubkey c = k) cts of
         Some idx \<Rightarrow> do {
           arr \<leftarrow> shift_left (pc_contacts cfg) idx (n_contacts cfg - 1 - idx);
           Some (cfg\<lparr>pc_contacts := arr, pc_contact_count := pc_contact_count cfg - 1\<rparr>, True)
         }
       | None \<Rightarrow> Some (cfg, False))
    }"
    unfolding remove_room_def Let_def slice_prefix [OF n(1)] bind.bind_lunit step_def live_rooms_def ..
  then have code: "remove_room cfg k =
      (case position (\<lambda>c. ct_pubkey c = k) (live_contacts cfg1) of
         Some idx \<Rightarrow> do { c \<leftarrow> remove_contact_at idx cfg1; Some (c, True) }
       | None \<Rightarrow> Some (cfg1, False))"
    by (simp add: 1(1) slice_prefix [OF n1] live_contacts_def remove_contact_at_def split: option.split)
  show thesis
  proof (cases "position (\<lambda>c. ct_pubkey c = k) (live_contacts cfg1)")
    case None
    then have "k \<notin> ct_pubkey ` set (live_contacts cfg)"
      using 1(4) by (auto simp: position_None_iff)
    moreover have "live_contacts cfg1 = drop_by ct_pubkey k (live_contacts cfg)"
      using None 1(4) by (simp add: drop_by_def)
    moreover have "remove_room cfg k = Some (cfg1, False)"
      by (simp add: code None)
    ultimately show thesis
      using 1 by (intro that [of cfg1 False]) simp_all
  next
    case (Some i)
    show thesis
    proof (rule remove_contact_spec [OF 1(2) Some])
      fix cfg2
      assume 2: "remove_contact_at i cfg1 = Some cfg2" "config_shape cfg2" "live_contacts cfg2 = drop_by ct_pubkey k (live_contacts cfg1)"
        "cfg2 = cfg1\<lparr>pc_contacts := pc_contacts cfg2, pc_contact_count := pc_contact_count cfg2\<rparr>"
      have "live_rooms cfg2 = live_rooms cfg1" "live_channels cfg2 = live_channels cfg1"
        "pc_notif_defaults cfg2 = pc_notif_defaults cfg1" "pc_pin cfg2 = pc_pin cfg1" "pc_pin_len cfg2 = pc_pin_len cfg1"
        by (subst 2(4), simp add: live_defs)+
      moreover have "k \<in> ct_pubkey ` set (live_contacts cfg)"
        using Some position_Some_ex [of "\<lambda>c. ct_pubkey c = k" "live_contacts cfg"] 1(4) by auto
      ultimately show thesis
        using 1 2 Some by (intro that [of cfg2 True]) (simp_all add: code)
    qed
  qed
qed

end
