(* ===== verification/History_Store.thy ===== *)
theory History_Store
  imports Effects History_Region
begin

text \<open>
  \<open>firmware/src/history_store.rs\<close>: the conversation history on the raw flash partition \<open>mc_hist\<close>, region by
  region, with the migration of the older store from NVS.

  The partition is the state; every access may fail.  A loop over slots or regions counts down what is left.
\<close>

section \<open>Layout\<close>

definition MAX_CONVERSATION_REGIONS :: nat where
  "MAX_CONVERSATION_REGIONS = 24"

definition REGION_SIZE :: nat where
  "REGION_SIZE = SECTOR_SIZE * SECTORS_PER_REGION"

datatype HistoryStoreError = HSE_Esp | HSE_DirectoryFull

definition esp :: "(unit, 'a, 's) outcome \<Rightarrow> (HistoryStoreError, 'a, 's) outcome" where
  "esp m = map_err (\<lambda>_. HSE_Esp) m"

definition region_offset :: "nat \<Rightarrow> nat" where
  "region_offset region = region * REGION_SIZE"

definition sector_offset :: "nat \<Rightarrow> nat \<Rightarrow> nat" where
  "sector_offset region sector = region_offset region + sector * SECTOR_SIZE"

definition slot_abs_offset :: "nat \<Rightarrow> nat \<Rightarrow> nat \<Rightarrow> nat" where
  "slot_abs_offset region sector slot = sector_offset region sector + slot_offset slot"

section \<open>Sectors\<close>

definition hs_read_header :: "'p part_prims \<Rightarrow> nat \<Rightarrow> nat \<Rightarrow> 'p \<Rightarrow> (unit, RegionHeader option, 'p) outcome" where
  "hs_read_header P region sector p =
     and_then (flash_read P (sector_offset region sector) REGION_HEADER_LEN p) (\<lambda>buf p.
       Some (Inr (decode_region_header buf), p))"

definition hs_write_header :: "'p part_prims \<Rightarrow> nat \<Rightarrow> nat \<Rightarrow> RegionHeader \<Rightarrow> 'p \<Rightarrow> (unit, unit, 'p) outcome" where
  "hs_write_header P region sector header p =
     flash_write P (sector_offset region sector) (encode_region_header header) p"

definition hs_erase_sector :: "'p part_prims \<Rightarrow> nat \<Rightarrow> nat \<Rightarrow> 'p \<Rightarrow> (unit, unit, 'p) outcome" where
  "hs_erase_sector P region sector p = flash_erase P (sector_offset region sector) SECTOR_SIZE p"

definition hs_active_sector :: "'p part_prims \<Rightarrow> nat \<Rightarrow> 'p \<Rightarrow> (unit, (nat \<times> RegionHeader) option, 'p) outcome" where
  "hs_active_sector P region p =
     and_then (hs_read_header P region 0 p) (\<lambda>h0 p.
     and_then (hs_read_header P region 1 p) (\<lambda>h1 p.
       Some (Inr (case (h0, h1) of
           (Some a, Some b) \<Rightarrow>
             if generation_is_newer (rh_generation b) (rh_generation a) then Some (1, b) else Some (0, a)
         | (Some a, None) \<Rightarrow> Some (0, a)
         | (None, Some b) \<Rightarrow> Some (1, b)
         | (None, None) \<Rightarrow> None), p)))"

section \<open>Slots\<close>

definition hs_read_slot :: "'p part_prims \<Rightarrow> nat \<Rightarrow> nat \<Rightarrow> nat \<Rightarrow> 'p \<Rightarrow> (unit, bytes, 'p) outcome" where
  "hs_read_slot P region sector slot p = flash_read P (slot_abs_offset region sector slot) HISTORY_ENTRY_BLOB_LEN p"

definition hs_write_slot ::
    "'p part_prims \<Rightarrow> nat \<Rightarrow> nat \<Rightarrow> nat \<Rightarrow> DecodedSlot \<Rightarrow> 'p \<Rightarrow> (unit, unit, 'p) outcome" where
  "hs_write_slot P region sector slot t p = (case t of (entry, is_ours, acked) \<Rightarrow> do {
     bs \<leftarrow> encode_slot entry is_ours acked;
     flash_write P (slot_abs_offset region sector slot) bs p
   })"

fun hs_head_loop :: "'p part_prims \<Rightarrow> nat \<Rightarrow> nat \<Rightarrow> nat \<Rightarrow> nat \<Rightarrow> 'p \<Rightarrow> (unit, nat, 'p) outcome" where
  "hs_head_loop P region sector i 0 p = Some (Inr SLOTS_PER_SECTOR, p)"
| "hs_head_loop P region sector i (Suc k) p =
     and_then (hs_read_slot P region sector i p) (\<lambda>blob p.
       if list_all (\<lambda>b. b = 0xFF) blob then Some (Inr i, p) else hs_head_loop P region sector (Suc i) k p)"

definition hs_find_write_head :: "'p part_prims \<Rightarrow> nat \<Rightarrow> nat \<Rightarrow> 'p \<Rightarrow> (unit, nat, 'p) outcome" where
  "hs_find_write_head P region sector p = hs_head_loop P region sector 0 SLOTS_PER_SECTOR p"

section \<open>The directory\<close>

fun hs_find_loop ::
    "'p part_prims \<Rightarrow> HistoryMsgType \<Rightarrow> u8 \<Rightarrow> nat \<Rightarrow> nat \<Rightarrow> 'p \<Rightarrow> (unit, nat option, 'p) outcome" where
  "hs_find_loop P kind conv_hash region 0 p = Some (Inr None, p)"
| "hs_find_loop P kind conv_hash region (Suc k) p =
     and_then (hs_active_sector P region p) (\<lambda>a p.
       if (case a of Some (_, header) \<Rightarrow> rh_kind header = kind \<and> rh_conv_hash header = conv_hash | None \<Rightarrow> False)
       then Some (Inr (Some region), p) else hs_find_loop P kind conv_hash (Suc region) k p)"

definition hs_find_claimed_region ::
    "'p part_prims \<Rightarrow> HistoryMsgType \<Rightarrow> u8 \<Rightarrow> 'p \<Rightarrow> (unit, nat option, 'p) outcome" where
  "hs_find_claimed_region P kind conv_hash p = hs_find_loop P kind conv_hash 0 MAX_CONVERSATION_REGIONS p"

definition hs_claim_region ::
    "'p part_prims \<Rightarrow> nat \<Rightarrow> HistoryMsgType \<Rightarrow> u8 \<Rightarrow> 'p \<Rightarrow> (unit, unit, 'p) outcome" where
  "hs_claim_region P region kind conv_hash p =
     and_then (hs_erase_sector P region 0 p) (\<lambda>_ p.
     and_then (hs_erase_sector P region 1 p) (\<lambda>_ p.
       hs_write_header P region 0 \<lparr>rh_kind = kind, rh_conv_hash = conv_hash, rh_generation = 0\<rparr> p))"

fun hs_claim_loop ::
    "'p part_prims \<Rightarrow> HistoryMsgType \<Rightarrow> u8 \<Rightarrow> nat \<Rightarrow> nat \<Rightarrow> 'p \<Rightarrow> (unit, nat option, 'p) outcome" where
  "hs_claim_loop P kind conv_hash region 0 p = Some (Inr None, p)"
| "hs_claim_loop P kind conv_hash region (Suc k) p =
     and_then (hs_active_sector P region p) (\<lambda>a p.
       if a = None
       then and_then (hs_claim_region P region kind conv_hash p) (\<lambda>_ p. Some (Inr (Some region), p))
       else hs_claim_loop P kind conv_hash (Suc region) k p)"

definition hs_find_or_claim_region ::
    "'p part_prims \<Rightarrow> HistoryMsgType \<Rightarrow> u8 \<Rightarrow> 'p \<Rightarrow> (unit, nat option, 'p) outcome" where
  "hs_find_or_claim_region P kind conv_hash p =
     and_then (hs_find_claimed_region P kind conv_hash p) (\<lambda>f p.
       case f of
         Some region \<Rightarrow> Some (Inr (Some region), p)
       | None \<Rightarrow> hs_claim_loop P kind conv_hash 0 MAX_CONVERSATION_REGIONS p)"

section \<open>Compaction\<close>

text \<open>The entries of the slots \<open>slot ..< slot + k\<close> that decode, put into the buffer from index \<open>n\<close>.\<close>

fun hs_gather ::
    "'p part_prims \<Rightarrow> nat \<Rightarrow> nat \<Rightarrow> nat \<Rightarrow> nat \<Rightarrow> DecodedSlot option list \<Rightarrow> nat \<Rightarrow> 'p \<Rightarrow>
     (unit, DecodedSlot option list \<times> nat, 'p) outcome" where
  "hs_gather P region sector slot 0 live n p = Some (Inr (live, n), p)"
| "hs_gather P region sector slot (Suc k) live n p =
     and_then (hs_read_slot P region sector slot p) (\<lambda>blob p. do {
       d \<leftarrow> decode_slot blob;
       (case d of
          Some triple \<Rightarrow> do {
            live \<leftarrow> set_at live n (Some triple);
            hs_gather P region sector (Suc slot) k live (n + 1) p
          }
        | None \<Rightarrow> hs_gather P region sector (Suc slot) k live n p)
     })"

fun hs_copy :: "'p part_prims \<Rightarrow> nat \<Rightarrow> nat \<Rightarrow> nat \<Rightarrow> DecodedSlot option list \<Rightarrow> 'p \<Rightarrow> (unit, unit, 'p) outcome" where
  "hs_copy P region spare i [] p = Some (Inr (), p)"
| "hs_copy P region spare i (None # rest) p = hs_copy P region spare (Suc i) rest p"
| "hs_copy P region spare i (Some t # rest) p =
     and_then (hs_write_slot P region spare i t p) (\<lambda>_ p. hs_copy P region spare (Suc i) rest p)"

definition hs_rewrite_region ::
    "'p part_prims \<Rightarrow> nat \<Rightarrow> nat \<Rightarrow> RegionHeader \<Rightarrow> DecodedSlot option list \<Rightarrow> 'p \<Rightarrow> (unit, unit, 'p) outcome" where
  "hs_rewrite_region P region active header entries p =
     (let spare = 1 - active in
      and_then (hs_erase_sector P region spare p) (\<lambda>_ p.
      and_then (hs_copy P region spare 0 entries p) (\<lambda>_ p.
      and_then (hs_write_header P region spare \<lparr>rh_kind = rh_kind header, rh_conv_hash = rh_conv_hash header,
          rh_generation = rh_generation header + 1\<rparr> p) (\<lambda>_ p.
        hs_erase_sector P region active p))))"

text \<open>The window \<open>head.saturating_sub(MAX_HISTORY_ENTRIES)..head\<close> of a sector.\<close>

definition hs_live_window ::
    "'p part_prims \<Rightarrow> nat \<Rightarrow> nat \<Rightarrow> 'p \<Rightarrow> (unit, DecodedSlot option list \<times> nat, 'p) outcome" where
  "hs_live_window P region active p =
     and_then (hs_find_write_head P region active p) (\<lambda>head p.
       let start = head - MAX_HISTORY_ENTRIES in
       hs_gather P region active start (head - start) (replicate MAX_HISTORY_ENTRIES None) 0 p)"

definition hs_compact :: "'p part_prims \<Rightarrow> nat \<Rightarrow> nat \<Rightarrow> RegionHeader \<Rightarrow> 'p \<Rightarrow> (unit, unit, 'p) outcome" where
  "hs_compact P region active header p =
     and_then (hs_live_window P region active p) (\<lambda>(live, n) p. do {
       entries \<leftarrow> slice live 0 n;
       hs_rewrite_region P region active header entries p
     })"

section \<open>The public operations\<close>

definition hs_mark_last_ours_acked ::
    "'p part_prims \<Rightarrow> HistoryMsgType \<Rightarrow> u8 \<Rightarrow> 'p \<Rightarrow> (HistoryStoreError, bool, 'p) outcome" where
  "hs_mark_last_ours_acked P kind conv_hash p =
     esp (and_then (hs_find_claimed_region P kind conv_hash p) (\<lambda>f p.
       case f of
         None \<Rightarrow> Some (Inr False, p)
       | Some region \<Rightarrow>
           and_then (hs_active_sector P region p) (\<lambda>a p.
             case a of
               None \<Rightarrow> panic
             | Some (active, header) \<Rightarrow>
                 and_then (hs_live_window P region active p) (\<lambda>(live, n) p. do {
                   entries \<leftarrow> slice live 0 n;
                   (case find_newest_ours_unacked entries of
                      None \<Rightarrow> Some (Inr False, p)
                    | Some idx \<Rightarrow> do {
                        t \<leftarrow> get_at live idx;
                        live \<leftarrow> (case t of
                          Some (entry, is_ours, _) \<Rightarrow> set_at live idx (Some (entry, is_ours, True))
                        | None \<Rightarrow> Some live);
                        entries \<leftarrow> slice live 0 n;
                        and_then (hs_rewrite_region P region active header entries p) (\<lambda>_ p. Some (Inr True, p))
                      })
                 }))))"

text \<open>\<open>append_conversation\<close> once its region is known.\<close>

definition hs_append_region :: "'p part_prims \<Rightarrow> nat \<Rightarrow> DecodedSlot \<Rightarrow> 'p \<Rightarrow> (unit, unit, 'p) outcome" where
  "hs_append_region P region t p =
     and_then (hs_active_sector P region p) (\<lambda>a p.
       case a of
         None \<Rightarrow> panic
       | Some (active, header) \<Rightarrow>
           and_then (hs_find_write_head P region active p) (\<lambda>head p.
           and_then (if head \<ge> SLOTS_PER_SECTOR then
               and_then (hs_compact P region active header p) (\<lambda>_ p.
               and_then (hs_active_sector P region p) (\<lambda>a p.
                 case a of
                   None \<Rightarrow> panic
                 | Some (active, _) \<Rightarrow>
                     and_then (hs_find_write_head P region active p) (\<lambda>head p. Some (Inr (active, head), p))))
             else Some (Inr (active, head), p)) (\<lambda>(active, head) p.
             hs_write_slot P region active head t p)))"

definition hs_append_conversation ::
    "'p part_prims \<Rightarrow> HistoryMsgType \<Rightarrow> u8 \<Rightarrow> HistoryEntry \<Rightarrow> bool \<Rightarrow> bool \<Rightarrow> 'p \<Rightarrow>
     (HistoryStoreError, unit, 'p) outcome" where
  "hs_append_conversation P kind conv_hash entry is_ours acked p =
     and_then (esp (hs_find_or_claim_region P kind conv_hash p)) (\<lambda>f p.
       case f of
         None \<Rightarrow> Some (Inl HSE_DirectoryFull, p)
       | Some region \<Rightarrow> esp (hs_append_region P region (entry, is_ours, acked) p))"

definition hs_append :: "'p part_prims \<Rightarrow> HistoryEntry \<Rightarrow> 'p \<Rightarrow> (HistoryStoreError, unit, 'p) outcome" where
  "hs_append P entry p = hs_append_conversation P (he_msg_type entry) (he_sender_hash entry) entry False True p"

text \<open>The entries of the slots that decode, in order.\<close>

fun hs_collect ::
    "'p part_prims \<Rightarrow> nat \<Rightarrow> nat \<Rightarrow> nat \<Rightarrow> nat \<Rightarrow> 'p \<Rightarrow> (unit, DecodedSlot list, 'p) outcome" where
  "hs_collect P region sector slot 0 p = Some (Inr [], p)"
| "hs_collect P region sector slot (Suc k) p =
     and_then (hs_read_slot P region sector slot p) (\<lambda>blob p. do {
       d \<leftarrow> decode_slot blob;
       and_then (hs_collect P region sector (Suc slot) k p) (\<lambda>rest p.
         Some (Inr (case d of Some t \<Rightarrow> t # rest | None \<Rightarrow> rest), p))
     })"

fun hs_load_loop ::
    "'p part_prims \<Rightarrow> nat \<Rightarrow> nat \<Rightarrow> 'p \<Rightarrow> (unit, (HistoryMsgType \<times> u8 \<times> DecodedSlot list) list, 'p) outcome" where
  "hs_load_loop P region 0 p = Some (Inr [], p)"
| "hs_load_loop P region (Suc k) p =
     and_then (hs_active_sector P region p) (\<lambda>a p.
       case a of
         None \<Rightarrow> hs_load_loop P (Suc region) k p
       | Some (active, header) \<Rightarrow>
           and_then (hs_find_write_head P region active p) (\<lambda>head p.
           let start = head - MAX_HISTORY_ENTRIES in
           and_then (hs_collect P region active start (head - start) p) (\<lambda>entries p.
           and_then (hs_load_loop P (Suc region) k p) (\<lambda>rest p.
             Some (Inr ((rh_kind header, rh_conv_hash header, entries) # rest), p)))))"

definition hs_load_all_conversations ::
    "'p part_prims \<Rightarrow> 'p \<Rightarrow> (unit, (HistoryMsgType \<times> u8 \<times> DecodedSlot list) list, 'p) outcome" where
  "hs_load_all_conversations P p = hs_load_loop P 0 MAX_CONVERSATION_REGIONS p"

text \<open>An operation on the partition alone, run beside another state.\<close>

definition beside :: "('p \<Rightarrow> ('e, 'a, 'p) outcome) \<Rightarrow> 'o \<times> 'p \<Rightarrow> ('e, 'a, 'o \<times> 'p) outcome" where
  "beside m op = map_option (\<lambda>(r, p). (r, fst op, p)) (m (snd op))"

text \<open>\<open>export_entries\<close>: the callback gets the running index, saturating at 255, the entry and whose it is.  It
  works on a state \<open>o\<close> of its own, here beside the partition.\<close>

fun hs_export_slots ::
    "'p part_prims \<Rightarrow> (u8 \<Rightarrow> HistoryEntry \<Rightarrow> bool \<Rightarrow> 'o \<Rightarrow> 'o rust) \<Rightarrow> nat \<Rightarrow> nat \<Rightarrow> nat \<Rightarrow> nat \<Rightarrow> u8 \<Rightarrow> 'o \<times> 'p \<Rightarrow>
     (unit, u8, 'o \<times> 'p) outcome" where
  "hs_export_slots P cb region sector slot 0 idx op = Some (Inr idx, op)"
| "hs_export_slots P cb region sector slot (Suc k) idx op =
     and_then (beside (hs_read_slot P region sector slot) op) (\<lambda>blob op. do {
       d \<leftarrow> decode_slot blob;
       (case d of
          Some (entry, is_ours, _) \<Rightarrow> do {
            c \<leftarrow> cb idx entry is_ours (fst op);
            hs_export_slots P cb region sector (Suc slot) k (if idx = 255 then 255 else idx + 1) (c, snd op)
          }
        | None \<Rightarrow> hs_export_slots P cb region sector (Suc slot) k idx op)
     })"

fun hs_export_loop ::
    "'p part_prims \<Rightarrow> (u8 \<Rightarrow> HistoryEntry \<Rightarrow> bool \<Rightarrow> 'o \<Rightarrow> 'o rust) \<Rightarrow> nat \<Rightarrow> nat \<Rightarrow> u8 \<Rightarrow> 'o \<times> 'p \<Rightarrow>
     (unit, u8, 'o \<times> 'p) outcome" where
  "hs_export_loop P cb region 0 idx op = Some (Inr idx, op)"
| "hs_export_loop P cb region (Suc k) idx op =
     and_then (beside (hs_active_sector P region) op) (\<lambda>a op.
       case a of
         None \<Rightarrow> hs_export_loop P cb (Suc region) k idx op
       | Some (active, _) \<Rightarrow>
           and_then (beside (hs_find_write_head P region active) op) (\<lambda>head op.
           let start = head - MAX_HISTORY_ENTRIES in
           and_then (hs_export_slots P cb region active start (head - start) idx op) (\<lambda>idx op.
             hs_export_loop P cb (Suc region) k idx op)))"

definition hs_export_entries ::
    "'p part_prims \<Rightarrow> (u8 \<Rightarrow> HistoryEntry \<Rightarrow> bool \<Rightarrow> 'o \<Rightarrow> 'o rust) \<Rightarrow> 'o \<times> 'p \<Rightarrow> (unit, u8, 'o \<times> 'p) outcome" where
  "hs_export_entries P cb op = hs_export_loop P cb 0 MAX_CONVERSATION_REGIONS 0 op"

fun hs_clear_sectors :: "'p part_prims \<Rightarrow> nat \<Rightarrow> nat \<Rightarrow> nat \<Rightarrow> 'p \<Rightarrow> (unit, unit, 'p) outcome" where
  "hs_clear_sectors P region sector 0 p = Some (Inr (), p)"
| "hs_clear_sectors P region sector (Suc k) p =
     and_then (hs_erase_sector P region sector p) (\<lambda>_ p. hs_clear_sectors P region (Suc sector) k p)"

fun hs_clear_regions :: "'p part_prims \<Rightarrow> nat \<Rightarrow> nat \<Rightarrow> 'p \<Rightarrow> (unit, unit, 'p) outcome" where
  "hs_clear_regions P region 0 p = Some (Inr (), p)"
| "hs_clear_regions P region (Suc k) p =
     and_then (hs_clear_sectors P region 0 SECTORS_PER_REGION p) (\<lambda>_ p. hs_clear_regions P (Suc region) k p)"

definition hs_clear_all :: "'p part_prims \<Rightarrow> 'p \<Rightarrow> (unit, unit, 'p) outcome" where
  "hs_clear_all P p = hs_clear_regions P 0 MAX_CONVERSATION_REGIONS p"

section \<open>Migration of the store on NVS\<close>

definition LEGACY_NVS_NAMESPACE :: string where
  "LEGACY_NVS_NAMESPACE = ''mc_hist''"

definition LEGACY_KEY_HEAD :: bytes where
  "LEGACY_KEY_HEAD = ascii ''head''"

definition LEGACY_KEY_CNT :: bytes where
  "LEGACY_KEY_CNT = ascii ''cnt''"

definition LEGACY_KEY_MIGRATED :: bytes where
  "LEGACY_KEY_MIGRATED = ascii ''migrated''"

definition legacy_slot_key :: "nat \<Rightarrow> bytes" where
  "legacy_slot_key slot = [0x73, 0x30 + of_nat (slot div 10), 0x30 + of_nat (slot mod 10)]"

text \<open>One byte buffer serves both reads; a stored empty blob leaves it as it was.\<close>

definition read_legacy_meta :: "'s nvs_prims \<Rightarrow> 's \<Rightarrow> unit + u8 \<times> u8" where
  "read_legacy_meta N s =
     (case get_blob N s LEGACY_NVS_NAMESPACE LEGACY_KEY_HEAD 1 of
        Inl e \<Rightarrow> Inl e
      | Inr h \<Rightarrow>
          (let buf = (case h of Some (b # _) \<Rightarrow> b | _ \<Rightarrow> 0);
               head = (if h = None then 0 else min buf (of_nat (MAX_HISTORY_ENTRIES - 1))) in
           case get_blob N s LEGACY_NVS_NAMESPACE LEGACY_KEY_CNT 1 of
             Inl e \<Rightarrow> Inl e
           | Inr c \<Rightarrow>
               (let buf = (case c of Some (b # _) \<Rightarrow> b | _ \<Rightarrow> buf);
                    cnt = (if c = None then 0 else min buf (of_nat MAX_HISTORY_ENTRIES)) in
                Inr (head, cnt))))"

fun migrate_loop ::
    "'s nvs_prims \<Rightarrow> 'p part_prims \<Rightarrow> nat \<Rightarrow> nat \<Rightarrow> nat \<Rightarrow> 's \<times> 'p \<Rightarrow> (HistoryStoreError, unit, 's \<times> 'p) outcome" where
  "migrate_loop N P oldest_slot i 0 sp = Some (Inr (), sp)"
| "migrate_loop N P oldest_slot i (Suc k) sp =
     (let slot = (oldest_slot + i) mod MAX_HISTORY_ENTRIES in
      case get_blob N (fst sp) LEGACY_NVS_NAMESPACE (legacy_slot_key slot) HISTORY_ENTRY_BLOB_LEN of
        Inl _ \<Rightarrow> Some (Inl HSE_Esp, sp)
      | Inr None \<Rightarrow> migrate_loop N P oldest_slot (Suc i) k sp
      | Inr (Some b) \<Rightarrow> do {
          let raw = b @ zeros (HISTORY_ENTRY_BLOB_LEN - length b);
          d \<leftarrow> decode_entry_blob raw;
          (case d of
             None \<Rightarrow> migrate_loop N P oldest_slot (Suc i) k sp
           | Some entry \<Rightarrow> do {
               (_, sp) \<leftarrow> beside (hs_append P entry) sp;
               migrate_loop N P oldest_slot (Suc i) k sp
             })
        })"

definition migrate_legacy_nvs_once ::
    "'s nvs_prims \<Rightarrow> 'p part_prims \<Rightarrow> 's \<times> 'p \<Rightarrow> (HistoryStoreError, unit, 's \<times> 'p) outcome" where
  "migrate_legacy_nvs_once N P sp =
     (let s = fst sp in
      if \<not> nvs_open N s LEGACY_NVS_NAMESPACE then Some (Inl HSE_Esp, sp)
      else case get_blob N s LEGACY_NVS_NAMESPACE LEGACY_KEY_MIGRATED 1 of
        Inl _ \<Rightarrow> Some (Inl HSE_Esp, sp)
      | Inr marker \<Rightarrow>
          if (case marker of Some (b # _) \<Rightarrow> b \<noteq> 0 | _ \<Rightarrow> False) then Some (Inr (), sp)
          else (case read_legacy_meta N s of
             Inl _ \<Rightarrow> Some (Inl HSE_Esp, sp)
           | Inr (head, cnt) \<Rightarrow>
               (let count = unat cnt; oldest_slot = (if count < MAX_HISTORY_ENTRIES then 0 else unat head) in
                and_then (migrate_loop N P oldest_slot 0 count sp) (\<lambda>_ sp.
                  map_option (\<lambda>(r, s). (map_sum (\<lambda>_. HSE_Esp) id r, s, snd sp))
                    (nvs_set N LEGACY_NVS_NAMESPACE LEGACY_KEY_MIGRATED (NvBlob [1]) (fst sp))))))"

section \<open>The sectors of the partition\<close>

lemma same_outside_nth:
  assumes "same_outside off n a b" "i < off \<or> off + n \<le> i" "i < length a"
  shows "b ! i = a ! i"
proof -
  have len: "length b = length a" and t: "take off b = take off a" and d: "drop (off + n) b = drop (off + n) a"
    using assms(1) by (simp_all add: same_outside_def)
  show ?thesis
  proof (cases "i < off")
    case True
    then show ?thesis
      using arg_cong [OF t, of "\<lambda>xs. xs ! i"] by simp
  next
    case False
    then show ?thesis
      using arg_cong [OF d, of "\<lambda>xs. xs ! (i - (off + n))"] assms(2,3) len by simp
  qed
qed

lemma same_outside_apart:
  assumes "same_outside off n a b" "o' + m \<le> length a" "o' + m \<le> off \<or> off + n \<le> o'"
  shows "take m (drop o' b) = take m (drop o' a)"
proof (rule nth_equalityI)
  show "length (take m (drop o' b)) = length (take m (drop o' a))"
    using assms(1) by (simp add: same_outside_def)
  show "take m (drop o' b) ! i = take m (drop o' a) ! i" if "i < length (take m (drop o' b))" for i
    using that assms same_outside_nth [OF assms(1), of "o' + i"] by (auto simp: same_outside_def)
qed

lemma same_outside_inside:
  assumes "same_outside off n a b" "o' + m \<le> length a" "o' \<le> off" "off + n \<le> o' + m"
  shows "take m (drop o' b) = take (off - o') (take m (drop o' a)) @ take n (drop off b) @ drop (off - o' + n) (take m (drop o' a))"
proof -
  obtain d f e where off: "off = o' + d" and m: "m = d + n + f" and la: "length a = o' + (d + n + f) + e"
    using assms(2-4) by (metis add.assoc le_Suc_ex le_add_diff_inverse nat_add_left_cancel_le)
  have lb: "length b = length a"
    using assms(1) by (simp add: same_outside_def)
  show ?thesis
  proof (rule nth_equalityI)
    show "length (take m (drop o' b)) = length (take (off - o') (take m (drop o' a)) @ take n (drop off b) @ drop (off - o' + n) (take m (drop o' a)))"
      by (simp add: off m lb la)
    fix i assume i: "i < length (take m (drop o' b))"
    then have im: "i < d + n + f"
      by (simp add: m)
    show "take m (drop o' b) ! i
        = (take (off - o') (take m (drop o' a)) @ take n (drop off b) @ drop (off - o' + n) (take m (drop o' a))) ! i"
    proof (cases "i < d \<or> d + n \<le> i")
      case True
      then show ?thesis
        using im same_outside_nth [OF assms(1), of "o' + i"] by (auto simp: nth_append off m lb la)
    next
      case False
      then show ?thesis
        using im by (auto simp: nth_append off m lb la)
    qed
  qed
qed

definition secs :: "'p part_prims \<Rightarrow> 'p \<Rightarrow> nat \<Rightarrow> nat \<Rightarrow> bytes" where
  "secs P p r s = take 4096 (drop (r * 8192 + s * 4096) (part_bytes P p))"

text \<open>The partition is large enough for every region.\<close>

definition hs_flash :: "'p part_prims \<Rightarrow> 'p \<Rightarrow> bool" where
  "hs_flash P p \<longleftrightarrow> part_ok P \<and> MAX_CONVERSATION_REGIONS * REGION_SIZE \<le> length (part_bytes P p)"

text \<open>Only sector \<open>s\<close> of region \<open>r\<close> may differ.\<close>

definition only_sector :: "'p part_prims \<Rightarrow> nat \<Rightarrow> nat \<Rightarrow> 'p \<Rightarrow> 'p \<Rightarrow> bool" where
  "only_sector P r s p p' \<longleftrightarrow> hs_flash P p'
     \<and> (\<forall>r' s'. r' < 24 \<longrightarrow> s' < 2 \<longrightarrow> \<not> (r' = r \<and> s' = s) \<longrightarrow> secs P p' r' s' = secs P p r' s')"

lemma sector_offset_eq: "sector_offset r s = r * 8192 + s * 4096"
  by (simp add: sector_offset_def region_offset_def REGION_SIZE_def SECTOR_SIZE_def SECTORS_PER_REGION_def)

lemma hs_flash_size: "hs_flash P p \<Longrightarrow> r < 24 \<Longrightarrow> s < 2 \<Longrightarrow> r * 8192 + s * 4096 + 4096 \<le> length (part_bytes P p)"
  by (simp add: hs_flash_def MAX_CONVERSATION_REGIONS_def REGION_SIZE_def SECTOR_SIZE_def SECTORS_PER_REGION_def)

lemma length_secs [simp]: "hs_flash P p \<Longrightarrow> r < 24 \<Longrightarrow> s < 2 \<Longrightarrow> length (secs P p r s) = 4096"
  using hs_flash_size [of P p r s] by (simp add: secs_def)

lemma same_outside_sectors:
  assumes "hs_flash P p" "r < 24" "s < 2" "off + n \<le> 4096"
    and so: "same_outside (r * 8192 + s * 4096 + off) n (part_bytes P p) (part_bytes P p')"
  shows "only_sector P r s p p'"
    "secs P p' r s = take off (secs P p r s) @ take n (drop (r * 8192 + s * 4096 + off) (part_bytes P p'))
       @ drop (off + n) (secs P p r s)"
proof -
  have "secs P p' r' s' = secs P p r' s'" if rs: "r' < 24" "s' < 2" "\<not> (r' = r \<and> s' = s)" for r' s'
  proof -
    have "r' * 8192 + s' * 4096 + 4096 \<le> r * 8192 + s * 4096 \<or> r * 8192 + s * 4096 + 4096 \<le> r' * 8192 + s' * 4096"
      using rs assms(2,3) by (cases "r' = r"; cases "r' < r") (auto simp: less_2_cases_iff)
    then show ?thesis
      unfolding secs_def using assms(4) hs_flash_size [OF assms(1) rs(1,2)]
      by (intro same_outside_apart [OF so]) auto
  qed
  moreover have "hs_flash P p'"
    using assms(1) so by (simp add: hs_flash_def same_outside_def)
  ultimately show "only_sector P r s p p'"
    by (simp add: only_sector_def)
  show "secs P p' r s = take off (secs P p r s) @ take n (drop (r * 8192 + s * 4096 + off) (part_bytes P p'))
       @ drop (off + n) (secs P p r s)"
    using same_outside_inside [OF so, of "r * 8192 + s * 4096" 4096] hs_flash_size [OF assms(1-3)] assms(4)
    by (simp add: secs_def)
qed

lemma owp_flash_read:
  assumes "hs_flash P p" "r < 24" "s < 2" "off + n \<le> 4096"
  shows "owp (flash_read P (sector_offset r s + off) n p) (\<lambda>b p'. p' = p \<and> slice (secs P p r s) off (off + n) = Some b) (\<lambda>_ p'. \<not> part_works P \<and> p' = p)"
proof -
  let ?o = "r * 8192 + s * 4096"
  have "?o + off + n \<le> length (part_bytes P p)"
    using hs_flash_size [OF assms(1-3)] assms(4) by simp
  then consider "part_read P p (?o + off) n = Inl ()"
    | "part_read P p (?o + off) n = Inr (take n (drop (?o + off) (part_bytes P p)))"
    using assms(1) by (auto simp: hs_flash_def part_ok_def)
  moreover have "\<not> part_works P" if "part_read P p (?o + off) n = Inl ()"
    using \<open>?o + off + n \<le> length (part_bytes P p)\<close> that unfolding part_works_def by blast
  moreover have "slice (secs P p r s) off (off + n) = Some (take n (drop (?o + off) (part_bytes P p)))"
    using assms by (simp add: slice_def, simp add: secs_def drop_take add.commute)
  ultimately show ?thesis
    by cases (simp_all add: flash_read_def owp_simps sector_offset_eq)
qed

lemma and_0xFF: "0xFF AND w = w" for w :: u8
proof -
  have "(0xFF :: u8) = - 1"
    by simp
  then show ?thesis
    by (simp only: and.left_neutral)
qed

lemma owp_flash_write:
  assumes "hs_flash P p" "r < 24" "s < 2" "off + length b \<le> 4096"
    and blank: "take (length b) (drop off (secs P p r s)) = replicate (length b) 0xFF"
  shows "owp (flash_write P (sector_offset r s + off) b p)
    (\<lambda>_ p'. only_sector P r s p p' \<and> Some (secs P p' r s) = copy_into (secs P p r s) off b)
    (\<lambda>_ p'. \<not> part_works P \<and> only_sector P r s p p')"
proof -
  let ?o = "r * 8192 + s * 4096"
  obtain w p' where w: "part_write P p (?o + off) b = (w, p')"
    by (cases "part_write P p (?o + off) b")
  have size: "?o + off + length b \<le> length (part_bytes P p)"
    using hs_flash_size [OF assms(1-3)] assms(4) by simp
  then have so: "same_outside (?o + off) (length b) (part_bytes P p) (part_bytes P p')"
    and val: "w \<Longrightarrow> take (length b) (drop (?o + off) (part_bytes P p'))
       = map2 (AND) (take (length b) (drop (?o + off) (part_bytes P p))) b"
    using assms(1) w unfolding hs_flash_def part_ok_def by blast+
  have fail: "\<not> part_works P" if "\<not> w"
    using size w that unfolding part_works_def by (metis fst_conv)
  have "take (length b) (drop (?o + off) (part_bytes P p)) = replicate (length b) 0xFF"
  proof -
    have "length b \<le> 4096 - off"
      using assms(4) by simp
    then show ?thesis
      using blank by (simp add: secs_def drop_take min_absorb1 add.commute)
  qed
  moreover have "map2 (AND) (replicate (length b) 0xFF) b = b"
  proof (rule nth_equalityI)
    show "map2 (AND) (replicate (length b) 0xFF) b ! i = b ! i" if "i < length (map2 (AND) (replicate (length b) 0xFF) b)" for i
      using that and_0xFF by simp
  qed simp
  ultimately show ?thesis
    using same_outside_sectors [OF assms(1-4) so] val assms(1-4) fail
    by (auto simp: flash_write_def w sector_offset_eq owp_simps copy_into_def)
qed

lemma owp_flash_erase:
  assumes "hs_flash P p" "r < 24" "s < 2"
  shows "owp (hs_erase_sector P r s p)
    (\<lambda>_ p'. only_sector P r s p p' \<and> secs P p' r s = erased) (\<lambda>_ p'. \<not> part_works P \<and> only_sector P r s p p')"
proof -
  let ?o = "r * 8192 + s * 4096"
  obtain w p' where w: "part_erase P p ?o 4096 = (w, p')"
    by (cases "part_erase P p ?o 4096")
  have size: "?o + 4096 \<le> length (part_bytes P p)"
    using hs_flash_size [OF assms] by simp
  then have so: "same_outside ?o 4096 (part_bytes P p) (part_bytes P p')"
    and val: "w \<Longrightarrow> take 4096 (drop ?o (part_bytes P p')) = replicate 4096 0xFF"
    using assms(1) w unfolding hs_flash_def part_ok_def by blast+
  have fail: "\<not> part_works P" if "\<not> w"
    using size w that unfolding part_works_def by (metis fst_conv)
  show ?thesis
    using same_outside_sectors(1) [OF assms, of 0 4096] so val fail
    by (auto simp: hs_erase_sector_def flash_erase_def w sector_offset_eq owp_simps secs_def erased_def SECTOR_SIZE_def)
qed

section \<open>Reading regions\<close>

text \<open>A region of the partition as the in-memory region of the protocol crate.\<close>

definition region_at :: "'p part_prims \<Rightarrow> 'p \<Rightarrow> nat \<Rightarrow> HistoryRegion" where
  "region_at P p r = \<lparr>hr_sectors = [secs P p r 0, secs P p r 1]\<rparr>"

lemma sector_region_at: "s < 2 \<Longrightarrow> sector_is (region_at P p r) s (secs P p r s)"
  by (auto simp: sector_is_def region_at_def less_2_cases_iff)

lemma region_at_get [simp]: "s < 2 \<Longrightarrow> get_at (hr_sectors (region_at P p r)) s = Some (secs P p r s)"
  by (rule sector_is_get [OF sector_region_at])

text \<open>A read fails or gives \<open>v\<close>, and leaves the partition as it is.\<close>

definition reads :: "'p part_prims \<Rightarrow> (unit, 'a, 'p) outcome \<Rightarrow> 'a \<Rightarrow> 'p \<Rightarrow> bool" where
  "reads P m v p \<longleftrightarrow> m = Some (Inl (), p) \<and> \<not> part_works P \<or> m = Some (Inr v, p)"

lemma reads_and_then: "reads P m v p \<Longrightarrow> reads P (f v p) w p \<Longrightarrow> reads P (and_then m f) w p"
  by (auto simp: reads_def)

lemma reads_value: "v = w \<Longrightarrow> reads P (Some (Inr v, p)) w p"
  by (simp add: reads_def)

lemma owp_reads: "reads P m v p \<Longrightarrow> E () p \<Longrightarrow> Q v p \<Longrightarrow> owp m Q E"
  by (auto simp: reads_def owp_simps)

lemma owp_reads_works: "reads P m v p \<Longrightarrow> E () p \<or> part_works P \<Longrightarrow> Q v p \<Longrightarrow> owp m Q E"
  by (auto simp: reads_def owp_simps)

lemma reads_flash:
  assumes "hs_flash P p" "r < 24" "s < 2" "off + n \<le> 4096"
  shows "reads P (flash_read P (sector_offset r s + off) n p) (take n (drop off (secs P p r s))) p"
proof (rule owpE [OF owp_flash_read [OF assms]])
  fix b p' assume "flash_read P (sector_offset r s + off) n p = Some (Inr b, p')"
    "p' = p \<and> slice (secs P p r s) off (off + n) = Some b"
  then show ?thesis
    by (auto simp: reads_def slice_def split: if_splits)
qed (simp add: reads_def)

lemma reads_header:
  assumes "hs_flash P p" "r < 24" "s < 2"
  shows "reads P (hs_read_header P r s p) (decode_region_header (take 8 (secs P p r s))) p"
  unfolding hs_read_header_def REGION_HEADER_LEN_def
  using reads_flash [OF assms, of 0 8] by (auto intro!: reads_and_then reads_value)

lemma header_of_region_at:
  "hs_flash P p \<Longrightarrow> r < 24 \<Longrightarrow> s < 2 \<Longrightarrow> header_of (region_at P p r) s = Some (decode_region_header (take 8 (secs P p r s)))"
  by (rule header_of_sector [OF sector_region_at]) simp_all

text \<open>The active sector with its header, as the firmware finds it.\<close>

definition active_of :: "'p part_prims \<Rightarrow> 'p \<Rightarrow> nat \<Rightarrow> (nat \<times> RegionHeader) option" where
  "active_of P p r = (case (decode_region_header (take 8 (secs P p r 0)), decode_region_header (take 8 (secs P p r 1))) of
     (Some a, Some b) \<Rightarrow> if generation_is_newer (rh_generation b) (rh_generation a) then Some (1, b) else Some (0, a)
   | (Some a, None) \<Rightarrow> Some (0, a)
   | (None, Some b) \<Rightarrow> Some (1, b)
   | (None, None) \<Rightarrow> None)"

lemma reads_active:
  assumes "hs_flash P p" "r < 24"
  shows "reads P (hs_active_sector P r p) (active_of P p r) p"
  unfolding hs_active_sector_def active_of_def
  using reads_header [OF assms, of 0] reads_header [OF assms, of 1]
  by (auto intro!: reads_and_then reads_value)

lemma active_of_region:
  assumes "hs_flash P p" "r < 24"
  shows "active_sector_index (region_at P p r) = Some (map_option fst (active_of P p r))"
    "region_header (region_at P p r) = Some (map_option snd (active_of P p r))"
    "is_claimed (region_at P p r) = Some (active_of P p r \<noteq> None)"
  using header_of_region_at [OF assms, of 0] header_of_region_at [OF assms, of 1]
  by (auto simp: active_sector_index_def region_header_def is_claimed_def active_of_def split: option.split)

lemma reads_head_loop:
  assumes "hs_flash P p" "r < 24" "s < 2" "i + k \<le> 56"
  shows "\<exists>h \<le> 56. reads P (hs_head_loop P r s i k p) h p \<and> write_head_loop (secs P p r s) k i = Some h"
  using assms(4)
proof (induction k arbitrary: i)
  case (Suc k)
  have bound: "slot_offset i + 72 \<le> 4096"
    using Suc.prems by (simp add: slot_offset_eq)
  have blob: "reads P (hs_read_slot P r s i p) (take 72 (drop (slot_offset i) (secs P p r s))) p"
    unfolding hs_read_slot_def slot_abs_offset_def HISTORY_ENTRY_BLOB_LEN_def
    by (rule reads_flash [OF assms(1-3) bound])
  obtain h where h: "reads P (hs_head_loop P r s (Suc i) k p) h p" "write_head_loop (secs P p r s) k (Suc i) = Some h" "h \<le> 56"
    using Suc.IH [of "Suc i"] Suc.prems by auto
  let ?b = "take 72 (drop (slot_offset i) (secs P p r s))"
  show ?case
  proof (intro exI conjI)
    show "(if list_all (\<lambda>b. b = 0xFF) ?b then i else h) \<le> 56"
      using h(3) Suc.prems by simp
    show "reads P (hs_head_loop P r s i (Suc k) p) (if list_all (\<lambda>b. b = 0xFF) ?b then i else h) p"
      using h(1) by (auto intro!: reads_and_then [OF blob] reads_value)
    show "write_head_loop (secs P p r s) (Suc k) i = Some (if list_all (\<lambda>b. b = 0xFF) ?b then i else h)"
      using h(2) bound assms(1-3) by (simp add: HISTORY_ENTRY_BLOB_LEN_def slice_def)
  qed
qed (auto intro: reads_value)

lemma reads_write_head:
  assumes "hs_flash P p" "r < 24" "s < 2"
  shows "\<exists>h \<le> 56. reads P (hs_find_write_head P r s p) h p \<and> write_head (region_at P p r) s = Some h"
  using reads_head_loop [OF assms, of 0 56] assms(3)
  by (simp add: hs_find_write_head_def write_head_def find_write_head_def)

lemma reads_slot:
  assumes "hs_flash P p" "r < 24" "s < 2" "slot < 56"
  obtains blob where "reads P (hs_read_slot P r s slot p) blob p" "decode_slot_at (region_at P p r) s slot = decode_slot blob"
proof
  have bound: "slot_offset slot + 72 \<le> 4096"
    using assms(4) by (simp add: slot_offset_eq)
  show "reads P (hs_read_slot P r s slot p) (take 72 (drop (slot_offset slot) (secs P p r s))) p"
    unfolding hs_read_slot_def slot_abs_offset_def HISTORY_ENTRY_BLOB_LEN_def
    by (rule reads_flash [OF assms(1-3) bound])
  show "decode_slot_at (region_at P p r) s slot = decode_slot (take 72 (drop (slot_offset slot) (secs P p r s)))"
    using bound assms(1-3) by (simp add: decode_slot_at_def HISTORY_ENTRY_BLOB_LEN_def slice_def)
qed

lemma reads_gather:
  assumes "hs_flash P p" "r < 24" "s < 2" "slot + k \<le> 56"
    and "gather_loop (region_at P p r) s k slot live n = Some v"
  shows "reads P (hs_gather P r s slot k live n p) v p"
  using assms(4,5)
proof (induction k arbitrary: slot live n)
  case (Suc k)
  obtain blob where blob: "reads P (hs_read_slot P r s slot p) blob p"
    and "decode_slot_at (region_at P p r) s slot = decode_slot blob"
    using reads_slot [OF assms(1-3), of slot] Suc.prems(1) by auto
  then show ?case
    using Suc.prems Suc.IH by (auto simp: bind_eq_Some_conv intro!: reads_and_then [OF blob] split: option.splits)
qed (auto intro: reads_value)

lemma reads_live_window:
  assumes "hs_flash P p" "r < 24" "s < 2" "gather_live (region_at P p r) s = Some v"
  shows "reads P (hs_live_window P r s p) v p"
proof -
  obtain h where h: "reads P (hs_find_write_head P r s p) h p" "write_head (region_at P p r) s = Some h" "h \<le> 56"
    using reads_write_head [OF assms(1-3)] by blast
  then show ?thesis
    using assms(4) h(2) unfolding hs_live_window_def gather_live_def
    by (auto simp: Let_def MAX_HISTORY_ENTRIES_def intro!: reads_and_then [OF h(1)] reads_gather [OF assms(1-3)])
qed

section \<open>Writing regions\<close>

definition only_region :: "'p part_prims \<Rightarrow> nat \<Rightarrow> 'p \<Rightarrow> 'p \<Rightarrow> bool" where
  "only_region P r p p' \<longleftrightarrow> hs_flash P p' \<and> (\<forall>r' < 24. r' \<noteq> r \<longrightarrow> region_at P p' r' = region_at P p r')"

lemma only_sector_trans: "only_sector P r s p p' \<Longrightarrow> only_sector P r s p' p'' \<Longrightarrow> only_sector P r s p p''"
  by (auto simp: only_sector_def)

lemma only_sector_flash: "only_sector P r s p p' \<Longrightarrow> hs_flash P p'"
  by (simp add: only_sector_def)

lemma only_sector_other: "only_sector P r s p p' \<Longrightarrow> r < 24 \<Longrightarrow> s' < 2 \<Longrightarrow> s' \<noteq> s \<Longrightarrow> secs P p' r s' = secs P p r s'"
  by (auto simp: only_sector_def)

lemma only_sector_region: "only_sector P r s p p' \<Longrightarrow> only_region P r p p'"
  by (simp add: only_sector_def only_region_def region_at_def)

lemma only_region_trans: "only_region P r p p' \<Longrightarrow> only_region P r p' p'' \<Longrightarrow> only_region P r p p''"
  by (auto simp: only_region_def)

lemma only_region_sector: "only_region P r p p' \<Longrightarrow> only_sector P r s p' p'' \<Longrightarrow> only_region P r p p''"
  by (rule only_region_trans [OF _ only_sector_region])

lemma only_region_flash: "only_region P r p p' \<Longrightarrow> hs_flash P p'"
  by (simp add: only_region_def)

lemma only_region_refl: "hs_flash P p \<Longrightarrow> only_region P r p p"
  by (simp add: only_region_def)

lemma owp_write_slot:
  assumes "hs_flash P p" "r < 24" "s < 2" "secs P p r s = sector_of h es"
    and "length h = 8" "log_ok es" "length es < 56" "wf_slot t"
  shows "owp (hs_write_slot P r s (length es) t p)
    (\<lambda>_ p'. only_sector P r s p p' \<and> secs P p' r s = sector_of h (es @ [t])) (\<lambda>_ p'. \<not> part_works P \<and> only_sector P r s p p')"
proof -
  obtain e o' a where t: "t = (e, o', a)"
    by (cases t)
  have "slice (sector_of h es) (slot_offset (length es)) (slot_offset (length es) + 72) = Some blank_slot"
    using slot_slice [OF wf_sector_of [OF assms(5,6)], of "length es"] assms(7)
    by (simp add: sector_of_def sector_slots_def nth_append)
  then have "take (length (slot_bytes t)) (drop (slot_offset (length es)) (secs P p r s)) = replicate (length (slot_bytes t)) 0xFF"
    using assms(4,8) by (simp add: slice_def split: if_splits)
  then have "owp (flash_write P (sector_offset r s + slot_offset (length es)) (slot_bytes t) p)
      (\<lambda>_ p'. only_sector P r s p p' \<and> Some (secs P p' r s) = copy_into (secs P p r s) (slot_offset (length es)) (slot_bytes t))
      (\<lambda>_ p'. \<not> part_works P \<and> only_sector P r s p p')"
    using assms(7,8) by (intro owp_flash_write [OF assms(1-3)]) (simp_all add: slot_offset_eq)
  then show ?thesis
    using write_next_slot [OF assms(5-8)] encode_slot_spec [of e o' a] assms(4,8)
    by (simp add: hs_write_slot_def t slot_abs_offset_def)
qed

lemma owp_write_header:
  assumes "hs_flash P p" "r < 24" "s < 2" "secs P p r s = sector_of (replicate 8 0xFF) es"
  shows "owp (hs_write_header P r s hdr p)
    (\<lambda>_ p'. only_sector P r s p p' \<and> secs P p' r s = sector_of (encode_region_header hdr) es) (\<lambda>_ p'. \<not> part_works P \<and> only_sector P r s p p')"
proof -
  have "owp (flash_write P (sector_offset r s + 0) (encode_region_header hdr) p)
      (\<lambda>_ p'. only_sector P r s p p' \<and> Some (secs P p' r s) = copy_into (secs P p r s) 0 (encode_region_header hdr))
      (\<lambda>_ p'. \<not> part_works P \<and> only_sector P r s p p')"
    by (rule owp_flash_write [OF assms(1-3)]) (simp_all add: assms(4) take_sector_of)
  then show ?thesis
    using rewrite_header [of "replicate 8 0xFF" "encode_region_header hdr" es] by (simp add: hs_write_header_def assms(4))
qed

lemma owp_copy:
  assumes "r < 24" "s < 2" "length h = 8"
  shows "hs_flash P p \<Longrightarrow> secs P p r s = sector_of h pre \<Longrightarrow> log_ok (pre @ ts) \<Longrightarrow>
    owp (hs_copy P r s (length pre) (map Some ts) p)
      (\<lambda>_ p'. only_sector P r s p p' \<and> secs P p' r s = sector_of h (pre @ ts)) (\<lambda>_ p'. \<not> part_works P \<and> only_sector P r s p p')"
proof (induction ts arbitrary: p pre)
  case Nil
  then show ?case
    by (simp add: owp_simps only_sector_def)
next
  case (Cons t ts)
  have ok: "log_ok pre" "length pre < 56" "wf_slot t"
    using Cons.prems(3) by (auto simp: log_ok_def)
  have w: "owp (hs_write_slot P r s (length pre) t p)
      (\<lambda>_ p'. only_sector P r s p p' \<and> secs P p' r s = sector_of h (pre @ [t])) (\<lambda>_ p'. \<not> part_works P \<and> only_sector P r s p p')"
    by (rule owp_write_slot [OF Cons.prems(1) assms(1,2) Cons.prems(2) assms(3) ok])
  have "owp (hs_copy P r s (Suc (length pre)) (map Some ts) p1)
      (\<lambda>_ p'. only_sector P r s p p' \<and> secs P p' r s = sector_of h (pre @ t # ts)) (\<lambda>_ p'. \<not> part_works P \<and> only_sector P r s p p')"
    if "only_sector P r s p p1 \<and> secs P p1 r s = sector_of h (pre @ [t])" for p1
    using Cons.IH [of p1 "pre @ [t]"] Cons.prems(3) that
    by (auto intro: owp_mono only_sector_trans only_sector_flash)
  then show ?case
    using owp_mono [OF w] by (simp add: owp_simps)
qed

lemma owp_rewrite:
  assumes flash: "hs_flash P p" and r: "r < 24" and rep: "region_repr (region_at P p r) a hdr es sp" and ts: "log_ok ts"
  shows "owp (hs_rewrite_region P r a hdr (map Some ts) p)
    (\<lambda>_ p'. only_region P r p p' \<and> region_repr (region_at P p' r) (1 - a) (next_gen hdr) ts erased)
    (\<lambda>_ p'. \<not> part_works P \<and> only_region P r p p')"
proof -
  have a: "a < 2" "1 - a < 2" "1 - a \<noteq> a" "1 - (1 - a) = a"
    using rep by (auto simp: region_repr_def sector_is_def less_2_cases_iff)
  let ?n = "\<lambda>p'. only_region P r p p'" and ?f = "\<lambda>p'. \<not> part_works P \<and> only_region P r p p'"
  have gen: "\<lparr>rh_kind = rh_kind hdr, rh_conv_hash = rh_conv_hash hdr, rh_generation = rh_generation hdr + 1\<rparr> = next_gen hdr"
    by (cases hdr) (simp add: next_gen_def)
  have e2: "owp (hs_erase_sector P r a p3) (\<lambda>_ p'. ?n p' \<and> region_repr (region_at P p' r) (1 - a) (next_gen hdr) ts erased) (\<lambda>_. ?f)"
    if "?n p3" "secs P p3 r (1 - a) = sector_of (encode_region_header (next_gen hdr)) ts" for p3
  proof (rule owp_mono [OF owp_flash_erase [OF only_region_flash [OF that(1)] r a(1)]])
    fix x p4 assume p4: "only_sector P r a p3 p4 \<and> secs P p4 r a = erased"
    then have "secs P p4 r (1 - a) = sector_of (encode_region_header (next_gen hdr)) ts"
      using that(2) only_sector_other [OF conjunct1 [OF p4] r a(2,3)] by simp
    then have "sector_is (region_at P p4 r) (1 - a) (sector_of (encode_region_header (next_gen hdr)) ts)"
      "sector_is (region_at P p4 r) (1 - (1 - a)) erased"
      using sector_region_at [OF a(2), of P p4 r] sector_region_at [OF a(1), of P p4 r] p4 a(4) by simp_all
    then show "?n p4 \<and> region_repr (region_at P p4 r) (1 - a) (next_gen hdr) ts erased"
      using only_region_trans [OF that(1) only_sector_region [OF conjunct1 [OF p4]]] ts
      by (simp add: region_repr_def erased_def SECTOR_SIZE_def)
  qed (auto intro: only_region_sector [OF that(1)])
  have e1: "owp (hs_write_header P r (1 - a) (next_gen hdr) p2) (\<lambda>_ p3. owp (hs_erase_sector P r a p3)
      (\<lambda>_ p'. ?n p' \<and> region_repr (region_at P p' r) (1 - a) (next_gen hdr) ts erased) (\<lambda>_. ?f)) (\<lambda>_. ?f)"
    if "?n p2" "secs P p2 r (1 - a) = sector_of (replicate 8 0xFF) ts" for p2
    by (rule owp_mono [OF owp_write_header [OF only_region_flash [OF that(1)] r a(2) that(2)]])
      (use e2 only_region_sector [OF that(1)] in blast)+
  have e0: "owp (hs_copy P r (1 - a) 0 (map Some ts) p1) (\<lambda>_ p2. owp (hs_write_header P r (1 - a) (next_gen hdr) p2)
      (\<lambda>_ p3. owp (hs_erase_sector P r a p3)
        (\<lambda>_ p'. ?n p' \<and> region_repr (region_at P p' r) (1 - a) (next_gen hdr) ts erased) (\<lambda>_. ?f)) (\<lambda>_. ?f)) (\<lambda>_. ?f)"
    if "?n p1" "secs P p1 r (1 - a) = erased" for p1
  proof (rule owp_mono)
    show "owp (hs_copy P r (1 - a) 0 (map Some ts) p1)
      (\<lambda>_ p'. only_sector P r (1 - a) p1 p' \<and> secs P p' r (1 - a) = sector_of (replicate 8 0xFF) ts)
      (\<lambda>_ p'. \<not> part_works P \<and> only_sector P r (1 - a) p1 p')"
      using owp_copy [OF r a(2), of "replicate 8 0xFF" P p1 "[]" ts] that(2) ts only_region_flash [OF that(1)]
      by (simp add: sector_of_erased)
  qed (use e1 only_region_sector [OF that(1)] in blast)+
  show ?thesis
    unfolding hs_rewrite_region_def Let_def owp_simps gen
  proof (rule owp_mono [OF owp_flash_erase [OF flash r a(2)]])
    fix x p1 assume "only_sector P r (1 - a) p p1 \<and> secs P p1 r (1 - a) = erased"
    then show "owp (hs_copy P r (1 - a) 0 (map Some ts) p1) (\<lambda>_ p2. owp (hs_write_header P r (1 - a) (next_gen hdr) p2)
      (\<lambda>_ p3. owp (hs_erase_sector P r a p3)
        (\<lambda>_ p'. ?n p' \<and> region_repr (region_at P p' r) (1 - a) (next_gen hdr) ts erased) (\<lambda>_. ?f)) (\<lambda>_. ?f)) (\<lambda>_. ?f)"
      by (intro e0) (auto intro: only_sector_region)
  qed (blast intro: only_sector_region)
qed

section \<open>The store as a directory of bounded logs\<close>

definition hs_regions :: "'p part_prims \<Rightarrow> 'p \<Rightarrow> HistoryRegion list" where
  "hs_regions P p = map (region_at P p) [0..<24]"

text \<open>What is stored of a conversation, oldest first.\<close>

definition hs_log :: "'p part_prims \<Rightarrow> 'p \<Rightarrow> HistoryMsgType \<times> u8 \<Rightarrow> DecodedSlot list" where
  "hs_log P p conv = (case position (\<lambda>r. conv_of r = Some conv) (hs_regions P p) of
     None \<Rightarrow> [] | Some j \<Rightarrow> region_view (hs_regions P p ! j))"

definition hs_ok :: "'p part_prims \<Rightarrow> 'p \<Rightarrow> bool" where
  "hs_ok P p \<longleftrightarrow> hs_flash P p \<and> dir_invar (hs_regions P p)"

lemma length_hs_regions [simp]: "length (hs_regions P p) = 24"
  by (simp add: hs_regions_def)

lemma hs_regions_nth [simp]: "r < 24 \<Longrightarrow> hs_regions P p ! r = region_at P p r"
  by (simp add: hs_regions_def)

lemma hs_regions_update:
  assumes "only_region P r p p'" "r < 24"
  shows "hs_regions P p' = (hs_regions P p)[r := region_at P p' r]"
  by (rule nth_equalityI) (use assms in \<open>auto simp: only_region_def nth_list_update\<close>)

lemma drop_regions: "r < 24 \<Longrightarrow> drop r (hs_regions P p) = region_at P p r # drop (Suc r) (hs_regions P p)"
  by (simp flip: Cons_nth_drop_Suc)

lemma reads_find_loop:
  assumes "hs_flash P p" "r + k = 24"
  shows "\<exists>v. reads P (hs_find_loop P kind conv r k p) v p \<and> find_region (drop r (hs_regions P p)) kind conv r = Some v"
  using assms(2)
proof (induction k arbitrary: r)
  case (Suc k)
  then have r: "r < 24"
    by simp
  obtain v where v: "reads P (hs_find_loop P kind conv (Suc r) k p) v p"
    "find_region (drop (Suc r) (hs_regions P p)) kind conv (Suc r) = Some v"
    using Suc.IH [of "Suc r"] Suc.prems by auto
  show ?case
    using v active_of_region(2) [OF assms(1) r]
    by (auto simp: drop_regions [OF r] intro!: reads_and_then [OF reads_active [OF assms(1) r]] reads_value split: option.split)
qed (auto intro: reads_value)

lemma reads_find_claimed:
  assumes "hs_ok P p"
  shows "reads P (hs_find_claimed_region P kind conv p) (position (\<lambda>r. conv_of r = Some (kind, conv)) (hs_regions P p)) p"
  using reads_find_loop [of P p 0 24 kind conv] assms find_region_spec [of "hs_regions P p" kind conv 0]
  by (auto simp: hs_ok_def dir_invar_def hs_find_claimed_region_def MAX_CONVERSATION_REGIONS_def option.map_ident)

lemma owp_claim_region:
  assumes "hs_flash P p" "r < 24"
  shows "owp (hs_claim_region P r kind conv p)
    (\<lambda>_ p'. only_region P r p p' \<and> region_at P p' r = claimed_region kind conv) (\<lambda>_ p'. \<not> part_works P \<and> only_region P r p p')"
  unfolding hs_claim_region_def owp_simps
proof (rule owp_mono [OF owp_flash_erase [OF assms, of 0]])
  fix x p1 assume p1: "only_sector P r 0 p p1 \<and> secs P p1 r 0 = erased"
  then have f1: "hs_flash P p1" and n1: "only_region P r p p1"
    by (auto intro: only_sector_flash only_sector_region)
  show "owp (hs_erase_sector P r 1 p1) (\<lambda>_ s. owp (hs_write_header P r 0 \<lparr>rh_kind = kind, rh_conv_hash = conv, rh_generation = 0\<rparr> s)
      (\<lambda>_ p'. only_region P r p p' \<and> region_at P p' r = claimed_region kind conv) (\<lambda>_ p'. \<not> part_works P \<and> only_region P r p p')) (\<lambda>_ p'. \<not> part_works P \<and> only_region P r p p')"
  proof (rule owp_mono [OF owp_flash_erase [OF f1 assms(2), of 1]])
    fix x p2 assume p2: "only_sector P r 1 p1 p2 \<and> secs P p2 r 1 = erased"
    then have f2: "hs_flash P p2" and n2: "only_region P r p p2" and s0: "secs P p2 r 0 = sector_of (replicate 8 0xFF) []"
      using only_sector_flash only_region_sector [OF n1] only_sector_other [OF conjunct1 [OF p2] assms(2), of 0] p1
      by (auto simp: sector_of_erased)
    show "owp (hs_write_header P r 0 \<lparr>rh_kind = kind, rh_conv_hash = conv, rh_generation = 0\<rparr> p2)
      (\<lambda>_ p'. only_region P r p p' \<and> region_at P p' r = claimed_region kind conv) (\<lambda>_ p'. \<not> part_works P \<and> only_region P r p p')"
    proof (rule owp_mono [OF owp_write_header [OF f2 assms(2) _ s0]])
      fix x p3 assume p3: "only_sector P r 0 p2 p3
        \<and> secs P p3 r 0 = sector_of (encode_region_header \<lparr>rh_kind = kind, rh_conv_hash = conv, rh_generation = 0\<rparr>) []"
      then show "only_region P r p p3 \<and> region_at P p3 r = claimed_region kind conv"
        using only_region_sector [OF n2 conjunct1 [OF p3]] only_sector_other [OF conjunct1 [OF p3] assms(2), of 1] p2
        by (simp add: region_at_def claimed_region_def)
    qed (use only_region_sector [OF n2] in auto)
  qed (use only_region_sector [OF n1] in auto)
qed (use only_sector_region in auto)

lemma owp_claim_loop:
  assumes "hs_ok P p" "r + k = 24"
  shows "owp (hs_claim_loop P kind conv r k p)
    (\<lambda>x p'. case position (\<lambda>r. conv_of r = None) (drop r (hs_regions P p)) of
        None \<Rightarrow> x = None \<and> p' = p
      | Some j \<Rightarrow> x = Some (r + j) \<and> only_region P (r + j) p p' \<and> region_at P p' (r + j) = claimed_region kind conv)
    (\<lambda>_ p'. \<not> part_works P \<and> (\<exists>r < 24. only_region P r p p'))"
  using assms(2)
proof (induction k arbitrary: r)
  case (Suc k)
  then have r: "r < 24"
    by simp
  have flash: "hs_flash P p"
    using assms(1) by (simp add: hs_ok_def)
  have "dir_ok (region_at P p r)"
    using assms(1) r by (auto simp: hs_ok_def dir_invar_def hs_regions_def list_all_iff)
  then have conv: "conv_of (region_at P p r) = None \<longleftrightarrow> active_of P p r = None"
    using active_of_region(3) [OF flash r] by (cases "region_at P p r" rule: dir_ok_cases) (auto simp del: not_None_eq)
  have ih: "owp (hs_claim_loop P kind conv (Suc r) k p)
    (\<lambda>x p'. case position (\<lambda>r. conv_of r = None) (drop (Suc r) (hs_regions P p)) of
        None \<Rightarrow> x = None \<and> p' = p
      | Some j \<Rightarrow> x = Some (Suc r + j) \<and> only_region P (Suc r + j) p p' \<and> region_at P p' (Suc r + j) = claimed_region kind conv)
    (\<lambda>_ p'. \<not> part_works P \<and> (\<exists>r < 24. only_region P r p p'))"
    using Suc.IH [of "Suc r"] Suc.prems by simp
  have claim: "owp (hs_claim_region P r kind conv p)
    (\<lambda>_ p'. only_region P r p p' \<and> region_at P p' r = claimed_region kind conv) (\<lambda>_ p'. \<not> part_works P \<and> (\<exists>r < 24. only_region P r p p'))"
    using r by (blast intro: owp_mono [OF owp_claim_region [OF flash r]])
  show ?case
    unfolding hs_claim_loop.simps owp_simps
  proof (rule owp_reads_works [OF reads_active [OF flash r]])
    show "(\<not> part_works P \<and> (\<exists>r < 24. only_region P r p p)) \<or> part_works P"
      using r only_region_refl [OF flash] by blast
    show "owp (if active_of P p r = None then and_then (hs_claim_region P r kind conv p) (\<lambda>_ p. Some (Inr (Some r), p))
        else hs_claim_loop P kind conv (Suc r) k p)
      (\<lambda>x p'. case position (\<lambda>r. conv_of r = None) (drop r (hs_regions P p)) of
        None \<Rightarrow> x = None \<and> p' = p
      | Some j \<Rightarrow> x = Some (r + j) \<and> only_region P (r + j) p p' \<and> region_at P p' (r + j) = claimed_region kind conv)
      (\<lambda>_ p'. \<not> part_works P \<and> (\<exists>r < 24. only_region P r p p'))"
    proof (cases "active_of P p r = None")
      case True
      then show ?thesis
        using claim conv by (simp add: drop_regions [OF r] owp_simps)
    next
      case False
      then have "conv_of (region_at P p r) \<noteq> None"
        using conv by simp
      then show ?thesis
        using False by (simp add: drop_regions [OF r] del: not_None_eq)
          (rule owp_mono [OF ih], auto split: option.splits)
    qed
  qed
qed (use assms(1) in \<open>simp add: owp_simps\<close>)

lemma active_of_repr:
  assumes "hs_flash P p" "r < 24" "region_repr (region_at P p r) a hdr es erased"
  shows "active_of P p r = Some (a, hdr)"
proof -
  have "active_sector_index (region_at P p r) = Some (Some a)"
    using active_when_spare_uncommitted [OF assms(3)] by (simp add: decode_erased_header)
  moreover have "header_of (region_at P p r) a = Some (Some hdr)"
    using assms(3) header_of_sector [of "region_at P p r" a] by (auto simp: region_repr_def take_sector_of)
  ultimately have "region_header (region_at P p r) = Some (Some hdr)" "active_sector_index (region_at P p r) = Some (Some a)"
    by (simp_all add: region_header_def)
  then show ?thesis
    using active_of_region(1,2) [OF assms(1,2)] by (cases "active_of P p r") auto
qed

lemma repr_sector:
  assumes "region_repr (region_at P p r) a hdr es sp"
  shows "a < 2" "secs P p r a = sector_of (encode_region_header hdr) es" "log_ok es" "secs P p r (1 - a) = sp"
  using assms sector_region_at [of a P p r] sector_region_at [of "1 - a" P p r]
  by (auto simp: region_repr_def sector_is_def)

lemma reads_head_repr:
  assumes "hs_flash P p" "r < 24" "region_repr (region_at P p r) a hdr es erased"
  shows "reads P (hs_find_write_head P r a p) (length es) p"
proof -
  note rep = repr_sector [OF assms(3)]
  obtain h where "reads P (hs_find_write_head P r a p) h p" "write_head (region_at P p r) a = Some h"
    using reads_write_head [OF assms(1,2) rep(1)] by blast
  moreover have "write_head (region_at P p r) a = Some (length es)"
    using find_write_head_sector_of [of "encode_region_header hdr" es] rep by (simp add: write_head_def)
  ultimately show ?thesis
    by simp
qed

lemma reads_window_repr:
  assumes "hs_flash P p" "r < 24" "region_repr (region_at P p r) a hdr es erased"
  shows "reads P (hs_live_window P r a p) (live_buf es, length (newest 32 es)) p"
  using assms(3) repr_sector [OF assms(3)]
  by (intro reads_live_window [OF assms(1,2)] gather_live_sector [of _ _ "encode_region_header hdr"]) (auto simp: region_repr_def)

text \<open>Storing into the next free slot.\<close>

lemma owp_store_next:
  assumes "hs_flash P p" "r < 24" "region_repr (region_at P p r) a hdr es erased" "length es < 56" "wf_slot t"
  shows "owp (hs_write_slot P r a (length es) t p)
    (\<lambda>_ p'. only_region P r p p' \<and> region_repr (region_at P p' r) a hdr (es @ [t]) erased) (\<lambda>_ p'. \<not> part_works P \<and> only_region P r p p')"
proof -
  note rep = repr_sector [OF assms(3)]
  have a: "1 - a < 2" "1 - a \<noteq> a"
    using rep(1) by (auto simp: less_2_cases_iff)
  show ?thesis
  proof (rule owp_mono [OF owp_write_slot [OF assms(1,2) rep(1,2) _ rep(3) assms(4,5)]])
    fix x p' assume p': "only_sector P r a p p' \<and> secs P p' r a = sector_of (encode_region_header hdr) (es @ [t])"
    then have "secs P p' r (1 - a) = erased"
      using only_sector_other [OF conjunct1 [OF p'] assms(2) a] rep(4) by simp
    then show "only_region P r p p' \<and> region_repr (region_at P p' r) a hdr (es @ [t]) erased"
      using p' sector_region_at [OF rep(1), of P p' r] sector_region_at [OF a(1), of P p' r]
        log_ok_snoc [OF rep(3) assms(4,5)] only_sector_region [OF conjunct1 [OF p']]
      by (simp add: region_repr_def erased_def SECTOR_SIZE_def)
  qed (auto intro: only_sector_region)
qed

lemma owp_append_region:
  assumes flash: "hs_flash P p" and r: "r < 24" and rep: "region_repr (region_at P p r) a hdr es erased" and t: "wf_slot t"
  shows "owp (hs_append_region P r t p)
    (\<lambda>_ p'. only_region P r p p' \<and> (\<exists>a' hdr' es'. region_repr (region_at P p' r) a' hdr' es' erased
        \<and> newest 32 es' = newest 32 (es @ [t]) \<and> rh_kind hdr' = rh_kind hdr \<and> rh_conv_hash hdr' = rh_conv_hash hdr))
    (\<lambda>_ p'. \<not> part_works P \<and> only_region P r p p')" (is "owp _ ?Q ?E")
proof -
  have E: "?E () p \<or> part_works P"
    using only_region_refl [OF flash] by blast
  have store: "owp (hs_write_slot P r a' (length es') t p1) ?Q ?E"
    if "only_region P r p p1" "region_repr (region_at P p1 r) a' hdr' es' erased" "length es' < 56"
      "newest 32 (es' @ [t]) = newest 32 (es @ [t])" "rh_kind hdr' = rh_kind hdr" "rh_conv_hash hdr' = rh_conv_hash hdr"
    for p1 a' hdr' es'
    by (rule owp_mono [OF owp_store_next [OF only_region_flash [OF that(1)] r that(2,3) t]])
      (use that only_region_trans [OF that(1)] in blast)+
  show ?thesis
  proof (cases "length es < 56")
    case True
    show ?thesis
      unfolding hs_append_region_def owp_simps
      using True store [OF only_region_refl [OF flash] rep True]
      by (intro owp_reads_works [OF reads_active [OF flash r]] E)
        (simp add: active_of_repr [OF flash r rep] owp_simps, intro owp_reads_works [OF reads_head_repr [OF flash r rep]] E, simp add: owp_simps)
  next
    case False
    then have len: "length es = 56"
      using repr_sector(3) [OF rep] by (simp add: log_ok_def)
    have win: "slice (live_buf es) 0 (min 32 (length es)) = Some (map Some (newest 32 es))"
      using len by (simp add: slice_def live_buf_def)
    have after: "owp (hs_active_sector P r p1) (\<lambda>x s. owp (case x of None \<Rightarrow> panic
          | Some (active, _) \<Rightarrow> and_then (hs_find_write_head P r active s) (\<lambda>head p. Some (Inr (active, head), p)))
          (\<lambda>x s. owp ((case x of (active, head) \<Rightarrow> hs_write_slot P r active head t) s) ?Q ?E) ?E) ?E"
      if p1: "only_region P r p p1" "region_repr (region_at P p1 r) (1 - a) (next_gen hdr) (newest 32 es) erased" for p1
    proof -
      note f1 = only_region_flash [OF p1(1)]
      have E1: "?E () p1 \<or> part_works P"
        using p1(1) by blast
      have w: "owp (hs_write_slot P r (1 - a) (length (newest 32 es)) t p1) ?Q ?E"
        by (rule store [OF p1]) (simp_all add: newest_newest_snoc next_gen_def)
      show ?thesis
        using w by (intro owp_reads_works [OF reads_active [OF f1 r]] E1)
          (simp add: active_of_repr [OF f1 r p1(2)] owp_simps, intro owp_reads_works [OF reads_head_repr [OF f1 r p1(2), simplified]] E1, simp add: owp_simps)
    qed
    have comp: "owp (hs_compact P r a hdr p) (\<lambda>_ p1. only_region P r p p1
        \<and> region_repr (region_at P p1 r) (1 - a) (next_gen hdr) (newest 32 es) erased) ?E"
      unfolding hs_compact_def owp_simps
      using owp_rewrite [OF flash r rep log_ok_newest [OF repr_sector(3) [OF rep]]]
      by (intro owp_reads_works [OF reads_window_repr [OF flash r rep]] E) (simp add: win)
    have "owp (hs_compact P r a hdr p) (\<lambda>_ p1. owp (hs_active_sector P r p1) (\<lambda>x s. owp (case x of None \<Rightarrow> panic
          | Some (active, _) \<Rightarrow> and_then (hs_find_write_head P r active s) (\<lambda>head p. Some (Inr (active, head), p)))
          (\<lambda>x s. owp ((case x of (active, head) \<Rightarrow> hs_write_slot P r active head t) s) ?Q ?E) ?E) ?E) ?E"
      by (rule owp_mono [OF comp], erule conjE, erule (1) after)
    then show ?thesis
      unfolding hs_append_region_def owp_simps
      by (intro owp_reads_works [OF reads_active [OF flash r]] E)
        (simp add: active_of_repr [OF flash r rep] owp_simps, intro owp_reads_works [OF reads_head_repr [OF flash r rep]] E,
          simp add: len owp_simps)
  qed
qed

text \<open>Replacing the region of a conversation, or the first free one, by a region of that conversation.\<close>

definition log_of :: "HistoryRegion list \<Rightarrow> HistoryMsgType \<times> u8 \<Rightarrow> DecodedSlot list" where
  "log_of rs conv = (case position (\<lambda>r. conv_of r = Some conv) rs of None \<Rightarrow> [] | Some j \<Rightarrow> region_view (rs ! j))"

lemma log_of_present:
  assumes "dir_invar rs" "j < length rs" "conv_of (rs ! j) = Some conv"
  shows "position (\<lambda>r. conv_of r = Some conv) rs = Some j" "log_of rs conv = region_view (rs ! j)"
proof -
  obtain i where i: "position (\<lambda>r. conv_of r = Some conv) rs = Some i"
    using position_Some_ex [of "\<lambda>r. conv_of r = Some conv" rs] assms(3) nth_mem [OF assms(2)] by blast
  then have "i < length rs" "conv_of (rs ! i) = Some conv"
    using position_SomeD by blast+
  then have "i = j"
    using assms by (auto simp: dir_invar_def)
  then show "position (\<lambda>r. conv_of r = Some conv) rs = Some j" "log_of rs conv = region_view (rs ! j)"
    using i by (simp_all add: log_of_def)
qed

lemma log_of_absent: "\<forall>r \<in> set rs. conv_of r \<noteq> Some conv \<Longrightarrow> log_of rs conv = []"
  using position_None_iff [of "\<lambda>r. conv_of r = Some conv" rs] by (simp add: log_of_def)

lemma log_of_update:
  assumes inv: "dir_invar rs" and j: "j < length rs" and R: "region_invar k c R"
    and old: "conv_of (rs ! j) = Some (k, c) \<or> (conv_of (rs ! j) = None \<and> (\<forall>r \<in> set rs. conv_of r \<noteq> Some (k, c)))"
  shows "dir_invar (rs[j := R])" "log_of (rs[j := R]) (k, c) = region_view R"
    "\<And>x. x \<noteq> (k, c) \<Longrightarrow> log_of (rs[j := R]) x = log_of rs x"
proof -
  have conv: "conv_of R = Some (k, c)"
    by (rule conv_of_simps(2) [OF R])
  have same: "i = j" if "i < length rs" "conv_of (rs ! i) = Some (k, c)" for i
    using old that inv j by (auto simp: dir_invar_def)
  have "list_all dir_ok (rs[j := R])"
    using inv R set_update_subset_insert [of rs j R] by (auto simp: dir_invar_def list_all_iff dir_ok_def)
  moreover have "i1 = i2"
    if "i1 < length rs" "i2 < length rs" "conv_of (rs[j := R] ! i1) = Some x" "conv_of (rs[j := R] ! i2) = Some x" for i1 i2 x
    using that conv same inv j by (auto simp: dir_invar_def nth_list_update split: if_splits)
  ultimately show inv': "dir_invar (rs[j := R])"
    by (auto simp: dir_invar_def)
  then show "log_of (rs[j := R]) (k, c) = region_view R"
    using log_of_present(2) [of "rs[j := R]" j "(k, c)"] j conv by simp
  fix x assume x: "x \<noteq> (k, c)"
  show "log_of (rs[j := R]) x = log_of rs x"
  proof (cases "\<exists>i < length rs. conv_of (rs ! i) = Some x")
    case True
    then obtain i where i: "i < length rs" "conv_of (rs ! i) = Some x"
      by blast
    then have "i \<noteq> j"
      using old x by auto
    then show ?thesis
      using i log_of_present(2) [OF inv i] log_of_present(2) [OF inv', of i x] by simp
  next
    case False
    then have old_x: "\<forall>r \<in> set rs. conv_of r \<noteq> Some x"
      by (auto simp: in_set_conv_nth)
    then have "\<forall>r \<in> set (rs[j := R]). conv_of r \<noteq> Some x"
      using conv x set_update_subset_insert [of rs j R] by fastforce
    with old_x have "\<forall>r \<in> set rs. conv_of r \<noteq> Some x" "\<forall>r \<in> set (rs[j := R]). conv_of r \<noteq> Some x"
      by simp_all
    then show ?thesis
      by (simp add: log_of_absent)
  qed
qed

lemma hs_log_log_of: "hs_log P p = log_of (hs_regions P p)"
  by (simp add: fun_eq_iff hs_log_def log_of_def)

text \<open>Storing into a region that a conversation owns.\<close>

lemma owp_append_owned:
  assumes "hs_flash P p" "j < 24" "region_invar k c (region_at P p j)" "wf_slot t"
  shows "owp (hs_append_region P j t p)
    (\<lambda>_ p'. only_region P j p p' \<and> region_invar k c (region_at P p' j)
      \<and> region_view (region_at P p' j) = newest 32 (region_view (region_at P p j) @ [t]))
    (\<lambda>_ p'. \<not> part_works P \<and> only_region P j p p')"
proof -
  obtain a hdr es where rep: "region_repr (region_at P p j) a hdr es erased" "rh_kind hdr = k" "rh_conv_hash hdr = c"
    using assms(3) by (auto simp: region_invar_def)
  show ?thesis
    by (rule owp_mono [OF owp_append_region [OF assms(1,2) rep(1) assms(4)]])
      (use rep(2,3) region_view_repr [OF rep(1)] in \<open>auto simp: region_invar_def region_view_repr newest_newest_snoc\<close>)
qed

lemma append_conversation_spec:
  assumes ok: "hs_ok P p" and t: "wf_slot (e, o', a)"
  shows "owp (hs_append_conversation P k c e o' a p)
    (\<lambda>_ p'. hs_ok P p' \<and> hs_log P p' = (hs_log P p)((k, c) := newest 32 (hs_log P p (k, c) @ [(e, o', a)])))
    (\<lambda>err p'. (\<exists>j < 24. only_region P j p p') \<and> (err = HSE_Esp \<longrightarrow> \<not> part_works P)
       \<and> (err = HSE_DirectoryFull \<longrightarrow> p' = p \<and> (\<forall>r \<in> set (hs_regions P p). conv_of r \<notin> {None, Some (k, c)})))"
    (is "owp _ ?Q ?E")
proof -
  let ?rs = "hs_regions P p"
  have flash: "hs_flash P p" and inv: "dir_invar ?rs"
    using ok by (auto simp: hs_ok_def)
  have E: "?E HSE_Esp p'" if "only_region P j p p'" "j < 24" "\<not> part_works P" for j p'
    using that by blast
  have E0: "?E HSE_Esp p \<or> part_works P"
    using E [OF only_region_refl [OF flash], of 0] by auto
  have fin: "?Q () p2"
    if "j < 24" "only_region P j p p2" "region_invar k c (region_at P p2 j)"
      "conv_of (?rs ! j) = Some (k, c) \<or> (conv_of (?rs ! j) = None \<and> (\<forall>r \<in> set ?rs. conv_of r \<noteq> Some (k, c)))"
      "region_view (region_at P p2 j) = newest 32 (hs_log P p (k, c) @ [(e, o', a)])" for j p2
  proof -
    have "hs_regions P p2 = ?rs[j := region_at P p2 j]"
      by (rule hs_regions_update [OF that(2,1)])
    then show ?thesis
      using log_of_update [OF inv _ that(3,4)] that(1,5) only_region_flash [OF that(2)]
      by (auto simp: hs_ok_def hs_log_log_of)
  qed
  show ?thesis
  proof (cases "position (\<lambda>r. conv_of r = Some (k, c)) ?rs")
    case (Some j)
    then have j: "j < 24" "conv_of (?rs ! j) = Some (k, c)"
      using position_SomeD [OF Some] by auto
    then have own: "region_invar k c (region_at P p j)"
    proof -
      have "dir_ok (region_at P p j)"
        using inv j(1) nth_mem [of j ?rs] by (simp add: dir_invar_def list_all_iff)
      then show ?thesis
        using j by (cases rule: dir_ok_cases) auto
    qed
    have "owp (esp (hs_append_region P j (e, o', a) p)) ?Q ?E"
      unfolding esp_def owp_simps
      by (rule owp_mono [OF owp_append_owned [OF flash j(1) own t]])
        (use fin [OF j(1)] j E [OF _ j(1)] log_of_present(2) [OF inv _ j(2)] in \<open>auto simp: hs_log_log_of\<close>)
    then show ?thesis
      unfolding hs_append_conversation_def hs_find_or_claim_region_def esp_def owp_simps
      by (intro owp_reads_works [OF reads_find_claimed [OF ok]] E0) (simp add: Some owp_simps)
  next
    case None
    then have absent: "\<forall>r \<in> set ?rs. conv_of r \<noteq> Some (k, c)"
      by (simp add: position_None_iff)
    have "owp (hs_claim_loop P k c 0 24 p) (\<lambda>f p1. owp (case f of None \<Rightarrow> Some (Inl HSE_DirectoryFull, p1)
        | Some region \<Rightarrow> esp (hs_append_region P region (e, o', a) p1)) ?Q ?E) (\<lambda>_. ?E HSE_Esp)"
    proof (rule owp_mono [OF owp_claim_loop [OF ok]])
      fix f p1
      assume f: "case position (\<lambda>r. conv_of r = None) (drop 0 ?rs) of None \<Rightarrow> f = None \<and> p1 = p
        | Some j \<Rightarrow> f = Some (0 + j) \<and> only_region P (0 + j) p p1 \<and> region_at P p1 (0 + j) = claimed_region k c"
      show "owp (case f of None \<Rightarrow> Some (Inl HSE_DirectoryFull, p1)
        | Some region \<Rightarrow> esp (hs_append_region P region (e, o', a) p1)) ?Q ?E"
      proof (cases "position (\<lambda>r. conv_of r = None) ?rs")
        case None
        then have "f = None" "p1 = p"
          using f by simp_all
        moreover have "\<forall>r \<in> set ?rs. conv_of r \<notin> {None, Some (k, c)}"
          using None absent by (simp add: position_None_iff)
        ultimately show ?thesis
          using only_region_refl [OF flash, of 0] by (auto simp: owp_simps intro: exI [of _ 0])
      next
        case (Some j)
        then have j: "j < 24" "conv_of (?rs ! j) = None"
          using position_SomeD [OF Some] by auto
        have f': "f = Some j" "only_region P j p p1" "region_at P p1 j = claimed_region k c"
          using f Some by simp_all
        have view: "region_view (claimed_region k c) = []" "region_invar k c (claimed_region k c)"
          using region_view_repr [OF claimed_region_repr] region.invar_fresh by (simp_all add: newest_def)
        have "owp (hs_append_region P j (e, o', a) p1)
          (\<lambda>_ p'. only_region P j p1 p' \<and> region_invar k c (region_at P p' j)
            \<and> region_view (region_at P p' j) = newest 32 ([] @ [(e, o', a)])) (\<lambda>_ p'. \<not> part_works P \<and> only_region P j p1 p')"
          using owp_append_owned [OF only_region_flash [OF f'(2)] j(1) _ t, of k c] view by (simp add: f'(3))
        then show ?thesis
          using fin [OF j(1)] E [OF _ j(1)] j(2) absent only_region_trans [OF f'(2)]
          by (auto simp: f'(1) esp_def owp_simps hs_log_log_of log_of_absent elim!: owp_mono)
      qed
    qed (auto simp: only_region_refl [OF flash])
    then show ?thesis
      unfolding hs_append_conversation_def hs_find_or_claim_region_def esp_def owp_simps
      by (intro owp_reads_works [OF reads_find_claimed [OF ok]] E0) (simp add: None owp_simps MAX_CONVERSATION_REGIONS_def)
  qed
qed

section \<open>Loading, exporting and clearing\<close>

lemma reads_collect:
  assumes "hs_flash P p" "r < 24" "region_repr (region_at P p r) a hdr es erased"
  shows "slot + k \<le> length es \<Longrightarrow> reads P (hs_collect P r a slot k p) (take k (drop slot es)) p"
proof (induction k arbitrary: slot)
  case (Suc k)
  note rep = repr_sector [OF assms(3)]
  have slot: "slot < length es" "slot < 56"
    using Suc.prems rep(3) by (auto simp: log_ok_def)
  obtain blob where blob: "reads P (hs_read_slot P r a slot p) blob p"
    and dec: "decode_slot_at (region_at P p r) a slot = decode_slot blob"
    using reads_slot [OF assms(1,2) rep(1) slot(2)] by blast
  have "decode_slot_at (region_at P p r) a slot = Some (Some (es ! slot))"
    using assms(3) slot(1) rep(3) by (intro decode_slot_at_sector [of _ _ "encode_region_header hdr"]) (auto simp: region_repr_def)
  moreover have "take (Suc k) (drop slot es) = es ! slot # take k (drop (Suc slot) es)"
    using slot(1) by (simp flip: Cons_nth_drop_Suc)
  ultimately show ?case
    using Suc.IH [of "Suc slot"] Suc.prems dec
    by (auto intro!: reads_and_then [OF blob] reads_and_then [OF Suc.IH] reads_value)
qed (simp add: reads_def)

text \<open>The conversations of a directory with their logs, in the order of the regions.\<close>

definition conversations :: "HistoryRegion list \<Rightarrow> (HistoryMsgType \<times> u8 \<times> DecodedSlot list) list" where
  "conversations rs = concat (map (\<lambda>r. case conv_of r of Some (k, c) \<Rightarrow> [(k, c, region_view r)] | None \<Rightarrow> []) rs)"

lemma hs_region_cases:
  assumes "hs_ok P p" "r < 24"
  obtains (free) "active_of P p r = None" "conv_of (region_at P p r) = None"
  | (used) a hdr es where "region_repr (region_at P p r) a hdr es erased" "active_of P p r = Some (a, hdr)"
      "conv_of (region_at P p r) = Some (rh_kind hdr, rh_conv_hash hdr)" "region_view (region_at P p r) = newest 32 es"
proof -
  have flash: "hs_flash P p"
    using assms(1) by (simp add: hs_ok_def)
  have "dir_ok (region_at P p r)"
    using assms nth_mem [of r "hs_regions P p"] by (simp add: hs_ok_def dir_invar_def list_all_iff)
  then consider "region_at P p r = new_erased" | k c where "region_invar k c (region_at P p r)"
    by (auto simp: dir_ok_def)
  then show thesis
  proof cases
    case 1
    then show thesis
      using active_of_region(3) [OF flash assms(2)] header_new_erased conv_of_simps(1)
      by (intro free) (auto simp del: not_None_eq)
  next
    case 2
    then obtain a hdr es where rep: "region_repr (region_at P p r) a hdr es erased" "rh_kind hdr = k" "rh_conv_hash hdr = c"
      by (auto simp: region_invar_def)
    then show thesis
      using active_of_repr [OF flash assms(2) rep(1)] conv_of_simps(2) [OF 2] region_view_repr [OF rep(1)]
      by (intro used) auto
  qed
qed

lemma reads_load_loop:
  assumes ok: "hs_ok P p" and "r + k = 24"
  shows "reads P (hs_load_loop P r k p) (conversations (drop r (hs_regions P p))) p"
  using assms(2)
proof (induction k arbitrary: r)
  case (Suc k)
  then have r: "r < 24"
    by simp
  have flash: "hs_flash P p"
    using ok by (simp add: hs_ok_def)
  have ih: "reads P (hs_load_loop P (Suc r) k p) (conversations (drop (Suc r) (hs_regions P p))) p"
    using Suc.IH [of "Suc r"] Suc.prems by simp
  show ?case
    using ok r
  proof (cases rule: hs_region_cases)
    case free
    then show ?thesis
      unfolding hs_load_loop.simps
      using ih by (intro reads_and_then [OF reads_active [OF flash r]]) (simp add: drop_regions [OF r] conversations_def)
  next
    case (used a hdr es)
    let ?start = "length es - 32"
    have col: "reads P (hs_collect P r a ?start (length es - ?start) p) (newest 32 es) p"
      using reads_collect [OF flash r used(1), of ?start "length es - ?start"] by (simp add: newest_def)
    show ?thesis
      unfolding hs_load_loop.simps
    proof (rule reads_and_then [OF reads_active [OF flash r]], unfold used(2) option.case prod.case Let_def MAX_HISTORY_ENTRIES_def)
      show "reads P (and_then (hs_find_write_head P r a p) (\<lambda>head p.
           and_then (hs_collect P r a (head - 32) (head - (head - 32)) p) (\<lambda>entries p.
           and_then (hs_load_loop P (Suc r) k p) (\<lambda>rest p.
             Some (Inr ((rh_kind hdr, rh_conv_hash hdr, entries) # rest), p)))))
        (conversations (drop r (hs_regions P p))) p"
        by (intro reads_and_then [OF reads_head_repr [OF flash r used(1)]] reads_and_then [OF col] reads_and_then [OF ih] reads_value)
          (simp add: drop_regions [OF r] conversations_def used(3,4))
    qed
  qed
qed (simp add: reads_def conversations_def)

lemma conversations_logs:
  assumes inv: "dir_invar rs"
  shows "distinct (map (\<lambda>(k, c, _). (k, c)) (conversations rs))"
    "(k, c, es) \<in> set (conversations rs) \<longleftrightarrow> (\<exists>r \<in> set rs. conv_of r = Some (k, c)) \<and> es = log_of rs (k, c)"
proof -
  have keys: "map (\<lambda>(k, c, _). (k, c)) (conversations rs) = List.map_filter conv_of rs" for rs
    by (induction rs) (auto simp: conversations_def map_filter_simps split: option.split)
  have once: "distinct (List.map_filter conv_of rs)"
    if "\<forall>i < length rs. \<forall>j < length rs. conv_of (rs ! i) \<noteq> None \<longrightarrow> conv_of (rs ! i) = conv_of (rs ! j) \<longrightarrow> i = j" for rs
    using that
  proof (induction rs)
    case (Cons r rs)
    have "\<forall>i < length rs. \<forall>j < length rs. conv_of (rs ! i) \<noteq> None \<longrightarrow> conv_of (rs ! i) = conv_of (rs ! j) \<longrightarrow> i = j"
      using Cons.prems by fastforce
    moreover have "x \<notin> set (List.map_filter conv_of rs)" if "conv_of r = Some x" for x
      using Cons.prems that by (fastforce simp: List.map_filter_def in_set_conv_nth)
    ultimately show ?case
      using Cons.IH by (auto simp: map_filter_simps split: option.split)
  qed (simp add: map_filter_simps)
  show "distinct (map (\<lambda>(k, c, _). (k, c)) (conversations rs))"
    unfolding keys by (rule once) (use inv in \<open>unfold dir_invar_def, blast\<close>)
  have "log_of rs (k, c) = region_view r" if "r \<in> set rs" "conv_of r = Some (k, c)" for r
    using that log_of_present(2) [OF inv] by (auto simp: in_set_conv_nth)
  then show "(k, c, es) \<in> set (conversations rs) \<longleftrightarrow> (\<exists>r \<in> set rs. conv_of r = Some (k, c)) \<and> es = log_of rs (k, c)"
    by (auto simp: conversations_def split: option.splits) (rule bexI, auto)
qed

lemma owp_clear_sectors:
  assumes "hs_flash P p" "r < 24"
  shows "owp (hs_clear_sectors P r 0 2 p) (\<lambda>_ p'. only_region P r p p' \<and> region_at P p' r = new_erased) (\<lambda>_ p'. hs_flash P p')"
proof -
  have step: "hs_clear_sectors P r 0 2 p = and_then (hs_erase_sector P r 0 p) (\<lambda>_ p.
      and_then (hs_erase_sector P r 1 p) (\<lambda>_ p. Some (Inr (), p)))"
  proof -
    have "hs_clear_sectors P r s 0 = (\<lambda>p. Some (Inr (), p))" for s
      by (rule ext) simp
    moreover have "hs_clear_sectors P r s (Suc k) = (\<lambda>p. and_then (hs_erase_sector P r s p) (\<lambda>_. hs_clear_sectors P r (Suc s) k))" for s k
      by (rule ext) simp
    ultimately show ?thesis
      by (simp add: numeral_2_eq_2 del: hs_clear_sectors.simps)
  qed
  show ?thesis
    unfolding step owp_simps
  proof (rule owp_mono [OF owp_flash_erase [OF assms, of 0]])
    fix x p1 assume p1: "only_sector P r 0 p p1 \<and> secs P p1 r 0 = erased"
    then have f1: "hs_flash P p1" and n1: "only_region P r p p1"
      by (auto intro: only_sector_flash only_sector_region)
    show "owp (hs_erase_sector P r 1 p1) (\<lambda>_ p'. only_region P r p p' \<and> region_at P p' r = new_erased) (\<lambda>_ p'. hs_flash P p')"
    proof (rule owp_mono [OF owp_flash_erase [OF f1 assms(2), of 1]])
      fix x p2 assume p2: "only_sector P r 1 p1 p2 \<and> secs P p2 r 1 = erased"
      then have "secs P p2 r 0 = erased"
        using only_sector_other [OF conjunct1 [OF p2] assms(2), of 0] p1 by simp
      then show "only_region P r p p2 \<and> region_at P p2 r = new_erased"
        using p2 only_region_sector [OF n1 conjunct1 [OF p2]]
        by (simp add: region_at_def new_erased_def SECTORS_PER_REGION_def numeral_2_eq_2)
    qed (auto intro: only_sector_flash)
  qed (auto intro: only_sector_flash)
qed

lemma owp_clear_regions:
  "hs_flash P p \<Longrightarrow> r + k = 24 \<Longrightarrow> owp (hs_clear_regions P r k p)
    (\<lambda>_ p'. hs_flash P p' \<and> hs_regions P p' = take r (hs_regions P p) @ replicate k new_erased) (\<lambda>_ p'. hs_flash P p')"
proof (induction k arbitrary: r p)
  case (Suc k)
  then have r: "r < 24"
    by simp
  show ?case
    unfolding hs_clear_regions.simps owp_simps SECTORS_PER_REGION_def
  proof (rule owp_mono [OF owp_clear_sectors [OF Suc.prems(1) r]])
    fix x p1 assume p1: "only_region P r p p1 \<and> region_at P p1 r = new_erased"
    have "hs_regions P p1 = (hs_regions P p)[r := new_erased]"
      using hs_regions_update [of P r p p1] p1 r by simp
    then have "take (Suc r) (hs_regions P p1) = take r (hs_regions P p) @ [new_erased]"
      using r by (simp add: take_Suc_conv_app_nth)
    then show "owp (hs_clear_regions P (Suc r) k p1)
      (\<lambda>_ p'. hs_flash P p' \<and> hs_regions P p' = take r (hs_regions P p) @ replicate (Suc k) new_erased) (\<lambda>_ p'. hs_flash P p')"
      using Suc.IH [of p1 "Suc r"] Suc.prems only_region_flash [OF conjunct1 [OF p1]] by simp
  qed
qed (simp add: owp_simps)

lemma clear_all_spec:
  assumes "hs_flash P p"
  shows "owp (hs_clear_all P p) (\<lambda>_ p'. hs_ok P p' \<and> hs_log P p' = (\<lambda>_. [])) (\<lambda>_ p'. hs_flash P p')"
  unfolding hs_clear_all_def MAX_CONVERSATION_REGIONS_def
proof (rule owp_mono [OF owp_clear_regions [OF assms, of 0 24]])
  fix x p' assume p': "hs_flash P p' \<and> hs_regions P p' = take 0 (hs_regions P p) @ replicate 24 new_erased"
  have "dir_invar (replicate 24 new_erased)"
    using conv_of_simps(1) by (auto simp: dir_invar_def dir_ok_def list_all_iff)
  moreover have "log_of (replicate 24 new_erased) conv = []" for conv
    using conv_of_simps(1) by (intro log_of_absent) simp
  ultimately show "hs_ok P p' \<and> hs_log P p' = (\<lambda>_. [])"
    using p' by (simp add: hs_ok_def hs_log_log_of fun_eq_iff)
qed simp_all

text \<open>An export whose callback keeps an invariant of its own state on the entries that are stored.\<close>

lemma owp_beside: "owp (beside m op) Q E = owp (m (snd op)) (\<lambda>x p. Q x (fst op, p)) (\<lambda>e p. E e (fst op, p))"
  by (auto simp: beside_def owp_def split: option.split sum.split)

lemma owp_export_slots:
  assumes "hs_flash P p" "r < 24" "region_repr (region_at P p r) a hdr es erased"
    and cb: "\<And>idx e ours q. wf_entry e \<Longrightarrow> W e \<Longrightarrow> I q \<Longrightarrow> \<exists>q'. cb idx e ours q = Some q' \<and> I q'"
  shows "slot + k \<le> length es \<Longrightarrow> \<forall>x \<in> set (drop slot es). W (fst x) \<Longrightarrow> I q \<Longrightarrow>
    owp (hs_export_slots P cb r a slot k idx (q, p)) (\<lambda>_ op. snd op = p \<and> I (fst op)) (\<lambda>_ op. snd op = p \<and> I (fst op))"
proof (induction k arbitrary: slot idx q)
  case (Suc k)
  note rep = repr_sector [OF assms(3)]
  have slot: "slot < length es" "slot < 56"
    using Suc.prems rep(3) by (auto simp: log_ok_def)
  obtain blob where blob: "reads P (hs_read_slot P r a slot p) blob p"
    and dec: "decode_slot_at (region_at P p r) a slot = decode_slot blob"
    using reads_slot [OF assms(1,2) rep(1) slot(2)] by blast
  obtain e o' k' where e: "es ! slot = (e, o', k')"
    by (cases "es ! slot")
  have "decode_slot blob = Some (Some (e, o', k'))"
    using assms(3) slot(1) rep(3) dec e decode_slot_at_sector [of _ _ "encode_region_header hdr" es slot]
    by (auto simp: region_repr_def)
  moreover have "wf_entry e"
    using rep(3) slot(1) e by (auto simp: log_ok_def list_all_length wf_slot_def dest!: spec [of _ slot])
  moreover have W: "W e" "\<forall>x \<in> set (drop (Suc slot) es). W (fst x)"
    using Suc.prems(2) slot(1) e by (simp_all add: Cons_nth_drop_Suc [symmetric])
  ultimately obtain q' where "cb idx e o' q = Some q'" "I q'" "decode_slot blob = Some (Some (e, o', k'))"
    using cb Suc.prems(3) by blast
  then show ?case
    unfolding hs_export_slots.simps owp_simps owp_beside fst_conv snd_conv
    using Suc.IH [of "Suc slot"] Suc.prems(1,3) W(2) by (intro owp_reads [OF blob]) simp_all
qed (simp add: owp_simps)

lemma owp_export_loop:
  assumes ok: "hs_ok P p" and W: "\<forall>r < 24. \<forall>x \<in> set (region_view (region_at P p r)). W (fst x)"
    and cb: "\<And>idx e ours q. wf_entry e \<Longrightarrow> W e \<Longrightarrow> I q \<Longrightarrow> \<exists>q'. cb idx e ours q = Some q' \<and> I q'"
  shows "r + k = 24 \<Longrightarrow> I q \<Longrightarrow>
    owp (hs_export_loop P cb r k idx (q, p)) (\<lambda>_ op. snd op = p \<and> I (fst op)) (\<lambda>_ op. snd op = p \<and> I (fst op))"
proof (induction k arbitrary: r idx q)
  case (Suc k)
  then have r: "r < 24"
    by simp
  have flash: "hs_flash P p"
    using ok by (simp add: hs_ok_def)
  have ih: "owp (hs_export_loop P cb (Suc r) k idx' op) (\<lambda>_ op. snd op = p \<and> I (fst op)) (\<lambda>_ op. snd op = p \<and> I (fst op))"
    if "snd op = p \<and> I (fst op)" for idx' op
    using Suc.IH [of "Suc r" "fst op"] Suc.prems that by (cases op) simp
  show ?case
    using ok r
  proof (cases rule: hs_region_cases)
    case free
    then show ?thesis
      unfolding hs_export_loop.simps owp_simps owp_beside fst_conv snd_conv
      using ih Suc.prems by (intro owp_reads [OF reads_active [OF flash r]]) simp_all
  next
    case (used a hdr es)
    let ?start = "length es - 32"
    have live: "\<forall>x \<in> set (drop ?start es). W (fst x)"
      using W r used(4) by (simp add: newest_def)
    have slots: "owp (hs_export_slots P cb r a ?start (length es - ?start) idx (q, p))
        (\<lambda>idx op. owp (hs_export_loop P cb (Suc r) k idx op) (\<lambda>_ op. snd op = p \<and> I (fst op)) (\<lambda>_ op. snd op = p \<and> I (fst op)))
        (\<lambda>_ op. snd op = p \<and> I (fst op))"
      by (rule owp_mono [OF owp_export_slots [OF flash r used(1) cb _ live]]) (use ih Suc.prems in auto)
    show ?thesis
      unfolding hs_export_loop.simps owp_simps owp_beside fst_conv snd_conv
      using Suc.prems slots
      by (intro owp_reads [OF reads_active [OF flash r]])
        (simp_all add: used(2) owp_simps owp_beside MAX_HISTORY_ENTRIES_def Let_def owp_reads [OF reads_head_repr [OF flash r used(1)]])
  qed
qed (simp add: owp_simps)

section \<open>Marking the last sent message as acknowledged\<close>

lemma rev_find_Some: "rev_find f n = Some i \<Longrightarrow> i < n \<and> f i \<and> (\<forall>j. i < j \<longrightarrow> j < n \<longrightarrow> \<not> f j)"
  by (induction n) (auto simp: less_Suc_eq split: if_splits)

lemma find_newest_spec:
  assumes "find_newest_ours_unacked (map Some xs) = Some i"
  shows "i < length xs" "\<exists>e. xs ! i = (e, True, False)"
    "\<forall>j e. i < j \<longrightarrow> j < length xs \<longrightarrow> xs ! j \<noteq> (e, True, False)"
proof -
  have *: "i < length xs \<and> (case map Some xs ! i of Some (_, o', k) \<Rightarrow> o' \<and> \<not> k | None \<Rightarrow> False)
      \<and> (\<forall>j. i < j \<longrightarrow> j < length xs \<longrightarrow> \<not> (case map Some xs ! j of Some (_, o', k) \<Rightarrow> o' \<and> \<not> k | None \<Rightarrow> False))"
    using rev_find_Some [OF assms [unfolded find_newest_ours_unacked_def length_map]] .
  show "i < length xs"
    using * by blast
  then show "\<exists>e. xs ! i = (e, True, False)"
    using * by (cases "xs ! i") auto
  show "\<forall>j e. i < j \<longrightarrow> j < length xs \<longrightarrow> xs ! j \<noteq> (e, True, False)"
    using * by fastforce
qed

lemma mark_acked_spec:
  assumes ok: "hs_ok P p"
  shows "owp (hs_mark_last_ours_acked P k c p)
    (\<lambda>b p'. if b then \<exists>i e. i < length (hs_log P p (k, c)) \<and> hs_log P p (k, c) ! i = (e, True, False)
          \<and> (\<forall>j e'. i < j \<longrightarrow> j < length (hs_log P p (k, c)) \<longrightarrow> hs_log P p (k, c) ! j \<noteq> (e', True, False))
          \<and> hs_ok P p' \<and> hs_log P p' = (hs_log P p)((k, c) := (hs_log P p (k, c))[i := (e, True, True)])
        else p' = p)
    (\<lambda>_ p'. \<exists>j < 24. only_region P j p p')" (is "owp _ ?Q ?E")
proof -
  let ?rs = "hs_regions P p"
  have flash: "hs_flash P p" and inv: "dir_invar ?rs"
    using ok by (auto simp: hs_ok_def)
  have E0: "?E HSE_Esp p"
    using only_region_refl [OF flash] by (intro exI [of _ 0]) simp
  show ?thesis
  proof (cases "position (\<lambda>r. conv_of r = Some (k, c)) ?rs")
    case None
    then show ?thesis
      unfolding hs_mark_last_ours_acked_def esp_def owp_simps
      by (intro owp_reads [OF reads_find_claimed [OF ok]] E0) (simp add: owp_simps)
  next
    case (Some r)
    note pos = Some
    then have r: "r < 24" and conv: "conv_of (region_at P p r) = Some (k, c)"
      using position_SomeD [OF Some] by auto
    obtain a hdr es where rep: "region_repr (region_at P p r) a hdr es erased" and act: "active_of P p r = Some (a, hdr)"
      and hdr: "rh_kind hdr = k" "rh_conv_hash hdr = c" and view: "region_view (region_at P p r) = newest 32 es"
      by (rule hs_region_cases [OF ok r]) (use conv in auto)
    have log: "hs_log P p (k, c) = newest 32 es"
      using Some r view by (simp add: hs_log_def)
    have win: "slice (live_buf es) 0 (min 32 (length es)) = Some (map Some (newest 32 es))"
      by (simp add: slice_def live_buf_def)
    show ?thesis
    proof (cases "find_newest_ours_unacked (map Some (newest 32 es))")
      case None
      then show ?thesis
        unfolding hs_mark_last_ours_acked_def esp_def owp_simps
        by (intro owp_reads [OF reads_find_claimed [OF ok]] E0)
          (simp add: Some owp_simps, intro owp_reads [OF reads_active [OF flash r]] E0,
            simp add: act owp_simps, intro owp_reads [OF reads_window_repr [OF flash r rep]] E0, simp add: win owp_simps)
    next
      case (Some i)
      note newest_unacked = find_newest_spec [OF Some]
      then obtain e where i: "i < length (newest 32 es)" and e: "newest 32 es ! i = (e, True, False)"
        by blast
      let ?ts = "(newest 32 es)[i := (e, True, True)]"
      have "wf_entry e" and okn: "log_ok (newest 32 es)"
        using log_ok_newest [OF repr_sector(3) [OF rep]] i e
        by (auto simp: log_ok_def list_all_length wf_slot_def dest!: spec [of _ i])
      then have ts: "log_ok ?ts"
        using i by (auto simp: log_ok_def list_all_length nth_list_update wf_slot_def)
      have buf: "live_buf es ! i = Some (e, True, False)" "slice ((live_buf es)[i := Some (e, True, True)]) 0 (min 32 (length es)) = Some (map Some ?ts)"
        "i < length (live_buf es)"
        using i e by (auto simp: live_buf_def nth_append slice_def list_update_append map_update)
      have "owp (hs_rewrite_region P r a hdr (map Some ?ts) p) (\<lambda>_ p'. ?Q True p') (\<lambda>_. ?E HSE_Esp)"
      proof (rule owp_mono [OF owp_rewrite [OF flash r rep ts]])
        fix x p' assume p': "only_region P r p p' \<and> region_repr (region_at P p' r) (1 - a) (next_gen hdr) ?ts erased"
        have "rh_kind (next_gen hdr) = k" "rh_conv_hash (next_gen hdr) = c"
          using hdr by (simp_all add: next_gen_def)
        then have "region_invar k c (region_at P p' r)"
          using conjunct2 [OF p'] unfolding region_invar_def by blast
        moreover have "region_view (region_at P p' r) = ?ts"
          using region_view_repr [OF conjunct2 [OF p']] by (simp add: newest_def)
        moreover have "hs_regions P p' = ?rs[r := region_at P p' r]"
          by (rule hs_regions_update [OF conjunct1 [OF p'] r])
        moreover have "conv_of (?rs ! r) = Some (k, c)"
          using conv r by simp
        ultimately have "hs_ok P p'" "hs_log P p' = (hs_log P p)((k, c) := ?ts)"
          using log_of_update [OF inv, of r k c "region_at P p' r"] r only_region_flash [OF conjunct1 [OF p']]
          by (auto simp: hs_ok_def hs_log_log_of)
        then show "?Q True p'"
          using i e newest_unacked(3) by (auto simp: log)
      qed (use r in blast)
      then show ?thesis
        unfolding hs_mark_last_ours_acked_def esp_def owp_simps
        using pos
        by (intro owp_reads [OF reads_find_claimed [OF ok]] E0)
          (simp add: owp_simps, intro owp_reads [OF reads_active [OF flash r]] E0,
            simp add: act owp_simps, intro owp_reads [OF reads_window_repr [OF flash r rep]] E0,
            simp add: win Some get_at_def set_at_def buf owp_simps)
    qed
  qed
qed

section \<open>Properties\<close>

text \<open>C23: Storing a message in a well-formed flash store (each of the 24 regions well formed, no conversation in
  two of them) refines one bounded log for each conversation. It never panics, whichever of its flash accesses
  fail. On success the store is well formed again, the log of its conversation is the newest 32 of the former
  messages and the new one, and no other conversation changes. It reports a flash error only when the partition
  fails an access, and then every region but the one being written is byte for byte as before (the region being
  written may be left torn, so the statement says nothing of a later operation on it). It reports a full directory
  only when no region is free and none belongs to the conversation, and then nothing has changed. So on a working
  partition a conversation that has a region, or finds a free one, always stores its message.\<close>

theorem history_store_append:
  assumes "hs_ok P p" "wf_slot (e, o', a)"
  shows "\<exists>r p'. hs_append_conversation P k c e o' a p = Some (r, p')
    \<and> (case r of
         Inr _ \<Rightarrow> hs_ok P p' \<and> hs_log P p' = (hs_log P p)((k, c) := newest 32 (hs_log P p (k, c) @ [(e, o', a)]))
       | Inl HSE_Esp \<Rightarrow> \<not> part_works P \<and> (\<exists>j < 24. only_region P j p p')
       | Inl HSE_DirectoryFull \<Rightarrow> p' = p \<and> (\<forall>r \<in> set (hs_regions P p). conv_of r \<notin> {None, Some (k, c)}))"
  by (rule owpE [OF append_conversation_spec [OF assms, of k c]]) (auto split: HistoryStoreError.splits)

text \<open>An erased partition, and a message of contact 5.\<close>

definition demo_flash :: bytes where
  "demo_flash = replicate 196608 0xFF"

definition demo_entry :: HistoryEntry where
  "demo_entry = \<lparr>he_sender_hash = 5, he_msg_type = HM_Dm, he_timestamp = 77, he_text = replicate 64 0x41, he_text_len = 3\<rparr>"

lemma demo_flash_ok: "hs_ok demo_part demo_flash" "hs_log demo_part demo_flash = (\<lambda>_. [])"
  "\<exists>r \<in> set (hs_regions demo_part demo_flash). conv_of r = None"
proof -
  have flash: "hs_flash demo_part demo_flash"
    using demo_part_ok(1) by (simp add: hs_flash_def, simp add: demo_part_def demo_flash_def MAX_CONVERSATION_REGIONS_def
        REGION_SIZE_def SECTOR_SIZE_def SECTORS_PER_REGION_def)
  have "secs demo_part demo_flash r s = erased" if "r < 24" "s < 2" for r s
    using that by (simp add: secs_def demo_part_def demo_flash_def erased_def SECTOR_SIZE_def min_def)
  then have "hs_regions demo_part demo_flash = replicate 24 new_erased"
    by (intro nth_equalityI)
      (simp_all add: region_at_def new_erased_def SECTORS_PER_REGION_def numeral_2_eq_2)
  moreover have "dir_invar (replicate 24 new_erased)" "log_of (replicate 24 new_erased) conv = []" for conv
    using conv_of_simps(1) by (auto simp: dir_invar_def dir_ok_def list_all_iff intro!: log_of_absent)
  ultimately show "hs_ok demo_part demo_flash" "hs_log demo_part demo_flash = (\<lambda>_. [])"
    "\<exists>r \<in> set (hs_regions demo_part demo_flash). conv_of r = None"
    using flash conv_of_simps(1) by (simp_all add: hs_ok_def hs_log_log_of fun_eq_iff)
qed

lemma append_result_cases:
  obtains "r = Inr ()" | "r = Inl HSE_Esp" | "r = Inl HSE_DirectoryFull"
  by (metis (full_types) HistoryStoreError.exhaust old.unit.exhaust sum.exhaust)

lemma history_store_append_witness:
  "\<exists>p'. hs_append_conversation demo_part HM_Dm 5 demo_entry False True demo_flash = Some (Inr (), p')
    \<and> hs_ok demo_part p' \<and> hs_log demo_part p' = (\<lambda>_. [])((HM_Dm, 5) := [(demo_entry, False, True)])"
proof -
  have "wf_slot (demo_entry, False, True)"
    by (simp add: wf_slot_def wf_entry_def demo_entry_def)
  from history_store_append [OF demo_flash_ok(1) this, of HM_Dm 5] obtain r p' where
    run: "hs_append_conversation demo_part HM_Dm 5 demo_entry False True demo_flash = Some (r, p')"
    and "case r of Inr _ \<Rightarrow> hs_ok demo_part p'
        \<and> hs_log demo_part p' = (hs_log demo_part demo_flash)((HM_Dm, 5) := newest 32 (hs_log demo_part demo_flash (HM_Dm, 5) @ [(demo_entry, False, True)]))
      | Inl HSE_Esp \<Rightarrow> \<not> part_works demo_part \<and> (\<exists>j < 24. only_region demo_part j demo_flash p')
      | Inl HSE_DirectoryFull \<Rightarrow> p' = demo_flash \<and> (\<forall>r \<in> set (hs_regions demo_part demo_flash). conv_of r \<notin> {None, Some (HM_Dm, 5)})"
    by blast
  then have "r = Inr ()" "hs_ok demo_part p'" "hs_log demo_part p' = (\<lambda>_. [])((HM_Dm, 5) := [(demo_entry, False, True)])"
    using demo_part_ok(2) demo_flash_ok(2,3) by (cases r rule: append_result_cases; auto simp: newest_def)+
  with run show ?thesis
    by blast
qed

text \<open>C24: Loading a well-formed store at boot never panics and changes nothing. When no flash access fails it
  presents each conversation once with exactly its log, and misses none that has messages; when one fails it
  either reports the error or has presented the same.\<close>

theorem history_store_load:
  assumes "hs_ok P p"
  shows "\<exists>l. (hs_load_all_conversations P p = Some (Inr l, p)
        \<or> \<not> part_works P \<and> hs_load_all_conversations P p = Some (Inl (), p))
    \<and> distinct (map (\<lambda>(k, c, _). (k, c)) l)
    \<and> (\<forall>(k, c, es) \<in> set l. es = hs_log P p (k, c))
    \<and> (\<forall>k c. hs_log P p (k, c) = [] \<or> (k, c, hs_log P p (k, c)) \<in> set l)"
proof (intro exI conjI)
  have inv: "dir_invar (hs_regions P p)"
    using assms by (simp add: hs_ok_def)
  let ?l = "conversations (hs_regions P p)"
  show "hs_load_all_conversations P p = Some (Inr ?l, p)
      \<or> \<not> part_works P \<and> hs_load_all_conversations P p = Some (Inl (), p)"
    using reads_load_loop [OF assms, of 0 24]
    by (auto simp: hs_load_all_conversations_def MAX_CONVERSATION_REGIONS_def reads_def)
  show "distinct (map (\<lambda>(k, c, _). (k, c)) ?l)" "\<forall>(k, c, es) \<in> set ?l. es = hs_log P p (k, c)"
    using conversations_logs [OF inv] by (auto simp: hs_log_log_of)
  show "\<forall>k c. hs_log P p (k, c) = [] \<or> (k, c, hs_log P p (k, c)) \<in> set ?l"
    using conversations_logs(2) [OF inv] log_of_absent [of "hs_regions P p"] by (auto simp: hs_log_log_of)
qed

text \<open>A store holding one message, as the append leaves it.\<close>

lemma demo_flash_stored:
  obtains p where "hs_ok demo_part p" "hs_log demo_part p (HM_Dm, 5) = [(demo_entry, False, True)]"
proof -
  have wf: "wf_slot (demo_entry, False, True)"
    by (simp add: wf_slot_def wf_entry_def demo_entry_def)
  show thesis
    by (rule owpE [OF append_conversation_spec [OF demo_flash_ok(1) wf, of HM_Dm 5]])
      (use demo_part_ok(2) demo_flash_ok(3) that HistoryStoreError.exhaust in \<open>auto simp: demo_flash_ok(2) newest_def\<close>)
qed

lemma history_store_load_witness:
  "\<exists>p l. hs_load_all_conversations demo_part p = Some (Inr l, p) \<and> (HM_Dm, 5, [(demo_entry, False, True)]) \<in> set l"
proof -
  obtain p where p: "hs_ok demo_part p" "hs_log demo_part p (HM_Dm, 5) = [(demo_entry, False, True)]"
    by (rule demo_flash_stored)
  from history_store_load [OF p(1)] obtain l where l:
    "hs_load_all_conversations demo_part p = Some (Inr l, p) \<or> \<not> part_works demo_part \<and> hs_load_all_conversations demo_part p = Some (Inl (), p)"
    "\<forall>k c. hs_log demo_part p (k, c) = [] \<or> (k, c, hs_log demo_part p (k, c)) \<in> set l"
    by blast
  have "(HM_Dm, 5, [(demo_entry, False, True)]) \<in> set l"
    using spec [OF spec [OF l(2), of HM_Dm], of 5] p(2) by simp
  then show ?thesis
    using l(1) demo_part_ok(2) by blast
qed

end
