(* ===== verification/Gps.thy ===== *)
theory Gps
  imports Bounded_Array "HOL-Library.Signed_Division"
begin

text \<open>
  \<open>firmware-core/src/gps.rs\<close>: NMEA framing and checksums, the init commands of the two modules, the sentences
  with position and time, calendar arithmetic and the duty cycle.

  A value of \<open>i64\<close> is an \<open>int\<close>: with the fields of a sentence every intermediate value stays far below its
  range.  A value of \<open>i32\<close> is a word of 32 bits.
\<close>

section \<open>Baud rates and framing\<close>

definition GPS_BAUD_CANDIDATES :: "u32 list" where
  "GPS_BAUD_CANDIDATES = [9600, 38400, 115200]"

definition GPS_BAUD :: u32 where
  "GPS_BAUD = GPS_BAUD_CANDIDATES ! 0"

definition nmea_checksum :: "bytes \<Rightarrow> u8" where
  "nmea_checksum body = fold (\<lambda>b acc. acc XOR b) body 0"

definition hex_digit_value :: "u8 \<Rightarrow> u8 option" where
  "hex_digit_value b =
     (if 0x30 \<le> b \<and> b \<le> 0x39 then Some (b - 0x30)
      else if 0x41 \<le> b \<and> b \<le> 0x46 then Some (b - 0x41 + 10)
      else if 0x61 \<le> b \<and> b \<le> 0x66 then Some (b - 0x61 + 10)
      else None)"

text \<open>The inner loop from \<open>end\<close>, with the bytes from there on and how many steps the 82-byte limit leaves: the
  offset of the star, if the span ends in one.\<close>

fun star_scan :: "bytes \<Rightarrow> nat \<Rightarrow> nat \<Rightarrow> nat option" where
  "star_scan [] left off = None"
| "star_scan (b # bs) 0 off = None"
| "star_scan (b # bs) (Suc left) off =
     (if b = 0x0D \<or> b = 0x0A then None
      else if b = 0x2A then Some off
      else if 0x20 \<le> b \<and> b \<le> 0x7E then star_scan bs left (Suc off)
      else None)"

text \<open>The test of one span, on the bytes behind its dollar sign.\<close>

definition span_valid :: "bytes \<Rightarrow> bool" where
  "span_valid rest =
     (case star_scan rest 82 0 of
        None \<Rightarrow> False
      | Some star \<Rightarrow>
          let body = take star rest in
          length body \<ge> 5 \<and>
          (case (get_opt rest (star + 1), get_opt rest (star + 2)) of
             (Some hi, Some lo) \<Rightarrow>
               (case (hex_digit_value hi, hex_digit_value lo) of
                  (Some hi_v, Some lo_v) \<Rightarrow> nmea_checksum body = (push_bit 4 hi_v OR lo_v)
                | _ \<Rightarrow> False)
           | _ \<Rightarrow> False))"

text \<open>The outer loop over the bytes from \<open>start\<close> on: the next dollar sign, its span, and on from behind it.\<close>

fun contains_checksum_valid_nmea :: "bytes \<Rightarrow> bool" where
  "contains_checksum_valid_nmea [] = False"
| "contains_checksum_valid_nmea (b # bs) =
     (if b = 0x24 \<and> span_valid bs then True else contains_checksum_valid_nmea bs)"

section \<open>Init commands and the duty cycle\<close>

definition text_bytes :: "string \<Rightarrow> bytes" where
  "text_bytes s = map (\<lambda>c. of_nat (of_char c)) s"

definition L76K_INIT_COMMANDS :: "bytes list" where
  "L76K_INIT_COMMANDS =
     [text_bytes ''$PCAS04,7*1E'' @ [0x0D, 0x0A],
      text_bytes ''$PCAS03,1,0,0,0,1,0,0,0,0,0,,,0,0*02'' @ [0x0D, 0x0A],
      text_bytes ''$PCAS11,3*1E'' @ [0x0D, 0x0A]]"

definition UBLOX_INIT_COMMANDS :: "bytes list" where
  "UBLOX_INIT_COMMANDS =
     [text_bytes ''$PUBX,40,GGA,0,1,0,0,0,0*5B'' @ [0x0D, 0x0A],
      text_bytes ''$PUBX,40,RMC,0,1,0,0,0,0*46'' @ [0x0D, 0x0A]]"

definition GPS_ACTIVE_WINDOW_MS :: u64 where
  "GPS_ACTIVE_WINDOW_MS = 30000"

definition GPS_QUIET_INTERVAL_MS :: u64 where
  "GPS_QUIET_INTERVAL_MS = 120000"

record GpsFix =
  gf_lat_e7 :: u32
  gf_lon_e7 :: u32
  gf_captured_uptime_ms :: u64

datatype FixState = FS_NoSignal | FS_Acquiring | FS_Fix

record GpsStatus =
  gs_has_fix :: bool
  gs_fix_state :: FixState
  gs_lat_e7 :: u32
  gs_lon_e7 :: u32
  gs_fix_age_secs :: u32
  gs_sat_count :: u8
  gs_clock_synced :: bool
  gs_clock_sync_verified :: bool
  gs_clock_sync_age_secs :: u32
  gs_clock_unix_secs :: "u32 option"

definition GpsStatus_never :: GpsStatus where
  "GpsStatus_never = \<lparr>gs_has_fix = False, gs_fix_state = FS_NoSignal, gs_lat_e7 = 0, gs_lon_e7 = 0, gs_fix_age_secs = 0,
     gs_sat_count = 0, gs_clock_synced = False, gs_clock_sync_verified = False, gs_clock_sync_age_secs = 0,
     gs_clock_unix_secs = None\<rparr>"

definition should_close_active_window :: "bool \<Rightarrow> u64 \<Rightarrow> bool" where
  "should_close_active_window has_fix elapsed_ms \<longleftrightarrow> has_fix \<and> elapsed_ms \<ge> GPS_ACTIVE_WINDOW_MS"

definition should_reopen_active_window :: "u64 \<Rightarrow> bool" where
  "should_reopen_active_window elapsed_ms \<longleftrightarrow> elapsed_ms \<ge> GPS_QUIET_INTERVAL_MS"

datatype PmLockAction = PM_Acquire | PM_Release | PM_None

definition active_window_pm_lock_action :: "bool \<Rightarrow> bool \<Rightarrow> PmLockAction" where
  "active_window_pm_lock_action was_active is_active =
     (if \<not> was_active \<and> is_active then PM_Acquire else if was_active \<and> \<not> is_active then PM_Release else PM_None)"

section \<open>The calendar\<close>

record NmeaDateTime =
  dt_year :: u16
  dt_month :: u8
  dt_day :: u8
  dt_hour :: u8
  dt_minute :: u8
  dt_second :: u8
  dt_verified :: bool

text \<open>Rust's \<open>/\<close> on integers rounds towards zero, as \<open>sdiv\<close> does.  The results of \<open>i64\<close> arithmetic wrap, as in the release
  build; a sum or product of several terms is wrapped once, which gives the same residue.\<close>

definition i64 :: "int \<Rightarrow> int" where
  "i64 x = (x + 2 ^ 63) mod 2 ^ 64 - 2 ^ 63"

definition unix_timestamp :: "int \<Rightarrow> nat \<Rightarrow> nat \<Rightarrow> nat \<Rightarrow> nat \<Rightarrow> nat \<Rightarrow> int" where
  "unix_timestamp year month day hour minute second =
     (let y = (if month \<le> 2 then i64 (year - 1) else year);
          era = (if y \<ge> 0 then y else i64 (y - 399)) sdiv 400;
          yoe = i64 (y - era * 400);
          mp = (int month + 9) mod 12;
          doy = (153 * mp + 2) div 5 + int day - 1;
          doe = i64 (yoe * 365 + yoe sdiv 4 - yoe sdiv 100 + doy);
          days = i64 (era * 146097 + doe - 719468)
      in i64 (days * 86400 + int hour * 3600 + int minute * 60 + int second))"

text \<open>The cast to \<open>u64\<close> takes the residue.\<close>

definition civil_from_unix :: "int \<Rightarrow> int \<times> nat \<times> nat \<times> nat \<times> nat \<times> nat" where
  "civil_from_unix unix_secs =
     (let days = unix_secs div 86400;
          secs_of_day = unix_secs mod 86400;
          hour = nat (secs_of_day div 3600);
          minute = nat ((secs_of_day mod 3600) div 60);
          second = nat (secs_of_day mod 60);
          z = i64 (days + 719468);
          era = (if z \<ge> 0 then z else i64 (z - 146096)) sdiv 146097;
          doe = i64 (z - era * 146097) mod 2 ^ 64;
          yoe = (doe - doe div 1460 + doe div 36524 - doe div 146096) div 365;
          y = i64 (yoe + era * 400);
          doy = doe - (365 * yoe + yoe div 4 - yoe div 100);
          mp = (5 * doy + 2) div 153;
          d = nat (doy - (153 * mp + 2) div 5 + 1);
          m = nat (if mp < 10 then mp + 3 else mp - 9);
          y = (if m \<le> 2 then i64 (y + 1) else y)
      in (y, m, d, hour, minute, second))"

text \<open>The cast of a non-negative \<open>i64\<close> to \<open>u32\<close> drops the high bits.\<close>

definition synced_wall_clock_secs :: "u64 \<Rightarrow> (u64 \<times> int) option \<Rightarrow> u32 option" where
  "synced_wall_clock_secs now_ms sync_anchor =
     (case sync_anchor of
        None \<Rightarrow> None
      | Some (sync_uptime_ms, sync_unix_secs) \<Rightarrow>
          let elapsed_secs = (unat now_ms - unat sync_uptime_ms) div 1000 in
          Some (word_of_int (max (i64 (sync_unix_secs + int elapsed_secs)) 0)))"

section \<open>Sentences\<close>

text \<open>A number of decimal digits, \<open>checked_mul\<close> and \<open>checked_add\<close> refusing what exceeds 32 bits.\<close>

fun digits_loop :: "bytes \<Rightarrow> u32 \<Rightarrow> u32 option" where
  "digits_loop [] acc = Some acc"
| "digits_loop (b # bs) acc =
     (if \<not> (0x30 \<le> b \<and> b \<le> 0x39) then None
      else if unat acc * 10 \<ge> 2 ^ 32 then None
      else if unat acc * 10 + unat (b - 0x30) \<ge> 2 ^ 32 then None
      else digits_loop bs (acc * 10 + ucast (b - 0x30)))"

definition parse_u32_bytes :: "bytes \<Rightarrow> u32 option" where
  "parse_u32_bytes s = (if s = [] then None else digits_loop s 0)"

text \<open>The comma-separated fields: at index \<open>i\<close> with \<open>k\<close> bytes left, the start and the index of the running
  field and the fields so far; the loop stops behind the field \<open>last_idx\<close>.\<close>

fun nmea_fields :: "bytes \<Rightarrow> nat \<Rightarrow> nat \<Rightarrow> nat \<Rightarrow> nat \<Rightarrow> nat \<Rightarrow> (nat \<Rightarrow> bytes) \<Rightarrow> nat \<Rightarrow> bytes" where
  "nmea_fields line last_idx 0 i field_start field_idx fs = fs"
| "nmea_fields line last_idx (Suc k) i field_start field_idx fs =
     (if line ! i = 0x2C \<or> line ! i = 0x2A then
        let fs = fs(field_idx := take (i - field_start) (drop field_start line)) in
        if field_idx + 1 > last_idx then fs
        else nmea_fields line last_idx k (Suc i) (i + 1) (field_idx + 1) fs
      else nmea_fields line last_idx k (Suc i) field_start field_idx fs)"

definition starts_with :: "bytes \<Rightarrow> bytes \<Rightarrow> bool" where
  "starts_with line p \<longleftrightarrow> take (length p) line = p"

definition MIN_PLAUSIBLE_RMC_YEAR :: u16 where
  "MIN_PLAUSIBLE_RMC_YEAR = 2024"

definition parse_rmc_datetime :: "bytes \<Rightarrow> NmeaDateTime option" where
  "parse_rmc_datetime line =
     (if \<not> starts_with line (text_bytes ''$GPRMC,'') \<and> \<not> starts_with line (text_bytes ''$GNRMC,'') then None
      else do {
        let fs = nmea_fields line 9 (length line) 0 0 0 (\<lambda>_. []);
        let time_str = fs 1;
        let status = fs 2;
        let date_str = fs 9;
        verified \<leftarrow> (case get_opt status 0 of
            Some b \<Rightarrow> if b = 0x41 then Some True else if b = 0x56 then Some False else None
          | None \<Rightarrow> None);
        if length time_str < 6 then None
        else do {
          hour \<leftarrow> map_option ucast (parse_u32_bytes (take 2 time_str));
          minute \<leftarrow> map_option ucast (parse_u32_bytes (take 2 (drop 2 time_str)));
          second \<leftarrow> map_option ucast (parse_u32_bytes (take 2 (drop 4 time_str)));
          if length date_str \<noteq> 6 then None
          else do {
            day \<leftarrow> map_option ucast (parse_u32_bytes (take 2 date_str));
            month \<leftarrow> map_option ucast (parse_u32_bytes (take 2 (drop 2 date_str)));
            yy \<leftarrow> parse_u32_bytes (take 2 (drop 4 date_str));
            let year = 2000 + (ucast yy :: u16);
            if (hour :: u8) > 23 \<or> (minute :: u8) > 59 \<or> (second :: u8) > 60 \<or> (day :: u8) = 0 \<or> day > 31
               \<or> (month :: u8) = 0 \<or> month > 12 then None
            else if year < MIN_PLAUSIBLE_RMC_YEAR then None
            else Some \<lparr>dt_year = year, dt_month = month, dt_day = day, dt_hour = hour, dt_minute = minute,
                dt_second = second, dt_verified = verified\<rparr>
          }
        }
      })"

definition should_accept_clock_sync :: "bool \<Rightarrow> bool \<Rightarrow> bool" where
  "should_accept_clock_sync new_sync_verified already_synced \<longleftrightarrow> new_sync_verified \<or> \<not> already_synced"

definition nmea_coord_to_e7 :: "bytes \<Rightarrow> bytes \<Rightarrow> u32 option" where
  "nmea_coord_to_e7 coord dir =
     (if coord = [] then None
      else case position (\<lambda>b. b = 0x2E) coord of
        None \<Rightarrow> None
      | Some dot \<Rightarrow>
          if dot < 2 then None
          else do {
            int_val \<leftarrow> map_option uint (parse_u32_bytes (take dot coord));
            let deg = int_val div 100;
            let min_int = int_val mod 100;
            let frac_bytes = drop (dot + 1) coord;
            let frac_len = min (length frac_bytes) 5;
            frac_raw \<leftarrow> map_option uint (parse_u32_bytes (take frac_len frac_bytes));
            let scale = (if frac_len = 1 then 10000 else if frac_len = 2 then 1000 else if frac_len = 3 then 100
                         else if frac_len = 4 then 10 else 1);
            let min_frac_e5 = frac_raw * scale;
            let minutes_e5 = min_int * 100000 + min_frac_e5;
            let frac_e7 = (minutes_e5 * 100 + 30) div 60;
            let val_e7 = (word_of_int (deg * 10000000 + frac_e7) :: u32);
            let negative = (get_opt dir 0 = Some 0x53 \<or> get_opt dir 0 = Some 0x57);
            Some (if negative then - val_e7 else val_e7)
          })"

record GgaFields =
  gg_coords :: "(u32 \<times> u32) option"
  gg_sat_count :: u8

definition parse_gga :: "bytes \<Rightarrow> GgaFields option" where
  "parse_gga line =
     (if \<not> starts_with line (text_bytes ''$GPGGA,'') \<and> \<not> starts_with line (text_bytes ''$GNGGA,'') then None
      else do {
        let fs = nmea_fields line 7 (length line) 0 0 0 (\<lambda>_. []);
        let sat_count = (ucast (min (case parse_u32_bytes (fs 7) of Some n \<Rightarrow> n | None \<Rightarrow> 0) 255) :: u8);
        let q = (case get_opt (fs 6) 0 of Some b \<Rightarrow> b | None \<Rightarrow> 0x30);
        if q = 0x30 \<or> fs 6 = [] then Some \<lparr>gg_coords = None, gg_sat_count = sat_count\<rparr>
        else do {
          lat_e7 \<leftarrow> nmea_coord_to_e7 (fs 2) (fs 3);
          lon_e7 \<leftarrow> nmea_coord_to_e7 (fs 4) (fs 5);
          Some \<lparr>gg_coords = Some (lat_e7, lon_e7), gg_sat_count = sat_count\<rparr>
        }
      })"

text \<open>The diagnostic dump: the last sixteen bytes as hexadecimal digits in a buffer of 32.\<close>

definition hex_digit_lower :: "u8 \<Rightarrow> u8" where
  "hex_digit_lower v = (if v < 10 then 0x30 + v else 0x61 + v - 10)"

fun hex_dump_loop :: "bytes \<Rightarrow> nat \<Rightarrow> bytes \<Rightarrow> bytes rust" where
  "hex_dump_loop [] i out = Some out"
| "hex_dump_loop (b # bs) i out = do {
     out \<leftarrow> set_at out (i * 2) (hex_digit_lower (drop_bit 4 b));
     out \<leftarrow> set_at out (i * 2 + 1) (hex_digit_lower (b AND 0x0F));
     hex_dump_loop bs (Suc i) out
   }"

definition hex_dump_tail :: "bytes \<Rightarrow> (bytes \<times> nat) rust" where
  "hex_dump_tail bs = do {
     let tail_bytes = drop (length bs - 16) bs;
     out \<leftarrow> hex_dump_loop tail_bytes 0 (replicate 32 0x30);
     Some (out, length tail_bytes * 2)
   }"

section \<open>Framing\<close>

definition printable :: "u8 \<Rightarrow> bool" where
  "printable b \<longleftrightarrow> 0x20 \<le> b \<and> b \<le> 0x7E \<and> b \<noteq> 0x2A"

lemma star_scan_Some_iff:
  "star_scan bs left off = Some s \<longleftrightarrow>
     off \<le> s \<and> s < off + left \<and> s - off < length bs \<and> list_all printable (take (s - off) bs) \<and> bs ! (s - off) = 0x2A"
proof (induction bs left off rule: star_scan.induct)
  case (3 b bs left off)
  have special: "\<not> printable 0x0D" "\<not> printable 0x0A" "\<not> printable 0x2A"
    by (simp_all add: printable_def)
  consider "b = 0x2A" | "b \<noteq> 0x2A" "\<not> printable b" | "printable b"
    by blast
  then show ?case
  proof cases
    case 1
    then show ?thesis
      by (cases "s = off") (auto simp: take_Cons' special)
  next
    case 2
    then have "\<not> (0x20 \<le> b \<and> b \<le> 0x7E)"
      by (simp add: printable_def)
    then show ?thesis
      using 2 by (cases "s = off") (auto simp: take_Cons')
  next
    case 3
    then have "b \<noteq> 0x0D" "b \<noteq> 0x0A" "b \<noteq> 0x2A" "0x20 \<le> b" "b \<le> 0x7E"
      using special by (auto simp: printable_def)
    then show ?thesis
      using "3.IH" 3 by (cases "s = off") (auto simp: take_Cons' nth_Cons' Suc_le_eq)
  qed
qed auto

text \<open>A framed sentence: five to 81 printable bytes between a dollar sign and a star, and the two digits.\<close>

definition sentence :: "bytes \<Rightarrow> u8 \<Rightarrow> u8 \<Rightarrow> bytes" where
  "sentence body hi lo = [0x24] @ body @ [0x2A, hi, lo]"

text \<open>The checksum of NMEA 0183, stated apart from the code: the exclusive or of the bytes between the dollar and the
  star, written as two hexadecimal digits of either case.\<close>

primrec xor_all :: "bytes \<Rightarrow> u8" where
  "xor_all [] = 0"
| "xor_all (b # bs) = b XOR xor_all bs"

definition hex_char :: "u8 \<Rightarrow> nat option" where
  "hex_char b = (let n = unat b in
     if n \<in> {48..57} then Some (n - 48) else if n \<in> {65..70} then Some (n - 55)
     else if n \<in> {97..102} then Some (n - 87) else None)"

definition sentence_ok :: "bytes \<Rightarrow> u8 \<Rightarrow> u8 \<Rightarrow> bool" where
  "sentence_ok body hi lo \<longleftrightarrow> 5 \<le> length body \<and> length body \<le> 81
     \<and> (\<forall>b \<in> set body. 0x20 \<le> unat b \<and> unat b \<le> 0x7E \<and> unat b \<noteq> 0x2A)
     \<and> (\<exists>h l. hex_char hi = Some h \<and> hex_char lo = Some l \<and> xor_all body = of_nat (16 * h + l))"

text \<open>The same in the code's terms.\<close>

definition sentence_code :: "bytes \<Rightarrow> u8 \<Rightarrow> u8 \<Rightarrow> bool" where
  "sentence_code body hi lo \<longleftrightarrow> 5 \<le> length body \<and> length body \<le> 81 \<and> list_all printable body
     \<and> (\<exists>h l. hex_digit_value hi = Some h \<and> hex_digit_value lo = Some l \<and> nmea_checksum body = push_bit 4 h OR l)"

lemma hex_digit_char: "hex_digit_value b = map_option of_nat (hex_char b)" "hex_char b = Some v \<Longrightarrow> v < 16"
proof -
  have sub: "(of_nat (unat b - k) :: u8) = b - of_nat k" if "k \<le> unat b" for k
    using that by (simp add: of_nat_diff)
  show "hex_digit_value b = map_option of_nat (hex_char b)"
    by (auto simp: hex_digit_value_def hex_char_def Let_def word_le_nat_alt sub)
  show "hex_char b = Some v \<Longrightarrow> v < 16"
    by (auto simp: hex_char_def Let_def split: if_splits)
qed

lemma hex_pair:
  assumes "h < 16" "l < 16"
  shows "push_bit 4 (of_nat h) OR of_nat l = (of_nat (16 * h + l) :: u8)"
proof -
  have "list_all (\<lambda>h. list_all (\<lambda>l. push_bit 4 (of_nat h) OR of_nat l = (of_nat (16 * h + l) :: u8)) [0..<16]) [0..<16]"
    by code_simp
  then show ?thesis
    using assms by (simp add: list_all_iff)
qed

lemma nmea_checksum_xor: "nmea_checksum body = xor_all body"
proof -
  have "fold (\<lambda>b acc. acc XOR b) body a = a XOR xor_all body" for a
    by (induction body arbitrary: a) (simp_all add: xor.assoc)
  then show ?thesis
    by (simp add: nmea_checksum_def)
qed

lemma sentence_code_ok: "sentence_code body hi lo \<longleftrightarrow> sentence_ok body hi lo"
proof -
  have p: "list_all printable body \<longleftrightarrow> (\<forall>b \<in> set body. 0x20 \<le> unat b \<and> unat b \<le> 0x7E \<and> unat b \<noteq> 0x2A)"
  proof -
    have "printable b \<longleftrightarrow> 0x20 \<le> unat b \<and> unat b \<le> 0x7E \<and> unat b \<noteq> 0x2A" for b
      by (simp add: printable_def word_le_nat_alt word_unat_eq_iff)
    then show ?thesis
      by (simp add: list_all_iff)
  qed
  have d: "(\<exists>h l. hex_digit_value hi = Some h \<and> hex_digit_value lo = Some l \<and> x = push_bit 4 h OR l)
      \<longleftrightarrow> (\<exists>h l. hex_char hi = Some h \<and> hex_char lo = Some l \<and> x = of_nat (16 * h + l))" for x
    by (cases "hex_char hi"; cases "hex_char lo") (simp_all add: hex_digit_char hex_pair)
  show ?thesis
    unfolding sentence_code_def sentence_ok_def p nmea_checksum_xor d ..
qed

lemma span_valid_iff:
  "span_valid rest \<longleftrightarrow> (\<exists>body hi lo post. rest = body @ [0x2A, hi, lo] @ post \<and> sentence_code body hi lo)"
proof
  assume "span_valid rest"
  then obtain s hi lo h l where s: "star_scan rest 82 0 = Some s" "5 \<le> length (take s rest)"
    and g: "get_opt rest (s + 1) = Some hi" "get_opt rest (s + 2) = Some lo"
    and hl: "hex_digit_value hi = Some h" "hex_digit_value lo = Some l" "nmea_checksum (take s rest) = push_bit 4 h OR l"
    unfolding span_valid_def Let_def by (auto split: option.splits)
  have len: "s + 2 < length rest" and hilo: "hi = rest ! (s + 1)" "lo = rest ! (s + 2)"
    using g by (auto simp: get_opt_def split: if_splits)
  have "rest = take s rest @ rest ! s # rest ! (s + 1) # rest ! (s + 2) # drop (s + 3) rest"
    using len by (simp add: id_take_nth_drop [of s] Cons_nth_drop_Suc numeral_3_eq_3 flip: )
  then have "rest = take s rest @ [0x2A, hi, lo] @ drop (s + 3) rest"
    using s(1) hilo by (simp add: star_scan_Some_iff)
  then show "\<exists>body hi lo post. rest = body @ [0x2A, hi, lo] @ post \<and> sentence_code body hi lo"
    using s hl by (intro exI [of _ "take s rest"] exI [of _ hi] exI [of _ lo] exI [of _ "drop (s + 3) rest"])
      (auto simp: sentence_code_def star_scan_Some_iff)
next
  assume "\<exists>body hi lo post. rest = body @ [0x2A, hi, lo] @ post \<and> sentence_code body hi lo"
  then obtain body hi lo post where rest: "rest = body @ [0x2A, hi, lo] @ post" and ok: "sentence_code body hi lo"
    by blast
  then have "star_scan rest 82 0 = Some (length body)"
    by (simp add: star_scan_Some_iff sentence_code_def)
  then show "span_valid rest"
    using rest ok by (auto simp: span_valid_def sentence_code_def get_opt_def nth_append)
qed

lemma contains_iff_span: "contains_checksum_valid_nmea bs \<longleftrightarrow> (\<exists>pre rest. bs = pre @ 0x24 # rest \<and> span_valid rest)"
proof (induction bs)
  case (Cons b bs)
  show ?case
  proof (cases "b = 0x24 \<and> span_valid bs")
    case True
    then show ?thesis
      by (auto intro: exI [of _ "[]"])
  next
    case False
    then have "(\<exists>pre rest. b # bs = pre @ 0x24 # rest \<and> span_valid rest) \<longleftrightarrow> (\<exists>pre rest. bs = pre @ 0x24 # rest \<and> span_valid rest)"
      by (auto simp: Cons_eq_append_conv)
    then show ?thesis
      using False Cons.IH by auto
  qed
qed simp

text \<open>C26: The baud probe accepts exactly the windows that contain a framed sentence with a right checksum, wherever
  it stands and whatever surrounds it: a dollar sign, 5 to 81 printable bytes, a star and two hexadecimal digits that
  name the exclusive or of the bytes between dollar and star.\<close>

theorem baud_probe_iff_sentence:
  "contains_checksum_valid_nmea bs \<longleftrightarrow>
     (\<exists>pre body hi lo post. bs = pre @ sentence body hi lo @ post \<and> sentence_ok body hi lo)"
  unfolding contains_iff_span span_valid_iff sentence_def sentence_code_ok by simp blast

lemma init_commands_valid: "list_all contains_checksum_valid_nmea (L76K_INIT_COMMANDS @ UBLOX_INIT_COMMANDS)"
  by code_simp

section \<open>The calendar against the Gregorian rules\<close>

definition leap :: "int \<Rightarrow> bool" where
  "leap y \<longleftrightarrow> 4 dvd y \<and> (\<not> 100 dvd y \<or> 400 dvd y)"

definition days_in_month :: "int \<Rightarrow> nat \<Rightarrow> nat" where
  "days_in_month y m = (if m = 2 then (if leap y then 29 else 28) else if m \<in> {4, 6, 9, 11} then 30 else 31)"

definition valid_date :: "int \<Rightarrow> nat \<Rightarrow> nat \<Rightarrow> bool" where
  "valid_date y m d \<longleftrightarrow> 1 \<le> m \<and> m \<le> 12 \<and> 1 \<le> d \<and> d \<le> days_in_month y m"

definition next_date :: "int \<Rightarrow> nat \<Rightarrow> nat \<Rightarrow> int \<times> nat \<times> nat" where
  "next_date y m d =
     (if d < days_in_month y m then (y, m, d + 1) else if m < 12 then (y, m + 1, 1) else (y + 1, 1, 1))"

text \<open>Rounding a negative number down through the division that rounds towards zero.\<close>

lemma sdiv_floor:
  assumes "0 < n"
  shows "(if y \<ge> 0 then y else y - (n - 1)) sdiv n = y div (n :: int)"
proof (cases "y \<ge> 0")
  case False
  have "((n - 1) - y) div n = - (y div n)"
  proof (rule int_div_pos_eq)
    show "(n - 1) - y = n * - (y div n) + ((n - 1) - y mod n)"
      using mult_div_mod_eq [of n y] by (simp add: algebra_simps)
    show "0 \<le> (n - 1) - y mod n" "(n - 1) - y mod n < n"
      using assms pos_mod_bound [of n y] pos_mod_sign [of n y] by linarith+
  qed
  then show ?thesis
    using False assms by (simp add: signed_divide_int_def)
qed (use assms in \<open>simp add: signed_divide_int_def sgn_if\<close>)

lemma era_floor:
  "(if y \<ge> 0 then y else y - 399) sdiv 400 = y div (400 :: int)"
  "(if y \<ge> 0 then y else y - 146096) sdiv 146097 = y div (146097 :: int)"
  using sdiv_floor [of 400 y] sdiv_floor [of 146097 y] by (cases "0 \<le> y"; simp)+

text \<open>A year that starts in March, the day in it, and the days since the epoch.\<close>

definition march_year :: "int \<Rightarrow> nat \<Rightarrow> int" where
  "march_year year month = (if month \<le> 2 then year - 1 else year)"

definition march_day :: "nat \<Rightarrow> nat \<Rightarrow> int" where
  "march_day month day = (153 * ((int month + 9) mod 12) + 2) div 5 + int day - 1"

definition day_number :: "int \<Rightarrow> nat \<Rightarrow> nat \<Rightarrow> int" where
  "day_number year month day =
     (let y = march_year year month in 365 * y + y div 4 - y div 100 + y div 400 + march_day month day - 719468)"

lemma year_of_era:
  "(y div 400) * 146097 + ((y mod 400) * 365 + (y mod 400) div 4 - (y mod 400) div 100) = 365 * y + y div 4 - y div 100 + y div (400 :: int)"
proof -
  define q r where "q = y div 400" and "r = y mod 400"
  have y: "y = r + 400 * q"
    unfolding q_def r_def by (rule mod_mult_div_eq [symmetric])
  have part: "y div n = m * q + r div n" if "n * m = 400" "n \<noteq> 0" for n m
  proof -
    have "y = r + n * (m * q)"
      using y that(1) by (metis mult.assoc)
    then have "y div n = (r + n * (m * q)) div n"
      by (rule arg_cong)
    also have "\<dots> = m * q + r div n"
      by (rule div_mult_self2 [OF that(2)])
    finally show ?thesis .
  qed
  have "y div 4 = 100 * q + r div 4" "y div 100 = 4 * q + r div 100"
    by (rule part, simp_all)+
  then show ?thesis
    unfolding q_def [symmetric] r_def [symmetric] using y by linarith
qed

lemma i64_id: "\<bar>x\<bar> \<le> 9000000000000000000 \<Longrightarrow> i64 x = x"
  by (simp add: i64_def mod_pos_pos_trivial)

lemma sdiv_nonneg: "0 \<le> x \<Longrightarrow> 0 < n \<Longrightarrow> x sdiv n = x div (n :: int)"
  using sdiv_floor [of n x] by simp

text \<open>The years for which no step of the arithmetic wraps: 200 billion on either side.\<close>

definition year_ok :: "int \<Rightarrow> bool" where
  "year_ok y \<longleftrightarrow> \<bar>y\<bar> \<le> 200000000001"

lemma div_bounds: "0 < n \<Longrightarrow> n * (y div n) \<le> (y :: int)" "0 < n \<Longrightarrow> y < n * (y div n) + n"
  using pos_mod_sign [of n y] pos_mod_bound [of n y] mult_div_mod_eq [of n y] by linarith+

lemma march_year_ok: "year_ok y \<Longrightarrow> \<bar>march_year y m\<bar> \<le> 200000000002"
  by (auto simp: year_ok_def march_year_def)

lemma march_day_bounds: "1 \<le> d \<Longrightarrow> d \<le> 31 \<Longrightarrow> 0 \<le> march_day m d \<and> march_day m d \<le> 367"
proof -
  assume d: "1 \<le> d" "d \<le> 31"
  define p where "p = (int m + 9) mod 12"
  have "0 \<le> p" "p \<le> 11"
    unfolding p_def using pos_mod_sign [of 12 "int m + 9"] pos_mod_bound [of 12 "int m + 9"] by linarith+
  then have "0 \<le> (153 * p + 2) div 5" "(153 * p + 2) div 5 \<le> 337"
    using div_bounds [of 5 "153 * p + 2"] by linarith+
  then show ?thesis
    using d unfolding march_day_def p_def [symmetric] by linarith
qed

lemma day_number_bounds:
  assumes "year_ok y" "1 \<le> d" "d \<le> 31"
  shows "\<bar>day_number y m d\<bar> \<le> 74000000000000"
proof -
  define Y n where "Y = march_year y m" and "n = march_day m d"
  define a b c where "a = Y div 4" and "b = Y div 100" and "c = Y div 400"
  have Y: "- 200000000002 \<le> Y" "Y \<le> 200000000002"
    using march_year_ok [OF assms(1), of m] unfolding Y_def by (simp_all add: abs_le_iff)
  have n: "0 \<le> n" "n \<le> 367"
    using march_day_bounds [OF assms(2,3), of m] by (simp_all add: n_def)
  have abc: "4 * a \<le> Y" "Y < 4 * a + 4" "100 * b \<le> Y" "Y < 100 * b + 100" "400 * c \<le> Y" "Y < 400 * c + 400"
    unfolding a_def b_def c_def by (rule div_bounds; simp)+
  have "day_number y m d = 365 * Y + a - b + c + n - 719468"
    by (simp add: day_number_def Let_def Y_def n_def a_def b_def c_def)
  moreover have "365 * Y + a - b + c + n - 719468 \<le> 74000000000000"
    using Y(2) n(2) abc(1,4,5) Y(1) by linarith
  moreover have "- 74000000000000 \<le> 365 * Y + a - b + c + n - 719468"
    using Y n abc by linarith
  ultimately show ?thesis
    by (simp add: abs_le_iff)
qed

lemma unix_timestamp_days:
  assumes "year_ok year" "1 \<le> day" "day \<le> 31" "hour \<le> 23" "minute \<le> 59" "second \<le> 59"
  shows "unix_timestamp year month day hour minute second =
     day_number year month day * 86400 + int hour * 3600 + int minute * 60 + int second"
proof -
  define y where "y = march_year year month"
  define t where "t = 365 * y + y div 4 - y div 100 + y div 400"
  define r where "r = y mod 400"
  define p where "p = r * 365 + r div 4 - r div 100"
  define m5 where "m5 = (153 * ((int month + 9) mod 12) + 2) div 5"
  have y: "\<bar>y\<bar> \<le> 200000000002"
    unfolding y_def by (rule march_year_ok [OF assms(1)])
  have n: "0 \<le> m5 + int day - 1" "m5 + int day - 1 \<le> 367"
    using march_day_bounds [OF assms(2,3), of month] by (simp_all add: march_day_def m5_def)
  have r: "0 \<le> r" "r \<le> 399"
    unfolding r_def using pos_mod_sign [of 400 y] pos_mod_bound [of 400 y] by linarith+
  have r': "r sdiv 4 = r div 4" "r sdiv 100 = r div 100"
    by (rule sdiv_nonneg; use r in simp)+
  have p: "0 \<le> p" "p \<le> 146000"
    using r div_bounds [of 4 r] div_bounds [of 100 r] unfolding p_def by linarith+
  have e: "\<bar>y div 400\<bar> \<le> 500000001"
    using y div_bounds [of 400 y] by linarith
  have "i64 (year - 1) = year - 1"
    using assms(1) unfolding year_ok_def by (intro i64_id) linarith
  then have fold_y: "(if month \<le> 2 then i64 (year - 1) else year) = y"
    by (simp add: y_def march_year_def)
  have era: "(if y \<ge> 0 then y else i64 (y - 399)) sdiv 400 = y div 400"
  proof -
    have "i64 (y - 399) = y - 399"
      using y by (intro i64_id) linarith
    then show ?thesis
      by (simp only: era_floor(1))
  qed
  have yoe: "i64 (y - y div 400 * 400) = r"
    using r unfolding r_def minus_div_mult_eq_mod by (intro i64_id) simp
  have doe: "i64 (r * 365 + r sdiv 4 - r sdiv 100 + (m5 + int day - 1)) = p + (m5 + int day - 1)"
    unfolding r' p_def [symmetric] using p n by (intro i64_id) linarith
  have dn: "day_number year month day = t + (m5 + int day - 1) - 719468"
    unfolding day_number_def Let_def y_def [symmetric] t_def march_day_def m5_def ..
  have "y div 400 * 146097 + p = t"
    unfolding p_def t_def r_def by (rule year_of_era)
  then have same: "y div 400 * 146097 + (p + (m5 + int day - 1)) - 719468 = day_number year month day"
    unfolding dn by simp
  have days: "i64 (day_number year month day) = day_number year month day"
    using day_number_bounds [OF assms(1-3), of month] by (intro i64_id) linarith
  have "unix_timestamp year month day hour minute second =
      i64 (day_number year month day * 86400 + int hour * 3600 + int minute * 60 + int second)"
    unfolding unix_timestamp_def Let_def fold_y era yoe m5_def [symmetric] doe same days ..
  also have "\<dots> = day_number year month day * 86400 + int hour * 3600 + int minute * 60 + int second"
    using day_number_bounds [OF assms(1-3), of month] assms(4-6) by (intro i64_id) linarith
  finally show ?thesis .
qed

text \<open>The year of the era from the day of the era.\<close>

lemma year_from_day:
  fixes yoe doy :: int
  assumes "0 \<le> yoe" "yoe \<le> 399" "0 \<le> doy" "doy \<le> 364 \<or> (doy = 365 \<and> yoe mod 4 = 3 \<and> (yoe mod 100 = 99 \<longrightarrow> yoe = 399))"
    and doe: "doe = yoe * 365 + yoe div 4 - yoe div 100 + doy"
  shows "(doe - doe div 1460 + doe div 36524 - doe div 146096) div 365 = yoe" "0 \<le> doe" "doe < 146097"
proof -
  define c where "c = yoe div 100"
  define u where "u = yoe mod 100"
  define k where "k = u div 4"
  define j where "j = u mod 4"
  have yu: "yoe = 100 * c + u" "0 \<le> u" "u < 100"
    unfolding c_def u_def by simp_all
  have uk: "u = 4 * k + j" "0 \<le> j" "j < 4"
    unfolding k_def j_def by simp_all
  have c: "0 \<le> c" "c \<le> 3" and k: "0 \<le> k" "k \<le> 24" and j: "0 \<le> j" "j \<le> 3"
    using assms(1,2) yu uk by linarith+
  have yoe: "yoe = 100 * c + 4 * k + j"
    using yu uk by simp
  have y4: "yoe div 4 = 25 * c + k" "yoe mod 4 = j"
    using int_div_pos_eq [of yoe 4 "25 * c + k" j] int_mod_pos_eq [of yoe 4 "25 * c + k" j] yoe j by simp_all
  have d: "doe = 36524 * c + 1461 * k + 365 * j + doy"
    using doe yoe y4(1) c_def by linarith
  have doy: "doy \<le> 365"
    using assms(4) by auto
  have last: "doy = 365 \<Longrightarrow> j = 3" "doy = 365 \<Longrightarrow> k = 24 \<Longrightarrow> c = 3"
    using assms(4) y4(2) yu uk unfolding u_def [symmetric] by auto
  show "0 \<le> doe"
    using d c k j assms(3) by linarith
  show "doe < 146097"
  proof (cases "doy = 365")
    case True
    then show ?thesis
      using last d c k j by (cases "k = 24") linarith+
  qed (use d c k j doy in linarith)
  define a where "a = doe div 1460"
  define b where "b = doe div 36524"
  define e where "e = doe div 146096"
  have a: "1460 * a \<le> doe" "doe < 1460 * a + 1460"
    unfolding a_def using pos_mod_bound [of 1460 doe] pos_mod_sign [of 1460 doe] mult_div_mod_eq [of 1460 doe] by linarith+
  have b: "36524 * b \<le> doe" "doe < 36524 * b + 36524"
    unfolding b_def using pos_mod_bound [of 36524 doe] pos_mod_sign [of 36524 doe] mult_div_mod_eq [of 36524 doe] by linarith+
  have e: "146096 * e \<le> doe" "doe < 146096 * e + 146096"
    unfolding e_def using pos_mod_bound [of 146096 doe] pos_mod_sign [of 146096 doe] mult_div_mod_eq [of 146096 doe] by linarith+
  have e01: "e = 0 \<or> e = 1"
    using e \<open>0 \<le> doe\<close> \<open>doe < 146097\<close> by linarith
  have bc: "b = c \<or> (b = c + 1 \<and> k = 24 \<and> j = 3 \<and> doy = 365)"
    using b d k j assms(3) doy by linarith
  have "365 * yoe \<le> doe - a + b - e"
  proof -
    have "c \<le> b"
      using bc by auto
    then show ?thesis
      using e01 a(1) e(1) d yoe c k j assms(3) by (elim disjE; linarith)
  qed
  moreover have "doe - a + b - e < 365 * yoe + 365"
  proof (cases "doy = 365")
    case True
    note full = this last(1) [OF this]
    from bc show ?thesis
    proof
      assume "b = c"
      then show ?thesis
        using full a(2) e01 d yoe c k by linarith
    next
      assume b24: "b = c + 1 \<and> k = 24 \<and> j = 3 \<and> doy = 365"
      then have "c = 3"
        using last(2) by blast
      with b24 d yoe have "doe = 146096" "yoe = 399" "b = 4"
        by simp_all
      then show ?thesis
        by (simp add: a_def e_def)
    qed
  next
    case False
    then have "b = c" "doy \<le> 364"
      using bc doy by auto
    then show ?thesis
      using a(2) e01 d yoe c k j by linarith
  qed
  ultimately have "365 * yoe \<le> doe - a + b - e \<and> doe - a + b - e < 365 * yoe + 365"
    by simp
  then show "(doe - doe div 1460 + doe div 36524 - doe div 146096) div 365 = yoe"
    by (intro int_div_pos_eq [where r = "doe - a + b - e - 365 * yoe"]) (simp_all add: a_def b_def e_def)
qed

text \<open>The place of a day in the year that starts in March: its month and day are recovered from
  it, and only 29 February is day 365.\<close>

lemma march_day_table:
  "list_all (\<lambda>m. list_all (\<lambda>d. let n = march_day m d in
      0 \<le> n \<and> (n \<le> 364 \<or> (n = 365 \<and> m = 2 \<and> d = 29) \<or> (m = 2 \<and> d > 29))
      \<and> (d \<le> (if m = 2 then 29 else if m \<in> {4, 6, 9, 11} then 30 else 31) \<longrightarrow>
           (5 * n + 2) div 153 = (int m + 9) mod 12)) [1..<32]) [1..<13]"
  by code_simp

lemma valid_date_ranges:
  assumes "valid_date y m d"
  shows "m \<in> set [1..<13]" "d \<in> set [1..<32]"
    "d \<le> (if m = 2 then 29 else if m \<in> {4, 6, 9, 11} then 30 else 31)" "m = 2 \<Longrightarrow> d = 29 \<Longrightarrow> leap y"
  using assms by (auto simp: valid_date_def days_in_month_def split: if_splits)

lemma march_day_facts:
  assumes "valid_date y m d"
  shows "0 \<le> march_day m d" "march_day m d \<le> 364 \<or> (march_day m d = 365 \<and> m = 2 \<and> leap y)"
    "(5 * march_day m d + 2) div 153 = (int m + 9) mod 12"
    "march_day m d - (153 * ((int m + 9) mod 12) + 2) div 5 + 1 = int d"
proof -
  note r = valid_date_ranges [OF assms]
  have row: "let n = march_day m d in
      0 \<le> n \<and> (n \<le> 364 \<or> (n = 365 \<and> m = 2 \<and> d = 29) \<or> (m = 2 \<and> d > 29))
      \<and> (d \<le> (if m = 2 then 29 else if m \<in> {4, 6, 9, 11} then 30 else 31) \<longrightarrow>
           (5 * n + 2) div 153 = (int m + 9) mod 12)"
    using march_day_table r(1,2) unfolding list_all_iff by blast
  show "0 \<le> march_day m d"
    using row unfolding Let_def by blast
  show "march_day m d \<le> 364 \<or> (march_day m d = 365 \<and> m = 2 \<and> leap y)"
    using row r(3,4) unfolding Let_def by (auto split: if_splits)
  show "(5 * march_day m d + 2) div 153 = (int m + 9) mod 12"
    using row r(3) unfolding Let_def by blast
  show "march_day m d - (153 * ((int m + 9) mod 12) + 2) div 5 + 1 = int d"
    unfolding march_day_def by linarith
qed

lemma dvd_next:
  assumes "0 < n" "n dvd Y + (1 :: int)"
  shows "Y mod n = n - 1"
proof -
  obtain k where "Y + 1 = n * k"
    using assms(2) by (elim dvdE)
  then have "Y = n * (k - 1) + (n - 1)"
    by (simp add: algebra_simps)
  then show ?thesis
    using assms(1) by (intro int_mod_pos_eq [where q = "k - 1"]) simp_all
qed

lemma next_dvd:
  assumes "Y mod n = n - 1"
  shows "n dvd Y + (1 :: int)"
proof -
  have "Y + 1 = n * (Y div n + 1)"
    using mult_div_mod_eq [of n Y] unfolding assms by (simp add: algebra_simps)
  then show ?thesis ..
qed

lemma leap_march:
  assumes "leap (Y + 1)"
  shows "Y mod 400 mod 4 = 3 \<and> (Y mod 400 mod 100 = 99 \<longrightarrow> Y mod 400 = 399)"
proof (intro conjI impI)
  have small: "Y mod 400 mod 4 = Y mod 4" "Y mod 400 mod 100 = Y mod 100"
    by (rule mod_mod_cancel, simp)+
  show "Y mod 400 mod 4 = 3"
    using assms dvd_next [of 4 Y] unfolding small leap_def by simp
  assume "Y mod 400 mod 100 = 99"
  then have "100 dvd Y + 1"
    by (intro next_dvd) (simp add: small)
  then show "Y mod 400 = 399"
    using assms dvd_next [of 400 Y] unfolding leap_def by simp
qed

lemma month_of_march: "1 \<le> m \<Longrightarrow> m \<le> 12 \<Longrightarrow>
    nat (if (int m + 9) mod 12 < 10 then (int m + 9) mod 12 + 3 else (int m + 9) mod 12 - 9) = m"
  by (cases "m \<le> 2") (auto simp: mod_pos_pos_trivial int_mod_pos_eq [of "int m + 9" 12 1 "int m - 3"])

lemma civil_of_days:
  assumes "valid_date y m d" and True: "0 \<le> s" "s < 86400" and ok: "year_ok y"
  shows "civil_from_unix (day_number y m d * 86400 + s) =
     (y, m, d, nat (s div 3600), nat (s mod 3600 div 60), nat (s mod 60))"
proof -
  define Y where "Y = march_year y m"
  define n where "n = march_day m d"
  define yoe where "yoe = Y mod 400"
  define doe where "doe = yoe * 365 + yoe div 4 - yoe div 100 + n"
  note md = march_day_facts [OF assms(1), folded n_def]
  have Y: "y = (if m \<le> 2 then Y + 1 else Y)"
    by (simp add: Y_def march_year_def)
  have r: "0 \<le> yoe" "yoe \<le> 399"
    unfolding yoe_def using pos_mod_sign [of 400 Y] pos_mod_bound [of 400 Y] by linarith+
  have last: "n \<le> 364 \<or> (n = 365 \<and> yoe mod 4 = 3 \<and> (yoe mod 100 = 99 \<longrightarrow> yoe = 399))"
    using md(2) leap_march [of Y] Y unfolding yoe_def by auto
  note fy = year_from_day [OF r md(1) last doe_def]
  have z: "day_number y m d + 719468 = Y div 400 * 146097 + doe"
    using year_of_era [of Y, folded yoe_def]
    by (simp add: day_number_def Y_def [symmetric] n_def [symmetric] doe_def)
  have era: "(day_number y m d + 719468) div 146097 = Y div 400"
    unfolding z using fy(2,3) by (intro int_div_pos_eq [where r = doe]) simp_all
  have days: "(day_number y m d * 86400 + s) div 86400 = day_number y m d"
    "(day_number y m d * 86400 + s) mod 86400 = s"
    by (rule int_div_pos_eq [where r = s] int_mod_pos_eq [where q = "day_number y m d"]; use True in simp)+
  have rest: "day_number y m d + 719468 - Y div 400 * 146097 = doe"
    unfolding z by simp
  have doy: "doe - (365 * yoe + yoe div 4 - yoe div 100) = n"
    unfolding doe_def by simp
  have secs: "(day_number y m d * 86400 + s) mod 60 = s mod 60"
    using mod_mod_cancel [of 60 86400 "day_number y m d * 86400 + s"] days(2) by simp
  have m: "1 \<le> m" "m \<le> 12"
    using assms(1) unfolding valid_date_def by auto
  have year: "yoe + Y div 400 * 400 = Y"
    unfolding yoe_def using mult_div_mod_eq [of 400 Y] by linarith
  have d31: "1 \<le> d" "d \<le> 31"
    using assms(1) by (auto simp: valid_date_def days_in_month_def split: if_splits)
  note dn = day_number_bounds [OF ok d31, of m]
  have Yb: "\<bar>Y\<bar> \<le> 200000000002"
    unfolding Y_def by (rule march_year_ok [OF ok])
  have z64: "i64 (day_number y m d + 719468) = day_number y m d + 719468"
    using dn by (intro i64_id) linarith
  have era64: "(if 0 \<le> day_number y m d + 719468 then day_number y m d + 719468 else i64 (day_number y m d + 719468 - 146096)) sdiv 146097
      = Y div 400"
  proof -
    have "i64 (day_number y m d + 719468 - 146096) = day_number y m d + 719468 - 146096"
      using dn by (intro i64_id) linarith
    then show ?thesis
      by (simp only: era_floor(2) era)
  qed
  have doe64: "i64 doe mod 2 ^ 64 = doe"
    using fy(2,3) by (simp add: i64_id mod_pos_pos_trivial)
  have year64: "i64 Y = Y" "i64 (Y + 1) = Y + 1"
    using Yb by (intro i64_id; linarith)+
  have "civil_from_unix (day_number y m d * 86400 + s) =
     ((if m \<le> 2 then Y + 1 else Y), m, nat (int d), nat (s div 3600), nat (s mod 3600 div 60), nat (s mod 60))"
    unfolding civil_from_unix_def Let_def days z64 era64 rest doe64 fy(1) doy md(3) md(4) month_of_march [OF m] year year64 secs
    ..
  then show ?thesis
    unfolding Y [symmetric] by simp
qed

lemma floor_next:
  assumes "0 < n"
  shows "(Y + 1) div n = Y div n + (if n dvd Y + 1 then 1 else (0 :: int))"
proof (cases "n dvd Y + 1")
  case True
  then obtain k where k: "Y + 1 = n * k"
    by (elim dvdE)
  have "Y div n = k - 1"
    by (rule int_div_pos_eq [where r = "n - 1"]; use k assms in \<open>simp add: algebra_simps\<close>)
  then show ?thesis
    using k True assms by simp
next
  case False
  have "Y mod n + 1 \<noteq> n"
    using next_dvd [of Y n] False by auto
  then have "(Y + 1) div n = Y div n"
    using pos_mod_bound [OF assms, of Y] pos_mod_sign [OF assms, of Y] mult_div_mod_eq [of n Y]
    by (intro int_div_pos_eq [where r = "Y mod n + 1"]) linarith+
  then show ?thesis
    using False by simp
qed

text \<open>A March year is 365 days long, and 366 when the February that ends it has 29 days.\<close>

lemma march_year_length:
  "365 * (Y + 1) + (Y + 1) div 4 - (Y + 1) div 100 + (Y + 1) div 400
    = 365 * Y + Y div 4 - Y div 100 + Y div 400 + (if leap (Y + 1) then 366 else (365 :: int))"
proof -
  have "400 dvd Y + 1 \<Longrightarrow> 100 dvd Y + 1" "100 dvd Y + 1 \<Longrightarrow> 4 dvd Y + 1"
    by (erule dvd_trans [rotated], simp)+
  then show ?thesis
    unfolding leap_def floor_next [of 4, simplified] floor_next [of 100, simplified] floor_next [of 400, simplified]
    by (cases "4 dvd Y + 1"; cases "100 dvd Y + 1"; cases "400 dvd Y + 1") simp_all
qed

lemma march_day_next_month:
  "list_all (\<lambda>m. m = 2 \<or> march_day (m + 1) 1 = march_day m (if m \<in> {4, 6, 9, 11} then 30 else 31) + 1) [1..<12]"
  by code_simp

lemma march_day_starts: "march_day 1 1 = march_day 12 31 + 1" "march_day 3 1 = 0" "march_day 2 28 = 364" "march_day 2 29 = 365"
  by code_simp+

lemma march_day_Suc: "march_day m (Suc d) = march_day m d + 1"
  by (simp add: march_day_def)

lemma day_number_next:
  assumes "valid_date y m d" and "next_date y m d = (y', m', d')"
  shows "valid_date y' m' d'" "day_number y' m' d' = day_number y m d + 1"
proof -
  have m: "1 \<le> m" "m \<le> 12" and d: "1 \<le> d" "d \<le> days_in_month y m"
    using assms(1) unfolding valid_date_def by auto
  have long: "1 \<le> days_in_month z k" for z k
    by (simp add: days_in_month_def)
  show "valid_date y' m' d'"
    using assms(2) m d long unfolding next_date_def valid_date_def by (auto split: if_splits)
  consider (day) "d < days_in_month y m" | (february) "m = 2" "d = days_in_month y m"
    | (month) "m \<noteq> 2" "m < 12" "d = days_in_month y m" | (year) "m = 12" "d = 31"
    using m d unfolding days_in_month_def by fastforce
  then show "day_number y' m' d' = day_number y m d + 1"
  proof cases
    case day
    then show ?thesis
      using assms(2) by (auto simp: next_date_def day_number_def march_day_Suc Let_def)
  next
    case february
    then have "y' = y" "m' = 3" "d' = 1"
      using assms(2) by (simp_all add: next_date_def)
    then show ?thesis
      using february march_year_length [of "y - 1"] march_day_starts
      by (cases "leap y") (simp_all add: day_number_def march_year_def days_in_month_def Let_def)
  next
    case month
    then have n: "y' = y" "m' = m + 1" "d' = 1"
      using assms(2) by (simp_all add: next_date_def)
    have "m \<in> set [1..<12]"
      using m month by simp
    then have "m = 2 \<or> march_day (m + 1) 1 = march_day m (if m \<in> {4, 6, 9, 11} then 30 else 31) + 1"
      by (rule march_day_next_month [unfolded list_all_iff, THEN bspec])
    moreover have "d = (if m \<in> {4, 6, 9, 11} then 30 else 31)"
      unfolding month(3) days_in_month_def using month(1) by simp
    ultimately have "march_day (m + 1) 1 = march_day m d + 1"
      using month(1) by blast
    moreover have "march_year y (m + 1) = march_year y m"
      using month by (auto simp: march_year_def)
    ultimately show ?thesis
      unfolding n day_number_def Let_def by simp
  next
    case year
    then have "y' = y + 1" "m' = 1" "d' = 1"
      using assms(2) by (simp_all add: next_date_def days_in_month_def)
    then show ?thesis
      using year march_day_starts(1) by (simp add: day_number_def march_year_def Let_def)
  qed
qed

lemma second_of_day:
  assumes "h \<le> 23" "mi \<le> 59" "s \<le> 59"
  defines "t \<equiv> int h * 3600 + int mi * 60 + int s"
  shows "0 \<le> t" "t < 86400" "nat (t div 3600) = h" "nat (t mod 3600 div 60) = mi" "nat (t mod 60) = s"
proof -
  show "0 \<le> t" "t < 86400"
    using assms unfolding t_def by linarith+
  have "t div 3600 = int h" "t mod 3600 = int mi * 60 + int s"
    by (rule int_div_pos_eq [where r = "int mi * 60 + int s"] int_mod_pos_eq [where q = "int h"];
        use assms in \<open>simp add: t_def\<close>)+
  moreover have "(int mi * 60 + int s) div 60 = int mi"
    by (rule int_div_pos_eq [where r = "int s"]; use assms in simp)
  moreover have "t mod 60 = int s"
    by (rule int_mod_pos_eq [where q = "int h * 60 + int mi"]; use assms in \<open>simp add: t_def\<close>)
  ultimately show "nat (t div 3600) = h" "nat (t mod 3600 div 60) = mi" "nat (t mod 60) = s"
    by simp_all
qed

text \<open>C27: The calendar is the Gregorian one.  The epoch is second 0; midnight of the next calendar day, as
  the leap-year rule gives it, is 86400 seconds after midnight of a day; and reading a timestamp
  back gives the date and time it was computed from, for every year up to 200 billion years before or after the
  year 0, where no step of the 64-bit arithmetic wraps.\<close>

theorem calendar_correct:
  assumes "valid_date y m d" and "h \<le> 23" "mi \<le> 59" "s \<le> 59" and "\<bar>y\<bar> \<le> 200000000000"
    and "next_date y m d = (y', m', d')"
  shows "unix_timestamp 1970 1 1 0 0 0 = 0
    \<and> valid_date y' m' d' \<and> unix_timestamp y' m' d' 0 0 0 = unix_timestamp y m d 0 0 0 + 86400
    \<and> civil_from_unix (unix_timestamp y m d h mi s) = (y, m, d, h, mi, s)"
proof (intro conjI)
  have days: "1 \<le> dd \<and> dd \<le> 31" if "valid_date yy mm dd" for yy mm dd
    using that by (auto simp: valid_date_def days_in_month_def split: if_splits)
  show valid: "valid_date y' m' d'"
    by (rule day_number_next [OF assms(1,6)])
  have ok: "year_ok y" "year_ok y'"
    using assms(5,6) by (auto simp: year_ok_def next_date_def split: if_splits)
  have "year_ok 1970"
    by (simp add: year_ok_def)
  then show "unix_timestamp 1970 1 1 0 0 0 = 0"
    by (simp add: unix_timestamp_days day_number_def march_year_def march_day_def)
  show "unix_timestamp y' m' d' 0 0 0 = unix_timestamp y m d 0 0 0 + 86400"
    using day_number_next(2) [OF assms(1,6)] days [OF assms(1)] days [OF valid] ok by (simp add: unix_timestamp_days)
  show "civil_from_unix (unix_timestamp y m d h mi s) = (y, m, d, h, mi, s)"
    using civil_of_days [OF assms(1) second_of_day(1,2) [OF assms(2-4)] ok(1)] second_of_day(3-5) [OF assms(2-4)]
      days [OF assms(1)] assms(2-4) ok
    by (simp add: unix_timestamp_days add.assoc)
qed

text \<open>29 February 2000, a second before midnight.\<close>

theorem calendar_correct_witness:
  "unix_timestamp 1970 1 1 0 0 0 = 0
    \<and> valid_date 2000 3 1 \<and> unix_timestamp 2000 3 1 0 0 0 = unix_timestamp 2000 2 29 0 0 0 + 86400
    \<and> civil_from_unix (unix_timestamp 2000 2 29 23 59 59) = (2000, 2, 29, 23, 59, 59)"
  by (rule calendar_correct; simp add: valid_date_def days_in_month_def leap_def next_date_def)

end
