(* ===== verification/Admin_Server.thy ===== *)
theory Admin_Server
  imports Serial Stores Config_Edit History_Store Advert Gps Battery Rx_Path
begin

text \<open>
  \<open>firmware/src/admin_server.rs\<close>: the requests the USB admin server of a provisioned device answers.  One
  definition for each arm of \<open>handle_frame\<close>; \<open>admin_handle_frame\<close> dispatches over the frame type.  The
  receive loop in front of it is in Rx_Loop.

  The state is what the thread owns or reaches: the live configuration, its copy of the device name, the
  NVS, the history store behind its mutex (\<open>None\<close> before the store is set up), the lock events it has
  forwarded to the UI thread, its count of events dropped, and the serial output.  The environment holds what
  an arm reads: primitives, the own identity, the GPS and battery snapshots, and whether the queue of the UI and
  the serial writer take more.  An error of the outcome is a failed write of the output, the only error
  \<open>handle_frame\<close> returns.
\<close>

section \<open>State\<close>

record ('s, 'p) Admin =
  ad_config :: ProvisionedConfig
  ad_name :: bytes
  ad_name_len :: u8
  ad_nvs :: 's
  ad_hist :: "'p option"
  ad_events :: "lock_event list"
  ad_dropped :: u32
  ad_out :: "bytes list"

record ('s, 'p) AdminEnv =
  ae_crypto :: crypto_prims
  ae_curve :: curve_prims
  ae_nvs :: "'s nvs_prims"
  ae_part :: "'p part_prims"
  ae_identity :: Identity
  ae_gps :: GpsStatus
  ae_battery :: BatteryStatus
  ae_queue :: "lock_event list \<Rightarrow> bool"
  ae_tx :: "bytes list \<Rightarrow> bytes \<Rightarrow> bool"

type_synonym ('s, 'p) arm = "('s, 'p) Admin \<Rightarrow> (unit, unit, ('s, 'p) Admin) outcome"

definition on_out :: "(bytes list \<Rightarrow> (unit, 'r, bytes list) outcome) \<Rightarrow> ('s, 'p) Admin \<Rightarrow> (unit, 'r, ('s, 'p) Admin) outcome" where
  "on_out = on_part ad_out (\<lambda>written a. a\<lparr>ad_out := written\<rparr>)"

text \<open>\<open>send_frame(out, t, &pbuf[..plen])?\<close>, \<open>send_ok\<close>, \<open>send_error\<close>.\<close>

definition reply :: "('s, 'p) AdminEnv \<Rightarrow> u8 \<Rightarrow> bytes \<Rightarrow> ('s, 'p) arm" where
  "reply E t payload = on_out (send_frame (ae_tx E) t payload)"

definition reply_buf :: "('s, 'p) AdminEnv \<Rightarrow> u8 \<Rightarrow> bytes \<times> nat \<Rightarrow> ('s, 'p) arm" where
  "reply_buf E t enc a = (case enc of (pbuf, plen) \<Rightarrow> do { payload \<leftarrow> slice pbuf 0 plen; reply E t payload a })"

definition reply_ok :: "('s, 'p) AdminEnv \<Rightarrow> ('s, 'p) arm" where
  "reply_ok E = on_out (send_ok (ae_tx E))"

definition reply_error :: "('s, 'p) AdminEnv \<Rightarrow> u8 \<Rightarrow> string \<Rightarrow> ('s, 'p) arm" where
  "reply_error E code msg = on_out (send_error (ae_tx E) code (ascii msg))"

text \<open>\<open>send_or_count\<close> over the queue of the UI.\<close>

definition send_or_count :: "('s, 'p) AdminEnv \<Rightarrow> lock_event \<Rightarrow> ('s, 'p) Admin \<Rightarrow> bool \<times> ('s, 'p) Admin" where
  "send_or_count E ev a =
     (if ae_queue E (ad_events a) then (True, a\<lparr>ad_events := ad_events a @ [ev]\<rparr>)
      else (False, a\<lparr>ad_dropped := saturating_add32 (ad_dropped a) 1\<rparr>))"

section \<open>Persisting an edit\<close>

datatype ConfigKind = CK_Contact | CK_Channel | CK_Room

definition dec_sat :: "u8 \<Rightarrow> u8" where
  "dec_sat c = (if c = 0 then 0 else c - 1)"

fun rollback :: "ConfigKind \<Rightarrow> ProvisionedConfig \<Rightarrow> ProvisionedConfig" where
  "rollback CK_Contact c = c\<lparr>pc_contact_count := dec_sat (pc_contact_count c)\<rparr>"
| "rollback CK_Channel c = c\<lparr>pc_channel_count := dec_sat (pc_channel_count c)\<rparr>"
| "rollback CK_Room c = c\<lparr>pc_contact_count := dec_sat (pc_contact_count c),
     pc_room_count := dec_sat (pc_room_count c)\<rparr>"

definition persist_or_rollback ::
    "('s, 'p) AdminEnv \<Rightarrow> ConfigKind \<Rightarrow> ('s, 'p) Admin \<Rightarrow> (unit, bool, ('s, 'p) Admin) outcome" where
  "persist_or_rollback E kind a =
     (case save_provisioned_config (ae_nvs E) (ad_config a) (ad_nvs a) of
        None \<Rightarrow> None
      | Some (Inr _, s) \<Rightarrow> and_then (reply_ok E (a\<lparr>ad_nvs := s\<rparr>)) (\<lambda>_ a. Some (Inr True, a))
      | Some (Inl _, s) \<Rightarrow>
          and_then (reply_error E STORAGE_ERROR ''NVS save failed'' (a\<lparr>ad_nvs := s, ad_config := rollback kind (ad_config a)\<rparr>))
            (\<lambda>_ a. Some (Inr False, a)))"

definition persist_setting :: "('s, 'p) AdminEnv \<Rightarrow> ('s, 'p) arm" where
  "persist_setting E a =
     (case save_provisioned_config (ae_nvs E) (ad_config a) (ad_nvs a) of
        None \<Rightarrow> None
      | Some (Inr _, s) \<Rightarrow> reply_ok E (a\<lparr>ad_nvs := s\<rparr>)
      | Some (Inl _, s) \<Rightarrow> reply_error E STORAGE_ERROR ''NVS save failed'' (a\<lparr>ad_nvs := s\<rparr>))"

section \<open>Queries\<close>

definition admin_query_status :: "('s, 'p) AdminEnv \<Rightarrow> ('s, 'p) arm" where
  "admin_query_status E a = do {
     let gps = ae_gps E;
     let battery = ae_battery E;
     let (battery_level, battery_confirmed) = battery_level_to_wire (bs_level battery);
     let status = \<lparr>st_provisioned = True, st_pubkey = id_pubkey (ae_identity E),
       st_contact_count = pc_contact_count (ad_config a), st_channel_count = pc_channel_count (ad_config a),
       st_gps_has_fix = gs_has_fix gps, st_gps_lat_e7 = gs_lat_e7 gps, st_gps_lon_e7 = gs_lon_e7 gps,
       st_gps_fix_age_secs = gs_fix_age_secs gps, st_gps_clock_synced = gs_clock_synced gps,
       st_gps_clock_sync_age_secs = gs_clock_sync_age_secs gps, st_battery_percent = bs_percent battery,
       st_battery_charging = bs_charging battery, st_battery_raw_mv = clamp_raw_mv_for_wire (bs_raw_mv battery),
       st_battery_held_raw_mv = clamp_raw_mv_for_wire (bs_held_raw_mv battery),
       st_battery_level = battery_level, st_battery_confirmed = battery_confirmed\<rparr>;
     status_enc \<leftarrow> encode_rsp_status status (zeros 64);
     and_then (reply_buf E FRAME_RSP_STATUS status_enc a) (\<lambda>_ a. do {
       name \<leftarrow> slice (ad_name a) 0 (unat (ad_name_len a));
       identity_enc \<leftarrow> encode_rsp_identity (id_pubkey (ae_identity E)) name (zeros 64);
       reply_buf E FRAME_RSP_IDENTITY identity_enc a
     })
   }"

definition admin_query_advert :: "('s, 'p) AdminEnv \<Rightarrow> bytes \<Rightarrow> ('s, 'p) arm" where
  "admin_query_advert E payload a = do {
     name \<leftarrow> slice (ad_name a) 0 (unat (ad_name_len a));
     let name_str = (if utf8_valid name then name else []);
     let nvs_last = load_last_advert_ts (ae_nvs E) (ad_nvs a);
     (card_buf, result) \<leftarrow>
       handle_query_advert (ae_curve E) (ae_identity E) payload nvs_last name_str (zeros MAX_ADVERT_CARD_LEN);
     (case result of
        Inr (n, new_ts) \<Rightarrow> do {
          s \<leftarrow> save_last_advert_ts (ae_nvs E) new_ts (ad_nvs a);
          reply_buf E FRAME_RSP_ADVERT (card_buf, n) (a\<lparr>ad_nvs := s\<rparr>)
        }
      | Inl _ \<Rightarrow> reply_error E DECODE_ERROR ''query_advert decode error'' a)
   }"

text \<open>The two enumerations, from index \<open>i\<close> on.\<close>

fun admin_contacts_loop :: "('s, 'p) AdminEnv \<Rightarrow> nat \<Rightarrow> nat \<Rightarrow> ('s, 'p) arm" where
  "admin_contacts_loop E i 0 a = reply E FRAME_RSP_CONTACTS_DONE [] a"
| "admin_contacts_loop E i (Suc k) a = do {
     c \<leftarrow> get_at (pc_contacts (ad_config a)) i;
     name \<leftarrow> slice (ct_display_name c) 0 (min (unat (ct_display_name_len c)) (length (ct_display_name c)));
     enc \<leftarrow> encode_rsp_contact (of_nat i) (ct_pubkey c) (ct_telemetry_enable c) name (zeros 80);
     and_then (reply_buf E FRAME_RSP_CONTACT enc a) (\<lambda>_. admin_contacts_loop E (i + 1) k)
   }"

definition admin_query_contacts :: "('s, 'p) AdminEnv \<Rightarrow> ('s, 'p) arm" where
  "admin_query_contacts E a = admin_contacts_loop E 0 (unat (pc_contact_count (ad_config a))) a"

fun admin_channels_loop :: "('s, 'p) AdminEnv \<Rightarrow> nat \<Rightarrow> nat \<Rightarrow> ('s, 'p) arm" where
  "admin_channels_loop E i 0 a = reply E FRAME_RSP_CHANNELS_DONE [] a"
| "admin_channels_loop E i (Suc k) a = do {
     ch \<leftarrow> get_at (pc_channels (ad_config a)) i;
     secret \<leftarrow> slice (ch_secret ch) 0 (key_len_resolved ch);
     let chash = channel_hash_var (ae_crypto E) secret;
     name \<leftarrow> slice (ch_name ch) 0 (min (unat (ch_name_len ch)) (length (ch_name ch)));
     enc \<leftarrow> encode_rsp_channel (of_nat i) chash (ch_key_len ch) (ch_primary ch) name (zeros 80);
     and_then (reply_buf E FRAME_RSP_CHANNEL enc a) (\<lambda>_. admin_channels_loop E (i + 1) k)
   }"

definition admin_query_channels :: "('s, 'p) AdminEnv \<Rightarrow> ('s, 'p) arm" where
  "admin_query_channels E a = admin_channels_loop E 0 (unat (pc_channel_count (ad_config a))) a"

fun admin_send_all :: "('s, 'p) AdminEnv \<Rightarrow> (u8 \<times> bytes) list \<Rightarrow> ('s, 'p) arm" where
  "admin_send_all E [] a = Some (Inr (), a)"
| "admin_send_all E ((t, p) # fs) a = and_then (reply E t p a) (\<lambda>_. admin_send_all E fs)"

definition admin_query_rooms :: "('s, 'p) AdminEnv \<Rightarrow> ('s, 'p) arm" where
  "admin_query_rooms E a = do {
     frames \<leftarrow> handle_query_rooms (ad_config a);
     admin_send_all E frames a
   }"

definition admin_query_lock :: "('s, 'p) AdminEnv \<Rightarrow> ('s, 'p) arm" where
  "admin_query_lock E a = do {
     let nd = pc_notif_defaults (ad_config a);
     r \<leftarrow> rts_load (ae_nvs E) (ad_nvs a) (nf_visual nd, nf_audible nd);
     let settings = (case r of Inr st \<Rightarrow> st | Inl _ \<Rightarrow> default_enabled);
     (_, lock_pin_len) \<leftarrow> lock_load (ae_nvs E) (ad_nvs a);
     enc \<leftarrow> encode_rsp_lock \<lparr>rl_lock_flags = rs_lock_flags settings, rl_lock_timeout_s = rs_lock_timeout_s settings,
              rl_pin_set = (lock_pin_len > 0)\<rparr> (zeros 8);
     reply_buf E FRAME_RSP_LOCK enc a
   }"

definition admin_query_region :: "('s, 'p) AdminEnv \<Rightarrow> ('s, 'p) arm" where
  "admin_query_region E a =
     (case region_load_name (ae_nvs E) (ad_nvs a) of
        Inl _ \<Rightarrow> reply_error E STORAGE_ERROR ''region store read failed'' a
      | Inr (name, name_len) \<Rightarrow> do {
          name \<leftarrow> slice name 0 (unat name_len);
          (pbuf, r) \<leftarrow> handle_query_region name (zeros (1 + MAX_REGION_NAME_LEN));
          (case r of
             QR_Encoded plen \<Rightarrow> reply_buf E FRAME_RSP_REGION (pbuf, plen) a
           | QR_StoredNameUnusable _ \<Rightarrow> reply_error E REGION_INVALID
               ''stored region name is invalid; set-region --clear or set-region --name <name>'' a)
        })"

section \<open>Edits of the lists\<close>

definition admin_add_contact :: "('s, 'p) AdminEnv \<Rightarrow> bytes \<Rightarrow> ('s, 'p) arm" where
  "admin_add_contact E payload a = do {
     d \<leftarrow> decode_add_contact payload;
     (case d of
        Inl _ \<Rightarrow> reply_error E DECODE_ERROR ''add_contact decode error'' a
      | Inr c \<Rightarrow> do {
          (config, r) \<leftarrow> upsert_contact (ad_config a)
             \<lparr>ct_pubkey = ac_pubkey c, ct_telemetry_enable = ac_telemetry_enable c, ct_role = ROLE_CHAT,
              ct_display_name = ac_display_name c, ct_display_name_len = ac_display_name_len c\<rparr>;
          (case r of
             Inl _ \<Rightarrow> reply_error E CONTACT_LIST_FULL ''contact list full'' (a\<lparr>ad_config := config\<rparr>)
           | Inr _ \<Rightarrow> and_then (persist_or_rollback E CK_Contact (a\<lparr>ad_config := config\<rparr>)) (\<lambda>_ a. Some (Inr (), a)))
        })
   }"

definition admin_del_contact :: "('s, 'p) AdminEnv \<Rightarrow> bytes \<Rightarrow> ('s, 'p) arm" where
  "admin_del_contact E payload a = do {
     d \<leftarrow> decode_del_contact payload;
     (case d of
        Inl _ \<Rightarrow> reply_error E DECODE_ERROR ''del_contact decode error'' a
      | Inr pubkey \<Rightarrow> do {
          cts \<leftarrow> slice (pc_contacts (ad_config a)) 0 (n_contacts (ad_config a));
          (case position (\<lambda>c. ct_pubkey c = pubkey) cts of
             None \<Rightarrow> reply_error E CONTACT_NOT_FOUND ''contact not found'' a
           | Some idx \<Rightarrow> do {
               config \<leftarrow> remove_contact_at idx (ad_config a);
               and_then (persist_or_rollback E CK_Contact (a\<lparr>ad_config := config\<rparr>)) (\<lambda>_ a. do {
                 h \<leftarrow> get_at pubkey 0;
                 s \<leftarrow> delete_inbound_replay_state (ae_nvs E) h (ad_nvs a);
                 Some (Inr (), a\<lparr>ad_nvs := s\<rparr>)
               })
             })
        })
   }"

definition admin_add_channel :: "('s, 'p) AdminEnv \<Rightarrow> bytes \<Rightarrow> ('s, 'p) arm" where
  "admin_add_channel E payload a = do {
     d \<leftarrow> decode_add_channel payload;
     (case d of
        Inl _ \<Rightarrow> reply_error E DECODE_ERROR ''add_channel decode error'' a
      | Inr ch \<Rightarrow> do {
          (config, r) \<leftarrow> upsert_channel (ad_config a)
             \<lparr>ch_secret = ach_secret ch, ch_key_len = ach_key_len ch, ch_primary = ach_primary ch,
              ch_name = ach_name ch, ch_name_len = ach_name_len ch\<rparr>;
          (case r of
             Inl _ \<Rightarrow> reply_error E CHANNEL_LIST_FULL ''channel list full'' (a\<lparr>ad_config := config\<rparr>)
           | Inr _ \<Rightarrow> and_then (persist_or_rollback E CK_Channel (a\<lparr>ad_config := config\<rparr>)) (\<lambda>_ a. Some (Inr (), a)))
        })
   }"

definition admin_del_channel :: "('s, 'p) AdminEnv \<Rightarrow> bytes \<Rightarrow> ('s, 'p) arm" where
  "admin_del_channel E payload a = do {
     d \<leftarrow> decode_del_channel payload;
     (case d of
        Inl _ \<Rightarrow> reply_error E DECODE_ERROR ''del_channel decode error'' a
      | Inr secret \<Rightarrow> do {
          chs \<leftarrow> slice (pc_channels (ad_config a)) 0 (n_channels (ad_config a));
          (case position (\<lambda>c. ch_secret c = secret) chs of
             None \<Rightarrow> reply_error E CHANNEL_NOT_FOUND ''channel not found'' a
           | Some idx \<Rightarrow> do {
               config \<leftarrow> remove_channel_at idx (ad_config a);
               and_then (persist_or_rollback E CK_Channel (a\<lparr>ad_config := config\<rparr>)) (\<lambda>_ a. Some (Inr (), a))
             })
        })
   }"

text \<open>The session of the room is erased only when the edit has landed.\<close>

definition persist_room :: "('s, 'p) AdminEnv \<Rightarrow> bytes \<Rightarrow> ('s, 'p) arm" where
  "persist_room E payload a =
     (let h = (case payload of [] \<Rightarrow> 0 | b # _ \<Rightarrow> b) in
      and_then (persist_or_rollback E CK_Room a) (\<lambda>landed a.
        if landed then do {
          s \<leftarrow> delete_room_session (ae_nvs E) h (ad_nvs a);
          Some (Inr (), a\<lparr>ad_nvs := s\<rparr>)
        } else Some (Inr (), a)))"

definition admin_add_room :: "('s, 'p) AdminEnv \<Rightarrow> bytes \<Rightarrow> ('s, 'p) arm" where
  "admin_add_room E payload a = do {
     (config, r) \<leftarrow> handle_add_room (ad_config a) payload;
     let a = a\<lparr>ad_config := config\<rparr>;
     (case r of
        ArAdded \<Rightarrow> persist_room E payload a
      | ArUpdated \<Rightarrow> persist_room E payload a
      | ArListFull \<Rightarrow> reply_error E CONTACT_LIST_FULL ''contact list full'' a
      | ArDecodeError \<Rightarrow> reply_error E DECODE_ERROR ''add_room decode error'' a)
   }"

definition admin_del_room :: "('s, 'p) AdminEnv \<Rightarrow> bytes \<Rightarrow> ('s, 'p) arm" where
  "admin_del_room E payload a = do {
     (config, r) \<leftarrow> handle_del_room (ad_config a) payload;
     let a = a\<lparr>ad_config := config\<rparr>;
     (case r of
        DrRemoved \<Rightarrow> persist_room E payload a
      | DrNotFound \<Rightarrow> reply_error E CONTACT_NOT_FOUND ''room not found'' a
      | DrDecodeError \<Rightarrow> reply_error E DECODE_ERROR ''del_room decode error'' a)
   }"

section \<open>Settings\<close>

definition admin_set_notif_defaults :: "('s, 'p) AdminEnv \<Rightarrow> bytes \<Rightarrow> ('s, 'p) arm" where
  "admin_set_notif_defaults E payload a = do {
     d \<leftarrow> decode_set_notif_defaults payload;
     (case d of
        Inl _ \<Rightarrow> reply_error E DECODE_ERROR ''set_notif_defaults decode error'' a
      | Inr n \<Rightarrow> persist_setting E (a\<lparr>ad_config := (ad_config a)\<lparr>pc_notif_defaults :=
            \<lparr>nf_visual = nd_visual n, nf_audible = nd_audible n\<rparr>\<rparr>\<rparr>))
   }"

definition admin_set_pin :: "('s, 'p) AdminEnv \<Rightarrow> bytes \<Rightarrow> ('s, 'p) arm" where
  "admin_set_pin E payload a = do {
     d \<leftarrow> decode_set_pin payload;
     (case d of
        Inl _ \<Rightarrow> reply_error E DECODE_ERROR ''set_pin decode error'' a
      | Inr p \<Rightarrow> persist_setting E (a\<lparr>ad_config := (ad_config a)\<lparr>pc_pin := pt_text p, pc_pin_len := pt_len p\<rparr>\<rparr>))
   }"

definition admin_set_lock_pin :: "('s, 'p) AdminEnv \<Rightarrow> bytes \<Rightarrow> ('s, 'p) arm" where
  "admin_set_lock_pin E payload a = do {
     d \<leftarrow> decode_set_lock_pin payload;
     (case d of
        Inl _ \<Rightarrow> reply_error E DECODE_ERROR ''set_lock_pin decode error'' a
      | Inr pin \<Rightarrow>
          (case lock_save (ae_nvs E) pin (of_nat LOCK_PIN_LEN) (ad_nvs a) of
             None \<Rightarrow> None
           | Some (Inr _, s) \<Rightarrow>
               (case send_or_count E (LockPinChanged pin (of_nat LOCK_PIN_LEN)) (a\<lparr>ad_nvs := s\<rparr>) of
                  (_, a) \<Rightarrow> reply_ok E a)
           | Some (Inl _, s) \<Rightarrow> reply_error E STORAGE_ERROR ''NVS save failed'' (a\<lparr>ad_nvs := s\<rparr>)))
   }"

definition admin_set_lock_config :: "('s, 'p) AdminEnv \<Rightarrow> bytes \<Rightarrow> ('s, 'p) arm" where
  "admin_set_lock_config E payload a = do {
     d \<leftarrow> decode_set_lock_config payload;
     (case d of
        Inl _ \<Rightarrow> reply_error E DECODE_ERROR ''set_lock_config decode error'' a
      | Inr cfg \<Rightarrow>
          (case send_or_count E (LockConfigChanged (slc_lock_flags cfg) (slc_lock_timeout_s cfg)) a of
             (accepted, a) \<Rightarrow>
               if accepted then reply_ok E a
               else reply_error E FORWARD_ERROR ''lock config not forwarded to UI thread'' a))
   }"

definition admin_set_device_name :: "('s, 'p) AdminEnv \<Rightarrow> bytes \<Rightarrow> ('s, 'p) arm" where
  "admin_set_device_name E payload a = do {
     d \<leftarrow> decode_set_device_name payload;
     (case d of
        Inl _ \<Rightarrow> reply_error E DECODE_ERROR ''set_device_name decode error'' a
      | Inr n \<Rightarrow> do {
          name \<leftarrow> slice (pt_text n) 0 (unat (pt_len n));
          (case identity_set_name (ae_nvs E) name (ad_nvs a) of
             None \<Rightarrow> None
           | Some (Inr _, s) \<Rightarrow> reply_ok E (a\<lparr>ad_nvs := s, ad_name := pt_text n, ad_name_len := pt_len n\<rparr>)
           | Some (Inl _, s) \<Rightarrow> reply_error E STORAGE_ERROR ''NVS save failed'' (a\<lparr>ad_nvs := s\<rparr>))
        })
   }"

text \<open>The quotes of the message.\<close>

definition INVALID_REGION_MSG :: string where
  "INVALID_REGION_MSG = ''invalid region name (1-31 chars: '' @ [CHR 0x27, CHR 0x2D, CHR 0x27] @ '', ''
     @ [CHR 0x27, CHR 0x23, CHR 0x27] @ '', digits, '' @ [CHR 0x27, CHR 0x41, CHR 0x27] @ '' and above)''"

definition admin_set_region :: "('s, 'p) AdminEnv \<Rightarrow> bytes \<Rightarrow> ('s, 'p) arm" where
  "admin_set_region E payload a = do {
     r \<leftarrow> handle_set_region payload;
     (case r of
        SR_Apply v \<Rightarrow>
          (case region_save (ae_nvs E) (vr_name v) (vr_name_len v) (ad_nvs a) of
             None \<Rightarrow> None
           | Some (Inr _, s) \<Rightarrow> reply_ok E (a\<lparr>ad_nvs := s\<rparr>)
           | Some (Inl _, s) \<Rightarrow> reply_error E STORAGE_ERROR ''NVS save failed'' (a\<lparr>ad_nvs := s\<rparr>))
      | SR_PrivateUnsupported \<Rightarrow> reply_error E REGION_INVALID
          ''private ($) regions are unsupported; use a public region name'' a
      | SR_InvalidName _ \<Rightarrow> reply_error E REGION_INVALID INVALID_REGION_MSG a
      | SR_DecodeError \<Rightarrow> reply_error E DECODE_ERROR ''set_region decode error'' a)
   }"

section \<open>History\<close>

text \<open>The callback of the export: a frame that cannot be written is only logged.\<close>

definition export_entry ::
    "('s, 'p) AdminEnv \<Rightarrow> u8 \<Rightarrow> HistoryEntry \<Rightarrow> bool \<Rightarrow> bytes list \<Rightarrow> bytes list rust" where
  "export_entry E idx entry is_ours out = do {
     (pbuf, plen) \<leftarrow> encode_rsp_history_entry idx entry is_ours (zeros (MAX_RSP_HISTORY_ENTRY_PAYLOAD + 1));
     payload \<leftarrow> slice pbuf 0 plen;
     ignored (send_frame (ae_tx E) FRAME_RSP_HISTORY_ENTRY payload out)
   }"

definition admin_export_history :: "('s, 'p) AdminEnv \<Rightarrow> ('s, 'p) arm" where
  "admin_export_history E a = do {
     a \<leftarrow> (case ad_hist a of
        None \<Rightarrow> Some a
      | Some p \<Rightarrow> do {
          (out, p) \<leftarrow> ignored (hs_export_entries (ae_part E) (export_entry E) (ad_out a, p));
          Some (a\<lparr>ad_out := out, ad_hist := Some p\<rparr>)
        });
     reply E FRAME_RSP_HISTORY_DONE [] a
   }"

definition admin_clear_history :: "('s, 'p) AdminEnv \<Rightarrow> ('s, 'p) arm" where
  "admin_clear_history E a =
     (case ad_hist a of
        None \<Rightarrow> reply_error E STORAGE_ERROR ''history store not initialised'' a
      | Some p \<Rightarrow>
          (case hs_clear_all (ae_part E) p of
             None \<Rightarrow> None
           | Some (Inr _, p) \<Rightarrow> reply_ok E (a\<lparr>ad_hist := Some p\<rparr>)
           | Some (Inl _, p) \<Rightarrow> reply_error E STORAGE_ERROR ''history erase failed'' (a\<lparr>ad_hist := Some p\<rparr>)))"

section \<open>The dispatch\<close>

definition admin_handle_frame :: "('s, 'p) AdminEnv \<Rightarrow> u8 \<Rightarrow> bytes \<Rightarrow> ('s, 'p) arm" where
  "admin_handle_frame E t payload a =
     (if t = FRAME_QUERY_STATUS then admin_query_status E a
      else if t = FRAME_QUERY_ADVERT then admin_query_advert E payload a
      else if t = FRAME_QUERY_CONTACTS then admin_query_contacts E a
      else if t = FRAME_QUERY_CHANNELS then admin_query_channels E a
      else if t = FRAME_ADD_CONTACT then admin_add_contact E payload a
      else if t = FRAME_DEL_CONTACT then admin_del_contact E payload a
      else if t = FRAME_ADD_CHANNEL then admin_add_channel E payload a
      else if t = FRAME_DEL_CHANNEL then admin_del_channel E payload a
      else if t = FRAME_QUERY_ROOMS then admin_query_rooms E a
      else if t = FRAME_QUERY_LOCK then admin_query_lock E a
      else if t = FRAME_QUERY_REGION then admin_query_region E a
      else if t = FRAME_ADD_ROOM then admin_add_room E payload a
      else if t = FRAME_DEL_ROOM then admin_del_room E payload a
      else if t = FRAME_SET_NOTIF_DEFAULTS then admin_set_notif_defaults E payload a
      else if t = FRAME_SET_PIN then admin_set_pin E payload a
      else if t = FRAME_SET_LOCK_PIN then admin_set_lock_pin E payload a
      else if t = FRAME_SET_LOCK_CONFIG then admin_set_lock_config E payload a
      else if t = FRAME_SET_DEVICE_NAME then admin_set_device_name E payload a
      else if t = FRAME_SET_REGION then admin_set_region E payload a
      else if t = FRAME_COMMIT_PROVISIONING then persist_setting E a
      else if t = FRAME_EXPORT_HISTORY then admin_export_history E a
      else if t = FRAME_CLEAR_HISTORY then admin_clear_history E a
      else Some (Inr (), a))"

end
