(* ===== verification/Admin_Arms.thy ===== *)
theory Admin_Arms
  imports Admin_Server
begin

text \<open>
  The arms of the USB admin server (Admin_Server), one lemma each: on a well-formed state an arm does not panic,
  keeps the state well formed and is answered in whole frames of the right type; an edit that is answered with
  OK has been made on the live lists and is what the next boot loads.
\<close>

section \<open>Well-formed states\<close>

definition env_ok :: "('s, 'p) AdminEnv \<Rightarrow> bool" where
  "env_ok E \<longleftrightarrow> nvs_ok (ae_nvs E) \<and> part_ok (ae_part E) \<and> length (id_pubkey (ae_identity E)) = 32
     \<and> (\<forall>m. length (sign (ae_curve E) (ae_identity E) m) = 64)"

definition admin_ok :: "('s, 'p) AdminEnv \<Rightarrow> ('s, 'p) Admin \<Rightarrow> bool" where
  "admin_ok E a \<longleftrightarrow> config_shape (ad_config a) \<and> length (ad_name a) = 32 \<and> unat (ad_name_len a) \<le> 32
     \<and> (\<forall>p. ad_hist a = Some p \<longrightarrow> hs_flash (ae_part E) p)"

lemma admin_ok_out [simp]: "admin_ok E (a\<lparr>ad_out := out\<rparr>) = admin_ok E a"
  and admin_ok_nvs [simp]: "admin_ok E (a\<lparr>ad_nvs := s\<rparr>) = admin_ok E a"
  and admin_ok_events [simp]: "admin_ok E (a\<lparr>ad_events := evs\<rparr>) = admin_ok E a"
  and admin_ok_dropped [simp]: "admin_ok E (a\<lparr>ad_dropped := n\<rparr>) = admin_ok E a"
  by (simp_all add: admin_ok_def)

lemma admin_ok_config: "admin_ok E a \<Longrightarrow> config_shape c \<Longrightarrow> admin_ok E (a\<lparr>ad_config := c\<rparr>)"
  by (simp add: admin_ok_def)

text \<open>Answered in whole frames, the last of them of a type in \<open>ts\<close>.\<close>

definition answered :: "('s, 'p) AdminEnv \<Rightarrow> bytes list \<Rightarrow> u8 set \<Rightarrow> ('s, 'p) Admin \<Rightarrow> bool" where
  "answered E out ts a' \<longleftrightarrow> admin_ok E a' \<and> (\<exists>rs. rs \<noteq> [] \<and> fst (last rs) \<in> ts \<and> replied out rs (ad_out a'))"

definition write_failed :: "('s, 'p) AdminEnv \<Rightarrow> ('s, 'p) Admin \<Rightarrow> bool" where
  "write_failed E a' \<longleftrightarrow> admin_ok E a' \<and> tx_failed (ae_tx E)"

definition so_far :: "('s, 'p) AdminEnv \<Rightarrow> bytes list \<Rightarrow> ('s, 'p) Admin \<Rightarrow> bool" where
  "so_far E out a \<longleftrightarrow> admin_ok E a \<and> (\<exists>rs. replied out rs (ad_out a))"

lemma so_far_refl: "admin_ok E a \<Longrightarrow> so_far E (ad_out a) a"
  unfolding so_far_def using replied_Nil by blast

lemma answered_so_far: "answered E out ts a \<Longrightarrow> so_far E out a"
  by (auto simp: answered_def so_far_def)

lemma owp_on_out:
  assumes "\<And>out. owp (f out) (\<lambda>_. replied out [(t, p)]) (\<lambda>_ _. tx_failed (ae_tx E))"
    and "so_far E out a" "t \<in> ts"
  shows "owp (on_out f a) (\<lambda>_ a'. answered E out ts a') (\<lambda>_ a'. write_failed E a')"
  unfolding on_out_def owp_simps
proof (rule owp_mono [OF assms(1) [of "ad_out a"]])
  obtain rs where rs: "replied out rs (ad_out a)" and ok: "admin_ok E a"
    using assms(2) by (auto simp: so_far_def)
  have "replied out (rs @ [(t, p)]) w" if "replied (ad_out a) [(t, p)] w" for w
    using replied_trans [OF rs that] .
  then show "answered E out ts (a\<lparr>ad_out := w\<rparr>)" if "replied (ad_out a) [(t, p)] w" for w
    using ok that assms(3) unfolding answered_def by (intro conjI exI [of _ "rs @ [(t, p)]"]) simp_all
  show "write_failed E (a\<lparr>ad_out := w\<rparr>)" if "tx_failed (ae_tx E)" for w
    using ok that by (simp add: write_failed_def)
qed

lemma owp_reply:
  assumes "length p \<le> 505" "so_far E out a" "t \<in> ts"
  shows "owp (reply E t p a) (\<lambda>_ a'. answered E out ts a') (\<lambda>_ a'. write_failed E a')"
  unfolding reply_def by (rule owp_on_out [OF owp_send_frame [OF assms(1)] assms(2,3)])

lemma owp_reply_buf:
  assumes "n \<le> length b" "n \<le> 505" "so_far E out a" "t \<in> ts"
  shows "owp (reply_buf E t (b, n) a) (\<lambda>_ a'. answered E out ts a') (\<lambda>_ a'. write_failed E a')"
  using owp_reply [OF _ assms(3,4), of "take n b"] assms(1,2) by (simp add: reply_buf_def slice_prefix)

lemma length_put_ge: "length out \<le> length (put w out)"
  by (simp add: put_def)

lemma owp_reply_put:
  assumes "n \<le> length buf" "n \<le> 505" "so_far E out a" "t \<in> ts"
  shows "owp (reply_buf E t (put w buf, n) a) (\<lambda>_ a'. answered E out ts a') (\<lambda>_ a'. write_failed E a')"
  using assms length_put_ge [of buf w] by (intro owp_reply_buf) simp_all

lemma owp_reply_ok:
  assumes "so_far E out a" "FRAME_RSP_OK \<in> ts"
  shows "owp (reply_ok E a) (\<lambda>_ a'. answered E out ts a') (\<lambda>_ a'. write_failed E a')"
  unfolding reply_ok_def by (rule owp_on_out [OF owp_send_ok assms])

lemma owp_reply_error:
  assumes "so_far E out a" "FRAME_RSP_ERROR \<in> ts"
  shows "owp (reply_error E code msg a) (\<lambda>_ a'. answered E out ts a') (\<lambda>_ a'. write_failed E a')"
  unfolding reply_error_def by (rule owp_on_out [OF owp_send_error assms])

section \<open>Queries\<close>

lemma admin_query_status_ok:
  assumes E: "env_ok E" and a: "admin_ok E a" and short: "unat (ad_name_len a) \<le> 30"
  shows "owp (admin_query_status E a) (\<lambda>_ a'. answered E (ad_out a) {FRAME_RSP_IDENTITY} a') (\<lambda>_ a'. write_failed E a')"
proof -
  have pk: "length (id_pubkey (ae_identity E)) = 32"
    using E by (simp add: env_ok_def)
  have ident: "owp (slice (ad_name a') 0 (unat (ad_name_len a')) \<bind> (\<lambda>name.
      encode_rsp_identity (id_pubkey (ae_identity E)) name (zeros 64) \<bind> (\<lambda>enc. reply_buf E FRAME_RSP_IDENTITY enc a')))
      (\<lambda>_ a'. answered E (ad_out a) {FRAME_RSP_IDENTITY} a') (\<lambda>_ a'. write_failed E a')"
    if "answered E (ad_out a) {FRAME_RSP_STATUS} a' \<and> ad_name_len a' = ad_name_len a" for a'
  proof -
    have n: "unat (ad_name_len a') \<le> 30" "length (ad_name a') = 32"
      using that short by (simp_all add: answered_def admin_ok_def)
    define nm where "nm = take (unat (ad_name_len a')) (ad_name a')"
    have nm: "length nm \<le> 30" "slice (ad_name a') 0 (unat (ad_name_len a')) = Some nm"
      using n by (simp_all add: nm_def slice_prefix)
    have "so_far E (ad_out a) a'"
      using that answered_so_far by blast
    then show ?thesis
      using encode_rsp_identity_spec [OF pk, of nm "zeros 64"] nm
      by (simp add: owp_reply_put)
  qed
  define st where "st = rsp_status_wire"
  have first: "owp (reply_buf E FRAME_RSP_STATUS (put w (zeros 64), 61) a)
      (\<lambda>_ a'. answered E (ad_out a) {FRAME_RSP_STATUS} a' \<and> ad_name_len a' = ad_name_len a) (\<lambda>_ a'. write_failed E a')" for w
  proof -
    have "owp (reply_buf E FRAME_RSP_STATUS (put w (zeros 64), 61) a)
      (\<lambda>_ a'. answered E (ad_out a) {FRAME_RSP_STATUS} a') (\<lambda>_ a'. write_failed E a')"
      by (rule owp_reply_put) (simp_all add: so_far_refl a)
    then show ?thesis
      by (auto simp: owp_def reply_buf_def reply_def on_out_def on_part_def bind_eq_Some_conv split: option.splits sum.splits)
  qed
  show ?thesis
    using encode_rsp_status_spec [of _ "zeros 64"] pk
    by (simp add: admin_query_status_def Let_def split_beta owp_simps) (rule owp_mono [OF first], erule ident, assumption)
qed

lemma admin_contacts_loop_ok:
  assumes "so_far E out a" "i + k \<le> 16"
  shows "owp (admin_contacts_loop E i k a) (\<lambda>_ a'. answered E out {FRAME_RSP_CONTACTS_DONE} a') (\<lambda>_ a'. write_failed E a')"
  using assms
proof (induction k arbitrary: i a)
  case 0
  then show ?case
    by (simp add: owp_reply)
next
  case (Suc k)
  have cfg: "config_shape (ad_config a)"
    using Suc.prems(1) by (simp add: so_far_def admin_ok_def)
  define c where "c = pc_contacts (ad_config a) ! i"
  have c: "get_at (pc_contacts (ad_config a)) i = Some c" "contact_ok c"
    using cfg Suc.prems(2) by (auto simp: get_at_def c_def config_shape_def)
  define nm where "nm = take (unat (ct_display_name_len c)) (ct_display_name c)"
  have nm: "slice (ct_display_name c) 0 (min (unat (ct_display_name_len c)) (length (ct_display_name c))) = Some nm"
    "length nm \<le> 32"
    using c(2) by (auto simp: nm_def slice_def min_def contact_ok_def)
  show ?case
    using encode_rsp_contact_spec [of "ct_pubkey c" nm "zeros 80"] c nm
    by (simp add: contact_ok_def owp_simps)
      (rule owp_mono [OF owp_reply_put [OF _ _ Suc.prems(1), of _ _ _ "{FRAME_RSP_CONTACT}"]];
        use Suc.IH [OF answered_so_far] Suc.prems(2) in simp)
qed

lemma admin_channels_loop_ok:
  assumes "so_far E out a" "i + k \<le> 8"
  shows "owp (admin_channels_loop E i k a) (\<lambda>_ a'. answered E out {FRAME_RSP_CHANNELS_DONE} a') (\<lambda>_ a'. write_failed E a')"
  using assms
proof (induction k arbitrary: i a)
  case 0
  then show ?case
    by (simp add: owp_reply)
next
  case (Suc k)
  have cfg: "config_shape (ad_config a)"
    using Suc.prems(1) by (simp add: so_far_def admin_ok_def)
  define c where "c = pc_channels (ad_config a) ! i"
  have c: "get_at (pc_channels (ad_config a)) i = Some c" "channel_ok c"
    using cfg Suc.prems(2) by (auto simp: get_at_def c_def config_shape_def)
  define nm where "nm = take (unat (ch_name_len c)) (ch_name c)"
  have nm: "slice (ch_name c) 0 (min (unat (ch_name_len c)) (length (ch_name c))) = Some nm" "length nm \<le> 32"
    "slice (ch_secret c) 0 (key_len_resolved c) = Some (take (key_len_resolved c) (ch_secret c))"
    using c(2) by (auto simp: nm_def slice_def min_def channel_ok_def key_len_resolved_def)
  show ?case
    using encode_rsp_channel_spec [of nm "zeros 80"] c nm
    by (simp add: channel_ok_def owp_simps)
      (rule owp_mono [OF owp_reply_put [OF _ _ Suc.prems(1), of _ _ _ "{FRAME_RSP_CHANNEL}"]];
        use Suc.IH [OF answered_so_far] Suc.prems(2) in simp)
qed

lemma query_rooms_loop_ok:
  assumes "\<forall>c \<in> set cts. contact_ok c" "\<forall>r \<in> set rs. extra_ok r"
  shows "\<exists>fs. query_rooms_loop cts i rs = Some fs \<and> fs \<noteq> [] \<and> fst (last fs) = FRAME_RSP_ROOMS_DONE
    \<and> (\<forall>f \<in> set fs. length (snd f) \<le> 505)"
  using assms(2)
proof (induction rs arbitrary: i)
  case (Cons r rs)
  define nm where "nm = (case List.find (\<lambda>c. ct_pubkey c = re_pubkey r) cts of
      Some c \<Rightarrow> take (unat (ct_display_name_len c)) (ct_display_name c) | None \<Rightarrow> [])"
  have found: "contact_ok c" if "List.find (\<lambda>c. ct_pubkey c = re_pubkey r) cts = Some c" for c
    using that assms(1) by (auto simp: find_Some_iff)
  have nm: "(case List.find (\<lambda>c. ct_pubkey c = re_pubkey r) cts of
      Some c \<Rightarrow> slice (ct_display_name c) 0 (min (unat (ct_display_name_len c)) (length (ct_display_name c)))
    | None \<Rightarrow> Some []) = Some nm" "length nm \<le> 32"
    using found by (auto simp: nm_def slice_def min_def contact_ok_def split: option.split)
  have r: "length (re_pubkey r) = 32" "length (re_out_path r) = 64"
    using Cons.prems by (simp_all add: extra_ok_def)
  define path where "path = take (unat (re_out_path_len r)) (re_out_path r)"
  have path: "slice (re_out_path r) 0 (min (min (unat (re_out_path_len r)) (length (re_out_path r))) MAX_ROOM_PATH_LEN) = Some path"
    "length path \<le> 64"
    using r by (auto simp: path_def slice_def min_def MAX_ROOM_PATH_LEN_def MAX_PATH_SIZE_def)
  define w where "w = rsp_room_wire (of_nat i) (re_pubkey r) (re_sync_since r) (re_permissions r) path nm"
  have enc: "encode_rsp_room (of_nat i) (re_pubkey r) (re_sync_since r) (re_permissions r) path nm
      (zeros (40 + MAX_ROOM_PATH_LEN + 32)) = Some (put w (zeros 136), 40 + length path + length nm)"
    using encode_rsp_room_spec [of "re_pubkey r" path nm "zeros 136"] r nm(2) path(2) by (simp add: w_def MAX_ROOM_PATH_LEN_def MAX_PATH_SIZE_def)
  have lw: "length w = 40 + length path + length nm"
    using r by (simp add: w_def rsp_room_wire_def)
  then have w: "slice (put w (zeros 136)) 0 (40 + length path + length nm) = Some w" "length w \<le> 505"
    using nm(2) path(2) by (simp_all add: slice_def put_def)
  obtain fs where fs: "query_rooms_loop cts (i + 1) rs = Some fs" "fs \<noteq> []" "fst (last fs) = FRAME_RSP_ROOMS_DONE"
      "\<forall>f \<in> set fs. length (snd f) \<le> 505"
    using Cons.IH [of "i + 1"] Cons.prems by auto
  have "query_rooms_loop cts i (r # rs) = Some ((FRAME_RSP_ROOM, w) # fs)"
    by (simp only: query_rooms_loop.simps Let_def path(1) nm(1) enc w(1) fs(1) bind.bind_lunit prod.case)
  then show ?case
    using fs w(2) by (auto simp: FRAME_RSP_ROOMS_DONE_def)
qed simp

lemma admin_send_all_ok:
  assumes "so_far E out a" "fs \<noteq> []" "fst (last fs) \<in> ts" "\<forall>f \<in> set fs. length (snd f) \<le> 505"
  shows "owp (admin_send_all E fs a) (\<lambda>_ a'. answered E out ts a') (\<lambda>_ a'. write_failed E a')"
  using assms
proof (induction fs arbitrary: a)
  case (Cons f fs)
  obtain t p where f: "f = (t, p)"
    by (cases f)
  show ?case
  proof (cases fs)
    case Nil
    then show ?thesis
      using Cons.prems owp_reply [of p E out a t ts] by (simp add: f owp_simps)
  next
    case (Cons g gs)
    show ?thesis
      unfolding f admin_send_all.simps owp_simps
      by (rule owp_mono [OF owp_reply [OF _ Cons.prems(1), of _ _ "{t}"]])
        (use Cons.IH [OF answered_so_far] Cons.prems(2-4) Cons in \<open>auto simp: f\<close>)
  qed
qed simp

lemma admin_query_rooms_ok:
  assumes a: "admin_ok E a"
  shows "owp (admin_query_rooms E a) (\<lambda>_ a'. answered E (ad_out a) {FRAME_RSP_ROOMS_DONE} a') (\<lambda>_ a'. write_failed E a')"
proof -
  have cfg: "config_shape (ad_config a)"
    using a by (simp add: admin_ok_def)
  then have sl: "slice (pc_room_extras (ad_config a)) 0 (n_rooms (ad_config a)) = Some (live_rooms (ad_config a))"
    "slice (pc_contacts (ad_config a)) 0 (n_contacts (ad_config a)) = Some (live_contacts (ad_config a))"
    by (simp_all add: config_shape_def live_defs slice_prefix)
  obtain fs where "query_rooms_loop (live_contacts (ad_config a)) 0 (live_rooms (ad_config a)) = Some fs" "fs \<noteq> []"
      "fst (last fs) = FRAME_RSP_ROOMS_DONE" "\<forall>f \<in> set fs. length (snd f) \<le> 505"
    using query_rooms_loop_ok [OF live_ok(1,3) [OF cfg], of 0] by blast
  then show ?thesis
    using admin_send_all_ok [OF so_far_refl [OF a]] by (simp add: admin_query_rooms_def handle_query_rooms_def sl)
qed

lemma lock_load_total: "\<exists>r. lock_load N s = Some r"
  by (auto simp: lock_load_def get_blob_def lock_deserialize_def LOCK_BLOB_LEN_def slice_def Let_def
      split: sum.split option.split NvsVal.split)

lemma rts_load_total: "\<exists>r. rts_load N s nd = Some r"
  by (auto simp: rts_load_def rts_deserialize_spec split: sum.split option.split)

lemma admin_query_lock_ok:
  assumes a: "admin_ok E a"
  shows "owp (admin_query_lock E a) (\<lambda>_ a'. answered E (ad_out a) {FRAME_RSP_LOCK} a') (\<lambda>_ a'. write_failed E a')"
proof -
  let ?nd = "(nf_visual (pc_notif_defaults (ad_config a)), nf_audible (pc_notif_defaults (ad_config a)))"
  obtain r where r: "rts_load (ae_nvs E) (ad_nvs a) ?nd = Some r"
    using rts_load_total [of "ae_nvs E" "ad_nvs a" ?nd] by blast
  obtain pin n where l: "lock_load (ae_nvs E) (ad_nvs a) = Some (pin, n)"
    using lock_load_total [of "ae_nvs E" "ad_nvs a"] by auto
  show ?thesis
    by (simp add: admin_query_lock_def Let_def r l encode_rsp_lock_spec owp_reply_buf so_far_refl a)
qed

lemma region_load_name_bounds:
  assumes "region_load_name N s = Inr (name, n)"
  shows "length name = 31" "unat n \<le> 31"
  using assms
  by (auto simp: region_load_name_def get_blob_def filled_def REGION_NAME_MAX_def unat_of_nat_u8
      split: if_splits sum.splits option.splits NvsVal.splits)

lemma handle_query_region_total:
  assumes "length name \<le> 31"
  shows "\<exists>b r. handle_query_region name (zeros (1 + MAX_REGION_NAME_LEN)) = Some (b, r) \<and> length b = 32 \<and> (\<forall>n. r = QR_Encoded n \<longrightarrow> n \<le> 32)"
proof (cases "name = [] \<or> valid_region_name name")
  case True
  then show ?thesis
    using encode_region_spec(2) [of name "zeros (1 + MAX_REGION_NAME_LEN)"] assms validate_region_name_OK_iff [of name "()"]
    by (auto simp: handle_query_region_def text_wire_def MAX_REGION_NAME_LEN_def REGION_NAME_MAX_def)
next
  case False
  then obtain e where "validate_region_name name = Inl e"
    using validate_region_name_OK_iff [of name] by (cases "validate_region_name name") auto
  then show ?thesis
    using False by (simp add: handle_query_region_def MAX_REGION_NAME_LEN_def REGION_NAME_MAX_def)
qed

lemma admin_query_region_ok:
  assumes a: "admin_ok E a"
  shows "owp (admin_query_region E a) (\<lambda>_ a'. answered E (ad_out a) {FRAME_RSP_REGION, FRAME_RSP_ERROR} a') (\<lambda>_ a'. write_failed E a')"
proof (cases "region_load_name (ae_nvs E) (ad_nvs a)")
  case (Inl e)
  then show ?thesis
    by (simp add: admin_query_region_def owp_reply_error so_far_refl a)
next
  case (Inr r)
  obtain name n where r: "r = (name, n)"
    by (cases r)
  note b = region_load_name_bounds [OF Inr [unfolded r]]
  have sl: "slice name 0 (unat n) = Some (take (unat n) name)"
    using b by (simp add: slice_prefix)
  obtain buf q where q: "handle_query_region (take (unat n) name) (zeros (1 + MAX_REGION_NAME_LEN)) = Some (buf, q)" "length buf = 32"
      "\<forall>n. q = QR_Encoded n \<longrightarrow> n \<le> 32"
    using handle_query_region_total [of "take (unat n) name"] b by auto
  then show ?thesis
    using so_far_refl [OF a]
    by (cases q) (simp_all add: admin_query_region_def Inr r sl owp_reply_buf owp_reply_error)
qed

lemma admin_query_advert_ok:
  assumes E: "env_ok E" and a: "admin_ok E a"
  shows "owp (admin_query_advert E payload a) (\<lambda>_ a'. answered E (ad_out a) {FRAME_RSP_ADVERT, FRAME_RSP_ERROR} a') (\<lambda>_ a'. write_failed E a')"
proof -
  define nm where "nm = take (unat (ad_name_len a)) (ad_name a)"
  have nm: "slice (ad_name a) 0 (unat (ad_name_len a)) = Some nm"
    using a by (simp add: nm_def slice_prefix admin_ok_def)
  define str where "str = (if utf8_valid nm then nm else [])"
  define last_ts where "last_ts = load_last_advert_ts (ae_nvs E) (ad_nvs a)"
  have saved: "\<exists>s'. save_last_advert_ts N ts s = Some s'" for N ts and s :: 'a
    by (auto simp: save_last_advert_ts_def ignored_def nvs_open_ns_def nvs_set_def and_then_def split: prod.split bool.split)
  show ?thesis
  proof (cases "decode_query_advert payload")
    case None
    then show ?thesis
      by (auto simp: decode_query_advert_def split: if_splits)
  next
    case (Some d)
    show ?thesis
    proof (cases d)
      case (Inl e)
      then show ?thesis
        using Some so_far_refl [OF a]
        by (simp add: admin_query_advert_def nm handle_query_advert_def owp_reply_error)
    next
      case (Inr h)
      define ts where "ts = next_advert_timestamp h last_ts"
      define who where "who = resolve_advert_name str (id_pub_hash (ae_identity E))"
      define card where "card = card_bytes (ae_curve E) (ae_identity E) ts (card_name who)"
      have id: "length (id_pubkey (ae_identity E)) = 32" "\<And>m. length (sign (ae_curve E) (ae_identity E) m) = 64"
        using E by (simp_all add: env_ok_def)
      have "who \<noteq> []"
        by (simp add: who_def resolve_advert_name_def)
      then have b: "build_self_advert_card (ae_curve E) (ae_identity E) ts who (zeros MAX_ADVERT_CARD_LEN) =
          Some (put card (zeros MAX_ADVERT_CARD_LEN), length card)"
        using build_card [OF id, of who "zeros MAX_ADVERT_CARD_LEN"] by (simp add: card_def card_consts)
      have "length card \<le> 134"
        using id card_name_le [of who] by (simp add: card_def card_bytes_def)
      then have len: "length card \<le> 505" "length card \<le> length (put card (zeros MAX_ADVERT_CARD_LEN))"
        by (simp_all add: put_def)
      obtain s where "save_last_advert_ts (ae_nvs E) ts (ad_nvs a) = Some s"
        using saved by blast
      then show ?thesis
        using so_far_refl [OF a] owp_reply_buf [OF len(2,1), of E "ad_out a" "a\<lparr>ad_nvs := s\<rparr>"]
        by (simp add: admin_query_advert_def nm handle_query_advert_def Some Inr Let_def b so_far_def
            flip: str_def last_ts_def ts_def who_def)
    qed
  qed
qed

section \<open>What an edit is to do\<close>

record ConfigView =
  cv_contacts :: "Contact list"
  cv_channels :: "Channel list"
  cv_rooms :: "RoomExtra list"
  cv_notif :: NotifDefaults
  cv_pin :: "bytes \<times> u8"

definition config_view :: "ProvisionedConfig \<Rightarrow> ConfigView" where
  "config_view c = \<lparr>cv_contacts = live_contacts c, cv_channels = live_channels c, cv_rooms = live_rooms c,
     cv_notif = pc_notif_defaults c, cv_pin = (pc_pin c, pc_pin_len c)\<rparr>"

definition contact_of :: "AddContactPayload \<Rightarrow> Contact" where
  "contact_of c = \<lparr>ct_pubkey = ac_pubkey c, ct_telemetry_enable = ac_telemetry_enable c, ct_role = ROLE_CHAT,
     ct_display_name = ac_display_name c, ct_display_name_len = ac_display_name_len c\<rparr>"

definition channel_of :: "AddChannelPayload \<Rightarrow> Channel" where
  "channel_of c = \<lparr>ch_secret = ach_secret c, ch_key_len = ach_key_len c, ch_primary = ach_primary c,
     ch_name = ach_name c, ch_name_len = ach_name_len c\<rparr>"

definition room_contact_of :: "AddRoomPayload \<Rightarrow> Contact" where
  "room_contact_of r = \<lparr>ct_pubkey = ar_pubkey r, ct_telemetry_enable = False, ct_role = ROLE_ROOM,
     ct_display_name = ar_name r, ct_display_name_len = ar_name_len r\<rparr>"

definition room_extra_of :: "AddRoomPayload \<Rightarrow> RoomExtra" where
  "room_extra_of r = \<lparr>re_pubkey = ar_pubkey r, re_guest_password = ar_guest_password r,
     re_guest_password_len = ar_guest_password_len r, re_sync_since = 0, re_permissions = 0,
     re_out_path = zeros MAX_PATH_SIZE, re_out_path_len = 0\<rparr>"

text \<open>Every room entry belongs to a contact, no contact has two.\<close>

definition rooms_sound :: "ConfigView \<Rightarrow> bool" where
  "rooms_sound v \<longleftrightarrow> distinct (map re_pubkey (cv_rooms v)) \<and> re_pubkey ` set (cv_rooms v) \<subseteq> ct_pubkey ` set (cv_contacts v)"

text \<open>The effect of an edit on the live lists and settings, from the decoded request.\<close>

definition config_edit :: "u8 \<Rightarrow> bytes \<Rightarrow> ConfigView \<Rightarrow> ConfigView" where
  "config_edit t p v =
     (if t = FRAME_ADD_CONTACT then (case decode_add_contact p of Some (Inr c) \<Rightarrow>
         v\<lparr>cv_contacts := put_by ct_pubkey (contact_of c) (cv_contacts v)\<rparr> | _ \<Rightarrow> v)
      else if t = FRAME_DEL_CONTACT then (case decode_del_contact p of Some (Inr k) \<Rightarrow>
         v\<lparr>cv_contacts := drop_by ct_pubkey k (cv_contacts v)\<rparr> | _ \<Rightarrow> v)
      else if t = FRAME_ADD_CHANNEL then (case decode_add_channel p of Some (Inr c) \<Rightarrow>
         v\<lparr>cv_channels := put_by ch_secret (channel_of c) (unprimary (channel_of c) (cv_channels v))\<rparr> | _ \<Rightarrow> v)
      else if t = FRAME_DEL_CHANNEL then (case decode_del_channel p of Some (Inr k) \<Rightarrow>
         v\<lparr>cv_channels := drop_by ch_secret k (cv_channels v)\<rparr> | _ \<Rightarrow> v)
      else if t = FRAME_ADD_ROOM then (case decode_add_room p of Some (Inr r) \<Rightarrow>
         v\<lparr>cv_contacts := put_by ct_pubkey (room_contact_of r) (cv_contacts v),
           cv_rooms := put_by re_pubkey (room_extra_of r) (cv_rooms v)\<rparr> | _ \<Rightarrow> v)
      else if t = FRAME_DEL_ROOM then (case decode_del_room p of Some (Inr k) \<Rightarrow>
         v\<lparr>cv_contacts := drop_by ct_pubkey k (cv_contacts v), cv_rooms := drop_by re_pubkey k (cv_rooms v)\<rparr> | _ \<Rightarrow> v)
      else if t = FRAME_SET_NOTIF_DEFAULTS then (case decode_set_notif_defaults p of Some (Inr n) \<Rightarrow>
         v\<lparr>cv_notif := \<lparr>nf_visual = nd_visual n, nf_audible = nd_audible n\<rparr>\<rparr> | _ \<Rightarrow> v)
      else if t = FRAME_SET_PIN then (case decode_set_pin p of Some (Inr n) \<Rightarrow>
         v\<lparr>cv_pin := (pt_text n, pt_len n)\<rparr> | _ \<Rightarrow> v)
      else v)"

definition durable :: "('s, 'p) AdminEnv \<Rightarrow> ('s, 'p) Admin \<Rightarrow> bool" where
  "durable E a \<longleftrightarrow> stored_config (ae_nvs E) (ad_nvs a) = Some (next_boot (ad_config a))"

text \<open>An edit that was answered: with OK, and then it is made and stored; or with an error, and then, unless the
  storage failed, nothing has changed.\<close>

definition edited :: "('s, 'p) AdminEnv \<Rightarrow> ('s, 'p) Admin \<Rightarrow> (ConfigView \<Rightarrow> ConfigView) \<Rightarrow> ('s, 'p) Admin \<Rightarrow> bool" where
  "edited E a f a' \<longleftrightarrow> admin_ok E a' \<and>
     (replied (ad_out a) [(FRAME_RSP_OK, [])] (ad_out a') \<and> config_view (ad_config a') = f (config_view (ad_config a)) \<and> durable E a'
      \<or> (\<exists>code msg. replied (ad_out a) [(FRAME_RSP_ERROR, rsp_error_wire code msg)] (ad_out a')
           \<and> (code \<noteq> STORAGE_ERROR \<longrightarrow> ad_config a' = ad_config a \<and> ad_nvs a' = ad_nvs a)))"

definition persisted :: "('s, 'p) AdminEnv \<Rightarrow> ('s, 'p) Admin \<Rightarrow> (ConfigView \<Rightarrow> ConfigView) \<Rightarrow> ('s, 'p) Admin \<Rightarrow> bool" where
  "persisted E a f a' \<longleftrightarrow> admin_ok E a' \<and>
     (replied (ad_out a) [(FRAME_RSP_OK, [])] (ad_out a') \<and> config_view (ad_config a') = f (config_view (ad_config a)) \<and> durable E a'
      \<or> (\<exists>msg. replied (ad_out a) [(FRAME_RSP_ERROR, rsp_error_wire STORAGE_ERROR msg)] (ad_out a')))"

lemma persisted_edited: "persisted E a f a' \<Longrightarrow> edited E a f a'"
  by (auto simp: persisted_def edited_def)

lemma persisted_nvs:
  assumes "persisted E a f a'" "stored_config (ae_nvs E) s = stored_config (ae_nvs E) (ad_nvs a')"
  shows "persisted E a f (a'\<lparr>ad_nvs := s\<rparr>)"
  using assms by (auto simp: persisted_def durable_def)

lemma edited_answered: "edited E a f a' \<Longrightarrow> answered E (ad_out a) {FRAME_RSP_OK, FRAME_RSP_ERROR} a'"
proof -
  have one: "\<exists>rs. rs \<noteq> [] \<and> fst (last rs) \<in> {FRAME_RSP_OK, FRAME_RSP_ERROR} \<and> replied out rs out'"
    if "replied out [(t, p)] out'" "t \<in> {FRAME_RSP_OK, FRAME_RSP_ERROR}" for out t p out'
    using that by (intro exI [of _ "[(t, p)]"]) simp
  assume "edited E a f a'"
  then show ?thesis
    unfolding edited_def answered_def using one by blast
qed

section \<open>Edits\<close>

lemma save_total:
  assumes "nvs_ok N" "config_shape c"
  obtains (ok) s' where "save_provisioned_config N c s = Some (Inr (), s')" "stored_config N s' = Some (next_boot c)"
    | (failed) s' where "save_provisioned_config N c s = Some (Inl (), s')"
proof (rule save_provisioned_config_cases [OF assms, of s])
  fix s'
  assume save: "save_provisioned_config N c s = Some (Inr (), s')"
    and at: "nvs_at N s' = (nvs_at N s)((NS_CFG, NVS_KEY_CFG_BLOB) \<mapsto> NvBlob (config_bytes c), (NS_CFG, NVS_KEY_PROV_FLAG) \<mapsto> NvU8 1)"
  then show thesis
    using stored_after_writes [OF assms(2), of N s'] by (intro ok) simp_all
qed (rule failed, assumption)+

lemma rollback_shape: "config_shape c \<Longrightarrow> config_shape (rollback k c)"
proof -
  have le: "unat (dec_sat n) \<le> unat n" for n
    using count_down [of n] by (cases "n = 0") (auto simp: dec_sat_def unat_gt_0)
  assume "config_shape c"
  then show ?thesis
    using le [of "pc_contact_count c"] le [of "pc_channel_count c"] le [of "pc_room_count c"]
    by (cases k) (auto simp: config_shape_def)
qed

lemma owp_persist:
  assumes E: "env_ok E" and a: "admin_ok E a" and c: "config_shape c" "config_view c = f (config_view (ad_config a))"
  shows "owp (persist_or_rollback E k (a\<lparr>ad_config := c\<rparr>)) (\<lambda>_ a'. persisted E a f a') (\<lambda>_ a'. write_failed E a')"
proof -
  have N: "nvs_ok (ae_nvs E)"
    using E by (simp add: env_ok_def)
  show ?thesis
  proof (rule save_total [OF N c(1), of "ad_nvs a"])
    fix s'
    assume "save_provisioned_config (ae_nvs E) c (ad_nvs a) = Some (Inr (), s')"
      and "stored_config (ae_nvs E) s' = Some (next_boot c)"
    then show ?thesis
      using admin_ok_config [OF a c(1)] c(2)
      by (simp add: persist_or_rollback_def reply_ok_def on_out_def owp_simps)
        (rule owp_mono [OF owp_send_ok]; simp add: persisted_def write_failed_def durable_def)
  next
    fix s'
    assume "save_provisioned_config (ae_nvs E) c (ad_nvs a) = Some (Inl (), s')"
    then show ?thesis
      using admin_ok_config [OF _ rollback_shape [OF c(1), of k], of E "a\<lparr>ad_nvs := s'\<rparr>"] a
      by (simp add: persist_or_rollback_def reply_error_def on_out_def owp_simps)
        (rule owp_mono [OF owp_send_error]; auto simp: persisted_def write_failed_def)
  qed
qed

lemma owp_persist_setting:
  assumes E: "env_ok E" and a: "admin_ok E a" and c: "config_shape c" "config_view c = f (config_view (ad_config a))"
  shows "owp (persist_setting E (a\<lparr>ad_config := c\<rparr>)) (\<lambda>_ a'. edited E a f a') (\<lambda>_ a'. write_failed E a')"
proof -
  have N: "nvs_ok (ae_nvs E)"
    using E by (simp add: env_ok_def)
  show ?thesis
  proof (rule save_total [OF N c(1), of "ad_nvs a"])
    fix s'
    assume "save_provisioned_config (ae_nvs E) c (ad_nvs a) = Some (Inr (), s')"
      and "stored_config (ae_nvs E) s' = Some (next_boot c)"
    then show ?thesis
      using admin_ok_config [OF a c(1)] c(2)
      by (simp add: persist_setting_def reply_ok_def on_out_def owp_simps)
        (rule owp_mono [OF owp_send_ok]; simp add: edited_def write_failed_def durable_def)
  next
    fix s'
    assume "save_provisioned_config (ae_nvs E) c (ad_nvs a) = Some (Inl (), s')"
    then show ?thesis
      using admin_ok_config [OF a c(1)]
      by (simp add: persist_setting_def reply_error_def on_out_def owp_simps)
        (rule owp_mono [OF owp_send_error]; auto simp: edited_def write_failed_def)
  qed
qed

lemma owp_refuse:
  assumes "admin_ok E a" "code \<noteq> STORAGE_ERROR"
  shows "owp (reply_error E code msg a) (\<lambda>_ a'. edited E a f a') (\<lambda>_ a'. write_failed E a')"
  unfolding reply_error_def on_out_def owp_simps
  by (rule owp_mono [OF owp_send_error]) (use assms in \<open>auto simp: edited_def write_failed_def\<close>)

lemma config_edit_simps:
  "decode_add_contact p = Some (Inr c) \<Longrightarrow> config_edit FRAME_ADD_CONTACT p v =
     v\<lparr>cv_contacts := put_by ct_pubkey (contact_of c) (cv_contacts v)\<rparr>"
  "decode_del_contact p = Some (Inr k) \<Longrightarrow> config_edit FRAME_DEL_CONTACT p v =
     v\<lparr>cv_contacts := drop_by ct_pubkey k (cv_contacts v)\<rparr>"
  "decode_add_channel p = Some (Inr d) \<Longrightarrow> config_edit FRAME_ADD_CHANNEL p v =
     v\<lparr>cv_channels := put_by ch_secret (channel_of d) (unprimary (channel_of d) (cv_channels v))\<rparr>"
  "decode_del_channel p = Some (Inr k) \<Longrightarrow> config_edit FRAME_DEL_CHANNEL p v =
     v\<lparr>cv_channels := drop_by ch_secret k (cv_channels v)\<rparr>"
  "decode_add_room p = Some (Inr r) \<Longrightarrow> config_edit FRAME_ADD_ROOM p v =
     v\<lparr>cv_contacts := put_by ct_pubkey (room_contact_of r) (cv_contacts v),
       cv_rooms := put_by re_pubkey (room_extra_of r) (cv_rooms v)\<rparr>"
  "decode_del_room p = Some (Inr k) \<Longrightarrow> config_edit FRAME_DEL_ROOM p v =
     v\<lparr>cv_contacts := drop_by ct_pubkey k (cv_contacts v), cv_rooms := drop_by re_pubkey k (cv_rooms v)\<rparr>"
  "decode_set_notif_defaults p = Some (Inr nd) \<Longrightarrow> config_edit FRAME_SET_NOTIF_DEFAULTS p v =
     v\<lparr>cv_notif := \<lparr>nf_visual = nd_visual nd, nf_audible = nd_audible nd\<rparr>\<rparr>"
  "decode_set_pin p = Some (Inr n) \<Longrightarrow> config_edit FRAME_SET_PIN p v = v\<lparr>cv_pin := (pt_text n, pt_len n)\<rparr>"
  "config_edit FRAME_COMMIT_PROVISIONING p v = v"
  by (simp_all add: config_edit_def frame_types)

lemma error_codes: "DECODE_ERROR \<noteq> STORAGE_ERROR" "CONTACT_LIST_FULL \<noteq> STORAGE_ERROR" "CHANNEL_LIST_FULL \<noteq> STORAGE_ERROR"
  "CONTACT_NOT_FOUND \<noteq> STORAGE_ERROR" "CHANNEL_NOT_FOUND \<noteq> STORAGE_ERROR"
  by (simp_all add: DECODE_ERROR_def STORAGE_ERROR_def CONTACT_LIST_FULL_def CHANNEL_LIST_FULL_def CONTACT_NOT_FOUND_def
      CHANNEL_NOT_FOUND_def)

lemma same_config [simp]: "a\<lparr>ad_config := ad_config a\<rparr> = a"
  by (cases a) simp

lemma owp_persist_last:
  assumes "env_ok E" "admin_ok E a" "config_shape c" "config_view c = f (config_view (ad_config a))"
  shows "owp (and_then (persist_or_rollback E k (a\<lparr>ad_config := c\<rparr>)) (\<lambda>_ a. Some (Inr (), a)))
    (\<lambda>_ a'. edited E a f a') (\<lambda>_ a'. write_failed E a')"
  unfolding owp_simps using owp_persist [where f = f, OF assms] by (rule owp_mono) (simp_all add: persisted_edited)

lemma admin_shape: "admin_ok E a \<Longrightarrow> config_shape (ad_config a)"
  by (simp add: admin_ok_def)

lemma admin_add_contact_ok:
  assumes E: "env_ok E" and a: "admin_ok E a"
  shows "owp (admin_add_contact E p a) (\<lambda>_ a'. edited E a (config_edit FRAME_ADD_CONTACT p) a') (\<lambda>_ a'. write_failed E a')"
proof -
  obtain d where d: "decode_add_contact p = Some d" and wf: "\<forall>x. d = Inr x \<longrightarrow> contact_ok (contact_of x)"
    using decode_add_contact_total [of p] by (auto simp: contact_ok_def contact_of_def text_ok_def)
  show ?thesis
  proof (cases d)
    case (Inl e)
    then show ?thesis
      by (simp add: admin_add_contact_def d owp_refuse a error_codes)
  next
    case (Inr c)
    have c: "contact_ok (contact_of c)"
      using wf Inr by simp
    show ?thesis
    proof (rule upsert_contact_spec [OF admin_shape [OF a] c])
      assume "upsert_contact (ad_config a) (contact_of c) = Some (ad_config a, Inl ListFull)"
      then show ?thesis
        by (simp add: admin_add_contact_def d Inr owp_refuse a error_codes flip: contact_of_def)
    next
      fix cfg u
      assume 1: "upsert_contact (ad_config a) (contact_of c) = Some (cfg, Inr u)" "config_shape cfg"
        "live_contacts cfg = put_by ct_pubkey (contact_of c) (live_contacts (ad_config a))"
        "cfg = (ad_config a)\<lparr>pc_contacts := pc_contacts cfg, pc_contact_count := pc_contact_count cfg\<rparr>"
      have "live_channels cfg = live_channels (ad_config a)" "live_rooms cfg = live_rooms (ad_config a)"
        "pc_notif_defaults cfg = pc_notif_defaults (ad_config a)" "pc_pin cfg = pc_pin (ad_config a)" "pc_pin_len cfg = pc_pin_len (ad_config a)"
        by (subst 1(4), simp add: live_defs)+
      then have "config_view cfg = config_edit FRAME_ADD_CONTACT p (config_view (ad_config a))"
        using 1(3) config_edit_simps(1) [OF d [unfolded Inr]] by (simp add: config_view_def)
      then show ?thesis
        using owp_persist_last [OF E a 1(2)] 1(1) by (simp add: admin_add_contact_def d Inr flip: contact_of_def)
    qed
  qed
qed

lemma keys_apart [simp]: "NS_RPL \<noteq> NS_CFG" "NS_ROOM \<noteq> NS_CFG"
  by (simp_all add: NS_RPL_def NS_ROOM_def NS_CFG_def)

lemma ignored_erase:
  assumes "nvs_ok N" "ns \<noteq> NS_CFG"
  shows "\<exists>s'. ignored (nvs_erase N ns key s) = Some s' \<and> stored_config N s' = stored_config N s"
  by (rule nvs_erase_cases [OF assms(1), of ns key s]) (use assms(2) in \<open>auto simp: ignored_def intro!: stored_config_cong\<close>)

lemma ignored_set:
  assumes "nvs_ok N" "ns \<noteq> NS_CFG"
  shows "\<exists>s'. ignored (nvs_set N ns key v s) = Some s' \<and> stored_config N s' = stored_config N s"
  by (rule nvs_set_cases [OF assms(1), of ns key v s]) (use assms(2) in \<open>auto simp: ignored_def intro!: stored_config_cong\<close>)

lemma delete_replay_stored:
  assumes "nvs_ok N"
  shows "\<exists>s'. delete_inbound_replay_state N h s = Some s' \<and> stored_config N s' = stored_config N s"
  using ignored_erase [OF assms, of NS_RPL "replay_key h" s] by (simp add: delete_inbound_replay_state_def)

lemma delete_session_stored:
  assumes "nvs_ok N"
  shows "\<exists>s'. delete_room_session N h s = Some s' \<and> stored_config N s' = stored_config N s"
proof (cases "nvs_open N s NS_ROOM")
  case True
  obtain s1 where "ignored (nvs_erase N NS_ROOM (room_key h) s) = Some s1" "stored_config N s1 = stored_config N s"
    using ignored_erase [OF assms, of NS_ROOM "room_key h" s] by auto
  then show ?thesis
    using True ignored_set [OF assms, of NS_ROOM "room_epoch_key h" _ s1] by (simp add: delete_room_session_def Let_def)
qed (simp add: delete_room_session_def)

lemma admin_del_contact_ok:
  assumes E: "env_ok E" and a: "admin_ok E a"
  shows "owp (admin_del_contact E p a) (\<lambda>_ a'. edited E a (config_edit FRAME_DEL_CONTACT p) a') (\<lambda>_ a'. write_failed E a')"
proof -
  have N: "nvs_ok (ae_nvs E)"
    using E by (simp add: env_ok_def)
  obtain d where d: "decode_del_contact p = Some d" and wf: "\<forall>x. d = Inr x \<longrightarrow> length x = 32"
    using decode_del_contact_total [of p] by blast
  have sl: "slice (pc_contacts (ad_config a)) 0 (n_contacts (ad_config a)) = Some (live_contacts (ad_config a))"
    using admin_shape [OF a] by (simp add: config_shape_def live_defs slice_prefix)
  show ?thesis
  proof (cases d)
    case (Inl e)
    then show ?thesis
      by (simp add: admin_del_contact_def d owp_refuse a error_codes)
  next
    case (Inr k)
    show ?thesis
    proof (cases "position (\<lambda>c. ct_pubkey c = k) (live_contacts (ad_config a))")
      case None
      then show ?thesis
        by (simp add: admin_del_contact_def d Inr sl owp_refuse a error_codes)
    next
      case (Some i)
      show ?thesis
      proof (rule remove_contact_spec [OF admin_shape [OF a] Some])
        fix cfg
        assume 1: "remove_contact_at i (ad_config a) = Some cfg" "config_shape cfg"
          "live_contacts cfg = drop_by ct_pubkey k (live_contacts (ad_config a))"
          "cfg = (ad_config a)\<lparr>pc_contacts := pc_contacts cfg, pc_contact_count := pc_contact_count cfg\<rparr>"
        have "live_channels cfg = live_channels (ad_config a)" "live_rooms cfg = live_rooms (ad_config a)"
          "pc_notif_defaults cfg = pc_notif_defaults (ad_config a)" "pc_pin cfg = pc_pin (ad_config a)" "pc_pin_len cfg = pc_pin_len (ad_config a)"
          by (subst 1(4), simp add: live_defs)+
        then have view: "config_view cfg = config_edit FRAME_DEL_CONTACT p (config_view (ad_config a))"
          using 1(3) config_edit_simps(2) [OF d [unfolded Inr]] by (simp add: config_view_def)
        have h: "get_at k 0 = Some (k ! 0)"
          using wf Inr by (simp add: get_at_def)
        have del: "owp (delete_inbound_replay_state (ae_nvs E) (k ! 0) (ad_nvs a') \<bind> (\<lambda>s. Some (Inr (), a'\<lparr>ad_nvs := s\<rparr>)))
            (\<lambda>_ a'. edited E a (config_edit FRAME_DEL_CONTACT p) a') (\<lambda>_ a'. write_failed E a')"
          if "persisted E a (config_edit FRAME_DEL_CONTACT p) a'" for a'
          using delete_replay_stored [OF N, of "k ! 0" "ad_nvs a'"] persisted_edited [OF persisted_nvs [OF that]]
          by (auto simp: owp_simps)
        show ?thesis
          by (simp add: admin_del_contact_def d Inr sl Some 1(1) h owp_simps)
            (rule owp_mono [OF owp_persist [where f = "config_edit FRAME_DEL_CONTACT p", OF E a 1(2) view]]; use del in simp)
      qed
    qed
  qed
qed

lemma admin_add_channel_ok:
  assumes E: "env_ok E" and a: "admin_ok E a"
  shows "owp (admin_add_channel E p a) (\<lambda>_ a'. edited E a (config_edit FRAME_ADD_CHANNEL p) a') (\<lambda>_ a'. write_failed E a')"
proof -
  obtain d where d: "decode_add_channel p = Some d" and wf: "\<forall>x. d = Inr x \<longrightarrow> channel_ok (channel_of x)"
    using decode_add_channel_total [of p] by (auto simp: channel_ok_def channel_of_def text_ok_def)
  show ?thesis
  proof (cases d)
    case (Inl e)
    then show ?thesis
      by (simp add: admin_add_channel_def d owp_refuse a error_codes)
  next
    case (Inr c)
    have c: "channel_ok (channel_of c)"
      using wf Inr by simp
    show ?thesis
    proof (rule upsert_channel_spec [OF admin_shape [OF a] c])
      assume "upsert_channel (ad_config a) (channel_of c) = Some (ad_config a, Inl ListFull)"
      then show ?thesis
        by (simp add: admin_add_channel_def d Inr owp_refuse a error_codes flip: channel_of_def)
    next
      fix cfg u
      assume 1: "upsert_channel (ad_config a) (channel_of c) = Some (cfg, Inr u)" "config_shape cfg"
        "live_channels cfg = put_by ch_secret (channel_of c) (unprimary (channel_of c) (live_channels (ad_config a)))"
        "cfg = (ad_config a)\<lparr>pc_channels := pc_channels cfg, pc_channel_count := pc_channel_count cfg\<rparr>"
      have "live_contacts cfg = live_contacts (ad_config a)" "live_rooms cfg = live_rooms (ad_config a)"
        "pc_notif_defaults cfg = pc_notif_defaults (ad_config a)" "pc_pin cfg = pc_pin (ad_config a)" "pc_pin_len cfg = pc_pin_len (ad_config a)"
        by (subst 1(4), simp add: live_defs)+
      then have "config_view cfg = config_edit FRAME_ADD_CHANNEL p (config_view (ad_config a))"
        using 1(3) config_edit_simps(3) [OF d [unfolded Inr]] by (simp add: config_view_def)
      then show ?thesis
        using owp_persist_last [OF E a 1(2)] 1(1) by (simp add: admin_add_channel_def d Inr flip: channel_of_def)
    qed
  qed
qed

lemma admin_del_channel_ok:
  assumes E: "env_ok E" and a: "admin_ok E a"
  shows "owp (admin_del_channel E p a) (\<lambda>_ a'. edited E a (config_edit FRAME_DEL_CHANNEL p) a') (\<lambda>_ a'. write_failed E a')"
proof -
  obtain d where d: "decode_del_channel p = Some d"
    using decode_del_channel_total [of p] by blast
  have sl: "slice (pc_channels (ad_config a)) 0 (n_channels (ad_config a)) = Some (live_channels (ad_config a))"
    using admin_shape [OF a] by (simp add: config_shape_def live_defs slice_prefix)
  show ?thesis
  proof (cases d)
    case (Inl e)
    then show ?thesis
      by (simp add: admin_del_channel_def d owp_refuse a error_codes)
  next
    case (Inr k)
    show ?thesis
    proof (cases "position (\<lambda>c. ch_secret c = k) (live_channels (ad_config a))")
      case None
      then show ?thesis
        by (simp add: admin_del_channel_def d Inr sl owp_refuse a error_codes)
    next
      case (Some i)
      show ?thesis
      proof (rule remove_channel_spec [OF admin_shape [OF a] Some])
        fix cfg
        assume 1: "remove_channel_at i (ad_config a) = Some cfg" "config_shape cfg"
          "live_channels cfg = drop_by ch_secret k (live_channels (ad_config a))"
          "cfg = (ad_config a)\<lparr>pc_channels := pc_channels cfg, pc_channel_count := pc_channel_count cfg\<rparr>"
        have "live_contacts cfg = live_contacts (ad_config a)" "live_rooms cfg = live_rooms (ad_config a)"
          "pc_notif_defaults cfg = pc_notif_defaults (ad_config a)" "pc_pin cfg = pc_pin (ad_config a)" "pc_pin_len cfg = pc_pin_len (ad_config a)"
          by (subst 1(4), simp add: live_defs)+
        then have "config_view cfg = config_edit FRAME_DEL_CHANNEL p (config_view (ad_config a))"
          using 1(3) config_edit_simps(4) [OF d [unfolded Inr]] by (simp add: config_view_def)
        then show ?thesis
          using owp_persist_last [OF E a 1(2)] 1(1) by (simp add: admin_del_channel_def d Inr sl Some)
      qed
    qed
  qed
qed

lemma owp_persist_room:
  assumes E: "env_ok E" and a: "admin_ok E a" and c: "config_shape c" "config_view c = f (config_view (ad_config a))"
  shows "owp (persist_room E p (a\<lparr>ad_config := c\<rparr>)) (\<lambda>_ a'. edited E a f a') (\<lambda>_ a'. write_failed E a')"
proof -
  have N: "nvs_ok (ae_nvs E)"
    using E by (simp add: env_ok_def)
  have del: "owp (delete_room_session (ae_nvs E) h (ad_nvs a') \<bind> (\<lambda>s. Some (Inr (), a'\<lparr>ad_nvs := s\<rparr>)))
      (\<lambda>_ a'. edited E a f a') (\<lambda>_ a'. write_failed E a')" if "persisted E a f a'" for a' h
    using delete_session_stored [OF N, of h "ad_nvs a'"] persisted_edited [OF persisted_nvs [OF that]]
    by (auto simp: owp_simps)
  show ?thesis
    by (simp add: persist_room_def Let_def owp_simps)
      (rule owp_mono [OF owp_persist [where f = f, OF E a c]]; use del persisted_edited in auto)
qed

lemma rooms_sound_room:
  assumes cfg: "config_shape c" and sound: "rooms_sound (config_view c)"
  shows "n_rooms c < 16 \<or> k \<in> re_pubkey ` set (live_rooms c)
    \<or> n_contacts c = 16 \<and> k \<notin> ct_pubkey ` set (live_contacts c)"
proof (cases "n_rooms c < 16")
  case False
  then have n: "length (live_rooms c) = 16"
    using cfg length_live_entries(3) [OF cfg] by (simp add: config_shape_def)
  let ?R = "re_pubkey ` set (live_rooms c)" and ?C = "ct_pubkey ` set (live_contacts c)"
  have R: "card ?R = 16" "?R \<subseteq> ?C"
    using sound n distinct_card [of "map re_pubkey (live_rooms c)"] by (auto simp: rooms_sound_def config_view_def)
  have C: "card ?C \<le> n_contacts c" "n_contacts c \<le> 16"
    using card_length [of "map ct_pubkey (live_contacts c)"] length_live_entries(1) [OF cfg] cfg by (auto simp: config_shape_def)
  have le: "card ?R \<le> card ?C"
    using R(2) by (intro card_mono) simp_all
  have "?R = ?C"
    by (rule card_subset_eq) (use R C le in simp_all)
  moreover have "n_contacts c = 16"
    using R C le by simp
  ultimately show ?thesis
    by auto
qed simp

lemma rooms_sound_counts:
  assumes cfg: "config_shape c" and sound: "rooms_sound (config_view c)"
  shows "n_rooms c \<le> n_contacts c"
proof -
  have "card (re_pubkey ` set (live_rooms c)) = n_rooms c"
    using sound length_live_entries(3) [OF cfg] distinct_card [of "map re_pubkey (live_rooms c)"]
    by (simp add: rooms_sound_def config_view_def)
  moreover have "card (re_pubkey ` set (live_rooms c)) \<le> card (ct_pubkey ` set (live_contacts c))"
    using sound by (intro card_mono) (simp_all add: rooms_sound_def config_view_def)
  ultimately show ?thesis
    using card_length [of "map ct_pubkey (live_contacts c)"] length_live_entries(1) [OF cfg] by simp
qed

lemma admin_add_room_ok:
  assumes E: "env_ok E" and a: "admin_ok E a" and sound: "rooms_sound (config_view (ad_config a))"
  shows "owp (admin_add_room E p a) (\<lambda>_ a'. edited E a (config_edit FRAME_ADD_ROOM p) a') (\<lambda>_ a'. write_failed E a')"
proof -
  obtain d where d: "decode_add_room p = Some d"
    and wf: "\<forall>x. d = Inr x \<longrightarrow> contact_ok (room_contact_of x) \<and> extra_ok (room_extra_of x)"
    using decode_add_room_total [of p]
    by (auto simp: contact_ok_def room_contact_of_def extra_ok_def room_extra_of_def text_ok_def MAX_PATH_SIZE_def)
  show ?thesis
  proof (cases d)
    case (Inl e)
    then show ?thesis
      by (simp add: admin_add_room_def handle_add_room_def d owp_refuse a error_codes)
  next
    case (Inr r)
    let ?c = "(room_contact_of r)\<lparr>ct_role := ROLE_CHAT\<rparr>"
    have c: "contact_ok ?c" and e: "extra_ok (room_extra_of r)"
      using wf Inr by (simp_all add: contact_ok_def)
    note room = rooms_sound_room [OF admin_shape [OF a] sound, of "ct_pubkey ?c"]
    have code: "handle_add_room (ad_config a) p = do {
        (config, u) \<leftarrow> upsert_room (ad_config a) ?c (room_extra_of r);
        Some (config, case u of Inr UpAdded \<Rightarrow> ArAdded | Inr UpUpdated \<Rightarrow> ArUpdated | Inl _ \<Rightarrow> ArListFull)
      }"
      by (simp add: handle_add_room_def d Inr Let_def room_contact_of_def room_extra_of_def)
    show ?thesis
    proof (rule upsert_room_spec [OF admin_shape [OF a] c e room])
      assume "upsert_room (ad_config a) ?c (room_extra_of r) = Some (ad_config a, Inl ListFull)"
      then show ?thesis
        by (simp add: admin_add_room_def code owp_refuse a error_codes)
    next
      fix cfg u
      assume 1: "upsert_room (ad_config a) ?c (room_extra_of r) = Some (cfg, Inr u)" "config_shape cfg"
        "live_contacts cfg = put_by ct_pubkey (?c\<lparr>ct_role := ROLE_ROOM\<rparr>) (live_contacts (ad_config a))"
        "live_rooms cfg = put_by re_pubkey ((room_extra_of r)\<lparr>re_pubkey := ct_pubkey ?c\<rparr>) (live_rooms (ad_config a))"
        "live_channels cfg = live_channels (ad_config a)"
        "pc_notif_defaults cfg = pc_notif_defaults (ad_config a)" "pc_pin cfg = pc_pin (ad_config a)" "pc_pin_len cfg = pc_pin_len (ad_config a)"
      have same: "?c\<lparr>ct_role := ROLE_ROOM\<rparr> = room_contact_of r" "(room_extra_of r)\<lparr>re_pubkey := ct_pubkey ?c\<rparr> = room_extra_of r"
        by (simp_all add: room_contact_of_def room_extra_of_def)
      have "config_view cfg = config_edit FRAME_ADD_ROOM p (config_view (ad_config a))"
        using 1(3-) config_edit_simps(5) [OF d [unfolded Inr]] unfolding same by (simp add: config_view_def)
      then show ?thesis
        using owp_persist_room [OF E a 1(2)] 1(1) by (cases u) (simp_all add: admin_add_room_def code)
    qed
  qed
qed

lemma admin_del_room_ok:
  assumes E: "env_ok E" and a: "admin_ok E a" and sound: "rooms_sound (config_view (ad_config a))"
  shows "owp (admin_del_room E p a) (\<lambda>_ a'. edited E a (config_edit FRAME_DEL_ROOM p) a') (\<lambda>_ a'. write_failed E a')"
proof -
  obtain d where d: "decode_del_room p = Some d"
    using decode_del_contact_total [of p] by (auto simp: decode_del_room_def)
  show ?thesis
  proof (cases d)
    case (Inl e)
    then show ?thesis
      by (simp add: admin_del_room_def handle_del_room_def d owp_refuse a error_codes)
  next
    case (Inr k)
    show ?thesis
    proof (rule remove_room_spec [OF admin_shape [OF a], of k])
      fix cfg b
      assume 1: "remove_room (ad_config a) k = Some (cfg, b)" "config_shape cfg"
        "live_contacts cfg = drop_by ct_pubkey k (live_contacts (ad_config a))"
        "live_rooms cfg = drop_by re_pubkey k (live_rooms (ad_config a))" "live_channels cfg = live_channels (ad_config a)"
        "pc_notif_defaults cfg = pc_notif_defaults (ad_config a)" "pc_pin cfg = pc_pin (ad_config a)" "pc_pin_len cfg = pc_pin_len (ad_config a)"
      assume known: "b \<longleftrightarrow> k \<in> ct_pubkey ` set (live_contacts (ad_config a))"
        and same: "k \<notin> re_pubkey ` set (live_rooms (ad_config a)) \<Longrightarrow> \<not> b \<Longrightarrow> cfg = ad_config a"
      have view: "config_view cfg = config_edit FRAME_DEL_ROOM p (config_view (ad_config a))"
        using 1(3-) config_edit_simps(6) [OF d [unfolded Inr]] by (simp add: config_view_def)
      show ?thesis
      proof (cases b)
        case True
        then show ?thesis
          using owp_persist_room [where f = "config_edit FRAME_DEL_ROOM p", OF E a 1(2) view] 1(1)
          by (simp add: admin_del_room_def handle_del_room_def d Inr)
      next
        case False
        then have "cfg = ad_config a"
          using known same sound by (auto simp: rooms_sound_def config_view_def)
        then show ?thesis
          using 1(1) False by (simp add: admin_del_room_def handle_del_room_def d Inr owp_refuse a error_codes)
      qed
    qed
  qed
qed

end
