(* ===== verification/Admin_Safety.thy ===== *)
theory Admin_Safety
  imports Admin_Arms
begin

text \<open>
  What the requests of the USB admin server (Admin_Server) do: no request panics on a well-formed state, every
  known request is answered, and an edit that is answered with OK has been made, is stored, and is what the
  next boot loads.  The lemmas at the end show where the code falls short of this.
\<close>

text \<open>Every edit keeps the room entries paired, save the deletion of a room's contact by DEL_CONTACT.\<close>

lemma drop_by_keys: "key ` set (drop_by key k xs) \<subseteq> key ` set xs" "key ` set xs - {k} \<subseteq> key ` set (drop_by key k xs)"
proof -
  show "key ` set (drop_by key k xs) \<subseteq> key ` set xs"
    by (auto simp: drop_by_def dest: in_set_takeD in_set_dropD split: option.split)
  show "key ` set xs - {k} \<subseteq> key ` set (drop_by key k xs)"
  proof (cases "position (\<lambda>y. key y = k) xs")
    case (Some i)
    then have i: "i < length xs" "key (xs ! i) = k"
      by (auto dest: position_SomeD)
    have "set xs = insert (xs ! i) (set (take i xs @ drop (Suc i) xs))"
      using i(1) id_take_nth_drop [OF i(1)] by (metis Un_insert_right list.simps(15) set_append)
    then show ?thesis
      using i(2) Some by (auto simp: drop_by_def)
  qed (simp add: drop_by_def)
qed

lemma drop_by_distinct:
  assumes "distinct (map key xs)"
  shows "distinct (map key (drop_by key k xs))" "k \<notin> key ` set (drop_by key k xs)"
proof -
  have "map key (drop_by key k xs) = filter (\<lambda>x. x \<noteq> k) (map key xs)"
  proof (cases "position (\<lambda>y. key y = k) xs")
    case None
    then have "\<forall>x \<in> set xs. key x \<noteq> k"
      by (simp add: position_None_iff)
    then have "filter (\<lambda>x. x \<noteq> k) (map key xs) = map key xs"
      by (intro filter_True) simp
    then show ?thesis
      using None by (simp add: drop_by_def)
  next
    case (Some i)
    then have i: "i < length xs" "key (xs ! i) = k"
      by (auto dest: position_SomeD)
    have xs: "map key xs = map key (take i xs) @ k # map key (drop (Suc i) xs)"
      using id_take_nth_drop [OF i(1)] i(2) by (metis list.simps(9) map_append)
    then have "k \<notin> set (map key (take i xs)) \<union> set (map key (drop (Suc i) xs))"
      using assms by (metis Un_iff distinct_append distinct.simps(2) disjoint_iff list.set_intros(1))
    then have "filter (\<lambda>x. x \<noteq> k) (map key (take i xs)) = map key (take i xs)"
      "filter (\<lambda>x. x \<noteq> k) (map key (drop (Suc i) xs)) = map key (drop (Suc i) xs)"
      by (auto intro!: filter_True)
    then show ?thesis
      unfolding xs using Some by (simp add: drop_by_def)
  qed
  then show "distinct (map key (drop_by key k xs))" "k \<notin> key ` set (drop_by key k xs)"
    using assms by (metis distinct_filter, metis (mono_tags, lifting) list.set_map mem_Collect_eq set_filter)
qed

lemma put_by_set: "key ` set (put_by key x xs) = insert (key x) (key ` set xs)"
proof -
  have "key ` set (put_by key x xs) = set (map key (put_by key x xs))"
    by simp
  also have "\<dots> = insert (key x) (key ` set xs)"
    unfolding put_by_keys by auto
  finally show ?thesis .
qed

lemma put_by_distinct: "distinct (map key xs) \<Longrightarrow> distinct (map key (put_by key x xs))"
  unfolding put_by_keys by auto

lemma case_decoded: "(\<And>x. m = Some (Inr x) \<Longrightarrow> P (f x)) \<Longrightarrow> P v \<Longrightarrow> P (case m of Some (Inr x) \<Rightarrow> f x | _ \<Rightarrow> v)"
  by (simp split: option.split sum.split)

definition drops_room :: "u8 \<Rightarrow> bytes \<Rightarrow> ConfigView \<Rightarrow> bool" where
  "drops_room t p v \<longleftrightarrow> t = FRAME_DEL_CONTACT \<and> (\<exists>r \<in> set (cv_rooms v). decode_del_contact p = Some (Inr (re_pubkey r)))"

lemma rooms_sound_edit:
  assumes v: "rooms_sound v" and keep: "\<not> drops_room t p v"
  shows "rooms_sound (config_edit t p v)"
proof -
  have d: "distinct (map re_pubkey (cv_rooms v))" and sub: "re_pubkey ` set (cv_rooms v) \<subseteq> ct_pubkey ` set (cv_contacts v)"
    using v by (simp_all add: rooms_sound_def)
  have add_contact: "rooms_sound (v\<lparr>cv_contacts := put_by ct_pubkey c (cv_contacts v)\<rparr>)" for c
    using d sub by (simp add: rooms_sound_def put_by_set subset_insertI2)
  have add_room: "rooms_sound (v\<lparr>cv_contacts := put_by ct_pubkey (room_contact_of r) (cv_contacts v),
      cv_rooms := put_by re_pubkey (room_extra_of r) (cv_rooms v)\<rparr>)" for r
    using put_by_distinct [OF d, of "room_extra_of r"] insert_mono [OF sub, of "ar_pubkey r"]
    by (simp add: rooms_sound_def put_by_set) (simp add: room_extra_of_def room_contact_of_def)
  have del_contact: "rooms_sound (v\<lparr>cv_contacts := drop_by ct_pubkey k (cv_contacts v)\<rparr>)" if "k \<notin> re_pubkey ` set (cv_rooms v)" for k
  proof -
    have "re_pubkey ` set (cv_rooms v) \<subseteq> ct_pubkey ` set (cv_contacts v) - {k}"
      using sub that by (simp only: subset_Diff_insert Diff_empty simp_thms)
    then show ?thesis
      using d drop_by_keys(2) [of ct_pubkey "cv_contacts v" k] by (simp add: rooms_sound_def)
  qed
  have del_room: "rooms_sound (v\<lparr>cv_contacts := drop_by ct_pubkey k (cv_contacts v), cv_rooms := drop_by re_pubkey k (cv_rooms v)\<rparr>)" for k
  proof -
    note dr = drop_by_distinct [OF d, of k]
    have "re_pubkey ` set (drop_by re_pubkey k (cv_rooms v)) \<subseteq> ct_pubkey ` set (cv_contacts v) - {k}"
      using order_trans [OF drop_by_keys(1) sub, of k] dr(2) by (simp only: subset_Diff_insert Diff_empty simp_thms)
    then show ?thesis
      using dr(1) drop_by_keys(2) [of ct_pubkey "cv_contacts v" k] by (simp add: rooms_sound_def)
  qed
  have other: "rooms_sound (v\<lparr>cv_channels := c\<rparr>)" "rooms_sound (v\<lparr>cv_notif := n\<rparr>)" "rooms_sound (v\<lparr>cv_pin := q\<rparr>)" for c n q
    using v by (simp_all add: rooms_sound_def)
  have del: "rooms_sound (v\<lparr>cv_contacts := drop_by ct_pubkey k (cv_contacts v)\<rparr>)"
    if "t = FRAME_DEL_CONTACT" "decode_del_contact p = Some (Inr k)" for k
    using keep that by (intro del_contact) (auto simp: drops_room_def)
  have pick: "rooms_sound (if b then x else y)" if "b \<Longrightarrow> rooms_sound x" "rooms_sound y" for b x y
    using that by simp
  show ?thesis
    unfolding config_edit_def
    by (intro pick case_decoded [where P = rooms_sound] v add_contact add_room del_room other) (rule del; assumption)
qed

section \<open>Settings outside the configuration\<close>

lemma lock_save_total: "length pin = 4 \<Longrightarrow> \<exists>r s'. lock_save N pin n s = Some (r, s')"
  by (auto simp: lock_save_def nvs_open_ns_def lock_serialize_def LOCK_BLOB_LEN_def LOCK_PIN_LEN_def slice_def set_at_def
      copy_into_def nvs_set_def split: prod.split bool.split)

lemma admin_set_lock_pin_ok:
  assumes a: "admin_ok E a"
  shows "owp (admin_set_lock_pin E p a) (\<lambda>_ a'. answered E (ad_out a) {FRAME_RSP_OK, FRAME_RSP_ERROR} a') (\<lambda>_ a'. write_failed E a')"
proof -
  have "\<exists>d. decode_set_lock_pin p = Some d \<and> (\<forall>x. d = Inr x \<longrightarrow> length x = 4)"
    by (simp add: decode_set_lock_pin_iff)
  then obtain d where d: "decode_set_lock_pin p = Some d" and wf: "\<forall>x. d = Inr x \<longrightarrow> length x = 4"
    by blast
  show ?thesis
  proof (cases d)
    case (Inl e)
    then show ?thesis
      by (simp add: admin_set_lock_pin_def d owp_reply_error so_far_refl a)
  next
    case (Inr pin)
    obtain r s where s: "lock_save (ae_nvs E) pin (of_nat LOCK_PIN_LEN) (ad_nvs a) = Some (r, s)"
      using lock_save_total [of pin "ae_nvs E" "of_nat LOCK_PIN_LEN" "ad_nvs a"] wf Inr by auto
    have "so_far E (ad_out a) (snd (send_or_count E ev (a\<lparr>ad_nvs := s\<rparr>)))" "so_far E (ad_out a) (a\<lparr>ad_nvs := s\<rparr>)" for ev
      using so_far_refl [OF a] by (simp_all add: send_or_count_def so_far_def)
    then show ?thesis
      by (cases r) (simp_all add: admin_set_lock_pin_def d Inr s split_beta owp_reply_ok owp_reply_error)
  qed
qed

lemma admin_set_lock_config_ok:
  assumes a: "admin_ok E a"
  shows "owp (admin_set_lock_config E p a) (\<lambda>_ a'. answered E (ad_out a) {FRAME_RSP_OK, FRAME_RSP_ERROR} a') (\<lambda>_ a'. write_failed E a')"
proof -
  have "\<exists>d. decode_set_lock_config p = Some d"
    by (auto simp: decode_set_lock_config_def get_at_def slice_def Let_def)
  then obtain d where d: "decode_set_lock_config p = Some d"
    by blast
  have "so_far E (ad_out a) (snd (send_or_count E ev a))" for ev
    using so_far_refl [OF a] by (simp add: send_or_count_def so_far_def)
  then show ?thesis
    using so_far_refl [OF a]
    by (cases d) (simp_all add: admin_set_lock_config_def d split_beta owp_reply_ok owp_reply_error)
qed

lemma identity_set_name_total: "\<exists>r s'. identity_set_name N name s = Some (r, s')"
proof -
  obtain b w where "nvs_write N s (NS_ID, NVS_KEY_NAME) (NvBlob (take MAX_NAME_LEN name)) = (b, w)"
    by (cases "nvs_write N s (NS_ID, NVS_KEY_NAME) (NvBlob (take MAX_NAME_LEN name))")
  then show ?thesis
    by (cases b) (simp_all add: identity_set_name_def nvs_open_ns_def slice_clamp nvs_set_def and_then_def)
qed

lemma admin_set_device_name_ok:
  assumes a: "admin_ok E a"
  shows "owp (admin_set_device_name E p a) (\<lambda>_ a'. answered E (ad_out a) {FRAME_RSP_OK, FRAME_RSP_ERROR} a') (\<lambda>_ a'. write_failed E a')"
proof -
  obtain d where d: "decode_set_device_name p = Some d" and wf: "\<forall>x. d = Inr x \<longrightarrow> text_ok 32 (pt_text x) (pt_len x)"
    using decode_set_device_name_total [of p] by blast
  show ?thesis
  proof (cases d)
    case (Inl e)
    then show ?thesis
      by (simp add: admin_set_device_name_def d owp_reply_error so_far_refl a)
  next
    case (Inr n)
    have n: "length (pt_text n) = 32" "unat (pt_len n) \<le> 32"
      using wf Inr by (simp_all add: text_ok_def)
    obtain r s where s: "identity_set_name (ae_nvs E) (take (unat (pt_len n)) (pt_text n)) (ad_nvs a) = Some (r, s)"
      using identity_set_name_total [of "ae_nvs E" "take (unat (pt_len n)) (pt_text n)" "ad_nvs a"] by auto
    have "so_far E (ad_out a) (a\<lparr>ad_nvs := s, ad_name := pt_text n, ad_name_len := pt_len n\<rparr>)" "so_far E (ad_out a) (a\<lparr>ad_nvs := s\<rparr>)"
      using so_far_refl [OF a] n by (simp_all add: so_far_def admin_ok_def)
    then show ?thesis
      using n by (cases r) (simp_all add: admin_set_device_name_def d Inr s slice_prefix owp_reply_ok owp_reply_error)
  qed
qed

lemma region_save_total:
  assumes "vr_as_bytes v = Some nm"
  shows "\<exists>r s'. region_save N (vr_name v) (vr_name_len v) s = Some (r, s')"
proof -
  define n where "n = min (unat (vr_name_len v)) REGION_NAME_MAX"
  have "n \<le> length (vr_name v)"
    using assms by (simp add: n_def vr_as_bytes_def slice_def split: if_splits)
  then have sl: "slice (vr_name v) 0 n = Some (take n (vr_name v))"
    by (rule slice_prefix)
  show ?thesis
  proof (cases "nvs_open N s NS_REGION")
    case True
    obtain r e where "nvs_remove N s (NS_REGION, NVS_KEY_REGION_NAME) = (r, e)"
      by (cases "nvs_remove N s (NS_REGION, NVS_KEY_REGION_NAME)")
    moreover obtain b w where "nvs_write N s (NS_REGION, NVS_KEY_REGION_NAME) (NvBlob (take n (vr_name v))) = (b, w)"
      by (cases "nvs_write N s (NS_REGION, NVS_KEY_REGION_NAME) (NvBlob (take n (vr_name v)))")
    ultimately show ?thesis
      by (cases r; cases b; cases "n = 0")
        (simp_all add: region_save_def nvs_open_ns_def True Let_def nvs_erase_def nvs_set_def and_then_def sl flip: n_def)
  qed (simp add: region_save_def nvs_open_ns_def and_then_def)
qed

lemma admin_set_region_ok:
  assumes a: "admin_ok E a"
  shows "owp (admin_set_region E p a) (\<lambda>_ a'. answered E (ad_out a) {FRAME_RSP_OK, FRAME_RSP_ERROR} a') (\<lambda>_ a'. write_failed E a')"
proof -
  obtain q where q: "handle_set_region p = Some q" and wf: "\<forall>v. q = SR_Apply v \<longrightarrow> (\<exists>nm. vr_as_bytes v = Some nm)"
    using handle_set_region_total [of p] by blast
  show ?thesis
  proof (cases q)
    case (SR_Apply v)
    then obtain r s where s: "region_save (ae_nvs E) (vr_name v) (vr_name_len v) (ad_nvs a) = Some (r, s)"
      using wf region_save_total [of v _ "ae_nvs E" "ad_nvs a"] by auto
    have "so_far E (ad_out a) (a\<lparr>ad_nvs := s\<rparr>)"
      using so_far_refl [OF a] by (simp add: so_far_def)
    then show ?thesis
      by (cases r) (simp_all add: admin_set_region_def q SR_Apply s owp_reply_ok owp_reply_error)
  qed (simp_all add: admin_set_region_def q owp_reply_error so_far_refl a)
qed

lemma admin_set_notif_defaults_ok:
  assumes E: "env_ok E" and a: "admin_ok E a"
  shows "owp (admin_set_notif_defaults E p a) (\<lambda>_ a'. edited E a (config_edit FRAME_SET_NOTIF_DEFAULTS p) a') (\<lambda>_ a'. write_failed E a')"
proof -
  have "\<exists>d. decode_set_notif_defaults p = Some d"
    by (auto simp: decode_set_notif_defaults_def get_at_def Let_def)
  then obtain d where d: "decode_set_notif_defaults p = Some d"
    by blast
  show ?thesis
  proof (cases d)
    case (Inl e)
    then show ?thesis
      by (simp add: admin_set_notif_defaults_def d owp_refuse a error_codes)
  next
    case (Inr n)
    let ?c = "(ad_config a)\<lparr>pc_notif_defaults := \<lparr>nf_visual = nd_visual n, nf_audible = nd_audible n\<rparr>\<rparr>"
    have "config_shape ?c"
      using admin_shape [OF a] by (simp add: config_shape_def)
    moreover have "config_view ?c = config_edit FRAME_SET_NOTIF_DEFAULTS p (config_view (ad_config a))"
      using config_edit_simps(7) [OF d [unfolded Inr]] by (simp add: config_view_def live_defs)
    ultimately show ?thesis
      using owp_persist_setting [where f = "config_edit FRAME_SET_NOTIF_DEFAULTS p", OF E a]
      by (simp add: admin_set_notif_defaults_def d Inr)
  qed
qed

lemma admin_set_pin_ok:
  assumes E: "env_ok E" and a: "admin_ok E a"
  shows "owp (admin_set_pin E p a) (\<lambda>_ a'. edited E a (config_edit FRAME_SET_PIN p) a') (\<lambda>_ a'. write_failed E a')"
proof -
  obtain d where d: "decode_set_pin p = Some d" and wf: "\<forall>x. d = Inr x \<longrightarrow> text_ok 16 (pt_text x) (pt_len x)"
    using decode_set_pin_total [of p] by blast
  show ?thesis
  proof (cases d)
    case (Inl e)
    then show ?thesis
      by (simp add: admin_set_pin_def d owp_refuse a error_codes)
  next
    case (Inr n)
    let ?c = "(ad_config a)\<lparr>pc_pin := pt_text n, pc_pin_len := pt_len n\<rparr>"
    have "config_shape ?c"
      using admin_shape [OF a] wf Inr by (simp add: config_shape_def text_ok_def)
    moreover have "config_view ?c = config_edit FRAME_SET_PIN p (config_view (ad_config a))"
      using config_edit_simps(8) [OF d [unfolded Inr]] by (simp add: config_view_def live_defs)
    ultimately show ?thesis
      using owp_persist_setting [where f = "config_edit FRAME_SET_PIN p", OF E a]
      by (simp add: admin_set_pin_def d Inr)
  qed
qed

lemma admin_commit_ok:
  assumes E: "env_ok E" and a: "admin_ok E a"
  shows "owp (persist_setting E a) (\<lambda>_ a'. edited E a (config_edit FRAME_COMMIT_PROVISIONING p) a') (\<lambda>_ a'. write_failed E a')"
  using owp_persist_setting [where f = "config_edit FRAME_COMMIT_PROVISIONING p", OF E a admin_shape [OF a]]
  by (simp add: config_edit_simps)

section \<open>History\<close>

definition exportable :: "('s, 'p) AdminEnv \<Rightarrow> ('s, 'p) Admin \<Rightarrow> bool" where
  "exportable E a \<longleftrightarrow> (\<forall>p. ad_hist a = Some p \<longrightarrow> hs_ok (ae_part E) p \<and>
     (\<forall>r < 24. \<forall>x \<in> set (region_view (region_at (ae_part E) p r)). unat (he_text_len (fst x)) \<le> 64))"

lemma export_entry_ok:
  assumes "wf_entry e" "unat (he_text_len e) \<le> 64" "tx_failed (ae_tx E) \<or> (\<exists>rs. replied out rs q)"
  shows "\<exists>q'. export_entry E idx e ours q = Some q' \<and> (tx_failed (ae_tx E) \<or> (\<exists>rs. replied out rs q'))"
proof -
  let ?b = "rsp_bytes idx e ours @ drop (9 + unat (he_text_len e)) (zeros (MAX_RSP_HISTORY_ENTRY_PAYLOAD + 1))"
  have len: "length (rsp_bytes idx e ours) = 9 + unat (he_text_len e)"
    using assms(1,2) by (simp add: rsp_bytes_def wf_entry_def)
  have enc: "encode_rsp_history_entry idx e ours (zeros (MAX_RSP_HISTORY_ENTRY_PAYLOAD + 1)) = Some (?b, 9 + unat (he_text_len e))"
    using assms(2) by (intro encode_rsp_spec [OF assms(1,2)]) (simp add: MAX_RSP_HISTORY_ENTRY_PAYLOAD_def)
  have sl: "slice ?b 0 (9 + unat (he_text_len e)) = Some (rsp_bytes idx e ours)"
    using len by (simp add: slice_def)
  have "length (rsp_bytes idx e ours) \<le> 505"
    using len assms(2) by simp
  then show ?thesis
  proof (rule owpE [OF owp_send_frame [of _ "ae_tx E" FRAME_RSP_HISTORY_ENTRY q]])
    fix x q' assume "send_frame (ae_tx E) FRAME_RSP_HISTORY_ENTRY (rsp_bytes idx e ours) q = Some (Inr x, q')"
      and r: "replied q [(FRAME_RSP_HISTORY_ENTRY, rsp_bytes idx e ours)] q'"
    then have "export_entry E idx e ours q = Some q'"
      unfolding export_entry_def enc bind.bind_lunit prod.case sl by (simp add: ignored_def)
    then show ?thesis
      using assms(3) replied_trans [OF _ r] by blast
  next
    fix x q' assume "send_frame (ae_tx E) FRAME_RSP_HISTORY_ENTRY (rsp_bytes idx e ours) q = Some (Inl x, q')" "tx_failed (ae_tx E)"
    then show ?thesis
      unfolding export_entry_def enc bind.bind_lunit prod.case sl by (simp add: ignored_def)
  qed
qed

lemma admin_export_history_ok:
  assumes a: "admin_ok E a" and x: "exportable E a"
  shows "owp (admin_export_history E a) (\<lambda>_ a'. answered E (ad_out a) {FRAME_RSP_HISTORY_DONE} a' \<or> write_failed E a')
    (\<lambda>_ a'. write_failed E a')"
proof (cases "ad_hist a")
  case None
  then show ?thesis
    using owp_reply [of "[]" E "ad_out a" a FRAME_RSP_HISTORY_DONE "{FRAME_RSP_HISTORY_DONE}"]
    by (simp add: admin_export_history_def so_far_refl a) (erule owp_mono; simp)
next
  case (Some p)
  let ?I = "\<lambda>q. tx_failed (ae_tx E) \<or> (\<exists>rs. replied (ad_out a) rs q)"
  have ok: "hs_ok (ae_part E) p"
    "\<forall>r < 24. \<forall>x \<in> set (region_view (region_at (ae_part E) p r)). unat (he_text_len (fst x)) \<le> 64"
    using x Some by (auto simp: exportable_def)
  have I: "?I (ad_out a)"
    using replied_Nil by blast
  have "owp (hs_export_entries (ae_part E) (export_entry E) (ad_out a, p)) (\<lambda>_ op. snd op = p \<and> ?I (fst op)) (\<lambda>_ op. snd op = p \<and> ?I (fst op))"
    unfolding hs_export_entries_def MAX_CONVERSATION_REGIONS_def
    by (rule owp_export_loop [where W = "\<lambda>e. unat (he_text_len e) \<le> 64" and I = ?I, OF ok])
      (use export_entry_ok I in simp_all)
  then have "\<exists>out. ignored (hs_export_entries (ae_part E) (export_entry E) (ad_out a, p)) = Some (out, p) \<and> ?I out"
    by (rule owpE) (auto simp: ignored_def)
  then obtain out where out: "ignored (hs_export_entries (ae_part E) (export_entry E) (ad_out a, p)) = Some (out, p)" "?I out"
    by blast
  let ?a = "a\<lparr>ad_out := out, ad_hist := Some p\<rparr>"
  have a': "admin_ok E ?a"
    using a Some by (simp add: admin_ok_def)
  show ?thesis
  proof (cases "tx_failed (ae_tx E)")
    case True
    have "owp (reply E FRAME_RSP_HISTORY_DONE [] ?a) (\<lambda>_ a'. answered E (ad_out ?a) {FRAME_RSP_HISTORY_DONE} a') (\<lambda>_ a'. write_failed E a')"
      by (rule owp_reply [OF _ so_far_refl [OF a']]) simp_all
    then show ?thesis
      using True by (simp add: admin_export_history_def Some out(1)) (erule owp_mono; simp add: answered_def write_failed_def)
  next
    case False
    have "owp (reply E FRAME_RSP_HISTORY_DONE [] ?a) (\<lambda>_ a'. answered E (ad_out a) {FRAME_RSP_HISTORY_DONE} a') (\<lambda>_ a'. write_failed E a')"
      using out(2) False a' by (intro owp_reply) (auto simp: so_far_def)
    then show ?thesis
      by (simp add: admin_export_history_def Some out(1)) (erule owp_mono; simp)
  qed
qed

lemma admin_clear_history_ok:
  assumes a: "admin_ok E a"
  shows "owp (admin_clear_history E a) (\<lambda>_ a'. answered E (ad_out a) {FRAME_RSP_OK, FRAME_RSP_ERROR} a') (\<lambda>_ a'. write_failed E a')"
proof (cases "ad_hist a")
  case None
  then show ?thesis
    by (simp add: admin_clear_history_def owp_reply_error so_far_refl a)
next
  case (Some p)
  then have "hs_flash (ae_part E) p"
    using a by (simp add: admin_ok_def)
  then show ?thesis
  proof (rule owpE [OF clear_all_spec])
    fix x q assume "hs_clear_all (ae_part E) p = Some (Inr x, q)" "hs_ok (ae_part E) q \<and> hs_log (ae_part E) q = (\<lambda>_. [])"
    moreover from this have "so_far E (ad_out a) (a\<lparr>ad_hist := Some q\<rparr>)"
      using so_far_refl [OF a] by (simp add: so_far_def admin_ok_def hs_ok_def)
    ultimately show ?thesis
      by (simp add: admin_clear_history_def Some owp_reply_ok)
  next
    fix x q assume "hs_clear_all (ae_part E) p = Some (Inl x, q)" "hs_flash (ae_part E) q"
    moreover from this have "so_far E (ad_out a) (a\<lparr>ad_hist := Some q\<rparr>)"
      using so_far_refl [OF a] by (simp add: so_far_def admin_ok_def)
    ultimately show ?thesis
      by (simp add: admin_clear_history_def Some owp_reply_error)
  qed
qed

section \<open>Every request\<close>

definition admin_requests :: "u8 set" where
  "admin_requests = {FRAME_QUERY_STATUS, FRAME_QUERY_ADVERT, FRAME_QUERY_CONTACTS, FRAME_QUERY_CHANNELS, FRAME_ADD_CONTACT,
     FRAME_DEL_CONTACT, FRAME_ADD_CHANNEL, FRAME_DEL_CHANNEL, FRAME_QUERY_ROOMS, FRAME_QUERY_LOCK, FRAME_QUERY_REGION,
     FRAME_ADD_ROOM, FRAME_DEL_ROOM, FRAME_SET_NOTIF_DEFAULTS, FRAME_SET_PIN, FRAME_SET_LOCK_PIN, FRAME_SET_LOCK_CONFIG,
     FRAME_SET_DEVICE_NAME, FRAME_SET_REGION, FRAME_COMMIT_PROVISIONING, FRAME_EXPORT_HISTORY, FRAME_CLEAR_HISTORY}"

text \<open>The types of the last frame of the answer.\<close>

definition answer_types :: "u8 \<Rightarrow> u8 set" where
  "answer_types t =
     (if t = FRAME_QUERY_STATUS then {FRAME_RSP_IDENTITY}
      else if t = FRAME_QUERY_ADVERT then {FRAME_RSP_ADVERT, FRAME_RSP_ERROR}
      else if t = FRAME_QUERY_CONTACTS then {FRAME_RSP_CONTACTS_DONE}
      else if t = FRAME_QUERY_CHANNELS then {FRAME_RSP_CHANNELS_DONE}
      else if t = FRAME_QUERY_ROOMS then {FRAME_RSP_ROOMS_DONE}
      else if t = FRAME_QUERY_LOCK then {FRAME_RSP_LOCK}
      else if t = FRAME_QUERY_REGION then {FRAME_RSP_REGION, FRAME_RSP_ERROR}
      else if t = FRAME_EXPORT_HISTORY then {FRAME_RSP_HISTORY_DONE}
      else {FRAME_RSP_OK, FRAME_RSP_ERROR})"

lemma owp_if: "(b \<Longrightarrow> owp m Q W) \<Longrightarrow> (\<not> b \<Longrightarrow> owp n Q W) \<Longrightarrow> owp (if b then m else n) Q W"
  by simp

lemma admin_handle_frame_spec:
  assumes E: "env_ok E" and a: "admin_ok E a"
    and name: "t = FRAME_QUERY_STATUS \<Longrightarrow> unat (ad_name_len a) \<le> 30"
    and sound: "t \<in> {FRAME_ADD_ROOM, FRAME_DEL_ROOM} \<Longrightarrow> rooms_sound (config_view (ad_config a))"
    and hist: "t = FRAME_EXPORT_HISTORY \<Longrightarrow> exportable E a"
  shows "owp (admin_handle_frame E t p a)
    (\<lambda>_ a'. if t \<in> admin_requests then answered E (ad_out a) (answer_types t) a' \<or> write_failed E a' else a' = a)
    (\<lambda>_ a'. t \<in> admin_requests \<and> write_failed E a')" (is "owp _ ?Q ?W")
proof -
  have arm: "owp m ?Q ?W"
    if "owp m (\<lambda>_ a'. answered E (ad_out a) ts a') (\<lambda>_ a'. write_failed E a')" "t \<in> admin_requests" "ts = answer_types t" for m ts
    using that(1) by (rule owp_mono) (simp_all add: that(2,3))
  have edit: "owp m ?Q ?W"
    if "owp m (\<lambda>_ a'. edited E a f a') (\<lambda>_ a'. write_failed E a')" "t \<in> admin_requests" "{FRAME_RSP_OK, FRAME_RSP_ERROR} = answer_types t" for m f
    using that(1) by (rule owp_mono) (use that(2,3) edited_answered in \<open>auto simp: edited_answered\<close>)
  have export: "owp (admin_export_history E a) ?Q ?W" if "t = FRAME_EXPORT_HISTORY"
    by (rule owp_mono [OF admin_export_history_ok [OF a hist]])
      (use that in \<open>simp_all add: admin_requests_def answer_types_def frame_types\<close>)
  have n: "n_contacts (ad_config a) \<le> 16" "n_channels (ad_config a) \<le> 8"
    using admin_shape [OF a] by (simp_all add: config_shape_def)
  note queries = admin_query_status_ok [OF E a name] admin_query_advert_ok [OF E a]
    admin_contacts_loop_ok [OF so_far_refl [OF a], of 0] admin_channels_loop_ok [OF so_far_refl [OF a], of 0]
    admin_query_rooms_ok [OF a] admin_query_lock_ok [OF a] admin_query_region_ok [OF a]
    admin_set_lock_pin_ok [OF a] admin_set_lock_config_ok [OF a] admin_set_device_name_ok [OF a] admin_set_region_ok [OF a]
    admin_clear_history_ok [OF a]
  note edits = admin_add_contact_ok [OF E a] admin_del_contact_ok [OF E a] admin_add_channel_ok [OF E a] admin_del_channel_ok [OF E a]
    admin_add_room_ok [OF E a sound] admin_del_room_ok [OF E a sound] admin_set_notif_defaults_ok [OF E a] admin_set_pin_ok [OF E a]
    admin_commit_ok [OF E a]
  show ?thesis
    unfolding admin_handle_frame_def admin_query_contacts_def admin_query_channels_def
  proof (intro owp_if)
    assume "t \<noteq> FRAME_QUERY_STATUS" "t \<noteq> FRAME_QUERY_ADVERT" "t \<noteq> FRAME_QUERY_CONTACTS" "t \<noteq> FRAME_QUERY_CHANNELS" "t \<noteq> FRAME_ADD_CONTACT"
     "t \<noteq> FRAME_DEL_CONTACT" "t \<noteq> FRAME_ADD_CHANNEL" "t \<noteq> FRAME_DEL_CHANNEL" "t \<noteq> FRAME_QUERY_ROOMS" "t \<noteq> FRAME_QUERY_LOCK" "t \<noteq> FRAME_QUERY_REGION"
     "t \<noteq> FRAME_ADD_ROOM" "t \<noteq> FRAME_DEL_ROOM" "t \<noteq> FRAME_SET_NOTIF_DEFAULTS" "t \<noteq> FRAME_SET_PIN" "t \<noteq> FRAME_SET_LOCK_PIN" "t \<noteq> FRAME_SET_LOCK_CONFIG"
     "t \<noteq> FRAME_SET_DEVICE_NAME" "t \<noteq> FRAME_SET_REGION" "t \<noteq> FRAME_COMMIT_PROVISIONING" "t \<noteq> FRAME_EXPORT_HISTORY" "t \<noteq> FRAME_CLEAR_HISTORY"
    then have "t \<notin> admin_requests"
      by (simp add: admin_requests_def)
    then show "owp (Some (Inr (), a)) ?Q ?W"
      by (simp add: owp_simps)
  qed (rule export, assumption | (rule arm, rule queries; use n in \<open>simp add: admin_requests_def answer_types_def frame_types\<close>)
    | (rule edit, rule edits; simp add: admin_requests_def answer_types_def frame_types))+
qed

text \<open>C15: The USB admin server never panics on a well-formed state and answers every known request: whatever the
  payload, the handler returns, the state stays well formed, and unless the serial writer refused a chunk the
  output has grown by whole frames, the last of them of a type that answers the request.  A request of unknown
  type changes nothing.  The hypotheses name what the code relies on: a status query on a device name of at most
  30 bytes, room edits on a configuration whose room entries belong to contacts, an export of a well-formed
  history.\<close>

theorem admin_request_answered:
  assumes "env_ok E" "admin_ok E a"
    and "t = FRAME_QUERY_STATUS \<Longrightarrow> unat (ad_name_len a) \<le> 30"
    and "t \<in> {FRAME_ADD_ROOM, FRAME_DEL_ROOM} \<Longrightarrow> rooms_sound (config_view (ad_config a))"
    and "t = FRAME_EXPORT_HISTORY \<Longrightarrow> exportable E a"
  shows "\<exists>r a'. admin_handle_frame E t p a = Some (r, a') \<and> admin_ok E a'
    \<and> (if t \<in> admin_requests
        then tx_failed (ae_tx E) \<or> r = Inr () \<and> (\<exists>rs. rs \<noteq> [] \<and> fst (last rs) \<in> answer_types t \<and> replied (ad_out a) rs (ad_out a'))
        else r = Inr () \<and> a' = a)"
  using admin_handle_frame_spec [of E a t p, OF assms]
  by (rule owpE) (use assms(2) in \<open>auto simp: answered_def write_failed_def split: if_splits\<close>)

section \<open>Edits of the configuration\<close>

definition config_edits :: "u8 set" where
  "config_edits = {FRAME_ADD_CONTACT, FRAME_DEL_CONTACT, FRAME_ADD_CHANNEL, FRAME_DEL_CHANNEL, FRAME_ADD_ROOM, FRAME_DEL_ROOM,
     FRAME_SET_NOTIF_DEFAULTS, FRAME_SET_PIN, FRAME_COMMIT_PROVISIONING}"

lemma admin_edit_spec:
  assumes E: "env_ok E" and a: "admin_ok E a" and t: "t \<in> config_edits" and sound: "rooms_sound (config_view (ad_config a))"
  shows "owp (admin_handle_frame E t p a) (\<lambda>_ a'. edited E a (config_edit t p) a') (\<lambda>_ a'. write_failed E a')"
proof -
  note edits = admin_add_contact_ok [OF E a, of p] admin_del_contact_ok [OF E a, of p] admin_add_channel_ok [OF E a, of p]
    admin_del_channel_ok [OF E a, of p] admin_add_room_ok [OF E a sound, of p] admin_del_room_ok [OF E a sound, of p]
    admin_set_notif_defaults_ok [OF E a, of p] admin_set_pin_ok [OF E a, of p] admin_commit_ok [OF E a, of p]
  show ?thesis
    using t unfolding config_edits_def by (elim insertE emptyE; use edits in \<open>simp add: admin_handle_frame_def frame_types\<close>)
qed

lemma durable_sound:
  assumes "admin_ok E a" "durable E a" "rooms_sound (config_view (ad_config a))"
  shows "stored_config (ae_nvs E) (ad_nvs a) = Some (Some (reloaded (ad_config a)))"
  using assms rooms_sound_counts [OF admin_shape [OF assms(1)]] by (simp add: durable_def next_boot_def)

text \<open>C16: An edit over USB is answered truthfully.  With OK: the live lists and settings are exactly the edit of those
  before (an upsert under the key, a deletion, a new setting, the rest untouched), every room entry still belongs to
  a contact, and what the NVS holds is the configuration the device now runs on, so a reboot loads it.  With an error
  other than a storage error: neither the configuration nor the NVS has changed.  The deletion of a room's contact by
  DEL_CONTACT is excluded, since it leaves the entry of the room behind.\<close>

theorem admin_edit_durable:
  assumes "env_ok E" "admin_ok E a" "t \<in> config_edits" "rooms_sound (config_view (ad_config a))"
    and "\<not> drops_room t p (config_view (ad_config a))"
  shows "\<exists>r a'. admin_handle_frame E t p a = Some (r, a') \<and> admin_ok E a' \<and> (r = Inl () \<longrightarrow> tx_failed (ae_tx E)) \<and> (r = Inr () \<longrightarrow>
     replied (ad_out a) [(FRAME_RSP_OK, [])] (ad_out a')
       \<and> config_view (ad_config a') = config_edit t p (config_view (ad_config a)) \<and> rooms_sound (config_view (ad_config a'))
       \<and> stored_config (ae_nvs E) (ad_nvs a') = Some (Some (reloaded (ad_config a')))
     \<or> (\<exists>code msg. replied (ad_out a) [(FRAME_RSP_ERROR, rsp_error_wire code msg)] (ad_out a')
       \<and> (code \<noteq> STORAGE_ERROR \<longrightarrow> ad_config a' = ad_config a \<and> ad_nvs a' = ad_nvs a)))"
  using admin_edit_spec [of E a t p, OF assms(1-4)]
proof (rule owpE)
  fix x a'
  assume run: "admin_handle_frame E t p a = Some (Inr x, a')" and e: "edited E a (config_edit t p) a'"
  have sound: "config_view (ad_config a') = config_edit t p (config_view (ad_config a)) \<Longrightarrow> rooms_sound (config_view (ad_config a'))"
    using rooms_sound_edit [OF assms(4,5)] by simp
  show ?thesis
    using run e sound durable_sound [of E a'] by (intro exI [of _ "Inr ()"] exI [of _ a']) (auto simp: edited_def)
qed (auto simp: write_failed_def)

section \<open>Where the code falls short\<close>

lemma long_identity_overflows:
  assumes "length pk = 32" "31 \<le> length name"
  shows "encode_rsp_identity pk name (zeros 64) = None"
  using assms by (simp add: encode_rsp_identity_def slice_clamp Let_def rust_simps MAX_NAME_LEN_def)

lemma send_frame_done:
  assumes "length p \<le> 505" "\<not> tx_failed tx"
  obtains w where "send_frame tx t p out = Some (Inr (), w)" "replied out [(t, p)] w"
  using owp_send_frame [OF assms(1), of tx t out] by (rule owpE) (use assms(2) that in auto)

lemma long_name_query:
  assumes E: "env_ok E" and tx: "\<not> tx_failed (ae_tx E)" and "ad_name a = pad 32 name" "ad_name_len a = of_nat (length name)"
    and "31 \<le> length name" "length name \<le> 32"
  shows "admin_query_status E a = None"
proof -
  have pk: "length (id_pubkey (ae_identity E)) = 32"
    using E by (simp add: env_ok_def)
  have n: "unat (of_nat (length name) :: u8) = length name"
    using assms(6) by (intro unat_of_nat_u8) simp
  have sl: "slice (pad 32 name) 0 (length name) = Some name"
    using assms(6) by (simp add: slice_def pad_def)
  have first: "\<exists>w. reply_buf E FRAME_RSP_STATUS (put st (zeros 64), 61) a = Some (Inr (), a\<lparr>ad_out := w\<rparr>)" for st
  proof -
    have "length (take 61 (put st (zeros 64))) \<le> 505" "61 \<le> length (put st (zeros 64))"
      using length_put_ge [of "zeros 64" st] by simp_all
    moreover obtain w where "send_frame (ae_tx E) FRAME_RSP_STATUS (take 61 (put st (zeros 64))) (ad_out a) = Some (Inr (), w)"
      by (rule send_frame_done [OF calculation(1) tx])
    ultimately show ?thesis
      by (auto simp: reply_buf_def slice_prefix reply_def on_out_def on_part_def)
  qed
  show ?thesis
  proof -
    have "and_then (reply_buf E FRAME_RSP_STATUS (put st (zeros 64), 61) a) (\<lambda>_ a. do {
       name \<leftarrow> slice (ad_name a) 0 (unat (ad_name_len a));
       identity_enc \<leftarrow> encode_rsp_identity (id_pubkey (ae_identity E)) name (zeros 64);
       reply_buf E FRAME_RSP_IDENTITY identity_enc a
     }) = None" for st
      using first [of st] by (auto simp: assms(3,4) n sl long_identity_overflows [OF pk assms(5)])
    then show ?thesis
      using encode_rsp_status_spec [of _ "zeros 64"] pk by (simp add: admin_query_status_def Let_def split_beta)
  qed
qed

text \<open>C17: SET_DEVICE_NAME accepts a name of 31 or 32 bytes, but QUERY_STATUS encodes the identity, 34 bytes and the
  name, into a buffer of 64: when such a name is set on a device whose NVS and serial line work, the request is
  answered with OK and every status query after it panics.\<close>

theorem long_device_name_panics:
  assumes "env_ok E" "\<not> tx_failed (ae_tx E)" "31 \<le> length name" "length name \<le> 32"
    and "identity_set_name (ae_nvs E) name (ad_nvs a) = Some (Inr (), s)"
  shows "\<exists>a'. admin_handle_frame E FRAME_SET_DEVICE_NAME (text_wire name) a = Some (Inr (), a')
    \<and> replied (ad_out a) [(FRAME_RSP_OK, [])] (ad_out a') \<and> admin_handle_frame E FRAME_QUERY_STATUS p a' = None"
proof -
  obtain w where w: "send_frame (ae_tx E) FRAME_RSP_OK [] (ad_out a) = Some (Inr (), w)" "replied (ad_out a) [(FRAME_RSP_OK, [])] w"
    using send_frame_done [of "[]" "ae_tx E"] assms(2) by auto
  let ?a = "a\<lparr>ad_nvs := s, ad_name := pad 32 name, ad_name_len := of_nat (length name), ad_out := w\<rparr>"
  have sl: "slice (pad 32 name) 0 (length name) = Some name"
    using assms(4) by (simp add: slice_def pad_def)
  have "admin_set_device_name E (text_wire name) a = Some (Inr (), ?a)"
    using decode_set_device_name_wire [OF assms(4), of "[]"] assms(4,5) w(1)
    by (simp add: admin_set_device_name_def unat_of_nat_u8 sl reply_ok_def on_out_def on_part_def send_ok_def)
  moreover have "admin_query_status E ?a = None"
    by (rule long_name_query [OF assms(1,2) _ _ assms(3,4)]) simp_all
  ultimately show ?thesis
    using w(2) by (intro exI [of _ ?a]) (simp add: admin_handle_frame_def frame_types)
qed

lemma drop_by_length: "k \<in> key ` set xs \<Longrightarrow> length (drop_by key k xs) = length xs - 1"
  by (auto simp: drop_by_def position_None_iff dest: position_SomeD split: option.split)

text \<open>C18: DEL_CONTACT does not look at the rooms.  On a device whose contacts are all rooms and whose flash and serial
  line work, deleting one is answered with OK and stores a configuration with more rooms than contacts, which the
  next boot refuses: the device comes up without a configuration.\<close>

theorem room_contact_deletion_unprovisions:
  assumes "env_ok E" "admin_ok E a" "decode_del_contact p = Some (Inr k)" "k \<in> ct_pubkey ` set (live_contacts (ad_config a))"
    and "n_contacts (ad_config a) \<le> n_rooms (ad_config a)" "\<not> tx_failed (ae_tx E)"
    and "\<And>c. config_shape c \<Longrightarrow> \<exists>s. save_provisioned_config (ae_nvs E) c (ad_nvs a) = Some (Inr (), s)"
  shows "\<exists>a'. admin_handle_frame E FRAME_DEL_CONTACT p a = Some (Inr (), a')
    \<and> replied (ad_out a) [(FRAME_RSP_OK, [])] (ad_out a') \<and> stored_config (ae_nvs E) (ad_nvs a') = Some None"
proof -
  have N: "nvs_ok (ae_nvs E)"
    using assms(1) by (simp add: env_ok_def)
  note shape = admin_shape [OF assms(2)]
  obtain i where i: "position (\<lambda>c. ct_pubkey c = k) (live_contacts (ad_config a)) = Some i"
    using assms(4) by (cases "position (\<lambda>c. ct_pubkey c = k) (live_contacts (ad_config a))") (auto simp: position_None_iff)
  show ?thesis
  proof (rule remove_contact_spec [OF shape i])
    fix cfg
    assume c: "remove_contact_at i (ad_config a) = Some cfg" "config_shape cfg" "n_contacts cfg = n_contacts (ad_config a) - 1"
      "0 < n_contacts (ad_config a)" "cfg = (ad_config a)\<lparr>pc_contacts := pc_contacts cfg, pc_contact_count := pc_contact_count cfg\<rparr>"
    have "n_rooms cfg = n_rooms (ad_config a)"
      by (subst c(5)) simp
    then have none: "next_boot cfg = None"
      using c(3,4) assms(5) by (simp add: next_boot_def)
    obtain s where s: "save_provisioned_config (ae_nvs E) cfg (ad_nvs a) = Some (Inr (), s)" "stored_config (ae_nvs E) s = Some None"
      using assms(7) [OF c(2)] none by (metis Pair_inject old.sum.distinct(1) option.inject save_total [OF N c(2), of "ad_nvs a"])
    obtain w where w: "send_frame (ae_tx E) FRAME_RSP_OK [] (ad_out a) = Some (Inr (), w)" "replied (ad_out a) [(FRAME_RSP_OK, [])] w"
      using send_frame_done [of "[]" "ae_tx E"] assms(6) by auto
    have len: "length k = 32"
      using decode_del_contact_total [of p] assms(3) by auto
    obtain s2 where s2: "delete_inbound_replay_state (ae_nvs E) (k ! 0) s = Some s2" "stored_config (ae_nvs E) s2 = Some None"
      using delete_replay_stored [OF N, of "k ! 0" s] s(2) by auto
    have sl: "slice (pc_contacts (ad_config a)) 0 (n_contacts (ad_config a)) = Some (live_contacts (ad_config a))"
      using shape by (simp add: config_shape_def live_defs slice_prefix)
    have "admin_handle_frame E FRAME_DEL_CONTACT p a = Some (Inr (), a\<lparr>ad_config := cfg, ad_nvs := s2, ad_out := w\<rparr>)"
      using len by (simp add: admin_handle_frame_def frame_types admin_del_contact_def assms(3) sl i c(1) persist_or_rollback_def s(1)
          reply_ok_def on_out_def on_part_def send_ok_def w(1) [unfolded frame_types] get_at_def s2(1))
    then show ?thesis
      using w(2) s2(2) by (intro exI [of _ "a\<lparr>ad_config := cfg, ad_nvs := s2, ad_out := w\<rparr>"]) simp
  qed
qed

text \<open>A deletion whose save fails: the count is rolled back downwards, so a second contact is lost.\<close>

lemma failed_deletion_drops_two:
  assumes a: "admin_ok E a" and d: "decode_del_contact p = Some (Inr k)" and two: "2 \<le> n_contacts (ad_config a)"
    and k: "position (\<lambda>c. ct_pubkey c = k) (live_contacts (ad_config a)) = Some i"
    and fail: "\<And>c. \<exists>s. save_provisioned_config (ae_nvs E) c (ad_nvs a) = Some (Inl (), s)"
    and tx: "\<not> tx_failed (ae_tx E)"
    and run: "admin_handle_frame E FRAME_DEL_CONTACT p a = Some (r, a')"
  shows "n_contacts (ad_config a') = n_contacts (ad_config a) - 2"
proof (rule remove_contact_spec [OF admin_shape [OF a] k])
  fix cfg
  assume c: "remove_contact_at i (ad_config a) = Some cfg" "n_contacts cfg = n_contacts (ad_config a) - 1"
  have sl: "slice (pc_contacts (ad_config a)) 0 (n_contacts (ad_config a)) = Some (live_contacts (ad_config a))"
    using admin_shape [OF a] by (simp add: config_shape_def live_defs slice_prefix)
  obtain s where s: "save_provisioned_config (ae_nvs E) cfg (ad_nvs a) = Some (Inl (), s)"
    using fail by blast
  have "pc_contact_count cfg \<noteq> 0"
    using c(2) two by (auto simp: unat_eq_zero)
  then have "n_contacts (rollback CK_Contact cfg) = n_contacts (ad_config a) - 2"
    using c(2) count_down [of "pc_contact_count cfg"] two by (simp add: dec_sat_def)
  moreover have "ad_config a' = rollback CK_Contact cfg"
    using run
    by (auto simp: admin_handle_frame_def frame_types admin_del_contact_def d sl k c(1) persist_or_rollback_def s
        reply_error_def on_out_def on_part_def and_then_def bind_eq_Some_conv split: option.splits sum.splits)
  ultimately show ?thesis
    by simp
qed

section \<open>An instance\<close>

definition admin_env :: "(demo_store, bytes) AdminEnv" where
  "admin_env = \<lparr>ae_crypto = demo_prims, ae_curve = demo_curve, ae_nvs = demo_nvs, ae_part = demo_part,
     ae_identity = from_seed demo_curve (zeros 32), ae_gps = GpsStatus_never, ae_battery = BatteryStatus_unknown,
     ae_queue = (\<lambda>_. True), ae_tx = (\<lambda>_ _. True)\<rparr>"

definition demo_admin :: "(demo_store, bytes) Admin" where
  "demo_admin = \<lparr>ad_config = demo_config, ad_name = zeros 32, ad_name_len = 0, ad_nvs = (\<lambda>_. None, []), ad_hist = None,
     ad_events = [], ad_dropped = 0, ad_out = []\<rparr>"

lemma admin_env_ok: "env_ok admin_env" "\<not> tx_failed (ae_tx admin_env)" "ae_nvs admin_env = demo_nvs"
  by (simp_all add: env_ok_def admin_env_def demo_nvs_ok demo_part_ok(1) from_seed_def demo_curve_def sign_def Let_def tx_failed_def)

lemma admin_demo_ok: "admin_ok admin_env demo_admin" "rooms_sound (config_view (ad_config demo_admin))"
  "live_contacts (ad_config demo_admin) = [demo_room_contact]" "live_rooms (ad_config demo_admin) = [demo_extra]"
proof -
  show l: "live_contacts (ad_config demo_admin) = [demo_room_contact]" "live_rooms (ad_config demo_admin) = [demo_extra]"
    by (simp_all add: demo_admin_def demo_config_def live_defs)
  show "admin_ok admin_env demo_admin"
    by (simp add: admin_ok_def demo_admin_def demo_config_ok)
  show "rooms_sound (config_view (ad_config demo_admin))"
    by (simp add: rooms_sound_def config_view_def l demo_extra_def demo_room_contact_def)
qed

text \<open>The contacts of the instance are listed.\<close>

lemma admin_request_answered_witness:
  "\<exists>a' rs. admin_handle_frame admin_env FRAME_QUERY_CONTACTS [] demo_admin = Some (Inr (), a')
    \<and> rs \<noteq> [] \<and> fst (last rs) = FRAME_RSP_CONTACTS_DONE \<and> replied [] rs (ad_out a')"
proof -
  have t: "FRAME_QUERY_CONTACTS \<in> admin_requests" "answer_types FRAME_QUERY_CONTACTS = {FRAME_RSP_CONTACTS_DONE}"
    "FRAME_QUERY_CONTACTS \<noteq> FRAME_QUERY_STATUS" "FRAME_QUERY_CONTACTS \<notin> {FRAME_ADD_ROOM, FRAME_DEL_ROOM}"
    "FRAME_QUERY_CONTACTS \<noteq> FRAME_EXPORT_HISTORY"
    by (simp_all add: admin_requests_def answer_types_def frame_types)
  have "ad_out demo_admin = []"
    by (simp add: demo_admin_def)
  then show ?thesis
    using admin_request_answered [OF admin_env_ok(1) admin_demo_ok(1), of FRAME_QUERY_CONTACTS "[]"] t admin_env_ok(2) by auto
qed

text \<open>The deletion of the instance's room by DEL_ROOM.\<close>

lemma admin_edit_durable_witness:
  "\<exists>r a'. admin_handle_frame admin_env FRAME_DEL_ROOM (replicate 32 0x41) demo_admin = Some (r, a') \<and> admin_ok admin_env a'
    \<and> r = Inr ()"
proof -
  have t: "FRAME_DEL_ROOM \<in> config_edits" "\<not> drops_room FRAME_DEL_ROOM (replicate 32 0x41) (config_view (ad_config demo_admin))"
    by (simp_all add: config_edits_def drops_room_def frame_types)
  have unit: "r = Inr () \<or> r = Inl ()" for r :: "unit + unit"
    by (cases r) auto
  show ?thesis
    using admin_edit_durable [OF admin_env_ok(1) admin_demo_ok(1) t(1) admin_demo_ok(2) t(2)] admin_env_ok(2) unit by blast
qed

text \<open>A name of 31 letters.\<close>

lemma long_device_name_panics_witness:
  "\<exists>a'. admin_handle_frame admin_env FRAME_SET_DEVICE_NAME (text_wire (replicate 31 0x41)) demo_admin = Some (Inr (), a')
    \<and> admin_handle_frame admin_env FRAME_QUERY_STATUS [] a' = None"
proof -
  have "\<exists>s. identity_set_name (ae_nvs admin_env) (replicate 31 0x41) (ad_nvs demo_admin) = Some (Inr (), s)"
    by (simp add: admin_env_ok(3) demo_admin_def identity_set_name_def nvs_open_ns_def demo_nvs_def demo_put_def slice_def nvs_set_def MAX_NAME_LEN_def)
  then show ?thesis
    using long_device_name_panics [OF admin_env_ok(1,2), of "replicate 31 0x41" demo_admin _ "[]"] by auto
qed

text \<open>The instance has one contact, a room.\<close>

lemma room_contact_deletion_unprovisions_witness:
  "\<exists>a'. admin_handle_frame admin_env FRAME_DEL_CONTACT (replicate 32 0x41) demo_admin = Some (Inr (), a')
    \<and> stored_config demo_nvs (ad_nvs a') = Some None"
proof -
  have d: "decode_del_contact (replicate 32 0x41) = Some (Inr (replicate 32 0x41))"
    by (simp add: decode_del_contact_def slice_def)
  have saves: "\<exists>s. save_provisioned_config (ae_nvs admin_env) c (ad_nvs demo_admin) = Some (Inr (), s)" if "config_shape c" for c
    using serialize_config_bytes [OF that, of "zeros MAX_BLOB_LEN"] blob_fits [OF that]
    by (simp add: save_provisioned_config_def nvs_open_ns_def admin_env_ok(3) demo_admin_def demo_nvs_def demo_put_def nvs_set_def slice_def put_def)
  have "n_contacts (ad_config demo_admin) \<le> n_rooms (ad_config demo_admin)"
    "replicate 32 0x41 \<in> ct_pubkey ` set (live_contacts (ad_config demo_admin))"
    by (simp_all add: admin_demo_ok(3) demo_room_contact_def) (simp add: demo_admin_def demo_config_def)
  then show ?thesis
    using room_contact_deletion_unprovisions [OF admin_env_ok(1) admin_demo_ok(1) d _ _ admin_env_ok(2) saves] admin_env_ok(3) by auto
qed

end
