(* ===== verification/Spec2Isabelle.thy ===== *)
theory Spec2Isabelle
  imports Codec Staging Policy History_Region Dispatcher Room_Server Inbound Rx_Loop Region_Scope Screen_Lock Room_Sync_Phase Rx_Delivery Config_Blob Advert Stores
    Admin_Safety
begin

text \<open>
  MeshCadet: a verification of its protocol crate and of the core of its firmware.

  The program.  MeshCadet is a handheld messenger on a LoRa mesh.  A guardian provisions it over USB with
  contacts, channels, room servers, a region and a PIN; from then on it exchanges encrypted direct
  messages with the provisioned contacts, group messages on the provisioned channel and posts with the
  provisioned rooms.  The crate \<open>protocol\<close> holds the wire formats, the policy and the data structures that
  are written to flash; \<open>firmware-core\<close> holds the decisions of the firmware that run without hardware;
  \<open>firmware\<close> is the device: the dispatcher loop, the USB servers, the stores and the UI task; \<open>host\<close> is
  the provisioning tool.

  How the parts interact.  A received frame is looked up in the duplicate filter, parsed, and dispatched by
  payload type (\<open>on_receive\<close>).  A handler finds the sender by the one-byte hash in the payload, derives the
  pairwise secret, checks and decrypts the envelope, and then changes the state: the replay guard of the
  contact in flash, the history, the room session and its drain window, the table of sends that await an
  acknowledgement, the queue of frames to send, the events for the UI.  Every frame the device emits passes
  the region gate, which scopes it to the configured region or refuses it.

  Conventions (Prelude).  Integers keep their width as words, \<open>usize\<close> values are naturals, byte slices are
  lists.  A computation that may panic has the type \<open>'a rust\<close>, where \<open>None\<close> is the panic; a \<open>Result\<close> is a sum
  whose left side is the error; a buffer to be filled is an argument and a result.  Integer arithmetic
  wraps, as in the release profile of the firmware, and \<open>debug_assert\<close> is not modelled.  Log output is
  left out.  The cryptographic primitives (AES-128, HMAC-SHA-256, SHA-256 in \<open>crypto_prims\<close>; SHA-512,
  Ed25519 and X25519 in \<open>curve_prims\<close>) are parameters; \<open>crypto_ok\<close> and \<open>curve_ok\<close> state the documented
  behaviour the code relies on (lengths, decryption inverts encryption, Diffie-Hellman commutes) and are
  inhabited by \<open>demo_prims\<close> and \<open>demo_curve\<close>, on which the witnesses are evaluated.

  The theories and the code they model.

    \<^item> Wire: \<open>protocol/src/header.rs\<close>, \<open>frame.rs\<close>, the constants of \<open>lib.rs\<close>.  The header byte, the path-length
      byte, the received-frame parser; the parser accepts exactly the documented layout.
    \<^item> Crypto, Codec: \<open>crypto.rs\<close>, \<open>codec.rs\<close>.  The ECB loops and the encrypt-then-MAC envelope, direct and
      group messages, path returns; round trips, exact rejection, no panic on hostile input.
    \<^item> Region, Region_Scope: \<open>region.rs\<close>, \<open>dedup.rs\<close>, \<open>firmware-core/src/region_scope.rs\<close>, \<open>region_admin.rs\<close>.
      Region names, keys and transport codes, the scope of a boot, the flood-frame writers, the duplicate
      key; emission fails closed, relaying does not change the duplicate key.
    \<^item> Policy, Staging, Bounded_Array: \<open>policy.rs\<close>, \<open>staging.rs\<close>.  The allowlist and the staging of contacts and
      channels, as instances of the locale \<open>bounded_store\<close>.
    \<^item> History, History_Region, Bounded_Log: \<open>history.rs\<close>, \<open>history_region.rs\<close>.  The stored message, the ring
      and the two-sector flash region, as instances of the locale \<open>bounded_log\<close>.  A compaction is the
      list of its sector stores (\<open>compact_stores\<close>), run in order; cut short after any of them, in the middle of one
      too, it loses nothing that was there before, except for the torn header that is recorded.
    \<^item> Dispatcher: \<open>firmware-core/src/dispatcher.rs\<close>.  Duplicate filter, airtime budget, transmit queue,
      outstanding sends; the queue refines a bounded FIFO, every unacknowledged send is reported.
    \<^item> Identity: \<open>identity.rs\<close>.  Seeds and the shared secret, with its panic on keys that are not points.
    \<^item> Room_Codec, Room_Server: \<open>room.rs\<close>.  The codec of room servers and the state machine
      \<open>RoomServerDouble\<close> that stands for a stock server; its invariant over every reachable state, until its 32-bit
      clock has been used up.
    \<^item> Room_Session, Room_Sync_Phase: \<open>firmware-core/src/room_session.rs\<close>.  The client of a room: login, clock,
      posts, pushes, the drain window; composed with the server, a backlog arrives completely and in order,
      a post is never refused, suppression of notifications is bounded.
    \<^item> Inbound: \<open>inbound_dm.rs\<close>, \<open>inbound_replay.rs\<close>.  The replay guard, which refines a rule over everything
      accepted so far.
    \<^item> Prov_Frame, Prov_Payload, Rx_Loop: \<open>provisioning.rs\<close>, \<open>rx_loop_guard.rs\<close> and the receive loops of the two
      USB servers.  Framing with CRC-16, every payload codec, delivery of frames in order from a byte stream.
    \<^item> Screen_Lock: \<open>pin_menu.rs\<close>, \<open>lock_store.rs\<close>, \<open>runtime_settings_store.rs\<close>, \<open>ui/lock.rs\<close> and the lock of the
      UI runtime.  The lock opens only for the PIN, guessing is slowed to a bound, settings survive.
    \<^item> Config_Store, Config_Blob: \<open>firmware-core/src/config_store.rs\<close>, \<open>room_admin.rs\<close>.  The provisioned
      configuration, its edits and its stored blob; a save loads back while every room has a contact, no blob panics the loader, the older format
      migrates; the lengths of the names are taken as stored.
    \<^item> Advert: \<open>protocol/src/advert.rs\<close>, \<open>firmware-core/src/advert.rs\<close>.  The signed card of the device and its
      timestamps, which increase until the counter saturates.
    \<^item> Effects: a program that returns, fails or panics over a state that changes in each case, its total
      specifications \<open>owp\<close>, and the interfaces of the NVS (\<open>nvs_prims\<close>, \<open>nvs_ok\<close>) and of a raw flash
      partition (\<open>part_prims\<close>, \<open>part_ok\<close>).  A failed NVS write leaves the old or the new contents of its key, a failed
      flash operation anything in its range; a partition on which none fails is \<open>part_works\<close>.
    \<^item> Stores: the NVS stores \<open>firmware/src/*_store.rs\<close> and \<open>room_session.rs\<close>.  Whatever fails, the device
      boots with the old configuration, the new one or none; an erased room session does not come back.
    \<^item> History_Store: \<open>firmware/src/history_store.rs\<close>.  The flash store of the conversations, with claims,
      compaction, export, clearing and the migration of the older store; an append changes one
      conversation and a load presents the newest entries of each; both report a flash error only when an
      access failed.
    \<^item> Serial, Config_Edit, Admin_Server: \<open>firmware/src/admin_server.rs\<close>.  The frames written to the USB
      serial, what the edits of the configuration do to its lists, and every request of the admin server.
      Admin_Arms and Admin_Safety show that every request is answered without a panic and that an edit
      answered with OK is made and survives a reboot, with the two requests for which this fails.
    \<^item> Gps: \<open>firmware-core/src/gps.rs\<close>.  The baud probe, the sentence parsers, the duty cycle, and a calendar
      that is the Gregorian one.
    \<^item> Telemetry, Battery: \<open>telemetry.rs\<close>, \<open>battery.rs\<close>.  The location and status answers with their decoders;
      the charge curve, the displayed level and the settled voltage.
    \<^item> Rx_Path: \<open>on_receive\<close> of \<open>firmware/src/main.rs\<close> and every handler under it.  Rx_Safety shows what a frame
      cannot do (change anything without a right MAC, panic, answer without a region) and the two panics
      that remain; Rx_Delivery follows a message from the sender's text to the receiver's history and back
      to the sender's acknowledgement, and shows a second copy inert.
    \<^item> Hoare: weakest preconditions for computations that may panic, partial and total.

  Loops and bounds.  Loops over slices are structural recursions over the list or the remaining count;
  the digit, entry and hysteresis loops carry termination proofs.  No fuel is used in the code's
  definitions; runs of several steps (\<open>sync_rounds\<close>, \<open>receive_all\<close>, \<open>run_guard\<close>) recurse over the list of what happens or
  over a count that the properties show to be enough.

  Not modelled.  The radio, GPS, display, touch and ADC drivers and the threads around them, because they
  are hardware access; the third-party cryptography; the UI screens apart from the lock; the host command
  line; the simulators and the device-report tools; the main loop outside the receive path (boot,
  schedulers, the command queue).  The receive path reads and writes the replay guard and the room session through
  the stores of the theory Stores, whose NVS may fail; the properties that need a working one say so.
\<close>

end
